(* ===== verification/Prelude.thy ===== *)
theory Prelude
  imports Main "HOL-Library.Word"
begin

text \<open>
  Shared vocabulary of the development: the machine integers of the C sources, the status
  codes of the server, big-endian byte helpers and the generic lemmas on words and lists
  that the component theories use. C conventions: a byte buffer is a list of \<open>u8\<close>;
  a pointer that may be NULL is an option; an \<open>int\<close> used as a flag is a \<open>bool\<close>;
  \<open>size_t\<close> positions and lengths inside a buffer are \<open>nat\<close> (they are bounded by the
  buffer they index), and 8, 16, 32 and 64 bit values that may wrap are words.
\<close>

unbundle bit_operations_syntax

type_synonym u8 = "8 word"
type_synonym u16 = "16 word"
type_synonym u32 = "32 word"
type_synonym u64 = "64 word"
type_synonym bytes = "u8 list"

text \<open>The status codes of \<open>ztk_err_t\<close> that the modelled sources return.\<close>

datatype ztk_err =
    ZTK_OK
  | ZTK_ERR_INVALID
  | ZTK_ERR_NOMEM
  | ZTK_ERR_AGAIN
  | ZTK_ERR_BUFFER_TOO_SMALL
  | ZTK_ERR_NOT_IMPL
  | ZTK_ERR_IO
  | ZTK_ERR_STATE

text \<open>
  Facts collected per concern: \<open>bytes_simps\<close> evaluates reads of assembled byte strings,
  \<open>inv_simps\<close> holds what the invariants are made of.
\<close>

named_theorems bytes_simps
named_theorems inv_simps

section \<open>Big- and little-endian reads and writes\<close>

definition rd8 :: "bytes \<Rightarrow> nat \<Rightarrow> u8" where
  "rd8 bs i = bs ! i"

definition be16 :: "bytes \<Rightarrow> nat \<Rightarrow> u16" where
  "be16 bs i = push_bit 8 (ucast (bs ! i)) OR ucast (bs ! (i + 1))"

definition be24 :: "bytes \<Rightarrow> nat \<Rightarrow> u32" where
  "be24 bs i = push_bit 16 (ucast (bs ! i)) OR push_bit 8 (ucast (bs ! (i + 1)))
     OR ucast (bs ! (i + 2))"

definition be32 :: "bytes \<Rightarrow> nat \<Rightarrow> u32" where
  "be32 bs i = push_bit 24 (ucast (bs ! i)) OR push_bit 16 (ucast (bs ! (i + 1)))
     OR push_bit 8 (ucast (bs ! (i + 2))) OR ucast (bs ! (i + 3))"

definition le32 :: "bytes \<Rightarrow> nat \<Rightarrow> u32" where
  "le32 bs i = ucast (bs ! i) OR push_bit 8 (ucast (bs ! (i + 1)))
     OR push_bit 16 (ucast (bs ! (i + 2))) OR push_bit 24 (ucast (bs ! (i + 3)))"

definition put_be16 :: "u16 \<Rightarrow> bytes" where
  "put_be16 v = [ucast (drop_bit 8 v), ucast v]"

definition put_be24 :: "u32 \<Rightarrow> bytes" where
  "put_be24 v = [ucast (drop_bit 16 v), ucast (drop_bit 8 v), ucast v]"

definition put_be32 :: "u32 \<Rightarrow> bytes" where
  "put_be32 v = [ucast (drop_bit 24 v), ucast (drop_bit 16 v), ucast (drop_bit 8 v), ucast v]"

lemma length_put_be [simp]:
  "length (put_be16 w) = 2" "length (put_be24 v) = 3" "length (put_be32 v) = 4"
  by (simp_all add: put_be16_def put_be24_def put_be32_def)

lemma nat_diff_add_cases: "(k::nat) \<le> n \<Longrightarrow> k + (n - k) = n"
  by simp

lemma be16_put [simp, bytes_simps]: "be16 (put_be16 v @ rest) 0 = v"
  unfolding be16_def put_be16_def
  by (rule bit_word_eqI) (auto simp: bit_simps)

lemma be32_put [simp, bytes_simps]: "be32 (put_be32 v @ rest) 0 = v"
proof (rule bit_word_eqI)
  fix n assume n: "n < LENGTH(32)"
  consider "n < 8" | "8 \<le> n" "n < 16" | "16 \<le> n" "n < 24" | "24 \<le> n"
    by linarith
  then show "bit (be32 (put_be32 v @ rest) 0) n = bit v n"
    using n by cases (auto simp: be32_def put_be32_def bit_simps)
qed

lemma be24_put: "be24 (put_be24 v @ rest) 0 = take_bit 24 v"
proof (rule bit_word_eqI)
  fix n assume n: "n < LENGTH(32)"
  consider "n < 8" | "8 \<le> n" "n < 16" | "16 \<le> n" "n < 24" | "24 \<le> n"
    by linarith
  then show "bit (be24 (put_be24 v @ rest) 0) n = bit (take_bit 24 v) n"
    using n by cases (auto simp: be24_def put_be24_def bit_simps)
qed

lemma be24_put_small: "unat v < 2 ^ 24 \<Longrightarrow> be24 (put_be24 v @ rest) 0 = v"
  by (simp add: be24_put unsigned_take_bit_eq take_bit_nat_eq_self word_unat_eq_iff)

section \<open>List facts\<close>

lemma take_drop_split: "n \<le> length xs \<Longrightarrow> xs = take n xs @ drop n xs"
  by simp

lemma find_Some_in: "find P xs = Some x \<Longrightarrow> x \<in> set xs \<and> P x"
  by (auto simp: find_Some_iff)

lemma nth_append_length_plus: "(xs @ ys) ! (length xs + i) = ys ! i"
  by (simp add: nth_append)

end
