(* ===== verification/Media_Types.thy ===== *)
theory Media_Types
  imports Prelude
begin

text \<open>
  The data that flows through the server: track types and codec ids with their metadata
  table (\<open>src/media/codec/codec_id.c\<close>), the ingress frame \<open>zms_frame\<close>
  (\<open>include/zms/engine/frame.h\<close>) and the public view of a ring slot \<open>zms_gop_slot\<close>
  (\<open>include/zms/engine/gop/gop_queue.h\<close>), with the frame life cycle of
  \<open>src/engine/frame.c\<close>. A data pointer with its length is one value: \<open>None\<close> is
  NULL, \<open>Some bs\<close> points to the bytes \<open>bs\<close>.
\<close>

section \<open>Tracks and codecs\<close>

datatype zms_track_type = ZMS_TRACK_INVALID | ZMS_TRACK_VIDEO | ZMS_TRACK_AUDIO

datatype zms_codec_id =
    ZMS_CODEC_INVALID
  | ZMS_CODEC_H264
  | ZMS_CODEC_H265
  | ZMS_CODEC_AAC
  | ZMS_CODEC_OPUS
  | ZMS_CODEC_G711A
  | ZMS_CODEC_G711U
  | ZMS_CODEC_AV1
  | ZMS_CODEC_VP8
  | ZMS_CODEC_VP9
  | ZMS_CODEC_H266

record zms_codec_meta =
  m_id :: zms_codec_id
  m_track :: zms_track_type
  m_name :: string
  m_sdp_mime :: string
  m_mpeg_psi_id :: int

definition k_table :: "zms_codec_meta list" where
  "k_table =
    [\<lparr>m_id = ZMS_CODEC_H264, m_track = ZMS_TRACK_VIDEO, m_name = ''H264'',
       m_sdp_mime = ''H264'', m_mpeg_psi_id = 0x1b\<rparr>,
     \<lparr>m_id = ZMS_CODEC_H265, m_track = ZMS_TRACK_VIDEO, m_name = ''H265'',
       m_sdp_mime = ''H265'', m_mpeg_psi_id = 0x24\<rparr>,
     \<lparr>m_id = ZMS_CODEC_AAC, m_track = ZMS_TRACK_AUDIO, m_name = ''AAC'',
       m_sdp_mime = ''mpeg4-generic'', m_mpeg_psi_id = 0x0f\<rparr>,
     \<lparr>m_id = ZMS_CODEC_OPUS, m_track = ZMS_TRACK_AUDIO, m_name = ''Opus'',
       m_sdp_mime = ''opus'', m_mpeg_psi_id = 0x9c\<rparr>,
     \<lparr>m_id = ZMS_CODEC_G711A, m_track = ZMS_TRACK_AUDIO, m_name = ''G711A'',
       m_sdp_mime = ''PCMA'', m_mpeg_psi_id = 0x90\<rparr>,
     \<lparr>m_id = ZMS_CODEC_G711U, m_track = ZMS_TRACK_AUDIO, m_name = ''G711U'',
       m_sdp_mime = ''PCMU'', m_mpeg_psi_id = 0x91\<rparr>,
     \<lparr>m_id = ZMS_CODEC_AV1, m_track = ZMS_TRACK_VIDEO, m_name = ''AV1'',
       m_sdp_mime = ''AV1'', m_mpeg_psi_id = 0x9f\<rparr>,
     \<lparr>m_id = ZMS_CODEC_VP8, m_track = ZMS_TRACK_VIDEO, m_name = ''VP8'',
       m_sdp_mime = ''VP8'', m_mpeg_psi_id = 0x9d\<rparr>,
     \<lparr>m_id = ZMS_CODEC_VP9, m_track = ZMS_TRACK_VIDEO, m_name = ''VP9'',
       m_sdp_mime = ''VP9'', m_mpeg_psi_id = 0x9e\<rparr>,
     \<lparr>m_id = ZMS_CODEC_H266, m_track = ZMS_TRACK_VIDEO, m_name = ''H266'',
       m_sdp_mime = ''H266'', m_mpeg_psi_id = 0x33\<rparr>]"

definition zms_codec_meta_get :: "zms_codec_id \<Rightarrow> zms_codec_meta option" where
  "zms_codec_meta_get i = find (\<lambda>m. m_id m = i) k_table"

definition zms_codec_name :: "zms_codec_id \<Rightarrow> string" where
  "zms_codec_name i = (case zms_codec_meta_get i of Some m \<Rightarrow> m_name m | None \<Rightarrow> ''invalid'')"

definition zms_codec_track_type :: "zms_codec_id \<Rightarrow> zms_track_type" where
  "zms_codec_track_type i =
     (case zms_codec_meta_get i of Some m \<Rightarrow> m_track m | None \<Rightarrow> ZMS_TRACK_INVALID)"

definition zms_codec_mpeg_psi :: "zms_codec_id \<Rightarrow> int" where
  "zms_codec_mpeg_psi i = (case zms_codec_meta_get i of Some m \<Rightarrow> m_mpeg_psi_id m | None \<Rightarrow> 0)"

definition zms_codec_from_mpeg_psi :: "int \<Rightarrow> zms_codec_id" where
  "zms_codec_from_mpeg_psi psi =
     (case find (\<lambda>m. m_mpeg_psi_id m = psi) k_table of
        Some m \<Rightarrow> m_id m
      | None \<Rightarrow>
         (if psi = 0x25 then ZMS_CODEC_H265
          else if psi = 0x34 then ZMS_CODEC_H266
          else if psi = 0x11 \<or> psi = 0x1c then ZMS_CODEC_AAC
          else ZMS_CODEC_INVALID))"

definition zms_codec_count :: nat where
  "zms_codec_count = length k_table"

text \<open>The parts of the C string library the lookup by name uses, in the C locale.\<close>

definition c_tolower :: "char \<Rightarrow> char" where
  "c_tolower c = (let n = of_char c :: nat in
     if 65 \<le> n \<and> n \<le> 90 then char_of (n + 32) else c)"

definition strcaseeq :: "string \<Rightarrow> string \<Rightarrow> bool" where
  "strcaseeq a b = (map c_tolower a = map c_tolower b)"

fun is_prefix_of :: "'a list \<Rightarrow> 'a list \<Rightarrow> bool" where
  "is_prefix_of [] s = True"
| "is_prefix_of (x # xs) [] = False"
| "is_prefix_of (x # xs) (y # ys) = (x = y \<and> is_prefix_of xs ys)"

fun strstr :: "'a list \<Rightarrow> 'a list \<Rightarrow> bool" where
  "strstr [] pat = is_prefix_of pat []"
| "strstr (c # s) pat = (is_prefix_of pat (c # s) \<or> strstr s pat)"

definition zms_codec_id_from_name :: "string option \<Rightarrow> zms_codec_id" where
  "zms_codec_id_from_name name = (case name of
      None \<Rightarrow> ZMS_CODEC_INVALID
    | Some n \<Rightarrow>
       (if n = [] then ZMS_CODEC_INVALID
        else (case find (\<lambda>m. strcaseeq n (m_name m) \<or> strcaseeq n (m_sdp_mime m)) k_table of
            Some m \<Rightarrow> m_id m
          | None \<Rightarrow>
             (if strstr n ''711'' \<or> strstr n ''g711''
              then (if CHR ''u'' \<in> set n \<or> CHR ''U'' \<in> set n \<or> strstr n ''mulaw''
                      \<or> strstr n ''mu-law''
                    then ZMS_CODEC_G711U else ZMS_CODEC_G711A)
              else ZMS_CODEC_INVALID))))"

section \<open>Frames and slots\<close>

text \<open>
  \<open>f_data\<close> is what the data pointer points to, \<open>f_size\<close> the number of bytes of it that
  are in use (the memory may be larger, see \<open>f_capacity\<close>).
\<close>

record zms_frame =
  f_data :: "bytes option"
  f_size :: nat
  f_capacity :: nat
  f_dts_ms :: u64
  f_pts_ms :: u64
  f_codec :: zms_codec_id
  f_track :: zms_track_type
  f_keyframe :: bool
  f_config_frame :: bool
  f_drop_able :: bool
  f_owned :: bool

definition zms_frame_init :: zms_frame where
  "zms_frame_init = \<lparr>f_data = None, f_size = 0, f_capacity = 0, f_dts_ms = 0, f_pts_ms = 0,
     f_codec = ZMS_CODEC_INVALID, f_track = ZMS_TRACK_INVALID, f_keyframe = False,
     f_config_frame = False, f_drop_able = False, f_owned = False\<rparr>"

text \<open>The bytes a scanner called with \<open>(f->data, f->size)\<close> sees.\<close>

definition f_bytes :: "zms_frame \<Rightarrow> bytes" where
  "f_bytes f = (case f_data f of None \<Rightarrow> [] | Some bs \<Rightarrow> take (f_size f) bs)"

record zms_gop_slot =
  s_codec :: zms_codec_id
  s_track :: zms_track_type
  s_dts_ms :: u32
  s_pts_ms :: u32
  s_keyframe :: bool
  s_config_frame :: bool
  s_drop_able :: bool
  s_data :: "bytes option"
  s_len :: nat

definition s_bytes :: "zms_gop_slot \<Rightarrow> bytes" where
  "s_bytes s = (case s_data s of None \<Rightarrow> [] | Some bs \<Rightarrow> take (s_len s) bs)"

definition zms_gop_slot_zero :: zms_gop_slot where
  "zms_gop_slot_zero = \<lparr>s_codec = ZMS_CODEC_INVALID, s_track = ZMS_TRACK_INVALID, s_dts_ms = 0,
     s_pts_ms = 0, s_keyframe = False, s_config_frame = False, s_drop_able = False,
     s_data = None, s_len = 0\<rparr>"

section \<open>Life cycle of a frame\<close>

text \<open>
  \<open>realloc\<close> keeps the old bytes as far as they fit and leaves the rest of the new memory
  unspecified: \<open>mem\<close> is the block of \<open>cap\<close> bytes it returned, \<open>None\<close> when it fails.
  A frame that does not own its data starts from a fresh block (\<open>realloc(NULL, cap)\<close>).
\<close>

definition zms_frame_clear :: "zms_frame \<Rightarrow> zms_frame" where
  "zms_frame_clear f = zms_frame_init"

definition zms_frame_reserve :: "bytes option \<Rightarrow> zms_frame \<Rightarrow> nat \<Rightarrow> ztk_err \<times> zms_frame" where
  "zms_frame_reserve mem f cap =
     (if cap \<le> f_capacity f then (ZTK_OK, f)
      else (case mem of
              None \<Rightarrow> (ZTK_ERR_NOMEM, f)
            | Some p \<Rightarrow> (ZTK_OK, f\<lparr>f_data := Some p, f_capacity := cap, f_owned := True\<rparr>)))"

definition zms_frame_assign ::
  "bytes option \<Rightarrow> zms_frame \<Rightarrow> bytes option \<Rightarrow> nat \<Rightarrow> bool \<Rightarrow> ztk_err \<times> zms_frame" where
  "zms_frame_assign mem f src len copy =
     (if src = None \<and> len \<noteq> 0 then (ZTK_ERR_INVALID, f)
      else if copy then
        (case zms_frame_reserve mem f len of
           (err, f1) \<Rightarrow>
             if err \<noteq> ZTK_OK then (err, f1)
             else (ZTK_OK, f1\<lparr>f_data := (case f_data f1 of
                       None \<Rightarrow> None
                     | Some old \<Rightarrow> Some (take len (case src of None \<Rightarrow> [] | Some bs \<Rightarrow> bs)
                                          @ drop len old)),
                     f_size := len, f_owned := True\<rparr>))
      else (ZTK_OK, (zms_frame_clear f)\<lparr>f_data := src, f_size := len, f_owned := False\<rparr>))"

lemma zms_frame_assign_bytes:
  assumes "src = Some bs" "len \<le> length bs"
    and "copy \<Longrightarrow> len \<le> f_capacity f \<Longrightarrow> \<exists>old. f_data f = Some old \<and> f_capacity f \<le> length old"
    and "zms_frame_assign mem f src len copy = (ZTK_OK, f')"
  shows "f_bytes f' = take len bs \<and> f_size f' = len"
  using assms
  by (auto simp: zms_frame_assign_def zms_frame_reserve_def f_bytes_def zms_frame_clear_def
      split: if_splits option.splits)

section \<open>The codec table is consistent\<close>

lemma codec_table_ids: "i \<noteq> ZMS_CODEC_INVALID \<Longrightarrow> \<exists>m. zms_codec_meta_get i = Some m \<and> m_id m = i"
  by (cases i) (simp_all add: zms_codec_meta_get_def k_table_def)

text \<open>C-table: every codec is recovered from its MPEG-TS stream type.\<close>

lemma codec_psi_roundtrip_all:
  "i \<noteq> ZMS_CODEC_INVALID \<Longrightarrow> zms_codec_from_mpeg_psi (zms_codec_mpeg_psi i) = i"
  by (cases i) (simp_all add: zms_codec_from_mpeg_psi_def zms_codec_mpeg_psi_def
      zms_codec_meta_get_def k_table_def)

end
