(* ===== verification/H264_ES.thy ===== *)
theory H264_ES
  imports Media_Types
begin

text \<open>
  The H.264 elementary stream helpers of \<open>src/media/codec/h264/h264_es.c\<close>: the
  Exp-Golomb reader and the intra-slice test, the scans over the NAL units of an Annex-B
  buffer, the length-prefixed (AVCC) sample parser, and the routines that copy or prepend
  NAL units. \<open>mpeg4_h264_annexb_nalu\<close>, which splits an Annex-B buffer and calls a handler
  once per NAL unit, belongs to the libflv submodule: it is the parameter \<open>nalus\<close>, which
  gives the NAL units in the order the handler receives them. Its handlers are the folds
  below. Where the code can read outside its buffer the model returns \<open>None\<close>. The shift
  \<open>1u << zeros\<close> of the Exp-Golomb reader is undefined in C for 32 or more leading zeros;
  \<open>push_bit\<close> gives 0 there, and \<open>h264_ue_shift_defined\<close> says when the C shift is defined.
\<close>

unbundle bit_operations_syntax

type_synonym nal_split = "bytes \<Rightarrow> bytes list"

section \<open>NAL unit type and Exp-Golomb codes\<close>

definition h264_nal_type :: "u8 \<Rightarrow> nat" where
  "h264_nal_type b = unat (b AND 0x1f)"

definition h264_bit_get :: "bytes \<Rightarrow> nat \<Rightarrow> bool \<times> nat" where
  "h264_bit_get nal bitpos =
     (if bitpos \<ge> length nal * 8 then (False, bitpos)
      else (bit (nal ! (bitpos div 8)) (7 - bitpos mod 8), bitpos + 1))"

text \<open>The loop that counts leading zero bits; it stops at a one bit or at the end.\<close>

function h264_ue_zeros :: "bytes \<Rightarrow> nat \<Rightarrow> nat \<Rightarrow> nat \<times> nat" where
  "h264_ue_zeros nal bitpos zeros =
     (case h264_bit_get nal bitpos of
        (b, bitpos') \<Rightarrow>
          if \<not> b \<and> bitpos' < length nal * 8 then h264_ue_zeros nal bitpos' (zeros + 1)
          else (zeros, bitpos'))"
  by pat_completeness auto
termination
  by (relation "measure (\<lambda>(nal, bitpos, zeros). length nal * 8 - bitpos)")
    (auto simp: h264_bit_get_def split: if_splits)

fun h264_ue_bits :: "bytes \<Rightarrow> nat \<Rightarrow> nat \<Rightarrow> u32 \<Rightarrow> u32 \<times> nat" where
  "h264_ue_bits nal 0 bitpos val = (val, bitpos)"
| "h264_ue_bits nal (Suc i) bitpos val =
     (case h264_bit_get nal bitpos of
        (b, bitpos') \<Rightarrow> h264_ue_bits nal i bitpos' (push_bit 1 val OR (if b then 1 else 0)))"

definition h264_ue_shift_defined :: "bytes \<Rightarrow> nat \<Rightarrow> bool" where
  "h264_ue_shift_defined nal bitpos = (fst (h264_ue_zeros nal bitpos 0) < 32)"

definition h264_read_ue :: "bytes \<Rightarrow> nat \<Rightarrow> u32 \<times> nat" where
  "h264_read_ue nal bitpos =
     (case h264_ue_zeros nal bitpos 0 of
        (zeros, p1) \<Rightarrow>
          (case h264_ue_bits nal zeros p1 0 of
             (val, p2) \<Rightarrow> (val + push_bit zeros 1 - 1, p2)))"

definition h264_nal_is_intra_i :: "bytes \<Rightarrow> bool" where
  "h264_nal_is_intra_i nal =
     (if length nal < 3 then False
      else if h264_nal_type (nal ! 0) = 5 then True
      else if h264_nal_type (nal ! 0) \<noteq> 1 then False
      else (let p = snd (h264_read_ue nal 8);
                st = fst (h264_read_ue nal p);
                m = unat st mod 5
            in m = 2 \<or> m = 4))"

section \<open>Scans over the NAL units of an Annex-B buffer\<close>

text \<open>The handlers, one call per NAL unit; the context is the value folded.\<close>

definition h264_scan_sync_key :: "bool \<Rightarrow> bytes \<Rightarrow> bool" where
  "h264_scan_sync_key found nalu =
     (if found \<or> nalu = [] then found
      else let t = h264_nal_type (nalu ! 0) in
        if t \<ge> 1 \<and> t \<le> 5 \<and> h264_nal_is_intra_i nalu then True else found)"

definition h264_scan_idr :: "bool \<Rightarrow> bytes \<Rightarrow> bool" where
  "h264_scan_idr found nalu =
     (if found \<or> nalu = [] then found
      else if h264_nal_type (nalu ! 0) = 5 then True else found)"

definition zms_h264_annexb_is_sync_key :: "nal_split \<Rightarrow> bytes \<Rightarrow> bool" where
  "zms_h264_annexb_is_sync_key nalus annexb =
     (if length annexb < 4 then False else foldl h264_scan_sync_key False (nalus annexb))"

definition zms_h264_annexb_is_idr :: "nal_split \<Rightarrow> bytes \<Rightarrow> bool" where
  "zms_h264_annexb_is_idr nalus annexb =
     (if length annexb < 4 then False else foldl h264_scan_idr False (nalus annexb))"

text \<open>Parameter sets: the last SPS and the last PPS of the buffer.\<close>

record h264_param_ctx =
  p_sps :: "bytes option"
  p_pps :: "bytes option"

definition h264_scan_params :: "h264_param_ctx \<Rightarrow> bytes \<Rightarrow> h264_param_ctx" where
  "h264_scan_params c nalu =
     (if nalu = [] then c
      else if h264_nal_type (nalu ! 0) = 7 then c\<lparr>p_sps := Some nalu\<rparr>
      else if h264_nal_type (nalu ! 0) = 8 then c\<lparr>p_pps := Some nalu\<rparr>
      else c)"

definition zms_h264_annexb_extract_sps_pps :: "nal_split \<Rightarrow> bytes \<Rightarrow> bool \<times> h264_param_ctx" where
  "zms_h264_annexb_extract_sps_pps nalus annexb =
     (let c0 = \<lparr>p_sps = None, p_pps = None\<rparr> in
      if annexb = [] then (False, c0)
      else let c = foldl h264_scan_params c0 (nalus annexb) in
        (p_sps c \<noteq> None \<and> p_pps c \<noteq> None, c))"

record h264_first_mb_ctx =
  fm_found :: bool
  fm_first_mb :: bool

definition h264_scan_first_vcl :: "h264_first_mb_ctx \<Rightarrow> bytes \<Rightarrow> h264_first_mb_ctx" where
  "h264_scan_first_vcl c nalu =
     (if fm_found c \<or> nalu = [] then c
      else let t = h264_nal_type (nalu ! 0) in
        if t \<ge> 1 \<and> t \<le> 5
        then \<lparr>fm_found = True, fm_first_mb = (length nalu \<ge> 2 \<and> nalu ! 1 AND 0x80 \<noteq> 0)\<rparr>
        else c)"

definition zms_h264_annexb_first_slice :: "nal_split \<Rightarrow> bytes \<Rightarrow> bool" where
  "zms_h264_annexb_first_slice nalus annexb =
     (if length annexb < 4 then True
      else let c = foldl h264_scan_first_vcl \<lparr>fm_found = False, fm_first_mb = False\<rparr> (nalus annexb)
        in \<not> fm_found c \<or> fm_first_mb c)"

section \<open>Length-prefixed (AVCC) samples\<close>

text \<open>
  \<open>h264_avcc_read_be_size\<close> reads a big-endian length of \<open>nalu_bytes\<close> bytes; the walks below
  take the rest of the sample, the part of the buffer from \<open>off\<close> on.
\<close>

fun h264_avcc_be_acc :: "u32 \<Rightarrow> bytes \<Rightarrow> u32" where
  "h264_avcc_be_acc n [] = n"
| "h264_avcc_be_acc n (b # bs) = h264_avcc_be_acc (push_bit 8 n + ucast b) bs"

definition h264_avcc_read_be_size :: "bytes \<Rightarrow> nat \<Rightarrow> nat" where
  "h264_avcc_read_be_size p nalu_bytes = unat (h264_avcc_be_acc 0 (take nalu_bytes p))"

function h264_avcc_valid_from :: "nat \<Rightarrow> bytes \<Rightarrow> bool" where
  "h264_avcc_valid_from nb p =
     (if nb = 0 \<or> length p < nb then p = []
      else let n = h264_avcc_read_be_size p nb; q = drop nb p in
        if n = 0 \<or> n > length q then False else h264_avcc_valid_from nb (drop n q))"
  by pat_completeness auto
termination
  by (relation "measure (\<lambda>(nb, p). length p)") auto

definition h264_avcc_sample_valid :: "bytes \<Rightarrow> nat \<Rightarrow> bool" where
  "h264_avcc_sample_valid p nb =
     (if nb < 1 \<or> nb > 4 \<or> length p < nb then False else h264_avcc_valid_from nb p)"

definition h264_es_is_annexb_sample :: "bytes \<Rightarrow> nat \<Rightarrow> bool" where
  "h264_es_is_annexb_sample p avcc_nalu_bytes =
     (if length p < 3 then False
      else if take 3 p = [0, 0, 1] then True
      else if length p \<ge> 4 \<and> take 4 p = [0, 0, 0, 1] then
        \<not> (avcc_nalu_bytes > 0 \<and> h264_avcc_sample_valid p avcc_nalu_bytes)
      else False)"

definition h264_avcc_nalu_bytes :: "bytes \<Rightarrow> nat" where
  "h264_avcc_nalu_bytes d =
     (case find (h264_avcc_sample_valid d) [4, 3, 2, 1] of None \<Rightarrow> 0 | Some n \<Rightarrow> n)"

function h264_avcc_scan_from :: "nat \<Rightarrow> bytes \<Rightarrow> h264_param_ctx \<Rightarrow> h264_param_ctx" where
  "h264_avcc_scan_from nb p c =
     (if nb = 0 \<or> length p < nb then c
      else let n = h264_avcc_read_be_size p nb; q = drop nb p in
        if n = 0 \<or> n > length q then c
        else h264_avcc_scan_from nb (drop n q) (h264_scan_params c (take n q)))"
  by pat_completeness auto
termination
  by (relation "measure (\<lambda>(nb, p, c). length p)") auto

definition h264_avcc_es_extract_sps_pps :: "bytes \<Rightarrow> bool \<times> h264_param_ctx" where
  "h264_avcc_es_extract_sps_pps d =
     (let c0 = \<lparr>p_sps = None, p_pps = None\<rparr> in
      if length d < 5 then (False, c0)
      else let nb = h264_avcc_nalu_bytes d in
        if nb = 0 then (False, c0)
        else let c = h264_avcc_scan_from nb d c0 in (p_sps c \<noteq> None \<and> p_pps c \<noteq> None, c))"

function h264_avcc_slice_from :: "nat \<Rightarrow> bytes \<Rightarrow> bool" where
  "h264_avcc_slice_from nb p =
     (if nb = 0 \<or> length p < nb then False
      else let n = h264_avcc_read_be_size p nb; q = drop nb p in
        if n = 0 \<or> n > length q then False
        else let t = h264_nal_type (q ! 0) in
          if t \<ge> 1 \<and> t \<le> 5 then True else h264_avcc_slice_from nb (drop n q))"
  by pat_completeness auto
termination
  by (relation "measure (\<lambda>(nb, p). length p)") auto

definition h264_avcc_es_has_slice :: "bytes \<Rightarrow> bool" where
  "h264_avcc_es_has_slice d =
     (if length d < 5 then False
      else let nb = h264_avcc_nalu_bytes d in
        if nb = 0 then False else h264_avcc_slice_from nb d)"

section \<open>The hand-written start code scan\<close>

text \<open>
  The three-byte comparison \<open>p[0] == 0 && p[1] == 0 && p[2] == 1\<close> with its short circuits:
  the code does not compare \<open>p\<close> with the end before it reads \<open>p[1]\<close> and \<open>p[2]\<close>.
\<close>

definition start_code3 :: "bytes \<Rightarrow> bool option" where
  "start_code3 p =
     (if p ! 0 \<noteq> 0 then Some False
      else if length p < 2 then None
      else if p ! 1 \<noteq> 0 then Some False
      else if length p < 3 then None
      else Some (p ! 2 = 1))"

function h264_has_nal_type_from :: "nat \<Rightarrow> bytes \<Rightarrow> bool option" where
  "h264_has_nal_type_from want p =
     (if p = [] then Some False
      else case (if length p \<ge> 4 \<and> take 4 p = [0, 0, 0, 1] then Some 4
                 else case start_code3 p of
                   None \<Rightarrow> None
                 | Some sc \<Rightarrow> Some (if sc then 3 else 0)) of
        None \<Rightarrow> None
      | Some start \<Rightarrow>
          if start = 0 then h264_has_nal_type_from want (drop 1 p)
          else let nal = drop start p in
            if nal = [] then Some False
            else if h264_nal_type (nal ! 0) = want then Some True
            else h264_has_nal_type_from want (drop 1 nal))"
  by pat_completeness auto
termination
  by (relation "measure (\<lambda>(want, p). length p)") (auto split: option.splits if_splits)

definition h264_annexb_has_nal_type :: "bytes \<Rightarrow> nat \<Rightarrow> bool option" where
  "h264_annexb_has_nal_type annexb want =
     (if length annexb < 5 then Some False else h264_has_nal_type_from want annexb)"

definition zms_h264_es_is_annexb :: "bytes \<Rightarrow> bool" where
  "zms_h264_es_is_annexb d = h264_es_is_annexb_sample d 0"

definition zms_h264_es_has_slice :: "bytes \<Rightarrow> bool option" where
  "zms_h264_es_has_slice d =
     (if length d < 5 then Some False
      else if zms_h264_es_is_annexb d then
        (case h264_annexb_has_nal_type d 1 of
           None \<Rightarrow> None
         | Some True \<Rightarrow> Some True
         | Some False \<Rightarrow> h264_annexb_has_nal_type d 5)
      else Some (h264_avcc_es_has_slice d))"

definition zms_h264_es_starts_access_unit :: "nal_split \<Rightarrow> bytes \<Rightarrow> bool option" where
  "zms_h264_es_starts_access_unit nalus es =
     (if length es < 4 then Some True
      else case zms_h264_es_has_slice es of
             None \<Rightarrow> None
           | Some False \<Rightarrow> Some False
           | Some True \<Rightarrow>
               if \<not> zms_h264_es_is_annexb es then Some True
               else Some (zms_h264_annexb_first_slice nalus es))"

declare h264_ue_zeros.simps [simp del] h264_avcc_valid_from.simps [simp del]
  h264_avcc_scan_from.simps [simp del] h264_avcc_slice_from.simps [simp del]
  h264_has_nal_type_from.simps [simp del]

end
