(* ===== verification/H264_AU.thy ===== *)
theory H264_AU
  imports H264_ES
begin

text \<open>
  The routines of \<open>src/media/codec/h264/h264_es.c\<close> that write access units: copying the
  VCL NAL units of an Annex-B buffer, prepending SPS and PPS, turning a length-prefixed
  sample into Annex-B and locating the parameter sets of either format. An output buffer
  of \<open>cap\<close> bytes filled up to \<open>pos\<close> is the list of its first \<open>pos\<close> bytes. The
  \<open>memmove\<close> that \<open>prepend\<close> does when body and output overlap moves the body to where the
  copy would have put it, so both cases give the same bytes.
\<close>

unbundle bit_operations_syntax

definition start_code :: bytes where
  "start_code = [0, 0, 0, 1]"

section \<open>Copying the VCL NAL units\<close>

record h264_vcl_ctx =
  v_out :: bytes
  v_err :: bool

definition h264_append_vcl :: "nat \<Rightarrow> h264_vcl_ctx \<Rightarrow> bytes \<Rightarrow> h264_vcl_ctx" where
  "h264_append_vcl cap c nalu =
     (if v_err c \<or> nalu = [] then c
      else let t = h264_nal_type (nalu ! 0) in
        if t < 1 \<or> t > 5 then c
        else if length (v_out c) + 4 + length nalu > cap then c\<lparr>v_err := True\<rparr>
        else c\<lparr>v_out := v_out c @ start_code @ nalu\<rparr>)"

definition zms_h264_annexb_copy_vcl :: "nal_split \<Rightarrow> bytes \<Rightarrow> nat \<Rightarrow> ztk_err \<times> bytes" where
  "zms_h264_annexb_copy_vcl nalus annexb cap =
     (if length annexb < 5 then (ZTK_ERR_INVALID, [])
      else let c = foldl (h264_append_vcl cap) \<lparr>v_out = [], v_err = False\<rparr> (nalus annexb) in
        if v_err c \<or> v_out c = []
        then (if v_err c then ZTK_ERR_BUFFER_TOO_SMALL else ZTK_ERR_INVALID, [])
        else (ZTK_OK, v_out c))"

section \<open>Writing parameter sets in front of a body\<close>

definition annexb_write_nal :: "nat \<Rightarrow> bytes \<Rightarrow> bytes option \<Rightarrow> bytes option" where
  "annexb_write_nal cap out nal =
     (case nal of
        None \<Rightarrow> None
      | Some n \<Rightarrow> if n = [] \<or> length out + 4 + length n > cap then None
                  else Some (out @ start_code @ n))"

definition zms_h264_annexb_prepend_sps_pps ::
  "nal_split \<Rightarrow> bytes option \<Rightarrow> bytes option \<Rightarrow> bytes \<Rightarrow> nat \<Rightarrow> ztk_err \<times> bytes" where
  "zms_h264_annexb_prepend_sps_pps nalus sps pps body cap =
     (if body = [] then (ZTK_ERR_INVALID, [])
      else if fst (zms_h264_annexb_extract_sps_pps nalus body) then
        (if length body > cap then (ZTK_ERR_BUFFER_TOO_SMALL, []) else (ZTK_OK, body))
      else if sps = None \<or> pps = None \<or> sps = Some [] \<or> pps = Some [] then
        (if length body > cap then (ZTK_ERR_BUFFER_TOO_SMALL, []) else (ZTK_OK, body))
      else
        let prefix_max = (4 + length (the sps)) + (4 + length (the pps)) in
        if prefix_max + length body > cap then (ZTK_ERR_BUFFER_TOO_SMALL, [])
        else (case annexb_write_nal cap [] sps of
                None \<Rightarrow> (ZTK_ERR_BUFFER_TOO_SMALL, [])
              | Some o1 \<Rightarrow>
                  (case annexb_write_nal cap o1 pps of
                     None \<Rightarrow> (ZTK_ERR_BUFFER_TOO_SMALL, [])
                   | Some o2 \<Rightarrow>
                       if length o2 + length body > cap then (ZTK_ERR_BUFFER_TOO_SMALL, [])
                       else (ZTK_OK, o2 @ body))))"

section \<open>Either format\<close>

text \<open>
  \<open>from_nalu\<close> is \<open>mpeg4_avc_from_nalu\<close> of libflv, as far as the caller uses it: the
  first SPS and PPS when it returned a positive count and filled both. \<open>mp4toannexb nb d cap\<close>
  is \<open>h264_mp4toannexb\<close>: the bytes written when it returned a positive count.
\<close>

definition zms_h264_es_extract_sps_pps ::
  "nal_split \<Rightarrow> (bytes \<Rightarrow> (bytes \<times> bytes) option) \<Rightarrow> bytes \<Rightarrow> bool \<times> h264_param_ctx" where
  "zms_h264_es_extract_sps_pps nalus from_nalu d =
     (if d = [] then (False, \<lparr>p_sps = None, p_pps = None\<rparr>)
      else if zms_h264_es_is_annexb d then zms_h264_annexb_extract_sps_pps nalus d
      else if fst (h264_avcc_es_extract_sps_pps d) then h264_avcc_es_extract_sps_pps d
      else (case from_nalu d of
              Some (sps, pps) \<Rightarrow> (True, \<lparr>p_sps = Some sps, p_pps = Some pps\<rparr>)
            | None \<Rightarrow> (False, snd (h264_avcc_es_extract_sps_pps d))))"

definition zms_h264_es_to_annexb ::
  "(nat \<Rightarrow> bytes \<Rightarrow> nat \<Rightarrow> bytes option) \<Rightarrow> bytes \<Rightarrow> nat \<Rightarrow> ztk_err \<times> bytes" where
  "zms_h264_es_to_annexb mp4toannexb d cap =
     (if d = [] then (ZTK_ERR_INVALID, [])
      else if zms_h264_es_is_annexb d then
        (if length d > cap then (ZTK_ERR_BUFFER_TOO_SMALL, []) else (ZTK_OK, d))
      else let nb = h264_avcc_nalu_bytes d in
        if nb = 0 then (ZTK_ERR_INVALID, [])
        else (case mp4toannexb nb d cap of
                None \<Rightarrow> (ZTK_ERR_INVALID, [])
              | Some out \<Rightarrow> (ZTK_OK, out)))"

section \<open>What the scans compute\<close>

lemma h264_scan_sync_key_fold:
  "foldl h264_scan_sync_key b us \<longleftrightarrow>
     b \<or> (\<exists>u \<in> set us. u \<noteq> [] \<and> h264_nal_type (u ! 0) \<in> {1..5} \<and> h264_nal_is_intra_i u)"
  by (induction us arbitrary: b) (auto simp: h264_scan_sync_key_def Let_def)

lemma h264_scan_idr_fold:
  "foldl h264_scan_idr b us \<longleftrightarrow> b \<or> (\<exists>u \<in> set us. u \<noteq> [] \<and> h264_nal_type (u ! 0) = 5)"
  by (induction us arbitrary: b) (auto simp: h264_scan_idr_def)

lemma intra_i_type: "h264_nal_is_intra_i u \<Longrightarrow> u \<noteq> [] \<and> h264_nal_type (u ! 0) \<in> {1..5}"
  unfolding h264_nal_is_intra_i_def by (cases u) (simp_all split: if_split_asm)

lemma is_sync_key_iff:
  "zms_h264_annexb_is_sync_key nalus a \<longleftrightarrow>
     4 \<le> length a \<and> (\<exists>u \<in> set (nalus a). h264_nal_is_intra_i u)"
  unfolding zms_h264_annexb_is_sync_key_def h264_scan_sync_key_fold
  using intra_i_type by (simp add: not_less) blast

lemma is_idr_iff:
  "zms_h264_annexb_is_idr nalus a \<longleftrightarrow>
     4 \<le> length a \<and> (\<exists>u \<in> set (nalus a). u \<noteq> [] \<and> h264_nal_type (u ! 0) = 5)"
  by (auto simp: zms_h264_annexb_is_idr_def h264_scan_idr_fold)

text \<open>The VCL NAL units of a list, in order, each behind a four-byte start code.\<close>

definition is_vcl :: "bytes \<Rightarrow> bool" where
  "is_vcl u \<longleftrightarrow> u \<noteq> [] \<and> h264_nal_type (u ! 0) \<in> {1..5}"

definition annexb_join :: "bytes list \<Rightarrow> bytes" where
  "annexb_join us = concat (map (\<lambda>u. start_code @ u) us)"

lemma annexb_join_simps [simp]:
  "annexb_join [] = []" "annexb_join (u # us) = start_code @ u @ annexb_join us"
  "annexb_join (us @ ws) = annexb_join us @ annexb_join ws"
  by (simp_all add: annexb_join_def)

lemma length_start_code [simp]: "length start_code = 4"
  by (simp add: start_code_def)

lemma h264_append_vcl_err: "v_err c \<Longrightarrow> foldl (h264_append_vcl cap) c us = c"
  by (induction us) (simp_all add: h264_append_vcl_def)

lemma h264_append_vcl_fold:
  assumes "\<not> v_err c" "length (v_out c) \<le> cap"
  shows "let c' = foldl (h264_append_vcl cap) c us; out = v_out c @ annexb_join (filter is_vcl us) in
    (if length out \<le> cap then \<not> v_err c' \<and> v_out c' = out else v_err c')"
  using assms
proof (induction us arbitrary: c)
  case Nil
  then show ?case by simp
next
  case (Cons u us)
  show ?case
  proof (cases "is_vcl u")
    case False
    then have "h264_append_vcl cap c u = c"
      using Cons.prems by (auto simp: h264_append_vcl_def is_vcl_def Let_def)
    then show ?thesis using Cons False by simp
  next
    case True
    show ?thesis
    proof (cases "length (v_out c) + 4 + length u > cap")
      case True
      then have "h264_append_vcl cap c u = c\<lparr>v_err := True\<rparr>"
        using Cons.prems \<open>is_vcl u\<close> by (auto simp: h264_append_vcl_def is_vcl_def Let_def)
      then show ?thesis
        using True \<open>is_vcl u\<close> by (simp add: h264_append_vcl_err Let_def)
    next
      case False
      then have step: "h264_append_vcl cap c u = c\<lparr>v_out := v_out c @ start_code @ u\<rparr>"
        using Cons.prems \<open>is_vcl u\<close> by (auto simp: h264_append_vcl_def is_vcl_def Let_def)
      have "length (v_out (c\<lparr>v_out := v_out c @ start_code @ u\<rparr>)) \<le> cap"
        using False by simp
      with Cons.IH [of "c\<lparr>v_out := v_out c @ start_code @ u\<rparr>"] Cons.prems show ?thesis
        using \<open>is_vcl u\<close> by (simp add: step Let_def)
    qed
  qed
qed

end
