(* ===== verification/H265_ES.thy ===== *)
theory H265_ES
  imports H264_AU
begin

text \<open>
  The H.265 elementary stream helpers of \<open>src/media/codec/h265/h265_es.c\<close>: the sync and
  IDR scans, the parameter-set scan, the copy of the VCL NAL units and the routines that
  build an access unit or an Annex-B parameter-set block. As for H.264 the Annex-B splitter
  of libflv is the parameter \<open>nalus\<close>.
\<close>

unbundle bit_operations_syntax

section \<open>Scans\<close>

definition hevc_nal_type :: "u8 \<Rightarrow> nat" where
  "hevc_nal_type b = unat (drop_bit 1 b AND 0x3f)"

definition hevc_is_sync_nal :: "nat \<Rightarrow> bool" where
  "hevc_is_sync_nal t = (t \<ge> 16 \<and> t \<le> 21)"

definition hevc_is_idr_nal :: "nat \<Rightarrow> bool" where
  "hevc_is_idr_nal t = (t = 19 \<or> t = 20)"

definition hevc_scan_sync_key :: "bool \<Rightarrow> bytes \<Rightarrow> bool" where
  "hevc_scan_sync_key found nalu =
     (if found \<or> nalu = [] then found
      else if hevc_is_sync_nal (hevc_nal_type (nalu ! 0)) then True else found)"

definition hevc_scan_idr :: "bool \<Rightarrow> bytes \<Rightarrow> bool" where
  "hevc_scan_idr found nalu =
     (if found \<or> nalu = [] then found
      else if hevc_is_idr_nal (hevc_nal_type (nalu ! 0)) then True else found)"

definition zms_h265_annexb_is_sync_key :: "nal_split \<Rightarrow> bytes \<Rightarrow> bool" where
  "zms_h265_annexb_is_sync_key nalus annexb =
     (if length annexb < 5 then False else foldl hevc_scan_sync_key False (nalus annexb))"

definition zms_h265_annexb_is_idr :: "nal_split \<Rightarrow> bytes \<Rightarrow> bool" where
  "zms_h265_annexb_is_idr nalus annexb =
     (if length annexb < 5 then False else foldl hevc_scan_idr False (nalus annexb))"

record hevc_param_ctx =
  hp_vps :: "bytes option"
  hp_sps :: "bytes option"
  hp_pps :: "bytes option"

definition hevc_scan_params :: "hevc_param_ctx \<Rightarrow> bytes \<Rightarrow> hevc_param_ctx" where
  "hevc_scan_params c nalu =
     (if nalu = [] then c
      else let t = hevc_nal_type (nalu ! 0) in
        if t = 32 then c\<lparr>hp_vps := Some nalu\<rparr>
        else if t = 33 then c\<lparr>hp_sps := Some nalu\<rparr>
        else if t = 34 then c\<lparr>hp_pps := Some nalu\<rparr>
        else c)"

definition zms_h265_annexb_extract_vps_sps_pps ::
  "nal_split \<Rightarrow> bytes \<Rightarrow> bool \<times> hevc_param_ctx" where
  "zms_h265_annexb_extract_vps_sps_pps nalus annexb =
     (let c0 = \<lparr>hp_vps = None, hp_sps = None, hp_pps = None\<rparr> in
      if length annexb < 5 then (False, c0)
      else let c = foldl hevc_scan_params c0 (nalus annexb) in
        (hp_sps c \<noteq> None \<and> hp_sps c \<noteq> Some [] \<and> hp_pps c \<noteq> None \<and> hp_pps c \<noteq> Some [], c))"

text \<open>
  \<open>hevc_pick_param_sets\<close> walks the NAL array of a parsed \<open>hvcC\<close> record (a libflv struct);
  the array is the list of its entries, \<open>None\<close> for an entry without data.
\<close>

definition hevc_pick_step :: "hevc_param_ctx \<Rightarrow> bytes option \<Rightarrow> hevc_param_ctx" where
  "hevc_pick_step c d =
     (case d of
        None \<Rightarrow> c
      | Some nalu \<Rightarrow> hevc_scan_params c nalu)"

definition hevc_pick_param_sets :: "bytes option list \<Rightarrow> bool \<times> hevc_param_ctx" where
  "hevc_pick_param_sets arr =
     (let c = foldl hevc_pick_step \<lparr>hp_vps = None, hp_sps = None, hp_pps = None\<rparr> arr in
      (hp_sps c \<noteq> None \<and> hp_sps c \<noteq> Some [] \<and> hp_pps c \<noteq> None \<and> hp_pps c \<noteq> Some [], c))"

text \<open>\<open>load\<close> is \<open>mpeg4_hevc_decoder_configuration_record_load\<close> of libflv.\<close>

definition zms_h265_hvcc_param_sets ::
  "(bytes \<Rightarrow> bytes option list option) \<Rightarrow> bytes \<Rightarrow> bool \<times> hevc_param_ctx" where
  "zms_h265_hvcc_param_sets load hvcc =
     (let c0 = \<lparr>hp_vps = None, hp_sps = None, hp_pps = None\<rparr> in
      if length hvcc < 7 then (False, c0)
      else (case load hvcc of
              None \<Rightarrow> (False, c0)
            | Some arr \<Rightarrow> hevc_pick_param_sets arr))"

section \<open>Writers\<close>

definition hevc_append_vcl :: "nat \<Rightarrow> h264_vcl_ctx \<Rightarrow> bytes \<Rightarrow> h264_vcl_ctx" where
  "hevc_append_vcl cap c nalu =
     (if v_err c \<or> nalu = [] then c
      else if hevc_nal_type (nalu ! 0) \<ge> 32 then c
      else if length (v_out c) + 4 + length nalu > cap then c\<lparr>v_err := True\<rparr>
      else c\<lparr>v_out := v_out c @ start_code @ nalu\<rparr>)"

definition h265_annexb_write_nal :: "nat \<Rightarrow> bytes \<Rightarrow> bytes option \<Rightarrow> bytes option" where
  "h265_annexb_write_nal cap out nal =
     (case nal of
        None \<Rightarrow> None
      | Some n \<Rightarrow> if n = [] \<or> length out + 4 + length n > cap then None
                  else Some (out @ start_code @ n))"

definition zms_h265_annexb_copy_vcl :: "nal_split \<Rightarrow> bytes \<Rightarrow> nat \<Rightarrow> ztk_err \<times> bytes" where
  "zms_h265_annexb_copy_vcl nalus annexb cap =
     (if length annexb < 5 then (ZTK_ERR_INVALID, [])
      else let c = foldl (hevc_append_vcl cap) \<lparr>v_out = [], v_err = False\<rparr> (nalus annexb) in
        if v_err c \<or> v_out c = []
        then (if v_err c then ZTK_ERR_BUFFER_TOO_SMALL else ZTK_ERR_INVALID, [])
        else (ZTK_OK, v_out c))"

text \<open>
  A failed \<open>h265_annexb_write_nal\<close> returns 0, and \<open>build_rtp_au\<close> stores it in \<open>pos\<close>
  before the next write: the prefix written so far is then overwritten from the start.
\<close>

definition pos_of :: "bytes option \<Rightarrow> bytes" where
  "pos_of w = (case w of None \<Rightarrow> [] | Some out \<Rightarrow> out)"

definition zms_h265_annexb_build_rtp_au ::
  "nal_split \<Rightarrow> bytes option \<Rightarrow> bytes option \<Rightarrow> bytes option \<Rightarrow> bytes \<Rightarrow> bool \<Rightarrow> nat
     \<Rightarrow> ztk_err \<times> bytes" where
  "zms_h265_annexb_build_rtp_au nalus vps sps pps annexb prepend_params cap =
     (if length annexb < 5 then (ZTK_ERR_INVALID, [])
      else
        let given = (\<lambda>p. p \<noteq> None \<and> p \<noteq> Some []);
            pre = (prepend_params \<and> given sps \<and> given pps);
            o1 = (if pre \<and> given vps then pos_of (h265_annexb_write_nal cap [] vps) else []);
            o2 = (if pre then pos_of (h265_annexb_write_nal cap o1 sps) else []);
            o3 = (if pre then pos_of (h265_annexb_write_nal cap o2 pps) else [])
        in if pre \<and> o3 = [] then (ZTK_ERR_BUFFER_TOO_SMALL, [])
           else (case zms_h265_annexb_copy_vcl nalus annexb (cap - length o3) of
                   (err, vcl) \<Rightarrow> if err \<noteq> ZTK_OK then (err, []) else (ZTK_OK, o3 @ vcl)))"

definition zms_h265_param_sets_to_annexb ::
  "bytes option \<Rightarrow> bytes option \<Rightarrow> bytes option \<Rightarrow> nat \<Rightarrow> ztk_err \<times> bytes" where
  "zms_h265_param_sets_to_annexb vps sps pps cap =
     (if sps = None \<or> pps = None \<or> sps = Some [] \<or> pps = Some [] then (ZTK_ERR_INVALID, [])
      else (case (if vps \<noteq> None \<and> vps \<noteq> Some [] then h265_annexb_write_nal cap [] vps else Some []) of
              None \<Rightarrow> (ZTK_ERR_BUFFER_TOO_SMALL, [])
            | Some o1 \<Rightarrow>
                (case h265_annexb_write_nal cap o1 sps of
                   None \<Rightarrow> (ZTK_ERR_BUFFER_TOO_SMALL, [])
                 | Some o2 \<Rightarrow>
                     (case h265_annexb_write_nal cap o2 pps of
                        None \<Rightarrow> (ZTK_ERR_BUFFER_TOO_SMALL, [])
                      | Some o3 \<Rightarrow> (ZTK_OK, o3)))))"

section \<open>What the scans compute\<close>

lemma hevc_scan_sync_key_fold:
  "foldl hevc_scan_sync_key b us \<longleftrightarrow>
     b \<or> (\<exists>u \<in> set us. u \<noteq> [] \<and> hevc_is_sync_nal (hevc_nal_type (u ! 0)))"
  by (induction us arbitrary: b) (auto simp: hevc_scan_sync_key_def)

lemma hevc_scan_idr_fold:
  "foldl hevc_scan_idr b us \<longleftrightarrow>
     b \<or> (\<exists>u \<in> set us. u \<noteq> [] \<and> hevc_is_idr_nal (hevc_nal_type (u ! 0)))"
  by (induction us arbitrary: b) (auto simp: hevc_scan_idr_def)

lemma hevc_idr_imp_sync: "zms_h265_annexb_is_idr nalus a \<Longrightarrow> zms_h265_annexb_is_sync_key nalus a"
  by (auto simp: zms_h265_annexb_is_idr_def zms_h265_annexb_is_sync_key_def hevc_scan_idr_fold
      hevc_scan_sync_key_fold hevc_is_idr_nal_def hevc_is_sync_nal_def split: if_splits)

end
