(* ===== verification/Frame_Policy.thy ===== *)
theory Frame_Policy
  imports H265_ES
begin

text \<open>
  Per-codec GOP policy: the operation tables of
  \<open>src/media/codec/frame_policy/frame_codec_policy.c\<close> with their registry, and the
  judgements of \<open>src/engine/frame.c\<close> that consult it (key frame refresh, GOP marker,
  storable, new GOP, egress sync, decode start). The splitters of the codec libraries are
  the fields of \<open>es_ext\<close>, an argument of every definition that scans a payload.
\<close>

unbundle bit_operations_syntax

record es_ext =
  annexb_split :: nal_split
  av1_obu_split :: "bytes \<Rightarrow> bytes list option"

section \<open>Scans used by the tables\<close>

definition zms_annexb_find_nal :: "nal_split \<Rightarrow> bytes \<Rightarrow> bytes option" where
  "zms_annexb_find_nal nalus p = (if p = [] then None else find (\<lambda>u. u \<noteq> []) (nalus p))"

definition av1_seq_hdr_handler :: "bool \<Rightarrow> bytes \<Rightarrow> bool" where
  "av1_seq_hdr_handler found obu =
     (if obu \<noteq> [] \<and> unat (drop_bit 3 (obu ! 0) AND 0x0F) = 1 then True else found)"

definition zms_av1_obu_has_sequence_header :: "es_ext \<Rightarrow> bytes \<Rightarrow> bool" where
  "zms_av1_obu_has_sequence_header E obu =
     (if length obu < 2 then False
      else (case av1_obu_split E obu of
              None \<Rightarrow> False
            | Some obus \<Rightarrow> foldl av1_seq_hdr_handler False obus))"

definition annexb_nal_type :: "es_ext \<Rightarrow> bytes \<Rightarrow> int" where
  "annexb_nal_type E d =
     (case zms_annexb_find_nal (annexb_split E) d of
        None \<Rightarrow> -1
      | Some nal \<Rightarrow> if nal = [] then -1 else int (h264_nal_type (nal ! 0)))"

definition h265_nal_type_hevc :: "es_ext \<Rightarrow> bytes \<Rightarrow> int" where
  "h265_nal_type_hevc E d =
     (if length d < 5 then -1
      else (case zms_annexb_find_nal (annexb_split E) d of
              None \<Rightarrow> -1
            | Some nal \<Rightarrow> if nal = [] then -1 else int (hevc_nal_type (nal ! 0))))"

section \<open>The policies\<close>

type_synonym storable_fn = "zms_frame \<Rightarrow> bool \<Rightarrow> bool \<Rightarrow> bool"
type_synonym new_gop_fn = "zms_frame \<Rightarrow> bool \<Rightarrow> bool \<Rightarrow> bool"

definition default_is_config :: "zms_frame \<Rightarrow> bool" where
  "default_is_config f = f_config_frame f"

definition default_is_key :: "zms_frame \<Rightarrow> bool" where
  "default_is_key f = f_keyframe f"

definition default_ring_storable :: storable_fn where
  "default_ring_storable f cache_started has_video =
     (if f_track f = ZMS_TRACK_AUDIO then (if has_video then cache_started else True)
      else if f_drop_able f then cache_started
      else if f_keyframe f \<or> f_config_frame f then True
      else cache_started)"

definition default_ring_new_gop :: new_gop_fn where
  "default_ring_new_gop f video_key_pos has_video =
     (if f_track f = ZMS_TRACK_AUDIO then (if has_video then False else True)
      else if f_config_frame f then False
      else f_keyframe f)"

definition h264_is_config :: "es_ext \<Rightarrow> zms_frame \<Rightarrow> bool" where
  "h264_is_config E f =
     (if f_config_frame f then True
      else if f_codec f \<noteq> ZMS_CODEC_H264 \<or> f_data f = None \<or> f_size f < 4 then False
      else let t = annexb_nal_type E (f_bytes f) in t = 7 \<or> t = 8)"

definition h264_is_key :: "es_ext \<Rightarrow> zms_frame \<Rightarrow> bool" where
  "h264_is_key E f =
     (if f_keyframe f then True
      else if f_codec f = ZMS_CODEC_H264 \<and> f_data f \<noteq> None \<and> f_size f \<ge> 4
      then zms_h264_annexb_is_sync_key (annexb_split E) (f_bytes f)
      else False)"

definition h265_is_config :: "es_ext \<Rightarrow> zms_frame \<Rightarrow> bool" where
  "h265_is_config E f =
     (if f_config_frame f then True
      else if f_codec f \<noteq> ZMS_CODEC_H265 \<or> f_data f = None \<or> f_size f < 5 then False
      else let t = h265_nal_type_hevc E (f_bytes f) in t = 32 \<or> t = 33 \<or> t = 34)"

definition h265_is_key :: "es_ext \<Rightarrow> zms_frame \<Rightarrow> bool" where
  "h265_is_key E f =
     (if f_codec f \<noteq> ZMS_CODEC_H265 \<or> f_data f = None \<or> f_size f = 0 then False
      else zms_h265_annexb_is_sync_key (annexb_split E) (f_bytes f))"

definition h264_ring_new_gop :: "es_ext \<Rightarrow> new_gop_fn" where
  "h264_ring_new_gop E f video_key_pos has_video =
     (if f_track f = ZMS_TRACK_AUDIO then (if has_video then False else True)
      else if f_config_frame f then False
      else h264_is_key E f)"

definition h265_ring_new_gop :: "es_ext \<Rightarrow> new_gop_fn" where
  "h265_ring_new_gop E f video_key_pos has_video =
     (if f_track f = ZMS_TRACK_AUDIO then (if has_video then False else True)
      else if f_config_frame f then False
      else h265_is_key E f)"

definition vp8_es_is_key :: "zms_frame \<Rightarrow> bool" where
  "vp8_es_is_key f =
     (if f_data f = None \<or> f_size f < 1 then f_keyframe f
      else if f_keyframe f then True
      else (f_bytes f ! 0) AND 0x01 = 0)"

definition vp9_es_is_key :: "zms_frame \<Rightarrow> bool" where
  "vp9_es_is_key f =
     (if f_data f = None \<or> f_size f < 4 then f_keyframe f
      else if f_keyframe f then True
      else if drop_bit 6 (f_bytes f ! 0) \<noteq> 0x02 then False
      else f_bytes f ! 1 = 0x49 \<and> f_bytes f ! 2 = 0x83 \<and> f_bytes f ! 3 = 0x42)"

definition av1_es_is_key :: "es_ext \<Rightarrow> zms_frame \<Rightarrow> bool" where
  "av1_es_is_key E f =
     (if f_data f = None \<or> f_size f < 2 then f_keyframe f
      else if f_keyframe f then True
      else zms_av1_obu_has_sequence_header E (f_bytes f))"

definition vpx_ring_storable :: "(zms_frame \<Rightarrow> bool) \<Rightarrow> storable_fn" where
  "vpx_ring_storable is_key f cache_started has_video =
     (if f_track f = ZMS_TRACK_AUDIO then (if has_video then cache_started else True)
      else if f_drop_able f then cache_started
      else if is_key f then True
      else cache_started)"

definition vpx_ring_new_gop :: "(zms_frame \<Rightarrow> bool) \<Rightarrow> new_gop_fn" where
  "vpx_ring_new_gop is_key f video_key_pos has_video =
     (if f_track f = ZMS_TRACK_AUDIO then False
      else if f_config_frame f then False
      else is_key f)"

section \<open>The tables and their registry\<close>

record zms_frame_codec_ops =
  o_id :: zms_codec_id
  o_name :: string
  o_is_config_frame :: "(zms_frame \<Rightarrow> bool) option"
  o_is_keyframe :: "(zms_frame \<Rightarrow> bool) option"
  o_storable :: "storable_fn option"
  o_new_gop :: "new_gop_fn option"

definition k_plain_es :: "zms_codec_id \<Rightarrow> string \<Rightarrow> zms_frame_codec_ops" where
  "k_plain_es i n = \<lparr>o_id = i, o_name = n, o_is_config_frame = Some default_is_config,
     o_is_keyframe = Some default_is_key, o_storable = Some default_ring_storable,
     o_new_gop = Some default_ring_new_gop\<rparr>"

definition k_h264_es :: "es_ext \<Rightarrow> zms_frame_codec_ops" where
  "k_h264_es E = \<lparr>o_id = ZMS_CODEC_H264, o_name = ''h264'',
     o_is_config_frame = Some (h264_is_config E), o_is_keyframe = Some (h264_is_key E),
     o_storable = Some default_ring_storable, o_new_gop = Some (h264_ring_new_gop E)\<rparr>"

definition k_h265_es :: "es_ext \<Rightarrow> zms_frame_codec_ops" where
  "k_h265_es E = \<lparr>o_id = ZMS_CODEC_H265, o_name = ''h265'',
     o_is_config_frame = Some (h265_is_config E), o_is_keyframe = Some (h265_is_key E),
     o_storable = Some default_ring_storable, o_new_gop = Some (h265_ring_new_gop E)\<rparr>"

definition k_vpx_es :: "zms_codec_id \<Rightarrow> string \<Rightarrow> (zms_frame \<Rightarrow> bool) \<Rightarrow> zms_frame_codec_ops" where
  "k_vpx_es i n is_key = \<lparr>o_id = i, o_name = n, o_is_config_frame = Some default_is_config,
     o_is_keyframe = Some is_key, o_storable = Some (vpx_ring_storable is_key),
     o_new_gop = Some (vpx_ring_new_gop is_key)\<rparr>"

type_synonym registry = "zms_codec_id \<Rightarrow> zms_frame_codec_ops option"

definition zms_frame_codec_register :: "registry \<Rightarrow> zms_frame_codec_ops \<Rightarrow> registry" where
  "zms_frame_codec_register g ops =
     (if o_id ops = ZMS_CODEC_INVALID then g else g(o_id ops := Some ops))"

definition zms_frame_codec_find :: "registry \<Rightarrow> zms_codec_id \<Rightarrow> zms_frame_codec_ops" where
  "zms_frame_codec_find g i =
     (if i = ZMS_CODEC_INVALID then k_plain_es ZMS_CODEC_INVALID ''default''
      else (case g i of
              None \<Rightarrow> k_plain_es ZMS_CODEC_INVALID ''default''
            | Some ops \<Rightarrow> ops))"

definition zms_frame_codec_register_all :: "es_ext \<Rightarrow> registry \<Rightarrow> registry" where
  "zms_frame_codec_register_all E g =
     foldl zms_frame_codec_register g
       [k_h264_es E, k_h265_es E, k_plain_es ZMS_CODEC_AAC ''aac'',
        k_plain_es ZMS_CODEC_G711A ''g711'', k_vpx_es ZMS_CODEC_AV1 ''av1'' (av1_es_is_key E),
        k_plain_es ZMS_CODEC_OPUS ''opus'', k_vpx_es ZMS_CODEC_VP8 ''vp8'' vp8_es_is_key,
        k_vpx_es ZMS_CODEC_VP9 ''vp9'' vp9_es_is_key, k_plain_es ZMS_CODEC_H266 ''h266'',
        k_plain_es ZMS_CODEC_G711U ''g711u'']"

end
