(* ===== verification/Frame.thy ===== *)
theory Frame
  imports Frame_Policy
begin

text \<open>
  The judgements on frames and slots of \<open>src/engine/frame.c\<close>, over a codec registry
  \<open>g\<close> and the codec libraries \<open>E\<close>, and the contract the GOP ring relies on, stated once
  as the locale \<open>gop_codec\<close> and interpreted on every table the server registers.
\<close>

unbundle bit_operations_syntax

section \<open>Judgements on frames\<close>

definition zms_frame_refresh_key_from_es :: "registry \<Rightarrow> zms_frame \<Rightarrow> zms_frame" where
  "zms_frame_refresh_key_from_es g f =
     (if f_track f \<noteq> ZMS_TRACK_VIDEO \<or> f_config_frame f \<or> f_data f = None \<or> f_size f = 0 then f
      else (case o_is_keyframe (zms_frame_codec_find g (f_codec f)) of
              None \<Rightarrow> f
            | Some is_key \<Rightarrow> if is_key f then f\<lparr>f_keyframe := True\<rparr> else f))"

definition zms_frame_video_gop_marker :: "registry \<Rightarrow> zms_frame \<Rightarrow> bool" where
  "zms_frame_video_gop_marker g f =
     (if f_track f \<noteq> ZMS_TRACK_VIDEO then False
      else (let ops = zms_frame_codec_find g (f_codec f) in
        case (o_is_keyframe ops, o_is_config_frame ops) of
          (Some is_key, Some is_config) \<Rightarrow> is_key f \<or> is_config f
        | _ \<Rightarrow> f_keyframe f \<or> f_config_frame f))"

definition zms_gop_queue_storable :: "registry \<Rightarrow> zms_frame \<Rightarrow> bool \<Rightarrow> bool \<Rightarrow> bool" where
  "zms_gop_queue_storable g f cache_started has_video =
     (case o_storable (zms_frame_codec_find g (f_codec f)) of
        Some st \<Rightarrow> st f cache_started has_video
      | None \<Rightarrow>
          (if f_track f = ZMS_TRACK_AUDIO then (if has_video then cache_started else True)
           else if f_drop_able f then cache_started
           else if zms_frame_video_gop_marker g f then True
           else cache_started))"

definition zms_gop_queue_new_gop :: "registry \<Rightarrow> zms_frame \<Rightarrow> bool \<Rightarrow> bool \<Rightarrow> bool" where
  "zms_gop_queue_new_gop g f video_key_pos has_video =
     (case o_new_gop (zms_frame_codec_find g (f_codec f)) of
        Some ng \<Rightarrow> ng f video_key_pos has_video
      | None \<Rightarrow>
          (if f_track f = ZMS_TRACK_AUDIO then (if has_video then False else True)
           else if f_config_frame f then False
           else zms_frame_video_gop_marker g f))"

definition zms_frame_is_egress_sync :: "registry \<Rightarrow> zms_frame \<Rightarrow> bool" where
  "zms_frame_is_egress_sync g f =
     (if f_track f \<noteq> ZMS_TRACK_VIDEO \<or> f_config_frame f \<or> f_data f = None \<or> f_size f = 0 then False
      else if f_keyframe f then True
      else (case o_is_keyframe (zms_frame_codec_find g (f_codec f)) of
              None \<Rightarrow> False
            | Some is_key \<Rightarrow> is_key f))"

definition zms_frame_is_decode_start :: "es_ext \<Rightarrow> registry \<Rightarrow> zms_frame \<Rightarrow> bool" where
  "zms_frame_is_decode_start E g f =
     (if f_track f \<noteq> ZMS_TRACK_VIDEO \<or> f_config_frame f \<or> f_data f = None \<or> f_size f = 0 then False
      else if f_codec f = ZMS_CODEC_H265
        then zms_h265_annexb_is_sync_key (annexb_split E) (f_bytes f)
      else if f_codec f = ZMS_CODEC_H264
        then f_keyframe f \<or> zms_h264_annexb_is_sync_key (annexb_split E) (f_bytes f)
      else f_keyframe f \<or> zms_frame_is_egress_sync g f)"

definition zms_frame_is_play_start :: "es_ext \<Rightarrow> registry \<Rightarrow> zms_frame \<Rightarrow> bool" where
  "zms_frame_is_play_start E g f = zms_frame_is_decode_start E g f"

definition zms_gop_queue_timeline_from_frame :: "zms_frame \<Rightarrow> u32 \<times> u32" where
  "zms_gop_queue_timeline_from_frame f =
     (let dts = (ucast (f_dts_ms f) :: u32);
          pts0 = (ucast (f_pts_ms f) :: u32);
          pts = (if pts0 = 0 then dts else pts0)
      in (dts, if pts \<noteq> dts then pts else 0))"

section \<open>Judgements on slots\<close>

definition frame_of_slot :: "zms_gop_slot \<Rightarrow> zms_frame" where
  "frame_of_slot s = zms_frame_init\<lparr>f_data := s_data s, f_size := s_len s, f_codec := s_codec s,
     f_track := s_track s, f_keyframe := s_keyframe s, f_config_frame := s_config_frame s\<rparr>"

definition zms_gop_slot_dts_ms :: "zms_gop_slot \<Rightarrow> u32" where
  "zms_gop_slot_dts_ms s = s_dts_ms s"

definition zms_gop_slot_pts_ms :: "zms_gop_slot \<Rightarrow> u32" where
  "zms_gop_slot_pts_ms s = (if s_pts_ms s \<noteq> 0 then s_pts_ms s else s_dts_ms s)"

definition zms_gop_slot_is_egress_sync :: "registry \<Rightarrow> zms_gop_slot \<Rightarrow> bool" where
  "zms_gop_slot_is_egress_sync g s = zms_frame_is_egress_sync g (frame_of_slot s)"

definition zms_gop_slot_refresh_sync_key :: "registry \<Rightarrow> zms_gop_slot \<Rightarrow> zms_gop_slot" where
  "zms_gop_slot_refresh_sync_key g s =
     (if zms_gop_slot_is_egress_sync g s then s\<lparr>s_keyframe := True\<rparr> else s)"

definition zms_gop_slot_is_decode_start :: "es_ext \<Rightarrow> registry \<Rightarrow> zms_gop_slot \<Rightarrow> bool" where
  "zms_gop_slot_is_decode_start E g s = zms_frame_is_decode_start E g (frame_of_slot s)"

definition zms_gop_slot_refresh_decode_key :: "es_ext \<Rightarrow> registry \<Rightarrow> zms_gop_slot \<Rightarrow> zms_gop_slot" where
  "zms_gop_slot_refresh_decode_key E g s =
     (if zms_gop_slot_is_decode_start E g s then s\<lparr>s_keyframe := True\<rparr> else s)"

definition zms_gop_slot_is_play_start :: "es_ext \<Rightarrow> registry \<Rightarrow> zms_gop_slot \<Rightarrow> bool" where
  "zms_gop_slot_is_play_start E g s = zms_frame_is_play_start E g (frame_of_slot s)"

definition zms_gop_slot_refresh_play_key :: "es_ext \<Rightarrow> registry \<Rightarrow> zms_gop_slot \<Rightarrow> zms_gop_slot" where
  "zms_gop_slot_refresh_play_key E g s =
     (if zms_gop_slot_is_play_start E g s then s\<lparr>s_keyframe := True\<rparr> else s)"

section \<open>The contract between the codec tables and the GOP ring\<close>

text \<open>
  What the ring needs of a table: it never splits a GOP at an audio frame once video is
  there, a video frame that opens a GOP is a key frame and no parameter set, everything is
  storable once caching has started, audio waits for the video cache, a frame whose key flag
  is set is storable unless it is marked droppable, and without a payload only the flag can
  make a key frame.
\<close>

locale gop_codec =
  fixes key :: "zms_frame \<Rightarrow> bool"
    and st :: storable_fn
    and ng :: new_gop_fn
  assumes audio_no_gop: "f_track f = ZMS_TRACK_AUDIO \<Longrightarrow> \<not> ng f kp True"
    and video_gop_key: "f_track f \<noteq> ZMS_TRACK_AUDIO \<Longrightarrow> ng f kp hv \<Longrightarrow> key f \<and> \<not> f_config_frame f"
    and started_storable: "st f True hv"
    and audio_storable: "f_track f = ZMS_TRACK_AUDIO \<Longrightarrow> st f cs hv = (hv \<longrightarrow> cs)"
    and key_storable: "f_track f \<noteq> ZMS_TRACK_AUDIO \<Longrightarrow> f_keyframe f \<Longrightarrow> \<not> f_drop_able f \<Longrightarrow> st f cs hv"
    and key_no_data: "f_data f = None \<or> f_size f = 0 \<Longrightarrow> key f \<Longrightarrow> f_keyframe f"
begin

text \<open>
  A video frame whose key flag has been refreshed from its payload and that opens a GOP is
  stored, whatever the state of the cache: a GOP never loses its first frame.
\<close>

lemma gop_start_storable:
  assumes "f_track f \<noteq> ZMS_TRACK_AUDIO" "key f \<longrightarrow> f_keyframe f" "\<not> f_drop_able f" "ng f kp hv"
  shows "st f cs hv"
  using assms video_gop_key key_storable by blast

lemma audio_gop_storable: "f_track f = ZMS_TRACK_AUDIO \<Longrightarrow> ng f kp hv \<Longrightarrow> st f cs hv"
  using audio_no_gop audio_storable by (cases hv) auto

lemma storable_mono: "st f cs hv \<Longrightarrow> cs \<longrightarrow> cs' \<Longrightarrow> st f cs' hv"
  using started_storable by (cases cs'; cases cs) auto

end

lemmas policy_defs = default_ring_storable_def default_ring_new_gop_def default_is_key_def
  h264_ring_new_gop_def h265_ring_new_gop_def vpx_ring_storable_def vpx_ring_new_gop_def

interpretation plain: gop_codec default_is_key default_ring_storable default_ring_new_gop
  by unfold_locales (auto simp: policy_defs split: if_splits)

interpretation h264: gop_codec "h264_is_key E" default_ring_storable "h264_ring_new_gop E" for E
  by unfold_locales (auto simp: policy_defs h264_is_key_def[of E f for f] split: if_splits)

interpretation h265: gop_codec "h265_is_key E" default_ring_storable "h265_ring_new_gop E" for E
  by unfold_locales (auto simp: policy_defs h265_is_key_def[of E f for f] split: if_splits)

interpretation vp8: gop_codec vp8_es_is_key "vpx_ring_storable vp8_es_is_key"
    "vpx_ring_new_gop vp8_es_is_key"
  by unfold_locales (auto simp: policy_defs vp8_es_is_key_def split: if_splits)

interpretation vp9: gop_codec vp9_es_is_key "vpx_ring_storable vp9_es_is_key"
    "vpx_ring_new_gop vp9_es_is_key"
  by unfold_locales (auto simp: policy_defs vp9_es_is_key_def split: if_splits)

interpretation av1: gop_codec "av1_es_is_key E" "vpx_ring_storable (av1_es_is_key E)"
    "vpx_ring_new_gop (av1_es_is_key E)" for E
  by unfold_locales (auto simp: policy_defs av1_es_is_key_def split: if_splits)

section \<open>A table in the registry that honours the contract\<close>

definition ops_ok :: "zms_frame_codec_ops \<Rightarrow> bool" where
  "ops_ok ops \<longleftrightarrow> (\<exists>key st ng conf. o_is_keyframe ops = Some key \<and> o_storable ops = Some st \<and>
     o_new_gop ops = Some ng \<and> o_is_config_frame ops = Some conf \<and> gop_codec key st ng)"

lemma ops_ok_tables [simp]:
  "ops_ok (k_plain_es i n)" "ops_ok (k_h264_es E)" "ops_ok (k_h265_es E)"
  "ops_ok (k_vpx_es j m (av1_es_is_key E))" "ops_ok (k_vpx_es j m vp8_es_is_key)"
  "ops_ok (k_vpx_es j m vp9_es_is_key)"
  by (simp_all add: ops_ok_def k_plain_es_def k_h264_es_def k_h265_es_def k_vpx_es_def
      plain.gop_codec_axioms h264.gop_codec_axioms h265.gop_codec_axioms av1.gop_codec_axioms
      vp8.gop_codec_axioms vp9.gop_codec_axioms)

definition registry_ok :: "registry \<Rightarrow> bool" where
  "registry_ok g \<longleftrightarrow> (\<forall>i ops. g i = Some ops \<longrightarrow> ops_ok ops)"

lemma registry_ok_empty: "registry_ok (\<lambda>_. None)"
  by (simp add: registry_ok_def)

lemma registry_ok_register: "registry_ok g \<Longrightarrow> ops_ok ops \<Longrightarrow> registry_ok (zms_frame_codec_register g ops)"
  by (simp add: registry_ok_def zms_frame_codec_register_def)

lemma registry_ok_all: "registry_ok g \<Longrightarrow> registry_ok (zms_frame_codec_register_all E g)"
  unfolding zms_frame_codec_register_all_def by (simp add: registry_ok_register)

lemma registry_ok_find: "registry_ok g \<Longrightarrow> ops_ok (zms_frame_codec_find g i)"
  by (auto simp: registry_ok_def zms_frame_codec_find_def split: option.splits)

lemma refresh_key_fields [simp]:
  "f_track (zms_frame_refresh_key_from_es g f) = f_track f"
  "f_codec (zms_frame_refresh_key_from_es g f) = f_codec f"
  "f_data (zms_frame_refresh_key_from_es g f) = f_data f"
  "f_size (zms_frame_refresh_key_from_es g f) = f_size f"
  "f_drop_able (zms_frame_refresh_key_from_es g f) = f_drop_able f"
  "f_config_frame (zms_frame_refresh_key_from_es g f) = f_config_frame f"
  "f_dts_ms (zms_frame_refresh_key_from_es g f) = f_dts_ms f"
  "f_pts_ms (zms_frame_refresh_key_from_es g f) = f_pts_ms f"
  by (auto simp: zms_frame_refresh_key_from_es_def split: option.splits)

end
