(* ===== verification/Gop_Queue.thy ===== *)
theory Gop_Queue
  imports Frame
begin

text \<open>
  The writer side of the live GOP ring, \<open>src/engine/gop/gop_queue.c\<close> with the layout of
  \<open>gop_queue_internal.h\<close> and the limits of \<open>gop_limits.h\<close>. The queue is a record passed
  from operation to operation; every function that runs under \<open>r->mu\<close> is one atomic step.

  Payload buffers are \<open>ztk_buf\<close> handles of a library outside the sources: a handle is a
  value of the type variable \<open>'b\<close>, the bytes a handle holds are given with it, and the
  calls the queue makes on handles (take a reference, drop one) and on wake queues are
  recorded in \<open>q_calls\<close>, in the order they are made. Arrays are lists of their full length;
  absolute frame indices are \<open>size_t\<close> counters that only grow, modelled by \<open>nat\<close>.
\<close>

unbundle bit_operations_syntax

section \<open>Limits and state\<close>

definition ZMS_GOP_QUEUE_CAPACITY :: nat where "ZMS_GOP_QUEUE_CAPACITY = 512"
definition ZMS_GOP_QUEUE_MAX_GOP :: nat where "ZMS_GOP_QUEUE_MAX_GOP = 32"
definition ZMS_GOP_QUEUE_TARGET_GOPS :: nat where "ZMS_GOP_QUEUE_TARGET_GOPS = 3"
definition ZMS_GOP_QUEUE_READERS_INIT_CAP :: nat where "ZMS_GOP_QUEUE_READERS_INIT_CAP = 64"
definition ZMS_GOP_QUEUE_PLAY_MAX_LAG :: nat where "ZMS_GOP_QUEUE_PLAY_MAX_LAG = 240"
definition ZMS_GOP_QUEUE_SIGNAL_SNAP :: nat where "ZMS_GOP_QUEUE_SIGNAL_SNAP = 128"
definition ZMS_FRAME_MUX_CAP :: nat where "ZMS_FRAME_MUX_CAP = 24"
definition ZMS_GOP_QUEUE_MUX_MAX_SKEW_MS :: u32 where "ZMS_GOP_QUEUE_MUX_MAX_SKEW_MS = 200"

lemmas gop_limits = ZMS_GOP_QUEUE_CAPACITY_def ZMS_GOP_QUEUE_MAX_GOP_def
  ZMS_GOP_QUEUE_TARGET_GOPS_def ZMS_GOP_QUEUE_READERS_INIT_CAP_def
  ZMS_GOP_QUEUE_PLAY_MAX_LAG_def ZMS_GOP_QUEUE_SIGNAL_SNAP_def ZMS_FRAME_MUX_CAP_def

record 'b zms_frame_slot =
  sl_pub :: zms_gop_slot
  sl_buf :: "'b option"
  sl_seq :: u32

definition slot_zero :: "'b zms_frame_slot" where
  "slot_zero = \<lparr>sl_pub = zms_gop_slot_zero, sl_buf = None, sl_seq = 0\<rparr>"

record 'b zms_gop_reader =
  r_read_idx :: nat
  r_from_beginning :: bool
  r_wake_pending :: bool
  r_wake_q :: bool
  r_held_ref :: "'b option"
  r_mux :: "'b zms_frame_slot list"

datatype 'b ztk_call =
    BufRef 'b
  | BufUnref 'b
  | WakeReader nat nat
  | WakeRing

record 'b zms_gop_queue =
  q_slots :: "'b zms_frame_slot list"
  q_write_idx :: nat
  q_write_seq :: nat
  q_oldest_seq :: nat
  q_count :: nat
  q_gop_start :: "nat list"
  q_gop_dts :: "u32 list"
  q_gop_count :: nat
  q_target_gops :: nat
  q_cache_ms :: u32
  q_cache_started :: bool
  q_last_ts_v :: u32
  q_last_ts_a :: u32
  q_video_config :: bytes
  q_audio_config :: bytes
  q_video_key_pos :: bool
  q_has_video :: bool
  q_readers :: "(nat \<times> 'b zms_gop_reader) list"
  q_reader_cap :: nat
  q_calls :: "'b ztk_call list"

definition slot_at :: "'b zms_gop_queue \<Rightarrow> nat \<Rightarrow> 'b zms_frame_slot" where
  "slot_at r idx = q_slots r ! (idx mod ZMS_GOP_QUEUE_CAPACITY)"

definition log_calls :: "'b ztk_call list \<Rightarrow> 'b zms_gop_queue \<Rightarrow> 'b zms_gop_queue" where
  "log_calls cs r = r\<lparr>q_calls := q_calls r @ cs\<rparr>"

section \<open>Configuration and creation\<close>

definition clamp_target_gops :: "nat \<Rightarrow> nat" where
  "clamp_target_gops n =
     (if n < 1 then 1 else if n > ZMS_GOP_QUEUE_MAX_GOP then ZMS_GOP_QUEUE_MAX_GOP else n)"

text \<open>The process-wide defaults \<open>g_default_target_gops\<close> and \<open>g_default_cache_ms\<close>.\<close>

record gop_defaults =
  g_default_target_gops :: nat
  g_default_cache_ms :: u32

definition zms_gop_queue_set_default_target_gops :: "gop_defaults \<Rightarrow> nat \<Rightarrow> gop_defaults" where
  "zms_gop_queue_set_default_target_gops d n = d\<lparr>g_default_target_gops := clamp_target_gops n\<rparr>"

definition zms_gop_queue_set_target_gops :: "'b zms_gop_queue \<Rightarrow> nat \<Rightarrow> 'b zms_gop_queue" where
  "zms_gop_queue_set_target_gops r n = r\<lparr>q_target_gops := clamp_target_gops n\<rparr>"

definition zms_gop_queue_set_default_cache_ms :: "gop_defaults \<Rightarrow> u32 \<Rightarrow> gop_defaults" where
  "zms_gop_queue_set_default_cache_ms d ms = d\<lparr>g_default_cache_ms := ms\<rparr>"

definition zms_gop_queue_set_cache_ms :: "'b zms_gop_queue \<Rightarrow> u32 \<Rightarrow> 'b zms_gop_queue" where
  "zms_gop_queue_set_cache_ms r ms = r\<lparr>q_cache_ms := ms\<rparr>"

text \<open>\<open>mem_ok\<close> says that the four allocations of \<open>create\<close> succeed.\<close>

definition zms_gop_queue_create :: "gop_defaults \<Rightarrow> bool \<Rightarrow> 'b zms_gop_queue option" where
  "zms_gop_queue_create d mem_ok =
     (if \<not> mem_ok then None
      else Some \<lparr>q_slots = replicate ZMS_GOP_QUEUE_CAPACITY slot_zero, q_write_idx = 0,
        q_write_seq = 0, q_oldest_seq = 0, q_count = 0,
        q_gop_start = replicate ZMS_GOP_QUEUE_MAX_GOP 0,
        q_gop_dts = replicate ZMS_GOP_QUEUE_MAX_GOP 0, q_gop_count = 0,
        q_target_gops = g_default_target_gops d, q_cache_ms = g_default_cache_ms d,
        q_cache_started = False, q_last_ts_v = 0, q_last_ts_a = 0, q_video_config = [],
        q_audio_config = [], q_video_key_pos = False, q_has_video = False, q_readers = [],
        q_reader_cap = ZMS_GOP_QUEUE_READERS_INIT_CAP, q_calls = []\<rparr>)"

section \<open>Positions\<close>

definition beginning_idx :: "'b zms_gop_queue \<Rightarrow> nat" where
  "beginning_idx r =
     (if q_count r > 0 \<and> q_write_idx r \<ge> q_count r then q_write_idx r - q_count r else 0)"

definition oldest_idx :: "'b zms_gop_queue \<Rightarrow> nat" where
  "oldest_idx r =
     (if q_gop_count r > 0 then q_gop_start r ! 0
      else if q_count r > 0 then q_write_idx r - q_count r
      else q_write_idx r)"

definition publish_oldest :: "'b zms_gop_queue \<Rightarrow> 'b zms_gop_queue" where
  "publish_oldest r = r\<lparr>q_oldest_seq := oldest_idx r\<rparr>"

section \<open>Dropping GOPs\<close>

definition reset_gop :: "'b zms_gop_queue \<Rightarrow> 'b zms_gop_queue" where
  "reset_gop r = r\<lparr>q_gop_count := 0, q_cache_started := False, q_video_key_pos := False,
     q_has_video := False, q_last_ts_v := 0, q_last_ts_a := 0\<rparr>"

text \<open>\<open>memmove(a, a + 1, (n - 1) * sizeof a[0])\<close> on an array.\<close>

definition shift_down :: "nat \<Rightarrow> 'a list \<Rightarrow> 'a list" where
  "shift_down n a = take (n - 1) (drop 1 a) @ drop (n - 1) a"

definition pop_front_gop :: "'b zms_gop_queue \<Rightarrow> 'b zms_gop_queue" where
  "pop_front_gop r =
     (if q_gop_count r = 0 then r
      else
        let drop_begin = q_gop_start r ! 0;
            drop_end = (if q_gop_count r > 1 then q_gop_start r ! 1 else q_write_idx r);
            r1 = (if drop_end > drop_begin then
                    let dropped = drop_end - drop_begin in
                    if dropped \<le> q_count r then r\<lparr>q_count := q_count r - dropped\<rparr>
                    else r\<lparr>q_count := 0\<rparr>
                  else r);
            r2 = (if q_gop_count r1 > 1 then
                    r1\<lparr>q_gop_start := shift_down (q_gop_count r1) (q_gop_start r1),
                       q_gop_dts := shift_down (q_gop_count r1) (q_gop_dts r1)\<rparr>
                  else r1);
            r3 = r2\<lparr>q_gop_count := q_gop_count r2 - 1\<rparr>
        in publish_oldest r3)"

lemma pop_front_gop_count [simp]: "q_gop_count (pop_front_gop r) = q_gop_count r - 1"
  by (simp add: pop_front_gop_def publish_oldest_def Let_def)

function trim_gops_loop :: "'b zms_gop_queue \<Rightarrow> u32 \<Rightarrow> 'b zms_gop_queue" where
  "trim_gops_loop r now_dts =
     (if q_gop_count r > 1 then
        (let oldest = q_gop_dts r ! 0 in
         if now_dts < oldest then r
         else if now_dts - oldest \<le> q_cache_ms r then r
         else trim_gops_loop (pop_front_gop r) now_dts)
      else r)"
  by pat_completeness auto
termination
  by (relation "measure (\<lambda>(r, n). q_gop_count r)") auto

definition trim_gops_for_time :: "'b zms_gop_queue \<Rightarrow> u32 \<Rightarrow> 'b zms_gop_queue" where
  "trim_gops_for_time r now_dts = (if q_cache_ms r = 0 then r else trim_gops_loop r now_dts)"

text \<open>
  The eviction loop of \<open>on_new_gop\<close>. With \<open>target_gops = 0\<close> it would not end once the
  ring is full and no GOP is left, so it is a partial function; \<open>target_gops\<close> is clamped
  to at least 1 wherever it is set.
\<close>

partial_function (option) make_room_for_gop :: "'b zms_gop_queue \<Rightarrow> 'b zms_gop_queue option" where
  "make_room_for_gop r =
     (if q_gop_count r \<ge> ZMS_GOP_QUEUE_MAX_GOP \<or>
         (q_gop_count r \<ge> q_target_gops r \<and> q_count r \<ge> ZMS_GOP_QUEUE_CAPACITY)
      then make_room_for_gop (pop_front_gop r)
      else Some r)"

declare make_room_for_gop.simps [code]

definition on_new_gop :: "'b zms_gop_queue \<Rightarrow> u32 \<Rightarrow> 'b zms_gop_queue option" where
  "on_new_gop r dts_ms =
     (if \<not> q_cache_started r \<or> q_gop_count r = 0 then
        Some (publish_oldest (r\<lparr>q_cache_started := True,
           q_gop_start := (q_gop_start r)[0 := q_write_idx r],
           q_gop_dts := (q_gop_dts r)[0 := dts_ms],
           q_gop_count := 1\<rparr>))
      else if q_write_idx r > q_gop_start r ! (q_gop_count r - 1) then
        (case make_room_for_gop r of
           None \<Rightarrow> None
         | Some r1 \<Rightarrow>
             let r2 = trim_gops_for_time r1 dts_ms in
             Some (r2\<lparr>q_gop_start := (q_gop_start r2)[q_gop_count r2 := q_write_idx r2],
                      q_gop_dts := (q_gop_dts r2)[q_gop_count r2 := dts_ms],
                      q_gop_count := q_gop_count r2 + 1\<rparr>))
      else Some r)"

section \<open>Slots\<close>

definition set_slot :: "nat \<Rightarrow> 'b zms_frame_slot \<Rightarrow> 'b zms_gop_queue \<Rightarrow> 'b zms_gop_queue" where
  "set_slot idx sl r = r\<lparr>q_slots := (q_slots r)[idx mod ZMS_GOP_QUEUE_CAPACITY := sl]\<rparr>"

definition unref_opt :: "'b option \<Rightarrow> 'b ztk_call list" where
  "unref_opt b = (case b of None \<Rightarrow> [] | Some x \<Rightarrow> [BufUnref x])"

definition free_slot :: "'b zms_frame_slot \<Rightarrow> 'b zms_frame_slot \<times> 'b ztk_call list" where
  "free_slot p =
     (p\<lparr>sl_seq := sl_seq p + 2, sl_buf := None,
        sl_pub := (sl_pub p)\<lparr>s_data := None, s_len := 0\<rparr>\<rparr>,
      unref_opt (sl_buf p))"

text \<open>
  \<open>d\<close> is what \<open>ztk_buf_data\<close> and \<open>ztk_buf_len\<close> give for \<open>b\<close>. The sequence counter is
  odd between the two increments; the two increments together are the \<open>+ 2\<close>.
\<close>

definition slot_publish ::
  "'b zms_gop_queue \<Rightarrow> nat \<Rightarrow> 'b \<Rightarrow> bytes \<Rightarrow> zms_frame \<Rightarrow> u32 \<Rightarrow> u32 \<Rightarrow> 'b zms_gop_queue" where
  "slot_publish r idx b d f dts_ms pts_ms =
     (let slot = slot_at r idx;
          old = (if sl_buf slot = Some b then None else sl_buf slot);
          pub = \<lparr>s_codec = f_codec f, s_track = f_track f, s_dts_ms = dts_ms, s_pts_ms = pts_ms,
                 s_keyframe = f_keyframe f, s_config_frame = f_config_frame f,
                 s_drop_able = f_drop_able f, s_data = Some d, s_len = length d\<rparr>
      in log_calls (unref_opt old)
           (set_slot idx (slot\<lparr>sl_seq := sl_seq slot + 2, sl_buf := Some b, sl_pub := pub\<rparr>) r))"

section \<open>Waking readers\<close>

text \<open>
  Every registered reader is marked; the wake queues of the first \<open>snap_cap\<close> readers that
  have one are collected and pushed after the lock is released, the others are pushed at
  once.
\<close>

fun ring_signal_readers ::
  "nat \<Rightarrow> nat \<Rightarrow> (nat \<times> 'b zms_gop_reader) list \<Rightarrow> nat list
     \<Rightarrow> (nat \<times> 'b zms_gop_reader) list \<times> nat list \<times> 'b ztk_call list" where
  "ring_signal_readers seq snap_cap [] snaps = ([], snaps, [])"
| "ring_signal_readers seq snap_cap ((i, rd) # rds) snaps =
     (let push = r_wake_q rd;
          fits = (length snaps < snap_cap);
          snaps' = (if push \<and> fits then snaps @ [i] else snaps);
          now = (if push \<and> \<not> fits then [WakeReader i seq] else [])
      in case ring_signal_readers seq snap_cap rds snaps' of
           (rds', snaps'', calls) \<Rightarrow>
             ((i, rd\<lparr>r_wake_pending := True\<rparr>) # rds', snaps'', now @ calls))"

definition ring_flush_reader_wakes :: "nat list \<Rightarrow> nat \<Rightarrow> 'b ztk_call list" where
  "ring_flush_reader_wakes snaps seq = map (\<lambda>i. WakeReader i seq) snaps"

section \<open>Committing a frame\<close>

function evict_while_full :: "'b zms_gop_queue \<Rightarrow> 'b zms_gop_queue" where
  "evict_while_full r =
     (if q_count r \<ge> ZMS_GOP_QUEUE_CAPACITY \<and> q_gop_count r > 0
      then evict_while_full (pop_front_gop r) else r)"
  by pat_completeness auto
termination
  by (relation "measure q_gop_count") auto

definition store_frame ::
  "registry \<Rightarrow> 'b zms_gop_queue \<Rightarrow> zms_frame \<Rightarrow> 'b \<Rightarrow> bytes \<Rightarrow> u32 \<Rightarrow> u32 \<Rightarrow> 'b zms_gop_queue" where
  "store_frame g r f b d dts_ms pts_ms =
     (let r1 = slot_publish r (q_write_idx r) b d f dts_ms pts_ms;
          r2 = r1\<lparr>q_write_idx := q_write_idx r1 + 1\<rparr>;
          r3 = (if q_count r2 < ZMS_GOP_QUEUE_CAPACITY then r2\<lparr>q_count := q_count r2 + 1\<rparr> else r2)
      in if \<not> f_drop_able f then
           (if f_track f = ZMS_TRACK_VIDEO
            then r3\<lparr>q_video_key_pos := zms_frame_video_gop_marker g f\<rparr>
            else if \<not> q_has_video r3 then r3\<lparr>q_video_key_pos := True\<rparr> else r3)
         else r3)"

definition trim_after_store :: "'b zms_gop_queue \<Rightarrow> u32 \<Rightarrow> 'b zms_gop_queue" where
  "trim_after_store r dts_ms =
     (let r1 = (if q_count r \<ge> ZMS_GOP_QUEUE_CAPACITY \<and> q_gop_count r > 1
                then pop_front_gop r else r)
      in trim_gops_for_time r1 dts_ms)"

definition signal_commit :: "'b zms_gop_queue \<Rightarrow> 'b zms_gop_queue" where
  "signal_commit r =
     (let r1 = r\<lparr>q_write_seq := q_write_idx r\<rparr>
      in case ring_signal_readers (q_write_seq r1) ZMS_GOP_QUEUE_SIGNAL_SNAP (q_readers r1) [] of
           (rds, snaps, calls) \<Rightarrow>
             log_calls (calls @ ring_flush_reader_wakes snaps (q_write_seq r1) @ [WakeRing])
               (r1\<lparr>q_readers := rds\<rparr>))"

text \<open>
  \<open>ring_commit_frame\<close>: the status and the queue, or \<open>None\<close> when the eviction loop does
  not end. \<open>b\<close> is the buffer handed over, \<open>d\<close> its bytes.
\<close>

definition ring_commit_frame ::
  "registry \<Rightarrow> 'b zms_gop_queue \<Rightarrow> zms_frame \<Rightarrow> 'b \<Rightarrow> bytes
     \<Rightarrow> (ztk_err \<times> 'b zms_gop_queue) option" where
  "ring_commit_frame g r f b d =
     (if d = [] then Some (ZTK_ERR_INVALID, r)
      else
        let (dts_ms, pts_ms) = zms_gop_queue_timeline_from_frame f;
            r1 = (if f_track f = ZMS_TRACK_VIDEO \<and> \<not> f_config_frame f
                  then r\<lparr>q_has_video := True\<rparr> else r)
        in if \<not> zms_gop_queue_storable g f (q_cache_started r1) (q_has_video r1)
           then Some (ZTK_OK, log_calls [BufUnref b] r1)
           else (case (if zms_gop_queue_new_gop g f (q_video_key_pos r1) (q_has_video r1)
                       then on_new_gop r1 dts_ms else Some r1) of
                   None \<Rightarrow> None
                 | Some r2 \<Rightarrow>
                     Some (ZTK_OK, signal_commit (trim_after_store
                       (store_frame g (evict_while_full r2) f b d dts_ms pts_ms) dts_ms))))"

section \<open>The public writers\<close>

text \<open>
  \<open>cap\<close> and \<open>refcnt\<close> are \<open>ztk_buf_cap\<close> and \<open>ztk_buf_refcnt\<close>, \<open>fresh\<close> is what
  \<open>ztk_buf_alloc\<close> returns. The buffer of the next slot is reused when nobody else holds it.
\<close>

definition zms_gop_queue_alloc_write ::
  "('b \<Rightarrow> nat) \<Rightarrow> ('b \<Rightarrow> nat) \<Rightarrow> 'b option \<Rightarrow> 'b zms_gop_queue \<Rightarrow> nat \<Rightarrow> 'b option" where
  "zms_gop_queue_alloc_write cap refcnt fresh r n =
     (if n = 0 then None
      else (case sl_buf (slot_at r (q_write_idx r)) of
              None \<Rightarrow> fresh
            | Some b \<Rightarrow> if cap b \<ge> n \<and> refcnt b = 1 then Some b else fresh))"

text \<open>Writing into a buffer shows in every slot whose data pointer points into it.\<close>

definition fill_buf :: "'b zms_gop_queue \<Rightarrow> 'b \<Rightarrow> bytes \<Rightarrow> 'b zms_gop_queue" where
  "fill_buf r b d =
     r\<lparr>q_slots := map (\<lambda>sl. if sl_buf sl = Some b
          then sl\<lparr>sl_pub := (sl_pub sl)\<lparr>s_data := Some d\<rparr>\<rparr> else sl) (q_slots r)\<rparr>"

definition zms_gop_queue_write ::
  "registry \<Rightarrow> ('b \<Rightarrow> nat) \<Rightarrow> ('b \<Rightarrow> nat) \<Rightarrow> 'b option \<Rightarrow> 'b zms_gop_queue \<Rightarrow> zms_frame
     \<Rightarrow> (ztk_err \<times> 'b zms_gop_queue) option" where
  "zms_gop_queue_write g cap refcnt fresh r f =
     (if f_data f = None \<or> f_size f = 0 then Some (ZTK_ERR_INVALID, r)
      else
        let f1 = zms_frame_refresh_key_from_es g f in
        case zms_gop_queue_alloc_write cap refcnt fresh r (f_size f1) of
          None \<Rightarrow> Some (ZTK_ERR_NOMEM, r)
        | Some b \<Rightarrow> ring_commit_frame g (fill_buf r b (f_bytes f1)) f1 b (f_bytes f1))"

definition zms_gop_queue_write_buf ::
  "registry \<Rightarrow> 'b zms_gop_queue \<Rightarrow> 'b \<Rightarrow> bytes \<Rightarrow> zms_frame
     \<Rightarrow> (ztk_err \<times> 'b zms_gop_queue) option" where
  "zms_gop_queue_write_buf g r b d f =
     ring_commit_frame g r (zms_frame_refresh_key_from_es g f) b d"

section \<open>Codec configuration and clearing\<close>

definition set_blob :: "bool \<Rightarrow> bytes option \<Rightarrow> ztk_err \<times> bytes" where
  "set_blob mem_ok d =
     (case d of
        None \<Rightarrow> (ZTK_OK, [])
      | Some bs \<Rightarrow>
          if bs = [] then (ZTK_OK, [])
          else if \<not> mem_ok then (ZTK_ERR_NOMEM, [])
          else (ZTK_OK, bs))"

definition zms_gop_queue_set_video_config ::
  "bool \<Rightarrow> 'b zms_gop_queue \<Rightarrow> bytes option \<Rightarrow> ztk_err \<times> 'b zms_gop_queue" where
  "zms_gop_queue_set_video_config mem_ok r d =
     (case set_blob mem_ok d of
        (err, blob) \<Rightarrow>
          let r1 = r\<lparr>q_video_config := blob\<rparr> in
          (err, if err = ZTK_OK then r1\<lparr>q_cache_started := True, q_has_video := True\<rparr> else r1))"

definition zms_gop_queue_set_audio_config ::
  "bool \<Rightarrow> 'b zms_gop_queue \<Rightarrow> bytes option \<Rightarrow> ztk_err \<times> 'b zms_gop_queue" where
  "zms_gop_queue_set_audio_config mem_ok r d =
     (case set_blob mem_ok d of (err, blob) \<Rightarrow> (err, r\<lparr>q_audio_config := blob\<rparr>))"

definition gop_queue_copy_blob :: "bytes \<Rightarrow> nat \<Rightarrow> bytes" where
  "gop_queue_copy_blob blob cap =
     (if cap = 0 then [] else if length blob > 0 \<and> length blob \<le> cap then blob else [])"

definition zms_gop_queue_copy_video_config :: "'b zms_gop_queue \<Rightarrow> nat \<Rightarrow> bytes" where
  "zms_gop_queue_copy_video_config r cap = gop_queue_copy_blob (q_video_config r) cap"

definition zms_gop_queue_copy_audio_config :: "'b zms_gop_queue \<Rightarrow> nat \<Rightarrow> bytes" where
  "zms_gop_queue_copy_audio_config r cap = gop_queue_copy_blob (q_audio_config r) cap"

definition zms_gop_queue_pending_count :: "'b zms_gop_queue \<Rightarrow> nat" where
  "zms_gop_queue_pending_count r = q_count r"

definition zms_gop_queue_gop_count :: "'b zms_gop_queue \<Rightarrow> nat" where
  "zms_gop_queue_gop_count r = q_gop_count r"

definition free_slots :: "'b zms_frame_slot list \<Rightarrow> 'b zms_frame_slot list \<times> 'b ztk_call list" where
  "free_slots sls = (map (fst \<circ> free_slot) sls, concat (map (snd \<circ> free_slot) sls))"

definition zms_gop_queue_clear :: "'b zms_gop_queue \<Rightarrow> 'b zms_gop_queue" where
  "zms_gop_queue_clear r =
     (case free_slots (q_slots r) of
        (sls, calls) \<Rightarrow>
          let r1 = log_calls calls (r\<lparr>q_slots := sls, q_write_idx := 0, q_write_seq := 0,
                     q_oldest_seq := 0, q_count := 0\<rparr>)
          in (reset_gop r1)\<lparr>q_video_config := [], q_audio_config := []\<rparr>)"

text \<open>\<open>destroy\<close> releases every slot; the calls are all that remains of the queue.\<close>

definition zms_gop_queue_destroy :: "'b zms_gop_queue \<Rightarrow> 'b ztk_call list" where
  "zms_gop_queue_destroy r = q_calls r @ snd (free_slots (q_slots r))"

declare trim_gops_loop.simps [simp del] evict_while_full.simps [simp del]

end
