(* ===== verification/Gop_Inv.thy ===== *)
theory Gop_Inv
  imports Gop_Queue
begin

text \<open>
  The invariant of the GOP ring and its preservation by every writer operation. It is what
  the C code assumes silently: the arrays are indexed in range, \<open>count\<close> never exceeds the
  capacity, the starts of the tracked GOPs increase and lie in the retained window, so the
  indices a reader may ask for, from \<open>oldest_idx\<close> up to \<open>write_idx\<close>, never exceed one turn
  of the ring. A consequence is that no commit loops: the eviction loops always end.
\<close>

unbundle bit_operations_syntax

section \<open>The invariant\<close>

definition starts_ok :: "nat list \<Rightarrow> nat \<Rightarrow> nat \<Rightarrow> bool" where
  "starts_ok gs n lim \<longleftrightarrow>
     (\<forall>i. Suc i < n \<longrightarrow> gs ! i < gs ! Suc i) \<and> (n > 0 \<longrightarrow> gs ! (n - 1) < lim)"

text \<open>
  \<open>lim\<close> bounds the last GOP start: it is \<open>write_idx\<close> between operations and
  \<open>write_idx + 1\<close> inside a commit, after a GOP was opened and before its frame is stored.
\<close>

definition gop_inv_at :: "nat \<Rightarrow> 'b zms_gop_queue \<Rightarrow> bool" where
  "gop_inv_at lim r \<longleftrightarrow>
     length (q_slots r) = ZMS_GOP_QUEUE_CAPACITY \<and>
     length (q_gop_start r) = ZMS_GOP_QUEUE_MAX_GOP \<and>
     length (q_gop_dts r) = ZMS_GOP_QUEUE_MAX_GOP \<and>
     q_count r \<le> ZMS_GOP_QUEUE_CAPACITY \<and> q_count r \<le> q_write_idx r \<and>
     q_gop_count r \<le> ZMS_GOP_QUEUE_MAX_GOP \<and>
     1 \<le> q_target_gops r \<and> q_target_gops r \<le> ZMS_GOP_QUEUE_MAX_GOP \<and>
     starts_ok (q_gop_start r) (q_gop_count r) lim \<and>
     (q_gop_count r > 0 \<longrightarrow> q_write_idx r - q_gop_start r ! 0 \<le> q_count r)"

definition gop_inv :: "'b zms_gop_queue \<Rightarrow> bool" where
  "gop_inv r \<longleftrightarrow> gop_inv_at (q_write_idx r) r \<and> q_write_seq r = q_write_idx r
     \<and> q_oldest_seq r \<le> oldest_idx r \<and> (q_write_idx r > 0 \<longrightarrow> q_count r > 0)"

definition defaults_ok :: "gop_defaults \<Rightarrow> bool" where
  "defaults_ok d \<longleftrightarrow> 1 \<le> g_default_target_gops d \<and> g_default_target_gops d \<le> ZMS_GOP_QUEUE_MAX_GOP"

lemma clamp_target_gops_bounds:
  "1 \<le> clamp_target_gops n" "clamp_target_gops n \<le> ZMS_GOP_QUEUE_MAX_GOP"
  by (auto simp: clamp_target_gops_def gop_limits)

lemma defaults_ok_set: "defaults_ok (zms_gop_queue_set_default_target_gops d n)"
  using clamp_target_gops_bounds[of n]
  by (simp add: defaults_ok_def zms_gop_queue_set_default_target_gops_def)

section \<open>GOP starts\<close>

lemma starts_ok_mono: "starts_ok gs n lim \<Longrightarrow> lim \<le> lim' \<Longrightarrow> starts_ok gs n lim'"
  by (auto simp: starts_ok_def)

lemma starts_ok_less:
  assumes "starts_ok gs n lim" "i < j" "j < n"
  shows "gs ! i < gs ! j"
  using assms(2,3)
proof (induction j)
  case (Suc j)
  have "gs ! j < gs ! Suc j" using assms(1) Suc.prems by (simp add: starts_ok_def)
  then show ?case using Suc by (cases "i = j") auto
qed simp

lemma starts_ok_top: "starts_ok gs n lim \<Longrightarrow> i < n \<Longrightarrow> gs ! i < lim"
proof -
  assume so: "starts_ok gs n lim" and i: "i < n"
  then have last: "gs ! (n - 1) < lim" by (simp add: starts_ok_def)
  show "gs ! i < lim"
  proof (cases "i = n - 1")
    case False
    then have "i < n - 1" using i by simp
    with i starts_ok_less[OF so, of i "n - 1"] last show ?thesis by simp
  qed (use last in simp)
qed

lemma length_shift_down [simp]: "1 \<le> n \<Longrightarrow> n \<le> length a \<Longrightarrow> length (shift_down n a) = length a"
  by (auto simp: shift_down_def)

lemma nth_shift_down: "n \<le> length a \<Longrightarrow> Suc i < n \<Longrightarrow> shift_down n a ! i = a ! Suc i"
  using less_diff_conv[of i n 1] by (simp add: shift_down_def nth_append)

lemma starts_ok_shift:
  assumes "starts_ok gs n lim" "1 < n" "n \<le> length gs"
  shows "starts_ok (shift_down n gs) (n - 1) lim"
proof -
  have "shift_down n gs ! i < shift_down n gs ! Suc i" if "Suc i < n - 1" for i
    using assms that by (simp add: nth_shift_down starts_ok_def)
  moreover have "shift_down n gs ! (n - 1 - 1) < lim"
    using assms by (cases n; cases "n - 1") (auto simp: nth_shift_down starts_ok_def)
  ultimately show ?thesis by (simp add: starts_ok_def)
qed

lemma starts_ok_append:
  assumes "starts_ok gs n w" "n < length gs"
  shows "starts_ok (gs[n := w]) (Suc n) (Suc w)"
  using assms by (auto simp: starts_ok_def nth_list_update less_Suc_eq)

section \<open>Popping a GOP\<close>

lemma pop_front_gop_fields [simp]:
  "q_write_idx (pop_front_gop r) = q_write_idx r"
  "q_slots (pop_front_gop r) = q_slots r"
  "q_write_seq (pop_front_gop r) = q_write_seq r"
  "q_target_gops (pop_front_gop r) = q_target_gops r"
  "q_cache_ms (pop_front_gop r) = q_cache_ms r"
  "q_cache_started (pop_front_gop r) = q_cache_started r"
  "q_has_video (pop_front_gop r) = q_has_video r"
  "q_video_key_pos (pop_front_gop r) = q_video_key_pos r"
  "q_readers (pop_front_gop r) = q_readers r"
  "q_calls (pop_front_gop r) = q_calls r"
  "q_video_config (pop_front_gop r) = q_video_config r"
  "q_audio_config (pop_front_gop r) = q_audio_config r"
  "q_reader_cap (pop_front_gop r) = q_reader_cap r"
  by (simp_all add: pop_front_gop_def publish_oldest_def Let_def)

lemma pop_front_gop_le: "q_count (pop_front_gop r) \<le> q_count r"
  by (auto simp: pop_front_gop_def publish_oldest_def Let_def)

lemma pop_front_gop_start:
  "length (q_gop_start r) = ZMS_GOP_QUEUE_MAX_GOP \<Longrightarrow> q_gop_count r \<le> ZMS_GOP_QUEUE_MAX_GOP
    \<Longrightarrow> Suc i < q_gop_count r \<Longrightarrow> q_gop_start (pop_front_gop r) ! i = q_gop_start r ! Suc i"
  by (simp add: pop_front_gop_def publish_oldest_def Let_def nth_shift_down)

lemma pop_front_gop_dts:
  "length (q_gop_dts r) = ZMS_GOP_QUEUE_MAX_GOP \<Longrightarrow> q_gop_count r \<le> ZMS_GOP_QUEUE_MAX_GOP
    \<Longrightarrow> Suc i < q_gop_count r \<Longrightarrow> q_gop_dts (pop_front_gop r) ! i = q_gop_dts r ! Suc i"
  by (simp add: pop_front_gop_def publish_oldest_def Let_def nth_shift_down)

text \<open>The frames given up are exactly those before the start of the next GOP.\<close>

lemma pop_front_gop_window:
  assumes "gop_inv_at lim r" "1 < q_gop_count r"
  shows "q_count (pop_front_gop r) = q_count r - (q_gop_start r ! 1 - q_gop_start r ! 0)"
  using assms by (auto simp: pop_front_gop_def publish_oldest_def Let_def)

lemma pop_front_gop_inv_at:
  assumes inv: "gop_inv_at lim r" and lim: "lim \<le> Suc (q_write_idx r)"
  shows "gop_inv_at lim (pop_front_gop r)"
proof (cases "q_gop_count r > 1")
  case True
  let ?r = "pop_front_gop r"
  from inv True have lens: "q_gop_count r \<le> length (q_gop_start r)"
      "q_gop_count r \<le> length (q_gop_dts r)"
    and so: "starts_ok (q_gop_start r) (q_gop_count r) lim"
    by (auto simp: gop_inv_at_def)
  have so': "starts_ok (shift_down (q_gop_count r) (q_gop_start r)) (q_gop_count r - 1) lim"
    using starts_ok_shift[OF so True lens(1)] .
  have lt: "q_gop_start r ! 0 < q_gop_start r ! 1" "q_gop_start r ! 1 < lim"
    using starts_ok_less[OF so, of 0 1] starts_ok_top[OF so, of 1] True by auto
  have st: "q_gop_start ?r = shift_down (q_gop_count r) (q_gop_start r)"
      "q_gop_dts ?r = shift_down (q_gop_count r) (q_gop_dts r)"
    using True by (simp_all add: pop_front_gop_def publish_oldest_def Let_def)
  have first: "q_gop_start ?r ! 0 = q_gop_start r ! 1"
    using st nth_shift_down[OF lens(1), of 0] True by simp
  have cnt: "q_count ?r = q_count r - (q_gop_start r ! 1 - q_gop_start r ! 0)"
    using pop_front_gop_window[OF inv True] .
  have "q_write_idx r - q_gop_start r ! 1 \<le> q_count ?r"
    using inv True lt lim cnt by (auto simp: gop_inv_at_def)
  then show ?thesis
    using inv True so' st first lens pop_front_gop_le[of r]
    by (auto simp: gop_inv_at_def)
next
  case False
  then have "q_gop_count (pop_front_gop r) = 0" by simp
  moreover have "q_gop_start (pop_front_gop r) = q_gop_start r"
      "q_gop_dts (pop_front_gop r) = q_gop_dts r"
    using False by (auto simp: pop_front_gop_def publish_oldest_def Let_def)
  ultimately show ?thesis
    using inv pop_front_gop_le[of r] by (auto simp: gop_inv_at_def starts_ok_def)
qed

lemma pop_front_gop_oldest:
  "q_gop_count r > 0 \<Longrightarrow> q_oldest_seq (pop_front_gop r) = oldest_idx (pop_front_gop r)"
  by (simp add: pop_front_gop_def publish_oldest_def oldest_idx_def Let_def)

section \<open>The eviction loops end and keep the invariant\<close>

text \<open>
  All loops of the writer pop GOPs from the front; \<open>popped r r'\<close> is what each of them keeps.
\<close>

inductive popped :: "'b zms_gop_queue \<Rightarrow> 'b zms_gop_queue \<Rightarrow> bool" where
  popped_refl: "popped r r"
| popped_step: "q_gop_count r > 0 \<Longrightarrow> popped (pop_front_gop r) r' \<Longrightarrow> popped r r'"

lemma popped_fields:
  assumes "popped r r'"
  shows "q_write_idx r' = q_write_idx r \<and> q_slots r' = q_slots r \<and> q_write_seq r' = q_write_seq r
    \<and> q_target_gops r' = q_target_gops r \<and> q_cache_ms r' = q_cache_ms r
    \<and> q_cache_started r' = q_cache_started r \<and> q_has_video r' = q_has_video r
    \<and> q_video_key_pos r' = q_video_key_pos r \<and> q_readers r' = q_readers r
    \<and> q_calls r' = q_calls r \<and> q_count r' \<le> q_count r \<and> q_gop_count r' \<le> q_gop_count r
    \<and> q_video_config r' = q_video_config r \<and> q_audio_config r' = q_audio_config r
    \<and> q_reader_cap r' = q_reader_cap r"
  using assms
proof (induction rule: popped.induct)
  case (popped_step r r')
  then show ?case using pop_front_gop_le[of r] by auto
qed simp

lemma popped_inv_at:
  "popped r r' \<Longrightarrow> gop_inv_at lim r \<Longrightarrow> lim \<le> Suc (q_write_idx r) \<Longrightarrow> gop_inv_at lim r'"
  by (induction rule: popped.induct) (auto intro: pop_front_gop_inv_at)

lemma popped_oldest:
  "popped r r' \<Longrightarrow> q_oldest_seq r \<le> oldest_idx r \<Longrightarrow> q_oldest_seq r' \<le> oldest_idx r'"
  by (induction rule: popped.induct) (auto simp: pop_front_gop_oldest)

text \<open>The GOPs that remain are the newest ones, unchanged.\<close>

lemma popped_suffix:
  assumes "popped r r'" "gop_inv_at lim r" "lim \<le> Suc (q_write_idx r)"
  shows "i < q_gop_count r' \<Longrightarrow>
    q_gop_start r' ! i = q_gop_start r ! (q_gop_count r - q_gop_count r' + i)"
  using assms
proof (induction arbitrary: i rule: popped.induct)
  case (popped_step r r')
  have inv': "gop_inv_at lim (pop_front_gop r)"
    using popped_step.prems(2,3) by (rule pop_front_gop_inv_at)
  have le: "q_gop_count r' \<le> q_gop_count r - 1"
    using popped_fields[OF popped_step.hyps(2)] by simp
  have "q_gop_start r' ! i
      = q_gop_start (pop_front_gop r) ! (q_gop_count r - 1 - q_gop_count r' + i)"
    using popped_step.IH[OF popped_step.prems(1) inv'] popped_step.prems(3) by simp
  also have "\<dots> = q_gop_start r ! Suc (q_gop_count r - 1 - q_gop_count r' + i)"
    using popped_step.prems le by (intro pop_front_gop_start) (auto simp: gop_inv_at_def)
  also have "Suc (q_gop_count r - 1 - q_gop_count r' + i) = q_gop_count r - q_gop_count r' + i"
    using le popped_step.hyps(1) by arith
  finally show ?case .
qed simp

lemma trim_gops_loop_popped: "popped r (trim_gops_loop r now)"
proof (induction r now rule: trim_gops_loop.induct)
  case (1 r now)
  show ?case
  proof (cases "q_gop_count r > 1 \<and> \<not> now < q_gop_dts r ! 0
      \<and> \<not> now - q_gop_dts r ! 0 \<le> q_cache_ms r")
    case True
    then show ?thesis
      using 1[of "q_gop_dts r ! 0"] by (subst trim_gops_loop.simps) (auto intro: popped_step)
  next
    case False
    then show ?thesis by (subst trim_gops_loop.simps) (auto simp: Let_def intro: popped_refl)
  qed
qed

lemma trim_gops_popped: "popped r (trim_gops_for_time r now)"
  by (simp add: trim_gops_for_time_def trim_gops_loop_popped popped_refl)

lemma trim_gops_keeps_one: "q_gop_count r > 0 \<Longrightarrow> q_gop_count (trim_gops_for_time r now) > 0"
proof -
  have "q_gop_count r > 0 \<longrightarrow> q_gop_count (trim_gops_loop r now) > 0"
  proof (induction r now rule: trim_gops_loop.induct)
    case (1 r now)
    then show ?case by (subst trim_gops_loop.simps) (auto simp: Let_def)
  qed
  then show "q_gop_count r > 0 \<Longrightarrow> ?thesis" by (simp add: trim_gops_for_time_def)
qed

lemma evict_while_full_popped: "popped r (evict_while_full r)"
proof (induction r rule: evict_while_full.induct)
  case (1 r)
  then show ?case
    by (subst evict_while_full.simps) (auto intro: popped_refl popped_step)
qed

lemma evict_while_full_room:
  "q_count (evict_while_full r) < ZMS_GOP_QUEUE_CAPACITY \<or> q_gop_count (evict_while_full r) = 0"
proof (induction r rule: evict_while_full.induct)
  case (1 r)
  then show ?case
    by (cases "q_count r \<ge> ZMS_GOP_QUEUE_CAPACITY \<and> q_gop_count r > 0")
      (subst (1 2) evict_while_full.simps; auto)+
qed

lemma make_room_for_gop_total:
  assumes "1 \<le> q_target_gops r"
  shows "\<exists>r'. make_room_for_gop r = Some r' \<and> popped r r'
    \<and> q_gop_count r' < ZMS_GOP_QUEUE_MAX_GOP
    \<and> (q_gop_count r' < q_target_gops r \<or> q_count r' < ZMS_GOP_QUEUE_CAPACITY)"
  using assms
proof (induction "q_gop_count r" arbitrary: r rule: less_induct)
  case less
  show ?case
  proof (cases "q_gop_count r \<ge> ZMS_GOP_QUEUE_MAX_GOP
      \<or> (q_gop_count r \<ge> q_target_gops r \<and> q_count r \<ge> ZMS_GOP_QUEUE_CAPACITY)")
    case True
    then have pos: "q_gop_count r > 0" using less.prems by (auto simp: gop_limits)
    with less.hyps[of "pop_front_gop r"] less.prems obtain r' where
      "make_room_for_gop (pop_front_gop r) = Some r'" "popped (pop_front_gop r) r'"
      "q_gop_count r' < ZMS_GOP_QUEUE_MAX_GOP"
      "q_gop_count r' < q_target_gops r \<or> q_count r' < ZMS_GOP_QUEUE_CAPACITY"
      by auto
    then show ?thesis using True pos
      by (subst make_room_for_gop.simps) (auto intro: popped_step)
  next
    case False
    then show ?thesis by (subst make_room_for_gop.simps) (auto intro: popped_refl)
  qed
qed

end
