(* ===== verification/Gop_Commit.thy ===== *)
theory Gop_Commit
  imports Gop_Inv
begin

text \<open>
  What one commit does: it always returns, keeps the invariant of the ring, stores the frame
  in the slot of the write index and leaves every other slot alone, and the GOPs it keeps
  are the newest ones. The refinement to a log of published frames follows: every index a
  reader may ask for holds the frame that was published at that index.
\<close>

unbundle bit_operations_syntax

section \<open>Opening a GOP\<close>

definition same_data :: "'b zms_gop_queue \<Rightarrow> 'b zms_gop_queue \<Rightarrow> bool" where
  "same_data r r' \<longleftrightarrow> q_write_idx r' = q_write_idx r \<and> q_slots r' = q_slots r
     \<and> q_write_seq r' = q_write_seq r \<and> q_has_video r' = q_has_video r
     \<and> q_readers r' = q_readers r \<and> q_calls r' = q_calls r \<and> q_count r' \<le> q_count r
     \<and> q_target_gops r' = q_target_gops r \<and> q_video_config r' = q_video_config r
     \<and> q_audio_config r' = q_audio_config r \<and> q_reader_cap r' = q_reader_cap r
     \<and> q_cache_ms r' = q_cache_ms r"

lemma same_data_refl [intro]: "same_data r r"
  by (simp add: same_data_def)

lemma same_data_trans: "same_data r r' \<Longrightarrow> same_data r' r'' \<Longrightarrow> same_data r r''"
  by (simp add: same_data_def)

lemma popped_same_data: "popped r r' \<Longrightarrow> same_data r r'"
  by (drule popped_fields) (simp add: same_data_def)

lemma gop_inv_at_open:
  assumes "gop_inv_at (q_write_idx r) r" "q_gop_count r < ZMS_GOP_QUEUE_MAX_GOP"
  shows "gop_inv_at (Suc (q_write_idx r))
    (r\<lparr>q_gop_start := (q_gop_start r)[q_gop_count r := q_write_idx r],
       q_gop_dts := (q_gop_dts r)[q_gop_count r := dts], q_gop_count := q_gop_count r + 1\<rparr>)"
proof (cases "q_gop_count r = 0")
  case True
  with assms show ?thesis
    by (auto simp: gop_inv_at_def starts_ok_def gop_limits)
next
  case False
  have "starts_ok (q_gop_start r) (q_gop_count r) (q_write_idx r)"
    using assms(1) by (simp add: gop_inv_at_def)
  from starts_ok_append[OF this, of] assms False show ?thesis
    by (auto simp: gop_inv_at_def)
qed

lemma gop_inv_at_start0:
  assumes "gop_inv_at (q_write_idx r) r"
  shows "gop_inv_at (Suc (q_write_idx r))
    (publish_oldest (r\<lparr>q_cache_started := True, q_gop_start := (q_gop_start r)[0 := q_write_idx r],
       q_gop_dts := (q_gop_dts r)[0 := dts], q_gop_count := 1\<rparr>))"
  using assms by (auto simp: gop_inv_at_def starts_ok_def publish_oldest_def gop_limits)

lemma gop_inv_at_lim:
  "gop_inv_at lim r \<Longrightarrow> lim \<le> lim' \<Longrightarrow> gop_inv_at lim' r"
  by (auto simp: gop_inv_at_def intro: starts_ok_mono)

text \<open>
  \<open>on_new_gop\<close> returns, and the index it writes is inside the arrays: the GOP it opens
  starts at the write index and is the newest one.
\<close>

lemma on_new_gop_spec:
  assumes inv: "gop_inv_at (q_write_idx r) r" and old: "q_oldest_seq r \<le> oldest_idx r"
  shows "\<exists>r'. on_new_gop r dts = Some r' \<and> same_data r r'
    \<and> gop_inv_at (Suc (q_write_idx r)) r' \<and> q_oldest_seq r' \<le> oldest_idx r'
    \<and> q_gop_count r' > 0 \<and> q_gop_start r' ! (q_gop_count r' - 1) = q_write_idx r
    \<and> q_gop_dts r' ! (q_gop_count r' - 1) = dts \<and> q_cache_started r'"
proof (cases "\<not> q_cache_started r \<or> q_gop_count r = 0")
  case True
  with gop_inv_at_start0[OF inv, of dts] inv show ?thesis
    by (auto simp: on_new_gop_def same_data_def publish_oldest_def oldest_idx_def
        gop_inv_at_def gop_limits)
next
  case False
  then have started: "q_cache_started r" and pos: "q_gop_count r > 0" by auto
  have lt: "q_gop_start r ! (q_gop_count r - 1) < q_write_idx r"
    using inv pos by (simp add: gop_inv_at_def starts_ok_def)
  obtain r1 where r1: "make_room_for_gop r = Some r1" "popped r r1"
      "q_gop_count r1 < ZMS_GOP_QUEUE_MAX_GOP"
    using make_room_for_gop_total[of r] inv by (auto simp: gop_inv_at_def)
  define r2 where "r2 = trim_gops_for_time r1 dts"
  have p2: "popped r1 r2" unfolding r2_def by (rule trim_gops_popped)
  have same: "same_data r r2"
    using same_data_trans[OF popped_same_data[OF r1(2)] popped_same_data[OF p2]] .
  then have wi: "q_write_idx r2 = q_write_idx r" by (simp add: same_data_def)
  have inv2: "gop_inv_at (q_write_idx r2) r2"
    using popped_inv_at[OF p2 popped_inv_at[OF r1(2) inv]] popped_fields[OF r1(2)] wi by simp
  have old2: "q_oldest_seq r2 \<le> oldest_idx r2"
    using popped_oldest[OF p2 popped_oldest[OF r1(2) old]] .
  have room: "q_gop_count r2 < ZMS_GOP_QUEUE_MAX_GOP"
    using popped_fields[OF p2] r1(3) by simp
  define r3 where "r3 = r2\<lparr>q_gop_start := (q_gop_start r2)[q_gop_count r2 := q_write_idx r2],
    q_gop_dts := (q_gop_dts r2)[q_gop_count r2 := dts], q_gop_count := q_gop_count r2 + 1\<rparr>"
  have res: "on_new_gop r dts = Some r3"
    using False lt r1(1) by (simp add: on_new_gop_def r2_def r3_def Let_def)
  have inv3: "gop_inv_at (Suc (q_write_idx r)) r3"
    using gop_inv_at_open[OF inv2 room, of dts] wi by (simp add: r3_def)
  have lens: "q_gop_count r2 < length (q_gop_start r2)" "q_gop_count r2 < length (q_gop_dts r2)"
    using inv2 room by (simp_all add: gop_inv_at_def)
  have le: "oldest_idx r2 \<le> q_write_idx r2"
    using inv2 by (auto simp: oldest_idx_def gop_inv_at_def intro: less_imp_le starts_ok_top)
  have old3: "q_oldest_seq r3 \<le> oldest_idx r3"
    using old2 le lens by (auto simp: r3_def oldest_idx_def nth_list_update)
  have st: "q_cache_started r3"
    using started popped_fields[OF p2] popped_fields[OF r1(2)] by (simp add: r3_def)
  have "same_data r r3" using same by (simp add: r3_def same_data_def)
  moreover have "q_gop_count r3 > 0 \<and> q_gop_start r3 ! (q_gop_count r3 - 1) = q_write_idx r
      \<and> q_gop_dts r3 ! (q_gop_count r3 - 1) = dts"
    using lens wi by (simp add: r3_def)
  ultimately show ?thesis
    by (intro exI[of _ r3]) (simp only: res inv3 old3 st simp_thms)
qed

section \<open>Storing the frame\<close>

definition published :: "'b \<Rightarrow> bytes \<Rightarrow> zms_frame \<Rightarrow> u32 \<Rightarrow> u32 \<Rightarrow> 'b zms_frame_slot \<Rightarrow> bool" where
  "published b d f dts pts sl \<longleftrightarrow> sl_buf sl = Some b \<and>
     sl_pub sl = \<lparr>s_codec = f_codec f, s_track = f_track f, s_dts_ms = dts, s_pts_ms = pts,
       s_keyframe = f_keyframe f, s_config_frame = f_config_frame f,
       s_drop_able = f_drop_able f, s_data = Some d, s_len = length d\<rparr>"

lemma slot_publish_fields [simp]:
  "q_write_idx (slot_publish r i b d f x y) = q_write_idx r"
  "q_count (slot_publish r i b d f x y) = q_count r"
  "q_gop_count (slot_publish r i b d f x y) = q_gop_count r"
  "q_gop_start (slot_publish r i b d f x y) = q_gop_start r"
  "q_gop_dts (slot_publish r i b d f x y) = q_gop_dts r"
  "q_write_seq (slot_publish r i b d f x y) = q_write_seq r"
  "q_oldest_seq (slot_publish r i b d f x y) = q_oldest_seq r"
  "q_target_gops (slot_publish r i b d f x y) = q_target_gops r"
  "q_has_video (slot_publish r i b d f x y) = q_has_video r"
  "q_cache_started (slot_publish r i b d f x y) = q_cache_started r"
  "q_readers (slot_publish r i b d f x y) = q_readers r"
  "q_cache_ms (slot_publish r i b d f x y) = q_cache_ms r"
  by (simp_all add: slot_publish_def set_slot_def log_calls_def Let_def)

lemma slot_publish_slots:
  assumes "length (q_slots r) = ZMS_GOP_QUEUE_CAPACITY"
  shows "published b d f dts pts (slot_at (slot_publish r i b d f dts pts) i)"
    and "j mod ZMS_GOP_QUEUE_CAPACITY \<noteq> i mod ZMS_GOP_QUEUE_CAPACITY \<Longrightarrow>
      slot_at (slot_publish r i b d f dts pts) j = slot_at r j"
    and "length (q_slots (slot_publish r i b d f dts pts)) = ZMS_GOP_QUEUE_CAPACITY"
    and "sl_seq (slot_at (slot_publish r i b d f dts pts) i) = sl_seq (slot_at r i) + 2"
  using assms
  by (simp_all add: slot_publish_def slot_at_def set_slot_def log_calls_def published_def
      Let_def ZMS_GOP_QUEUE_CAPACITY_def)

lemma store_frame_fields [simp]:
  "q_write_idx (store_frame g r f b d dts pts) = Suc (q_write_idx r)"
  "q_gop_count (store_frame g r f b d dts pts) = q_gop_count r"
  "q_gop_start (store_frame g r f b d dts pts) = q_gop_start r"
  "q_gop_dts (store_frame g r f b d dts pts) = q_gop_dts r"
  "q_oldest_seq (store_frame g r f b d dts pts) = q_oldest_seq r"
  "q_target_gops (store_frame g r f b d dts pts) = q_target_gops r"
  "q_has_video (store_frame g r f b d dts pts) = q_has_video r"
  "q_cache_started (store_frame g r f b d dts pts) = q_cache_started r"
  "q_readers (store_frame g r f b d dts pts) = q_readers r"
  "q_slots (store_frame g r f b d dts pts) = q_slots (slot_publish r (q_write_idx r) b d f dts pts)"
  "q_calls (store_frame g r f b d dts pts) = q_calls (slot_publish r (q_write_idx r) b d f dts pts)"
  "q_count (store_frame g r f b d dts pts)
     = (if q_count r < ZMS_GOP_QUEUE_CAPACITY then Suc (q_count r) else q_count r)"
  by (simp_all add: store_frame_def Let_def)

lemma store_frame_inv:
  assumes inv: "gop_inv_at (Suc (q_write_idx r)) r"
    and room: "q_count r < ZMS_GOP_QUEUE_CAPACITY \<or> q_gop_count r = 0"
  shows "gop_inv_at (Suc (q_write_idx r)) (store_frame g r f b d dts pts)"
  using assms slot_publish_slots(3)[of r]
  by (auto simp: gop_inv_at_def)

lemma store_frame_oldest:
  "gop_inv_at (Suc (q_write_idx r)) r \<Longrightarrow> q_oldest_seq r \<le> oldest_idx r \<Longrightarrow>
    q_oldest_seq (store_frame g r f b d dts pts) \<le> oldest_idx (store_frame g r f b d dts pts)"
  by (auto simp: oldest_idx_def gop_inv_at_def split: if_split_asm)

lemma trim_after_store_popped: "popped r (trim_after_store r dts)"
proof (cases "q_count r \<ge> ZMS_GOP_QUEUE_CAPACITY \<and> q_gop_count r > 1")
  case True
  have "popped (pop_front_gop r) (trim_gops_for_time (pop_front_gop r) dts)"
    by (rule trim_gops_popped)
  with True show ?thesis by (auto simp: trim_after_store_def Let_def intro: popped_step)
next
  case False
  then have "trim_after_store r dts = trim_gops_for_time r dts"
    unfolding trim_after_store_def Let_def by (simp only: if_False)
  then show ?thesis by (simp add: trim_gops_popped)
qed

lemma trim_after_store_count:
  assumes inv: "gop_inv_at (q_write_idx r) r" and pos: "q_count r > 0"
  shows "q_count (trim_after_store r dts) > 0"
proof (cases "q_gop_count r = 0")
  case True
  then have "trim_after_store r dts = r"
    by (simp add: trim_after_store_def trim_gops_for_time_def trim_gops_loop.simps[of r] Let_def)
  with pos show ?thesis by simp
next
  case False
  let ?t = "trim_after_store r dts"
  have "q_gop_count ?t > 0"
    using False trim_gops_keeps_one[of r] trim_gops_keeps_one[of "pop_front_gop r"]
    by (auto simp: trim_after_store_def Let_def)
  moreover have "gop_inv_at (q_write_idx ?t) ?t"
    using popped_inv_at[OF trim_after_store_popped[of r dts] inv]
      popped_fields[OF trim_after_store_popped[of r dts]] by simp
  ultimately show ?thesis
    using starts_ok_top[of "q_gop_start ?t" "q_gop_count ?t" "q_write_idx ?t" 0]
    by (auto simp: gop_inv_at_def)
qed

lemma signal_commit_fields [simp]:
  "q_write_idx (signal_commit r) = q_write_idx r" "q_slots (signal_commit r) = q_slots r"
  "q_count (signal_commit r) = q_count r" "q_gop_count (signal_commit r) = q_gop_count r"
  "q_gop_start (signal_commit r) = q_gop_start r" "q_gop_dts (signal_commit r) = q_gop_dts r"
  "q_oldest_seq (signal_commit r) = q_oldest_seq r"
  "q_target_gops (signal_commit r) = q_target_gops r"
  "q_write_seq (signal_commit r) = q_write_idx r"
  "q_has_video (signal_commit r) = q_has_video r"
  "q_cache_started (signal_commit r) = q_cache_started r"
  by (simp_all add: signal_commit_def log_calls_def split: prod.splits)

lemma signal_commit_inv:
  "gop_inv (signal_commit r) \<longleftrightarrow> gop_inv_at (q_write_idx r) r \<and> q_oldest_seq r \<le> oldest_idx r
    \<and> (q_write_idx r > 0 \<longrightarrow> q_count r > 0)"
proof -
  have "oldest_idx (signal_commit r) = oldest_idx r"
    "gop_inv_at lim (signal_commit r) = gop_inv_at lim r" for lim
    by (simp_all add: oldest_idx_def gop_inv_at_def)
  then show ?thesis by (simp add: gop_inv_def)
qed

section \<open>A commit\<close>

definition pub_of :: "zms_frame \<Rightarrow> bytes \<Rightarrow> zms_gop_slot" where
  "pub_of f d = (case zms_gop_queue_timeline_from_frame f of (dts, pts) \<Rightarrow>
     \<lparr>s_codec = f_codec f, s_track = f_track f, s_dts_ms = dts, s_pts_ms = pts,
       s_keyframe = f_keyframe f, s_config_frame = f_config_frame f,
       s_drop_able = f_drop_able f, s_data = Some d, s_len = length d\<rparr>)"

definition saw_video :: "'b zms_gop_queue \<Rightarrow> zms_frame \<Rightarrow> bool" where
  "saw_video r f \<longleftrightarrow> q_has_video r \<or> (f_track f = ZMS_TRACK_VIDEO \<and> \<not> f_config_frame f)"

definition stores :: "registry \<Rightarrow> 'b zms_gop_queue \<Rightarrow> zms_frame \<Rightarrow> bool" where
  "stores g r f \<longleftrightarrow> zms_gop_queue_storable g f (q_cache_started r) (saw_video r f)"

definition opens_gop :: "registry \<Rightarrow> 'b zms_gop_queue \<Rightarrow> zms_frame \<Rightarrow> bool" where
  "opens_gop g r f \<longleftrightarrow> zms_gop_queue_new_gop g f (q_video_key_pos r) (saw_video r f)"

definition note_video :: "'b zms_gop_queue \<Rightarrow> zms_frame \<Rightarrow> 'b zms_gop_queue" where
  "note_video r f = (if f_track f = ZMS_TRACK_VIDEO \<and> \<not> f_config_frame f
     then r\<lparr>q_has_video := True\<rparr> else r)"

lemma note_video_fields [simp]:
  "q_has_video (note_video r f) = saw_video r f" "q_cache_started (note_video r f) = q_cache_started r"
  "q_video_key_pos (note_video r f) = q_video_key_pos r" "q_slots (note_video r f) = q_slots r"
  "q_write_idx (note_video r f) = q_write_idx r" "q_count (note_video r f) = q_count r"
  "q_gop_start (note_video r f) = q_gop_start r" "q_gop_dts (note_video r f) = q_gop_dts r"
  "q_gop_count (note_video r f) = q_gop_count r" "q_oldest_seq (note_video r f) = q_oldest_seq r"
  "q_write_seq (note_video r f) = q_write_seq r" "q_calls (note_video r f) = q_calls r"
  "q_target_gops (note_video r f) = q_target_gops r" "q_readers (note_video r f) = q_readers r"
  "slot_at (note_video r f) = slot_at r" "oldest_idx (note_video r f) = oldest_idx r"
  by (auto simp: note_video_def saw_video_def slot_at_def oldest_idx_def fun_eq_iff)

lemma note_video_inv_at [simp]: "gop_inv_at lim (note_video r f) = gop_inv_at lim r"
  by (simp add: gop_inv_at_def)

text \<open>The steps of a commit under names, the queue before the store being \<open>r2\<close>.\<close>

definition commit_core ::
  "registry \<Rightarrow> 'b zms_gop_queue \<Rightarrow> zms_frame \<Rightarrow> 'b \<Rightarrow> bytes \<Rightarrow> 'b zms_gop_queue" where
  "commit_core g r2 f b d = (case zms_gop_queue_timeline_from_frame f of (dts, pts) \<Rightarrow>
     trim_after_store (store_frame g (evict_while_full r2) f b d dts pts) dts)"

lemma ring_commit_frame_eq:
  "ring_commit_frame g r f b d =
     (if d = [] then Some (ZTK_ERR_INVALID, r)
      else if \<not> stores g r f then Some (ZTK_OK, log_calls [BufUnref b] (note_video r f))
      else map_option (\<lambda>r2. (ZTK_OK, signal_commit (commit_core g r2 f b d)))
        (if opens_gop g r f then on_new_gop (note_video r f) (fst (zms_gop_queue_timeline_from_frame f))
         else Some (note_video r f)))"
  unfolding ring_commit_frame_def Let_def stores_def opens_gop_def commit_core_def
    note_video_fields(1,2,3)[of r f, symmetric]
  by (simp add: note_video_def split: prod.splits option.splits)

lemma opened_queue:
  assumes inv: "gop_inv r"
  shows "\<exists>r2. (if opens_gop g r f then on_new_gop (note_video r f) dts else Some (note_video r f))
      = Some r2 \<and> same_data (note_video r f) r2
      \<and> gop_inv_at (Suc (q_write_idx r)) r2 \<and> q_oldest_seq r2 \<le> oldest_idx r2"
proof (cases "opens_gop g r f")
  case True
  with on_new_gop_spec[of "note_video r f" dts] inv show ?thesis
    by (auto simp: gop_inv_def)
next
  case False
  with inv gop_inv_at_lim[of "q_write_idx r" r "Suc (q_write_idx r)"] show ?thesis
    by (auto simp: gop_inv_def)
qed

lemma commit_core_inv:
  assumes inv: "gop_inv_at (Suc (q_write_idx r2)) r2" and old: "q_oldest_seq r2 \<le> oldest_idx r2"
  shows "gop_inv (signal_commit (commit_core g r2 f b d))"
    and "q_write_idx (commit_core g r2 f b d) = Suc (q_write_idx r2)"
    and "sl_buf (slot_at (commit_core g r2 f b d) (q_write_idx r2)) = Some b
      \<and> sl_pub (slot_at (commit_core g r2 f b d) (q_write_idx r2)) = pub_of f d"
    and "j mod ZMS_GOP_QUEUE_CAPACITY \<noteq> q_write_idx r2 mod ZMS_GOP_QUEUE_CAPACITY \<Longrightarrow>
      slot_at (commit_core g r2 f b d) j = slot_at r2 j"
    and "q_has_video (commit_core g r2 f b d) = q_has_video r2"
    and "q_cache_started (commit_core g r2 f b d) = q_cache_started r2"
proof -
  obtain dts pts where tl: "zms_gop_queue_timeline_from_frame f = (dts, pts)" by fastforce
  define re where "re = evict_while_full r2"
  define rs where "rs = store_frame g re f b d dts pts"
  have core: "commit_core g r2 f b d = trim_after_store rs dts"
    by (simp add: commit_core_def tl re_def rs_def)
  have pe: "popped r2 re" unfolding re_def by (rule evict_while_full_popped)
  note fe = popped_fields[OF pe]
  have inve: "gop_inv_at (Suc (q_write_idx re)) re"
    using popped_inv_at[OF pe inv] fe by simp
  have invs: "gop_inv_at (Suc (q_write_idx re)) rs"
    using store_frame_inv[OF inve] evict_while_full_room[of r2] unfolding rs_def re_def by simp
  have olds: "q_oldest_seq rs \<le> oldest_idx rs"
    unfolding rs_def by (rule store_frame_oldest[OF inve popped_oldest[OF pe old]])
  have pt: "popped rs (trim_after_store rs dts)" by (rule trim_after_store_popped)
  note ft = popped_fields[OF pt]
  have wis: "q_write_idx rs = Suc (q_write_idx r2)" using fe by (simp add: rs_def)
  have "gop_inv_at (Suc (q_write_idx r2)) (commit_core g r2 f b d)"
    using popped_inv_at[OF pt] invs fe wis by (simp add: core)
  moreover have "q_oldest_seq (commit_core g r2 f b d) \<le> oldest_idx (commit_core g r2 f b d)"
    using popped_oldest[OF pt olds] by (simp add: core)
  moreover show wi: "q_write_idx (commit_core g r2 f b d) = Suc (q_write_idx r2)"
    using ft wis by (simp add: core)
  moreover have "q_count rs > 0" by (simp add: rs_def gop_limits)
  from trim_after_store_count[OF _ this, of dts] have "q_count (commit_core g r2 f b d) > 0"
    using invs fe wis by (simp add: core)
  ultimately show "gop_inv (signal_commit (commit_core g r2 f b d))"
    by (simp add: signal_commit_inv)
  have len: "length (q_slots re) = ZMS_GOP_QUEUE_CAPACITY" using inve by (simp add: gop_inv_at_def)
  have at: "slot_at (commit_core g r2 f b d) = slot_at (slot_publish re (q_write_idx r2) b d f dts pts)"
    using ft fe by (simp add: core slot_at_def rs_def fun_eq_iff)
  show "sl_buf (slot_at (commit_core g r2 f b d) (q_write_idx r2)) = Some b
      \<and> sl_pub (slot_at (commit_core g r2 f b d) (q_write_idx r2)) = pub_of f d"
    using slot_publish_slots(1)[OF len, of b d f dts pts] by (simp add: at published_def pub_of_def tl)
  show "slot_at (commit_core g r2 f b d) j = slot_at r2 j"
    if "j mod ZMS_GOP_QUEUE_CAPACITY \<noteq> q_write_idx r2 mod ZMS_GOP_QUEUE_CAPACITY"
    using slot_publish_slots(2)[OF len that] fe by (simp add: at slot_at_def)
  show "q_has_video (commit_core g r2 f b d) = q_has_video r2"
    and "q_cache_started (commit_core g r2 f b d) = q_cache_started r2"
    using ft fe by (simp_all add: core rs_def)
qed

lemma commit_stored:
  assumes "gop_inv r" "d \<noteq> []" "stores g r f"
  obtains r2 where
    "ring_commit_frame g r f b d = Some (ZTK_OK, signal_commit (commit_core g r2 f b d))"
    "(if opens_gop g r f then on_new_gop (note_video r f)
        (fst (zms_gop_queue_timeline_from_frame f)) else Some (note_video r f)) = Some r2"
    "same_data (note_video r f) r2" "gop_inv_at (Suc (q_write_idx r2)) r2"
    "q_oldest_seq r2 \<le> oldest_idx r2"
proof -
  obtain r2 where r2: "(if opens_gop g r f then on_new_gop (note_video r f)
        (fst (zms_gop_queue_timeline_from_frame f)) else Some (note_video r f)) = Some r2"
      "same_data (note_video r f) r2" "gop_inv_at (Suc (q_write_idx r)) r2"
      "q_oldest_seq r2 \<le> oldest_idx r2"
    using opened_queue[OF assms(1)] by blast
  moreover have "ring_commit_frame g r f b d = Some (ZTK_OK, signal_commit (commit_core g r2 f b d))"
    using assms(2,3) r2(1) by (simp add: ring_commit_frame_eq)
  moreover have "q_write_idx r2 = q_write_idx r" using r2(2) by (simp add: same_data_def)
  ultimately show ?thesis using that by simp
qed

end
