(* ===== verification/Gop_Refine.thy ===== *)
theory Gop_Refine
  imports Gop_Commit "HOL-Library.Multiset"
begin

text \<open>
  The ring against what it promises. \<open>ring_log r L\<close> ties the ring to the list \<open>L\<close> of
  everything ever published: it is the abstract view of the queue, an append-only log of
  which a reader sees a window. \<open>gop_keyed\<close> says that the tracked GOPs start at key frames,
  and the multiset of buffers the slots hold is balanced against the references that are
  handed in and dropped.
\<close>

unbundle bit_operations_syntax

section \<open>The log of published frames\<close>

type_synonym 'b glog = "('b \<times> zms_gop_slot) list"

definition ring_log :: "'b zms_gop_queue \<Rightarrow> 'b glog \<Rightarrow> bool" where
  "ring_log r L \<longleftrightarrow> length L = q_write_idx r \<and>
     (\<forall>i < q_write_idx r. q_write_idx r - i \<le> ZMS_GOP_QUEUE_CAPACITY \<longrightarrow>
        sl_buf (slot_at r i) = Some (fst (L ! i)) \<and> sl_pub (slot_at r i) = snd (L ! i))"

text \<open>The abstract commit: a storable frame is appended, another one leaves no trace.\<close>

definition log_commit :: "registry \<Rightarrow> 'b zms_gop_queue \<Rightarrow> zms_frame \<Rightarrow> 'b \<Rightarrow> bytes \<Rightarrow> 'b glog \<Rightarrow> 'b glog" where
  "log_commit g r f b d L = (if d \<noteq> [] \<and> stores g r f then L @ [(b, pub_of f d)] else L)"

lemma same_slot_ahead:
  "j < w \<Longrightarrow> w - j < ZMS_GOP_QUEUE_CAPACITY \<Longrightarrow>
    j mod ZMS_GOP_QUEUE_CAPACITY \<noteq> w mod ZMS_GOP_QUEUE_CAPACITY"
  using mod_eq_dvd_iff_nat[of j w ZMS_GOP_QUEUE_CAPACITY] dvd_imp_le[of ZMS_GOP_QUEUE_CAPACITY "w - j"]
  by auto

text \<open>
  The slot about to be overwritten may already hold other bytes (its buffer is being
  reused): a stored frame only needs the log below it.
\<close>

definition ring_log_below :: "'b zms_gop_queue \<Rightarrow> 'b glog \<Rightarrow> bool" where
  "ring_log_below r L \<longleftrightarrow> length L = q_write_idx r \<and>
     (\<forall>i < q_write_idx r. q_write_idx r - i < ZMS_GOP_QUEUE_CAPACITY \<longrightarrow>
        sl_buf (slot_at r i) = Some (fst (L ! i)) \<and> sl_pub (slot_at r i) = snd (L ! i))"

lemma ring_log_imp_below: "ring_log r L \<Longrightarrow> ring_log_below r L"
  by (simp add: ring_log_def ring_log_below_def)

lemma ring_commit_log_stored:
  assumes inv: "gop_inv r" and lg: "ring_log_below r L" and st: "d \<noteq> []" "stores g r f"
  shows "\<exists>r'. ring_commit_frame g r f b d = Some (ZTK_OK, r') \<and> ring_log r' (L @ [(b, pub_of f d)])"
proof -
  obtain r2 where res: "ring_commit_frame g r f b d = Some (ZTK_OK, signal_commit (commit_core g r2 f b d))"
    and same: "same_data (note_video r f) r2" and inv2: "gop_inv_at (Suc (q_write_idx r2)) r2"
    and old2: "q_oldest_seq r2 \<le> oldest_idx r2"
    using commit_stored[OF inv, where d = d and g = g and f = f and b = b] st by metis
  note core = commit_core_inv[OF inv2 old2, where g = g and f = f and b = b and d = d]
  have wi: "q_write_idx r2 = q_write_idx r" and sl: "slot_at r2 = slot_at r"
    using same by (auto simp: same_data_def slot_at_def fun_eq_iff)
  have at: "slot_at (signal_commit (commit_core g r2 f b d)) = slot_at (commit_core g r2 f b d)"
    by (simp add: slot_at_def fun_eq_iff)
  have old: "slot_at (commit_core g r2 f b d) i = slot_at r i"
    if "i < q_write_idx r" "q_write_idx r - i < ZMS_GOP_QUEUE_CAPACITY" for i
    using core(4)[of i] same_slot_ahead[OF that] wi sl by simp
  have "ring_log (signal_commit (commit_core g r2 f b d)) (L @ [(b, pub_of f d)])"
    using lg core(2,3) wi old
    by (auto simp: ring_log_def ring_log_below_def at nth_append less_Suc_eq)
  with res show ?thesis by blast
qed

lemma ring_commit_log:
  assumes inv: "gop_inv r" and lg: "ring_log r L"
  shows "\<exists>e r'. ring_commit_frame g r f b d = Some (e, r') \<and> ring_log r' (log_commit g r f b d L)"
proof (cases "d \<noteq> [] \<and> stores g r f")
  case False
  then show ?thesis using lg
    by (auto simp: ring_commit_frame_eq log_commit_def ring_log_def log_calls_def slot_at_def)
next
  case True
  with ring_commit_log_stored[OF inv ring_log_imp_below[OF lg], of d g f b] show ?thesis
    by (auto simp: log_commit_def)
qed

lemma oldest_in_window:
  "gop_inv r \<Longrightarrow> q_write_idx r - oldest_idx r \<le> q_count r \<and> oldest_idx r \<le> q_write_idx r
    \<and> q_count r \<le> ZMS_GOP_QUEUE_CAPACITY"
  by (auto simp: gop_inv_def gop_inv_at_def oldest_idx_def dest: starts_ok_top[of _ _ _ 0])

text \<open>What a reader that asks for an index of the window gets.\<close>

lemma window_read:
  assumes "gop_inv r" "ring_log r L" "oldest_idx r \<le> i" "i < q_write_idx r"
  shows "sl_pub (slot_at r i) = snd (L ! i)"
  using assms oldest_in_window[OF assms(1)] by (auto simp: ring_log_def)

section \<open>GOPs start at key frames\<close>

definition gop_entry :: "zms_gop_slot \<Rightarrow> bool" where
  "gop_entry s \<longleftrightarrow> (s_track s = ZMS_TRACK_VIDEO \<longrightarrow> s_keyframe s \<and> \<not> s_config_frame s)"

definition gop_keyed_at :: "nat \<Rightarrow> 'b zms_gop_queue \<Rightarrow> bool" where
  "gop_keyed_at lim r \<longleftrightarrow> (\<forall>i < q_gop_count r. q_gop_start r ! i < lim \<longrightarrow>
     gop_entry (sl_pub (slot_at r (q_gop_start r ! i))))"

definition gop_keyed :: "'b zms_gop_queue \<Rightarrow> bool" where
  "gop_keyed r \<longleftrightarrow> gop_keyed_at (q_write_idx r) r"

lemma popped_keyed:
  assumes "popped r r'" "gop_inv_at lim r" "lim \<le> Suc (q_write_idx r)" "gop_keyed_at w r"
  shows "gop_keyed_at w r'"
  unfolding gop_keyed_at_def
proof (intro allI impI)
  fix i assume i: "i < q_gop_count r'" "q_gop_start r' ! i < w"
  let ?k = "q_gop_count r - q_gop_count r' + i"
  note f = popped_fields[OF assms(1)]
  have eq: "q_gop_start r' ! i = q_gop_start r ! ?k"
    using popped_suffix[OF assms(1,2,3)] i(1) by blast
  have "q_gop_count r' \<le> q_gop_count r" using f by simp
  then have "?k < q_gop_count r" using i(1) by arith
  then have "gop_entry (sl_pub (slot_at r (q_gop_start r ! ?k)))"
    using assms(4) i(2) eq by (simp add: gop_keyed_at_def)
  then show "gop_entry (sl_pub (slot_at r' (q_gop_start r' ! i)))"
    using eq f by (simp add: slot_at_def)
qed

lemma on_new_gop_keyed:
  assumes inv: "gop_inv_at (q_write_idx r) r" and key: "gop_keyed r"
    and res: "on_new_gop r dts = Some r'"
  shows "gop_keyed_at (q_write_idx r) r'"
proof (cases "\<not> q_cache_started r \<or> q_gop_count r = 0")
  case True
  with res show ?thesis using inv
    by (auto simp: on_new_gop_def gop_keyed_at_def publish_oldest_def gop_inv_at_def gop_limits)
next
  case False
  have lt: "q_gop_start r ! (q_gop_count r - 1) < q_write_idx r"
    using inv False by (simp add: gop_inv_at_def starts_ok_def)
  obtain r1 where r1: "make_room_for_gop r = Some r1" "popped r r1"
      "q_gop_count r1 < ZMS_GOP_QUEUE_MAX_GOP"
    using make_room_for_gop_total[of r] inv by (auto simp: gop_inv_at_def)
  define r2 where "r2 = trim_gops_for_time r1 dts"
  have p2: "popped r1 r2" unfolding r2_def by (rule trim_gops_popped)
  note f1 = popped_fields[OF r1(2)] and f2 = popped_fields[OF p2]
  have inv1: "gop_inv_at (q_write_idx r) r1" using popped_inv_at[OF r1(2) inv] by simp
  have inv2: "gop_inv_at (q_write_idx r) r2" using popped_inv_at[OF p2 inv1] f1 by simp
  have k2: "gop_keyed_at (q_write_idx r) r2"
    using popped_keyed[OF p2 inv1 _ popped_keyed[OF r1(2) inv]] key f1
    by (simp add: gop_keyed_def)
  have room: "q_gop_count r2 < length (q_gop_start r2)"
    using inv2 r1(3) f2 by (simp add: gop_inv_at_def)
  have "r' = r2\<lparr>q_gop_start := (q_gop_start r2)[q_gop_count r2 := q_write_idx r2],
      q_gop_dts := (q_gop_dts r2)[q_gop_count r2 := dts], q_gop_count := q_gop_count r2 + 1\<rparr>"
    using res False lt r1(1) by (simp add: on_new_gop_def r2_def Let_def)
  then show ?thesis
    using k2 f1 f2 room by (auto simp: gop_keyed_at_def slot_at_def less_Suc_eq)
qed

lemma store_keyed:
  assumes inv: "gop_inv_at (Suc (q_write_idx r)) r" and key: "gop_keyed_at (q_write_idx r) r"
    and room: "q_count r < ZMS_GOP_QUEUE_CAPACITY \<or> q_gop_count r = 0"
    and entry: "(\<exists>i < q_gop_count r. q_gop_start r ! i = q_write_idx r) \<Longrightarrow>
      gop_entry (sl_pub (slot_at (slot_publish r (q_write_idx r) b d f dts pts) (q_write_idx r)))"
  shows "gop_keyed_at (Suc (q_write_idx r)) (store_frame g r f b d dts pts)"
  unfolding gop_keyed_at_def
proof (intro allI impI)
  fix i assume i: "i < q_gop_count (store_frame g r f b d dts pts)"
    "q_gop_start (store_frame g r f b d dts pts) ! i < Suc (q_write_idx r)"
  let ?s = "q_gop_start r ! i"
  have at: "slot_at (store_frame g r f b d dts pts)
      = slot_at (slot_publish r (q_write_idx r) b d f dts pts)"
    by (simp add: slot_at_def fun_eq_iff)
  show "gop_entry (sl_pub (slot_at (store_frame g r f b d dts pts)
      (q_gop_start (store_frame g r f b d dts pts) ! i)))"
  proof (cases "?s = q_write_idx r")
    case True
    with entry i show ?thesis by (auto simp: at)
  next
    case False
    then have lt: "?s < q_write_idx r" using i(2) by simp
    have "q_gop_start r ! 0 \<le> ?s"
      using starts_ok_less[of "q_gop_start r" "q_gop_count r" "Suc (q_write_idx r)" 0 i] inv i(1)
      by (cases "i = 0") (auto simp: gop_inv_at_def)
    then have "q_write_idx r - ?s < ZMS_GOP_QUEUE_CAPACITY"
      using inv room i(1) by (auto simp: gop_inv_at_def)
    then have "slot_at (slot_publish r (q_write_idx r) b d f dts pts) ?s = slot_at r ?s"
      using same_slot_ahead[OF lt] inv by (intro slot_publish_slots(2)) (simp_all add: gop_inv_at_def)
    then show ?thesis using key i(1) lt by (simp add: at gop_keyed_at_def)
  qed
qed

lemma gop_keyed_signal [simp]:
  "gop_keyed_at lim (signal_commit r) = gop_keyed_at lim r"
  by (simp add: gop_keyed_at_def slot_at_def)

text \<open>
  A video frame whose key flag was refreshed from its payload and that opens a GOP carries
  the flag.
\<close>

lemma refreshed_opener:
  assumes reg: "registry_ok g" and f: "f = zms_frame_refresh_key_from_es g f0"
    and new: "zms_gop_queue_new_gop g f kp hv" and vid: "f_track f = ZMS_TRACK_VIDEO"
  shows "f_keyframe f \<and> \<not> f_config_frame f"
proof -
  let ?ops = "zms_frame_codec_find g (f_codec f0)"
  obtain key st ng conf where ops: "o_is_keyframe ?ops = Some key" "o_storable ?ops = Some st"
      "o_new_gop ?ops = Some ng" and con: "gop_codec key st ng"
    using registry_ok_find[OF reg] unfolding ops_ok_def by blast
  have "ng f kp hv" using new ops by (simp add: zms_gop_queue_new_gop_def f)
  then have k: "key f" "\<not> f_config_frame f"
    using gop_codec.video_gop_key[OF con, of f kp hv] vid by auto
  have "f_keyframe f"
  proof (cases "key f0")
    case True
    then show ?thesis using k(2) vid ops gop_codec.key_no_data[OF con, of f0]
      by (auto simp: f zms_frame_refresh_key_from_es_def)
  next
    case False
    then have "f = f0" using ops by (simp add: f zms_frame_refresh_key_from_es_def)
    with False k(1) show ?thesis by simp
  qed
  with k(2) show ?thesis by simp
qed

lemma ring_commit_keyed:
  assumes inv: "gop_inv r" and key: "gop_keyed r" and reg: "registry_ok g"
    and f: "f = zms_frame_refresh_key_from_es g f0"
    and res: "ring_commit_frame g r f b d = Some (e, r')"
  shows "gop_keyed r'"
proof (cases "d \<noteq> [] \<and> stores g r f")
  case False
  then have "r' = r \<or> r' = log_calls [BufUnref b] (note_video r f)"
    using res by (auto simp: ring_commit_frame_eq split: if_splits)
  then show ?thesis using key
    by (auto simp: gop_keyed_def gop_keyed_at_def log_calls_def slot_at_def)
next
  case True
  obtain dts pts where tl: "zms_gop_queue_timeline_from_frame f = (dts, pts)" by fastforce
  obtain r2 where
    res2: "ring_commit_frame g r f b d = Some (ZTK_OK, signal_commit (commit_core g r2 f b d))"
    and open1: "(if opens_gop g r f then on_new_gop (note_video r f)
        (fst (zms_gop_queue_timeline_from_frame f)) else Some (note_video r f)) = Some r2"
    and same: "same_data (note_video r f) r2" and inv2: "gop_inv_at (Suc (q_write_idx r2)) r2"
    using commit_stored[OF inv, where d = d and g = g and f = f and b = b] True by metis
  have r': "r' = signal_commit (commit_core g r2 f b d)" using res2 res by simp
  have open2: "(if opens_gop g r f then on_new_gop (note_video r f) dts
        else Some (note_video r f)) = Some r2" using open1 unfolding tl fst_conv .
  have wi: "q_write_idx r2 = q_write_idx r" using same by (simp add: same_data_def)
  have keyn: "gop_keyed (note_video r f)" using key by (simp add: gop_keyed_def gop_keyed_at_def)
  have key2: "gop_keyed_at (q_write_idx r2) r2"
    using on_new_gop_keyed[OF _ keyn, of dts r2] open2 keyn inv wi
    by (auto simp: gop_inv_def gop_keyed_def split: if_splits)
  define re where "re = evict_while_full r2"
  have pe: "popped r2 re" unfolding re_def by (rule evict_while_full_popped)
  note fe = popped_fields[OF pe]
  have inve: "gop_inv_at (Suc (q_write_idx re)) re" using popped_inv_at[OF pe inv2] fe by simp
  have keye: "gop_keyed_at (q_write_idx re) re" using popped_keyed[OF pe inv2 _ key2] fe by simp
  have entry: "gop_entry (sl_pub (slot_at (slot_publish re (q_write_idx re) b d f dts pts)
      (q_write_idx re)))" if ex: "\<exists>i < q_gop_count re. q_gop_start re ! i = q_write_idx re"
  proof -
    from ex obtain i where i: "i < q_gop_count re" "q_gop_start re ! i = q_write_idx re" by blast
    have "opens_gop g r f"
    proof (rule ccontr)
      assume "\<not> opens_gop g r f"
      with open2 have "gop_inv_at (q_write_idx r2) r2" using inv wi by (auto simp: gop_inv_def)
      from popped_inv_at[OF pe this] fe have "starts_ok (q_gop_start re) (q_gop_count re) (q_write_idx re)"
        by (simp add: gop_inv_at_def)
      from starts_ok_top[OF this i(1)] i(2) show False by simp
    qed
    then have "f_track f = ZMS_TRACK_VIDEO \<Longrightarrow> f_keyframe f \<and> \<not> f_config_frame f"
      using refreshed_opener[OF reg f] by (simp add: opens_gop_def)
    moreover have "length (q_slots re) = ZMS_GOP_QUEUE_CAPACITY" using inve by (simp add: gop_inv_at_def)
    from slot_publish_slots(1)[OF this, of b d f dts pts "q_write_idx re"]
    have "sl_pub (slot_at (slot_publish re (q_write_idx re) b d f dts pts) (q_write_idx re)) = pub_of f d"
      by (simp add: published_def pub_of_def tl)
    ultimately show ?thesis by (simp add: gop_entry_def pub_of_def tl)
  qed
  have keys: "gop_keyed_at (Suc (q_write_idx re)) (store_frame g re f b d dts pts)"
    using store_keyed[OF inve keye _ entry] evict_while_full_room[of r2] by (simp add: re_def)
  have invs: "gop_inv_at (Suc (q_write_idx re)) (store_frame g re f b d dts pts)"
    using store_frame_inv[OF inve] evict_while_full_room[of r2] by (simp add: re_def)
  have pt: "popped (store_frame g re f b d dts pts)
      (trim_after_store (store_frame g re f b d dts pts) dts)" by (rule trim_after_store_popped)
  have "gop_keyed_at (Suc (q_write_idx r)) (commit_core g r2 f b d)"
    using popped_keyed[OF pt invs _ keys] fe wi by (simp add: commit_core_def tl re_def)
  moreover have "q_write_idx (commit_core g r2 f b d) = Suc (q_write_idx r)"
    using popped_fields[OF pt] fe wi by (simp add: commit_core_def tl re_def)
  ultimately show ?thesis by (simp add: r' gop_keyed_def)
qed

end
