(* ===== verification/Gop_Ops.thy ===== *)
theory Gop_Ops
  imports Gop_Refine
begin

text \<open>
  The public writer operations as steps of one machine: whatever sequence of writes, clears
  and settings a publisher performs, the ring keeps its invariant, every operation returns,
  the window of the ring is the tail of the log of published frames, the tracked GOPs start
  at key frames, and every buffer handed in is held by exactly one slot until it is dropped.
\<close>

unbundle bit_operations_syntax

section \<open>Steps and reachable queues\<close>

inductive gop_step :: "registry \<Rightarrow> 'b zms_gop_queue \<Rightarrow> 'b zms_gop_queue \<Rightarrow> bool" for g where
  step_write: "zms_gop_queue_write g cap refcnt fresh r f = Some (e, r') \<Longrightarrow> gop_step g r r'"
| step_write_buf: "zms_gop_queue_write_buf g r b d f = Some (e, r') \<Longrightarrow> gop_step g r r'"
| step_clear: "gop_step g r (zms_gop_queue_clear r)"
| step_target: "gop_step g r (zms_gop_queue_set_target_gops r n)"
| step_cache: "gop_step g r (zms_gop_queue_set_cache_ms r ms)"
| step_video: "gop_step g r (snd (zms_gop_queue_set_video_config mem r blob))"
| step_audio: "gop_step g r (snd (zms_gop_queue_set_audio_config mem r blob))"

inductive gop_reach :: "registry \<Rightarrow> 'b zms_gop_queue \<Rightarrow> bool" for g where
  reach_create: "defaults_ok d \<Longrightarrow> zms_gop_queue_create d mem = Some r \<Longrightarrow> gop_reach g r"
| reach_step: "gop_reach g r \<Longrightarrow> gop_step g r r' \<Longrightarrow> gop_reach g r'"

section \<open>Every operation keeps the invariant\<close>

lemma gop_inv_cong:
  assumes "gop_inv r" "length (q_slots r') = length (q_slots r)" "q_gop_start r' = q_gop_start r"
    "q_gop_dts r' = q_gop_dts r" "q_gop_count r' = q_gop_count r" "q_count r' = q_count r"
    "q_write_idx r' = q_write_idx r" "q_write_seq r' = q_write_seq r"
    "q_oldest_seq r' = q_oldest_seq r" "q_target_gops r' = q_target_gops r"
  shows "gop_inv r'"
proof -
  have "oldest_idx r' = oldest_idx r" using assms by (simp add: oldest_idx_def)
  with assms show ?thesis by (simp add: gop_inv_def gop_inv_at_def)
qed

lemma fill_buf_inv: "gop_inv r \<Longrightarrow> gop_inv (fill_buf r b d)"
  by (erule gop_inv_cong) (simp_all add: fill_buf_def)

lemma create_inv: "defaults_ok d \<Longrightarrow> zms_gop_queue_create d mem = Some r \<Longrightarrow> gop_inv r"
  by (auto simp: zms_gop_queue_create_def defaults_ok_def gop_inv_def gop_inv_at_def starts_ok_def
      oldest_idx_def split: if_splits)

lemma ring_commit_inv:
  assumes inv: "gop_inv r"
  shows "\<exists>e r'. ring_commit_frame g r f b d = Some (e, r') \<and> gop_inv r'"
proof (cases "d \<noteq> [] \<and> stores g r f")
  case False
  have "gop_inv (log_calls [BufUnref b] (note_video r f))"
    using inv by (rule gop_inv_cong) (simp_all add: log_calls_def)
  with False inv show ?thesis by (auto simp: ring_commit_frame_eq)
next
  case True
  obtain r2 where
    "ring_commit_frame g r f b d = Some (ZTK_OK, signal_commit (commit_core g r2 f b d))"
    "gop_inv_at (Suc (q_write_idx r2)) r2" "q_oldest_seq r2 \<le> oldest_idx r2"
    using commit_stored[OF inv, where d = d and g = g and f = f and b = b] True by metis
  with commit_core_inv(1)[of r2 g f b d] show ?thesis by blast
qed

lemma write_inv:
  "gop_inv r \<Longrightarrow> \<exists>e r'. zms_gop_queue_write g cap refcnt fresh r f = Some (e, r') \<and> gop_inv r'"
  by (auto simp: zms_gop_queue_write_def Let_def fill_buf_inv ring_commit_inv split: option.splits)

lemma write_buf_inv:
  "gop_inv r \<Longrightarrow> \<exists>e r'. zms_gop_queue_write_buf g r b d f = Some (e, r') \<and> gop_inv r'"
  by (simp add: zms_gop_queue_write_buf_def ring_commit_inv)

lemma clear_fields:
  "q_write_idx (zms_gop_queue_clear r) = 0" "q_count (zms_gop_queue_clear r) = 0"
  "q_gop_count (zms_gop_queue_clear r) = 0" "q_write_seq (zms_gop_queue_clear r) = 0"
  "q_oldest_seq (zms_gop_queue_clear r) = 0"
  "q_slots (zms_gop_queue_clear r) = map (fst \<circ> free_slot) (q_slots r)"
  "q_calls (zms_gop_queue_clear r) = q_calls r @ concat (map (snd \<circ> free_slot) (q_slots r))"
  "q_gop_start (zms_gop_queue_clear r) = q_gop_start r"
  "q_gop_dts (zms_gop_queue_clear r) = q_gop_dts r"
  "q_target_gops (zms_gop_queue_clear r) = q_target_gops r"
  by (simp_all add: zms_gop_queue_clear_def free_slots_def reset_gop_def log_calls_def Let_def)

lemma clear_inv: "gop_inv r \<Longrightarrow> gop_inv (zms_gop_queue_clear r)"
  by (auto simp: gop_inv_def gop_inv_at_def clear_fields starts_ok_def)

lemma set_config_fields:
  "\<exists>blob c h. snd (zms_gop_queue_set_video_config mem r d)
     = r\<lparr>q_video_config := blob, q_cache_started := c, q_has_video := h\<rparr>"
  "\<exists>blob. snd (zms_gop_queue_set_audio_config mem r d) = r\<lparr>q_audio_config := blob\<rparr>"
proof -
  show "\<exists>blob. snd (zms_gop_queue_set_audio_config mem r d) = r\<lparr>q_audio_config := blob\<rparr>"
    by (auto simp: zms_gop_queue_set_audio_config_def split: prod.splits)
  obtain e blob where sb: "set_blob mem d = (e, blob)" by fastforce
  show "\<exists>blob c h. snd (zms_gop_queue_set_video_config mem r d)
     = r\<lparr>q_video_config := blob, q_cache_started := c, q_has_video := h\<rparr>"
    by (rule exI[of _ blob], rule exI[of _ "e = ZTK_OK \<or> q_cache_started r"],
        rule exI[of _ "e = ZTK_OK \<or> q_has_video r"])
      (simp add: zms_gop_queue_set_video_config_def sb Let_def)
qed

lemma set_config_inv:
  assumes "gop_inv r"
  shows "gop_inv (snd (zms_gop_queue_set_video_config mem r d))"
    and "gop_inv (snd (zms_gop_queue_set_audio_config mem r d))"
proof -
  obtain blob c h where "snd (zms_gop_queue_set_video_config mem r d)
     = r\<lparr>q_video_config := blob, q_cache_started := c, q_has_video := h\<rparr>"
    using set_config_fields(1) by blast
  then show "gop_inv (snd (zms_gop_queue_set_video_config mem r d))"
    by (simp only:) (rule gop_inv_cong[OF assms], simp_all)
  obtain blob' where "snd (zms_gop_queue_set_audio_config mem r d) = r\<lparr>q_audio_config := blob'\<rparr>"
    using set_config_fields(2) by blast
  then show "gop_inv (snd (zms_gop_queue_set_audio_config mem r d))"
    by (simp only:) (rule gop_inv_cong[OF assms], simp_all)
qed

lemma set_limits_inv:
  assumes "gop_inv r"
  shows "gop_inv (zms_gop_queue_set_target_gops r n)" "gop_inv (zms_gop_queue_set_cache_ms r ms)"
  using assms clamp_target_gops_bounds[of n]
  by (auto simp: gop_inv_def gop_inv_at_def oldest_idx_def zms_gop_queue_set_target_gops_def
      zms_gop_queue_set_cache_ms_def)

lemma gop_step_inv: "gop_step g r r' \<Longrightarrow> gop_inv r \<Longrightarrow> gop_inv r'"
proof (induction rule: gop_step.induct)
  case (step_write cap refcnt fresh r f e r')
  then show ?case using write_inv[of r g cap refcnt fresh f] by auto
next
  case (step_write_buf r b d f e r')
  then show ?case using write_buf_inv[of r g b d f] by auto
qed (simp_all add: clear_inv set_limits_inv set_config_inv)

lemma gop_reach_inv: "gop_reach g r \<Longrightarrow> gop_inv r"
  by (induction rule: gop_reach.induct) (auto intro: create_inv gop_step_inv)

text \<open>
  C11: Whatever a publisher does with a GOP queue, the ring stays well formed: no array index
  leaves its array, the number of retained frames never exceeds the 512 slots, the tracked
  GOPs start at increasing indices, and the window a reader may ask for, from the oldest
  index to the write index, never spans more than the retained frames.
\<close>

theorem gop_reach_safe:
  assumes "gop_reach g r"
  shows "length (q_slots r) = 512 \<and> length (q_gop_start r) = 32 \<and> q_gop_count r \<le> 32
    \<and> q_count r \<le> 512 \<and> q_count r \<le> q_write_idx r \<and> q_write_seq r = q_write_idx r
    \<and> oldest_idx r \<le> q_write_idx r \<and> q_write_idx r - oldest_idx r \<le> q_count r
    \<and> q_oldest_seq r \<le> oldest_idx r
    \<and> (\<forall>i j. i < j \<longrightarrow> j < q_gop_count r \<longrightarrow> q_gop_start r ! i < q_gop_start r ! j)
    \<and> (\<forall>i < q_gop_count r. q_gop_start r ! i < q_write_idx r)"
proof -
  have inv: "gop_inv r" using assms by (rule gop_reach_inv)
  then have so: "starts_ok (q_gop_start r) (q_gop_count r) (q_write_idx r)"
    by (simp add: gop_inv_def gop_inv_at_def)
  show ?thesis
    using inv oldest_in_window[OF inv] starts_ok_less[OF so] starts_ok_top[OF so]
    by (auto simp: gop_inv_def gop_inv_at_def gop_limits)
qed

lemma gop_reach_safe_witness:
  "q_count (snd (zms_gop_queue_set_audio_config True (the (zms_gop_queue_create
      \<lparr>g_default_target_gops = 3, g_default_cache_ms = 0\<rparr> True)) (Some [1, 2])) :: nat zms_gop_queue)
    \<le> 512"
proof -
  let ?d = "\<lparr>g_default_target_gops = 3, g_default_cache_ms = 0\<rparr>"
  obtain r :: "nat zms_gop_queue" where r: "zms_gop_queue_create ?d True = Some r"
    by (simp add: zms_gop_queue_create_def)
  have "gop_reach (\<lambda>_. None) r"
    using r by (intro reach_create[of ?d True]) (simp_all add: defaults_ok_def gop_limits)
  then have "gop_reach (\<lambda>_. None) (snd (zms_gop_queue_set_audio_config True r (Some [1, 2])))"
    by (rule reach_step) (rule step_audio)
  from gop_reach_safe[OF this] show ?thesis by (simp add: r)
qed

text \<open>
  C12: Every write to a reachable queue returns: the loops that make room for a GOP end for
  every frame, codec table and buffer, although the code's eviction loop would spin for ever
  on a queue whose target number of GOPs is 0.
\<close>

theorem gop_write_returns:
  assumes "gop_reach g r"
  shows "zms_gop_queue_write h cap refcnt fresh r f \<noteq> None
    \<and> zms_gop_queue_write_buf h r b d f \<noteq> None"
  using write_inv[OF gop_reach_inv[OF assms], of h cap refcnt fresh f]
    write_buf_inv[OF gop_reach_inv[OF assms], of h b d f] by auto

section \<open>Runs with their log\<close>

definition held :: "'b zms_gop_queue \<Rightarrow> 'b \<Rightarrow> nat set" where
  "held r b = {k. k < length (q_slots r) \<and> sl_buf (q_slots r ! k) = Some b}"

text \<open>
  What the write path relies on of the buffer library: a new buffer is in no slot yet, and a
  buffer whose reference count is 1 is in at most one.
\<close>

definition bufs_ok :: "('b \<Rightarrow> nat) \<Rightarrow> 'b option \<Rightarrow> 'b zms_gop_queue \<Rightarrow> bool" where
  "bufs_ok refcnt fresh r \<longleftrightarrow> (\<forall>b. fresh = Some b \<longrightarrow> held r b = {}) \<and>
     (\<forall>b. refcnt b = 1 \<longrightarrow> card (held r b) \<le> 1)"

definition log_write :: "registry \<Rightarrow> ('b \<Rightarrow> nat) \<Rightarrow> ('b \<Rightarrow> nat) \<Rightarrow> 'b option \<Rightarrow> 'b zms_gop_queue
    \<Rightarrow> zms_frame \<Rightarrow> 'b glog \<Rightarrow> 'b glog" where
  "log_write g cap refcnt fresh r f L =
     (if f_data f = None \<or> f_size f = 0 then L
      else case zms_gop_queue_alloc_write cap refcnt fresh r (f_size f) of
        None \<Rightarrow> L
      | Some b \<Rightarrow> log_commit g r (zms_frame_refresh_key_from_es g f) b (f_bytes f) L)"

text \<open>A frame passed to a writer has as many bytes behind its pointer as it says.\<close>

definition frame_ok :: "zms_frame \<Rightarrow> bool" where
  "frame_ok f \<longleftrightarrow> (\<forall>bs. f_data f = Some bs \<longrightarrow> f_size f \<le> length bs)"

inductive gop_run :: "registry \<Rightarrow> 'b zms_gop_queue \<Rightarrow> 'b glog \<Rightarrow> bool" for g where
  run_create: "defaults_ok d \<Longrightarrow> zms_gop_queue_create d mem = Some r \<Longrightarrow> gop_run g r []"
| run_write: "gop_run g r L \<Longrightarrow> frame_ok f \<Longrightarrow> bufs_ok refcnt fresh r \<Longrightarrow>
    q_cache_started r \<or> sl_buf (slot_at r (q_write_idx r)) = None \<Longrightarrow>
    zms_gop_queue_write g cap refcnt fresh r f = Some (e, r') \<Longrightarrow>
    gop_run g r' (log_write g cap refcnt fresh r f L)"
| run_write_buf: "gop_run g r L \<Longrightarrow> zms_gop_queue_write_buf g r b d f = Some (e, r') \<Longrightarrow>
    gop_run g r' (log_commit g r (zms_frame_refresh_key_from_es g f) b d L)"
| run_clear: "gop_run g r L \<Longrightarrow> gop_run g (zms_gop_queue_clear r) []"
| run_target: "gop_run g r L \<Longrightarrow> gop_run g (zms_gop_queue_set_target_gops r n) L"
| run_cache: "gop_run g r L \<Longrightarrow> gop_run g (zms_gop_queue_set_cache_ms r ms) L"
| run_video: "gop_run g r L \<Longrightarrow> gop_run g (snd (zms_gop_queue_set_video_config mem r blob)) L"
| run_audio: "gop_run g r L \<Longrightarrow> gop_run g (snd (zms_gop_queue_set_audio_config mem r blob)) L"

lemma fill_buf_fields [simp]:
  "q_write_idx (fill_buf r b d) = q_write_idx r" "q_cache_started (fill_buf r b d) = q_cache_started r"
  "q_has_video (fill_buf r b d) = q_has_video r" "q_gop_count (fill_buf r b d) = q_gop_count r"
  "q_gop_start (fill_buf r b d) = q_gop_start r" "q_calls (fill_buf r b d) = q_calls r"
  "q_count (fill_buf r b d) = q_count r" "length (q_slots (fill_buf r b d)) = length (q_slots r)"
  by (simp_all add: fill_buf_def)

lemma stores_fill_buf [simp]: "stores g (fill_buf r b d) f = stores g r f"
  by (simp add: stores_def saw_video_def)

lemma fill_buf_slot:
  assumes "length (q_slots r) = ZMS_GOP_QUEUE_CAPACITY"
    "i mod ZMS_GOP_QUEUE_CAPACITY \<notin> held r b"
  shows "slot_at (fill_buf r b d) i = slot_at r i"
proof -
  have "i mod ZMS_GOP_QUEUE_CAPACITY < length (q_slots r)"
    using assms(1) by (simp add: ZMS_GOP_QUEUE_CAPACITY_def)
  with assms(2) show ?thesis by (simp add: slot_at_def fill_buf_def held_def)
qed

lemma started_stores:
  assumes "registry_ok g" "q_cache_started r"
  shows "stores g r f"
proof -
  obtain st key ng where "o_storable (zms_frame_codec_find g (f_codec f)) = Some st" "gop_codec key st ng"
    using registry_ok_find[OF assms(1)] unfolding ops_ok_def by blast
  with assms(2) gop_codec.started_storable show ?thesis
    by (simp add: stores_def zms_gop_queue_storable_def)
qed

text \<open>The buffer of a write is nobody's or that of the slot to be overwritten.\<close>

lemma alloc_write_held:
  assumes ok: "bufs_ok refcnt fresh r" and len: "length (q_slots r) = ZMS_GOP_QUEUE_CAPACITY"
    and al: "zms_gop_queue_alloc_write cap refcnt fresh r n = Some b"
  shows "held r b = {} \<or> (held r b = {q_write_idx r mod ZMS_GOP_QUEUE_CAPACITY}
    \<and> sl_buf (slot_at r (q_write_idx r)) = Some b)"
proof (cases "fresh = Some b")
  case True
  with ok show ?thesis by (simp add: bufs_ok_def)
next
  case False
  with al have b: "sl_buf (slot_at r (q_write_idx r)) = Some b" "refcnt b = 1"
    by (auto simp: zms_gop_queue_alloc_write_def split: if_splits option.splits)
  let ?k = "q_write_idx r mod ZMS_GOP_QUEUE_CAPACITY"
  have k: "?k \<in> held r b" using b(1) len by (simp add: held_def slot_at_def ZMS_GOP_QUEUE_CAPACITY_def)
  have fin: "finite (held r b)" by (simp add: held_def)
  have "card (held r b) \<le> 1" using ok b(2) by (simp add: bufs_ok_def)
  then have "\<forall>x \<in> held r b. x = ?k" using k card_le_Suc0_iff_eq[OF fin] by auto
  with k b(1) show ?thesis by blast
qed

lemma write_log:
  assumes inv: "gop_inv r" and lg: "ring_log r L" and reg: "registry_ok g"
    and fok: "frame_ok f" and ok: "bufs_ok refcnt fresh r"
    and safe: "q_cache_started r \<or> sl_buf (slot_at r (q_write_idx r)) = None"
    and res: "zms_gop_queue_write g cap refcnt fresh r f = Some (e, r')"
  shows "ring_log r' (log_write g cap refcnt fresh r f L)"
proof (cases "f_data f = None \<or> f_size f = 0
    \<or> zms_gop_queue_alloc_write cap refcnt fresh r (f_size f) = None")
  case True
  then show ?thesis using lg res by (auto simp: zms_gop_queue_write_def log_write_def Let_def)
next
  case False
  then obtain b where al: "zms_gop_queue_alloc_write cap refcnt fresh r (f_size f) = Some b" by auto
  let ?f = "zms_frame_refresh_key_from_es g f"
  have bytes: "f_bytes ?f = f_bytes f" by (cases "f_data f") (simp_all add: f_bytes_def)
  have com: "ring_commit_frame g (fill_buf r b (f_bytes f)) ?f b (f_bytes f) = Some (e, r')"
    using res False al unfolding zms_gop_queue_write_def Let_def refresh_key_fields bytes
    by (auto split: if_split_asm)
  have L': "log_write g cap refcnt fresh r f L = log_commit g (fill_buf r b (f_bytes f)) ?f b (f_bytes f) L"
    using False al by (auto simp: log_write_def log_commit_def)
  have len: "length (q_slots r) = ZMS_GOP_QUEUE_CAPACITY" using inv by (simp add: gop_inv_def gop_inv_at_def)
  have inv': "gop_inv (fill_buf r b (f_bytes f))" using inv by (rule fill_buf_inv)
  consider "held r b = {}" | "held r b = {q_write_idx r mod ZMS_GOP_QUEUE_CAPACITY}" "q_cache_started r"
    using alloc_write_held[OF ok len al] safe by auto
  then show ?thesis
  proof cases
    case 1
    then have "ring_log (fill_buf r b (f_bytes f)) L"
      using lg fill_buf_slot[OF len] by (simp add: ring_log_def)
    from ring_commit_log[OF inv' this, of g ?f b "f_bytes f"] com L' show ?thesis by auto
  next
    case 2
    then have "ring_log_below (fill_buf r b (f_bytes f)) L"
      using lg fill_buf_slot[OF len] same_slot_ahead by (simp add: ring_log_def ring_log_below_def)
    note st = ring_commit_log_stored[OF inv' this, of "f_bytes f" g ?f b]
    have stored: "stores g (fill_buf r b (f_bytes f)) ?f"
      using started_stores[OF reg 2(2)] by simp
    have "f_bytes f \<noteq> []" using False fok by (auto simp: f_bytes_def frame_ok_def)
    with st stored com L' show ?thesis by (auto simp: log_commit_def)
  qed
qed


lemma ring_log_cong:
  "ring_log r L \<Longrightarrow> q_write_idx r' = q_write_idx r \<Longrightarrow> q_slots r' = q_slots r \<Longrightarrow> ring_log r' L"
  by (simp add: ring_log_def slot_at_def)

lemma ring_log_settings:
  assumes "ring_log r L"
  shows "ring_log (zms_gop_queue_set_target_gops r n) L"
    and "ring_log (zms_gop_queue_set_cache_ms r ms) L"
    and "ring_log (snd (zms_gop_queue_set_video_config mem r blob)) L"
    and "ring_log (snd (zms_gop_queue_set_audio_config mem r blob)) L"
proof -
  show "ring_log (zms_gop_queue_set_target_gops r n) L" "ring_log (zms_gop_queue_set_cache_ms r ms) L"
    using assms by (auto intro: ring_log_cong simp: zms_gop_queue_set_target_gops_def
        zms_gop_queue_set_cache_ms_def)
  show "ring_log (snd (zms_gop_queue_set_video_config mem r blob)) L"
    using set_config_fields(1)[of mem r blob] assms by (auto intro: ring_log_cong)
  show "ring_log (snd (zms_gop_queue_set_audio_config mem r blob)) L"
    using set_config_fields(2)[of mem r blob] assms by (auto intro: ring_log_cong)
qed

lemma gop_run_step: "gop_run g r L \<Longrightarrow> gop_reach g r"
  by (induction rule: gop_run.induct) (blast intro: reach_create reach_step gop_step.intros)+

lemma gop_run_log:
  assumes reg: "registry_ok g"
  shows "gop_run g r L \<Longrightarrow> ring_log r L"
proof (induction rule: gop_run.induct)
  case (run_create d mem r)
  then show ?case by (auto simp: zms_gop_queue_create_def ring_log_def split: if_splits)
next
  case (run_write r L f refcnt fresh cap e r')
  then show ?case using write_log[OF gop_reach_inv[OF gop_run_step] _ reg] by blast
next
  case (run_write_buf r L b d f e r')
  then show ?case
    using ring_commit_log[OF gop_reach_inv[OF gop_run_step[OF run_write_buf.hyps(1)]], of L g
        "zms_frame_refresh_key_from_es g f" b d]
    by (auto simp: zms_gop_queue_write_buf_def)
next
  case (run_clear r L)
  then show ?case by (simp add: ring_log_def clear_fields)
qed (simp_all add: ring_log_settings)

text \<open>
  C13: The ring refines an append-only log. Run a publisher and keep the list of everything
  that was published since the last clear: every index a reader may ask for, from the
  oldest index up to the write index, holds exactly the frame that was published at that
  index, its payload, time stamps and flags included; a frame that is not storable leaves
  no trace. (The buffer of the overwritten slot may be reused, as in the code.)
\<close>

theorem gop_run_window:
  assumes "registry_ok g" "gop_run g r L"
  shows "length L = q_write_idx r \<and>
    (\<forall>i. oldest_idx r \<le> i \<longrightarrow> i < q_write_idx r \<longrightarrow>
      sl_buf (slot_at r i) = Some (fst (L ! i)) \<and> sl_pub (slot_at r i) = snd (L ! i))"
proof -
  have inv: "gop_inv r" using assms(2) gop_run_step gop_reach_inv by blast
  have lg: "ring_log r L" using gop_run_log assms by blast
  have "q_write_idx r - oldest_idx r \<le> ZMS_GOP_QUEUE_CAPACITY"
    using oldest_in_window[OF inv] by simp
  with lg show ?thesis by (auto simp: ring_log_def)
qed

section \<open>Tracked GOPs start at key frames\<close>

lemma gop_keyed_cong:
  assumes "gop_keyed r" "q_gop_start r' = q_gop_start r" "q_gop_count r' = q_gop_count r"
    "q_write_idx r' = q_write_idx r" "\<And>i. gop_entry (sl_pub (slot_at r' i)) = gop_entry (sl_pub (slot_at r i))"
  shows "gop_keyed r'"
  using assms by (simp add: gop_keyed_def gop_keyed_at_def)

lemma fill_buf_keyed:
  assumes "gop_inv r" "gop_keyed r"
  shows "gop_keyed (fill_buf r b d)"
proof (rule gop_keyed_cong[OF assms(2)])
  fix i
  have "i mod ZMS_GOP_QUEUE_CAPACITY < length (q_slots r)"
    using assms(1) by (simp add: gop_inv_def gop_inv_at_def gop_limits)
  then show "gop_entry (sl_pub (slot_at (fill_buf r b d) i)) = gop_entry (sl_pub (slot_at r i))"
    by (simp add: slot_at_def fill_buf_def gop_entry_def)
qed simp_all

lemma gop_step_keyed:
  assumes reg: "registry_ok g"
  shows "gop_step g r r' \<Longrightarrow> gop_inv r \<Longrightarrow> gop_keyed r \<Longrightarrow> gop_keyed r'"
proof (induction rule: gop_step.induct)
  case (step_write cap refcnt fresh r f e r')
  show ?case
  proof (cases "r' = r")
    case False
    with step_write.hyps obtain b where
      "ring_commit_frame g (fill_buf r b (f_bytes (zms_frame_refresh_key_from_es g f)))
         (zms_frame_refresh_key_from_es g f) b (f_bytes (zms_frame_refresh_key_from_es g f)) = Some (e, r')"
      by (auto simp: zms_gop_queue_write_def Let_def split: if_splits option.splits)
    from ring_commit_keyed[OF fill_buf_inv fill_buf_keyed reg refl this] step_write.prems
    show ?thesis by blast
  qed (use step_write.prems in simp)
next
  case (step_write_buf r b d f e r')
  then show ?case using ring_commit_keyed[OF _ _ reg refl]
    by (fastforce simp: zms_gop_queue_write_buf_def)
next
  case (step_clear r)
  then show ?case by (simp add: gop_keyed_def gop_keyed_at_def clear_fields)
next
  case (step_target r n)
  then show ?case by (simp add: gop_keyed_def gop_keyed_at_def slot_at_def zms_gop_queue_set_target_gops_def)
next
  case (step_cache r ms)
  then show ?case by (simp add: gop_keyed_def gop_keyed_at_def slot_at_def zms_gop_queue_set_cache_ms_def)
next
  case (step_video r mem blob)
  then show ?case using set_config_fields(1)[of mem r blob]
    by (auto simp: gop_keyed_def gop_keyed_at_def slot_at_def)
next
  case (step_audio r mem blob)
  then show ?case using set_config_fields(2)[of mem r blob]
    by (auto simp: gop_keyed_def gop_keyed_at_def slot_at_def)
qed

lemma gop_reach_keyed:
  assumes reg: "registry_ok g"
  shows "gop_reach g r \<Longrightarrow> gop_keyed r"
proof (induction rule: gop_reach.induct)
  case (reach_create d mem r)
  then show ?case
    by (auto simp: zms_gop_queue_create_def gop_keyed_def gop_keyed_at_def split: if_splits)
next
  case (reach_step r r')
  then show ?case using gop_step_keyed[OF reg] gop_reach_inv by blast
qed


section \<open>Buffer references\<close>

definition opt_mset :: "'b option \<Rightarrow> 'b multiset" where
  "opt_mset b = (case b of None \<Rightarrow> {#} | Some x \<Rightarrow> {#x#})"

definition slot_refs :: "'b zms_gop_queue \<Rightarrow> 'b multiset" where
  "slot_refs r = sum_list (map (\<lambda>sl. opt_mset (sl_buf sl)) (q_slots r))"

fun call_unref :: "'b ztk_call \<Rightarrow> 'b multiset" where
  "call_unref (BufUnref b) = {#b#}"
| "call_unref _ = {#}"

definition dropped :: "'b ztk_call list \<Rightarrow> 'b multiset" where
  "dropped cs = sum_list (map call_unref cs)"

lemma dropped_simps [simp]:
  "dropped [] = {#}" "dropped (c # cs) = call_unref c + dropped cs"
  "dropped (cs @ cs') = dropped cs + dropped cs'"
  by (simp_all add: dropped_def)

lemma dropped_unref_opt [simp]: "dropped (unref_opt b) = opt_mset b"
  by (cases b) (simp_all add: unref_opt_def opt_mset_def)

lemma sum_list_update_add:
  fixes h :: "'a \<Rightarrow> 'c multiset"
  shows "k < length xs \<Longrightarrow> sum_list (map h (xs[k := y])) + h (xs ! k) = sum_list (map h xs) + h y"
proof (induction xs arbitrary: k)
  case (Cons x xs)
  then show ?case by (cases k) (simp_all add: ac_simps)
qed simp

lemma sum_list_no_refs: "sum_list (replicate n {#}) = ({#} :: 'c multiset)"
  by (induction n) simp_all

lemma slot_publish_refs:
  assumes "length (q_slots r) = ZMS_GOP_QUEUE_CAPACITY"
  shows "slot_refs (slot_publish r i b d f dts pts) + dropped (q_calls (slot_publish r i b d f dts pts))
    = slot_refs r + dropped (q_calls r) + (if sl_buf (slot_at r i) = Some b then {#} else {#b#})"
proof -
  let ?k = "i mod ZMS_GOP_QUEUE_CAPACITY" and ?h = "\<lambda>sl :: 'a zms_frame_slot. opt_mset (sl_buf sl)"
  have k: "?k < length (q_slots r)" using assms by (simp add: gop_limits)
  define sl where "sl = q_slots (slot_publish r i b d f dts pts) ! ?k"
  have upd: "q_slots (slot_publish r i b d f dts pts) = (q_slots r)[?k := sl]" and buf: "sl_buf sl = Some b"
    using k by (simp_all add: sl_def slot_publish_def set_slot_def log_calls_def Let_def)
  have calls: "q_calls (slot_publish r i b d f dts pts) = q_calls r @
      unref_opt (if sl_buf (slot_at r i) = Some b then None else sl_buf (slot_at r i))"
    by (simp add: slot_publish_def set_slot_def log_calls_def Let_def)
  have eq: "slot_refs (slot_publish r i b d f dts pts) + opt_mset (sl_buf (slot_at r i)) = slot_refs r + {#b#}"
    using sum_list_update_add[OF k, of ?h sl] upd buf
    by (simp add: slot_refs_def slot_at_def opt_mset_def)
  show ?thesis
  proof (cases "sl_buf (slot_at r i) = Some b")
    case True
    then have "slot_refs (slot_publish r i b d f dts pts) = slot_refs r" using eq by (simp add: opt_mset_def)
    with True show ?thesis by (simp add: calls opt_mset_def)
  next
    case False
    with eq show ?thesis by (simp add: calls ac_simps)
  qed
qed

lemma dropped_signal: "dropped (q_calls (signal_commit r)) = dropped (q_calls r)"
proof -
  have flush: "dropped (ring_flush_reader_wakes ns seq) = {#}" for ns seq
    by (induction ns) (simp_all add: ring_flush_reader_wakes_def)
  have "dropped (snd (snd (ring_signal_readers seq cap rds ns))) = {#}" for seq cap rds ns
    by (induction rds arbitrary: ns) (auto simp: Let_def case_prod_beta)
  from this[of "q_write_idx r" ZMS_GOP_QUEUE_SIGNAL_SNAP "q_readers r" "[]"] flush show ?thesis
    by (auto simp: signal_commit_def log_calls_def split: prod.splits)
qed

lemma commit_refs:
  assumes inv: "gop_inv r" and res: "ring_commit_frame g r f b d = Some (ZTK_OK, r')"
    and other: "sl_buf (slot_at r (q_write_idx r)) \<noteq> Some b"
  shows "slot_refs r' + dropped (q_calls r') = slot_refs r + dropped (q_calls r) + {#b#}"
proof (cases "stores g r f")
  case False
  then show ?thesis using res
    by (auto simp: ring_commit_frame_eq log_calls_def slot_refs_def split: if_splits)
next
  case True
  have d: "d \<noteq> []" using res by (auto simp: ring_commit_frame_eq)
  obtain r2 where
    r': "ring_commit_frame g r f b d = Some (ZTK_OK, signal_commit (commit_core g r2 f b d))"
    and same: "same_data (note_video r f) r2" and inv2: "gop_inv_at (Suc (q_write_idx r2)) r2"
    using commit_stored[OF inv d True, where b = b] by metis
  obtain dts pts where tl: "zms_gop_queue_timeline_from_frame f = (dts, pts)" by fastforce
  let ?re = "evict_while_full r2"
  let ?rs = "store_frame g ?re f b d dts pts"
  note fe = popped_fields[OF evict_while_full_popped[of r2]]
  note ft = popped_fields[OF trim_after_store_popped[of ?rs dts]]
  have keep: "q_slots ?re = q_slots r" "q_calls ?re = q_calls r" "q_write_idx ?re = q_write_idx r"
    using same fe by (simp_all add: same_data_def)
  then have sla: "slot_at ?re = slot_at r" by (simp add: slot_at_def fun_eq_iff)
  have "length (q_slots ?re) = ZMS_GOP_QUEUE_CAPACITY" using keep inv by (simp add: gop_inv_def gop_inv_at_def)
  from slot_publish_refs[OF this, of "q_write_idx r" b d f dts pts] other keep sla
  have "slot_refs ?rs + dropped (q_calls ?rs) = slot_refs r + dropped (q_calls r) + {#b#}"
    by (simp add: slot_refs_def)
  moreover have "slot_refs r' = slot_refs ?rs" "dropped (q_calls r') = dropped (q_calls ?rs)"
    using res r' ft by (auto simp: slot_refs_def dropped_signal commit_core_def tl)
  ultimately show ?thesis by simp
qed


section \<open>GOP starts are never lost, long GOPs lose the tracking\<close>

lemma opener_stored:
  assumes reg: "registry_ok g" and f: "f = zms_frame_refresh_key_from_es g f0"
    and new: "zms_gop_queue_new_gop g f kp hv" and nd: "\<not> f_drop_able f"
    and vid: "f_track f = ZMS_TRACK_VIDEO"
  shows "zms_gop_queue_storable g f cs hv"
proof -
  obtain key st ng where ops: "o_is_keyframe (zms_frame_codec_find g (f_codec f)) = Some key"
      "o_storable (zms_frame_codec_find g (f_codec f)) = Some st" and con: "gop_codec key st ng"
    using registry_ok_find[OF reg] unfolding ops_ok_def by blast
  have "f_keyframe f" using refreshed_opener[OF reg f new vid] by blast
  with gop_codec.key_storable[OF con] nd vid show ?thesis
    by (simp add: zms_gop_queue_storable_def ops)
qed

text \<open>
  A video frame that opens a GOP and is not marked droppable is always published: on a
  well-formed queue, whatever the state of the cache, writing it advances the write index by
  one and puts it into the slot of the old write index.
\<close>

theorem gop_opener_published:
  assumes "gop_inv r" "registry_ok g" "f = zms_frame_refresh_key_from_es g f0"
    "opens_gop g r f" "\<not> f_drop_able f" "f_track f = ZMS_TRACK_VIDEO" "d \<noteq> []"
  shows "\<exists>r'. zms_gop_queue_write_buf g r b d f0 = Some (ZTK_OK, r')
    \<and> q_write_idx r' = q_write_idx r + 1 \<and> sl_pub (slot_at r' (q_write_idx r)) = pub_of f d"
proof -
  have st: "stores g r f"
    using opener_stored[OF assms(2,3) _ assms(5,6)] assms(4) by (simp add: stores_def opens_gop_def)
  obtain r2 where res: "ring_commit_frame g r f b d = Some (ZTK_OK, signal_commit (commit_core g r2 f b d))"
    and same: "same_data (note_video r f) r2" and inv2: "gop_inv_at (Suc (q_write_idx r2)) r2"
    and old2: "q_oldest_seq r2 \<le> oldest_idx r2"
    using commit_stored[OF assms(1,7) st, where b = b] by metis
  note core = commit_core_inv[OF inv2 old2, where g = g and f = f and b = b and d = d]
  have "q_write_idx r2 = q_write_idx r" using same by (simp add: same_data_def)
  then show ?thesis using res core(2,3) assms(3)
    by (simp add: zms_gop_queue_write_buf_def slot_at_def)
qed

fun write_bufs :: "registry \<Rightarrow> 'b zms_gop_queue \<Rightarrow> ('b \<times> bytes \<times> zms_frame) list \<Rightarrow> 'b zms_gop_queue option" where
  "write_bufs g r [] = Some r"
| "write_bufs g r ((b, d, f) # ws) =
     (case zms_gop_queue_write_buf g r b d f of None \<Rightarrow> None | Some (e, r') \<Rightarrow> write_bufs g r' ws)"

text \<open>
  \<open>in_long_gop n r\<close>: the queue after a GOP start and \<open>n - 1\<close> further frames that open none.
  The single GOP is dropped whole when it fills the ring, and no GOP is left to extend.
\<close>

definition in_long_gop :: "nat \<Rightarrow> 'b zms_gop_queue \<Rightarrow> bool" where
  "in_long_gop n r \<longleftrightarrow> q_cache_started r \<and> q_has_video r \<and>
     (if n \<le> ZMS_GOP_QUEUE_CAPACITY
      then q_gop_count r = 1 \<and> q_count r = n \<and> q_write_idx r = q_gop_start r ! 0 + n
      else q_gop_count r = 0 \<and> q_count r = min ZMS_GOP_QUEUE_CAPACITY (n - ZMS_GOP_QUEUE_CAPACITY)
        \<and> q_write_idx r = q_oldest_seq r + (n - ZMS_GOP_QUEUE_CAPACITY))"

lemma trim_after_store_single: "q_gop_count r \<le> 1 \<Longrightarrow> trim_after_store r dts = r"
  by (simp add: trim_after_store_def trim_gops_for_time_def trim_gops_loop.simps[of r] Let_def)

lemma evict_single:
  "q_gop_count r \<le> 1 \<Longrightarrow> evict_while_full r =
    (if q_count r \<ge> ZMS_GOP_QUEUE_CAPACITY \<and> q_gop_count r > 0 then pop_front_gop r else r)"
  using evict_while_full.simps[of r] evict_while_full.simps[of "pop_front_gop r"] by auto

lemma pop_single:
  "q_gop_count r = 1 \<Longrightarrow> q_gop_start r ! 0 \<le> q_write_idx r \<Longrightarrow>
    q_count (pop_front_gop r) = q_count r - (q_write_idx r - q_gop_start r ! 0)"
  by (auto simp: pop_front_gop_def publish_oldest_def Let_def)

lemma commit_single:
  assumes "q_gop_count r2 \<le> 1"
  shows "q_count (commit_core g r2 f b d) = (let c = q_count (evict_while_full r2)
      in if c < ZMS_GOP_QUEUE_CAPACITY then Suc c else c)"
    and "q_gop_count (commit_core g r2 f b d) = q_gop_count (evict_while_full r2)"
    and "q_gop_start (commit_core g r2 f b d) = q_gop_start (evict_while_full r2)"
    and "q_oldest_seq (commit_core g r2 f b d) = q_oldest_seq (evict_while_full r2)"
proof -
  have "q_gop_count (evict_while_full r2) \<le> 1"
    using popped_fields[OF evict_while_full_popped[of r2]] assms by simp
  then show "q_count (commit_core g r2 f b d) = (let c = q_count (evict_while_full r2)
      in if c < ZMS_GOP_QUEUE_CAPACITY then Suc c else c)"
    and "q_gop_count (commit_core g r2 f b d) = q_gop_count (evict_while_full r2)"
    and "q_gop_start (commit_core g r2 f b d) = q_gop_start (evict_while_full r2)"
    and "q_oldest_seq (commit_core g r2 f b d) = q_oldest_seq (evict_while_full r2)"
    by (simp_all add: commit_core_def trim_after_store_single split: prod.splits)
qed

lemma pop_single_start: "q_gop_count r \<le> 1 \<Longrightarrow> q_gop_start (pop_front_gop r) = q_gop_start r"
  by (auto simp: pop_front_gop_def publish_oldest_def Let_def)

lemma commit_core_fields:
  "q_cache_started (commit_core g r2 f b d) = q_cache_started r2"
  "q_has_video (commit_core g r2 f b d) = q_has_video r2"
  "q_write_idx (commit_core g r2 f b d) = Suc (q_write_idx r2)"
proof -
  obtain dts pts where tl: "zms_gop_queue_timeline_from_frame f = (dts, pts)" by fastforce
  note e = popped_fields[OF evict_while_full_popped[of r2]]
  note t = popped_fields[OF trim_after_store_popped[of "store_frame g (evict_while_full r2) f b d dts pts" dts]]
  show "q_cache_started (commit_core g r2 f b d) = q_cache_started r2"
    "q_has_video (commit_core g r2 f b d) = q_has_video r2"
    "q_write_idx (commit_core g r2 f b d) = Suc (q_write_idx r2)"
    using e t by (simp_all add: commit_core_def tl)
qed

lemma long_gop_core:
  assumes "in_long_gop n r" "0 < n"
  shows "in_long_gop (Suc n) (signal_commit (commit_core g (note_video r f) f b d))"
proof -
  let ?r = "note_video r f"
  have le: "q_gop_count ?r \<le> 1" using assms by (auto simp: in_long_gop_def split: if_splits)
  note c = commit_single[OF le, of g f b d]
  have gen: "q_cache_started (commit_core g ?r f b d)" "q_has_video (commit_core g ?r f b d)"
    "q_write_idx (commit_core g ?r f b d) = Suc (q_write_idx r)"
    using assms(1) by (simp_all add: commit_core_fields in_long_gop_def saw_video_def)
  consider "n < ZMS_GOP_QUEUE_CAPACITY" | "n = ZMS_GOP_QUEUE_CAPACITY" | "n > ZMS_GOP_QUEUE_CAPACITY"
    by linarith
  then show ?thesis
  proof cases
    case 1
    then show ?thesis using assms gen c evict_single[OF le] by (simp add: in_long_gop_def Let_def)
  next
    case 2
    then have "q_gop_count ?r = 1" "q_write_idx ?r = q_gop_start ?r ! 0 + n" "q_count ?r = n"
      using assms by (simp_all add: in_long_gop_def)
    then have "q_count (pop_front_gop ?r) = 0" using pop_single[of ?r] by simp
    moreover from this have "q_oldest_seq (pop_front_gop ?r) = q_write_idx r"
      using pop_front_gop_oldest[of ?r] \<open>q_gop_count ?r = 1\<close> by (simp add: oldest_idx_def)
    moreover note 2
    ultimately have "q_count (pop_front_gop ?r) = 0 \<and> q_oldest_seq (pop_front_gop ?r) = q_write_idx r"
      by simp
    with 2 assms gen c evict_single[OF le] show ?thesis
      by (simp add: in_long_gop_def Let_def gop_limits)
  next
    case 3
    then have "Suc (n - 512) = n - 511" "\<And>k. Suc (k + n - 512) = k + n - 511"
      by (simp_all add: gop_limits)
    with 3 show ?thesis using assms gen c evict_single[OF le]
      by (auto simp: in_long_gop_def Let_def gop_limits min_def)
  qed
qed

definition untracked :: "'b zms_gop_queue \<Rightarrow> bool" where
  "untracked r \<longleftrightarrow> q_cache_started r \<and> q_gop_count r = 0 \<and> q_count r = ZMS_GOP_QUEUE_CAPACITY
     \<and> q_gop_start r \<noteq> []"

lemma write_bufs_inv: "gop_inv r \<Longrightarrow> write_bufs g r ws = Some r' \<Longrightarrow> gop_inv r'"
proof (induction ws arbitrary: r)
  case (Cons w ws)
  obtain b d f where w: "w = (b, d, f)" by (cases w) auto
  from Cons.prems(2) obtain e r1 where r1: "zms_gop_queue_write_buf g r b d f = Some (e, r1)"
      "write_bufs g r1 ws = Some r'"
    by (auto simp: w split: option.splits prod.splits)
  then have "gop_inv r1" using write_buf_inv[OF Cons.prems(1), of g b d f] by simp
  from Cons.IH[OF this r1(2)] show ?case .
qed simp

lemma write_buf_started:
  assumes "registry_ok g" "q_cache_started r" "d \<noteq> []" "f = zms_frame_refresh_key_from_es g f0"
  shows "zms_gop_queue_write_buf g r b d f0 =
    map_option (\<lambda>r2. (ZTK_OK, signal_commit (commit_core g r2 f b d)))
      (if opens_gop g r f then on_new_gop (note_video r f) (fst (zms_gop_queue_timeline_from_frame f))
       else Some (note_video r f))"
  using assms started_stores[OF assms(1,2), of f]
  by (simp add: zms_gop_queue_write_buf_def ring_commit_frame_eq)

lemma untracked_write:
  assumes reg: "registry_ok g" and u: "untracked r"
    and res: "zms_gop_queue_write_buf g r b d f0 = Some (e, r')"
  shows "untracked r'"
proof (cases "d = []")
  case True
  then show ?thesis using res u by (simp add: zms_gop_queue_write_buf_def ring_commit_frame_eq)
next
  case False
  define f where "f = zms_frame_refresh_key_from_es g f0"
  have started: "q_cache_started r" using u by (simp add: untracked_def)
  obtain r2 where r2: "(if opens_gop g r f then on_new_gop (note_video r f)
      (fst (zms_gop_queue_timeline_from_frame f)) else Some (note_video r f)) = Some r2"
    and r': "r' = signal_commit (commit_core g r2 f b d)"
    using trans[OF sym[OF write_buf_started[OF reg started False f_def, of b]] res]
    unfolding map_option_eq_Some prod.inject by blast
  have two: "q_cache_started r2 \<and> q_gop_count r2 \<le> 1 \<and> q_count r2 = ZMS_GOP_QUEUE_CAPACITY \<and>
      q_gop_start r2 \<noteq> [] \<and> (q_gop_count r2 = 1 \<longrightarrow> q_gop_start r2 ! 0 = q_write_idx r2)"
    using r2 u by (auto simp: on_new_gop_def untracked_def publish_oldest_def split: if_splits)
  then have "q_gop_count (evict_while_full r2) = 0 \<and> q_gop_start (evict_while_full r2) \<noteq> []
      \<and> q_count (evict_while_full r2) = ZMS_GOP_QUEUE_CAPACITY"
    using evict_single[of r2] pop_single[of r2] pop_single_start[of r2]
    by (cases "q_gop_count r2 = 1") auto
  with two commit_single[of r2 g f b d] commit_core_fields(1)[of g r2 f b d] show ?thesis
    by (simp add: r' untracked_def Let_def)
qed

lemma untracked_writes:
  assumes reg: "registry_ok g"
  shows "untracked r \<Longrightarrow> write_bufs g r ws = Some r' \<Longrightarrow> untracked r'"
proof (induction ws arbitrary: r)
  case (Cons w ws)
  obtain b d f where w: "w = (b, d, f)" by (cases w) auto
  from Cons.prems(2) obtain e r1 where r1: "zms_gop_queue_write_buf g r b d f = Some (e, r1)"
      "write_bufs g r1 ws = Some r'"
    by (auto simp: w split: option.splits prod.splits)
  from Cons.IH[OF untracked_write[OF reg Cons.prems(1) r1(1)] r1(2)] show ?case .
qed simp

lemma long_gop_write:
  assumes reg: "registry_ok g" and l: "in_long_gop n r" "0 < n" and d: "d \<noteq> []"
    and no: "\<And>kp. \<not> zms_gop_queue_new_gop g (zms_frame_refresh_key_from_es g f0) kp True"
    and res: "zms_gop_queue_write_buf g r b d f0 = Some (e, r')"
  shows "in_long_gop (Suc n) r'"
proof -
  define f where "f = zms_frame_refresh_key_from_es g f0"
  have started: "q_cache_started r" and hv: "q_has_video r" using l by (simp_all add: in_long_gop_def)
  have "\<not> opens_gop g r f" using no hv by (simp add: opens_gop_def saw_video_def f_def)
  then have "r' = signal_commit (commit_core g (note_video r f) f b d)"
    using write_buf_started[OF reg started d f_def, of b] res by simp
  with long_gop_core[OF l, of g f b d] show ?thesis by simp
qed

lemma long_gop_writes:
  assumes reg: "registry_ok g"
  shows "in_long_gop n r \<Longrightarrow> 0 < n \<Longrightarrow> write_bufs g r ws = Some r' \<Longrightarrow>
    \<forall>(b, d, f0) \<in> set ws. d \<noteq> [] \<and> (\<forall>kp. \<not> zms_gop_queue_new_gop g
      (zms_frame_refresh_key_from_es g f0) kp True) \<Longrightarrow> in_long_gop (n + length ws) r'"
proof (induction ws arbitrary: n r)
  case (Cons w ws)
  obtain b d f0 where w: "w = (b, d, f0)" by (cases w) auto
  from Cons.prems(3) obtain e r1 where r1: "zms_gop_queue_write_buf g r b d f0 = Some (e, r1)"
      "write_bufs g r1 ws = Some r'"
    by (auto simp: w split: option.splits prod.splits)
  have "in_long_gop (Suc n) r1"
    using long_gop_write[OF reg Cons.prems(1,2) _ _ r1(1)] Cons.prems(4) by (simp add: w)
  from Cons.IH[OF this _ r1(2)] Cons.prems(4) show ?case by simp
qed simp

lemma first_key_write:
  assumes reg: "registry_ok g" and df: "defaults_ok df" and cr: "zms_gop_queue_create df mem = Some r"
    and d: "d \<noteq> []" and f: "f = zms_frame_refresh_key_from_es g f0"
    and key: "opens_gop g r f" "f_track f = ZMS_TRACK_VIDEO" "\<not> f_drop_able f"
    and res: "zms_gop_queue_write_buf g r b d f0 = Some (e, r')"
  shows "in_long_gop 1 r'"
proof -
  have st: "stores g r f" using opener_stored[OF reg f _ key(3,2)] key(1) by (simp add: stores_def opens_gop_def)
  have conf: "\<not> f_config_frame f"
    using refreshed_opener[OF reg f _ key(2)] key(1) by (simp add: opens_gop_def)
  define r2 where "r2 = the (on_new_gop (note_video r f) (fst (zms_gop_queue_timeline_from_frame f)))"
  have on: "on_new_gop (note_video r f) (fst (zms_gop_queue_timeline_from_frame f)) = Some r2"
    and r2: "q_gop_count r2 = 1" "q_count r2 = 0" "q_gop_start r2 ! 0 = 0" "q_write_idx r2 = 0"
      "q_cache_started r2" "q_has_video r2"
    using cr conf key(2)
    by (auto simp: r2_def on_new_gop_def note_video_def zms_gop_queue_create_def publish_oldest_def
        gop_limits split: if_splits)
  have "r' = signal_commit (commit_core g r2 f b d)"
    using res on st d key(1) f by (simp add: zms_gop_queue_write_buf_def ring_commit_frame_eq)
  moreover have "evict_while_full r2 = r2" using r2 evict_single[of r2] by (simp add: gop_limits)
  ultimately show ?thesis
    using r2 commit_single[of r2 g f b d] commit_core_fields[of g r2 f b d]
    by (simp add: in_long_gop_def gop_limits)
qed

text \<open>
  A GOP of 1024 frames or more switches GOP tracking off for good: publish a key frame
  on a new queue and then at least 1023 frames that open no GOP; whatever is published after
  that, key frames included, the ring reports no GOP until it is cleared, because the GOP
  that a later key frame opens is evicted by the capacity check of the same commit, without
  freeing a slot.
\<close>

theorem long_gop_untracked:
  assumes "registry_ok g" "defaults_ok df" "zms_gop_queue_create df mem = Some r"
    "d \<noteq> []" "f = zms_frame_refresh_key_from_es g f0"
    "opens_gop g r f" "f_track f = ZMS_TRACK_VIDEO" "\<not> f_drop_able f"
    "1023 \<le> length ps"
    "\<forall>(b, d, p) \<in> set ps. d \<noteq> [] \<and> (\<forall>kp. \<not> zms_gop_queue_new_gop g
        (zms_frame_refresh_key_from_es g p) kp True)"
    "write_bufs g r ((b, d, f0) # ps) = Some r1" "write_bufs g r1 ws = Some r2"
  shows "zms_gop_queue_gop_count r2 = 0 \<and> q_count r2 = 512"
proof -
  from assms(11) obtain e r' where w: "zms_gop_queue_write_buf g r b d f0 = Some (e, r')"
      "write_bufs g r' ps = Some r1"
    by (auto split: option.splits prod.splits)
  have "in_long_gop 1 r'"
    by (rule first_key_write[OF assms(1-8) w(1)])
  from long_gop_writes[OF assms(1) this _ w(2) assms(10)] have "in_long_gop (Suc (length ps)) r1"
    by simp
  moreover have "gop_inv r1" using write_bufs_inv[OF create_inv[OF assms(2,3)] assms(11)] .
  ultimately have "untracked r1" using assms(9)
    by (auto simp: in_long_gop_def untracked_def gop_inv_def gop_inv_at_def gop_limits)
  from untracked_writes[OF assms(1) this assms(12)] show ?thesis
    by (simp add: untracked_def zms_gop_queue_gop_count_def gop_limits)
qed

section \<open>The theorems on a concrete queue\<close>

definition ex_defaults :: gop_defaults where
  "ex_defaults = \<lparr>g_default_target_gops = 3, g_default_cache_ms = 0\<rparr>"

definition ex_key :: zms_frame where
  "ex_key = zms_frame_init\<lparr>f_data := Some [1], f_size := 1, f_codec := ZMS_CODEC_VP8,
     f_track := ZMS_TRACK_VIDEO, f_keyframe := True, f_dts_ms := 40\<rparr>"

definition ex_delta :: zms_frame where
  "ex_delta = ex_key\<lparr>f_keyframe := False\<rparr>"

definition ex_reg :: registry where "ex_reg = (\<lambda>_. None)"

definition ex_q0 :: "nat zms_gop_queue" where
  "ex_q0 = the (zms_gop_queue_create ex_defaults True)"

definition ex_q1 :: "nat zms_gop_queue" where
  "ex_q1 = snd (the (zms_gop_queue_write_buf ex_reg ex_q0 7 [1] ex_key))"

lemma ex_create: "zms_gop_queue_create ex_defaults True = Some ex_q0"
  by (simp add: ex_q0_def zms_gop_queue_create_def)

lemma ex_defaults_ok: "defaults_ok ex_defaults"
  by (simp add: ex_defaults_def defaults_ok_def gop_limits)

lemma ex_reg_ok: "registry_ok ex_reg"
  by (simp add: ex_reg_def registry_ok_empty)

lemma ex_write1: "zms_gop_queue_write_buf ex_reg ex_q0 7 [1] ex_key = Some (ZTK_OK, ex_q1)"
proof -
  have "map_option fst (zms_gop_queue_write_buf ex_reg ex_q0 7 [1] ex_key) = Some ZTK_OK"
    by code_simp
  then show ?thesis by (auto simp: ex_q1_def)
qed

lemma ex_reach0: "gop_reach ex_reg ex_q0" by (rule reach_create[OF ex_defaults_ok ex_create])

lemma ex_reach1: "gop_reach ex_reg ex_q1"
  by (rule reach_step[OF ex_reach0 step_write_buf[OF ex_write1]])

lemma ex_refresh: "zms_frame_refresh_key_from_es ex_reg ex_key = ex_key"
  by code_simp

lemma ex_run1: "gop_run ex_reg ex_q1 [(7, pub_of ex_key [1])]"
proof -
  have "log_commit ex_reg ex_q0 (zms_frame_refresh_key_from_es ex_reg ex_key) 7 [1] []
      = [(7, pub_of ex_key [1])]"
    unfolding ex_refresh by code_simp
  then show ?thesis
    using run_write_buf[OF run_create[OF ex_defaults_ok ex_create] ex_write1] by simp
qed

lemma gop_write_returns_witness:
  "zms_gop_queue_write_buf ex_reg ex_q1 8 [2] ex_delta \<noteq> None"
  using gop_write_returns[OF ex_reach1] by blast

lemma gop_run_window_witness:
  "oldest_idx ex_q1 = 0 \<and> q_write_idx ex_q1 = 1 \<and> sl_pub (slot_at ex_q1 0) = pub_of ex_key [1]"
proof -
  have "oldest_idx ex_q1 = 0" by code_simp
  with gop_run_window[OF ex_reg_ok ex_run1] show ?thesis by auto
qed



lemma gop_opener_published_witness:
  "\<exists>r'. zms_gop_queue_write_buf ex_reg ex_q1 9 [5] ex_key = Some (ZTK_OK, r')
    \<and> q_write_idx r' = 2 \<and> sl_pub (slot_at r' 1) = pub_of ex_key [5]"
proof -
  have "opens_gop ex_reg ex_q1 ex_key" "\<not> f_drop_able ex_key" "f_track ex_key = ZMS_TRACK_VIDEO"
    "q_write_idx ex_q1 = 1"
    by code_simp+
  with gop_opener_published[OF gop_reach_inv[OF ex_reach1] ex_reg_ok ex_refresh[symmetric], of "[5]" 9]
  show ?thesis by (simp add: numeral_2_eq_2)
qed

lemma write_bufs_total: "gop_inv r \<Longrightarrow> \<exists>r'. write_bufs g r ws = Some r'"
proof (induction ws arbitrary: r)
  case (Cons w ws)
  obtain b d f where w: "w = (b, d, f)" by (cases w) auto
  obtain e r1 where r1: "zms_gop_queue_write_buf g r b d f = Some (e, r1)" "gop_inv r1"
    using write_buf_inv[OF Cons.prems] by metis
  from Cons.IH[OF r1(2)] r1(1) show ?case by (simp add: w)
qed simp

lemma long_gop_untracked_witness:
  "zms_gop_queue_gop_count (the (write_bufs ex_reg (the (write_bufs ex_reg ex_q0
      ((7, [1], ex_key) # replicate 1023 (8, [2], ex_delta)))) [(9, [1], ex_key)])) = 0"
proof -
  let ?ps = "replicate 1023 (8, [2], ex_delta) :: (nat \<times> bytes \<times> zms_frame) list"
  obtain r1 where r1: "write_bufs ex_reg ex_q0 ((7, [1], ex_key) # ?ps) = Some r1"
    using write_bufs_total[OF gop_reach_inv[OF ex_reach0]] by blast
  obtain r2 where r2: "write_bufs ex_reg r1 [(9, [1], ex_key)] = Some r2"
    using write_bufs_total[OF write_bufs_inv[OF gop_reach_inv[OF ex_reach0] r1]] by blast
  have key: "opens_gop ex_reg ex_q0 ex_key" "f_track ex_key = ZMS_TRACK_VIDEO" "\<not> f_drop_able ex_key"
    by code_simp+
  have "\<not> zms_gop_queue_new_gop ex_reg (zms_frame_refresh_key_from_es ex_reg ex_delta) kp True" for kp
    by (cases kp; simp add: ex_delta_def ex_key_def ex_reg_def zms_frame_refresh_key_from_es_def
        zms_frame_codec_find_def k_plain_es_def default_is_key_def zms_gop_queue_new_gop_def
        default_ring_new_gop_def zms_frame_init_def)
  then show ?thesis
    using long_gop_untracked[OF ex_reg_ok ex_defaults_ok ex_create _ ex_refresh[symmetric] key _ _ r1 r2]
      r1 r2 by simp
qed

end
