(* ===== verification/Gop_Read.thy ===== *)
theory Gop_Read
  imports Gop_Ops
begin

text \<open>
  The reader side of \<open>src/engine/gop/gop_queue.c\<close>: attaching and detaching, reading in
  order, and the audio/video interleaving buffer. A reader is a record of its own; an
  operation takes the queue it reads, returns the reader updated, and lists the calls it
  makes on buffers. Every operation is one atomic step here, so the two observations of the
  sequence counter in \<open>reader_try_take_slot\<close> see the same slot and only a failing
  \<open>ztk_buf_try_ref\<close> (the argument \<open>try_ref\<close>) sends a reader to the locked path.
\<close>

unbundle bit_operations_syntax

section \<open>Observing slots\<close>

definition ring_slot_video_sync :: "es_ext \<Rightarrow> registry \<Rightarrow> 'b zms_frame_slot \<Rightarrow> bool" where
  "ring_slot_video_sync E g slot =
     (let pub = sl_pub slot in
      if s_data pub = None \<or> s_len pub = 0 \<or> s_config_frame pub then False
      else if s_track pub \<noteq> ZMS_TRACK_VIDEO then False
      else if s_codec pub = ZMS_CODEC_H265
        then zms_h265_annexb_is_sync_key (annexb_split E) (s_bytes pub)
      else if s_keyframe pub then True
      else if s_codec pub = ZMS_CODEC_H264
        then zms_h264_annexb_is_sync_key (annexb_split E) (s_bytes pub)
      else zms_gop_slot_is_egress_sync g pub)"

text \<open>
  A slot taken without the lock: \<open>Taken\<close> is return value 1, \<open>Busy\<close> is 0 and \<open>Empty\<close>
  is -1. The data pointer and length a slot carries are those of its buffer (that is what
  \<open>slot_publish\<close> stores), so reading them from the buffer again changes nothing.
\<close>

datatype 'b take = Taken zms_gop_slot 'b | Busy | Empty

definition reader_try_take_slot ::
  "('b \<Rightarrow> bool) \<Rightarrow> 'b zms_gop_queue \<Rightarrow> nat \<Rightarrow> 'b take \<times> 'b ztk_call list" where
  "reader_try_take_slot try_ref r idx =
     (let slot = slot_at r idx; s1 = sl_seq slot in
      if s1 AND 1 \<noteq> 0 then (Busy, [])
      else (case sl_buf slot of
              None \<Rightarrow> (Empty, [])
            | Some b \<Rightarrow>
                if s_len (sl_pub slot) = 0 then (Empty, [])
                else if \<not> try_ref b then (Busy, [])
                else (Taken (sl_pub slot) b, [BufRef b])))"

section \<open>The interleaving buffer\<close>

definition reader_unref_held :: "'b zms_gop_reader \<Rightarrow> 'b zms_gop_reader \<times> 'b ztk_call list" where
  "reader_unref_held rd = (rd\<lparr>r_held_ref := None\<rparr>, unref_opt (r_held_ref rd))"

definition frame_mux_clear :: "'b zms_gop_reader \<Rightarrow> 'b zms_gop_reader \<times> 'b ztk_call list" where
  "frame_mux_clear rd = (rd\<lparr>r_mux := []\<rparr>, concat (map (\<lambda>it. unref_opt (sl_buf it)) (r_mux rd)))"

text \<open>The two running minima of the scan: index and time stamp of audio and of the rest.\<close>

record mux_pick =
  mp_v :: "nat option"
  mp_a :: "nat option"
  mp_min_v :: u32
  mp_min_a :: u32

definition mux_pick_step :: "mux_pick \<Rightarrow> nat \<times> 'b zms_frame_slot \<Rightarrow> mux_pick" where
  "mux_pick_step p it =
     (case it of (i, sl) \<Rightarrow>
        if s_track (sl_pub sl) = ZMS_TRACK_AUDIO then
          (if s_dts_ms (sl_pub sl) < mp_min_a p
           then p\<lparr>mp_min_a := s_dts_ms (sl_pub sl), mp_a := Some i\<rparr> else p)
        else
          (if s_dts_ms (sl_pub sl) < mp_min_v p
           then p\<lparr>mp_min_v := s_dts_ms (sl_pub sl), mp_v := Some i\<rparr> else p))"

definition mux_scan :: "'b zms_frame_slot list \<Rightarrow> mux_pick" where
  "mux_scan items = foldl mux_pick_step
     \<lparr>mp_v = None, mp_a = None, mp_min_v = 0xFFFFFFFF, mp_min_a = 0xFFFFFFFF\<rparr> (List.enumerate 0 items)"

definition frame_mux_pick_best :: "'b zms_frame_slot list \<Rightarrow> u32 \<Rightarrow> nat option" where
  "frame_mux_pick_best items max_skew_ms =
     (let p = mux_scan items in
      case (mp_v p, mp_a p) of
        (Some v, Some a) \<Rightarrow>
          if mp_min_a p + max_skew_ms < mp_min_v p then Some a
          else if mp_min_v p + max_skew_ms < mp_min_a p then Some v
          else if mp_min_a p \<le> mp_min_v p then Some a else Some v
      | (None, Some a) \<Rightarrow> Some a
      | (Some v, None) \<Rightarrow> Some v
      | (None, None) \<Rightarrow> None)"

section \<open>Filling it from the ring\<close>

definition mux_item :: "zms_gop_slot \<Rightarrow> 'b \<Rightarrow> 'b zms_frame_slot" where
  "mux_item pub b = \<lparr>sl_pub = pub, sl_buf = Some b, sl_seq = 0\<rparr>"

definition reader_oldest :: "'b zms_gop_queue \<Rightarrow> 'b zms_gop_reader \<Rightarrow> nat" where
  "reader_oldest r rd = (if r_from_beginning rd then beginning_idx r else oldest_idx r)"

text \<open>
  A reader that fell behind is moved to the newest GOP start, and from there to the first
  sync frame.
\<close>

definition mux_resync :: "es_ext \<Rightarrow> registry \<Rightarrow> 'b zms_gop_queue \<Rightarrow> 'b zms_gop_reader \<Rightarrow> nat" where
  "mux_resync E g r rd =
     (let oldest = reader_oldest r rd in
      if r_read_idx rd < oldest then
        (let snap = (if q_gop_count r > 0
                     then (let gop = q_gop_start r ! (q_gop_count r - 1) in
                           if gop \<ge> oldest then gop else oldest)
                     else oldest)
         in case find (\<lambda>i. ring_slot_video_sync E g (slot_at r i)) [snap..<q_write_idx r] of
              Some i \<Rightarrow> i
            | None \<Rightarrow> snap)
      else r_read_idx rd)"

definition frame_mux_fill_one_locked ::
  "es_ext \<Rightarrow> registry \<Rightarrow> 'b zms_gop_queue \<Rightarrow> 'b zms_gop_reader
     \<Rightarrow> int \<times> 'b zms_gop_reader \<times> 'b ztk_call list" where
  "frame_mux_fill_one_locked E g r rd =
     (let idx = mux_resync E g r rd in
      if idx \<ge> q_write_idx r then (0, rd\<lparr>r_read_idx := idx\<rparr>, [])
      else
        let slot = slot_at r idx; rd1 = rd\<lparr>r_read_idx := idx + 1\<rparr> in
        case sl_buf slot of
          None \<Rightarrow> (2, rd1, [])
        | Some b \<Rightarrow>
            if s_len (sl_pub slot) = 0 then (2, rd1, [])
            else (1, rd1\<lparr>r_mux := r_mux rd1 @ [mux_item (sl_pub slot) b]\<rparr>, [BufRef b]))"

definition frame_mux_fill_one ::
  "es_ext \<Rightarrow> registry \<Rightarrow> ('b \<Rightarrow> bool) \<Rightarrow> 'b zms_gop_queue \<Rightarrow> 'b zms_gop_reader
     \<Rightarrow> int \<times> 'b zms_gop_reader \<times> 'b ztk_call list" where
  "frame_mux_fill_one E g try_ref r rd =
     (if r_read_idx rd \<ge> q_write_seq r then (0, rd, [])
      else if r_from_beginning rd \<or> r_read_idx rd < q_oldest_seq r
        then frame_mux_fill_one_locked E g r rd
      else let idx = r_read_idx rd in
        case reader_try_take_slot try_ref r idx of
          (Taken pub b, cs) \<Rightarrow>
            if idx < q_oldest_seq r then
              (case frame_mux_fill_one_locked E g r rd of
                 (n, rd', cs') \<Rightarrow> (n, rd', cs @ [BufUnref b] @ cs'))
            else (1, rd\<lparr>r_read_idx := idx + 1,
                       r_mux := r_mux rd @ [mux_item pub b]\<rparr>, cs)
        | (Empty, cs) \<Rightarrow> (2, rd\<lparr>r_read_idx := idx + 1\<rparr>, cs)
        | (Busy, cs) \<Rightarrow> frame_mux_fill_one_locked E g r rd)"

lemma find_upt_ge: "find P [a..<b] = Some i \<Longrightarrow> a \<le> i \<and> i < b \<and> P i"
  by (auto dest: find_Some_in)

lemma mux_resync_ge: "r_read_idx rd \<le> mux_resync E g r rd"
  by (auto simp: mux_resync_def Let_def split: option.splits dest!: find_upt_ge)

lemma fill_one_locked_progress:
  assumes "frame_mux_fill_one_locked E g r rd = (n, rd', cs)" "n \<noteq> 0"
  shows "r_read_idx rd < r_read_idx rd' \<and> r_read_idx rd' \<le> q_write_idx r \<and> (n = 1 \<or> n = 2)"
  using assms mux_resync_ge[of rd E g r]
  by (auto simp: frame_mux_fill_one_locked_def Let_def split: if_splits option.splits)

lemma fill_one_progress:
  assumes "frame_mux_fill_one E g tr r rd = (n, rd', cs)" "n \<noteq> 0"
  shows "r_read_idx rd < r_read_idx rd' \<and> r_read_idx rd' \<le> max (q_write_idx r) (q_write_seq r)
    \<and> (n = 1 \<or> n = 2)"
proof (cases "frame_mux_fill_one_locked E g r rd")
  case (fields m rdl csl)
  have loc: "m \<noteq> 0 \<Longrightarrow> r_read_idx rd < r_read_idx rdl \<and> r_read_idx rdl \<le> q_write_idx r \<and> (m = 1 \<or> m = 2)"
    using fill_one_locked_progress[OF fields] .
  show ?thesis
    using assms loc fields
    by (auto simp: frame_mux_fill_one_def Let_def split: if_splits take.splits prod.splits)
qed

text \<open>\<open>frame_mux_fill\<close>; the loop ends because every round moves the read index forward.\<close>

function frame_mux_fill ::
  "es_ext \<Rightarrow> registry \<Rightarrow> ('b \<Rightarrow> bool) \<Rightarrow> 'b zms_gop_queue \<Rightarrow> 'b zms_gop_reader
     \<Rightarrow> int \<times> 'b zms_gop_reader \<times> 'b ztk_call list" where
  "frame_mux_fill E g try_ref r rd =
     (if length (r_mux rd) < ZMS_FRAME_MUX_CAP then
        (case frame_mux_fill_one E g try_ref r rd of
           (n, rd', cs) \<Rightarrow>
             if n = 1 \<or> n = 2 then
               (case frame_mux_fill E g try_ref r rd' of (k, rd'', cs') \<Rightarrow> (k, rd'', cs @ cs'))
             else (if length (r_mux rd') > 0 then int (length (r_mux rd')) else n, rd', cs))
      else (int (length (r_mux rd)), rd, []))"
  by pat_completeness auto
termination
  by (relation "measure (\<lambda>(E, g, tr, r, rd). max (q_write_idx r) (q_write_seq r) - r_read_idx rd)")
    (auto dest!: fill_one_progress[OF sym])

declare frame_mux_fill.simps [simp del]

section \<open>Reading in order\<close>

datatype 'b read_step =
    ReadDone int "'b zms_gop_reader" "zms_gop_slot option" "'b ztk_call list"
  | ReadAgain "'b zms_gop_reader" "'b ztk_call list"

definition take_frame ::
  "'b zms_gop_reader \<Rightarrow> nat \<Rightarrow> zms_gop_slot \<Rightarrow> 'b \<Rightarrow> 'b ztk_call list \<Rightarrow> 'b read_step" where
  "take_frame rd idx pub b cs =
     (case reader_unref_held (rd\<lparr>r_read_idx := idx + 1\<rparr>) of
        (rd', cs') \<Rightarrow> ReadDone 1 (rd'\<lparr>r_held_ref := Some b\<rparr>) (Some pub) (cs @ cs'))"

definition reader_read_locked ::
  "'b zms_gop_queue \<Rightarrow> 'b zms_gop_reader \<Rightarrow> 'b ztk_call list \<Rightarrow> 'b read_step" where
  "reader_read_locked r rd cs =
     (let oldest = reader_oldest r rd;
          idx = (if r_read_idx rd < oldest then oldest else r_read_idx rd)
      in if idx \<ge> q_write_idx r then ReadDone 0 (rd\<lparr>r_read_idx := idx\<rparr>) None cs
         else let slot = slot_at r idx in
           case sl_buf slot of
             None \<Rightarrow> ReadAgain (rd\<lparr>r_read_idx := idx + 1\<rparr>) cs
           | Some b \<Rightarrow>
               if s_len (sl_pub slot) = 0 then ReadAgain (rd\<lparr>r_read_idx := idx + 1\<rparr>) cs
               else take_frame rd idx (sl_pub slot) b (cs @ [BufRef b]))"

definition reader_read_step ::
  "('b \<Rightarrow> bool) \<Rightarrow> 'b zms_gop_queue \<Rightarrow> 'b zms_gop_reader \<Rightarrow> 'b read_step" where
  "reader_read_step try_ref r rd =
     (if r_read_idx rd \<ge> q_write_seq r then ReadDone 0 rd None []
      else if \<not> r_from_beginning rd \<and> r_read_idx rd \<ge> q_oldest_seq r then
        (let idx = r_read_idx rd in
         case reader_try_take_slot try_ref r idx of
           (Taken pub b, cs) \<Rightarrow>
             if idx < q_oldest_seq r then reader_read_locked r rd (cs @ [BufUnref b])
             else take_frame rd idx pub b cs
         | (Empty, cs) \<Rightarrow> ReadAgain (rd\<lparr>r_read_idx := idx + 1\<rparr>) cs
         | (Busy, cs) \<Rightarrow> reader_read_locked r rd cs)
      else reader_read_locked r rd [])"

lemma reader_read_again:
  "reader_read_step tr r rd = ReadAgain rd' cs \<Longrightarrow>
    r_read_idx rd < r_read_idx rd' \<and> r_read_idx rd' \<le> max (q_write_idx r) (q_write_seq r)"
  by (auto simp: reader_read_step_def reader_read_locked_def take_frame_def Let_def
      split: if_splits option.splits take.splits prod.splits)

function zms_gop_reader_read ::
  "('b \<Rightarrow> bool) \<Rightarrow> 'b zms_gop_queue \<Rightarrow> 'b zms_gop_reader
     \<Rightarrow> int \<times> 'b zms_gop_reader \<times> zms_gop_slot option \<times> 'b ztk_call list" where
  "zms_gop_reader_read try_ref r rd =
     (case reader_read_step try_ref r rd of
        ReadDone n rd' out cs \<Rightarrow> (n, rd', out, cs)
      | ReadAgain rd' cs \<Rightarrow>
          (case zms_gop_reader_read try_ref r rd' of (n, rd'', out, cs') \<Rightarrow> (n, rd'', out, cs @ cs')))"
  by pat_completeness auto
termination
  by (relation "measure (\<lambda>(tr, r, rd). max (q_write_idx r) (q_write_seq r) - r_read_idx rd)")
    (auto dest!: reader_read_again)

declare zms_gop_reader_read.simps [simp del]

section \<open>Reading interleaved\<close>

definition mux_default_skew :: "u32 \<Rightarrow> u32" where
  "mux_default_skew ms = (if ms = 0 then ZMS_GOP_QUEUE_MUX_MAX_SKEW_MS else ms)"

definition mux_refill ::
  "es_ext \<Rightarrow> registry \<Rightarrow> ('b \<Rightarrow> bool) \<Rightarrow> 'b zms_gop_queue \<Rightarrow> 'b zms_gop_reader
     \<Rightarrow> int \<times> 'b zms_gop_reader \<times> 'b ztk_call list" where
  "mux_refill E g try_ref r rd =
     (if r_mux rd = [] then frame_mux_fill E g try_ref r rd else (1, rd, []))"

definition zms_gop_reader_peek_muxed ::
  "es_ext \<Rightarrow> registry \<Rightarrow> ('b \<Rightarrow> bool) \<Rightarrow> 'b zms_gop_queue \<Rightarrow> 'b zms_gop_reader \<Rightarrow> u32
     \<Rightarrow> int \<times> 'b zms_gop_reader \<times> zms_gop_slot option \<times> 'b ztk_call list" where
  "zms_gop_reader_peek_muxed E g try_ref r rd skew =
     (case mux_refill E g try_ref r rd of
        (n, rd1, cs) \<Rightarrow>
          if n \<le> 0 then (n, rd1, None, cs)
          else (case frame_mux_pick_best (r_mux rd1) (mux_default_skew skew) of
                  None \<Rightarrow> (case frame_mux_clear rd1 of (rd2, cs') \<Rightarrow> (0, rd2, None, cs @ cs'))
                | Some i \<Rightarrow> (1, rd1, Some (sl_pub (r_mux rd1 ! i)), cs)))"

definition zms_gop_reader_read_muxed ::
  "es_ext \<Rightarrow> registry \<Rightarrow> ('b \<Rightarrow> bool) \<Rightarrow> 'b zms_gop_queue \<Rightarrow> 'b zms_gop_reader \<Rightarrow> u32
     \<Rightarrow> int \<times> 'b zms_gop_reader \<times> zms_gop_slot option \<times> 'b ztk_call list" where
  "zms_gop_reader_read_muxed E g try_ref r rd skew =
     (case mux_refill E g try_ref r rd of
        (n, rd1, cs) \<Rightarrow>
          if n \<le> 0 then (n, rd1, None, cs)
          else (case frame_mux_pick_best (r_mux rd1) (mux_default_skew skew) of
                  None \<Rightarrow> (case frame_mux_clear rd1 of (rd2, cs') \<Rightarrow> (0, rd2, None, cs @ cs'))
                | Some i \<Rightarrow>
                    let it = r_mux rd1 ! i in
                    case reader_unref_held rd1 of
                      (rd2, cs') \<Rightarrow>
                        (1, rd2\<lparr>r_held_ref := sl_buf it,
                                r_mux := take i (r_mux rd2) @ drop (i + 1) (r_mux rd2)\<rparr>,
                         Some (sl_pub it), cs @ cs')))"

section \<open>Attaching, detaching, lag\<close>

text \<open>
  \<open>mem_ok\<close> and \<open>wake_ok\<close> say that the reader and its wake queue could be allocated,
  \<open>grow_ok\<close> that the registry could grow. A reader is named by the number it gets.
\<close>

definition reader_alloc :: "bool \<Rightarrow> bool \<Rightarrow> nat \<Rightarrow> bool \<Rightarrow> 'b zms_gop_reader option" where
  "reader_alloc mem_ok wake_ok read_idx from_beginning =
     (if \<not> mem_ok \<or> \<not> wake_ok then None
      else Some \<lparr>r_read_idx = read_idx, r_from_beginning = from_beginning, r_wake_pending = False,
        r_wake_q = True, r_held_ref = None, r_mux = []\<rparr>)"

definition ring_reader_register ::
  "bool \<Rightarrow> 'b zms_gop_queue \<Rightarrow> nat \<Rightarrow> 'b zms_gop_reader \<Rightarrow> 'b zms_gop_queue option" where
  "ring_reader_register grow_ok r i rd =
     (let need = (length (q_readers r) \<ge> q_reader_cap r);
          new_cap = (if q_reader_cap r > 0 then q_reader_cap r * 2 else ZMS_GOP_QUEUE_READERS_INIT_CAP)
      in if need \<and> \<not> grow_ok then None
         else let r1 = (if need then r\<lparr>q_reader_cap := new_cap\<rparr> else r) in
           Some (r1\<lparr>q_readers := q_readers r1 @ [(i, rd)]\<rparr>))"

fun drop_reader :: "nat \<Rightarrow> (nat \<times> 'b) list \<Rightarrow> (nat \<times> 'b) list" where
  "drop_reader i [] = []"
| "drop_reader i ((j, rd) # rds) = (if i = j then rds else (j, rd) # drop_reader i rds)"

definition ring_reader_unregister :: "'b zms_gop_queue \<Rightarrow> nat \<Rightarrow> 'b zms_gop_queue" where
  "ring_reader_unregister r i = r\<lparr>q_readers := drop_reader i (q_readers r)\<rparr>"

definition zms_gop_reader_attach ::
  "bool \<Rightarrow> bool \<Rightarrow> bool \<Rightarrow> 'b zms_gop_queue \<Rightarrow> nat \<Rightarrow> ('b zms_gop_queue \<times> 'b zms_gop_reader) option" where
  "zms_gop_reader_attach mem_ok wake_ok grow_ok r i =
     (case reader_alloc mem_ok wake_ok (oldest_idx r) False of
        None \<Rightarrow> None
      | Some rd \<Rightarrow> map_option (\<lambda>r'. (r', rd)) (ring_reader_register grow_ok r i rd))"

definition zms_gop_reader_attach_beginning ::
  "bool \<Rightarrow> bool \<Rightarrow> bool \<Rightarrow> 'b zms_gop_queue \<Rightarrow> nat \<Rightarrow> ('b zms_gop_queue \<times> 'b zms_gop_reader) option" where
  "zms_gop_reader_attach_beginning mem_ok wake_ok grow_ok r i =
     (case reader_alloc mem_ok wake_ok (beginning_idx r) True of
        None \<Rightarrow> None
      | Some rd \<Rightarrow> map_option (\<lambda>r'. (r', rd)) (ring_reader_register grow_ok r i rd))"

definition zms_gop_reader_count :: "'b zms_gop_queue \<Rightarrow> nat" where
  "zms_gop_reader_count r = length (q_readers r)"

definition zms_gop_reader_detach ::
  "'b zms_gop_queue \<Rightarrow> nat \<Rightarrow> 'b zms_gop_reader \<Rightarrow> 'b zms_gop_queue \<times> 'b ztk_call list" where
  "zms_gop_reader_detach r i rd =
     (case frame_mux_clear rd of (rd1, cs) \<Rightarrow>
        (case reader_unref_held rd1 of (rd2, cs') \<Rightarrow> (ring_reader_unregister r i, cs @ cs')))"

definition zms_gop_reader_slot_at_read ::
  "'b zms_gop_queue \<Rightarrow> 'b zms_gop_reader \<Rightarrow> zms_gop_slot option" where
  "zms_gop_reader_slot_at_read r rd =
     (if r_read_idx rd \<ge> q_write_seq r \<or> r_read_idx rd \<ge> q_write_idx r then None
      else let s = sl_pub (slot_at r (r_read_idx rd)) in
        if s_data s \<noteq> None \<and> s_len s > 0 then Some s else None)"

definition zms_gop_reader_at_decode_start ::
  "es_ext \<Rightarrow> registry \<Rightarrow> 'b zms_gop_queue \<Rightarrow> 'b zms_gop_reader \<Rightarrow> bool" where
  "zms_gop_reader_at_decode_start E g r rd =
     (if r_read_idx rd \<ge> q_write_seq r then False
      else if r_read_idx rd < q_write_idx r
        then zms_gop_slot_is_decode_start E g (sl_pub (slot_at r (r_read_idx rd)))
      else False)"

definition zms_gop_reader_lag :: "'b zms_gop_queue \<Rightarrow> 'b zms_gop_reader \<Rightarrow> nat" where
  "zms_gop_reader_lag r rd =
     (if q_write_seq r > r_read_idx rd then q_write_seq r - r_read_idx rd else 0)"

definition zms_gop_queue_max_reader_lag :: "'b zms_gop_queue \<Rightarrow> nat" where
  "zms_gop_queue_max_reader_lag r =
     foldl (\<lambda>m (i, rd). let lag = (if q_write_seq r > r_read_idx rd then q_write_seq r - r_read_idx rd
                                  else 0) in if lag > m then lag else m) 0 (q_readers r)"

text \<open>Draining the wake queue; \<open>pending\<close> is the number of entries in it.\<close>

definition zms_gop_reader_drain_wake :: "'b zms_gop_reader \<Rightarrow> nat \<Rightarrow> bool \<times> 'b zms_gop_reader" where
  "zms_gop_reader_drain_wake rd pending =
     (r_wake_pending rd \<or> (r_wake_q rd \<and> pending > 0), rd\<lparr>r_wake_pending := False\<rparr>)"

end
