(* ===== verification/Gop_Reader.thy ===== *)
theory Gop_Reader
  imports Gop_Read
begin

text \<open>
  What the readers of the GOP ring get: in order, without gaps and without duplicates, the
  frames of the log the ring refines, as long as the published lower bound of the window is
  recent; the interleaving buffer gives its frames once each, earliest first.
\<close>

unbundle bit_operations_syntax

section \<open>One read\<close>

definition recent :: "'b zms_gop_queue \<Rightarrow> bool" where
  "recent r \<longleftrightarrow> q_write_idx r - q_oldest_seq r \<le> ZMS_GOP_QUEUE_CAPACITY"

definition payloads :: "'b glog \<Rightarrow> bool" where
  "payloads L \<longleftrightarrow> (\<forall>e \<in> set L. s_len (snd e) \<noteq> 0 \<and> s_data (snd e) \<noteq> None)"

lemma log_commit_payloads: "payloads L \<Longrightarrow> payloads (log_commit g r f b d L)"
  by (auto simp: payloads_def log_commit_def pub_of_def split: prod.splits)

lemma gop_run_payloads: "gop_run g r L \<Longrightarrow> payloads L"
proof (induction rule: gop_run.induct)
  case (run_write r L f refcnt fresh cap e r')
  then show ?case by (auto simp: log_write_def log_commit_payloads split: option.splits)
qed (simp_all add: log_commit_payloads, simp_all add: payloads_def)

lemma log_slot:
  assumes "ring_log r L" "payloads L" "i < q_write_idx r" "q_write_idx r - i \<le> ZMS_GOP_QUEUE_CAPACITY"
  shows "sl_buf (slot_at r i) = Some (fst (L ! i))" "sl_pub (slot_at r i) = snd (L ! i)"
    "s_len (snd (L ! i)) \<noteq> 0" "s_data (snd (L ! i)) \<noteq> None"
  using assms by (auto simp: ring_log_def payloads_def)

definition delivered ::
  "'b glog \<Rightarrow> 'b zms_gop_reader \<Rightarrow> nat
     \<Rightarrow> int \<times> 'b zms_gop_reader \<times> zms_gop_slot option \<times> 'b ztk_call list" where
  "delivered L rd idx = (1, rd\<lparr>r_read_idx := idx + 1, r_held_ref := Some (fst (L ! idx))\<rparr>,
     Some (snd (L ! idx)), BufRef (fst (L ! idx)) # unref_opt (r_held_ref rd))"

lemma locked_delivers:
  assumes log: "ring_log r L" "payloads L"
    and idx: "idx = (if r_read_idx rd < reader_oldest r rd then reader_oldest r rd else r_read_idx rd)"
    and win: "idx < q_write_idx r" "q_write_idx r - idx \<le> ZMS_GOP_QUEUE_CAPACITY"
  shows "case_read_step (\<lambda>n rd' out cs. (n, rd', out, cs)) h (reader_read_locked r rd [])
    = delivered L rd idx"
  using log_slot[OF log win] win(1)
  by (simp add: reader_read_locked_def Let_def idx[symmetric] take_frame_def reader_unref_held_def
      delivered_def)

lemma read_locked_case:
  assumes "ring_log r L" "payloads L" "r_read_idx rd < q_write_seq r"
    "idx = (if r_read_idx rd < reader_oldest r rd then reader_oldest r rd else r_read_idx rd)"
    "idx < q_write_idx r" "q_write_idx r - idx \<le> ZMS_GOP_QUEUE_CAPACITY"
    "reader_read_step tr r rd = reader_read_locked r rd []"
  shows "zms_gop_reader_read tr r rd = delivered L rd idx"
  using locked_delivers[OF assms(1,2,4,5,6)] assms(7)
  by (subst zms_gop_reader_read.simps) simp

lemma take_busy_no_calls: "reader_try_take_slot tr r i = (Busy, cs) \<Longrightarrow> cs = []"
  by (auto simp: reader_try_take_slot_def Let_def split: if_splits option.splits)

lemma take_in_window:
  assumes "ring_log r L" "payloads L" "i < q_write_idx r" "q_write_idx r - i \<le> ZMS_GOP_QUEUE_CAPACITY"
  shows "reader_try_take_slot tr r i = (Busy, []) \<or>
    reader_try_take_slot tr r i = (Taken (snd (L ! i)) (fst (L ! i)), [BufRef (fst (L ! i))])"
  using log_slot[OF assms] by (simp add: reader_try_take_slot_def Let_def)

lemma oldest_bound:
  assumes "gop_inv r"
  shows "q_write_idx r - reader_oldest r rd \<le> ZMS_GOP_QUEUE_CAPACITY"
    and "reader_oldest r rd \<le> q_write_idx r"
  using oldest_in_window[OF assms] assms
  by (auto simp: reader_oldest_def beginning_idx_def gop_inv_def gop_inv_at_def)

lemma caught_up_read:
  assumes inv: "gop_inv r" and log: "ring_log r L" "payloads L"
    and up: "reader_oldest r rd \<le> r_read_idx rd" and lt: "r_read_idx rd < q_write_idx r"
  shows "zms_gop_reader_read tr r rd = delivered L rd (r_read_idx rd)"
proof -
  have ws: "q_write_seq r = q_write_idx r" using inv by (simp add: gop_inv_def)
  have win: "q_write_idx r - r_read_idx rd \<le> ZMS_GOP_QUEUE_CAPACITY"
    using up oldest_bound(1)[OF inv, of rd] by simp
  have idx: "r_read_idx rd = (if r_read_idx rd < reader_oldest r rd then reader_oldest r rd
      else r_read_idx rd)" using up by simp
  have fast: "reader_read_step tr r rd = reader_read_locked r rd []
    \<or> reader_read_step tr r rd = take_frame rd (r_read_idx rd) (snd (L ! r_read_idx rd))
        (fst (L ! r_read_idx rd)) [BufRef (fst (L ! r_read_idx rd))]"
    using take_in_window[OF log lt win, of tr] lt ws
    by (auto simp: reader_read_step_def Let_def)
  then show ?thesis
  proof
    assume "reader_read_step tr r rd = reader_read_locked r rd []"
    from read_locked_case[OF log _ idx lt win this] lt ws show ?thesis by simp
  next
    assume "reader_read_step tr r rd = take_frame rd (r_read_idx rd) (snd (L ! r_read_idx rd))
        (fst (L ! r_read_idx rd)) [BufRef (fst (L ! r_read_idx rd))]"
    then show ?thesis
      by (subst zms_gop_reader_read.simps)
        (simp add: take_frame_def reader_unref_held_def delivered_def)
  qed
qed

section \<open>A sequence of reads\<close>

fun read_n :: "('b \<Rightarrow> bool) \<Rightarrow> 'b zms_gop_queue \<Rightarrow> 'b zms_gop_reader \<Rightarrow> nat
    \<Rightarrow> zms_gop_slot list \<times> 'b zms_gop_reader" where
  "read_n tr r rd 0 = ([], rd)"
| "read_n tr r rd (Suc n) =
     (case zms_gop_reader_read tr r rd of
        (k, rd', Some s, cs) \<Rightarrow> (case read_n tr r rd' n of (ss, rd'') \<Rightarrow> (s # ss, rd''))
      | (k, rd', None, cs) \<Rightarrow> ([], rd'))"

lemma read_n_log:
  assumes inv: "gop_inv r" and log: "ring_log r L" "payloads L"
  shows "reader_oldest r rd \<le> r_read_idx rd \<Longrightarrow> r_read_idx rd + n \<le> q_write_idx r \<Longrightarrow>
    fst (read_n tr r rd n) = map snd (take n (drop (r_read_idx rd) L))
    \<and> r_read_idx (snd (read_n tr r rd n)) = r_read_idx rd + n"
proof (induction n arbitrary: rd)
  case (Suc n)
  let ?i = "r_read_idx rd"
  let ?rd = "rd\<lparr>r_read_idx := ?i + 1, r_held_ref := Some (fst (L ! ?i))\<rparr>"
  have one: "zms_gop_reader_read tr r rd = delivered L rd ?i"
    using caught_up_read[OF inv log Suc.prems(1)] Suc.prems(2) by simp
  have old: "reader_oldest r ?rd \<le> r_read_idx ?rd"
    using Suc.prems(1) by (simp add: reader_oldest_def)
  have "?i < length L" using log(1) Suc.prems(2) by (simp add: ring_log_def)
  then have "drop ?i L = L ! ?i # drop (Suc ?i) L" by (rule Cons_nth_drop_Suc[symmetric])
  with Suc.IH[OF old] Suc.prems(2) one show ?case
    by (simp add: delivered_def case_prod_beta)
qed simp

text \<open>
  C16: A reader gets the stream as it was published: a reader that is inside the window and
  reads n times gets the next n frames of the log, in order, none skipped, none twice,
  whether it observes a slot without the lock or, when taking a reference fails, under it.
\<close>

theorem reader_follows_log:
  assumes "registry_ok g" "gop_run g r L"
    "reader_oldest r rd \<le> r_read_idx rd" "r_read_idx rd + n \<le> q_write_idx r"
  shows "fst (read_n tr r rd n) = map snd (take n (drop (r_read_idx rd) L))
    \<and> r_read_idx (snd (read_n tr r rd n)) = r_read_idx rd + n"
  using read_n_log[OF gop_reach_inv[OF gop_run_step[OF assms(2)]] gop_run_log[OF assms(1,2)]
      gop_run_payloads[OF assms(2)] assms(3,4)] .

lemma reader_follows_log_witness:
  "fst (read_n (\<lambda>b. b = 7) ex_q1 \<lparr>r_read_idx = 0, r_from_beginning = False, r_wake_pending = False,
     r_wake_q = True, r_held_ref = None, r_mux = []\<rparr> 1) = [pub_of ex_key [1]]"
proof -
  let ?rd = "\<lparr>r_read_idx = 0, r_from_beginning = False, r_wake_pending = False,
     r_wake_q = True, r_held_ref = None, r_mux = []\<rparr> :: nat zms_gop_reader"
  have "reader_oldest ex_q1 ?rd \<le> r_read_idx ?rd" "r_read_idx ?rd + 1 \<le> q_write_idx ex_q1"
    by code_simp+
  from reader_follows_log[OF ex_reg_ok ex_run1 this] show ?thesis by simp
qed

text \<open>
  A reader that the writer has overtaken, as the published lower bound tells it, resumes at
  the oldest frame that is still there.
\<close>

lemma overtaken_read:
  assumes inv: "gop_inv r" and log: "ring_log r L" "payloads L"
    and behind: "r_from_beginning rd \<or> r_read_idx rd < q_oldest_seq r"
    and old: "r_read_idx rd \<le> reader_oldest r rd" and lt: "reader_oldest r rd < q_write_idx r"
  shows "zms_gop_reader_read tr r rd = delivered L rd (reader_oldest r rd)"
proof -
  have ws: "q_write_seq r = q_write_idx r" using inv by (simp add: gop_inv_def)
  have idx: "reader_oldest r rd = (if r_read_idx rd < reader_oldest r rd then reader_oldest r rd
      else r_read_idx rd)" using old by simp
  have "reader_read_step tr r rd = reader_read_locked r rd []"
    using behind old lt ws by (auto simp: reader_read_step_def)
  from read_locked_case[OF log _ idx lt oldest_bound(1)[OF inv] this] old lt ws show ?thesis by simp
qed

text \<open>
  A reader never gets a frame twice and never steps back, however far behind it is: a
  read either delivers one frame and moves the read index behind the index it stood at, or
  delivers nothing and leaves what the reader holds alone.
\<close>

theorem reader_moves_forward:
  "case zms_gop_reader_read tr r rd of (n, rd', out, cs) \<Rightarrow>
     r_read_idx rd \<le> r_read_idx rd' \<and> r_mux rd' = r_mux rd \<and>
     (if n = 1 then out \<noteq> None \<and> r_held_ref rd' \<noteq> None \<and> r_read_idx rd < r_read_idx rd'
      else n = 0 \<and> out = None \<and> r_held_ref rd' = r_held_ref rd)"
proof (induction tr r rd rule: zms_gop_reader_read.induct)
  case (1 tr r rd)
  show ?case
  proof (cases "reader_read_step tr r rd")
    case (ReadDone n rd' out cs)
    then show ?thesis
      by (subst zms_gop_reader_read.simps)
        (auto simp: reader_read_step_def reader_read_locked_def take_frame_def Let_def
          reader_unref_held_def split: if_splits option.splits take.splits prod.splits)
  next
    case (ReadAgain rd1 cs1)
    have "r_held_ref rd1 = r_held_ref rd" "r_mux rd1 = r_mux rd" "r_read_idx rd < r_read_idx rd1"
      using ReadAgain by (auto simp: reader_read_step_def reader_read_locked_def take_frame_def Let_def
          reader_unref_held_def split: if_splits option.splits take.splits prod.splits)
    with 1[OF ReadAgain] show ?thesis
      by (subst zms_gop_reader_read.simps) (auto simp: ReadAgain case_prod_beta split: if_splits)
  qed
qed

section \<open>A stale lower bound\<close>

text \<open>Between operations every sequence counter is even.\<close>

definition even_seqs :: "'b zms_gop_queue \<Rightarrow> bool" where
  "even_seqs r \<longleftrightarrow> (\<forall>sl \<in> set (q_slots r). sl_seq sl AND 1 = 0)"

lemma even_plus2: "((x :: u32) + 2) AND 1 = x AND 1"
  by (simp add: and_one_eq mod_2_eq_odd)

lemma slot_publish_even: "even_seqs r \<Longrightarrow> length (q_slots r) = ZMS_GOP_QUEUE_CAPACITY
    \<Longrightarrow> even_seqs (slot_publish r i b d f dts pts)"
proof -
  assume ev: "even_seqs r" and len: "length (q_slots r) = ZMS_GOP_QUEUE_CAPACITY"
  have "i mod ZMS_GOP_QUEUE_CAPACITY < length (q_slots r)"
    using len by (simp add: ZMS_GOP_QUEUE_CAPACITY_def)
  then have "sl_seq (slot_at r i) AND 1 = 0" using ev by (simp add: even_seqs_def slot_at_def)
  then show ?thesis using ev set_update_subset_insert[of "q_slots r" "i mod ZMS_GOP_QUEUE_CAPACITY"]
    by (fastforce simp: even_seqs_def slot_publish_def set_slot_def log_calls_def Let_def even_plus2)
qed

lemma ring_commit_even:
  assumes inv: "gop_inv r" and ev: "even_seqs r" and res: "ring_commit_frame g r f b d = Some (e, r')"
  shows "even_seqs r'"
proof (cases "d \<noteq> [] \<and> stores g r f")
  case False
  then show ?thesis using res ev
    by (auto simp: ring_commit_frame_eq even_seqs_def log_calls_def split: if_splits)
next
  case True
  obtain r2 where
    "ring_commit_frame g r f b d = Some (ZTK_OK, signal_commit (commit_core g r2 f b d))"
    and same: "same_data (note_video r f) r2"
    using commit_stored[OF inv, where d = d and g = g and f = f and b = b] True by metis
  then have r': "r' = signal_commit (commit_core g r2 f b d)" using res by simp
  obtain dts pts where tl: "zms_gop_queue_timeline_from_frame f = (dts, pts)" by fastforce
  let ?re = "evict_while_full r2"
  have "q_slots ?re = q_slots r" "length (q_slots ?re) = ZMS_GOP_QUEUE_CAPACITY"
    using same popped_fields[OF evict_while_full_popped[of r2]] inv
    by (simp_all add: same_data_def gop_inv_def gop_inv_at_def)
  then have "even_seqs (slot_publish ?re (q_write_idx ?re) b d f dts pts)"
    using ev by (intro slot_publish_even) (simp_all add: even_seqs_def)
  then show ?thesis
    using popped_fields[OF trim_after_store_popped[of "store_frame g ?re f b d dts pts" dts]]
    by (simp add: r' even_seqs_def commit_core_def tl)
qed

lemma fill_buf_even: "even_seqs r \<Longrightarrow> even_seqs (fill_buf r b d)"
  by (auto simp: even_seqs_def fill_buf_def)

lemma gop_step_even: "gop_step g r r' \<Longrightarrow> gop_inv r \<Longrightarrow> even_seqs r \<Longrightarrow> even_seqs r'"
proof (induction rule: gop_step.induct)
  case (step_write cap refcnt fresh r f e r')
  show ?case
  proof (cases "r' = r")
    case False
    with step_write.hyps obtain b where
      "ring_commit_frame g (fill_buf r b (f_bytes (zms_frame_refresh_key_from_es g f)))
         (zms_frame_refresh_key_from_es g f) b (f_bytes (zms_frame_refresh_key_from_es g f)) = Some (e, r')"
      by (auto simp: zms_gop_queue_write_def Let_def split: if_splits option.splits)
    from ring_commit_even[OF fill_buf_inv fill_buf_even this] step_write.prems show ?thesis by blast
  qed (use step_write.prems in simp)
next
  case (step_write_buf r b d f e r')
  show ?case
    using ring_commit_even[OF step_write_buf.prems step_write_buf.hyps[unfolded zms_gop_queue_write_buf_def]] .
next
  case (step_clear r)
  then show ?case by (auto simp: even_seqs_def clear_fields free_slot_def even_plus2)
next
  case (step_video r mem blob)
  then show ?case using set_config_fields(1)[of mem r blob] by (auto simp: even_seqs_def)
next
  case (step_audio r mem blob)
  then show ?case using set_config_fields(2)[of mem r blob] by (auto simp: even_seqs_def)
qed (simp_all add: even_seqs_def zms_gop_queue_set_target_gops_def zms_gop_queue_set_cache_ms_def)

lemma gop_reach_even: "gop_reach g r \<Longrightarrow> sl_seq (slot_at r i) AND 1 = 0"
proof -
  assume reach: "gop_reach g r"
  then have "even_seqs r"
  proof (induction rule: gop_reach.induct)
    case (reach_create d mem r)
    then show ?case
      by (auto simp: zms_gop_queue_create_def even_seqs_def slot_zero_def split: if_splits)
  next
    case (reach_step r r')
    then show ?case using gop_step_even gop_reach_inv by blast
  qed
  moreover have "i mod ZMS_GOP_QUEUE_CAPACITY < length (q_slots r)"
    using gop_reach_inv[OF reach] by (simp add: gop_inv_def gop_inv_at_def ZMS_GOP_QUEUE_CAPACITY_def)
  ultimately show ?thesis by (simp add: even_seqs_def slot_at_def)
qed

lemma write_bufs_run:
  assumes reg: "registry_ok g"
  shows "gop_run g r L \<Longrightarrow> q_cache_started r \<Longrightarrow> \<forall>(b, d, f) \<in> set ws. d \<noteq> [] \<Longrightarrow>
    write_bufs g r ws = Some r' \<Longrightarrow>
    gop_run g r' (L @ map (\<lambda>(b, d, f). (b, pub_of (zms_frame_refresh_key_from_es g f) d)) ws)"
proof (induction ws arbitrary: r L)
  case (Cons w ws)
  obtain b d f where w: "w = (b, d, f)" by (cases w) auto
  let ?f = "zms_frame_refresh_key_from_es g f"
  from Cons.prems(4) obtain e r1 where r1: "zms_gop_queue_write_buf g r b d f = Some (e, r1)"
      "write_bufs g r1 ws = Some r'"
    by (auto simp: w split: option.splits prod.splits)
  have d: "d \<noteq> []" using Cons.prems(3) by (simp add: w)
  have st: "stores g r ?f" by (rule started_stores[OF reg Cons.prems(2)])
  have run: "gop_run g r1 (L @ [(b, pub_of ?f d)])"
    using run_write_buf[OF Cons.prems(1) r1(1)] d st by (simp add: log_commit_def)
  obtain r2 where r2: "(if opens_gop g r ?f then on_new_gop (note_video r ?f)
      (fst (zms_gop_queue_timeline_from_frame ?f)) else Some (note_video r ?f)) = Some r2"
    and eq: "r1 = signal_commit (commit_core g r2 ?f b d)"
    using trans[OF sym[OF write_buf_started[OF reg Cons.prems(2) d refl, of b f]] r1(1)]
    unfolding map_option_eq_Some prod.inject by blast
  have inv: "gop_inv_at (q_write_idx r) r" "q_oldest_seq r \<le> oldest_idx r"
    using gop_reach_inv[OF gop_run_step[OF Cons.prems(1)]] by (simp_all add: gop_inv_def)
  have "q_cache_started r2"
    using r2 Cons.prems(2) on_new_gop_spec[of "note_video r ?f" "fst (zms_gop_queue_timeline_from_frame ?f)"] inv
    by (auto split: if_splits)
  then have "q_cache_started r1" by (simp add: eq commit_core_fields)
  from Cons.IH[OF run this _ r1(2)] Cons.prems(3) show ?case by (simp add: w)
qed simp

text \<open>
  The published lower bound \<open>oldest_seq\<close> can be more than one turn of the ring behind
  the writer, as in a GOP of more than 1024 frames. A reader that far behind still takes the
  lock-free path: asked for the frame at its read index it delivers, as if nothing were
  missing, the frame published 512 places later.
\<close>

theorem stale_bound_skips:
  assumes "registry_ok g" "gop_run g r L"
    "\<not> r_from_beginning rd" "q_oldest_seq r \<le> r_read_idx rd"
    "r_read_idx rd + 512 < q_write_idx r" "q_write_idx r \<le> r_read_idx rd + 1024"
    "tr (fst (L ! (r_read_idx rd + 512)))"
  shows "zms_gop_reader_read tr r rd = (1, rd\<lparr>r_read_idx := r_read_idx rd + 1,
      r_held_ref := Some (fst (L ! (r_read_idx rd + 512)))\<rparr>, Some (snd (L ! (r_read_idx rd + 512))),
      BufRef (fst (L ! (r_read_idx rd + 512))) # unref_opt (r_held_ref rd))"
proof -
  let ?i = "r_read_idx rd"
  have inv: "gop_inv r" using assms(2) gop_run_step gop_reach_inv by blast
  have ws: "q_write_seq r = q_write_idx r" using inv by (simp add: gop_inv_def)
  note log = gop_run_log[OF assms(1,2)] gop_run_payloads[OF assms(2)]
  have same: "slot_at r ?i = slot_at r (?i + 512)" by (simp add: slot_at_def ZMS_GOP_QUEUE_CAPACITY_def)
  have win: "q_write_idx r - (?i + 512) \<le> ZMS_GOP_QUEUE_CAPACITY"
    using assms(6) by (simp add: ZMS_GOP_QUEUE_CAPACITY_def)
  note sl = log_slot[OF log assms(5) win]
  have "reader_try_take_slot tr r ?i = (Taken (snd (L ! (?i + 512))) (fst (L ! (?i + 512))),
      [BufRef (fst (L ! (?i + 512)))])"
    using sl assms(7) gop_reach_even[OF gop_run_step[OF assms(2)], of "?i + 512"]
    by (simp add: reader_try_take_slot_def Let_def same)
  then have "reader_read_step tr r rd = take_frame rd ?i (snd (L ! (?i + 512))) (fst (L ! (?i + 512)))
      [BufRef (fst (L ! (?i + 512)))]"
    using assms(3-6) ws by (simp add: reader_read_step_def Let_def)
  then show ?thesis
    by (subst zms_gop_reader_read.simps) (simp add: take_frame_def reader_unref_held_def)
qed

definition ex_long :: "(nat \<times> bytes \<times> zms_frame) list" where
  "ex_long = map (\<lambda>i. (i, [of_nat (i div 8)], ex_delta)) [1..<1600]"

lemma ex_delta_no_gop:
  "\<not> zms_gop_queue_new_gop ex_reg (zms_frame_refresh_key_from_es ex_reg ex_delta) kp True"
  by (cases kp; simp add: ex_delta_def ex_key_def ex_reg_def zms_frame_refresh_key_from_es_def
      zms_frame_codec_find_def k_plain_es_def default_is_key_def zms_gop_queue_new_gop_def
      default_ring_new_gop_def zms_frame_init_def)

lemma stale_bound_skips_witness:
  "\<exists>r L. gop_run ex_reg (r :: nat zms_gop_queue) L \<and> q_write_idx r = 1600 \<and>
    fst (snd (snd (zms_gop_reader_read (\<lambda>b. b = 1112) r \<lparr>r_read_idx = 600, r_from_beginning = False,
      r_wake_pending = False, r_wake_q = True, r_held_ref = None, r_mux = []\<rparr>)))
    = Some (pub_of (zms_frame_refresh_key_from_es ex_reg ex_delta) [139])"
proof -
  let ?p = "\<lambda>(b, d, f). (b, pub_of (zms_frame_refresh_key_from_es ex_reg f) d)"
  let ?rd = "\<lparr>r_read_idx = 600, r_from_beginning = False,
      r_wake_pending = False, r_wake_q = True, r_held_ref = None, r_mux = []\<rparr> :: nat zms_gop_reader"
  obtain r where r: "write_bufs ex_reg ex_q1 ex_long = Some r"
    using write_bufs_total[OF gop_reach_inv[OF ex_reach1]] by blast
  let ?L = "[(7, pub_of ex_key [1])] @ map ?p ex_long"
  have ne: "\<forall>(b, d, f) \<in> set ex_long. d \<noteq> []" by (auto simp: ex_long_def)
  have st: "q_cache_started ex_q1" by code_simp
  have run: "gop_run ex_reg r ?L"
    using write_bufs_run[OF ex_reg_ok ex_run1 st ne r] .
  have "in_long_gop 1 ex_q1" by (simp add: in_long_gop_def gop_limits) code_simp
  from long_gop_writes[OF ex_reg_ok this _ r] have "in_long_gop 1600 r"
    using ex_delta_no_gop by (auto simp: ex_long_def)
  then have old: "q_write_idx r = q_oldest_seq r + 1088" by (simp add: in_long_gop_def gop_limits)
  have "length ?L = q_write_idx r" using gop_run_window[OF ex_reg_ok run] by blast
  then have wi: "q_write_idx r = 1600" by (simp add: ex_long_def)
  have at: "?L ! 1112 = (1112, pub_of (zms_frame_refresh_key_from_es ex_reg ex_delta) [139])"
    by (simp add: ex_long_def nth_append)
  have "\<not> r_from_beginning ?rd" "q_oldest_seq r \<le> r_read_idx ?rd" "r_read_idx ?rd + 512 < q_write_idx r"
      "q_write_idx r \<le> r_read_idx ?rd + 1024" "(\<lambda>b. b = 1112) (fst (?L ! (r_read_idx ?rd + 512)))"
    using old wi at by simp_all
  from stale_bound_skips[where tr = "\<lambda>b. b = 1112", OF ex_reg_ok run this] run wi at show ?thesis by fastforce
qed

section \<open>The interleaving buffer\<close>

definition is_audio :: "'b zms_frame_slot \<Rightarrow> bool" where
  "is_audio sl \<longleftrightarrow> s_track (sl_pub sl) = ZMS_TRACK_AUDIO"

definition item_dts :: "'b zms_frame_slot \<Rightarrow> u32" where
  "item_dts sl = s_dts_ms (sl_pub sl)"

text \<open>What one running minimum means after the items seen so far.\<close>

definition min_ok :: "('b zms_frame_slot \<Rightarrow> bool) \<Rightarrow> 'b zms_frame_slot list \<Rightarrow> nat option \<Rightarrow> u32 \<Rightarrow> bool" where
  "min_ok P xs k m \<longleftrightarrow> (\<forall>i < length xs. P (xs ! i) \<longrightarrow> m \<le> item_dts (xs ! i)) \<and>
     (case k of None \<Rightarrow> m = 0xFFFFFFFF
      | Some i \<Rightarrow> i < length xs \<and> P (xs ! i) \<and> item_dts (xs ! i) = m \<and> m < 0xFFFFFFFF)"

lemma u32_top: "(m :: u32) \<le> 0xFFFFFFFF"
proof -
  have "unat m < 2 ^ 32" using unsigned_less[of m, where ?'a = nat] by simp
  then show ?thesis by (simp add: word_le_nat_alt)
qed

lemma min_ok_keep: "min_ok P xs k m \<Longrightarrow> \<not> P x \<or> m \<le> item_dts x \<Longrightarrow> min_ok P (xs @ [x]) k m"
  by (auto simp: min_ok_def nth_append less_Suc_eq split: option.splits)

lemma min_ok_take:
  assumes "min_ok P xs k m" "P x" "item_dts x < m"
  shows "min_ok P (xs @ [x]) (Some (length xs)) (item_dts x)"
proof -
  have "m \<le> 0xFFFFFFFF" by (rule u32_top)
  then have "item_dts x < 0xFFFFFFFF" using assms(3) by (rule less_le_trans[rotated])
  with assms show ?thesis by (auto simp: min_ok_def nth_append less_Suc_eq)
qed

lemma mux_scan_ok:
  "min_ok is_audio xs (mp_a (mux_scan xs)) (mp_min_a (mux_scan xs)) \<and>
   min_ok (\<lambda>x. \<not> is_audio x) xs (mp_v (mux_scan xs)) (mp_min_v (mux_scan xs))"
proof (induction xs rule: rev_induct)
  case Nil
  then show ?case by (simp add: mux_scan_def min_ok_def)
next
  case (snoc x xs)
  let ?q = "mux_scan xs"
  have step: "mux_scan (xs @ [x]) =
    (if is_audio x
     then if item_dts x < mp_min_a ?q then ?q\<lparr>mp_min_a := item_dts x, mp_a := Some (length xs)\<rparr> else ?q
     else if item_dts x < mp_min_v ?q then ?q\<lparr>mp_min_v := item_dts x, mp_v := Some (length xs)\<rparr> else ?q)"
    by (simp add: mux_scan_def enumerate_append_eq mux_pick_step_def is_audio_def item_dts_def)
  have a: "min_ok is_audio xs (mp_a ?q) (mp_min_a ?q)"
    and v: "min_ok (\<lambda>x. \<not> is_audio x) xs (mp_v ?q) (mp_min_v ?q)" using snoc by auto
  show ?case
    by (cases "is_audio x"; simp only: step if_True if_False not_True_eq_False not_False_eq_True)
      (auto intro: min_ok_keep[OF a] min_ok_keep[OF v] min_ok_take[OF a] min_ok_take[OF v] simp: not_less)
qed

lemma pick_least:
  assumes pick: "frame_mux_pick_best xs skew = Some i"
    and nowrap: "\<forall>x \<in> set xs. unat (item_dts x) + unat skew < 2 ^ 32"
  shows "i < length xs \<and> (\<forall>j < length xs. item_dts (xs ! i) \<le> item_dts (xs ! j))"
proof -
  define p where "p = mux_scan xs"
  have ok: "min_ok is_audio xs (mp_a p) (mp_min_a p)" "min_ok (\<lambda>x. \<not> is_audio x) xs (mp_v p) (mp_min_v p)"
    using mux_scan_ok[of xs] by (simp_all add: p_def)
  have add: "mp_min_a p + skew < mp_min_v p \<longrightarrow> mp_min_a p \<le> mp_min_v p"
    if "mp_a p = Some a" for a
  proof -
    have "unat (mp_min_a p) + unat skew < 2 ^ 32"
      using ok(1) that bspec[OF nowrap nth_mem[of a xs]] by (auto simp: min_ok_def)
    then have "unat (mp_min_a p + skew) = unat (mp_min_a p) + unat skew"
      by (simp add: unat_word_ariths)
    then show ?thesis by (simp add: word_less_nat_alt word_le_nat_alt)
  qed
  have addv: "mp_min_v p + skew < mp_min_a p \<longrightarrow> mp_min_v p \<le> mp_min_a p"
    if "mp_v p = Some v" for v
  proof -
    have "unat (mp_min_v p) + unat skew < 2 ^ 32"
      using ok(2) that bspec[OF nowrap nth_mem[of v xs]] by (auto simp: min_ok_def)
    then have "unat (mp_min_v p + skew) = unat (mp_min_v p) + unat skew"
      by (simp add: unat_word_ariths)
    then show ?thesis by (simp add: word_less_nat_alt word_le_nat_alt)
  qed
  consider (a) a where "mp_a p = Some a" "i = a" "mp_min_a p \<le> mp_min_v p"
    | (v) v where "mp_v p = Some v" "i = v" "mp_min_v p \<le> mp_min_a p"
    using pick add addv ok u32_top
    by (cases "mp_a p"; cases "mp_v p")
      (auto simp: frame_mux_pick_best_def p_def[symmetric] min_ok_def Let_def split: if_splits)
  then show ?thesis
  proof cases
    case a
    have "item_dts (xs ! i) = mp_min_a p" "i < length xs" using a ok(1) by (auto simp: min_ok_def)
    moreover have "mp_min_a p \<le> item_dts (xs ! j)" if "j < length xs" for j
      using ok that a(3) by (cases "is_audio (xs ! j)") (auto simp: min_ok_def intro: order_trans)
    ultimately show ?thesis by simp
  next
    case v
    have "item_dts (xs ! i) = mp_min_v p" "i < length xs" using v ok(2) by (auto simp: min_ok_def)
    moreover have "mp_min_v p \<le> item_dts (xs ! j)" if "j < length xs" for j
      using ok that v(3) by (cases "is_audio (xs ! j)") (auto simp: min_ok_def intro: order_trans)
    ultimately show ?thesis by simp
  qed
qed

lemma pick_skew_irrelevant:
  assumes nowrap: "\<forall>x \<in> set xs. unat (item_dts x) + unat skew < 2 ^ 32"
  shows "frame_mux_pick_best xs skew = frame_mux_pick_best xs 0"
proof -
  define p where "p = mux_scan xs"
  have ok: "min_ok is_audio xs (mp_a p) (mp_min_a p)" "min_ok (\<lambda>x. \<not> is_audio x) xs (mp_v p) (mp_min_v p)"
    using mux_scan_ok[of xs] by (simp_all add: p_def)
  show ?thesis
  proof (cases "mp_a p = None \<or> mp_v p = None")
    case True
    then show ?thesis
      by (auto simp: frame_mux_pick_best_def p_def[symmetric] Let_def split: option.splits)
  next
    case False
    then obtain a v where av: "mp_a p = Some a" "mp_v p = Some v" by auto
    have "unat (mp_min_a p) + unat skew < 2 ^ 32" "unat (mp_min_v p) + unat skew < 2 ^ 32"
      using ok av bspec[OF nowrap nth_mem[of a xs]] bspec[OF nowrap nth_mem[of v xs]]
      by (auto simp: min_ok_def)
    then have "unat (mp_min_a p + skew) = unat (mp_min_a p) + unat skew"
      "unat (mp_min_v p + skew) = unat (mp_min_v p) + unat skew"
      by (simp_all add: unat_word_ariths)
    then show ?thesis using av
      by (auto simp: frame_mux_pick_best_def p_def[symmetric] Let_def word_less_nat_alt word_le_nat_alt)
  qed
qed

text \<open>
  The interleaving buffer gives the frame with the smallest decoding time, as long as no
  time stamp in it plus the allowed skew wraps around 32 bits. The skew never changes which
  frame comes out: the parameter that should bound how far one track may run ahead of the
  other has no effect.
\<close>

theorem mux_picks_earliest:
  assumes "frame_mux_pick_best xs skew = Some i"
    "\<forall>x \<in> set xs. unat (item_dts x) + unat skew < 2 ^ 32"
  shows "i < length xs \<and> (\<forall>j < length xs. item_dts (xs ! i) \<le> item_dts (xs ! j))
    \<and> frame_mux_pick_best xs 0 = Some i"
  using pick_least[OF assms] pick_skew_irrelevant[OF assms(2)] assms(1) by simp

definition ex_items :: "nat zms_frame_slot list" where
  "ex_items = [mux_item (pub_of ex_key [1]) 1,
     mux_item ((pub_of ex_key [2])\<lparr>s_track := ZMS_TRACK_AUDIO, s_dts_ms := 20\<rparr>) 2]"

lemma mux_picks_earliest_witness:
  "frame_mux_pick_best ex_items 200 = Some 1 \<and> frame_mux_pick_best ex_items 0 = Some 1"
proof -
  have pick: "frame_mux_pick_best ex_items 200 = Some 1" by code_simp
  have "\<forall>x \<in> set ex_items. unat (item_dts x) + unat (200 :: u32) < 2 ^ 32"
    by (simp add: ex_items_def mux_item_def pub_of_def item_dts_def ex_key_def zms_frame_init_def
        zms_gop_queue_timeline_from_frame_def Let_def)
  from mux_picks_earliest[OF pick this] pick show ?thesis by simp
qed

text \<open>
  C17: Reading interleaved hands out each frame of the buffer once and owns its reference:
  when the buffer is not empty, the frame that comes out together with those left are the
  frames that were in it, and the frame's buffer becomes the held one while the reference
  held before is dropped.
\<close>

theorem read_muxed_conserves:
  assumes "r_mux rd \<noteq> []" "zms_gop_reader_read_muxed E g tr r rd skew = (1, rd', Some s, cs)"
  shows "\<exists>it. sl_pub it = s \<and> mset (r_mux rd) = {#it#} + mset (r_mux rd')
    \<and> r_held_ref rd' = sl_buf it \<and> dropped cs = opt_mset (r_held_ref rd)"
proof -
  obtain i where i: "frame_mux_pick_best (r_mux rd) (mux_default_skew skew) = Some i"
    using assms by (auto simp: zms_gop_reader_read_muxed_def mux_refill_def split: option.splits prod.splits)
  have lt: "i < length (r_mux rd)"
    using i mux_scan_ok[of "r_mux rd"]
    by (auto simp: frame_mux_pick_best_def min_ok_def Let_def split: option.splits if_splits)
  have "mset (r_mux rd) = {#r_mux rd ! i#} + mset (take i (r_mux rd) @ drop (Suc i) (r_mux rd))"
    by (subst id_take_nth_drop[OF lt]) simp
  then show ?thesis
    using assms i by (intro exI[of _ "r_mux rd ! i"])
      (auto simp: zms_gop_reader_read_muxed_def mux_refill_def reader_unref_held_def Let_def)
qed

lemma read_muxed_conserves_witness:
  "\<exists>it. sl_pub it = sl_pub (ex_items ! 1) \<and> mset ex_items = {#it#} + mset [ex_items ! 0]"
proof -
  let ?rd = "\<lparr>r_read_idx = 0, r_from_beginning = False, r_wake_pending = False,
      r_wake_q = True, r_held_ref = Some 9, r_mux = ex_items\<rparr> :: nat zms_gop_reader"
  have ne: "r_mux ?rd \<noteq> []" by (simp add: ex_items_def)
  have "zms_gop_reader_read_muxed \<lparr>annexb_split = (\<lambda>_. []), av1_obu_split = (\<lambda>_. None)\<rparr> ex_reg (\<lambda>_. True)
      ex_q1 ?rd 0 = (1, ?rd\<lparr>r_held_ref := Some 2, r_mux := [ex_items ! 0]\<rparr>, Some (sl_pub (ex_items ! 1)),
      [BufUnref 9])"
  proof -
    have "frame_mux_pick_best ex_items 200 = Some 1" by code_simp
    moreover have "ex_items \<noteq> []" "take 1 ex_items @ drop 2 ex_items = [ex_items ! 0]"
      by (simp_all add: ex_items_def)
    moreover have "sl_buf (ex_items ! 1) = Some 2" by (simp add: ex_items_def mux_item_def)
    ultimately show ?thesis
      by (simp add: zms_gop_reader_read_muxed_def mux_refill_def mux_default_skew_def
          ZMS_GOP_QUEUE_MUX_MAX_SKEW_MS_def reader_unref_held_def unref_opt_def numeral_2_eq_2)
  qed
  from read_muxed_conserves[OF ne this] show ?thesis by auto
qed

section \<open>Waking readers\<close>

text \<open>
  C18: A commit misses no reader: after it every registered reader is marked, and every
  reader that has a wake queue gets exactly one entry, with the new write index, whether it
  fits the table of 128 wake-ups made after the lock is released or is woken at once.
\<close>

theorem commit_wakes_all:
  "map fst (q_readers (signal_commit r)) = map fst (q_readers r)
    \<and> list_all (\<lambda>e. r_wake_pending (snd e)) (q_readers (signal_commit r))
    \<and> (\<exists>cs. q_calls (signal_commit r) = q_calls r @ cs \<and>
        mset cs = mset (map (\<lambda>e. WakeReader (fst e) (q_write_idx r))
          (filter (\<lambda>e. r_wake_q (snd e)) (q_readers r))) + {#WakeRing#})"
proof -
  have gen: "ring_signal_readers seq cap rds ns = (rds', ns', cs) \<Longrightarrow>
      map fst rds' = map fst rds \<and> list_all (\<lambda>e. r_wake_pending (snd e)) rds' \<and>
      mset cs + mset (ring_flush_reader_wakes ns' seq) = mset (ring_flush_reader_wakes ns seq) +
        mset (map (\<lambda>e. WakeReader (fst e) seq) (filter (\<lambda>e. r_wake_q (snd e)) rds))"
    for seq cap ns rds' ns' cs and rds :: "(nat \<times> 'a zms_gop_reader) list"
  proof (induction rds arbitrary: ns rds' ns' cs)
    case Nil
    then show ?case by simp
  next
    case (Cons p rds)
    obtain i rd where p: "p = (i, rd)" by fastforce
    show ?case
      using Cons.prems Cons.IH
      by (auto simp: p Let_def ring_flush_reader_wakes_def split: prod.splits if_splits)
  qed
  obtain rds' ns' cs where sig: "ring_signal_readers (q_write_idx r) ZMS_GOP_QUEUE_SIGNAL_SNAP
      (q_readers r) [] = (rds', ns', cs)" by (metis prod_cases3)
  from gen[OF sig] show ?thesis
    by (auto simp: signal_commit_def log_calls_def sig ring_flush_reader_wakes_def add.assoc
        intro!: exI[of _ "cs @ ring_flush_reader_wakes ns' (q_write_idx r) @ [WakeRing]"])
qed

end
