(* ===== verification/Gop_Seek.thy ===== *)
theory Gop_Seek
  imports Gop_Reader
begin

text \<open>
  Positioning a reader: \<open>src/engine/gop/gop_reader_seek.c\<close>. A scan that stops at its first
  hit is \<open>find\<close> over the index range, one that keeps the last hit is \<open>last_such\<close>. Every
  seek clears the interleaving buffer first; the calls that makes are returned with the
  reader.
\<close>

unbundle bit_operations_syntax

section \<open>Scans\<close>

text \<open>The loop \<open>for (i = a; i < b; ++i) if (P) pick = i;\<close>\<close>

definition last_such :: "(nat \<Rightarrow> bool) \<Rightarrow> nat \<Rightarrow> nat \<Rightarrow> nat option" where
  "last_such P a b = foldl (\<lambda>pick i. if P i then Some i else pick) None [a..<b]"

lemma last_such_Suc:
  "last_such P a (Suc b) = (if a \<le> b then if P b then Some b else last_such P a b else None)"
  by (simp add: last_such_def)

lemma last_such_None: "(last_such P a b = None) = (\<forall>j. a \<le> j \<and> j < b \<longrightarrow> \<not> P j)"
proof (induction b)
  case 0
  then show ?case by (simp add: last_such_def)
next
  case (Suc b)
  then show ?case by (auto simp: last_such_Suc less_Suc_eq)
qed

lemma last_such_Some: "last_such P a b = Some i \<Longrightarrow> a \<le> i \<and> i < b \<and> P i \<and> (\<forall>j. i < j \<and> j < b \<longrightarrow> \<not> P j)"
proof (induction b)
  case 0
  then show ?case by (simp add: last_such_def)
next
  case (Suc b)
  from Suc.prems have ab: "a \<le> b" by (simp add: last_such_Suc split: if_splits)
  show ?case
  proof (cases "P b")
    case True
    with Suc.prems ab have "i = b" by (simp add: last_such_Suc)
    with True ab show ?thesis by auto
  next
    case False
    with Suc.prems ab have "last_such P a b = Some i" by (simp add: last_such_Suc)
    from Suc.IH[OF this] False show ?thesis by (auto simp: less_Suc_eq)
  qed
qed

definition sync_at :: "es_ext \<Rightarrow> registry \<Rightarrow> 'b zms_gop_queue \<Rightarrow> nat \<Rightarrow> bool" where
  "sync_at E g r i = ring_slot_video_sync E g (slot_at r i)"

section \<open>Towards the live edge\<close>

definition seek_live_idx :: "'b zms_gop_queue \<Rightarrow> nat \<Rightarrow> nat" where
  "seek_live_idx r idx =
     (let idx1 = (if q_write_idx r > idx \<and> q_write_idx r - idx > ZMS_GOP_QUEUE_PLAY_MAX_LAG
                  then (let target = q_write_idx r - ZMS_GOP_QUEUE_PLAY_MAX_LAG in
                        if target > idx then target else idx)
                  else idx)
      in if q_write_idx r > 0 \<and> idx1 \<ge> q_write_idx r then q_write_idx r - 1 else idx1)"

definition zms_gop_reader_seek_live ::
  "'b zms_gop_queue \<Rightarrow> 'b zms_gop_reader \<Rightarrow> 'b zms_gop_reader \<times> 'b ztk_call list" where
  "zms_gop_reader_seek_live r rd =
     (case frame_mux_clear rd of
        (rd1, cs) \<Rightarrow> (rd1\<lparr>r_read_idx := seek_live_idx r (r_read_idx rd1)\<rparr>, cs))"

section \<open>To a key frame of the newest GOP\<close>

definition seek_clamp_lag :: "es_ext \<Rightarrow> registry \<Rightarrow> 'b zms_gop_queue \<Rightarrow> nat \<Rightarrow> nat \<Rightarrow> nat" where
  "seek_clamp_lag E g r end_idx idx =
     (let idx1 = (if idx \<ge> end_idx \<and> end_idx > 0 then end_idx - 1 else idx);
          idx2 = (if q_write_idx r > idx1 \<and> q_write_idx r - idx1 > ZMS_GOP_QUEUE_PLAY_MAX_LAG
                  then (case find (sync_at E g r)
                               [q_write_idx r - ZMS_GOP_QUEUE_PLAY_MAX_LAG..<end_idx] of
                          Some j \<Rightarrow> j
                        | None \<Rightarrow> idx1)
                  else idx1)
      in if q_write_idx r > 0 \<and> idx2 \<ge> q_write_idx r then q_write_idx r - 1 else idx2)"

text \<open>The backward scan \<open>for (i = end - 1;;) ... if (i <= gop || i == 0) break; i--\<close>\<close>

fun scan_back :: "(nat \<Rightarrow> bool) \<Rightarrow> nat \<Rightarrow> nat \<Rightarrow> nat option" where
  "scan_back P gop i =
     (if P i then Some i else if i \<le> gop \<or> i = 0 then None else scan_back P gop (i - 1))"

declare scan_back.simps [simp del]

definition zms_gop_reader_seek_gop_key ::
  "es_ext \<Rightarrow> registry \<Rightarrow> 'b zms_gop_queue \<Rightarrow> 'b zms_gop_reader
     \<Rightarrow> 'b zms_gop_reader \<times> 'b ztk_call list" where
  "zms_gop_reader_seek_gop_key E g r rd =
     (case frame_mux_clear rd of
        (rd1, cs) \<Rightarrow>
          if q_write_idx r = 0 then (rd1\<lparr>r_read_idx := 0\<rparr>, cs)
          else if q_gop_count r = 0 then
            (case zms_gop_reader_seek_live r rd1 of (rd2, cs') \<Rightarrow> (rd2, cs @ cs'))
          else
            let gop = q_gop_start r ! (q_gop_count r - 1); end_idx = q_write_idx r in
            (case find (sync_at E g r) [gop..<end_idx] of
               Some i \<Rightarrow> (rd1\<lparr>r_read_idx := seek_clamp_lag E g r end_idx i\<rparr>, cs)
             | None \<Rightarrow>
                 (case scan_back (sync_at E g r) gop (if end_idx > 0 then end_idx - 1 else 0) of
                    Some i \<Rightarrow> (rd1\<lparr>r_read_idx := seek_clamp_lag E g r end_idx i\<rparr>, cs)
                  | None \<Rightarrow> (rd1\<lparr>r_read_idx := seek_clamp_lag E g r end_idx gop\<rparr>, cs))))"

text \<open>The start of the scan that \<open>seek_live_key\<close>, \<open>seek_live_idr\<close> and \<open>seek_rtsp_idr\<close> share.\<close>

definition seek_start :: "'b zms_gop_queue \<Rightarrow> nat" where
  "seek_start r =
     (if q_gop_count r > 0 then q_gop_start r ! (q_gop_count r - 1)
      else if q_write_idx r > ZMS_GOP_QUEUE_PLAY_MAX_LAG
        then q_write_idx r - ZMS_GOP_QUEUE_PLAY_MAX_LAG
      else 0)"

definition zms_gop_reader_seek_live_key ::
  "es_ext \<Rightarrow> registry \<Rightarrow> 'b zms_gop_queue \<Rightarrow> 'b zms_gop_reader
     \<Rightarrow> 'b zms_gop_reader \<times> 'b ztk_call list" where
  "zms_gop_reader_seek_live_key E g r rd =
     (case frame_mux_clear rd of
        (rd1, cs) \<Rightarrow>
          let end_idx = q_write_idx r in
          if end_idx = 0 then (rd1\<lparr>r_read_idx := 0\<rparr>, cs)
          else
            let start = seek_start r;
                idx = (case last_such (sync_at E g r) start end_idx of Some i \<Rightarrow> i | None \<Rightarrow> start)
            in (rd1\<lparr>r_read_idx := (if idx \<ge> end_idx then end_idx - 1 else idx)\<rparr>, cs))"

section \<open>To an IDR\<close>

definition ring_slot_is_live_idr :: "es_ext \<Rightarrow> registry \<Rightarrow> zms_gop_slot \<Rightarrow> bool" where
  "ring_slot_is_live_idr E g pub =
     (if s_config_frame pub \<or> s_track pub \<noteq> ZMS_TRACK_VIDEO \<or> s_data pub = None \<or> s_len pub < 5
      then False
      else if s_codec pub = ZMS_CODEC_H265 then zms_h265_annexb_is_idr (annexb_split E) (s_bytes pub)
      else if s_codec pub = ZMS_CODEC_H264
        then s_keyframe pub \<or> zms_h264_annexb_is_idr (annexb_split E) (s_bytes pub)
      else s_keyframe pub \<or> zms_gop_slot_is_decode_start E g pub)"

definition idr_at :: "es_ext \<Rightarrow> registry \<Rightarrow> 'b zms_gop_queue \<Rightarrow> nat \<Rightarrow> bool" where
  "idr_at E g r i = ring_slot_is_live_idr E g (sl_pub (slot_at r i))"

definition seek_live_idr_apply_pick ::
  "es_ext \<Rightarrow> registry \<Rightarrow> 'b zms_gop_queue \<Rightarrow> nat \<Rightarrow> nat \<Rightarrow> nat \<Rightarrow> nat" where
  "seek_live_idr_apply_pick E g r end_idx start pick =
     (if end_idx \<le> pick \<or> end_idx - pick \<le> ZMS_GOP_QUEUE_PLAY_MAX_LAG then pick
      else
        let near0 = end_idx - ZMS_GOP_QUEUE_PLAY_MAX_LAG;
            near = (if near0 < start then start else near0);
            idx = (case last_such (idr_at E g r) near end_idx of Some i \<Rightarrow> i | None \<Rightarrow> pick)
        in if idx = pick \<and> end_idx > pick
           then (case last_such (sync_at E g r) near end_idx of
                   Some i \<Rightarrow> i
                 | None \<Rightarrow> if end_idx > 0 then end_idx - 1 else idx)
           else idx)"

definition seek_live_idr_idx :: "es_ext \<Rightarrow> registry \<Rightarrow> 'b zms_gop_queue \<Rightarrow> nat" where
  "seek_live_idr_idx E g r =
     (let end_idx = q_write_idx r; start = seek_start r in
      if end_idx = 0 then 0
      else case last_such (idr_at E g r) start end_idx of
        Some pick \<Rightarrow> seek_live_idr_apply_pick E g r end_idx start pick
      | None \<Rightarrow>
          let near = (if end_idx > start \<and> end_idx - start > ZMS_GOP_QUEUE_PLAY_MAX_LAG
                      then end_idx - ZMS_GOP_QUEUE_PLAY_MAX_LAG else start)
          in case last_such (sync_at E g r) near end_idx of
               Some i \<Rightarrow> i
             | None \<Rightarrow>
                 (case last_such (sync_at E g r) start near of
                    Some i \<Rightarrow> if end_idx - i \<le> ZMS_GOP_QUEUE_PLAY_MAX_LAG then i else end_idx - 1
                  | None \<Rightarrow> end_idx - 1))"

definition zms_gop_reader_seek_live_idr ::
  "es_ext \<Rightarrow> registry \<Rightarrow> 'b zms_gop_queue \<Rightarrow> 'b zms_gop_reader
     \<Rightarrow> 'b zms_gop_reader \<times> 'b ztk_call list" where
  "zms_gop_reader_seek_live_idr E g r rd =
     (case frame_mux_clear rd of (rd1, cs) \<Rightarrow> (rd1\<lparr>r_read_idx := seek_live_idr_idx E g r\<rparr>, cs))"

definition seek_rtsp_idr_idx :: "es_ext \<Rightarrow> registry \<Rightarrow> 'b zms_gop_queue \<Rightarrow> nat \<Rightarrow> nat" where
  "seek_rtsp_idr_idx E g r idx =
     (let end_idx = q_write_idx r; start = seek_start r in
      if end_idx = 0 then 0
      else case last_such (idr_at E g r) start end_idx of
        Some pick \<Rightarrow> seek_live_idr_apply_pick E g r end_idx start pick
      | None \<Rightarrow> if end_idx > 0 then end_idx - 1 else idx)"

definition zms_gop_reader_seek_rtsp_idr ::
  "es_ext \<Rightarrow> registry \<Rightarrow> 'b zms_gop_queue \<Rightarrow> 'b zms_gop_reader
     \<Rightarrow> 'b zms_gop_reader \<times> 'b ztk_call list" where
  "zms_gop_reader_seek_rtsp_idr E g r rd =
     (case frame_mux_clear rd of
        (rd1, cs) \<Rightarrow> (rd1\<lparr>r_read_idx := seek_rtsp_idr_idx E g r (r_read_idx rd1)\<rparr>, cs))"

definition zms_gop_reader_seek_decode_start ::
  "es_ext \<Rightarrow> registry \<Rightarrow> 'b zms_gop_queue \<Rightarrow> 'b zms_gop_reader
     \<Rightarrow> 'b zms_gop_reader \<times> 'b ztk_call list" where
  "zms_gop_reader_seek_decode_start E g r rd =
     (case frame_mux_clear rd of
        (rd1, cs) \<Rightarrow>
          let end_idx = q_write_idx r in
          if end_idx = 0 \<or> r_read_idx rd1 \<ge> end_idx then (rd1, cs)
          else (case find (\<lambda>i. zms_gop_slot_is_decode_start E g (sl_pub (slot_at r i)))
                       [r_read_idx rd1..<end_idx] of
                  Some i \<Rightarrow> (rd1\<lparr>r_read_idx := i\<rparr>, cs)
                | None \<Rightarrow> (rd1, cs)))"

section \<open>Where the seeks land\<close>

lemma seek_start_le: "gop_inv r \<Longrightarrow> q_write_idx r > 0 \<Longrightarrow> seek_start r < q_write_idx r"
  by (auto simp: seek_start_def gop_inv_def gop_inv_at_def ZMS_GOP_QUEUE_PLAY_MAX_LAG_def
      intro: starts_ok_top)

lemma apply_pick_lag:
  assumes "start \<le> pick" "pick < end_idx"
  shows "seek_live_idr_apply_pick E g r end_idx start pick < end_idx
    \<and> end_idx - seek_live_idr_apply_pick E g r end_idx start pick \<le> ZMS_GOP_QUEUE_PLAY_MAX_LAG"
  using assms
  by (auto simp: seek_live_idr_apply_pick_def Let_def ZMS_GOP_QUEUE_PLAY_MAX_LAG_def
      split: option.splits if_splits dest!: last_such_Some)

text \<open>
  A player that seeks for low latency starts near the live edge: on a well-formed queue
  that holds frames, \<open>seek_live_idr\<close> and \<open>seek_rtsp_idr\<close> put the reader on a published frame
  at most 240 frames behind the writer, however long the newest GOP is.
\<close>

theorem seek_idr_low_lag:
  assumes "gop_inv r" "q_write_idx r > 0"
  shows "let i = r_read_idx (fst (zms_gop_reader_seek_live_idr E g r rd));
             j = r_read_idx (fst (zms_gop_reader_seek_rtsp_idr E g r rd))
    in i < q_write_idx r \<and> q_write_idx r - i \<le> 240 \<and> j < q_write_idx r \<and> q_write_idx r - j \<le> 240"
proof -
  have st: "seek_start r < q_write_idx r" using assms by (rule seek_start_le)
  have pick: "last_such (idr_at E g r) (seek_start r) (q_write_idx r) = Some p \<Longrightarrow>
      seek_live_idr_apply_pick E g r (q_write_idx r) (seek_start r) p < q_write_idx r
      \<and> q_write_idx r - seek_live_idr_apply_pick E g r (q_write_idx r) (seek_start r) p \<le> 240" for p
    using apply_pick_lag[of "seek_start r" p "q_write_idx r" E g r]
    by (auto simp: ZMS_GOP_QUEUE_PLAY_MAX_LAG_def dest: last_such_Some)
  have "seek_live_idr_idx E g r < q_write_idx r \<and> q_write_idx r - seek_live_idr_idx E g r \<le> 240"
    using assms(2) st pick
    by (auto simp: seek_live_idr_idx_def Let_def ZMS_GOP_QUEUE_PLAY_MAX_LAG_def
        split: option.splits if_splits dest: last_such_Some)
  moreover have "seek_rtsp_idr_idx E g r k < q_write_idx r \<and> q_write_idx r - seek_rtsp_idr_idx E g r k \<le> 240" for k
    using assms(2) pick by (auto simp: seek_rtsp_idr_idx_def Let_def split: option.splits)
  ultimately show ?thesis
    by (simp add: zms_gop_reader_seek_live_idr_def zms_gop_reader_seek_rtsp_idr_def
        frame_mux_clear_def Let_def)
qed

lemma seek_idr_low_lag_witness:
  "r_read_idx (fst (zms_gop_reader_seek_live_idr \<lparr>annexb_split = (\<lambda>_. []), av1_obu_split = (\<lambda>_. None)\<rparr>
     ex_reg ex_q1 \<lparr>r_read_idx = 40, r_from_beginning = False, r_wake_pending = False,
     r_wake_q = True, r_held_ref = None, r_mux = []\<rparr>)) = 0"
proof -
  have "gop_inv ex_q1" by (rule gop_reach_inv[OF ex_reach1])
  moreover have "q_write_idx ex_q1 = 1" by code_simp
  ultimately show ?thesis
    using seek_idr_low_lag[of ex_q1 "\<lparr>annexb_split = (\<lambda>_. []), av1_obu_split = (\<lambda>_. None)\<rparr>" ex_reg
      "\<lparr>r_read_idx = 40, r_from_beginning = False, r_wake_pending = False,
        r_wake_q = True, r_held_ref = None, r_mux = []\<rparr>"]
    by (simp add: Let_def)
qed

lemma find_first: "a < b \<Longrightarrow> P a \<Longrightarrow> find P [a..<b] = Some a"
  by (simp add: upt_conv_Cons)

lemma gop_start_sync:
  assumes "registry_ok g" "gop_run g r L" "i < q_gop_count r"
    "s_track (sl_pub (slot_at r (q_gop_start r ! i))) = ZMS_TRACK_VIDEO"
    "s_codec (sl_pub (slot_at r (q_gop_start r ! i))) \<noteq> ZMS_CODEC_H265"
  shows "sync_at E g r (q_gop_start r ! i)" "q_gop_start r ! i < q_write_idx r"
proof -
  let ?k = "q_gop_start r ! i"
  have reach: "gop_reach g r" using assms(2) by (rule gop_run_step)
  have inv: "gop_inv r" using reach by (rule gop_reach_inv)
  then have so: "starts_ok (q_gop_start r) (q_gop_count r) (q_write_idx r)"
    by (simp add: gop_inv_def gop_inv_at_def)
  show lt: "?k < q_write_idx r" using starts_ok_top[OF so assms(3)] .
  have "gop_entry (sl_pub (slot_at r ?k))"
    using gop_reach_keyed[OF assms(1) reach] assms(3) lt by (simp add: gop_keyed_def gop_keyed_at_def)
  then have key: "s_keyframe (sl_pub (slot_at r ?k))" "\<not> s_config_frame (sl_pub (slot_at r ?k))"
    using assms(4) by (simp_all add: gop_entry_def)
  have "q_gop_start r ! 0 \<le> ?k" using starts_ok_less[OF so, of 0 i] assms(3) by (cases "i = 0") auto
  then have win: "q_write_idx r - ?k \<le> ZMS_GOP_QUEUE_CAPACITY"
    using inv assms(3) by (auto simp: gop_inv_def gop_inv_at_def)
  note sl = log_slot[OF gop_run_log[OF assms(1,2)] gop_run_payloads[OF assms(2)] lt win]
  from sl key assms(4,5) show "sync_at E g r ?k"
    by (simp add: sync_at_def ring_slot_video_sync_def Let_def)
qed

text \<open>
  A player that starts on a key frame gets the whole newest GOP: on a queue a publisher
  has filled, \<open>seek_gop_key\<close> puts the reader exactly on the start of the newest GOP, provided
  that GOP starts with video of a codec other than H.265 (whose key frames are recognised by
  their payload) and is at most 240 frames long.
\<close>

theorem seek_gop_key_start:
  assumes "registry_ok g" "gop_run g r L" "q_gop_count r > 0"
    "s_track (sl_pub (slot_at r (q_gop_start r ! (q_gop_count r - 1)))) = ZMS_TRACK_VIDEO"
    "s_codec (sl_pub (slot_at r (q_gop_start r ! (q_gop_count r - 1)))) \<noteq> ZMS_CODEC_H265"
    "q_write_idx r - q_gop_start r ! (q_gop_count r - 1) \<le> 240"
  shows "r_read_idx (fst (zms_gop_reader_seek_gop_key E g r rd)) = q_gop_start r ! (q_gop_count r - 1)"
proof -
  have "q_gop_count r - 1 < q_gop_count r" using assms(3) by simp
  note st = gop_start_sync[OF assms(1,2) this assms(4,5)]
  from find_first[where P = "sync_at E g r", OF st(2) st(1)[of E]] st(2) assms(3,6) show ?thesis
    by (auto simp: zms_gop_reader_seek_gop_key_def frame_mux_clear_def Let_def seek_clamp_lag_def
        ZMS_GOP_QUEUE_PLAY_MAX_LAG_def)
qed

lemma seek_gop_key_start_witness:
  "r_read_idx (fst (zms_gop_reader_seek_gop_key \<lparr>annexb_split = (\<lambda>_. []), av1_obu_split = (\<lambda>_. None)\<rparr>
     ex_reg ex_q1 \<lparr>r_read_idx = 40, r_from_beginning = False, r_wake_pending = False,
     r_wake_q = True, r_held_ref = None, r_mux = []\<rparr>)) = 0"
proof -
  have "q_gop_count ex_q1 > 0" "s_track (sl_pub (slot_at ex_q1 (q_gop_start ex_q1 ! (q_gop_count ex_q1 - 1))))
      = ZMS_TRACK_VIDEO"
    "s_codec (sl_pub (slot_at ex_q1 (q_gop_start ex_q1 ! (q_gop_count ex_q1 - 1)))) \<noteq> ZMS_CODEC_H265"
    "q_write_idx ex_q1 - q_gop_start ex_q1 ! (q_gop_count ex_q1 - 1) \<le> 240"
    "q_gop_start ex_q1 ! (q_gop_count ex_q1 - 1) = 0"
    by code_simp+
  with seek_gop_key_start[OF ex_reg_ok ex_run1] show ?thesis by simp
qed

text \<open>
  The lag clamp of \<open>seek_gop_key\<close> does not clamp when it finds nothing: if none of the
  last 240 frames is a sync frame, a reader more than 240 frames behind stays where it is
  (the comment on the function promises the frame before the write index), and if several
  are, it moves to the first of them (the comment promises the last).
\<close>

theorem seek_clamp_lag_behaviour:
  assumes "idx < q_write_idx r" "240 < q_write_idx r - idx"
  shows "seek_clamp_lag E g r (q_write_idx r) idx =
    (case find (sync_at E g r) [q_write_idx r - 240..<q_write_idx r] of Some j \<Rightarrow> j | None \<Rightarrow> idx)"
  using assms by (auto simp: seek_clamp_lag_def Let_def ZMS_GOP_QUEUE_PLAY_MAX_LAG_def
      split: option.splits dest: find_upt_ge)

lemma seek_clamp_lag_behaviour_witness:
  "seek_clamp_lag \<lparr>annexb_split = (\<lambda>_. []), av1_obu_split = (\<lambda>_. None)\<rparr> ex_reg
     (ex_q1\<lparr>q_write_idx := 300, q_slots := replicate 512 slot_zero\<rparr>) 300 10 = 10"
proof -
  let ?E = "\<lparr>annexb_split = (\<lambda>_. []), av1_obu_split = (\<lambda>_. None)\<rparr>"
  let ?r = "ex_q1\<lparr>q_write_idx := 300, q_slots := replicate 512 slot_zero\<rparr>"
  have "\<not> sync_at ?E ex_reg ?r i" for i
    by (simp add: sync_at_def ring_slot_video_sync_def slot_at_def slot_zero_def zms_gop_slot_zero_def
        ZMS_GOP_QUEUE_CAPACITY_def Let_def)
  then have "find (sync_at ?E ex_reg ?r) [60..<300] = None" by (auto simp: find_None_iff)
  with seek_clamp_lag_behaviour[of 10 ?r ?E ex_reg] show ?thesis by simp
qed

end
