(* ===== verification/Framing.thy ===== *)
theory Framing
  imports Prelude
begin

text \<open>
  The interface of every framed byte stream of the server: a routine \<open>get\<close> that takes the
  first unit off a buffer, and the writer \<open>put\<close> it belongs to. From the two laws, that
  \<open>get\<close> undoes \<open>put\<close> and only takes off what \<open>put\<close> wrote, the lemmas of the locale derive
  what a receiver does with a whole stream: the units come out in order, nothing is lost, and
  it does not matter how the network cut the stream into chunks.
\<close>

function split_frames :: "('a list \<Rightarrow> ('u \<times> 'a list) option) \<Rightarrow> 'a list \<Rightarrow> 'u list \<times> 'a list" where
  "split_frames get p =
     (case get p of
        None \<Rightarrow> ([], p)
      | Some (u, rest) \<Rightarrow>
          if length rest < length p
          then (case split_frames get rest of (us, r) \<Rightarrow> (u # us, r))
          else ([], p))"
  by pat_completeness auto
termination by (relation "measure (\<lambda>(get, p). length p)") auto

declare split_frames.simps [simp del]

text \<open>A receiver that keeps the bytes of an unfinished unit between two reads.\<close>

fun feed_chunks :: "('a list \<Rightarrow> ('u \<times> 'a list) option) \<Rightarrow> 'a list \<Rightarrow> 'a list list \<Rightarrow> 'u list \<times> 'a list" where
  "feed_chunks get buf [] = ([], buf)"
| "feed_chunks get buf (c # cs) =
     (case split_frames get (buf @ c) of
        (us, r) \<Rightarrow> (case feed_chunks get r cs of (vs, r') \<Rightarrow> (us @ vs, r')))"

locale framing =
  fixes put :: "'u \<Rightarrow> 'a list"
    and wf :: "'u \<Rightarrow> bool"
    and get :: "'a list \<Rightarrow> ('u \<times> 'a list) option"
  assumes get_put: "wf u \<Longrightarrow> get (put u @ rest) = Some (u, rest)"
    and get_sound: "get p = Some (u, rest) \<Longrightarrow> wf u \<and> p = put u @ rest"
    and put_nonempty: "wf u \<Longrightarrow> put u \<noteq> []"
begin

lemma get_shorter: "get p = Some (u, rest) \<Longrightarrow> length rest < length p"
  using get_sound put_nonempty by fastforce

lemma split_Some: "get p = Some (u, rest) \<Longrightarrow>
    split_frames get p = (u # fst (split_frames get rest), snd (split_frames get rest))"
  using get_shorter[of p u rest] by (subst split_frames.simps) (simp add: case_prod_beta)

lemma split_None: "get p = None \<Longrightarrow> split_frames get p = ([], p)"
  by (subst split_frames.simps) simp

lemma get_append: "get p = Some (u, rest) \<Longrightarrow> get (p @ q) = Some (u, rest @ q)"
  using get_sound[of p u rest] get_put[of u "rest @ q"] by simp

lemma split_put: "(\<forall>u \<in> set us. wf u) \<Longrightarrow> get tail = None \<Longrightarrow>
    split_frames get (concat (map put us) @ tail) = (us, tail)"
  by (induction us) (simp_all add: split_None split_Some[OF get_put])

lemma split_sound: "split_frames get p = (us, r) \<Longrightarrow>
    p = concat (map put us) @ r \<and> (\<forall>u \<in> set us. wf u) \<and> get r = None"
proof (induction "length p" arbitrary: p us r rule: less_induct)
  case less
  show ?case
  proof (cases "get p")
    case None
    then show ?thesis using less.prems by (simp add: split_None)
  next
    case (Some ur)
    obtain u rest where g: "get p = Some (u, rest)" using Some by (cases ur) auto
    obtain vs s where sp: "split_frames get rest = (vs, s)" by fastforce
    have "us = u # vs" "r = s" using less.prems by (simp_all add: split_Some[OF g] sp)
    with less.hyps[OF get_shorter[OF g] sp] get_sound[OF g] show ?thesis by simp
  qed
qed

lemma split_append: "split_frames get (p @ q) =
    (fst (split_frames get p) @ fst (split_frames get (snd (split_frames get p) @ q)),
     snd (split_frames get (snd (split_frames get p) @ q)))"
proof (induction "length p" arbitrary: p rule: less_induct)
  case less
  show ?case
  proof (cases "get p")
    case None
    then show ?thesis by (simp add: split_None)
  next
    case (Some ur)
    obtain u rest where g: "get p = Some (u, rest)" using Some by (cases ur) auto
    from less.hyps[OF get_shorter[OF g]] show ?thesis
      by (simp add: split_Some[OF g] split_Some[OF get_append[OF g]])
  qed
qed

lemma feed_chunks_concat: "get buf = None \<Longrightarrow>
    feed_chunks get buf cs = split_frames get (buf @ concat cs)"
proof (induction cs arbitrary: buf)
  case Nil
  then show ?case by (simp add: split_None)
next
  case (Cons c cs)
  obtain us r where sp: "split_frames get (buf @ c) = (us, r)" by fastforce
  have "get r = None" using split_sound[OF sp] by blast
  from Cons.IH[OF this] show ?case
    using split_append[of "buf @ c" "concat cs"] by (simp add: sp case_prod_beta)
qed

text \<open>A decision on the units of a well-formed stream.\<close>

lemma split_all_iff: "snd (split_frames get p) = [] \<longleftrightarrow>
    get [] = None \<and> (\<exists>us. (\<forall>u \<in> set us. wf u) \<and> p = concat (map put us))"
proof
  assume r: "snd (split_frames get p) = []"
  obtain us where "split_frames get p = (us, [])" using r by (cases "split_frames get p") auto
  from split_sound[OF this] show "get [] = None \<and> (\<exists>us. (\<forall>u \<in> set us. wf u) \<and> p = concat (map put us))"
    by auto
next
  assume "get [] = None \<and> (\<exists>us. (\<forall>u \<in> set us. wf u) \<and> p = concat (map put us))"
  then obtain us where "get [] = None" "\<forall>u \<in> set us. wf u" "p = concat (map put us)" by blast
  with split_put[of us "[]"] show "snd (split_frames get p) = []" by simp
qed

end

section \<open>Big-endian lengths of a given width\<close>

fun be_bytes :: "nat \<Rightarrow> nat \<Rightarrow> bytes" where
  "be_bytes 0 n = []"
| "be_bytes (Suc k) n = be_bytes k (n div 256) @ [of_nat n]"

definition be_val :: "bytes \<Rightarrow> nat" where
  "be_val bs = foldl (\<lambda>a b. a * 256 + unat b) 0 bs"

lemma be_val_simps [simp]: "be_val [] = 0" "be_val (bs @ [b]) = be_val bs * 256 + unat b"
  by (simp_all add: be_val_def)

lemma length_be_bytes [simp]: "length (be_bytes k n) = k"
  by (induction k arbitrary: n) simp_all

lemma unat_u8: "unat (b :: u8) < 256"
  using unsigned_less[of b, where ?'a = nat] by simp

lemma be_val_bytes: "n < 256 ^ k \<Longrightarrow> be_val (be_bytes k n) = n"
proof (induction k arbitrary: n)
  case (Suc k)
  have "n div 256 < 256 ^ k" using Suc.prems by (simp add: less_mult_imp_div_less mult.commute)
  from Suc.IH[OF this] show ?case by (simp add: unat_of_nat take_bit_eq_mod)
qed simp

lemma be_val_less: "be_val bs < 256 ^ length bs"
proof (induction bs rule: rev_induct)
  case (snoc b bs)
  then show ?case using unat_u8[of b] by simp
qed simp

lemma be_bytes_val: "be_bytes (length bs) (be_val bs) = bs"
proof (induction bs rule: rev_induct)
  case (snoc b bs)
  have "(be_val bs * 256 + unat b) div 256 = be_val bs" using unat_u8[of b] by simp
  moreover have "(of_nat (be_val bs * 256 + unat b) :: u8) = b"
  proof -
    have z: "(256 :: u8) = 0" by (rule word_unat_eq_iff[THEN iffD2]) simp
    show ?thesis by (simp only: of_nat_add of_nat_mult of_nat_numeral z) simp
  qed
  ultimately show ?case using snoc by simp
qed simp

text \<open>The fixed-width writes of the protocols are the same bytes.\<close>

lemma of_nat_drop8: "k + 8 \<le> LENGTH('b) \<Longrightarrow>
    (of_nat (n div 2 ^ k) :: u8) = ucast (drop_bit k (of_nat n :: 'b::len word))"
  by (rule bit_word_eqI) (auto simp: bit_simps simp flip: drop_bit_eq_div)

lemma be_bytes_small:
  "be_bytes 2 n = [of_nat (n div 256), of_nat n]"
  "be_bytes 3 n = [of_nat (n div 65536), of_nat (n div 256), of_nat n]"
  "be_bytes 4 n = [of_nat (n div 16777216), of_nat (n div 65536), of_nat (n div 256), of_nat n]"
proof -
  have four: "(4 :: nat) = Suc (Suc (Suc (Suc 0)))" by simp
  show "be_bytes 4 n = [of_nat (n div 16777216), of_nat (n div 65536), of_nat (n div 256), of_nat n]"
    by (simp only: four be_bytes.simps) (simp add: div_mult2_eq[symmetric])
qed (simp_all add: numeral_2_eq_2 numeral_3_eq_3 div_mult2_eq[symmetric])

lemma of_nat_byte16: "ucast (drop_bit 8 (of_nat n :: u16)) = (of_nat (n div 256) :: u8)"
  "ucast (of_nat n :: u16) = (of_nat n :: u8)"
  using of_nat_drop8[of 8, where 'b = 16 and n = n] of_nat_drop8[of 0, where 'b = 16 and n = n]
  by simp_all

lemma of_nat_byte32: "ucast (drop_bit 8 (of_nat n :: u32)) = (of_nat (n div 256) :: u8)"
  "ucast (drop_bit 16 (of_nat n :: u32)) = (of_nat (n div 65536) :: u8)"
  "ucast (drop_bit 24 (of_nat n :: u32)) = (of_nat (n div 16777216) :: u8)"
  "ucast (of_nat n :: u32) = (of_nat n :: u8)"
  using of_nat_drop8[of 8, where 'b = 32 and n = n] of_nat_drop8[of 0, where 'b = 32 and n = n]
    of_nat_drop8[of 16, where 'b = 32 and n = n] of_nat_drop8[of 24, where 'b = 32 and n = n]
  by simp_all

lemma put_be16_nat: "put_be16 (of_nat n) = be_bytes 2 n"
  by (simp add: put_be16_def be_bytes_small of_nat_byte16)

lemma put_be24_nat: "put_be24 (of_nat n) = be_bytes 3 n"
  by (simp add: put_be24_def be_bytes_small of_nat_byte32)

lemma put_be32_nat: "put_be32 (of_nat n) = be_bytes 4 n"
  by (simp add: put_be32_def be_bytes_small of_nat_byte32)

lemma be16_be_bytes: "be16 (be_bytes 2 n @ rest) 0 = of_nat n"
  using be16_put[of "of_nat n" rest] by (simp only: put_be16_nat)

lemma be24_be_bytes: "n < 2 ^ 24 \<Longrightarrow> be24 (be_bytes 3 n @ rest) 0 = of_nat n"
  using be24_put_small[of "of_nat n" rest]
  by (simp add: unat_of_nat take_bit_nat_eq_self put_be24_nat)

lemma be32_be_bytes: "be32 (be_bytes 4 n @ rest) 0 = of_nat n"
  using be32_put[of "of_nat n" rest] by (simp only: put_be32_nat)

end
