(* ===== verification/H264_Spec.thy ===== *)
theory H264_Spec
  imports H264_AU H265_ES Framing
begin

text \<open>
  What the H.264 and H.265 elementary stream routines compute, against the formats: the
  length-prefixed sample as a framed stream, Exp-Golomb codes as bit strings, the access
  units the writers produce as joined NAL units, and the places where the code departs.
\<close>

unbundle bit_operations_syntax

section \<open>Length-prefixed samples\<close>

text \<open>One NAL unit behind its length of \<open>nb\<close> bytes.\<close>

definition avcc_put :: "nat \<Rightarrow> bytes \<Rightarrow> bytes" where
  "avcc_put nb u = be_bytes nb (length u) @ u"

definition avcc_wf :: "nat \<Rightarrow> bytes \<Rightarrow> bool" where
  "avcc_wf nb u \<longleftrightarrow> u \<noteq> [] \<and> length u < 256 ^ nb"

definition avcc_get :: "nat \<Rightarrow> bytes \<Rightarrow> (bytes \<times> bytes) option" where
  "avcc_get nb p =
     (if nb = 0 \<or> length p < nb then None
      else let n = h264_avcc_read_be_size p nb; q = drop nb p in
        if n = 0 \<or> n > length q then None else Some (take n q, drop n q))"

lemma be_acc_val: "h264_avcc_be_acc (of_nat a) bs = of_nat (foldl (\<lambda>a b. a * 256 + unat b) a bs)"
proof (induction bs arbitrary: a)
  case (Cons b bs)
  have "push_bit 8 (of_nat a) + ucast b = (of_nat (a * 256 + unat b) :: u32)"
    by (simp add: push_bit_eq_mult mult.commute of_nat_unat)
  then show ?case by (simp only: h264_avcc_be_acc.simps foldl.simps Cons)
qed simp

lemma read_be_size_val: "length (take nb p) \<le> 4 \<Longrightarrow> h264_avcc_read_be_size p nb = be_val (take nb p)"
proof -
  assume le: "length (take nb p) \<le> 4"
  have "be_val (take nb p) < 256 ^ length (take nb p)" by (rule be_val_less)
  also have "\<dots> \<le> 256 ^ 4" using le by (intro power_increasing) auto
  finally have "be_val (take nb p) < 2 ^ 32" by simp
  then show ?thesis
    using be_acc_val[of 0 "take nb p"]
    by (simp add: h264_avcc_read_be_size_def be_val_def unat_of_nat take_bit_eq_mod)
qed

lemma avcc_framing:
  assumes "1 \<le> nb" "nb \<le> 4"
  shows "framing (avcc_put nb) (avcc_wf nb) (avcc_get nb)"
proof
  fix u rest assume wf: "avcc_wf nb u"
  have t: "take nb (be_bytes nb (length u) @ u @ rest) = be_bytes nb (length u)"
    "drop nb (be_bytes nb (length u) @ u @ rest) = u @ rest" by simp_all
  have "h264_avcc_read_be_size (be_bytes nb (length u) @ u @ rest) nb = length u"
    using assms wf by (subst read_be_size_val) (simp_all add: avcc_wf_def be_val_bytes)
  with assms wf t show "avcc_get nb (avcc_put nb u @ rest) = Some (u, rest)"
    by (simp add: avcc_get_def avcc_put_def avcc_wf_def Let_def)
next
  fix p u rest assume g: "avcc_get nb p = Some (u, rest)"
  then have len: "nb \<le> length p" by (auto simp: avcc_get_def split: if_splits)
  have n: "h264_avcc_read_be_size p nb = be_val (take nb p)"
    using assms by (intro read_be_size_val) simp
  have ur: "u = take (be_val (take nb p)) (drop nb p)" "rest = drop (be_val (take nb p)) (drop nb p)"
    "be_val (take nb p) \<noteq> 0" "be_val (take nb p) \<le> length (drop nb p)"
    using g by (auto simp: avcc_get_def Let_def n split: if_splits)
  then have lu: "length u = be_val (take nb p)" by simp
  have "be_bytes nb (length u) = take nb p"
    using be_bytes_val[of "take nb p"] len by (simp add: lu)
  moreover have "p = take nb p @ u @ rest" by (simp only: ur append_take_drop_id)
  ultimately have "p = avcc_put nb u @ rest" by (simp only: avcc_put_def append_assoc)
  moreover have "length u < 256 ^ nb" using be_val_less[of "take nb p"] len by (simp add: lu)
  ultimately show "avcc_wf nb u \<and> p = avcc_put nb u @ rest" using ur(3) lu by (auto simp: avcc_wf_def)
next
  fix u assume "avcc_wf nb u"
  then show "avcc_put nb u \<noteq> []" by (simp add: avcc_put_def avcc_wf_def)
qed

interpretation avcc1: framing "avcc_put 1" "avcc_wf 1" "avcc_get 1" by (rule avcc_framing) simp_all
interpretation avcc2: framing "avcc_put 2" "avcc_wf 2" "avcc_get 2" by (rule avcc_framing) simp_all
interpretation avcc3: framing "avcc_put 3" "avcc_wf 3" "avcc_get 3" by (rule avcc_framing) simp_all
interpretation avcc4: framing "avcc_put 4" "avcc_wf 4" "avcc_get 4" by (rule avcc_framing) simp_all

lemma avcc_get_cases:
  obtains (stop) "nb = 0 \<or> length p < nb" "split_frames (avcc_get nb) p = ([], p)"
  | (bad) n where "\<not> (nb = 0 \<or> length p < nb)" "h264_avcc_read_be_size p nb = n"
      "n = 0 \<or> n > length (drop nb p)" "p \<noteq> []" "split_frames (avcc_get nb) p = ([], p)"
  | (unit) n where "\<not> (nb = 0 \<or> length p < nb)" "h264_avcc_read_be_size p nb = n"
      "\<not> (n = 0 \<or> n > length (drop nb p))"
      "split_frames (avcc_get nb) p =
        (take n (drop nb p) # fst (split_frames (avcc_get nb) (drop n (drop nb p))),
         snd (split_frames (avcc_get nb) (drop n (drop nb p))))"
proof -
  let ?n = "h264_avcc_read_be_size p nb"
  consider (a) "nb = 0 \<or> length p < nb" | (b) "\<not> (nb = 0 \<or> length p < nb)" "?n = 0 \<or> ?n > length (drop nb p)"
    | (c) "\<not> (nb = 0 \<or> length p < nb)" "\<not> (?n = 0 \<or> ?n > length (drop nb p))" by blast
  then show thesis
  proof cases
    case a
    then have "avcc_get nb p = None" by (auto simp: avcc_get_def)
    with a stop show ?thesis by (simp add: split_frames.simps[of _ p])
  next
    case b
    then have "avcc_get nb p = None" by (auto simp: avcc_get_def Let_def)
    then have "split_frames (avcc_get nb) p = ([], p)" by (simp add: split_frames.simps[of _ p])
    moreover have "p \<noteq> []" using b by auto
    ultimately show ?thesis using b bad by blast
  next
    case c
    then have "avcc_get nb p = Some (take ?n (drop nb p), drop ?n (drop nb p))"
      by (auto simp: avcc_get_def Let_def)
    moreover have "length (drop ?n (drop nb p)) < length p" using c by auto
    ultimately have "split_frames (avcc_get nb) p =
        (take ?n (drop nb p) # fst (split_frames (avcc_get nb) (drop ?n (drop nb p))),
         snd (split_frames (avcc_get nb) (drop ?n (drop nb p))))"
      by (subst split_frames.simps) (simp only: option.case prod.case if_True case_prod_beta fst_conv snd_conv)
    with c unit show ?thesis by blast
  qed
qed

lemma avcc_valid_split: "h264_avcc_valid_from nb p \<longleftrightarrow> snd (split_frames (avcc_get nb) p) = []"
proof (induction nb p rule: h264_avcc_valid_from.induct)
  case (1 nb p)
  show ?case
  proof (cases rule: avcc_get_cases[of nb p])
    case stop then show ?thesis by (subst h264_avcc_valid_from.simps) simp
  next
    case bad then show ?thesis by (subst h264_avcc_valid_from.simps) (auto simp: Let_def)
  next
    case unit
    then show ?thesis using 1[OF unit(1) unit(2)[symmetric] refl unit(3)]
      by (subst h264_avcc_valid_from.simps) (simp only: Let_def if_False snd_conv)
  qed
qed

lemma avcc_scan_split: "h264_avcc_scan_from nb p c = foldl h264_scan_params c (fst (split_frames (avcc_get nb) p))"
proof (induction nb p c rule: h264_avcc_scan_from.induct)
  case (1 nb p c)
  show ?case
  proof (cases rule: avcc_get_cases[of nb p])
    case stop then show ?thesis by (subst h264_avcc_scan_from.simps) simp
  next
    case bad then show ?thesis by (subst h264_avcc_scan_from.simps) (auto simp: Let_def)
  next
    case unit
    then show ?thesis using 1[OF unit(1) unit(2)[symmetric] refl unit(3)]
      by (subst h264_avcc_scan_from.simps) (simp only: Let_def if_False fst_conv foldl.simps)
  qed
qed

lemma avcc_slice_split: "h264_avcc_slice_from nb p \<longleftrightarrow>
    (\<exists>u \<in> set (fst (split_frames (avcc_get nb) p)). h264_nal_type (u ! 0) \<in> {1..5})"
proof (induction nb p rule: h264_avcc_slice_from.induct)
  case (1 nb p)
  show ?case
  proof (cases rule: avcc_get_cases[of nb p])
    case stop then show ?thesis by (subst h264_avcc_slice_from.simps) simp
  next
    case bad then show ?thesis by (subst h264_avcc_slice_from.simps) (auto simp: Let_def)
  next
    case (unit n)
    have first: "take n (drop nb p) ! 0 = drop nb p ! 0" using unit(3) by simp
    let ?t = "h264_nal_type (drop nb p ! 0)"
    have "h264_avcc_slice_from nb p \<longleftrightarrow>
        (1 \<le> ?t \<and> ?t \<le> 5) \<or> h264_avcc_slice_from nb (drop n (drop nb p))"
      using unit by (subst h264_avcc_slice_from.simps) (simp only: Let_def if_False split: if_split, blast)
    moreover have "h264_avcc_slice_from nb (drop n (drop nb p)) \<longleftrightarrow>
        (\<exists>u \<in> set (fst (split_frames (avcc_get nb) (drop n (drop nb p)))). h264_nal_type (u ! 0) \<in> {1..5})"
      if "\<not> (1 \<le> ?t \<and> ?t \<le> 5)"
      using 1[OF unit(1) unit(2)[symmetric] refl unit(3) refl that] .
    ultimately show ?thesis
      by (simp only: unit(4) fst_conv list.set bex_simps first atLeastAtMost_iff) blast
  qed
qed

text \<open>
  C20: The test for a length-prefixed sample accepts exactly the encodings: with lengths of
  \<open>nb\<close> bytes, 1 to 4, a sample is valid if and only if it is a non-empty sequence of
  non-empty NAL units that fit the width, each behind its big-endian length.
\<close>

theorem avcc_valid_iff:
  "h264_avcc_sample_valid p nb \<longleftrightarrow> nb \<in> {1, 2, 3, 4} \<and>
     (\<exists>us. us \<noteq> [] \<and> list_all (avcc_wf nb) us \<and> p = concat (map (avcc_put nb) us))"
proof (cases "nb \<in> {1, 2, 3, 4}")
  case True
  then have fr: "framing (avcc_put nb) (avcc_wf nb) (avcc_get nb)" by (intro avcc_framing) auto
  have none: "avcc_get nb [] = None" using True by (auto simp: avcc_get_def)
  have "h264_avcc_valid_from nb p \<longleftrightarrow> (\<exists>us. list_all (avcc_wf nb) us \<and> p = concat (map (avcc_put nb) us))"
    using framing.split_all_iff[OF fr, of p] none by (simp add: avcc_valid_split list_all_iff)
  moreover have "nb \<le> length (concat (map (avcc_put nb) us)) \<longleftrightarrow> us \<noteq> []" for us
    using True by (cases us) (auto simp: avcc_put_def)
  moreover have "h264_avcc_sample_valid p nb \<longleftrightarrow> nb \<le> length p \<and> h264_avcc_valid_from nb p"
    using True by (auto simp: h264_avcc_sample_valid_def)
  ultimately show ?thesis using True by blast
next
  case False
  then show ?thesis by (auto simp: h264_avcc_sample_valid_def)
qed

text \<open>The NAL units the length-prefixed walks see in a well-formed sample are its units.\<close>

lemma avcc_units:
  assumes "nb \<in> {1, 2, 3, 4}" "list_all (avcc_wf nb) us"
  shows "split_frames (avcc_get nb) (concat (map (avcc_put nb) us)) = (us, [])"
proof -
  have fr: "framing (avcc_put nb) (avcc_wf nb) (avcc_get nb)" using assms by (intro avcc_framing) auto
  have "avcc_get nb [] = None" using assms by (auto simp: avcc_get_def)
  with framing.split_put[OF fr, of us "[]"] assms(2) show ?thesis by (simp add: list_all_iff)
qed

text \<open>The last unit of a type, which is what the parameter-set scans keep.\<close>

definition last_of_type :: "nat \<Rightarrow> bytes list \<Rightarrow> bytes option" where
  "last_of_type t us = find (\<lambda>u. h264_nal_type (u ! 0) = t) (rev us)"

lemma find_append: "find P (xs @ ys) = (case find P xs of None \<Rightarrow> find P ys | Some x \<Rightarrow> Some x)"
  by (induction xs) simp_all

lemma scan_params_fold:
  assumes "list_all (\<lambda>u. u \<noteq> []) us"
  shows "foldl h264_scan_params c us =
    \<lparr>p_sps = (case last_of_type 7 us of None \<Rightarrow> p_sps c | Some u \<Rightarrow> Some u),
     p_pps = (case last_of_type 8 us of None \<Rightarrow> p_pps c | Some u \<Rightarrow> Some u)\<rparr>"
  using assms
proof (induction us arbitrary: c)
  case Nil
  then show ?case by (simp add: last_of_type_def)
next
  case (Cons u us)
  then show ?case
    by (cases "find (\<lambda>u. h264_nal_type (u ! 0) = 7) (rev us)"; cases "find (\<lambda>u. h264_nal_type (u ! 0) = 8) (rev us)")
      (simp_all add: last_of_type_def find_append h264_scan_params_def)
qed

text \<open>
  Reading a length-prefixed sample with four-byte lengths, the kind the RTMP and MP4
  inputs produce, sees exactly its NAL units: the sample has a slice if and only if one of
  them is of type 1 to 5, and the parameter sets found are the last SPS and the last PPS.
\<close>

theorem avcc_sample_read:
  assumes "us \<noteq> []" "list_all (avcc_wf 4) us"
  shows "(let d = concat (map (avcc_put 4) us) in
    h264_avcc_nalu_bytes d = 4 \<and>
    h264_avcc_es_has_slice d = list_ex is_vcl us \<and>
    h264_avcc_es_extract_sps_pps d =
      (last_of_type 7 us \<noteq> None \<and> last_of_type 8 us \<noteq> None,
       \<lparr>p_sps = last_of_type 7 us, p_pps = last_of_type 8 us\<rparr>))"
proof -
  let ?d = "concat (map (avcc_put 4) us)"
  note un = avcc_units[of 4 us, OF _ assms(2), simplified]
  have ne: "list_all (\<lambda>u. u \<noteq> []) us" using assms(2) by (auto simp: avcc_wf_def list_all_iff)
  have len: "5 \<le> length ?d" using assms by (cases us) (auto simp: avcc_put_def avcc_wf_def Suc_le_eq)
  have valid: "h264_avcc_sample_valid ?d 4"
    using len by (simp add: h264_avcc_sample_valid_def avcc_valid_split un)
  have nb: "h264_avcc_nalu_bytes ?d = 4"
    using valid by (simp add: h264_avcc_nalu_bytes_def)
  have slice: "h264_avcc_es_has_slice ?d = list_ex is_vcl us"
    using len nb ne by (auto simp: h264_avcc_es_has_slice_def avcc_slice_split un is_vcl_def
        list_ex_iff list_all_iff)
  have "h264_avcc_es_extract_sps_pps ?d =
      (last_of_type 7 us \<noteq> None \<and> last_of_type 8 us \<noteq> None,
       \<lparr>p_sps = last_of_type 7 us, p_pps = last_of_type 8 us\<rparr>)"
    using len nb ne by (simp add: h264_avcc_es_extract_sps_pps_def avcc_scan_split un scan_params_fold
        Let_def split: option.split)
  with nb slice show ?thesis by (simp add: Let_def)
qed

lemma avcc_sample_read_witness:
  "h264_avcc_es_has_slice (concat (map (avcc_put 4) [[0x67, 1], [0x68, 2], [0x65, 3]]))"
  using avcc_sample_read[of "[[0x67, 1], [0x68, 2], [0x65, 3]]"]
  by (simp add: avcc_wf_def Let_def is_vcl_def h264_nal_type_def)

section \<open>Exp-Golomb codes\<close>

text \<open>
  The code of clause 9.1 of the standard: \<open>z\<close> zero bits, a one, and the \<open>z\<close> bits of \<open>m\<close>,
  the highest first; it stands for \<open>2^z - 1 + m\<close>.
\<close>

definition be_bits :: "nat \<Rightarrow> nat \<Rightarrow> bool list" where
  "be_bits z m = map (bit m) (rev [0..<z])"

definition ue_code :: "nat \<Rightarrow> nat \<Rightarrow> bool list" where
  "ue_code z m = replicate z False @ True # be_bits z m"

definition nal_bits :: "bytes \<Rightarrow> bool list" where
  "nal_bits nal = concat (map (\<lambda>b. map (bit b) [7, 6, 5, 4, 3, 2, 1, 0]) nal)"

lemma length_nal_bits [simp]: "length (nal_bits nal) = 8 * length nal"
  by (induction nal) (simp_all add: nal_bits_def)

lemma nth_nal_bits: "i < 8 * length nal \<Longrightarrow> nal_bits nal ! i = bit (nal ! (i div 8)) (7 - i mod 8)"
proof (induction nal arbitrary: i)
  case (Cons b nal)
  show ?case
  proof (cases "i < 8")
    case True
    then have "i \<in> {0, 1, 2, 3, 4, 5, 6, 7}" by auto
    then show ?thesis by (auto simp: nal_bits_def nth_append)
  next
    case False
    then obtain j where "i = 8 + j" by (metis le_Suc_ex not_less)
    moreover have "(8 + j) div 8 = Suc (j div 8)" by simp
    ultimately show ?thesis using Cons by (simp add: nal_bits_def nth_append)
  qed
qed simp

lemma bit_get_bits: "drop p (nal_bits nal) = b # bs \<Longrightarrow>
    h264_bit_get nal p = (b, p + 1) \<and> p < length nal * 8 \<and> drop (p + 1) (nal_bits nal) = bs"
proof -
  assume d: "drop p (nal_bits nal) = b # bs"
  then have p: "p < 8 * length nal"
    by (metis drop_all length_nal_bits list.distinct(1) not_less)
  moreover have "nal_bits nal ! p = b" using d p by (metis Cons_nth_drop_Suc length_nal_bits list.inject)
  moreover have "drop (p + 1) (nal_bits nal) = bs" using d by (metis drop_Suc tl_drop drop_tl list.sel(3) Suc_eq_plus1)
  ultimately show ?thesis by (simp add: h264_bit_get_def nth_nal_bits not_le mult.commute)
qed

lemma ue_zeros_code: "drop p (nal_bits nal) = replicate z False @ True # bs \<Longrightarrow>
    h264_ue_zeros nal p k = (k + z, p + z + 1)"
proof (induction z arbitrary: p k)
  case 0
  then show ?case using bit_get_bits[of p nal True bs] by (subst h264_ue_zeros.simps) simp
next
  case (Suc z)
  from Suc.prems have d: "drop p (nal_bits nal) = False # (replicate z False @ True # bs)" by simp
  note b = bit_get_bits[OF d]
  have "p + 1 < length nal * 8"
    using b[THEN conjunct2, THEN conjunct2]
    by (metis append_is_Nil_conv drop_all length_nal_bits list.distinct(1) mult.commute not_le)
  with Suc.IH[of "p + 1" "k + 1"] b show ?case by (subst h264_ue_zeros.simps) simp
qed

lemma ue_bits_fold: "drop p (nal_bits nal) = bs @ rest \<Longrightarrow>
    h264_ue_bits nal (length bs) p v =
      (foldl (\<lambda>v b. push_bit 1 v OR (if b then 1 else 0)) v bs, p + length bs)"
proof (induction bs arbitrary: p v)
  case (Cons b bs)
  from Cons.prems have d: "drop p (nal_bits nal) = b # (bs @ rest)" by simp
  from bit_get_bits[OF d] Cons.IH[of "p + 1"] show ?case by simp
qed simp

lemma shift_in_bit: "push_bit 1 v OR (if b then 1 else 0) = 2 * v + (of_bool b :: u32)"
proof -
  have "push_bit 1 v AND of_bool b = (0 :: u32)"
    by (rule bit_eqI) (auto simp: bit_simps bit_0)
  from disjunctive_add_eq_or[OF this] show ?thesis by (simp add: push_bit_eq_mult mult.commute)
qed

lemma fold_be_bits: "foldl (\<lambda>v b. push_bit 1 v OR (if b then 1 else 0)) 0 (be_bits z m) =
    (of_nat (take_bit z m) :: u32)"
proof -
  have "foldl (\<lambda>v b. push_bit 1 v OR (if b then 1 else 0)) (of_nat a) bs =
      (of_nat (foldl (\<lambda>v b. 2 * v + of_bool b) a bs) :: u32)" for a bs
  proof (induction bs arbitrary: a)
    case (Cons b bs)
    have "push_bit 1 (of_nat a) OR (if b then 1 else 0) = (of_nat (2 * a + of_bool b) :: u32)"
      by (simp only: shift_in_bit) simp
    then show ?case by (simp only: foldl.simps Cons)
  qed simp
  from this[of 0] have "foldl (\<lambda>v b. push_bit 1 v OR (if b then 1 else 0)) 0 (be_bits z m) =
      (of_nat (foldl (\<lambda>v b. 2 * v + of_bool b) 0 (be_bits z m)) :: u32)" by simp
  also have "foldl (\<lambda>v b. 2 * v + of_bool b) 0 (be_bits z m) = horner_sum of_bool 2 (map (bit m) [0..<z])"
    by (simp add: be_bits_def foldl_conv_foldr rev_map[symmetric] horner_sum_foldr add.commute)
  also have "\<dots> = take_bit z m" by (rule horner_sum_bit_eq_take_bit)
  finally show ?thesis .
qed

text \<open>
  The Exp-Golomb reader decodes: where the bits of a NAL unit from a position on start
  with the code of \<open>2^z - 1 + m\<close>, of at most 31 leading zeros, the reader returns this number
  and moves behind the code. The numbers are those of the standard, which fit 32 bits.
\<close>

theorem read_ue_decodes:
  assumes "drop p (nal_bits nal) = ue_code z m @ rest" "m < 2 ^ z" "z < 32"
  shows "unat (fst (h264_read_ue nal p)) = 2 ^ z - 1 + m
    \<and> snd (h264_read_ue nal p) = p + length (ue_code z m)"
proof -
  have d: "drop p (nal_bits nal) = replicate z False @ True # (be_bits z m @ rest)"
    using assms(1) by (simp add: ue_code_def)
  have d': "drop (p + z + 1) (nal_bits nal) = be_bits z m @ rest"
  proof -
    have "drop (z + 1) (drop p (nal_bits nal)) = be_bits z m @ rest" by (simp add: d)
    then show ?thesis by (simp add: ac_simps)
  qed
  have lb: "length (be_bits z m) = z" by (simp add: be_bits_def)
  have bits: "h264_ue_bits nal z (p + z + 1) 0 = (of_nat m, p + z + 1 + z)"
    using ue_bits_fold[OF d', of 0]
    by (simp only: lb fold_be_bits take_bit_nat_eq_self[OF assms(2)])
  have r: "h264_read_ue nal p = (of_nat m + push_bit z 1 - 1, p + z + 1 + z)"
    using ue_zeros_code[OF d, of 0] by (simp add: h264_read_ue_def bits[simplified])
  have "(2 :: nat) ^ z \<le> 2 ^ 31" using assms(3) by (intro power_increasing) auto
  then have "2 ^ z \<le> (2147483648 :: nat)" by simp
  with assms(2) have lt: "2 ^ z - 1 + m < 2 ^ 32" by simp
  have "2 ^ z - 1 + m + 1 = 2 ^ z + (m :: nat)" by simp
  then have "of_nat (2 ^ z - 1 + m) + 1 = (2 ^ z + of_nat m :: u32)"
    by (metis of_nat_1 of_nat_add of_nat_numeral of_nat_power)
  then have "(of_nat m + push_bit z 1 - 1 :: u32) = of_nat (2 ^ z - 1 + m)"
    by (simp only: push_bit_eq_mult mult_1_left diff_eq_eq) (simp only: add.commute)
  with lt have "unat (of_nat m + push_bit z 1 - 1 :: u32) = 2 ^ z - 1 + m"
    by (simp only: unat_of_nat) (simp add: take_bit_nat_eq_self)
  with r show ?thesis by (simp add: ue_code_def lb)
qed

lemma read_ue_decodes_witness: "unat (fst (h264_read_ue [0x65, 0x2c] 8)) = 4"
proof -
  have "drop 8 (nal_bits [0x65, 0x2c]) = ue_code 2 1 @ [True, False, False]"
    by (simp add: nal_bits_def ue_code_def be_bits_def upt_rec eval_nat_numeral bit_simps)
  from read_ue_decodes[OF this] show ?thesis by simp
qed

section \<open>Copying the VCL NAL units\<close>

text \<open>
  Copying the slices of an access unit writes every NAL unit of type 1 to 5, whole, in
  order and behind a four-byte start code, and nothing else; if they do not all fit the
  routine reports it and writes no more than the capacity, and a buffer with no slice is
  refused.
\<close>

theorem copy_vcl_output:
  "zms_h264_annexb_copy_vcl nalus a cap =
     (let out = annexb_join (filter is_vcl (nalus a)) in
      if length a < 5 then (ZTK_ERR_INVALID, [])
      else if length out > cap then (ZTK_ERR_BUFFER_TOO_SMALL, [])
      else if out = [] then (ZTK_ERR_INVALID, [])
      else (ZTK_OK, out))"
  using h264_append_vcl_fold[of "\<lparr>v_out = [], v_err = False\<rparr>" cap "nalus a"]
  by (auto simp: zms_h264_annexb_copy_vcl_def Let_def split: if_splits)

text \<open>The same for H.265, whose slices have the types below 32.\<close>

definition hevc_is_vcl :: "bytes \<Rightarrow> bool" where
  "hevc_is_vcl u \<longleftrightarrow> u \<noteq> [] \<and> hevc_nal_type (u ! 0) < 32"

lemma hevc_append_vcl_err: "v_err c \<Longrightarrow> foldl (hevc_append_vcl cap) c us = c"
  by (induction us) (simp_all add: hevc_append_vcl_def)

lemma hevc_append_vcl_fold:
  assumes "\<not> v_err c" "length (v_out c) \<le> cap"
  shows "let c' = foldl (hevc_append_vcl cap) c us; out = v_out c @ annexb_join (filter hevc_is_vcl us) in
    (if length out \<le> cap then \<not> v_err c' \<and> v_out c' = out else v_err c')"
  using assms
proof (induction us arbitrary: c)
  case (Cons u us)
  consider (skip) "\<not> hevc_is_vcl u" | (over) "hevc_is_vcl u" "length (v_out c) + 4 + length u > cap"
    | (fit) "hevc_is_vcl u" "length (v_out c) + 4 + length u \<le> cap" by linarith
  then show ?case
  proof cases
    case skip
    then have "hevc_append_vcl cap c u = c"
      using Cons.prems by (auto simp: hevc_append_vcl_def hevc_is_vcl_def)
    with Cons skip show ?thesis by simp
  next
    case over
    then have "hevc_append_vcl cap c u = c\<lparr>v_err := True\<rparr>"
      using Cons.prems by (simp add: hevc_append_vcl_def hevc_is_vcl_def)
    with over show ?thesis by (simp add: hevc_append_vcl_err Let_def)
  next
    case fit
    then have "hevc_append_vcl cap c u = c\<lparr>v_out := v_out c @ start_code @ u\<rparr>"
      using Cons.prems by (simp add: hevc_append_vcl_def hevc_is_vcl_def)
    with fit Cons.IH[of "c\<lparr>v_out := v_out c @ start_code @ u\<rparr>"] Cons.prems show ?thesis
      by (simp add: Let_def)
  qed
qed simp

lemma h265_copy_vcl_output:
  "zms_h265_annexb_copy_vcl nalus a cap =
     (let out = annexb_join (filter hevc_is_vcl (nalus a)) in
      if length a < 5 then (ZTK_ERR_INVALID, [])
      else if length out > cap then (ZTK_ERR_BUFFER_TOO_SMALL, [])
      else if out = [] then (ZTK_ERR_INVALID, [])
      else (ZTK_OK, out))"
  using hevc_append_vcl_fold[of "\<lparr>v_out = [], v_err = False\<rparr>" cap "nalus a"]
  by (auto simp: zms_h265_annexb_copy_vcl_def Let_def split: if_splits)

text \<open>
  Building an H.265 access unit for RTP with parameter sets in front: if VPS, SPS and PPS
  fit the buffer, the output is these three and then the slices. If they do not, the routine
  still succeeds in two cases, without the VPS or without VPS and SPS: a parameter set that
  did not fit resets the position, and the next one is written over what was there.
\<close>

theorem build_rtp_au_output:
  assumes "5 \<le> length a" "vps \<noteq> []" "sps \<noteq> []" "pps \<noteq> []"
    and "8 + length sps + length pps \<le> cap"
  shows "zms_h265_annexb_build_rtp_au nalus (Some vps) (Some sps) (Some pps) a True cap =
    (let V = 4 + length vps; S = 4 + length sps; P = 4 + length pps;
         out = (\<lambda>ps. annexb_join ps @ annexb_join (filter hevc_is_vcl (nalus a)))
     in if V + S \<le> cap \<and> V + S + P > cap then (ZTK_ERR_BUFFER_TOO_SMALL, [])
        else let ps = (if V + S + P \<le> cap then [vps, sps, pps] else if V \<le> cap then [pps] else [sps, pps])
          in if length (out ps) > cap then (ZTK_ERR_BUFFER_TOO_SMALL, [])
             else if filter hevc_is_vcl (nalus a) = [] then (ZTK_ERR_INVALID, [])
             else (ZTK_OK, out ps))"
proof -
  let ?w = h265_annexb_write_nal
  define vcl where "vcl = annexb_join (filter hevc_is_vcl (nalus a))"
  have vcl0: "filter hevc_is_vcl (nalus a) = [] \<longleftrightarrow> vcl = []"
    by (cases "filter hevc_is_vcl (nalus a)") (simp_all add: vcl_def start_code_def)
  have au: "zms_h265_annexb_build_rtp_au nalus (Some vps) (Some sps) (Some pps) a True cap =
      (let o3 = pos_of (?w cap (pos_of (?w cap (pos_of (?w cap [] (Some vps))) (Some sps))) (Some pps)) in
       if o3 = [] then (ZTK_ERR_BUFFER_TOO_SMALL, [])
       else if length vcl > cap - length o3 then (ZTK_ERR_BUFFER_TOO_SMALL, [])
       else if vcl = [] then (ZTK_ERR_INVALID, []) else (ZTK_OK, o3 @ vcl))"
    using assms by (simp add: zms_h265_annexb_build_rtp_au_def h265_copy_vcl_output Let_def
        flip: vcl_def)
  have wr: "pos_of (?w cap q (Some n)) = (if length q + 4 + length n > cap then [] else q @ start_code @ n)"
    if "n \<noteq> []" for q n using that by (simp add: pos_of_def h265_annexb_write_nal_def)
  have sc: "start_code @ xs \<noteq> []" for xs by (simp add: start_code_def)
  consider (all) "12 + length vps + length sps + length pps \<le> cap"
    | (none) "8 + length vps + length sps \<le> cap" "cap < 12 + length vps + length sps + length pps"
    | (pps) "4 + length vps \<le> cap" "cap < 8 + length vps + length sps"
    | (sps) "cap < 4 + length vps" by linarith
  then show ?thesis
  proof cases
    case all then show ?thesis
      using assms by (simp add: au wr vcl0 Let_def sc less_diff_conv flip: vcl_def) linarith
  next
    case none then show ?thesis using assms by (simp add: au wr Let_def)
  next
    case pps then show ?thesis
      using assms by (simp add: au wr vcl0 Let_def sc less_diff_conv flip: vcl_def) linarith
  next
    case sps then show ?thesis
      using assms by (simp add: au wr vcl0 Let_def sc less_diff_conv flip: vcl_def) linarith
  qed
qed

lemma build_rtp_au_output_witness:
  "zms_h265_annexb_build_rtp_au (\<lambda>_. [[0x26, 1, 2]]) (Some (replicate 30 0x40)) (Some [0x42, 1])
     (Some [0x44, 1]) [0, 0, 0, 1, 0x26, 1, 2] True 20 =
   (ZTK_OK, [0, 0, 0, 1, 0x42, 1, 0, 0, 0, 1, 0x44, 1, 0, 0, 0, 1, 0x26, 1, 2])"
  using build_rtp_au_output[of "[0, 0, 0, 1, 0x26, 1, 2]" "replicate 30 0x40" "[0x42, 1]" "[0x44, 1]" 20
      "\<lambda>_. [[0x26, 1, 2]]"]
  by (simp add: Let_def hevc_is_vcl_def hevc_nal_type_def start_code_def)

section \<open>The start code scan stays inside the buffer\<close>

lemma start_code3_inside: "p \<noteq> [] \<Longrightarrow> last p \<noteq> 0 \<Longrightarrow> start_code3 p \<noteq> None"
  by (cases p; cases "tl p"; cases "tl (tl p)") (auto simp: start_code3_def)

lemma last_drop_ne: "drop n p \<noteq> [] \<Longrightarrow> last (drop n p) = last p"
  by simp

lemma has_nal_type_inside: "p = [] \<or> last p \<noteq> 0 \<Longrightarrow> h264_has_nal_type_from want p \<noteq> None"
proof (induction "length p" arbitrary: p rule: less_induct)
  case less
  show ?case
  proof (cases "p = []")
    case True
    then show ?thesis by (subst h264_has_nal_type_from.simps) simp
  next
    case False
    then have l: "last p \<noteq> 0" and len: "0 < length p" using less.prems by auto
    have rec: "h264_has_nal_type_from want (drop n p) \<noteq> None" if "0 < n" for n
      using less.hyps[of "drop n p"] l len that last_drop_ne[of n p] by fastforce
    obtain sc where "start_code3 p = Some sc" using start_code3_inside[OF False l] by blast
    with rec[of 1] rec[of 4] rec[of 5] False show ?thesis
      by (subst h264_has_nal_type_from.simps) (auto simp: Let_def drop_drop)
  qed
qed

text \<open>
  The scan for a NAL unit type reads only inside its buffer when the buffer ends in a
  byte that is not 0, as every complete NAL unit does. When it ends in 0 it can read the byte
  behind the end: the three-byte start code is compared without looking at the length.
\<close>

theorem has_nal_type_reads:
  "(a = [] \<or> last a \<noteq> 0 \<longrightarrow> h264_annexb_has_nal_type a want \<noteq> None) \<and>
   h264_annexb_has_nal_type [0, 0, 0, 1, 6, 5, 0] 1 = None"
proof -
  have "h264_has_nal_type_from 1 [0, 0, 0, 1, 6, 5, 0] = None"
    by (simp add: h264_has_nal_type_from.simps start_code3_def h264_nal_type_def)
  then show ?thesis using has_nal_type_inside[of a want]
    by (auto simp: h264_annexb_has_nal_type_def)
qed

lemma has_nal_type_reads_witness:
  "h264_annexb_has_nal_type [0, 0, 0, 1, 0x65, 1] 5 \<noteq> None"
  using has_nal_type_reads[of "[0, 0, 0, 1, 0x65, 1]" 5] by simp

end
