(* ===== verification/Media_Clock.thy ===== *)
theory Media_Clock
  imports Media_Types
begin

text \<open>
  Time stamps, \<open>src/engine/media_clock.c\<close>: the per-track DeltaStamp with its optional sync
  master, the ingest timeline of an audio/video pair, the egress timelines of the FLV and
  TS muxers and the conversions between clocks. The \<open>int64_t\<close> values are integers: they are
  sums of millisecond differences, far from the ends of the type; \<open>uint32_t\<close> and
  \<open>uint64_t\<close> values are words and wrap. The master a stamp points to is passed with it and
  returned updated.
\<close>

unbundle bit_operations_syntax

definition ZMS_STAMP_MAX_DELTA_MS :: nat where "ZMS_STAMP_MAX_DELTA_MS = 300"
definition ZMS_STAMP_SYNC_DRIFT_MS :: int where "ZMS_STAMP_SYNC_DRIFT_MS = 300"
definition ZMS_STAMP_SYNC_INPUT_MS :: int where "ZMS_STAMP_SYNC_INPUT_MS = 5000"
definition ZMS_MPEGTS_CLOCK_HZ :: u32 where "ZMS_MPEGTS_CLOCK_HZ = 90000"
definition ZMS_NTP_UNIX_OFFSET :: u64 where "ZMS_NTP_UNIX_OFFSET = 2208988800"
definition ZMS_MEDIA_TS_MIN_STEP_MS :: u32 where "ZMS_MEDIA_TS_MIN_STEP_MS = 40"
definition ZMS_MEDIA_TS_REWIND_THRESHOLD_MS :: u32 where "ZMS_MEDIA_TS_REWIND_THRESHOLD_MS = 5000"

lemmas clock_limits = ZMS_STAMP_MAX_DELTA_MS_def ZMS_STAMP_SYNC_DRIFT_MS_def
  ZMS_STAMP_SYNC_INPUT_MS_def ZMS_MPEGTS_CLOCK_HZ_def ZMS_NTP_UNIX_OFFSET_def
  ZMS_MEDIA_TS_MIN_STEP_MS_def ZMS_MEDIA_TS_REWIND_THRESHOLD_MS_def

section \<open>DeltaStamp\<close>

record zms_track_stamp =
  t_max_delta_ms :: nat
  t_last_stamp :: int
  t_last_delta :: int
  t_relative_ms :: int
  t_last_dts_in :: int
  t_need_sync :: int

definition zms_track_stamp_zero :: zms_track_stamp where
  "zms_track_stamp_zero = \<lparr>t_max_delta_ms = 0, t_last_stamp = 0, t_last_delta = 0,
     t_relative_ms = 0, t_last_dts_in = 0, t_need_sync = 0\<rparr>"

definition zms_track_stamp_reset :: "zms_track_stamp \<Rightarrow> zms_track_stamp" where
  "zms_track_stamp_reset s = zms_track_stamp_zero\<lparr>
     t_max_delta_ms := (if t_max_delta_ms s > 0 then t_max_delta_ms s else ZMS_STAMP_MAX_DELTA_MS),
     t_last_delta := 1\<rparr>"

definition zms_track_stamp_sync_to :: "zms_track_stamp \<Rightarrow> int \<Rightarrow> zms_track_stamp" where
  "zms_track_stamp_sync_to s count = s\<lparr>t_need_sync := t_need_sync s + (if count > 0 then count else 1)\<rparr>"

text \<open>The increment of one input stamp: \<open>stamp_delta\<close>.\<close>

definition stamp_delta :: "zms_track_stamp \<Rightarrow> int \<Rightarrow> int \<times> zms_track_stamp" where
  "stamp_delta s stamp =
     (if t_last_stamp s = 0 then (0, if stamp \<noteq> 0 then s\<lparr>t_last_stamp := stamp\<rparr> else s)
      else
        let ret = stamp - t_last_stamp s;
            s1 = s\<lparr>t_last_stamp := stamp\<rparr>;
            step = (if t_last_delta s > 0 then t_last_delta s else 1)
        in if ret \<ge> 0 then
             (if ret > int (t_max_delta_ms s) then (step, s1\<lparr>t_need_sync := t_need_sync s + 1\<rparr>)
              else (ret, s1\<lparr>t_last_delta := (if ret > 0 then ret else 1)\<rparr>))
           else if - ret > int (t_max_delta_ms s) then (step, s1\<lparr>t_need_sync := t_need_sync s + 1\<rparr>)
           else (ret, s1))"

definition stamp_sync_l ::
  "zms_track_stamp \<Rightarrow> zms_track_stamp option \<Rightarrow> zms_track_stamp \<times> zms_track_stamp option" where
  "stamp_sync_l s mo =
     (case mo of
        None \<Rightarrow> (s, None)
      | Some m \<Rightarrow>
          if t_last_dts_in m = 0 then (s, Some m)
          else if t_need_sync s = 0 \<and> t_need_sync m = 0 then (s, Some m)
          else if \<bar>t_last_dts_in s - t_last_dts_in m\<bar> \<ge> ZMS_STAMP_SYNC_INPUT_MS \<and> t_need_sync s \<le> 3
            then (s, Some m)
          else
            let rel_diff = t_relative_ms s - t_relative_ms m;
                dts_diff = (if rel_diff > ZMS_STAMP_SYNC_DRIFT_MS then 0
                            else if rel_diff < - ZMS_STAMP_SYNC_DRIFT_MS then 0 else rel_diff);
                target = t_relative_ms m + dts_diff;
                (s1, m1) = (if target > t_relative_ms s
                            then (s\<lparr>t_relative_ms := target, t_last_stamp := t_last_dts_in s\<rparr>, m)
                            else if target < t_relative_ms m
                            then (s, m\<lparr>t_relative_ms := target, t_last_stamp := t_last_dts_in m\<rparr>)
                            else (s, m));
                s2 = (if t_need_sync s1 > 0 then s1\<lparr>t_need_sync := t_need_sync s1 - 1\<rparr> else s1);
                m2 = (if t_need_sync m1 > 0 then m1\<lparr>t_need_sync := t_need_sync m1 - 1\<rparr> else m1)
            in (s2, Some m2))"

definition zms_track_stamp_revise ::
  "zms_track_stamp \<Rightarrow> zms_track_stamp option \<Rightarrow> u64
     \<Rightarrow> u32 \<times> zms_track_stamp \<times> zms_track_stamp option" where
  "zms_track_stamp_revise s mo raw_ms =
     (let s0 = (if t_max_delta_ms s = 0 then s\<lparr>t_max_delta_ms := ZMS_STAMP_MAX_DELTA_MS\<rparr> else s);
          dts = sint raw_ms;
          s1 = (if t_last_dts_in s0 \<noteq> dts then
                  (case stamp_delta s0 dts of
                     (d, s') \<Rightarrow> s'\<lparr>t_relative_ms := t_relative_ms s' + d, t_last_dts_in := dts\<rparr>)
                else s0)
      in case stamp_sync_l s1 mo of
           (s2, mo') \<Rightarrow> (if t_relative_ms s2 < 0 then 0 else word_of_int (t_relative_ms s2), s2, mo'))"

section \<open>Clock conversions\<close>

record zms_time_base =
  tb_num :: u32
  tb_den :: u32

definition zms_time_base_ms :: zms_time_base where
  "zms_time_base_ms = \<lparr>tb_num = 1, tb_den = 1000\<rparr>"

definition clock_or_default :: "u32 \<Rightarrow> u32" where
  "clock_or_default hz = (if hz > 0 then hz else ZMS_MPEGTS_CLOCK_HZ)"

definition zms_time_base_from_hz :: "u32 \<Rightarrow> zms_time_base" where
  "zms_time_base_from_hz hz = \<lparr>tb_num = 1, tb_den = clock_or_default hz\<rparr>"

definition zms_ts_rescale_q :: "u64 \<Rightarrow> zms_time_base \<Rightarrow> zms_time_base \<Rightarrow> u64" where
  "zms_ts_rescale_q ts from_tb to_tb =
     (if tb_den from_tb = 0 \<or> tb_den to_tb = 0 then ts
      else (ts * ucast (tb_num to_tb) * ucast (tb_den from_tb))
             div (ucast (tb_den to_tb) * ucast (tb_num from_tb)))"

definition zms_rtp_clock_to_ms :: "u32 \<Rightarrow> u32 \<Rightarrow> u32" where
  "zms_rtp_clock_to_ms rtp_ts hz =
     ucast ((ucast rtp_ts :: u64) * 1000 div ucast (clock_or_default hz))"

definition zms_ms_to_rtp_clock :: "u32 \<Rightarrow> u32 \<Rightarrow> u32" where
  "zms_ms_to_rtp_clock ms hz =
     ucast ((ucast ms :: u64) * ucast (clock_or_default hz) div 1000)"

definition zms_ms_to_mpegts_90k :: "u32 \<Rightarrow> u64" where
  "zms_ms_to_mpegts_90k ms = ucast ms * ucast ZMS_MPEGTS_CLOCK_HZ div 1000"

definition zms_mpegts_90k_to_ms :: "64 word \<Rightarrow> u32" where
  "zms_mpegts_90k_to_ms ticks = (if sint ticks < 0 then 0 else word_of_int (sint ticks div 90))"

definition zms_wall_ms_to_ntp :: "u64 \<Rightarrow> u32 \<times> u32" where
  "zms_wall_ms_to_ntp wall_ms =
     (ucast (wall_ms div 1000 + ZMS_NTP_UNIX_OFFSET),
      ucast ((ucast (ucast (wall_ms mod 1000) :: u32) :: u64) * 0x100000000 div 1000))"

definition zms_codec_frame_duration_ms :: "zms_codec_id \<Rightarrow> u32 \<Rightarrow> u32" where
  "zms_codec_frame_duration_ms codec sample_rate_hz =
     (if codec = ZMS_CODEC_AAC then
        (let rate = (if sample_rate_hz > 0 then sample_rate_hz else 44100)
         in (1024 * 1000 + rate div 2) div rate)
      else if codec = ZMS_CODEC_H264 then 40
      else ZMS_MEDIA_TS_MIN_STEP_MS)"

section \<open>Stream clock\<close>

record zms_stream_clock =
  c_track :: zms_track_type
  c_frame_dur_ms :: u32
  c_started :: bool
  c_last_raw_ms :: u64
  c_last_pts_ms :: u32
  c_learned_delta_ms :: u32

definition zms_stream_clock_zero :: zms_stream_clock where
  "zms_stream_clock_zero = \<lparr>c_track = ZMS_TRACK_INVALID, c_frame_dur_ms = 0, c_started = False,
     c_last_raw_ms = 0, c_last_pts_ms = 0, c_learned_delta_ms = 0\<rparr>"

definition zms_stream_clock_reset :: "zms_stream_clock \<Rightarrow> zms_stream_clock" where
  "zms_stream_clock_reset c = zms_stream_clock_zero"

definition zms_stream_clock_init ::
  "zms_stream_clock \<Rightarrow> zms_track_type \<Rightarrow> zms_codec_id \<Rightarrow> u32 \<Rightarrow> zms_stream_clock" where
  "zms_stream_clock_init c track codec rate =
     (let dur0 = zms_codec_frame_duration_ms codec rate;
          dur = (if track = ZMS_TRACK_VIDEO \<and> dur0 < 40 then 40 else dur0)
      in c\<lparr>c_track := track, c_frame_dur_ms := dur,
           c_learned_delta_ms := (if track = ZMS_TRACK_VIDEO then 133 else dur)\<rparr>)"

definition stream_clock_step :: "zms_stream_clock \<Rightarrow> u32" where
  "stream_clock_step c =
     (if c_track c = ZMS_TRACK_VIDEO \<and> c_learned_delta_ms c \<ge> 16 \<and> c_learned_delta_ms c \<le> 500
      then c_learned_delta_ms c
      else if c_frame_dur_ms c > 0 then c_frame_dur_ms c else ZMS_MEDIA_TS_MIN_STEP_MS)"

definition zms_stream_clock_advance :: "zms_stream_clock \<Rightarrow> u64 \<Rightarrow> u32 \<times> zms_stream_clock" where
  "zms_stream_clock_advance c raw_ms =
     (if \<not> c_started c then (0, c\<lparr>c_started := True, c_last_raw_ms := raw_ms, c_last_pts_ms := 0\<rparr>)
      else if c_last_pts_ms c > ZMS_MEDIA_TS_REWIND_THRESHOLD_MS \<and>
              raw_ms + ucast ZMS_MEDIA_TS_REWIND_THRESHOLD_MS < c_last_raw_ms c then
        (let pts = c_last_pts_ms c + stream_clock_step c
         in (pts, c\<lparr>c_last_pts_ms := pts, c_last_raw_ms := raw_ms\<rparr>))
      else if raw_ms > c_last_raw_ms c then
        (let rel = ucast (raw_ms - c_last_raw_ms c);
             c1 = (if c_track c = ZMS_TRACK_VIDEO \<and> rel \<ge> 16 \<and> rel \<le> 500
                   then c\<lparr>c_learned_delta_ms := rel\<rparr> else c);
             pts = c_last_pts_ms c + rel
         in (pts, c1\<lparr>c_last_pts_ms := pts, c_last_raw_ms := raw_ms\<rparr>))
      else if raw_ms = c_last_raw_ms c then (c_last_pts_ms c, c)
      else
        (let pts = c_last_pts_ms c + stream_clock_step c
         in (pts, c\<lparr>c_last_pts_ms := pts, c_last_raw_ms := raw_ms\<rparr>)))"

section \<open>The ingest timeline\<close>

text \<open>\<open>tl_ast_master\<close>: the audio stamp's master is the video stamp.\<close>

record zms_media_timeline =
  tl_vst :: zms_track_stamp
  tl_ast :: zms_track_stamp
  tl_stamp_linked :: bool
  tl_av_clamp_disabled :: bool
  tl_linear_ms :: bool
  tl_video :: zms_stream_clock
  tl_audio :: zms_stream_clock
  tl_video_clock_hz :: u32
  tl_audio_clock_hz :: u32
  tl_audio_codec :: zms_codec_id
  tl_ast_master :: bool

definition zms_media_timeline_link_stamps :: "zms_media_timeline \<Rightarrow> zms_media_timeline" where
  "zms_media_timeline_link_stamps ml =
     (if tl_stamp_linked ml then ml
      else ml\<lparr>tl_ast := zms_track_stamp_sync_to (tl_ast ml) 1, tl_ast_master := True,
             tl_stamp_linked := True\<rparr>)"

definition zms_media_timeline_set_av_clamp :: "zms_media_timeline \<Rightarrow> bool \<Rightarrow> zms_media_timeline" where
  "zms_media_timeline_set_av_clamp ml enabled = ml\<lparr>tl_av_clamp_disabled := \<not> enabled\<rparr>"

definition zms_media_timeline_new :: zms_media_timeline where
  "zms_media_timeline_new =
     \<lparr>tl_vst = zms_track_stamp_zero\<lparr>t_max_delta_ms := ZMS_STAMP_MAX_DELTA_MS\<rparr>,
      tl_ast = zms_track_stamp_zero\<lparr>t_max_delta_ms := ZMS_STAMP_MAX_DELTA_MS\<rparr>,
      tl_stamp_linked = False, tl_av_clamp_disabled = False, tl_linear_ms = False,
      tl_video = zms_stream_clock_init zms_stream_clock_zero ZMS_TRACK_VIDEO ZMS_CODEC_H264 0,
      tl_audio = zms_stream_clock_init zms_stream_clock_zero ZMS_TRACK_AUDIO ZMS_CODEC_AAC 44100,
      tl_video_clock_hz = ZMS_MPEGTS_CLOCK_HZ, tl_audio_clock_hz = 44100,
      tl_audio_codec = ZMS_CODEC_INVALID, tl_ast_master = False\<rparr>"

definition zms_media_timeline_reset :: "zms_media_timeline \<Rightarrow> zms_media_timeline" where
  "zms_media_timeline_reset ml = zms_media_timeline_new"

definition zms_media_timeline_set_video ::
  "zms_media_timeline \<Rightarrow> zms_codec_id \<Rightarrow> u32 \<Rightarrow> zms_media_timeline" where
  "zms_media_timeline_set_video ml codec hz =
     ml\<lparr>tl_video_clock_hz := clock_or_default hz,
        tl_video := zms_stream_clock_init (tl_video ml) ZMS_TRACK_VIDEO codec 0\<rparr>"

definition zms_media_timeline_set_audio ::
  "zms_media_timeline \<Rightarrow> zms_codec_id \<Rightarrow> u32 \<Rightarrow> zms_media_timeline" where
  "zms_media_timeline_set_audio ml codec hz =
     (let rate = (if hz > 0 then hz else 44100) in
      zms_media_timeline_link_stamps (ml\<lparr>tl_audio_codec := codec, tl_audio_clock_hz := rate,
        tl_audio := zms_stream_clock_init (tl_audio ml) ZMS_TRACK_AUDIO codec rate\<rparr>))"

definition stamp_clamp_av :: "zms_media_timeline \<Rightarrow> zms_media_timeline" where
  "stamp_clamp_av ml =
     (if tl_av_clamp_disabled ml \<or> \<not> tl_stamp_linked ml \<or> t_last_dts_in (tl_ast ml) = 0 \<or>
         t_last_dts_in (tl_vst ml) = 0 then ml
      else
        let diff = t_relative_ms (tl_vst ml) - t_relative_ms (tl_ast ml) in
        if diff > ZMS_STAMP_SYNC_DRIFT_MS then
          ml\<lparr>tl_vst := (tl_vst ml)\<lparr>t_relative_ms := t_relative_ms (tl_ast ml),
                                   t_last_stamp := t_last_dts_in (tl_vst ml)\<rparr>\<rparr>
        else if diff < - ZMS_STAMP_SYNC_DRIFT_MS then
          ml\<lparr>tl_ast := (tl_ast ml)\<lparr>t_relative_ms := t_relative_ms (tl_vst ml),
                                   t_last_stamp := t_last_dts_in (tl_ast ml)\<rparr>\<rparr>
        else ml)"

definition zms_media_timeline_video :: "zms_media_timeline \<Rightarrow> u64 \<Rightarrow> u32 \<times> zms_media_timeline" where
  "zms_media_timeline_video ml raw_ms =
     (let ml1 = zms_media_timeline_link_stamps ml in
      case zms_track_stamp_revise (tl_vst ml1) None raw_ms of
        (_, v, _) \<Rightarrow> let ml2 = stamp_clamp_av (ml1\<lparr>tl_vst := v\<rparr>)
                   in (word_of_int (t_relative_ms (tl_vst ml2)), ml2))"

definition zms_media_timeline_audio :: "zms_media_timeline \<Rightarrow> u64 \<Rightarrow> u32 \<times> zms_media_timeline" where
  "zms_media_timeline_audio ml raw_ms =
     (let ml1 = zms_media_timeline_link_stamps ml in
      case zms_track_stamp_revise (tl_ast ml1) (if tl_ast_master ml1 then Some (tl_vst ml1) else None)
             raw_ms of
        (_, a, mo) \<Rightarrow>
          let ml2 = stamp_clamp_av (ml1\<lparr>tl_ast := a,
                      tl_vst := (case mo of None \<Rightarrow> tl_vst ml1 | Some v \<Rightarrow> v)\<rparr>)
          in (word_of_int (t_relative_ms (tl_ast ml2)), ml2))"

section \<open>The egress timelines\<close>

record zms_mux_timeline =
  m_origin_ms :: u32
  m_origin_set :: bool
  m_last_out_ms :: u32

definition zms_mux_timeline_reset :: zms_mux_timeline where
  "zms_mux_timeline_reset = \<lparr>m_origin_ms = 0, m_origin_set = False, m_last_out_ms = 0\<rparr>"

definition zms_mux_timeline_pts :: "zms_mux_timeline \<Rightarrow> u32 \<Rightarrow> u32 \<times> zms_mux_timeline" where
  "zms_mux_timeline_pts m pts =
     (if \<not> m_origin_set m then (0, m\<lparr>m_origin_ms := pts, m_origin_set := True, m_last_out_ms := 0\<rparr>)
      else
        let out0 = (if pts \<ge> m_origin_ms m then pts - m_origin_ms m else 0);
            out = (if out0 \<le> m_last_out_ms m then m_last_out_ms m + 1 else out0)
        in (out, m\<lparr>m_last_out_ms := out\<rparr>))"

text \<open>The two-track timeline; the index of a track is 1 for audio and 0 for all others.\<close>

record zms_mux_av_timeline =
  a_origin_ms :: "u32 list"
  a_origin_set :: "bool list"
  a_last_out_ms :: "u32 list"
  a_shared_origin_ms :: u32
  a_use_shared_origin :: bool

definition zms_mux_av_timeline_reset :: zms_mux_av_timeline where
  "zms_mux_av_timeline_reset = \<lparr>a_origin_ms = [0, 0], a_origin_set = [False, False],
     a_last_out_ms = [0, 0], a_shared_origin_ms = 0, a_use_shared_origin = False\<rparr>"

definition zms_mux_av_timeline_lock_origin :: "zms_mux_av_timeline \<Rightarrow> u32 \<Rightarrow> zms_mux_av_timeline" where
  "zms_mux_av_timeline_lock_origin m origin = m\<lparr>a_shared_origin_ms := origin,
     a_use_shared_origin := True, a_origin_ms := [origin, origin], a_origin_set := [True, True],
     a_last_out_ms := [0, 0]\<rparr>"

definition zms_mux_av_timeline_shift_origin :: "zms_mux_av_timeline \<Rightarrow> u32 \<Rightarrow> zms_mux_av_timeline" where
  "zms_mux_av_timeline_shift_origin m origin = m\<lparr>a_shared_origin_ms := origin,
     a_use_shared_origin := True, a_origin_ms := [origin, origin], a_origin_set := [True, True]\<rparr>"

definition track_idx :: "zms_track_type \<Rightarrow> nat" where
  "track_idx t = (if t = ZMS_TRACK_AUDIO then 1 else 0)"

definition zms_mux_av_timeline_pts ::
  "zms_mux_av_timeline \<Rightarrow> zms_track_type \<Rightarrow> u32 \<Rightarrow> u32 \<times> zms_mux_av_timeline" where
  "zms_mux_av_timeline_pts m track pts =
     (let idx = track_idx track in
      if a_use_shared_origin m then
        let rel0 = (if pts \<ge> a_shared_origin_ms m then pts - a_shared_origin_ms m else 0);
            rel = (if a_last_out_ms m ! idx > 0 \<and> rel0 \<le> a_last_out_ms m ! idx
                   then a_last_out_ms m ! idx + 1 else rel0)
        in (rel, m\<lparr>a_last_out_ms := (a_last_out_ms m)[idx := rel]\<rparr>)
      else
        let m1 = (if \<not> a_origin_set m ! idx
                  then m\<lparr>a_origin_ms := (a_origin_ms m)[idx := pts],
                         a_origin_set := (a_origin_set m)[idx := True]\<rparr> else m);
            rel0 = (if pts \<ge> a_origin_ms m1 ! idx then pts - a_origin_ms m1 ! idx else 0);
            rel = (if rel0 \<le> a_last_out_ms m1 ! idx then a_last_out_ms m1 ! idx + 1 else rel0)
        in (rel, m1\<lparr>a_last_out_ms := (a_last_out_ms m1)[idx := rel]\<rparr>))"

section \<open>Monotone output\<close>

text \<open>
  \<open>follows a b\<close>: \<open>b\<close> may be put out after \<open>a\<close>. \<open>clock_run\<close> feeds a list of inputs to
  a clock and pairs each with its output.
\<close>

definition follows :: "u32 \<Rightarrow> u32 \<Rightarrow> bool" where
  "follows a b \<longleftrightarrow> a \<le> b \<and> (a > 0 \<longrightarrow> a < b)"

lemma follows_trans: "follows a b \<Longrightarrow> follows b c \<Longrightarrow> follows a c"
  unfolding follows_def by (metis order.trans order_less_le_trans)

fun clock_run :: "('s \<Rightarrow> 'i \<Rightarrow> u32 \<times> 's) \<Rightarrow> 's \<Rightarrow> 'i list \<Rightarrow> ('i \<times> u32) list" where
  "clock_run step s [] = []"
| "clock_run step s (i # is) = (case step s i of (o1, s') \<Rightarrow> (i, o1) # clock_run step s' is)"

text \<open>
  A clock with several channels whose output on a channel never falls behind what it put out
  there last, and passes it once it has left zero, until the 32 bits are used up.
\<close>

locale egress_clock =
  fixes step :: "'s \<Rightarrow> 'i \<Rightarrow> u32 \<times> 's"
    and chan :: "'i \<Rightarrow> nat"
    and last_out :: "'s \<Rightarrow> nat \<Rightarrow> u32"
    and ok :: "'s \<Rightarrow> bool"
  assumes step_ok: "ok s \<Longrightarrow> step s i = (o1, s') \<Longrightarrow> ok s'"
    and step_last: "ok s \<Longrightarrow> step s i = (o1, s') \<Longrightarrow>
      last_out s' c = (if c = chan i then o1 else last_out s c)"
    and step_mono: "ok s \<Longrightarrow> step s i = (o1, s') \<Longrightarrow> last_out s (chan i) < 0xFFFFFFFF \<Longrightarrow>
      follows (last_out s (chan i)) o1"
begin

lemma run_follows:
  "ok s \<Longrightarrow> last_out s c < 0xFFFFFFFF \<Longrightarrow> \<forall>(i, x) \<in> set (clock_run step s is). x < 0xFFFFFFFF \<Longrightarrow>
    \<forall>(i, x) \<in> set (clock_run step s is). chan i = c \<longrightarrow> follows (last_out s c) x"
proof (induction "is" arbitrary: s)
  case (Cons i "is")
  obtain o1 s' where st: "step s i = (o1, s')" by fastforce
  have o1: "chan i = c \<Longrightarrow> follows (last_out s c) o1"
    using step_mono[OF Cons.prems(1) st] Cons.prems(2) by auto
  have last: "last_out s' c = (if c = chan i then o1 else last_out s c)"
    by (rule step_last[OF Cons.prems(1) st])
  have "\<forall>(i, x) \<in> set (clock_run step s' is). chan i = c \<longrightarrow> follows (last_out s' c) x"
    using Cons.IH[OF step_ok[OF Cons.prems(1) st]] Cons.prems(2,3) last by (auto simp: st)
  then show ?case using o1 last by (auto simp: st dest: follows_trans split: if_splits)
qed simp

lemma run_monotone:
  "ok s \<Longrightarrow> \<forall>(i, x) \<in> set (clock_run step s is). x < 0xFFFFFFFF \<Longrightarrow>
    sorted_wrt follows (map snd (filter (\<lambda>(i, x). chan i = c) (clock_run step s is)))"
proof (induction "is" arbitrary: s)
  case (Cons i "is")
  obtain o1 s' where st: "step s i = (o1, s')" by fastforce
  have ok': "ok s'" by (rule step_ok[OF Cons.prems(1) st])
  have last: "last_out s' (chan i) = o1" using step_last[OF Cons.prems(1) st] by simp
  have "\<forall>(j, x) \<in> set (clock_run step s' is). chan j = chan i \<longrightarrow> follows o1 x"
    using run_follows[OF ok', of "chan i" "is"] Cons.prems(2) last by (auto simp: st)
  with Cons.IH[OF ok'] Cons.prems(2) show ?case by (auto simp: st)
qed simp

end

lemma u32_inc: "(x :: u32) < 0xFFFFFFFF \<Longrightarrow> x < x + 1"
  using unat_word_ariths(1)[of x 1] by (simp add: word_less_nat_alt)

lemma next_follows: "(l :: u32) < 0xFFFFFFFF \<Longrightarrow> follows l (if x \<le> l then l + 1 else x)"
  using u32_inc[of l] by (auto simp: not_le follows_def intro: less_imp_le)

interpretation mux: egress_clock zms_mux_timeline_pts "\<lambda>_. 0"
    "\<lambda>m c. if c = 0 then m_last_out_ms m else 0" "\<lambda>m. m_origin_set m \<or> m_last_out_ms m = 0"
proof (unfold_locales, goal_cases)
  case (3 s i o1 s')
  then show ?case
    using next_follows[of "m_last_out_ms s" "if i \<ge> m_origin_ms s then i - m_origin_ms s else 0"]
    by (auto simp: zms_mux_timeline_pts_def Let_def follows_def split: if_splits)
qed (auto simp: zms_mux_timeline_pts_def Let_def split: if_splits)

definition av_ok :: "zms_mux_av_timeline \<Rightarrow> bool" where
  "av_ok m \<longleftrightarrow> length (a_origin_ms m) = 2 \<and> length (a_origin_set m) = 2 \<and> length (a_last_out_ms m) = 2"

lemma track_idx_lt [simp]: "track_idx t < 2"
  by (simp add: track_idx_def)

interpretation av: egress_clock "\<lambda>m (t, pts). zms_mux_av_timeline_pts m t pts" "\<lambda>(t, pts). track_idx t"
    "\<lambda>m c. a_last_out_ms m ! c" av_ok
proof (unfold_locales, goal_cases)
  case (1 s i o1 s')
  then show ?case
    by (auto simp: zms_mux_av_timeline_pts_def Let_def av_ok_def split: if_splits prod.splits)
next
  case (2 s i o1 s' c)
  then show ?case
    by (auto simp: zms_mux_av_timeline_pts_def Let_def av_ok_def split: if_splits prod.splits)
next
  case (3 s i o1 s')
  obtain t pts where i: "i = (t, pts)" by fastforce
  let ?l = "a_last_out_ms s ! track_idx t"
  have l: "?l < 0xFFFFFFFF" using 3(3) by (simp add: i)
  have "o1 = ?l + 1 \<or> ?l < o1 \<or> ?l = 0"
    using 3(2) by (auto simp: i zms_mux_av_timeline_pts_def Let_def not_le word_gt_0 split: if_splits)
  then have "follows ?l o1" using u32_inc[OF l] by (auto simp: follows_def intro: less_imp_le)
  then show ?case by (simp add: i)
qed

text \<open>
  The muxers' time stamps are monotone on each track: whatever the ring's time stamps
  do, including going back, the stamps the two-track timeline gives to a track never
  decrease, and strictly increase once they have left zero, as long as none of them reaches
  the last 32-bit value.
\<close>

theorem mux_av_monotone:
  assumes "av_ok m" "\<forall>(i, x) \<in> set (clock_run (\<lambda>m (t, pts). zms_mux_av_timeline_pts m t pts) m is).
      x < 0xFFFFFFFF"
  shows "sorted_wrt follows (map snd (filter (\<lambda>((t, pts), x). track_idx t = c)
    (clock_run (\<lambda>m (t, pts). zms_mux_av_timeline_pts m t pts) m is)))"
proof -
  have "(\<lambda>(i, x :: u32). (case i of (t, pts :: u32) \<Rightarrow> track_idx t) = c) = (\<lambda>((t, pts), x). track_idx t = c)"
    by (auto simp: fun_eq_iff)
  with av.run_monotone[OF assms, of c] show ?thesis by simp
qed

definition av_inputs :: "(zms_track_type \<times> u32) list" where
  "av_inputs = [(ZMS_TRACK_VIDEO, 1000), (ZMS_TRACK_AUDIO, 990), (ZMS_TRACK_VIDEO, 900), (ZMS_TRACK_AUDIO, 1010)]"

lemma mux_av_monotone_witness:
  "sorted_wrt follows (map snd (filter (\<lambda>((t, pts), x). track_idx t = 0)
    (clock_run (\<lambda>m (t, pts). zms_mux_av_timeline_pts m t pts) zms_mux_av_timeline_reset av_inputs)))
   \<and> map snd (clock_run (\<lambda>m (t, pts). zms_mux_av_timeline_pts m t pts) zms_mux_av_timeline_reset av_inputs)
     = [1, 1, 2, 20]"
proof -
  have "av_ok zms_mux_av_timeline_reset" by code_simp
  moreover have "\<forall>(i, x) \<in> set (clock_run (\<lambda>m (t, pts). zms_mux_av_timeline_pts m t pts)
      zms_mux_av_timeline_reset av_inputs). x < 0xFFFFFFFF" by code_simp
  moreover have "map snd (clock_run (\<lambda>m (t, pts). zms_mux_av_timeline_pts m t pts)
      zms_mux_av_timeline_reset av_inputs) = [1, 1, 2, 20]" by code_simp
  ultimately show ?thesis using mux_av_monotone[of _ av_inputs 0] by blast
qed

text \<open>
  The single-track timeline starts at 0 and is strictly increasing from then on.
\<close>

theorem mux_timeline_monotone:
  assumes "\<forall>(i, x) \<in> set (clock_run zms_mux_timeline_pts zms_mux_timeline_reset is). x < 0xFFFFFFFF"
    "is \<noteq> []"
  shows "sorted_wrt follows (map snd (clock_run zms_mux_timeline_pts zms_mux_timeline_reset is))
    \<and> snd (hd (clock_run zms_mux_timeline_pts zms_mux_timeline_reset is)) = 0"
proof -
  have "sorted_wrt follows (map snd (filter (\<lambda>(i, x). (0 :: nat) = 0)
      (clock_run zms_mux_timeline_pts zms_mux_timeline_reset is)))"
    by (rule mux.run_monotone[OF _ assms(1)]) (simp add: zms_mux_timeline_reset_def)
  moreover have "snd (hd (clock_run zms_mux_timeline_pts zms_mux_timeline_reset is)) = 0"
    using assms(2) by (cases "is") (simp_all add: zms_mux_timeline_pts_def zms_mux_timeline_reset_def)
  ultimately show ?thesis by simp
qed

lemma mux_timeline_monotone_witness:
  "map snd (clock_run zms_mux_timeline_pts zms_mux_timeline_reset [500, 540, 530]) = [0, 40, 41]
    \<and> sorted_wrt follows (map snd (clock_run zms_mux_timeline_pts zms_mux_timeline_reset [500, 540, 530]))"
proof -
  have "\<forall>(i, x) \<in> set (clock_run zms_mux_timeline_pts zms_mux_timeline_reset [500, 540, 530]). x < 0xFFFFFFFF"
    by code_simp
  moreover have "map snd (clock_run zms_mux_timeline_pts zms_mux_timeline_reset [500, 540, 530]) = [0, 40, 41]"
    by code_simp
  ultimately show ?thesis using mux_timeline_monotone[of "[500, 540, 530]"] by blast
qed

text \<open>
  The two-track timeline is monotone per track only: the header promises one decoding
  time line that is monotone over both tracks, but an audio stamp below the last video stamp
  comes out below it.
\<close>

theorem mux_av_not_global:
  assumes "a < v" "v - origin < 0xFFFFFFFF" "origin < a"
  shows "map snd (clock_run (\<lambda>m (t, pts). zms_mux_av_timeline_pts m t pts)
      (zms_mux_av_timeline_lock_origin m origin) [(ZMS_TRACK_VIDEO, v), (ZMS_TRACK_AUDIO, a)])
    = [v - origin, a - origin] \<and> a - origin < v - origin"
proof -
  have le: "origin \<le> a" "origin \<le> v" using assms by auto
  have "unat a - unat origin < unat v - unat origin"
    using assms(1,3) by (auto simp: word_less_nat_alt)
  then have "a - origin < v - origin" using le by (simp add: word_less_nat_alt unat_sub)
  with le show ?thesis
    by (simp add: zms_mux_av_timeline_pts_def zms_mux_av_timeline_lock_origin_def track_idx_def Let_def)
qed

lemma mux_av_not_global_witness:
  "map snd (clock_run (\<lambda>m (t, pts). zms_mux_av_timeline_pts m t pts)
      (zms_mux_av_timeline_lock_origin zms_mux_av_timeline_reset 0)
      [(ZMS_TRACK_VIDEO, 100), (ZMS_TRACK_AUDIO, 60)]) = [100, 60]"
  using mux_av_not_global[of 60 100 0 zms_mux_av_timeline_reset] by simp

section \<open>DeltaStamp\<close>

definition stamp_ok :: "zms_track_stamp \<Rightarrow> bool" where
  "stamp_ok s \<longleftrightarrow> 0 < t_max_delta_ms s \<and> 0 \<le> t_last_delta s \<and> t_last_delta s \<le> int (t_max_delta_ms s)"

lemma stamp_delta_bound:
  assumes "stamp_ok s"
  shows "\<bar>fst (stamp_delta s x)\<bar> \<le> int (t_max_delta_ms s) \<and> stamp_ok (snd (stamp_delta s x))
    \<and> t_max_delta_ms (snd (stamp_delta s x)) = t_max_delta_ms s
    \<and> t_relative_ms (snd (stamp_delta s x)) = t_relative_ms s"
  using assms by (auto simp: stamp_delta_def stamp_ok_def Let_def split: if_splits)

text \<open>
  One input stamp moves a track's timeline by at most the maximal delta, however far the
  input jumps, forwards or backwards; a jump beyond it counts as one frame step. The step
  memory stays within the same bound, so this holds for every following stamp too.
\<close>

theorem stamp_jump_bounded:
  assumes "stamp_ok s" "zms_track_stamp_revise s None raw = (out, s', mo)"
  shows "stamp_ok s' \<and> \<bar>t_relative_ms s' - t_relative_ms s\<bar> \<le> int (t_max_delta_ms s)"
proof -
  have "t_max_delta_ms s \<noteq> 0" using assms(1) by (simp add: stamp_ok_def)
  moreover obtain d s1 where d: "stamp_delta s (sint raw) = (d, s1)" by fastforce
  ultimately have "s' = (if t_last_dts_in s \<noteq> sint raw
      then s1\<lparr>t_relative_ms := t_relative_ms s1 + d, t_last_dts_in := sint raw\<rparr> else s)"
    using assms(2) by (auto simp: zms_track_stamp_revise_def stamp_sync_l_def Let_def)
  with stamp_delta_bound[OF assms(1), of "sint raw"] d assms(1) show ?thesis
    by (auto simp: stamp_ok_def)
qed

definition ex_stamp :: zms_track_stamp where
  "ex_stamp = zms_track_stamp_reset zms_track_stamp_zero\<lparr>t_last_stamp := 1000\<rparr>"

lemma stamp_jump_bounded_witness:
  "t_relative_ms (fst (snd (zms_track_stamp_revise ex_stamp None 900000))) = 1
    \<and> \<bar>t_relative_ms (fst (snd (zms_track_stamp_revise ex_stamp None 900000))) - t_relative_ms ex_stamp\<bar> \<le> 300"
proof -
  have ok: "stamp_ok ex_stamp" and m: "t_max_delta_ms ex_stamp = 300" by code_simp+
  obtain out s' mo where r: "zms_track_stamp_revise ex_stamp None 900000 = (out, s', mo)"
    by (metis prod_cases3)
  have "t_relative_ms (fst (snd (zms_track_stamp_revise ex_stamp None 900000))) = 1" by code_simp
  with stamp_jump_bounded[OF ok r] m r show ?thesis by simp
qed

text \<open>
  The ingest timeline hands out time stamps far in the future when a track steps back
  behind its start: the value \<open>zms_track_stamp_revise\<close> cuts off at 0 is thrown away, and a
  relative time of -k milliseconds becomes 2^32 - k.
\<close>

theorem timeline_negative_wraps:
  assumes "zms_media_timeline_video ml raw = (out, ml')"
    "t_relative_ms (tl_vst ml') = - int k" "0 < k" "k < 2 ^ 32"
  shows "uint out = 2 ^ 32 - int k"
proof -
  have "out = word_of_int (- int k)"
    using assms(1,2) by (auto simp: zms_media_timeline_video_def Let_def split: prod.splits)
  then have "uint out = (- int k) mod 2 ^ LENGTH(32)" by (simp only: uint_word_of_int)
  also have "\<dots> = 2 ^ 32 - int k"
    using assms(3,4) by (subst zmod_zminus1_eq_if) auto
  finally show ?thesis .
qed

lemma timeline_negative_wraps_witness:
  "uint (fst (zms_media_timeline_video (snd (zms_media_timeline_video zms_media_timeline_new 1000)) 990))
    = 4294967286"
proof -
  let ?ml = "snd (zms_media_timeline_video zms_media_timeline_new 1000)"
  obtain out ml' where r: "zms_media_timeline_video ?ml 990 = (out, ml')" by fastforce
  have "t_relative_ms (tl_vst (snd (zms_media_timeline_video ?ml 990))) = -10" by code_simp
  with timeline_negative_wraps[OF r, of 10] r show ?thesis by simp
qed

section \<open>Clock conversions\<close>

text \<open>
  Milliseconds survive the trip to the 90 kHz clock of MPEG-TS and back, for every
  32-bit value.
\<close>

theorem mpegts_clock_roundtrip: "zms_mpegts_90k_to_ms (zms_ms_to_mpegts_90k ms) = ms"
proof -
  have b: "uint ms < 2 ^ 32" using uint_lt2p[of ms] by simp
  have "uint ((ucast ms :: u64) * 90000) = uint ms * 90000"
    using b by (simp add: uint_word_ariths unsigned_ucast_eq take_bit_eq_mod)
  then have t: "uint (zms_ms_to_mpegts_90k ms) = uint ms * 90"
    by (simp add: zms_ms_to_mpegts_90k_def ZMS_MPEGTS_CLOCK_HZ_def uint_div)
  have "- (2 ^ 63) \<le> uint ms * 90" "uint ms * 90 < 2 ^ 63" using b by (auto intro: order_trans[of _ 0])
  then have "signed_take_bit 63 (uint ms * 90) = uint ms * 90"
    by (intro signed_take_bit_int_eq_self)
  then have "sint (zms_ms_to_mpegts_90k ms) = uint ms * 90"
    using t by (simp add: sint_uint)
  then show ?thesis by (simp add: zms_mpegts_90k_to_ms_def)
qed

end
