(* ===== verification/Rtmp_Amf.thy ===== *)
theory Rtmp_Amf
  imports Framing
begin

text \<open>
  The AMF0 coder of \<open>src/session/rtmp/rtmp_amf.c\<close>. A position in the buffer is the list of
  the bytes from there on. A \<open>double\<close> is its 64 bits. A decoded value is the C struct: the
  type it was tagged with, and the members that type fills. Allocation is taken to succeed.
  The decoder is recursive in C without a depth limit; the model has fuel, and
  \<open>decode_fuel\<close> shows how much is always enough.
\<close>

unbundle bit_operations_syntax

text \<open>Type codes; the ones without a name in the header are written as numbers in the code.\<close>

definition ZMS_AMF_NUMBER :: nat where "ZMS_AMF_NUMBER = 0"
definition ZMS_AMF_BOOLEAN :: nat where "ZMS_AMF_BOOLEAN = 1"
definition ZMS_AMF_STRING :: nat where "ZMS_AMF_STRING = 2"
definition ZMS_AMF_OBJECT :: nat where "ZMS_AMF_OBJECT = 3"
definition ZMS_AMF_NULL :: nat where "ZMS_AMF_NULL = 5"
definition ZMS_AMF_ECMA_ARRAY :: nat where "ZMS_AMF_ECMA_ARRAY = 8"
definition ZMS_AMF_STRICT_ARRAY :: nat where "ZMS_AMF_STRICT_ARRAY = 10"

lemmas amf_types = ZMS_AMF_NUMBER_def ZMS_AMF_BOOLEAN_def ZMS_AMF_STRING_def ZMS_AMF_OBJECT_def
  ZMS_AMF_NULL_def ZMS_AMF_ECMA_ARRAY_def ZMS_AMF_STRICT_ARRAY_def

datatype zms_amf_value = Amf_value
  (v_type: nat) (v_str: "bytes option") (v_num: u64) (v_boolean: bool)
  (v_pairs: "(bytes \<times> zms_amf_value) list")

definition amf_new :: "nat \<Rightarrow> zms_amf_value" where
  "amf_new t = Amf_value t None 0 False []"

section \<open>Decoding\<close>

definition read_string :: "bytes \<Rightarrow> ztk_err + (bytes \<times> bytes)" where
  "read_string p =
     (if length p < 2 then Inl ZTK_ERR_INVALID
      else let slen = unat (be16 p 0); q = drop 2 p in
        if length q < slen then Inl ZTK_ERR_INVALID else Inr (take slen q, drop slen q))"

text \<open>The key buffer of 64 bytes, filled with \<open>memcpy\<close> and copied with \<open>strncpy\<close>.\<close>

definition amf_key :: "bytes \<Rightarrow> bytes" where
  "amf_key k = takeWhile (\<lambda>b. b \<noteq> 0) (take 63 k)"

text \<open>
  \<open>decode_one\<close>, the loop over the elements of a strict array and the loop over the pairs of
  an object. A boolean is read with \<open>data[*off++]\<close>, which increments the pointer \<open>off\<close> and
  not the offset it points to: the value byte is not consumed.
\<close>

function (sequential) decode_one :: "nat \<Rightarrow> bytes \<Rightarrow> (ztk_err + (zms_amf_value \<times> bytes)) option"
and decode_elems :: "nat \<Rightarrow> nat \<Rightarrow> bytes \<Rightarrow> (ztk_err + bytes) option"
and decode_pairs :: "nat \<Rightarrow> bytes \<Rightarrow> (ztk_err + ((bytes \<times> zms_amf_value) list \<times> bytes)) option" where
  "decode_one 0 p = None"
| "decode_one (Suc fuel) p =
     (case p of
        [] \<Rightarrow> Some (Inl ZTK_ERR_INVALID)
      | b # q \<Rightarrow>
        let t = unat b in
        if t = ZMS_AMF_NUMBER then
          (if length q < 8 then Some (Inl ZTK_ERR_INVALID)
           else Some (Inr (Amf_value t None (of_nat (be_val (take 8 q))) False [], drop 8 q)))
        else if t = ZMS_AMF_BOOLEAN then
          (if length q < 1 then Some (Inl ZTK_ERR_INVALID)
           else Some (Inr (Amf_value t None 0 (q ! 0 \<noteq> 0) [], q)))
        else if t = ZMS_AMF_STRING then
          (case read_string q of
             Inl e \<Rightarrow> Some (Inl ZTK_ERR_INVALID)
           | Inr (s, r) \<Rightarrow> Some (Inr (Amf_value t (Some s) 0 False [], r)))
        else if t = ZMS_AMF_NULL \<or> t = 6 then Some (Inr (amf_new t, q))
        else if t = 12 then
          (if length q < 4 then Some (Inl ZTK_ERR_INVALID)
           else let slen = unat (be32 q 0); r = drop 4 q in
             if length r < slen then Some (Inl ZTK_ERR_INVALID)
             else Some (Inr (Amf_value ZMS_AMF_STRING (Some (take slen r)) 0 False [], drop slen r)))
        else if t = ZMS_AMF_STRICT_ARRAY then
          (if length q < 4 then Some (Inl ZTK_ERR_INVALID)
           else case decode_elems fuel (unat (be32 q 0)) (drop 4 q) of
             None \<Rightarrow> None
           | Some (Inl e) \<Rightarrow> Some (Inl ZTK_ERR_INVALID)
           | Some (Inr r) \<Rightarrow> Some (Inr (amf_new ZMS_AMF_NULL, r)))
        else if t = ZMS_AMF_OBJECT \<or> t = ZMS_AMF_ECMA_ARRAY then
          (if t = ZMS_AMF_ECMA_ARRAY \<and> length q < 4 then Some (Inl ZTK_ERR_INVALID)
           else case decode_pairs fuel (if t = ZMS_AMF_ECMA_ARRAY then drop 4 q else q) of
             None \<Rightarrow> None
           | Some (Inl e) \<Rightarrow> Some (Inl e)
           | Some (Inr (ps, r)) \<Rightarrow> Some (Inr (Amf_value t None 0 False ps, r)))
        else Some (Inl ZTK_ERR_NOT_IMPL))"
| "decode_elems 0 n p = None"
| "decode_elems (Suc fuel) n p =
     (if n = 0 then Some (Inr p)
      else case decode_one fuel p of
        None \<Rightarrow> None
      | Some (Inl e) \<Rightarrow> Some (Inl e)
      | Some (Inr (v, r)) \<Rightarrow> decode_elems fuel (n - 1) r)"
| "decode_pairs 0 p = None"
| "decode_pairs (Suc fuel) p =
     (if length p < 3 then Some (Inl ZTK_ERR_INVALID)
      else let klen = unat (be16 p 0); q = drop 2 p in
        if klen = 0 then
          (if length q < 1 \<or> q ! 0 \<noteq> 9 then Some (Inl ZTK_ERR_INVALID) else Some (Inr ([], drop 1 q)))
        else if length q < klen then Some (Inl ZTK_ERR_INVALID)
        else case decode_one fuel (drop klen q) of
          None \<Rightarrow> None
        | Some (Inl e) \<Rightarrow> Some (Inl ZTK_ERR_INVALID)
        | Some (Inr (child, r)) \<Rightarrow>
            (case decode_pairs fuel r of
               None \<Rightarrow> None
             | Some (Inl e) \<Rightarrow> Some (Inl e)
             | Some (Inr (ps, r')) \<Rightarrow> Some (Inr ((amf_key (take klen q), child) # ps, r'))))"
  by pat_completeness auto
termination
  by (relation "measure (\<lambda>x. case x of Inl (f, _) \<Rightarrow> f | Inr (Inl (f, _)) \<Rightarrow> f | Inr (Inr (f, _)) \<Rightarrow> f)") auto

definition amf_fuel :: "bytes \<Rightarrow> nat" where
  "amf_fuel p = 2 * length p + 1"

definition zms_amf_decode :: "bytes \<Rightarrow> ztk_err + (zms_amf_value \<times> nat)" where
  "zms_amf_decode p =
     (case decode_one (amf_fuel p) p of
        None \<Rightarrow> Inl ZTK_ERR_STATE
      | Some (Inl e) \<Rightarrow> Inl e
      | Some (Inr (v, r)) \<Rightarrow> Inr (v, length p - length r))"

section \<open>Reading values\<close>

definition zms_amf_value_type :: "zms_amf_value option \<Rightarrow> nat" where
  "zms_amf_value_type v = (case v of None \<Rightarrow> ZMS_AMF_NULL | Some x \<Rightarrow> v_type x)"

definition zms_amf_value_str :: "zms_amf_value option \<Rightarrow> bytes" where
  "zms_amf_value_str v =
     (case v of None \<Rightarrow> [] | Some x \<Rightarrow>
        (case v_str x of None \<Rightarrow> [] | Some s \<Rightarrow> takeWhile (\<lambda>b. b \<noteq> 0) s))"

definition zms_amf_value_num :: "zms_amf_value option \<Rightarrow> u64" where
  "zms_amf_value_num v = (case v of None \<Rightarrow> 0 | Some x \<Rightarrow> v_num x)"

text \<open>
  Lookup by \<open>strcmp\<close>. A stored key of 63 bytes has no terminator the code wrote, so the
  comparison is the code's for keys shorter than 63 bytes, such as its callers use.
\<close>

definition zms_amf_object_get :: "zms_amf_value option \<Rightarrow> bytes option \<Rightarrow> zms_amf_value option" where
  "zms_amf_object_get obj key =
     (case (obj, key) of
        (Some v, Some k) \<Rightarrow> map_option snd (find (\<lambda>p. fst p = k) (v_pairs v))
      | _ \<Rightarrow> None)"

section \<open>Encoding\<close>

text \<open>The bytes written; none when the capacity does not suffice (the code returns 0).\<close>

definition zms_amf_encode_string :: "nat \<Rightarrow> bytes option \<Rightarrow> bytes" where
  "zms_amf_encode_string cap s =
     (let str = (case s of None \<Rightarrow> [] | Some x \<Rightarrow> x); slen = length str in
      if cap < 3 + slen then []
      else [of_nat ZMS_AMF_STRING, of_nat (slen div 256), of_nat slen] @ str)"

definition zms_amf_encode_number :: "nat \<Rightarrow> u64 \<Rightarrow> bytes" where
  "zms_amf_encode_number cap n =
     (if cap < 9 then [] else of_nat ZMS_AMF_NUMBER # be_bytes 8 (unat n))"

fun encode_numbers :: "nat \<Rightarrow> bytes \<Rightarrow> u64 list \<Rightarrow> bytes" where
  "encode_numbers cap out [] = out"
| "encode_numbers cap out (v # vs) =
     (let w = zms_amf_encode_number (cap - length out) v in
      if w = [] then [] else encode_numbers cap (out @ w) vs)"

definition zms_amf_encode_strict_array_numbers :: "nat \<Rightarrow> u64 list option \<Rightarrow> nat \<Rightarrow> bytes" where
  "zms_amf_encode_strict_array_numbers cap vals count =
     (if count > 0x7fffffff then []
      else if cap < 5 + count * 9 then []
      else encode_numbers cap
        [of_nat ZMS_AMF_STRICT_ARRAY, of_nat (count div 2 ^ 24), of_nat (count div 2 ^ 16),
         of_nat (count div 2 ^ 8), of_nat count]
        (case vals of None \<Rightarrow> replicate count 0 | Some vs \<Rightarrow> take count vs))"

definition zms_amf_encode_null :: "nat \<Rightarrow> bytes" where
  "zms_amf_encode_null cap = (if cap < 1 then [] else [of_nat ZMS_AMF_NULL])"

definition zms_amf_encode_object_end :: "nat \<Rightarrow> bytes" where
  "zms_amf_encode_object_end cap = (if cap < 3 then [] else [0, 0, 9])"

declare decode_one.simps [simp del] decode_elems.simps [simp del] decode_pairs.simps [simp del]

section \<open>What a decoder takes off the buffer\<close>

lemma read_string_rest: "read_string p = Inr (s, r) \<Longrightarrow> length r < length p"
  by (auto simp: read_string_def Let_def split: if_splits)

lemma amf_rest:
  "decode_one f p = Some (Inr (v, r)) \<Longrightarrow> length r < length p"
  "decode_elems f n p = Some (Inr r) \<Longrightarrow> length r \<le> length p"
  "decode_pairs f p = Some (Inr (ps, r)) \<Longrightarrow> length r < length p"
proof (induction f p and f n p and f p arbitrary: v r and r and ps r
    rule: decode_one_decode_elems_decode_pairs.induct)
  case (2 fuel p)
  then show ?case
    by (auto simp: decode_one.simps(2) Let_def amf_types split: if_splits list.splits option.splits
        sum.splits dest!: read_string_rest) fastforce+
next
  case (4 fuel n p)
  show ?case
  proof (cases "n = 0")
    case True
    with 4(3) show ?thesis by (simp add: decode_elems.simps(2))
  next
    case False
    then obtain v q where v: "decode_one fuel p = Some (Inr (v, q))"
        "decode_elems fuel (n - 1) q = Some (Inr r)"
      using 4(3) by (auto simp: decode_elems.simps(2) split: option.splits sum.splits)
    from 4(1)[OF False v(1)] 4(2)[OF False v(1) refl refl v(2)] show ?thesis by simp
  qed
next
  case (6 fuel p)
  let ?k = "unat (be16 p 0)" and ?q = "drop 2 p"
  have len: "\<not> length p < 3" using 6(3) by (auto simp: decode_pairs.simps(2))
  show ?case
  proof (cases "?k = 0")
    case True
    with 6(3) len show ?thesis by (auto simp: decode_pairs.simps(2) Let_def split: if_splits)
  next
    case False
    then have k: "\<not> length ?q < ?k" using 6(3) len
      by (auto simp: decode_pairs.simps(2) Let_def split: if_splits)
    obtain v u qs where v: "decode_one fuel (drop ?k ?q) = Some (Inr (v, u))"
        "decode_pairs fuel u = Some (Inr (qs, r))"
      using 6(3) len False k by (auto simp: decode_pairs.simps(2) Let_def split: option.splits sum.splits)
    from 6(1)[OF len refl refl False k v(1)] 6(2)[OF len refl refl False k v(1) refl refl v(2)]
    show ?thesis by simp
  qed
qed (simp_all add: decode_one.simps decode_elems.simps decode_pairs.simps)

text \<open>The decoder per type.\<close>

lemma decode_one_array: "unat b = 10 \<Longrightarrow> decode_one (Suc f) (b # q) =
    (if length q < 4 then Some (Inl ZTK_ERR_INVALID)
     else case decode_elems f (unat (be32 q 0)) (drop 4 q) of
       None \<Rightarrow> None
     | Some (Inl e) \<Rightarrow> Some (Inl ZTK_ERR_INVALID)
     | Some (Inr r) \<Rightarrow> Some (Inr (amf_new ZMS_AMF_NULL, r)))"
  by (simp add: decode_one.simps Let_def amf_types)

lemma decode_one_object: "unat b = 3 \<Longrightarrow> decode_one (Suc f) (b # q) =
    (case decode_pairs f q of
       None \<Rightarrow> None
     | Some (Inl e) \<Rightarrow> Some (Inl e)
     | Some (Inr (ps, r)) \<Rightarrow> Some (Inr (Amf_value 3 None 0 False ps, r)))"
  by (simp add: decode_one.simps Let_def amf_types)

lemma decode_one_ecma: "unat b = 8 \<Longrightarrow> decode_one (Suc f) (b # q) =
    (if length q < 4 then Some (Inl ZTK_ERR_INVALID)
     else case decode_pairs f (drop 4 q) of
       None \<Rightarrow> None
     | Some (Inl e) \<Rightarrow> Some (Inl e)
     | Some (Inr (ps, r)) \<Rightarrow> Some (Inr (Amf_value 8 None 0 False ps, r)))"
  by (simp add: decode_one.simps Let_def amf_types)

lemma decode_one_boolean: "unat b = 1 \<Longrightarrow> decode_one (Suc f) (b # q) =
    (if q = [] then Some (Inl ZTK_ERR_INVALID)
     else Some (Inr (Amf_value 1 None 0 (q ! 0 \<noteq> 0) [], q)))"
  by (simp add: decode_one.simps Let_def amf_types Suc_le_eq)

text \<open>Two units of fuel for each byte are enough.\<close>

lemma amf_enough:
  "2 * length p + 1 \<le> f \<Longrightarrow> decode_one f p \<noteq> None"
  "2 * length p + 2 \<le> f \<Longrightarrow> decode_elems f n p \<noteq> None"
  "2 * length p + 2 \<le> f \<Longrightarrow> decode_pairs f p \<noteq> None"
proof (induction f p and f n p and f p rule: decode_one_decode_elems_decode_pairs.induct)
  case (2 fuel p)
  show ?case
  proof (cases p)
    case Nil
    then show ?thesis by (simp add: decode_one.simps)
  next
    case (Cons b q)
    consider (arr) "unat b = 10" | (obj) "unat b = 3" | (ecma) "unat b = 8"
      | (flat) "unat b \<noteq> 10" "unat b \<noteq> 3" "unat b \<noteq> 8" by blast
    then show ?thesis
    proof cases
      case arr
      then have "decode_elems fuel (unat (be32 q 0)) (drop 4 q) \<noteq> None" if "\<not> length q < 4"
        using 2 that Cons by (auto simp: amf_types)
      with arr Cons show ?thesis
        by (cases "length q < 4") (auto simp: decode_one_array split: sum.splits option.splits)
    next
      case obj
      then have "decode_pairs fuel q \<noteq> None"
        using 2(2)[OF Cons refl] 2(3) Cons by (auto simp: amf_types)
      with obj Cons show ?thesis by (auto simp: decode_one_object split: sum.splits option.splits)
    next
      case ecma
      then have "decode_pairs fuel (drop 4 q) \<noteq> None" if "\<not> length q < 4"
        using 2(2)[OF Cons refl] 2(3) that Cons by (auto simp: amf_types)
      with ecma Cons show ?thesis
        by (cases "length q < 4") (auto simp: decode_one_ecma split: sum.splits option.splits)
    next
      case flat
      with Cons show ?thesis
        by (auto simp: decode_one.simps(2) Let_def amf_types split: sum.splits)
    qed
  qed
next
  case (4 fuel n p)
  have one: "decode_one fuel p \<noteq> None" if "n \<noteq> 0" using 4(1)[OF that] 4(3) by simp
  have rest: "decode_elems fuel (n - 1) r \<noteq> None"
    if "n \<noteq> 0" "decode_one fuel p = Some (Inr (v, r))" for v r
    using 4(2)[OF that refl refl] amf_rest(1)[OF that(2)] 4(3) by simp
  show ?case
  proof (cases "decode_one fuel p")
    case None
    with one show ?thesis by (cases "n = 0") (simp_all add: decode_elems.simps(2))
  next
    case (Some x)
    with rest show ?thesis
      by (cases "n = 0"; cases x) (auto simp: decode_elems.simps(2) simp del: not_None_eq)
  qed
next
  case (6 fuel p)
  let ?k = "unat (be16 p 0)" and ?q = "drop 2 p"
  show ?case
  proof (cases "length p < 3 \<or> ?k = 0 \<or> length ?q < ?k")
    case True
    then show ?thesis by (auto simp: decode_pairs.simps(2) Let_def)
  next
    case False
    then have h: "\<not> length p < 3" "?k \<noteq> 0" "\<not> length ?q < ?k" by auto
    have one: "decode_one fuel (drop ?k ?q) \<noteq> None"
      using 6(1)[OF h(1) refl refl h(2,3)] 6(3) h by simp
    have rest: "decode_pairs fuel r \<noteq> None" if "decode_one fuel (drop ?k ?q) = Some (Inr (v, r))" for v r
      using 6(2)[OF h(1) refl refl h(2,3) that refl refl] amf_rest(1)[OF that] 6(3) h by simp
    obtain x where x: "decode_one fuel (drop ?k ?q) = Some x" using one by blast
    have eq: "decode_pairs (Suc fuel) p = (case x of Inl e \<Rightarrow> Some (Inl ZTK_ERR_INVALID)
        | Inr (child, r) \<Rightarrow> (case decode_pairs fuel r of None \<Rightarrow> None | Some (Inl e) \<Rightarrow> Some (Inl e)
            | Some (Inr (ps, r')) \<Rightarrow> Some (Inr ((amf_key (take ?k ?q), child) # ps, r'))))"
      using h by (simp only: decode_pairs.simps(2) Let_def x if_False option.case)
    show ?thesis
    proof (cases x)
      case (Inr vr)
      obtain v r where vr: "vr = (v, r)" by fastforce
      with rest x Inr show ?thesis unfolding eq by (auto split: option.splits sum.splits)
    qed (simp add: eq)
  qed
qed (simp_all add: decode_one.simps decode_elems.simps decode_pairs.simps)

lemma amf_decode_Some:
  obtains e where "decode_one (amf_fuel p) p = Some (Inl e)" "zms_amf_decode p = Inl e"
  | v r where "decode_one (amf_fuel p) p = Some (Inr (v, r))" "zms_amf_decode p = Inr (v, length p - length r)"
      "length r < length p"
proof -
  have "decode_one (amf_fuel p) p \<noteq> None" by (rule amf_enough(1)) (simp add: amf_fuel_def)
  then obtain x where "decode_one (amf_fuel p) p = Some x" by blast
  then show thesis using that amf_rest(1)
    by (cases x) (auto simp: zms_amf_decode_def)
qed

text \<open>
  The AMF0 decoder is total and stays in its buffer: the recursion over nested objects
  and arrays always ends, and a decoded value took at least one byte and at most all of them.
\<close>

theorem amf_decode_bounds:
  "decode_one (amf_fuel p) p \<noteq> None \<and>
   (case zms_amf_decode p of Inl e \<Rightarrow> True | Inr (v, n) \<Rightarrow> 0 < n \<and> n \<le> length p)"
  by (cases rule: amf_decode_Some[of p]) auto

section \<open>Decoding what the encoders write\<close>

lemma decode_string: "length s < 65536 \<Longrightarrow>
    decode_one (Suc f) (2 # of_nat (length s div 256) # of_nat (length s) # s @ rest) =
      Some (Inr (Amf_value ZMS_AMF_STRING (Some s) 0 False [], rest))"
proof -
  assume l: "length s < 65536"
  have "be16 (of_nat (length s div 256) # of_nat (length s) # s @ rest) 0 = of_nat (length s)"
    using be16_be_bytes[of "length s" "s @ rest"] by (simp add: numeral_2_eq_2)
  with l show ?thesis
    by (simp add: decode_one.simps amf_types read_string_def Let_def unat_of_nat take_bit_nat_eq_self)
qed

lemma unat_u64: "unat (n :: u64) < 256 ^ 8"
  using unsigned_less[of n, where ?'a = nat] by simp

lemma decode_number:
  "decode_one (Suc f) (0 # be_bytes 8 (unat n) @ rest) =
     Some (Inr (Amf_value ZMS_AMF_NUMBER None n False [], rest))"
  using be_val_bytes[OF unat_u64[of n]]
  by (simp add: decode_one.simps amf_types Let_def del: be_bytes.simps)

lemma decode_null: "decode_one (Suc f) (5 # rest) = Some (Inr (amf_new ZMS_AMF_NULL, rest))"
  by (simp add: decode_one.simps amf_types Let_def)

lemma encode_numbers_bytes: "length out + 9 * length vs \<le> cap \<Longrightarrow>
    encode_numbers cap out vs = out @ concat (map (\<lambda>v. 0 # be_bytes 8 (unat v)) vs)"
  by (induction vs arbitrary: out)
    (simp_all add: zms_amf_encode_number_def amf_types Let_def del: be_bytes.simps)

lemma decode_elems_numbers: "length (vs :: u64 list) < f \<Longrightarrow>
    decode_elems f (length vs) (concat (map (\<lambda>v. 0 # be_bytes 8 (unat v)) vs) @ rest) = Some (Inr rest)"
proof (induction vs arbitrary: f)
  case Nil
  then show ?case by (cases f) (simp_all add: decode_elems.simps)
next
  case (Cons v vs)
  then obtain g where g: "f = Suc (Suc g)" by (cases f; cases "f - 1") auto
  have "decode_one (Suc g) (0 # be_bytes 8 (unat v) @ concat (map (\<lambda>v. 0 # be_bytes 8 (unat v)) vs) @ rest) =
      Some (Inr (Amf_value ZMS_AMF_NUMBER None v False [],
        concat (map (\<lambda>v. 0 # be_bytes 8 (unat v)) vs) @ rest))"
    by (rule decode_number)
  with Cons g show ?case by (simp add: decode_elems.simps(2)[of "Suc g"] del: be_bytes.simps)
qed

lemma amf_decode_from:
  assumes "\<And>f. k < f \<Longrightarrow> decode_one f p = Some (Inr (v, r))" "k < amf_fuel p"
  shows "zms_amf_decode p = Inr (v, length p - length r)"
  using assms by (simp add: zms_amf_decode_def)

lemma decode_encoded_string:
  assumes "length s < 65536" "cap \<ge> 3 + length s"
  shows "zms_amf_decode (zms_amf_encode_string cap (Some s) @ rest)
    = Inr (Amf_value ZMS_AMF_STRING (Some s) 0 False [], 3 + length s)"
    and "length (zms_amf_encode_string cap (Some s)) = 3 + length s"
proof -
  have enc: "zms_amf_encode_string cap (Some s) = 2 # of_nat (length s div 256) # of_nat (length s) # s"
    using assms by (simp add: zms_amf_encode_string_def amf_types Let_def)
  have "decode_one f (zms_amf_encode_string cap (Some s) @ rest)
      = Some (Inr (Amf_value ZMS_AMF_STRING (Some s) 0 False [], rest))" if "0 < f" for f
    using decode_string[OF assms(1)] that by (cases f) (simp_all add: enc)
  from amf_decode_from[where k = 0, OF this] show "zms_amf_decode (zms_amf_encode_string cap (Some s) @ rest)
      = Inr (Amf_value ZMS_AMF_STRING (Some s) 0 False [], 3 + length s)"
    by (simp add: amf_fuel_def) (simp add: enc)
  show "length (zms_amf_encode_string cap (Some s)) = 3 + length s" by (simp add: enc)
qed

lemma decode_encoded_number:
  assumes "cap \<ge> 9"
  shows "zms_amf_decode (zms_amf_encode_number cap n @ rest) = Inr (Amf_value ZMS_AMF_NUMBER None n False [], 9)"
    and "length (zms_amf_encode_number cap n) = 9"
proof -
  have enc: "zms_amf_encode_number cap n = 0 # be_bytes 8 (unat n)"
    using assms by (simp add: zms_amf_encode_number_def amf_types del: be_bytes.simps)
  have "decode_one f (zms_amf_encode_number cap n @ rest)
      = Some (Inr (Amf_value ZMS_AMF_NUMBER None n False [], rest))" if "0 < f" for f
    using decode_number that by (cases f) (simp_all add: enc del: be_bytes.simps)
  from amf_decode_from[where k = 0, OF this] show "zms_amf_decode (zms_amf_encode_number cap n @ rest)
      = Inr (Amf_value ZMS_AMF_NUMBER None n False [], 9)"
    by (simp add: amf_fuel_def) (simp add: enc del: be_bytes.simps)
  show "length (zms_amf_encode_number cap n) = 9" by (simp add: enc del: be_bytes.simps)
qed

text \<open>
  What the AMF0 encoders write, the decoder reads back, and it stops at the end of the
  value: strings shorter than 64 KiB, numbers (all 64 bits) and null. Arrays of numbers are
  consumed whole, and their contents are dropped.
\<close>

theorem amf_roundtrip:
  assumes "length s < 65536" "length vs < 2 ^ 31" "cap \<ge> 3 + length s" "cap \<ge> 9" "cap \<ge> 5 + 9 * length vs"
  shows "zms_amf_decode (zms_amf_encode_string cap (Some s) @ rest)
      = Inr (Amf_value ZMS_AMF_STRING (Some s) 0 False [], 3 + length s)
    \<and> zms_amf_decode (zms_amf_encode_number cap n @ rest) = Inr (Amf_value ZMS_AMF_NUMBER None n False [], 9)
    \<and> zms_amf_decode (zms_amf_encode_null cap @ rest) = Inr (amf_new ZMS_AMF_NULL, 1)
    \<and> zms_amf_decode (zms_amf_encode_strict_array_numbers cap (Some vs) (length vs) @ rest)
      = Inr (amf_new ZMS_AMF_NULL, 5 + 9 * length vs)"
proof (intro conjI)
  show "zms_amf_decode (zms_amf_encode_string cap (Some s) @ rest)
      = Inr (Amf_value ZMS_AMF_STRING (Some s) 0 False [], 3 + length s)"
    using assms by (intro decode_encoded_string)
  show "zms_amf_decode (zms_amf_encode_number cap n @ rest) = Inr (Amf_value ZMS_AMF_NUMBER None n False [], 9)"
    using assms by (intro decode_encoded_number)
next
  have enc: "zms_amf_encode_null cap = [5]" using assms by (simp add: zms_amf_encode_null_def amf_types)
  have "decode_one f ([5] @ rest) = Some (Inr (amf_new ZMS_AMF_NULL, rest))" if "0 < f" for f
    using decode_null that by (cases f) simp_all
  from amf_decode_from[where k = 0, OF this] show "zms_amf_decode (zms_amf_encode_null cap @ rest) = Inr (amf_new ZMS_AMF_NULL, 1)"
    by (simp add: amf_fuel_def enc)
next
  let ?nums = "concat (map (\<lambda>v. 0 # be_bytes 8 (unat v)) vs)"
  let ?hdr = "10 # be_bytes 4 (length vs)"
  have enc: "zms_amf_encode_strict_array_numbers cap (Some vs) (length vs) = ?hdr @ ?nums"
    using assms by (simp add: zms_amf_encode_strict_array_numbers_def amf_types encode_numbers_bytes
        be_bytes_small del: be_bytes.simps)
  have len: "length ?nums = 9 * length vs" by (induction vs) simp_all
  have n: "unat (be32 (be_bytes 4 (length vs) @ ?nums @ rest) 0) = length vs"
    using assms(2) by (simp add: be32_be_bytes unat_of_nat take_bit_nat_eq_self del: be_bytes.simps)
  have "decode_one f (?hdr @ ?nums @ rest) = Some (Inr (amf_new ZMS_AMF_NULL, rest))" if f: "length vs + 1 < f" for f
  proof -
    obtain g where "f = Suc g" "length vs < g" using f by (cases f) auto
    then show ?thesis
      using decode_elems_numbers[of vs g rest] n by (simp add: decode_one_array del: be_bytes.simps)
  qed
  from amf_decode_from[where k = "length vs + 1", OF this] show "zms_amf_decode (zms_amf_encode_strict_array_numbers cap (Some vs) (length vs) @ rest)
      = Inr (amf_new ZMS_AMF_NULL, 5 + 9 * length vs)"
    by (simp add: enc amf_fuel_def len del: be_bytes.simps)
qed

lemma amf_roundtrip_witness:
  "zms_amf_decode (zms_amf_encode_string 64 (Some [112, 108, 97, 121]) @ [5])
     = Inr (Amf_value 2 (Some [112, 108, 97, 121]) 0 False [], 7)"
  using amf_roundtrip[of "[112, 108, 97, 121]" "[]" 64 "[5]" 0] by (simp add: amf_types)

text \<open>
  A boolean leaves its value byte in the buffer, so an object whose last member is false
  cannot be decoded: the two bytes that end the object are read one place too early.
\<close>

theorem amf_boolean_breaks_object:
  assumes "k \<noteq> []" "length k < 65536"
  shows "zms_amf_decode (1 # b # rest) = Inr (Amf_value ZMS_AMF_BOOLEAN None 0 (b \<noteq> 0) [], 1)
    \<and> zms_amf_decode (3 # be_bytes 2 (length k) @ k @ [1, 0] @ [0, 0, 9] @ rest) = Inl ZTK_ERR_INVALID"
proof (intro conjI)
  show "zms_amf_decode (1 # b # rest) = Inr (Amf_value ZMS_AMF_BOOLEAN None 0 (b \<noteq> 0) [], 1)"
    by (simp add: zms_amf_decode_def amf_fuel_def decode_one_boolean amf_types)
next
  let ?m = "be_bytes 2 (length k) @ k @ 1 # 0 # 0 # 0 # 9 # rest"
  have kl: "unat (be16 ?m 0) = length k"
    using assms(2) by (simp add: be16_be_bytes unat_of_nat take_bit_nat_eq_self)
  have child: "decode_one (Suc f) (1 # 0 # 0 # 0 # 9 # rest) =
      Some (Inr (Amf_value 1 None 0 False [], 0 # 0 # 0 # 9 # rest))" for f
    by (simp add: decode_one_boolean)
  have stop: "decode_pairs (Suc f) (0 # 0 # 0 # 9 # rest) = Some (Inl ZTK_ERR_INVALID)" for f
    by (simp add: decode_pairs.simps be16_def)
  have "decode_pairs (Suc (Suc f)) ?m = Some (Inl ZTK_ERR_INVALID)" for f
    using assms(1) kl by (simp add: decode_pairs.simps(2)[of "Suc f"] Let_def child stop)
  then have "decode_one (Suc (Suc (Suc f))) (3 # ?m) = Some (Inl ZTK_ERR_INVALID)" for f
    by (simp add: decode_one_object)
  moreover obtain f where "amf_fuel (3 # ?m) = Suc (Suc (Suc f))"
    by (auto simp: amf_fuel_def)
  ultimately have "zms_amf_decode (3 # ?m) = Inl ZTK_ERR_INVALID" by (simp only: zms_amf_decode_def option.case sum.case)
  then show "zms_amf_decode (3 # be_bytes 2 (length k) @ k @ [1, 0] @ [0, 0, 9] @ rest) = Inl ZTK_ERR_INVALID"
    by simp
qed

lemma amf_boolean_breaks_object_witness:
  "zms_amf_decode ([3, 0, 4] @ [102, 112, 97, 100] @ [1, 0, 0, 0, 9]) = Inl ZTK_ERR_INVALID"
  using amf_boolean_breaks_object[of "[102, 112, 97, 100]" 0 "[]"] by (simp add: be_bytes_small)

end
