(* ===== verification/Buf_Pool.thy ===== *)
theory Buf_Pool
  imports Prelude
begin

text \<open>
  The buffer slots of \<open>src/util/buf_pool.c\<close>: a pointer and a capacity that sessions and
  parsers keep their work memory in. The pools of the toolkit submodule and \<open>malloc\<close> are
  parameters: asked for a size, they give a block with whatever bytes it holds, or nothing.
  A slot is \<open>None\<close> for NULL, and otherwise the bytes of its block; the capacity is their
  number.
\<close>

type_synonym block_source = "nat \<Rightarrow> bytes option"

text \<open>
  What \<open>acquire\<close> draws on: the switch \<open>g_buf_pool_enabled\<close>, the global pool, the local
  pool of the session's poller and \<open>malloc\<close>.
\<close>

record buf_env =
  be_enabled :: bool
  be_global :: "block_source option"
  be_local :: "block_source option"
  be_malloc :: block_source

definition zms_buf_pool_acquire :: "buf_env \<Rightarrow> nat \<Rightarrow> bytes option" where
  "zms_buf_pool_acquire e n =
     (if n = 0 then None
      else case be_global e of
        Some pool \<Rightarrow> if be_enabled e then pool n else be_malloc e n
      | None \<Rightarrow> be_malloc e n)"

definition acquire_for_poller :: "buf_env \<Rightarrow> nat \<Rightarrow> bytes option" where
  "acquire_for_poller e n =
     (if n = 0 then None
      else case be_local e of
        Some pool \<Rightarrow> if be_enabled e then pool n else zms_buf_pool_acquire e n
      | None \<Rightarrow> zms_buf_pool_acquire e n)"

definition zms_buf_pool_slot_clear :: "bytes option \<Rightarrow> bytes option" where
  "zms_buf_pool_slot_clear slot = None"

definition slot_cap :: "bytes option \<Rightarrow> nat" where
  "slot_cap slot = (case slot of None \<Rightarrow> 0 | Some b \<Rightarrow> length b)"

text \<open>
  A slot that is too small is cleared first and then filled with a new block: what it held
  is gone. The result says if the call returned a block.
\<close>

definition zms_buf_pool_slot_resize :: "buf_env \<Rightarrow> bytes option \<Rightarrow> nat \<Rightarrow> bool \<times> bytes option" where
  "zms_buf_pool_slot_resize e slot len =
     (if len = 0 then (False, slot)
      else if slot \<noteq> None \<and> slot_cap slot \<ge> len then (True, slot)
      else (let b = zms_buf_pool_acquire e len in (b \<noteq> None, b)))"

definition zms_buf_pool_slot_resize_poller :: "buf_env \<Rightarrow> bytes option \<Rightarrow> nat \<Rightarrow> bool \<times> bytes option" where
  "zms_buf_pool_slot_resize_poller e slot len =
     (if len = 0 then (False, slot)
      else if slot \<noteq> None \<and> slot_cap slot \<ge> len then (True, slot)
      else (let b = acquire_for_poller e len in (b \<noteq> None, b)))"

text \<open>The pools and \<open>malloc\<close> give at least the size asked for.\<close>

definition source_ok :: "block_source \<Rightarrow> bool" where
  "source_ok src \<longleftrightarrow> (\<forall>n b. src n = Some b \<longrightarrow> n \<le> length b)"

definition buf_env_ok :: "buf_env \<Rightarrow> bool" where
  "buf_env_ok e \<longleftrightarrow> source_ok (be_malloc e) \<and> (\<forall>p. be_global e = Some p \<longrightarrow> source_ok p)
     \<and> (\<forall>p. be_local e = Some p \<longrightarrow> source_ok p)"

lemma acquire_size: "buf_env_ok e \<Longrightarrow> zms_buf_pool_acquire e n = Some b \<Longrightarrow> n \<le> length b"
  by (auto simp: zms_buf_pool_acquire_def buf_env_ok_def source_ok_def split: if_splits option.splits)

lemma acquire_for_poller_size: "buf_env_ok e \<Longrightarrow> acquire_for_poller e n = Some b \<Longrightarrow> n \<le> length b"
  by (auto simp: acquire_for_poller_def dest: acquire_size split: if_splits option.splits)
    (auto simp: buf_env_ok_def source_ok_def)

lemma slot_resize_cap:
  assumes "buf_env_ok e" "zms_buf_pool_slot_resize e s n = (True, s')"
  shows "n \<le> slot_cap s'"
  using assms
  by (auto simp: zms_buf_pool_slot_resize_def slot_cap_def Let_def dest: acquire_size
      split: if_splits option.splits)

lemma slot_resize_poller_cap:
  assumes "buf_env_ok e" "zms_buf_pool_slot_resize_poller e s n = (True, s')"
  shows "n \<le> slot_cap s'"
  using assms
  by (auto simp: zms_buf_pool_slot_resize_poller_def slot_cap_def Let_def dest: acquire_for_poller_size
      split: if_splits option.splits)

lemma slot_resize_fst_cap: "buf_env_ok e \<Longrightarrow> fst (zms_buf_pool_slot_resize e s n) \<Longrightarrow>
    n \<le> slot_cap (snd (zms_buf_pool_slot_resize e s n))"
  by (rule slot_resize_cap[of e s n]) (auto simp: prod_eq_iff)

lemma slot_resize_poller_fst_cap: "buf_env_ok e \<Longrightarrow> fst (zms_buf_pool_slot_resize_poller e s n) \<Longrightarrow>
    n \<le> slot_cap (snd (zms_buf_pool_slot_resize_poller e s n))"
  by (rule slot_resize_poller_cap[of e s n]) (auto simp: prod_eq_iff)

text \<open>A slot that is big enough is left alone.\<close>

lemma slot_resize_keep:
  "n \<noteq> 0 \<Longrightarrow> n \<le> slot_cap s \<Longrightarrow> zms_buf_pool_slot_resize e s n = (True, s)"
  "n \<noteq> 0 \<Longrightarrow> n \<le> slot_cap s \<Longrightarrow> zms_buf_pool_slot_resize_poller e s n = (True, s)"
  by (auto simp: zms_buf_pool_slot_resize_def zms_buf_pool_slot_resize_poller_def slot_cap_def
      split: option.splits)

text \<open>A write of \<open>src\<close> at \<open>off\<close> into the block of a slot.\<close>

definition slot_write :: "bytes option \<Rightarrow> nat \<Rightarrow> bytes \<Rightarrow> bytes option" where
  "slot_write slot off src =
     (case slot of None \<Rightarrow> None
      | Some b \<Rightarrow> Some (take off b @ src @ drop (off + length src) b))"

definition slot_bytes :: "bytes option \<Rightarrow> nat \<Rightarrow> bytes" where
  "slot_bytes slot n = (case slot of None \<Rightarrow> [] | Some b \<Rightarrow> take n b)"

lemma slot_cap_write: "off + length src \<le> slot_cap s \<Longrightarrow> slot_cap (slot_write s off src) = slot_cap s"
  by (auto simp: slot_cap_def slot_write_def split: option.splits)

lemma slot_bytes_write: "off + length src \<le> slot_cap s \<Longrightarrow>
    slot_bytes (slot_write s off src) (off + length src) = slot_bytes s off @ src"
  by (auto simp: slot_cap_def slot_write_def slot_bytes_def split: option.splits)

lemma length_slot_bytes: "n \<le> slot_cap s \<Longrightarrow> length (slot_bytes s n) = n"
  by (auto simp: slot_cap_def slot_bytes_def split: option.splits)

lemma slot_bytes_0 [simp]: "slot_bytes s 0 = []"
  by (simp add: slot_bytes_def split: option.split)

end
