(* ===== verification/Resume.thy ===== *)
theory Resume
  imports Framing
begin

text \<open>
  The interface of the incremental parsers of the server. A parser keeps a state, is called
  with the bytes that have arrived and not been used, and each step of its loop either takes
  bytes off and emits events, or needs more, or fails. What a receiver relies on is that the
  way the network cut the stream does not matter; the locale derives it from four laws about
  one step.
\<close>

datatype ('s, 'e, 'x) outcome = Need 's | Took 's nat "'e list" | Fail 'x 's

text \<open>
  The parse loop. A step that takes nothing, or more than there is, would not let the loop
  end; the guard stops it, and under the laws below it never applies.
\<close>

function drive :: "('s \<Rightarrow> 'a list \<Rightarrow> ('s, 'e, 'x) outcome) \<Rightarrow> 's \<Rightarrow> 'a list
    \<Rightarrow> 'e list \<times> ('x \<times> 's + 's \<times> 'a list)" where
  "drive step s d =
     (case step s d of
        Need s' \<Rightarrow> ([], Inr (s', d))
      | Fail x s' \<Rightarrow> ([], Inl (x, s'))
      | Took s' n es \<Rightarrow>
          if 0 < n \<and> n \<le> length d
          then (case drive step s' (drop n d) of (es', r) \<Rightarrow> (es @ es', r))
          else (es, Inr (s', d)))"
  by pat_completeness auto
termination by (relation "measure (\<lambda>(step, s, d). length d)") auto

declare drive.simps [simp del]

text \<open>A receiver fed piece by piece; it keeps the rest of each piece for the next.\<close>

fun feed :: "('s \<Rightarrow> 'a list \<Rightarrow> ('s, 'e, 'x) outcome) \<Rightarrow> 's \<Rightarrow> 'a list \<Rightarrow> 'a list list
    \<Rightarrow> 'e list \<times> ('x \<times> 's + 's \<times> 'a list)" where
  "feed step s buf [] = ([], Inr (s, buf))"
| "feed step s buf (c # cs) =
     (case drive step s (buf @ c) of
        (es, Inl xs) \<Rightarrow> (es, Inl xs)
      | (es, Inr (s', r)) \<Rightarrow> (case feed step s' r cs of (es', res) \<Rightarrow> (es @ es', res)))"

locale resumable =
  fixes step :: "'s \<Rightarrow> 'a list \<Rightarrow> ('s, 'e, 'x) outcome"
    and inv :: "'s \<Rightarrow> bool"
  assumes took_bounds: "inv s \<Longrightarrow> step s d = Took s' n es \<Longrightarrow> 0 < n \<and> n \<le> length d \<and> inv s'"
    and took_more: "inv s \<Longrightarrow> step s d = Took s' n es \<Longrightarrow> step s (d @ e) = Took s' n es"
    and fail_more: "inv s \<Longrightarrow> step s d = Fail x s' \<Longrightarrow> step s (d @ e) = Fail x s'"
    and need_more: "inv s \<Longrightarrow> step s d = Need s' \<Longrightarrow> inv s' \<and> step s' (d @ e) = step s (d @ e)"
begin

lemma drive_need: "step s d = Need s' \<Longrightarrow> drive step s d = ([], Inr (s', d))"
  by (simp add: drive.simps)

lemma drive_fail: "step s d = Fail x s' \<Longrightarrow> drive step s d = ([], Inl (x, s'))"
  by (simp add: drive.simps)

lemma drive_took: "inv s \<Longrightarrow> step s d = Took s' n es \<Longrightarrow>
    drive step s d = (es @ fst (drive step s' (drop n d)), snd (drive step s' (drop n d)))"
  using took_bounds[of s d s' n es] by (subst drive.simps) (simp add: case_prod_beta)

text \<open>What the loop stops on: the state keeps the invariant and the rest is a part of the input.\<close>

lemma drive_rest: "inv s \<Longrightarrow> drive step s d = (es, Inr (s', r)) \<Longrightarrow>
    inv s' \<and> (\<exists>k. r = drop k d) \<and> step s' r = Need s'"
proof (induction "length d" arbitrary: s d es rule: less_induct)
  case less
  show ?case
  proof (cases "step s d")
    case (Need t)
    with less.prems have "s' = t" "r = d" by (auto simp: drive_need)
    moreover have "step t (d @ []) = step s (d @ [])" "inv t"
      using need_more[OF less.prems(1) Need, of "[]"] by auto
    ultimately show ?thesis using Need by (auto intro: exI[of _ 0])
  next
    case (Fail x t)
    with less.prems show ?thesis by (simp add: drive_fail)
  next
    case (Took t n es1)
    from took_bounds[OF less.prems(1) Took] have b: "0 < n" "n \<le> length d" "inv t" by auto
    obtain es2 where "drive step t (drop n d) = (es2, Inr (s', r))"
      using less.prems(2) drive_took[OF less.prems(1) Took] by (cases "drive step t (drop n d)") auto
    moreover have "length (drop n d) < length d" using b by simp
    ultimately have "inv s' \<and> (\<exists>k. r = drop k (drop n d)) \<and> step s' r = Need s'"
      using less.hyps b(3) by blast
    then show ?thesis by (auto simp: drop_drop)
  qed
qed

lemma drive_retry: "inv s \<Longrightarrow> step s d = Need s' \<Longrightarrow> drive step s' (d @ e) = drive step s (d @ e)"
  using need_more[of s d s' e] by (subst (1 2) drive.simps) simp

lemma drive_append: "inv s \<Longrightarrow> drive step s (d @ e) =
    (case drive step s d of
       (es, Inl xs) \<Rightarrow> (es, Inl xs)
     | (es, Inr (s', r)) \<Rightarrow> (case drive step s' (r @ e) of (es', res) \<Rightarrow> (es @ es', res)))"
proof (induction "length d" arbitrary: s d rule: less_induct)
  case less
  show ?case
  proof (cases "step s d")
    case (Need t)
    then show ?thesis using drive_retry[OF less.prems Need, of e]
      by (simp add: drive_need case_prod_beta)
  next
    case (Fail x t)
    then show ?thesis using fail_more[OF less.prems Fail, of e] by (simp add: drive_fail)
  next
    case (Took t n es)
    note b = took_bounds[OF less.prems Took]
    from took_more[OF less.prems Took, of e] b
    have "drive step s (d @ e) =
        (es @ fst (drive step t (drop n d @ e)), snd (drive step t (drop n d @ e)))"
      using drive_took[OF less.prems] by simp
    moreover have "length (drop n d) < length d" using b by (simp; linarith)
    moreover obtain es' res where "drive step t (drop n d) = (es', res)" by fastforce
    ultimately show ?thesis using less.hyps[of "drop n d" t] b
      by (cases res) (auto simp: drive_took[OF less.prems Took] case_prod_beta)
  qed
qed

text \<open>The cut of the stream does not matter.\<close>

theorem feed_concat: "inv s \<Longrightarrow> cs \<noteq> [] \<Longrightarrow> feed step s buf cs = drive step s (buf @ concat cs)"
proof (induction cs arbitrary: s buf)
  case (Cons c cs)
  show ?case
  proof (cases "drive step s (buf @ c)")
    case (Pair es res)
    show ?thesis
    proof (cases res)
      case (Inl xs)
      with Pair drive_append[OF Cons.prems(1), of "buf @ c" "concat cs"] show ?thesis by simp
    next
      case (Inr sr)
      obtain s' r where sr: "res = Inr (s', r)" using Inr by (cases sr) auto
      note st = drive_rest[OF Cons.prems(1) Pair[unfolded sr]]
      have "feed step s' r cs = drive step s' (r @ concat cs)"
      proof (cases cs)
        case Nil
        with st show ?thesis by (simp add: drive_need)
      next
        case Cons': (Cons c' cs')
        with Cons.IH[of s' r] st show ?thesis by blast
      qed
      with Pair sr drive_append[OF Cons.prems(1), of "buf @ c" "concat cs"] show ?thesis
        by (simp add: case_prod_beta)
    qed
  qed
qed simp

end

text \<open>
  A stream of self-contained units, the interface of \<open>framing\<close>, is the special case without
  a state.
\<close>

definition frame_step :: "('a list \<Rightarrow> ('u \<times> 'a list) option) \<Rightarrow> unit \<Rightarrow> 'a list \<Rightarrow> (unit, 'u, ztk_err) outcome" where
  "frame_step get s d =
     (case get d of None \<Rightarrow> Need () | Some (u, rest) \<Rightarrow> Took () (length d - length rest) [u])"

sublocale framing \<subseteq> units: resumable "frame_step get" "\<lambda>_. True"
proof
  fix s :: unit and d e :: "'a list" and s' n es x
  show "frame_step get s d = Took s' n es \<Longrightarrow> 0 < n \<and> n \<le> length d \<and> True"
    using get_shorter by (fastforce simp: frame_step_def split: option.splits)
  show "frame_step get s d = Took s' n es \<Longrightarrow> frame_step get s (d @ e) = Took s' n es"
    using get_append by (auto simp: frame_step_def split: option.splits)
  show "frame_step get s d = Fail x s' \<Longrightarrow> frame_step get s (d @ e) = Fail x s'"
    by (auto simp: frame_step_def split: option.splits)
  show "frame_step get s d = Need s' \<Longrightarrow> True \<and> frame_step get s' (d @ e) = frame_step get s (d @ e)"
    by simp
qed

end
