(* ===== verification/Rtmp_Chunk.thy ===== *)
theory Rtmp_Chunk
  imports Rtmp_Amf Buf_Pool Resume
begin

text \<open>
  The chunk layer of RTMP: \<open>rtmp_protocol_chunk_read.c\<close>, \<open>rtmp_protocol_chunk_write.c\<close>,
  \<open>rtmp_protocol_rx.c\<close>, \<open>rtmp_protocol_control.c\<close>, \<open>rtmp_protocol_util.c\<close> and
  \<open>rtmp_protocol.c\<close> of \<open>src/session/rtmp\<close>. The C struct \<open>zms_rtmp_protocol\<close> is two records
  here, the fields the chunk parser works on and the rest. The two callbacks are events; the
  \<open>calloc\<close> of a chunk stream state and of the struct is taken to succeed, the buffers come
  from the pools of \<open>Buf_Pool\<close>.
\<close>

unbundle bit_operations_syntax

definition ZMS_RTMP_DEFAULT_CHUNK :: nat where "ZMS_RTMP_DEFAULT_CHUNK = 128"
definition ZMS_RTMP_MSG_SET_CHUNK :: u8 where "ZMS_RTMP_MSG_SET_CHUNK = 1"
definition ZMS_RTMP_MSG_USER_CONTROL :: u8 where "ZMS_RTMP_MSG_USER_CONTROL = 4"
definition ZMS_RTMP_MSG_WIN_SIZE :: u8 where "ZMS_RTMP_MSG_WIN_SIZE = 5"
definition ZMS_RTMP_MSG_SET_PEER_BW :: u8 where "ZMS_RTMP_MSG_SET_PEER_BW = 6"
definition ZMS_RTMP_MSG_CMD :: u8 where "ZMS_RTMP_MSG_CMD = 20"
definition ZMS_RTMP_CHUNK_SYSTEM :: nat where "ZMS_RTMP_CHUNK_SYSTEM = 3"
definition ZMS_RTMP_CHUNK_MEDIA :: nat where "ZMS_RTMP_CHUNK_MEDIA = 8"
definition ZMS_RTMP_MAX_CS :: nat where "ZMS_RTMP_MAX_CS = 320"
definition ZMS_RTMP_HS_BODY :: nat where "ZMS_RTMP_HS_BODY = 1536"

lemmas rtmp_consts = ZMS_RTMP_DEFAULT_CHUNK_def ZMS_RTMP_MSG_SET_CHUNK_def
  ZMS_RTMP_MSG_USER_CONTROL_def ZMS_RTMP_MSG_WIN_SIZE_def ZMS_RTMP_MSG_SET_PEER_BW_def
  ZMS_RTMP_MSG_CMD_def ZMS_RTMP_CHUNK_SYSTEM_def ZMS_RTMP_CHUNK_MEDIA_def ZMS_RTMP_MAX_CS_def
  ZMS_RTMP_HS_BODY_def

section \<open>State and events\<close>

record zms_rtmp_cs_state =
  c_body :: "bytes option"
  c_body_off :: nat
  c_csid :: nat
  c_tag_dts_ms :: u32
  c_tag_dts_field :: u32
  c_msg_len :: u32
  c_stream_id :: u32
  c_last_msg_len :: u32
  c_last_stream_id :: u32
  c_last_tag_dts_ms :: u32
  c_last_tag_dts_field :: u32
  c_is_abs_stamp :: bool
  c_type_id :: u8
  c_last_type_id :: u8

record rtmp_parser =
  rp_on_chunk :: bool
  rp_on_cmd :: bool
  rp_io_poller :: bool
  rp_in_chunk_size :: nat
  rp_cs :: "nat \<Rightarrow> zms_rtmp_cs_state option"

datatype rtmp_event =
    Ev_cmd bytes u64 bytes
  | Ev_chunk u8 u32 u32 bytes

definition cs_new :: "nat \<Rightarrow> zms_rtmp_cs_state" where
  "cs_new csid = \<lparr>c_body = None, c_body_off = 0, c_csid = csid, c_tag_dts_ms = 0,
     c_tag_dts_field = 0, c_msg_len = 0, c_stream_id = 0, c_last_msg_len = 0,
     c_last_stream_id = 0, c_last_tag_dts_ms = 0, c_last_tag_dts_field = 0,
     c_is_abs_stamp = False, c_type_id = 0, c_last_type_id = 0\<rparr>"

definition get_cs :: "rtmp_parser \<Rightarrow> nat \<Rightarrow> zms_rtmp_cs_state option" where
  "get_cs p csid =
     (if csid \<ge> ZMS_RTMP_MAX_CS then None
      else case rp_cs p csid of Some c \<Rightarrow> Some c | None \<Rightarrow> Some (cs_new csid))"

definition put_cs :: "rtmp_parser \<Rightarrow> nat \<Rightarrow> zms_rtmp_cs_state \<Rightarrow> rtmp_parser" where
  "put_cs p csid c = p\<lparr>rp_cs := (rp_cs p)(csid \<mapsto> c)\<rparr>"

definition rtmp_chunk_cs_reset_all :: "rtmp_parser \<Rightarrow> rtmp_parser" where
  "rtmp_chunk_cs_reset_all p =
     p\<lparr>rp_cs := \<lambda>i. if i < ZMS_RTMP_MAX_CS
        then map_option (\<lambda>c. c\<lparr>c_msg_len := 0, c_body_off := 0\<rparr>) (rp_cs p i) else rp_cs p i\<rparr>"

section \<open>Receiving\<close>

definition ensure_body :: "buf_env \<Rightarrow> rtmp_parser \<Rightarrow> zms_rtmp_cs_state \<Rightarrow> nat \<Rightarrow> ztk_err \<times> zms_rtmp_cs_state" where
  "ensure_body e p c need =
     (if slot_cap (c_body c) \<ge> need then (ZTK_OK, c)
      else let cap = (if need < 256 then 256 else need);
               r = (if rp_io_poller p then zms_buf_pool_slot_resize_poller e (c_body c) cap
                    else zms_buf_pool_slot_resize e (c_body c) cap)
        in (if fst r then ZTK_OK else ZTK_ERR_NOMEM, c\<lparr>c_body := snd r\<rparr>))"

text \<open>The part of \<open>dispatch_msg\<close> that takes the command name and number off a body.\<close>

definition dispatch_cmd :: "bytes \<Rightarrow> rtmp_event list" where
  "dispatch_cmd body =
     (case zms_amf_decode body of
        Inl e \<Rightarrow> []
      | Inr (cmd, off) \<Rightarrow>
          if v_type cmd = ZMS_AMF_STRING then
            (case (if off < length body then zms_amf_decode (drop off body) else Inl ZTK_ERR_INVALID) of
               Inl e \<Rightarrow> [Ev_cmd (zms_amf_value_str (Some cmd)) 0 (drop off body)]
             | Inr (tid, tid_len) \<Rightarrow>
                 [Ev_cmd (zms_amf_value_str (Some cmd))
                    (if v_type tid = ZMS_AMF_NUMBER then zms_amf_value_num (Some tid) else 0)
                    (drop (off + tid_len) body)])
          else [])"

definition dispatch_msg :: "rtmp_parser \<Rightarrow> zms_rtmp_cs_state
    \<Rightarrow> rtmp_parser \<times> zms_rtmp_cs_state \<times> rtmp_event list" where
  "dispatch_msg p c =
     (if c_body_off c < unat (c_msg_len c) then (p, c, [])
      else
        let len = unat (c_msg_len c);
            body = slot_bytes (c_body c) len;
            p1 = (if c_type_id c = ZMS_RTMP_MSG_SET_CHUNK \<and> len \<ge> 4
                  then p\<lparr>rp_in_chunk_size :=
                    (let v = unat (be32 body 0) in if v = 0 then ZMS_RTMP_DEFAULT_CHUNK else v)\<rparr>
                  else p);
            evs = (if c_type_id c = ZMS_RTMP_MSG_CMD \<and> rp_on_cmd p \<and> c_body c \<noteq> None \<and> len > 0
                   then dispatch_cmd body
                   else if rp_on_chunk p
                   then [Ev_chunk (c_type_id c) (c_stream_id c) (c_tag_dts_ms c) body]
                   else [])
        in (p1,
            c\<lparr>c_last_msg_len := c_msg_len c, c_last_type_id := c_type_id c,
              c_last_stream_id := c_stream_id c, c_last_tag_dts_ms := c_tag_dts_ms c,
              c_last_tag_dts_field := c_tag_dts_field c, c_body_off := 0, c_msg_len := 0\<rparr>,
            evs))"

definition cs_restore_from_last :: "zms_rtmp_cs_state \<Rightarrow> zms_rtmp_cs_state" where
  "cs_restore_from_last c =
     (if c_last_msg_len c = 0 then c
      else c\<lparr>c_msg_len := c_last_msg_len c, c_type_id := c_last_type_id c,
             c_stream_id := c_last_stream_id c, c_tag_dts_ms := c_last_tag_dts_ms c,
             c_tag_dts_field := c_last_tag_dts_field c, c_body_off := 0\<rparr>)"

text \<open>The basic header: the chunk stream id and the number of its bytes beyond the first.\<close>

definition rtmp_basic_header :: "bytes \<Rightarrow> (nat \<times> nat) option" where
  "rtmp_basic_header d =
     (if d = [] then None
      else let low = unat (d ! 0 AND 0x3f) in
        if low = 0 then (if length d < 2 then None else Some (64 + unat (d ! 1), 1))
        else if low = 1 then
          (if length d < 3 then None else Some (64 + unat (d ! 2) + unat (d ! 1) * 256, 2))
        else Some (low, 0))"

definition HEADER_LENGTH :: "nat list" where "HEADER_LENGTH = [12, 8, 4, 1]"

text \<open>What the fields of a message header do to the state of its chunk stream.\<close>

definition apply_header :: "nat \<Rightarrow> bytes \<Rightarrow> zms_rtmp_cs_state \<Rightarrow> zms_rtmp_cs_state" where
  "apply_header header_len h c =
     (let c0 = (if c_body_off c = 0 \<and> c_msg_len c = 0
                then (cs_restore_from_last c)\<lparr>c_is_abs_stamp := False\<rparr> else c);
          c1 = (if header_len = 12 then c0\<lparr>c_is_abs_stamp := True, c_stream_id := le32 h 8\<rparr> else c0);
          c2 = (if header_len = 12 \<or> header_len = 8
                then c1\<lparr>c_msg_len := be24 h 4, c_type_id := h ! 7, c_body_off := 0\<rparr> else c1)
      in if header_len = 12 \<or> header_len = 8 \<or> header_len = 4
         then c2\<lparr>c_tag_dts_field := be24 h 1\<rparr> else c2)"

definition append_body :: "buf_env \<Rightarrow> rtmp_parser \<Rightarrow> zms_rtmp_cs_state \<Rightarrow> bytes \<Rightarrow> ztk_err \<times> zms_rtmp_cs_state" where
  "append_body e p c src =
     (if src = [] then (ZTK_OK, c)
      else case ensure_body e p c (c_body_off c + length src) of
        (err, c1) \<Rightarrow>
          if err \<noteq> ZTK_OK then (ZTK_ERR_NOMEM, c1)
          else (ZTK_OK, c1\<lparr>c_body := slot_write (c_body c1) (c_body_off c1) src,
                           c_body_off := c_body_off c1 + length src\<rparr>))"

text \<open>One turn of the loop of \<open>rtmp_chunk_parse\<close>.\<close>

definition rtmp_chunk_step :: "buf_env \<Rightarrow> rtmp_parser \<Rightarrow> bytes
    \<Rightarrow> (rtmp_parser, rtmp_event, ztk_err) outcome" where
  "rtmp_chunk_step e p d =
     (case rtmp_basic_header d of
        None \<Rightarrow> Need p
      | Some (csid, offset) \<Rightarrow>
        let header_len = HEADER_LENGTH ! unat (drop_bit 6 (d ! 0)) in
        if length d < header_len + offset then Need p
        else case get_cs p csid of
          None \<Rightarrow> Need p
        | Some c0 \<Rightarrow>
          let c = apply_header header_len (drop offset d) (c0\<lparr>c_csid := csid\<rparr>);
              ext = (c_tag_dts_field c = 0xffffff);
              pos = header_len + offset + (if ext then 4 else 0)
          in if ext \<and> length d < pos then Need (put_cs p csid c)
          else
            let header_tag_dts = (if ext then be32 (drop (offset + header_len) d) 0
                                  else c_tag_dts_field c) in
            if unat (c_msg_len c) < c_body_off c then Fail ZTK_ERR_INVALID (put_cs p csid c)
            else
              let more = min (unat (c_msg_len c) - c_body_off c) (rp_in_chunk_size p) in
              if length d < pos + more then Need (put_cs p csid c)
              else case append_body e p c (take more (drop pos d)) of
                (err, c1) \<Rightarrow>
                  if err \<noteq> ZTK_OK then Fail err (put_cs p csid c1)
                  else if c_body_off c1 \<ge> unat (c_msg_len c1) then
                    (case dispatch_msg p (c1\<lparr>c_tag_dts_ms := header_tag_dts
                         + (if c_is_abs_stamp c1 then 0 else c_tag_dts_ms c1)\<rparr>) of
                       (p1, c2, evs) \<Rightarrow> Took (put_cs p1 csid c2) (pos + more) evs)
                  else Took (put_cs p csid c1) (pos + more) [])"

text \<open>
  The whole loop. The result is the status, the parser, the number of bytes consumed (the
  caller's 0 after a failure) and the events of the callbacks in order.
\<close>

definition rtmp_chunk_parse :: "buf_env \<Rightarrow> rtmp_parser \<Rightarrow> bytes
    \<Rightarrow> ztk_err \<times> rtmp_parser \<times> nat \<times> rtmp_event list" where
  "rtmp_chunk_parse e p d =
     (case drive (rtmp_chunk_step e) p d of
        (evs, Inl (err, p1)) \<Rightarrow> (err, p1, 0, evs)
      | (evs, Inr (p1, r)) \<Rightarrow> (ZTK_OK, p1, length d - length r, evs))"

section \<open>Sending\<close>

text \<open>
  \<open>write_basic\<close>: the bytes written, none when the capacity does not suffice. Its callers
  use the chunk streams 3 and 8 only.
\<close>

definition write_basic :: "nat \<Rightarrow> nat \<Rightarrow> nat \<Rightarrow> bytes" where
  "write_basic cap fmt csid =
     (if csid < 64 then (if cap < 1 then [] else [of_nat (fmt * 64 + csid)])
      else if csid < 320 then (if cap < 2 then [] else [of_nat (fmt * 64), of_nat (csid - 64)])
      else if cap < 3 then []
      else [of_nat (fmt * 64 + 1), of_nat (csid - 64), of_nat ((csid - 64) div 256)])"

text \<open>
  The loop of \<open>rtmp_chunk_send\<close>: \<open>out\<close> is what is written so far, \<open>left\<close> the part of the
  body still to send. The loop ends because a chunk has at least one byte of a non-empty rest.
\<close>

function chunk_send_loop :: "nat \<Rightarrow> nat \<Rightarrow> nat \<Rightarrow> bool \<Rightarrow> u32 \<Rightarrow> bytes \<Rightarrow> bytes \<Rightarrow> bool \<Rightarrow> bytes
    \<Rightarrow> bytes option" where
  "chunk_send_loop cap chunk_sz csid use_ext dts hdr left first out =
     (if left = [] \<and> \<not> first then Some out
      else let b = write_basic (cap - length out) (if first then 0 else 3) csid in
        if b = [] then None
        else let o1 = out @ b in
          if first \<and> length o1 + 11 > cap then None
          else let o2 = (if first then o1 @ hdr else o1) in
            if use_ext \<and> length o2 + 4 > cap then None
            else let o3 = (if use_ext then o2 @ put_be32 dts else o2);
                     chunk = (if length left < chunk_sz then length left else chunk_sz) in
              if length o3 + chunk > cap then None
              else if drop chunk left = [] then Some (o3 @ take chunk left)
              else if chunk = 0 then None
              else chunk_send_loop cap chunk_sz csid use_ext dts hdr (drop chunk left) False
                     (o3 @ take chunk left))"
  by pat_completeness auto
termination by (relation "measure (\<lambda>(cap, sz, csid, ext, dts, hdr, left, first, out). length left)") auto

definition rtmp_send_csid :: "u8 \<Rightarrow> nat" where
  "rtmp_send_csid type_id =
     (if type_id = ZMS_RTMP_MSG_CMD \<or> type_id = ZMS_RTMP_MSG_WIN_SIZE
         \<or> type_id = ZMS_RTMP_MSG_SET_PEER_BW \<or> type_id = ZMS_RTMP_MSG_USER_CONTROL
         \<or> type_id = ZMS_RTMP_MSG_SET_CHUNK
      then ZMS_RTMP_CHUNK_SYSTEM else ZMS_RTMP_CHUNK_MEDIA)"

definition rtmp_chunk_send :: "nat \<Rightarrow> u8 \<Rightarrow> u32 \<Rightarrow> u32 \<Rightarrow> bytes \<Rightarrow> nat \<Rightarrow> ztk_err \<times> bytes" where
  "rtmp_chunk_send out_chunk_size type_id stream_id tag_dts_ms body cap =
     (let csid = rtmp_send_csid type_id;
          chunk_sz = (if out_chunk_size \<noteq> 0 then out_chunk_size else ZMS_RTMP_DEFAULT_CHUNK);
          use_ext = (tag_dts_ms \<ge> 0xffffff);
          hdr_tag_dts = (if use_ext then 0xffffff else tag_dts_ms);
          hdr = put_be24 hdr_tag_dts @ put_be24 (of_nat (length body)) @ [type_id] @ put_be32 stream_id
      in case chunk_send_loop cap chunk_sz csid use_ext tag_dts_ms hdr body True [] of
           None \<Rightarrow> (ZTK_ERR_NOMEM, [])
         | Some out \<Rightarrow> (ZTK_OK, out))"

text \<open>The server's first control messages; the chunk size changes after the first of them.\<close>

definition rtmp_control_send_server_init :: "nat \<Rightarrow> nat \<Rightarrow> ztk_err \<times> bytes \<times> nat" where
  "rtmp_control_send_server_init out_chunk_size cap =
     (case rtmp_chunk_send out_chunk_size ZMS_RTMP_MSG_SET_CHUNK 0 0 (put_be32 4096) cap of
       (e1, o1) \<Rightarrow> if e1 \<noteq> ZTK_OK then (ZTK_ERR_NOMEM, [], out_chunk_size) else
      (case rtmp_chunk_send 4096 ZMS_RTMP_MSG_WIN_SIZE 0 0 (put_be32 5000000) (cap - length o1) of
       (e2, o2) \<Rightarrow> if e2 \<noteq> ZTK_OK then (ZTK_ERR_NOMEM, [], 4096) else
      (case rtmp_chunk_send 4096 ZMS_RTMP_MSG_SET_PEER_BW 0 0 (2 # put_be32 5000000)
              (cap - length (o1 @ o2)) of
       (e3, o3) \<Rightarrow> if e3 \<noteq> ZTK_OK then (ZTK_ERR_NOMEM, [], 4096) else
      (case rtmp_chunk_send 4096 ZMS_RTMP_MSG_USER_CONTROL 0 0 ([0, 0] @ put_be32 0)
              (cap - length (o1 @ o2 @ o3)) of
       (e4, o4) \<Rightarrow> if e4 \<noteq> ZTK_OK then (ZTK_ERR_NOMEM, [], 4096)
          else (ZTK_OK, o1 @ o2 @ o3 @ o4, 4096)))))"

definition zms_rtmp_protocol_send_invoke ::
  "nat \<Rightarrow> bytes \<Rightarrow> u64 \<Rightarrow> u32 \<Rightarrow> bytes \<Rightarrow> nat \<Rightarrow> ztk_err \<times> bytes" where
  "zms_rtmp_protocol_send_invoke out_chunk_size cmd trans_id msg_stream_id amf_body cap =
     (let b1 = zms_amf_encode_string 4096 (Some cmd);
          b2 = b1 @ zms_amf_encode_number (4096 - length b1) trans_id;
          b3 = b2 @ zms_amf_encode_null (4096 - length b2)
      in if amf_body \<noteq> [] \<and> length b3 + length amf_body > 4096 then (ZTK_ERR_NOMEM, [])
         else rtmp_chunk_send out_chunk_size ZMS_RTMP_MSG_CMD msg_stream_id 0 (b3 @ amf_body) cap)"

section \<open>The connection\<close>

datatype rtmp_hs_state =
    ZMS_RTMP_HS_STATE_WAIT_C0C1
  | ZMS_RTMP_HS_STATE_WAIT_C2
  | ZMS_RTMP_HS_STATE_DONE

record zms_rtmp_protocol =
  rt_parser :: rtmp_parser
  rt_rx_buf :: "bytes option"
  rt_rx_len :: nat
  rt_out_chunk_size :: nat
  rt_hs_state :: rtmp_hs_state
  rt_hs_off :: nat
  rt_hs_need_reply :: bool
  rt_hs_init_pending :: bool
  rt_hs_complex :: bool
  rt_hs_alloc :: bool
  rt_c1 :: bytes
  rt_s1 :: bytes
  rt_s2 :: bytes
  rt_hs_buf :: bytes

definition zms_rtmp_protocol_create :: "bool \<Rightarrow> bool \<Rightarrow> zms_rtmp_protocol" where
  "zms_rtmp_protocol_create on_chunk on_cmd =
     \<lparr>rt_parser = \<lparr>rp_on_chunk = on_chunk, rp_on_cmd = on_cmd, rp_io_poller = False,
        rp_in_chunk_size = ZMS_RTMP_DEFAULT_CHUNK, rp_cs = Map.empty\<rparr>,
      rt_rx_buf = None, rt_rx_len = 0, rt_out_chunk_size = ZMS_RTMP_DEFAULT_CHUNK,
      rt_hs_state = ZMS_RTMP_HS_STATE_WAIT_C0C1, rt_hs_off = 0, rt_hs_need_reply = False,
      rt_hs_init_pending = False, rt_hs_complex = False, rt_hs_alloc = False,
      rt_c1 = [], rt_s1 = [], rt_s2 = [],
      rt_hs_buf = []\<rparr>"

definition zms_rtmp_protocol_create_established :: "bool \<Rightarrow> bool \<Rightarrow> zms_rtmp_protocol" where
  "zms_rtmp_protocol_create_established on_chunk on_cmd =
     (zms_rtmp_protocol_create on_chunk on_cmd)\<lparr>rt_hs_state := ZMS_RTMP_HS_STATE_DONE,
        rt_hs_off := 0, rt_hs_need_reply := False, rt_hs_init_pending := False\<rparr>"

definition zms_rtmp_protocol_set_out_chunk_size :: "zms_rtmp_protocol \<Rightarrow> nat \<Rightarrow> zms_rtmp_protocol" where
  "zms_rtmp_protocol_set_out_chunk_size p n =
     p\<lparr>rt_out_chunk_size := (if n \<noteq> 0 then n else ZMS_RTMP_DEFAULT_CHUNK)\<rparr>"

definition rtmp_rx_append :: "buf_env \<Rightarrow> zms_rtmp_protocol \<Rightarrow> bytes \<Rightarrow> ztk_err \<times> zms_rtmp_protocol" where
  "rtmp_rx_append e p d =
     (if d = [] then (ZTK_OK, p)
      else let need = rt_rx_len p + length d;
               cap = (if need < 4096 then 4096 else need * 2);
               r = (if need > slot_cap (rt_rx_buf p)
                    then if rp_io_poller (rt_parser p)
                         then zms_buf_pool_slot_resize_poller e (rt_rx_buf p) cap
                         else zms_buf_pool_slot_resize e (rt_rx_buf p) cap
                    else (True, rt_rx_buf p))
        in if \<not> fst r then (ZTK_ERR_NOMEM, p\<lparr>rt_rx_buf := snd r\<rparr>)
           else (ZTK_OK, p\<lparr>rt_rx_buf := slot_write (snd r) (rt_rx_len p) d, rt_rx_len := need\<rparr>))"

text \<open>\<open>memmove\<close> of the bytes from \<open>n\<close> on to the front; those behind them stay.\<close>

definition rtmp_rx_consume :: "zms_rtmp_protocol \<Rightarrow> nat \<Rightarrow> zms_rtmp_protocol" where
  "rtmp_rx_consume p n =
     (if n = 0 then p
      else if n \<ge> rt_rx_len p then p\<lparr>rt_rx_len := 0\<rparr>
      else p\<lparr>rt_rx_buf := slot_write (rt_rx_buf p) 0 (drop n (slot_bytes (rt_rx_buf p) (rt_rx_len p))),
             rt_rx_len := rt_rx_len p - n\<rparr>)"

function rtmp_rx_loop :: "buf_env \<Rightarrow> zms_rtmp_protocol \<Rightarrow> zms_rtmp_protocol \<times> rtmp_event list" where
  "rtmp_rx_loop e p =
     (if rt_rx_len p = 0 then (p, [])
      else case rtmp_chunk_parse e (rt_parser p) (slot_bytes (rt_rx_buf p) (rt_rx_len p)) of
        (err, p1, used, evs) \<Rightarrow>
          if err \<noteq> ZTK_OK
          then (p\<lparr>rt_parser := rtmp_chunk_cs_reset_all p1, rt_rx_len := 0\<rparr>, evs)
          else if used = 0 then (p\<lparr>rt_parser := p1\<rparr>, evs)
          else case rtmp_rx_loop e (rtmp_rx_consume (p\<lparr>rt_parser := p1\<rparr>) used) of
            (p2, evs2) \<Rightarrow> (p2, evs @ evs2))"
  by pat_completeness auto
termination
  by (relation "measure (\<lambda>(e, p). rt_rx_len p)") (auto simp: rtmp_rx_consume_def)

end
