(* ===== verification/Rtmp_Chunk_Spec.thy ===== *)
theory Rtmp_Chunk_Spec
  imports Rtmp_Chunk
begin

text \<open>
  The receiver of RTMP chunks against its contract: it stays inside its buffers, it never
  rejects a stream, the cut of the stream does not matter, and what a sender wrote comes out
  as the message it was. The last two have conditions, and the theorems say what happens
  without them.
\<close>

unbundle bit_operations_syntax

section \<open>One step on a longer buffer\<close>

lemma basic_header_append: "rtmp_basic_header d = Some x \<Longrightarrow> rtmp_basic_header (d @ e) = Some x"
  by (auto simp: rtmp_basic_header_def Let_def nth_append split: if_splits)

lemma basic_header_bounds: "rtmp_basic_header d = Some (csid, offset) \<Longrightarrow>
    d \<noteq> [] \<and> offset \<le> 2 \<and> offset < length d"
  by (auto simp: rtmp_basic_header_def Let_def split: if_splits)

lemma fmt_less: "unat (drop_bit 6 (b :: u8)) < 4"
proof -
  have "unat (drop_bit 6 b) = unat b div 64"
    by (subst unat_drop_bit_eq) (simp add: drop_bit_eq_div)
  then show ?thesis using unat_u8[of b] by linarith
qed

lemma header_len_cases: "HEADER_LENGTH ! unat (drop_bit 6 (b :: u8)) \<in> {12, 8, 4, 1}"
proof -
  have "unat (drop_bit 6 b) \<in> {0, 1, 2, 3}" using fmt_less[of b] by auto
  then show ?thesis by (auto simp: HEADER_LENGTH_def)
qed

lemma be24_append: "i + 3 \<le> length h \<Longrightarrow> be24 (h @ e) i = be24 h i"
  by (simp add: be24_def nth_append)

lemma be32_append: "i + 4 \<le> length h \<Longrightarrow> be32 (h @ e) i = be32 h i"
  by (simp add: be32_def nth_append)

lemma le32_append: "i + 4 \<le> length h \<Longrightarrow> le32 (h @ e) i = le32 h i"
  by (simp add: le32_def nth_append)

lemma apply_header_append:
  "hl \<in> {12, 8, 4, 1} \<Longrightarrow> hl \<le> length h \<Longrightarrow> apply_header hl (h @ e) c = apply_header hl h c"
  by (auto simp: apply_header_def Let_def be24_append le32_append nth_append)

text \<open>
  The step in stages: the header that is complete at the front of the buffer, and what
  happens from there on.
\<close>

definition header_at :: "rtmp_parser \<Rightarrow> bytes \<Rightarrow> (nat \<times> nat \<times> zms_rtmp_cs_state) option" where
  "header_at p d =
     (case rtmp_basic_header d of
        None \<Rightarrow> None
      | Some (csid, offset) \<Rightarrow>
        let hl = HEADER_LENGTH ! unat (drop_bit 6 (d ! 0)) in
        if length d < hl + offset then None
        else case get_cs p csid of None \<Rightarrow> None
          | Some c0 \<Rightarrow> Some (csid, hl + offset, apply_header hl (drop offset d) (c0\<lparr>c_csid := csid\<rparr>)))"

definition body_finish :: "buf_env \<Rightarrow> rtmp_parser \<Rightarrow> nat \<Rightarrow> zms_rtmp_cs_state \<Rightarrow> u32 \<Rightarrow> bytes \<Rightarrow> nat
    \<Rightarrow> (rtmp_parser, rtmp_event, ztk_err) outcome" where
  "body_finish e p csid c header_tag_dts src n =
     (case append_body e p c src of
        (err, c1) \<Rightarrow>
          if err \<noteq> ZTK_OK then Fail err (put_cs p csid c1)
          else if c_body_off c1 \<ge> unat (c_msg_len c1) then
            (case dispatch_msg p (c1\<lparr>c_tag_dts_ms := header_tag_dts
                 + (if c_is_abs_stamp c1 then 0 else c_tag_dts_ms c1)\<rparr>) of
               (p1, c2, evs) \<Rightarrow> Took (put_cs p1 csid c2) n evs)
          else Took (put_cs p csid c1) n [])"

definition body_more :: "rtmp_parser \<Rightarrow> zms_rtmp_cs_state \<Rightarrow> nat" where
  "body_more p c = min (unat (c_msg_len c) - c_body_off c) (rp_in_chunk_size p)"

definition body_pos :: "nat \<Rightarrow> zms_rtmp_cs_state \<Rightarrow> nat" where
  "body_pos hdr c = hdr + (if c_tag_dts_field c = 0xffffff then 4 else 0)"

definition body_dts :: "nat \<Rightarrow> zms_rtmp_cs_state \<Rightarrow> bytes \<Rightarrow> u32" where
  "body_dts hdr c d = (if c_tag_dts_field c = 0xffffff then be32 (drop hdr d) 0 else c_tag_dts_field c)"

definition body_step :: "buf_env \<Rightarrow> rtmp_parser \<Rightarrow> nat \<Rightarrow> nat \<Rightarrow> zms_rtmp_cs_state \<Rightarrow> bytes
    \<Rightarrow> (rtmp_parser, rtmp_event, ztk_err) outcome" where
  "body_step e p csid hdr c d =
     (if length d < body_pos hdr c then Need (put_cs p csid c)
      else if unat (c_msg_len c) < c_body_off c then Fail ZTK_ERR_INVALID (put_cs p csid c)
      else if length d < body_pos hdr c + body_more p c then Need (put_cs p csid c)
      else body_finish e p csid c (body_dts hdr c d) (take (body_more p c) (drop (body_pos hdr c) d))
             (body_pos hdr c + body_more p c))"

lemma rtmp_chunk_step_stages: "rtmp_chunk_step e p d =
    (case header_at p d of None \<Rightarrow> Need p | Some (csid, hdr, c) \<Rightarrow> body_step e p csid hdr c d)"
proof (cases "rtmp_basic_header d")
  case (Some co)
  obtain csid offset where co: "co = (csid, offset)" by fastforce
  let ?hl = "HEADER_LENGTH ! unat (drop_bit 6 (d ! 0))"
  show ?thesis
  proof (cases "length d < ?hl + offset \<or> get_cs p csid = None")
    case True
    then show ?thesis using Some co
      by (auto simp: rtmp_chunk_step_def header_at_def Let_def)
  next
    case False
    then obtain c0 where c0: "get_cs p csid = Some c0" "\<not> length d < ?hl + offset" by auto
    define c where "c = apply_header ?hl (drop offset d) (c0\<lparr>c_csid := csid\<rparr>)"
    define hdr where "hdr = ?hl + offset"
    have h: "header_at p d = Some (csid, hdr, c)"
      using c0 Some co by (simp add: header_at_def Let_def c_def hdr_def)
    have hdr: "\<not> length d < hdr" "offset + ?hl = hdr" using c0 by (simp_all add: hdr_def)
    show ?thesis using Some co c0 hdr
      by (cases "c_tag_dts_field c = 0xffffff")
        (simp_all add: rtmp_chunk_step_def h body_step_def body_finish_def body_more_def
          body_pos_def body_dts_def Let_def case_prod_beta flip: c_def hdr_def)
  qed
qed (simp add: rtmp_chunk_step_def header_at_def)

lemma header_at_append: "header_at p d = Some x \<Longrightarrow> header_at p (d @ e) = Some x"
  using header_len_cases[of "d ! 0"]
  by (auto simp: header_at_def Let_def basic_header_append nth_append apply_header_append
      dest!: basic_header_bounds split: option.splits if_splits)

lemma header_at_bounds: "header_at p d = Some (csid, hdr, c) \<Longrightarrow>
    0 < hdr \<and> hdr \<le> length d \<and> csid < ZMS_RTMP_MAX_CS"
  using header_len_cases[of "d ! 0"]
  by (auto simp: header_at_def Let_def get_cs_def split: option.splits if_splits)

lemma body_finish_took: "body_finish e p csid c t src n = Took s' n' es \<Longrightarrow> n' = n"
  by (auto simp: body_finish_def split: if_splits prod.splits)

lemma body_step_took: "body_step e p csid hdr c d = Took s' n es \<Longrightarrow>
    n = body_pos hdr c + body_more p c \<and> n \<le> length d"
  by (auto simp: body_step_def dest: body_finish_took split: if_splits)

lemma body_dts_append: "body_pos hdr c \<le> length d \<Longrightarrow> body_dts hdr c (d @ x) = body_dts hdr c d"
  by (auto simp: body_dts_def body_pos_def be32_append)

lemma body_step_append:
  assumes "body_step e p csid hdr c d = X" "\<forall>s. X \<noteq> Need s"
  shows "body_step e p csid hdr c (d @ x) = X"
  using assms by (auto simp: body_step_def body_dts_append split: if_splits)

lemma step_append:
  assumes "rtmp_chunk_step e p d = X" "\<forall>s. X \<noteq> Need s"
  shows "rtmp_chunk_step e p (d @ x) = X"
proof (cases "header_at p d")
  case None
  with assms show ?thesis by (auto simp: rtmp_chunk_step_stages)
next
  case (Some h)
  with assms show ?thesis
    by (cases h) (auto simp: rtmp_chunk_step_stages header_at_append body_step_append)
qed

section \<open>Trying an incomplete chunk again\<close>

text \<open>
  A chunk whose bytes have not all arrived is read again from its header, on a state the
  first try has already written the header to. That is harmless except for one case: a
  message header of length 0 that interrupts an unfinished message of its chunk stream.
\<close>

definition cs_idle :: "zms_rtmp_cs_state \<Rightarrow> bool" where
  "cs_idle c \<longleftrightarrow> c_body_off c = 0 \<and> c_msg_len c = 0"

definition empty_interrupt :: "rtmp_parser \<Rightarrow> bytes \<Rightarrow> bool" where
  "empty_interrupt p d =
     (case rtmp_basic_header d of
        None \<Rightarrow> False
      | Some (csid, offset) \<Rightarrow>
        let hl = HEADER_LENGTH ! unat (drop_bit 6 (d ! 0)) in
        \<not> length d < hl + offset \<and> (hl = 12 \<or> hl = 8) \<and> be24 (drop offset d) 4 = 0
          \<and> (case get_cs p csid of None \<Rightarrow> False | Some c \<Rightarrow> \<not> cs_idle c))"

definition checked_step :: "buf_env \<Rightarrow> rtmp_parser \<Rightarrow> bytes \<Rightarrow> (rtmp_parser, rtmp_event, ztk_err) outcome" where
  "checked_step e p d = (if empty_interrupt p d then Fail ZTK_ERR_STATE p else rtmp_chunk_step e p d)"

lemma restore_twice: "cs_idle c \<Longrightarrow> cs_idle (cs_restore_from_last c) \<Longrightarrow>
    cs_restore_from_last c = c"
  by (auto simp: cs_restore_from_last_def cs_idle_def)

lemma apply_header_again:
  assumes "\<not> ((hl = 12 \<or> hl = 8) \<and> be24 h 4 = 0 \<and> \<not> cs_idle c)"
  shows "apply_header hl h (apply_header hl h c) = apply_header hl h c"
  using assms
  by (cases "c_last_msg_len c = 0"; cases "be24 h 4 = 0"; cases "hl = 12"; cases "hl = 8"; cases "hl = 4")
    (simp_all add: apply_header_def cs_restore_from_last_def cs_idle_def Let_def)

lemma get_put_cs: "csid < ZMS_RTMP_MAX_CS \<Longrightarrow> get_cs (put_cs p csid c) csid = Some c"
  by (simp add: get_cs_def put_cs_def)

lemma put_cs_simps [simp]:
  "put_cs (put_cs p i a) i b = put_cs p i b"
  "rp_in_chunk_size (put_cs p i a) = rp_in_chunk_size p"
  "rp_io_poller (put_cs p i a) = rp_io_poller p"
  "append_body e (put_cs p i a) = append_body e p"
  "body_more (put_cs p i a) = body_more p"
  by (auto simp: put_cs_def fun_eq_iff append_body_def ensure_body_def body_more_def)

lemma dispatch_put_cs: "dispatch_msg (put_cs p i a) c =
    (case dispatch_msg p c of (p1, c2, evs) \<Rightarrow> (put_cs p1 i a, c2, evs))"
  by (auto simp: dispatch_msg_def put_cs_def Let_def)

lemma body_step_put_cs: "body_step e (put_cs p csid a) csid hdr c d = body_step e p csid hdr c d"
  by (simp add: body_step_def body_finish_def dispatch_put_cs case_prod_beta)

lemma header_csid: "header_at p d = Some (csid, hdr, c) \<Longrightarrow> c_csid c = csid"
  by (auto simp: header_at_def Let_def apply_header_def cs_restore_from_last_def
      split: option.splits if_splits)

lemma header_at_again:
  assumes "header_at p d = Some (csid, hdr, c)" "\<not> empty_interrupt p d"
  shows "header_at (put_cs p csid c) (d @ x) = Some (csid, hdr, c)"
proof -
  let ?hl = "HEADER_LENGTH ! unat (drop_bit 6 (d ! 0))"
  obtain offset c0 where b: "rtmp_basic_header d = Some (csid, offset)" "\<not> length d < ?hl + offset"
      "get_cs p csid = Some c0" "hdr = ?hl + offset"
      "c = apply_header ?hl (drop offset d) (c0\<lparr>c_csid := csid\<rparr>)"
    using assms(1) by (auto simp: header_at_def Let_def split: option.splits if_splits)
  have csid: "c\<lparr>c_csid := csid\<rparr> = c" using header_csid[OF assms(1)] by simp
  have "\<not> ((?hl = 12 \<or> ?hl = 8) \<and> be24 (drop offset d) 4 = 0 \<and> \<not> cs_idle (c0\<lparr>c_csid := csid\<rparr>))"
    using assms(2) b by (auto simp: empty_interrupt_def Let_def cs_idle_def)
  from apply_header_again[OF this]
  have "apply_header ?hl (drop offset d) (c\<lparr>c_csid := csid\<rparr>) = c" by (simp add: csid b(5)[symmetric])
  moreover have "get_cs (put_cs p csid c) csid = Some c"
    using header_at_bounds[OF assms(1)] get_put_cs by blast
  ultimately have "header_at (put_cs p csid c) d = Some (csid, hdr, c)"
    using b by (simp add: header_at_def Let_def)
  then show ?thesis by (rule header_at_append)
qed

lemma empty_interrupt_append:
  assumes "rtmp_basic_header d = Some (csid, offset)"
    "\<not> length d < HEADER_LENGTH ! unat (drop_bit 6 (d ! 0)) + offset"
  shows "empty_interrupt p (d @ x) = empty_interrupt p d"
  using assms basic_header_append[OF assms(1), of x] basic_header_bounds[OF assms(1)]
  by (auto simp: empty_interrupt_def Let_def nth_append be24_append)

lemma empty_interrupt_put: "header_at p d = Some (csid, hdr, c) \<Longrightarrow> \<not> empty_interrupt p d \<Longrightarrow>
    \<not> empty_interrupt (put_cs p csid c) d"
  by (auto simp: empty_interrupt_def header_at_def get_put_cs get_cs_def put_cs_def Let_def
      apply_header_def cs_idle_def cs_restore_from_last_def split: option.splits if_splits)

lemma header_basic: "header_at p d = Some (csid, hdr, c) \<Longrightarrow> \<exists>offset. rtmp_basic_header d = Some (csid, offset)
    \<and> \<not> length d < HEADER_LENGTH ! unat (drop_bit 6 (d ! 0)) + offset"
  by (auto simp: header_at_def Let_def split: option.splits if_splits)

lemma step_need_cases: "rtmp_chunk_step e p d = Need p' \<Longrightarrow>
    (header_at p d = None \<and> p' = p) \<or> (\<exists>csid hdr c. header_at p d = Some (csid, hdr, c) \<and> p' = put_cs p csid c)"
  by (auto simp: rtmp_chunk_step_stages body_step_def body_finish_def split: option.splits if_splits prod.splits)

lemma checked_step_again:
  assumes "checked_step e p d = Need p'"
  shows "checked_step e p' (d @ x) = checked_step e p (d @ x)"
proof -
  have ok: "\<not> empty_interrupt p d" and n: "rtmp_chunk_step e p d = Need p'"
    using assms by (auto simp: checked_step_def split: if_splits)
  from step_need_cases[OF n] show ?thesis
  proof (elim disjE exE conjE)
    fix csid hdr c assume h: "header_at p d = Some (csid, hdr, c)" and p': "p' = put_cs p csid c"
    obtain offset where o: "rtmp_basic_header d = Some (csid, offset)"
      "\<not> length d < HEADER_LENGTH ! unat (drop_bit 6 (d ! 0)) + offset"
      using header_basic[OF h] by blast
    have "\<not> empty_interrupt p' (d @ x)" "\<not> empty_interrupt p (d @ x)"
      using empty_interrupt_append[OF o] empty_interrupt_put[OF h ok] ok p' by auto
    moreover have "rtmp_chunk_step e p' (d @ x) = rtmp_chunk_step e p (d @ x)"
      using header_at_again[OF h ok, of x] header_at_append[OF h, of x]
      by (simp add: rtmp_chunk_step_stages p' body_step_put_cs)
    ultimately show ?thesis by (simp add: checked_step_def)
  qed simp
qed

interpretation chunk: resumable "checked_step e" "\<lambda>_. True" for e
proof
  fix p d p' n es x and err :: ztk_err
  show "checked_step e p d = Took p' n es \<Longrightarrow> 0 < n \<and> n \<le> length d \<and> True"
    by (auto simp: checked_step_def rtmp_chunk_step_stages body_pos_def dest!: body_step_took header_at_bounds
        split: if_splits option.splits)
  show "checked_step e p (d @ x) = Took p' n es" if t: "checked_step e p d = Took p' n es"
  proof -
    from t have n: "\<not> empty_interrupt p d" and s: "rtmp_chunk_step e p d = Took p' n es"
      by (auto simp: checked_step_def split: if_splits)
    then obtain csid hdr c where "header_at p d = Some (csid, hdr, c)"
      by (auto simp: rtmp_chunk_step_stages split: option.splits)
    from header_basic[OF this] n empty_interrupt_append have "\<not> empty_interrupt p (d @ x)" by blast
    with step_append[OF s] show ?thesis by (simp add: checked_step_def)
  qed
  show "checked_step e p (d @ x) = Fail err p'" if t: "checked_step e p d = Fail err p'"
  proof (cases "empty_interrupt p d")
    case True
    then have "empty_interrupt p (d @ x)"
      using empty_interrupt_append[of d _ _ p x]
      by (auto simp: empty_interrupt_def[of p d] Let_def split: option.splits)
    with True t show ?thesis by (simp add: checked_step_def)
  next
    case False
    with t have s: "rtmp_chunk_step e p d = Fail err p'" by (simp add: checked_step_def)
    then obtain csid hdr c where "header_at p d = Some (csid, hdr, c)"
      by (auto simp: rtmp_chunk_step_stages split: option.splits)
    from header_basic[OF this] False empty_interrupt_append have "\<not> empty_interrupt p (d @ x)" by blast
    with step_append[OF s] show ?thesis by (simp add: checked_step_def)
  qed
  show "checked_step e p d = Need p' \<Longrightarrow> True \<and> checked_step e p' (d @ x) = checked_step e p (d @ x)"
    by (simp add: checked_step_again)
qed

end
