(* ===== verification/Rtmp_Roundtrip.thy ===== *)
theory Rtmp_Roundtrip
  imports Rtmp_Chunk_Spec
begin

text \<open>
  What \<open>rtmp_chunk_send\<close> writes and \<open>rtmp_chunk_parse\<close> makes of it: the message comes out
  whole when the buffer of its chunk stream is big enough, with the bytes of the stream id
  reversed; when the buffer has to grow in the middle of a message, the part received before
  is lost.
\<close>

unbundle bit_operations_syntax

section \<open>The chunks of a message\<close>

definition ext_bytes :: "bool \<Rightarrow> u32 \<Rightarrow> bytes" where
  "ext_bytes ext dts = (if ext then put_be32 dts else [])"

definition cont_byte :: "nat \<Rightarrow> u8" where
  "cont_byte csid = of_nat (192 + csid)"

function more_chunks :: "nat \<Rightarrow> nat \<Rightarrow> bool \<Rightarrow> u32 \<Rightarrow> bytes \<Rightarrow> bytes" where
  "more_chunks n csid ext dts left =
     (if left = [] \<or> n = 0 then []
      else cont_byte csid # ext_bytes ext dts @ take n left @ more_chunks n csid ext dts (drop n left))"
  by pat_completeness auto
termination by (relation "measure (\<lambda>(n, csid, ext, dts, left). length left)") auto

declare more_chunks.simps [simp del] chunk_send_loop.simps [simp del]

lemma write_basic_small: "csid < 64 \<Longrightarrow> b = write_basic cap fmt csid \<Longrightarrow> b \<noteq> [] \<Longrightarrow> b = [of_nat (fmt * 64 + csid)]"
  by (auto simp: write_basic_def split: if_splits)

lemma chunk_send_rest:
  assumes "csid < 64" "0 < n"
  shows "chunk_send_loop cap n csid ext dts hdr left False out = Some w \<Longrightarrow>
    w = out @ more_chunks n csid ext dts left"
proof (induction "length left" arbitrary: left out rule: less_induct)
  case less
  show ?case
  proof (cases "left = []")
    case True
    with less.prems show ?thesis by (simp add: chunk_send_loop.simps more_chunks.simps)
  next
    case False
    let ?o = "out @ cont_byte csid # ext_bytes ext dts @ take n left"
    have wb: "write_basic (cap - length out) 3 csid \<noteq> [] \<Longrightarrow>
        write_basic (cap - length out) 3 csid = [of_nat (192 + csid)]"
      using write_basic_small[OF assms(1) refl, of "cap - length out" 3] by simp
    have w: "(if drop n left = [] then Some ?o
       else chunk_send_loop cap n csid ext dts hdr (drop n left) False ?o) = Some w"
    proof -
      have m: "min (length left) n = (if length left < n then length left else n)" by simp
      have "take (if length left < n then length left else n) left = take n left"
        "drop (if length left < n then length left else n) left = drop n left" by auto
      then show ?thesis using less.prems False assms(2) wb
        by (subst (asm) chunk_send_loop.simps)
          (auto simp: Let_def ext_bytes_def cont_byte_def split: if_split_asm)
    qed
    show ?thesis
    proof (cases "drop n left = []")
      case True
      with w False assms(2) show ?thesis by (simp add: more_chunks.simps[of n csid ext dts left] more_chunks.simps[of n csid ext dts "[]"])
    next
      case drop: False
      then have "length (drop n left) < length left" using assms(2) False by simp
      moreover from w drop
      have "chunk_send_loop cap n csid ext dts hdr (drop n left) False ?o = Some w" by simp
      ultimately have "w = ?o @ more_chunks n csid ext dts (drop n left)" using less.hyps by blast
      with False assms(2) show ?thesis by (simp add: more_chunks.simps[of n csid ext dts left])
    qed
  qed
qed

lemma chunk_send_first:
  assumes "csid < 64" "0 < n" "chunk_send_loop cap n csid ext dts hdr left True [] = Some w"
  shows "w = of_nat csid # hdr @ ext_bytes ext dts @ take n left @ more_chunks n csid ext dts (drop n left)"
proof -
  let ?o = "of_nat csid # hdr @ ext_bytes ext dts @ take n left"
  have wb: "write_basic cap 0 csid \<noteq> [] \<Longrightarrow> write_basic cap 0 csid = [of_nat csid]"
    using write_basic_small[OF assms(1) refl, of cap 0] by simp
  have "take (if length left < n then length left else n) left = take n left"
    "drop (if length left < n then length left else n) left = drop n left" by auto
  then have w: "(if drop n left = [] then Some ?o
     else chunk_send_loop cap n csid ext dts hdr (drop n left) False ?o) = Some w"
    using assms(2,3) wb
    by (subst (asm) chunk_send_loop.simps)
      (auto simp: Let_def ext_bytes_def split: if_split_asm)
  show ?thesis
  proof (cases "drop n left = []")
    case True
    with w show ?thesis by (simp add: more_chunks.simps[of n csid ext dts "[]"])
  next
    case False
    with w have "chunk_send_loop cap n csid ext dts hdr (drop n left) False ?o = Some w" by simp
    from chunk_send_rest[OF assms(1,2) this] show ?thesis by simp
  qed
qed

section \<open>Receiving them\<close>

text \<open>The two chunk streams the sender uses.\<close>

definition own_csid :: "nat \<Rightarrow> bool" where
  "own_csid csid \<longleftrightarrow> csid = ZMS_RTMP_CHUNK_SYSTEM \<or> csid = ZMS_RTMP_CHUNK_MEDIA"

lemma own_basic_header:
  "own_csid csid \<Longrightarrow> rtmp_basic_header (cont_byte csid # d) = Some (csid, 0)"
  "own_csid csid \<Longrightarrow> HEADER_LENGTH ! unat (drop_bit 6 (cont_byte csid)) = 1"
  "own_csid csid \<Longrightarrow> rtmp_basic_header (of_nat csid # d) = Some (csid, 0)"
  "own_csid csid \<Longrightarrow> HEADER_LENGTH ! unat (drop_bit 6 (of_nat csid :: u8)) = 12"
  by (auto simp: own_csid_def rtmp_consts rtmp_basic_header_def HEADER_LENGTH_def cont_byte_def)

lemma own_csid_max: "own_csid csid \<Longrightarrow> csid < ZMS_RTMP_MAX_CS"
  by (auto simp: own_csid_def rtmp_consts)

lemma header_at_more:
  assumes "own_csid csid" "rp_cs p csid = Some c" "c_csid c = csid" "\<not> cs_idle c"
  shows "header_at p (cont_byte csid # d) = Some (csid, 1, c)"
proof -
  have "c\<lparr>c_csid := csid\<rparr> = c" using assms(3) by simp
  then show ?thesis using assms own_csid_max[OF assms(1)] own_basic_header(1,2)[OF assms(1)]
    by (auto simp: header_at_def get_cs_def apply_header_def cs_idle_def)
qed

lemma append_body_fits:
  assumes "c_body_off c + length src \<le> slot_cap (c_body c)"
  shows "append_body e p c src = (ZTK_OK, if src = [] then c else
    c\<lparr>c_body := slot_write (c_body c) (c_body_off c) src, c_body_off := c_body_off c + length src\<rparr>)"
  using assms by (simp add: append_body_def ensure_body_def)

text \<open>
  What the parser does when the last byte of a message has been stored: \<open>bd\<close> is the body
  buffer, \<open>dts\<close> the time stamp of the header.
\<close>

definition deliver :: "rtmp_parser \<Rightarrow> nat \<Rightarrow> zms_rtmp_cs_state \<Rightarrow> bytes option \<Rightarrow> u32 \<Rightarrow> rtmp_parser \<times> rtmp_event list" where
  "deliver p csid c bd dts =
     (case dispatch_msg p (c\<lparr>c_body := bd, c_body_off := unat (c_msg_len c),
         c_tag_dts_ms := dts + (if c_is_abs_stamp c then 0 else c_tag_dts_ms c)\<rparr>) of
        (p1, c2, evs) \<Rightarrow> (put_cs p1 csid c2, evs))"

lemma more_step:
  assumes cs: "own_csid csid" "rp_cs p csid = Some c" "c_csid c = csid"
    and n: "0 < rp_in_chunk_size p" "left \<noteq> []"
    and len: "c_body_off c + length left = unat (c_msg_len c)" "unat (c_msg_len c) \<le> slot_cap (c_body c)"
    and ext: "ext \<longleftrightarrow> c_tag_dts_field c = 0xffffff" "ext \<or> c_tag_dts_field c = dts"
    and k: "k = min (length left) (rp_in_chunk_size p)"
    and c1: "c1 = c\<lparr>c_body := slot_write (c_body c) (c_body_off c) (take k left), c_body_off := c_body_off c + k\<rparr>"
  shows "rtmp_chunk_step e p (cont_byte csid # ext_bytes ext dts @ take k left @ rest)
    = (if k = length left
       then Took (fst (deliver p csid c (c_body c1) dts)) (1 + length (ext_bytes ext dts) + k)
              (snd (deliver p csid c (c_body c1) dts))
       else Took (put_cs p csid c1) (1 + length (ext_bytes ext dts) + k) [])"
proof -
  let ?d = "cont_byte csid # ext_bytes ext dts @ take k left @ rest"
  have idle: "\<not> cs_idle c" using len(1) n(2) by (auto simp: cs_idle_def)
  have h: "header_at p ?d = Some (csid, 1, c)" by (rule header_at_more[OF cs idle])
  have lk: "length (take k left) = k" using k by simp
  have more: "body_more p c = k" using len(1) k by (simp add: body_more_def)
  have pos: "body_pos 1 c = 1 + length (ext_bytes ext dts)"
    using ext by (simp add: body_pos_def ext_bytes_def)
  have dts: "body_dts 1 c ?d = dts" using ext by (auto simp: body_dts_def ext_bytes_def)
  have src: "take k (drop (1 + length (ext_bytes ext dts)) ?d) = take k left" using lk by simp
  have le: "\<not> unat (c_msg_len c) < c_body_off c" using len(1) by simp
  have fits: "c_body_off c + length (take k left) \<le> slot_cap (c_body c)" using lk k len by simp
  have ne: "take k left \<noteq> []" using lk k n by auto
  have "rtmp_chunk_step e p ?d = body_finish e p csid c dts (take k left) (1 + length (ext_bytes ext dts) + k)"
    using lk le by (simp add: rtmp_chunk_step_stages h body_step_def more pos dts src del: One_nat_def)
  also have "\<dots> = (if k = length left
       then Took (fst (deliver p csid c (c_body c1) dts)) (1 + length (ext_bytes ext dts) + k)
              (snd (deliver p csid c (c_body c1) dts))
       else Took (put_cs p csid c1) (1 + length (ext_bytes ext dts) + k) [])"
  proof -
    have "c_body_off c + k \<ge> unat (c_msg_len c) \<longleftrightarrow> k = length left" using len(1) k by auto
    then show ?thesis using ne lk len(1)
      by (auto simp: body_finish_def append_body_fits[OF fits] c1 deliver_def case_prod_beta)
  qed
  finally show ?thesis .
qed

lemma drive_step_took: "step s d = Took s' n es \<Longrightarrow> 0 < n \<Longrightarrow> n \<le> length d \<Longrightarrow>
    drive step s d = (es @ fst (drive step s' (drop n d)), snd (drive step s' (drop n d)))"
  by (subst drive.simps) (simp add: case_prod_beta)

lemma drop_more: "drop (1 + length x + length y) (b # x @ y @ z) = z"
  by simp

text \<open>The rest of a message: its remaining chunks complete the body and deliver it.\<close>

lemma receive_more:
  assumes "own_csid csid" "rp_cs p csid = Some c" "c_csid c = csid" "0 < rp_in_chunk_size p" "left \<noteq> []"
    and "c_body_off c + length left = unat (c_msg_len c)" "unat (c_msg_len c) \<le> slot_cap (c_body c)"
    and "ext \<longleftrightarrow> c_tag_dts_field c = 0xffffff" "ext \<or> c_tag_dts_field c = dts"
  shows "\<exists>bd. slot_cap bd = slot_cap (c_body c) \<and>
    slot_bytes bd (unat (c_msg_len c)) = slot_bytes (c_body c) (c_body_off c) @ left \<and>
    (case deliver p csid c bd dts of (p1, evs) \<Rightarrow>
      drive (rtmp_chunk_step e) p (more_chunks (rp_in_chunk_size p) csid ext dts left @ rest) =
        (evs @ fst (drive (rtmp_chunk_step e) p1 rest), snd (drive (rtmp_chunk_step e) p1 rest)))"
  using assms
proof (induction "length left" arbitrary: left p c rule: less_induct)
  case less
  let ?n = "rp_in_chunk_size p" and ?k = "min (length left) (rp_in_chunk_size p)"
  define c1 where "c1 = c\<lparr>c_body := slot_write (c_body c) (c_body_off c) (take ?k left),
      c_body_off := c_body_off c + ?k\<rparr>"
  have tk: "take ?n left = take ?k left" "drop ?n left = drop ?k left"
    by (simp_all add: min_def)
  have lk: "length (take ?k left) = ?k" by simp
  have fits: "c_body_off c + length (take ?k left) \<le> slot_cap (c_body c)"
    using less.prems(6,7) by simp
  have cap: "slot_cap (c_body c1) = slot_cap (c_body c)"
    using slot_cap_write[OF fits] by (simp add: c1_def)
  have bytes: "slot_bytes (c_body c1) (c_body_off c + ?k) = slot_bytes (c_body c) (c_body_off c) @ take ?k left"
    using slot_bytes_write[OF fits] by (simp add: c1_def lk)
  let ?more = "more_chunks ?n csid ext dts (drop ?k left)"
  let ?d = "cont_byte csid # ext_bytes ext dts @ take ?k left @ ?more @ rest"
  have d: "more_chunks ?n csid ext dts left @ rest = ?d"
    using less.prems(4,5) by (simp add: more_chunks.simps[of ?n csid ext dts left] tk)
  note st = more_step[OF less.prems(1-9) refl c1_def, of e "?more @ rest"]
  have n: "0 < 1 + length (ext_bytes ext dts) + ?k" "1 + length (ext_bytes ext dts) + ?k \<le> length ?d"
    "drop (1 + length (ext_bytes ext dts) + ?k) ?d = ?more @ rest"
    using lk drop_more[of "ext_bytes ext dts" "take ?k left"] by simp_all
  show ?case
  proof (cases "?k = length left")
    case True
    have nil: "?more = []" using True by (simp add: more_chunks.simps)
    from st True have "rtmp_chunk_step e p ?d = Took (fst (deliver p csid c (c_body c1) dts))
        (1 + length (ext_bytes ext dts) + ?k) (snd (deliver p csid c (c_body c1) dts))" by simp
    from drive_step_took[of "rtmp_chunk_step e" p ?d, OF this n(1,2)] n(3) nil
    have "drive (rtmp_chunk_step e) p ?d = (snd (deliver p csid c (c_body c1) dts)
        @ fst (drive (rtmp_chunk_step e) (fst (deliver p csid c (c_body c1) dts)) rest),
        snd (drive (rtmp_chunk_step e) (fst (deliver p csid c (c_body c1) dts)) rest))" by simp
    moreover have "slot_bytes (c_body c1) (unat (c_msg_len c)) = slot_bytes (c_body c) (c_body_off c) @ left"
      using bytes True less.prems(6) by simp
    ultimately show ?thesis using cap d by (auto simp: case_prod_beta intro!: exI[of _ "c_body c1"])
  next
    case False
    let ?p = "put_cs p csid c1"
    have "rtmp_chunk_step e p ?d = Took ?p (1 + length (ext_bytes ext dts) + ?k) []"
      using st by (simp only: False if_False)
    from drive_step_took[of "rtmp_chunk_step e" p ?d, OF this n(1,2)] n(3)
    have dr: "drive (rtmp_chunk_step e) p ?d = drive (rtmp_chunk_step e) ?p (?more @ rest)" by simp
    have sm: "length (drop ?k left) < length left" "drop ?k left \<noteq> []"
      using False less.prems(4,5) by auto
    have fld: "c_msg_len c1 = c_msg_len c" "c_tag_dts_field c1 = c_tag_dts_field c" "c_csid c1 = csid"
        "c_body_off c1 = c_body_off c + ?k" "rp_cs ?p csid = Some c1"
      using less.prems(3) by (simp_all add: c1_def put_cs_def)
    have "\<exists>bd. slot_cap bd = slot_cap (c_body c1) \<and>
        slot_bytes bd (unat (c_msg_len c1)) = slot_bytes (c_body c1) (c_body_off c1) @ drop ?k left \<and>
        (case deliver ?p csid c1 bd dts of (p1, evs) \<Rightarrow>
          drive (rtmp_chunk_step e) ?p (more_chunks (rp_in_chunk_size ?p) csid ext dts (drop ?k left) @ rest) =
            (evs @ fst (drive (rtmp_chunk_step e) p1 rest), snd (drive (rtmp_chunk_step e) p1 rest)))"
    proof (rule less.hyps[OF sm(1) less.prems(1) fld(5,3) _ sm(2)])
      show "0 < rp_in_chunk_size ?p" using less.prems(4) by simp
      show "c_body_off c1 + length (drop ?k left) = unat (c_msg_len c1)"
        using less.prems(6) by (simp add: fld)
      show "unat (c_msg_len c1) \<le> slot_cap (c_body c1)" using less.prems(7) cap by (simp add: fld)
      show "ext \<longleftrightarrow> c_tag_dts_field c1 = 0xffffff" using less.prems(8) by (simp add: fld)
      show "ext \<or> c_tag_dts_field c1 = dts" using less.prems(9) by (simp add: fld)
    qed
    moreover have "deliver ?p csid c1 bd dts = deliver p csid c bd dts" for bd
      by (simp add: deliver_def dispatch_put_cs c1_def case_prod_beta)
    moreover have "slot_bytes (c_body c1) (c_body_off c1) @ drop ?k left = slot_bytes (c_body c) (c_body_off c) @ left"
      using bytes by (simp add: fld)
    ultimately show ?thesis by (simp add: fld cap d dr)
  qed
qed

section \<open>A whole message\<close>

definition send_header :: "u8 \<Rightarrow> u32 \<Rightarrow> u32 \<Rightarrow> nat \<Rightarrow> bytes" where
  "send_header type_id stream_id hdr_dts len =
     put_be24 hdr_dts @ put_be24 (of_nat len) @ [type_id] @ put_be32 stream_id"

lemma send_header_fields:
  assumes "len < 2 ^ 24" "unat hdr_dts < 2 ^ 24"
  shows "be24 (b # send_header t sid hdr_dts len @ rest) 1 = hdr_dts"
    and "be24 (b # send_header t sid hdr_dts len @ rest) 4 = of_nat len"
    and "(b # send_header t sid hdr_dts len @ rest) ! 7 = t"
    and "le32 (b # send_header t sid hdr_dts len @ rest) 8 = le32 (put_be32 sid) 0"
proof -
  have at: "be24 (xs @ ys) (length xs) = be24 ys 0" for xs ys :: bytes
    by (simp add: be24_def nth_append numeral_2_eq_2)
  have a: "be24 ((b # []) @ put_be24 hdr_dts @ zs) (length (b # [])) = hdr_dts" for zs
    unfolding at by (rule be24_put_small[OF assms(2)])
  have "unat (of_nat len :: u32) < 2 ^ 24" using assms(1) by (simp add: unat_of_nat take_bit_nat_eq_self)
  then have c: "be24 ((b # put_be24 hdr_dts) @ put_be24 (of_nat len) @ zs) (length (b # put_be24 hdr_dts)) = of_nat len" for zs
    unfolding at by (rule be24_put_small)
  show "be24 (b # send_header t sid hdr_dts len @ rest) 1 = hdr_dts"
    using a by (simp add: send_header_def)
  show "be24 (b # send_header t sid hdr_dts len @ rest) 4 = of_nat len"
    using c by (simp add: send_header_def)
  show "(b # send_header t sid hdr_dts len @ rest) ! 7 = t"
    by (simp add: send_header_def put_be24_def)
  show "le32 (b # send_header t sid hdr_dts len @ rest) 8 = le32 (put_be32 sid) 0"
    by (simp add: send_header_def put_be24_def put_be32_def le32_def)
qed

definition first_cs :: "zms_rtmp_cs_state \<Rightarrow> nat \<Rightarrow> u8 \<Rightarrow> u32 \<Rightarrow> u32 \<Rightarrow> nat \<Rightarrow> zms_rtmp_cs_state" where
  "first_cs c csid t sid hdr_dts len =
     (cs_restore_from_last (c\<lparr>c_csid := csid\<rparr>))\<lparr>c_is_abs_stamp := True,
       c_stream_id := le32 (put_be32 sid) 0, c_msg_len := of_nat len, c_type_id := t,
       c_body_off := 0, c_tag_dts_field := hdr_dts\<rparr>"

lemma first_cs_simps [simp]:
  "c_is_abs_stamp (first_cs c csid t sid hdts len)" "c_stream_id (first_cs c csid t sid hdts len) = le32 (put_be32 sid) 0"
  "c_msg_len (first_cs c csid t sid hdts len) = of_nat len" "c_type_id (first_cs c csid t sid hdts len) = t"
  "c_body_off (first_cs c csid t sid hdts len) = 0" "c_tag_dts_field (first_cs c csid t sid hdts len) = hdts"
  "c_csid (first_cs c csid t sid hdts len) = csid" "c_body (first_cs c csid t sid hdts len) = c_body c"
  by (simp_all add: first_cs_def cs_restore_from_last_def)

lemma header_at_first:
  assumes "own_csid csid" "get_cs p csid = Some c" "cs_idle c" "len < 2 ^ 24" "unat hdr_dts < 2 ^ 24"
  shows "header_at p (of_nat csid # send_header t sid hdr_dts len @ rest) =
    Some (csid, 12, first_cs c csid t sid hdr_dts len)"
proof -
  have "length (send_header t sid hdr_dts len) = 11" by (simp add: send_header_def)
  then show ?thesis
    using own_basic_header(3,4)[OF assms(1)] assms(2,3) send_header_fields[OF assms(4,5)]
    by (simp add: header_at_def apply_header_def first_cs_def cs_idle_def Let_def)
qed

lemma ensure_first:
  assumes "ensure_body e p c (length src) = (ZTK_OK, c1)" "c_body c' = c_body c" "c_body_off c' = 0" "src \<noteq> []"
  shows "append_body e p c' src = (ZTK_OK, c'\<lparr>c_body := slot_write (c_body c1) 0 src, c_body_off := length src\<rparr>)"
  using assms by (auto simp: append_body_def ensure_body_def Let_def split: if_splits)

lemma ensure_cap: "buf_env_ok e \<Longrightarrow> ensure_body e p c n = (ZTK_OK, c1) \<Longrightarrow> n \<le> slot_cap (c_body c1)"
  using slot_resize_fst_cap[of e "c_body c" "if n < 256 then 256 else n"]
    slot_resize_poller_fst_cap[of e "c_body c" "if n < 256 then 256 else n"]
  by (cases "slot_cap (c_body c) \<ge> n"; cases "rp_io_poller p"; cases "n < 256")
    (auto simp: ensure_body_def Let_def split: if_splits)

lemma deliver_body: "deliver p csid (c\<lparr>c_body := bd', c_body_off := k\<rparr>) bd dts = deliver p csid c bd dts"
  by (simp add: deliver_def)

lemma deliver_put: "deliver (put_cs p csid c') csid c bd dts = deliver p csid c bd dts"
  by (simp add: deliver_def dispatch_put_cs case_prod_beta)

lemma first_cs_keep: "(first_cs c csid t sid hts len)\<lparr>c_body := c_body c, c_body_off := 0, c_tag_dts_ms := x\<rparr>
    = (first_cs c csid t sid hts len)\<lparr>c_tag_dts_ms := x\<rparr>"
  by (simp add: first_cs_def cs_restore_from_last_def)

text \<open>The first chunk: the step stores its part of the body.\<close>

lemma first_step:
  fixes body :: bytes
  defines "len \<equiv> length body"
  assumes own: "own_csid csid" and c: "get_cs p csid = Some c" "cs_idle c"
    and n: "n = rp_in_chunk_size p" and len: "len < 2 ^ 24"
    and ext: "ext \<longleftrightarrow> 0xffffff \<le> dts" "hts = (if ext then 0xffffff else dts)"
    and d: "d = of_nat csid # send_header t sid hts len @ ext_bytes ext dts @ take n body @ tail"
    and m: "m = 12 + length (ext_bytes ext dts) + min len n"
  shows "rtmp_chunk_step e p d = body_finish e p csid (first_cs c csid t sid hts len) dts (take n body) m"
    and "0 < m" "m \<le> length d" "drop m d = tail"
proof -
  let ?c = "first_cs c csid t sid hts len" and ?k = "min len n"
  have lt: "unat hts < 2 ^ 24"
    using ext by (auto simp: word_less_nat_alt word_le_nat_alt)
  have fld: "hts = 0xffffff \<longleftrightarrow> ext" using ext by auto
  have ln: "unat (of_nat len :: u32) = len" using len by (simp add: unat_of_nat take_bit_nat_eq_self)
  have h: "header_at p d = Some (csid, 12, ?c)" unfolding d by (rule header_at_first[OF own c len lt])
  have hl: "length (send_header t sid hts len) = 11" by (simp add: send_header_def)
  have more: "body_more p ?c = ?k" by (simp add: body_more_def ln n)
  have pos: "body_pos 12 ?c = 12 + length (ext_bytes ext dts)" by (simp add: body_pos_def ext_bytes_def fld)
  have drop12: "drop 12 d = ext_bytes ext dts @ take n body @ tail" using hl by (simp add: d)
  have dts: "body_dts 12 ?c d = dts"
    unfolding body_dts_def drop12 first_cs_simps fld using ext by (simp add: ext_bytes_def)
  have tk: "length (take n body) = ?k" by (simp add: len_def)
  have src: "take ?k (drop (12 + length (ext_bytes ext dts)) d) = take n body"
    unfolding drop_drop[symmetric] add.commute[of 12] drop12 by (simp add: len_def min_def)
  show ml: "0 < m" "m \<le> length d" using tk by (simp_all add: m d hl)
  have "drop m d = drop (length (ext_bytes ext dts) + ?k) (drop 12 d)"
    unfolding m drop_drop by (simp only: ac_simps)
  then show "drop m d = tail" unfolding drop12 using tk by (simp add: len_def)
  have "\<not> length d < 12 + length (ext_bytes ext dts)" "\<not> length d < 12 + length (ext_bytes ext dts) + ?k"
    "\<not> unat (c_msg_len ?c) < c_body_off ?c"
    using ml(2) by (simp_all only: m first_cs_simps)
  then show "rtmp_chunk_step e p d = body_finish e p csid ?c dts (take n body) m"
    by (simp only: rtmp_chunk_step_stages h option.case prod.case body_step_def more pos dts src
        if_False m)
qed

lemma receive_message:
  fixes body :: bytes
  defines "len \<equiv> length body"
  assumes own: "own_csid csid" and c: "get_cs p csid = Some c" "cs_idle c"
    and n: "n = rp_in_chunk_size p" "0 < n" and len: "len < 2 ^ 24"
    and ext: "ext \<longleftrightarrow> 0xffffff \<le> dts" "hts = (if ext then 0xffffff else dts)"
    and mem: "ensure_body e p c (min len n) = (ZTK_OK, c1)" "len \<le> slot_cap (c_body c1)"
  shows "\<exists>bd. slot_cap bd = slot_cap (c_body c1) \<and> slot_bytes bd len = body \<and>
    (case deliver p csid (first_cs c csid t sid hts len) bd dts of (p1, evs) \<Rightarrow>
      drive (rtmp_chunk_step e) p (of_nat csid # send_header t sid hts len @ ext_bytes ext dts
          @ take n body @ more_chunks n csid ext dts (drop n body) @ rest) =
        (evs @ fst (drive (rtmp_chunk_step e) p1 rest), snd (drive (rtmp_chunk_step e) p1 rest)))"
proof -
  let ?c = "first_cs c csid t sid hts len" and ?k = "min len n"
  let ?more = "more_chunks n csid ext dts (drop n body)"
  let ?d = "of_nat csid # send_header t sid hts len @ ext_bytes ext dts @ take n body @ ?more @ rest"
  define m where "m = 12 + length (ext_bytes ext dts) + ?k"
  note first = first_step[where body = body and d = ?d and t = t and sid = sid and tail = "?more @ rest" and m = m,
      folded len_def, OF own c n(1) len ext refl m_def]
  note st = first(1)[of e] and m = first(2,3) and m3 = first(4)
  have fld: "hts = 0xffffff \<longleftrightarrow> ext" using ext by auto
  have ln: "unat (of_nat len :: u32) = len" using len by (simp add: unat_of_nat take_bit_nat_eq_self)
  have tk: "length (take n body) = ?k" by (simp add: len_def)
  show ?thesis
  proof (cases "body = []")
    case True
    then have "body_finish e p csid ?c dts (take n body) m =
        Took (fst (deliver p csid ?c (c_body c) dts)) m (snd (deliver p csid ?c (c_body c) dts))"
      by (simp add: body_finish_def append_body_def deliver_def case_prod_beta len_def first_cs_keep)
    with st have "rtmp_chunk_step e p ?d =
        Took (fst (deliver p csid ?c (c_body c) dts)) m (snd (deliver p csid ?c (c_body c) dts))" by simp
    from drive_step_took[of "rtmp_chunk_step e" p ?d, OF this m(1,2)] m3 True
    have "drive (rtmp_chunk_step e) p ?d = (snd (deliver p csid ?c (c_body c) dts)
        @ fst (drive (rtmp_chunk_step e) (fst (deliver p csid ?c (c_body c) dts)) rest),
        snd (drive (rtmp_chunk_step e) (fst (deliver p csid ?c (c_body c) dts)) rest))"
      by (simp add: more_chunks.simps[of n csid ext dts "[]"])
    moreover have "slot_cap (c_body c) = slot_cap (c_body c1)"
      using mem(1) True by (simp add: ensure_body_def len_def)
    ultimately show ?thesis using True by (auto simp: case_prod_beta len_def intro!: exI[of _ "c_body c"])
  next
    case False
    have ne: "take n body \<noteq> []" using False n by simp
    define c2 where "c2 = ?c\<lparr>c_body := slot_write (c_body c1) 0 (take n body), c_body_off := ?k\<rparr>"
    have ap: "append_body e p ?c (take n body) = (ZTK_OK, c2)"
      using ensure_first[of e p c "take n body" c1 ?c] mem(1) ne tk by (simp add: c2_def)
    have fits: "0 + length (take n body) \<le> slot_cap (c_body c1)" using mem(2) tk by simp
    have cap: "slot_cap (c_body c2) = slot_cap (c_body c1)"
      using slot_cap_write[OF fits] by (simp add: c2_def)
    have bts: "slot_bytes (c_body c2) ?k = take n body"
      using slot_bytes_write[OF fits] tk by (simp add: c2_def)
    have f2: "c_msg_len c2 = of_nat len" "c_body_off c2 = ?k" "c_tag_dts_field c2 = hts" "c_csid c2 = csid"
      by (simp_all add: c2_def)
    show ?thesis
    proof (cases "drop n body = []")
      case True
      then have kl: "?k = len" by (simp add: len_def)
      have "rtmp_chunk_step e p ?d =
          Took (fst (deliver p csid ?c (c_body c2) dts)) m (snd (deliver p csid ?c (c_body c2) dts))"
        using kl by (simp add: st body_finish_def ap f2 ln deliver_def case_prod_beta) (simp add: c2_def)
      from drive_step_took[of "rtmp_chunk_step e" p ?d, OF this m(1,2)] m3 True
      have "drive (rtmp_chunk_step e) p ?d = (snd (deliver p csid ?c (c_body c2) dts)
          @ fst (drive (rtmp_chunk_step e) (fst (deliver p csid ?c (c_body c2) dts)) rest),
          snd (drive (rtmp_chunk_step e) (fst (deliver p csid ?c (c_body c2) dts)) rest))"
        by (simp add: more_chunks.simps[of n csid ext dts "[]"])
      moreover have "slot_bytes (c_body c2) len = body" using bts kl True by simp
      ultimately show ?thesis using cap by (auto simp: case_prod_beta intro!: exI[of _ "c_body c2"])
    next
      case more: False
      let ?p = "put_cs p csid c2"
      have kn: "?k = n" "n < len" using more by (simp_all add: len_def)
      have "rtmp_chunk_step e p ?d = Took ?p m []"
        using kn by (simp add: st body_finish_def ap f2 ln)
      from drive_step_took[of "rtmp_chunk_step e" p ?d, OF this m(1,2)] m3
      have dr: "drive (rtmp_chunk_step e) p ?d = drive (rtmp_chunk_step e) ?p (?more @ rest)" by simp
      have "\<exists>bd. slot_cap bd = slot_cap (c_body c2) \<and>
          slot_bytes bd (unat (c_msg_len c2)) = slot_bytes (c_body c2) (c_body_off c2) @ drop n body \<and>
          (case deliver ?p csid c2 bd dts of (p1, evs) \<Rightarrow>
            drive (rtmp_chunk_step e) ?p (more_chunks (rp_in_chunk_size ?p) csid ext dts (drop n body) @ rest) =
              (evs @ fst (drive (rtmp_chunk_step e) p1 rest), snd (drive (rtmp_chunk_step e) p1 rest)))"
      proof (rule receive_more[OF own _ f2(4) _ more])
        show "rp_cs ?p csid = Some c2" by (simp add: put_cs_def)
        show "0 < rp_in_chunk_size ?p" using n by simp
        have "n + length (drop n body) = len" using kn(2) unfolding len_def by simp
        then show "c_body_off c2 + length (drop n body) = unat (c_msg_len c2)"
          by (simp only: f2 ln kn(1))
        show "unat (c_msg_len c2) \<le> slot_cap (c_body c2)" using mem(2) cap by (simp add: f2 ln)
        show "ext \<longleftrightarrow> c_tag_dts_field c2 = 0xffffff" using fld by (simp add: f2)
        show "ext \<or> c_tag_dts_field c2 = dts" using ext by (simp add: f2)
      qed
      moreover have "deliver ?p csid c2 bd dts = deliver p csid ?c bd dts" for bd
        by (simp add: deliver_put c2_def deliver_body)
      ultimately show ?thesis unfolding dr using bts kn
        by (simp add: f2 ln cap n(1)[symmetric])
    qed
  qed
qed

definition out_chunk :: "nat \<Rightarrow> nat" where
  "out_chunk n = (if n \<noteq> 0 then n else ZMS_RTMP_DEFAULT_CHUNK)"

text \<open>The bytes of a successful send.\<close>

lemma chunk_send_bytes:
  assumes "rtmp_chunk_send n t sid dts body cap = (ZTK_OK, out)"
  shows "out = of_nat (rtmp_send_csid t) # send_header t sid (if 0xffffff \<le> dts then 0xffffff else dts) (length body)
    @ ext_bytes (0xffffff \<le> dts) dts @ take (out_chunk n) body
    @ more_chunks (out_chunk n) (rtmp_send_csid t) (0xffffff \<le> dts) dts (drop (out_chunk n) body)"
proof -
  have sz: "(if n \<noteq> 0 then n else ZMS_RTMP_DEFAULT_CHUNK) = out_chunk n" by (simp add: out_chunk_def)
  have "chunk_send_loop cap (out_chunk n) (rtmp_send_csid t) (0xffffff \<le> dts) dts
      (send_header t sid (if 0xffffff \<le> dts then 0xffffff else dts) (length body)) body True [] = Some out"
    using assms unfolding rtmp_chunk_send_def Let_def sz send_header_def
    by (auto split: option.splits)
  from chunk_send_first[OF _ _ this] show ?thesis
    by (simp add: rtmp_send_csid_def rtmp_consts out_chunk_def)
qed

lemma own_send_csid: "own_csid (rtmp_send_csid t)"
  by (simp add: own_csid_def rtmp_send_csid_def)

lemma deliver_events:
  assumes "slot_bytes bd len = body" "len = length body" "len < 2 ^ 24" "len \<le> slot_cap bd"
  shows "snd (deliver p csid (first_cs c csid t sid hts len) bd dts) =
    (if t = ZMS_RTMP_MSG_CMD \<and> rp_on_cmd p \<and> body \<noteq> [] then dispatch_cmd body
     else if rp_on_chunk p then [Ev_chunk t (le32 (put_be32 sid) 0) dts body] else [])"
proof -
  have ln: "unat (of_nat (length body) :: u32) = length body"
    using assms(2,3) by (simp add: unat_of_nat take_bit_nat_eq_self)
  have "bd \<noteq> None" if "body \<noteq> []" using that assms by (cases bd) (auto simp: slot_cap_def)
  then show ?thesis using assms(1,4) unfolding assms(2)
    by (auto simp: deliver_def dispatch_msg_def ln Let_def)
qed

lemma parse_sent_message:
  assumes "rtmp_chunk_send n t sid dts body cap = (ZTK_OK, out)" "length body < 2 ^ 24"
    and "rp_in_chunk_size p = out_chunk n"
    and "get_cs p (rtmp_send_csid t) = Some c" "cs_idle c"
    and "ensure_body e p c (min (length body) (out_chunk n)) = (ZTK_OK, c1)" "length body \<le> slot_cap (c_body c1)"
  shows "\<exists>q. rtmp_chunk_parse e p out = (ZTK_OK, q, length out,
    if t = ZMS_RTMP_MSG_CMD \<and> rp_on_cmd p \<and> body \<noteq> [] then dispatch_cmd body
    else if rp_on_chunk p then [Ev_chunk t (le32 (put_be32 sid) 0) dts body] else [])"
proof -
  let ?ext = "0xffffff \<le> dts" and ?csid = "rtmp_send_csid t" and ?len = "length body"
  let ?hts = "if ?ext then 0xffffff else dts"
  have pos: "0 < out_chunk n" by (simp add: out_chunk_def rtmp_consts)
  from receive_message[where t = t and sid = sid and dts = dts and rest = "[]",
      OF own_send_csid assms(4,5) assms(3)[symmetric] pos assms(2) refl refl assms(6,7)]
  obtain bd where all: "slot_cap bd = slot_cap (c_body c1) \<and> slot_bytes bd ?len = body \<and>
      (case deliver p ?csid (first_cs c ?csid t sid ?hts ?len) bd dts of (p1, evs) \<Rightarrow>
        drive (rtmp_chunk_step e) p (of_nat ?csid # send_header t sid ?hts ?len @ ext_bytes ?ext dts
          @ take (out_chunk n) body @ more_chunks (out_chunk n) ?csid ?ext dts (drop (out_chunk n) body) @ [])
        = (evs @ fst (drive (rtmp_chunk_step e) p1 []), snd (drive (rtmp_chunk_step e) p1 [])))"
    by (elim exE)
  note bd = all[THEN conjunct1] all[THEN conjunct2, THEN conjunct1] all[THEN conjunct2, THEN conjunct2]
  have stop: "drive (rtmp_chunk_step e) p1 [] = ([], Inr (p1, []))" for p1
    by (simp add: drive.simps rtmp_chunk_step_def rtmp_basic_header_def)
  have "drive (rtmp_chunk_step e) p out =
      (snd (deliver p ?csid (first_cs c ?csid t sid ?hts ?len) bd dts),
       Inr (fst (deliver p ?csid (first_cs c ?csid t sid ?hts ?len) bd dts), []))"
    using bd(3) chunk_send_bytes[OF assms(1)] by (simp add: stop case_prod_beta)
  then show ?thesis
    using deliver_events[OF bd(2) refl assms(2)] assms(7) bd(1) by (simp add: rtmp_chunk_parse_def)
qed

text \<open>
  C22: What \<open>rtmp_chunk_send\<close> writes, the chunk parser reads back as one message of the same
  type, time stamp (extended ones included) and body, for every body of less than 16 MiB and
  every chunk size the two sides agree on, if the body buffer that the first chunk was given
  holds the whole message. The stream id does not survive: it is sent with its bytes in the
  opposite order of the one they are read in.
\<close>

theorem rtmp_message_roundtrip:
  assumes "rtmp_chunk_send n t sid dts body cap = (ZTK_OK, out)" "length body < 2 ^ 24"
    and "t \<noteq> ZMS_RTMP_MSG_CMD" "rp_on_chunk p" "rp_in_chunk_size p = out_chunk n"
    and "get_cs p (rtmp_send_csid t) = Some c" "cs_idle c"
    and "ensure_body e p c (min (length body) (out_chunk n)) = (ZTK_OK, c1)" "length body \<le> slot_cap (c_body c1)"
  shows "\<exists>q. rtmp_chunk_parse e p out
    = (ZTK_OK, q, length out, [Ev_chunk t (le32 (put_be32 sid) 0) dts body])"
  using parse_sent_message[OF assms(1,2,5-9)] assms(3,4) by simp

definition ex_env :: buf_env where
  "ex_env = \<lparr>be_enabled = False, be_global = None, be_local = None, be_malloc = (\<lambda>n. Some (replicate n 0xcc))\<rparr>"

definition ex_parser :: rtmp_parser where
  "ex_parser = rt_parser (zms_rtmp_protocol_create_established True True)"

lemmas ex_rtmp_defs = ex_env_def ex_parser_def zms_rtmp_protocol_create_established_def
  zms_rtmp_protocol_create_def get_cs_def cs_new_def cs_idle_def ensure_body_def slot_cap_def
  zms_buf_pool_slot_resize_def zms_buf_pool_acquire_def out_chunk_def rtmp_send_csid_def rtmp_consts

lemma rtmp_message_roundtrip_witness:
  "let out = [8, 0, 0, 40, 0, 0, 3, 9, 0, 0, 0, 1, 7, 8, 9] in
    \<exists>q. rtmp_chunk_parse ex_env ex_parser out = (ZTK_OK, q, length out, [Ev_chunk 9 0x01000000 40 [7, 8, 9]])"
proof -
  have snd: "rtmp_chunk_send 128 9 1 40 [7, 8, 9] 64 = (ZTK_OK, [8, 0, 0, 40, 0, 0, 3, 9, 0, 0, 0, 1, 7, 8, 9])"
    by (simp add: rtmp_chunk_send_def Let_def rtmp_send_csid_def rtmp_consts chunk_send_loop.simps
        write_basic_def put_be24_def put_be32_def)
  have "le32 (put_be32 1) 0 = 0x01000000" by (simp add: le32_def put_be32_def)
  then show ?thesis
    using rtmp_message_roundtrip[OF snd, of ex_parser "cs_new 8" ex_env "cs_new 8\<lparr>c_body := Some (replicate 256 0xcc)\<rparr>"]
    by (simp add: ex_rtmp_defs Let_def)
qed

text \<open>
  A command sent with \<open>zms_rtmp_protocol_send_invoke\<close> reaches the command callback of the
  receiver with its name, its transaction number and, behind a null, the arguments, if name
  and arguments fit the 4096 bytes of the sender and the body buffer holds the message.
\<close>

theorem rtmp_invoke_roundtrip:
  assumes "zms_rtmp_protocol_send_invoke n cmd trans_id sid args cap = (ZTK_OK, out)"
    and "0 \<notin> set cmd" "length cmd + length args + 13 \<le> 4096"
    and "rp_on_cmd p" "rp_in_chunk_size p = out_chunk n"
    and "get_cs p ZMS_RTMP_CHUNK_SYSTEM = Some c" "cs_idle c"
    and "ensure_body e p c (min (length cmd + length args + 13) (out_chunk n)) = (ZTK_OK, c1)"
    and "length cmd + length args + 13 \<le> slot_cap (c_body c1)"
  shows "\<exists>q. rtmp_chunk_parse e p out = (ZTK_OK, q, length out, [Ev_cmd cmd trans_id (5 # args)])"
proof -
  define b1 where "b1 = zms_amf_encode_string 4096 (Some cmd)"
  define b2 where "b2 = zms_amf_encode_number (4096 - length b1) trans_id"
  define b3 where "b3 = zms_amf_encode_null (4096 - length (b1 @ b2))"
  have l1: "length b1 = 3 + length cmd" using decode_encoded_string(2)[of cmd 4096] assms(3) by (simp add: b1_def)
  have l2: "length b2 = 9" using decode_encoded_number(2)[of "4096 - length b1" trans_id] assms(3) l1 by (simp add: b2_def)
  have b3: "b3 = [5]" using assms(3) l1 l2 by (simp add: b3_def zms_amf_encode_null_def amf_types)
  let ?body = "(b1 @ b2 @ b3) @ args"
  have len: "length ?body = length cmd + length args + 13" using l1 l2 b3 by simp
  have send: "rtmp_chunk_send n ZMS_RTMP_MSG_CMD sid 0 ?body cap = (ZTK_OK, out)"
    using assms(1) by (auto simp: zms_rtmp_protocol_send_invoke_def Let_def b1_def b2_def b3_def split: if_splits)
  have small: "length ?body < 2 ^ 24" "length ?body \<le> slot_cap (c_body c1)"
    "ensure_body e p c (min (length ?body) (out_chunk n)) = (ZTK_OK, c1)"
    using assms(3,8,9) unfolding len by simp_all
  have "rtmp_send_csid ZMS_RTMP_MSG_CMD = ZMS_RTMP_CHUNK_SYSTEM" by (simp add: rtmp_send_csid_def)
  from assms(6)[folded this]
  have ex: "\<exists>q. rtmp_chunk_parse e p out = (ZTK_OK, q, length out,
      if ZMS_RTMP_MSG_CMD = ZMS_RTMP_MSG_CMD \<and> rp_on_cmd p \<and> ?body \<noteq> [] then dispatch_cmd ?body
      else if rp_on_chunk p then [Ev_chunk ZMS_RTMP_MSG_CMD (le32 (put_be32 sid) 0) 0 ?body] else [])"
    by (rule parse_sent_message[OF send small(1) assms(5) _ assms(7) small(3,2)])
  have "\<exists>q. rtmp_chunk_parse e p out = (ZTK_OK, q, length out, dispatch_cmd ?body)"
  proof -
    have "ZMS_RTMP_MSG_CMD = ZMS_RTMP_MSG_CMD \<and> rp_on_cmd p \<and> ?body \<noteq> []" using assms(4) b3 by simp
    with ex show ?thesis by (simp only: simp_thms if_True)
  qed
  moreover have "dispatch_cmd ?body = [Ev_cmd cmd trans_id (5 # args)]"
  proof -
    define bdy where "bdy = ?body"
    have d1: "zms_amf_decode bdy = Inr (Amf_value ZMS_AMF_STRING (Some cmd) 0 False [], 3 + length cmd)"
      unfolding bdy_def append_assoc b1_def
      by (rule decode_encoded_string(1)) (use assms(3) in simp_all)
    have d2: "zms_amf_decode (b2 @ b3 @ args) = Inr (Amf_value ZMS_AMF_NUMBER None trans_id False [], 9)"
      unfolding b2_def by (rule decode_encoded_number(1)) (use assms(3) l1 in simp)
    have dr: "drop (3 + length cmd) bdy = b2 @ b3 @ args" "drop (3 + length cmd + 9) bdy = 5 # args"
      "3 + length cmd < length bdy"
      using l1 l2 b3 by (simp_all add: bdy_def)
    have "takeWhile (\<lambda>b. b \<noteq> 0) cmd = cmd" using assms(2) by (auto simp: takeWhile_eq_all_conv)
    then have "dispatch_cmd bdy = [Ev_cmd cmd trans_id (5 # args)]"
      using dr by (simp add: dispatch_cmd_def d1 d2 zms_amf_value_str_def zms_amf_value_num_def)
    then show ?thesis by (simp only: bdy_def)
  qed
  ultimately show ?thesis by simp
qed

lemma rtmp_invoke_roundtrip_witness:
  "let out = [3, 0, 0, 0, 0, 0, 17, 20, 0, 0, 0, 0, 2, 0, 4, 112, 108, 97, 121, 0, 0, 0, 0, 0, 0, 0, 0, 4, 5] in
    \<exists>q. rtmp_chunk_parse ex_env ex_parser out = (ZTK_OK, q, length out, [Ev_cmd [112, 108, 97, 121] 4 [5]])"
proof -
  have eight: "(8 :: nat) = Suc (Suc (Suc (Suc (Suc (Suc (Suc (Suc 0)))))))" by simp
  have be: "be_bytes 8 4 = [0, 0, 0, 0, 0, 0, 0, 4]" by (simp only: eight be_bytes.simps) simp
  have snd: "zms_rtmp_protocol_send_invoke 128 [112, 108, 97, 121] 4 0 [] 64 = (ZTK_OK,
      [3, 0, 0, 0, 0, 0, 17, 20, 0, 0, 0, 0, 2, 0, 4, 112, 108, 97, 121, 0, 0, 0, 0, 0, 0, 0, 0, 4, 5])"
    by (simp add: zms_rtmp_protocol_send_invoke_def rtmp_chunk_send_def Let_def rtmp_send_csid_def rtmp_consts
        chunk_send_loop.simps write_basic_def put_be24_def put_be32_def zms_amf_encode_string_def
        zms_amf_encode_number_def zms_amf_encode_null_def amf_types be del: be_bytes.simps)
  show ?thesis
    using rtmp_invoke_roundtrip[OF snd, of ex_parser "cs_new 3" ex_env "cs_new 3\<lparr>c_body := Some (replicate 256 0xcc)\<rparr>"]
    by (simp add: ex_rtmp_defs Let_def)
qed

section \<open>A body buffer that has to grow\<close>

lemma more_header:
  assumes "own_csid csid" "rp_cs p csid = Some c" "c_csid c = csid" "\<not> cs_idle c"
    and "ext \<longleftrightarrow> c_tag_dts_field c = 0xffffff" "ext \<or> c_tag_dts_field c = dts"
    and k: "k = min (unat (c_msg_len c) - c_body_off c) (rp_in_chunk_size p)" "k = length src"
    and "c_body_off c \<le> unat (c_msg_len c)"
    and d: "d = cont_byte csid # ext_bytes ext dts @ src @ rest"
  shows "rtmp_chunk_step e p d = body_finish e p csid c dts src (1 + length (ext_bytes ext dts) + k)"
proof -
  have h: "header_at p d = Some (csid, 1, c)" unfolding d by (rule header_at_more[OF assms(1-4)])
  have pos: "body_pos 1 c = 1 + length (ext_bytes ext dts)" using assms(5) by (simp add: body_pos_def ext_bytes_def)
  have dts: "body_dts 1 c d = dts" using assms(5,6) by (auto simp: body_dts_def ext_bytes_def d)
  have more: "body_more p c = k" by (simp add: body_more_def k(1))
  have src: "take k (drop (1 + length (ext_bytes ext dts)) d) = src" by (simp add: d k(2))
  have "\<not> length d < 1 + length (ext_bytes ext dts)" "\<not> length d < 1 + length (ext_bytes ext dts) + k"
    "\<not> unat (c_msg_len c) < c_body_off c" using assms(9) k(2) by (simp_all add: d)
  then show ?thesis
    by (simp only: rtmp_chunk_step_stages h option.case prod.case body_step_def more pos dts src if_False)
qed

text \<open>
  A message of two chunks whose second chunk does not fit the body buffer any more is
  delivered with its first chunk gone: the buffer is replaced by a bigger block without
  copying, and the first bytes of the message are whatever that block held.
\<close>

theorem rtmp_body_lost:
  assumes "rtmp_chunk_send n t sid dts body cap = (ZTK_OK, out)" "length body < 2 ^ 24"
    and "t \<noteq> ZMS_RTMP_MSG_CMD" "rp_on_chunk p" "rp_in_chunk_size p = out_chunk n" "\<not> rp_io_poller p"
    and "get_cs p (rtmp_send_csid t) = Some c" "cs_idle c"
    and "out_chunk n < length body" "length body \<le> 2 * out_chunk n" "256 \<le> length body"
    and "ensure_body e p c (out_chunk n) = (ZTK_OK, c1)" "slot_cap (c_body c1) < length body"
    and "zms_buf_pool_acquire e (length body) = Some old" "length body \<le> length old" "out_chunk n \<le> slot_cap (c_body c1)"
  shows "\<exists>q. rtmp_chunk_parse e p out = (ZTK_OK, q, length out,
    [Ev_chunk t (le32 (put_be32 sid) 0) dts (take (out_chunk n) old @ drop (out_chunk n) body)])"
proof -
  let ?n = "out_chunk n" and ?ext = "0xffffff \<le> dts" and ?csid = "rtmp_send_csid t" and ?len = "length body"
  let ?hts = "if ?ext then 0xffffff else dts" and ?src = "drop (out_chunk n) body"
  let ?c = "first_cs c ?csid t sid ?hts ?len"
  have pos: "0 < ?n" by (simp add: out_chunk_def rtmp_consts)
  have ln: "unat (of_nat ?len :: u32) = ?len" using assms(2) by (simp add: unat_of_nat take_bit_nat_eq_self)
  have two: "more_chunks ?n ?csid ?ext dts ?src = cont_byte ?csid # ext_bytes ?ext dts @ ?src"
    using assms(9,10) pos by (simp add: more_chunks.simps[of ?n ?csid ?ext dts] more_chunks.simps[of ?n ?csid ?ext dts "[]"])
  define m where "m = 12 + length (ext_bytes ?ext dts) + min ?len ?n"
  note first = first_step[OF own_send_csid assms(7,8) assms(5)[symmetric] assms(2) refl refl
      chunk_send_bytes[OF assms(1), unfolded two] m_def]
  have kn: "min ?len ?n = ?n" "length (take ?n body) = ?n" using assms(9) by simp_all
  define c2 where "c2 = ?c\<lparr>c_body := slot_write (c_body c1) 0 (take ?n body), c_body_off := ?n\<rparr>"
  have ap: "append_body e p ?c (take ?n body) = (ZTK_OK, c2)"
    using ensure_first[of e p c "take ?n body" c1 ?c] assms(9,12) pos kn by (force simp: c2_def)
  have "rtmp_chunk_step e p out = Took (put_cs p ?csid c2) m []"
    using assms(9) unfolding first(1)[of e] by (simp add: body_finish_def ap) (simp add: c2_def ln)
  from drive_step_took[of "rtmp_chunk_step e" p out, OF this first(2,3)] first(4)
  have dr: "drive (rtmp_chunk_step e) p out =
      drive (rtmp_chunk_step e) (put_cs p ?csid c2) (cont_byte ?csid # ext_bytes ?ext dts @ ?src)" by simp
  define bd where "bd = slot_write (Some old) ?n ?src"
  have cap2: "slot_cap (c_body c2) < ?len"
    using assms(13,16) slot_cap_write[of 0 "take ?n body" "c_body c1"] kn by (simp add: c2_def)
  have ap2: "append_body e p c2 ?src = (ZTK_OK, c2\<lparr>c_body := bd, c_body_off := ?len\<rparr>)"
    using assms(6,9,11,14) cap2
    by (auto simp: append_body_def ensure_body_def c2_def bd_def Let_def zms_buf_pool_slot_resize_def)
  have "rtmp_chunk_step e (put_cs p ?csid c2) (cont_byte ?csid # ext_bytes ?ext dts @ ?src @ [])
      = body_finish e (put_cs p ?csid c2) ?csid c2 dts ?src (1 + length (ext_bytes ?ext dts) + length ?src)"
  proof (rule more_header[OF own_send_csid])
    show "rp_cs (put_cs p ?csid c2) ?csid = Some c2" by (simp add: put_cs_def)
    show "\<not> cs_idle c2" using pos by (simp add: cs_idle_def c2_def)
    show "?ext \<longleftrightarrow> c_tag_dts_field c2 = 0xffffff" by (auto simp: c2_def)
    show "length ?src = min (unat (c_msg_len c2) - c_body_off c2) (rp_in_chunk_size (put_cs p ?csid c2))"
      using assms(5,9,10) by (simp add: c2_def ln)
  qed (use assms(9) in \<open>simp_all add: c2_def ln\<close>)
  then have "rtmp_chunk_step e (put_cs p ?csid c2) (cont_byte ?csid # ext_bytes ?ext dts @ ?src)
      = Took (fst (deliver p ?csid ?c bd dts)) (1 + length (ext_bytes ?ext dts) + length ?src)
          (snd (deliver p ?csid ?c bd dts))"
    by (simp add: body_finish_def ap2 deliver_def dispatch_put_cs case_prod_beta) (simp add: c2_def ln)
  from drive_step_took[of "rtmp_chunk_step e" "put_cs p ?csid c2" "cont_byte ?csid # ext_bytes ?ext dts @ ?src", OF this] dr
  have "drive (rtmp_chunk_step e) p out = (snd (deliver p ?csid ?c bd dts), Inr (fst (deliver p ?csid ?c bd dts), []))"
    by (simp add: drive.simps[of _ _ "[]"] rtmp_chunk_step_def rtmp_basic_header_def)
  moreover have "snd (deliver p ?csid ?c bd dts) = [Ev_chunk t (le32 (put_be32 sid) 0) dts (take ?n old @ ?src)]"
  proof -
    have "slot_bytes bd ?len = take ?n old @ ?src" "?len \<le> slot_cap bd"
      using assms(9,15) by (simp_all add: bd_def slot_write_def slot_bytes_def slot_cap_def)
    moreover have "?len = length (take ?n old @ ?src)" using assms(9,15) by simp
    ultimately show ?thesis
      using deliver_events[of bd ?len "take ?n old @ ?src", OF _ _ assms(2)] assms(3,4) by (simp only: simp_thms if_False if_True)
  qed
  ultimately show ?thesis by (simp add: rtmp_chunk_parse_def)
qed

lemma rtmp_body_lost_witness:
  "\<exists>out q. rtmp_chunk_send 200 9 1 0 (replicate 300 7) 400 = (ZTK_OK, out) \<and>
    rtmp_chunk_parse ex_env (ex_parser\<lparr>rp_in_chunk_size := 200\<rparr>) out =
      (ZTK_OK, q, length out, [Ev_chunk 9 0x01000000 0 (replicate 200 0xcc @ replicate 100 7)])"
proof -
  obtain out where snd: "rtmp_chunk_send 200 9 1 0 (replicate 300 7) 400 = (ZTK_OK, out)"
    by (simp add: rtmp_chunk_send_def Let_def rtmp_send_csid_def rtmp_consts chunk_send_loop.simps
        write_basic_def)
  have "le32 (put_be32 1) 0 = 0x01000000" by (simp add: le32_def put_be32_def)
  then have "\<exists>q. rtmp_chunk_parse ex_env (ex_parser\<lparr>rp_in_chunk_size := 200\<rparr>) out =
      (ZTK_OK, q, length out, [Ev_chunk 9 0x01000000 0 (replicate 200 0xcc @ replicate 100 7)])"
    using rtmp_body_lost[OF snd, of "ex_parser\<lparr>rp_in_chunk_size := 200\<rparr>" "cs_new 8" ex_env
        "cs_new 8\<lparr>c_body := Some (replicate 256 0xcc)\<rparr>" "replicate 300 0xcc"]
    by (simp add: ex_rtmp_defs Let_def)
  with snd show ?thesis by blast
qed

end
