(* ===== verification/Rtmp_Conn.thy ===== *)
theory Rtmp_Conn
  imports Rtmp_Chunk_Spec
begin

text \<open>
  A connection of \<open>rtmp_protocol.c\<close>: the handshake of \<open>rtmp_protocol_handshake.c\<close> and the
  input routine that feeds the chunk parser. The two routines of \<open>rtmp_handshake.c\<close> that
  recognise a digest handshake and compute its answer are parameters: \<open>detect\<close> of the
  client's block, and \<open>build\<close>, the two answer blocks or nothing. The four work buffers of
  the handshake are allocated and freed together (\<open>rt_hs_alloc\<close>), which is taken to succeed;
  their contents are the bytes written to them.
\<close>

section \<open>The handshake\<close>

definition hs_need :: "rtmp_hs_state \<Rightarrow> nat" where
  "hs_need st = (case st of
      ZMS_RTMP_HS_STATE_WAIT_C0C1 \<Rightarrow> 1 + ZMS_RTMP_HS_BODY
    | ZMS_RTMP_HS_STATE_WAIT_C2 \<Rightarrow> ZMS_RTMP_HS_BODY
    | ZMS_RTMP_HS_STATE_DONE \<Rightarrow> 0)"

definition rtmp_handshake_release :: "zms_rtmp_protocol \<Rightarrow> zms_rtmp_protocol" where
  "rtmp_handshake_release p = p\<lparr>rt_hs_alloc := False, rt_c1 := [], rt_s1 := [], rt_s2 := [], rt_hs_buf := []\<rparr>"

text \<open>
  What follows the copy in one turn of the loop of \<open>rtmp_handshake_input\<close>: \<open>need\<close> bytes of
  the awaited block are there, or not. The comparison of C2 has no effect in the code.
\<close>

definition hs_advance :: "(bytes \<Rightarrow> bool) \<Rightarrow> (bytes \<Rightarrow> (bytes \<times> bytes) option) \<Rightarrow> nat
    \<Rightarrow> zms_rtmp_protocol \<Rightarrow> zms_rtmp_protocol" where
  "hs_advance detect build need p =
     (if rt_hs_state p = ZMS_RTMP_HS_STATE_WAIT_C0C1 \<and> rt_hs_off p \<ge> need then
        let c1 = take ZMS_RTMP_HS_BODY (drop 1 (rt_hs_buf p));
            p1 = p\<lparr>rt_c1 := c1, rt_hs_complex := detect c1\<rparr>;
            p2 = (if detect c1
                  then case build c1 of
                    Some (s1, s2) \<Rightarrow> p1\<lparr>rt_s1 := s1, rt_s2 := s2\<rparr>
                  | None \<Rightarrow> p1\<lparr>rt_hs_complex := False\<rparr>
                  else p1)
        in p2\<lparr>rt_hs_state := ZMS_RTMP_HS_STATE_WAIT_C2, rt_hs_off := 0, rt_hs_need_reply := True\<rparr>
      else if rt_hs_state p = ZMS_RTMP_HS_STATE_WAIT_C2 \<and> rt_hs_off p \<ge> need then
        rtmp_handshake_release (p\<lparr>rt_hs_state := ZMS_RTMP_HS_STATE_DONE, rt_hs_off := 0,
          rt_hs_init_pending := True\<rparr>)
      else p)"

definition hs_turn :: "(bytes \<Rightarrow> bool) \<Rightarrow> (bytes \<Rightarrow> (bytes \<times> bytes) option)
    \<Rightarrow> zms_rtmp_protocol \<Rightarrow> bytes \<Rightarrow> zms_rtmp_protocol \<times> bytes" where
  "hs_turn detect build p d =
     (let need = hs_need (rt_hs_state p);
          copy = min (need - rt_hs_off p) (length d);
          p1 = p\<lparr>rt_hs_buf := take (rt_hs_off p) (rt_hs_buf p) @ take copy d,
                 rt_hs_off := rt_hs_off p + copy\<rparr>
      in (hs_advance detect build need p1, drop copy d))"

text \<open>
  The loop \<open>while (off < len)\<close>. It runs until the data is used up; \<open>None\<close> is a call that
  does not return.
\<close>

partial_function (option) hs_loop :: "(bytes \<Rightarrow> bool) \<Rightarrow> (bytes \<Rightarrow> (bytes \<times> bytes) option)
    \<Rightarrow> zms_rtmp_protocol \<Rightarrow> bytes \<Rightarrow> zms_rtmp_protocol option" where
  "hs_loop detect build p d =
     (if d = [] then Some p
      else (case hs_turn detect build p d of (p1, d1) \<Rightarrow> hs_loop detect build p1 d1))"

text \<open>The result is the connection and the number of bytes consumed.\<close>

definition rtmp_handshake_input :: "(bytes \<Rightarrow> bool) \<Rightarrow> (bytes \<Rightarrow> (bytes \<times> bytes) option)
    \<Rightarrow> zms_rtmp_protocol \<Rightarrow> bytes \<Rightarrow> (zms_rtmp_protocol \<times> nat) option" where
  "rtmp_handshake_input detect build p d =
     (if rt_hs_state p = ZMS_RTMP_HS_STATE_DONE then Some (p, 0)
      else map_option (\<lambda>p1. (p1, length d)) (hs_loop detect build (p\<lparr>rt_hs_alloc := True\<rparr>) d))"

definition zms_rtmp_protocol_handshake_pending :: "zms_rtmp_protocol \<Rightarrow> bool \<times> zms_rtmp_protocol" where
  "zms_rtmp_protocol_handshake_pending p =
     (if rt_hs_need_reply p then (True, p\<lparr>rt_hs_need_reply := False\<rparr>) else (False, p))"

definition zms_rtmp_protocol_handshake_complete :: "zms_rtmp_protocol \<Rightarrow> bool \<times> zms_rtmp_protocol" where
  "zms_rtmp_protocol_handshake_complete p =
     (if rt_hs_init_pending p then (True, p\<lparr>rt_hs_init_pending := False\<rparr>) else (False, p))"

text \<open>\<open>s1\<close> is the block \<open>rtmp_handshake_make_s1\<close> fills from the clock and \<open>rand\<close>.\<close>

definition zms_rtmp_protocol_send_handshake_s0s1s2 :: "bytes \<Rightarrow> zms_rtmp_protocol \<Rightarrow> nat
    \<Rightarrow> ztk_err \<times> bytes \<times> zms_rtmp_protocol" where
  "zms_rtmp_protocol_send_handshake_s0s1s2 s1 p cap =
     (if cap < 1 + ZMS_RTMP_HS_BODY * 2 then (ZTK_ERR_INVALID, [], p)
      else if \<not> rt_hs_alloc p then (ZTK_ERR_STATE, [], p)
      else let p1 = (if rt_hs_complex p then p else p\<lparr>rt_s1 := s1\<rparr>) in
        (ZTK_OK, 3 # rt_s1 p1 @ (if rt_hs_complex p1 then rt_s2 p1 else rt_c1 p1), p1))"

section \<open>Input\<close>

definition zms_rtmp_protocol_input :: "(bytes \<Rightarrow> bool) \<Rightarrow> (bytes \<Rightarrow> (bytes \<times> bytes) option) \<Rightarrow> buf_env
    \<Rightarrow> zms_rtmp_protocol \<Rightarrow> bytes \<Rightarrow> (ztk_err \<times> zms_rtmp_protocol \<times> rtmp_event list) option" where
  "zms_rtmp_protocol_input detect build e p d =
     (let feed = (\<lambda>p d. case rtmp_rx_append e p d of
            (err, p1) \<Rightarrow> if err \<noteq> ZTK_OK then (ZTK_ERR_NOMEM, p1, [])
                         else (case rtmp_rx_loop e p1 of (p2, evs) \<Rightarrow> (ZTK_OK, p2, evs)))
      in if rt_hs_state p \<noteq> ZMS_RTMP_HS_STATE_DONE then
           (case rtmp_handshake_input detect build p d of
              None \<Rightarrow> None
            | Some (p1, used) \<Rightarrow>
                if rt_hs_state p1 \<noteq> ZMS_RTMP_HS_STATE_DONE then Some (ZTK_OK, p1, [])
                else Some (feed p1 (drop used d)))
         else Some (feed p d))"

declare hs_loop.simps [simp del] rtmp_rx_loop.simps [simp del]

section \<open>The handshake returns as long as nothing follows it\<close>

text \<open>Bytes the handshake still takes.\<close>

definition hs_left :: "zms_rtmp_protocol \<Rightarrow> nat" where
  "hs_left p = (case rt_hs_state p of
      ZMS_RTMP_HS_STATE_WAIT_C0C1 \<Rightarrow> (1 + ZMS_RTMP_HS_BODY - rt_hs_off p) + ZMS_RTMP_HS_BODY
    | ZMS_RTMP_HS_STATE_WAIT_C2 \<Rightarrow> ZMS_RTMP_HS_BODY - rt_hs_off p
    | ZMS_RTMP_HS_STATE_DONE \<Rightarrow> 0)"

definition hs_ok :: "zms_rtmp_protocol \<Rightarrow> bool" where
  "hs_ok p \<longleftrightarrow> rt_hs_state p = ZMS_RTMP_HS_STATE_DONE \<or> rt_hs_off p < hs_need (rt_hs_state p)"

lemma hs_advance_id: "rt_hs_off p < need \<Longrightarrow> hs_advance detect build need p = p"
  unfolding hs_advance_def by (rule trans[OF if_not_P if_not_P]; linarith)

lemma hs_turn_short:
  assumes "length d < hs_need (rt_hs_state p) - rt_hs_off p"
  shows "hs_turn detect build p d = (p\<lparr>rt_hs_buf := take (rt_hs_off p) (rt_hs_buf p) @ d,
      rt_hs_off := rt_hs_off p + length d\<rparr>, [])"
proof -
  have "min (hs_need (rt_hs_state p) - rt_hs_off p) (length d) = length d" using assms by simp
  then show ?thesis using assms unfolding hs_turn_def Let_def by (simp add: hs_advance_id)
qed

lemma hs_advance_c1:
  assumes "rt_hs_state p = ZMS_RTMP_HS_STATE_WAIT_C0C1" "need \<le> rt_hs_off p"
  shows "rt_hs_state (hs_advance detect build need p) = ZMS_RTMP_HS_STATE_WAIT_C2"
    and "rt_hs_off (hs_advance detect build need p) = 0"
  using assms by (auto simp: hs_advance_def Let_def split: option.split prod.split)

lemma hs_advance_c2:
  assumes "rt_hs_state p = ZMS_RTMP_HS_STATE_WAIT_C2" "need \<le> rt_hs_off p"
  shows "rt_hs_state (hs_advance detect build need p) = ZMS_RTMP_HS_STATE_DONE"
  using assms by (simp add: hs_advance_def rtmp_handshake_release_def)

lemma hs_turn_step:
  assumes ok: "hs_ok p" and st: "rt_hs_state p \<noteq> ZMS_RTMP_HS_STATE_DONE" and d: "d \<noteq> []"
    and t: "hs_turn detect build p d = (p1, d1)"
  shows "hs_ok p1 \<and> length d1 < length d \<and> length d + hs_left p1 = length d1 + hs_left p"
proof (cases "length d < hs_need (rt_hs_state p) - rt_hs_off p")
  case True
  with t have "p1 = p\<lparr>rt_hs_buf := take (rt_hs_off p) (rt_hs_buf p) @ d, rt_hs_off := rt_hs_off p + length d\<rparr>"
    "d1 = []" by (simp_all add: hs_turn_short)
  with True d st show ?thesis
    by (auto simp: hs_ok_def hs_left_def hs_need_def split: rtmp_hs_state.splits)
next
  case False
  define q where "q = p\<lparr>rt_hs_buf := take (rt_hs_off p) (rt_hs_buf p) @ take (hs_need (rt_hs_state p) - rt_hs_off p) d,
      rt_hs_off := rt_hs_off p + (hs_need (rt_hs_state p) - rt_hs_off p)\<rparr>"
  have p1: "p1 = hs_advance detect build (hs_need (rt_hs_state p)) q"
    and d1: "d1 = drop (hs_need (rt_hs_state p) - rt_hs_off p) d"
    using False t by (simp_all add: hs_turn_def Let_def q_def min_absorb1)
  have q: "rt_hs_state q = rt_hs_state p" "hs_need (rt_hs_state p) \<le> rt_hs_off q" by (simp_all add: q_def)
  from st ok False d show ?thesis
  proof (cases "rt_hs_state p")
    case ZMS_RTMP_HS_STATE_WAIT_C0C1
    with hs_advance_c1[of q "hs_need (rt_hs_state p)" detect build] q p1
    have "rt_hs_state p1 = ZMS_RTMP_HS_STATE_WAIT_C2" "rt_hs_off p1 = 0" by simp_all
    with ZMS_RTMP_HS_STATE_WAIT_C0C1 False ok d d1 show ?thesis
      by (simp add: hs_ok_def hs_left_def hs_need_def rtmp_consts)
  next
    case ZMS_RTMP_HS_STATE_WAIT_C2
    with hs_advance_c2[of q "hs_need (rt_hs_state p)" detect build] q p1
    have "rt_hs_state p1 = ZMS_RTMP_HS_STATE_DONE" by simp
    with ZMS_RTMP_HS_STATE_WAIT_C2 False ok d d1 show ?thesis
      by (simp add: hs_ok_def hs_left_def hs_need_def rtmp_consts)
  qed simp
qed

lemma hs_loop_done: "hs_loop detect build p d = Some q \<Longrightarrow> rt_hs_state p = ZMS_RTMP_HS_STATE_DONE \<Longrightarrow> d = []"
proof (rule hs_loop.raw_induct[where P = "\<lambda>detect build p d q. rt_hs_state p = ZMS_RTMP_HS_STATE_DONE \<longrightarrow> d = []",
      rule_format])
  fix f detect build p d q
  assume IH: "\<And>detect build p d q. f detect build p d = Some q \<Longrightarrow> rt_hs_state p = ZMS_RTMP_HS_STATE_DONE \<Longrightarrow> d = []"
    and eq: "(if d = [] then Some p
       else (case hs_turn detect build p d of (p1, d1) \<Rightarrow> f detect build p1 d1)) = Some q"
    and st: "rt_hs_state p = ZMS_RTMP_HS_STATE_DONE"
  have "rt_hs_state (fst (hs_turn detect build p d)) = ZMS_RTMP_HS_STATE_DONE" "snd (hs_turn detect build p d) = d"
    using st by (simp_all add: hs_turn_def hs_need_def hs_advance_def Let_def)
  with IH eq show "d = []" by (cases "hs_turn detect build p d") (auto split: if_splits)
qed

lemma hs_loop_returns:
  "hs_ok p \<Longrightarrow> case hs_loop detect build p d of
     None \<Rightarrow> hs_left p < length d
   | Some q \<Rightarrow> length d \<le> hs_left p \<and> hs_ok q \<and> hs_left q = hs_left p - length d"
proof (induction "length d" arbitrary: p d rule: less_induct)
  case less
  show ?case
  proof (cases "d = []")
    case True
    with less.prems show ?thesis by (simp add: hs_loop.simps)
  next
    case False
    show ?thesis
    proof (cases "rt_hs_state p = ZMS_RTMP_HS_STATE_DONE")
      case True
      with False hs_loop_done[of detect build p d] show ?thesis
        by (cases "hs_loop detect build p d") (auto simp: hs_left_def)
    next
      case st: False
      obtain p1 d1 where t: "hs_turn detect build p d = (p1, d1)" by fastforce
      from hs_turn_step[OF less.prems st False t] have s: "hs_ok p1" "length d1 < length d"
        "length d + hs_left p1 = length d1 + hs_left p" by auto
      have "hs_loop detect build p d = hs_loop detect build p1 d1"
        using False t by (subst hs_loop.simps) simp
      with less.hyps[OF s(2,1)] s(3) show ?thesis by (auto split: option.splits)
    qed
  qed
qed

lemma hs_left_0: "hs_ok p \<Longrightarrow> hs_left p = 0 \<longleftrightarrow> rt_hs_state p = ZMS_RTMP_HS_STATE_DONE"
  by (auto simp: hs_left_def hs_ok_def hs_need_def rtmp_consts split: rtmp_hs_state.splits)

text \<open>
  During the handshake the input routine returns if and only if the data ends where C2
  ends or before, however it is cut, and the handshake is finished exactly when the last byte
  of C2 has come. Data with a single byte behind C2, such as the first command in the same
  segment, leaves the routine in a loop that takes no more bytes and never ends.
\<close>

theorem handshake_input_returns:
  assumes "hs_ok p" "rt_hs_state p \<noteq> ZMS_RTMP_HS_STATE_DONE"
  shows "case rtmp_handshake_input detect build p d of
      None \<Rightarrow> hs_left p < length d
    | Some (q, n) \<Rightarrow> length d \<le> hs_left p \<and> n = length d \<and> hs_left q = hs_left p - length d
        \<and> (rt_hs_state q = ZMS_RTMP_HS_STATE_DONE \<longleftrightarrow> length d = hs_left p)"
proof -
  let ?p = "p\<lparr>rt_hs_alloc := True\<rparr>"
  have eq: "hs_ok ?p = hs_ok p" "hs_left ?p = hs_left p" by (cases "rt_hs_state p"; simp add: hs_ok_def hs_left_def)+
  show ?thesis
  proof (cases "hs_loop detect build ?p d")
    case None
    with assms hs_loop_returns[of ?p d detect build] eq show ?thesis by (simp add: rtmp_handshake_input_def)
  next
    case (Some q)
    with assms hs_loop_returns[of ?p d detect build] eq hs_left_0[of q] show ?thesis
      by (auto simp: rtmp_handshake_input_def)
  qed
qed

lemma handshake_input_returns_witness:
  "rtmp_handshake_input (\<lambda>_. False) (\<lambda>_. None) (zms_rtmp_protocol_create True True) (replicate 3074 3) = None"
  using handshake_input_returns[of "zms_rtmp_protocol_create True True", where detect = "\<lambda>_. False"
      and build = "\<lambda>_. None" and d = "replicate 3074 3"]
  by (auto simp: zms_rtmp_protocol_create_def hs_ok_def hs_need_def hs_left_def rtmp_consts split: option.splits)

end
