(* ===== verification/Rtp_Packet.thy ===== *)
theory Rtp_Packet
  imports Framing
begin

text \<open>
  The wire formats of \<open>media/wire/rtp_packet.c\<close> (RTP headers, interleaved frames of RTSP) and
  \<open>session/rtp/rtcp.c\<close> (sender and receiver reports), and what a packet is: the parser is
  compared with an independent description of RTP packets, the readers with the writers.
\<close>

unbundle bit_operations_syntax

definition ZMS_RTP_HDR_SIZE :: nat where "ZMS_RTP_HDR_SIZE = 12"
definition ZMS_RTSP_INTERLEAVED_HDR :: nat where "ZMS_RTSP_INTERLEAVED_HDR = 4"

lemmas rtp_consts = ZMS_RTP_HDR_SIZE_def ZMS_RTSP_INTERLEAVED_HDR_def

section \<open>RTP\<close>

record zms_rtp_header =
  h_version :: u8
  h_padding :: u8
  h_extension :: u8
  h_csrc_count :: u8
  h_marker :: u8
  h_pt :: u8
  h_seq :: u16
  h_timestamp :: u32
  h_ssrc :: u32

text \<open>
  The pointer \<open>payload\<close> is the offset of the payload in the data; the size is the length of
  the data, and the channel of an interleaved packet, 0 here, is left out.
\<close>

record zms_rtp_packet =
  pk_data :: bytes
  pk_hdr :: zms_rtp_header
  pk_payload :: nat
  pk_payload_size :: nat

definition rtp_header_of :: "bytes \<Rightarrow> zms_rtp_header" where
  "rtp_header_of d =
     (let b0 = d ! 0; b1 = d ! 1 in
      \<lparr>h_version = drop_bit 6 b0 AND 3, h_padding = drop_bit 5 b0 AND 1,
       h_extension = drop_bit 4 b0 AND 1, h_csrc_count = b0 AND 0x0f,
       h_marker = drop_bit 7 b1 AND 1, h_pt = b1 AND 0x7f,
       h_seq = be16 d 2, h_timestamp = be32 d 4, h_ssrc = be32 d 8\<rparr>)"

definition zms_rtp_parse :: "bytes \<Rightarrow> ztk_err + zms_rtp_packet" where
  "zms_rtp_parse d =
     (if length d < ZMS_RTP_HDR_SIZE then Inl ZTK_ERR_INVALID
      else let hdr = rtp_header_of d; off = ZMS_RTP_HDR_SIZE + unat (h_csrc_count hdr) * 4 in
        if h_version hdr \<noteq> 2 then Inl ZTK_ERR_INVALID
        else if off > length d then Inl ZTK_ERR_INVALID
        else if h_extension hdr \<noteq> 0 \<and> off + 4 > length d then Inl ZTK_ERR_INVALID
        else let off2 = (if h_extension hdr \<noteq> 0 then off + (4 + unat (be16 d (off + 2)) * 4) else off) in
          if off2 > length d then Inl ZTK_ERR_INVALID
          else let size = length d - off2 in
            if h_padding hdr \<noteq> 0 \<and> size > 0 then
              let pad = d ! (length d - 1) in
              if pad = 0 \<or> unat pad > size then Inl ZTK_ERR_INVALID
              else Inr \<lparr>pk_data = d, pk_hdr = hdr, pk_payload = off2, pk_payload_size = size - unat pad\<rparr>
            else Inr \<lparr>pk_data = d, pk_hdr = hdr, pk_payload = off2, pk_payload_size = size\<rparr>)"

definition zms_rtp_payload_offset :: "bytes \<Rightarrow> nat" where
  "zms_rtp_payload_offset d = (case zms_rtp_parse d of Inl e \<Rightarrow> 0 | Inr pkt \<Rightarrow> pk_payload pkt)"

definition zms_rtp_payload_type :: "bytes \<Rightarrow> u8" where
  "zms_rtp_payload_type d = (if length d < 2 then 0 else d ! 1 AND 0x7f)"

definition zms_rtp_set_payload_type :: "bytes \<Rightarrow> u8 \<Rightarrow> bytes" where
  "zms_rtp_set_payload_type d pt =
     (if length d < 2 then d else d[1 := (d ! 1 AND 0x80) OR (pt AND 0x7f)])"

definition zms_rtp_is_rtcp :: "bytes \<Rightarrow> bool" where
  "zms_rtp_is_rtcp d =
     (if length d < 2 then False
      else if d ! 0 AND 0xc0 \<noteq> 0x80 then False
      else let pt = zms_rtp_payload_type d in pt \<ge> 192 \<and> pt \<le> 223)"

definition zms_rtp90_ts_to_ms :: "u32 \<Rightarrow> u32" where
  "zms_rtp90_ts_to_ms rtp_ts = rtp_ts div 90"

definition zms_rtp90_ms_to_ts :: "u32 \<Rightarrow> u32" where
  "zms_rtp90_ms_to_ts ms = ms * 90"

section \<open>Interleaved frames\<close>

text \<open>The bytes written, none when they do not fit. The length field keeps 16 bits.\<close>

definition zms_rtsp_interleaved_write :: "nat \<Rightarrow> u8 \<Rightarrow> bytes \<Rightarrow> bytes" where
  "zms_rtsp_interleaved_write cap channel payload =
     (if cap < ZMS_RTSP_INTERLEAVED_HDR + length payload then []
      else [0x24, channel, of_nat (length payload div 256), of_nat (length payload)] @ payload)"

definition zms_rtsp_interleaved_read :: "bytes \<Rightarrow> ztk_err + (u8 \<times> bytes)" where
  "zms_rtsp_interleaved_read d =
     (if length d < ZMS_RTSP_INTERLEAVED_HDR \<or> d ! 0 \<noteq> 0x24 then Inl ZTK_ERR_INVALID
      else let plen = unat (be16 d 2) in
        if length d < ZMS_RTSP_INTERLEAVED_HDR + plen then Inl ZTK_ERR_AGAIN
        else Inr (d ! 1, take plen (drop ZMS_RTSP_INTERLEAVED_HDR d)))"

section \<open>RTCP reports\<close>

record zms_rtcp_sr =
  sr_ssrc :: u32
  sr_ntp_sec :: u32
  sr_ntp_frac :: u32
  sr_rtp_ts :: u32
  sr_packet_count :: u32
  sr_octet_count :: u32

record zms_rtcp_rr =
  rr_ssrc :: u32
  rr_fraction_lost :: u32
  rr_cumulative_lost :: u32
  rr_highest_seq :: u32
  rr_jitter :: u32
  rr_lsr :: u32
  rr_dlsr :: u32

definition zms_rtcp_parse_sr :: "bytes \<Rightarrow> ztk_err + zms_rtcp_sr" where
  "zms_rtcp_parse_sr d =
     (if length d < 28 then Inl ZTK_ERR_INVALID
      else if d ! 0 AND 0xc0 \<noteq> 0x80 \<or> d ! 1 \<noteq> 200 then Inl ZTK_ERR_INVALID
      else Inr \<lparr>sr_ssrc = be32 d 4, sr_ntp_sec = be32 d 8, sr_ntp_frac = be32 d 12,
        sr_rtp_ts = be32 d 16, sr_packet_count = be32 d 20, sr_octet_count = be32 d 24\<rparr>)"

definition zms_rtcp_parse_rr :: "bytes \<Rightarrow> ztk_err + zms_rtcp_rr" where
  "zms_rtcp_parse_rr d =
     (if length d < 32 then Inl ZTK_ERR_INVALID
      else if d ! 0 AND 0xc0 \<noteq> 0x80 \<or> d ! 1 \<noteq> 201 then Inl ZTK_ERR_INVALID
      else Inr \<lparr>rr_ssrc = be32 d 4, rr_fraction_lost = be32 d 12,
        rr_cumulative_lost = be32 d 16 AND 0xffffff, rr_highest_seq = be32 d 20,
        rr_jitter = be32 d 24, rr_lsr = be32 d 28, rr_dlsr = 0\<rparr>)"

definition zms_rtcp_build_sr :: "nat \<Rightarrow> u32 \<Rightarrow> u32 \<Rightarrow> u32 \<Rightarrow> u32 \<Rightarrow> u32 \<Rightarrow> u32 \<Rightarrow> bytes" where
  "zms_rtcp_build_sr cap ssrc ntp_sec ntp_frac rtp_ts packet_count octet_count =
     (if cap < 28 then []
      else [0x80, 200, 0, 6] @ put_be32 ssrc @ put_be32 ntp_sec @ put_be32 ntp_frac
        @ put_be32 rtp_ts @ put_be32 packet_count @ put_be32 octet_count)"

definition zms_rtcp_build_rr :: "nat \<Rightarrow> u32 \<Rightarrow> u32 \<Rightarrow> u32 \<Rightarrow> u32 \<Rightarrow> u32 \<Rightarrow> bytes" where
  "zms_rtcp_build_rr cap ssrc sender_ssrc fraction_lost highest_seq jitter =
     (if cap < 32 then []
      else [0x81, 201, 0, 7] @ put_be32 ssrc @ put_be32 sender_ssrc @ put_be32 fraction_lost
        @ put_be32 highest_seq @ put_be32 jitter @ replicate 8 0)"

section \<open>Reading at an offset\<close>

lemma be16_drop: "be16 d (k + i) = be16 (drop k d) i" if "k \<le> length d" for d
  using that by (simp add: be16_def add.assoc)

lemma be32_drop: "be32 d (k + i) = be32 (drop k d) i" if "k \<le> length d" for d
  using that by (simp add: be32_def add.assoc)

lemma be32_at: "length pre = k \<Longrightarrow> be32 (pre @ put_be32 v @ rest) k = v"
  using be32_drop[of k "pre @ put_be32 v @ rest" 0] by simp

lemma be16_at: "length pre = k \<Longrightarrow> be16 (pre @ put_be16 v @ rest) k = v"
  using be16_drop[of k "pre @ put_be16 v @ rest" 0] by simp

lemma u8_high_bit: "8 \<le> n \<Longrightarrow> \<not> bit (w :: u8) n"
  using bit_imp_le_length[of w n] by auto

lemma be_join: "put_be16 (be16 d i) = [d ! i, d ! (i + 1)]"
  "put_be32 (be32 d i) = [d ! i, d ! (i + 1), d ! (i + 2), d ! (i + 3)]"
  unfolding put_be16_def be16_def put_be32_def be32_def list.inject
  by (intro conjI refl; rule bit_word_eqI; auto simp: bit_simps u8_high_bit)+

section \<open>What an RTP packet is\<close>

text \<open>
  A packet as the parts it is made of: contributing sources, an extension with its profile,
  payload and padding. The head bytes are assembled from the fields.
\<close>

record rtp_view =
  w_marker :: bool
  w_pt :: u8
  w_seq :: u16
  w_ts :: u32
  w_ssrc :: u32
  w_padded :: bool
  w_csrc :: bytes
  w_ext :: "(u16 \<times> bytes) option"
  w_payload :: bytes
  w_pad :: bytes

definition rtp_wf :: "rtp_view \<Rightarrow> bool" where
  "rtp_wf w \<longleftrightarrow> unat (w_pt w) < 128
     \<and> (\<exists>n < 16. length (w_csrc w) = 4 * n)
     \<and> (case w_ext w of None \<Rightarrow> True | Some (_, x) \<Rightarrow> \<exists>n < 65536. length x = 4 * n)
     \<and> (if w_padded w
        then (w_pad w = [] \<and> w_payload w = [])
          \<or> (w_pad w \<noteq> [] \<and> length (w_pad w) < 256 \<and> last (w_pad w) = of_nat (length (w_pad w)))
        else w_pad w = [])"

definition rtp_b0 :: "rtp_view \<Rightarrow> u8" where
  "rtp_b0 w = 0x80 OR (if w_padded w then 0x20 else 0) OR (if w_ext w \<noteq> None then 0x10 else 0)
     OR of_nat (length (w_csrc w) div 4)"

definition rtp_encode :: "rtp_view \<Rightarrow> bytes" where
  "rtp_encode w = [rtp_b0 w, (if w_marker w then 0x80 else 0) OR w_pt w] @ put_be16 (w_seq w)
     @ put_be32 (w_ts w) @ put_be32 (w_ssrc w) @ w_csrc w
     @ (case w_ext w of None \<Rightarrow> [] | Some (profile, x) \<Rightarrow> put_be16 profile @ be_bytes 2 (length x div 4) @ x)
     @ w_payload w @ w_pad w"

definition rtp_packet_of :: "rtp_view \<Rightarrow> zms_rtp_packet" where
  "rtp_packet_of w = \<lparr>pk_data = rtp_encode w,
     pk_hdr = \<lparr>h_version = 2, h_padding = (if w_padded w then 1 else 0),
       h_extension = (if w_ext w \<noteq> None then 1 else 0), h_csrc_count = of_nat (length (w_csrc w) div 4),
       h_marker = (if w_marker w then 1 else 0), h_pt = w_pt w, h_seq = w_seq w,
       h_timestamp = w_ts w, h_ssrc = w_ssrc w\<rparr>,
     pk_payload = length (rtp_encode w) - length (w_payload w) - length (w_pad w),
     pk_payload_size = length (w_payload w)\<rparr>"

text \<open>The head bytes, bit by bit.\<close>

lemma u8_eqI: "(\<And>n. n \<in> {0, 1, 2, 3, 4, 5, 6, 7} \<Longrightarrow> bit a n = bit b n) \<Longrightarrow> a = (b :: u8)"
proof (rule bit_word_eqI)
  fix n :: nat assume eq: "\<And>n. n \<in> {0, 1, 2, 3, 4, 5, 6, 7} \<Longrightarrow> bit a n = bit b n" and "n < LENGTH(8)"
  then have "n = 0 \<or> n = 1 \<or> n = 2 \<or> n = 3 \<or> n = 4 \<or> n = 5 \<or> n = 6 \<or> n = 7" by simp linarith
  with eq show "bit a n = bit b n" by blast
qed

lemma flag_bit: "drop_bit k (b :: u8) AND 1 = of_bool (bit b k)"
  by (simp add: and_one_eq bit_iff_odd_drop_bit odd_iff_mod_2_eq_one)

lemma u8_small_bits:
  "k \<le> n \<Longrightarrow> unat (c :: u8) < 2 ^ k \<Longrightarrow> \<not> bit c n"
proof -
  assume n: "k \<le> n" and c: "unat c < 2 ^ k"
  have "unat (take_bit k c) = unat c" using c by (simp add: unsigned_take_bit_eq take_bit_nat_eq_self)
  then have "take_bit k c = c" by (simp add: word_unat_eq_iff)
  with n show "\<not> bit c n" by (metis bit_take_bit_iff not_less)
qed

lemma head0_split:
  fixes b :: u8
  assumes "drop_bit 6 b AND 3 = 2"
  shows "b = 0x80 OR (if drop_bit 5 b AND 1 \<noteq> 0 then 0x20 else 0)
    OR (if drop_bit 4 b AND 1 \<noteq> 0 then 0x10 else 0) OR (b AND 0x0f)"
proof -
  have "bit b 7" "\<not> bit b 6"
    using arg_cong[OF assms, of "\<lambda>w. bit w 1"] arg_cong[OF assms, of "\<lambda>w. bit w 0"]
    by (simp_all add: bit_simps)
  then show ?thesis by (intro u8_eqI) (auto simp: bit_simps flag_bit)
qed

lemma head0_join:
  fixes c :: u8 and p x :: bool
  assumes "unat c < 16"
  defines "b \<equiv> 0x80 OR (if p then 0x20 else 0) OR (if x then 0x10 else 0) OR c"
  shows "drop_bit 6 b AND 3 = 2" "drop_bit 5 b AND 1 = (if p then 1 else 0)"
    and "drop_bit 4 b AND 1 = (if x then 1 else 0)" "b AND 0x0f = c"
proof -
  have c: "\<not> bit c 4" "\<not> bit c 5" "\<not> bit c 6" "\<not> bit c 7"
    using assms(1) by (simp_all add: u8_small_bits[of 4])
  show "drop_bit 6 b AND 3 = 2" "b AND 0x0f = c"
    using c by (intro u8_eqI; auto simp: b_def bit_simps)+
  show "drop_bit 5 b AND 1 = (if p then 1 else 0)" "drop_bit 4 b AND 1 = (if x then 1 else 0)"
    using c unfolding flag_bit b_def by (auto simp: bit_simps)
qed

lemma head1_split: "(b :: u8) = (if drop_bit 7 b AND 1 \<noteq> 0 then 0x80 else 0) OR (b AND 0x7f)"
  by (intro u8_eqI) (auto simp: bit_simps flag_bit)

lemma head1_join:
  fixes t :: u8 and m :: bool
  assumes "unat t < 128"
  defines "b \<equiv> (if m then 0x80 else 0) OR t"
  shows "drop_bit 7 b AND 1 = (if m then 1 else 0)" "b AND 0x7f = t"
proof -
  have t: "\<not> bit t 7" using assms(1) by (simp add: u8_small_bits[of 7])
  show "drop_bit 7 b AND 1 = (if m then 1 else 0)" using t by (auto simp: flag_bit b_def bit_simps)
  show "b AND 0x7f = t" using t by (intro u8_eqI) (auto simp: b_def bit_simps)
qed

text \<open>A packet is read back as its parts.\<close>

definition rtp_ext_bytes :: "rtp_view \<Rightarrow> bytes" where
  "rtp_ext_bytes w = (case w_ext w of None \<Rightarrow> []
     | Some (profile, x) \<Rightarrow> put_be16 profile @ be_bytes 2 (length x div 4) @ x)"

definition rtp_fixed :: "rtp_view \<Rightarrow> bytes" where
  "rtp_fixed w = [rtp_b0 w, (if w_marker w then 0x80 else 0) OR w_pt w] @ put_be16 (w_seq w)
     @ put_be32 (w_ts w) @ put_be32 (w_ssrc w)"

lemma length_rtp_fixed [simp]: "length (rtp_fixed w) = 12"
  by (simp add: rtp_fixed_def)

lemma rtp_encode_parts: "rtp_encode w = rtp_fixed w @ w_csrc w @ rtp_ext_bytes w @ w_payload w @ w_pad w"
  by (simp add: rtp_encode_def rtp_fixed_def rtp_ext_bytes_def)

lemma csrc_count:
  assumes "rtp_wf w"
  shows "unat (of_nat (length (w_csrc w) div 4) :: u8) < 16"
    and "unat (of_nat (length (w_csrc w) div 4) :: u8) * 4 = length (w_csrc w)"
proof -
  obtain n where n: "n < 16" "length (w_csrc w) = 4 * n" using assms by (auto simp: rtp_wf_def)
  then have "unat (of_nat n :: u8) = n" by (simp add: unat_of_nat take_bit_nat_eq_self)
  with n show "unat (of_nat (length (w_csrc w) div 4) :: u8) < 16"
    "unat (of_nat (length (w_csrc w) div 4) :: u8) * 4 = length (w_csrc w)" by simp_all
qed

lemma rtp_header_encode: "rtp_wf w \<Longrightarrow> rtp_header_of (rtp_encode w) = pk_hdr (rtp_packet_of w)"
proof -
  assume wf: "rtp_wf w"
  have pt: "unat (w_pt w) < 128" using wf by (simp add: rtp_wf_def)
  let ?b1 = "(if w_marker w then 0x80 else 0) OR w_pt w"
  have 2: "be16 (rtp_encode w) 2 = w_seq w"
    using be16_at[of "[rtp_b0 w, ?b1]" 2 "w_seq w"] by (simp add: rtp_encode_def)
  have 4: "be32 (rtp_encode w) 4 = w_ts w"
    using be32_at[of "[rtp_b0 w, ?b1] @ put_be16 (w_seq w)" 4 "w_ts w"] by (simp add: rtp_encode_def)
  have 8: "be32 (rtp_encode w) 8 = w_ssrc w"
    using be32_at[of "[rtp_b0 w, ?b1] @ put_be16 (w_seq w) @ put_be32 (w_ts w)" 8 "w_ssrc w"]
    by (simp add: rtp_encode_def)
  have b: "rtp_encode w ! 0 = rtp_b0 w" "rtp_encode w ! Suc 0 = ?b1" by (simp_all add: rtp_encode_def)
  show ?thesis
    using head0_join[OF csrc_count(1)[OF wf], of "w_padded w" "w_ext w \<noteq> None"] head1_join[OF pt, of "w_marker w"]
    by (simp add: rtp_header_of_def rtp_packet_of_def b 2 4 8 rtp_b0_def)
qed

lemma rtp_ext_len:
  assumes "rtp_wf w" "w_ext w = Some (profile, x)"
  shows "unat (be16 (rtp_encode w) (12 + length (w_csrc w) + 2)) * 4 = length x"
proof -
  obtain n where n: "n < 65536" "length x = 4 * n" using assms by (auto simp: rtp_wf_def)
  have "be16 ((rtp_fixed w @ w_csrc w @ put_be16 profile) @ put_be16 (of_nat n) @ x @ w_payload w @ w_pad w)
      (12 + length (w_csrc w) + 2) = of_nat n"
    by (rule be16_at) simp
  then have "be16 (rtp_encode w) (12 + length (w_csrc w) + 2) = of_nat n"
    using assms(2) n by (simp add: rtp_encode_parts rtp_ext_bytes_def put_be16_nat)
  with n show ?thesis by (simp add: unat_of_nat take_bit_nat_eq_self)
qed

lemma rtp_parse_encode: "rtp_wf w \<Longrightarrow> zms_rtp_parse (rtp_encode w) = Inr (rtp_packet_of w)"
proof -
  assume wf: "rtp_wf w"
  let ?d = "rtp_encode w"
  let ?off = "12 + length (w_csrc w) + length (rtp_ext_bytes w)"
  have len: "length ?d = ?off + length (w_payload w) + length (w_pad w)" by (simp add: rtp_encode_parts)
  note h = rtp_header_encode[OF wf]
  have hdr: "h_version (rtp_header_of ?d) = 2" "h_csrc_count (rtp_header_of ?d) = of_nat (length (w_csrc w) div 4)"
    "(h_extension (rtp_header_of ?d) \<noteq> 0) = (w_ext w \<noteq> None)" "(h_padding (rtp_header_of ?d) \<noteq> 0) = w_padded w"
    unfolding h by (simp_all add: rtp_packet_of_def)
  have off2: "(if h_extension (rtp_header_of ?d) \<noteq> 0
      then 12 + length (w_csrc w) + (4 + unat (be16 ?d (12 + length (w_csrc w) + 2)) * 4) else 12 + length (w_csrc w)) = ?off"
    using rtp_ext_len[OF wf] hdr(3) by (cases "w_ext w") (auto simp: rtp_ext_bytes_def)
  have ext4: "h_extension (rtp_header_of ?d) \<noteq> 0 \<Longrightarrow> 4 \<le> length (rtp_ext_bytes w)"
    using hdr(3) by (auto simp: rtp_ext_bytes_def)
  have ext_room: "\<not> (h_extension (rtp_header_of ?d) \<noteq> 0 \<and> 12 + length (w_csrc w) + 4 > length ?d)"
    using ext4 len by auto
  have pad: "w_padded w \<Longrightarrow> length (w_payload w) + length (w_pad w) > 0 \<Longrightarrow>
      ?d ! (length ?d - 1) = of_nat (length (w_pad w)) \<and> (of_nat (length (w_pad w)) :: u8) \<noteq> 0
        \<and> unat (of_nat (length (w_pad w)) :: u8) = length (w_pad w)"
  proof -
    assume p: "w_padded w" "length (w_payload w) + length (w_pad w) > 0"
    then have ne: "w_pad w \<noteq> []" "length (w_pad w) < 256" "last (w_pad w) = of_nat (length (w_pad w))"
      using wf by (auto simp: rtp_wf_def)
    then have "unat (of_nat (length (w_pad w)) :: u8) = length (w_pad w)"
      by (simp add: unat_of_nat take_bit_nat_eq_self)
    moreover have "?d ! (length ?d - 1) = last ?d" using len by (intro last_conv_nth[symmetric]) auto
    moreover have "last ?d = last (w_pad w)" using ne by (simp add: rtp_encode_parts)
    ultimately show ?thesis using ne by (metis length_0_conv unat_0)
  qed
  have pk: "rtp_packet_of w = \<lparr>pk_data = ?d, pk_hdr = rtp_header_of ?d, pk_payload = ?off,
      pk_payload_size = length (w_payload w)\<rparr>"
    using len by (simp add: h) (simp add: rtp_packet_of_def)
  have nopad: "\<not> w_padded w \<Longrightarrow> w_pad w = []" using wf by (simp add: rtp_wf_def)
  show ?thesis
    unfolding zms_rtp_parse_def Let_def rtp_consts hdr(1,2) csrc_count(2)[OF wf] off2 pk
    using len ext_room pad nopad hdr(4) by (cases "w_padded w") (simp_all add: not_less)
qed

text \<open>And what is accepted is such a packet.\<close>

lemma take_nth4: "i + 4 \<le> length d \<Longrightarrow> take 4 (drop i d) = [d ! i, d ! (i + 1), d ! (i + 2), d ! (i + 3)]"
  by (rule nth_equalityI) (auto simp: less_Suc_eq numeral_eq_Suc nth_Cons')

lemma take_nth12: "12 \<le> length d \<Longrightarrow> take 12 d =
    [d ! 0, d ! 1, d ! 2, d ! 3, d ! 4, d ! 5, d ! 6, d ! 7, d ! 8, d ! 9, d ! 10, d ! 11]"
  by (rule nth_equalityI) (auto simp: less_Suc_eq numeral_eq_Suc nth_Cons')

definition view_of :: "bytes \<Rightarrow> nat \<Rightarrow> nat \<Rightarrow> rtp_view" where
  "view_of d off2 sz =
     (let hdr = rtp_header_of d; off = 12 + unat (h_csrc_count hdr) * 4 in
      \<lparr>w_marker = (h_marker hdr \<noteq> 0), w_pt = h_pt hdr, w_seq = h_seq hdr, w_ts = h_timestamp hdr,
       w_ssrc = h_ssrc hdr, w_padded = (h_padding hdr \<noteq> 0),
       w_csrc = take (unat (h_csrc_count hdr) * 4) (drop 12 d),
       w_ext = (if h_extension hdr \<noteq> 0
                then Some (be16 d off, take (unat (be16 d (off + 2)) * 4) (drop (off + 4) d)) else None),
       w_payload = take sz (drop off2 d), w_pad = drop (off2 + sz) d\<rparr>)"

lemma and_small: "unat ((b :: u8) AND 0x0f) < 16" "unat (b AND 0x7f) < 128"
proof -
  have "b AND 0x0f = take_bit 4 b" "b AND 0x7f = take_bit 7 b"
    by (simp_all add: take_bit_eq_mask mask_eq_exp_minus_1)
  then show "unat (b AND 0x0f) < 16" "unat (b AND 0x7f) < 128"
    using take_bit_nat_less_exp[of 4 "unat b"] take_bit_nat_less_exp[of 7 "unat b"]
    by (simp_all add: unsigned_take_bit_eq)
qed

lemma view_fixed:
  assumes "12 \<le> length d" "h_version (rtp_header_of d) = 2" "unat (h_csrc_count (rtp_header_of d)) * 4 + 12 \<le> length d"
  shows "rtp_fixed (view_of d off2 sz) = take 12 d"
proof -
  have v: "drop_bit 6 (d ! 0) AND 3 = 2" using assms(2) by (simp add: rtp_header_of_def Let_def)
  have c: "length (w_csrc (view_of d off2 sz)) div 4 = unat (d ! 0 AND 0x0f)"
    using assms(3) by (simp add: view_of_def rtp_header_of_def Let_def)
  have "rtp_b0 (view_of d off2 sz) = 0x80 OR (if drop_bit 5 (d ! 0) AND 1 \<noteq> 0 then 0x20 else 0)
      OR (if drop_bit 4 (d ! 0) AND 1 \<noteq> 0 then 0x10 else 0) OR (d ! 0 AND 0x0f)"
    unfolding rtp_b0_def c by (simp add: view_of_def rtp_header_of_def Let_def)
  also note head0_split[OF v, symmetric]
  finally have "rtp_b0 (view_of d off2 sz) = d ! 0" .
  moreover have "(if w_marker (view_of d off2 sz) then 0x80 else 0) OR w_pt (view_of d off2 sz) = d ! 1"
    using head1_split[of "d ! 1"] by (simp add: view_of_def rtp_header_of_def Let_def)
  ultimately show ?thesis
    by (simp add: rtp_fixed_def take_nth12[OF assms(1)])
      (simp add: view_of_def rtp_header_of_def Let_def be_join)
qed

lemma view_ext:
  assumes "off = 12 + unat (h_csrc_count (rtp_header_of d)) * 4"
    and "off2 = (if h_extension (rtp_header_of d) \<noteq> 0 then off + (4 + unat (be16 d (off + 2)) * 4) else off)"
    and "off2 \<le> length d"
  shows "rtp_ext_bytes (view_of d off2 sz) = take (off2 - off) (drop off d)"
proof (cases "h_extension (rtp_header_of d) = 0")
  case False
  let ?n = "unat (be16 d (off + 2))"
  have "off + 4 \<le> length d" using assms False by simp
  then have t: "take 4 (drop off d) = put_be16 (be16 d off) @ be_bytes 2 ?n"
    using take_nth4[of off d] put_be16_nat[of ?n] by (simp add: be_join numeral_3_eq_3)
  have "rtp_ext_bytes (view_of d off2 sz) = put_be16 (be16 d off) @ be_bytes 2 ?n @ take (?n * 4) (drop (off + 4) d)"
    using False assms by (simp add: rtp_ext_bytes_def view_of_def Let_def)
  also have "\<dots> = take 4 (drop off d) @ take (?n * 4) (drop 4 (drop off d))" by (simp add: t add.commute)
  also have "\<dots> = take (off2 - off) (drop off d)" using assms False by (simp add: take_add)
  finally show ?thesis .
qed (use assms in \<open>simp add: rtp_ext_bytes_def view_of_def Let_def\<close>)

lemma drop_split: "a \<le> b \<Longrightarrow> take (b - a) (drop a d) @ drop b d = drop a d"
  by (metis append_take_drop_id drop_drop le_add_diff_inverse2)

lemma view_encode:
  assumes "12 \<le> length d" "h_version (rtp_header_of d) = 2"
    and "off = 12 + unat (h_csrc_count (rtp_header_of d)) * 4"
    and "off2 = (if h_extension (rtp_header_of d) \<noteq> 0 then off + (4 + unat (be16 d (off + 2)) * 4) else off)"
    and "off2 + sz \<le> length d"
  shows "rtp_encode (view_of d off2 sz) = d"
proof -
  have le: "off \<le> off2" "off2 \<le> length d" using assms by auto
  have parts: "w_csrc (view_of d off2 sz) = take (off - 12) (drop 12 d)"
    "w_payload (view_of d off2 sz) = take sz (drop off2 d)" "w_pad (view_of d off2 sz) = drop (off2 + sz) d"
    by (simp_all add: view_of_def Let_def assms(3))
  have fixed: "rtp_fixed (view_of d off2 sz) = take 12 d"
    using assms(3) le by (intro view_fixed[OF assms(1,2)]) linarith
  have "rtp_encode (view_of d off2 sz) = take 12 d @ take (off - 12) (drop 12 d)
      @ take (off2 - off) (drop off d) @ take sz (drop off2 d) @ drop (off2 + sz) d"
    by (simp only: rtp_encode_parts fixed parts view_ext[OF assms(3,4) le(2)])
  also have "\<dots> = take 12 d @ drop 12 d"
    using drop_split[of 12 off d] drop_split[OF le(1), of d] drop_split[of off2 "off2 + sz" d] assms(3) by simp
  finally show ?thesis by simp
qed

lemma rtp_accepted_view:
  assumes "zms_rtp_parse d = Inr pkt"
  shows "\<exists>w. rtp_wf w \<and> d = rtp_encode w"
proof -
  let ?h = "rtp_header_of d"
  define off where "off = 12 + unat (h_csrc_count ?h) * 4"
  define off2 where "off2 = (if h_extension ?h \<noteq> 0 then off + (4 + unat (be16 d (off + 2)) * 4) else off)"
  define sz where "sz = (if h_padding ?h \<noteq> 0 \<and> off2 < length d then length d - off2 - unat (d ! (length d - 1)) else length d - off2)"
  have acc: "12 \<le> length d" "h_version ?h = 2" "off2 \<le> length d"
    "h_padding ?h \<noteq> 0 \<Longrightarrow> off2 < length d \<Longrightarrow> d ! (length d - 1) \<noteq> 0 \<and> unat (d ! (length d - 1)) \<le> length d - off2"
    using assms unfolding zms_rtp_parse_def Let_def rtp_consts off_def[symmetric] off2_def[symmetric]
    by (auto split: if_splits)
  have sz: "off2 + sz \<le> length d" using acc by (auto simp: sz_def)
  have off: "off \<le> length d" using acc(3) by (simp add: off2_def split: if_splits)
  have "rtp_wf (view_of d off2 sz)"
    unfolding rtp_wf_def
  proof (intro conjI)
    show "unat (w_pt (view_of d off2 sz)) < 128"
      by (simp add: view_of_def Let_def rtp_header_of_def and_small)
    show "\<exists>n<16. length (w_csrc (view_of d off2 sz)) = 4 * n"
      using off and_small(1)[of "d ! 0"]
      by (intro exI[of _ "unat (h_csrc_count ?h)"]) (simp add: view_of_def Let_def off_def rtp_header_of_def)
    show "case w_ext (view_of d off2 sz) of None \<Rightarrow> True | Some (profile, x) \<Rightarrow> \<exists>n<65536. length x = 4 * n"
      using acc(3) unsigned_less[of "be16 d (off + 2)", where ?'a = nat]
      by (auto simp: view_of_def Let_def off2_def off_def intro!: exI[of _ "unat (be16 d (off + 2))"])
    show "if w_padded (view_of d off2 sz)
      then w_pad (view_of d off2 sz) = [] \<and> w_payload (view_of d off2 sz) = [] \<or>
        w_pad (view_of d off2 sz) \<noteq> [] \<and> length (w_pad (view_of d off2 sz)) < 256 \<and>
        last (w_pad (view_of d off2 sz)) = of_nat (length (w_pad (view_of d off2 sz)))
      else w_pad (view_of d off2 sz) = []"
      using acc unat_u8[of "d ! (length d - 1)"] unat_gt_0[of "d ! (length d - 1)"]
      by (auto simp: view_of_def Let_def sz_def last_conv_nth last_drop)
  qed
  moreover have "rtp_encode (view_of d off2 sz) = d"
    by (rule view_encode[OF acc(1,2) off_def off2_def sz])
  ultimately show ?thesis by metis
qed

text \<open>
  C24: The parser accepts exactly the packets of the format: a version of 2, the contributing
  sources, the extension and the padding it announces, each complete. What it reports are the
  fields, and the place and the size of the payload without the padding.
\<close>

theorem rtp_parse_iff:
  "zms_rtp_parse d = Inr pkt \<longleftrightarrow> (\<exists>w. rtp_wf w \<and> d = rtp_encode w \<and> pkt = rtp_packet_of w)"
proof
  assume "\<exists>w. rtp_wf w \<and> d = rtp_encode w \<and> pkt = rtp_packet_of w"
  then show "zms_rtp_parse d = Inr pkt" using rtp_parse_encode by blast
next
  assume ok: "zms_rtp_parse d = Inr pkt"
  obtain w where "rtp_wf w" "d = rtp_encode w" using rtp_accepted_view[OF ok] by blast
  with ok show "\<exists>w. rtp_wf w \<and> d = rtp_encode w \<and> pkt = rtp_packet_of w"
    using rtp_parse_encode by force
qed

text \<open>
  The test that tells control packets from media packets never says yes: it masks the
  marker bit out of the second byte and then asks for a value of at least 192. In particular
  every sender report the server builds is taken for a media packet.
\<close>

theorem rtp_is_rtcp_never:
  "\<not> zms_rtp_is_rtcp d \<and> \<not> zms_rtp_is_rtcp (zms_rtcp_build_sr cap ssrc sec frac ts pc oc @ rest)"
proof -
  have "\<not> zms_rtp_is_rtcp d" for d
  proof -
    have "unat (zms_rtp_payload_type d) < 128"
      by (simp add: zms_rtp_payload_type_def and_small)
    then show ?thesis by (auto simp: zms_rtp_is_rtcp_def Let_def word_le_nat_alt)
  qed
  then show ?thesis by blast
qed

text \<open>The payload type can be set, and the marker stays.\<close>

lemma set_payload_type:
  assumes "2 \<le> length d"
  shows "zms_rtp_payload_type (zms_rtp_set_payload_type d pt) = pt AND 0x7f"
    and "drop_bit 7 (zms_rtp_set_payload_type d pt ! 1) = drop_bit 7 (d ! 1)"
    and "length (zms_rtp_set_payload_type d pt) = length d"
proof -
  have "((d ! 1 AND 0x80) OR (pt AND 0x7f)) AND 0x7f = pt AND 0x7f"
    by (intro u8_eqI) (auto simp: bit_simps)
  with assms show "zms_rtp_payload_type (zms_rtp_set_payload_type d pt) = pt AND 0x7f"
    by (simp add: zms_rtp_payload_type_def zms_rtp_set_payload_type_def)
  have "drop_bit 7 ((d ! 1 AND 0x80) OR (pt AND 0x7f)) = drop_bit 7 (d ! 1)"
    by (intro u8_eqI) (auto simp: bit_simps u8_high_bit)
  with assms show "drop_bit 7 (zms_rtp_set_payload_type d pt ! 1) = drop_bit 7 (d ! 1)"
    by (simp add: zms_rtp_set_payload_type_def)
  show "length (zms_rtp_set_payload_type d pt) = length d" by (simp add: zms_rtp_set_payload_type_def)
qed

section \<open>Reports\<close>

text \<open>
  A sender report is read back as it was written. A receiver report is not: the reader
  takes every field behind the lost fraction from the place of the next one, so the highest
  sequence number comes out as the number of lost packets, the jitter as the highest sequence
  number, and the jitter is always 0.
\<close>

theorem rtcp_reports:
  "zms_rtcp_parse_sr (zms_rtcp_build_sr 28 ssrc sec frac ts pc oc @ rest) =
     Inr \<lparr>sr_ssrc = ssrc, sr_ntp_sec = sec, sr_ntp_frac = frac, sr_rtp_ts = ts,
       sr_packet_count = pc, sr_octet_count = oc\<rparr>
   \<and> zms_rtcp_parse_rr (zms_rtcp_build_rr 32 ssrc sender lost seq jitter @ rest) =
     Inr \<lparr>rr_ssrc = ssrc, rr_fraction_lost = lost, rr_cumulative_lost = seq AND 0xffffff,
       rr_highest_seq = jitter, rr_jitter = 0, rr_lsr = 0, rr_dlsr = 0\<rparr>"
proof
  let ?p = "[0x80, 200, 0, 6] :: bytes"
  have f: "be32 (?p @ put_be32 ssrc @ r) 4 = ssrc"
    "be32 (?p @ put_be32 ssrc @ put_be32 sec @ r) 8 = sec"
    "be32 (?p @ put_be32 ssrc @ put_be32 sec @ put_be32 frac @ r) 12 = frac"
    "be32 (?p @ put_be32 ssrc @ put_be32 sec @ put_be32 frac @ put_be32 ts @ r) 16 = ts"
    "be32 (?p @ put_be32 ssrc @ put_be32 sec @ put_be32 frac @ put_be32 ts @ put_be32 pc @ r) 20 = pc"
    "be32 (?p @ put_be32 ssrc @ put_be32 sec @ put_be32 frac @ put_be32 ts @ put_be32 pc @ put_be32 oc @ r) 24 = oc" for r
    using be32_at[of ?p 4 ssrc r] be32_at[of "?p @ put_be32 ssrc" 8 sec r]
      be32_at[of "?p @ put_be32 ssrc @ put_be32 sec" 12 frac r]
      be32_at[of "?p @ put_be32 ssrc @ put_be32 sec @ put_be32 frac" 16 ts r]
      be32_at[of "?p @ put_be32 ssrc @ put_be32 sec @ put_be32 frac @ put_be32 ts" 20 pc r]
      be32_at[of "?p @ put_be32 ssrc @ put_be32 sec @ put_be32 frac @ put_be32 ts @ put_be32 pc" 24 oc r]
    by simp_all
  have "(0x80 :: u8) AND 0xc0 = 0x80" by simp
  then show "zms_rtcp_parse_sr (zms_rtcp_build_sr 28 ssrc sec frac ts pc oc @ rest) =
     Inr \<lparr>sr_ssrc = ssrc, sr_ntp_sec = sec, sr_ntp_frac = frac, sr_rtp_ts = ts,
       sr_packet_count = pc, sr_octet_count = oc\<rparr>"
    using f by (simp add: zms_rtcp_parse_sr_def zms_rtcp_build_sr_def)
next
  let ?p = "[0x81, 201, 0, 7] :: bytes" and ?z = "replicate 8 0 :: bytes"
  have z: "?z = put_be32 0 @ put_be32 0" by (simp add: put_be32_def numeral_eq_Suc)
  have f: "be32 (?p @ put_be32 ssrc @ r) 4 = ssrc"
    "be32 (?p @ put_be32 ssrc @ put_be32 sender @ put_be32 lost @ r) 12 = lost"
    "be32 (?p @ put_be32 ssrc @ put_be32 sender @ put_be32 lost @ put_be32 seq @ r) 16 = seq"
    "be32 (?p @ put_be32 ssrc @ put_be32 sender @ put_be32 lost @ put_be32 seq @ put_be32 jitter @ r) 20 = jitter"
    "be32 (?p @ put_be32 ssrc @ put_be32 sender @ put_be32 lost @ put_be32 seq @ put_be32 jitter @ put_be32 0 @ r) 24 = 0"
    "be32 (?p @ put_be32 ssrc @ put_be32 sender @ put_be32 lost @ put_be32 seq @ put_be32 jitter @ put_be32 0 @ put_be32 0 @ r) 28 = 0" for r
    using be32_at[of ?p 4 ssrc r] be32_at[of "?p @ put_be32 ssrc @ put_be32 sender" 12 lost r]
      be32_at[of "?p @ put_be32 ssrc @ put_be32 sender @ put_be32 lost" 16 seq r]
      be32_at[of "?p @ put_be32 ssrc @ put_be32 sender @ put_be32 lost @ put_be32 seq" 20 jitter r]
      be32_at[of "?p @ put_be32 ssrc @ put_be32 sender @ put_be32 lost @ put_be32 seq @ put_be32 jitter" 24 0 r]
      be32_at[of "?p @ put_be32 ssrc @ put_be32 sender @ put_be32 lost @ put_be32 seq @ put_be32 jitter @ put_be32 0" 28 0 r]
    by simp_all
  have "(0x81 :: u8) AND 0xc0 = 0x80" by simp
  then show "zms_rtcp_parse_rr (zms_rtcp_build_rr 32 ssrc sender lost seq jitter @ rest) =
     Inr \<lparr>rr_ssrc = ssrc, rr_fraction_lost = lost, rr_cumulative_lost = seq AND 0xffffff,
       rr_highest_seq = jitter, rr_jitter = 0, rr_lsr = 0, rr_dlsr = 0\<rparr>"
    using f by (simp add: zms_rtcp_parse_rr_def zms_rtcp_build_rr_def z)
qed

section \<open>Interleaved frames as a framed stream\<close>

text \<open>
  Frames of at most 65535 bytes are a framing: reading takes off exactly what writing put. A
  longer payload is written whole behind a length that has lost its upper bits.
\<close>

definition ilv_put :: "u8 \<times> bytes \<Rightarrow> bytes" where
  "ilv_put u = zms_rtsp_interleaved_write (4 + length (snd u)) (fst u) (snd u)"

definition ilv_get :: "bytes \<Rightarrow> ((u8 \<times> bytes) \<times> bytes) option" where
  "ilv_get d = (case zms_rtsp_interleaved_read d of
     Inl e \<Rightarrow> None | Inr (ch, p) \<Rightarrow> Some ((ch, p), drop (4 + length p) d))"

lemma ilv_put_eq: "ilv_put (ch, p) = 0x24 # ch # be_bytes 2 (length p) @ p"
  by (simp add: ilv_put_def zms_rtsp_interleaved_write_def rtp_consts be_bytes_small)

interpretation interleaved: framing ilv_put "\<lambda>u. length (snd u) < 65536" ilv_get
proof
  fix u :: "u8 \<times> bytes" and rest
  obtain ch p where u: "u = (ch, p)" by fastforce
  show "ilv_get (ilv_put u @ rest) = Some (u, rest)" if "length (snd u) < 65536"
  proof -
    have "unat (be16 (ilv_put u @ rest) 2) = length p"
      using be16_at[of "[0x24, ch]" 2 "of_nat (length p)" "p @ rest"] that
      by (simp add: u ilv_put_eq put_be16_nat unat_of_nat take_bit_nat_eq_self)
    then have "zms_rtsp_interleaved_read (ilv_put u @ rest) = Inr (ch, p)"
      by (simp add: zms_rtsp_interleaved_read_def rtp_consts u ilv_put_eq be_bytes_small)
    moreover have "length (ilv_put u) = 4 + length p" by (simp add: u ilv_put_eq)
    ultimately show ?thesis by (simp add: ilv_get_def u)
  qed
  show "ilv_put u \<noteq> []" by (simp add: u ilv_put_eq)
next
  fix d u rest assume g: "ilv_get d = Some (u, rest)"
  let ?n = "unat (be16 d 2)"
  from g have d: "4 + ?n \<le> length d" "d ! 0 = 0x24" and u: "u = (d ! 1, take ?n (drop 4 d))"
    and rest: "rest = drop (4 + length (snd u)) d"
    by (auto simp: ilv_get_def zms_rtsp_interleaved_read_def rtp_consts Let_def split: sum.splits if_splits)
  have l: "length (snd u) = ?n" using d by (simp add: u)
  have "be_bytes 2 ?n = [d ! 2, d ! 3]"
    using put_be16_nat[of ?n] be_join(1)[of d 2] by (simp add: numeral_3_eq_3)
  with d have "take 4 d = 0x24 # (d ! 1) # be_bytes 2 ?n"
    using take_nth4[of 0 d] by (simp add: numeral_3_eq_3 numeral_2_eq_2)
  then have "ilv_put u @ rest = take 4 d @ take ?n (drop 4 d) @ drop (4 + ?n) d"
    using l by (simp add: rest u ilv_put_eq)
  also have "\<dots> = d" using drop_split[of 4 "4 + ?n" d] by simp
  finally show "length (snd u) < 65536 \<and> d = ilv_put u @ rest"
    using l unsigned_less[of "be16 d 2", where ?'a = nat] by simp
qed

lemma interleaved_write_truncates:
  assumes "length p = 65536 + n" "n < 65536"
  shows "zms_rtsp_interleaved_read (zms_rtsp_interleaved_write (4 + length p) ch p) = Inr (ch, take n p)"
proof -
  let ?d = "zms_rtsp_interleaved_write (4 + length p) ch p"
  have d: "?d = 0x24 # ch # put_be16 (of_nat (length p)) @ p"
    by (simp add: zms_rtsp_interleaved_write_def rtp_consts put_be16_nat be_bytes_small)
  have "unat (of_nat (length p) :: u16) = n"
    using assms by (simp only: unat_of_nat assms(1)) (simp add: take_bit_eq_mod)
  then have "unat (be16 ?d 2) = n"
    using be16_at[of "[0x24, ch]" 2 "of_nat (length p)" p] unfolding d by simp
  then show ?thesis
    unfolding zms_rtsp_interleaved_read_def rtp_consts Let_def d using assms(1) by (simp add: put_be16_def)
qed

end
