(* ===== verification/C_String.thy ===== *)
theory C_String
  imports Prelude
begin

text \<open>
  The routines of the C library that the text protocols use, on strings without their
  terminator: a C string is the bytes before the first 0 of its buffer. The locale is "C".
\<close>

definition asc :: "string \<Rightarrow> bytes" where
  "asc s = map of_char s"

lemma asc_simps [simp]: "asc [] = []" "asc (c # s) = of_char c # asc s" "asc (s @ t) = asc s @ asc t"
  by (simp_all add: asc_def)

lemma length_asc [simp]: "length (asc s) = length s"
  by (simp add: asc_def)

definition cstr :: "bytes \<Rightarrow> bytes" where
  "cstr s = takeWhile (\<lambda>c. c \<noteq> 0) s"

definition isspace :: "u8 \<Rightarrow> bool" where
  "isspace c \<longleftrightarrow> c = 32 \<or> (9 \<le> c \<and> c \<le> 13)"

definition isdigit :: "u8 \<Rightarrow> bool" where
  "isdigit c \<longleftrightarrow> 48 \<le> c \<and> c \<le> 57"

definition isxdigit :: "u8 \<Rightarrow> bool" where
  "isxdigit c \<longleftrightarrow> isdigit c \<or> (65 \<le> c \<and> c \<le> 70) \<or> (97 \<le> c \<and> c \<le> 102)"

definition tolower :: "u8 \<Rightarrow> u8" where
  "tolower c = (if 65 \<le> c \<and> c \<le> 90 then c + 32 else c)"

definition strcaseeq :: "bytes \<Rightarrow> bytes \<Rightarrow> bool" where
  "strcaseeq a b \<longleftrightarrow> map tolower a = map tolower b"

text \<open>The prefix test of \<open>strncmp (s, p, strlen p) == 0\<close>.\<close>

definition starts_with :: "bytes \<Rightarrow> bytes \<Rightarrow> bool" where
  "starts_with p s \<longleftrightarrow> take (length p) s = p"

definition starts_case :: "bytes \<Rightarrow> bytes \<Rightarrow> bool" where
  "starts_case p s \<longleftrightarrow> length p \<le> length s \<and> strcaseeq (take (length p) s) p"

definition find_char :: "bytes \<Rightarrow> u8 \<Rightarrow> nat option" where
  "find_char s c = (let n = length (takeWhile (\<lambda>x. x \<noteq> c) s) in if n < length s then Some n else None)"

text \<open>The offset of the first occurrence, and of the last.\<close>

fun strstr :: "bytes \<Rightarrow> bytes \<Rightarrow> nat option" where
  "strstr [] p = (if p = [] then Some 0 else None)"
| "strstr (c # s) p = (if starts_with p (c # s) then Some 0 else map_option Suc (strstr s p))"

definition find_last_char :: "bytes \<Rightarrow> u8 \<Rightarrow> nat option" where
  "find_last_char s c = map_option (\<lambda>n. length s - 1 - n) (find_char (rev s) c)"

text \<open>\<open>snprintf\<close> and \<open>strncpy\<close> into a buffer of \<open>cap\<close> bytes whose last byte stays 0.\<close>

definition fit :: "nat \<Rightarrow> bytes \<Rightarrow> bytes" where
  "fit cap s = take (cap - 1) s"

section \<open>Decimal numbers\<close>

definition dec_digit :: "nat \<Rightarrow> u8" where
  "dec_digit n = of_nat (48 + n mod 10)"

fun dec :: "nat \<Rightarrow> bytes" where
  "dec n = (if n < 10 then [dec_digit n] else dec (n div 10) @ [dec_digit n])"

declare dec.simps [simp del]

definition digit_val :: "u8 \<Rightarrow> nat" where
  "digit_val c = unat c - 48"

definition dec_val :: "bytes \<Rightarrow> nat" where
  "dec_val s = foldl (\<lambda>a c. a * 10 + digit_val c) 0 s"

text \<open>
  \<open>atoi\<close> of the C library: leading space, a sign, digits. A value outside \<open>int\<close> is undefined
  in C; the usual implementation reads a \<open>long\<close> and cuts it to 32 bits.
\<close>

definition to_int32 :: "int \<Rightarrow> int" where
  "to_int32 i = signed_take_bit 31 (max (- (2 ^ 63)) (min (2 ^ 63 - 1) i))"

definition strtol10 :: "bytes \<Rightarrow> int" where
  "strtol10 s =
     (let t = dropWhile isspace s;
          (neg, u) = (case t of c # r \<Rightarrow> if c = 45 then (True, r) else if c = 43 then (False, r) else (False, t)
                      | [] \<Rightarrow> (False, []));
          v = int (dec_val (takeWhile isdigit u))
      in if neg then - v else v)"

definition atoi :: "bytes \<Rightarrow> int" where
  "atoi s = to_int32 (strtol10 s)"

lemma unat_dec_digit: "unat (dec_digit n) = 48 + n mod 10"
proof -
  have "48 + n mod 10 < 256" using mod_less_divisor[of 10 n] by linarith
  then show ?thesis unfolding dec_digit_def by (simp only: unat_of_nat) (simp add: take_bit_eq_mod)
qed

lemma isdigit_dec_digit [simp]: "isdigit (dec_digit n)"
  by (simp add: isdigit_def word_le_nat_alt unat_dec_digit)

lemma digit_val_dec_digit [simp]: "digit_val (dec_digit n) = n mod 10"
  by (simp add: digit_val_def unat_dec_digit)

lemma dec_val_snoc [simp]: "dec_val (s @ [c]) = dec_val s * 10 + digit_val c" "dec_val [] = 0"
  by (simp_all add: dec_val_def)

lemma dec_val_dec [simp]: "dec_val (dec n) = n"
proof (induction n rule: dec.induct)
  case (1 n)
  show ?case
  proof (cases "n < 10")
    case True
    then show ?thesis using dec_val_snoc(1)[of "[]" "dec_digit n"] by (simp add: dec.simps[of n])
  next
    case False
    with 1 show ?thesis by (simp add: dec.simps[of n])
  qed
qed

lemma dec_digits: "c \<in> set (dec n) \<Longrightarrow> isdigit c"
proof (induction n rule: dec.induct)
  case (1 n)
  then show ?case by (subst (asm) (2) dec.simps) (auto split: if_splits)
qed

lemma dec_nonempty [simp]: "dec n \<noteq> []"
  by (subst dec.simps) simp

lemma isdigit_range: "isdigit c \<Longrightarrow> 48 \<le> unat c \<and> unat c \<le> 57"
  by (simp add: isdigit_def word_le_nat_alt)

lemma isdigit_not:
  "isdigit c \<Longrightarrow> c \<noteq> 0" "isdigit c \<Longrightarrow> \<not> isspace c" "isdigit c \<Longrightarrow> c \<noteq> 45" "isdigit c \<Longrightarrow> c \<noteq> 43"
  "isdigit c \<Longrightarrow> c \<noteq> 10" "isdigit c \<Longrightarrow> c \<noteq> 13" "isdigit c \<Longrightarrow> c \<noteq> 32"
  using isdigit_range[of c] by (auto simp: isspace_def word_le_nat_alt)

lemma strtol10_dec:
  assumes "rest = [] \<or> \<not> isdigit (hd rest)"
  shows "strtol10 (dec n @ rest) = int n"
proof -
  obtain c s where d: "dec n = c # s" by (cases "dec n") auto
  have c: "isdigit c" using dec_digits[of c n] d by simp
  have "takeWhile isdigit (dec n @ rest) = dec n"
    using assms dec_digits by (cases rest) (auto simp: takeWhile_append)
  with d isdigit_not[OF c] show ?thesis
    using dec_val_dec[of n] by (simp add: strtol10_def Let_def)
qed

lemma to_int32_small: "- (2 ^ 31) \<le> i \<Longrightarrow> i < 2 ^ 31 \<Longrightarrow> to_int32 i = i"
  by (simp add: to_int32_def signed_take_bit_int_eq_self)

text \<open>A property of the bytes below 16, checked one by one.\<close>

lemma nibble_cases:
  assumes "\<forall>n \<in> set [0..<16]. P (of_nat n)" "unat (x :: u8) < 16" shows "P x"
proof -
  have "unat x \<in> set [0..<16]" using assms(2) by simp
  then have "P (of_nat (unat x))" using assms(1) by blast
  moreover have "of_nat (unat x) = x" by simp
  ultimately show ?thesis by metis
qed

section \<open>Searching\<close>

lemma find_char_Some: "find_char s c = Some n \<Longrightarrow> n < length s \<and> s ! n = c \<and> (\<forall>i<n. s ! i \<noteq> c)"
  by (auto simp: find_char_def Let_def nth_length_takeWhile takeWhile_nth split: if_splits)
    (metis (full_types) nth_length_takeWhile, metis (full_types) nth_mem set_takeWhileD takeWhile_nth)

lemma find_char_append: "c \<notin> set a \<Longrightarrow> find_char (a @ c # b) c = Some (length a)"
  by (simp add: find_char_def takeWhile_tail takeWhile_append)

lemma find_char_None: "find_char s c = None \<longleftrightarrow> c \<notin> set s"
proof -
  have "length (takeWhile (\<lambda>x. x \<noteq> c) s) < length s \<longleftrightarrow> c \<in> set s" by (induction s) auto
  then show ?thesis by (simp add: find_char_def Let_def)
qed

lemma cstr_no0: "0 \<notin> set s \<Longrightarrow> cstr s = s"
  by (auto simp: cstr_def takeWhile_eq_all_conv)

lemma cstr_set: "0 \<notin> set (cstr s)"
  by (auto simp: cstr_def dest: set_takeWhileD)

section \<open>Tokens and scanning\<close>

text \<open>
  One call of \<open>strtok_r\<close>: the token and what is behind the delimiter that ended it. Then the
  conversions of \<open>sscanf\<close>: a word of at most \<open>n\<close> characters (\<open>%ns\<close>), a number (\<open>%d\<close>), and
  literal text; each gives the rest of the input.
\<close>

definition strtok :: "u8 list \<Rightarrow> bytes \<Rightarrow> (bytes \<times> bytes) option" where
  "strtok ds s =
     (let t = dropWhile (\<lambda>c. c \<in> set ds) s in
      if t = [] then None
      else Some (takeWhile (\<lambda>c. c \<notin> set ds) t, drop 1 (dropWhile (\<lambda>c. c \<notin> set ds) t)))"

definition scan_word :: "nat \<Rightarrow> bytes \<Rightarrow> (bytes \<times> bytes) option" where
  "scan_word n s =
     (let t = dropWhile isspace s; w = take n (takeWhile (\<lambda>c. \<not> isspace c) t)
      in if w = [] then None else Some (w, drop (length w) t))"

definition scan_int :: "bytes \<Rightarrow> (int \<times> bytes) option" where
  "scan_int s =
     (let t = dropWhile isspace s;
          u = (case t of c # r \<Rightarrow> if c = 45 \<or> c = 43 then r else t | [] \<Rightarrow> [])
      in if takeWhile isdigit u = [] then None
         else Some (to_int32 (strtol10 t), dropWhile isdigit u))"

definition scan_lit :: "bytes \<Rightarrow> bytes \<Rightarrow> bytes option" where
  "scan_lit p s = (if starts_with p s then Some (drop (length p) s) else None)"

lemma strtok_shorter: "strtok ds s = Some (tok, rest) \<Longrightarrow> length rest < length s"
proof -
  assume a: "strtok ds s = Some (tok, rest)"
  let ?t = "dropWhile (\<lambda>c. c \<in> set ds) s"
  from a have "?t \<noteq> []" and r: "rest = drop 1 (dropWhile (\<lambda>c. c \<notin> set ds) ?t)"
    by (auto simp: strtok_def Let_def split: if_splits)
  then obtain c u where t: "?t = c # u" "c \<notin> set ds"
    by (metis (full_types) hd_Cons_tl hd_dropWhile)
  have "length rest \<le> length (dropWhile (\<lambda>c. c \<notin> set ds) u)" by (simp add: r t)
  also have "\<dots> \<le> length u" by (rule length_dropWhile_le)
  finally show ?thesis using t length_dropWhile_le[of "\<lambda>c. c \<in> set ds" s] by simp
qed

lemma strtok_token:
  assumes "set l \<inter> set ds = {}" "l \<noteq> []" "d \<in> set ds"
  shows "strtok ds (l @ d # r) = Some (l, r)"
proof -
  obtain c l' where l: "l = c # l'" using assms(2) by (cases l) auto
  have "\<forall>x \<in> set l. x \<notin> set ds" using assms(1) by auto
  then have "takeWhile (\<lambda>c. c \<notin> set ds) (l @ d # r) = l" "dropWhile (\<lambda>c. c \<notin> set ds) (l @ d # r) = d # r"
    using assms(3) by (simp_all add: takeWhile_append dropWhile_append)
  moreover have "dropWhile (\<lambda>c. c \<in> set ds) (l @ d # r) = l @ d # r" using l assms(1) by auto
  ultimately show ?thesis by (simp add: strtok_def)
qed

lemma strtok_skip: "c \<in> set ds \<Longrightarrow> strtok ds (c # r) = strtok ds r"
  by (simp add: strtok_def)

lemma strtok_nil: "strtok ds [] = None"
  by (simp add: strtok_def)

lemma scan_word_word:
  assumes "w \<noteq> []" "\<forall>c \<in> set w. \<not> isspace c" "length w \<le> n" "r = [] \<or> isspace (hd r)"
  shows "scan_word n (w @ r) = Some (w, r)"
proof -
  obtain c w' where w: "w = c # w'" using assms(1) by (cases w) auto
  have "takeWhile (\<lambda>c. \<not> isspace c) (w @ r) = w"
    using assms by (cases r) (auto simp: takeWhile_append)
  moreover have "dropWhile isspace (w @ r) = w @ r" using w assms(2) by simp
  ultimately show ?thesis using assms(3) w by (cases n) (simp_all add: scan_word_def)
qed

lemma scan_word_space: "isspace c \<Longrightarrow> scan_word n (c # r) = scan_word n r"
  by (simp add: scan_word_def)

lemma scan_int_dec:
  assumes "rest = [] \<or> \<not> isdigit (hd rest)"
  shows "scan_int (32 # dec n @ rest) = Some (to_int32 (int n), rest)"
proof -
  obtain c s where d: "dec n = c # s" by (cases "dec n") auto
  have c: "isdigit c" using dec_digits[of c n] d by simp
  have "takeWhile isdigit (dec n @ rest) = dec n" "dropWhile isdigit (dec n @ rest) = rest"
    using assms dec_digits by (cases rest; auto simp: takeWhile_append dropWhile_append)+
  moreover have "dropWhile isspace (32 # dec n @ rest) = dec n @ rest"
    using d isdigit_not(2)[OF c] isspace_def[of 32] by simp
  ultimately show ?thesis using d isdigit_not(3,4)[OF c] strtol10_dec[OF assms, of n]
    by (simp add: scan_int_def Let_def)
qed

end
