(* ===== verification/Http_Framer.thy ===== *)
theory Http_Framer
  imports Resume C_String
begin

text \<open>
  The message framer of \<open>session/http/http_message_framer.c\<close>, which HTTP and RTSP share: it
  keeps unfinished bytes between two reads, finds the end of a header, asks a callback how
  long the body is, and hands the body to another. The callbacks are parameters over a state
  of their own. Appending to the cache (the byte buffer of the toolkit submodule) is taken to
  succeed.

  Against its contract: the loop of the code is the interface \<open>resumable\<close>, so the way the
  network cut the stream does not matter as long as the cache holds it.
\<close>

definition ZMS_HTTP_DEFAULT_MAX_CACHE :: nat where
  "ZMS_HTTP_DEFAULT_MAX_CACHE = 4 * 1024 * 1024"

text \<open>
  The options: \<open>on_search_tail\<close> gives the offset of the end of the first unit, \<open>on_header\<close>
  the length of its body. Callbacks that are not set are \<open>None\<close>.
\<close>

record ('u, 'e) zms_http_message_framer_opts =
  fo_on_header :: "('u \<Rightarrow> bytes \<Rightarrow> int \<times> 'u \<times> 'e list) option"
  fo_on_content :: "('u \<Rightarrow> bytes \<Rightarrow> 'u \<times> 'e list) option"
  fo_max_cache_size :: nat
  fo_on_search_tail :: "('u \<Rightarrow> bytes \<Rightarrow> nat option \<times> 'u) option"

record 'u zms_http_message_framer =
  hf_remain :: bytes
  hf_content_len :: int
  hf_remain_data_size :: nat
  hf_max_cache_size :: nat
  hf_user :: 'u

fun zms_http_message_search_tail :: "bytes \<Rightarrow> nat option" where
  "zms_http_message_search_tail (a # b # c # d # r) =
     (if a = 13 \<and> b = 10 \<and> c = 13 \<and> d = 10 then Some 4
      else map_option Suc (zms_http_message_search_tail (b # c # d # r)))"
| "zms_http_message_search_tail _ = None"

definition search_packet_tail :: "('u, 'e) zms_http_message_framer_opts \<Rightarrow> 'u \<Rightarrow> bytes \<Rightarrow> nat option \<times> 'u" where
  "search_packet_tail opts s d =
     (case fo_on_search_tail opts of
        Some f \<Rightarrow> f s d
      | None \<Rightarrow> (zms_http_message_search_tail d, s))"

definition call_on_header :: "('u, 'e) zms_http_message_framer_opts \<Rightarrow> 'u \<Rightarrow> bytes \<Rightarrow> int \<times> 'u \<times> 'e list" where
  "call_on_header opts s h = (case fo_on_header opts of Some f \<Rightarrow> f s h | None \<Rightarrow> (0, s, []))"

definition call_on_content :: "('u, 'e) zms_http_message_framer_opts \<Rightarrow> 'u \<Rightarrow> bytes \<Rightarrow> 'u \<times> 'e list" where
  "call_on_content opts s c = (case fo_on_content opts of Some f \<Rightarrow> f s c | None \<Rightarrow> (s, []))"

definition zms_http_message_framer_create :: "('u, 'e) zms_http_message_framer_opts \<Rightarrow> 'u \<Rightarrow> 'u zms_http_message_framer" where
  "zms_http_message_framer_create opts s =
     \<lparr>hf_remain = [], hf_content_len = 0, hf_remain_data_size = 0,
      hf_max_cache_size = (if fo_max_cache_size opts \<noteq> 0 then fo_max_cache_size opts else ZMS_HTTP_DEFAULT_MAX_CACHE),
      hf_user = s\<rparr>"

definition zms_http_message_framer_reset :: "'u zms_http_message_framer \<Rightarrow> 'u zms_http_message_framer" where
  "zms_http_message_framer_reset f = f\<lparr>hf_content_len := 0, hf_remain_data_size := 0, hf_remain := []\<rparr>"

definition zms_http_message_framer_remain_size :: "'u zms_http_message_framer \<Rightarrow> nat" where
  "zms_http_message_framer_remain_size f = hf_remain_data_size f"

text \<open>
  The loop over the headers: it goes on while there is no body to wait for. The result says
  if the search routine pointed outside the data, and what is left to read.
\<close>

function header_loop :: "('u, 'e) zms_http_message_framer_opts \<Rightarrow> 'u \<Rightarrow> int \<Rightarrow> bytes
    \<Rightarrow> bool \<times> 'u \<times> int \<times> bytes \<times> 'e list" where
  "header_loop opts s clen d =
     (if clen = 0 \<and> d \<noteq> [] then
        case search_packet_tail opts s d of
          (None, s1) \<Rightarrow> (True, s1, clen, d, [])
        | (Some k, s1) \<Rightarrow>
            if k = 0 then (True, s1, clen, d, [])
            else if k > length d then (False, s1, clen, d, [])
            else case call_on_header opts s1 (take k d) of
              (clen2, s2, es) \<Rightarrow>
                (case header_loop opts s2 clen2 (drop k d) of
                   (ok, s3, clen3, r, es2) \<Rightarrow> (ok, s3, clen3, r, es @ es2))
      else (True, s, clen, d, []))"
  by pat_completeness auto
termination by (relation "measure (\<lambda>(opts, s, clen, d). length d)") auto

declare header_loop.simps [simp del]

lemma header_loop_length: "header_loop opts s clen d = (ok, s1, clen1, r, es) \<Longrightarrow> length r \<le> length d"
proof (induction opts s clen d arbitrary: ok s1 clen1 r es rule: header_loop.induct)
  case (1 opts s clen d)
  show ?case
    using 1(2) 1(1) by (subst (asm) header_loop.simps)
      (fastforce split: if_splits prod.splits option.splits)
qed

text \<open>
  From the label \<open>split_packet\<close> on: \<open>d\<close> is what is read from \<open>ptr\<close>, the cache still what it was.
\<close>

function split_packet :: "('u, 'e) zms_http_message_framer_opts \<Rightarrow> 'u zms_http_message_framer \<Rightarrow> bytes
    \<Rightarrow> ztk_err \<times> 'u zms_http_message_framer \<times> 'e list" where
  "split_packet opts f d =
     (case header_loop opts (hf_user f) (hf_content_len f) d of
        (ok, s, clen, r, es) \<Rightarrow>
          let g = f\<lparr>hf_user := s, hf_content_len := clen, hf_remain_data_size := length r\<rparr> in
          if \<not> ok then (ZTK_ERR_INVALID, g, es)
          else if r = [] then (ZTK_OK, g\<lparr>hf_remain := []\<rparr>, es)
          else if clen = 0 then (ZTK_OK, g\<lparr>hf_remain := r\<rparr>, es)
          else if clen > 0 then
            (if length r < nat clen then (ZTK_OK, g\<lparr>hf_remain := r\<rparr>, es)
             else case call_on_content opts s (take (nat clen) r) of
               (s2, es2) \<Rightarrow>
                 let r2 = drop (nat clen) r;
                     g2 = g\<lparr>hf_user := s2, hf_content_len := 0, hf_remain_data_size := length r2,
                            hf_remain := r2\<rparr>
                 in if r2 \<noteq> [] then
                      (case split_packet opts g2 r2 of (err, g3, es3) \<Rightarrow> (err, g3, es @ es2 @ es3))
                    else (ZTK_OK, g2, es @ es2))
          else case call_on_content opts s r of
            (s2, es2) \<Rightarrow> (ZTK_OK, g\<lparr>hf_user := s2, hf_remain := [], hf_remain_data_size := 0\<rparr>, es @ es2))"
  by pat_completeness auto
termination
  by (relation "measure (\<lambda>(opts, f, d). length d)") (auto dest!: header_loop_length[OF sym])

declare split_packet.simps [simp del]

definition zms_http_message_framer_input :: "('u, 'e) zms_http_message_framer_opts
    \<Rightarrow> 'u zms_http_message_framer \<Rightarrow> bytes \<Rightarrow> ztk_err \<times> 'u zms_http_message_framer \<times> 'e list" where
  "zms_http_message_framer_input opts f d =
     (if d = [] then (ZTK_ERR_INVALID, f, [])
      else if length (hf_remain f) + length d > hf_max_cache_size f
      then (ZTK_ERR_BUFFER_TOO_SMALL, zms_http_message_framer_reset f, [])
      else if hf_remain f \<noteq> []
      then split_packet opts (f\<lparr>hf_remain := hf_remain f @ d\<rparr>) (hf_remain f @ d)
      else split_packet opts f d)"

section \<open>One step of the framer\<close>

definition framer_step :: "('u, 'e) zms_http_message_framer_opts \<Rightarrow> 'u \<times> int \<Rightarrow> bytes
    \<Rightarrow> ('u \<times> int, 'e, ztk_err) outcome" where
  "framer_step opts sc d =
     (case sc of (s, clen) \<Rightarrow>
        if d = [] then Need (s, clen)
        else if clen = 0 then
          (case search_packet_tail opts s d of
             (None, s1) \<Rightarrow> Need (s1, 0)
           | (Some k, s1) \<Rightarrow> (case call_on_header opts s1 (take k d) of
               (clen2, s2, es) \<Rightarrow> Took (s2, clen2) k es))
        else if length d < nat clen then Need (s, clen)
        else (case call_on_content opts s (take (nat clen) d) of (s2, es) \<Rightarrow> Took (s2, 0) (nat clen) es))"

lemma framer_step_nil: "framer_step opts (s, c) [] = Need (s, c)"
  by (simp add: framer_step_def)

text \<open>
  What the framer relies on: the end of a unit that is found is inside the data and does not
  move when more data comes, a search in some data that found nothing can be repeated, and no header
  announces a body of unknown length.
\<close>

locale framer_client =
  fixes opts :: "('u, 'e) zms_http_message_framer_opts"
  assumes tail_more: "search_packet_tail opts s d = (Some k, s1) \<Longrightarrow>
      0 < k \<and> k \<le> length d \<and> search_packet_tail opts s (d @ x) = (Some k, s1)"
    and tail_again: "d \<noteq> [] \<Longrightarrow> search_packet_tail opts s d = (None, s1) \<Longrightarrow>
      search_packet_tail opts s1 (d @ x) = search_packet_tail opts s (d @ x)"
    and header_len: "call_on_header opts s h = (n, s1, es) \<Longrightarrow> 0 \<le> n"

sublocale framer_client \<subseteq> steps: resumable "framer_step opts" "\<lambda>sc. 0 \<le> snd sc"
proof
  fix sc sc' :: "'u \<times> int" and d x :: bytes and n es and err :: ztk_err
  obtain s c where sc: "sc = (s, c)" by fastforce
  assume inv: "0 \<le> snd sc"
  show "0 < n \<and> n \<le> length d \<and> 0 \<le> snd sc'" if "framer_step opts sc d = Took sc' n es"
    using that inv
    by (auto simp: framer_step_def sc split: if_splits prod.splits option.splits dest: tail_more header_len)
  show "framer_step opts sc (d @ x) = Took sc' n es" if "framer_step opts sc d = Took sc' n es"
    using that inv
    by (auto simp: framer_step_def sc split: if_splits prod.splits option.splits dest: tail_more[of _ _ _ _ x])
  show "framer_step opts sc (d @ x) = Fail err sc'" if "framer_step opts sc d = Fail err sc'"
    using that by (auto simp: framer_step_def sc split: if_splits prod.splits option.splits)
  show "0 \<le> snd sc' \<and> framer_step opts sc' (d @ x) = framer_step opts sc (d @ x)"
    if n: "framer_step opts sc d = Need sc'"
  proof (cases "d \<noteq> [] \<and> c = 0")
    case True
    then obtain s1 where "search_packet_tail opts s d = (None, s1)" "sc' = (s1, 0)"
      using n by (auto simp: framer_step_def sc split: option.splits prod.splits)
    with tail_again[of d s s1 x] True show ?thesis by (simp add: framer_step_def sc)
  next
    case False
    then have "sc' = sc" using n by (auto simp: framer_step_def sc split: if_splits prod.splits)
    with inv show ?thesis by simp
  qed
qed

context framer_client
begin

lemma header_step:
  assumes "d \<noteq> []" "search_packet_tail opts s d = (Some k, s1)" "call_on_header opts s1 (take k d) = (c2, s2, es)"
  shows "framer_step opts (s, 0) d = Took (s2, c2) k es"
  using assms by (simp add: framer_step_def)

lemma header_loop_drive: "header_loop opts s c d = (ok, s1, c1, r, es) \<Longrightarrow> 0 \<le> c \<Longrightarrow>
    ok \<and> 0 \<le> c1 \<and> (c1 = 0 \<longrightarrow> framer_step opts (s1, 0) r = Need (s1, 0))
    \<and> drive (framer_step opts) (s, c) d =
        (es @ fst (drive (framer_step opts) (s1, c1) r), snd (drive (framer_step opts) (s1, c1) r))"
proof (induction "length d" arbitrary: s c d es rule: less_induct)
  case less
  show ?case
  proof (cases "c = 0 \<and> d \<noteq> []")
    case False
    with less.prems have "ok" "s1 = s" "c1 = c" "r = d" "es = []"
      by (auto simp: header_loop.simps[of opts s c d])
    with False less.prems show ?thesis by (auto simp: framer_step_def)
  next
    case c0: True
    obtain t s' where t: "search_packet_tail opts s d = (t, s')" by fastforce
    show ?thesis
    proof (cases t)
      case None
      with c0 t less.prems have o: "ok" "s1 = s'" "c1 = 0" "r = d" "es = []"
        by (auto simp: header_loop.simps[of opts s 0 d])
      have n: "framer_step opts (s, 0) d = Need (s', 0)" using t None c0 by (simp add: framer_step_def)
      have "framer_step opts (s', 0) d = Need (s', 0)"
        using tail_again[of d s s' "[]"] t None c0 by (simp add: framer_step_def)
      with n o c0 show ?thesis by (simp add: steps.drive_need)
    next
      case (Some k)
      with t tail_more[of s d k s'] have k: "0 < k" "k \<le> length d" by auto
      obtain c2 s2 es2 where h: "call_on_header opts s' (take k d) = (c2, s2, es2)" using prod_cases3 by blast
      obtain ok3 s3 c3 r3 es3 where l: "header_loop opts s2 c2 (drop k d) = (ok3, s3, c3, r3, es3)"
        using prod_cases5 by blast
      have e: "ok = ok3" "s1 = s3" "c1 = c3" "r = r3" "es = es2 @ es3"
        using less.prems c0 t Some k h l by (auto simp: header_loop.simps[of opts s 0 d])
      have "length (drop k d) < length d" using k c0 by simp
      from less.hyps[OF this l[folded e(1-4)] header_len[OF h]]
      have IH: "ok \<and> 0 \<le> c1 \<and> (c1 = 0 \<longrightarrow> framer_step opts (s1, 0) r = Need (s1, 0))"
        "drive (framer_step opts) (s2, c2) (drop k d) =
          (es3 @ fst (drive (framer_step opts) (s1, c1) r), snd (drive (framer_step opts) (s1, c1) r))" by auto
      have st: "framer_step opts (s, c) d = Took (s2, c2) k es2"
        using header_step t Some h c0 by simp
      have "0 \<le> snd (s, c)" using c0 by simp
      from steps.drive_took[OF this st] IH e(5) show ?thesis by simp
    qed
  qed
qed

text \<open>The loop of the code is the parse loop of the interface.\<close>

lemma split_packet_drive: "0 \<le> hf_content_len f \<Longrightarrow>
    \<exists>s c r. drive (framer_step opts) (hf_user f, hf_content_len f) d = (snd (snd (split_packet opts f d)), Inr ((s, c), r))
      \<and> fst (split_packet opts f d) = ZTK_OK
      \<and> fst (snd (split_packet opts f d)) = f\<lparr>hf_user := s, hf_content_len := c, hf_remain_data_size := length r, hf_remain := r\<rparr>"
proof (induction "length d" arbitrary: f d rule: less_induct)
  case less
  let ?D = "drive (framer_step opts)"
  obtain ok s c r es where l: "header_loop opts (hf_user f) (hf_content_len f) d = (ok, s, c, r, es)"
    using prod_cases5 by blast
  note h = header_loop_drive[OF l less.prems]
  show ?case
  proof (cases "r = [] \<or> c = 0 \<or> length r < nat c")
    case True
    then have "framer_step opts (s, c) r = Need (s, c)" using h by (auto simp: framer_step_def)
    then have D: "?D (hf_user f, hf_content_len f) d = (es, Inr ((s, c), r))" using h by (simp add: steps.drive_need)
    have "split_packet opts f d = (ZTK_OK, f\<lparr>hf_user := s, hf_content_len := c,
        hf_remain_data_size := length r, hf_remain := r\<rparr>, es)"
      using True l h by (subst split_packet.simps) (auto simp: Let_def)
    with D show ?thesis by simp
  next
    case False
    then have c: "0 < c" "r \<noteq> []" "nat c \<le> length r" using h by auto
    obtain s2 es2 where b: "call_on_content opts s (take (nat c) r) = (s2, es2)" by fastforce
    have st: "framer_step opts (s, c) r = Took (s2, 0) (nat c) es2"
      using c b by (simp add: framer_step_def)
    have "0 \<le> snd (s, c)" using c by simp
    note dr = steps.drive_took[OF this st]
    let ?r2 = "drop (nat c) r"
    let ?g = "f\<lparr>hf_user := s2, hf_content_len := 0, hf_remain_data_size := length ?r2, hf_remain := ?r2\<rparr>"
    show ?thesis
    proof (cases "?r2 = []")
      case True
      have "?D (s2, 0) ?r2 = ([], Inr ((s2, 0), []))"
        using True by (simp add: steps.drive_need framer_step_def)
      moreover have "split_packet opts f d = (ZTK_OK, ?g, es @ es2)"
        using True c l h b by (subst split_packet.simps) (simp add: Let_def)
      ultimately show ?thesis using h dr True by simp
    next
      case ne: False
      have sp: "split_packet opts f d = (case split_packet opts ?g ?r2 of (err, g3, es3) \<Rightarrow> (err, g3, es @ es2 @ es3))"
        using ne c l h b by (subst split_packet.simps) (simp add: Let_def)
      have "length ?r2 < length d" using header_loop_length[OF l] c by (simp; linarith)
      from less.hyps[OF this, of ?g] h dr sp show ?thesis
        by (auto simp: case_prod_beta)
    qed
  qed
qed


text \<open>A whole call, as long as the cache holds the data.\<close>

lemma input_drive:
  assumes "0 \<le> hf_content_len f" "d \<noteq> []" "length (hf_remain f) + length d \<le> hf_max_cache_size f"
  shows "\<exists>s c r es. drive (framer_step opts) (hf_user f, hf_content_len f) (hf_remain f @ d) = (es, Inr ((s, c), r))
    \<and> zms_http_message_framer_input opts f d = (ZTK_OK, f\<lparr>hf_user := s, hf_content_len := c,
        hf_remain_data_size := length r, hf_remain := r\<rparr>, es)"
proof -
  let ?g = "if hf_remain f \<noteq> [] then f\<lparr>hf_remain := hf_remain f @ d\<rparr> else f"
  have i: "zms_http_message_framer_input opts f d = split_packet opts ?g (hf_remain f @ d)"
    using assms by (auto simp: zms_http_message_framer_input_def)
  have "0 \<le> hf_content_len ?g" using assms by simp
  from split_packet_drive[OF this, of "hf_remain f @ d"] i show ?thesis
    by (cases "split_packet opts ?g (hf_remain f @ d)") (auto split: if_splits)
qed

end

text \<open>Reads in a row, up to the first that fails.\<close>

fun framer_inputs :: "('u, 'e) zms_http_message_framer_opts \<Rightarrow> 'u zms_http_message_framer \<Rightarrow> bytes list
    \<Rightarrow> ztk_err \<times> 'u zms_http_message_framer \<times> 'e list" where
  "framer_inputs opts f [] = (ZTK_OK, f, [])"
| "framer_inputs opts f (d # ds) =
     (case zms_http_message_framer_input opts f d of
        (err, g, es) \<Rightarrow>
          if err \<noteq> ZTK_OK then (err, g, es)
          else (case framer_inputs opts g ds of (err2, h, es2) \<Rightarrow> (err2, h, es @ es2)))"

definition framer_of :: "'u zms_http_message_framer \<Rightarrow> 'u \<times> int \<Rightarrow> bytes \<Rightarrow> 'u zms_http_message_framer" where
  "framer_of f sc r = f\<lparr>hf_user := fst sc, hf_content_len := snd sc, hf_remain_data_size := length r, hf_remain := r\<rparr>"

context framer_client
begin

lemma inputs_feed:
  assumes "0 \<le> hf_content_len f" "[] \<notin> set ds"
    and "length (hf_remain f) + length (concat ds) \<le> hf_max_cache_size f" "ds \<noteq> []"
  shows "\<exists>sc r es. feed (framer_step opts) (hf_user f, hf_content_len f) (hf_remain f) ds = (es, Inr (sc, r))
    \<and> framer_inputs opts f ds = (ZTK_OK, framer_of f sc r, es)"
  using assms
proof (induction ds arbitrary: f)
  case (Cons d ds)
  from Cons.prems obtain s c r es where
    dr: "drive (framer_step opts) (hf_user f, hf_content_len f) (hf_remain f @ d) = (es, Inr ((s, c), r))"
    and i: "zms_http_message_framer_input opts f d = (ZTK_OK, framer_of f (s, c) r, es)"
    using input_drive[of f d] by (auto simp: framer_of_def)
  have "0 \<le> snd (hf_user f, hf_content_len f)" using Cons.prems by simp
  from steps.drive_rest[OF this dr] have c: "0 \<le> c" and r: "length r \<le> length (hf_remain f @ d)" by auto
  show ?case
  proof (cases ds)
    case Nil
    with dr i show ?thesis by simp
  next
    case (Cons d2 ds2)
    let ?g = "framer_of f (s, c) r"
    have g: "hf_user ?g = s" "hf_content_len ?g = c" "hf_remain ?g = r" "hf_max_cache_size ?g = hf_max_cache_size f"
      by (simp_all add: framer_of_def)
    have "length (hf_remain ?g) + length (concat ds) \<le> hf_max_cache_size ?g"
      using Cons.prems r by (simp add: g)
    with Cons.IH[of ?g] Cons.prems Cons c obtain sc r2 es2 where
      f2: "feed (framer_step opts) (s, c) r ds = (es2, Inr (sc, r2))"
      "framer_inputs opts ?g ds = (ZTK_OK, framer_of ?g sc r2, es2)" by (auto simp: g)
    have "framer_of ?g sc r2 = framer_of f sc r2" by (simp add: framer_of_def)
    with f2 dr i show ?thesis by simp
  qed
qed simp

text \<open>The cut of the stream does not matter.\<close>

theorem inputs_concat:
  assumes "0 \<le> hf_content_len f" "[] \<notin> set ds" "ds \<noteq> []"
    and "length (hf_remain f) + length (concat ds) \<le> hf_max_cache_size f"
  shows "framer_inputs opts f ds = zms_http_message_framer_input opts f (concat ds)
    \<and> fst (framer_inputs opts f ds) = ZTK_OK"
proof -
  obtain sc r es where a: "feed (framer_step opts) (hf_user f, hf_content_len f) (hf_remain f) ds = (es, Inr (sc, r))"
    "framer_inputs opts f ds = (ZTK_OK, framer_of f sc r, es)"
    using inputs_feed[OF assms(1,2,4,3)] by blast
  have ne: "concat ds \<noteq> []" using assms(2,3) by (cases ds) auto
  from input_drive[OF assms(1) ne assms(4)] obtain s c r2 es2 where
    b: "drive (framer_step opts) (hf_user f, hf_content_len f) (hf_remain f @ concat ds) = (es2, Inr ((s, c), r2))"
    "zms_http_message_framer_input opts f (concat ds) = (ZTK_OK, framer_of f (s, c) r2, es2)"
    by (auto simp: framer_of_def)
  have "0 \<le> snd (hf_user f, hf_content_len f)" using assms(1) by simp
  from steps.feed_concat[OF this assms(3), of "hf_remain f"] a b show ?thesis by simp
qed

end

section \<open>The default search\<close>

lemma search_tail_bounds: "zms_http_message_search_tail d = Some k \<Longrightarrow> 4 \<le> k \<and> k \<le> length d"
  by (induction d arbitrary: k rule: zms_http_message_search_tail.induct) (auto split: if_splits)

lemma search_tail_append: "zms_http_message_search_tail d = Some k \<Longrightarrow>
    zms_http_message_search_tail (d @ x) = Some k"
  by (induction d arbitrary: k rule: zms_http_message_search_tail.induct) (auto split: if_splits)

text \<open>It finds the first empty line.\<close>

definition tail_at :: "bytes \<Rightarrow> nat \<Rightarrow> bool" where
  "tail_at d i \<longleftrightarrow> i + 4 \<le> length d \<and> take 4 (drop i d) = [13, 10, 13, 10]"

lemma search_tail_spec:
  "zms_http_message_search_tail d = (if \<exists>i. tail_at d i then Some ((LEAST i. tail_at d i) + 4) else None)"
proof (induction d rule: zms_http_message_search_tail.induct)
  case (1 a b c e r)
  let ?d = "a # b # c # e # r" and ?t = "b # c # e # r"
  show ?case
  proof (cases "a = 13 \<and> b = 10 \<and> c = 13 \<and> e = 10")
    case True
    then have "tail_at ?d 0" by (simp add: tail_at_def)
    then have "(LEAST i. tail_at ?d i) = 0" by (rule Least_eq_0)
    with True \<open>tail_at ?d 0\<close> show ?thesis by auto
  next
    case False
    have 0: "\<not> tail_at ?d 0" using False by (auto simp: tail_at_def)
    have Suc: "tail_at ?d (Suc i) = tail_at ?t i" for i by (simp add: tail_at_def)
    have ex: "(\<exists>i. tail_at ?d i) = (\<exists>i. tail_at ?t i)" using 0 Suc by (metis not0_implies_Suc)
    have least: "(LEAST i. tail_at ?d i) = Suc (LEAST i. tail_at ?t i)" if e: "\<exists>i. tail_at ?t i"
    proof -
      from e ex obtain i where "tail_at ?d i" by blast
      from Least_Suc[of "tail_at ?d", OF this 0] show ?thesis by (simp only: Suc)
    qed
    have "zms_http_message_search_tail ?d = map_option Suc (zms_http_message_search_tail ?t)"
      using False by auto
    also have "\<dots> = (if \<exists>i. tail_at ?t i then Some (Suc ((LEAST i. tail_at ?t i) + 4)) else None)"
      using 1[OF False] by simp
    finally show ?thesis using ex least by simp
  qed
qed (auto simp: tail_at_def)

lemma search_tail_line:
  assumes "10 \<notin> set l"
  shows "zms_http_message_search_tail (l @ 13 # 10 # rest) =
    (if starts_with [13, 10] rest then Some (length l + 4)
     else map_option ((+) (length l + 2)) (zms_http_message_search_tail rest))"
  using assms
proof (induction l)
  case Nil
  show ?case
  proof (cases rest)
    case (Cons a r)
    show ?thesis
    proof (cases r)
      case (Cons b r2)
      have "zms_http_message_search_tail (10 # a # b # r2) = map_option Suc (zms_http_message_search_tail (a # b # r2))"
        by (cases r2) simp_all
      with \<open>rest = a # r\<close> Cons show ?thesis
        by (auto simp: starts_with_def option.map_comp o_def)
    qed (use Cons in \<open>simp add: starts_with_def\<close>)
  qed (simp add: starts_with_def)
next
  case (Cons c l)
  let ?t = "l @ 13 # 10 # rest"
  obtain x y where t: "?t = x # y" "x \<noteq> 10" using Cons.prems by (cases l) auto
  have "zms_http_message_search_tail (c # ?t) = map_option Suc (zms_http_message_search_tail ?t)"
  proof (cases y)
    case (Cons y1 y2)
    show ?thesis by (cases y2) (use t Cons in simp_all)
  qed (use t in simp)
  with Cons show ?case by (auto simp: option.map_comp o_def)
qed

text \<open>A block of lines ends behind its first empty line.\<close>

definition crlf_lines :: "bytes list \<Rightarrow> bytes" where
  "crlf_lines ls = concat (map (\<lambda>l. l @ [13, 10]) ls)"

lemma crlf_lines_simps [simp]: "crlf_lines [] = []" "crlf_lines (l # ls) = l @ 13 # 10 # crlf_lines ls"
  "crlf_lines (as @ bs) = crlf_lines as @ crlf_lines bs"
  by (simp_all add: crlf_lines_def)

lemma search_lines:
  assumes "10 \<notin> set l" "\<forall>x \<in> set ls. x \<noteq> [] \<and> 10 \<notin> set x"
  shows "zms_http_message_search_tail (l @ 13 # 10 # crlf_lines ls @ 13 # 10 # body) = Some (length l + 4 + length (crlf_lines ls))"
  using assms
proof (induction ls arbitrary: l)
  case Nil
  then show ?case by (simp add: search_tail_line starts_with_def)
next
  case (Cons x ls)
  let ?r = "crlf_lines ls @ 13 # 10 # body"
  have wf: "10 \<notin> set x" "x \<noteq> []" using Cons.prems by auto
  have "\<not> starts_with [13, 10] (x @ 13 # 10 # ?r)"
    using wf by (cases x; cases "tl x") (auto simp: starts_with_def)
  with search_tail_line[OF Cons.prems(1), of "x @ 13 # 10 # ?r"] Cons.IH[OF wf(1)] Cons.prems(2)
  show ?case by simp
qed

end
