(* ===== verification/Http_Request.thy ===== *)
theory Http_Request
  imports Http_Framer C_String
begin

text \<open>
  The HTTP parser of \<open>session/http/http_parser.c\<close> and the request reader of
  \<open>session/http/http_request_reader.c\<close> that puts it behind the message framer. A fixed
  character array of the code is the C string it holds; the allocation of the body is taken to
  succeed.
\<close>

definition ZMS_HTTP_METHOD_MAX :: nat where "ZMS_HTTP_METHOD_MAX = 32"
definition ZMS_HTTP_URL_MAX :: nat where "ZMS_HTTP_URL_MAX = 2048"
definition ZMS_HTTP_PROTO_MAX :: nat where "ZMS_HTTP_PROTO_MAX = 32"
definition ZMS_HTTP_KEY_MAX :: nat where "ZMS_HTTP_KEY_MAX = 128"
definition ZMS_HTTP_VAL_MAX :: nat where "ZMS_HTTP_VAL_MAX = 4096"
definition ZMS_HTTP_HDR_MAX :: nat where "ZMS_HTTP_HDR_MAX = 64"
definition ZMS_HTTP_MAX_BODY :: nat where "ZMS_HTTP_MAX_BODY = 64 * 1024"

lemmas http_consts = ZMS_HTTP_METHOD_MAX_def ZMS_HTTP_URL_MAX_def ZMS_HTTP_PROTO_MAX_def
  ZMS_HTTP_KEY_MAX_def ZMS_HTTP_VAL_MAX_def ZMS_HTTP_HDR_MAX_def ZMS_HTTP_MAX_BODY_def

section \<open>The parser\<close>

record zms_http_parser =
  hp_method :: bytes
  hp_url :: bytes
  hp_params :: bytes
  hp_protocol :: bytes
  hp_headers :: "(bytes \<times> bytes) list"
  hp_content :: bytes
  hp_is_response :: bool

definition zms_http_parser_init :: zms_http_parser where
  "zms_http_parser_init = \<lparr>hp_method = [], hp_url = [], hp_params = [], hp_protocol = [],
     hp_headers = [], hp_content = [], hp_is_response = False\<rparr>"

definition trim_inplace :: "bytes \<Rightarrow> bytes" where
  "trim_inplace s = rev (dropWhile isspace (rev (dropWhile isspace s)))"

definition http_add_header :: "zms_http_parser \<Rightarrow> bytes \<Rightarrow> bytes \<Rightarrow> ztk_err \<times> zms_http_parser" where
  "http_add_header p key val =
     (if length (hp_headers p) \<ge> ZMS_HTTP_HDR_MAX then (ZTK_ERR_BUFFER_TOO_SMALL, p)
      else if length key \<ge> ZMS_HTTP_KEY_MAX \<or> length val \<ge> ZMS_HTTP_VAL_MAX
      then (ZTK_ERR_BUFFER_TOO_SMALL, p)
      else (ZTK_OK, p\<lparr>hp_headers := hp_headers p @ [(trim_inplace (cstr key), trim_inplace (cstr val))]\<rparr>))"

text \<open>The first line of \<open>parse_lines\<close>; the result says if it was accepted.\<close>

definition parse_request_line :: "zms_http_parser \<Rightarrow> bytes \<Rightarrow> bool \<times> zms_http_parser" where
  "parse_request_line p line =
     (case find_char line 32 of
        None \<Rightarrow> (False, p)
      | Some mlen \<Rightarrow>
        if mlen \<ge> ZMS_HTTP_METHOD_MAX then (False, p)
        else let p1 = p\<lparr>hp_method := cstr (take mlen line)\<rparr>; rest = drop (mlen + 1) line in
          (case find_char rest 32 of
             None \<Rightarrow> (False, p1)
           | Some ulen \<Rightarrow>
             if ulen \<ge> ZMS_HTTP_URL_MAX then (False, p1)
             else let url = cstr (take ulen rest);
                      p2 = (case find_char url 63 of
                              None \<Rightarrow> p1\<lparr>hp_url := url\<rparr>
                            | Some q \<Rightarrow> p1\<lparr>hp_url := take q url,
                                hp_params := take (ZMS_HTTP_URL_MAX - 1) (drop (q + 1) url)\<rparr>);
                      proto = drop (ulen + 1) rest
                  in if length proto \<ge> ZMS_HTTP_PROTO_MAX then (False, p2)
                     else (True, p2\<lparr>hp_protocol := cstr proto,
                       hp_is_response := (hp_is_response p2 \<or> starts_with (asc ''HTTP'') (hp_method p2))\<rparr>)))"

text \<open>The line before the first line feed, without its carriage return.\<close>

definition strip_cr :: "bytes \<Rightarrow> bytes" where
  "strip_cr raw = (if raw \<noteq> [] \<and> last raw = 13 then butlast raw else raw)"

function parse_lines :: "zms_http_parser \<Rightarrow> bool \<Rightarrow> bytes \<Rightarrow> ztk_err \<times> zms_http_parser" where
  "parse_lines p first d =
     (if d = [] then (ZTK_ERR_INVALID, p)
      else case find_char d 10 of
        None \<Rightarrow> (ZTK_ERR_INVALID, p)
      | Some n \<Rightarrow>
        let line = strip_cr (take n d); rest = drop (n + 1) d in
        if first then
          (case parse_request_line p line of
             (ok, p1) \<Rightarrow> if \<not> ok then (ZTK_ERR_INVALID, p1) else parse_lines p1 False rest)
        else if line = [] then (ZTK_OK, p)
        else (case find_char line 58 of
            None \<Rightarrow> (ZTK_ERR_INVALID, p)
          | Some colon \<Rightarrow>
            (case http_add_header p (take colon line) (dropWhile (\<lambda>c. c = 32) (drop (colon + 1) line)) of
               (err, p1) \<Rightarrow> if err \<noteq> ZTK_OK then (err, p1) else parse_lines p1 False rest)))"
  by pat_completeness auto
termination by (relation "measure (\<lambda>(p, first, d). length d)") auto

declare parse_lines.simps [simp del]

definition zms_http_parser_parse_header :: "zms_http_parser \<Rightarrow> bytes \<Rightarrow> ztk_err \<times> zms_http_parser" where
  "zms_http_parser_parse_header p d =
     (if length d < 4 then (ZTK_ERR_INVALID, p) else parse_lines zms_http_parser_init True d)"

definition zms_http_parser_set_content :: "zms_http_parser \<Rightarrow> bytes \<Rightarrow> zms_http_parser" where
  "zms_http_parser_set_content p d = p\<lparr>hp_content := d\<rparr>"

definition zms_http_parser_parse :: "zms_http_parser \<Rightarrow> bytes \<Rightarrow> ztk_err \<times> zms_http_parser" where
  "zms_http_parser_parse p d =
     (case zms_http_parser_parse_header p d of
        (err, p1) \<Rightarrow>
          if err \<noteq> ZTK_OK then (err, p1)
          else case zms_http_message_search_tail d of
            None \<Rightarrow> (ZTK_ERR_INVALID, p1)
          | Some body_off \<Rightarrow>
              if body_off < length d then (ZTK_OK, zms_http_parser_set_content p1 (drop body_off d))
              else (ZTK_OK, p1))"

definition zms_http_parser_header :: "zms_http_parser \<Rightarrow> bytes \<Rightarrow> bytes" where
  "zms_http_parser_header p name =
     (case find (\<lambda>(k, v). strcaseeq k name) (hp_headers p) of None \<Rightarrow> [] | Some (k, v) \<Rightarrow> v)"

definition zms_http_parser_full_url :: "zms_http_parser \<Rightarrow> nat \<Rightarrow> bytes" where
  "zms_http_parser_full_url p cap =
     fit cap (if hp_params p \<noteq> [] then hp_url p @ [63] @ hp_params p else hp_url p)"

section \<open>The request reader\<close>

record zms_http_request =
  rq_method :: bytes
  rq_path :: bytes
  rq_host :: bytes
  rq_range :: bytes
  rq_body :: bytes
  rq_ws_upgrade :: bool
  rq_ws_key :: bytes

definition emit_request :: "zms_http_parser \<Rightarrow> zms_http_request" where
  "emit_request p =
     (let host = zms_http_parser_header p (asc ''Host'');
          range = zms_http_parser_header p (asc ''Range'');
          upgrade = zms_http_parser_header p (asc ''Upgrade'')
      in \<lparr>rq_method = fit 16 (hp_method p),
          rq_path = fit 512 (zms_http_parser_full_url p (ZMS_HTTP_URL_MAX + ZMS_HTTP_URL_MAX)),
          rq_host = fit 128 (if host = [] then zms_http_parser_header p (asc ''host'') else host),
          rq_range = fit 128 (if range = [] then zms_http_parser_header p (asc ''range'') else range),
          rq_body = hp_content p,
          rq_ws_upgrade = (upgrade \<noteq> [] \<and> strcaseeq upgrade (asc ''websocket'')),
          rq_ws_key = fit 64 (zms_http_parser_header p (asc ''Sec-WebSocket-Key''))\<rparr>)"

text \<open>The loop that reads the length: \<open>None\<close> is its early return.\<close>

fun content_length_loop :: "nat \<Rightarrow> bytes \<Rightarrow> nat option" where
  "content_length_loop n [] = Some n"
| "content_length_loop n (c # s) =
     (if \<not> isdigit c then None
      else let m = n * 10 + digit_val c in
        if m > ZMS_HTTP_MAX_BODY then None else content_length_loop m s)"

definition on_packet_header :: "zms_http_parser \<Rightarrow> bytes \<Rightarrow> int \<times> zms_http_parser \<times> zms_http_request list" where
  "on_packet_header p header =
     (case zms_http_parser_parse_header zms_http_parser_init header of
        (err, p1) \<Rightarrow>
          if err \<noteq> ZTK_OK then (0, p1, [])
          else let cl = zms_http_parser_header p1 (asc ''Content-Length'') in
            case (if cl = [] then Some 0 else content_length_loop 0 cl) of
              None \<Rightarrow> (0, p1, [])
            | Some n \<Rightarrow>
                if n > 0 then (int n, p1, [])
                else (0, zms_http_parser_init, [emit_request p1]))"

definition on_packet_content :: "zms_http_parser \<Rightarrow> bytes \<Rightarrow> zms_http_parser \<times> zms_http_request list" where
  "on_packet_content p d =
     (zms_http_parser_init, [emit_request (zms_http_parser_set_content p d)])"

definition http_reader_opts :: "(zms_http_parser, zms_http_request) zms_http_message_framer_opts" where
  "http_reader_opts = \<lparr>fo_on_header = Some on_packet_header, fo_on_content = Some on_packet_content,
     fo_max_cache_size = 0, fo_on_search_tail = None\<rparr>"

type_synonym zms_http_request_reader = "zms_http_parser zms_http_message_framer"

definition zms_http_request_reader_create :: zms_http_request_reader where
  "zms_http_request_reader_create = zms_http_message_framer_create http_reader_opts zms_http_parser_init"

definition zms_http_request_reader_reset :: "zms_http_request_reader \<Rightarrow> zms_http_request_reader" where
  "zms_http_request_reader_reset f = (zms_http_message_framer_reset f)\<lparr>hf_user := zms_http_parser_init\<rparr>"

definition zms_http_request_reader_input :: "zms_http_request_reader \<Rightarrow> bytes
    \<Rightarrow> ztk_err \<times> zms_http_request_reader \<times> zms_http_request list" where
  "zms_http_request_reader_input = zms_http_message_framer_input http_reader_opts"

section \<open>The reader is a client of the framer\<close>

interpretation http_reader: framer_client http_reader_opts
proof
  fix s s1 :: zms_http_parser and d x h k n es
  show "0 < k \<and> k \<le> length d \<and> search_packet_tail http_reader_opts s (d @ x) = (Some k, s1)"
    if "search_packet_tail http_reader_opts s d = (Some k, s1)"
    using that search_tail_bounds[of d k] search_tail_append[of d k x]
    by (auto simp: search_packet_tail_def http_reader_opts_def)
  show "search_packet_tail http_reader_opts s1 (d @ x) = search_packet_tail http_reader_opts s (d @ x)"
    if "search_packet_tail http_reader_opts s d = (None, s1)"
    using that by (auto simp: search_packet_tail_def http_reader_opts_def)
  show "0 \<le> n" if "call_on_header http_reader_opts s h = (n, s1, es)"
    using that by (auto simp: call_on_header_def http_reader_opts_def on_packet_header_def Let_def
        split: prod.splits if_splits option.splits)
qed

text \<open>
  C25: It does not matter how the network cuts the requests of a connection: any pieces give
  the same requests in the same order, and leave the same reader, as one read of all of them,
  as long as what is buffered fits the cache.
\<close>

theorem http_requests_any_cut:
  assumes "0 \<le> hf_content_len f" "[] \<notin> set ds" "ds \<noteq> []"
    and "length (hf_remain f) + length (concat ds) \<le> hf_max_cache_size f"
  shows "framer_inputs http_reader_opts f ds = zms_http_request_reader_input f (concat ds)
    \<and> fst (framer_inputs http_reader_opts f ds) = ZTK_OK"
  unfolding zms_http_request_reader_input_def by (rule http_reader.inputs_concat[OF assms])

lemma http_requests_any_cut_witness:
  "framer_inputs http_reader_opts zms_http_request_reader_create (map (\<lambda>c. [c]) (asc ''GET / HTTP/1.1'')) =
     zms_http_request_reader_input zms_http_request_reader_create (asc ''GET / HTTP/1.1'')"
  using http_requests_any_cut[of zms_http_request_reader_create "map (\<lambda>c. [c]) (asc ''GET / HTTP/1.1'')"]
  by (simp add: zms_http_request_reader_create_def zms_http_message_framer_create_def http_reader_opts_def
      ZMS_HTTP_DEFAULT_MAX_CACHE_def)

section \<open>A request as text\<close>

definition http_header_line :: "bytes \<times> bytes \<Rightarrow> bytes" where
  "http_header_line h = fst h @ [58, 32] @ snd h"

definition http_text :: "bytes \<Rightarrow> bytes \<Rightarrow> (bytes \<times> bytes) list \<Rightarrow> bytes" where
  "http_text m url hs = (m @ [32] @ url @ [32] @ asc ''HTTP/1.1'') @ [13, 10]
     @ concat (map (\<lambda>h. http_header_line h @ [13, 10]) hs) @ [13, 10]"

definition trimmed :: "bytes \<Rightarrow> bool" where
  "trimmed s \<longleftrightarrow> s = [] \<or> (\<not> isspace (hd s) \<and> \<not> isspace (last s))"

definition header_wf :: "bytes \<times> bytes \<Rightarrow> bool" where
  "header_wf h \<longleftrightarrow> trimmed (fst h) \<and> trimmed (snd h) \<and> length (fst h) < ZMS_HTTP_KEY_MAX
     \<and> length (snd h) < ZMS_HTTP_VAL_MAX \<and> set (fst h) \<inter> {0, 10, 58} = {} \<and> set (snd h) \<inter> {0, 10} = {}"

lemma trim_trimmed: "trimmed s \<Longrightarrow> trim_inplace s = s"
proof -
  assume t: "trimmed s"
  then have "dropWhile isspace s = s" "dropWhile isspace (rev s) = rev s"
    by (auto simp: trimmed_def dropWhile_eq_self_iff hd_rev)
  then show "trim_inplace s = s" by (simp add: trim_inplace_def)
qed

lemma drop_blank: "trimmed s \<Longrightarrow> dropWhile (\<lambda>c. c = 32) s = s"
  by (cases s) (auto simp: trimmed_def isspace_def)

lemma first_line: "10 \<notin> set l \<Longrightarrow> find_char (l @ 13 # 10 # rest) 10 = Some (length l + 1)"
  using find_char_append[of 10 "l @ [13]" rest] by simp

lemma strip_line: "strip_cr (take (length l + 1) (l @ 13 # rest)) = l"
  by (simp add: strip_cr_def)

lemma drop_line: "drop (length l + 1 + 1) (l @ 13 # 10 # rest) = rest"
  by simp

lemma parse_header_line:
  assumes "header_wf h" "length (hp_headers p) < ZMS_HTTP_HDR_MAX"
  shows "parse_lines p False (http_header_line h @ 13 # 10 # rest) =
    parse_lines (p\<lparr>hp_headers := hp_headers p @ [h]\<rparr>) False rest"
proof -
  obtain k v where h: "h = (k, v)" by fastforce
  note wf = assms(1)[unfolded header_wf_def h fst_conv snd_conv]
  have "10 \<notin> set (http_header_line h)" using wf by (auto simp: http_header_line_def h)
  note l = first_line[OF this, of rest]
  note s = strip_line[of "http_header_line h" "10 # rest"]
  have f: "find_char (http_header_line h) 58 = Some (length k)"
    using wf find_char_append[of 58 k "32 # v"] by (auto simp: http_header_line_def h)
  have a: "http_add_header p k v = (ZTK_OK, p\<lparr>hp_headers := hp_headers p @ [h]\<rparr>)"
    using wf assms(2) by (auto simp: http_add_header_def h trim_trimmed cstr_no0)
  have ne: "http_header_line h \<noteq> []" by (simp add: http_header_line_def)
  have kv: "take (length k) (http_header_line h) = k"
    "dropWhile (\<lambda>c. c = 32) (drop (length k + 1) (http_header_line h)) = v"
    using wf drop_blank[of v] by (auto simp: http_header_line_def h)
  show ?thesis
    by (subst parse_lines.simps) (use l s f a ne kv in \<open>simp add: Let_def\<close>)
qed

lemma parse_header_lines:
  assumes "\<forall>h \<in> set hs. header_wf h" "length (hp_headers p) + length hs \<le> ZMS_HTTP_HDR_MAX"
  shows "parse_lines p False (concat (map (\<lambda>h. http_header_line h @ [13, 10]) hs) @ 13 # 10 # rest) =
    (ZTK_OK, p\<lparr>hp_headers := hp_headers p @ hs\<rparr>)"
  using assms
proof (induction hs arbitrary: p)
  case Nil
  have "find_char (13 # 10 # rest) 10 = Some 1" using first_line[of "[]" rest] by simp
  then show ?case by (subst parse_lines.simps) (simp add: strip_cr_def)
next
  case (Cons h hs)
  then show ?case using parse_header_line[of h p "concat (map (\<lambda>h. http_header_line h @ [13, 10]) hs) @ 13 # 10 # rest"]
    by simp
qed

text \<open>The request line.\<close>

definition request_wf :: "bytes \<Rightarrow> bytes \<Rightarrow> bool" where
  "request_wf m url \<longleftrightarrow> length m < 16 \<and> set m \<inter> {0, 10, 32} = {}
     \<and> length url < 512 \<and> set url \<inter> {0, 10, 32} = {} \<and> find_char url 63 \<noteq> Some (length url - 1)"

lemma request_line:
  assumes "request_wf m url"
  shows "\<exists>u q r. parse_request_line zms_http_parser_init (m @ [32] @ url @ [32] @ asc ''HTTP/1.1'') =
      (True, zms_http_parser_init\<lparr>hp_method := m, hp_url := u, hp_params := q, hp_protocol := asc ''HTTP/1.1'',
        hp_is_response := r\<rparr>)
    \<and> (if q \<noteq> [] then u @ [63] @ q else u) = url"
proof -
  note wf = assms[unfolded request_wf_def]
  have 1: "find_char (m @ [32] @ url @ [32] @ asc ''HTTP/1.1'') 32 = Some (length m)"
    using wf find_char_append[of 32 m "url @ [32] @ asc ''HTTP/1.1''"] by auto
  have 2: "find_char (url @ [32] @ asc ''HTTP/1.1'') 32 = Some (length url)"
    using wf find_char_append[of 32 url "asc ''HTTP/1.1''"] by auto
  have m: "cstr m = m" "cstr url = url" "cstr (asc ''HTTP/1.1'') = asc ''HTTP/1.1''"
    using wf by (auto intro!: cstr_no0)
  show ?thesis
  proof (cases "find_char url 63")
    case None
    then show ?thesis
      using 1 2 m wf by (simp add: parse_request_line_def http_consts Let_def zms_http_parser_init_def)
  next
    case (Some k)
    from find_char_Some[OF Some] have k: "k < length url" "url ! k = 63" by auto
    with Some wf have "k + 1 < length url" by (cases "k = length url - 1") auto
    moreover have "take 2047 (drop (k + 1) url) = drop (k + 1) url" using wf by (intro take_all) (simp; linarith)
    moreover have "take k url @ [63] @ drop (k + 1) url = url" using k id_take_nth_drop[of k url] by simp
    ultimately show ?thesis
      using 1 2 m wf Some
      by (simp add: parse_request_line_def http_consts Let_def zms_http_parser_init_def)
  qed
qed

lemma parse_http_text:
  assumes "request_wf m url" "\<forall>h \<in> set hs. header_wf h" "length hs \<le> ZMS_HTTP_HDR_MAX"
  shows "\<exists>p. zms_http_parser_parse_header q (http_text m url hs) = (ZTK_OK, p)
    \<and> hp_method p = m \<and> zms_http_parser_full_url p 4096 = url \<and> hp_headers p = hs \<and> hp_content p = []"
proof -
  let ?l = "m @ [32] @ url @ [32] @ asc ''HTTP/1.1''"
  obtain u qs r where rl: "parse_request_line zms_http_parser_init ?l =
      (True, zms_http_parser_init\<lparr>hp_method := m, hp_url := u, hp_params := qs, hp_protocol := asc ''HTTP/1.1'',
        hp_is_response := r\<rparr>)" and u: "(if qs \<noteq> [] then u @ [63] @ qs else u) = url"
    using request_line[OF assms(1)] by blast
  let ?p = "zms_http_parser_init\<lparr>hp_method := m, hp_url := u, hp_params := qs, hp_protocol := asc ''HTTP/1.1'',
        hp_is_response := r\<rparr>"
  let ?rest = "concat (map (\<lambda>h. http_header_line h @ [13, 10]) hs) @ 13 # 10 # []"
  have t: "http_text m url hs = ?l @ 13 # 10 # ?rest" by (simp add: http_text_def)
  have "10 \<notin> set ?l" using assms(1) by (auto simp: request_wf_def)
  note f = first_line[OF this, of ?rest]
  have s: "strip_cr (take (length ?l + 1) (?l @ 13 # 10 # ?rest)) = ?l" by (rule strip_line)
  have "parse_lines zms_http_parser_init True (?l @ 13 # 10 # ?rest) = parse_lines ?p False ?rest"
    by (subst parse_lines.simps) (simp only: f s rl option.case Let_def prod.case if_True not_True_eq_False if_False
        append_is_Nil_conv list.distinct simp_thms drop_line)
  also have "\<dots> = (ZTK_OK, ?p\<lparr>hp_headers := hs\<rparr>)"
    using parse_header_lines[of hs ?p "[]"] assms by (simp add: zms_http_parser_init_def)
  finally have "zms_http_parser_parse_header q (http_text m url hs) = (ZTK_OK, ?p\<lparr>hp_headers := hs\<rparr>)"
    by (simp add: zms_http_parser_parse_header_def t)
  moreover have "length url < 512" using assms(1) by (simp add: request_wf_def)
  ultimately show ?thesis using u by (auto simp: zms_http_parser_full_url_def fit_def zms_http_parser_init_def split: if_splits)
qed

section \<open>The end of a header\<close>

lemma search_header_lines:
  assumes "10 \<notin> set l" "\<forall>h \<in> set hs. header_wf h"
  shows "zms_http_message_search_tail (l @ 13 # 10 # concat (map (\<lambda>h. http_header_line h @ [13, 10]) hs) @ 13 # 10 # body)
    = Some (length l + 4 + length (concat (map (\<lambda>h. http_header_line h @ [13, 10]) hs)))"
proof -
  have "\<forall>x \<in> set (map http_header_line hs). x \<noteq> [] \<and> 10 \<notin> set x"
    using assms(2) by (auto simp: header_wf_def http_header_line_def)
  from search_lines[OF assms(1) this, of body] show ?thesis by (simp add: crlf_lines_def o_def)
qed

lemma search_http_text:
  assumes "request_wf m url" "\<forall>h \<in> set hs. header_wf h"
  shows "zms_http_message_search_tail (http_text m url hs @ body) = Some (length (http_text m url hs))"
proof -
  have "10 \<notin> set (m @ [32] @ url @ [32] @ asc ''HTTP/1.1'')" using assms(1) by (auto simp: request_wf_def)
  from search_header_lines[OF this assms(2), of body] show ?thesis by (simp add: http_text_def)
qed

section \<open>Reading requests\<close>

type_synonym http_message = "bytes \<times> bytes \<times> (bytes \<times> bytes) list \<times> bytes"

definition header_of :: "(bytes \<times> bytes) list \<Rightarrow> bytes \<Rightarrow> bytes" where
  "header_of hs name = (case find (\<lambda>(k, v). strcaseeq k name) hs of None \<Rightarrow> [] | Some (k, v) \<Rightarrow> v)"

definition http_wf :: "http_message \<Rightarrow> bool" where
  "http_wf r = (case r of (m, url, hs, body) \<Rightarrow>
     request_wf m url \<and> (\<forall>h \<in> set hs. header_wf h) \<and> length hs \<le> ZMS_HTTP_HDR_MAX
     \<and> header_of hs (asc ''Content-Length'') = (if body = [] then [] else dec (length body))
     \<and> length body \<le> ZMS_HTTP_MAX_BODY)"

definition http_bytes :: "http_message \<Rightarrow> bytes" where
  "http_bytes r = (case r of (m, url, hs, body) \<Rightarrow> http_text m url hs @ body)"

definition http_request_of :: "http_message \<Rightarrow> zms_http_request" where
  "http_request_of r = (case r of (m, url, hs, body) \<Rightarrow>
     \<lparr>rq_method = m, rq_path = url, rq_host = fit 128 (header_of hs (asc ''Host'')),
      rq_range = fit 128 (header_of hs (asc ''Range'')), rq_body = body,
      rq_ws_upgrade = (strcaseeq (header_of hs (asc ''Upgrade'')) (asc ''websocket'')),
      rq_ws_key = fit 64 (header_of hs (asc ''Sec-WebSocket-Key''))\<rparr>)"

lemma content_length_digits:
  "(\<forall>c \<in> set s. isdigit c) \<Longrightarrow> foldl (\<lambda>a c. a * 10 + digit_val c) n s \<le> ZMS_HTTP_MAX_BODY \<Longrightarrow>
     content_length_loop n s = Some (foldl (\<lambda>a c. a * 10 + digit_val c) n s)"
proof (induction s arbitrary: n)
  case (Cons c s)
  have ge: "m \<le> foldl (\<lambda>a c. a * 10 + digit_val c) m s" for m :: nat
  proof (induction s arbitrary: m)
    case (Cons x xs)
    have "m \<le> m * 10 + digit_val x" by simp
    also have "\<dots> \<le> foldl (\<lambda>a c. a * 10 + digit_val c) (m * 10 + digit_val x) xs" by (rule Cons)
    finally show ?case by simp
  qed simp
  have "n * 10 + digit_val c \<le> ZMS_HTTP_MAX_BODY"
    using ge[of "n * 10 + digit_val c"] Cons.prems(2) by simp
  with Cons show ?case by (simp add: Let_def)
qed simp

lemma content_length_dec: "n \<le> ZMS_HTTP_MAX_BODY \<Longrightarrow> content_length_loop 0 (dec n) = Some n"
  using content_length_digits[of "dec n" 0] dec_val_dec[of n] dec_digits by (simp add: dec_val_def)

lemma emit_parsed:
  assumes "hp_method p = m" "zms_http_parser_full_url p 4096 = url" "hp_headers p = hs" "hp_content p = body"
    and "length m < 16" "length url < 512"
  shows "emit_request p = http_request_of (m, url, hs, body)"
proof -
  have h: "zms_http_parser_header p n = header_of hs n" for n
    by (simp add: zms_http_parser_header_def header_of_def assms(3))
  have c: "header_of hs (asc ''host'') = header_of hs (asc ''Host'')"
    "header_of hs (asc ''range'') = header_of hs (asc ''Range'')"
    by (simp_all add: header_of_def strcaseeq_def tolower_def)
  have w: "(x \<noteq> [] \<and> strcaseeq x (asc ''websocket'')) = strcaseeq x (asc ''websocket'')" for x
    by (auto simp: strcaseeq_def)
  with assms show ?thesis
    by (simp add: emit_request_def http_request_of_def h c[simplified] w[simplified] Let_def fit_def ZMS_HTTP_URL_MAX_def)
qed

text \<open>One request is taken off the front of the data, and the reader is as before.\<close>

lemma reader_header:
  assumes "http_wf (m, url, hs, body)"
  shows "\<exists>p. framer_step http_reader_opts (q, 0) (http_text m url hs @ body @ rest) =
      Took (if body = [] then zms_http_parser_init else p, int (length body)) (length (http_text m url hs))
        (if body = [] then [http_request_of (m, url, hs, body)] else [])
    \<and> emit_request (zms_http_parser_set_content p body) = http_request_of (m, url, hs, body)"
proof -
  note wf = assms[unfolded http_wf_def prod.case]
  obtain p where p: "zms_http_parser_parse_header zms_http_parser_init (http_text m url hs) = (ZTK_OK, p)"
    "hp_method p = m" "zms_http_parser_full_url p 4096 = url" "hp_headers p = hs" "hp_content p = []"
    using parse_http_text[of m url hs zms_http_parser_init] wf by blast
  let ?p = "zms_http_parser_set_content p body"
  have "zms_http_parser_full_url ?p 4096 = zms_http_parser_full_url p 4096"
    by (simp add: zms_http_parser_set_content_def zms_http_parser_full_url_def)
  then have "hp_method ?p = m" "zms_http_parser_full_url ?p 4096 = url" "hp_headers ?p = hs" "hp_content ?p = body"
    using p by (simp_all add: zms_http_parser_set_content_def)
  note e = emit_parsed[OF this]
  have l: "length m < 16" "length url < 512" using wf by (auto simp: request_wf_def)
  have pe: "body = [] \<Longrightarrow> emit_request p = http_request_of (m, url, hs, [])"
    using p(5) e[OF l] by (cases p) (simp add: zms_http_parser_set_content_def)
  have cl: "zms_http_parser_header p (asc ''Content-Length'') = (if body = [] then [] else dec (length body))"
    using wf p(4) by (simp add: zms_http_parser_header_def header_of_def)
  have h: "on_packet_header q (http_text m url hs) = (if body = [] then (0, zms_http_parser_init, [http_request_of (m, url, hs, body)])
      else (int (length body), p, []))"
    using content_length_dec[of "length body"] wf e[OF l] pe
    by (simp add: on_packet_header_def p(1) cl Let_def del: asc_simps)
  have ne: "http_text m url hs \<noteq> []" by (simp add: http_text_def)
  have s: "search_packet_tail http_reader_opts q (http_text m url hs @ body @ rest) = (Some (length (http_text m url hs)), q)"
    using wf search_http_text[of m url hs "body @ rest"]
    by (simp add: search_packet_tail_def http_reader_opts_def)
  have "framer_step http_reader_opts (q, 0) (http_text m url hs @ body @ rest) =
      Took (if body = [] then zms_http_parser_init else p, int (length body)) (length (http_text m url hs))
        (if body = [] then [http_request_of (m, url, hs, body)] else [])"
    using ne h by (simp add: framer_step_def s call_on_header_def) (simp add: http_reader_opts_def)
  with e[OF l] show ?thesis by blast
qed

lemma reader_takes:
  assumes "http_wf r"
  shows "drive (framer_step http_reader_opts) (zms_http_parser_init, 0) (http_bytes r @ rest) =
    (http_request_of r # fst (drive (framer_step http_reader_opts) (zms_http_parser_init, 0) rest),
     snd (drive (framer_step http_reader_opts) (zms_http_parser_init, 0) rest))"
proof -
  obtain m url hs body where r: "r = (m, url, hs, body)" using prod_cases4 by blast
  obtain p where p: "framer_step http_reader_opts (zms_http_parser_init, 0) (http_text m url hs @ body @ rest) =
      Took (if body = [] then zms_http_parser_init else p, int (length body)) (length (http_text m url hs))
        (if body = [] then [http_request_of r] else [])"
    "emit_request (zms_http_parser_set_content p body) = http_request_of r"
    using reader_header[of m url hs body zms_http_parser_init rest] assms r by blast
  note d1 = http_reader.steps.drive_took[OF _ p(1)]
  show ?thesis
  proof (cases "body = []")
    case True
    with d1 show ?thesis by (simp add: r http_bytes_def)
  next
    case False
    have "framer_step http_reader_opts (p, int (length body)) (body @ rest) =
        Took (zms_http_parser_init, 0) (length body) [http_request_of r]"
      using False p(2) by (simp add: framer_step_def call_on_content_def http_reader_opts_def on_packet_content_def)
    note d2 = http_reader.steps.drive_took[OF _ this]
    with d1 False show ?thesis by (simp add: r http_bytes_def)
  qed
qed

text \<open>
  C26: Requests sent one after the other, with or without a body, come out of the reader as
  they were sent: method, path with its query, host, range, body and the fields of a
  WebSocket upgrade, in order, and the reader is back in its first state.
\<close>

theorem http_requests_read:
  assumes "\<forall>r \<in> set rs. http_wf r" "rs \<noteq> []" "length (concat (map http_bytes rs)) \<le> ZMS_HTTP_DEFAULT_MAX_CACHE"
  shows "zms_http_request_reader_input zms_http_request_reader_create (concat (map http_bytes rs)) =
    (ZTK_OK, zms_http_request_reader_create, map http_request_of rs)"
proof -
  let ?f = zms_http_request_reader_create
  have f: "hf_user ?f = zms_http_parser_init" "hf_content_len ?f = 0" "hf_remain ?f = []"
    "hf_max_cache_size ?f = ZMS_HTTP_DEFAULT_MAX_CACHE" "hf_remain_data_size ?f = 0"
    by (simp_all add: zms_http_request_reader_create_def zms_http_message_framer_create_def http_reader_opts_def)
  have dr: "drive (framer_step http_reader_opts) (zms_http_parser_init, 0) (concat (map http_bytes rs)) =
      (map http_request_of rs, Inr ((zms_http_parser_init, 0), []))"
    using assms(1)
  proof (induction rs)
    case Nil
    show ?case by (simp add: http_reader.steps.drive_need framer_step_nil)
  next
    case (Cons r rs)
    then show ?case using reader_takes[of r "concat (map http_bytes rs)"] by simp
  qed
  have "concat (map http_bytes rs) \<noteq> []"
    using assms(2) by (cases rs) (auto simp: http_bytes_def http_text_def split: prod.splits)
  from http_reader.input_drive[of ?f, OF _ this] dr assms(3)
  have "zms_http_message_framer_input http_reader_opts ?f (concat (map http_bytes rs)) =
      (ZTK_OK, ?f\<lparr>hf_user := zms_http_parser_init, hf_content_len := 0, hf_remain_data_size := 0, hf_remain := []\<rparr>,
       map http_request_of rs)"
    by (simp add: f)
  moreover have "?f\<lparr>hf_user := zms_http_parser_init, hf_content_len := 0, hf_remain_data_size := 0, hf_remain := []\<rparr> = ?f"
    using f by simp
  ultimately show ?thesis by (simp add: zms_http_request_reader_input_def)
qed

text \<open>Between two requests the events do not depend on what the parser holds.\<close>

lemma reader_state_free: "fst (drive (framer_step http_reader_opts) (p, 0) d) =
    fst (drive (framer_step http_reader_opts) (q, 0) d)"
proof -
  have h: "on_packet_header p x = on_packet_header q x" for x by (simp add: on_packet_header_def)
  show ?thesis
    by (subst (1 2) drive.simps)
      (simp add: framer_step_def search_packet_tail_def call_on_header_def http_reader_opts_def h
        split: option.splits prod.splits)
qed

text \<open>
  A request whose length field is not a number, or is above 64 KiB, is dropped, and what
  was its body is read as the next request: the reader goes on with the bytes behind the
  header as if the header had not been there.
\<close>

theorem http_bad_length_body_read:
  assumes "zms_http_message_search_tail h = Some (length h)"
    and "zms_http_parser_parse_header zms_http_parser_init h = (ZTK_OK, p)"
    and "zms_http_parser_header p (asc ''Content-Length'') \<noteq> []"
    and "content_length_loop 0 (zms_http_parser_header p (asc ''Content-Length'')) = None"
    and "length h + length rest \<le> ZMS_HTTP_DEFAULT_MAX_CACHE" "rest \<noteq> []"
  shows "snd (snd (zms_http_request_reader_input zms_http_request_reader_create (h @ rest))) =
    snd (snd (zms_http_request_reader_input zms_http_request_reader_create rest))"
proof -
  let ?f = zms_http_request_reader_create
  have f: "hf_user ?f = zms_http_parser_init" "hf_content_len ?f = 0" "hf_remain ?f = []"
    "hf_max_cache_size ?f = ZMS_HTTP_DEFAULT_MAX_CACHE"
    by (simp_all add: zms_http_request_reader_create_def zms_http_message_framer_create_def http_reader_opts_def)
  have hne: "h \<noteq> []" using assms(1) by auto
  have "on_packet_header zms_http_parser_init h = (0, p, [])"
    using assms(2-4) by (simp add: on_packet_header_def Let_def)
  then have "framer_step http_reader_opts (zms_http_parser_init, 0) (h @ rest) = Took (p, 0) (length h) []"
    using search_tail_append[OF assms(1), of rest] hne
    by (simp add: framer_step_def search_packet_tail_def call_on_header_def http_reader_opts_def)
  from http_reader.steps.drive_took[OF _ this]
  have "fst (drive (framer_step http_reader_opts) (zms_http_parser_init, 0) (h @ rest)) =
      fst (drive (framer_step http_reader_opts) (p, 0) rest)" by simp
  also have "\<dots> = fst (drive (framer_step http_reader_opts) (zms_http_parser_init, 0) rest)"
    by (rule reader_state_free)
  finally show ?thesis
    using http_reader.input_drive[of ?f "h @ rest"] http_reader.input_drive[of ?f rest] assms(5,6)
    by (auto simp: f zms_http_request_reader_input_def)
qed

definition ex_request :: bytes where
  "ex_request = http_text (asc ''POST'') (asc ''/live/a?k=1'') [(asc ''Content-Length'', asc ''x'')]"

definition ex_requests :: "http_message list" where
  "ex_requests = [(asc ''GET'', asc ''/a?b'', [], []),
     (asc ''PUT'', asc ''/'', [(asc ''Content-Length'', asc ''1'')], [7])]"

lemma http_requests_read_witness:
  "snd (snd (zms_http_request_reader_input zms_http_request_reader_create (concat (map http_bytes ex_requests))))
   = map http_request_of ex_requests"
proof -
  have 1: "\<forall>r \<in> set ex_requests. http_wf r"
    by (simp add: ex_requests_def http_wf_def request_wf_def header_wf_def trimmed_def isspace_def find_char_def
        header_of_def strcaseeq_def tolower_def http_consts dec.simps dec_digit_def)
  have 2: "ex_requests \<noteq> []" by (simp add: ex_requests_def)
  have 3: "length (concat (map http_bytes ex_requests)) \<le> ZMS_HTTP_DEFAULT_MAX_CACHE"
    by (simp add: ex_requests_def http_bytes_def http_text_def http_header_line_def ZMS_HTTP_DEFAULT_MAX_CACHE_def)
  show ?thesis by (simp only: http_requests_read[OF 1 2 3] snd_conv)
qed

lemma http_bad_length_body_read_witness:
  "snd (snd (zms_http_request_reader_input zms_http_request_reader_create (ex_request @ [65]))) =
   snd (snd (zms_http_request_reader_input zms_http_request_reader_create [65]))"
proof (rule http_bad_length_body_read)
  show "zms_http_message_search_tail ex_request = Some (length ex_request)" by code_simp
  show "zms_http_parser_parse_header zms_http_parser_init ex_request =
      (ZTK_OK, snd (zms_http_parser_parse_header zms_http_parser_init ex_request))" by code_simp
  show "zms_http_parser_header (snd (zms_http_parser_parse_header zms_http_parser_init ex_request))
      (asc ''Content-Length'') \<noteq> []" by code_simp
  show "content_length_loop 0 (zms_http_parser_header (snd (zms_http_parser_parse_header zms_http_parser_init ex_request))
      (asc ''Content-Length'')) = None" by code_simp
qed (simp_all add: ex_request_def http_text_def http_header_line_def ZMS_HTTP_DEFAULT_MAX_CACHE_def)

end
