(* ===== verification/Flv_Tag.thy ===== *)
theory Flv_Tag
  imports Resume
begin

text \<open>
  FLV on the wire: the writers of \<open>media/container/flv/flv_wire.c\<close> and the framer of
  \<open>flv_tag_framer.c\<close>, which cuts a byte stream into tags. The header routines of libflv, a
  submodule, are a parameter. The framer collects each piece of the stream in a buffer of its
  own (\<open>scratch\<close> or \<open>tag_body\<close>, both indexed by \<open>scratch_len\<close>); the model keeps the bytes
  collected so far. Growing the body buffer is taken to succeed.
\<close>

record flv_tag_header =
  th_type :: u8
  th_size :: nat
  th_timestamp :: u32

text \<open>The routines of libflv; a writer gives no bytes when it refuses.\<close>

record libflv =
  fl_header_write :: "bool \<Rightarrow> bool \<Rightarrow> bytes"
  fl_header_read :: "bytes \<Rightarrow> bool"
  fl_tag_header_write :: "flv_tag_header \<Rightarrow> bytes option"
  fl_tag_header_read :: "bytes \<Rightarrow> flv_tag_header option"
  fl_tag_size_write :: "u32 \<Rightarrow> bytes"

definition FLV_TYPE_AUDIO :: u8 where "FLV_TYPE_AUDIO = 8"
definition FLV_TYPE_VIDEO :: u8 where "FLV_TYPE_VIDEO = 9"
definition FLV_TYPE_SCRIPT :: u8 where "FLV_TYPE_SCRIPT = 18"
definition FLV_TAG_BODY_MAX :: nat where "FLV_TAG_BODY_MAX = 4 * 1024 * 1024"

lemmas flv_consts = FLV_TYPE_AUDIO_def FLV_TYPE_VIDEO_def FLV_TYPE_SCRIPT_def FLV_TAG_BODY_MAX_def

section \<open>Writing\<close>

definition zms_flv_write_header :: "libflv \<Rightarrow> nat \<Rightarrow> bool \<Rightarrow> bool \<Rightarrow> ztk_err \<times> bytes" where
  "zms_flv_write_header L cap has_audio has_video =
     (if cap < 13 then (ZTK_ERR_INVALID, [])
      else let h = fl_header_write L has_audio has_video in
        if length h + 4 > cap then (ZTK_ERR_BUFFER_TOO_SMALL, [])
        else (ZTK_OK, h @ fl_tag_size_write L 0))"

definition flv_type_from_rtmp :: "u8 \<Rightarrow> u8" where
  "flv_type_from_rtmp type_id =
     (if type_id = 9 then FLV_TYPE_VIDEO else if type_id = 18 then FLV_TYPE_SCRIPT else FLV_TYPE_AUDIO)"

definition zms_flv_write_tag :: "libflv \<Rightarrow> nat \<Rightarrow> u8 \<Rightarrow> u32 \<Rightarrow> bytes \<Rightarrow> ztk_err \<times> bytes" where
  "zms_flv_write_tag L cap type_id tag_dts_ms data =
     (if data = [] then (ZTK_ERR_INVALID, [])
      else case fl_tag_header_write L \<lparr>th_type = flv_type_from_rtmp type_id,
               th_size = unat (of_nat (length data) :: u32), th_timestamp = tag_dts_ms\<rparr> of
        None \<Rightarrow> (ZTK_ERR_BUFFER_TOO_SMALL, [])
      | Some hdr \<Rightarrow>
        let tag_total = of_nat (length hdr + length data) :: u32 in
        if unat tag_total + 4 > cap then (ZTK_ERR_BUFFER_TOO_SMALL, [])
        else (ZTK_OK, hdr @ data @ fl_tag_size_write L tag_total))"

section \<open>The framer\<close>

datatype flv_parse_st =
    FLV_ST_HDR
  | FLV_ST_PREV0
  | FLV_ST_TAG_HDR
  | FLV_ST_TAG_BODY
  | FLV_ST_TAG_PREV

record zms_flv_tag_framer =
  ff_st :: flv_parse_st
  ff_have :: bytes
  ff_cur_tag :: flv_tag_header
  ff_tag_body_cap :: nat

type_synonym flv_event = "u8 \<times> bytes \<times> u32"

definition no_tag :: flv_tag_header where
  "no_tag = \<lparr>th_type = 0, th_size = 0, th_timestamp = 0\<rparr>"

definition zms_flv_tag_framer_create :: zms_flv_tag_framer where
  "zms_flv_tag_framer_create =
     \<lparr>ff_st = FLV_ST_HDR, ff_have = [], ff_cur_tag = no_tag, ff_tag_body_cap = 0\<rparr>"

definition zms_flv_tag_framer_reset :: "zms_flv_tag_framer \<Rightarrow> zms_flv_tag_framer" where
  "zms_flv_tag_framer_reset s = s\<lparr>ff_st := FLV_ST_HDR, ff_have := [], ff_cur_tag := no_tag\<rparr>"

text \<open>The capacity after the doubling loop; the caller has cut \<open>need\<close> to 4 MiB before.\<close>

function grow_cap :: "nat \<Rightarrow> nat \<Rightarrow> nat" where
  "grow_cap cap need = (if cap = 0 \<or> need \<le> cap then cap else grow_cap (cap * 2) need)"
  by pat_completeness auto
termination by (relation "measure (\<lambda>(cap, need). need - cap)") auto

declare grow_cap.simps [simp del]

definition ensure_tag_buf :: "zms_flv_tag_framer \<Rightarrow> nat \<Rightarrow> ztk_err \<times> zms_flv_tag_framer" where
  "ensure_tag_buf s need =
     (if need > FLV_TAG_BODY_MAX then (ZTK_ERR_BUFFER_TOO_SMALL, s)
      else if ff_tag_body_cap s \<ge> need then (ZTK_OK, s)
      else (ZTK_OK, s\<lparr>ff_tag_body_cap :=
        grow_cap (if ff_tag_body_cap s \<noteq> 0 then ff_tag_body_cap s else 4096) need\<rparr>))"

text \<open>The bytes the current piece has in all.\<close>

definition flv_need :: "zms_flv_tag_framer \<Rightarrow> nat" where
  "flv_need s = (case ff_st s of
      FLV_ST_HDR \<Rightarrow> 9 | FLV_ST_PREV0 \<Rightarrow> 4 | FLV_ST_TAG_HDR \<Rightarrow> 11
    | FLV_ST_TAG_BODY \<Rightarrow> th_size (ff_cur_tag s) | FLV_ST_TAG_PREV \<Rightarrow> 4)"

text \<open>What happens when the piece is complete.\<close>

definition flv_complete :: "libflv \<Rightarrow> zms_flv_tag_framer \<Rightarrow> ztk_err \<times> zms_flv_tag_framer \<times> flv_event list" where
  "flv_complete L s = (case ff_st s of
      FLV_ST_HDR \<Rightarrow>
        (if \<not> fl_header_read L (ff_have s) then (ZTK_ERR_INVALID, s, [])
         else (ZTK_OK, s\<lparr>ff_have := [], ff_st := FLV_ST_PREV0\<rparr>, []))
    | FLV_ST_PREV0 \<Rightarrow> (ZTK_OK, s\<lparr>ff_have := [], ff_st := FLV_ST_TAG_HDR\<rparr>, [])
    | FLV_ST_TAG_HDR \<Rightarrow>
        (case fl_tag_header_read L (ff_have s) of
           None \<Rightarrow> (ZTK_ERR_INVALID, s, [])
         | Some tag \<Rightarrow>
             let s1 = s\<lparr>ff_cur_tag := tag, ff_have := []\<rparr> in
             if th_size tag = 0 then (ZTK_OK, s1\<lparr>ff_st := FLV_ST_TAG_PREV\<rparr>, [])
             else (case ensure_tag_buf s1 (th_size tag) of
                 (err, s2) \<Rightarrow> if err \<noteq> ZTK_OK then (ZTK_ERR_NOMEM, s2, [])
                              else (ZTK_OK, s2\<lparr>ff_st := FLV_ST_TAG_BODY\<rparr>, [])))
    | FLV_ST_TAG_BODY \<Rightarrow>
        (ZTK_OK, s\<lparr>ff_have := [], ff_st := FLV_ST_TAG_PREV\<rparr>,
         [(th_type (ff_cur_tag s), ff_have s, th_timestamp (ff_cur_tag s))])
    | FLV_ST_TAG_PREV \<Rightarrow> (ZTK_OK, s\<lparr>ff_have := [], ff_st := FLV_ST_TAG_HDR\<rparr>, []))"

lemma flv_complete_ok: "flv_complete L s = (ZTK_OK, s1, es) \<Longrightarrow> ff_have s1 = [] \<and> 0 < flv_need s1"
  by (auto simp: flv_complete_def flv_need_def ensure_tag_buf_def Let_def
      split: flv_parse_st.splits option.splits if_splits prod.splits)

text \<open>The loop of \<open>zms_flv_tag_framer_feed\<close>.\<close>

function flv_feed_loop :: "libflv \<Rightarrow> zms_flv_tag_framer \<Rightarrow> bytes
    \<Rightarrow> ztk_err \<times> zms_flv_tag_framer \<times> flv_event list" where
  "flv_feed_loop L s d =
     (if d = [] then (ZTK_OK, s, [])
      else let need = flv_need s - length (ff_have s);
               copy = (if need < length d then need else length d);
               s1 = s\<lparr>ff_have := ff_have s @ take copy d\<rparr>
           in if length (ff_have s1) < flv_need s then (ZTK_OK, s1, [])
              else (case flv_complete L s1 of
                  (err, s2, es) \<Rightarrow>
                    if err \<noteq> ZTK_OK then (err, s2, es)
                    else (case flv_feed_loop L s2 (drop copy d) of
                        (err2, s3, es2) \<Rightarrow> (err2, s3, es @ es2))))"
  by pat_completeness auto
termination
proof (relation "measure (\<lambda>(L, s, d). 2 * length d + (if flv_need s \<le> length (ff_have s) then 1 else 0))",
    goal_cases)
  case (2 L s d need copy s1 err r1 s2 es)
  then have "ff_have s2 = [] \<and> 0 < flv_need s2" using flv_complete_ok[of L s1 s2 es] by auto
  with 2 show ?case by (auto split: if_splits)
qed simp

declare flv_feed_loop.simps [simp del]

definition zms_flv_tag_framer_feed :: "libflv \<Rightarrow> zms_flv_tag_framer \<Rightarrow> bytes
    \<Rightarrow> ztk_err \<times> zms_flv_tag_framer \<times> flv_event list" where
  "zms_flv_tag_framer_feed L s d =
     (if d = [] then (ZTK_ERR_INVALID, s, []) else flv_feed_loop L s d)"

section \<open>The framer refines a parser of whole pieces\<close>

definition flv_step :: "libflv \<Rightarrow> zms_flv_tag_framer \<Rightarrow> bytes
    \<Rightarrow> (zms_flv_tag_framer, flv_event, ztk_err) outcome" where
  "flv_step L s d =
     (if length d < flv_need s then Need s
      else case flv_complete L (s\<lparr>ff_have := take (flv_need s) d\<rparr>) of
        (err, s2, es) \<Rightarrow> if err \<noteq> ZTK_OK then Fail err s2 else Took s2 (flv_need s) es)"

definition flv_ok :: "zms_flv_tag_framer \<Rightarrow> bool" where
  "flv_ok s \<longleftrightarrow> 0 < flv_need s"

interpretation flv: resumable "flv_step L" flv_ok for L
proof
  fix s s1 d n es x and err :: ztk_err
  assume "flv_ok s"
  show "0 < n \<and> n \<le> length d \<and> flv_ok s1" if "flv_step L s d = Took s1 n es"
    using that \<open>flv_ok s\<close> flv_complete_ok
    by (auto simp: flv_step_def flv_ok_def split: if_splits prod.splits)
  show "flv_step L s (d @ x) = Took s1 n es" if "flv_step L s d = Took s1 n es"
    using that by (auto simp: flv_step_def split: if_splits prod.splits)
  show "flv_step L s (d @ x) = Fail err s1" if "flv_step L s d = Fail err s1"
    using that by (auto simp: flv_step_def split: if_splits prod.splits)
  show "flv_ok s1 \<and> flv_step L s1 (d @ x) = flv_step L s (d @ x)" if "flv_step L s d = Need s1"
    using that \<open>flv_ok s\<close> by (auto simp: flv_step_def split: if_splits prod.splits)
qed

text \<open>The framer proper: it stands in the middle of a piece and has the bytes before it.\<close>

definition framer_inv :: "zms_flv_tag_framer \<Rightarrow> bool" where
  "framer_inv s \<longleftrightarrow> length (ff_have s) < flv_need s"

definition framer_at :: "zms_flv_tag_framer \<Rightarrow> bytes \<Rightarrow> zms_flv_tag_framer" where
  "framer_at t r = t\<lparr>ff_have := r\<rparr>"

lemma flv_need_have [simp]: "flv_need (s\<lparr>ff_have := x\<rparr>) = flv_need s"
  by (cases "ff_st s") (simp_all add: flv_need_def)

lemma flv_step_have [simp]: "flv_step L (s\<lparr>ff_have := []\<rparr>) d =
    (if length d < flv_need s then Need (s\<lparr>ff_have := []\<rparr>) else flv_step L s d)"
  by (simp add: flv_step_def split: prod.split)

lemma flv_loop_drive:
  assumes "framer_inv s"
  shows "case flv_feed_loop L s d of (err, s1, es) \<Rightarrow>
    if err = ZTK_OK
    then \<exists>t r. drive (flv_step L) (framer_at s []) (ff_have s @ d) = (es, Inr (t, r))
      \<and> ff_have t = [] \<and> s1 = framer_at t r \<and> framer_inv s1
    else drive (flv_step L) (framer_at s []) (ff_have s @ d) = (es, Inl (err, s1))"
  using assms
proof (induction "length d" arbitrary: s d rule: less_induct)
  case less
  let ?n = "flv_need s" and ?h = "ff_have s" and ?D = "drive (flv_step L)"
  have ok: "flv_ok (framer_at s [])" using less.prems by (auto simp: framer_inv_def flv_ok_def framer_at_def)
  show ?case
  proof (cases "length ?h + length d < ?n")
    case True
    then have l: "flv_feed_loop L s d = (ZTK_OK, framer_at s (?h @ d), [])"
      by (subst flv_feed_loop.simps) (auto simp: Let_def framer_at_def)
    have "?D (framer_at s []) (?h @ d) = ([], Inr (framer_at s [], ?h @ d))"
      using True by (intro flv.drive_need) (simp add: framer_at_def)
    with l True show ?thesis by (auto simp: framer_at_def framer_inv_def)
  next
    case False
    let ?k = "?n - length ?h"
    have d: "d \<noteq> []" "?k \<le> length d" "0 < ?k" using False less.prems by (auto simp: framer_inv_def)
    have c: "(if ?k < length d then ?k else length d) = ?k" using d by auto
    let ?s1 = "s\<lparr>ff_have := ?h @ take ?k d\<rparr>"
    obtain err s2 es where fc: "flv_complete L ?s1 = (err, s2, es)" using prod_cases3 by blast
    have t: "take ?n (?h @ d) = ?h @ take ?k d" "drop ?n (?h @ d) = drop ?k d"
      using less.prems by (auto simp: framer_inv_def)
    have st: "flv_step L (framer_at s []) (?h @ d) = (if err \<noteq> ZTK_OK then Fail err s2 else Took s2 ?n es)"
      using False fc t(1) by (simp add: framer_at_def) (simp add: flv_step_def)
    have lp: "flv_feed_loop L s d = (if err \<noteq> ZTK_OK then (err, s2, es)
        else (case flv_feed_loop L s2 (drop ?k d) of (err2, s3, es2) \<Rightarrow> (err2, s3, es @ es2)))"
      using d fc by (subst flv_feed_loop.simps) (simp add: Let_def c)
    show ?thesis
    proof (cases "err = ZTK_OK")
      case e: False
      have "es = []" using fc e by (auto simp: flv_complete_def Let_def split: flv_parse_st.splits option.splits if_splits prod.splits)
      with e st lp show ?thesis by (simp add: flv.drive_fail)
    next
      case True
      from flv_complete_ok[OF fc[unfolded True]] have s2: "ff_have s2 = []" "framer_inv s2" "framer_at s2 [] = s2"
        by (auto simp: framer_inv_def framer_at_def)
      have "length (drop ?k d) < length d" using d by simp
      note IH = less.hyps[OF this s2(2)]
      have dr: "?D (framer_at s []) (?h @ d) = (es @ fst (?D s2 (drop ?k d)), snd (?D s2 (drop ?k d)))"
        using flv.drive_took[OF ok, of L "?h @ d" s2 ?n es] st True t(2) by simp
      show ?thesis
      proof (cases "flv_feed_loop L s2 (drop ?k d)")
        case (fields err2 s3 es2)
        with IH dr lp True s2 show ?thesis by (auto split: if_splits)
      qed
    qed
  qed
qed

section \<open>Any cut of the stream\<close>

fun flv_feeds :: "libflv \<Rightarrow> zms_flv_tag_framer \<Rightarrow> bytes list \<Rightarrow> ztk_err \<times> zms_flv_tag_framer \<times> flv_event list" where
  "flv_feeds L s [] = (ZTK_OK, s, [])"
| "flv_feeds L s (d # ds) =
     (case zms_flv_tag_framer_feed L s d of
        (err, s1, es) \<Rightarrow>
          if err \<noteq> ZTK_OK then (err, s1, es)
          else (case flv_feeds L s1 ds of (err2, s2, es2) \<Rightarrow> (err2, s2, es @ es2)))"

lemma flv_feed_append:
  assumes "framer_inv s"
  shows "flv_feed_loop L s (a @ b) =
    (case flv_feed_loop L s a of (err, s1, es) \<Rightarrow>
       if err \<noteq> ZTK_OK then (err, s1, es)
       else (case flv_feed_loop L s1 b of (err2, s2, es2) \<Rightarrow> (err2, s2, es @ es2)))"
proof -
  let ?D = "drive (flv_step L)"
  have ok: "flv_ok (framer_at s [])" using assms by (auto simp: framer_inv_def flv_ok_def framer_at_def)
  obtain err s1 es where A: "flv_feed_loop L s a = (err, s1, es)" using prod_cases3 by blast
  obtain err3 s3 es3 where AB: "flv_feed_loop L s (a @ b) = (err3, s3, es3)" using prod_cases3 by blast
  note a = flv_loop_drive[OF assms, of L a, unfolded A prod.case]
  note ab = flv_loop_drive[OF assms, of L "a @ b", unfolded AB prod.case]
  note app = flv.drive_append[OF ok, of L "ff_have s @ a" b]
  show ?thesis
  proof (cases "err = ZTK_OK")
    case False
    with a app ab A AB show ?thesis by (auto split: if_splits)
  next
    case True
    with a obtain t r where t: "?D (framer_at s []) (ff_have s @ a) = (es, Inr (t, r))" "ff_have t = []"
      "s1 = framer_at t r" "framer_inv s1" by auto
    obtain err2 s2 es2 where B: "flv_feed_loop L s1 b = (err2, s2, es2)" using prod_cases3 by blast
    have t1: "framer_at s1 [] = t" "ff_have s1 = r" using t(2,3) by (simp_all add: framer_at_def)
    note b = flv_loop_drive[OF t(4), of L b, unfolded B prod.case t1]
    from t(1) app have "?D (framer_at s []) (ff_have s @ a @ b) = (case ?D t (r @ b) of (es', res) \<Rightarrow> (es @ es', res))"
      by simp
    with b ab A AB B True show ?thesis by (auto split: if_splits)
  qed
qed

lemma flv_feed_inv: "framer_inv s \<Longrightarrow> flv_feed_loop L s d = (ZTK_OK, s1, es) \<Longrightarrow> framer_inv s1"
  using flv_loop_drive[of s L d] by auto

lemma flv_inv_create: "framer_inv zms_flv_tag_framer_create" "framer_inv (zms_flv_tag_framer_reset s)"
  by (simp_all add: framer_inv_def flv_need_def zms_flv_tag_framer_create_def zms_flv_tag_framer_reset_def)

text \<open>
  The tags that come out of an FLV stream, the state of the framer and the error it ends
  with do not depend on how the stream was cut into reads.
\<close>

theorem flv_any_cut:
  assumes "framer_inv s" "[] \<notin> set ds" "ds \<noteq> []"
  shows "flv_feeds L s ds = zms_flv_tag_framer_feed L s (concat ds)"
proof -
  have "flv_feeds L s ds = flv_feed_loop L s (concat ds)" using assms
  proof (induction ds arbitrary: s)
    case (Cons d ds)
    obtain err s1 es where A: "flv_feed_loop L s d = (err, s1, es)" using prod_cases3 by blast
    have d: "zms_flv_tag_framer_feed L s d = (err, s1, es)" using Cons.prems A by (auto simp: zms_flv_tag_framer_feed_def)
    show ?case
    proof (cases "err = ZTK_OK \<and> ds \<noteq> []")
      case True
      with flv_feed_inv[OF Cons.prems(1)] A have "framer_inv s1" by simp
      with Cons True A d flv_feed_append[OF Cons.prems(1), of L d "concat ds"] show ?thesis by simp
    next
      case False
      with A d flv_feed_append[OF Cons.prems(1), of L d "concat ds"] show ?thesis by auto
    qed
  qed simp
  moreover have "concat ds \<noteq> []" using assms(2,3) by (cases ds) auto
  ultimately show ?thesis by (simp only: zms_flv_tag_framer_feed_def if_False)
qed

section \<open>What is written is read\<close>

text \<open>
  What libflv documents: a file header of 9 bytes and a tag header of 11 bytes, which its
  readers take back, and a size field of 4 bytes.
\<close>

definition libflv_ok :: "libflv \<Rightarrow> bool" where
  "libflv_ok L \<longleftrightarrow> (\<forall>a v. length (fl_header_write L a v) = 9 \<and> fl_header_read L (fl_header_write L a v))
     \<and> (\<forall>t h. fl_tag_header_write L t = Some h \<longrightarrow> length h = 11 \<and> fl_tag_header_read L h = Some t)
     \<and> (\<forall>n. length (fl_tag_size_write L n) = 4)"

text \<open>One piece: the parser is at its start and the data begins with it.\<close>

lemma drive_piece:
  assumes "flv_ok s" "length p = flv_need s" "flv_complete L (s\<lparr>ff_have := p\<rparr>) = (ZTK_OK, s1, es)"
  shows "drive (flv_step L) s (p @ rest) = (es @ fst (drive (flv_step L) s1 rest), snd (drive (flv_step L) s1 rest))"
proof -
  have "flv_step L s (p @ rest) = Took s1 (length p) es"
    using assms by (simp add: flv_step_def)
  from flv.drive_took[OF assms(1) this] show ?thesis by simp
qed

definition at_tag :: "flv_tag_header \<Rightarrow> nat \<Rightarrow> zms_flv_tag_framer" where
  "at_tag tag cap = \<lparr>ff_st = FLV_ST_TAG_HDR, ff_have = [], ff_cur_tag = tag, ff_tag_body_cap = cap\<rparr>"

lemma drive_tag:
  assumes "libflv_ok L" "zms_flv_write_tag L c type_id ts data = (ZTK_OK, out)" "length data \<le> FLV_TAG_BODY_MAX"
  shows "\<exists>tag2 cap2. drive (flv_step L) (at_tag tag cap) (out @ rest) =
    ((flv_type_from_rtmp type_id, data, ts) # fst (drive (flv_step L) (at_tag tag2 cap2) rest),
     snd (drive (flv_step L) (at_tag tag2 cap2) rest))"
proof -
  define t where "t = \<lparr>th_type = flv_type_from_rtmp type_id, th_size = length data, th_timestamp = ts\<rparr>"
  have n: "unat (of_nat (length data) :: u32) = length data"
    using assms(3) by (simp add: unat_of_nat take_bit_nat_eq_self FLV_TAG_BODY_MAX_def)
  obtain h where h: "data \<noteq> []" "fl_tag_header_write L t = Some h"
    "out = h @ data @ fl_tag_size_write L (of_nat (length h + length data))"
    using assms(2) by (auto simp: zms_flv_write_tag_def n t_def Let_def split: if_splits option.splits)
  then have hr: "length h = 11" "fl_tag_header_read L h = Some t" "length (fl_tag_size_write L w) = 4" for w
    using assms(1) by (auto simp: libflv_ok_def)
  obtain cap2 where cap2: "ensure_tag_buf (at_tag t cap) (length data) = (ZTK_OK, at_tag t cap2)"
    using assms(3) by (cases "length data \<le> cap") (auto simp: ensure_tag_buf_def at_tag_def)
  let ?sz = "fl_tag_size_write L (of_nat (length h + length data))"
  let ?b = "(at_tag t cap2)\<lparr>ff_st := FLV_ST_TAG_BODY\<rparr>" and ?v = "(at_tag t cap2)\<lparr>ff_st := FLV_ST_TAG_PREV\<rparr>"
  have c1: "flv_complete L ((at_tag tag cap)\<lparr>ff_have := h\<rparr>) = (ZTK_OK, ?b, [])"
  proof -
    have "(at_tag tag cap)\<lparr>ff_have := h\<rparr>\<lparr>ff_cur_tag := t, ff_have := []\<rparr> = at_tag t cap" by (simp add: at_tag_def)
    with hr cap2 h(1) show ?thesis by (simp add: flv_complete_def) (simp add: at_tag_def t_def)
  qed
  have c2: "flv_complete L (?b\<lparr>ff_have := data\<rparr>) = (ZTK_OK, ?v, [(flv_type_from_rtmp type_id, data, ts)])"
    by (simp add: flv_complete_def at_tag_def t_def)
  have c3: "flv_complete L (?v\<lparr>ff_have := ?sz\<rparr>) = (ZTK_OK, at_tag t cap2, [])"
    by (simp add: flv_complete_def at_tag_def)
  have "drive (flv_step L) (at_tag tag cap) (h @ data @ ?sz @ rest) =
      ([] @ fst (drive (flv_step L) ?b (data @ ?sz @ rest)), snd (drive (flv_step L) ?b (data @ ?sz @ rest)))"
    by (rule drive_piece[OF _ _ c1]) (simp_all add: flv_ok_def flv_need_def at_tag_def hr)
  also have "drive (flv_step L) ?b (data @ ?sz @ rest) = ([(flv_type_from_rtmp type_id, data, ts)]
      @ fst (drive (flv_step L) ?v (?sz @ rest)), snd (drive (flv_step L) ?v (?sz @ rest)))"
    using h(1) by (intro drive_piece[OF _ _ c2]) (simp_all add: flv_ok_def flv_need_def at_tag_def t_def)
  also have "drive (flv_step L) ?v (?sz @ rest) =
      ([] @ fst (drive (flv_step L) (at_tag t cap2) rest), snd (drive (flv_step L) (at_tag t cap2) rest))"
    by (rule drive_piece[OF _ _ c3]) (simp_all add: flv_ok_def flv_need_def at_tag_def hr)
  finally show ?thesis by (auto simp: h(3))
qed

lemma drive_tags:
  assumes "libflv_ok L" "\<forall>(t, ts, d) \<in> set tags. length d \<le> FLV_TAG_BODY_MAX"
    and "list_all2 (\<lambda>(t, ts, d) out. zms_flv_write_tag L (length out) t ts d = (ZTK_OK, out)) tags outs"
  shows "fst (drive (flv_step L) (at_tag tag cap) (concat outs)) = map (\<lambda>(t, ts, d). (flv_type_from_rtmp t, d, ts)) tags
    \<and> (\<exists>s. snd (drive (flv_step L) (at_tag tag cap) (concat outs)) = Inr (s, []))"
  using assms(3,2)
proof (induction tags outs arbitrary: tag cap rule: list_all2_induct)
  case Nil
  have "drive (flv_step L) (at_tag tag cap) [] = ([], Inr (at_tag tag cap, []))"
    by (rule flv.drive_need) (simp add: flv_step_def flv_need_def at_tag_def)
  then show ?case by simp
next
  case (Cons x xs y ys)
  obtain t ts d where x: "x = (t, ts, d)" using prod_cases3 by blast
  from drive_tag[OF assms(1), of "length y" t ts d y tag cap "concat ys"] Cons.hyps(1) Cons.prems
  obtain tag2 cap2 where
    "drive (flv_step L) (at_tag tag cap) (y @ concat ys) =
      ((flv_type_from_rtmp t, d, ts) # fst (drive (flv_step L) (at_tag tag2 cap2) (concat ys)),
       snd (drive (flv_step L) (at_tag tag2 cap2) (concat ys)))" by (auto simp: x)
  with Cons.IH[of tag2 cap2] Cons.prems show ?case by (auto simp: x)
qed

text \<open>
  C27: A stream of a file header and tags, as the writers make it, goes through the framer
  without an error, and each tag comes out once, in order, with its type, body and time stamp;
  no byte stays behind. Tags other than video and script come out as audio.
\<close>

theorem flv_stream_roundtrip:
  assumes "libflv_ok L" "zms_flv_write_header L 13 a v = (ZTK_OK, fh)"
    and "\<forall>(t, ts, d) \<in> set tags. length d \<le> FLV_TAG_BODY_MAX"
    and "list_all2 (\<lambda>(t, ts, d) out. zms_flv_write_tag L (length out) t ts d = (ZTK_OK, out)) tags outs"
  shows "\<exists>s. zms_flv_tag_framer_feed L zms_flv_tag_framer_create (fh @ concat outs) =
    (ZTK_OK, s, map (\<lambda>(t, ts, d). (flv_type_from_rtmp t, d, ts)) tags) \<and> ff_have s = []"
proof -
  let ?f = zms_flv_tag_framer_create and ?hw = "fl_header_write L a v" and ?z = "fl_tag_size_write L 0"
  have l: "length ?hw = 9" "fl_header_read L ?hw" "length ?z = 4" using assms(1) by (auto simp: libflv_ok_def)
  then have fh: "fh = ?hw @ ?z" using assms(2) by (simp add: zms_flv_write_header_def)
  have c1: "flv_complete L (?f\<lparr>ff_have := ?hw\<rparr>) = (ZTK_OK, ?f\<lparr>ff_st := FLV_ST_PREV0\<rparr>, [])"
    using l by (simp add: flv_complete_def zms_flv_tag_framer_create_def)
  have c2: "flv_complete L (?f\<lparr>ff_st := FLV_ST_PREV0, ff_have := ?z\<rparr>) = (ZTK_OK, at_tag no_tag 0, [])"
    by (simp add: flv_complete_def zms_flv_tag_framer_create_def at_tag_def)
  have "drive (flv_step L) ?f (?hw @ ?z @ concat outs) =
    ([] @ fst (drive (flv_step L) (?f\<lparr>ff_st := FLV_ST_PREV0\<rparr>) (?z @ concat outs)),
     snd (drive (flv_step L) (?f\<lparr>ff_st := FLV_ST_PREV0\<rparr>) (?z @ concat outs)))"
    by (rule drive_piece[OF _ _ c1]) (simp_all add: l flv_ok_def flv_need_def zms_flv_tag_framer_create_def)
  also have "drive (flv_step L) (?f\<lparr>ff_st := FLV_ST_PREV0\<rparr>) (?z @ concat outs) =
    ([] @ fst (drive (flv_step L) (at_tag no_tag 0) (concat outs)), snd (drive (flv_step L) (at_tag no_tag 0) (concat outs)))"
    by (rule drive_piece[OF _ _ c2]) (simp_all add: l flv_ok_def flv_need_def zms_flv_tag_framer_create_def)
  finally have dr: "drive (flv_step L) ?f (fh @ concat outs) =
    (fst (drive (flv_step L) (at_tag no_tag 0) (concat outs)), snd (drive (flv_step L) (at_tag no_tag 0) (concat outs)))"
    by (simp add: fh)
  obtain err s es where fd: "flv_feed_loop L ?f (fh @ concat outs) = (err, s, es)" using prod_cases3 by blast
  have f: "framer_at ?f [] = ?f" "ff_have ?f = []" by (simp_all add: framer_at_def zms_flv_tag_framer_create_def)
  note lp = flv_loop_drive[OF flv_inv_create(1), of L "fh @ concat outs", unfolded fd prod.case f]
  have "fh \<noteq> []" using l by (auto simp: fh)
  with lp dr drive_tags[OF assms(1,3,4), of no_tag 0] fd show ?thesis
    by (auto simp: zms_flv_tag_framer_feed_def framer_at_def split: if_splits)
qed

text \<open>The layout of the format, as an instance of the header routines.\<close>

definition flv_tag_layout :: "flv_tag_header \<Rightarrow> bytes option" where
  "flv_tag_layout t = (if th_size t \<ge> 2 ^ 24 then None
     else Some (th_type t # be_bytes 3 (th_size t) @ put_be24 (th_timestamp t)
       @ [ucast (drop_bit 24 (th_timestamp t)), 0, 0, 0]))"

definition flv_tag_unlayout :: "bytes \<Rightarrow> flv_tag_header option" where
  "flv_tag_unlayout h = Some \<lparr>th_type = h ! 0, th_size = unat (be24 (drop 1 h) 0),
     th_timestamp = be24 (drop 4 h) 0 OR push_bit 24 (ucast (h ! 7))\<rparr>"

definition flv_layout :: libflv where
  "flv_layout = \<lparr>fl_header_write = (\<lambda>a v. [0x46, 0x4c, 0x56, 1, (if a then 4 else 0) OR (if v then 1 else 0), 0, 0, 0, 9]),
     fl_header_read = (\<lambda>h. length h = 9 \<and> take 3 h = [0x46, 0x4c, 0x56]),
     fl_tag_header_write = flv_tag_layout, fl_tag_header_read = flv_tag_unlayout,
     fl_tag_size_write = put_be32\<rparr>"

lemma ts_split: "take_bit 24 (ts :: u32) OR push_bit 24 (ucast (ucast (drop_bit 24 ts) :: u8)) = ts"
  by (rule bit_word_eqI) (auto simp: bit_simps)

lemma flv_layout_ok: "libflv_ok flv_layout"
proof -
  have "length h = 11 \<and> flv_tag_unlayout h = Some t" if h: "flv_tag_layout t = Some h" for t h
  proof -
    let ?ts = "th_timestamp t"
    have sz: "th_size t < 2 ^ 24" and e: "h = th_type t # be_bytes 3 (th_size t) @ put_be24 ?ts @ [ucast (drop_bit 24 ?ts), 0, 0, 0]"
      using h by (auto simp: flv_tag_layout_def split: if_splits)
    have d4: "drop 4 h = put_be24 ?ts @ [ucast (drop_bit 24 ?ts), 0, 0, 0]"
      "h ! 7 = ucast (drop_bit 24 ?ts)" "length h = 11" "h ! 0 = th_type t"
      by (simp_all add: e be_bytes_small put_be24_def)
    have "unat (be24 (drop 1 h) 0) = th_size t"
      using be24_be_bytes[OF sz] sz by (simp add: e unat_of_nat take_bit_nat_eq_self)
    moreover have "be24 (drop 4 h) 0 = take_bit 24 ?ts" unfolding d4 by (rule be24_put)
    ultimately show ?thesis using d4 ts_split[of ?ts] by (simp add: flv_tag_unlayout_def)
  qed
  then show ?thesis by (auto simp: libflv_ok_def flv_layout_def)
qed

lemma flv_stream_roundtrip_witness:
  "\<exists>s. zms_flv_tag_framer_feed flv_layout zms_flv_tag_framer_create
      ([0x46, 0x4c, 0x56, 1, 5, 0, 0, 0, 9, 0, 0, 0, 0]
       @ concat [[9, 0, 0, 2, 0, 0, 40, 0, 0, 0, 0, 23, 1, 0, 0, 0, 13], [8, 0, 0, 1, 0, 0, 1, 1, 0, 0, 0, 175, 0, 0, 0, 12]]) =
    (ZTK_OK, s, map (\<lambda>(t, ts, d). (flv_type_from_rtmp t, d, ts)) [(9, 40, [23, 1]), (8, 0x1000001, [175])]) \<and> ff_have s = []"
proof (rule flv_stream_roundtrip[OF flv_layout_ok])
  note defs = zms_flv_write_header_def zms_flv_write_tag_def flv_layout_def flv_tag_layout_def be_bytes_small
    put_be24_def put_be32_def flv_type_from_rtmp_def flv_consts Let_def
  show "zms_flv_write_header flv_layout 13 True True = (ZTK_OK, [0x46, 0x4c, 0x56, 1, 5, 0, 0, 0, 9, 0, 0, 0, 0])"
    by (simp add: defs)
  show "list_all2 (\<lambda>(t, ts, d) out. zms_flv_write_tag flv_layout (length out) t ts d = (ZTK_OK, out))
      [(9, 40, [23, 1]), (8, 0x1000001, [175])]
      [[9, 0, 0, 2, 0, 0, 40, 0, 0, 0, 0, 23, 1, 0, 0, 0, 13], [8, 0, 0, 1, 0, 0, 1, 1, 0, 0, 0, 175, 0, 0, 0, 12]]"
    by (simp add: defs)
qed (simp add: FLV_TAG_BODY_MAX_def)

lemma flv_any_cut_witness:
  "flv_feeds flv_layout zms_flv_tag_framer_create [[0x46, 0x4c], [0x56, 1]] =
   zms_flv_tag_framer_feed flv_layout zms_flv_tag_framer_create [0x46, 0x4c, 0x56, 1]"
  using flv_any_cut[OF flv_inv_create(1), of "[[0x46, 0x4c], [0x56, 1]]" flv_layout] by simp

text \<open>
  A tag above 4 MiB is refused, but the framer is left waiting for a tag header: the body it
  refused is read as tag headers by the next call.
\<close>

lemma flv_big_tag_not_skipped:
  assumes "ff_st s = FLV_ST_TAG_HDR" "length (ff_have s) < 11" "11 - length (ff_have s) \<le> length d"
    and "fl_tag_header_read L (ff_have s @ take (11 - length (ff_have s)) d) = Some tag"
    and "th_size tag > FLV_TAG_BODY_MAX"
  shows "flv_feed_loop L s d = (ZTK_ERR_NOMEM, s\<lparr>ff_cur_tag := tag, ff_have := []\<rparr>, [])"
proof -
  let ?k = "11 - length (ff_have s)"
  have "(if ?k < length d then ?k else length d) = ?k" "d \<noteq> []" "th_size tag \<noteq> 0" using assms by auto
  then show ?thesis
    using assms by (subst flv_feed_loop.simps)
      (simp add: Let_def flv_need_def flv_complete_def ensure_tag_buf_def)
qed

end
