(* ===== verification/Aac_ES.thy ===== *)
theory Aac_ES
  imports Media_Types
begin

text \<open>
  AAC elementary streams, the stateless half of \<open>src/media/codec/aac/aac_over_rtp.c\<close>: the
  ADTS header, the strict check of a PES payload, the walk over the access units and the
  cut of one ADTS frame to its raw access unit. The callback of the walk is a function on a
  user state that also tells whether to stop. The lemmas relate the routines to the ADTS
  layout: a list of frames written one after another is valid, and the walk hands out
  exactly their access units.
\<close>

unbundle bit_operations_syntax

section \<open>The routines\<close>

definition adts_sync :: "bytes \<Rightarrow> bool" where
  "adts_sync p = (length p \<ge> 7 \<and> p ! 0 = 0xff \<and> (p ! 1) AND 0xf0 = 0xf0)"

definition adts_hdr_len :: "bytes \<Rightarrow> nat" where
  "adts_hdr_len p = (if \<not> adts_sync p then 0 else if (p ! 1) AND 0x01 \<noteq> 0 then 7 else 9)"

definition adts_len_field :: "bytes \<Rightarrow> nat" where
  "adts_len_field p = unat (push_bit 11 (ucast ((p ! 3) AND 0x03) :: u32)
     OR push_bit 3 (ucast (p ! 4)) OR drop_bit 5 (ucast ((p ! 5) AND 0xe0)))"

definition adts_frame_length :: "bytes \<Rightarrow> nat" where
  "adts_frame_length p =
     (if \<not> adts_sync p then 0
      else if adts_len_field p < 7 \<or> adts_len_field p > 8192 then 0 else adts_len_field p)"

text \<open>One frame at the head of the rest, or none.\<close>

definition adts_frame :: "bytes \<Rightarrow> (bytes \<times> bytes) option" where
  "adts_frame p =
     (let hdr = adts_hdr_len p; flen = adts_frame_length p
      in if hdr < 7 \<or> flen < hdr \<or> flen > length p then None
         else Some (drop hdr (take flen p), drop flen p))"

lemma adts_frame_shorter: "adts_frame p = Some (au, r) \<Longrightarrow> length r < length p"
  by (auto simp: adts_frame_def Let_def split: if_splits)

function adts_covers :: "bytes \<Rightarrow> bool" where
  "adts_covers p =
     (if length p < 7 then p = []
      else (case adts_frame p of None \<Rightarrow> False | Some (au, r) \<Rightarrow> adts_covers r))"
  by pat_completeness auto
termination
  by (relation "measure length") (auto simp: adts_frame_shorter)

declare adts_covers.simps [simp del]

definition zms_aac_es_strict_valid :: "bytes \<Rightarrow> bool" where
  "zms_aac_es_strict_valid es = (if length es < 7 \<or> \<not> adts_sync es then False else adts_covers es)"

text \<open>
  The walk: \<open>cb au u = (stop, u')\<close>. It returns the number of frames handed over and the user
  state; a frame whose callback stops the walk is not counted.
\<close>

function adts_walk :: "(bytes \<Rightarrow> 'u \<Rightarrow> bool \<times> 'u) \<Rightarrow> bytes \<Rightarrow> 'u \<Rightarrow> nat \<times> 'u" where
  "adts_walk cb p u =
     (if length p < 7 then (0, u)
      else (case adts_frame p of
              None \<Rightarrow> (0, u)
            | Some (au, r) \<Rightarrow>
                (case cb au u of
                   (stop, u') \<Rightarrow> if stop then (0, u')
                                else (case adts_walk cb r u' of (n, u'') \<Rightarrow> (n + 1, u'')))))"
  by pat_completeness auto
termination
  by (relation "measure (\<lambda>(cb, p, u). length p)") (auto simp: adts_frame_shorter)

declare adts_walk.simps [simp del]

definition zms_aac_es_foreach_frame ::
  "(bytes \<Rightarrow> 'u \<Rightarrow> bool \<times> 'u) \<Rightarrow> bytes \<Rightarrow> 'u \<Rightarrow> ztk_err \<times> 'u" where
  "zms_aac_es_foreach_frame cb es u =
     (if es = [] then (ZTK_ERR_INVALID, u)
      else
        let (n, u1) = (if adts_sync es then adts_walk cb es u else (0, u))
        in if n > 0 then (ZTK_OK, u1)
           else (case cb es u1 of (stop, u2) \<Rightarrow> (if stop then ZTK_ERR_INVALID else ZTK_OK, u2)))"

definition zms_aac_es_to_raw :: "bytes \<Rightarrow> ztk_err \<times> bytes" where
  "zms_aac_es_to_raw es =
     (if es = [] then (ZTK_ERR_INVALID, [])
      else if adts_sync es then
        (let hdr = adts_hdr_len es; flen = adts_frame_length es
         in if hdr \<ge> 7 \<and> flen \<ge> hdr \<and> flen \<le> length es then (ZTK_OK, drop hdr (take flen es))
            else (ZTK_OK, es))
      else (ZTK_OK, es))"

section \<open>The ADTS layout\<close>

text \<open>
  A frame as a writer lays it out: sync word, protection flag, two bytes that the routines
  do not look at, the 13-bit length, and the optional CRC before the access unit.
\<close>

definition adts_put :: "bool \<Rightarrow> bytes \<Rightarrow> bytes" where
  "adts_put crc au =
     (let n = (of_nat (length au + (if crc then 9 else 7)) :: u32) in
      [0xff, if crc then 0xf0 else 0xf1, 0x50,
       0x80 OR ucast (drop_bit 11 n), ucast (drop_bit 3 n), ucast (push_bit 5 n) OR 0x1f, 0xfc]
      @ (if crc then [0, 0] else []) @ au)"

definition adts_wf :: "bool \<times> bytes \<Rightarrow> bool" where
  "adts_wf = (\<lambda>(crc, au). length au + (if crc then 9 else 7) < 8192)"

lemma length_adts_put: "length (adts_put crc au) = length au + (if crc then 9 else 7)"
  by (simp add: adts_put_def Let_def)

lemma mask_bits:
  "bit (3::'a::len word) k \<longleftrightarrow> k < 2 \<and> k < LENGTH('a)"
  "bit (31::'a::len word) k \<longleftrightarrow> k < 5 \<and> k < LENGTH('a)"
  "bit (224::'a::len word) k \<longleftrightarrow> 5 \<le> k \<and> k < 8 \<and> k < LENGTH('a)"
  "bit (128::'a::len word) k \<longleftrightarrow> k = 7 \<and> k < LENGTH('a)"
proof -
  have "(3::'a word) = mask 2" "(31::'a word) = mask 5" by (simp_all add: mask_eq_exp_minus_1)
  then show "bit (3::'a word) k \<longleftrightarrow> k < 2 \<and> k < LENGTH('a)" "bit (31::'a word) k \<longleftrightarrow> k < 5 \<and> k < LENGTH('a)"
    by (simp_all only: bit_mask_iff possible_bit_word) auto
  have "(224::'a word) = push_bit 5 (mask 3)" "(128::'a word) = push_bit 7 1"
    by (simp_all add: mask_eq_exp_minus_1)
  then show "bit (224::'a word) k \<longleftrightarrow> 5 \<le> k \<and> k < 8 \<and> k < LENGTH('a)"
    "bit (128::'a word) k \<longleftrightarrow> k = 7 \<and> k < LENGTH('a)"
    by (simp_all only: bit_mask_iff possible_bit_word bit_push_bit_iff bit_1_iff) auto
qed

lemma mask_bits_int:
  "bit (3::int) k \<longleftrightarrow> k < 2" "bit (31::int) k \<longleftrightarrow> k < 5"
  "bit (224::int) k \<longleftrightarrow> 5 \<le> k \<and> k < 8" "bit (128::int) k \<longleftrightarrow> k = 7"
proof -
  have "(3::int) = mask 2" "(31::int) = mask 5" by (simp_all add: mask_eq_exp_minus_1)
  then show "bit (3::int) k \<longleftrightarrow> k < 2" "bit (31::int) k \<longleftrightarrow> k < 5"
    by (simp_all only: bit_mask_iff possible_bit_int) auto
  have "(224::int) = push_bit 5 (mask 3)" "(128::int) = push_bit 7 1"
    by (simp_all add: mask_eq_exp_minus_1)
  then show "bit (224::int) k \<longleftrightarrow> 5 \<le> k \<and> k < 8" "bit (128::int) k \<longleftrightarrow> k = 7"
    by (simp_all only: bit_mask_iff possible_bit_int bit_push_bit_iff bit_1_iff) auto
qed

lemma adts_bits:
  fixes n :: u32
  assumes "take_bit 13 n = n"
  shows "push_bit 11 (ucast ((0x80 OR ucast (drop_bit 11 n) :: u8) AND 0x03) :: u32)
     OR push_bit 3 (ucast (ucast (drop_bit 3 n) :: u8))
     OR drop_bit 5 (ucast ((ucast (push_bit 5 n) OR 0x1f :: u8) AND 0xe0)) = n"
proof (rule bit_word_eqI)
  fix k assume k: "k < LENGTH(32)"
  have hi: "13 \<le> k \<Longrightarrow> \<not> bit n k"
    using arg_cong[OF assms, of "\<lambda>w. bit w k"] by (simp add: bit_take_bit_iff)
  consider "k < 3" | "3 \<le> k" "k < 11" | "11 \<le> k" "k < 13" | "13 \<le> k" by linarith
  then show "bit (push_bit 11 (ucast ((0x80 OR ucast (drop_bit 11 n) :: u8) AND 0x03) :: u32)
     OR push_bit 3 (ucast (ucast (drop_bit 3 n) :: u8))
     OR drop_bit 5 (ucast ((ucast (push_bit 5 n) OR 0x1f :: u8) AND 0xe0))) k = bit n k"
    using k hi by cases (auto simp: bit_simps mask_bits mask_bits_int)
qed

lemma adts_put_head:
  assumes "adts_wf (crc, au)"
  shows "adts_sync (adts_put crc au @ r)"
    and "adts_hdr_len (adts_put crc au @ r) = (if crc then 9 else 7)"
    and "adts_frame_length (adts_put crc au @ r) = length (adts_put crc au)"
proof -
  let ?n = "of_nat (length au + (if crc then 9 else 7)) :: u32"
  have lt: "length au + (if crc then 9 else 7) < 8192" using assms by (simp add: adts_wf_def)
  show sy: "adts_sync (adts_put crc au @ r)"
    by (simp add: adts_sync_def adts_put_def Let_def)
  then show "adts_hdr_len (adts_put crc au @ r) = (if crc then 9 else 7)"
    by (simp add: adts_hdr_len_def) (simp add: adts_put_def Let_def)
  have n: "unat ?n = length au + (if crc then 9 else 7)"
    using lt by (simp add: unsigned_of_nat take_bit_nat_eq_self del: of_nat_add)
  then have "unat (take_bit 13 ?n) = unat ?n"
    using lt by (simp add: unsigned_take_bit_eq take_bit_nat_eq_self)
  then have "adts_len_field (adts_put crc au @ r) = unat ?n"
    unfolding adts_len_field_def adts_put_def Let_def
    by (simp add: adts_bits[of ?n] word_unat_eq_iff[symmetric] del: of_nat_add)
  then show "adts_frame_length (adts_put crc au @ r) = length (adts_put crc au)"
    using sy n lt by (simp add: adts_frame_length_def length_adts_put split: if_splits)
qed

lemma adts_frame_put [bytes_simps]:
  "adts_wf (crc, au) \<Longrightarrow> adts_frame (adts_put crc au @ r) = Some (au, r)"
  by (simp add: adts_frame_def adts_put_head length_adts_put) (simp add: adts_put_def Let_def)

definition adts_stream :: "(bool \<times> bytes) list \<Rightarrow> bytes" where
  "adts_stream fs = concat (map (\<lambda>(crc, au). adts_put crc au) fs)"

lemma adts_stream_simps [simp]:
  "adts_stream [] = []" "adts_stream ((crc, au) # fs) = adts_put crc au @ adts_stream fs"
  by (simp_all add: adts_stream_def)

lemma adts_covers_stream: "list_all adts_wf fs \<Longrightarrow> adts_covers (adts_stream fs)"
proof (induction fs)
  case Nil
  then show ?case by (simp add: adts_covers.simps)
next
  case (Cons f fs)
  then show ?case
    by (cases f) (simp add: adts_covers.simps[of "adts_put _ _ @ _"] adts_frame_put length_adts_put)
qed

text \<open>A callback that never stops, as the callers' collecting callbacks are.\<close>

definition goes_on :: "(bytes \<Rightarrow> 'u \<Rightarrow> bool \<times> 'u) \<Rightarrow> bool" where
  "goes_on cb = (\<forall>au u. \<not> fst (cb au u))"

lemma adts_walk_stream:
  assumes "goes_on cb" "list_all adts_wf fs"
  shows "adts_walk cb (adts_stream fs) u = (length fs, foldl (\<lambda>u (crc, au). snd (cb au u)) u fs)"
  using assms(2)
proof (induction fs arbitrary: u)
  case Nil
  then show ?case by (simp add: adts_walk.simps)
next
  case (Cons f fs)
  obtain crc au where f: "f = (crc, au)" by (cases f)
  have "\<not> fst (cb au u)" using assms(1) by (simp add: goes_on_def)
  then obtain u' where "cb au u = (False, u')" by (cases "cb au u") auto
  then show ?case
    using Cons f by (simp add: adts_walk.simps[of _ "adts_put _ _ @ _"] adts_frame_put length_adts_put)
qed

text \<open>
  A stream of well-formed ADTS frames passes the strict check and is handed out access unit
  by access unit, in order and without the headers; a single frame is cut to its access unit.
\<close>

theorem adts_stream_read:
  assumes "goes_on cb" "list_all adts_wf fs" "fs \<noteq> []"
  shows "zms_aac_es_strict_valid (adts_stream fs)
    \<and> zms_aac_es_foreach_frame cb (adts_stream fs) u
        = (ZTK_OK, foldl (\<lambda>u (crc, au). snd (cb au u)) u fs)
    \<and> zms_aac_es_to_raw (adts_stream fs) = (ZTK_OK, snd (fs ! 0))"
proof -
  obtain crc au fs' where fs: "fs = (crc, au) # fs'" using assms(3) by (cases fs) auto
  have wf: "adts_wf (crc, au)" using assms(2) fs by simp
  have sy: "adts_sync (adts_stream fs)" using adts_put_head(1)[OF wf] by (simp add: fs)
  have ln: "7 \<le> length (adts_stream fs)" by (simp add: fs length_adts_put)
  have "zms_aac_es_strict_valid (adts_stream fs)"
    using sy ln adts_covers_stream[OF assms(2)] by (simp add: zms_aac_es_strict_valid_def)
  moreover have "zms_aac_es_foreach_frame cb (adts_stream fs) u
      = (ZTK_OK, foldl (\<lambda>u (crc, au). snd (cb au u)) u fs)"
    using sy ln assms(3) adts_walk_stream[OF assms(1,2), of u]
    by (auto simp: zms_aac_es_foreach_frame_def)
  moreover have "zms_aac_es_to_raw (adts_stream fs) = (ZTK_OK, snd (fs ! 0))"
    using sy ln adts_put_head[OF wf, of "adts_stream fs'"] adts_frame_put[OF wf, of "adts_stream fs'"]
    by (auto simp: zms_aac_es_to_raw_def fs adts_frame_def Let_def split: if_splits)
  ultimately show ?thesis by simp
qed

theorem adts_stream_read_witness:
  "zms_aac_es_strict_valid (adts_stream [(False, [1, 2, 3]), (True, [4])])
    \<and> zms_aac_es_foreach_frame (\<lambda>au u. (False, u @ [au])) (adts_stream [(False, [1, 2, 3]), (True, [4])]) []
        = (ZTK_OK, foldl (\<lambda>u (crc, au). snd (False, u @ [au])) [] [(False, [1, 2, 3]), (True, [4])])
    \<and> zms_aac_es_to_raw (adts_stream [(False, [1, 2, 3]), (True, [4])]) = (ZTK_OK, [1, 2, 3])"
  using adts_stream_read[of "\<lambda>au u. (False, u @ [au])" "[(False, [1, 2, 3]), (True, [4])]" "[]"]
  by (simp add: goes_on_def adts_wf_def)

text \<open>
  A callback that stops at the first frame is called a second time, with the whole buffer
  including the ADTS headers.
\<close>

lemma foreach_stop_recalls:
  assumes "list_all adts_wf fs" "fs \<noteq> []"
  shows "zms_aac_es_foreach_frame (\<lambda>au u. (True, u @ [au])) (adts_stream fs) []
    = (ZTK_ERR_INVALID, [snd (fs ! 0), adts_stream fs])"
proof -
  obtain crc au fs' where fs: "fs = (crc, au) # fs'" using assms(2) by (cases fs) auto
  have wf: "adts_wf (crc, au)" using assms(1) fs by simp
  have "adts_walk (\<lambda>au u. (True, u @ [au])) (adts_stream fs) [] = (0, [au])"
    by (simp add: fs adts_walk.simps[of _ "adts_put _ _ @ _"] adts_frame_put[OF wf] length_adts_put)
  then show ?thesis
    using adts_put_head(1)[OF wf, of "adts_stream fs'"]
    by (auto simp: zms_aac_es_foreach_frame_def fs adts_put_def Let_def)
qed

end
