(* ===== verification/Egress_Clock.thy ===== *)
theory Egress_Clock
  imports Complex_Main Media_Clock
begin

text \<open>
  The play clock of a session, \<open>src/egress/egress_clock.c\<close>: a media epoch locked at the first
  key frame, the wall time that goes with it, pause and resume, the pacing test
  \<open>media_due\<close> and the RTP and NTP stamps derived from the clock. \<open>zms_wall_ms()\<close> is the
  argument \<open>now\<close> of the operations that read it. The \<open>double\<close> play scale is a rational, and
  the truncated product \<open>(uint64_t)((double)elapsed * scale)\<close> of the floating point unit is
  the parameter \<open>fmul\<close>; what is used of it is that it is monotone in its second argument.
\<close>

unbundle bit_operations_syntax

record zms_egress_clock =
  k_epoch_ms :: u32
  k_epoch_locked :: bool
  k_epoch_ntp_sec :: u32
  k_epoch_ntp_frac :: u32
  k_play_wall_ms :: u64
  k_abs_rtp_ts :: bool
  k_paused :: bool
  k_pause_wall_ms :: u64
  k_play_scale :: rat

definition ntp_to_wall_ms :: "u32 \<Rightarrow> u32 \<Rightarrow> u64" where
  "ntp_to_wall_ms ntp_sec ntp_frac =
     (let sec = (if (ucast ntp_sec :: u64) \<ge> ZMS_NTP_UNIX_OFFSET
                 then (ucast ntp_sec :: u64) - ZMS_NTP_UNIX_OFFSET else 0)
      in sec * 1000 + (ucast ntp_frac :: u64) * 1000 div 0x100000000)"

definition zms_egress_clock_init :: zms_egress_clock where
  "zms_egress_clock_init = \<lparr>k_epoch_ms = 0, k_epoch_locked = False, k_epoch_ntp_sec = 0,
     k_epoch_ntp_frac = 0, k_play_wall_ms = 0, k_abs_rtp_ts = False, k_paused = False,
     k_pause_wall_ms = 0, k_play_scale = 1\<rparr>"

definition zms_egress_clock_reset :: "zms_egress_clock \<Rightarrow> zms_egress_clock" where
  "zms_egress_clock_reset c = zms_egress_clock_init"

definition zms_egress_clock_arm :: "u64 \<Rightarrow> zms_egress_clock \<Rightarrow> zms_egress_clock" where
  "zms_egress_clock_arm now c =
     (case zms_wall_ms_to_ntp now of
        (nsec, nfrac) \<Rightarrow> c\<lparr>k_epoch_ntp_sec := nsec, k_epoch_ntp_frac := nfrac, k_epoch_locked := False,
          k_epoch_ms := 0, k_play_wall_ms := 0\<rparr>)"

definition zms_egress_clock_unlock :: "zms_egress_clock \<Rightarrow> zms_egress_clock" where
  "zms_egress_clock_unlock c = c\<lparr>k_epoch_locked := False, k_epoch_ms := 0, k_play_wall_ms := 0\<rparr>"

definition zms_egress_clock_rebase :: "u64 \<Rightarrow> zms_egress_clock \<Rightarrow> u32 \<Rightarrow> zms_egress_clock" where
  "zms_egress_clock_rebase now c anchor_ms =
     c\<lparr>k_epoch_ms := anchor_ms, k_epoch_locked := True, k_play_wall_ms := now\<rparr>"

definition zms_egress_clock_rel_ms :: "zms_egress_clock \<Rightarrow> u32 \<Rightarrow> u32" where
  "zms_egress_clock_rel_ms c dts_ms =
     (if \<not> k_epoch_locked c \<or> dts_ms < k_epoch_ms c then 0 else dts_ms - k_epoch_ms c)"

definition zms_egress_clock_sync_wall :: "u64 \<Rightarrow> zms_egress_clock \<Rightarrow> u32 \<Rightarrow> zms_egress_clock" where
  "zms_egress_clock_sync_wall now c dts_ms =
     (if \<not> k_epoch_locked c then c
      else let rel = (ucast (zms_egress_clock_rel_ms c dts_ms) :: u64)
           in c\<lparr>k_play_wall_ms := (if now \<ge> rel then now - rel else now)\<rparr>)"

definition zms_egress_clock_lock_epoch ::
  "u64 \<Rightarrow> zms_egress_clock \<Rightarrow> u32 \<Rightarrow> bool \<times> zms_egress_clock" where
  "zms_egress_clock_lock_epoch now c dts_ms =
     (if k_epoch_locked c then (False, c)
      else (True, c\<lparr>k_epoch_ms := dts_ms, k_epoch_locked := True, k_play_wall_ms := now\<rparr>))"

definition zms_egress_clock_set_scale :: "zms_egress_clock \<Rightarrow> rat \<Rightarrow> zms_egress_clock" where
  "zms_egress_clock_set_scale c scale =
     c\<lparr>k_play_scale := (if scale \<le> 0 \<or> scale > 16 then 1 else scale)\<rparr>"

definition zms_egress_clock_pause :: "u64 \<Rightarrow> zms_egress_clock \<Rightarrow> zms_egress_clock" where
  "zms_egress_clock_pause now c =
     (if \<not> k_epoch_locked c \<or> k_paused c then c
      else c\<lparr>k_paused := True, k_pause_wall_ms := now\<rparr>)"

definition zms_egress_clock_resume :: "u64 \<Rightarrow> zms_egress_clock \<Rightarrow> zms_egress_clock" where
  "zms_egress_clock_resume now c =
     (if \<not> k_paused c then c
      else let c1 = (if now > k_pause_wall_ms c \<and> k_play_wall_ms c \<noteq> 0
                     then c\<lparr>k_play_wall_ms := k_play_wall_ms c + (now - k_pause_wall_ms c)\<rparr> else c)
           in c1\<lparr>k_paused := False, k_pause_wall_ms := 0\<rparr>)"

definition zms_egress_clock_is_paused :: "zms_egress_clock \<Rightarrow> bool" where
  "zms_egress_clock_is_paused c = k_paused c"

definition zms_egress_clock_media_due ::
  "(u64 \<Rightarrow> rat \<Rightarrow> u64) \<Rightarrow> u64 \<Rightarrow> zms_egress_clock \<Rightarrow> u32 \<Rightarrow> u32 \<Rightarrow> bool" where
  "zms_egress_clock_media_due fmul now c dts_ms lead_ms =
     (if \<not> k_epoch_locked c then True
      else if k_paused c then False
      else
        let rel = (ucast (zms_egress_clock_rel_ms c dts_ms) :: u64);
            elapsed = (if now \<ge> k_play_wall_ms c then now - k_play_wall_ms c else 0);
            scale = (if k_play_scale c > 0 then k_play_scale c else 1);
            elapsed' = (if scale \<noteq> 1 then fmul elapsed scale else elapsed)
        in rel \<le> elapsed' + ucast lead_ms)"

definition zms_egress_clock_epoch_locked :: "zms_egress_clock \<Rightarrow> bool" where
  "zms_egress_clock_epoch_locked c = k_epoch_locked c"

definition zms_egress_clock_rtp_ts_rel :: "u32 \<Rightarrow> u32 \<Rightarrow> u32" where
  "zms_egress_clock_rtp_ts_rel rel_ms hz =
     zms_ms_to_rtp_clock rel_ms (if hz = 0 then 90000 else hz)"

definition zms_egress_clock_rtp_ts :: "zms_egress_clock \<Rightarrow> u32 \<Rightarrow> u32 \<Rightarrow> u32" where
  "zms_egress_clock_rtp_ts c dts_ms hz =
     zms_egress_clock_rtp_ts_rel (zms_egress_clock_rel_ms c dts_ms) hz"

definition zms_egress_clock_sr_ntp ::
  "u64 \<Rightarrow> zms_egress_clock option \<Rightarrow> u32 \<Rightarrow> u32 \<Rightarrow> u32 \<times> u32" where
  "zms_egress_clock_sr_ntp now co rtp_ts hz =
     (case co of
        None \<Rightarrow> zms_wall_ms_to_ntp now
      | Some c \<Rightarrow>
          let hz' = (if hz = 0 then 90000 else hz);
              rel0 = zms_rtp_clock_to_ms rtp_ts hz';
              rel = (if k_abs_rtp_ts c \<and> k_epoch_locked c
                     then (if rel0 \<ge> k_epoch_ms c then rel0 - k_epoch_ms c else 0) else rel0)
          in if k_play_wall_ms c \<noteq> 0 then zms_wall_ms_to_ntp (k_play_wall_ms c + ucast rel)
             else zms_wall_ms_to_ntp
                    (ntp_to_wall_ms (k_epoch_ntp_sec c) (k_epoch_ntp_frac c) + ucast rel))"

section \<open>Pacing\<close>

lemma unat_bound: "unat (a::'a::len word) < 2 ^ LENGTH('a)"
  by (rule unsigned_less)

text \<open>The floating point product: monotone in the elapsed time.\<close>

definition fmul_ok :: "(u64 \<Rightarrow> rat \<Rightarrow> u64) \<Rightarrow> bool" where
  "fmul_ok fmul = (\<forall>a b s. 0 < s \<and> a \<le> b \<longrightarrow> fmul a s \<le> fmul b s)"

text \<open>An exact product, saturated like a conversion that stays in range.\<close>

definition fmul_exact :: "u64 \<Rightarrow> rat \<Rightarrow> u64" where
  "fmul_exact a s = word_of_int (min \<lfloor>of_nat (unat a) * s\<rfloor> (2 ^ 64 - 1))"

lemma fmul_exact_ok: "fmul_ok fmul_exact"
  unfolding fmul_ok_def
proof (intro allI impI)
  fix a b :: u64 and s :: rat
  assume h: "0 < s \<and> a \<le> b"
  let ?f = "\<lambda>a::u64. min \<lfloor>of_nat (unat a) * s\<rfloor> (2 ^ 64 - 1)"
  have nn: "0 \<le> ?f x" for x :: u64
  proof -
    have "0 \<le> of_nat (unat x) * s" using h by (intro mult_nonneg_nonneg of_nat_0_le_iff) simp
    then have "0 \<le> \<lfloor>of_nat (unat x) * s\<rfloor>" by (simp only: zero_le_floor)
    then show ?thesis by (intro min.boundedI) simp_all
  qed
  have lt: "?f x < 2 ^ 64" for x :: u64 by linarith
  have "unat a \<le> unat b" using h by (simp add: word_le_nat_alt)
  then have "of_nat (unat a) * s \<le> of_nat (unat b) * s"
    using h by (intro mult_right_mono of_nat_mono) simp_all
  then have le: "?f a \<le> ?f b" by (meson floor_mono min.mono order_refl)
  have ui: "uint (fmul_exact x s) = ?f x" for x
    using nn[of x] lt[of x] by (simp add: fmul_exact_def uint_word_of_int)
  show "fmul_exact a s \<le> fmul_exact b s"
    using le by (simp add: word_le_def ui)
qed

definition elapsed_ms :: "(u64 \<Rightarrow> rat \<Rightarrow> u64) \<Rightarrow> u64 \<Rightarrow> zms_egress_clock \<Rightarrow> u64" where
  "elapsed_ms fmul now c =
     (let e = (if now \<ge> k_play_wall_ms c then now - k_play_wall_ms c else 0)
      in if k_play_scale c > 0 \<and> k_play_scale c \<noteq> 1 then fmul e (k_play_scale c) else e)"

lemma media_due_iff:
  "zms_egress_clock_media_due fmul now c d l =
     (\<not> k_epoch_locked c \<or>
      \<not> k_paused c \<and> (ucast (zms_egress_clock_rel_ms c d) :: u64) \<le> elapsed_ms fmul now c + ucast l)"
  by (auto simp: zms_egress_clock_media_due_def elapsed_ms_def Let_def)

lemma wsub_mono: "(a::u64) \<le> b \<Longrightarrow> p \<le> a \<Longrightarrow> a - p \<le> b - p"
  by (simp add: word_le_nat_alt unat_sub)

lemma elapsed_mono:
  assumes "fmul_ok fmul" "now \<le> now'"
  shows "elapsed_ms fmul now c \<le> elapsed_ms fmul now' c"
proof -
  have "(if now \<ge> k_play_wall_ms c then now - k_play_wall_ms c else 0)
        \<le> (if now' \<ge> k_play_wall_ms c then now' - k_play_wall_ms c else 0)"
    using assms(2) wsub_mono[of now now' "k_play_wall_ms c"] by (auto simp: not_le)
  then show ?thesis using assms(1) by (auto simp: elapsed_ms_def Let_def fmul_ok_def)
qed

lemma rel_mono: "d \<le> d' \<Longrightarrow> zms_egress_clock_rel_ms c d \<le> zms_egress_clock_rel_ms c d'"
  by (auto simp: zms_egress_clock_rel_ms_def word_le_nat_alt word_less_nat_alt unat_sub not_less)

lemma rel_wall [simp]:
  "zms_egress_clock_rel_ms (c\<lparr>k_play_wall_ms := w\<rparr>) d = zms_egress_clock_rel_ms c d"
  "zms_egress_clock_rel_ms (c\<lparr>k_paused := b\<rparr>) d = zms_egress_clock_rel_ms c d"
  "zms_egress_clock_rel_ms (c\<lparr>k_pause_wall_ms := w\<rparr>) d = zms_egress_clock_rel_ms c d"
  by (simp_all add: zms_egress_clock_rel_ms_def)

lemma unat_up: "unat (ucast (a::u32) :: u64) = unat a"
  using unat_bound[of a]
  by (simp add: unsigned_ucast_eq take_bit_nat_eq_self_iff)

lemma unat_down: "unat (a::u64) < 2 ^ 32 \<Longrightarrow> unat (ucast a :: u32) = unat a"
  by (simp add: unsigned_ucast_eq take_bit_nat_eq_self)

lemma ucast_down_up [simp]: "(ucast (ucast (a::u32) :: u64) :: u32) = a"
  using unat_down[of "ucast a"] unat_bound[of a] by (simp add: word_unat_eq_iff unat_up)

lemma ucast_mono64: "(a::u32) \<le> b \<Longrightarrow> (ucast a :: u64) \<le> ucast b"
  by (simp add: word_le_nat_alt unat_up)


text \<open>
  Pacing is monotone: a frame that is due stays due as time goes on, and so is every frame
  before it, with the same lead or a longer one.
\<close>

theorem media_due_monotone:
  assumes "fmul_ok fmul" "now \<le> now'" "d' \<le> d" "l \<le> l'"
    and "unat (elapsed_ms fmul now' c) + 2 ^ 32 \<le> 2 ^ 64"
    and "zms_egress_clock_media_due fmul now c d l"
  shows "zms_egress_clock_media_due fmul now' c d' l'"
proof -
  have e: "elapsed_ms fmul now c \<le> elapsed_ms fmul now' c" by (rule elapsed_mono[OF assms(1,2)])
  have r: "zms_egress_clock_rel_ms c d' \<le> zms_egress_clock_rel_ms c d" by (rule rel_mono[OF assms(3)])
  have small: "unat (l::u32) < 2 ^ 32" "unat l' < 2 ^ 32" using unat_bound[of l] unat_bound[of l'] by simp_all
  have sum: "unat (elapsed_ms fmul t c + ucast k) = unat (elapsed_ms fmul t c) + unat k"
    if "elapsed_ms fmul t c \<le> elapsed_ms fmul now' c" "unat (k::u32) < 2 ^ 32" for t k
    using that assms(5) by (simp add: unat_add_lem[symmetric] unat_up word_le_nat_alt unat_word_ariths)
  show ?thesis
    using assms(6,4) r e sum[OF e small(1)] sum[OF order_refl small(2)]
    by (auto simp: media_due_iff word_le_nat_alt unat_up)
qed

theorem media_due_monotone_witness:
  "zms_egress_clock_media_due fmul_exact 5000
     (snd (zms_egress_clock_lock_epoch 1000 (zms_egress_clock_set_scale zms_egress_clock_init 2) 40)) 4000 0"
  by (rule media_due_monotone[of _ 3000 _ _ 4000 0 0])
     (simp_all add: fmul_exact_ok elapsed_ms_def fmul_exact_def media_due_iff
        zms_egress_clock_lock_epoch_def zms_egress_clock_set_scale_def zms_egress_clock_init_def
        zms_egress_clock_rel_ms_def)

section \<open>Pause and resume\<close>

lemma resume_pause:
  assumes "k_epoch_locked c" "\<not> k_paused c" "k_play_wall_ms c \<noteq> 0" "t1 \<le> t2"
  shows "zms_egress_clock_resume t2 (zms_egress_clock_pause t1 c)
           = c\<lparr>k_play_wall_ms := k_play_wall_ms c + (t2 - t1), k_paused := False, k_pause_wall_ms := 0\<rparr>"
proof (cases "t1 = t2")
  case True
  then show ?thesis using assms by (simp add: zms_egress_clock_pause_def zms_egress_clock_resume_def)
next
  case False
  then have "t1 < t2" using assms(4) by simp
  then show ?thesis using assms by (simp add: zms_egress_clock_pause_def zms_egress_clock_resume_def)
qed

text \<open>
  C6: A pause costs no media time: after a pause from \<open>t1\<close> to \<open>t2\<close> the clock stands, \<open>x\<close>
  milliseconds after the resume, where it would have stood \<open>x\<close> milliseconds after \<open>t1\<close>;
  and while it lasts nothing is due.
\<close>

theorem pause_resume_continues:
  assumes "k_epoch_locked c" "\<not> k_paused c" "k_play_wall_ms c \<noteq> 0"
    and "k_play_wall_ms c \<le> t1" "t1 \<le> t2" "unat t2 + unat x < 2 ^ 64"
  shows "(let p = zms_egress_clock_pause t1 c; q = zms_egress_clock_resume t2 p in
           zms_egress_clock_media_due fmul (t2 + x) q d l = zms_egress_clock_media_due fmul (t1 + x) c d l
           \<and> \<not> zms_egress_clock_media_due fmul t p d l
           \<and> zms_egress_clock_rel_ms q d = zms_egress_clock_rel_ms c d)"
proof -
  let ?q = "zms_egress_clock_resume t2 (zms_egress_clock_pause t1 c)"
  let ?p = "k_play_wall_ms c"
  have q: "?q = c\<lparr>k_play_wall_ms := ?p + (t2 - t1), k_paused := False, k_pause_wall_ms := 0\<rparr>"
    by (rule resume_pause[OF assms(1-3,5)])
  have u: "unat (t2 + x) = unat t2 + unat x" "unat (t1 + x) = unat t1 + unat x"
    using assms(5,6) by (simp_all add: unat_word_ariths word_le_nat_alt)
  have "unat (?p + (t2 - t1)) = unat ?p + (unat t2 - unat t1)"
    using assms(4,5) unat_bound[of t2] by (simp add: unat_word_ariths word_le_nat_alt unat_sub)
  then have le: "?p + (t2 - t1) \<le> t2 + x" "?p \<le> t1 + x"
    using assms(4,5) u by (simp_all add: word_le_nat_alt)
  then have "elapsed_ms fmul (t2 + x) ?q = elapsed_ms fmul (t1 + x) c"
    by (simp add: elapsed_ms_def q Let_def algebra_simps)
  moreover have "zms_egress_clock_rel_ms ?q d = zms_egress_clock_rel_ms c d"
    by (simp add: q)
  moreover have "k_epoch_locked ?q" "\<not> k_paused ?q"
    using assms(1) by (simp_all add: q)
  ultimately have "zms_egress_clock_media_due fmul (t2 + x) ?q d l
      = zms_egress_clock_media_due fmul (t1 + x) c d l"
    using assms(1,2) by (simp add: media_due_iff)
  moreover have "\<not> zms_egress_clock_media_due fmul t (zms_egress_clock_pause t1 c) d l"
    using assms(1,2) by (simp add: media_due_iff zms_egress_clock_pause_def)
  ultimately show ?thesis by (simp add: Let_def q)
qed

theorem pause_resume_continues_witness:
  "let c = snd (zms_egress_clock_lock_epoch 1000 zms_egress_clock_init 40);
       p = zms_egress_clock_pause 1500 c; q = zms_egress_clock_resume 9000 p in
   zms_egress_clock_media_due fmul_exact (9000 + 300) q 840 0
     = zms_egress_clock_media_due fmul_exact (1500 + 300) c 840 0
   \<and> \<not> zms_egress_clock_media_due fmul_exact 5000 p 840 0
   \<and> zms_egress_clock_rel_ms q 840 = zms_egress_clock_rel_ms c 840"
  using pause_resume_continues[of "snd (zms_egress_clock_lock_epoch 1000 zms_egress_clock_init 40)"
      1500 9000 300 fmul_exact 840 0 5000]
  by (simp add: Let_def zms_egress_clock_lock_epoch_def zms_egress_clock_init_def)


section \<open>Catching up\<close>

text \<open>
  After \<open>sync_wall\<close> to the frame at \<open>d\<close> (normal speed) a frame at \<open>d'\<close> is due exactly when
  the wall clock has moved on by its distance from \<open>d\<close>, less the lead: the burst of the
  catch-up is over and the session runs at real time.
\<close>

theorem sync_wall_paces:
  assumes "k_epoch_locked c" "\<not> k_paused c" "k_play_scale c = 1"
    and "unat (zms_egress_clock_rel_ms c d) \<le> unat now" "unat now + unat x + 2 ^ 32 \<le> 2 ^ 64"
  shows "zms_egress_clock_media_due fmul (now + x) (zms_egress_clock_sync_wall now c d) d' l
         = (unat (zms_egress_clock_rel_ms c d') \<le> unat (zms_egress_clock_rel_ms c d) + unat x + unat l)"
proof -
  let ?r = "ucast (zms_egress_clock_rel_ms c d) :: u64"
  have r: "?r \<le> now" using assms(4) by (simp add: word_le_nat_alt unat_up)
  have s: "zms_egress_clock_sync_wall now c d = c\<lparr>k_play_wall_ms := now - ?r\<rparr>"
    using assms(1) r by (simp add: zms_egress_clock_sync_wall_def Let_def)
  have u: "unat (now + x) = unat now + unat x"
    using assms(5) by (simp add: unat_word_ariths)
  have "now - ?r \<le> now + x"
    using r by (simp add: word_le_nat_alt unat_sub u)
  then have e: "elapsed_ms fmul (now + x) (c\<lparr>k_play_wall_ms := now - ?r\<rparr>) = ?r + x"
    using assms(3) by (simp add: elapsed_ms_def Let_def algebra_simps)
  have "unat (?r + x + (ucast l :: u64)) = unat ?r + unat x + unat l"
    using assms(4,5) unat_bound[of l] by (simp add: unat_word_ariths unat_up)
  then show ?thesis
    using assms(1,2) by (simp add: s media_due_iff e word_le_nat_alt unat_up)
qed

theorem sync_wall_paces_witness:
  "zms_egress_clock_media_due fmul_exact (9000 + 100)
     (zms_egress_clock_sync_wall 9000 (snd (zms_egress_clock_lock_epoch 1000 zms_egress_clock_init 40)) 2040)
     2490 350
   = (unat (2450::u32) \<le> unat (2000::u32) + unat (100::u64) + unat (350::u32))"
  using sync_wall_paces[of "snd (zms_egress_clock_lock_epoch 1000 zms_egress_clock_init 40)" 2040 9000 100
      fmul_exact 2490 350]
  by (simp add: zms_egress_clock_lock_epoch_def zms_egress_clock_init_def zms_egress_clock_rel_ms_def)

section \<open>Sender reports\<close>

lemma unat_ms_to_rtp:
  assumes "hz \<noteq> 0" "unat ms * unat hz div 1000 < 2 ^ 32"
  shows "unat (zms_ms_to_rtp_clock ms hz) = unat ms * unat hz div 1000"
proof -
  have "unat ms * unat hz < 2 ^ 32 * 2 ^ 32"
    using unat_bound[of ms] unat_bound[of hz] by (intro mult_strict_mono) auto
  then have "unat ((ucast ms :: u64) * ucast hz div 1000) = unat ms * unat hz div 1000"
    by (simp add: unat_div unat_word_ariths unat_up)
  then show ?thesis
    using assms by (simp add: zms_ms_to_rtp_clock_def clock_or_default_def word_gt_0
        unsigned_ucast_eq take_bit_nat_eq_self)
qed

lemma unat_rtp_to_ms:
  assumes "hz \<noteq> 0" "unat rtp * 1000 div unat hz < 2 ^ 32"
  shows "unat (zms_rtp_clock_to_ms rtp hz) = unat rtp * 1000 div unat hz"
proof -
  have "unat rtp * 1000 < 2 ^ 64" using unat_bound[of rtp] by simp
  then have "unat ((ucast rtp :: u64) * 1000 div ucast hz) = unat rtp * 1000 div unat hz"
    by (simp add: unat_div unat_word_ariths unat_up)
  then show ?thesis
    using assms by (simp add: zms_rtp_clock_to_ms_def clock_or_default_def word_gt_0
        unsigned_ucast_eq take_bit_nat_eq_self)
qed

text \<open>With a clock of whole kilohertz the RTP stamp gives the milliseconds back.\<close>

lemma rtp_ms_roundtrip:
  assumes "unat hz = 1000 * k" "0 < k" "unat ms * k < 2 ^ 32"
  shows "zms_rtp_clock_to_ms (zms_ms_to_rtp_clock ms hz) hz = ms"
proof -
  have hz: "hz \<noteq> 0" using assms(1,2) by auto
  have a: "unat (zms_ms_to_rtp_clock ms hz) = unat ms * k"
    using unat_ms_to_rtp[OF hz, of ms] assms by simp
  have "unat ms * k * 1000 div (1000 * k) = unat ms" using assms(2) by simp
  then show ?thesis
    using unat_rtp_to_ms[OF hz, of "zms_ms_to_rtp_clock ms hz"] unat_bound[of ms] assms(1)
    by (simp add: a word_unat_eq_iff)
qed


text \<open>
  The report that goes with a frame: for a frame at \<open>d\<close> on a track with a clock of whole
  kilohertz, the NTP stamp is the wall time of the epoch plus the distance from the epoch,
  whether the RTP stamps of the session are absolute or start at the epoch, so the two
  tracks of a session are aligned by their reports.
\<close>

theorem sr_ntp_matches:
  assumes "k_epoch_locked c" "k_play_wall_ms c \<noteq> 0" "k_epoch_ms c \<le> d"
    and "unat hz = 1000 * k" "0 < k" "unat d * k < 2 ^ 32"
  shows "zms_egress_clock_sr_ntp now (Some c)
           (if k_abs_rtp_ts c then zms_ms_to_rtp_clock d hz else zms_egress_clock_rtp_ts c d hz) hz
         = zms_wall_ms_to_ntp (k_play_wall_ms c + ucast (d - k_epoch_ms c))"
proof -
  have hz: "hz \<noteq> 0" using assms(4,5) by auto
  have rel: "zms_egress_clock_rel_ms c d = d - k_epoch_ms c"
    using assms(1,3) by (simp add: zms_egress_clock_rel_ms_def not_less[symmetric])
  have "unat (d - k_epoch_ms c) * k \<le> unat d * k"
    using assms(3) by (simp add: unat_sub)
  then have r: "zms_rtp_clock_to_ms (zms_ms_to_rtp_clock (d - k_epoch_ms c) hz) hz = d - k_epoch_ms c"
    by (intro rtp_ms_roundtrip[OF assms(4,5)] le_less_trans[OF _ assms(6)])
  show ?thesis
    using assms(1-3) rtp_ms_roundtrip[OF assms(4-6)] r
    by (simp add: zms_egress_clock_sr_ntp_def zms_egress_clock_rtp_ts_def rel
        zms_egress_clock_rtp_ts_rel_def hz Let_def)
qed

theorem sr_ntp_matches_witness:
  "zms_egress_clock_sr_ntp 0
     (Some (snd (zms_egress_clock_lock_epoch 1700000000000 (zms_egress_clock_init\<lparr>k_abs_rtp_ts := True\<rparr>) 5000)))
     (zms_ms_to_rtp_clock 7040 90000) 90000
   = zms_wall_ms_to_ntp (1700000000000 + ucast (7040 - 5000 :: u32))"
  using sr_ntp_matches[of "snd (zms_egress_clock_lock_epoch 1700000000000
      (zms_egress_clock_init\<lparr>k_abs_rtp_ts := True\<rparr>) 5000)" 7040 90000 90 0]
  by (simp add: zms_egress_clock_lock_epoch_def zms_egress_clock_init_def)

text \<open>An RTP stamp that has wrapped (after 13 hours at 90 kHz) is reported at the epoch.\<close>

lemma sr_ntp_after_wrap:
  "zms_egress_clock_sr_ntp 0
     (Some (snd (zms_egress_clock_lock_epoch 1700000000000 (zms_egress_clock_init\<lparr>k_abs_rtp_ts := True\<rparr>) 5000)))
     (zms_ms_to_rtp_clock 47721859 90000) 90000
   = zms_wall_ms_to_ntp 1700000000000"
  by (simp add: zms_egress_clock_sr_ntp_def zms_egress_clock_lock_epoch_def zms_egress_clock_init_def
      zms_ms_to_rtp_clock_def zms_rtp_clock_to_ms_def clock_or_default_def Let_def)

lemma frac_back:
  assumes "(m::nat) < 1000"
  shows "m = m * 4294967296 div 1000 * 1000 div 4294967296 + (if m mod 125 = 0 then 0 else 1)"
proof -
  let ?N = "4294967296 :: nat"
  have "m * ?N = 8 * (37 * m) + 8 * 125 * (4294967 * m)" by simp
  then have "m * ?N mod (8 * 125) = 8 * (37 * m) mod (8 * 125)"
    by (simp only: mod_mult_self2)
  also have "\<dots> = 8 * (37 * m mod 125)" by (simp only: mult_mod_right)
  finally have m8: "m * ?N mod 1000 = 8 * (37 * m mod 125)" by simp
  have z: "37 * m mod 125 = 0 \<longleftrightarrow> m mod 125 = 0"
  proof -
    have "coprime (125::nat) 37" by (simp add: coprime_iff_gcd_eq_1 gcd_non_0_nat)
    then show ?thesis by (simp only: mod_eq_0_iff_dvd coprime_dvd_mult_right_iff)
  qed
  have "m * ?N div 1000 * 1000 = m * ?N - m * ?N mod 1000"
    by (metis minus_mod_eq_div_mult)
  moreover have "(m * ?N - r) div ?N = m - (if r = 0 then 0 else 1)" if "r < 1000" "r \<le> m * ?N" for r
  proof (cases "r = 0")
    case False
    then have "m \<noteq> 0" using that(2) by auto
    then obtain n where n: "m = Suc n" by (cases m) auto
    have "(m * ?N - r) div ?N = n"
      using False that(1) by (intro div_nat_eqI) (simp_all add: n algebra_simps)
    then show ?thesis using False n by simp
  qed simp
  ultimately show ?thesis using m8 z by (auto split: if_splits)
qed


lemma unat_sec_ms:
  "unat (A::u64) = a \<Longrightarrow> unat B = b \<Longrightarrow> a * 1000 + b < 2 ^ 64 \<Longrightarrow> unat (A * 1000 + B) = a * 1000 + b"
  by (simp add: unat_word_ariths)

lemma unat_wall_to_ntp:
  assumes "unat wall < 2085978496000"
  shows "unat (fst (zms_wall_ms_to_ntp wall)) = unat wall div 1000 + 2208988800"
    and "unat (snd (zms_wall_ms_to_ntp wall)) = unat wall mod 1000 * 4294967296 div 1000"
proof -
  have "unat wall div 1000 < 2085978496" using assms by (simp add: less_mult_imp_div_less)
  then have "unat (wall div 1000 + ZMS_NTP_UNIX_OFFSET) = unat wall div 1000 + 2208988800"
    by (simp add: ZMS_NTP_UNIX_OFFSET_def unat_word_ariths unat_div)
  then show "unat (fst (zms_wall_ms_to_ntp wall)) = unat wall div 1000 + 2208988800"
    using \<open>unat wall div 1000 < 2085978496\<close>
    by (simp add: zms_wall_ms_to_ntp_def unsigned_ucast_eq take_bit_nat_eq_self)
  let ?m = "unat wall mod 1000"
  have m: "?m < 1000" by simp
  have "unat (wall mod 1000) = ?m" by (simp add: unat_mod)
  then have "unat (ucast (ucast (wall mod 1000) :: u32) :: u64) = ?m"
    using m unat_down[of "wall mod 1000"] by (simp only: unat_up) simp
  moreover have "?m * 4294967296 div 1000 < 4294967296" using m by (simp add: less_mult_imp_div_less)
  ultimately show "unat (snd (zms_wall_ms_to_ntp wall)) = ?m * 4294967296 div 1000"
    by (simp add: zms_wall_ms_to_ntp_def unsigned_ucast_eq take_bit_nat_eq_self unat_div unat_word_ariths)
qed

text \<open>
  The NTP form of a wall time gives it back to the millisecond, one less where the fraction
  is not exact; from the year 2036 on the seconds wrap and the wall time is lost.
\<close>

theorem ntp_wall_roundtrip:
  assumes "unat wall < 2085978496000"
  shows "wall = (case zms_wall_ms_to_ntp wall of (nsec, nfrac) \<Rightarrow> ntp_to_wall_ms nsec nfrac)
                  + (if unat wall mod 125 = 0 then 0 else 1)"
proof -
  let ?m = "unat wall mod 1000"
  obtain sec nfrac where e: "zms_wall_ms_to_ntp wall = (sec, nfrac)" by fastforce
  have sec: "unat sec = unat wall div 1000 + 2208988800" and f: "unat nfrac = ?m * 4294967296 div 1000"
    using unat_wall_to_ntp[OF assms] by (simp_all add: e)
  have lt: "unat wall div 1000 < 2085978496" using assms by (simp add: less_mult_imp_div_less)
  have le: "(ucast sec :: u64) \<ge> ZMS_NTP_UNIX_OFFSET"
    by (simp add: word_le_nat_alt unat_up sec ZMS_NTP_UNIX_OFFSET_def)
  then have s: "unat ((ucast sec :: u64) - ZMS_NTP_UNIX_OFFSET) = unat wall div 1000"
    by (simp only: unat_sub unat_up sec) (simp add: ZMS_NTP_UNIX_OFFSET_def)
  have nb: "unat nfrac * 1000 < 2 ^ 64" using unat_bound[of nfrac] by simp
  then have n: "unat ((ucast nfrac :: u64) * 1000 div 0x100000000) = unat nfrac * 1000 div 4294967296"
    by (simp add: unat_div unat_word_ariths unat_up)
  have b: "unat nfrac * 1000 div 4294967296 < 1000"
    using unat_bound[of nfrac] by (intro less_mult_imp_div_less) simp
  have "unat (ntp_to_wall_ms sec nfrac) = unat wall div 1000 * 1000 + unat nfrac * 1000 div 4294967296"
    unfolding ntp_to_wall_ms_def Let_def if_P[OF le]
    by (rule unat_sec_ms[OF s n]) (use lt b in simp)
  also have "\<dots> + (if unat wall mod 125 = 0 then 0 else 1) = unat wall"
  proof -
    have "?m mod 125 = unat wall mod 125" by (simp add: mod_mod_cancel)
    then have "?m = unat nfrac * 1000 div 4294967296 + (if unat wall mod 125 = 0 then 0 else 1)"
      using frac_back[of ?m] by (simp only: f)
    moreover have "unat wall = unat wall div 1000 * 1000 + ?m" by simp
    ultimately show ?thesis by linarith
  qed
  finally show ?thesis using assms
    by (auto simp: e word_unat_eq_iff unat_word_ariths)
qed

theorem ntp_wall_roundtrip_witness:
  "(1700000000123 :: u64) = (case zms_wall_ms_to_ntp 1700000000123 of (nsec, nfrac) \<Rightarrow> ntp_to_wall_ms nsec nfrac)
     + (if unat (1700000000123 :: u64) mod 125 = 0 then 0 else 1)"
  by (rule ntp_wall_roundtrip) simp

lemma ntp_wall_after_2036:
  "(case zms_wall_ms_to_ntp 2085978496000 of (nsec, nfrac) \<Rightarrow> ntp_to_wall_ms nsec nfrac) = 0"
  by (simp add: zms_wall_ms_to_ntp_def ntp_to_wall_ms_def ZMS_NTP_UNIX_OFFSET_def Let_def)

end
