(* ===== verification/Rtp_Muxer.thy ===== *)
theory Rtp_Muxer
  imports Aac_ES Egress_Clock Frame
begin

text \<open>
  The RTP output of a play session, \<open>src/egress/rtp/rtp_muxer.c\<close> and
  \<open>rtp_muxer_paramsets.c\<close>: the muxer state with its play clock and parameter-set caches, the
  lazy set-up of a track in librtsp, the packing of one frame and the session operations
  (arm, jump to live, VOD seek, catch-up). librtsp and libflv are the record \<open>rtsp_lib\<close> of
  functions on an opaque library state; \<open>alloc n\<close> tells whether a buffer of \<open>n\<close> bytes could
  be had. A cache of length zero is the empty list. The packets that librtsp hands to its
  callback during an input, with the track they come from, are the output of the operation.
\<close>

unbundle bit_operations_syntax

section \<open>State\<close>

datatype zms_rtp_mux_track = ZMS_RTP_MUX_TRACK_VIDEO | ZMS_RTP_MUX_TRACK_AUDIO

datatype rtp_payload = RTP_PAYLOAD_H264 | RTP_PAYLOAD_H265 | RTP_PAYLOAD_AV1 | RTP_PAYLOAD_VP8
  | RTP_PAYLOAD_VP9 | RTP_PAYLOAD_H266 | RTP_PAYLOAD_MP4A | RTP_PAYLOAD_PCMA | RTP_PAYLOAD_PCMU
  | RTP_PAYLOAD_OPUS

record zms_rtp_muxer_stats =
  st_video_pkt_count :: u32
  st_video_octet_count :: u32
  st_audio_pkt_count :: u32
  st_audio_octet_count :: u32
  st_video_last_rtp_ts :: u32
  st_audio_last_rtp_ts :: u32

definition stats_zero :: zms_rtp_muxer_stats where
  "stats_zero = \<lparr>st_video_pkt_count = 0, st_video_octet_count = 0, st_audio_pkt_count = 0,
     st_audio_octet_count = 0, st_video_last_rtp_ts = 0, st_audio_last_rtp_ts = 0\<rparr>"

record zms_rtp_muxer_opts =
  op_video_clock_hz :: u32
  op_audio_clock_hz :: u32
  op_video_ssrc :: u32
  op_audio_ssrc :: u32
  op_video_seq :: u16
  op_audio_seq :: u16
  op_audio_rate :: int
  op_audio_codec :: zms_codec_id
  op_video_pt :: u8
  op_audio_pt :: u8
  op_audio_extra :: bytes
  op_video_extra :: bytes

text \<open>
  A call of \<open>rtsp_muxer_input\<close> gives its status, the packets it produced (payload id and
  bytes) and the next library state. The converters are \<open>flv_video_tag_header_write\<close> for an
  AVC sequence header, \<open>mpeg4_avc_decoder_configuration_record_save\<close>, the \<open>hvcC\<close> writer of
  \<open>zms_h265_hvcc_from_annexb\<close> and the \<open>av1C\<close> writer of \<open>zms_av1_extradata_from_obu\<close>.
\<close>

record 'l rtsp_lib =
  rtsp_muxer_create :: "'l option"
  rtsp_muxer_add_payload :: "'l \<Rightarrow> u32 \<Rightarrow> nat \<Rightarrow> string \<Rightarrow> u16 \<Rightarrow> u32 \<Rightarrow> bytes \<Rightarrow> int \<times> 'l"
  rtsp_muxer_add_media :: "'l \<Rightarrow> int \<Rightarrow> rtp_payload \<Rightarrow> int \<times> 'l"
  rtsp_muxer_sync_timeline :: "'l \<Rightarrow> int \<Rightarrow> int \<Rightarrow> u32 \<Rightarrow> bool \<times> 'l"
  rtsp_muxer_input :: "'l \<Rightarrow> int \<Rightarrow> int \<Rightarrow> bytes \<Rightarrow> bool \<Rightarrow> bool \<times> (int \<times> bytes) list \<times> 'l"
  rtsp_muxer_getinfo :: "'l \<Rightarrow> int \<Rightarrow> u16 option"
  flv_seq_hdr_write :: "nat \<Rightarrow> bytes option"
  avcc_record_save :: "bytes \<Rightarrow> bytes \<Rightarrow> nat \<Rightarrow> bytes option"
  hvcc_of_annexb :: "bytes \<Rightarrow> nat \<Rightarrow> bytes option"
  av1c_of_obu :: "bytes \<Rightarrow> nat \<Rightarrow> bytes option"

record 'l zms_rtp_muxer =
  m_opts :: zms_rtp_muxer_opts
  m_stats :: zms_rtp_muxer_stats
  m_v_seq :: u16
  m_a_seq :: u16
  m_clk :: zms_egress_clock
  m_video_key_out :: bool
  m_catchup :: bool
  m_catchup_left :: int
  m_abs_rtp_ts :: bool
  m_vod_seek_ms :: u32
  m_zms :: "'l option"
  m_v_pid :: int
  m_a_pid :: int
  m_v_mid :: int
  m_a_mid :: int
  m_video_codec :: zms_codec_id
  m_hevc_vps :: bytes
  m_hevc_sps :: bytes
  m_hevc_pps :: bytes
  m_h264_sps :: bytes
  m_h264_pps :: bytes
  m_h264_avcc :: bytes
  m_hevc_hvcc :: bytes
  m_aac_asc :: bytes
  m_av1_av1c :: bytes

section \<open>Packets of the library\<close>

definition mux_emit ::
  "'l zms_rtp_muxer \<Rightarrow> zms_rtp_mux_track \<Rightarrow> bytes
     \<Rightarrow> 'l zms_rtp_muxer \<times> (zms_rtp_mux_track \<times> bytes) list" where
  "mux_emit m track rtp =
     (if length rtp < 8 then (m, [])
      else
        let ts = be32 rtp 4; n = (of_nat (length rtp) :: u32); st = m_stats m in
        (if track = ZMS_RTP_MUX_TRACK_VIDEO
         then m\<lparr>m_stats := st\<lparr>st_video_last_rtp_ts := ts,
                    st_video_pkt_count := st_video_pkt_count st + 1,
                    st_video_octet_count := st_video_octet_count st + n\<rparr>,
                m_v_seq := be16 rtp 2 + 1\<rparr>
         else m\<lparr>m_stats := st\<lparr>st_audio_last_rtp_ts := ts,
                    st_audio_pkt_count := st_audio_pkt_count st + 1,
                    st_audio_octet_count := st_audio_octet_count st + n\<rparr>,
                m_a_seq := be16 rtp 2 + 1\<rparr>,
         [(track, rtp)]))"

definition zms_rtsp_onpacket ::
  "'l zms_rtp_muxer \<times> (zms_rtp_mux_track \<times> bytes) list \<Rightarrow> int \<times> bytes
     \<Rightarrow> 'l zms_rtp_muxer \<times> (zms_rtp_mux_track \<times> bytes) list" where
  "zms_rtsp_onpacket mo pk =
     (case (mo, pk) of
        ((m, out), (pid, data)) \<Rightarrow>
          if data = [] then (m, out)
          else if pid = m_v_pid m then
            (case mux_emit m ZMS_RTP_MUX_TRACK_VIDEO data of (m', o') \<Rightarrow> (m', out @ o'))
          else if pid = m_a_pid m then
            (case mux_emit m ZMS_RTP_MUX_TRACK_AUDIO data of (m', o') \<Rightarrow> (m', out @ o'))
          else (m, out))"

definition zms_rtsp_drop_video :: "'l zms_rtp_muxer \<Rightarrow> 'l zms_rtp_muxer" where
  "zms_rtsp_drop_video m = m\<lparr>m_v_pid := -1, m_v_mid := -1, m_video_codec := ZMS_CODEC_INVALID\<rparr>"

definition zms_rtsp_snapshot_seq :: "'l rtsp_lib \<Rightarrow> 'l zms_rtp_muxer \<Rightarrow> 'l zms_rtp_muxer" where
  "zms_rtsp_snapshot_seq L m =
     (case m_zms m of
        None \<Rightarrow> m
      | Some z \<Rightarrow>
          let m1 = (if m_v_pid m \<ge> 0 then
                      (case rtsp_muxer_getinfo L z (m_v_pid m) of
                         Some seq \<Rightarrow> m\<lparr>m_v_seq := seq\<rparr> | None \<Rightarrow> m) else m)
          in if m_a_pid m1 \<ge> 0 then
               (case rtsp_muxer_getinfo L z (m_a_pid m1) of
                  Some seq \<Rightarrow> m1\<lparr>m_a_seq := seq\<rparr> | None \<Rightarrow> m1) else m1)"

definition zms_rtsp_recreate :: "'l rtsp_lib \<Rightarrow> 'l zms_rtp_muxer \<Rightarrow> 'l zms_rtp_muxer" where
  "zms_rtsp_recreate L m =
     m\<lparr>m_zms := rtsp_muxer_create L, m_v_pid := -1, m_a_pid := -1, m_v_mid := -1, m_a_mid := -1,
       m_video_codec := ZMS_CODEC_INVALID\<rparr>"

definition zms_rtsp_codec_supported :: "zms_codec_id \<Rightarrow> zms_rtp_mux_track \<Rightarrow> bool" where
  "zms_rtsp_codec_supported codec trk =
     (if trk = ZMS_RTP_MUX_TRACK_VIDEO
      then codec = ZMS_CODEC_H264 \<or> codec = ZMS_CODEC_H265 \<or> codec = ZMS_CODEC_AV1 \<or>
           codec = ZMS_CODEC_VP8 \<or> codec = ZMS_CODEC_VP9 \<or> codec = ZMS_CODEC_H266
      else codec = ZMS_CODEC_AAC \<or> codec = ZMS_CODEC_G711A \<or> codec = ZMS_CODEC_G711U \<or>
           codec = ZMS_CODEC_OPUS)"


section \<open>Parameter-set caches\<close>

definition ZMS_RTSP_MUXER_HEVC_PARAM_MAX :: nat where "ZMS_RTSP_MUXER_HEVC_PARAM_MAX = 512"
definition ZMS_RTSP_MUXER_H264_PARAM_MAX :: nat where "ZMS_RTSP_MUXER_H264_PARAM_MAX = 512"
definition ZMS_RTSP_MUXER_H264_AVCC_MAX :: nat where "ZMS_RTSP_MUXER_H264_AVCC_MAX = 512"
definition ZMS_RTSP_MUXER_H265_HVCC_MAX :: nat where "ZMS_RTSP_MUXER_H265_HVCC_MAX = 1024"
definition ZMS_RTSP_MUXER_AAC_ASC_MAX :: nat where "ZMS_RTSP_MUXER_AAC_ASC_MAX = 64"
definition ZMS_RTSP_MUXER_AV1_AV1C_MAX :: nat where "ZMS_RTSP_MUXER_AV1_AV1C_MAX = 256"

lemmas mux_limits = ZMS_RTSP_MUXER_HEVC_PARAM_MAX_def ZMS_RTSP_MUXER_H264_PARAM_MAX_def
  ZMS_RTSP_MUXER_H264_AVCC_MAX_def ZMS_RTSP_MUXER_H265_HVCC_MAX_def
  ZMS_RTSP_MUXER_AAC_ASC_MAX_def ZMS_RTSP_MUXER_AV1_AV1C_MAX_def

text \<open>The slot after \<open>mux_slot_store\<close>, with its result.\<close>

definition mux_slot_store :: "(nat \<Rightarrow> bool) \<Rightarrow> bytes \<Rightarrow> bytes \<Rightarrow> nat \<Rightarrow> bool \<times> bytes" where
  "mux_slot_store alloc old src max_n =
     (if src = [] \<or> length src > max_n then (False, old)
      else if \<not> alloc (length src) then (False, old)
      else (True, src))"

definition mux_hevc_cache_clear :: "'l zms_rtp_muxer \<Rightarrow> 'l zms_rtp_muxer" where
  "mux_hevc_cache_clear m = m\<lparr>m_hevc_vps := [], m_hevc_sps := [], m_hevc_pps := []\<rparr>"

definition mux_hevc_cache_store ::
  "(nat \<Rightarrow> bool) \<Rightarrow> 'l zms_rtp_muxer \<Rightarrow> bytes \<Rightarrow> bytes \<Rightarrow> bytes \<Rightarrow> 'l zms_rtp_muxer" where
  "mux_hevc_cache_store alloc m vps sps pps =
     (mux_hevc_cache_clear m)\<lparr>
        m_hevc_vps := snd (mux_slot_store alloc [] vps ZMS_RTSP_MUXER_HEVC_PARAM_MAX),
        m_hevc_sps := snd (mux_slot_store alloc [] sps ZMS_RTSP_MUXER_HEVC_PARAM_MAX),
        m_hevc_pps := snd (mux_slot_store alloc [] pps ZMS_RTSP_MUXER_HEVC_PARAM_MAX)\<rparr>"

definition obytes :: "bytes option \<Rightarrow> bytes" where
  "obytes x = (case x of None \<Rightarrow> [] | Some b \<Rightarrow> b)"

definition mux_hevc_refresh_params_from_au ::
  "(nat \<Rightarrow> bool) \<Rightarrow> nal_split \<Rightarrow> 'l zms_rtp_muxer \<Rightarrow> bytes \<Rightarrow> bool \<times> 'l zms_rtp_muxer" where
  "mux_hevc_refresh_params_from_au alloc nalus m annexb =
     (if length annexb < 5 then (False, m)
      else (case zms_h265_annexb_extract_vps_sps_pps nalus annexb of
              (ok, c) \<Rightarrow>
                if \<not> ok then (False, m)
                else if obytes (hp_sps c) = [] \<or> obytes (hp_pps c) = [] then (False, m)
                else (True, mux_hevc_cache_store alloc m (obytes (hp_vps c)) (obytes (hp_sps c))
                              (obytes (hp_pps c)))))"

definition mux_h264_cache_store ::
  "(nat \<Rightarrow> bool) \<Rightarrow> 'l zms_rtp_muxer \<Rightarrow> bytes \<Rightarrow> bytes \<Rightarrow> 'l zms_rtp_muxer" where
  "mux_h264_cache_store alloc m sps pps =
     m\<lparr>m_h264_sps := snd (mux_slot_store alloc [] sps ZMS_RTSP_MUXER_H264_PARAM_MAX),
       m_h264_pps := snd (mux_slot_store alloc [] pps ZMS_RTSP_MUXER_H264_PARAM_MAX)\<rparr>"

definition locate_avcc :: "bytes \<Rightarrow> bytes option" where
  "locate_avcc d =
     (if length d < 7 then None
      else if d ! 0 = 0x17 \<and> d ! 1 = 0x00 \<and> d ! 5 = 1 then Some (drop 5 d)
      else if d ! 0 = 0x17 \<and> d ! 1 = 0x00 \<and> d ! 2 = 1 then Some (drop 2 d)
      else if (d ! 0) AND 0x0f = 7 \<and> d ! 1 = 0 then Some (drop 5 d)
      else if d ! 0 = 1 then Some d
      else None)"

definition mux_h264_store_avcc ::
  "(nat \<Rightarrow> bool) \<Rightarrow> 'l zms_rtp_muxer \<Rightarrow> bytes \<Rightarrow> 'l zms_rtp_muxer" where
  "mux_h264_store_avcc alloc m vcfg =
     (let m0 = m\<lparr>m_h264_avcc := []\<rparr> in
      if vcfg = [] then m0
      else (case locate_avcc vcfg of
              None \<Rightarrow> m0
            | Some avcc \<Rightarrow>
                if avcc = [] then m0
                else m0\<lparr>m_h264_avcc := snd (mux_slot_store alloc [] avcc ZMS_RTSP_MUXER_H264_AVCC_MAX)\<rparr>))"

text \<open>\<open>zms_rtmp_avc_seq_header\<close>: the FLV video header, then the record.\<close>

definition zms_rtmp_avc_seq_header ::
  "'l rtsp_lib \<Rightarrow> bytes \<Rightarrow> bytes \<Rightarrow> nat \<Rightarrow> ztk_err \<times> bytes" where
  "zms_rtmp_avc_seq_header L sps pps cap =
     (if sps = [] \<or> pps = [] then (ZTK_ERR_INVALID, [])
      else if cap < 6 then (ZTK_ERR_BUFFER_TOO_SMALL, [])
      else (case flv_seq_hdr_write L cap of
              None \<Rightarrow> (ZTK_ERR_BUFFER_TOO_SMALL, [])
            | Some hdr \<Rightarrow>
                (case avcc_record_save L sps pps (cap - length hdr) of
                   None \<Rightarrow> (ZTK_ERR_INVALID, [])
                 | Some r \<Rightarrow> if r = [] then (ZTK_ERR_INVALID, []) else (ZTK_OK, hdr @ r))))"

definition mux_h264_build_avcc_fallback ::
  "(nat \<Rightarrow> bool) \<Rightarrow> 'l rtsp_lib \<Rightarrow> 'l zms_rtp_muxer \<Rightarrow> 'l zms_rtp_muxer" where
  "mux_h264_build_avcc_fallback alloc L m =
     (if m_h264_avcc m \<noteq> [] then m
      else if m_h264_sps m = [] \<or> m_h264_pps m = [] then m
      else (case zms_rtmp_avc_seq_header L (m_h264_sps m) (m_h264_pps m)
                   ZMS_RTSP_MUXER_H264_AVCC_MAX of
              (err, hdr) \<Rightarrow> if err \<noteq> ZTK_OK then m else mux_h264_store_avcc alloc m hdr))"

definition zms_h265_hvcc_from_param_sets ::
  "'l rtsp_lib \<Rightarrow> bytes option \<Rightarrow> bytes option \<Rightarrow> bytes option \<Rightarrow> nat \<Rightarrow> ztk_err \<times> bytes" where
  "zms_h265_hvcc_from_param_sets L vps sps pps cap =
     (case zms_h265_param_sets_to_annexb vps sps pps 4096 of
        (err, annexb) \<Rightarrow>
          if err \<noteq> ZTK_OK then (err, [])
          else (case hvcc_of_annexb L annexb cap of
                  None \<Rightarrow> (ZTK_ERR_INVALID, []) | Some h \<Rightarrow> (ZTK_OK, h)))"

definition nonempty :: "bytes \<Rightarrow> bytes option" where
  "nonempty b = (if b = [] then None else Some b)"

definition mux_hevc_build_hvcc_fallback ::
  "(nat \<Rightarrow> bool) \<Rightarrow> 'l rtsp_lib \<Rightarrow> 'l zms_rtp_muxer \<Rightarrow> 'l zms_rtp_muxer" where
  "mux_hevc_build_hvcc_fallback alloc L m =
     (if m_hevc_hvcc m \<noteq> [] then m
      else if m_hevc_sps m = [] \<or> m_hevc_pps m = [] then m
      else (case zms_h265_hvcc_from_param_sets L (nonempty (m_hevc_vps m)) (Some (m_hevc_sps m))
                   (Some (m_hevc_pps m)) ZMS_RTSP_MUXER_H265_HVCC_MAX of
              (err, h) \<Rightarrow>
                if err \<noteq> ZTK_OK then m
                else m\<lparr>m_hevc_hvcc := snd (mux_slot_store alloc [] h ZMS_RTSP_MUXER_H265_HVCC_MAX)\<rparr>))"

definition mux_av1_try_cache_av1c_from_obu ::
  "(nat \<Rightarrow> bool) \<Rightarrow> 'l rtsp_lib \<Rightarrow> es_ext \<Rightarrow> 'l zms_rtp_muxer \<Rightarrow> bytes \<Rightarrow> 'l zms_rtp_muxer" where
  "mux_av1_try_cache_av1c_from_obu alloc L E m obu =
     (if m_av1_av1c m \<noteq> [] \<or> length obu < 2 then m
      else if \<not> zms_av1_obu_has_sequence_header E obu then m
      else (case av1c_of_obu L obu ZMS_RTSP_MUXER_AV1_AV1C_MAX of
              None \<Rightarrow> m
            | Some c \<Rightarrow>
                m\<lparr>m_av1_av1c := snd (mux_slot_store alloc [] c ZMS_RTSP_MUXER_AV1_AV1C_MAX)\<rparr>))"

definition mux_av1_store_av1c :: "(nat \<Rightarrow> bool) \<Rightarrow> 'l zms_rtp_muxer \<Rightarrow> bytes \<Rightarrow> 'l zms_rtp_muxer" where
  "mux_av1_store_av1c alloc m c =
     m\<lparr>m_av1_av1c := snd (mux_slot_store alloc (m_av1_av1c m) c ZMS_RTSP_MUXER_AV1_AV1C_MAX)\<rparr>"

definition mux_aac_store_asc :: "(nat \<Rightarrow> bool) \<Rightarrow> 'l zms_rtp_muxer \<Rightarrow> bytes \<Rightarrow> bool \<times> 'l zms_rtp_muxer" where
  "mux_aac_store_asc alloc m c =
     (case mux_slot_store alloc (m_aac_asc m) c ZMS_RTSP_MUXER_AAC_ASC_MAX of
        (ok, v) \<Rightarrow> (ok, m\<lparr>m_aac_asc := v\<rparr>))"

section \<open>Setting up a track\<close>

definition mux_video_clock_hz :: "'l zms_rtp_muxer \<Rightarrow> u32" where
  "mux_video_clock_hz m = (if op_video_clock_hz (m_opts m) > 0 then op_video_clock_hz (m_opts m) else 90000)"

definition mux_audio_clock_hz :: "'l zms_rtp_muxer \<Rightarrow> u32" where
  "mux_audio_clock_hz m =
     (if op_audio_clock_hz (m_opts m) > 0 then op_audio_clock_hz (m_opts m)
      else if op_audio_rate (m_opts m) > 0 then word_of_int (op_audio_rate (m_opts m)) else 44100)"

definition video_enc :: "zms_codec_id \<Rightarrow> (string \<times> rtp_payload) option" where
  "video_enc codec =
     (if codec = ZMS_CODEC_H264 then Some (''H264'', RTP_PAYLOAD_H264)
      else if codec = ZMS_CODEC_H265 then Some (''HEVC'', RTP_PAYLOAD_H265)
      else if codec = ZMS_CODEC_AV1 then Some (''AV1'', RTP_PAYLOAD_AV1)
      else if codec = ZMS_CODEC_VP8 then Some (''VP8'', RTP_PAYLOAD_VP8)
      else if codec = ZMS_CODEC_VP9 then Some (''VP9'', RTP_PAYLOAD_VP9)
      else if codec = ZMS_CODEC_H266 then Some (''H266'', RTP_PAYLOAD_H266)
      else None)"

text \<open>The extradata of a codec, after its fallback: \<open>None\<close> when it is needed and missing.\<close>

definition video_extra ::
  "(nat \<Rightarrow> bool) \<Rightarrow> 'l rtsp_lib \<Rightarrow> 'l zms_rtp_muxer \<Rightarrow> zms_codec_id \<Rightarrow> 'l zms_rtp_muxer \<times> bytes option" where
  "video_extra alloc L m codec =
     (if codec = ZMS_CODEC_H264 then
        (let m1 = mux_h264_build_avcc_fallback alloc L m in (m1, nonempty (m_h264_avcc m1)))
      else if codec = ZMS_CODEC_H265 then
        (let m1 = mux_hevc_build_hvcc_fallback alloc L m in (m1, nonempty (m_hevc_hvcc m1)))
      else if codec = ZMS_CODEC_AV1 then (m, nonempty (m_av1_av1c m))
      else (m, Some []))"

text \<open>
  \<open>zms_ensure_video\<close>. When librtsp could not be created again the source goes on with a NULL
  muxer; the model stops there with the error status.
\<close>

definition zms_ensure_video ::
  "(nat \<Rightarrow> bool) \<Rightarrow> 'l rtsp_lib \<Rightarrow> 'l zms_rtp_muxer \<Rightarrow> zms_codec_id \<Rightarrow> bool \<times> 'l zms_rtp_muxer" where
  "zms_ensure_video alloc L m codec =
     (if m_zms m = None then (False, m)
      else if m_v_mid m \<ge> 0 \<and> m_video_codec m = codec then (True, m)
      else
        let m1 = (if m_v_mid m \<ge> 0 then zms_rtsp_recreate L m else m) in
        case video_enc codec of
          None \<Rightarrow> (False, m1)
        | Some (enc, payload) \<Rightarrow>
            (case video_extra alloc L m1 codec of
               (m2, None) \<Rightarrow> (False, m2)
             | (m2, Some extra) \<Rightarrow>
                 (case m_zms m2 of
                    None \<Rightarrow> (False, m2)
                  | Some z \<Rightarrow>
                      (case rtsp_muxer_add_payload L z (mux_video_clock_hz m2)
                              (if op_video_pt (m_opts m2) \<noteq> 0 then unat (op_video_pt (m_opts m2)) else 96)
                              enc (m_v_seq m2) (op_video_ssrc (m_opts m2)) extra of
                         (pid, z1) \<Rightarrow>
                           let m3 = m2\<lparr>m_v_pid := pid, m_zms := Some z1\<rparr> in
                           if pid < 0 then (False, m3)
                           else (case rtsp_muxer_add_media L z1 pid payload of
                                   (mid, z2) \<Rightarrow>
                                     let m4 = m3\<lparr>m_v_mid := mid, m_zms := Some z2\<rparr> in
                                     if mid < 0 then (False, m4)
                                     else (True, m4\<lparr>m_video_codec := codec\<rparr>))))))"

definition audio_enc :: "zms_rtp_muxer_opts \<Rightarrow> string \<times> rtp_payload \<times> int" where
  "audio_enc op =
     (let rate = (if op_audio_rate op > 0 then op_audio_rate op else 44100) in
      if op_audio_codec op = ZMS_CODEC_G711A then (''PCMA'', RTP_PAYLOAD_PCMA, 8000)
      else if op_audio_codec op = ZMS_CODEC_G711U then (''PCMU'', RTP_PAYLOAD_PCMU, 8000)
      else if op_audio_codec op = ZMS_CODEC_OPUS
        then (''opus'', RTP_PAYLOAD_OPUS, if op_audio_rate op > 0 then op_audio_rate op else 48000)
      else (''mpeg4-generic'', RTP_PAYLOAD_MP4A, rate))"

definition zms_ensure_audio :: "'l rtsp_lib \<Rightarrow> 'l zms_rtp_muxer \<Rightarrow> bool \<times> 'l zms_rtp_muxer" where
  "zms_ensure_audio L m =
     (case m_zms m of
        None \<Rightarrow> (False, m)
      | Some z \<Rightarrow>
          if m_a_mid m \<ge> 0 then (True, m)
          else
            let op = m_opts m; (enc, payload, rate) = audio_enc op;
                apt = (if op_audio_codec op = ZMS_CODEC_G711A \<or> op_audio_codec op = ZMS_CODEC_G711U
                       then unat (op_audio_pt op)
                       else if op_audio_pt op \<noteq> 0 then unat (op_audio_pt op) else 97)
            in if op_audio_codec op = ZMS_CODEC_AAC \<and> m_aac_asc m = [] then (False, m)
               else
                 let extra = (if op_audio_codec op = ZMS_CODEC_AAC then m_aac_asc m else []) in
                 case rtsp_muxer_add_payload L z (word_of_int rate) apt enc (m_a_seq m)
                        (op_audio_ssrc op) extra of
                   (pid, z1) \<Rightarrow>
                     let m1 = m\<lparr>m_a_pid := pid, m_zms := Some z1\<rparr> in
                     if pid < 0 then (False, m1)
                     else (case rtsp_muxer_add_media L z1 pid payload of
                             (mid, z2) \<Rightarrow> (mid \<ge> 0, m1\<lparr>m_a_mid := mid, m_zms := Some z2\<rparr>)))"


section \<open>Packing a frame\<close>

definition zms_pack_bits ::
  "(nat \<Rightarrow> bool) \<Rightarrow> 'l rtsp_lib \<Rightarrow> 'l zms_rtp_muxer \<Rightarrow> bytes \<Rightarrow> zms_codec_id \<Rightarrow> zms_rtp_mux_track
     \<Rightarrow> int \<Rightarrow> u32 \<Rightarrow> bool \<Rightarrow> int \<times> 'l zms_rtp_muxer \<times> (zms_rtp_mux_track \<times> bytes) list" where
  "zms_pack_bits alloc L m data codec trk dts_ms rtp_ts keyframe =
     (if data = [] then (-1, m, [])
      else
        case (if trk = ZMS_RTP_MUX_TRACK_VIDEO then zms_ensure_video alloc L m codec
              else zms_ensure_audio L m) of
          (ok, m1) \<Rightarrow>
            if \<not> ok then (-1, m1, [])
            else
              let mid = (if trk = ZMS_RTP_MUX_TRACK_VIDEO then m_v_mid m1 else m_a_mid m1);
                  pid = (if trk = ZMS_RTP_MUX_TRACK_VIDEO then m_v_pid m1 else m_a_pid m1)
              in case m_zms m1 of
                   None \<Rightarrow> (-1, m1, [])
                 | Some z \<Rightarrow>
                     (case rtsp_muxer_sync_timeline L z pid dts_ms rtp_ts of
                        (synced, z1) \<Rightarrow>
                          if \<not> synced then (-1, m1\<lparr>m_zms := Some z1\<rparr>, [])
                          else (case rtsp_muxer_input L z1 mid dts_ms data keyframe of
                                  (done_ok, pks, z2) \<Rightarrow>
                                    (case foldl zms_rtsp_onpacket (m1\<lparr>m_zms := Some z2\<rparr>, []) pks of
                                       (m2, out) \<Rightarrow> (if done_ok then 1 else -1, m2, out)))))"

text \<open>
  The first half of \<open>mux_pack_frame\<close>: hold video back until a play start, fill the caches
  from a config frame, lock or move the epoch at the first key frame, and compute the RTP
  stamp. \<open>Inl r\<close> is an early return of \<open>r\<close>, \<open>Inr (rtp_ts, video_key)\<close> goes on.
\<close>

definition h264_cache_config ::
  "(nat \<Rightarrow> bool) \<Rightarrow> es_ext \<Rightarrow> 'l zms_rtp_muxer \<Rightarrow> zms_frame \<Rightarrow> 'l zms_rtp_muxer" where
  "h264_cache_config alloc E m f =
     (if f_codec f = ZMS_CODEC_H264 then
        (case zms_h264_annexb_extract_sps_pps (annexb_split E) (f_bytes f) of
           (ok, c) \<Rightarrow>
             if ok \<and> p_sps c \<noteq> None \<and> p_pps c \<noteq> None
             then mux_h264_cache_store alloc m (the (p_sps c)) (the (p_pps c)) else m)
      else m)"

definition mux_lock_epoch :: "u64 \<Rightarrow> 'l zms_rtp_muxer \<Rightarrow> u32 \<Rightarrow> 'l zms_rtp_muxer" where
  "mux_lock_epoch now m dts =
     (if m_video_key_out m then m
      else if \<not> zms_egress_clock_epoch_locked (m_clk m)
        then m\<lparr>m_clk := snd (zms_egress_clock_lock_epoch now (m_clk m) dts)\<rparr>
      else if m_abs_rtp_ts m \<and> k_epoch_ms (m_clk m) \<noteq> dts
        then m\<lparr>m_clk := zms_egress_clock_rebase now (m_clk m) dts\<rparr>
      else m)"

definition mux_rtp_ts :: "'l zms_rtp_muxer \<Rightarrow> u32 \<Rightarrow> u32 \<Rightarrow> u32" where
  "mux_rtp_ts m dts hz =
     (if m_abs_rtp_ts m then zms_ms_to_rtp_clock dts hz else zms_egress_clock_rtp_ts (m_clk m) dts hz)"

definition mux_gate ::
  "(nat \<Rightarrow> bool) \<Rightarrow> es_ext \<Rightarrow> registry \<Rightarrow> u64 \<Rightarrow> 'l zms_rtp_muxer \<Rightarrow> zms_frame
     \<Rightarrow> (int + u32 \<times> bool) \<times> 'l zms_rtp_muxer" where
  "mux_gate alloc E g now m f =
     (let dts = (ucast (f_dts_ms f) :: u32) in
      if f_track f = ZMS_TRACK_VIDEO then
        (if \<not> f_config_frame f \<and> \<not> m_video_key_out m \<and> \<not> zms_frame_is_play_start E g f
         then (Inl 0, m)
         else
           let video_key = (f_keyframe f \<or> zms_frame_is_play_start E g f) in
           if f_config_frame f then
             (if f_codec f = ZMS_CODEC_H265
              then (Inl 0, snd (mux_hevc_refresh_params_from_au alloc (annexb_split E) m (f_bytes f)))
              else
                let m1 = h264_cache_config alloc E m f in
                (Inr (if m_abs_rtp_ts m1 then zms_ms_to_rtp_clock (m_vod_seek_ms m1) (mux_video_clock_hz m1)
                      else 0, video_key), m1))
           else
             let m1 = mux_lock_epoch now m dts in
             if \<not> zms_egress_clock_epoch_locked (m_clk m1) then (Inl 0, m1)
             else (Inr (mux_rtp_ts m1 dts (mux_video_clock_hz m1), video_key), m1))
      else if \<not> zms_egress_clock_epoch_locked (m_clk m) then (Inl 0, m)
      else (Inr (mux_rtp_ts m dts (mux_audio_clock_hz m), False), m))"

text \<open>The second half: the bytes that go to librtsp, per codec.\<close>

definition set_key_out :: "bool \<Rightarrow> int \<times> 'l zms_rtp_muxer \<times> 'o \<Rightarrow> int \<times> 'l zms_rtp_muxer \<times> 'o" where
  "set_key_out key res =
     (case res of (r, m, out) \<Rightarrow>
        if r < 0 then (-1, m, out) else (r, if key then m\<lparr>m_video_key_out := True\<rparr> else m, out))"

definition hevc_pack_data ::
  "(nat \<Rightarrow> bool) \<Rightarrow> nal_split \<Rightarrow> 'l zms_rtp_muxer \<Rightarrow> bytes \<Rightarrow> bool \<Rightarrow> bytes option" where
  "hevc_pack_data alloc nalus m d key =
     (let need = length d + length (m_hevc_vps m) + length (m_hevc_sps m) + length (m_hevc_pps m) + 64;
          prep = (if key \<and> m_hevc_sps m \<noteq> [] \<and> m_hevc_pps m \<noteq> [] \<and> alloc need then
                    (case zms_h265_annexb_build_rtp_au nalus (nonempty (m_hevc_vps m))
                            (Some (m_hevc_sps m)) (Some (m_hevc_pps m)) d True need of
                       (err, out) \<Rightarrow> if err = ZTK_OK \<and> out \<noteq> [] then Some out else None)
                  else None)
      in case prep of
           Some out \<Rightarrow> Some out
         | None \<Rightarrow>
             if \<not> alloc (length d) then None
             else (case zms_h265_annexb_copy_vcl nalus d (length d) of
                     (err, vcl) \<Rightarrow> if err \<noteq> ZTK_OK \<or> vcl = [] then None else Some vcl))"

definition h264_pack_data :: "(nat \<Rightarrow> bool) \<Rightarrow> nal_split \<Rightarrow> bytes \<Rightarrow> bytes option" where
  "h264_pack_data alloc nalus d =
     (if \<not> alloc (length d) then None
      else (case zms_h264_annexb_copy_vcl nalus d (length d) of
              (err, vcl) \<Rightarrow> if err \<noteq> ZTK_OK \<or> vcl = [] then None else Some vcl))"

definition aac_pack_data :: "bytes \<Rightarrow> bytes option" where
  "aac_pack_data d =
     (case zms_aac_es_to_raw d of
        (err, raw) \<Rightarrow>
          if err = ZTK_OK \<and> raw \<noteq> d
          then (if raw = [] \<or> length raw > 8192 then None else Some raw)
          else Some d)"

definition mux_pack_codec ::
  "(nat \<Rightarrow> bool) \<Rightarrow> 'l rtsp_lib \<Rightarrow> es_ext \<Rightarrow> 'l zms_rtp_muxer \<Rightarrow> zms_frame \<Rightarrow> zms_rtp_mux_track
     \<Rightarrow> u32 \<Rightarrow> bool \<Rightarrow> int \<times> 'l zms_rtp_muxer \<times> (zms_rtp_mux_track \<times> bytes) list" where
  "mux_pack_codec alloc L E m1 f trk rtp_ts video_key =
     (let d = f_bytes f; dts = sint (f_dts_ms f); nalus = annexb_split E in
      if \<not> zms_rtsp_codec_supported (f_codec f) trk then (-1, m1, [])
      else if f_codec f = ZMS_CODEC_H265 \<and> f_track f = ZMS_TRACK_VIDEO \<and> \<not> f_config_frame f then
        (let m2 = snd (mux_hevc_refresh_params_from_au alloc nalus m1 d) in
         case hevc_pack_data alloc nalus m2 d video_key of
           None \<Rightarrow> (-1, m2, [])
         | Some pk \<Rightarrow> set_key_out video_key
               (zms_pack_bits alloc L m2 pk (f_codec f) trk dts rtp_ts video_key))
      else if f_codec f = ZMS_CODEC_H264 \<and> trk = ZMS_RTP_MUX_TRACK_VIDEO \<and> \<not> f_config_frame f then
        (case h264_pack_data alloc nalus d of
           None \<Rightarrow> (-1, m1, [])
         | Some pk \<Rightarrow> set_key_out video_key
               (zms_pack_bits alloc L m1 pk (f_codec f) trk dts rtp_ts video_key))
      else
        let m2 = (if f_codec f = ZMS_CODEC_AV1 \<and> trk = ZMS_RTP_MUX_TRACK_VIDEO \<and> \<not> f_config_frame f
                  then mux_av1_try_cache_av1c_from_obu alloc L E m1 d else m1)
        in case (if f_codec f = ZMS_CODEC_AAC \<and> trk = ZMS_RTP_MUX_TRACK_AUDIO
                 then aac_pack_data d else Some d) of
             None \<Rightarrow> (-1, m2, [])
           | Some pk \<Rightarrow>
               set_key_out (trk = ZMS_RTP_MUX_TRACK_VIDEO \<and> video_key \<and> \<not> f_config_frame f)
                 (zms_pack_bits alloc L m2 pk (f_codec f) trk dts rtp_ts video_key))"

definition mux_pack_frame ::
  "(nat \<Rightarrow> bool) \<Rightarrow> 'l rtsp_lib \<Rightarrow> es_ext \<Rightarrow> registry \<Rightarrow> u64 \<Rightarrow> 'l zms_rtp_muxer \<Rightarrow> zms_frame
     \<Rightarrow> zms_rtp_mux_track \<Rightarrow> int \<times> 'l zms_rtp_muxer \<times> (zms_rtp_mux_track \<times> bytes) list" where
  "mux_pack_frame alloc L E g now m f trk =
     (if f_data f = None \<or> f_size f = 0 then (-1, m, [])
      else (case mux_gate alloc E g now m f of
              (Inl r, m1) \<Rightarrow> (r, m1, [])
            | (Inr (rtp_ts, video_key), m1) \<Rightarrow> mux_pack_codec alloc L E m1 f trk rtp_ts video_key))"

definition slot_mux_track :: "zms_gop_slot \<Rightarrow> zms_rtp_mux_track" where
  "slot_mux_track s =
     (if s_track s = ZMS_TRACK_VIDEO then ZMS_RTP_MUX_TRACK_VIDEO else ZMS_RTP_MUX_TRACK_AUDIO)"

definition slot_mux_frame :: "zms_gop_slot \<Rightarrow> zms_frame" where
  "slot_mux_frame s = zms_frame_init\<lparr>f_data := s_data s, f_size := s_len s, f_codec := s_codec s,
     f_track := s_track s, f_keyframe := s_keyframe s, f_config_frame := s_config_frame s,
     f_dts_ms := ucast (s_dts_ms s), f_pts_ms := ucast (zms_gop_slot_pts_ms s)\<rparr>"

definition zms_rtp_muxer_input_slot ::
  "(nat \<Rightarrow> bool) \<Rightarrow> 'l rtsp_lib \<Rightarrow> es_ext \<Rightarrow> registry \<Rightarrow> u64 \<Rightarrow> 'l zms_rtp_muxer \<Rightarrow> zms_gop_slot
     \<Rightarrow> int \<times> 'l zms_rtp_muxer \<times> (zms_rtp_mux_track \<times> bytes) list" where
  "zms_rtp_muxer_input_slot alloc L E g now m s =
     (if s_data s = None \<or> s_len s = 0 then (-1, m, [])
      else if \<not> zms_rtsp_codec_supported (s_codec s) (slot_mux_track s) then (-1, m, [])
      else mux_pack_frame alloc L E g now m (slot_mux_frame s) (slot_mux_track s))"

section \<open>Session operations\<close>

definition zms_rtp_muxer_create ::
  "(nat \<Rightarrow> bool) \<Rightarrow> 'l rtsp_lib \<Rightarrow> bool \<Rightarrow> zms_rtp_muxer_opts \<Rightarrow> 'l zms_rtp_muxer option" where
  "zms_rtp_muxer_create alloc L mem_ok op =
     (if \<not> mem_ok then None
      else case rtsp_muxer_create L of
        None \<Rightarrow> None
      | Some z \<Rightarrow> Some
          \<lparr>m_opts = op\<lparr>op_audio_extra := [], op_video_extra := []\<rparr>, m_stats = stats_zero,
           m_v_seq = (if op_video_seq op \<noteq> 0 then op_video_seq op else 1),
           m_a_seq = (if op_audio_seq op \<noteq> 0 then op_audio_seq op else 1),
           m_clk = zms_egress_clock_init, m_video_key_out = False, m_catchup = False,
           m_catchup_left = 0, m_abs_rtp_ts = False, m_vod_seek_ms = 0, m_zms = Some z,
           m_v_pid = -1, m_a_pid = -1, m_v_mid = -1, m_a_mid = -1,
           m_video_codec = ZMS_CODEC_INVALID,
           m_hevc_vps = [], m_hevc_sps = [], m_hevc_pps = [], m_h264_sps = [], m_h264_pps = [],
           m_h264_avcc = [], m_hevc_hvcc = [],
           m_aac_asc = snd (mux_slot_store alloc [] (op_audio_extra op) ZMS_RTSP_MUXER_AAC_ASC_MAX),
           m_av1_av1c = snd (mux_slot_store alloc [] (op_video_extra op) ZMS_RTSP_MUXER_AV1_AV1C_MAX)\<rparr>)"

definition zms_rtp_muxer_reset :: "'l rtsp_lib \<Rightarrow> 'l zms_rtp_muxer \<Rightarrow> 'l zms_rtp_muxer" where
  "zms_rtp_muxer_reset L m =
     mux_hevc_cache_clear (zms_rtsp_recreate L
       (m\<lparr>m_stats := stats_zero, m_video_key_out := False,
          m_v_seq := (if op_video_seq (m_opts m) \<noteq> 0 then op_video_seq (m_opts m) else 1),
          m_a_seq := (if op_audio_seq (m_opts m) \<noteq> 0 then op_audio_seq (m_opts m) else 1),
          m_clk := zms_egress_clock_reset (m_clk m)\<rparr>))"

definition zms_rtp_muxer_arm_play :: "u64 \<Rightarrow> 'l zms_rtp_muxer \<Rightarrow> 'l zms_rtp_muxer" where
  "zms_rtp_muxer_arm_play now m =
     m\<lparr>m_clk := (zms_egress_clock_arm now (m_clk m))\<lparr>k_abs_rtp_ts := True\<rparr>,
       m_video_key_out := False, m_abs_rtp_ts := True, m_vod_seek_ms := 0\<rparr>"

definition zms_rtp_muxer_jump_live :: "'l zms_rtp_muxer \<Rightarrow> 'l zms_rtp_muxer" where
  "zms_rtp_muxer_jump_live m =
     zms_rtsp_drop_video (m\<lparr>m_video_key_out := False, m_clk := zms_egress_clock_unlock (m_clk m)\<rparr>)"

definition zms_rtp_muxer_set_catchup_budget ::
  "'l zms_rtp_muxer \<Rightarrow> bool \<Rightarrow> int \<Rightarrow> 'l zms_rtp_muxer" where
  "zms_rtp_muxer_set_catchup_budget m on max_frames =
     (if \<not> on then m\<lparr>m_catchup := False, m_catchup_left := 0\<rparr>
      else m\<lparr>m_catchup := True, m_catchup_left := (if max_frames > 0 then max_frames else 256)\<rparr>)"

definition zms_rtp_muxer_set_catchup :: "'l zms_rtp_muxer \<Rightarrow> bool \<Rightarrow> 'l zms_rtp_muxer" where
  "zms_rtp_muxer_set_catchup m on = zms_rtp_muxer_set_catchup_budget m on 256"

definition zms_rtp_muxer_catchup_frame :: "'l zms_rtp_muxer \<Rightarrow> 'l zms_rtp_muxer" where
  "zms_rtp_muxer_catchup_frame m =
     (if \<not> m_catchup m then m
      else let m1 = m\<lparr>m_catchup_left := m_catchup_left m - 1\<rparr> in
        if m_catchup_left m1 \<le> 0 then m1\<lparr>m_catchup := False\<rparr> else m1)"

definition zms_rtp_muxer_awaiting_video_key :: "'l zms_rtp_muxer \<Rightarrow> bool" where
  "zms_rtp_muxer_awaiting_video_key m = (\<not> m_video_key_out m)"

definition zms_rtp_muxer_begin_vod_seek ::
  "'l rtsp_lib \<Rightarrow> u64 \<Rightarrow> 'l zms_rtp_muxer \<Rightarrow> u32 \<Rightarrow> 'l zms_rtp_muxer" where
  "zms_rtp_muxer_begin_vod_seek L now m seek_ms =
     (let m1 = zms_rtsp_snapshot_seq L (m\<lparr>m_stats := stats_zero\<rparr>);
          m2 = mux_hevc_cache_clear (zms_rtsp_recreate L m1);
          m3 = m2\<lparr>m_abs_rtp_ts := True, m_video_key_out := False,
                  m_clk := (m_clk m2)\<lparr>k_paused := False, k_pause_wall_ms := 0\<rparr>\<rparr>;
          m4 = (zms_rtp_muxer_arm_play now m3)\<lparr>m_vod_seek_ms := seek_ms\<rparr>
      in m4\<lparr>m_clk := zms_egress_clock_rebase now (m_clk m4) seek_ms\<rparr>)"

definition zms_rtp_muxer_vod_anchor_ms :: "'l zms_rtp_muxer \<Rightarrow> u32" where
  "zms_rtp_muxer_vod_anchor_ms m = (if m_abs_rtp_ts m then m_vod_seek_ms m else 0)"

definition zms_rtp_muxer_pause_play :: "u64 \<Rightarrow> 'l zms_rtp_muxer \<Rightarrow> 'l zms_rtp_muxer" where
  "zms_rtp_muxer_pause_play now m = m\<lparr>m_clk := zms_egress_clock_pause now (m_clk m)\<rparr>"

definition zms_rtp_muxer_resume_play :: "u64 \<Rightarrow> 'l zms_rtp_muxer \<Rightarrow> 'l zms_rtp_muxer" where
  "zms_rtp_muxer_resume_play now m = m\<lparr>m_clk := zms_egress_clock_resume now (m_clk m)\<rparr>"

definition zms_rtp_muxer_set_play_scale :: "'l zms_rtp_muxer \<Rightarrow> rat \<Rightarrow> 'l zms_rtp_muxer" where
  "zms_rtp_muxer_set_play_scale m scale = m\<lparr>m_clk := zms_egress_clock_set_scale (m_clk m) scale\<rparr>"

end
