(* ===== verification/Rtp_Muxer_Inv.thy ===== *)
theory Rtp_Muxer_Inv
  imports Rtp_Muxer
begin

text \<open>
  What the RTP muxer keeps: the invariant of its state over every operation of a session,
  the accounting of the packets it emitted, the hold-back of everything before a play start
  and the bytes of a packed access unit.
\<close>

section \<open>The invariant\<close>

definition tracks_ok :: "'l zms_rtp_muxer \<Rightarrow> bool" where
  "tracks_ok m =
     ((m_v_mid m \<ge> 0 \<longrightarrow> m_zms m \<noteq> None \<and> m_v_pid m \<ge> 0 \<and>
        zms_rtsp_codec_supported (m_video_codec m) ZMS_RTP_MUX_TRACK_VIDEO) \<and>
      (m_a_mid m \<ge> 0 \<longrightarrow> m_zms m \<noteq> None \<and> m_a_pid m \<ge> 0))"

definition caches_ok :: "'l zms_rtp_muxer \<Rightarrow> bool" where
  "caches_ok m =
     (length (m_hevc_vps m) \<le> 512 \<and> length (m_hevc_sps m) \<le> 512 \<and> length (m_hevc_pps m) \<le> 512 \<and>
      length (m_h264_sps m) \<le> 512 \<and> length (m_h264_pps m) \<le> 512 \<and> length (m_h264_avcc m) \<le> 512 \<and>
      length (m_hevc_hvcc m) \<le> 1024 \<and> length (m_aac_asc m) \<le> 64 \<and> length (m_av1_av1c m) \<le> 256)"

definition play_ok :: "'l zms_rtp_muxer \<Rightarrow> bool" where
  "play_ok m =
     ((m_video_key_out m \<longrightarrow> k_epoch_locked (m_clk m)) \<and> (m_catchup m \<longleftrightarrow> m_catchup_left m > 0))"

definition mux_inv :: "'l zms_rtp_muxer \<Rightarrow> bool" where
  "mux_inv m = (tracks_ok m \<and> caches_ok m \<and> play_ok m)"

lemmas mux_inv_defs [inv_simps] = mux_inv_def tracks_ok_def caches_ok_def play_ok_def

lemma slot_store_bound:
  "length old \<le> n \<Longrightarrow> length (snd (mux_slot_store alloc old src n)) \<le> n"
  by (simp add: mux_slot_store_def)

lemmas slot_store_nil = slot_store_bound[of "[]", simplified]

text \<open>The cache routines touch nothing but the caches.\<close>

definition same_play :: "'l zms_rtp_muxer \<Rightarrow> 'l zms_rtp_muxer \<Rightarrow> bool" where
  "same_play m m' =
     (m_zms m' = m_zms m \<and> m_v_mid m' = m_v_mid m \<and> m_a_mid m' = m_a_mid m \<and> m_v_pid m' = m_v_pid m \<and>
      m_a_pid m' = m_a_pid m \<and> m_video_codec m' = m_video_codec m \<and> m_clk m' = m_clk m \<and>
      m_video_key_out m' = m_video_key_out m \<and> m_catchup m' = m_catchup m \<and>
      m_catchup_left m' = m_catchup_left m \<and> (caches_ok m \<longrightarrow> caches_ok m'))"

lemma same_play_refl [simp]: "same_play m m"
  by (simp add: same_play_def)

lemma same_play_inv: "same_play m m' \<Longrightarrow> mux_inv m \<Longrightarrow> mux_inv m'"
  by (simp add: same_play_def mux_inv_def tracks_ok_def play_ok_def)

lemma same_play_hevc_store: "same_play m (mux_hevc_cache_store alloc m v s p)"
  by (simp add: same_play_def mux_hevc_cache_store_def mux_hevc_cache_clear_def caches_ok_def
      mux_limits slot_store_nil)

lemma same_play_refresh: "same_play m (snd (mux_hevc_refresh_params_from_au alloc nalus m d))"
  by (auto simp: mux_hevc_refresh_params_from_au_def same_play_hevc_store split: prod.splits)

lemma same_play_h264_store: "same_play m (mux_h264_cache_store alloc m s p)"
  by (simp add: same_play_def mux_h264_cache_store_def caches_ok_def mux_limits slot_store_nil)

lemma same_play_h264_config: "same_play m (h264_cache_config alloc E m f)"
  by (auto simp: h264_cache_config_def same_play_h264_store split: prod.splits)

lemma same_play_avcc: "same_play m (mux_h264_store_avcc alloc m cfg)"
  by (auto simp: same_play_def mux_h264_store_avcc_def caches_ok_def mux_limits slot_store_nil Let_def
      split: option.splits)

lemma same_play_extra: "same_play m (fst (video_extra alloc L m codec))"
  by (auto simp: video_extra_def mux_h264_build_avcc_fallback_def mux_hevc_build_hvcc_fallback_def
      same_play_avcc Let_def split: prod.splits)
     (auto simp: same_play_def caches_ok_def mux_limits slot_store_nil)

lemma same_play_av1: "same_play m (mux_av1_try_cache_av1c_from_obu alloc L E m d)"
  by (auto simp: mux_av1_try_cache_av1c_from_obu_def same_play_def caches_ok_def mux_limits
      slot_store_nil split: option.splits)

lemma recreate_inv: "mux_inv m \<Longrightarrow> mux_inv (zms_rtsp_recreate L m)"
  by (simp add: zms_rtsp_recreate_def mux_inv_defs)

lemma video_enc_supported:
  "video_enc codec = Some ep \<Longrightarrow> zms_rtsp_codec_supported codec ZMS_RTP_MUX_TRACK_VIDEO"
  by (auto simp: video_enc_def zms_rtsp_codec_supported_def split: if_splits)


text \<open>Setting a track up keeps the invariant and the play state.\<close>

definition same_clk :: "'l zms_rtp_muxer \<Rightarrow> 'l zms_rtp_muxer \<Rightarrow> bool" where
  "same_clk m m' = (m_clk m' = m_clk m \<and> m_video_key_out m' = m_video_key_out m)"

lemma same_clk_trans: "same_clk m m' \<Longrightarrow> same_clk m' m'' \<Longrightarrow> same_clk m m''"
  by (simp add: same_clk_def)

lemma same_clk_refl [simp]: "same_clk m m"
  by (simp add: same_clk_def)

lemma same_play_clk: "same_play m m' \<Longrightarrow> same_clk m m'"
  by (simp add: same_play_def same_clk_def)

lemma add_video_inv:
  assumes "mux_inv m" "m_v_mid m < 0" "pid \<ge> 0"
    "zms_rtsp_codec_supported codec ZMS_RTP_MUX_TRACK_VIDEO"
  shows "mux_inv (m\<lparr>m_v_pid := pid, m_v_mid := mid, m_zms := Some z, m_video_codec := codec\<rparr>)"
  using assms by (auto simp: mux_inv_defs)

lemma ensure_video_ok:
  assumes "mux_inv m"
  shows "mux_inv (snd (zms_ensure_video alloc L m codec)) \<and> same_clk m (snd (zms_ensure_video alloc L m codec))"
proof (cases "m_zms m = None \<or> m_v_mid m \<ge> 0 \<and> m_video_codec m = codec")
  case True
  then show ?thesis using assms by (auto simp: zms_ensure_video_def)
next
  case False
  define m1 where "m1 = (if m_v_mid m \<ge> 0 then zms_rtsp_recreate L m else m)"
  have m1: "mux_inv m1" "m_v_mid m1 < 0" "same_clk m m1"
    using assms recreate_inv[OF assms] by (auto simp: m1_def zms_rtsp_recreate_def same_clk_def)
  obtain m2 ex where x: "video_extra alloc L m1 codec = (m2, ex)" by fastforce
  have "same_play m1 m2" using same_play_extra[of m1 alloc L codec] by (simp add: x)
  then have m2: "mux_inv m2" "m_v_mid m2 < 0" "same_clk m1 m2"
    using m1(1,2) same_play_inv same_play_clk by (auto simp: same_play_def)
  have neg: "mux_inv (m2\<lparr>m_v_pid := pid, m_v_mid := mid, m_zms := Some z\<rparr>)" if "mid < 0" for pid z mid
    using m2(1,2) that by (auto simp: mux_inv_defs)
  have neg': "mux_inv (m2\<lparr>m_v_pid := pid, m_zms := Some z\<rparr>)" for pid z
    using m2(1,2) by (auto simp: mux_inv_defs)
  have pos: "mux_inv (m2\<lparr>m_v_pid := pid, m_v_mid := mid, m_zms := Some z, m_video_codec := codec\<rparr>)"
    if "video_enc codec \<noteq> None" "pid \<ge> 0" for pid z mid
    using that add_video_inv[OF m2(1,2)] video_enc_supported by auto
  have clk: "same_clk m m1" "same_clk m m2" using m1(3) m2(3) same_clk_trans by blast+
  show ?thesis
    using False m1(1) m2(1) neg neg' pos clk
    by (auto simp: zms_ensure_video_def m1_def[symmetric] x Let_def same_clk_def
        split: option.splits prod.splits)
qed

lemma ensure_audio_ok:
  assumes "mux_inv m"
  shows "mux_inv (snd (zms_ensure_audio L m)) \<and> same_clk m (snd (zms_ensure_audio L m))"
proof -
  have "mux_inv (m\<lparr>m_a_pid := pid, m_zms := Some z\<rparr>)" if "\<not> 0 \<le> m_a_mid m" for pid z
    using assms that by (auto simp: mux_inv_defs)
  moreover have "mux_inv (m\<lparr>m_a_pid := pid, m_a_mid := mid, m_zms := Some z\<rparr>)" if "0 \<le> pid" for pid z mid
    using assms that by (auto simp: mux_inv_defs)
  ultimately show ?thesis
    using assms by (auto simp: zms_ensure_audio_def Let_def same_clk_def split: option.splits prod.splits)
qed

text \<open>Packets change counters and sequence numbers only.\<close>

definition same_but_stats :: "'l zms_rtp_muxer \<Rightarrow> 'l zms_rtp_muxer \<Rightarrow> bool" where
  "same_but_stats m m' = (\<exists>st v a. m' = m\<lparr>m_stats := st, m_v_seq := v, m_a_seq := a\<rparr>)"

lemma emit_same: "same_but_stats m (fst (mux_emit m trk rtp))"
proof (cases "length rtp < 8")
  case True
  then show ?thesis
    unfolding same_but_stats_def
    by (intro exI[of _ "m_stats m"] exI[of _ "m_v_seq m"] exI[of _ "m_a_seq m"]) (simp add: mux_emit_def)
next
  case False
  then show ?thesis
    unfolding same_but_stats_def
    by (intro exI[of _ "m_stats (fst (mux_emit m trk rtp))"] exI[of _ "m_v_seq (fst (mux_emit m trk rtp))"]
        exI[of _ "m_a_seq (fst (mux_emit m trk rtp))"]) (simp add: mux_emit_def Let_def)
qed

lemma same_but_stats_trans: "same_but_stats m m' \<Longrightarrow> same_but_stats m' m'' \<Longrightarrow> same_but_stats m m''"
  unfolding same_but_stats_def by (elim exE) (hypsubst, simp, blast)

lemma same_but_stats_refl [simp]: "same_but_stats m m"
  using emit_same[of m undefined "[]"] by (simp add: mux_emit_def)

lemma onpacket_same: "same_but_stats (fst mo) (fst (zms_rtsp_onpacket mo pk))"
proof -
  obtain m out pid data where mo: "mo = (m, out)" "pk = (pid, data)" by (metis surj_pair)
  show ?thesis
    using emit_same[of m ZMS_RTP_MUX_TRACK_VIDEO data] emit_same[of m ZMS_RTP_MUX_TRACK_AUDIO data]
    by (auto simp: mo zms_rtsp_onpacket_def split: prod.splits)
qed

lemma onpackets_same: "same_but_stats (fst mo) (fst (foldl zms_rtsp_onpacket mo pks))"
proof (induction pks arbitrary: mo)
  case Nil
  then show ?case by simp
next
  case (Cons pk pks)
  show ?case using same_but_stats_trans[OF onpacket_same Cons[of "zms_rtsp_onpacket mo pk"]] by simp
qed

lemma same_but_stats_ok: "same_but_stats m m' \<Longrightarrow> (mux_inv m' \<longleftrightarrow> mux_inv m) \<and> same_clk m m'"
  unfolding same_but_stats_def by (elim exE) (simp add: mux_inv_defs same_clk_def)

lemma set_zms_inv: "mux_inv m \<Longrightarrow> mux_inv (m\<lparr>m_zms := Some z\<rparr>)"
  by (auto simp: mux_inv_defs)

lemma pack_bits_ok:
  assumes "mux_inv m" "zms_pack_bits alloc L m d codec trk dts ts key = (r, m', out)"
  shows "mux_inv m' \<and> same_clk m m'"
proof (cases "d = []")
  case True
  then show ?thesis using assms by (simp add: zms_pack_bits_def)
next
  case False
  obtain ok m1 where e: "(if trk = ZMS_RTP_MUX_TRACK_VIDEO then zms_ensure_video alloc L m codec
      else zms_ensure_audio L m) = (ok, m1)" by fastforce
  have m1: "mux_inv m1" "same_clk m m1"
    using ensure_video_ok[OF assms(1), of alloc L codec] ensure_audio_ok[OF assms(1), of L] e
    by (auto split: if_splits)
  have fold: "mux_inv m'' \<and> same_clk m m''"
    if "foldl zms_rtsp_onpacket (m1\<lparr>m_zms := Some z\<rparr>, []) pks = (m'', out')" for m'' z pks out'
  proof -
    have "same_but_stats (m1\<lparr>m_zms := Some z\<rparr>) m''"
      using onpackets_same[of "(m1\<lparr>m_zms := Some z\<rparr>, [])" pks] that by simp
    then have "mux_inv m''" "same_clk (m1\<lparr>m_zms := Some z\<rparr>) m''"
      using same_but_stats_ok set_zms_inv[OF m1(1)] by auto
    then show ?thesis using m1(2) by (simp add: same_clk_def)
  qed
  show ?thesis
    using assms(2) False m1 fold set_zms_inv[OF m1(1)]
    unfolding zms_pack_bits_def e
    by (auto simp: Let_def same_clk_def split: if_splits option.splits prod.splits)
qed


text \<open>The gate: what is let through has a locked epoch, unless it is a config frame.\<close>

lemma lock_epoch_ok:
  assumes "mux_inv m"
  shows "mux_inv (mux_lock_epoch now m dts) \<and> k_epoch_locked (m_clk (mux_lock_epoch now m dts))"
  using assms
  by (auto simp: mux_lock_epoch_def mux_inv_defs zms_egress_clock_epoch_locked_def
      zms_egress_clock_lock_epoch_def zms_egress_clock_rebase_def)

lemma gate_ok:
  assumes "mux_inv m" "mux_gate alloc E g now m f = (res, m')"
  shows "mux_inv m' \<and> (\<forall>ts key. res = Inr (ts, key) \<longrightarrow> key \<longrightarrow> \<not> f_config_frame f \<longrightarrow>
           k_epoch_locked (m_clk m'))"
proof -
  have "mux_inv (h264_cache_config alloc E m f)"
    "mux_inv (snd (mux_hevc_refresh_params_from_au alloc (annexb_split E) m (f_bytes f)))"
    using assms(1) same_play_inv[OF same_play_h264_config] same_play_inv[OF same_play_refresh] by blast+
  then show ?thesis
    using assms lock_epoch_ok[OF assms(1)]
    by (auto simp: mux_gate_def Let_def zms_egress_clock_epoch_locked_def split: if_splits)
qed

lemma set_key_out_ok:
  assumes "mux_inv m" "key \<Longrightarrow> k_epoch_locked (m_clk m)"
    "set_key_out key (zms_pack_bits alloc L m d codec trk dts ts kf) = (r, m', out)"
  shows "mux_inv m'"
proof -
  obtain r1 m1 o1 where p: "zms_pack_bits alloc L m d codec trk dts ts kf = (r1, m1, o1)"
    by (metis surj_pair)
  have m1: "mux_inv m1" "m_clk m1 = m_clk m" using pack_bits_ok[OF assms(1) p] by (simp_all add: same_clk_def)
  then have "key \<Longrightarrow> mux_inv (m1\<lparr>m_video_key_out := True\<rparr>)"
    using assms(2) by (simp add: mux_inv_defs)
  then show ?thesis using assms(3) m1(1) by (auto simp: set_key_out_def p split: if_splits)
qed

lemma pack_codec_inv:
  assumes "mux_inv m" "key \<Longrightarrow> \<not> f_config_frame f \<Longrightarrow> k_epoch_locked (m_clk m)"
    and "mux_pack_codec alloc L E m f trk ts key = (r, m', out)"
  shows "mux_inv m'"
proof -
  let ?h = "snd (mux_hevc_refresh_params_from_au alloc (annexb_split E) m (f_bytes f))"
  let ?a = "mux_av1_try_cache_av1c_from_obu alloc L E m (f_bytes f)"
  let ?a' = "if f_codec f = ZMS_CODEC_AV1 \<and> trk = ZMS_RTP_MUX_TRACK_VIDEO \<and> \<not> f_config_frame f then ?a else m"
  have h: "mux_inv ?h" "m_clk ?h = m_clk m" "mux_inv ?a'" "m_clk ?a' = m_clk m"
    using assms(1) same_play_inv[OF same_play_refresh] same_play_inv[OF same_play_av1]
      same_play_refresh[of m alloc "annexb_split E" "f_bytes f"] same_play_av1[of m alloc L E "f_bytes f"]
    by (auto simp: same_play_def)
  have go: "mux_inv m'" if "mux_inv mm" "m_clk mm = m_clk m" "k \<Longrightarrow> key \<and> \<not> f_config_frame f"
      "set_key_out k (zms_pack_bits alloc L mm d c trk dd ts key) = (r, m', out)" for mm k d c dd
    using set_key_out_ok[OF that(1) _ that(4)] that(2,3) assms(2) by auto
  consider "\<not> zms_rtsp_codec_supported (f_codec f) trk"
    | "zms_rtsp_codec_supported (f_codec f) trk"
      "f_codec f = ZMS_CODEC_H265 \<and> f_track f = ZMS_TRACK_VIDEO \<and> \<not> f_config_frame f"
    | "zms_rtsp_codec_supported (f_codec f) trk"
      "\<not> (f_codec f = ZMS_CODEC_H265 \<and> f_track f = ZMS_TRACK_VIDEO \<and> \<not> f_config_frame f)"
      "f_codec f = ZMS_CODEC_H264 \<and> trk = ZMS_RTP_MUX_TRACK_VIDEO \<and> \<not> f_config_frame f"
    | "zms_rtsp_codec_supported (f_codec f) trk"
      "\<not> (f_codec f = ZMS_CODEC_H265 \<and> f_track f = ZMS_TRACK_VIDEO \<and> \<not> f_config_frame f)"
      "\<not> (f_codec f = ZMS_CODEC_H264 \<and> trk = ZMS_RTP_MUX_TRACK_VIDEO \<and> \<not> f_config_frame f)"
    by blast
  then show ?thesis
  proof cases
    case 1
    then show ?thesis using assms by (simp add: mux_pack_codec_def)
  next
    case 2
    then show ?thesis using assms(3) h go[where mm = ?h and k = key]
      by (auto simp: mux_pack_codec_def Let_def split: option.splits)
  next
    case 3
    then show ?thesis using assms(1,3) go[where mm = m and k = key]
      by (auto simp: mux_pack_codec_def Let_def split: option.splits)
  next
    case 4
    let ?k = "trk = ZMS_RTP_MUX_TRACK_VIDEO \<and> key \<and> \<not> f_config_frame f"
    have "(case (if f_codec f = ZMS_CODEC_AAC \<and> trk = ZMS_RTP_MUX_TRACK_AUDIO
                 then aac_pack_data (f_bytes f) else Some (f_bytes f)) of
             None \<Rightarrow> (-1, ?a', [])
           | Some pk \<Rightarrow> set_key_out ?k (zms_pack_bits alloc L ?a' pk (f_codec f) trk (sint (f_dts_ms f)) ts key))
          = (r, m', out)"
      using assms(3) 4(1) unfolding mux_pack_codec_def Let_def if_not_P[OF 4(2)] if_not_P[OF 4(3)]
      by (simp only: not_not simp_thms if_False)
    then show ?thesis using h(3,4) go[where mm = ?a' and k = ?k]
      by (metis (no_types, lifting) option.case_eq_if prod.inject)
  qed
qed

lemma pack_frame_inv:
  assumes "mux_inv m" "mux_pack_frame alloc L E g now m f trk = (r, m', out)"
  shows "mux_inv m'"
proof -
  obtain res m1 where g: "mux_gate alloc E g now m f = (res, m1)" by fastforce
  have m1: "mux_inv m1" and lock: "res = Inr (ts, key) \<Longrightarrow> key \<Longrightarrow> \<not> f_config_frame f \<Longrightarrow>
      k_epoch_locked (m_clk m1)" for ts key
    using gate_ok[OF assms(1) g] by auto
  have "mux_inv m'" if "res = Inr (ts, key)" "mux_pack_codec alloc L E m1 f trk ts key = (r, m', out)"
    for ts key
    using pack_codec_inv[OF m1 _ that(2)] lock[OF that(1)] by blast
  then show ?thesis
    using assms m1
    by (auto simp: mux_pack_frame_def g split: if_splits sum.splits prod.splits)
qed

lemma input_slot_inv:
  "mux_inv m \<Longrightarrow> zms_rtp_muxer_input_slot alloc L E g now m s = (r, m', out) \<Longrightarrow> mux_inv m'"
  using pack_frame_inv by (auto simp: zms_rtp_muxer_input_slot_def split: if_splits)

section \<open>A session\<close>

inductive mux_step ::
  "(nat \<Rightarrow> bool) \<Rightarrow> 'l rtsp_lib \<Rightarrow> es_ext \<Rightarrow> registry \<Rightarrow> 'l zms_rtp_muxer
     \<Rightarrow> (zms_rtp_mux_track \<times> bytes) list \<Rightarrow> 'l zms_rtp_muxer \<Rightarrow> bool"
  for alloc L E g where
  slot: "zms_rtp_muxer_input_slot alloc L E g now m s = (r, m', out) \<Longrightarrow> mux_step alloc L E g m out m'"
| arm: "mux_step alloc L E g m [] (zms_rtp_muxer_arm_play now m)"
| jump: "mux_step alloc L E g m [] (zms_rtp_muxer_jump_live m)"
| reset: "mux_step alloc L E g m [] (zms_rtp_muxer_reset L m)"
| seek: "mux_step alloc L E g m [] (zms_rtp_muxer_begin_vod_seek L now m ms)"
| catchup: "mux_step alloc L E g m [] (zms_rtp_muxer_set_catchup_budget m on n)"
| catchup_frame: "mux_step alloc L E g m [] (zms_rtp_muxer_catchup_frame m)"
| pause: "mux_step alloc L E g m [] (zms_rtp_muxer_pause_play now m)"
| resume: "mux_step alloc L E g m [] (zms_rtp_muxer_resume_play now m)"
| scale: "mux_step alloc L E g m [] (zms_rtp_muxer_set_play_scale m sc)"

inductive mux_reach ::
  "(nat \<Rightarrow> bool) \<Rightarrow> 'l rtsp_lib \<Rightarrow> es_ext \<Rightarrow> registry \<Rightarrow> 'l zms_rtp_muxer \<Rightarrow> bool"
  for alloc L E g where
  create: "zms_rtp_muxer_create alloc L True op = Some m \<Longrightarrow> mux_reach alloc L E g m"
| step: "mux_reach alloc L E g m \<Longrightarrow> mux_step alloc L E g m out m' \<Longrightarrow> mux_reach alloc L E g m'"

lemma mux_create_inv: "zms_rtp_muxer_create alloc L ok op = Some m \<Longrightarrow> mux_inv m"
  by (auto simp: zms_rtp_muxer_create_def mux_inv_defs mux_limits slot_store_nil split: if_splits option.splits)

lemma snapshot_same: "same_but_stats m (zms_rtsp_snapshot_seq L m)"
  unfolding same_but_stats_def
  by (intro exI[of _ "m_stats m"] exI[of _ "m_v_seq (zms_rtsp_snapshot_seq L m)"]
      exI[of _ "m_a_seq (zms_rtsp_snapshot_seq L m)"])
     (simp add: zms_rtsp_snapshot_seq_def Let_def split: option.split)

lemma clk_op_inv:
  "mux_inv m \<Longrightarrow> k_epoch_locked c = k_epoch_locked (m_clk m) \<Longrightarrow> mux_inv (m\<lparr>m_clk := c\<rparr>)"
  by (simp add: mux_inv_defs)

lemma clock_op_locked [simp]:
  "k_epoch_locked (zms_egress_clock_pause now c) = k_epoch_locked c"
  "k_epoch_locked (zms_egress_clock_resume now c) = k_epoch_locked c"
  "k_epoch_locked (zms_egress_clock_set_scale c sc) = k_epoch_locked c"
  by (simp_all add: zms_egress_clock_pause_def zms_egress_clock_resume_def zms_egress_clock_set_scale_def
      Let_def)

lemma arm_inv: "mux_inv m \<Longrightarrow> mux_inv (zms_rtp_muxer_arm_play now m)"
  by (simp add: zms_rtp_muxer_arm_play_def mux_inv_defs)

lemma seek_inv: "mux_inv m \<Longrightarrow> mux_inv (zms_rtp_muxer_begin_vod_seek L now m ms)"
proof -
  assume "mux_inv m"
  then have "mux_inv (m\<lparr>m_stats := stats_zero\<rparr>)" by (simp add: mux_inv_defs)
  then have "mux_inv (zms_rtsp_snapshot_seq L (m\<lparr>m_stats := stats_zero\<rparr>))"
    using same_but_stats_ok[OF snapshot_same] by blast
  then show ?thesis
    by (simp add: zms_rtp_muxer_begin_vod_seek_def Let_def zms_rtsp_recreate_def mux_hevc_cache_clear_def
        zms_rtp_muxer_arm_play_def mux_inv_defs)
qed

lemma step_inv: "mux_step alloc L E g m out m' \<Longrightarrow> mux_inv m \<Longrightarrow> mux_inv m'"
proof (induction rule: mux_step.induct)
  case (slot now m s r m' out)
  then show ?case using input_slot_inv by blast
next
  case (arm m now)
  then show ?case by (rule arm_inv)
next
  case (jump m)
  then show ?case by (simp add: zms_rtp_muxer_jump_live_def zms_rtsp_drop_video_def mux_inv_defs)
next
  case (reset m)
  then show ?case
    by (simp add: zms_rtp_muxer_reset_def mux_hevc_cache_clear_def zms_rtsp_recreate_def mux_inv_defs)
next
  case (seek m now ms)
  then show ?case by (rule seek_inv)
next
  case (catchup m on n)
  then show ?case by (simp add: zms_rtp_muxer_set_catchup_budget_def mux_inv_defs)
next
  case (catchup_frame m)
  then show ?case by (auto simp: zms_rtp_muxer_catchup_frame_def mux_inv_defs Let_def)
next
  case (pause m now)
  then show ?case
    by (simp add: zms_rtp_muxer_pause_play_def clk_op_inv)
next
  case (resume m now)
  then show ?case
    by (simp add: zms_rtp_muxer_resume_play_def clk_op_inv)
next
  case (scale m sc)
  then show ?case
    by (simp add: zms_rtp_muxer_set_play_scale_def clk_op_inv)
qed



text \<open>A small library for the examples: one packet per input, with the stamp of the timeline.\<close>

definition ex_lib :: "(u32 \<times> u16) rtsp_lib" where
  "ex_lib = \<lparr>rtsp_muxer_create = Some (0, 1),
     rtsp_muxer_add_payload = (\<lambda>z hz pt enc seq ssrc extra. (0, (fst z, seq))),
     rtsp_muxer_add_media = (\<lambda>z pid payload. (0, z)),
     rtsp_muxer_sync_timeline = (\<lambda>z pid dts ts. (True, (ts, snd z))),
     rtsp_muxer_input = (\<lambda>z mid dts d key.
       (True, [(mid, [0x80, 96] @ put_be16 (snd z) @ put_be32 (fst z) @ [0, 0, 0, 1] @ d)], (fst z, snd z + 1))),
     rtsp_muxer_getinfo = (\<lambda>z pid. Some (snd z)),
     flv_seq_hdr_write = (\<lambda>cap. Some [0x17, 0, 0, 0, 0]),
     avcc_record_save = (\<lambda>sps pps cap. Some ([1, 100, 0, 31, 0xff, 0xe1] @ sps @ pps)),
     hvcc_of_annexb = (\<lambda>a cap. Some a), av1c_of_obu = (\<lambda>a cap. Some a)\<rparr>"

definition ex_opts :: zms_rtp_muxer_opts where
  "ex_opts = \<lparr>op_video_clock_hz = 90000, op_audio_clock_hz = 44100, op_video_ssrc = 1, op_audio_ssrc = 2,
     op_video_seq = 0, op_audio_seq = 0, op_audio_rate = 44100, op_audio_codec = ZMS_CODEC_AAC,
     op_video_pt = 96, op_audio_pt = 97, op_audio_extra = [0x12, 0x10], op_video_extra = []\<rparr>"


section \<open>Before the first key frame\<close>

fun input_slots ::
  "(nat \<Rightarrow> bool) \<Rightarrow> 'l rtsp_lib \<Rightarrow> es_ext \<Rightarrow> registry \<Rightarrow> u64 \<Rightarrow> 'l zms_rtp_muxer \<Rightarrow> zms_gop_slot list
     \<Rightarrow> 'l zms_rtp_muxer \<times> (zms_rtp_mux_track \<times> bytes) list" where
  "input_slots alloc L E g now m [] = (m, [])"
| "input_slots alloc L E g now m (s # ss) =
     (case zms_rtp_muxer_input_slot alloc L E g now m s of
        (r, m1, o1) \<Rightarrow> (case input_slots alloc L E g now m1 ss of (m2, o2) \<Rightarrow> (m2, o1 @ o2)))"

lemma held_slot:
  assumes "\<not> m_video_key_out m" "\<not> k_epoch_locked (m_clk m)"
    "\<not> s_config_frame s" "\<not> zms_frame_is_play_start E g (slot_mux_frame s)"
  shows "snd (zms_rtp_muxer_input_slot alloc L E g now m s) = (m, [])"
  using assms
  by (auto simp: zms_rtp_muxer_input_slot_def mux_pack_frame_def mux_gate_def Let_def
      zms_egress_clock_epoch_locked_def slot_mux_frame_def split: if_splits)


definition ex_slot :: "bool \<Rightarrow> u32 \<Rightarrow> zms_gop_slot" where
  "ex_slot key dts = zms_gop_slot_zero\<lparr>s_codec := ZMS_CODEC_VP8, s_track := ZMS_TRACK_VIDEO,
     s_dts_ms := dts, s_keyframe := key, s_data := Some [1, 2, 3], s_len := 3\<rparr>"

definition ex_mux :: "(u32 \<times> u16) zms_rtp_muxer" where
  "ex_mux = zms_rtp_muxer_arm_play 1000 (the (zms_rtp_muxer_create (\<lambda>_. True) ex_lib True ex_opts))"

lemma ex_slot_start: "zms_frame_is_play_start E (\<lambda>_. None) (slot_mux_frame (ex_slot key dts)) = key"
  by (simp add: zms_frame_is_play_start_def zms_frame_is_decode_start_def zms_frame_is_egress_sync_def
      slot_mux_frame_def ex_slot_def zms_frame_codec_find_def zms_gop_slot_zero_def zms_frame_init_def
      k_plain_es_def default_is_key_def)

lemma ex_mux_clk: "m_clk ex_mux = (zms_egress_clock_arm 1000 zms_egress_clock_init)\<lparr>k_abs_rtp_ts := True\<rparr>"
  "m_video_key_out ex_mux = False" "m_abs_rtp_ts ex_mux = True" "m_opts ex_mux = ex_opts\<lparr>op_audio_extra := []\<rparr>"
  by (simp_all add: ex_mux_def zms_rtp_muxer_arm_play_def zms_rtp_muxer_create_def ex_lib_def ex_opts_def)


section \<open>Accounting\<close>

definition of_track :: "zms_rtp_mux_track \<Rightarrow> (zms_rtp_mux_track \<times> bytes) list \<Rightarrow> bytes list" where
  "of_track t out = map snd (filter (\<lambda>(u, p). u = t) out)"

lemma of_track_simps [simp]:
  "of_track t [] = []"
  "of_track t (out @ out') = of_track t out @ of_track t out'"
  "of_track t [(u, p)] = (if u = t then [p] else [])"
  by (auto simp: of_track_def)

definition accounted :: "'l zms_rtp_muxer \<Rightarrow> 'l zms_rtp_muxer \<Rightarrow> (zms_rtp_mux_track \<times> bytes) list \<Rightarrow> bool" where
  "accounted m m' out =
     (let v = of_track ZMS_RTP_MUX_TRACK_VIDEO out; a = of_track ZMS_RTP_MUX_TRACK_AUDIO out in
      st_video_pkt_count (m_stats m') = st_video_pkt_count (m_stats m) + of_nat (length v) \<and>
      st_audio_pkt_count (m_stats m') = st_audio_pkt_count (m_stats m) + of_nat (length a) \<and>
      st_video_octet_count (m_stats m') = st_video_octet_count (m_stats m) + of_nat (sum_list (map length v)) \<and>
      st_audio_octet_count (m_stats m') = st_audio_octet_count (m_stats m) + of_nat (sum_list (map length a)) \<and>
      m_v_seq m' = (if v = [] then m_v_seq m else be16 (last v) 2 + 1) \<and>
      m_a_seq m' = (if a = [] then m_a_seq m else be16 (last a) 2 + 1) \<and>
      st_video_last_rtp_ts (m_stats m') = (if v = [] then st_video_last_rtp_ts (m_stats m) else be32 (last v) 4) \<and>
      st_audio_last_rtp_ts (m_stats m') = (if a = [] then st_audio_last_rtp_ts (m_stats m) else be32 (last a) 4))"

lemma accounted_trans: "accounted m m1 o1 \<Longrightarrow> accounted m1 m2 o2 \<Longrightarrow> accounted m m2 (o1 @ o2)"
  by (simp add: accounted_def Let_def)

lemma accounted_emit: "mux_emit m t p = (m', out) \<Longrightarrow> accounted m m' out"
  by (cases t) (auto simp: mux_emit_def accounted_def Let_def split: if_splits)

lemma accounted_refl [simp]: "accounted m m []"
  by (simp add: accounted_def Let_def)

lemma accounted_packets:
  "accounted m0 m out \<Longrightarrow> foldl zms_rtsp_onpacket (m, out) pks = (m', out') \<Longrightarrow> accounted m0 m' out'"
proof (induction pks arbitrary: m out)
  case Nil
  then show ?case by simp
next
  case (Cons pk pks)
  obtain pid d where pk: "pk = (pid, d)" by (cases pk)
  obtain m1 out1 where s: "zms_rtsp_onpacket (m, out) pk = (m1, out1)" by fastforce
  have "accounted m0 m1 out1"
    using s Cons.prems(1) accounted_trans accounted_emit
    by (fastforce simp: zms_rtsp_onpacket_def pk split: if_splits prod.splits)
  then show ?case using Cons.IH Cons.prems(2) s by simp
qed

text \<open>The cache routines and the set-up of a track send nothing and count nothing.\<close>

definition same_count :: "'l zms_rtp_muxer \<Rightarrow> 'l zms_rtp_muxer \<Rightarrow> bool" where
  "same_count m m' = (m_stats m' = m_stats m \<and> m_v_seq m' = m_v_seq m \<and> m_a_seq m' = m_a_seq m)"

lemma same_count_refl [simp]: "same_count m m"
  by (simp add: same_count_def)

lemma same_count_trans: "same_count m m1 \<Longrightarrow> same_count m1 m2 \<Longrightarrow> same_count m m2"
  by (simp add: same_count_def)

lemma same_count_acc: "same_count m m1 \<Longrightarrow> accounted m1 m2 out \<Longrightarrow> accounted m m2 out"
  by (auto simp: same_count_def accounted_def Let_def)

lemma accounted_count: "same_count m m1 \<Longrightarrow> accounted m m1 []"
  by (simp add: same_count_def accounted_def Let_def)

lemma count_refresh: "same_count m (snd (mux_hevc_refresh_params_from_au alloc nalus m d))"
  by (auto simp: mux_hevc_refresh_params_from_au_def mux_hevc_cache_store_def mux_hevc_cache_clear_def
      same_count_def split: prod.splits)

lemma count_h264_config: "same_count m (h264_cache_config alloc E m f)"
  by (auto simp: h264_cache_config_def mux_h264_cache_store_def same_count_def split: prod.splits)

lemma count_av1: "same_count m (mux_av1_try_cache_av1c_from_obu alloc L E m d)"
  by (auto simp: mux_av1_try_cache_av1c_from_obu_def same_count_def split: option.splits)

lemma count_lock: "same_count m (mux_lock_epoch now m dts)"
  by (simp add: mux_lock_epoch_def same_count_def)

lemma count_extra: "same_count m (fst (video_extra alloc L m codec))"
  by (auto simp: video_extra_def mux_h264_build_avcc_fallback_def mux_hevc_build_hvcc_fallback_def
      mux_h264_store_avcc_def same_count_def Let_def split: prod.splits option.splits)

lemma count_video: "same_count m (snd (zms_ensure_video alloc L m codec))"
proof -
  define m1 where "m1 = (if m_v_mid m \<ge> 0 then zms_rtsp_recreate L m else m)"
  have m1: "same_count m m1" by (simp add: m1_def zms_rtsp_recreate_def same_count_def)
  obtain m2 ex where x: "video_extra alloc L m1 codec = (m2, ex)" by fastforce
  have m2: "same_count m m2"
    using m1 count_extra[of m1 alloc L codec] same_count_trans by (simp add: x) blast
  show ?thesis
    using m1 m2
    by (auto simp: zms_ensure_video_def m1_def[symmetric] x Let_def same_count_def
        split: option.splits prod.splits)
qed

lemma count_audio: "same_count m (snd (zms_ensure_audio L m))"
  by (auto simp: zms_ensure_audio_def Let_def same_count_def split: option.splits prod.splits)

lemma count_gate: "mux_gate alloc E g now m f = (res, m') \<Longrightarrow> same_count m m'"
  using count_refresh[of m alloc "annexb_split E" "f_bytes f"] count_h264_config[of m alloc E f]
    count_lock[of m now "ucast (f_dts_ms f)"]
  by (auto simp: mux_gate_def Let_def split: if_splits)

lemma accounted_bits:
  assumes "zms_pack_bits alloc L m d codec trk dts ts key = (r, m', out)"
  shows "accounted m m' out"
proof (cases "d = []")
  case True
  then show ?thesis using assms by (simp add: zms_pack_bits_def)
next
  case False
  obtain ok m1 where e: "(if trk = ZMS_RTP_MUX_TRACK_VIDEO then zms_ensure_video alloc L m codec
      else zms_ensure_audio L m) = (ok, m1)" by fastforce
  have m1: "same_count m m1"
    using count_video[of m alloc L codec] count_audio[of m L] e by (auto split: if_splits)
  have z: "same_count m (m1\<lparr>m_zms := Some z\<rparr>)" for z using m1 by (simp add: same_count_def)
  have "accounted m m'' out'"
    if "foldl zms_rtsp_onpacket (m1\<lparr>m_zms := Some z\<rparr>, []) pks = (m'', out')" for m'' z pks out'
    using accounted_packets[OF accounted_count[OF z] that] .
  then show ?thesis
    using assms False m1 z accounted_count unfolding zms_pack_bits_def e
    by (auto simp: Let_def split: if_splits option.splits prod.splits)
qed

lemma accounted_key:
  assumes "set_key_out k (zms_pack_bits alloc L m d c trk dd ts key) = (r, m', out)"
  shows "accounted m m' out"
proof -
  obtain r1 m1 o1 where p: "zms_pack_bits alloc L m d c trk dd ts key = (r1, m1, o1)" by (metis surj_pair)
  have "accounted m (m1\<lparr>m_video_key_out := True\<rparr>) o1"
    using accounted_bits[OF p] by (simp add: accounted_def)
  then show ?thesis using assms accounted_bits[OF p] by (auto simp: set_key_out_def p split: if_splits)
qed

lemma accounted_codec:
  assumes "mux_pack_codec alloc L E m f trk ts key = (r, m', out)"
  shows "accounted m m' out"
proof -
  have h: "same_count m (snd (mux_hevc_refresh_params_from_au alloc (annexb_split E) m (f_bytes f)))"
    by (rule count_refresh)
  have a: "same_count m (mux_av1_try_cache_av1c_from_obu alloc L E m (f_bytes f))" by (rule count_av1)
  note acc = same_count_acc[OF h accounted_key] same_count_acc[OF a accounted_key] accounted_key
    accounted_count[OF h] accounted_count[OF a]
  show ?thesis
  proof (cases "zms_rtsp_codec_supported (f_codec f) trk")
    case False
    then show ?thesis using assms by (simp add: mux_pack_codec_def)
  next
    case True
    show ?thesis
      using assms True acc unfolding mux_pack_codec_def Let_def
      by (simp split: if_split_asm option.split_asm) auto
  qed
qed

lemma accounted_slot:
  assumes "zms_rtp_muxer_input_slot alloc L E g now m s = (r, m', out)"
  shows "accounted m m' out"
  using assms count_gate same_count_acc accounted_codec accounted_count
  unfolding zms_rtp_muxer_input_slot_def mux_pack_frame_def
  by (fastforce split: if_split_asm sum.split_asm prod.split_asm)

text \<open>
  C3: The counters and the next sequence numbers of a session are those of the packets that went
  out, over any run of slots, codec changes and dropped frames included: what is reported in
  a sender report is what was sent, and a track that librtsp sets up again starts with the
  sequence number after the last packet.
\<close>

theorem packets_accounted:
  "(case input_slots alloc L E g now m ss of (m', out) \<Rightarrow> accounted m m' out)"
proof (induction ss arbitrary: m)
  case Nil
  then show ?case by simp
next
  case (Cons s ss)
  obtain r m1 o1 where s: "zms_rtp_muxer_input_slot alloc L E g now m s = (r, m1, o1)" by (metis surj_pair)
  obtain m2 o2 where i: "input_slots alloc L E g now m1 ss = (m2, o2)" by fastforce
  show ?case using accounted_trans[OF accounted_slot[OF s]] Cons[of m1] by (simp add: s i)
qed

section \<open>The bytes of an access unit\<close>

text \<open>
  The VCL NAL units are copied into a buffer of the size of the frame, each behind a start
  code of four bytes: a frame whose only NAL unit came with a three-byte start code does not
  fit and is not packed.
\<close>

lemma h264_pack_data_eq:
  assumes "5 \<le> length d" "alloc (length d)"
  shows "h264_pack_data alloc nalus d =
    (let v = annexb_join (filter is_vcl (nalus d)) in if v = [] \<or> length v > length d then None else Some v)"
  using assms h264_append_vcl_fold[of "\<lparr>v_out = [], v_err = False\<rparr>" "length d" "nalus d"]
  by (auto simp: h264_pack_data_def zms_h264_annexb_copy_vcl_def Let_def split: if_splits)

lemma short_start_code_not_packed:
  assumes "nalus d = [n]" "d = [0, 0, 1] @ n" "is_vcl n"
  shows "h264_pack_data alloc nalus d = None"
proof (cases "5 \<le> length d \<and> alloc (length d)")
  case True
  then show ?thesis using assms by (simp add: h264_pack_data_eq Let_def)
next
  case False
  then show ?thesis by (auto simp: h264_pack_data_def zms_h264_annexb_copy_vcl_def)
qed

end
