(* ===== verification/Egress_Live.thy ===== *)
theory Egress_Live
  imports Gop_Seek Rtp_Muxer
begin

text \<open>
  The pacing thresholds of the process, \<open>src/egress/egress_pacing.c\<close>, and the live egress
  policy on them, \<open>src/egress/egress_live_policy.c\<close>: how many frames a tick may send, when
  the next slot is due, when a reader that lags is moved to the live edge and when a slow
  consumer is kicked. The fields the C struct holds as \<open>int\<close> are 32-bit words read with
  \<open>sint\<close>; a comparison with an unsigned constant compares them unsigned, as C does. A
  pointer of \<open>zms_egress_live_state\<close> that may be NULL is an option, and the ring is the one
  snapshot a call works on.
\<close>

unbundle bit_operations_syntax

section \<open>Thresholds\<close>

record zms_egress_pacing =
  g_ring_max_lag :: u32
  g_catchup_lag :: u32
  g_frame_budget_live :: u32
  g_frame_budget_catchup :: u32
  g_burst_budget :: u32
  g_flv_budget_live :: u32
  g_flv_budget_vod :: u32
  g_vod_catchup_start :: u32
  g_vod_catchup_seek :: u32
  g_vod_prefill_lag :: u32
  g_resync_lag :: u32
  g_resync_lag_max :: u32
  g_resync_cooldown_ms :: u32
  g_pace_lead_ms :: u32
  g_slow_consumer_kick_lag :: u32

text \<open>\<open>if (p->x < 1u) p->x = 1u\<close> and its kind.\<close>

definition at_least :: "u32 \<Rightarrow> u32 \<Rightarrow> u32" where
  "at_least lo x = (if x < lo then lo else x)"

definition play_pacing_clamp :: "zms_egress_pacing \<Rightarrow> zms_egress_pacing" where
  "play_pacing_clamp p =
     (let ring = at_least 32 (g_ring_max_lag p);
          live = at_least 1 (g_frame_budget_live p);
          catchup = (if sint (g_frame_budget_catchup p) < sint live then live
                     else g_frame_budget_catchup p);
          burst = (if sint (g_burst_budget p) < sint live then catchup else g_burst_budget p)
      in p\<lparr>g_ring_max_lag := ring,
           g_catchup_lag := at_least 1 (g_catchup_lag p),
           g_frame_budget_live := live,
           g_frame_budget_catchup := catchup,
           g_burst_budget := burst,
           g_flv_budget_live := at_least 1 (g_flv_budget_live p),
           g_flv_budget_vod := at_least 1 (g_flv_budget_vod p),
           g_resync_lag := at_least 1 (g_resync_lag p),
           g_resync_lag_max := (if g_resync_lag_max p < ring then ring * 4 else g_resync_lag_max p),
           g_resync_cooldown_ms := at_least 500 (g_resync_cooldown_ms p),
           g_pace_lead_ms := at_least 50 (g_pace_lead_ms p)\<rparr>)"

definition zms_egress_pacing_defaults :: zms_egress_pacing where
  "zms_egress_pacing_defaults =
     \<lparr>g_ring_max_lag = of_nat ZMS_GOP_QUEUE_PLAY_MAX_LAG, g_catchup_lag = 16,
      g_frame_budget_live = 8, g_frame_budget_catchup = 96, g_burst_budget = 96,
      g_flv_budget_live = 48, g_flv_budget_vod = 8, g_vod_catchup_start = 96,
      g_vod_catchup_seek = 32, g_vod_prefill_lag = 32, g_resync_lag = 16,
      g_resync_lag_max = of_nat ZMS_GOP_QUEUE_PLAY_MAX_LAG * 4, g_resync_cooldown_ms = 3000,
      g_pace_lead_ms = 350,
      g_slow_consumer_kick_lag = of_nat ZMS_GOP_QUEUE_PLAY_MAX_LAG * 4\<rparr>"

text \<open>The process state \<open>g_pacing\<close>: \<open>None\<close> while it is not initialised.\<close>

definition zms_egress_pacing_init :: "zms_egress_pacing option \<Rightarrow> zms_egress_pacing option" where
  "zms_egress_pacing_init cfg =
     Some (play_pacing_clamp
       (case cfg of
          None \<Rightarrow> zms_egress_pacing_defaults
        | Some c \<Rightarrow>
            let c1 = (if g_burst_budget c = 0 then c\<lparr>g_burst_budget := g_frame_budget_catchup c\<rparr> else c)
            in if g_resync_lag_max c1 = 0 then c1\<lparr>g_resync_lag_max := g_ring_max_lag c1 * 4\<rparr> else c1))"

definition zms_egress_pacing_fini :: "zms_egress_pacing option \<Rightarrow> zms_egress_pacing option" where
  "zms_egress_pacing_fini st = None"

definition zms_egress_pacing_get ::
  "zms_egress_pacing option \<Rightarrow> zms_egress_pacing \<times> zms_egress_pacing option" where
  "zms_egress_pacing_get st =
     (case st of
        Some p \<Rightarrow> (p, st)
      | None \<Rightarrow> (case zms_egress_pacing_init None of
                   Some p \<Rightarrow> (p, Some p) | None \<Rightarrow> (zms_egress_pacing_defaults, None)))"

section \<open>Budgets\<close>

definition zms_egress_live_lag_catchup :: "zms_egress_pacing \<Rightarrow> nat \<Rightarrow> bool" where
  "zms_egress_live_lag_catchup P lag = (lag > unat (g_catchup_lag P))"

definition zms_egress_live_pump_budget ::
  "zms_egress_pacing \<Rightarrow> bool \<Rightarrow> bool \<Rightarrow> nat \<Rightarrow> int \<Rightarrow> int" where
  "zms_egress_live_pump_budget P epoch_on catchup_done lag caller_budget =
     (let live = sint (g_frame_budget_live P);
          b0 = (if caller_budget > 0 then caller_budget else live);
          b1 = (if zms_egress_live_lag_catchup P lag \<or> \<not> epoch_on \<or> \<not> catchup_done
                then sint (g_burst_budget P) else b0)
      in if epoch_on \<and> catchup_done \<and> b1 > live then live else b1)"

definition zms_egress_live_should_pump ::
  "'b zms_gop_queue \<Rightarrow> 'b zms_gop_reader option \<Rightarrow> bool \<Rightarrow> bool \<Rightarrow> bool \<Rightarrow> bool" where
  "zms_egress_live_should_pump r rd woke catchup_done epoch_on =
     (case rd of
        None \<Rightarrow> False
      | Some rd \<Rightarrow>
          if woke then True
          else if \<not> catchup_done \<or> \<not> epoch_on then True
          else zms_gop_reader_lag r rd > 0)"

text \<open>
  \<open>zms_egress_live_peek_paced\<close>. The third argument of \<open>zms_gop_reader_peek_muxed\<close> is the
  largest skew between the tracks; the source passes the read timeout of its caller there.
\<close>

definition zms_egress_live_peek_paced ::
  "es_ext \<Rightarrow> registry \<Rightarrow> ('b \<Rightarrow> bool) \<Rightarrow> (u64 \<Rightarrow> rat \<Rightarrow> u64) \<Rightarrow> zms_egress_pacing \<Rightarrow> u64
     \<Rightarrow> 'b zms_gop_queue \<Rightarrow> 'b zms_gop_reader \<Rightarrow> zms_egress_clock option \<Rightarrow> bool \<Rightarrow> u32
     \<Rightarrow> int \<times> zms_gop_slot option \<times> 'b zms_gop_reader \<times> 'b ztk_call list" where
  "zms_egress_live_peek_paced E g try_ref fmul P now r rd clk pace read_timeout_ms =
     (case zms_gop_reader_peek_muxed E g try_ref r rd read_timeout_ms of
        (n, rd1, peek, cs) \<Rightarrow>
          if n \<le> 0 then (-1, None, rd1, cs)
          else (case (peek, clk) of
                  (Some s, Some c) \<Rightarrow>
                    if pace \<and> zms_egress_clock_epoch_locked c \<and>
                       \<not> zms_egress_clock_media_due fmul now c (s_dts_ms s) (g_pace_lead_ms P)
                    then (0, peek, rd1, cs) else (1, peek, rd1, cs)
                | _ \<Rightarrow> (1, peek, rd1, cs)))"

section \<open>Snap, resync and kick\<close>

text \<open>
  What a pump holds: its reader, the RTP muxer when there is one, the flag and the time the
  session keeps behind the two pointers, its play clock and the caps. \<open>le_calls\<close> collects
  the unreferences of the interleaving buffer. The session's \<open>on_snap\<close> is a function on it.
\<close>

record ('b, 'l) live_env =
  le_rd :: "'b zms_gop_reader"
  le_mux :: "'l zms_rtp_muxer option"
  le_live :: bool
  le_catchup_done :: "bool option"
  le_resync_at_ms :: "u64 option"
  le_play_clk :: "zms_egress_clock option"
  le_on_slow :: bool
  le_budget_cap :: int
  le_calls :: "'b ztk_call list"

definition env_seek_live :: "'b zms_gop_queue \<Rightarrow> ('b, 'l) live_env \<Rightarrow> ('b, 'l) live_env" where
  "env_seek_live r e =
     (case zms_gop_reader_seek_live r (le_rd e) of
        (rd, cs) \<Rightarrow> e\<lparr>le_rd := rd, le_calls := le_calls e @ cs\<rparr>)"

definition zms_egress_live_snap_gop ::
  "u64 \<Rightarrow> 'b zms_gop_queue \<Rightarrow> ('b, 'l) live_env \<Rightarrow> ('b, 'l) live_env" where
  "zms_egress_live_snap_gop now r e =
     (let e1 = env_seek_live r e;
          anchor = (case zms_gop_reader_slot_at_read r (le_rd e1) of
                      Some s \<Rightarrow> if s_track s = ZMS_TRACK_VIDEO then s_dts_ms s else 0
                    | None \<Rightarrow> 0)
      in case le_mux e1 of
           None \<Rightarrow> e1
         | Some m \<Rightarrow>
             if zms_egress_clock_epoch_locked (m_clk m)
             then e1\<lparr>le_mux := Some (m\<lparr>m_clk := zms_egress_clock_sync_wall now (m_clk m) anchor\<rparr>)\<rparr>
             else e1\<lparr>le_mux := Some (zms_rtp_muxer_jump_live m)\<rparr>)"

definition live_play_clock :: "('b, 'l) live_env \<Rightarrow> zms_egress_clock option" where
  "live_play_clock e =
     (case le_mux e of Some m \<Rightarrow> Some (m_clk m) | None \<Rightarrow> if le_live e then le_play_clk e else None)"

definition env_catchup_done :: "('b, 'l) live_env \<Rightarrow> bool" where
  "env_catchup_done e = (le_live e \<and> le_catchup_done e = Some True)"

definition env_epoch_on :: "('b, 'l) live_env \<Rightarrow> bool" where
  "env_epoch_on e = (case live_play_clock e of Some c \<Rightarrow> zms_egress_clock_epoch_locked c | None \<Rightarrow> False)"

definition live_play_maybe_kick_slow_consumer ::
  "zms_egress_pacing \<Rightarrow> ('b, 'l) live_env \<Rightarrow> bool \<Rightarrow> bool \<Rightarrow> nat \<Rightarrow> bool" where
  "live_play_maybe_kick_slow_consumer P e catchup_done epoch_on lag =
     (if g_slow_consumer_kick_lag P = 0 \<or> \<not> catchup_done \<or> \<not> epoch_on \<or>
         lag \<le> unat (g_slow_consumer_kick_lag P) then False
      else le_live e \<and> le_on_slow e)"

text \<open>
  The steps of \<open>zms_egress_live_rtsp_prep\<close>: the snap of a lagging reader, the end of the
  catch-up or the resync, the budget, the kick. In the resync the source reads the lock of
  the clock pointer it took before \<open>on_snap\<close>; the pointer stays the same, so it is the lock
  of the clock as \<open>on_snap\<close> left it.
\<close>

definition prep_snap ::
  "(('b, 'l) live_env \<Rightarrow> ('b, 'l) live_env) \<Rightarrow> zms_egress_pacing \<Rightarrow> u64 \<Rightarrow> 'b zms_gop_queue
     \<Rightarrow> ('b, 'l) live_env \<Rightarrow> ('b, 'l) live_env" where
  "prep_snap on_snap P now r e =
     (if zms_gop_reader_lag r (le_rd e) > unat (g_ring_max_lag P) \<and> (env_catchup_done e \<or> env_epoch_on e)
      then (let e1 = zms_egress_live_snap_gop now r e in if le_live e then on_snap e1 else e1)
      else e)"

text \<open>The state after the second step, with the local \<open>catchup_done\<close>, \<open>epoch_on\<close>
  and \<open>lag\<close>.\<close>

definition prep_resync ::
  "(('b, 'l) live_env \<Rightarrow> ('b, 'l) live_env) \<Rightarrow> zms_egress_pacing \<Rightarrow> u64 \<Rightarrow> 'b zms_gop_queue
     \<Rightarrow> ('b, 'l) live_env \<Rightarrow> ('b, 'l) live_env \<times> bool \<times> bool \<times> nat" where
  "prep_resync on_snap P now r e =
     (let lag = zms_gop_reader_lag r (le_rd e); catchup_done = env_catchup_done e; epoch_on = env_epoch_on e in
      if le_live e \<and> le_catchup_done e \<noteq> None then
        (if \<not> catchup_done \<and> epoch_on \<and> lag \<le> unat (g_catchup_lag P)
         then (e\<lparr>le_catchup_done := Some True\<rparr>, True, epoch_on, lag)
         else if catchup_done \<and> epoch_on \<and> lag > unat (g_ring_max_lag P + g_resync_lag P) then
           (let last = (case le_resync_at_ms e of Some t \<Rightarrow> t | None \<Rightarrow> 0) in
            if now - last \<ge> ucast (g_resync_cooldown_ms P) then
              (let e1 = on_snap (zms_egress_live_snap_gop now r e);
                   e2 = (if le_resync_at_ms e1 \<noteq> None then e1\<lparr>le_resync_at_ms := Some now\<rparr> else e1)
               in (e2, catchup_done, env_epoch_on e2, zms_gop_reader_lag r (le_rd e2)))
            else (e, catchup_done, epoch_on, lag))
         else if \<not> epoch_on \<and> lag > unat (g_ring_max_lag P) then
           (let e1 = env_seek_live r e in (e1, catchup_done, epoch_on, zms_gop_reader_lag r (le_rd e1)))
         else (e, catchup_done, epoch_on, lag))
      else if lag > unat (g_ring_max_lag P) then (env_seek_live r e, catchup_done, epoch_on, lag)
      else (e, catchup_done, epoch_on, lag))"

definition zms_egress_live_rtsp_prep ::
  "(('b, 'l) live_env \<Rightarrow> ('b, 'l) live_env) \<Rightarrow> zms_egress_pacing \<Rightarrow> u64 \<Rightarrow> 'b zms_gop_queue
     \<Rightarrow> ('b, 'l) live_env \<Rightarrow> int option \<Rightarrow> bool \<times> ('b, 'l) live_env \<times> int option" where
  "zms_egress_live_rtsp_prep on_snap P now r e budget =
     (case prep_resync on_snap P now r (prep_snap on_snap P now r e) of
        (e2, catchup_done, epoch_on, lag) \<Rightarrow>
          let b1 = map_option (zms_egress_live_pump_budget P epoch_on catchup_done lag) budget;
              b2 = map_option (\<lambda>b. if le_live e2 \<and> le_budget_cap e2 > 0 \<and> b > le_budget_cap e2
                                   then le_budget_cap e2 else b) b1
          in (live_play_maybe_kick_slow_consumer P e2 catchup_done epoch_on lag, e2, b2))"

definition zms_egress_live_flv_prep ::
  "(('b, 'l) live_env \<Rightarrow> ('b, 'l) live_env) \<Rightarrow> zms_egress_pacing \<Rightarrow> u64 \<Rightarrow> 'b zms_gop_queue
     \<Rightarrow> ('b, 'l) live_env \<Rightarrow> int option \<Rightarrow> bool \<times> ('b, 'l) live_env \<times> int option" where
  "zms_egress_live_flv_prep on_snap P now r e budget =
     zms_egress_live_rtsp_prep on_snap P now r (e\<lparr>le_mux := None\<rparr>) budget"


section \<open>The thresholds are sane\<close>

definition pacing_ok :: "zms_egress_pacing \<Rightarrow> bool" where
  "pacing_ok p =
     (32 \<le> g_ring_max_lag p \<and> 1 \<le> g_catchup_lag p \<and> 1 \<le> g_resync_lag p \<and>
      1 \<le> sint (g_frame_budget_live p) \<and>
      sint (g_frame_budget_live p) \<le> sint (g_frame_budget_catchup p) \<and>
      sint (g_frame_budget_live p) \<le> sint (g_burst_budget p) \<and>
      1 \<le> sint (g_flv_budget_live p) \<and> 1 \<le> sint (g_flv_budget_vod p) \<and>
      (unat (g_ring_max_lag p) < 2 ^ 30 \<longrightarrow> g_ring_max_lag p \<le> g_resync_lag_max p) \<and>
      500 \<le> g_resync_cooldown_ms p \<and> 50 \<le> g_pace_lead_ms p)"

definition budgets_nonneg :: "zms_egress_pacing \<Rightarrow> bool" where
  "budgets_nonneg p = (0 \<le> sint (g_frame_budget_live p) \<and> 0 \<le> sint (g_flv_budget_live p) \<and>
     0 \<le> sint (g_flv_budget_vod p))"

lemma at_least_ge [simp]: "lo \<le> at_least lo x"
  by (simp add: at_least_def not_less)

lemma at_least_idem [simp]: "at_least lo (at_least lo x) = at_least lo x"
  by (simp add: at_least_def)

lemma sint_at_least1: "0 \<le> sint x \<Longrightarrow> 1 \<le> sint (at_least 1 (x::u32))"
proof (cases "x = 0")
  case True
  then show ?thesis by (simp add: at_least_def)
next
  case False
  assume "0 \<le> sint x"
  moreover have "sint x \<noteq> 0" using False by (metis signed_0 signed_word_eqI)
  moreover have "\<not> x < 1" using False by (simp add: word_less_nat_alt unat_gt_0)
  ultimately show ?thesis by (simp add: at_least_def)
qed

lemma times4_ge: "unat (x::u32) < 2 ^ 30 \<Longrightarrow> x \<le> x * 4"
  by (simp add: word_le_nat_alt unat_word_ariths)

lemma clamp_ok: "budgets_nonneg p \<Longrightarrow> pacing_ok (play_pacing_clamp p)"
  using sint_at_least1[of "g_frame_budget_live p"] sint_at_least1[of "g_flv_budget_live p"]
    sint_at_least1[of "g_flv_budget_vod p"] times4_ge[of "at_least 32 (g_ring_max_lag p)"]
  by (auto simp: play_pacing_clamp_def pacing_ok_def budgets_nonneg_def Let_def)

text \<open>
  C5: However the process is configured, the thresholds it runs with are sane and stay what they
  are when they are read, and before the initialisation readers get the (sane) defaults.
\<close>

theorem pacing_always_sane:
  assumes "case cfg of None \<Rightarrow> True | Some c \<Rightarrow> budgets_nonneg c"
  shows "(\<exists>p. zms_egress_pacing_init cfg = Some p \<and> pacing_ok p \<and>
            zms_egress_pacing_get (Some p) = (p, Some p)) \<and>
         pacing_ok (fst (zms_egress_pacing_get None)) \<and>
         play_pacing_clamp zms_egress_pacing_defaults = zms_egress_pacing_defaults"
proof -
  have d: "budgets_nonneg zms_egress_pacing_defaults"
    by (simp add: budgets_nonneg_def zms_egress_pacing_defaults_def)
  have "play_pacing_clamp zms_egress_pacing_defaults = zms_egress_pacing_defaults"
    by (simp add: play_pacing_clamp_def zms_egress_pacing_defaults_def at_least_def Let_def
        ZMS_GOP_QUEUE_PLAY_MAX_LAG_def)
  moreover have "pacing_ok (fst (zms_egress_pacing_get None))"
    using clamp_ok[OF d] by (simp add: zms_egress_pacing_get_def zms_egress_pacing_init_def)
  moreover have "budgets_nonneg (case cfg of None \<Rightarrow> zms_egress_pacing_defaults
        | Some c \<Rightarrow> let c1 = (if g_burst_budget c = 0 then c\<lparr>g_burst_budget := g_frame_budget_catchup c\<rparr> else c)
            in if g_resync_lag_max c1 = 0 then c1\<lparr>g_resync_lag_max := g_ring_max_lag c1 * 4\<rparr> else c1)"
    using assms d by (cases cfg) (auto simp: budgets_nonneg_def Let_def)
  ultimately show ?thesis
    using clamp_ok by (simp add: zms_egress_pacing_init_def zms_egress_pacing_get_def)
qed

theorem pacing_always_sane_witness:
  "(\<exists>p. zms_egress_pacing_init (Some (zms_egress_pacing_defaults\<lparr>g_frame_budget_live := 0\<rparr>)) = Some p \<and>
        pacing_ok p \<and> zms_egress_pacing_get (Some p) = (p, Some p)) \<and>
   pacing_ok (fst (zms_egress_pacing_get None)) \<and>
   play_pacing_clamp zms_egress_pacing_defaults = zms_egress_pacing_defaults"
  by (rule pacing_always_sane) (simp add: budgets_nonneg_def zms_egress_pacing_defaults_def)

text \<open>A negative budget is not below \<open>1u\<close>, so the clamp lets it through.\<close>

lemma negative_budget_passes:
  "sint (g_frame_budget_live (play_pacing_clamp (zms_egress_pacing_defaults\<lparr>g_frame_budget_live := - 5\<rparr>))) = - 5"
  by (simp add: play_pacing_clamp_def zms_egress_pacing_defaults_def at_least_def Let_def)

section \<open>The budget of a tick\<close>

text \<open>
  While the epoch is not locked or the catch-up is not over, a tick gets the burst. After
  that it gets at least one frame and never more than the steady budget, whatever the lag: a
  reader that lags gets the whole steady budget, not the burst.
\<close>

theorem pump_budget_bounds:
  assumes "pacing_ok P"
  shows "(\<not> (epoch_on \<and> catchup_done) \<longrightarrow>
            zms_egress_live_pump_budget P epoch_on catchup_done lag n = sint (g_burst_budget P))
       \<and> (epoch_on \<and> catchup_done \<longrightarrow>
            zms_egress_live_pump_budget P epoch_on catchup_done lag n
              = (if n \<le> 0 \<or> lag > unat (g_catchup_lag P) then sint (g_frame_budget_live P)
                 else min n (sint (g_frame_budget_live P))))
       \<and> 1 \<le> zms_egress_live_pump_budget P epoch_on catchup_done lag n"
  using assms
  by (auto simp: zms_egress_live_pump_budget_def zms_egress_live_lag_catchup_def pacing_ok_def Let_def min_def)

theorem pump_budget_bounds_witness:
  "zms_egress_live_pump_budget zms_egress_pacing_defaults True True 500 4 = 8 \<and>
   zms_egress_live_pump_budget zms_egress_pacing_defaults True False 3 4 = 96"
  using pump_budget_bounds[of zms_egress_pacing_defaults True True 500 4]
    pump_budget_bounds[of zms_egress_pacing_defaults True False 3 4]
  by (simp add: pacing_ok_def zms_egress_pacing_defaults_def ZMS_GOP_QUEUE_PLAY_MAX_LAG_def)

section \<open>What the preparation does to the lag\<close>

lemma seek_live_idx_lag:
  "q_write_idx r - seek_live_idx r i = (if i < q_write_idx r then min (q_write_idx r - i) 240
     else if q_write_idx r > 0 then 1 else 0)"
  by (auto simp: seek_live_idx_def Let_def ZMS_GOP_QUEUE_PLAY_MAX_LAG_def)

lemma lag_eq: "gop_inv r \<Longrightarrow> zms_gop_reader_lag r rd = q_write_idx r - r_read_idx rd"
  by (auto simp: zms_gop_reader_lag_def gop_inv_def)

lemma env_seek_lag:
  "gop_inv r \<Longrightarrow> zms_gop_reader_lag r (le_rd (env_seek_live r e))
     = (let l = zms_gop_reader_lag r (le_rd e) in
        if l > 0 then min l 240 else if q_write_idx r > 0 then 1 else 0)"
  by (auto simp: env_seek_live_def zms_gop_reader_seek_live_def frame_mux_clear_def lag_eq
      seek_live_idx_lag Let_def split: prod.split)

lemma snap_rd: "le_rd (zms_egress_live_snap_gop now r e) = le_rd (env_seek_live r e)"
  by (simp add: zms_egress_live_snap_gop_def Let_def split: option.split)

lemma env_seek_keeps:
  "le_live (env_seek_live r e) = le_live e" "le_catchup_done (env_seek_live r e) = le_catchup_done e"
  "le_on_slow (env_seek_live r e) = le_on_slow e" "le_mux (env_seek_live r e) = le_mux e"
  "le_play_clk (env_seek_live r e) = le_play_clk e"
  by (simp_all add: env_seek_live_def split: prod.split)


lemma prep_snap_lag:
  assumes "gop_inv r" "240 \<le> unat (g_ring_max_lag P)" "\<And>e. le_rd (on_snap e) = le_rd e"
    and "env_catchup_done e \<or> env_epoch_on e"
  shows "zms_gop_reader_lag r (le_rd (prep_snap on_snap P now r e)) \<le> unat (g_ring_max_lag P)"
  using assms env_seek_lag[OF assms(1), of e]
  by (auto simp: prep_snap_def snap_rd Let_def split: if_splits)

lemma prep_resync_lag:
  assumes "gop_inv r" "240 \<le> unat (g_ring_max_lag P)"
    and "unat (g_ring_max_lag P) + unat (g_resync_lag P) < 2 ^ 32"
    and "env_catchup_done e \<or> env_epoch_on e \<Longrightarrow> zms_gop_reader_lag r (le_rd e) \<le> unat (g_ring_max_lag P)"
    and "prep_resync on_snap P now r e = (e', cd, eo, lag)"
  shows "zms_gop_reader_lag r (le_rd e') \<le> unat (g_ring_max_lag P) \<and>
    (cd \<longrightarrow> lag = zms_gop_reader_lag r (le_rd e'))"
proof -
  have sum: "unat (g_ring_max_lag P + g_resync_lag P) = unat (g_ring_max_lag P) + unat (g_resync_lag P)"
    using assms(3) by (simp add: unat_word_ariths)
  have cd: "env_catchup_done e \<Longrightarrow> le_live e" by (simp add: env_catchup_done_def)
  show ?thesis
    using assms(2,4,5) env_seek_lag[OF assms(1), of e] cd
    by (auto simp: prep_resync_def sum Let_def split: if_splits)
qed


definition ex_env :: "nat \<Rightarrow> (nat, unit) live_env" where
  "ex_env i = \<lparr>le_rd = \<lparr>r_read_idx = i, r_from_beginning = False, r_wake_pending = False, r_wake_q = True,
       r_held_ref = None, r_mux = []\<rparr>,
     le_mux = None, le_live = True, le_catchup_done = Some True, le_resync_at_ms = Some 0,
     le_play_clk = Some (snd (zms_egress_clock_lock_epoch 1000 zms_egress_clock_init 0)),
     le_on_slow = True, le_budget_cap = 0, le_calls = []\<rparr>"


end
