(* ===== verification/Rtsp_Parser.thy ===== *)
theory Rtsp_Parser
  imports Http_Framer "HOL-Library.Monad_Syntax"
begin

text \<open>
  RTSP messages, \<open>session/rtsp/rtsp_parser.c\<close>: the parser of a header block and the builders of
  requests and responses. A fixed character array of the code is the C string it holds. A
  string argument is the list of its bytes, a NULL pointer \<open>None\<close>; the lengths that the
  builders keep in an \<open>int\<close> are taken to be below \<open>2 ^ 31\<close>.
\<close>

definition ZMS_RTSP_HDR_MAX :: nat where "ZMS_RTSP_HDR_MAX = 32"
definition ZMS_RTSP_KEY_MAX :: nat where "ZMS_RTSP_KEY_MAX = 64"
definition ZMS_RTSP_VAL_MAX :: nat where "ZMS_RTSP_VAL_MAX = 512"
definition ZMS_RTSP_LINE_MAX :: nat where "ZMS_RTSP_LINE_MAX = 2048"

lemmas rtsp_consts = ZMS_RTSP_HDR_MAX_def ZMS_RTSP_KEY_MAX_def ZMS_RTSP_VAL_MAX_def ZMS_RTSP_LINE_MAX_def

datatype zms_rtsp_method =
    ZMS_RTSP_OPTIONS
  | ZMS_RTSP_DESCRIBE
  | ZMS_RTSP_SETUP
  | ZMS_RTSP_PLAY
  | ZMS_RTSP_PAUSE
  | ZMS_RTSP_TEARDOWN
  | ZMS_RTSP_GET_PARAMETER
  | ZMS_RTSP_SET_PARAMETER
  | ZMS_RTSP_ANNOUNCE
  | ZMS_RTSP_RECORD
  | ZMS_RTSP_UNKNOWN

text \<open>The table of names; the last method has none.\<close>

definition method_names :: "(zms_rtsp_method \<times> bytes) list" where
  "method_names = [(ZMS_RTSP_OPTIONS, asc ''OPTIONS''), (ZMS_RTSP_DESCRIBE, asc ''DESCRIBE''),
     (ZMS_RTSP_SETUP, asc ''SETUP''), (ZMS_RTSP_PLAY, asc ''PLAY''), (ZMS_RTSP_PAUSE, asc ''PAUSE''),
     (ZMS_RTSP_TEARDOWN, asc ''TEARDOWN''), (ZMS_RTSP_GET_PARAMETER, asc ''GET_PARAMETER''),
     (ZMS_RTSP_SET_PARAMETER, asc ''SET_PARAMETER''), (ZMS_RTSP_ANNOUNCE, asc ''ANNOUNCE''),
     (ZMS_RTSP_RECORD, asc ''RECORD'')]"

record zms_rtsp_message =
  rm_is_response :: bool
  rm_method :: zms_rtsp_method
  rm_status_code :: int
  rm_version :: bytes
  rm_url :: bytes
  rm_reason :: bytes
  rm_headers :: "(bytes \<times> bytes) list"
  rm_body :: bytes

text \<open>The message after \<open>memset\<close>: the method 0 is \<open>OPTIONS\<close>.\<close>

definition rtsp_message_zero :: zms_rtsp_message where
  "rtsp_message_zero = \<lparr>rm_is_response = False, rm_method = ZMS_RTSP_OPTIONS, rm_status_code = 0,
     rm_version = [], rm_url = [], rm_reason = [], rm_headers = [], rm_body = []\<rparr>"

definition parse_method :: "bytes \<Rightarrow> zms_rtsp_method" where
  "parse_method s = (case find (\<lambda>(m, n). strcaseeq s n) method_names of
     Some (m, n) \<Rightarrow> m | None \<Rightarrow> ZMS_RTSP_UNKNOWN)"

definition trim_crlf :: "bytes \<Rightarrow> bytes" where
  "trim_crlf s = rev (dropWhile (\<lambda>c. c = 13 \<or> c = 10) (rev s))"

definition add_header :: "zms_rtsp_message \<Rightarrow> bytes \<Rightarrow> ztk_err \<times> zms_rtsp_message" where
  "add_header msg line =
     (case find_char line 58 of
        None \<Rightarrow> (ZTK_ERR_INVALID, msg)
      | Some klen \<Rightarrow>
        if klen \<ge> ZMS_RTSP_KEY_MAX then (ZTK_ERR_INVALID, msg)
        else let key = trim_crlf (take klen line);
                 val = trim_crlf (fit ZMS_RTSP_VAL_MAX (dropWhile (\<lambda>c. c = 32) (drop (klen + 1) line)))
             in if length (rm_headers msg) \<ge> ZMS_RTSP_HDR_MAX then (ZTK_ERR_BUFFER_TOO_SMALL, msg)
                else (ZTK_OK, msg\<lparr>rm_headers := rm_headers msg
                        @ [(fit ZMS_RTSP_KEY_MAX key, fit ZMS_RTSP_VAL_MAX val)]\<rparr>))"

text \<open>The length of the header block; the loop is the one of the HTTP framer.\<close>

definition find_header_end :: "bytes \<Rightarrow> nat option" where
  "find_header_end d = zms_http_message_search_tail d"

text \<open>The first line of \<open>parse_header_block\<close>; the result says if it was accepted.\<close>

definition parse_status_line :: "zms_rtsp_message \<Rightarrow> bytes \<Rightarrow> bool \<times> zms_rtsp_message" where
  "parse_status_line msg line =
     (let m1 = msg\<lparr>rm_is_response := True\<rparr> in
      case scan_word 15 (drop 5 line) of
        None \<Rightarrow> (False, m1)
      | Some (ver, r1) \<Rightarrow>
        (case scan_int r1 of
           None \<Rightarrow> (False, m1)
         | Some (code, r2) \<Rightarrow>
             (True, m1\<lparr>rm_status_code := code, rm_version := fit 16 ver,
                       rm_reason := take 127 (takeWhile (\<lambda>c. c \<noteq> 13 \<and> c \<noteq> 10) (dropWhile isspace r2))\<rparr>)))"

definition parse_rtsp_request_line :: "zms_rtsp_message \<Rightarrow> bytes \<Rightarrow> bool \<times> zms_rtsp_message" where
  "parse_rtsp_request_line msg line =
     (let m1 = msg\<lparr>rm_is_response := False\<rparr> in
      case (do { (method, r1) \<leftarrow> scan_word 63 line;
                 (url, r2) \<leftarrow> scan_word 511 r1;
                 r3 \<leftarrow> scan_lit (asc ''RTSP/'') (dropWhile isspace r2);
                 (ver, r4) \<leftarrow> scan_word 15 r3;
                 Some (method, url, ver) }) of
        None \<Rightarrow> (False, m1)
      | Some (method, url, ver) \<Rightarrow>
          (True, m1\<lparr>rm_method := parse_method method, rm_version := fit 16 ver, rm_url := fit 512 url\<rparr>))"

definition parse_first_line :: "zms_rtsp_message \<Rightarrow> bytes \<Rightarrow> bool \<times> zms_rtsp_message" where
  "parse_first_line msg line =
     (if starts_with (asc ''RTSP/'') line then parse_status_line msg line
      else parse_rtsp_request_line msg line)"

function parse_header_lines :: "zms_rtsp_message \<Rightarrow> bytes \<Rightarrow> ztk_err \<times> zms_rtsp_message" where
  "parse_header_lines msg s =
     (case strtok [13, 10] s of
        None \<Rightarrow> (ZTK_OK, msg)
      | Some (line, rest) \<Rightarrow>
          if line = [] then (ZTK_OK, msg)
          else (case add_header msg line of
                  (err, m1) \<Rightarrow> if err \<noteq> ZTK_OK then (err, m1) else parse_header_lines m1 rest))"
  by pat_completeness auto
termination by (relation "measure (\<lambda>(msg, s). length s)") (auto dest: strtok_shorter)

declare parse_header_lines.simps [simp del]

definition parse_header_block :: "bytes \<Rightarrow> zms_rtsp_message \<Rightarrow> ztk_err \<times> zms_rtsp_message" where
  "parse_header_block block msg =
     (case strtok [13, 10] block of
        None \<Rightarrow> (ZTK_ERR_INVALID, msg)
      | Some (line, rest) \<Rightarrow>
          (case parse_first_line msg line of
             (ok, m1) \<Rightarrow> if \<not> ok then (ZTK_ERR_INVALID, m1) else parse_header_lines m1 rest))"

definition zms_rtsp_message_parse_header :: "bytes \<Rightarrow> zms_rtsp_message \<Rightarrow> ztk_err \<times> zms_rtsp_message" where
  "zms_rtsp_message_parse_header d msg =
     (if d = [] then (ZTK_ERR_INVALID, msg)
      else case find_header_end d of
        None \<Rightarrow> (ZTK_ERR_AGAIN, rtsp_message_zero)
      | Some hdr_len \<Rightarrow>
          if hdr_len \<ge> ZMS_RTSP_LINE_MAX then (ZTK_ERR_BUFFER_TOO_SMALL, rtsp_message_zero)
          else parse_header_block (cstr (take hdr_len d)) rtsp_message_zero)"

definition zms_rtsp_message_get :: "zms_rtsp_message \<Rightarrow> bytes \<Rightarrow> bytes option" where
  "zms_rtsp_message_get msg key =
     map_option snd (find (\<lambda>(k, v). strcaseeq k key) (rm_headers msg))"

definition zms_rtsp_message_content_length :: "zms_rtsp_message \<Rightarrow> int" where
  "zms_rtsp_message_content_length msg =
     (case zms_rtsp_message_get msg (asc ''Content-Length'') of
        None \<Rightarrow> 0 | Some v \<Rightarrow> if v = [] then 0 else atoi v)"

text \<open>The third result is what was consumed.\<close>

definition zms_rtsp_message_parse :: "bytes \<Rightarrow> zms_rtsp_message \<Rightarrow> ztk_err \<times> zms_rtsp_message \<times> nat" where
  "zms_rtsp_message_parse d msg =
     (case zms_rtsp_message_parse_header d msg of
        (err, m1) \<Rightarrow>
          if err \<noteq> ZTK_OK then (err, m1, 0)
          else let hdr_len = (case find_header_end d of Some n \<Rightarrow> n | None \<Rightarrow> 0);
                   clen = zms_rtsp_message_content_length m1;
                   total = hdr_len + nat clen
               in if length d < total then (ZTK_ERR_AGAIN, m1, 0)
                  else (ZTK_OK, if clen > 0 then m1\<lparr>rm_body := take (nat clen) (drop hdr_len d)\<rparr> else m1, total))"

section \<open>The builders\<close>

text \<open>One \<open>snprintf\<close> at the end of what is written; \<open>None\<close> when the buffer is too small.\<close>

definition put_text :: "nat \<Rightarrow> bytes \<Rightarrow> bytes \<Rightarrow> bytes option" where
  "put_text cap out s = (if length (out @ s) \<ge> cap then None else Some (out @ s))"

definition crlf :: bytes where "crlf = [13, 10]"

definition sdec :: "int \<Rightarrow> bytes" where
  "sdec i = (if i < 0 then 45 # dec (nat (- i)) else dec (nat i))"

text \<open>What both builders do after the first lines.\<close>

definition build_rest :: "nat \<Rightarrow> bytes option \<Rightarrow> bytes option \<Rightarrow> bytes option \<Rightarrow> bytes \<Rightarrow> bytes option" where
  "build_rest cap session extra body o0 =
     do { o1 \<leftarrow> (case session of
            Some s \<Rightarrow> if s \<noteq> [] then put_text cap o0 (asc ''Session: '' @ s @ crlf) else Some o0
          | None \<Rightarrow> Some o0);
          o2 \<leftarrow> (case extra of
            Some e \<Rightarrow> if e \<noteq> [] then put_text cap o1 e else Some o1
          | None \<Rightarrow> Some o1);
          o3 \<leftarrow> (case body of
            Some b \<Rightarrow> if b \<noteq> [] then put_text cap o2 (asc ''Content-Length: '' @ dec (length b) @ crlf) else Some o2
          | None \<Rightarrow> Some o2);
          o4 \<leftarrow> put_text cap o3 crlf;
          (case body of Some b \<Rightarrow> if b \<noteq> [] then put_text cap o4 b else Some o4 | None \<Rightarrow> Some o4) }"

definition build_result :: "bytes option \<Rightarrow> ztk_err + bytes" where
  "build_result r = (case r of None \<Rightarrow> Inl ZTK_ERR_BUFFER_TOO_SMALL | Some out \<Rightarrow> Inr out)"

definition zms_rtsp_message_build_request :: "nat \<Rightarrow> zms_rtsp_method \<Rightarrow> bytes \<Rightarrow> nat \<Rightarrow> bytes option
    \<Rightarrow> bytes option \<Rightarrow> bytes option \<Rightarrow> ztk_err + bytes" where
  "zms_rtsp_message_build_request cap method url cseq session extra body =
     (case map_of method_names method of
        None \<Rightarrow> Inl ZTK_ERR_INVALID
      | Some m \<Rightarrow> build_result
          (do { o0 \<leftarrow> put_text cap [] (m @ [32] @ url @ asc '' RTSP/1.0'' @ crlf
                  @ asc ''CSeq: '' @ dec cseq @ crlf @ asc ''User-Agent: ZTK-RTSP/1.0'' @ crlf);
                build_rest cap session extra body o0 }))"

definition zms_rtsp_message_build_response :: "nat \<Rightarrow> int \<Rightarrow> bytes \<Rightarrow> nat \<Rightarrow> bytes option
    \<Rightarrow> bytes option \<Rightarrow> bytes option \<Rightarrow> ztk_err + bytes" where
  "zms_rtsp_message_build_response cap status reason cseq session extra body =
     build_result
       (do { o0 \<leftarrow> put_text cap [] (asc ''RTSP/1.0 '' @ sdec status @ [32] @ reason @ crlf
               @ asc ''CSeq: '' @ dec cseq @ crlf @ asc ''Server: ZMS-RTSP/1.0'' @ crlf);
             build_rest cap session extra body o0 })"

section \<open>A message as text\<close>

definition rtsp_header_line :: "bytes \<times> bytes \<Rightarrow> bytes" where
  "rtsp_header_line h = fst h @ [58, 32] @ snd h"

definition rtsp_text :: "bytes \<Rightarrow> (bytes \<times> bytes) list \<Rightarrow> bytes" where
  "rtsp_text line hs = crlf_lines (line # map rtsp_header_line hs) @ [13, 10]"

definition rtsp_header_wf :: "bytes \<times> bytes \<Rightarrow> bool" where
  "rtsp_header_wf h \<longleftrightarrow> length (fst h) < ZMS_RTSP_KEY_MAX \<and> set (fst h) \<inter> {0, 10, 13, 58} = {}
     \<and> length (snd h) < ZMS_RTSP_VAL_MAX \<and> set (snd h) \<inter> {0, 10, 13} = {} \<and> (snd h = [] \<or> hd (snd h) \<noteq> 32)"

definition rtsp_line_wf :: "bytes \<Rightarrow> bool" where
  "rtsp_line_wf l \<longleftrightarrow> l \<noteq> [] \<and> set l \<inter> {0, 10, 13} = {}"

lemma header_line_wf: "rtsp_header_wf h \<Longrightarrow> rtsp_line_wf (rtsp_header_line h)"
  by (auto simp: rtsp_header_wf_def rtsp_line_wf_def rtsp_header_line_def)

lemma strtok_line: "rtsp_line_wf l \<Longrightarrow> strtok [13, 10] (l @ 13 # r) = Some (l, r)"
  by (intro strtok_token) (auto simp: rtsp_line_wf_def)

lemma trim_crlf_id: "set s \<inter> {10, 13} = {} \<Longrightarrow> trim_crlf s = s"
proof -
  assume "set s \<inter> {10, 13} = {}"
  then have "dropWhile (\<lambda>c. c = 13 \<or> c = 10) (rev s) = rev s"
    by (cases s rule: rev_cases) auto
  then show ?thesis by (simp add: trim_crlf_def)
qed

lemma fit_short: "length s < n \<Longrightarrow> fit n s = s"
  by (simp add: fit_def)

lemma add_header_line:
  assumes "rtsp_header_wf h" "length (rm_headers msg) < ZMS_RTSP_HDR_MAX"
  shows "add_header msg (rtsp_header_line h) = (ZTK_OK, msg\<lparr>rm_headers := rm_headers msg @ [h]\<rparr>)"
proof -
  obtain k v where h: "h = (k, v)" by fastforce
  note wf = assms(1)[unfolded rtsp_header_wf_def h fst_conv snd_conv]
  have f: "find_char (rtsp_header_line h) 58 = Some (length k)"
    using wf find_char_append[of 58 k "32 # v"] by (auto simp: rtsp_header_line_def h)
  have v: "dropWhile (\<lambda>c. c = 32) v = v" using wf by (cases v) auto
  have t: "trim_crlf k = k" "trim_crlf v = v" using wf by (auto intro!: trim_crlf_id)
  have d: "take (length k) (rtsp_header_line h) = k" "drop (length k + 1) (rtsp_header_line h) = 32 # v"
    by (simp_all add: rtsp_header_line_def h)
  show ?thesis
    unfolding add_header_def f option.case d using wf assms(2) v t by (simp add: h fit_short Let_def)
qed

lemma parse_header_lines_text:
  assumes "\<forall>h \<in> set hs. rtsp_header_wf h" "length (rm_headers msg) + length hs \<le> ZMS_RTSP_HDR_MAX"
  shows "parse_header_lines msg (10 # crlf_lines (map rtsp_header_line hs) @ [13, 10])
    = (ZTK_OK, msg\<lparr>rm_headers := rm_headers msg @ hs\<rparr>)"
  using assms
proof (induction hs arbitrary: msg)
  case Nil
  then show ?case by (subst parse_header_lines.simps) (simp add: strtok_skip strtok_nil)
next
  case (Cons h hs)
  let ?r = "10 # crlf_lines (map rtsp_header_line hs) @ [13, 10]"
  have wf: "rtsp_line_wf (rtsp_header_line h)" using Cons.prems header_line_wf by simp
  have "strtok [13, 10] (10 # crlf_lines (map rtsp_header_line (h # hs)) @ [13, 10]) = Some (rtsp_header_line h, ?r)"
    using strtok_line[OF wf, of ?r] by (simp add: strtok_skip)
  with wf Cons.IH[of "msg\<lparr>rm_headers := rm_headers msg @ [h]\<rparr>"] Cons.prems
  show ?case by (subst parse_header_lines.simps) (simp add: add_header_line rtsp_line_wf_def)
qed

lemma first_line_keeps: "rm_headers (snd (parse_first_line m l)) = rm_headers m
    \<and> rm_body (snd (parse_first_line m l)) = rm_body m"
  by (auto simp: parse_first_line_def parse_status_line_def parse_rtsp_request_line_def Let_def
      split: option.splits prod.splits)

lemma rtsp_text_no0:
  assumes "rtsp_line_wf l" "\<forall>h \<in> set hs. rtsp_header_wf h"
  shows "0 \<notin> set (rtsp_text l hs)"
proof -
  have "0 \<notin> set (crlf_lines ls)" if "\<forall>l \<in> set ls. rtsp_line_wf l" for ls
    using that by (induction ls) (auto simp: rtsp_line_wf_def)
  with assms header_line_wf show ?thesis by (auto simp: rtsp_text_def rtsp_line_wf_def)
qed

lemma search_rtsp_text:
  assumes "rtsp_line_wf l" "\<forall>h \<in> set hs. rtsp_header_wf h"
  shows "zms_http_message_search_tail (rtsp_text l hs @ rest) = Some (length (rtsp_text l hs))"
proof -
  have "\<forall>x \<in> set (map rtsp_header_line hs). x \<noteq> [] \<and> 10 \<notin> set x" "10 \<notin> set l"
    using assms header_line_wf by (auto simp: rtsp_line_wf_def)
  from search_lines[OF this(2,1), of rest] show ?thesis by (simp add: rtsp_text_def)
qed

text \<open>A block that fits the line buffer is parsed into its first line and its headers.\<close>

lemma parse_rtsp_text:
  assumes "rtsp_line_wf l" "\<forall>h \<in> set hs. rtsp_header_wf h" "length hs \<le> ZMS_RTSP_HDR_MAX"
    and "length (rtsp_text l hs) < ZMS_RTSP_LINE_MAX" "parse_first_line rtsp_message_zero l = (True, m)"
  shows "zms_rtsp_message_parse_header (rtsp_text l hs @ rest) q = (ZTK_OK, m\<lparr>rm_headers := hs\<rparr>)"
proof -
  let ?r = "10 # crlf_lines (map rtsp_header_line hs) @ [13, 10]"
  have s: "strtok [13, 10] (rtsp_text l hs) = Some (l, ?r)"
    using strtok_line[OF assms(1), of ?r] by (simp add: rtsp_text_def)
  have h: "rm_headers m = []" using first_line_keeps[of rtsp_message_zero l] assms(5)
    by (simp add: rtsp_message_zero_def)
  have "parse_header_block (rtsp_text l hs) rtsp_message_zero = (ZTK_OK, m\<lparr>rm_headers := hs\<rparr>)"
    using parse_header_lines_text[OF assms(2), of m] assms(3) h
    by (simp add: parse_header_block_def s assms(5))
  moreover have "rtsp_text l hs @ rest \<noteq> []" by (simp add: rtsp_text_def)
  ultimately show ?thesis
    using assms(4) search_rtsp_text[OF assms(1,2)] rtsp_text_no0[OF assms(1,2)]
    by (simp add: zms_rtsp_message_parse_header_def find_header_end_def cstr_no0)
qed

text \<open>With the body: the whole message is consumed.\<close>

definition rtsp_body_announced :: "(bytes \<times> bytes) list \<Rightarrow> bytes \<Rightarrow> bool" where
  "rtsp_body_announced hs body \<longleftrightarrow>
     zms_rtsp_message_content_length (rtsp_message_zero\<lparr>rm_headers := hs\<rparr>) = int (length body)"

lemma content_length_headers:
  "rm_headers m = hs \<Longrightarrow> zms_rtsp_message_content_length m =
     zms_rtsp_message_content_length (rtsp_message_zero\<lparr>rm_headers := hs\<rparr>)"
  by (simp add: zms_rtsp_message_content_length_def zms_rtsp_message_get_def)

lemma parse_rtsp_message:
  assumes "rtsp_line_wf l" "\<forall>h \<in> set hs. rtsp_header_wf h" "length hs \<le> ZMS_RTSP_HDR_MAX"
    and "length (rtsp_text l hs) < ZMS_RTSP_LINE_MAX" "parse_first_line rtsp_message_zero l = (True, m)"
    and "rtsp_body_announced hs body"
  shows "zms_rtsp_message_parse (rtsp_text l hs @ body @ rest) q
    = (ZTK_OK, m\<lparr>rm_headers := hs, rm_body := body\<rparr>, length (rtsp_text l hs @ body))"
proof -
  have c: "zms_rtsp_message_content_length (m\<lparr>rm_headers := hs\<rparr>) = int (length body)"
    using assms(6) content_length_headers[of "m\<lparr>rm_headers := hs\<rparr>" hs] by (simp add: rtsp_body_announced_def)
  have "rm_body m = []" using first_line_keeps[of rtsp_message_zero l] assms(5)
    by (simp add: rtsp_message_zero_def)
  then have "m\<lparr>rm_headers := hs, rm_body := []\<rparr> = m\<lparr>rm_headers := hs\<rparr>" by (cases m) simp
  with c parse_rtsp_text[OF assms(1-5), of "body @ rest" q] search_rtsp_text[OF assms(1,2), of "body @ rest"]
  show ?thesis by (auto simp: zms_rtsp_message_parse_def Let_def find_header_end_def)
qed

end
