(* ===== verification/Rtsp_Roundtrip.thy ===== *)
theory Rtsp_Roundtrip
  imports Rtsp_Parser
begin

text \<open>
  What the RTSP builders write is read back by the parser as it was meant, request and
  response, with its headers in order and its body.
\<close>

definition rtsp_extra :: "(bytes \<times> bytes) list \<Rightarrow> bytes" where
  "rtsp_extra hs = crlf_lines (map rtsp_header_line hs)"

definition rtsp_headers :: "bytes \<times> bytes \<Rightarrow> nat \<Rightarrow> bytes \<Rightarrow> (bytes \<times> bytes) list \<Rightarrow> bytes \<Rightarrow> (bytes \<times> bytes) list" where
  "rtsp_headers agent cseq session extra body =
     [(asc ''CSeq'', dec cseq), agent] @ (if session = [] then [] else [(asc ''Session'', session)]) @ extra
     @ (if body = [] then [] else [(asc ''Content-Length'', dec (length body))])"

text \<open>What a caller may pass: header lines, and no length of its own.\<close>

definition rtsp_args_wf :: "nat \<Rightarrow> bytes \<Rightarrow> (bytes \<times> bytes) list \<Rightarrow> bytes \<Rightarrow> bool" where
  "rtsp_args_wf cseq session extra body \<longleftrightarrow>
     cseq < 2 ^ 32 \<and> length body < 2 ^ 31 \<and> rtsp_header_wf (asc ''Session'', session) \<and> length extra \<le> 28
     \<and> (\<forall>h \<in> set extra. rtsp_header_wf h \<and> \<not> strcaseeq (fst h) (asc ''Content-Length''))"

lemma length_dec: "n < 10 ^ k \<Longrightarrow> 0 < k \<Longrightarrow> length (dec n) \<le> k"
proof (induction k arbitrary: n)
  case (Suc k)
  show ?case
  proof (cases "n < 10")
    case False
    then have k: "k \<noteq> 0" using Suc.prems by (cases k) auto
    have "n div 10 < 10 ^ k" using Suc.prems(1) by (simp add: less_mult_imp_div_less)
    with Suc.IH[of "n div 10"] k False show ?thesis by (simp add: dec.simps[of n])
  qed (simp add: dec.simps[of n])
qed simp

lemma dec_line: "set (dec n) \<inter> {0, 10, 13} = {}"
  using dec_digits[of _ n] isdigit_not by blast

lemma dec_hd: "hd (dec n) \<noteq> 32"
  using dec_digits[of "hd (dec n)" n] isdigit_not(7) by auto

lemma dec_header_wf:
  assumes "length k < ZMS_RTSP_KEY_MAX" "set k \<inter> {0, 10, 13, 58} = {}" "n < 2 ^ 32"
  shows "rtsp_header_wf (k, dec n)"
proof -
  have "length (dec n) \<le> 10" using assms(3) by (intro length_dec) auto
  with assms dec_line[of n] dec_hd[of n] show ?thesis by (simp add: rtsp_header_wf_def rtsp_consts)
qed

lemma rtsp_headers_wf:
  assumes "rtsp_args_wf cseq session extra body" "rtsp_header_wf agent"
  shows "(\<forall>h \<in> set (rtsp_headers agent cseq session extra body). rtsp_header_wf h)
    \<and> length (rtsp_headers agent cseq session extra body) \<le> ZMS_RTSP_HDR_MAX"
proof -
  have "rtsp_header_wf (asc ''CSeq'', dec cseq)" "rtsp_header_wf (asc ''Content-Length'', dec (length body))"
    using assms(1) by (auto simp: rtsp_args_wf_def intro!: dec_header_wf) (simp_all add: rtsp_consts)
  with assms show ?thesis by (auto simp: rtsp_headers_def rtsp_args_wf_def ZMS_RTSP_HDR_MAX_def)
qed

lemma rtsp_headers_announce:
  assumes "rtsp_args_wf cseq session extra body" "\<not> strcaseeq (fst agent) (asc ''Content-Length'')"
  shows "rtsp_body_announced (rtsp_headers agent cseq session extra body) body"
proof -
  let ?P = "\<lambda>(k, v). strcaseeq k (asc ''Content-Length'')"
  have e: "find ?P extra = None" using assms(1) by (auto simp: rtsp_args_wf_def find_None_iff)
  have n: "\<not> strcaseeq (asc ''CSeq'') (asc ''Content-Length'')" "\<not> strcaseeq (asc ''Session'') (asc ''Content-Length'')"
    "strcaseeq (asc ''Content-Length'') (asc ''Content-Length'')" by (simp_all add: strcaseeq_def)
  have append: "find P (xs @ ys) = (case find P xs of None \<Rightarrow> find P ys | Some x \<Rightarrow> Some x)"
    for P and xs ys :: "(bytes \<times> bytes) list" by (induction xs) auto
  obtain ak av where a: "agent = (ak, av)" by fastforce
  have f: "find ?P (rtsp_headers agent cseq session extra body) =
      (if body = [] then None else Some (asc ''Content-Length'', dec (length body)))"
    unfolding rtsp_headers_def using e n assms(2) by (simp add: append a del: asc_simps)
  have "atoi (dec (length body)) = int (length body)"
    using strtol10_dec[of "[]" "length body"] assms(1) to_int32_small[of "int (length body)"]
    by (simp add: atoi_def rtsp_args_wf_def)
  with f show ?thesis
    by (simp add: rtsp_body_announced_def zms_rtsp_message_content_length_def zms_rtsp_message_get_def
        rtsp_message_zero_def del: asc_simps)
qed

section \<open>What the builders write\<close>

lemma put_text_Some: "put_text cap out s = Some r \<longleftrightarrow> length (out @ s) < cap \<and> r = out @ s"
  by (auto simp: put_text_def)

lemma build_rest_text:
  assumes "build_rest cap (Some session) (Some (rtsp_extra extra)) (Some body) o0 = Some out"
  shows "out = o0 @ crlf_lines (map rtsp_header_line ((if session = [] then [] else [(asc ''Session'', session)]) @ extra
     @ (if body = [] then [] else [(asc ''Content-Length'', dec (length body))]))) @ [13, 10] @ body"
  using assms
  by (auto simp: build_rest_def bind_eq_Some_conv put_text_Some crlf_def rtsp_extra_def rtsp_header_line_def
      split: if_splits)

lemma build_rest_crlf:
  assumes "build_rest cap (Some session) (Some (rtsp_extra extra)) (Some body)
      (line @ [13, 10] @ asc ''CSeq'' @ [58, 32] @ dec cseq @ [13, 10] @ fst agent @ [58, 32] @ snd agent @ [13, 10]) = Some out"
  shows "out = rtsp_text line (rtsp_headers agent cseq session extra body) @ body"
  using build_rest_text[OF assms] by (simp add: rtsp_text_def rtsp_headers_def rtsp_header_line_def)

definition rtsp_user_agent :: "bytes \<times> bytes" where
  "rtsp_user_agent = (asc ''User-Agent'', asc ''ZTK-RTSP/1.0'')"

definition rtsp_server_name :: "bytes \<times> bytes" where
  "rtsp_server_name = (asc ''Server'', asc ''ZMS-RTSP/1.0'')"

definition rtsp_request_line :: "bytes \<Rightarrow> bytes \<Rightarrow> bytes" where
  "rtsp_request_line m url = m @ [32] @ url @ [32] @ asc ''RTSP/'' @ asc ''1.0''"

definition rtsp_status_line :: "nat \<Rightarrow> bytes \<Rightarrow> bytes" where
  "rtsp_status_line status reason = asc ''RTSP/'' @ asc ''1.0'' @ [32] @ dec status @ [32] @ reason"

lemma build_request_text:
  assumes "zms_rtsp_message_build_request cap meth url cseq (Some session) (Some (rtsp_extra extra)) (Some body) = Inr out"
  shows "\<exists>m. map_of method_names meth = Some m
    \<and> out = rtsp_text (rtsp_request_line m url) (rtsp_headers rtsp_user_agent cseq session extra body) @ body"
proof -
  obtain m o0 where m: "map_of method_names meth = Some m"
    and p: "put_text cap [] (m @ [32] @ url @ asc '' RTSP/1.0'' @ crlf
        @ asc ''CSeq: '' @ dec cseq @ crlf @ asc ''User-Agent: ZTK-RTSP/1.0'' @ crlf) = Some o0"
    and r: "build_rest cap (Some session) (Some (rtsp_extra extra)) (Some body) o0 = Some out"
    using assms by (auto simp: zms_rtsp_message_build_request_def build_result_def bind_eq_Some_conv
        simp del: asc_simps append.simps split: option.splits)
  have "o0 = rtsp_request_line m url @ [13, 10] @ asc ''CSeq'' @ [58, 32] @ dec cseq @ [13, 10]
      @ fst rtsp_user_agent @ [58, 32] @ snd rtsp_user_agent @ [13, 10]"
    using p by (simp add: put_text_Some rtsp_request_line_def rtsp_user_agent_def crlf_def)
  with r m build_rest_crlf show ?thesis by blast
qed

lemma build_response_text:
  assumes "zms_rtsp_message_build_response cap (int status) reason cseq (Some session) (Some (rtsp_extra extra)) (Some body) = Inr out"
  shows "out = rtsp_text (rtsp_status_line status reason) (rtsp_headers rtsp_server_name cseq session extra body) @ body"
proof -
  obtain o0 where p: "put_text cap [] (asc ''RTSP/1.0 '' @ sdec (int status) @ [32] @ reason @ crlf
               @ asc ''CSeq: '' @ dec cseq @ crlf @ asc ''Server: ZMS-RTSP/1.0'' @ crlf) = Some o0"
    and r: "build_rest cap (Some session) (Some (rtsp_extra extra)) (Some body) o0 = Some out"
    using assms by (auto simp: zms_rtsp_message_build_response_def build_result_def bind_eq_Some_conv
        simp del: asc_simps append.simps split: option.splits)
  have "o0 = rtsp_status_line status reason @ [13, 10] @ asc ''CSeq'' @ [58, 32] @ dec cseq @ [13, 10]
      @ fst rtsp_server_name @ [58, 32] @ snd rtsp_server_name @ [13, 10]"
    using p by (simp add: put_text_Some rtsp_status_line_def rtsp_server_name_def crlf_def sdec_def)
  with r build_rest_crlf show ?thesis by blast
qed

section \<open>How the first line is read\<close>

lemma method_name:
  assumes "map_of method_names meth = Some m"
  shows "parse_method m = meth \<and> m \<noteq> [] \<and> length m \<le> 63 \<and> (\<forall>c \<in> set m. \<not> isspace c) \<and> set m \<inter> {0, 10, 13} = {}
    \<and> \<not> starts_with (asc ''RTSP/'') (m @ r)"
proof (cases meth)
qed (use assms in \<open>simp_all add: method_names_def parse_method_def strcaseeq_def tolower_def isspace_def starts_with_def\<close>,
    (elim subst, simp add: method_names_def parse_method_def strcaseeq_def tolower_def isspace_def starts_with_def)+)

definition rtsp_url_wf :: "bytes \<Rightarrow> bool" where
  "rtsp_url_wf url \<longleftrightarrow> url \<noteq> [] \<and> length url < 512 \<and> (\<forall>c \<in> set url. \<not> isspace c) \<and> 0 \<notin> set url"

lemma parse_request_first_line:
  assumes "map_of method_names meth = Some m" "rtsp_url_wf url"
  shows "parse_first_line rtsp_message_zero (rtsp_request_line m url) = (True, rtsp_message_zero
      \<lparr>rm_method := meth, rm_version := asc ''1.0'', rm_url := url\<rparr>)
    \<and> rtsp_line_wf (rtsp_request_line m url)"
proof -
  note u = assms(2)[unfolded rtsp_url_wf_def]
  note m = method_name[OF assms(1)]
  have sp: "isspace 32" by (simp add: isspace_def)
  have 1: "scan_word 63 (rtsp_request_line m url) = Some (m, 32 # url @ 32 # asc ''RTSP/'' @ asc ''1.0'')"
    using scan_word_word[of m 63 "32 # url @ 32 # asc ''RTSP/'' @ asc ''1.0''"] m[of "[]"] sp
    by (simp add: rtsp_request_line_def)
  have 2: "scan_word 511 (32 # url @ 32 # asc ''RTSP/'' @ asc ''1.0'') = Some (url, 32 # asc ''RTSP/'' @ asc ''1.0'')"
    using scan_word_word[of url 511 "32 # asc ''RTSP/'' @ asc ''1.0''"] u sp by (simp add: scan_word_space)
  have 3: "scan_lit (asc ''RTSP/'') (dropWhile isspace (32 # asc ''RTSP/'' @ asc ''1.0'')) = Some (asc ''1.0'')"
    by (simp add: scan_lit_def starts_with_def isspace_def)
  have 4: "scan_word 15 (asc ''1.0'') = Some (asc ''1.0'', [])"
    by (simp add: scan_word_def isspace_def)
  have "\<not> starts_with (asc ''RTSP/'') (rtsp_request_line m url)"
    using m by (simp add: rtsp_request_line_def)
  then have "parse_first_line rtsp_message_zero (rtsp_request_line m url) = (True, rtsp_message_zero
      \<lparr>rm_is_response := False, rm_method := meth, rm_version := asc ''1.0'', rm_url := url\<rparr>)"
    unfolding parse_first_line_def parse_rtsp_request_line_def Let_def
      1 2 3 4 Option.bind.simps prod.case option.case
    using u m[of "[]"] by (simp add: fit_short)
  moreover have "set url \<inter> {0, 10, 13} = {}" using u by (auto simp: isspace_def)
  ultimately show ?thesis using m[of "[]"]
    by (auto simp: rtsp_line_wf_def rtsp_request_line_def rtsp_message_zero_def)
qed

definition rtsp_reason_wf :: "bytes \<Rightarrow> bool" where
  "rtsp_reason_wf r \<longleftrightarrow> length r < 128 \<and> set r \<inter> {0, 10, 13} = {} \<and> (r = [] \<or> \<not> isspace (hd r))"

lemma parse_status_first_line:
  assumes "status < 2 ^ 31" "rtsp_reason_wf reason"
  shows "parse_first_line rtsp_message_zero (rtsp_status_line status reason) = (True, rtsp_message_zero
      \<lparr>rm_is_response := True, rm_status_code := int status, rm_version := asc ''1.0'', rm_reason := reason\<rparr>)
    \<and> rtsp_line_wf (rtsp_status_line status reason)"
proof -
  note r = assms(2)[unfolded rtsp_reason_wf_def]
  have sp: "isspace 32" by (simp add: isspace_def)
  have "\<forall>c \<in> set (asc ''1.0''). \<not> isspace c" by (simp add: isspace_def)
  then have 1: "scan_word 15 (drop 5 (rtsp_status_line status reason)) = Some (asc ''1.0'', 32 # dec status @ 32 # reason)"
    using scan_word_word[of "asc ''1.0''" 15 "32 # dec status @ 32 # reason"] sp
    by (simp add: rtsp_status_line_def)
  have 2: "scan_int (32 # dec status @ 32 # reason) = Some (int status, 32 # reason)"
    using scan_int_dec[of "32 # reason" status] assms(1) by (simp add: isdigit_def to_int32_small)
  have 3: "dropWhile isspace (32 # reason) = reason" using r sp by (cases reason) auto
  have tw: "takeWhile (\<lambda>c. c \<noteq> 13 \<and> c \<noteq> 10) reason = reason" using r by (auto simp: takeWhile_eq_all_conv)
  have 4: "take 127 (takeWhile (\<lambda>c. c \<noteq> 13 \<and> c \<noteq> 10) reason) = reason" unfolding tw using r by simp
  have s: "starts_with (asc ''RTSP/'') (rtsp_status_line status reason)"
    by (simp add: starts_with_def rtsp_status_line_def)
  have "parse_first_line rtsp_message_zero (rtsp_status_line status reason) = (True, rtsp_message_zero
      \<lparr>rm_is_response := True, rm_status_code := int status, rm_version := asc ''1.0'', rm_reason := reason\<rparr>)"
    unfolding parse_first_line_def parse_status_line_def Let_def 1 2 3 4 option.case prod.case
    using s by (simp add: fit_short rtsp_message_zero_def)
  with dec_line[of status] r show ?thesis
    by (auto simp: rtsp_line_wf_def rtsp_status_line_def)
qed

section \<open>The round trips\<close>

definition rtsp_request :: "zms_rtsp_method \<Rightarrow> bytes \<Rightarrow> (bytes \<times> bytes) list \<Rightarrow> bytes \<Rightarrow> zms_rtsp_message" where
  "rtsp_request meth url hs body = rtsp_message_zero\<lparr>rm_method := meth, rm_version := asc ''1.0'',
     rm_url := url, rm_headers := hs, rm_body := body\<rparr>"

definition rtsp_response :: "nat \<Rightarrow> bytes \<Rightarrow> (bytes \<times> bytes) list \<Rightarrow> bytes \<Rightarrow> zms_rtsp_message" where
  "rtsp_response status reason hs body = rtsp_message_zero\<lparr>rm_is_response := True, rm_status_code := int status,
     rm_version := asc ''1.0'', rm_reason := reason, rm_headers := hs, rm_body := body\<rparr>"

lemma agents_wf: "rtsp_header_wf rtsp_user_agent" "rtsp_header_wf rtsp_server_name"
  "\<not> strcaseeq (fst rtsp_user_agent) (asc ''Content-Length'')" "\<not> strcaseeq (fst rtsp_server_name) (asc ''Content-Length'')"
  by (simp_all add: rtsp_user_agent_def rtsp_server_name_def rtsp_header_wf_def rtsp_consts strcaseeq_def)

text \<open>
  A request or a response that a builder wrote comes out of the parser with its meth and
  address or its status and reason, its headers in order and its body, and exactly its bytes
  are consumed, whatever follows; its header block has to fit the line buffer.
\<close>

theorem rtsp_message_roundtrip:
  assumes "rtsp_args_wf cseq session extra body" "length out - length body < ZMS_RTSP_LINE_MAX"
  shows "(rtsp_url_wf url \<and> zms_rtsp_message_build_request cap meth url cseq (Some session)
            (Some (rtsp_extra extra)) (Some body) = Inr out \<longrightarrow>
          zms_rtsp_message_parse (out @ rest) q = (ZTK_OK, rtsp_request meth url
            (rtsp_headers rtsp_user_agent cseq session extra body) body, length out))
    \<and> (status < 2 ^ 31 \<and> rtsp_reason_wf reason \<and> zms_rtsp_message_build_response cap (int status) reason cseq
            (Some session) (Some (rtsp_extra extra)) (Some body) = Inr out \<longrightarrow>
          zms_rtsp_message_parse (out @ rest) q = (ZTK_OK, rtsp_response status reason
            (rtsp_headers rtsp_server_name cseq session extra body) body, length out))"
proof (intro conjI impI; elim conjE)
  assume u: "rtsp_url_wf url" and b: "zms_rtsp_message_build_request cap meth url cseq (Some session)
           (Some (rtsp_extra extra)) (Some body) = Inr out"
  obtain m where m: "map_of method_names meth = Some m"
    and out: "out = rtsp_text (rtsp_request_line m url) (rtsp_headers rtsp_user_agent cseq session extra body) @ body"
    using build_request_text[OF b] by blast
  note l = parse_request_first_line[OF m u]
  note w = rtsp_headers_wf[OF assms(1) agents_wf(1)] rtsp_headers_announce[OF assms(1) agents_wf(3)]
  have "length (rtsp_text (rtsp_request_line m url) (rtsp_headers rtsp_user_agent cseq session extra body)) < ZMS_RTSP_LINE_MAX"
    using assms(2) out by simp
  from parse_rtsp_message[OF _ _ _ this _ w(2)] l w(1) out
  show "zms_rtsp_message_parse (out @ rest) q = (ZTK_OK, rtsp_request meth url
            (rtsp_headers rtsp_user_agent cseq session extra body) body, length out)"
    by (simp add: rtsp_request_def)
next
  assume s: "status < 2 ^ 31" "rtsp_reason_wf reason" and b: "zms_rtsp_message_build_response cap (int status) reason cseq
           (Some session) (Some (rtsp_extra extra)) (Some body) = Inr out"
  note out = build_response_text[OF b]
  note l = parse_status_first_line[OF s]
  note w = rtsp_headers_wf[OF assms(1) agents_wf(2)] rtsp_headers_announce[OF assms(1) agents_wf(4)]
  have "length (rtsp_text (rtsp_status_line status reason) (rtsp_headers rtsp_server_name cseq session extra body)) < ZMS_RTSP_LINE_MAX"
    using assms(2) out by simp
  from parse_rtsp_message[OF _ _ _ this _ w(2)] l w(1) out
  show "zms_rtsp_message_parse (out @ rest) q = (ZTK_OK, rtsp_response status reason
            (rtsp_headers rtsp_server_name cseq session extra body) body, length out)"
    by (simp add: rtsp_response_def)
qed

definition ex_setup :: bytes where
  "ex_setup = (case zms_rtsp_message_build_request 4096 ZMS_RTSP_SETUP (asc ''rtsp://h/s'') 7 (Some (asc ''12''))
     (Some (rtsp_extra [(asc ''Transport'', asc ''RTP/AVP'')])) (Some (asc ''b'')) of Inr out \<Rightarrow> out | Inl e \<Rightarrow> [])"

lemma rtsp_message_roundtrip_witness:
  "zms_rtsp_message_parse (ex_setup @ [1]) rtsp_message_zero = (ZTK_OK, rtsp_request ZMS_RTSP_SETUP (asc ''rtsp://h/s'')
     (rtsp_headers rtsp_user_agent 7 (asc ''12'') [(asc ''Transport'', asc ''RTP/AVP'')] (asc ''b'')) (asc ''b''), length ex_setup)"
proof -
  have b: "zms_rtsp_message_build_request 4096 ZMS_RTSP_SETUP (asc ''rtsp://h/s'') 7 (Some (asc ''12''))
     (Some (rtsp_extra [(asc ''Transport'', asc ''RTP/AVP'')])) (Some (asc ''b'')) = Inr ex_setup" by code_simp
  have w: "rtsp_args_wf 7 (asc ''12'') [(asc ''Transport'', asc ''RTP/AVP'')] (asc ''b'')"
    by (simp add: rtsp_args_wf_def rtsp_header_wf_def rtsp_consts strcaseeq_def)
  have u: "rtsp_url_wf (asc ''rtsp://h/s'')" by (simp add: rtsp_url_wf_def isspace_def)
  obtain m where m: "map_of method_names ZMS_RTSP_SETUP = Some m"
    and e: "ex_setup = rtsp_text (rtsp_request_line m (asc ''rtsp://h/s''))
      (rtsp_headers rtsp_user_agent 7 (asc ''12'') [(asc ''Transport'', asc ''RTP/AVP'')] (asc ''b'')) @ asc ''b''"
    using build_request_text[OF b] by blast
  have "m = asc ''SETUP''" using m by (simp add: method_names_def)
  then have "length ex_setup - length (asc ''b'') < ZMS_RTSP_LINE_MAX"
    unfolding e by (simp add: rtsp_text_def rtsp_request_line_def rtsp_headers_def
      rtsp_header_line_def rtsp_user_agent_def rtsp_consts dec.simps)
  from rtsp_message_roundtrip[OF w this, THEN conjunct1, THEN mp, OF conjI[OF u b]] show ?thesis .
qed

end
