(* ===== verification/Rtsp_Splitter.thy ===== *)
theory Rtsp_Splitter
  imports Rtsp_Roundtrip Rtp_Packet
begin

text \<open>
  The RTSP splitter, \<open>session/rtsp/rtsp_splitter.c\<close>: a client of the message framer that tells
  interleaved RTP frames from messages. The callbacks of its owner are the events it emits, in
  order. The search for a frame mark in an overfull cache is dead code: the framer refuses the
  data first. Without it the splitter is a \<open>framer_client\<close>.
\<close>

definition ZMS_RTSP_SPLITTER_MAX_CACHE :: nat where
  "ZMS_RTSP_SPLITTER_MAX_CACHE = 256 * 1024"

datatype rtsp_event = Rtsp_Message zms_rtsp_message | Rtsp_Rtp u8 bytes

record zms_rtsp_splitter =
  rs_msg :: zms_rtsp_message
  rs_enable_rtp :: bool
  rs_is_rtp_packet :: bool

definition search_rtsp_tail_l :: "zms_rtsp_splitter \<Rightarrow> bytes \<Rightarrow> nat option \<times> zms_rtsp_splitter" where
  "search_rtsp_tail_l s d =
     (if rs_enable_rtp s \<and> d \<noteq> [] \<and> d ! 0 = 0x24 then
        if length d < ZMS_RTSP_INTERLEAVED_HDR then (None, s)
        else let total = ZMS_RTSP_INTERLEAVED_HDR + unat (be16 d 2) in
          if length d < total then (None, s)
          else (Some total, s\<lparr>rs_is_rtp_packet := True\<rparr>)
      else (zms_http_message_search_tail d, s\<lparr>rs_is_rtp_packet := False\<rparr>))"

definition rtsp_on_search_tail :: "zms_rtsp_splitter \<Rightarrow> bytes \<Rightarrow> nat option \<times> zms_rtsp_splitter" where
  "rtsp_on_search_tail s d =
     (case search_rtsp_tail_l s d of
        (Some k, s1) \<Rightarrow> (Some k, s1)
      | (None, s1) \<Rightarrow> if length d > ZMS_RTSP_SPLITTER_MAX_CACHE then (find_char d 0x24, s1) else (None, s1))"

definition dispatch_interleaved :: "bytes \<Rightarrow> rtsp_event list" where
  "dispatch_interleaved d =
     (case zms_rtsp_interleaved_read d of Inl e \<Rightarrow> [] | Inr (ch, p) \<Rightarrow> [Rtsp_Rtp ch p])"

definition dispatch_rtsp_message :: "zms_rtsp_splitter \<Rightarrow> zms_rtsp_splitter \<times> rtsp_event list" where
  "dispatch_rtsp_message s = (s\<lparr>rs_msg := rtsp_message_zero\<rparr>, [Rtsp_Message (rs_msg s)])"

definition on_rtsp_header :: "zms_rtsp_splitter \<Rightarrow> bytes \<Rightarrow> int \<times> zms_rtsp_splitter \<times> rtsp_event list" where
  "on_rtsp_header s header =
     (if rs_is_rtp_packet s then (0, s, dispatch_interleaved header)
      else if header = [13, 10, 13, 10] then (0, s, [])
      else case zms_rtsp_message_parse_header header rtsp_message_zero of
        (err, m) \<Rightarrow>
          let s1 = s\<lparr>rs_msg := m\<rparr>; clen = zms_rtsp_message_content_length m in
          if err \<noteq> ZTK_OK then (0, s1, [])
          else if clen \<le> 0 then (case dispatch_rtsp_message s1 of (s2, es) \<Rightarrow> (0, s2, es))
          else (clen, s1, []))"

definition on_rtsp_content :: "zms_rtsp_splitter \<Rightarrow> bytes \<Rightarrow> zms_rtsp_splitter \<times> rtsp_event list" where
  "on_rtsp_content s d = dispatch_rtsp_message (s\<lparr>rs_msg := (rs_msg s)\<lparr>rm_body := d\<rparr>\<rparr>)"

definition rtsp_splitter_opts :: "(zms_rtsp_splitter, rtsp_event) zms_http_message_framer_opts" where
  "rtsp_splitter_opts = \<lparr>fo_on_header = Some on_rtsp_header, fo_on_content = Some on_rtsp_content,
     fo_max_cache_size = ZMS_RTSP_SPLITTER_MAX_CACHE, fo_on_search_tail = Some rtsp_on_search_tail\<rparr>"

definition zms_rtsp_splitter_create :: "zms_rtsp_splitter zms_http_message_framer" where
  "zms_rtsp_splitter_create = zms_http_message_framer_create rtsp_splitter_opts
     \<lparr>rs_msg = rtsp_message_zero, rs_enable_rtp = False, rs_is_rtp_packet = False\<rparr>"

definition zms_rtsp_splitter_enable_rtp :: "zms_rtsp_splitter zms_http_message_framer \<Rightarrow> bool
    \<Rightarrow> zms_rtsp_splitter zms_http_message_framer" where
  "zms_rtsp_splitter_enable_rtp f on = f\<lparr>hf_user := (hf_user f)\<lparr>rs_enable_rtp := on\<rparr>\<rparr>"

definition zms_rtsp_splitter_reset :: "zms_rtsp_splitter zms_http_message_framer
    \<Rightarrow> zms_rtsp_splitter zms_http_message_framer" where
  "zms_rtsp_splitter_reset f = (zms_http_message_framer_reset f)
     \<lparr>hf_user := (hf_user f)\<lparr>rs_msg := rtsp_message_zero, rs_is_rtp_packet := False\<rparr>\<rparr>"

definition zms_rtsp_splitter_input :: "zms_rtsp_splitter zms_http_message_framer \<Rightarrow> bytes
    \<Rightarrow> ztk_err \<times> zms_rtsp_splitter zms_http_message_framer \<times> rtsp_event list" where
  "zms_rtsp_splitter_input f d =
     (if d = [] then (ZTK_OK, f, [])
      else case zms_http_message_framer_input rtsp_splitter_opts f d of
        (err, g, es) \<Rightarrow>
          if err = ZTK_ERR_BUFFER_TOO_SMALL \<and> rs_enable_rtp (hf_user g) then
            let h = zms_rtsp_splitter_reset g in
            (case find_char d 0x24 of
               None \<Rightarrow> (ZTK_ERR_IO, h, es)
             | Some mark \<Rightarrow>
                 if mark > 0 then (case zms_http_message_framer_input rtsp_splitter_opts h (drop mark d) of
                   (err2, k, es2) \<Rightarrow> (err2, k, es @ es2))
                 else (ZTK_ERR_IO, h, es))
          else (err, g, es))"

section \<open>The splitter as a client of the framer\<close>

definition rtsp_core_opts :: "(zms_rtsp_splitter, rtsp_event) zms_http_message_framer_opts" where
  "rtsp_core_opts = rtsp_splitter_opts\<lparr>fo_on_search_tail := Some search_rtsp_tail_l\<rparr>"

lemma be16_append: "4 \<le> length d \<Longrightarrow> be16 (d @ x) 2 = be16 d 2"
  by (simp add: be16_def nth_append)

lemma core_calls [simp]:
  "search_packet_tail rtsp_core_opts s d = search_rtsp_tail_l s d"
  "call_on_header rtsp_core_opts s h = on_rtsp_header s h"
  "call_on_content rtsp_core_opts s h = on_rtsp_content s h"
  by (simp_all add: search_packet_tail_def call_on_header_def call_on_content_def rtsp_core_opts_def rtsp_splitter_opts_def)

interpretation rtsp_core: framer_client rtsp_core_opts
proof
  fix s s1 :: zms_rtsp_splitter and d x h k n es
  show "0 < k \<and> k \<le> length d \<and> search_packet_tail rtsp_core_opts s (d @ x) = (Some k, s1)"
    if "search_packet_tail rtsp_core_opts s d = (Some k, s1)"
    using that search_tail_bounds[of d k] search_tail_append[of d k x] be16_append[of d x]
    by (auto simp: search_rtsp_tail_l_def ZMS_RTSP_INTERLEAVED_HDR_def Let_def nth_append split: if_splits)
  show "search_packet_tail rtsp_core_opts s1 (d @ x) = search_packet_tail rtsp_core_opts s (d @ x)"
    if "d \<noteq> []" "search_packet_tail rtsp_core_opts s d = (None, s1)"
    using that by (auto simp: search_rtsp_tail_l_def Let_def nth_append split: if_splits)
  show "0 \<le> n" if "call_on_header rtsp_core_opts s h = (n, s1, es)"
    using that by (auto simp: on_rtsp_header_def Let_def dispatch_rtsp_message_def split: prod.splits if_splits)
qed

lemma header_loop_core: "length d \<le> ZMS_RTSP_SPLITTER_MAX_CACHE \<Longrightarrow>
    header_loop rtsp_splitter_opts s c d = header_loop rtsp_core_opts s c d"
proof (induction "length d" arbitrary: s c d rule: less_induct)
  case less
  have s: "search_packet_tail rtsp_splitter_opts s d = search_rtsp_tail_l s d"
    using less.prems by (auto simp: search_packet_tail_def rtsp_splitter_opts_def rtsp_on_search_tail_def
        split: option.splits prod.splits)
  have h: "call_on_header rtsp_splitter_opts = on_rtsp_header"
    by (simp add: call_on_header_def rtsp_splitter_opts_def fun_eq_iff)
  have IH: "header_loop rtsp_splitter_opts s c (drop k d) = header_loop rtsp_core_opts s c (drop k d)"
    if "0 < k" "d \<noteq> []" for k s c
    using less.hyps[of "drop k d" s c] less.prems that by simp
  show ?case
    by (subst (1 2) header_loop.simps) (simp add: s h IH split: option.splits prod.splits)
qed

lemma split_packet_core: "length d \<le> ZMS_RTSP_SPLITTER_MAX_CACHE \<Longrightarrow>
    split_packet rtsp_splitter_opts f d = split_packet rtsp_core_opts f d"
proof (induction "length d" arbitrary: f d rule: less_induct)
  case less
  obtain ok s c r es where l: "header_loop rtsp_core_opts (hf_user f) (hf_content_len f) d = (ok, s, c, r, es)"
    using prod_cases5 by blast
  have r: "length r \<le> length d" using header_loop_length[OF l] .
  have b: "call_on_content rtsp_splitter_opts = on_rtsp_content"
    by (simp add: call_on_content_def rtsp_splitter_opts_def fun_eq_iff)
  have IH: "split_packet rtsp_splitter_opts g (drop (nat c) r) = split_packet rtsp_core_opts g (drop (nat c) r)"
    if "0 < c" "r \<noteq> []" for g
  proof -
    have "0 < length r" "0 < nat c" using that by simp_all
    then have "length (drop (nat c) r) < length d" unfolding length_drop using r by linarith
    with less.prems show ?thesis by (intro less.hyps) simp_all
  qed
  show ?case
    by (subst (1 2) split_packet.simps)
      (simp add: header_loop_core[OF less.prems] l b Let_def IH split: prod.splits)
qed

text \<open>The recovery inside the search never runs.\<close>

lemma framer_input_core:
  assumes "hf_max_cache_size f \<le> ZMS_RTSP_SPLITTER_MAX_CACHE"
  shows "zms_http_message_framer_input rtsp_splitter_opts f d = zms_http_message_framer_input rtsp_core_opts f d"
  using assms split_packet_core[of d] split_packet_core[of "hf_remain f @ d"]
  by (auto simp: zms_http_message_framer_input_def)

section \<open>Any cut of the stream\<close>

fun rtsp_inputs :: "zms_rtsp_splitter zms_http_message_framer \<Rightarrow> bytes list
    \<Rightarrow> ztk_err \<times> zms_rtsp_splitter zms_http_message_framer \<times> rtsp_event list" where
  "rtsp_inputs f [] = (ZTK_OK, f, [])"
| "rtsp_inputs f (d # ds) =
     (case zms_rtsp_splitter_input f d of
        (err, g, es) \<Rightarrow>
          if err \<noteq> ZTK_OK then (err, g, es)
          else (case rtsp_inputs g ds of (err2, h, es2) \<Rightarrow> (err2, h, es @ es2)))"

definition rtsp_ready :: "zms_rtsp_splitter zms_http_message_framer \<Rightarrow> nat \<Rightarrow> bool" where
  "rtsp_ready f n \<longleftrightarrow> 0 \<le> hf_content_len f \<and> length (hf_remain f) + n \<le> hf_max_cache_size f
     \<and> hf_max_cache_size f \<le> ZMS_RTSP_SPLITTER_MAX_CACHE"

lemma splitter_input_core:
  assumes "rtsp_ready f (length d)" "d \<noteq> []"
  shows "zms_rtsp_splitter_input f d = zms_http_message_framer_input rtsp_core_opts f d
    \<and> (\<exists>s c r es. zms_http_message_framer_input rtsp_core_opts f d = (ZTK_OK, framer_of f (s, c) r, es)
        \<and> drive (framer_step rtsp_core_opts) (hf_user f, hf_content_len f) (hf_remain f @ d) = (es, Inr ((s, c), r))
        \<and> 0 \<le> c \<and> length r \<le> length (hf_remain f) + length d)"
proof -
  from rtsp_core.input_drive[of f d] assms obtain s c r es where
    dr: "drive (framer_step rtsp_core_opts) (hf_user f, hf_content_len f) (hf_remain f @ d) = (es, Inr ((s, c), r))"
    and i: "zms_http_message_framer_input rtsp_core_opts f d = (ZTK_OK, framer_of f (s, c) r, es)"
    by (auto simp: rtsp_ready_def framer_of_def)
  have "0 \<le> snd (hf_user f, hf_content_len f)" using assms by (simp add: rtsp_ready_def)
  from rtsp_core.steps.drive_rest[OF this dr] have b: "0 \<le> c" "length r \<le> length (hf_remain f) + length d"
    by auto
  have "zms_rtsp_splitter_input f d = zms_http_message_framer_input rtsp_core_opts f d"
    using assms i framer_input_core[of f d] by (simp add: zms_rtsp_splitter_input_def rtsp_ready_def)
  with i dr b show ?thesis by blast
qed

lemma rtsp_inputs_core:
  assumes "rtsp_ready f (length (concat ds))" "[] \<notin> set ds"
  shows "rtsp_inputs f ds = framer_inputs rtsp_core_opts f ds"
  using assms
proof (induction ds arbitrary: f)
  case (Cons d ds)
  have "rtsp_ready f (length d)" "d \<noteq> []" using Cons.prems by (auto simp: rtsp_ready_def)
  from splitter_input_core[OF this] obtain s c r es where
    i: "zms_rtsp_splitter_input f d = (ZTK_OK, framer_of f (s, c) r, es)"
      "zms_http_message_framer_input rtsp_core_opts f d = (ZTK_OK, framer_of f (s, c) r, es)"
    and b: "0 \<le> c" "length r \<le> length (hf_remain f) + length d" by auto
  have "rtsp_ready (framer_of f (s, c) r) (length (concat ds))"
    using b Cons.prems by (auto simp: rtsp_ready_def framer_of_def)
  with Cons i show ?case by simp
qed simp

text \<open>
  It does not matter how the network cuts messages and interleaved frames: any pieces give the
  same events in the same order, and leave the same splitter, as one read of all of them, as
  long as what is buffered fits the cache.
\<close>

theorem rtsp_any_cut:
  assumes "rtsp_ready f (length (concat ds))" "[] \<notin> set ds" "ds \<noteq> []"
  shows "rtsp_inputs f ds = zms_rtsp_splitter_input f (concat ds) \<and> fst (rtsp_inputs f ds) = ZTK_OK"
proof -
  have ne: "concat ds \<noteq> []" using assms(2,3) by (cases ds) auto
  have "0 \<le> hf_content_len f" "length (hf_remain f) + length (concat ds) \<le> hf_max_cache_size f"
    using assms(1) by (simp_all add: rtsp_ready_def)
  from rtsp_core.inputs_concat[OF this(1) assms(2,3) this(2)] rtsp_inputs_core[OF assms(1,2)]
    splitter_input_core[OF assms(1) ne] show ?thesis by auto
qed

lemma rtsp_any_cut_witness:
  "rtsp_inputs (zms_rtsp_splitter_enable_rtp zms_rtsp_splitter_create True) [[0x24], [0], [0, 1, 7]]
   = zms_rtsp_splitter_input (zms_rtsp_splitter_enable_rtp zms_rtsp_splitter_create True) [0x24, 0, 0, 1, 7]"
  using rtsp_any_cut[of "zms_rtsp_splitter_enable_rtp zms_rtsp_splitter_create True" "[[0x24], [0], [0, 1, 7]]"]
  by (simp add: rtsp_ready_def zms_rtsp_splitter_enable_rtp_def zms_rtsp_splitter_create_def
      zms_http_message_framer_create_def rtsp_splitter_opts_def ZMS_RTSP_SPLITTER_MAX_CACHE_def)

section \<open>Reading a stream\<close>

text \<open>What a peer may send: a message, an interleaved frame, or an empty line pair.\<close>

datatype rtsp_unit =
    Msg_Unit bytes "(bytes \<times> bytes) list" bytes
  | Rtp_Unit u8 bytes
  | Blank_Unit

fun unit_bytes :: "rtsp_unit \<Rightarrow> bytes" where
  "unit_bytes (Msg_Unit l hs b) = rtsp_text l hs @ b"
| "unit_bytes (Rtp_Unit ch p) = ilv_put (ch, p)"
| "unit_bytes Blank_Unit = [13, 10, 13, 10]"

fun unit_events :: "rtsp_unit \<Rightarrow> rtsp_event list" where
  "unit_events (Msg_Unit l hs b) =
     [Rtsp_Message ((snd (parse_first_line rtsp_message_zero l))\<lparr>rm_headers := hs, rm_body := b\<rparr>)]"
| "unit_events (Rtp_Unit ch p) = [Rtsp_Rtp ch p]"
| "unit_events Blank_Unit = []"

fun unit_wf :: "bool \<Rightarrow> rtsp_unit \<Rightarrow> bool" where
  "unit_wf e (Msg_Unit l hs b) =
     (rtsp_line_wf l \<and> (e \<longrightarrow> hd l \<noteq> 0x24) \<and> (\<forall>h \<in> set hs. rtsp_header_wf h) \<and> length hs \<le> ZMS_RTSP_HDR_MAX
      \<and> length (rtsp_text l hs) < ZMS_RTSP_LINE_MAX \<and> fst (parse_first_line rtsp_message_zero l)
      \<and> rtsp_body_announced hs b)"
| "unit_wf e (Rtp_Unit ch p) = (e \<and> length p < 65536)"
| "unit_wf e Blank_Unit = True"

lemma interleaved_read_put: "length p < 65536 \<Longrightarrow> zms_rtsp_interleaved_read (ilv_put (ch, p)) = Inr (ch, p)"
  using interleaved.get_put[of "(ch, p)" "[]"] by (auto simp: ilv_get_def split: sum.splits)

lemma drive_frame:
  assumes "rs_enable_rtp s" "length p < 65536"
  shows "drive (framer_step rtsp_core_opts) (s, 0) (ilv_put (ch, p) @ rest) =
    (Rtsp_Rtp ch p # fst (drive (framer_step rtsp_core_opts) (s\<lparr>rs_is_rtp_packet := True\<rparr>, 0) rest),
     snd (drive (framer_step rtsp_core_opts) (s\<lparr>rs_is_rtp_packet := True\<rparr>, 0) rest))"
proof -
  let ?d = "ilv_put (ch, p) @ rest" and ?s = "s\<lparr>rs_is_rtp_packet := True\<rparr>"
  have d: "?d = 0x24 # ch # be_bytes 2 (length p) @ p @ rest" by (simp add: ilv_put_eq)
  have l: "length (ilv_put (ch, p)) = 4 + length p" by (simp add: ilv_put_eq)
  have n: "unat (be16 ?d 2) = length p"
    using be16_at[of "[0x24, ch]" 2 "of_nat (length p)" "p @ rest"] assms(2)
    by (simp add: d put_be16_nat unat_of_nat take_bit_nat_eq_self)
  have "search_rtsp_tail_l s ?d = (Some (4 + length p), ?s)"
    using assms n l by (simp add: search_rtsp_tail_l_def ZMS_RTSP_INTERLEAVED_HDR_def Let_def ilv_put_eq)
  moreover have "on_rtsp_header ?s (ilv_put (ch, p)) = (0, ?s, [Rtsp_Rtp ch p])"
    using interleaved_read_put[OF assms(2)] by (simp add: on_rtsp_header_def dispatch_interleaved_def)
  moreover have "?d \<noteq> []" by (simp add: ilv_put_eq)
  ultimately have "framer_step rtsp_core_opts (s, 0) ?d = Took (?s, 0) (4 + length p) [Rtsp_Rtp ch p]"
    using l by (simp add: framer_step_def)
  from rtsp_core.steps.drive_took[OF _ this] l show ?thesis by simp
qed

lemma drive_header:
  assumes "zms_http_message_search_tail d = Some k" "d \<noteq> []" "rs_enable_rtp s \<longrightarrow> d ! 0 \<noteq> 0x24"
    and "on_rtsp_header (s\<lparr>rs_is_rtp_packet := False\<rparr>) (take k d) = (c, s2, es)"
  shows "drive (framer_step rtsp_core_opts) (s, 0) d = (es @ fst (drive (framer_step rtsp_core_opts) (s2, c) (drop k d)),
     snd (drive (framer_step rtsp_core_opts) (s2, c) (drop k d)))"
proof -
  have "search_rtsp_tail_l s d = (Some k, s\<lparr>rs_is_rtp_packet := False\<rparr>)"
    using assms(1,3) by (auto simp: search_rtsp_tail_l_def)
  then have "framer_step rtsp_core_opts (s, 0) d = Took (s2, c) k es"
    using assms by (simp add: framer_step_def)
  from rtsp_core.steps.drive_took[OF _ this] show ?thesis by simp
qed

lemma drive_message:
  assumes "unit_wf (rs_enable_rtp s) (Msg_Unit l hs b)"
  shows "\<exists>s2. rs_enable_rtp s2 = rs_enable_rtp s \<and>
    drive (framer_step rtsp_core_opts) (s, 0) (unit_bytes (Msg_Unit l hs b) @ rest) =
    (unit_events (Msg_Unit l hs b) @ fst (drive (framer_step rtsp_core_opts) (s2, 0) rest),
     snd (drive (framer_step rtsp_core_opts) (s2, 0) rest))"
proof -
  let ?D = "drive (framer_step rtsp_core_opts)" and ?s = "s\<lparr>rs_is_rtp_packet := False\<rparr>"
  let ?t = "rtsp_text l hs" and ?m = "(snd (parse_first_line rtsp_message_zero l))\<lparr>rm_headers := hs\<rparr>"
  note wf = assms[unfolded unit_wf.simps]
  have f: "parse_first_line rtsp_message_zero l = (True, snd (parse_first_line rtsp_message_zero l))"
    using wf by (cases "parse_first_line rtsp_message_zero l") auto
  have p: "zms_rtsp_message_parse_header ?t rtsp_message_zero = (ZTK_OK, ?m)"
    using parse_rtsp_text[OF _ _ _ _ f, of hs "[]" rtsp_message_zero] wf by simp
  have c: "zms_rtsp_message_content_length ?m = int (length b)"
    using content_length_headers[of ?m hs] wf by (simp add: rtsp_body_announced_def)
  have ne: "?t \<noteq> []" "?t ! 0 = hd l" "?t \<noteq> [13, 10, 13, 10]"
    using wf by (cases l; auto simp: rtsp_text_def rtsp_line_wf_def)+
  have s: "zms_http_message_search_tail (?t @ b @ rest) = Some (length ?t)"
    using search_rtsp_text wf by blast
  have 0: "(?t @ b @ rest) ! 0 = hd l" using ne by (simp add: nth_append)
  have b0: "rm_body ?m = []"
    using first_line_keeps[of rtsp_message_zero l] by (simp add: rtsp_message_zero_def)
  then have mb: "?m\<lparr>rm_body := []\<rparr> = ?m" by (cases "snd (parse_first_line rtsp_message_zero l)") simp
  show ?thesis
  proof (cases "b = []")
    case True
    have "on_rtsp_header ?s (take (length ?t) (?t @ b @ rest)) = (0, ?s\<lparr>rs_msg := rtsp_message_zero\<rparr>, [Rtsp_Message ?m])"
      using p c ne True by (simp add: on_rtsp_header_def Let_def dispatch_rtsp_message_def)
    from drive_header[OF s _ _ this] 0 wf ne True mb show ?thesis
      by (intro exI[of _ "?s\<lparr>rs_msg := rtsp_message_zero\<rparr>"]) simp
  next
    case False
    let ?s1 = "?s\<lparr>rs_msg := ?m\<rparr>" and ?s2 = "?s\<lparr>rs_msg := rtsp_message_zero\<rparr>"
    have "on_rtsp_header ?s (take (length ?t) (?t @ b @ rest)) = (int (length b), ?s1, [])"
      using p c ne False by (simp add: on_rtsp_header_def Let_def)
    from drive_header[OF s _ _ this] 0 wf ne
    have 1: "?D (s, 0) (?t @ b @ rest) = ?D (?s1, int (length b)) (b @ rest)" by simp
    have "framer_step rtsp_core_opts (?s1, int (length b)) (b @ rest) =
        Took (?s2, 0) (length b) [Rtsp_Message (?m\<lparr>rm_body := b\<rparr>)]"
      using False by (simp add: framer_step_def on_rtsp_content_def dispatch_rtsp_message_def)
    from rtsp_core.steps.drive_took[OF _ this] 1 show ?thesis
      by (intro exI[of _ ?s2]) simp
  qed
qed

lemma drive_blank:
  "drive (framer_step rtsp_core_opts) (s, 0) ([13, 10, 13, 10] @ rest) =
     drive (framer_step rtsp_core_opts) (s\<lparr>rs_is_rtp_packet := False\<rparr>, 0) rest"
proof -
  let ?d = "[13, 10, 13, 10] @ rest"
  have "on_rtsp_header (s\<lparr>rs_is_rtp_packet := False\<rparr>) (take 4 ?d) = (0, s\<lparr>rs_is_rtp_packet := False\<rparr>, [])"
    by (simp add: on_rtsp_header_def)
  from drive_header[OF _ _ _ this] show ?thesis by simp
qed

lemma drive_units:
  assumes "\<forall>u \<in> set us. unit_wf (rs_enable_rtp s) u"
  shows "\<exists>s2. drive (framer_step rtsp_core_opts) (s, 0) (concat (map unit_bytes us)) =
    (concat (map unit_events us), Inr ((s2, 0), []))"
  using assms
proof (induction us arbitrary: s)
  case Nil
  show ?case by (simp add: rtsp_core.steps.drive_need framer_step_nil)
next
  case (Cons u us)
  let ?D = "drive (framer_step rtsp_core_opts)"
  have "\<exists>s2. rs_enable_rtp s2 = rs_enable_rtp s \<and> ?D (s, 0) (unit_bytes u @ concat (map unit_bytes us)) =
    (unit_events u @ fst (?D (s2, 0) (concat (map unit_bytes us))), snd (?D (s2, 0) (concat (map unit_bytes us))))"
  proof (cases u)
    case (Msg_Unit l hs b)
    then show ?thesis using drive_message[of s l hs b] Cons.prems by simp
  next
    case (Rtp_Unit ch p)
    then show ?thesis using drive_frame[of s p ch "concat (map unit_bytes us)"] Cons.prems
      by (intro exI[of _ "s\<lparr>rs_is_rtp_packet := True\<rparr>"]) simp
  next
    case Blank_Unit
    then show ?thesis using drive_blank[of s "concat (map unit_bytes us)"]
      by (intro exI[of _ "s\<lparr>rs_is_rtp_packet := False\<rparr>"]) simp
  qed
  then obtain s2 where s2: "rs_enable_rtp s2 = rs_enable_rtp s"
    "?D (s, 0) (concat (map unit_bytes (u # us))) =
      (unit_events u @ fst (?D (s2, 0) (concat (map unit_bytes us))), snd (?D (s2, 0) (concat (map unit_bytes us))))"
    by auto
  from Cons.IH[of s2] Cons.prems s2 show ?case by auto
qed

definition rtsp_fresh :: "bool \<Rightarrow> zms_rtsp_splitter zms_http_message_framer" where
  "rtsp_fresh e = zms_rtsp_splitter_enable_rtp zms_rtsp_splitter_create e"

lemma rtsp_fresh_ready: "n \<le> ZMS_RTSP_SPLITTER_MAX_CACHE \<Longrightarrow> rtsp_ready (rtsp_fresh e) n"
  by (simp add: rtsp_ready_def rtsp_fresh_def zms_rtsp_splitter_enable_rtp_def zms_rtsp_splitter_create_def
      zms_http_message_framer_create_def rtsp_splitter_opts_def ZMS_RTSP_SPLITTER_MAX_CACHE_def)

text \<open>
  C29: Messages, interleaved frames and empty lines in any mixture and any cut come out of a new
  splitter as the messages and frames that were sent, in order, and nothing is left over.
\<close>

theorem rtsp_stream_read:
  assumes "\<forall>u \<in> set us. unit_wf e u" "concat ds = concat (map unit_bytes us)" "[] \<notin> set ds"
    and "length (concat ds) \<le> ZMS_RTSP_SPLITTER_MAX_CACHE"
  shows "\<exists>f. rtsp_inputs (rtsp_fresh e) ds = (ZTK_OK, f, concat (map unit_events us)) \<and> hf_remain f = []"
proof (cases "ds = []")
  case True
  have "unit_bytes u \<noteq> []" for u by (cases u) (simp_all add: rtsp_text_def ilv_put_eq)
  with True assms(2) have "us = []" by (cases us) auto
  with True show ?thesis
    by (simp add: rtsp_fresh_def zms_rtsp_splitter_enable_rtp_def zms_rtsp_splitter_create_def zms_http_message_framer_create_def)
next
  case False
  let ?f = "rtsp_fresh e"
  note ready = rtsp_fresh_ready[OF assms(4), of e]
  have f: "hf_content_len ?f = 0" "hf_remain ?f = []" "rs_enable_rtp (hf_user ?f) = e"
    by (simp_all add: rtsp_fresh_def zms_rtsp_splitter_enable_rtp_def zms_rtsp_splitter_create_def zms_http_message_framer_create_def)
  have "0 \<le> hf_content_len ?f" "length (hf_remain ?f) + length (concat ds) \<le> hf_max_cache_size ?f"
    using ready by (auto simp: rtsp_ready_def)
  from rtsp_core.inputs_feed[OF this(1) assms(3) this(2) False] obtain sc r es where
    fe: "feed (framer_step rtsp_core_opts) (hf_user ?f, hf_content_len ?f) (hf_remain ?f) ds = (es, Inr (sc, r))"
    and i: "framer_inputs rtsp_core_opts ?f ds = (ZTK_OK, framer_of ?f sc r, es)" by blast
  have "feed (framer_step rtsp_core_opts) (hf_user ?f, 0) [] ds = drive (framer_step rtsp_core_opts) (hf_user ?f, 0) (concat ds)"
    using rtsp_core.steps.feed_concat[of "(hf_user ?f, 0)" ds "[]"] False by simp
  moreover obtain s2 where "drive (framer_step rtsp_core_opts) (hf_user ?f, 0) (concat ds)
      = (concat (map unit_events us), Inr ((s2, 0), []))"
    using drive_units[of us "hf_user ?f"] assms(1,2) f(3) by auto
  ultimately have "es = concat (map unit_events us)" "r = []" using fe f by auto
  with i rtsp_inputs_core[OF ready assms(3)] show ?thesis by (simp add: framer_of_def)
qed

lemma rtsp_stream_read_witness:
  "\<exists>f. rtsp_inputs (rtsp_fresh True) [ilv_put (0, [7]) @ rtsp_text (rtsp_request_line (asc ''PLAY'') (asc ''*'')) [],
       [13, 10, 13, 10] @ ilv_put (1, [])] =
     (ZTK_OK, f, [Rtsp_Rtp 0 [7], Rtsp_Message (rtsp_request ZMS_RTSP_PLAY (asc ''*'') [] []), Rtsp_Rtp 1 []])"
proof -
  let ?l = "rtsp_request_line (asc ''PLAY'') (asc ''*'')"
  let ?us = "[Rtp_Unit 0 [7], Msg_Unit ?l [] [], Blank_Unit, Rtp_Unit 1 []]"
  have "map_of method_names ZMS_RTSP_PLAY = Some (asc ''PLAY'')" "rtsp_url_wf (asc ''*'')"
    by (simp_all add: method_names_def rtsp_url_wf_def isspace_def)
  note l = parse_request_first_line[OF this]
  have b: "rtsp_body_announced [] []"
    by (simp add: rtsp_body_announced_def zms_rtsp_message_content_length_def zms_rtsp_message_get_def)
  have n: "length (rtsp_text ?l []) < 100" "hd ?l \<noteq> 0x24"
    by (simp_all add: rtsp_text_def rtsp_request_line_def)
  have "\<forall>u \<in> set ?us. unit_wf True u" using l b n by (simp add: rtsp_consts)
  from rtsp_stream_read[OF this, of "[ilv_put (0, [7]) @ rtsp_text ?l [], [13, 10, 13, 10] @ ilv_put (1, [])]"] l n
  have "\<exists>f. rtsp_inputs (rtsp_fresh True) [ilv_put (0, [7]) @ rtsp_text ?l [], [13, 10, 13, 10] @ ilv_put (1, [])] =
      (ZTK_OK, f, concat (map unit_events ?us))"
    by (auto simp: ilv_put_eq ZMS_RTSP_SPLITTER_MAX_CACHE_def)
  moreover have "concat (map unit_events ?us) =
      [Rtsp_Rtp 0 [7], Rtsp_Message (rtsp_request ZMS_RTSP_PLAY (asc ''*'') [] []), Rtsp_Rtp 1 []]"
    using l by (simp add: rtsp_request_def rtsp_message_zero_def)
  ultimately show ?thesis by simp
qed

section \<open>Errors\<close>

text \<open>
  A message whose header block does not fit the line buffer of 2048 bytes is dropped without a
  word: no event, no error, and what follows, its body included, is read as if the message
  had not been sent.
\<close>

theorem rtsp_long_header_dropped:
  assumes "rtsp_line_wf l" "\<forall>h \<in> set hs. rtsp_header_wf h" "ZMS_RTSP_LINE_MAX \<le> length (rtsp_text l hs)"
    and "hd l \<noteq> 0x24" "b \<noteq> []" "length (rtsp_text l hs @ b) \<le> ZMS_RTSP_SPLITTER_MAX_CACHE"
  shows "zms_rtsp_splitter_input (rtsp_fresh e) (rtsp_text l hs @ b) = zms_rtsp_splitter_input (rtsp_fresh e) b"
proof -
  let ?f = "rtsp_fresh e" and ?t = "rtsp_text l hs" and ?D = "drive (framer_step rtsp_core_opts)"
  have f: "hf_content_len ?f = 0" "hf_remain ?f = []" "(hf_user ?f)\<lparr>rs_is_rtp_packet := False\<rparr> = hf_user ?f"
    "rs_msg (hf_user ?f) = rtsp_message_zero" "\<not> rs_is_rtp_packet (hf_user ?f)"
    by (simp_all add: rtsp_fresh_def zms_rtsp_splitter_enable_rtp_def zms_rtsp_splitter_create_def zms_http_message_framer_create_def)
  have ne: "?t \<noteq> []" "(?t @ b) ! 0 = hd l" "?t \<noteq> [13, 10, 13, 10]"
    using assms(1) by (cases l; auto simp: rtsp_text_def rtsp_line_wf_def)+
  have s: "zms_http_message_search_tail (?t @ b) = Some (length ?t)"
    "zms_http_message_search_tail ?t = Some (length ?t)"
    using search_rtsp_text[OF assms(1,2), of b] search_rtsp_text[OF assms(1,2), of "[]"] by simp_all
  have "zms_rtsp_message_parse_header ?t rtsp_message_zero = (ZTK_ERR_BUFFER_TOO_SMALL, rtsp_message_zero)"
    using s(2) ne assms(3) by (simp add: zms_rtsp_message_parse_header_def find_header_end_def)
  moreover have "(hf_user ?f)\<lparr>rs_msg := rtsp_message_zero\<rparr> = hf_user ?f" using f(4) by (cases "hf_user ?f") simp
  ultimately have "on_rtsp_header ((hf_user ?f)\<lparr>rs_is_rtp_packet := False\<rparr>) (take (length ?t) (?t @ b)) = (0, hf_user ?f, [])"
    unfolding f(3) using ne f(5) by (simp add: on_rtsp_header_def Let_def)
  from drive_header[OF s(1) _ _ this] ne assms(4) have d: "?D (hf_user ?f, 0) (?t @ b) = ?D (hf_user ?f, 0) b" by simp
  have r: "rtsp_ready ?f (length (?t @ b))" "rtsp_ready ?f (length b)"
    using rtsp_fresh_ready assms(6) by simp_all
  have "?t @ b \<noteq> []" using ne by simp
  from splitter_input_core[OF r(1) this] splitter_input_core[OF r(2) assms(5)] d show ?thesis
    by (auto simp: f)
qed

text \<open>
  A read that overfills the cache empties it. With RTP enabled the splitter looks for the next
  frame mark in the data; when the data begins with the mark it gives up all the same, and
  only a mark behind other bytes lets it go on.
\<close>

theorem rtsp_overflow:
  assumes "length (hf_remain f) + length d > hf_max_cache_size f" "d \<noteq> []" "rs_enable_rtp (hf_user f)"
  shows "zms_rtsp_splitter_input f d =
    (case find_char d 0x24 of
       Some (Suc n) \<Rightarrow> zms_http_message_framer_input rtsp_splitter_opts (zms_rtsp_splitter_reset f) (drop (Suc n) d)
     | _ \<Rightarrow> (ZTK_ERR_IO, zms_rtsp_splitter_reset f, []))"
proof -
  have "zms_rtsp_splitter_reset (zms_http_message_framer_reset f) = zms_rtsp_splitter_reset f"
    by (simp add: zms_rtsp_splitter_reset_def zms_http_message_framer_reset_def)
  with assms show ?thesis
    by (simp add: zms_rtsp_splitter_input_def zms_http_message_framer_input_def zms_http_message_framer_reset_def
        Let_def split: option.splits nat.splits)
qed

end
