(* ===== verification/Stream_Stats.thy ===== *)
theory Stream_Stats
  imports Gop_Read
begin

text \<open>
  Counters of a stream, \<open>engine/stream/stream_stats.c\<close>: bytes in and out with their rates over
  windows of at least a second, frames with their rates, and dropped frames. Counters and the
  monotonic clock are 64 bits wide in the code and numbers here; the clock is an argument.
\<close>

definition ZMS_STATS_SPEED_INTERVAL_MS :: nat where "ZMS_STATS_SPEED_INTERVAL_MS = 1000"

record zms_media_stream_stats =
  st_ingress_bytes :: nat
  st_egress_bytes :: nat
  st_ingress_speed_bps :: nat
  st_egress_speed_bps :: nat
  st_speed_tick_ms :: nat
  st_ingress_at_tick :: nat
  st_egress_at_tick :: nat
  st_frame_count_v :: nat
  st_frame_count_a :: nat
  st_fps_tick_ms :: nat
  st_fps_v_at_tick :: nat
  st_fps_a_at_tick :: nat
  st_video_fps :: nat
  st_audio_fps :: nat
  st_dropped_frames :: nat

definition zms_media_stats_reset :: zms_media_stream_stats where
  "zms_media_stats_reset = \<lparr>st_ingress_bytes = 0, st_egress_bytes = 0, st_ingress_speed_bps = 0,
     st_egress_speed_bps = 0, st_speed_tick_ms = 0, st_ingress_at_tick = 0, st_egress_at_tick = 0,
     st_frame_count_v = 0, st_frame_count_a = 0, st_fps_tick_ms = 0, st_fps_v_at_tick = 0,
     st_fps_a_at_tick = 0, st_video_fps = 0, st_audio_fps = 0, st_dropped_frames = 0\<rparr>"

definition stats_tick_speed :: "zms_media_stream_stats \<Rightarrow> nat \<Rightarrow> zms_media_stream_stats" where
  "stats_tick_speed st now = st\<lparr>st_speed_tick_ms := now, st_ingress_at_tick := st_ingress_bytes st,
     st_egress_at_tick := st_egress_bytes st\<rparr>"

definition stats_refresh_speed :: "zms_media_stream_stats \<Rightarrow> nat \<Rightarrow> zms_media_stream_stats" where
  "stats_refresh_speed st now =
     (if st_speed_tick_ms st = 0 then stats_tick_speed st now
      else if now \<le> st_speed_tick_ms st then st
      else let dt = now - st_speed_tick_ms st in
        if dt < ZMS_STATS_SPEED_INTERVAL_MS then st
        else stats_tick_speed
          (st\<lparr>st_ingress_speed_bps := (st_ingress_bytes st - st_ingress_at_tick st) * 1000 div dt,
              st_egress_speed_bps := (st_egress_bytes st - st_egress_at_tick st) * 1000 div dt\<rparr>) now)"

definition stats_tick_fps :: "zms_media_stream_stats \<Rightarrow> nat \<Rightarrow> zms_media_stream_stats" where
  "stats_tick_fps st now = st\<lparr>st_fps_tick_ms := now, st_fps_v_at_tick := st_frame_count_v st,
     st_fps_a_at_tick := st_frame_count_a st\<rparr>"

definition stats_refresh_fps :: "zms_media_stream_stats \<Rightarrow> nat \<Rightarrow> zms_media_stream_stats" where
  "stats_refresh_fps st now =
     (if st_fps_tick_ms st = 0 then stats_tick_fps st now
      else if now \<le> st_fps_tick_ms st then st
      else let dt = now - st_fps_tick_ms st in
        if dt < ZMS_STATS_SPEED_INTERVAL_MS then st
        else stats_tick_fps
          (st\<lparr>st_video_fps := (st_frame_count_v st - st_fps_v_at_tick st) * 1000 div dt mod 2 ^ 32,
              st_audio_fps := (st_frame_count_a st - st_fps_a_at_tick st) * 1000 div dt mod 2 ^ 32\<rparr>) now)"

definition stats_add_bytes :: "bool \<Rightarrow> zms_media_stream_stats \<Rightarrow> nat \<Rightarrow> nat \<Rightarrow> zms_media_stream_stats" where
  "stats_add_bytes ingress st nbytes now =
     (if nbytes = 0 then st
      else let st1 = (if ingress then st\<lparr>st_ingress_bytes := st_ingress_bytes st + nbytes\<rparr>
                      else st\<lparr>st_egress_bytes := st_egress_bytes st + nbytes\<rparr>)
           in if st_speed_tick_ms st1 = 0 then stats_tick_speed st1 now
              else stats_refresh_speed st1 now)"

definition zms_media_stats_on_ingress :: "zms_media_stream_stats \<Rightarrow> nat \<Rightarrow> nat \<Rightarrow> zms_media_stream_stats" where
  "zms_media_stats_on_ingress st nbytes now = (if nbytes = 0 then st else stats_add_bytes True st nbytes now)"

definition zms_media_stats_on_egress :: "zms_media_stream_stats \<Rightarrow> nat \<Rightarrow> nat \<Rightarrow> zms_media_stream_stats" where
  "zms_media_stats_on_egress st nbytes now = (if nbytes = 0 then st else stats_add_bytes False st nbytes now)"

definition zms_media_stats_on_frame :: "zms_media_stream_stats \<Rightarrow> bool \<Rightarrow> nat \<Rightarrow> zms_media_stream_stats" where
  "zms_media_stats_on_frame st is_video now =
     stats_refresh_fps (if is_video then st\<lparr>st_frame_count_v := st_frame_count_v st + 1\<rparr>
                        else st\<lparr>st_frame_count_a := st_frame_count_a st + 1\<rparr>) now"

definition zms_media_stats_on_drop :: "zms_media_stream_stats \<Rightarrow> zms_media_stream_stats" where
  "zms_media_stats_on_drop st = st\<lparr>st_dropped_frames := st_dropped_frames st + 1\<rparr>"

record zms_media_stats_view =
  vw_ingress_bytes :: nat
  vw_egress_bytes :: nat
  vw_bytes_speed :: nat
  vw_egress_speed :: nat
  vw_gop_queue_pending :: nat
  vw_gop_queue_max_lag :: nat
  vw_gop_queue_gop_count :: nat
  vw_gop_queue_readers :: nat
  vw_video_fps :: nat
  vw_audio_fps :: nat
  vw_dropped_frames :: nat

definition zms_media_stats_fill :: "zms_media_stream_stats \<Rightarrow> 'b zms_gop_queue option \<Rightarrow> nat \<Rightarrow> zms_media_stats_view" where
  "zms_media_stats_fill st ring now =
     (let snap = stats_refresh_fps (stats_refresh_speed st now) now in
      \<lparr>vw_ingress_bytes = st_ingress_bytes snap, vw_egress_bytes = st_egress_bytes snap,
       vw_bytes_speed = st_ingress_speed_bps snap, vw_egress_speed = st_egress_speed_bps snap,
       vw_gop_queue_pending = (case ring of Some r \<Rightarrow> zms_gop_queue_pending_count r | None \<Rightarrow> 0),
       vw_gop_queue_max_lag = (case ring of Some r \<Rightarrow> zms_gop_queue_max_reader_lag r | None \<Rightarrow> 0),
       vw_gop_queue_gop_count = (case ring of Some r \<Rightarrow> zms_gop_queue_gop_count r | None \<Rightarrow> 0),
       vw_gop_queue_readers = (case ring of Some r \<Rightarrow> zms_gop_reader_count r | None \<Rightarrow> 0),
       vw_video_fps = st_video_fps snap, vw_audio_fps = st_audio_fps snap,
       vw_dropped_frames = st_dropped_frames snap\<rparr>)"

section \<open>What the rates are\<close>

lemmas stats_defs = stats_refresh_speed_def stats_tick_speed_def stats_add_bytes_def
  zms_media_stats_on_ingress_def ZMS_STATS_SPEED_INTERVAL_MS_def

text \<open>Bytes that come while the window is open are only counted.\<close>

lemma ingress_in_window:
  assumes "0 < st_speed_tick_ms st" "\<forall>(n, t) \<in> set es. t < st_speed_tick_ms st + 1000"
  shows "foldl (\<lambda>s (n, t). zms_media_stats_on_ingress s n t) st es
    = st\<lparr>st_ingress_bytes := st_ingress_bytes st + sum_list (map fst es)\<rparr>"
  using assms
proof (induction es arbitrary: st)
  case (Cons e es)
  obtain n t where e: "e = (n, t)" by fastforce
  have "zms_media_stats_on_ingress st n t = st\<lparr>st_ingress_bytes := st_ingress_bytes st + n\<rparr>"
    using Cons.prems e by (auto simp: stats_defs Let_def)
  with Cons.IH[of "st\<lparr>st_ingress_bytes := st_ingress_bytes st + n\<rparr>"] Cons.prems e
  show ?case by (simp add: add.assoc)
qed simp

text \<open>
  The rate that a window of \<open>d \<ge> 1000\<close> ms publishes is that of all bytes that came in it, its
  last ones included, and the next window starts where this one ends.
\<close>

theorem ingress_rate_of_window:
  assumes "0 < t0" "1000 \<le> d" "0 < n" "\<forall>(m, t) \<in> set es. t < t0 + 1000"
    and "st_speed_tick_ms st = t0" "st_ingress_at_tick st = st_ingress_bytes st"
  shows "let s = zms_media_stats_on_ingress (foldl (\<lambda>s (m, t). zms_media_stats_on_ingress s m t) st es) n (t0 + d)
    in st_ingress_speed_bps s = (sum_list (map fst es) + n) * 1000 div d
     \<and> st_speed_tick_ms s = t0 + d \<and> st_ingress_at_tick s = st_ingress_bytes s
     \<and> st_ingress_bytes s = st_ingress_bytes st + sum_list (map fst es) + n"
  using assms ingress_in_window[of st es] by (simp add: stats_defs Let_def add.assoc)

lemma ingress_rate_of_window_witness:
  "st_ingress_speed_bps (zms_media_stats_on_ingress (foldl (\<lambda>s (m, t). zms_media_stats_on_ingress s m t)
     (zms_media_stats_reset\<lparr>st_speed_tick_ms := 5\<rparr>) [(300, 10), (200, 900)]) 500 2005) = 500"
  using ingress_rate_of_window[of 5 2000 500 "[(300, 10), (200, 900)]" "zms_media_stats_reset\<lparr>st_speed_tick_ms := 5\<rparr>"]
  by (simp add: zms_media_stats_reset_def Let_def)

text \<open>
  The bytes that open the first window are in no rate: a stream that sends all it has in one
  call shows no rate, however much it was.
\<close>

theorem first_bytes_in_no_rate:
  assumes "0 < now" "now < later"
  shows "let s = zms_media_stats_on_ingress zms_media_stats_reset n now in
    vw_ingress_bytes (zms_media_stats_fill s ring later) = n \<and> vw_bytes_speed (zms_media_stats_fill s ring later) = 0"
  using assms
  by (auto simp: zms_media_stats_fill_def stats_defs stats_refresh_fps_def stats_tick_fps_def
      zms_media_stats_reset_def Let_def)

text \<open>A view of a stream that has gone quiet shows no rate a second after its last window.\<close>

theorem quiet_stream_no_rate:
  assumes "0 < st_speed_tick_ms st" "st_ingress_at_tick st = st_ingress_bytes st"
    and "st_speed_tick_ms st + 1000 \<le> now"
  shows "vw_bytes_speed (zms_media_stats_fill st ring now) = 0"
  using assms
  by (auto simp: zms_media_stats_fill_def stats_defs stats_refresh_fps_def stats_tick_fps_def Let_def)

end
