(* ===== verification/Vod_Buffer.thy ===== *)
theory Vod_Buffer
  imports Frame Buf_Pool
begin

text \<open>
  The buffer between the reader of a file and its players, \<open>vod/io/vod_buffer.c\<close>: a ring of
  slots with a write sequence, a consumed sequence and one read sequence per player. The
  sequences are 64 bits wide in the code and numbers here. Against its contract: below its
  high-water mark it is a queue; filled to its capacity it loses the next frame.
\<close>

definition ZMS_VOD_BUFFER_DEFAULT_CAP :: nat where "ZMS_VOD_BUFFER_DEFAULT_CAP = 512"

record vod_slot =
  vs_data :: "bytes option"
  vs_len :: nat
  vs_codec :: zms_codec_id
  vs_track :: zms_track_type
  vs_dts_ms :: u32
  vs_pts_ms :: u32
  vs_keyframe :: bool
  vs_config_frame :: bool

record zms_vod_buffer =
  vb_slots :: "vod_slot list"
  vb_write_seq :: nat
  vb_consumed_seq :: nat
  vb_video_config :: bytes
  vb_audio_config :: bytes

record zms_vod_buffer_reader =
  vr_read_seq :: nat

definition vod_slot_clear :: vod_slot where
  "vod_slot_clear = \<lparr>vs_data = None, vs_len = 0, vs_codec = ZMS_CODEC_INVALID, vs_track = ZMS_TRACK_INVALID,
     vs_dts_ms = 0, vs_pts_ms = 0, vs_keyframe = False, vs_config_frame = False\<rparr>"

definition vb_cap :: "zms_vod_buffer \<Rightarrow> nat" where
  "vb_cap b = length (vb_slots b)"

definition vb_slot :: "zms_vod_buffer \<Rightarrow> nat \<Rightarrow> vod_slot" where
  "vb_slot b seq = vb_slots b ! (seq mod vb_cap b)"

text \<open>The oldest sequence the ring can hold.\<close>

definition vb_oldest :: "zms_vod_buffer \<Rightarrow> nat" where
  "vb_oldest b = (if vb_write_seq b > vb_cap b then vb_write_seq b - vb_cap b else 0)"

definition zms_vod_buffer_create :: "nat \<Rightarrow> zms_vod_buffer" where
  "zms_vod_buffer_create cap =
     \<lparr>vb_slots = replicate (if cap = 0 then ZMS_VOD_BUFFER_DEFAULT_CAP else cap) vod_slot_clear,
      vb_write_seq = 0, vb_consumed_seq = 0, vb_video_config = [], vb_audio_config = []\<rparr>"

definition vod_slot_of :: "zms_frame \<Rightarrow> vod_slot" where
  "vod_slot_of f =
     (case zms_gop_queue_timeline_from_frame f of (dts, pts) \<Rightarrow>
        \<lparr>vs_data = (if f_owned f \<and> f_capacity f \<ge> f_size f then f_data f else Some (f_bytes f)),
         vs_len = f_size f, vs_codec = f_codec f, vs_track = f_track f, vs_dts_ms = dts, vs_pts_ms = pts,
         vs_keyframe = f_keyframe f, vs_config_frame = f_config_frame f\<rparr>)"

text \<open>The end of a write: the slot of the oldest sequence is cleared.\<close>

definition vod_drop_oldest :: "zms_vod_buffer \<Rightarrow> zms_vod_buffer" where
  "vod_drop_oldest b =
     (let oldest = vb_oldest b in
      if oldest > 0 \<and> vs_data (vb_slot b oldest) \<noteq> None \<and> oldest + vb_cap b \<le> vb_write_seq b
      then b\<lparr>vb_slots := (vb_slots b)[oldest mod vb_cap b := vod_slot_clear]\<rparr>
      else b)"

definition zms_vod_buffer_write :: "bool \<Rightarrow> zms_vod_buffer \<Rightarrow> zms_frame \<Rightarrow> ztk_err \<times> zms_vod_buffer" where
  "zms_vod_buffer_write mem_ok b f =
     (if f_data f = None \<or> f_size f = 0 then (ZTK_ERR_INVALID, b)
      else if vb_write_seq b > vb_consumed_seq b \<and> vb_write_seq b - vb_consumed_seq b \<ge> vb_cap b
      then (ZTK_ERR_BUFFER_TOO_SMALL, b)
      else let i = vb_write_seq b mod vb_cap b in
        if \<not> (f_owned f \<and> f_capacity f \<ge> f_size f) \<and> \<not> mem_ok
        then (ZTK_ERR_NOMEM, b\<lparr>vb_slots := (vb_slots b)[i := vod_slot_clear]\<rparr>)
        else (ZTK_OK, vod_drop_oldest
               (b\<lparr>vb_slots := (vb_slots b)[i := vod_slot_of f], vb_write_seq := vb_write_seq b + 1\<rparr>)))"

definition zms_vod_buffer_set_video_config :: "bool \<Rightarrow> zms_vod_buffer \<Rightarrow> bytes \<Rightarrow> ztk_err \<times> zms_vod_buffer" where
  "zms_vod_buffer_set_video_config mem_ok b d =
     (if d \<noteq> [] \<and> \<not> mem_ok then (ZTK_ERR_NOMEM, b) else (ZTK_OK, b\<lparr>vb_video_config := d\<rparr>))"

definition zms_vod_buffer_set_audio_config :: "bool \<Rightarrow> zms_vod_buffer \<Rightarrow> bytes \<Rightarrow> ztk_err \<times> zms_vod_buffer" where
  "zms_vod_buffer_set_audio_config mem_ok b d =
     (if d \<noteq> [] \<and> \<not> mem_ok then (ZTK_ERR_NOMEM, b) else (ZTK_OK, b\<lparr>vb_audio_config := d\<rparr>))"

definition zms_vod_buffer_video_config :: "zms_vod_buffer \<Rightarrow> bytes" where
  "zms_vod_buffer_video_config b = vb_video_config b"

definition zms_vod_buffer_audio_config :: "zms_vod_buffer \<Rightarrow> bytes" where
  "zms_vod_buffer_audio_config b = vb_audio_config b"

definition zms_vod_buffer_reset :: "zms_vod_buffer \<Rightarrow> zms_vod_buffer" where
  "zms_vod_buffer_reset b = b\<lparr>vb_slots := replicate (vb_cap b) vod_slot_clear, vb_write_seq := 0, vb_consumed_seq := 0\<rparr>"

definition zms_vod_buffer_pending :: "zms_vod_buffer \<Rightarrow> nat" where
  "zms_vod_buffer_pending b = vb_write_seq b - vb_consumed_seq b"

definition vod_slot_idr :: "es_ext \<Rightarrow> vod_slot \<Rightarrow> bool" where
  "vod_slot_idr E s \<longleftrightarrow>
     (case vs_data s of None \<Rightarrow> False
      | Some d \<Rightarrow> vs_track s = ZMS_TRACK_VIDEO \<and> vs_len s \<noteq> 0 \<and>
          (let es = take (vs_len s) d; sp = annexb_split E in
           vs_codec s = ZMS_CODEC_H264 \<and> (zms_h264_annexb_is_idr sp es \<or> zms_h264_annexb_is_sync_key sp es)
           \<or> vs_codec s = ZMS_CODEC_H265 \<and> (zms_h265_annexb_is_idr sp es \<or> zms_h265_annexb_is_sync_key sp es)))"

definition zms_vod_buffer_has_video_sync_key :: "es_ext \<Rightarrow> zms_vod_buffer \<Rightarrow> bool" where
  "zms_vod_buffer_has_video_sync_key E b =
     (if vb_write_seq b = 0 then False
      else list_ex (\<lambda>seq. vod_slot_idr E (vb_slot b seq)) [vb_oldest b..<vb_write_seq b])"

section \<open>Readers\<close>

definition zms_vod_buffer_reader_attach :: "zms_vod_buffer \<Rightarrow> bool \<Rightarrow> zms_vod_buffer_reader" where
  "zms_vod_buffer_reader_attach b from_beginning =
     \<lparr>vr_read_seq = (if from_beginning then vb_oldest b else vb_write_seq b)\<rparr>"

definition zms_vod_buffer_reader_seek_beginning :: "zms_vod_buffer \<Rightarrow> zms_vod_buffer_reader \<Rightarrow> zms_vod_buffer_reader" where
  "zms_vod_buffer_reader_seek_beginning b rd = rd\<lparr>vr_read_seq := vb_oldest b\<rparr>"

definition vod_slot_to_ring_slot :: "vod_slot \<Rightarrow> zms_gop_slot" where
  "vod_slot_to_ring_slot s = zms_gop_slot_zero\<lparr>s_codec := vs_codec s, s_track := vs_track s,
     s_dts_ms := vs_dts_ms s, s_pts_ms := vs_pts_ms s, s_keyframe := vs_keyframe s,
     s_config_frame := vs_config_frame s, s_data := vs_data s, s_len := vs_len s\<rparr>"

definition vod_advance :: "zms_vod_buffer \<Rightarrow> zms_vod_buffer_reader \<Rightarrow> zms_vod_buffer_reader \<times> zms_vod_buffer" where
  "vod_advance b rd =
     (let r = vr_read_seq rd + 1 in
      (rd\<lparr>vr_read_seq := r\<rparr>, if r > vb_consumed_seq b then b\<lparr>vb_consumed_seq := r\<rparr> else b))"

definition vod_buffer_reader_slot_at :: "zms_vod_buffer \<Rightarrow> zms_vod_buffer_reader \<Rightarrow> bool
    \<Rightarrow> zms_gop_slot option \<times> zms_vod_buffer_reader \<times> zms_vod_buffer" where
  "vod_buffer_reader_slot_at b rd advance =
     (if vr_read_seq rd \<ge> vb_write_seq b then (None, rd, b)
      else case (if advance then vod_advance b rd else (rd, b)) of
        (rd1, b1) \<Rightarrow>
          let s = vb_slot b1 (vr_read_seq rd) in
          if vs_data s = None \<or> vs_len s = 0 then (None, rd1, b1)
          else (Some (vod_slot_to_ring_slot s), rd1, b1))"

definition zms_vod_buffer_reader_read_muxed :: "zms_vod_buffer \<Rightarrow> zms_vod_buffer_reader
    \<Rightarrow> zms_gop_slot option \<times> zms_vod_buffer_reader \<times> zms_vod_buffer" where
  "zms_vod_buffer_reader_read_muxed b rd = vod_buffer_reader_slot_at b rd True"

definition zms_vod_buffer_reader_peek_muxed :: "zms_vod_buffer \<Rightarrow> zms_vod_buffer_reader \<Rightarrow> zms_gop_slot option" where
  "zms_vod_buffer_reader_peek_muxed b rd = fst (vod_buffer_reader_slot_at b rd False)"

text \<open>The copy into the work memory of the session; \<open>pol\<close> says if a poller owns it.\<close>

definition zms_vod_buffer_reader_peek_muxed_es :: "buf_env \<Rightarrow> bool \<Rightarrow> zms_vod_buffer \<Rightarrow> zms_vod_buffer_reader
    \<Rightarrow> bytes option \<Rightarrow> zms_gop_slot option \<times> bytes option" where
  "zms_vod_buffer_reader_peek_muxed_es e pol b rd es =
     (if vr_read_seq rd \<ge> vb_write_seq b then (None, es)
      else let s = vb_slot b (vr_read_seq rd) in
        case vs_data s of
          None \<Rightarrow> (None, es)
        | Some d \<Rightarrow>
            if vs_len s = 0 then (None, es)
            else (case (if pol then zms_buf_pool_slot_resize_poller e es (vs_len s)
                        else zms_buf_pool_slot_resize e es (vs_len s)) of
                (ok, es1) \<Rightarrow>
                  if \<not> ok then (None, es1)
                  else let es2 = slot_write es1 0 (take (vs_len s) d) in
                    (Some ((vod_slot_to_ring_slot s)\<lparr>s_data := es2\<rparr>), es2)))"

definition zms_vod_buffer_reader_advance :: "zms_vod_buffer \<Rightarrow> zms_vod_buffer_reader
    \<Rightarrow> zms_vod_buffer_reader \<times> zms_vod_buffer" where
  "zms_vod_buffer_reader_advance b rd =
     (if vr_read_seq rd < vb_write_seq b then vod_advance b rd else (rd, b))"

definition vod_slot_sync :: "es_ext \<Rightarrow> vod_slot \<Rightarrow> bool" where
  "vod_slot_sync E s \<longleftrightarrow>
     (case vs_data s of None \<Rightarrow> False
      | Some d \<Rightarrow> vs_track s = ZMS_TRACK_VIDEO \<and> vs_len s \<noteq> 0 \<and>
          (vs_keyframe s
           \<or> vs_codec s = ZMS_CODEC_H264 \<and> zms_h264_annexb_is_sync_key (annexb_split E) (take (vs_len s) d)
           \<or> vs_codec s = ZMS_CODEC_H265 \<and> zms_h265_annexb_is_sync_key (annexb_split E) (take (vs_len s) d)))"

definition zms_vod_buffer_reader_seek_video_key :: "es_ext \<Rightarrow> zms_vod_buffer \<Rightarrow> zms_vod_buffer_reader
    \<Rightarrow> zms_vod_buffer_reader" where
  "zms_vod_buffer_reader_seek_video_key E b rd =
     (case find (\<lambda>seq. vod_slot_sync E (vb_slot b seq)) [vr_read_seq rd..<vb_write_seq b] of
        Some seq \<Rightarrow> rd\<lparr>vr_read_seq := seq\<rparr> | None \<Rightarrow> rd)"

text \<open>The third result is the time the seek reports.\<close>

definition zms_vod_buffer_reader_seek_ms :: "es_ext \<Rightarrow> zms_vod_buffer \<Rightarrow> zms_vod_buffer_reader \<Rightarrow> u64
    \<Rightarrow> bool \<times> zms_vod_buffer_reader \<times> u64" where
  "zms_vod_buffer_reader_seek_ms E b rd ms =
     (if vb_write_seq b = 0 then (False, rd, ms)
      else case find (\<lambda>seq. let s = vb_slot b seq in
                  vs_data s \<noteq> None \<and> vs_len s \<noteq> 0 \<and> ms \<le> ucast (vs_dts_ms s))
                [vb_oldest b..<vb_write_seq b] of
        None \<Rightarrow> (False, rd, ms)
      | Some seq \<Rightarrow>
          let rd1 = zms_vod_buffer_reader_seek_video_key E b (rd\<lparr>vr_read_seq := seq\<rparr>) in
          (True, rd1, case zms_vod_buffer_reader_peek_muxed b rd1 of
             Some slot \<Rightarrow> ucast (s_dts_ms slot) | None \<Rightarrow> ucast (vs_dts_ms (vb_slot b seq))))"

definition zms_vod_buffer_reader_lag :: "zms_vod_buffer \<Rightarrow> zms_vod_buffer_reader \<Rightarrow> nat" where
  "zms_vod_buffer_reader_lag b rd = vb_write_seq b - vr_read_seq rd"

section \<open>The buffer as a queue\<close>

text \<open>
  \<open>vod_log b L\<close>: the ring has taken the frames of \<open>L\<close>, in this order. It still holds the last
  ones, one less than its capacity once it has wrapped.
\<close>

definition vod_held :: "zms_vod_buffer \<Rightarrow> nat \<Rightarrow> bool" where
  "vod_held b q \<longleftrightarrow> q < vb_write_seq b \<and> (vb_write_seq b \<le> vb_cap b \<or> vb_write_seq b < q + vb_cap b)"

definition vod_log :: "zms_vod_buffer \<Rightarrow> vod_slot list \<Rightarrow> bool" where
  "vod_log b L \<longleftrightarrow> 0 < vb_cap b \<and> vb_write_seq b = length L
     \<and> (\<forall>q. vod_held b q \<longrightarrow> vb_slot b q = L ! q)
     \<and> (vb_cap b < vb_write_seq b \<longrightarrow> vs_data (vb_slot b (vb_oldest b)) = None)
     \<and> (\<forall>s \<in> set L. vs_data s \<noteq> None \<and> vs_len s \<noteq> 0)"

lemma vod_log_create: "vod_log (zms_vod_buffer_create cap) []"
  by (simp add: vod_log_def vod_held_def zms_vod_buffer_create_def vb_cap_def ZMS_VOD_BUFFER_DEFAULT_CAP_def)

lemma vb_cap_simps [simp]:
  "vb_cap (b\<lparr>vb_write_seq := n\<rparr>) = vb_cap b" "vb_cap (b\<lparr>vb_consumed_seq := n\<rparr>) = vb_cap b"
  "vb_cap (b\<lparr>vb_slots := (vb_slots b)[i := s]\<rparr>) = vb_cap b"
  "vb_cap (b\<lparr>vb_slots := (vb_slots b)[i := s], vb_write_seq := n\<rparr>) = vb_cap b"
  by (simp_all add: vb_cap_def)

lemma slot_of_data: "f_data f \<noteq> None \<Longrightarrow> f_size f \<noteq> 0 \<Longrightarrow> vs_data (vod_slot_of f) \<noteq> None \<and> vs_len (vod_slot_of f) \<noteq> 0"
  by (auto simp: vod_slot_of_def split: prod.splits)

text \<open>Two sequences of the window share no slot.\<close>

lemma window_slot:
  assumes "p mod n = q mod n" "p \<le> q" "q < p + n"
  shows "p = (q :: nat)"
proof -
  have "n dvd q - p" using assms(1,2) by (metis mod_eq_dvd_iff_nat)
  moreover have "q - p < n" using assms by simp
  ultimately have "q - p = 0" by (meson dvd_imp_le not_le not_gr_zero)
  with assms(2) show ?thesis by simp
qed

lemma vod_write_log:
  assumes log: "vod_log b L" and w: "zms_vod_buffer_write m b f = (ZTK_OK, b1)"
  shows "vod_log b1 (L @ [vod_slot_of f]) \<and> vb_cap b1 = vb_cap b \<and> vb_consumed_seq b1 = vb_consumed_seq b"
proof -
  let ?n = "vb_cap b" and ?W = "vb_write_seq b"
  let ?m = "b\<lparr>vb_slots := (vb_slots b)[?W mod ?n := vod_slot_of f], vb_write_seq := ?W + 1\<rparr>"
  have n: "0 < ?n" and W: "?W = length L" using log by (auto simp: vod_log_def)
  have ok: "f_data f \<noteq> None" "f_size f \<noteq> 0" and b1: "b1 = vod_drop_oldest ?m"
    using w by (auto simp: zms_vod_buffer_write_def Let_def split: if_splits)
  have sl: "vb_slot ?m q = (if q mod ?n = ?W mod ?n then vod_slot_of f else vb_slot b q)" for q
    using n by (simp add: vb_slot_def vb_cap_def nth_list_update)
  have keep: "vb_slot ?m q = (L @ [vod_slot_of f]) ! q" if "q < ?W + 1" "?W + 1 \<le> ?n \<or> ?W + 1 < q + ?n" for q
  proof (cases "q = ?W")
    case True
    have "vb_slot ?m ?W = vod_slot_of f" using sl[of ?W] by simp
    with True W show ?thesis by (metis nth_append_length)
  next
    case False
    then have "q mod ?n \<noteq> ?W mod ?n" using window_slot[of q ?n ?W] that by auto
    then have "vb_slot ?m q = vb_slot b q" using sl[of q] by simp
    moreover have "vod_held b q" using that False by (auto simp: vod_held_def)
    moreover have "q < length L" using that(1) False W by simp
    ultimately show ?thesis using log by (simp add: vod_log_def nth_append)
  qed
  have data: "\<forall>s \<in> set (L @ [vod_slot_of f]). vs_data s \<noteq> None \<and> vs_len s \<noteq> 0"
    using log slot_of_data[OF ok] by (auto simp: vod_log_def)
  show ?thesis
  proof (cases "?n < ?W + 1")
    case False
    then have "b1 = ?m" by (simp add: b1 vod_drop_oldest_def vb_oldest_def)
    with n W keep data False show ?thesis by (auto simp: vod_log_def vod_held_def)
  next
    case True
    let ?o = "?W + 1 - ?n"
    let ?c = "?m\<lparr>vb_slots := (vb_slots ?m)[?o mod ?n := vod_slot_clear]\<rparr>"
    have c: "vb_cap ?c = ?n" "vb_write_seq ?c = ?W + 1" by (simp_all add: vb_cap_def)
    have csl: "vb_slot ?c q = (if q mod ?n = ?o mod ?n then vod_slot_clear else vb_slot ?m q)" for q
      using n by (simp add: vb_slot_def vb_cap_def nth_list_update)
    have e: "vb_slot b1 q = (if q mod ?n = ?o mod ?n \<and> vs_data (vb_slot ?m ?o) \<noteq> None then vod_slot_clear else vb_slot ?m q)"
      "vb_cap b1 = ?n" "vb_write_seq b1 = ?W + 1" "vb_consumed_seq b1 = vb_consumed_seq b" for q
      using True c csl n by (auto simp: b1 vod_drop_oldest_def vb_oldest_def Let_def)
    have "vb_slot b1 q = (L @ [vod_slot_of f]) ! q" if "vod_held b1 q" for q
    proof -
      have q: "q < ?W + 1" "?W + 1 < q + ?n" using that True e by (auto simp: vod_held_def)
      have "?o < q" "q < ?o + ?n" using q True by linarith+
      then have "q mod ?n \<noteq> ?o mod ?n" using window_slot[of ?o ?n q] by auto
      with q keep e show ?thesis by simp
    qed
    moreover have "vs_data (vb_slot b1 (vb_oldest b1)) = None"
    proof -
      have "vb_oldest b1 = ?o" using True e by (simp add: vb_oldest_def)
      then show ?thesis using e by (simp add: vod_slot_clear_def)
    qed
    ultimately show ?thesis using n W data e by (simp add: vod_log_def)
  qed
qed

lemma vb_slot_consumed [simp]: "vb_slot (b\<lparr>vb_consumed_seq := n\<rparr>) q = vb_slot b q"
  by (simp add: vb_slot_def)

lemma advance_fields:
  "vr_read_seq (fst (vod_advance b rd)) = vr_read_seq rd + 1"
  "vb_slot (snd (vod_advance b rd)) q = vb_slot b q"
  "vb_write_seq (snd (vod_advance b rd)) = vb_write_seq b"
  "vb_consumed_seq (snd (vod_advance b rd)) = max (vb_consumed_seq b) (vr_read_seq rd + 1)"
  "vb_cap (snd (vod_advance b rd)) = vb_cap b"
  by (auto simp: vod_advance_def Let_def)

lemma log_advance: "vod_log b L \<Longrightarrow> vod_log (snd (vod_advance b rd)) L"
  unfolding vod_log_def vod_held_def vb_oldest_def advance_fields .

text \<open>A read inside the window gives the frame that was written at its place.\<close>

lemma read_held:
  assumes "vod_log b L" "vod_held b (vr_read_seq rd)"
  shows "zms_vod_buffer_reader_read_muxed b rd =
    (Some (vod_slot_to_ring_slot (L ! vr_read_seq rd)), fst (vod_advance b rd), snd (vod_advance b rd))"
proof -
  have "vb_slot b (vr_read_seq rd) = L ! vr_read_seq rd" "vr_read_seq rd < length L"
    using assms by (auto simp: vod_log_def vod_held_def)
  then show ?thesis using assms
    by (simp add: zms_vod_buffer_reader_read_muxed_def vod_buffer_reader_slot_at_def Let_def advance_fields
        vod_log_def case_prod_beta)
qed

section \<open>Producer and consumer\<close>

text \<open>
  A player with one reader, and the demuxer that writes only while less than its high-water
  mark is pending; a read is a take of the player.
\<close>

datatype vod_op = Vod_Write zms_frame | Vod_Read

fun vod_run :: "nat \<Rightarrow> zms_vod_buffer \<Rightarrow> zms_vod_buffer_reader \<Rightarrow> vod_op list
    \<Rightarrow> zms_frame list \<times> zms_gop_slot list \<times> zms_vod_buffer \<times> zms_vod_buffer_reader" where
  "vod_run hw b rd [] = ([], [], b, rd)"
| "vod_run hw b rd (Vod_Write f # ops) =
     (if zms_vod_buffer_pending b \<ge> hw then vod_run hw b rd ops
      else case zms_vod_buffer_write True b f of
        (err, b1) \<Rightarrow> (case vod_run hw b1 rd ops of
          (ws, rs, b2, rd2) \<Rightarrow> (if err = ZTK_OK then f # ws else ws, rs, b2, rd2)))"
| "vod_run hw b rd (Vod_Read # ops) =
     (case zms_vod_buffer_reader_read_muxed b rd of
        (r, rd1, b1) \<Rightarrow> (case vod_run hw b1 rd1 ops of
          (ws, rs, b2, rd2) \<Rightarrow> (ws, (case r of Some s \<Rightarrow> s # rs | None \<Rightarrow> rs), b2, rd2)))"

definition vod_reader_ok :: "nat \<Rightarrow> zms_vod_buffer \<Rightarrow> zms_vod_buffer_reader \<Rightarrow> bool" where
  "vod_reader_ok hw b rd \<longleftrightarrow> vr_read_seq rd = vb_consumed_seq b \<and> vb_consumed_seq b \<le> vb_write_seq b
     \<and> zms_vod_buffer_pending b \<le> hw \<and> hw < vb_cap b"

lemma run_write:
  assumes "vod_log b L" "vod_reader_ok hw b rd" "zms_vod_buffer_pending b < hw"
  shows "\<exists>b1 K. zms_vod_buffer_write True b f = (if K = [] then ZTK_ERR_INVALID else ZTK_OK, b1)
    \<and> K = (if f_data f = None \<or> f_size f = 0 then [] else [vod_slot_of f])
    \<and> vod_log b1 (L @ K) \<and> vod_reader_ok hw b1 rd"
proof (cases "f_data f = None \<or> f_size f = 0")
  case True
  then show ?thesis using assms by (simp add: zms_vod_buffer_write_def)
next
  case False
  have p: "vb_write_seq b - vb_consumed_seq b < vb_cap b"
    using assms(2,3) by (auto simp: vod_reader_ok_def zms_vod_buffer_pending_def)
  then obtain b1 where w: "zms_vod_buffer_write True b f = (ZTK_OK, b1)"
    using False by (auto simp: zms_vod_buffer_write_def Let_def)
  note l = vod_write_log[OF assms(1) w]
  then have "vb_write_seq b1 = vb_write_seq b + 1" using assms(1) by (simp add: vod_log_def)
  then have "vod_reader_ok hw b1 rd"
    using l assms(2,3) by (auto simp: vod_reader_ok_def zms_vod_buffer_pending_def)
  with l w False show ?thesis by simp
qed

lemma run_read:
  assumes "vod_log b L" "vod_reader_ok hw b rd"
  shows "\<exists>b1 rd1 r. zms_vod_buffer_reader_read_muxed b rd = (r, rd1, b1) \<and> vod_log b1 L \<and> vod_reader_ok hw b1 rd1
    \<and> (if vr_read_seq rd < length L
       then r = Some (vod_slot_to_ring_slot (L ! vr_read_seq rd)) \<and> vr_read_seq rd1 = vr_read_seq rd + 1
       else r = None \<and> rd1 = rd)"
proof (cases "vr_read_seq rd < length L")
  case True
  have W: "vb_write_seq b = length L" using assms(1) by (simp add: vod_log_def)
  have "vod_held b (vr_read_seq rd)"
    using assms(2) True W by (auto simp: vod_held_def vod_reader_ok_def zms_vod_buffer_pending_def)
  note r = read_held[OF assms(1) this]
  have "vod_reader_ok hw (snd (vod_advance b rd)) (fst (vod_advance b rd))"
    using assms(2) True W unfolding vod_reader_ok_def zms_vod_buffer_pending_def advance_fields by auto
  with r log_advance[OF assms(1), of rd] True show ?thesis
    by (intro exI[of _ "snd (vod_advance b rd)"] exI[of _ "fst (vod_advance b rd)"]) (simp add: advance_fields)
next
  case False
  then show ?thesis using assms
    by (simp add: zms_vod_buffer_reader_read_muxed_def vod_buffer_reader_slot_at_def vod_log_def)
qed

text \<open>
  With a high-water mark below the capacity the buffer is a queue: whatever the order of
  writes and reads, the frames read are the frames accepted, in order, from the first one not
  yet consumed, none lost and none twice; nothing that was read is missing later.
\<close>

lemma vod_run_queue:
  assumes "vod_log b L" "vod_reader_ok hw b rd" "vod_run hw b rd ops = (ws, rs, b2, rd2)"
  shows "vod_log b2 (L @ map vod_slot_of ws) \<and> vod_reader_ok hw b2 rd2
    \<and> rs = map vod_slot_to_ring_slot (take (length rs) (drop (vr_read_seq rd) (L @ map vod_slot_of ws)))
    \<and> vr_read_seq rd2 = vr_read_seq rd + length rs"
  using assms
proof (induction ops arbitrary: b L rd ws rs)
  case (Cons op ops)
  show ?case
  proof (cases op)
    case (Vod_Write f)
    show ?thesis
    proof (cases "zms_vod_buffer_pending b < hw")
      case False
      with Cons Vod_Write show ?thesis by (auto simp: not_less)
    next
      case True
      from run_write[OF Cons.prems(1,2) this, of f] obtain b1 K where
        w: "zms_vod_buffer_write True b f = (if K = [] then ZTK_ERR_INVALID else ZTK_OK, b1)"
        and K: "K = (if f_data f = None \<or> f_size f = 0 then [] else [vod_slot_of f])"
        and l: "vod_log b1 (L @ K)" "vod_reader_ok hw b1 rd" by blast
      obtain ws1 where r: "vod_run hw b1 rd ops = (ws1, rs, b2, rd2)" and ws: "ws = (if K = [] then ws1 else f # ws1)"
        using Cons.prems(3) Vod_Write True w by (auto split: prod.splits if_splits)
      have "K @ map vod_slot_of ws1 = map vod_slot_of ws" using K ws by (auto split: if_splits)
      with Cons.IH[OF l r] show ?thesis by simp
    qed
  next
    case Vod_Read
    from run_read[OF Cons.prems(1,2)] obtain b1 rd1 r where
      rd: "zms_vod_buffer_reader_read_muxed b rd = (r, rd1, b1)" and l: "vod_log b1 L" "vod_reader_ok hw b1 rd1"
      and r: "if vr_read_seq rd < length L
       then r = Some (vod_slot_to_ring_slot (L ! vr_read_seq rd)) \<and> vr_read_seq rd1 = vr_read_seq rd + 1
       else r = None \<and> rd1 = rd" by blast
    obtain rs1 where rn: "vod_run hw b1 rd1 ops = (ws, rs1, b2, rd2)" and rs: "rs = (case r of Some s \<Rightarrow> s # rs1 | None \<Rightarrow> rs1)"
      using Cons.prems(3) Vod_Read rd by (auto split: prod.splits)
    note IH = Cons.IH[OF l rn]
    show ?thesis
    proof (cases "vr_read_seq rd < length L")
      case True
      let ?M = "L @ map vod_slot_of ws"
      have "drop (vr_read_seq rd) ?M = L ! vr_read_seq rd # drop (vr_read_seq rd + 1) ?M"
        using True Cons_nth_drop_Suc[of "vr_read_seq rd" ?M] by (simp add: nth_append)
      with IH r rs True show ?thesis by simp
    next
      case False
      with IH r rs show ?thesis by simp
    qed
  qed
qed simp


section \<open>A full buffer\<close>

text \<open>
  The write that fills the buffer clears the slot of the oldest sequence it holds. When every
  frame before it has been consumed that is the next frame to be read.
\<close>

theorem vod_fill_loses_next:
  assumes "vod_log b L" "0 < vb_consumed_seq b" "vb_write_seq b = vb_consumed_seq b + vb_cap b - 1"
    and "vr_read_seq rd = vb_consumed_seq b" "zms_vod_buffer_write m b f = (ZTK_OK, b1)"
  shows "zms_vod_buffer_reader_peek_muxed b1 rd = None
    \<and> fst (zms_vod_buffer_reader_read_muxed b1 rd) = None
    \<and> vr_read_seq (fst (snd (zms_vod_buffer_reader_read_muxed b1 rd))) = vr_read_seq rd + 1
    \<and> zms_vod_buffer_pending b1 = vb_cap b1"
proof -
  note l = vod_write_log[OF assms(1,5)]
  have n: "0 < vb_cap b" and W: "vb_write_seq b1 = vb_write_seq b + 1"
    using l assms(1) by (auto simp: vod_log_def)
  have W1: "vb_write_seq b1 = vb_consumed_seq b + vb_cap b" using assms(3) n W by simp
  then have o: "vb_oldest b1 = vr_read_seq rd" "vb_cap b1 < vb_write_seq b1"
    using l assms(2,4) by (auto simp: vb_oldest_def)
  then have d: "vs_data (vb_slot b1 (vr_read_seq rd)) = None" using l by (auto simp: vod_log_def)
  have lt: "vr_read_seq rd < vb_write_seq b1" using W1 n assms(4) by simp
  then show ?thesis using d l W1
    by (simp add: zms_vod_buffer_reader_peek_muxed_def zms_vod_buffer_reader_read_muxed_def
        vod_buffer_reader_slot_at_def Let_def case_prod_beta advance_fields zms_vod_buffer_pending_def)
qed

text \<open>
  From there on a player that peeks before it takes gets nothing, and the writer is refused:
  neither a write nor a peek changes anything, however often they are tried.
\<close>

theorem vod_full_stalls:
  assumes "vod_log b L" "0 < vb_consumed_seq b" "vb_write_seq b = vb_consumed_seq b + vb_cap b"
    and "vr_read_seq rd = vb_consumed_seq b" "f_data f \<noteq> None" "f_size f \<noteq> 0"
  shows "zms_vod_buffer_write m b f = (ZTK_ERR_BUFFER_TOO_SMALL, b) \<and> zms_vod_buffer_reader_peek_muxed b rd = None
    \<and> zms_vod_buffer_reader_peek_muxed_es e pol b rd es = (None, es)"
proof -
  have n: "0 < vb_cap b" using assms(1) by (simp add: vod_log_def)
  have "vb_oldest b = vr_read_seq rd" "vb_cap b < vb_write_seq b" using assms(2-4) by (auto simp: vb_oldest_def)
  then have d: "vs_data (vb_slot b (vr_read_seq rd)) = None" using assms(1) by (auto simp: vod_log_def)
  show ?thesis using d n assms
    by (simp add: zms_vod_buffer_reader_peek_muxed_def zms_vod_buffer_reader_peek_muxed_es_def
        zms_vod_buffer_write_def vod_buffer_reader_slot_at_def Let_def)
qed

text \<open>A reset does not move the readers: they get nothing until as many frames have come again.\<close>

theorem vod_reset_blinds_reader:
  assumes "vod_run hw (zms_vod_buffer_reset b) rd (map Vod_Write fs) = (ws, rs, b1, rd1)" "vod_log b L"
    and "length fs \<le> vr_read_seq rd" "hw < vb_cap b"
  shows "zms_vod_buffer_reader_peek_muxed b1 rd = None"
proof -
  have run: "vb_write_seq b2 \<le> vb_write_seq c + length fs"
    if "vod_run hw c rd (map Vod_Write fs) = (ws, rs, b2, rd1)" for c b2 ws rs rd1
    using that
  proof (induction fs arbitrary: c ws)
    case (Cons f fs)
    have "vb_write_seq (snd (zms_vod_buffer_write True c f)) \<le> vb_write_seq c + 1"
      by (auto simp: zms_vod_buffer_write_def Let_def vod_drop_oldest_def)
    with Cons show ?case by (fastforce split: if_splits prod.splits)
  qed simp
  from run[OF assms(1)] assms(3) show ?thesis
    by (simp add: zms_vod_buffer_reset_def zms_vod_buffer_reader_peek_muxed_def vod_buffer_reader_slot_at_def)
qed

section \<open>Concrete runs\<close>

definition ex_vod_frame :: zms_frame where
  "ex_vod_frame = zms_frame_init\<lparr>f_data := Some [7], f_size := 1, f_codec := ZMS_CODEC_AAC, f_track := ZMS_TRACK_AUDIO\<rparr>"

definition ex_vod_b :: zms_vod_buffer where
  "ex_vod_b = snd (zms_vod_buffer_write True (snd (vod_advance (snd (zms_vod_buffer_write True
     (zms_vod_buffer_create 2) ex_vod_frame)) \<lparr>vr_read_seq = 0\<rparr>)) ex_vod_frame)"


lemma ex_vod_b_log: "vod_log ex_vod_b [vod_slot_of ex_vod_frame, vod_slot_of ex_vod_frame]"
proof -
  have 1: "fst (zms_vod_buffer_write True (zms_vod_buffer_create 2) ex_vod_frame) = ZTK_OK" by code_simp
  have 2: "fst (zms_vod_buffer_write True (snd (vod_advance (snd (zms_vod_buffer_write True
     (zms_vod_buffer_create 2) ex_vod_frame)) \<lparr>vr_read_seq = 0\<rparr>)) ex_vod_frame) = ZTK_OK" by code_simp
  from vod_write_log[OF vod_log_create, of True 2 ex_vod_frame] 1 have
    "vod_log (snd (zms_vod_buffer_write True (zms_vod_buffer_create 2) ex_vod_frame)) [vod_slot_of ex_vod_frame]"
    by (metis append_Nil prod.collapse)
  from vod_write_log[OF log_advance[OF this, of "\<lparr>vr_read_seq = 0\<rparr>"], of True ex_vod_frame] 2 show ?thesis
    unfolding ex_vod_b_def by (metis append_Cons append_Nil prod.collapse)
qed

lemma vod_fill_loses_next_witness:
  "zms_vod_buffer_reader_peek_muxed (snd (zms_vod_buffer_write True ex_vod_b ex_vod_frame)) \<lparr>vr_read_seq = 1\<rparr> = None"
proof -
  have c: "vb_consumed_seq ex_vod_b = 1" "vb_write_seq ex_vod_b = 2" "vb_cap ex_vod_b = 2" by code_simp+
  have "fst (zms_vod_buffer_write True ex_vod_b ex_vod_frame) = ZTK_OK" by code_simp
  then have "zms_vod_buffer_write True ex_vod_b ex_vod_frame = (ZTK_OK, snd (zms_vod_buffer_write True ex_vod_b ex_vod_frame))"
    by (metis prod.collapse)
  from vod_fill_loses_next[OF ex_vod_b_log _ _ _ this, of "\<lparr>vr_read_seq = 1\<rparr>"] c show ?thesis by simp
qed

end
