(* ===== verification/H264_Sps.thy ===== *)
theory H264_Sps
  imports H264_Spec "HOL-Library.State_Monad" "HOL-Library.Signed_Division"
begin

text \<open>
  The reader of sequence parameter sets, \<open>media/codec/h264/h264_sps.c\<close>: picture size and frame
  rate of a stream. The bit reader is a state; a read past the end gives zeros. The frame rate is a
  \<open>float\<close>: a bit pattern here, and its division a parameter. Signed numbers of the code are cut to
  32 bits where C leaves their overflow undefined, and a shift by 32 or more gives 0.
\<close>

type_synonym f32 = "32 word"

definition i32 :: "int \<Rightarrow> int" where
  "i32 n = signed_take_bit 31 n"

lemma i32_id: "- (2 ^ 31) \<le> n \<Longrightarrow> n < 2 ^ 31 \<Longrightarrow> i32 n = n"
  by (simp add: i32_def signed_take_bit_int_eq_self)

text \<open>Comparisons of \<open>float\<close> values, read off their bits.\<close>

definition f32_nan :: "f32 \<Rightarrow> bool" where
  "f32_nan a \<longleftrightarrow> a AND 0x7FFFFFFF > 0x7F800000"

definition f32_pos :: "f32 \<Rightarrow> bool" where
  "f32_pos a \<longleftrightarrow> 0 < a \<and> a \<le> 0x7F800000"

definition f32_eq :: "f32 \<Rightarrow> f32 \<Rightarrow> bool" where
  "f32_eq a b \<longleftrightarrow> \<not> f32_nan a \<and> \<not> f32_nan b \<and> (a = b \<or> (a OR b) AND 0x7FFFFFFF = 0)"

record h264_br =
  br_buf :: bytes
  br_bit_pos :: nat

record zms_h264_sps_info =
  sps_width :: int
  sps_height :: int
  sps_fps :: f32

section \<open>Bits\<close>

definition br_eof :: "h264_br \<Rightarrow> bool" where
  "br_eof b \<longleftrightarrow> br_bit_pos b \<ge> length (br_buf b) * 8"

definition br_bit :: "h264_br \<Rightarrow> u32 \<times> h264_br" where
  "br_bit b =
     (if br_eof b then (0, b)
      else (of_bool (bit (br_buf b ! (br_bit_pos b div 8)) (7 - br_bit_pos b mod 8)),
            b\<lparr>br_bit_pos := br_bit_pos b + 1\<rparr>))"

definition br_read_bit :: "(h264_br, u32) state" where
  "br_read_bit = State br_bit"

fun br_bits :: "nat \<Rightarrow> u32 \<Rightarrow> h264_br \<Rightarrow> u32 \<times> h264_br" where
  "br_bits 0 v b = (v, b)"
| "br_bits (Suc n) v b = (case br_bit b of (x, b1) \<Rightarrow> br_bits n (push_bit 1 v OR x) b1)"

definition br_read_bits :: "nat \<Rightarrow> (h264_br, u32) state" where
  "br_read_bits n = State (br_bits n 0)"

function br_zeros :: "nat \<Rightarrow> h264_br \<Rightarrow> nat \<times> h264_br" where
  "br_zeros z b =
     (if br_eof b then (z, b)
      else case br_bit b of (x, b1) \<Rightarrow> if x = 0 then br_zeros (z + 1) b1 else (z, b1))"
  by pat_completeness auto
termination
  by (relation "measure (\<lambda>(z, b). length (br_buf b) * 8 - br_bit_pos b)") (auto simp: br_bit_def br_eof_def)

declare br_zeros.simps [simp del]

definition br_read_ue :: "(h264_br, u32) state" where
  "br_read_ue = do {
     zeros \<leftarrow> State (br_zeros 0);
     if zeros = 0 then State_Monad.return 0
     else do {
       v \<leftarrow> br_read_bits zeros;
       State_Monad.return (push_bit zeros 1 - 1 + v)
     }
   }"

definition br_read_se :: "(h264_br, int) state" where
  "br_read_se = do {
     ue \<leftarrow> br_read_ue;
     let v = uint ((ue + 1) div 2);
     State_Monad.return (if odd (uint ue) then v else - v)
   }"

text \<open>
  The bytes after the removal of the emulation prevention bytes. \<open>cap\<close> is what is left of the
  output buffer; the test of the loop sees it once per round, and a round may write two bytes.
\<close>

fun rbsp_unescape :: "bytes \<Rightarrow> nat \<Rightarrow> bytes" where
  "rbsp_unescape (a # b # c # r) cap =
     (if cap = 0 then []
      else if a = 0 \<and> b = 0 \<and> c = 3 then 0 # 0 # rbsp_unescape r (cap - 2)
      else a # rbsp_unescape (b # c # r) (cap - 1))"
| "rbsp_unescape r cap = take cap r"

section \<open>The parameter set\<close>

text \<open>The loops over a scaling list, the lists, and the offsets of the picture order count.\<close>

fun skip_scaling_list :: "nat \<Rightarrow> int \<Rightarrow> int \<Rightarrow> (h264_br, unit) state" where
  "skip_scaling_list 0 lst nxt = State_Monad.return ()"
| "skip_scaling_list (Suc i) lst nxt = do {
     nxt1 \<leftarrow> (if nxt \<noteq> 0 then do {
                  delta \<leftarrow> br_read_se;
                  State_Monad.return (i32 (lst + delta + 256) smod 256)
                } else State_Monad.return nxt);
     skip_scaling_list i (if nxt1 \<noteq> 0 then nxt1 else lst) nxt1
   }"

fun skip_scaling_lists :: "nat list \<Rightarrow> (h264_br, unit) state" where
  "skip_scaling_lists [] = State_Monad.return ()"
| "skip_scaling_lists (i # js) = do {
     p \<leftarrow> br_read_bit;
     (if p \<noteq> 0 then skip_scaling_list (if i < 6 then 16 else 64) 8 8 else State_Monad.return ());
     skip_scaling_lists js
   }"

fun skip_ses :: "nat \<Rightarrow> (h264_br, unit) state" where
  "skip_ses 0 = State_Monad.return ()"
| "skip_ses (Suc n) = do { _ \<leftarrow> br_read_se; skip_ses n }"

definition sps_high_profiles :: "u32 set" where
  "sps_high_profiles = {100, 110, 122, 244, 44, 83, 86, 118, 128, 138, 139, 134, 135}"

definition sps_read_chroma :: "u32 \<Rightarrow> (h264_br, int) state" where
  "sps_read_chroma profile =
     (if profile \<in> sps_high_profiles then do {
        ue \<leftarrow> br_read_ue;
        let chroma = sint ue;
        _ \<leftarrow> (if chroma = 3 then br_read_bit else State_Monad.return 0);
        _ \<leftarrow> br_read_ue;
        _ \<leftarrow> br_read_ue;
        _ \<leftarrow> br_read_bit;
        m \<leftarrow> br_read_bit;
        _ \<leftarrow> (if m \<noteq> 0 then skip_scaling_lists [0..<if chroma \<noteq> 3 then 8 else 12] else State_Monad.return ());
        State_Monad.return chroma
      } else State_Monad.return 1)"

definition sps_read_poc :: "(h264_br, unit) state" where
  "sps_read_poc = do {
     poc \<leftarrow> br_read_ue;
     if poc = 0 then do { _ \<leftarrow> br_read_ue; State_Monad.return () }
     else if poc = 1 then do {
       _ \<leftarrow> br_read_bit;
       _ \<leftarrow> br_read_se;
       _ \<leftarrow> br_read_se;
       cnt \<leftarrow> br_read_ue;
       skip_ses (nat (sint cnt))
     } else State_Monad.return ()
   }"

definition sps_read_crop :: "(h264_br, int \<times> int \<times> int \<times> int) state" where
  "sps_read_crop = do {
     c \<leftarrow> br_read_bit;
     if c \<noteq> 0 then do {
       l \<leftarrow> br_read_ue;
       r \<leftarrow> br_read_ue;
       t \<leftarrow> br_read_ue;
       b \<leftarrow> br_read_ue;
       State_Monad.return (sint l, sint r, sint t, sint b)
     } else State_Monad.return (0, 0, 0, 0)
   }"

fun skip_all :: "nat list \<Rightarrow> (h264_br, unit) state" where
  "skip_all [] = State_Monad.return ()"
| "skip_all (n # ns) = do { _ \<leftarrow> br_read_bits n; skip_all ns }"

fun skip_ues :: "nat \<Rightarrow> (h264_br, unit) state" where
  "skip_ues 0 = State_Monad.return ()"
| "skip_ues (Suc n) = do { _ \<leftarrow> br_read_ue; skip_ues n }"

definition if_bit :: "(h264_br, unit) state \<Rightarrow> (h264_br, unit) state" where
  "if_bit m = do { b \<leftarrow> br_read_bit; if b \<noteq> 0 then m else State_Monad.return () }"

text \<open>The fields that may follow the size; \<open>fps\<close> divides the time scale by twice the units in a tick.\<close>

definition sps_read_vui :: "(u32 \<Rightarrow> u32 \<Rightarrow> f32) \<Rightarrow> (h264_br, f32) state" where
  "sps_read_vui fps = do {
     p \<leftarrow> br_read_bit;
     if p = 0 then State_Monad.return 0
     else do {
       if_bit (skip_all [8, 8, 8]);
       if_bit (skip_all [32, 32, 32]);
       if_bit (do { _ \<leftarrow> br_read_bit; State_Monad.return () });
       if_bit (do { skip_all [16, 16, 16, 16, 16, 16, 24, 24]; if_bit (skip_ues 1) });
       m \<leftarrow> br_read_bit;
       if m = 0 then State_Monad.return 0
       else do {
         skip_ues 4;
         t \<leftarrow> br_read_bit;
         if t = 0 then State_Monad.return 0
         else do {
           num_units \<leftarrow> br_read_bits 32;
           time_scale \<leftarrow> br_read_bits 32;
           _ \<leftarrow> br_read_bit;
           State_Monad.return (if num_units > 0 \<and> time_scale > 0 then fps time_scale num_units else 0)
         }
       }
     }
   }"

definition crop_unit_x :: "int \<Rightarrow> int" where
  "crop_unit_x chroma = (if chroma = 1 \<or> chroma = 2 then 2 else 1)"

definition crop_unit_y :: "int \<Rightarrow> int \<Rightarrow> int" where
  "crop_unit_y chroma frame_mbs_only = (if chroma = 1 then 2 * (2 - frame_mbs_only) else 2 - frame_mbs_only)"

definition sps_read_size :: "(h264_br, int \<times> int) state" where
  "sps_read_size = do {
     profile \<leftarrow> br_read_bits 8;
     _ \<leftarrow> br_read_bits 8;
     _ \<leftarrow> br_read_bits 8;
     _ \<leftarrow> br_read_ue;
     chroma \<leftarrow> sps_read_chroma profile;
     _ \<leftarrow> br_read_ue;
     _ \<leftarrow> sps_read_poc;
     _ \<leftarrow> br_read_ue;
     _ \<leftarrow> br_read_bit;
     w_ue \<leftarrow> br_read_ue;
     h_ue \<leftarrow> br_read_ue;
     fmo_bit \<leftarrow> br_read_bit;
     let fmo = uint fmo_bit;
     _ \<leftarrow> (if fmo = 0 then br_read_bit else State_Monad.return 0);
     _ \<leftarrow> br_read_bit;
     (cl, cr, ct, cb) \<leftarrow> sps_read_crop;
     State_Monad.return
       (i32 ((sint w_ue + 1) * 16 - (cl + cr) * crop_unit_x chroma),
        i32 ((2 - fmo) * (sint h_ue + 1) * 16 - (ct + cb) * crop_unit_y chroma fmo))
   }"

definition sps_read :: "(u32 \<Rightarrow> u32 \<Rightarrow> f32) \<Rightarrow> (h264_br, zms_h264_sps_info option) state" where
  "sps_read fps = do {
     (w, h) \<leftarrow> sps_read_size;
     if w \<le> 0 \<or> h \<le> 0 then State_Monad.return None
     else do {
       rate \<leftarrow> sps_read_vui fps;
       State_Monad.return (Some \<lparr>sps_width = w, sps_height = h, sps_fps = rate\<rparr>)
     }
   }"

definition zms_h264_sps_parse :: "(u32 \<Rightarrow> u32 \<Rightarrow> f32) \<Rightarrow> bytes \<Rightarrow> zms_h264_sps_info option" where
  "zms_h264_sps_parse fps sps =
     (if length sps < 4 \<or> sps ! 0 AND 0x1F \<noteq> 7 then None
      else let rbsp = rbsp_unescape (drop 1 sps) 512 in
        if length rbsp < 3 then None
        else fst (run_state (sps_read fps) \<lparr>br_buf = rbsp, br_bit_pos = 0\<rparr>))"

section \<open>What the bit reader reads\<close>

text \<open>
  A reader \<open>m\<close> takes the bits \<open>bs\<close>, wherever they stand in a buffer, and gives \<open>v\<close>.
\<close>

definition reads :: "(h264_br, 'a) state \<Rightarrow> bool list \<Rightarrow> 'a \<Rightarrow> bool" where
  "reads m bs v \<longleftrightarrow> (\<forall>buf p rest. drop p (nal_bits buf) = bs @ rest \<longrightarrow>
     run_state m \<lparr>br_buf = buf, br_bit_pos = p\<rparr> = (v, \<lparr>br_buf = buf, br_bit_pos = p + length bs\<rparr>))"

lemma reads_return: "reads (State_Monad.return v) [] v"
  by (simp add: reads_def)

lemma reads_bind: "reads m as x \<Longrightarrow> reads (f x) bs y \<Longrightarrow> reads (m \<bind> f) (as @ bs) y"
proof -
  assume m: "reads m as x" and f: "reads (f x) bs y"
  show ?thesis unfolding reads_def
  proof (intro allI impI)
    fix buf p rest
    assume d: "drop p (nal_bits buf) = (as @ bs) @ rest"
    then have "drop (length as) (drop p (nal_bits buf)) = bs @ rest" by simp
    then have "drop (p + length as) (nal_bits buf) = bs @ rest" by (simp add: add.commute)
    with d m f show "run_state (m \<bind> f) \<lparr>br_buf = buf, br_bit_pos = p\<rparr>
        = (y, \<lparr>br_buf = buf, br_bit_pos = p + length (as @ bs)\<rparr>)"
      by (simp add: reads_def add.assoc)
  qed
qed

text \<open>The same for a computation whose result does not matter, and for a part that reads nothing.\<close>

lemma reads_then: "reads m as x \<Longrightarrow> reads n bs y \<Longrightarrow> reads (m \<bind> (\<lambda>_. n)) (as @ bs) y"
  by (rule reads_bind)

lemma br_bit_reads: "drop p (nal_bits buf) = b # bs \<Longrightarrow>
    br_bit \<lparr>br_buf = buf, br_bit_pos = p\<rparr> = (of_bool b, \<lparr>br_buf = buf, br_bit_pos = p + 1\<rparr>)
    \<and> \<not> br_eof \<lparr>br_buf = buf, br_bit_pos = p\<rparr> \<and> drop (p + 1) (nal_bits buf) = bs"
  using bit_get_bits[of p buf b bs] by (auto simp: br_bit_def br_eof_def h264_bit_get_def)

lemma reads_bit: "reads br_read_bit [b] (of_bool b)"
  by (simp add: reads_def br_read_bit_def br_bit_reads)

lemma br_bits_fold: "drop p (nal_bits buf) = bs @ rest \<Longrightarrow>
    br_bits (length bs) v \<lparr>br_buf = buf, br_bit_pos = p\<rparr>
    = (foldl (\<lambda>v b. push_bit 1 v OR (if b then 1 else 0)) v bs, \<lparr>br_buf = buf, br_bit_pos = p + length bs\<rparr>)"
proof (induction bs arbitrary: p v)
  case (Cons b bs)
  from Cons.prems have d: "drop p (nal_bits buf) = b # (bs @ rest)" by simp
  from br_bit_reads[OF d] Cons.IH[of "p + 1"] show ?case by (simp add: of_bool_def)
qed simp

lemma reads_bits: "reads (br_read_bits n) (be_bits n m) (of_nat (take_bit n m))"
proof -
  have l: "length (be_bits n m) = n" by (simp add: be_bits_def)
  have "br_bits n 0 \<lparr>br_buf = buf, br_bit_pos = p\<rparr> = (of_nat (take_bit n m), \<lparr>br_buf = buf, br_bit_pos = p + n\<rparr>)"
    if "drop p (nal_bits buf) = be_bits n m @ rest" for buf p rest
    using br_bits_fold[OF that, of 0] by (simp only: l fold_be_bits)
  then show ?thesis unfolding reads_def br_read_bits_def l by simp
qed

lemma br_zeros_code: "drop p (nal_bits buf) = replicate z False @ True # bs \<Longrightarrow>
    br_zeros k \<lparr>br_buf = buf, br_bit_pos = p\<rparr> = (k + z, \<lparr>br_buf = buf, br_bit_pos = p + z + 1\<rparr>)"
proof (induction z arbitrary: p k)
  case 0
  then show ?case using br_bit_reads[of p buf True bs] by (subst br_zeros.simps) simp
next
  case (Suc z)
  then have d: "drop p (nal_bits buf) = False # (replicate z False @ True # bs)" by simp
  with Suc.IH[of "p + 1" "k + 1"] br_bit_reads[OF d] show ?case by (subst br_zeros.simps) simp
qed

lemma reads_zeros: "reads (State (br_zeros 0)) (replicate z False @ [True]) z"
  using br_zeros_code[where k = 0] by (simp add: reads_def)

text \<open>The Exp-Golomb code of a number.\<close>

fun ue_size :: "nat \<Rightarrow> nat" where
  "ue_size n = (if n = 0 then 0 else Suc (ue_size ((n - 1) div 2)))"

declare ue_size.simps [simp del]

lemma ue_size_bounds: "2 ^ ue_size n \<le> n + 1 \<and> n + 1 < 2 * 2 ^ ue_size n"
proof (induction n rule: ue_size.induct)
  case (1 n)
  show ?case
  proof (cases "n = 0")
    case False
    with 1 have "2 ^ ue_size ((n - 1) div 2) \<le> (n - 1) div 2 + 1" "(n - 1) div 2 + 1 < 2 * 2 ^ ue_size ((n - 1) div 2)" by auto
    then have "2 * 2 ^ ue_size ((n - 1) div 2) \<le> n + 1 \<and> n + 1 < 2 * (2 * 2 ^ ue_size ((n - 1) div 2))" using False by linarith
    with False show ?thesis by (simp add: ue_size.simps[of n])
  qed (simp add: ue_size.simps)
qed

definition ue :: "nat \<Rightarrow> bool list" where
  "ue n = ue_code (ue_size n) (n + 1 - 2 ^ ue_size n)"

lemma reads_ue: "reads br_read_ue (ue n) (of_nat n)"
proof -
  let ?z = "ue_size n" and ?m = "n + 1 - 2 ^ ue_size n"
  note b = ue_size_bounds[of n]
  show ?thesis
  proof (cases "?z = 0")
    case True
    with b have "n = 0" by simp
    then have "ue n = [True]" by (simp add: ue_def ue_code_def be_bits_def ue_size.simps[of 0])
    moreover have "reads br_read_ue ((replicate 0 False @ [True]) @ []) 0"
      unfolding br_read_ue_def by (rule reads_bind[OF reads_zeros]) (simp add: reads_return)
    ultimately show ?thesis using \<open>n = 0\<close> by simp
  next
    case False
    have m: "take_bit ?z ?m = ?m" using b by (intro take_bit_nat_eq_self) linarith
    have v: "push_bit ?z 1 - 1 + of_nat ?m = (of_nat n :: u32)"
    proof -
      have "n + 1 = 2 ^ ?z + ?m" using b by simp
      then have "of_nat n + 1 = (2 ^ ?z + of_nat ?m :: u32)" by (metis of_nat_1 of_nat_add of_nat_numeral of_nat_power)
      then show ?thesis by (simp add: push_bit_eq_mult algebra_simps)
    qed
    have e: "ue n = (replicate ?z False @ [True]) @ (be_bits ?z ?m @ [])" by (simp add: ue_def ue_code_def)
    have "reads (br_read_bits ?z \<bind> (\<lambda>v. State_Monad.return (push_bit ?z 1 - 1 + v))) (be_bits ?z ?m @ [])
        (push_bit ?z 1 - 1 + of_nat (take_bit ?z ?m))"
      by (rule reads_bind[OF reads_bits reads_return])
    then have k: "reads (if ?z = 0 then State_Monad.return 0
         else br_read_bits ?z \<bind> (\<lambda>v. State_Monad.return (push_bit ?z 1 - 1 + v))) (be_bits ?z ?m @ [])
        (push_bit ?z 1 - 1 + of_nat (take_bit ?z ?m))" using False by (simp only: if_False)
    have "reads br_read_ue (ue n) (push_bit ?z 1 - 1 + of_nat (take_bit ?z ?m))"
      unfolding br_read_ue_def e by (rule reads_bind[OF reads_zeros]) (rule k)
    then show ?thesis by (simp only: m v)
  qed
qed

text \<open>Signed codes: the value does not matter for the size, only that the code is passed.\<close>

lemma reads_se: "\<exists>v. reads br_read_se (ue n) v"
proof -
  let ?v = "if odd (uint (of_nat n :: u32)) then uint ((of_nat n + 1 :: u32) div 2) else - uint ((of_nat n + 1 :: u32) div 2)"
  have "reads br_read_se (ue n @ []) ?v"
    unfolding br_read_se_def Let_def by (rule reads_bind[OF reads_ue reads_return])
  then show ?thesis by auto
qed

section \<open>Parameter sets of the standard\<close>

datatype sps_poc = Poc_0 nat | Poc_1 bool nat nat "nat list" | Poc_2

text \<open>
  A parameter set before its usability information, without scaling lists: the numbers are the
  values of the Exp-Golomb codes of the standard. \<open>d_w\<close> and \<open>d_h\<close> are sizes in macroblocks minus 1.
\<close>

record sps_desc =
  d_profile :: nat
  d_flags :: nat
  d_level :: nat
  d_id :: nat
  d_chroma :: nat
  d_planes :: bool
  d_depths :: "nat \<times> nat"
  d_bypass :: bool
  d_frame_num :: nat
  d_poc :: sps_poc
  d_refs :: nat
  d_gaps :: bool
  d_w :: nat
  d_h :: nat
  d_fmo :: bool
  d_mbaff :: bool
  d_8x8 :: bool
  d_crop :: "(nat \<times> nat \<times> nat \<times> nat) option"

definition sps_high :: "sps_desc \<Rightarrow> bool" where
  "sps_high d \<longleftrightarrow> (of_nat (d_profile d) :: u32) \<in> sps_high_profiles"

definition chroma_bits :: "sps_desc \<Rightarrow> bool list" where
  "chroma_bits d =
     (if sps_high d then ue (d_chroma d) @ (if d_chroma d = 3 then [d_planes d] else [])
        @ ue (fst (d_depths d)) @ ue (snd (d_depths d)) @ [d_bypass d] @ [False] else [])"

fun poc_bits :: "sps_poc \<Rightarrow> bool list" where
  "poc_bits (Poc_0 n) = ue 0 @ ue n"
| "poc_bits (Poc_1 b m n ns) = ue 1 @ [b] @ ue m @ ue n @ ue (length ns) @ concat (map ue ns)"
| "poc_bits Poc_2 = ue 2"

definition crop_bits :: "sps_desc \<Rightarrow> bool list" where
  "crop_bits d = (case d_crop d of None \<Rightarrow> [False] | Some (l, r, t, b) \<Rightarrow> [True] @ ue l @ ue r @ ue t @ ue b)"

definition sps_bits :: "sps_desc \<Rightarrow> bool list" where
  "sps_bits d = be_bits 8 (d_profile d) @ be_bits 8 (d_flags d) @ be_bits 8 (d_level d) @ ue (d_id d) @ chroma_bits d
     @ ue (d_frame_num d) @ poc_bits (d_poc d) @ ue (d_refs d) @ [d_gaps d] @ ue (d_w d) @ ue (d_h d) @ [d_fmo d]
     @ (if d_fmo d then [] else [d_mbaff d]) @ [d_8x8 d] @ crop_bits d"

text \<open>The size of the picture as the standard defines it, 6.2 and 7.4.2.1.1.\<close>

definition crop_of :: "sps_desc \<Rightarrow> nat \<times> nat \<times> nat \<times> nat" where
  "crop_of d = (case d_crop d of None \<Rightarrow> (0, 0, 0, 0) | Some c \<Rightarrow> c)"

definition std_width :: "sps_desc \<Rightarrow> int" where
  "std_width d = (case crop_of d of (l, r, t, b) \<Rightarrow>
     16 * (int (d_w d) + 1) - (if d_chroma d \<in> {1, 2} then 2 else 1) * (int l + int r))"

definition std_height :: "sps_desc \<Rightarrow> int" where
  "std_height d = (case crop_of d of (l, r, t, b) \<Rightarrow>
     let f = (if d_fmo d then 1 else 2) in
     f * 16 * (int (d_h d) + 1) - f * (if d_chroma d = 1 then 2 else 1) * (int t + int b))"

definition sps_wf :: "sps_desc \<Rightarrow> bool" where
  "sps_wf d \<longleftrightarrow> d_profile d < 256 \<and> (d_chroma d \<le> 3 \<and> (\<not> sps_high d \<longrightarrow> d_chroma d = 1))
     \<and> d_w d < 2 ^ 16 \<and> d_h d < 2 ^ 16
     \<and> (case d_poc d of Poc_1 _ _ _ ns \<Rightarrow> length ns < 256 | _ \<Rightarrow> True)
     \<and> (case crop_of d of (l, r, t, b) \<Rightarrow> l < 2 ^ 20 \<and> r < 2 ^ 20 \<and> t < 2 ^ 20 \<and> b < 2 ^ 20)
     \<and> 0 < std_width d \<and> 0 < std_height d"

lemma uint_bit [simp]: "uint (of_bool b :: u32) = of_bool b" "(of_bool b :: u32) \<noteq> 0 \<longleftrightarrow> b"
  by (cases b; simp)+

lemma sint_small: "n < 2 ^ 31 \<Longrightarrow> sint (of_nat n :: u32) = int n"
proof -
  assume n: "n < 2 ^ 31"
  have "sint (of_nat n :: u32) = signed_take_bit 31 (int n)"
    by (simp add: sint_uint unsigned_of_nat signed_take_bit_take_bit take_bit_of_nat[symmetric])
  also have "\<dots> = int n" using n by (intro signed_take_bit_int_eq_self) auto
  finally show ?thesis .
qed

lemma reads_unit: "reads m bs x \<Longrightarrow> \<exists>y. reads m bs y"
  by blast

lemma reads_ses: "reads (skip_ses (length ns)) (concat (map ue ns)) ()"
proof (induction ns)
  case Nil
  then show ?case by (simp add: reads_return)
next
  case (Cons n ns)
  from reads_se obtain v where "reads br_read_se (ue n) v" by blast
  from reads_bind[OF this, of "\<lambda>_. skip_ses (length ns)"] Cons show ?case by simp
qed

lemma reads_poc: "(case d of Poc_1 _ _ _ ns \<Rightarrow> length ns < 256 | _ \<Rightarrow> True) \<Longrightarrow> reads sps_read_poc (poc_bits d) ()"
proof (cases d)
  case (Poc_0 n)
  have "reads (br_read_ue \<bind> (\<lambda>_. State_Monad.return ())) (ue n @ []) ()" by (rule reads_bind[OF reads_ue reads_return])
  then show ?thesis using Poc_0 unfolding sps_read_poc_def by (auto intro: reads_bind[OF reads_ue])
next
  case (Poc_1 b m n ns)
  assume "case d of Poc_1 _ _ _ ns \<Rightarrow> length ns < 256 | _ \<Rightarrow> True"
  with Poc_1 have l: "nat (sint (of_nat (length ns) :: u32)) = length ns" by (simp add: sint_small)
  from reads_se obtain v w where v: "reads br_read_se (ue m) v" and w: "reads br_read_se (ue n) w" by blast
  have "reads (do { _ \<leftarrow> br_read_bit; _ \<leftarrow> br_read_se; _ \<leftarrow> br_read_se; cnt \<leftarrow> br_read_ue; skip_ses (nat (sint cnt)) })
    ([b] @ ue m @ ue n @ ue (length ns) @ concat (map ue ns)) ()"
    by (rule reads_bind[OF reads_bit] reads_bind[OF v] reads_bind[OF w] reads_bind[OF reads_ue])+ (simp add: l reads_ses)
  then show ?thesis using Poc_1 unfolding sps_read_poc_def by (auto intro: reads_bind[OF reads_ue])
next
  case Poc_2
  have "reads sps_read_poc (ue 2 @ []) ()"
    unfolding sps_read_poc_def by (rule reads_bind[OF reads_ue]) (simp add: reads_return)
  then show ?thesis by (simp add: Poc_2)
qed

lemma reads_chroma:
  assumes "d_chroma d \<le> 3" "\<not> sps_high d \<longrightarrow> d_chroma d = 1"
  shows "reads (sps_read_chroma (of_nat (d_profile d))) (chroma_bits d) (int (d_chroma d))"
proof (cases "sps_high d")
  case False
  then show ?thesis using assms(2) by (simp add: sps_read_chroma_def chroma_bits_def sps_high_def reads_return)
next
  case True
  have s: "sint (of_nat (d_chroma d) :: u32) = int (d_chroma d)" using assms(1) by (simp add: sint_small)
  have pl: "reads (if int (d_chroma d) = 3 then br_read_bit else State_Monad.return 0)
    (if d_chroma d = 3 then [d_planes d] else []) (if d_chroma d = 3 then of_bool (d_planes d) else 0)"
    by (simp add: reads_bit reads_return)
  have "reads (sps_read_chroma (of_nat (d_profile d)))
    (ue (d_chroma d) @ (if d_chroma d = 3 then [d_planes d] else []) @ ue (fst (d_depths d)) @ ue (snd (d_depths d))
      @ [d_bypass d] @ [False] @ [] @ []) (int (d_chroma d))"
    using True unfolding sps_read_chroma_def sps_high_def Let_def if_P
    apply (simp only: if_True)
    apply (rule reads_bind[OF reads_ue])
    apply (simp only: s)
    apply (rule reads_bind[OF pl] reads_bind[OF reads_bit] reads_bind[OF reads_ue])+
    apply (rule reads_bind)
     apply (simp add: reads_return)
    apply (rule reads_return)
    done
  then show ?thesis using True by (simp add: chroma_bits_def)
qed

lemma reads_crop:
  "reads sps_read_crop (crop_bits d) (case crop_of d of (l, r, t, b) \<Rightarrow>
     (sint (of_nat l :: u32), sint (of_nat r :: u32), sint (of_nat t :: u32), sint (of_nat b :: u32)))"
proof (cases "d_crop d")
  case None
  have "reads sps_read_crop ([False] @ []) (0, 0, 0, 0)"
    unfolding sps_read_crop_def by (rule reads_bind[OF reads_bit]) (simp add: reads_return)
  with None show ?thesis by (simp add: crop_bits_def crop_of_def)
next
  case (Some c)
  obtain l r t b where c: "c = (l, r, t, b)" by (metis prod_cases4)
  have "reads (do { l \<leftarrow> br_read_ue; r \<leftarrow> br_read_ue; t \<leftarrow> br_read_ue; b \<leftarrow> br_read_ue;
      State_Monad.return (sint l, sint r, sint t, sint b) }) (ue l @ ue r @ ue t @ ue b @ [])
      (sint (of_nat l :: u32), sint (of_nat r :: u32), sint (of_nat t :: u32), sint (of_nat b :: u32))"
    by (rule reads_bind[OF reads_ue] reads_return)+
  then have "reads sps_read_crop ([True] @ ue l @ ue r @ ue t @ ue b)
      (sint (of_nat l :: u32), sint (of_nat r :: u32), sint (of_nat t :: u32), sint (of_nat b :: u32))"
    unfolding sps_read_crop_def by (intro reads_bind[OF reads_bit]) simp
  with Some c show ?thesis by (simp add: crop_bits_def crop_of_def)
qed

lemma reads_size:
  assumes "sps_wf d"
  shows "reads sps_read_size (sps_bits d) (std_width d, std_height d)"
proof -
  obtain l r t b where c: "crop_of d = (l, r, t, b)" by (metis prod_cases4)
  let ?fmo = "of_bool (d_fmo d) :: int"
  have small: "l < 2 ^ 20" "r < 2 ^ 20" "t < 2 ^ 20" "b < 2 ^ 20" "d_w d < 2 ^ 16" "d_h d < 2 ^ 16"
    using assms by (auto simp: sps_wf_def c)
  then have si: "sint (of_nat l :: u32) = int l" "sint (of_nat r :: u32) = int r" "sint (of_nat t :: u32) = int t"
    "sint (of_nat b :: u32) = int b" "sint (of_nat (d_w d) :: u32) = int (d_w d)" "sint (of_nat (d_h d) :: u32) = int (d_h d)"
    by (auto intro!: sint_small)
  have pr: "of_nat (take_bit 8 (d_profile d)) = (of_nat (d_profile d) :: u32)"
    using assms by (simp add: sps_wf_def take_bit_nat_eq_self)
  have mb: "reads (if uint (of_bool (d_fmo d) :: u32) = 0 then br_read_bit else State_Monad.return 0)
      (if d_fmo d then [] else [d_mbaff d]) (if d_fmo d then 0 else of_bool (d_mbaff d))"
    by (simp add: reads_bit reads_return)
  let ?W = "(int (d_w d) + 1) * 16 - (int l + int r) * crop_unit_x (int (d_chroma d))"
  let ?H = "(2 - ?fmo) * (int (d_h d) + 1) * 16 - (int t + int b) * crop_unit_y (int (d_chroma d)) ?fmo"
  have e: "?W = std_width d" "?H = std_height d"
    by (auto simp: std_width_def std_height_def c crop_unit_x_def crop_unit_y_def)
  have "?W \<le> (int (d_w d) + 1) * 16" "?H \<le> 2 * (int (d_h d) + 1) * 16"
    by (auto simp: crop_unit_x_def crop_unit_y_def)
  with e small(5,6) assms have "0 < ?W" "0 < ?H" "?W < 2 ^ 31" "?H < 2 ^ 31" by (auto simp: sps_wf_def)
  then have w: "i32 ?W = std_width d" "i32 ?H = std_height d" using i32_id[of ?W] i32_id[of ?H] e by auto
  have "reads sps_read_size (sps_bits d @ []) (std_width d, std_height d)"
    unfolding sps_read_size_def sps_bits_def append_assoc Let_def
    apply (rule reads_bind[OF reads_bits])
    apply (rule reads_bind[OF reads_bits] reads_bind[OF reads_ue])+
    apply (unfold pr)
    apply (rule reads_bind[OF reads_chroma])
    using assms
      apply (simp_all add: sps_wf_def)[2]
    apply (rule reads_bind[OF reads_ue])
    apply (rule reads_bind[OF reads_poc])
    using assms
     apply (simp add: sps_wf_def)
    apply (rule reads_bind[OF reads_ue] reads_bind[OF reads_bit])+
    apply (rule reads_bind[OF mb])
    apply (rule reads_bind[OF reads_bit])
    apply (rule reads_bind[OF reads_crop])
    apply (simp only: c prod.case si uint_bit w reads_return)
    done
  then show ?thesis by simp
qed

section \<open>Emulation prevention\<close>

text \<open>What an encoder does: a 3 before a byte of at most 3 that follows two zero bytes.\<close>

fun nal_escape :: "nat \<Rightarrow> bytes \<Rightarrow> bytes" where
  "nal_escape z [] = []"
| "nal_escape z (x # xs) =
     (if z = 2 \<and> x \<le> 3 then 3 # x # nal_escape (if x = 0 then 1 else 0) xs
      else x # nal_escape (if x = 0 then z + 1 else 0) xs)"

lemma unescape_nonzero: "a \<noteq> 0 \<Longrightarrow> 0 < cap \<Longrightarrow> rbsp_unescape (a # r) cap = a # rbsp_unescape r (cap - 1)"
  by (cases r; cases "tl r"; cases cap) auto

lemma unescape_one: "b \<noteq> 0 \<Longrightarrow> 0 < cap \<Longrightarrow> rbsp_unescape (0 # b # r) cap = 0 # rbsp_unescape (b # r) (cap - 1)"
  by (cases r; cases cap) auto

lemma unescape_two: "b \<noteq> 3 \<Longrightarrow> 0 < cap \<Longrightarrow> rbsp_unescape (0 # 0 # b # r) cap = 0 # rbsp_unescape (0 # b # r) (cap - 1)"
  by simp

lemma unescape_escape:
  "z \<le> 2 \<Longrightarrow> z + length xs \<le> cap \<Longrightarrow> rbsp_unescape (replicate z 0 @ nal_escape z xs) cap = replicate z 0 @ xs"
proof (induction xs arbitrary: z cap)
  case Nil
  then consider "z = 0" | "z = 1" | "z = 2" by linarith
  then have "rbsp_unescape (replicate z 0) cap = take cap (replicate z 0)"
    by cases (simp_all add: numeral_2_eq_2)
  with Nil show ?case by simp
next
  case (Cons x xs)
  consider "z = 2" "x \<le> 3" | "z = 2" "\<not> x \<le> 3" | "z = 0" | "z = 1" using Cons.prems(1) by linarith
  then show ?case
  proof cases
    case 1
    have "rbsp_unescape (x # nal_escape (if x = 0 then 1 else 0) xs) (cap - 2) = x # xs"
    proof (cases "x = 0")
      case True
      with Cons.IH[of 1 "cap - 2"] Cons.prems 1 show ?thesis by simp
    next
      case False
      with Cons.IH[of 0 "cap - 3"] Cons.prems 1 unescape_nonzero[OF False, of "cap - 2"] show ?thesis
        by (simp add: numeral_eq_Suc)
    qed
    with 1 Cons.prems show ?thesis by (simp add: numeral_2_eq_2)
  next
    case 2
    then have x: "x \<noteq> 0" "x \<noteq> 3" by auto
    from Cons.IH[of 0 "cap - 3"] Cons.prems 2 x have "rbsp_unescape (nal_escape 0 xs) (cap - 3) = xs" by simp
    with 2 x Cons.prems show ?thesis
      using unescape_two[OF x(2), of cap] unescape_one[OF x(1), of "cap - 1"] unescape_nonzero[OF x(1), of "cap - 2"]
      by (simp add: numeral_eq_Suc)
  next
    case 3
    show ?thesis
    proof (cases "x = 0")
      case True
      with Cons.IH[of 1 cap] Cons.prems 3 show ?thesis by simp
    next
      case False
      with Cons.IH[of 0 "cap - 1"] Cons.prems 3 unescape_nonzero[OF False, of cap] show ?thesis by simp
    qed
  next
    case 4
    show ?thesis
    proof (cases "x = 0")
      case True
      with Cons.IH[of 2 cap] Cons.prems 4 show ?thesis by (simp add: numeral_2_eq_2)
    next
      case False
      with Cons.IH[of 0 "cap - 2"] Cons.prems 4 unescape_one[OF False, of cap] unescape_nonzero[OF False, of "cap - 1"]
      show ?thesis by (simp add: numeral_eq_Suc)
    qed
  qed
qed

text \<open>
  C40: The size of a picture is read as the standard defines it: from any parameter set without
  scaling lists, whatever follows the size, with the emulation prevention bytes of the encoder.
\<close>

theorem sps_size_read:
  assumes "sps_wf d" "nal_bits rbsp = sps_bits d @ rest" "length rbsp \<le> 512" "hdr AND 0x1F = 7"
  shows "\<exists>info. zms_h264_sps_parse fps (hdr # nal_escape 0 rbsp) = Some info
    \<and> sps_width info = std_width d \<and> sps_height info = std_height d"
proof -
  have l: "length (be_bits n m) = n" for n m by (simp add: be_bits_def)
  have "24 \<le> length (sps_bits d)" by (simp add: sps_bits_def l)
  then have "24 \<le> 8 * length rbsp" using arg_cong[OF assms(2), of length] by simp
  then have n3: "3 \<le> length rbsp" by simp
  have "length xs \<le> length (nal_escape z xs)" for z xs by (induction xs arbitrary: z) (auto intro: le_SucI)
  from this[of rbsp 0] n3 have n4: "3 \<le> length (nal_escape 0 rbsp)" by linarith
  have u: "rbsp_unescape (nal_escape 0 rbsp) 512 = rbsp" using unescape_escape[of 0 rbsp 512] assms(3) by simp
  have "run_state sps_read_size \<lparr>br_buf = rbsp, br_bit_pos = 0\<rparr>
      = ((std_width d, std_height d), \<lparr>br_buf = rbsp, br_bit_pos = length (sps_bits d)\<rparr>)"
    using reads_size[OF assms(1)] assms(2) by (simp add: reads_def)
  moreover have "0 < std_width d" "0 < std_height d" using assms(1) by (simp_all add: sps_wf_def)
  ultimately show ?thesis using n3 n4 u assms(4)
    by (auto simp: zms_h264_sps_parse_def sps_read_def Let_def split: prod.splits)
qed

definition ex_sps :: sps_desc where
  "ex_sps = \<lparr>d_profile = 66, d_flags = 0, d_level = 31, d_id = 0, d_chroma = 1, d_planes = False, d_depths = (0, 0),
     d_bypass = False, d_frame_num = 0, d_poc = Poc_2, d_refs = 1, d_gaps = False, d_w = 19, d_h = 14, d_fmo = True,
     d_mbaff = False, d_8x8 = True, d_crop = None\<rparr>"

lemma sps_size_read_witness:
  "\<exists>info. zms_h264_sps_parse (\<lambda>_ _. 0) [0x67, 66, 0, 31, 0xDA, 0x05, 0x07, 0xE8] = Some info
    \<and> sps_width info = 320 \<and> sps_height info = 240"
proof -
  have w: "sps_wf ex_sps"
    by (simp add: sps_wf_def ex_sps_def sps_high_def sps_high_profiles_def crop_of_def std_width_def std_height_def)
  have b: "nal_bits [66, 0, 31, 0xDA, 0x05, 0x07, 0xE8] = sps_bits ex_sps @ [True, False, False, False]"
    by code_simp
  show ?thesis using sps_size_read[OF w b, where hdr = "0x67" and fps = "\<lambda>_ _. 0"]
    by (simp add: std_width_def std_height_def crop_of_def ex_sps_def)
qed

lemma unescape_none: "rbsp_unescape r 0 = []"
  by (induction r "0 :: nat" rule: rbsp_unescape.induct) auto

text \<open>
  The unescaping may write one byte more than its buffer holds: a round writes two bytes after
  it has made room for one. A parameter set whose 512th byte comes from an escaped pair of zeros
  does it, and the parser then goes on with 513 bytes of an array of 512.
\<close>

theorem sps_unescape_overflow:
  "length (rbsp_unescape s cap) \<le> cap + 1
    \<and> length (rbsp_unescape (replicate n 1 @ [0, 0, 3] @ r) (n + 1)) = n + 2"
proof
  show "length (rbsp_unescape s cap) \<le> cap + 1"
  proof (induction s cap rule: rbsp_unescape.induct)
    case (1 a b c r cap)
    then show ?case using unescape_none[of r] by (cases "cap = 1") (auto split: if_splits)
  qed auto
  show "length (rbsp_unescape (replicate n 1 @ [0, 0, 3] @ r) (n + 1)) = n + 2"
  proof (induction n)
    case 0
    then show ?case by (cases r; cases "tl r"; cases "tl (tl r)") auto
  next
    case (Suc n)
    then show ?case using unescape_nonzero[of 1 "Suc n + 1" "replicate n 1 @ [0, 0, 3] @ r"] by simp
  qed
qed

text \<open>
  The usability information is not read in the order of the standard (three bytes for the aspect
  ratio, four Exp-Golomb codes before the timing): of a parameter set of 320 by 240 whose usability
  information is just the timing, 1 unit of 50 in 32 bits each, so 25 frames a second, the reader takes
  the timing for Exp-Golomb codes and reports no rate.
\<close>

theorem sps_rate_misread:
  "zms_h264_sps_parse fps (0x67 # nal_escape 0 [66, 0, 31, 218, 5, 7, 232, 64, 0, 0, 0, 64, 0, 0, 12, 161])
     = Some \<lparr>sps_width = 320, sps_height = 240, sps_fps = 0\<rparr>
   \<and> nal_bits [66, 0, 31, 218, 5, 7, 232, 64, 0, 0, 0, 64, 0, 0, 12, 161]
     = sps_bits ex_sps @ [True] @ [False, False, False, False] @ [True]
       @ (replicate 31 False @ [True]) @ (replicate 26 False @ [True, True, False, False, True, False]) @ [True]
       @ [False, False, False, False] @ [True]"
  by (intro conjI; code_simp)

end
