(* ===== verification/Aac_Config.thy ===== *)
theory Aac_Config
  imports C_String
begin

text \<open>
  The AAC configuration as bytes, hex text and FLV tags, \<open>media/codec/aac/aac_over_rtmp.c\<close> and
  \<open>util/hex_decode.c\<close>: an ADTS header and the two bytes of a configuration are read for their
  sample rate and channels, and a configuration is written from them. Pointers into a tag are
  the bytes behind them.
\<close>

section \<open>Hex text\<close>

definition hex_val :: "u8 \<Rightarrow> u8 option" where
  "hex_val c =
     (if 48 \<le> c \<and> c \<le> 57 then Some (c - 48)
      else if 97 \<le> c \<and> c \<le> 102 then Some (c - 97 + 10)
      else if 65 \<le> c \<and> c \<le> 70 then Some (c - 65 + 10)
      else None)"

text \<open>The loop: \<open>hi\<close> is the digit that waits for its second, \<open>out\<close> what has been written.\<close>

fun hex_loop :: "nat \<Rightarrow> u8 option \<Rightarrow> bytes \<Rightarrow> bytes \<Rightarrow> ztk_err \<times> bytes" where
  "hex_loop cap hi out [] = (ZTK_OK, out)"
| "hex_loop cap hi out (c # s) =
     (if isspace c then hex_loop cap hi out s
      else case hex_val c of
        None \<Rightarrow> hex_loop cap hi out s
      | Some v \<Rightarrow>
          (case hi of
             None \<Rightarrow> hex_loop cap (Some v) out s
           | Some h \<Rightarrow> if length out \<ge> cap then (ZTK_ERR_BUFFER_TOO_SMALL, out)
                       else hex_loop cap None (out @ [push_bit 4 h OR v]) s))"

definition zms_hex_decode :: "bytes \<Rightarrow> nat \<Rightarrow> ztk_err \<times> bytes" where
  "zms_hex_decode hex cap = hex_loop cap None [] hex"

definition hex_digit :: "u8 \<Rightarrow> u8" where
  "hex_digit v = (if v < 10 then v + 48 else v - 10 + 97)"

definition hex2 :: "u8 \<Rightarrow> bytes" where
  "hex2 b = [hex_digit (drop_bit 4 b), hex_digit (b AND 15)]"

section \<open>Configurations\<close>

definition k_aac_rates :: "int list" where
  "k_aac_rates = [96000, 88200, 64000, 48000, 44100, 32000, 24000, 22050, 16000, 12000, 11025, 8000, 7350]"

definition aac_rate_index :: "int \<Rightarrow> nat" where
  "aac_rate_index rate =
     (let n = length (takeWhile (\<lambda>r. r \<noteq> rate) k_aac_rates) in if n < length k_aac_rates then n else 4)"

definition zms_aac_build_config_hex :: "int \<Rightarrow> int \<Rightarrow> nat \<Rightarrow> bytes option" where
  "zms_aac_build_config_hex sample_rate channels cap =
     (if cap < 5 then None
      else let rate = (if sample_rate \<le> 0 then 44100 else sample_rate);
               ch = (if channels \<le> 0 then 2 else channels);
               idx = aac_rate_index rate
           in Some (hex2 (16 OR drop_bit 1 (of_nat idx)) @ hex2 (push_bit 7 (of_nat idx AND 1) OR push_bit 3 (word_of_int ch))))"

definition aac_rate_at :: "nat \<Rightarrow> nat \<Rightarrow> (int \<times> int) option" where
  "aac_rate_at idx ch =
     (if idx \<ge> length k_aac_rates then None else if ch = 0 \<or> ch > 7 then None else Some (k_aac_rates ! idx, int ch))"

definition zms_aac_adts_parse :: "bytes \<Rightarrow> (int \<times> int) option" where
  "zms_aac_adts_parse adts =
     (if length adts < 7 \<or> adts ! 0 \<noteq> 0xFF \<or> adts ! 1 AND 0xF0 \<noteq> 0xF0 then None
      else aac_rate_at (unat (drop_bit 2 (adts ! 2 AND 0x3C)))
             (unat (push_bit 2 (adts ! 2 AND 1) OR drop_bit 6 (adts ! 3 AND 0xC0))))"

definition zms_aac_parse_asc :: "bytes \<Rightarrow> (int \<times> int) option" where
  "zms_aac_parse_asc a =
     (if length a < 2 then None
      else aac_rate_at (unat (push_bit 1 (a ! 0 AND 7) OR (drop_bit 7 (a ! 1) AND 1)))
             (unat (drop_bit 3 (a ! 1) AND 0x0F)))"

definition zms_rtmp_aac_seq_header :: "bytes \<Rightarrow> nat \<Rightarrow> ztk_err \<times> bytes" where
  "zms_rtmp_aac_seq_header cfg cap =
     (if cfg = [] \<or> cap < 2 + length cfg then (ZTK_ERR_INVALID, []) else (ZTK_OK, [0xAF, 0] @ cfg))"

definition zms_rtmp_aac_frame :: "bytes \<Rightarrow> nat \<Rightarrow> ztk_err \<times> bytes" where
  "zms_rtmp_aac_frame aac cap =
     (if aac = [] \<or> cap < 2 + length aac then (ZTK_ERR_INVALID, []) else (ZTK_OK, [0xAF, 1] @ aac))"

section \<open>Written and read\<close>

lemma hex_digit_val: "v < 16 \<Longrightarrow> \<not> isspace (hex_digit v) \<and> hex_val (hex_digit v) = Some v"
proof -
  assume "v < 16"
  then have "unat v \<in> set [0..<16]" by (simp add: word_less_nat_alt)
  moreover have "\<forall>n \<in> set [0..<16]. \<not> isspace (hex_digit (of_nat n)) \<and> hex_val (hex_digit (of_nat n)) = Some (of_nat n)"
    by code_simp
  ultimately have "\<not> isspace (hex_digit (of_nat (unat v))) \<and> hex_val (hex_digit (of_nat (unat v))) = Some (of_nat (unat v))" by blast
  then show ?thesis by simp
qed

lemma hex2_val: "hex_loop cap None out (hex2 b @ s) =
    (if length out \<ge> cap then (ZTK_ERR_BUFFER_TOO_SMALL, out) else hex_loop cap None (out @ [b]) s)"
proof -
  have "unat b < 256" using unsigned_less[of b] by simp
  then have "unat (drop_bit 4 b) < 16" unfolding unat_drop_bit_eq by (simp add: drop_bit_eq_div)
  moreover have "unat (b AND 15) \<le> 15" using word_and_le1[of b 15] by (simp add: word_le_nat_alt)
  ultimately have h: "drop_bit 4 b < 16" "b AND 15 < 16" by (simp_all add: word_less_nat_alt)
  have m: "b AND 15 = take_bit 4 b" by (simp add: take_bit_eq_mask mask_eq_exp_minus_1)
  have "push_bit 4 (drop_bit 4 b) OR take_bit 4 b = b"
  proof (rule bit_word_eqI)
    fix n assume "n < LENGTH(8)"
    then show "bit (push_bit 4 (drop_bit 4 b) OR take_bit 4 b) n = bit b n"
      by (cases "4 \<le> n") (simp_all only: bit_or_iff bit_push_bit_iff bit_drop_bit_eq bit_take_bit_iff o_def, auto)
  qed
  then have "push_bit 4 (drop_bit 4 b) OR (b AND 15) = b" by (simp only: m)
  with hex_digit_val[OF h(1)] hex_digit_val[OF h(2)] show ?thesis by (simp add: hex2_def)
qed

lemma hex_decode_hex2: "length out + length bs \<le> cap \<Longrightarrow>
    hex_loop cap None out (concat (map hex2 bs)) = (ZTK_OK, out @ bs)"
  by (induction bs arbitrary: out) (auto simp: hex2_val)

text \<open>
  The configuration written for a sample rate of the table and 1 to 7 channels comes back: its hex
  text decodes to two bytes, which name the rate and the channels, in a buffer of any size that
  holds them.
\<close>

theorem aac_config_roundtrip:
  assumes "rate \<in> set k_aac_rates" "1 \<le> ch" "ch \<le> 7" "5 \<le> hcap" "2 \<le> cap"
  shows "\<exists>hex cfg. zms_aac_build_config_hex rate ch hcap = Some hex \<and> length hex = 4
    \<and> zms_hex_decode hex cap = (ZTK_OK, cfg) \<and> zms_aac_parse_asc cfg = Some (rate, ch)"
proof -
  have "ch = int (nat ch)" "1 \<le> nat ch" "nat ch < 8" using assms(2,3) by auto
  then obtain n where ch: "ch = int n" "n \<in> set [1..<8]" by (metis atLeastLessThan_iff set_upt)
  let ?b = "16 OR drop_bit 1 (of_nat (aac_rate_index rate)) :: u8"
  let ?c = "push_bit 7 (of_nat (aac_rate_index rate) AND 1) OR push_bit 3 (of_nat n) :: u8"
  have "\<forall>r \<in> set k_aac_rates. \<forall>n \<in> set [1..<8]. zms_aac_parse_asc
      [16 OR drop_bit 1 (of_nat (aac_rate_index r)), push_bit 7 (of_nat (aac_rate_index r) AND 1) OR push_bit 3 (of_nat n)]
      = Some (r, int n) \<and> 0 < r" by code_simp
  with assms(1) ch(2) have p: "zms_aac_parse_asc [?b, ?c] = Some (rate, ch)" "0 < rate" unfolding ch(1) by blast+
  have "zms_hex_decode (hex2 ?b @ hex2 ?c) cap = (ZTK_OK, [?b, ?c])"
    using hex_decode_hex2[of "[]" "[?b, ?c]" cap] assms(5) by (simp add: zms_hex_decode_def)
  moreover have "zms_aac_build_config_hex rate ch hcap = Some (hex2 ?b @ hex2 ?c)"
    using p(2) assms(2,4) ch(1) by (simp add: zms_aac_build_config_hex_def Let_def)
  ultimately show ?thesis using p(1) by (auto simp: hex2_def)
qed

lemma aac_config_roundtrip_witness:
  "\<exists>hex cfg. zms_aac_build_config_hex 48000 2 16 = Some hex \<and> length hex = 4
    \<and> zms_hex_decode hex 16 = (ZTK_OK, cfg) \<and> zms_aac_parse_asc cfg = Some (48000, 2)"
  by (rule aac_config_roundtrip) (simp_all add: k_aac_rates_def)

end
