(* ===== verification/Stream_Track.thy ===== *)
theory Stream_Track
  imports H264_Sps Aac_Config
begin

text \<open>
  What a stream tells about its tracks, \<open>engine/stream_track.c\<close>: codec, picture size, frame rate,
  sample rate, channels, filled in from codec configurations. Of the two tests on picture sizes
  the second keeps a placeholder of a camera from replacing a real size.
\<close>

record zms_video_track =
  vt_codec :: zms_codec_id
  vt_width :: int
  vt_height :: int
  vt_fps :: f32
  vt_profile_level_id :: bytes
  vt_ready :: bool

record zms_audio_track =
  at_codec :: zms_codec_id
  at_sample_rate :: int
  at_channels :: int
  at_asc_hex :: bytes
  at_ready :: bool

definition zms_video_track_clear :: zms_video_track where
  "zms_video_track_clear = \<lparr>vt_codec = ZMS_CODEC_INVALID, vt_width = 0, vt_height = 0, vt_fps = 0,
     vt_profile_level_id = [], vt_ready = False\<rparr>"

definition zms_audio_track_clear :: zms_audio_track where
  "zms_audio_track_clear = \<lparr>at_codec = ZMS_CODEC_INVALID, at_sample_rate = 0, at_channels = 0, at_asc_hex = [], at_ready = False\<rparr>"

definition zms_video_size_is_suspicious :: "u32 \<Rightarrow> u32 \<Rightarrow> bool" where
  "zms_video_size_is_suspicious w h = (if w = 0 \<or> h = 0 then True else w < 320 \<or> h < 240)"

definition zms_video_size_should_replace :: "u32 \<Rightarrow> u32 \<Rightarrow> u32 \<Rightarrow> u32 \<Rightarrow> bool" where
  "zms_video_size_should_replace cur_w cur_h new_w new_h =
     (if new_w = 0 \<or> new_h = 0 then False
      else if cur_w = new_w \<and> cur_h = new_h then False
      else if cur_w = 0 \<or> cur_h = 0 then True
      else if \<not> zms_video_size_is_suspicious cur_w cur_h \<and> zms_video_size_is_suspicious new_w new_h then False
      else True)"

text \<open>\<open>asc_hex\<close> has room for 64 bytes; the loop stops when fewer than four are left.\<close>

definition zms_audio_track_from_asc :: "zms_audio_track \<Rightarrow> bytes \<Rightarrow> ztk_err \<times> zms_audio_track" where
  "zms_audio_track_from_asc t cfg =
     (if cfg = [] then (ZTK_ERR_INVALID, t)
      else let (rate, ch) = (case zms_aac_parse_asc cfg of Some p \<Rightarrow> p | None \<Rightarrow> (44100, 2))
           in (ZTK_OK, \<lparr>at_codec = ZMS_CODEC_AAC, at_sample_rate = rate, at_channels = ch,
                 at_asc_hex = concat (map hex2 (take 31 cfg)), at_ready = True\<rparr>))"

definition zms_audio_track_from_g711 :: "zms_audio_track \<Rightarrow> zms_codec_id \<Rightarrow> int \<Rightarrow> int \<Rightarrow> ztk_err \<times> zms_audio_track" where
  "zms_audio_track_from_g711 t codec rate ch =
     (if codec \<noteq> ZMS_CODEC_G711A \<and> codec \<noteq> ZMS_CODEC_G711U then (ZTK_ERR_INVALID, t)
      else (ZTK_OK, zms_audio_track_clear\<lparr>at_codec := codec, at_sample_rate := (if rate > 0 then rate else 8000),
              at_channels := (if ch > 0 then ch else 1), at_ready := True\<rparr>))"

text \<open>
  A size that is taken over settles: the second look at the same parameter set changes nothing,
  and a real size, once known, is only ever replaced by a real one.
\<close>

theorem size_replacement_settles:
  "\<not> zms_video_size_should_replace w h w h
   \<and> (zms_video_size_should_replace cur_w cur_h w h \<and> \<not> zms_video_size_is_suspicious cur_w cur_h
      \<longrightarrow> \<not> zms_video_size_is_suspicious w h)
   \<and> (w \<noteq> 0 \<and> h \<noteq> 0 \<and> \<not> zms_video_size_is_suspicious w h \<and> (w, h) \<noteq> (cur_w, cur_h)
      \<longrightarrow> zms_video_size_should_replace cur_w cur_h w h)"
  by (auto simp: zms_video_size_should_replace_def zms_video_size_is_suspicious_def)

end
