(* ===== verification/Stream_Hub.thy ===== *)
theory Stream_Hub
  imports Stream_Stats Vod_Buffer Gop_Seek Stream_Track
begin

text \<open>
  The registry of streams, \<open>engine/stream/stream_hub.c\<close>, with the publish and reader events of
  \<open>engine/media_event.c\<close> and the stop of an on-demand source (\<open>vod/io/vod_source.c\<close>): a list of
  sources, newest first, that publishers register in, players look up and subscribe to, and the
  API closes. A source pointer is the number of its node. Each operation holds the registry
  lock as in the code and is one step here. What it calls outside (the kick of a publisher, the
  callbacks of the server, the recorder) is returned as a list of calls, in order; a kick is
  taken to close a connection, and what the owner of the connection does then are further
  operations. The memory the segmenters hang on a node is
  left out.
\<close>

definition ZMS_SCHEMA_MAX :: nat where "ZMS_SCHEMA_MAX = 16"
definition ZMS_APP_MAX :: nat where "ZMS_APP_MAX = 64"
definition ZMS_STREAM_MAX :: nat where "ZMS_STREAM_MAX = 128"
definition ZMS_ORIGIN_MP4_VOD :: nat where "ZMS_ORIGIN_MP4_VOD = 16"

definition ZMS_SCHEMA_RTMP :: bytes where "ZMS_SCHEMA_RTMP = asc ''rtmp''"
definition ZMS_SCHEMA_RTSP :: bytes where "ZMS_SCHEMA_RTSP = asc ''rtsp''"
definition ZMS_SCHEMA_SRT :: bytes where "ZMS_SCHEMA_SRT = asc ''srt''"
definition ZMS_SCHEMA_RTP_PS :: bytes where "ZMS_SCHEMA_RTP_PS = asc ''rtp-ps''"

lemmas schemas = ZMS_SCHEMA_RTMP_def ZMS_SCHEMA_RTSP_def ZMS_SCHEMA_SRT_def ZMS_SCHEMA_RTP_PS_def
lemmas hub_sizes = ZMS_SCHEMA_MAX_def ZMS_APP_MAX_def ZMS_STREAM_MAX_def

record 'b zms_media_source =
  ms_id :: nat
  ms_schema :: bytes
  ms_app :: bytes
  ms_stream :: bytes
  ms_stream_requested :: bytes
  ms_gop_queue :: "'b zms_gop_queue option"
  ms_vod_buffer :: "zms_vod_buffer option"
  ms_has_video :: bool
  ms_has_audio :: bool
  ms_video :: zms_video_track
  ms_audio :: zms_audio_track
  ms_reader_count :: int
  ms_publishing :: bool
  ms_publish_origin :: nat
  ms_create_stamp_ms :: nat
  ms_stats :: zms_media_stream_stats
  ms_publisher_ctx :: "nat option"
  ms_publisher_kick :: "nat option"

record 'b stream_hub =
  hb_sources :: "'b zms_media_source list"
  hb_next :: nat

datatype 'b hub_call =
    Publisher_Kick nat "nat option" bool
  | Mp4_Recorder_Stop nat
  | On_Media_Publish nat nat
  | On_Media_Publish_Fini nat nat
  | On_Reader_Changed nat int
  | Vod_Reader_Close nat
  | Gop_Queue_Destroy "'b ztk_call list"

text \<open>What an operation meets: whether memory is there, the clock, the settings of new rings.\<close>

record hub_env =
  he_node_ok :: bool
  he_buf_ok :: bool
  he_now :: nat
  he_gop :: gop_defaults

definition stream_hub_init :: "'b stream_hub" where
  "stream_hub_init = \<lparr>hb_sources = [], hb_next = 0\<rparr>"

definition hub_get :: "'b stream_hub \<Rightarrow> nat \<Rightarrow> 'b zms_media_source option" where
  "hub_get h i = find (\<lambda>s. ms_id s = i) (hb_sources h)"

definition hub_upd :: "'b stream_hub \<Rightarrow> nat \<Rightarrow> ('b zms_media_source \<Rightarrow> 'b zms_media_source) \<Rightarrow> 'b stream_hub" where
  "hub_upd h i f = h\<lparr>hb_sources := map (\<lambda>s. if ms_id s = i then f s else s) (hb_sources h)\<rparr>"

definition source_active :: "'b zms_media_source \<Rightarrow> bool" where
  "source_active s \<longleftrightarrow> ms_gop_queue s \<noteq> None \<or> ms_vod_buffer s \<noteq> None"

text \<open>A new node at the head of the list, and the node of a source taken out.\<close>

definition source_node_alloc :: "'b stream_hub \<Rightarrow> 'b zms_media_source \<times> 'b stream_hub" where
  "source_node_alloc h =
     (let s = \<lparr>ms_id = hb_next h, ms_schema = [], ms_app = [], ms_stream = [], ms_stream_requested = [],
                ms_gop_queue = None, ms_vod_buffer = None, ms_has_video = False, ms_has_audio = False,
                ms_video = zms_video_track_clear, ms_audio = zms_audio_track_clear, ms_reader_count = 0,
                ms_publishing = False, ms_publish_origin = 0, ms_create_stamp_ms = 0,
                ms_stats = zms_media_stats_reset, ms_publisher_ctx = None, ms_publisher_kick = None\<rparr>
      in (s, h\<lparr>hb_sources := s # hb_sources h, hb_next := hb_next h + 1\<rparr>))"

fun source_node_free :: "nat \<Rightarrow> 'b zms_media_source list \<Rightarrow> 'b zms_media_source list" where
  "source_node_free i [] = []"
| "source_node_free i (s # ss) = (if ms_id s = i then ss else s # source_node_free i ss)"

definition registry_count_active :: "'b stream_hub \<Rightarrow> nat" where
  "registry_count_active h = length (filter source_active (hb_sources h))"

definition registry_count_live :: "'b stream_hub \<Rightarrow> nat" where
  "registry_count_live h = length (filter (\<lambda>s. ms_gop_queue s \<noteq> None) (hb_sources h))"

definition zms_media_source_count :: "'b stream_hub \<Rightarrow> nat" where
  "zms_media_source_count h = registry_count_active h"

section \<open>Splitting a path\<close>

definition strip_query :: "bytes \<Rightarrow> bytes" where
  "strip_query s = takeWhile (\<lambda>c. c \<noteq> 35) (takeWhile (\<lambda>c. c \<noteq> 63) s)"

text \<open>\<open>None\<close> is the early return that leaves both names empty.\<close>

definition path_start :: "bytes \<Rightarrow> bytes option" where
  "path_start p =
     (case strstr p (asc ''://'') of
        Some k \<Rightarrow>
          (let seg = drop (k + 3) p;
               seg1 = (case find_char seg 64 of Some n \<Rightarrow> drop (n + 1) seg | None \<Rightarrow> seg)
           in case find_char seg1 47 of
                None \<Rightarrow> None
              | Some n \<Rightarrow> if drop (n + 1) seg1 = [] then None else Some (drop (n + 1) seg1))
      | None \<Rightarrow> if p ! 0 = 47 then Some (drop 1 p) else Some p)"

definition zms_media_split_path :: "bytes \<Rightarrow> bytes \<times> bytes" where
  "zms_media_split_path p =
     (if p = [] then ([], [])
      else case path_start p of
        None \<Rightarrow> ([], [])
      | Some seg \<Rightarrow>
          (case find_char seg 47 of
             None \<Rightarrow> (strip_query (fit ZMS_APP_MAX seg), [])
           | Some n \<Rightarrow> (fit ZMS_APP_MAX (take n seg), strip_query (fit ZMS_STREAM_MAX (drop (n + 1) seg)))))"

section \<open>Looking up\<close>

definition key_match :: "'b zms_media_source \<Rightarrow> bytes \<Rightarrow> bytes \<Rightarrow> bytes \<Rightarrow> bool" where
  "key_match s schema app stream \<longleftrightarrow>
     source_active s \<and> ms_schema s = schema \<and> ms_app s = app \<and> ms_stream s = stream"

definition zms_media_source_find :: "'b stream_hub \<Rightarrow> bytes \<Rightarrow> bytes \<Rightarrow> bytes \<Rightarrow> nat option" where
  "zms_media_source_find h schema app stream =
     map_option ms_id (find (\<lambda>s. key_match s schema app stream) (hb_sources h))"

definition find_by_stream_requested :: "'b stream_hub \<Rightarrow> bytes \<Rightarrow> bytes \<Rightarrow> bytes \<Rightarrow> nat option" where
  "find_by_stream_requested h schema app name =
     (if name = [] then None
      else map_option ms_id (find (\<lambda>s. ms_gop_queue s \<noteq> None \<and> ms_schema s = schema \<and> ms_app s = app
        \<and> (ms_stream_requested s = name \<or> ms_stream s = name)) (hb_sources h)))"

definition stream_ends_with_id :: "bytes \<Rightarrow> bytes \<Rightarrow> bool" where
  "stream_ends_with_id stream sid =
     (if sid = [] then False
      else let slen = length stream; n = length sid in
        if slen < n then False
        else if drop (slen - n) stream \<noteq> sid then False
        else slen = n \<or> stream ! (slen - n - 1) = 47)"

text \<open>The three loops that count their matches give a source only when there is exactly one.\<close>

definition the_only :: "('b zms_media_source \<Rightarrow> bool) \<Rightarrow> 'b stream_hub \<Rightarrow> nat option" where
  "the_only P h = (case filter P (hb_sources h) of [s] \<Rightarrow> Some (ms_id s) | _ \<Rightarrow> None)"

definition find_single_live_stream_alias :: "'b stream_hub \<Rightarrow> bytes \<Rightarrow> bytes \<Rightarrow> nat option" where
  "find_single_live_stream_alias h app stream =
     (if app \<noteq> asc ''live'' \<or> stream \<noteq> asc ''stream'' then None
      else the_only (\<lambda>s. ms_gop_queue s \<noteq> None \<and> ms_app s = app) h)"

definition find_single_live_stream_prefix :: "'b stream_hub \<Rightarrow> bytes \<Rightarrow> bytes \<Rightarrow> nat option" where
  "find_single_live_stream_prefix h app prefix =
     (if app \<noteq> asc ''live'' \<or> prefix = [] then None
      else the_only (\<lambda>s. ms_gop_queue s \<noteq> None \<and> ms_app s = app \<and> starts_with prefix (ms_stream s)
        \<and> length prefix < length (ms_stream s) \<and> ms_stream s ! length prefix = 47) h)"

definition find_by_stream_id_suffix :: "'b stream_hub \<Rightarrow> bytes \<Rightarrow> bytes \<Rightarrow> nat option" where
  "find_by_stream_id_suffix h app sid =
     (if sid = [] \<or> find_char sid 47 \<noteq> None then None
      else the_only (\<lambda>s. ms_gop_queue s \<noteq> None \<and> ms_app s = app \<and> stream_ends_with_id (ms_stream s) sid) h)"

definition or_else :: "'a option \<Rightarrow> 'a option \<Rightarrow> 'a option" where
  "or_else a b = (case a of Some x \<Rightarrow> Some x | None \<Rightarrow> b)"

definition find_named :: "'b stream_hub \<Rightarrow> bytes \<Rightarrow> bytes \<Rightarrow> bytes \<Rightarrow> nat option" where
  "find_named h schema app stream =
     or_else (zms_media_source_find h schema app stream) (find_by_stream_requested h schema app stream)"

definition zms_media_source_find_api :: "'b stream_hub \<Rightarrow> bytes \<Rightarrow> bytes \<Rightarrow> bytes \<Rightarrow> nat option" where
  "zms_media_source_find_api h schema app stream =
     (let rtmp_first = or_else (find_named h ZMS_SCHEMA_RTMP app stream) (find_named h ZMS_SCHEMA_RTP_PS app stream) in
      if schema = [] then rtmp_first
      else case find_named h schema app stream of
        Some i \<Rightarrow> Some i
      | None \<Rightarrow>
          if schema = ZMS_SCHEMA_RTSP \<or> schema = ZMS_SCHEMA_SRT
          then or_else (find_named h ZMS_SCHEMA_RTP_PS app stream) (find_named h ZMS_SCHEMA_RTMP app stream)
          else if schema = ZMS_SCHEMA_RTMP
          then or_else (find_named h ZMS_SCHEMA_SRT app stream)
                 (or_else (find_named h ZMS_SCHEMA_RTSP app stream) (find_named h ZMS_SCHEMA_RTP_PS app stream))
          else rtmp_first)"

text \<open>
  \<open>vod_open\<close> is \<open>zms_vod_source_find_or_open\<close>, which may open a file and register it.
\<close>

definition zms_media_source_find_for_play :: "('b stream_hub \<Rightarrow> bytes \<Rightarrow> bytes \<Rightarrow> bytes \<Rightarrow> nat option \<times> 'b stream_hub)
    \<Rightarrow> 'b stream_hub \<Rightarrow> bytes \<Rightarrow> bytes \<Rightarrow> bytes \<Rightarrow> nat option \<times> 'b stream_hub" where
  "zms_media_source_find_for_play vod_open h schema app stream =
     (case zms_media_source_find_api h schema app stream of
        Some i \<Rightarrow> (Some i, h)
      | None \<Rightarrow>
        if stream = [] then (None, h)
        else case vod_open h schema app stream of
          (Some i, h1) \<Rightarrow> (Some i, h1)
        | (None, h1) \<Rightarrow>
          if app \<noteq> asc ''live'' then (None, h1)
          else (case find_char stream 47 of
            None \<Rightarrow>
              (let alt = asc ''stream/'' @ stream in
               or_else (if length alt < ZMS_STREAM_MAX then zms_media_source_find_api h1 schema app alt else None)
                 (or_else (find_by_stream_id_suffix h1 app stream) (find_single_live_stream_alias h1 app stream)), h1)
          | Some _ \<Rightarrow>
              (let tail = (case find_last_char stream 47 of Some n \<Rightarrow> drop (n + 1) stream | None \<Rightarrow> []) in
               or_else (if tail \<noteq> [] then find_by_stream_id_suffix h1 app tail else None)
                 (or_else (if starts_with (asc ''stream/'') stream
                           then find_single_live_stream_alias h1 app (asc ''stream'') else None)
                   (or_else (find_single_live_stream_prefix h1 app stream)
                     (find_single_live_stream_alias h1 app stream))), h1)))"

record zms_media_source_filter =
  ft_schema :: bytes
  ft_app :: bytes
  ft_stream :: bytes

definition filter_match :: "'b zms_media_source \<Rightarrow> zms_media_source_filter option \<Rightarrow> bool" where
  "filter_match s f =
     (if \<not> source_active s then False
      else case f of
        None \<Rightarrow> True
      | Some f \<Rightarrow>
          if ft_schema f \<noteq> [] \<and> ft_schema f \<noteq> ms_schema s \<and> ft_schema f \<noteq> ZMS_SCHEMA_RTSP
             \<and> ft_schema f \<noteq> ZMS_SCHEMA_SRT then False
          else if ft_app f \<noteq> [] \<and> ft_app f \<noteq> ms_app s then False
          else if ft_stream f \<noteq> [] \<and> ft_stream f \<noteq> ms_stream s then False
          else True)"

text \<open>The visitor says with its first result whether to stop.\<close>

fun visit_loop :: "('b zms_media_source \<Rightarrow> 'u \<Rightarrow> bool \<times> 'u) \<Rightarrow> zms_media_source_filter option
    \<Rightarrow> 'b zms_media_source list \<Rightarrow> 'u \<Rightarrow> 'u" where
  "visit_loop fn f [] u = u"
| "visit_loop fn f (s # ss) u =
     (if \<not> filter_match s f then visit_loop fn f ss u
      else case fn s u of (stop, u1) \<Rightarrow> if stop then u1 else visit_loop fn f ss u1)"

definition zms_media_source_foreach :: "'b stream_hub \<Rightarrow> ('b zms_media_source \<Rightarrow> 'u \<Rightarrow> bool \<times> 'u) \<Rightarrow> 'u
    \<Rightarrow> zms_media_source_filter option \<Rightarrow> 'u" where
  "zms_media_source_foreach h fn u f = visit_loop fn f (hb_sources h) u"

section \<open>Addresses of streams\<close>

lemma strstr_scheme: "58 \<notin> set sch \<Longrightarrow> strstr (sch @ asc ''://'' @ r) (asc ''://'') = Some (length sch)"
  by (induction sch) (auto simp: starts_with_def)

lemma find_char_split: "c \<notin> set a \<Longrightarrow> find_char (a @ c # b) c = Some (length a)" "c \<notin> set a \<Longrightarrow> find_char a c = None"
  by (simp_all add: find_char_append find_char_None)

lemma strip_query_tail: "63 \<notin> set s \<Longrightarrow> 35 \<notin> set s \<Longrightarrow> q = [] \<or> hd q = 63 \<or> hd q = 35 \<Longrightarrow> strip_query (s @ q) = s"
proof -
  assume a: "63 \<notin> set s" "35 \<notin> set s" "q = [] \<or> hd q = 63 \<or> hd q = 35"
  then have t: "takeWhile (\<lambda>c. c \<noteq> 35) s = s" "takeWhile (\<lambda>c. c \<noteq> 63) s = s" by (auto simp: takeWhile_eq_all_conv)
  show ?thesis
  proof (cases q)
    case Nil
    then show ?thesis by (simp only: strip_query_def append_Nil2 t)
  next
    case (Cons c r)
    with a show ?thesis by (auto simp: strip_query_def takeWhile_append takeWhile_tail)
  qed
qed

text \<open>
  An address of the form scheme, optional user, host, application, stream and query is split
  into its application and its stream, when the names fit and no \<open>@\<close> follows the host.\<close>

theorem split_path_url:
  assumes "58 \<notin> set sch" "user = [] \<or> (\<exists>u. user = u @ [64] \<and> 64 \<notin> set u)" "64 \<notin> set (host @ app @ stream @ q)"
    and "47 \<notin> set host" "47 \<notin> set app" "q = [] \<or> hd q = 63 \<or> hd q = 35" "63 \<notin> set stream" "35 \<notin> set stream"
    and "length app < ZMS_APP_MAX" "length (stream @ q) < ZMS_STREAM_MAX"
  shows "zms_media_split_path (sch @ asc ''://'' @ user @ host @ [47] @ app @ [47] @ stream @ q) = (app, stream)"
proof -
  let ?rest = "app @ 47 # stream @ q"
  let ?p = "sch @ asc ''://'' @ user @ host @ [47] @ ?rest"
  have at: "(case find_char (user @ host @ 47 # ?rest) 64 of Some n \<Rightarrow> drop (n + 1) (user @ host @ 47 # ?rest)
    | None \<Rightarrow> user @ host @ 47 # ?rest) = host @ 47 # ?rest"
  proof (cases "user = []")
    case True
    then show ?thesis using assms(3) find_char_None[of "host @ 47 # ?rest" 64] by simp
  next
    case False
    with assms(2) obtain u where "user = u @ [64]" "64 \<notin> set u" by blast
    then show ?thesis using find_char_append[of 64 u "host @ 47 # ?rest"] by simp
  qed
  have dr: "drop (length sch + 3) ?p = user @ host @ 47 # ?rest" by simp
  have "path_start ?p = Some ?rest"
    unfolding path_start_def strstr_scheme[OF assms(1)] option.case Let_def dr at find_char_append[OF assms(4), of ?rest]
    by simp
  then show ?thesis
    using find_char_append[OF assms(5), of "stream @ q"] strip_query_tail[OF assms(7,8,6)] assms(9,10)
    by (simp add: zms_media_split_path_def fit_def hub_sizes)
qed

lemma split_path_url_witness:
  "zms_media_split_path (asc ''rtmp'' @ asc ''://'' @ asc ''me@'' @ asc ''h:1935'' @ [47] @ asc ''live'' @ [47] @ asc ''a/b'' @ asc ''?k=1'')
    = (asc ''live'', asc ''a/b'')"
  by (rule split_path_url) (auto simp: hub_sizes intro: exI[of _ "asc ''me''"])

end
