(* ===== verification/Hub_Ops.thy ===== *)
theory Hub_Ops
  imports Stream_Hub
begin

text \<open>
  The operations of \<open>engine/stream/stream_hub.c\<close> that change the registry: publishers taking
  over and being kicked, registering, closing and unregistering, and players subscribing. An
  operation gives its result, the registry and the calls it makes, in order.
\<close>

type_synonym 'b hub_result = "'b stream_hub \<times> 'b hub_call list"

section \<open>Events of a source\<close>

definition zms_media_event_publish :: "'b stream_hub \<Rightarrow> nat \<Rightarrow> nat \<Rightarrow> 'b hub_result" where
  "zms_media_event_publish h i origin =
     (case hub_get h i of
        None \<Rightarrow> (h, [])
      | Some s \<Rightarrow> (hub_upd h i (\<lambda>s. s\<lparr>ms_publishing := True, ms_publish_origin := origin\<rparr>), [On_Media_Publish i origin]))"

definition zms_media_event_publish_fini :: "'b stream_hub \<Rightarrow> nat \<Rightarrow> nat \<Rightarrow> 'b hub_result" where
  "zms_media_event_publish_fini h i origin =
     (case hub_get h i of
        None \<Rightarrow> (h, [])
      | Some s \<Rightarrow>
          if \<not> ms_publishing s then (h, [Mp4_Recorder_Stop i])
          else (hub_upd h i (\<lambda>s. s\<lparr>ms_publishing := False\<rparr>), [Mp4_Recorder_Stop i, On_Media_Publish_Fini i origin]))"

definition zms_media_source_reader_add :: "'b stream_hub \<Rightarrow> nat \<Rightarrow> 'b hub_result" where
  "zms_media_source_reader_add h i =
     (case hub_get h i of
        None \<Rightarrow> (h, [])
      | Some s \<Rightarrow> (hub_upd h i (\<lambda>s. s\<lparr>ms_reader_count := ms_reader_count s + 1\<rparr>),
                     [On_Reader_Changed i (ms_reader_count s + 1)]))"

definition zms_media_source_reader_remove :: "'b stream_hub \<Rightarrow> nat \<Rightarrow> 'b hub_result" where
  "zms_media_source_reader_remove h i =
     (case hub_get h i of
        None \<Rightarrow> (h, [])
      | Some s \<Rightarrow>
          if ms_reader_count s \<le> 0 then (h, [])
          else (hub_upd h i (\<lambda>s. s\<lparr>ms_reader_count := ms_reader_count s - 1\<rparr>),
                [On_Reader_Changed i (ms_reader_count s - 1)]))"

section \<open>Publishers\<close>

definition zms_media_source_set_publisher :: "'b stream_hub \<Rightarrow> nat \<Rightarrow> nat option \<Rightarrow> nat option \<Rightarrow> 'b hub_result" where
  "zms_media_source_set_publisher h i ctx kick =
     (case hub_get h i of
        None \<Rightarrow> (h, [])
      | Some s \<Rightarrow>
          (hub_upd h i (\<lambda>s. s\<lparr>ms_publisher_ctx := ctx, ms_publisher_kick := kick\<rparr>),
           case ms_publisher_kick s of
             Some k \<Rightarrow> if ms_publisher_ctx s \<noteq> None \<and> ms_publisher_ctx s \<noteq> ctx
                        then [Publisher_Kick k (ms_publisher_ctx s) True] else []
           | None \<Rightarrow> []))"

definition zms_media_source_clear_publisher :: "'b stream_hub \<Rightarrow> nat \<Rightarrow> nat option \<Rightarrow> 'b stream_hub" where
  "zms_media_source_clear_publisher h i ctx =
     (case hub_get h i of
        None \<Rightarrow> h
      | Some s \<Rightarrow> if ms_publisher_ctx s \<noteq> ctx then h
                   else hub_upd h i (\<lambda>s. s\<lparr>ms_publisher_ctx := None, ms_publisher_kick := None\<rparr>))"

definition zms_media_source_clear :: "'b stream_hub \<Rightarrow> nat \<Rightarrow> 'b stream_hub" where
  "zms_media_source_clear h i =
     hub_upd h i (\<lambda>s. case ms_gop_queue s of
        None \<Rightarrow> s
      | Some q \<Rightarrow> s\<lparr>ms_gop_queue := Some (zms_gop_queue_clear q), ms_has_video := False, ms_has_audio := False,
          ms_video := zms_video_track_clear, ms_audio := zms_audio_track_clear, ms_stats := zms_media_stats_reset\<rparr>)"

text \<open>
  What closing and registering again do with a live source: the publisher is taken off and
  kicked, the end of the publishing is reported, the ring is emptied. \<open>f\<close> is what else is
  written under the first lock.
\<close>

definition take_off :: "('b zms_media_source \<Rightarrow> 'b zms_media_source) \<Rightarrow> 'b stream_hub \<Rightarrow> nat \<Rightarrow> bool \<Rightarrow> 'b hub_result" where
  "take_off f h i force =
     (case hub_get h i of
        None \<Rightarrow> (h, [])
      | Some s \<Rightarrow>
          let h1 = hub_upd h i (\<lambda>s. f (s\<lparr>ms_publishing := False, ms_publisher_ctx := None, ms_publisher_kick := None\<rparr>));
              kicks = (case ms_publisher_kick s of Some k \<Rightarrow> [Publisher_Kick k (ms_publisher_ctx s) force] | None \<Rightarrow> [])
          in case (if ms_publishing s then zms_media_event_publish_fini h1 i (ms_publish_origin s) else (h1, [])) of
               (h2, cs) \<Rightarrow> (zms_media_source_clear h2 i, kicks @ cs))"

section \<open>Leaving the registry\<close>

definition zms_media_source_unregister :: "'b stream_hub \<Rightarrow> nat \<Rightarrow> 'b hub_result" where
  "zms_media_source_unregister h i =
     (case hub_get h i of
        None \<Rightarrow> (h, [])
      | Some s \<Rightarrow> (case ms_gop_queue s of
            None \<Rightarrow> (h, [])
          | Some q \<Rightarrow> (h\<lparr>hb_sources := source_node_free i (hb_sources h)\<rparr>, [Gop_Queue_Destroy (zms_gop_queue_destroy q)])))"

definition zms_media_source_unregister_vod :: "'b stream_hub \<Rightarrow> nat \<Rightarrow> 'b stream_hub" where
  "zms_media_source_unregister_vod h i =
     (case hub_get h i of
        None \<Rightarrow> h
      | Some s \<Rightarrow> if ms_vod_buffer s = None then h else h\<lparr>hb_sources := source_node_free i (hb_sources h)\<rparr>)"

definition zms_media_source_is_vod :: "'b zms_media_source \<Rightarrow> bool" where
  "zms_media_source_is_vod s \<longleftrightarrow> ms_vod_buffer s \<noteq> None \<and> ms_publish_origin s = ZMS_ORIGIN_MP4_VOD"

definition zms_vod_source_stop :: "'b stream_hub \<Rightarrow> nat \<Rightarrow> 'b hub_result" where
  "zms_vod_source_stop h i =
     (case hub_get h i of
        None \<Rightarrow> (h, [])
      | Some s \<Rightarrow>
          if \<not> zms_media_source_is_vod s then (h, [])
          else case (case ms_publisher_ctx s of
              None \<Rightarrow> (h, [])
            | Some rd \<Rightarrow> (case zms_media_event_publish_fini h i ZMS_ORIGIN_MP4_VOD of
                (h1, cs) \<Rightarrow> (hub_upd h1 i (\<lambda>s. s\<lparr>ms_publisher_ctx := None\<rparr>), cs @ [Vod_Reader_Close rd]))) of
            (h2, cs) \<Rightarrow> (zms_media_source_unregister_vod h2 i, cs))"

definition zms_media_source_close :: "'b stream_hub \<Rightarrow> nat \<Rightarrow> bool \<Rightarrow> bool \<times> 'b hub_result" where
  "zms_media_source_close h i force =
     (case hub_get h i of
        None \<Rightarrow> (False, h, [])
      | Some s \<Rightarrow>
          if zms_media_source_is_vod s then (True, zms_vod_source_stop h i)
          else if ms_gop_queue s = None then (False, h, [])
          else (True, take_off (\<lambda>s. s) h i force))"

section \<open>Registering\<close>

text \<open>A new live source, when its node and its ring can be allocated.\<close>

definition new_live :: "hub_env \<Rightarrow> 'b stream_hub \<Rightarrow> bytes \<Rightarrow> bytes \<Rightarrow> bytes \<Rightarrow> bytes \<Rightarrow> nat option \<times> 'b stream_hub" where
  "new_live e h schema app stream requested =
     (if \<not> he_node_ok e then (None, h)
      else case source_node_alloc h of
        (s, h1) \<Rightarrow>
          (case zms_gop_queue_create (he_gop e) (he_buf_ok e) of
             None \<Rightarrow> (None, h1\<lparr>hb_sources := source_node_free (ms_id s) (hb_sources h1)\<rparr>)
           | Some q \<Rightarrow> (Some (ms_id s), hub_upd h1 (ms_id s) (\<lambda>s. s
               \<lparr>ms_schema := fit ZMS_SCHEMA_MAX schema, ms_app := fit ZMS_APP_MAX app,
                ms_stream := fit ZMS_STREAM_MAX stream, ms_stream_requested := fit ZMS_STREAM_MAX requested,
                ms_gop_queue := Some q, ms_create_stamp_ms := he_now e\<rparr>))))"

text \<open>
  \<open>zms_media_source_register\<close> calls itself after it has stopped an on-demand source with the
  same key; \<open>None\<close> stands for a call that never returns.
\<close>

partial_function (option) zms_media_source_register :: "hub_env \<Rightarrow> 'b stream_hub \<Rightarrow> bytes \<Rightarrow> bytes \<Rightarrow> bytes
    \<Rightarrow> (nat option \<times> 'b stream_hub \<times> 'b hub_call list) option" where
  "zms_media_source_register e h schema app stream =
     (case find (\<lambda>s. key_match s schema app stream) (hb_sources h) of
        Some s \<Rightarrow>
          if ms_vod_buffer s \<noteq> None then
            (case zms_vod_source_stop h (ms_id s) of
               (h1, cs) \<Rightarrow> Option.bind (zms_media_source_register e h1 schema app stream)
                 (\<lambda>(r, h2, cs2). Some (r, h2, cs @ cs2)))
          else Some (Some (ms_id s), take_off (\<lambda>s. s) h (ms_id s) True)
      | None \<Rightarrow> (case new_live e h schema app stream [] of (r, h1) \<Rightarrow> Some (r, h1, [])))"

definition zms_media_source_register_publish :: "hub_env \<Rightarrow> 'b stream_hub \<Rightarrow> bytes \<Rightarrow> bytes \<Rightarrow> bytes
    \<Rightarrow> nat option \<times> 'b hub_result" where
  "zms_media_source_register_publish e h schema app requested =
     (if requested = [] then (None, h, [])
      else case find (\<lambda>s. key_match s schema app requested) (hb_sources h) of
        Some s \<Rightarrow>
          if ms_vod_buffer s \<noteq> None then (None, h, [])
          else (Some (ms_id s), take_off (\<lambda>s. s\<lparr>ms_stream_requested := fit ZMS_STREAM_MAX requested\<rparr>) h (ms_id s) True)
      | None \<Rightarrow> (case new_live e h schema app requested requested of (r, h1) \<Rightarrow> (r, h1, [])))"

definition zms_media_source_register_vod :: "hub_env \<Rightarrow> 'b stream_hub \<Rightarrow> bytes \<Rightarrow> bytes \<Rightarrow> bytes \<Rightarrow> nat option \<times> 'b stream_hub" where
  "zms_media_source_register_vod e h schema app stream =
     (case find (\<lambda>s. key_match s schema app stream) (hb_sources h) of
        Some s \<Rightarrow> (Some (ms_id s), h)
      | None \<Rightarrow>
          if \<not> he_node_ok e then (None, h)
          else case source_node_alloc h of
            (s, h1) \<Rightarrow>
              if \<not> he_buf_ok e then (None, h1\<lparr>hb_sources := source_node_free (ms_id s) (hb_sources h1)\<rparr>)
              else (Some (ms_id s), hub_upd h1 (ms_id s) (\<lambda>s. s
                \<lparr>ms_schema := fit ZMS_SCHEMA_MAX schema, ms_app := fit ZMS_APP_MAX app,
                 ms_stream := fit ZMS_STREAM_MAX stream, ms_vod_buffer := Some (zms_vod_buffer_create 0),
                 ms_publish_origin := ZMS_ORIGIN_MP4_VOD, ms_create_stamp_ms := he_now e\<rparr>)))"

section \<open>Playing\<close>

text \<open>\<open>vp\<close> and \<open>ap\<close> read the codec off a configuration tag; they are routines over libflv.\<close>

definition media_source_config :: "('b zms_gop_queue \<Rightarrow> bytes) \<Rightarrow> (zms_vod_buffer \<Rightarrow> bytes) \<Rightarrow> 'b zms_media_source \<Rightarrow> bytes" where
  "media_source_config of_gop of_vod s =
     (case ms_gop_queue s of
        Some q \<Rightarrow> of_gop q
      | None \<Rightarrow> (case ms_vod_buffer s of Some v \<Rightarrow> of_vod v | None \<Rightarrow> []))"

definition zms_media_source_video_config :: "'b zms_media_source \<Rightarrow> bytes" where
  "zms_media_source_video_config = media_source_config q_video_config zms_vod_buffer_video_config"

definition zms_media_source_audio_config :: "'b zms_media_source \<Rightarrow> bytes" where
  "zms_media_source_audio_config = media_source_config q_audio_config zms_vod_buffer_audio_config"

definition play_video_codec :: "(bytes \<Rightarrow> zms_codec_id) \<Rightarrow> 'b zms_media_source \<Rightarrow> zms_codec_id" where
  "play_video_codec vp s =
     (if vt_ready (ms_video s) \<and> vt_codec (ms_video s) \<noteq> ZMS_CODEC_INVALID then vt_codec (ms_video s)
      else let cfg = zms_media_source_video_config s in
        if cfg \<noteq> [] then vp cfg else ZMS_CODEC_INVALID)"

definition play_audio_codec :: "(bytes \<Rightarrow> zms_codec_id) \<Rightarrow> 'b zms_media_source \<Rightarrow> zms_codec_id" where
  "play_audio_codec ap s =
     (if at_ready (ms_audio s) \<and> at_codec (ms_audio s) \<noteq> ZMS_CODEC_INVALID then at_codec (ms_audio s)
      else let cfg = zms_media_source_audio_config s in
        if cfg \<noteq> [] then ap cfg else ZMS_CODEC_INVALID)"

definition codec_gop_queue_playable :: "zms_codec_id \<Rightarrow> zms_track_type \<Rightarrow> bool" where
  "codec_gop_queue_playable c track =
     (if track = ZMS_TRACK_VIDEO then
        c \<in> {ZMS_CODEC_H264, ZMS_CODEC_H265, ZMS_CODEC_AV1, ZMS_CODEC_VP8, ZMS_CODEC_VP9, ZMS_CODEC_H266}
      else if track = ZMS_TRACK_AUDIO then
        c \<in> {ZMS_CODEC_AAC, ZMS_CODEC_G711A, ZMS_CODEC_G711U, ZMS_CODEC_OPUS}
      else False)"

definition zms_media_source_use_gop_queue_play :: "(bytes \<Rightarrow> zms_codec_id) \<Rightarrow> (bytes \<Rightarrow> zms_codec_id)
    \<Rightarrow> 'b zms_media_source \<Rightarrow> bool" where
  "zms_media_source_use_gop_queue_play vp ap s =
     (if ms_gop_queue s = None then False
      else if \<not> ms_has_video s then
        (let ac = play_audio_codec ap s in
         if ac \<noteq> ZMS_CODEC_INVALID then codec_gop_queue_playable ac ZMS_TRACK_AUDIO else False)
      else if \<not> codec_gop_queue_playable (play_video_codec vp s) ZMS_TRACK_VIDEO then False
      else if ms_has_audio s then
        (let ac = play_audio_codec ap s in ac = ZMS_CODEC_INVALID \<or> codec_gop_queue_playable ac ZMS_TRACK_AUDIO)
      else True)"

text \<open>
  A subscriber holds a reader of the ring of a source, with the number the ring knows it by, or
  a reader of a buffer. \<open>ok\<close> says that the reader can be allocated and registered, \<open>rid\<close> is
  its number.
\<close>

record 'b zms_media_subscriber =
  sub_gop :: "(nat \<times> nat \<times> 'b zms_gop_reader) option"
  sub_vod :: "(nat \<times> zms_vod_buffer_reader) option"

definition zms_media_subscriber_detach :: "'b stream_hub \<Rightarrow> 'b zms_media_subscriber
    \<Rightarrow> 'b stream_hub \<times> 'b zms_media_subscriber \<times> 'b ztk_call list" where
  "zms_media_subscriber_detach h sub =
     (case (case sub_gop sub of
              None \<Rightarrow> (h, [])
            | Some (i, rid, rd) \<Rightarrow>
                (case Option.bind (hub_get h i) ms_gop_queue of
                   None \<Rightarrow> (h, [])
                 | Some q \<Rightarrow> (case zms_gop_reader_detach q rid rd of
                     (q1, cs) \<Rightarrow> (hub_upd h i (\<lambda>s. s\<lparr>ms_gop_queue := Some q1\<rparr>), cs)))) of
        (h1, cs) \<Rightarrow> (h1, \<lparr>sub_gop = None, sub_vod = None\<rparr>, cs))"

definition zms_media_source_subscribe :: "(bytes \<Rightarrow> zms_codec_id) \<Rightarrow> (bytes \<Rightarrow> zms_codec_id) \<Rightarrow> bool \<Rightarrow> nat
    \<Rightarrow> 'b stream_hub \<Rightarrow> nat \<Rightarrow> bool \<Rightarrow> 'b zms_media_subscriber
    \<Rightarrow> ztk_err \<times> 'b stream_hub \<times> 'b zms_media_subscriber \<times> 'b ztk_call list" where
  "zms_media_source_subscribe vp ap ok rid h i seek_live sub =
     (case zms_media_subscriber_detach h sub of
        (h1, sub1, cs) \<Rightarrow>
          (case hub_get h1 i of
             None \<Rightarrow> (ZTK_ERR_INVALID, h1, sub1, cs)
           | Some s \<Rightarrow>
             (case ms_gop_queue s of
                None \<Rightarrow> (ZTK_ERR_STATE, h1, sub1, cs)
              | Some q \<Rightarrow>
                if \<not> zms_media_source_use_gop_queue_play vp ap s then (ZTK_ERR_STATE, h1, sub1, cs)
                else (case (if seek_live then zms_gop_reader_attach ok ok ok q rid
                            else zms_gop_reader_attach_beginning ok ok ok q rid) of
                    None \<Rightarrow> (ZTK_ERR_NOMEM, h1, sub1, cs)
                  | Some (q1, rd) \<Rightarrow>
                      (case (if seek_live then zms_gop_reader_seek_live q1 rd else (rd, [])) of
                         (rd1, cs1) \<Rightarrow> (ZTK_OK, hub_upd h1 i (\<lambda>s. s\<lparr>ms_gop_queue := Some q1\<rparr>),
                           sub1\<lparr>sub_gop := Some (i, rid, rd1)\<rparr>, cs @ cs1))))))"

definition zms_media_source_subscribe_gop :: "es_ext \<Rightarrow> registry \<Rightarrow> (bytes \<Rightarrow> zms_codec_id) \<Rightarrow> (bytes \<Rightarrow> zms_codec_id)
    \<Rightarrow> bool \<Rightarrow> nat \<Rightarrow> 'b stream_hub \<Rightarrow> nat \<Rightarrow> 'b zms_media_subscriber
    \<Rightarrow> ztk_err \<times> 'b stream_hub \<times> 'b zms_media_subscriber \<times> 'b ztk_call list" where
  "zms_media_source_subscribe_gop E g vp ap ok rid h i sub =
     (case zms_media_subscriber_detach h sub of
        (h1, sub1, cs) \<Rightarrow>
          (case hub_get h1 i of
             None \<Rightarrow> (ZTK_ERR_INVALID, h1, sub1, cs)
           | Some s \<Rightarrow>
             (case ms_gop_queue s of
                None \<Rightarrow> (ZTK_ERR_STATE, h1, sub1, cs)
              | Some q \<Rightarrow>
                if \<not> zms_media_source_use_gop_queue_play vp ap s then (ZTK_ERR_STATE, h1, sub1, cs)
                else (case zms_gop_reader_attach ok ok ok q rid of
                    None \<Rightarrow> (ZTK_ERR_NOMEM, h1, sub1, cs)
                  | Some (q1, rd) \<Rightarrow>
                      (case zms_gop_reader_seek_gop_key E g q1 rd of
                         (rd1, cs1) \<Rightarrow> (ZTK_OK, hub_upd h1 i (\<lambda>s. s\<lparr>ms_gop_queue := Some q1\<rparr>),
                           sub1\<lparr>sub_gop := Some (i, rid, rd1)\<rparr>, cs @ cs1))))))"

definition zms_media_source_subscribe_vod :: "es_ext \<Rightarrow> bool \<Rightarrow> 'b stream_hub \<Rightarrow> nat \<Rightarrow> 'b zms_media_subscriber
    \<Rightarrow> ztk_err \<times> 'b stream_hub \<times> 'b zms_media_subscriber \<times> 'b ztk_call list" where
  "zms_media_source_subscribe_vod E ok h i sub =
     (case zms_media_subscriber_detach h sub of
        (h1, sub1, cs) \<Rightarrow>
          (case hub_get h1 i of
             None \<Rightarrow> (ZTK_ERR_INVALID, h1, sub1, cs)
           | Some s \<Rightarrow>
             (case ms_vod_buffer s of
                None \<Rightarrow> (ZTK_ERR_STATE, h1, sub1, cs)
              | Some v \<Rightarrow>
                if \<not> zms_media_source_is_vod s then (ZTK_ERR_STATE, h1, sub1, cs)
                else if \<not> ok then (ZTK_ERR_NOMEM, h1, sub1, cs)
                else (ZTK_OK, h1, sub1\<lparr>sub_vod := Some (i,
                   zms_vod_buffer_reader_seek_video_key E v (zms_vod_buffer_reader_attach v True))\<rparr>, cs))))"

end
