(* ===== verification/Hub_Spec.thy ===== *)
theory Hub_Spec
  imports Hub_Ops
begin

text \<open>
  What the registry promises: the keys of its sources are unique as long as names fit their
  arrays, a lookup gives the source that was registered, a second publisher takes over the
  source of the first and kicks it once, and registering always returns. And what it does not:
  closing a stream or taking it over never reports the end of the publishing.
\<close>

definition hub_key :: "'b zms_media_source \<Rightarrow> bytes \<times> bytes \<times> bytes" where
  "hub_key s = (ms_schema s, ms_app s, ms_stream s)"

definition source_wf :: "'b zms_media_source \<Rightarrow> bool" where
  "source_wf s \<longleftrightarrow> (ms_gop_queue s = None) = (ms_vod_buffer s \<noteq> None)
     \<and> (ms_vod_buffer s \<noteq> None \<longrightarrow> ms_publish_origin s = ZMS_ORIGIN_MP4_VOD)
     \<and> length (ms_app s) < ZMS_APP_MAX \<and> length (ms_stream s) < ZMS_STREAM_MAX"

definition hub_inv :: "'b stream_hub \<Rightarrow> bool" where
  "hub_inv h \<longleftrightarrow> distinct (map ms_id (hb_sources h)) \<and> distinct (map hub_key (hb_sources h))
     \<and> (\<forall>s \<in> set (hb_sources h). ms_id s < hb_next h \<and> source_wf s)"

text \<open>The names that fit the arrays of a node; the code cuts a longer one.\<close>

definition names_fit :: "bytes \<Rightarrow> bytes \<Rightarrow> bytes \<Rightarrow> bool" where
  "names_fit schema app stream \<longleftrightarrow> length schema < ZMS_SCHEMA_MAX \<and> length app < ZMS_APP_MAX \<and> length stream < ZMS_STREAM_MAX"

text \<open>A change of a source that leaves its identity alone.\<close>

definition quiet :: "('b zms_media_source \<Rightarrow> 'b zms_media_source) \<Rightarrow> bool" where
  "quiet f \<longleftrightarrow> (\<forall>s. ms_id (f s) = ms_id s \<and> hub_key (f s) = hub_key s \<and> (source_wf s \<longrightarrow> source_wf (f s)))"

section \<open>Nodes\<close>

lemma hub_upd_sources [simp]: "hb_sources (hub_upd h i f) = map (\<lambda>s. if ms_id s = i then f s else s) (hb_sources h)"
  "hb_next (hub_upd h i f) = hb_next h"
  by (simp_all add: hub_upd_def)

lemma upd_inv: "quiet f \<Longrightarrow> hub_inv h \<Longrightarrow> hub_inv (hub_upd h i f)"
proof -
  assume q: "quiet f" and h: "hub_inv h"
  have m: "map ms_id (hb_sources (hub_upd h i f)) = map ms_id (hb_sources h)"
    "map hub_key (hb_sources (hub_upd h i f)) = map hub_key (hb_sources h)"
    using q by (auto simp: quiet_def)
  have "\<forall>s \<in> set (hb_sources (hub_upd h i f)). ms_id s < hb_next h \<and> source_wf s"
    using h q by (auto simp: hub_inv_def quiet_def)
  with h show ?thesis unfolding hub_inv_def m by simp
qed

lemma get_Some: "hub_get h i = Some s \<Longrightarrow> s \<in> set (hb_sources h) \<and> ms_id s = i"
  by (auto simp: hub_get_def find_Some_iff)

lemma get_iff: "distinct (map ms_id (hb_sources h)) \<Longrightarrow> hub_get h i = Some s \<longleftrightarrow> s \<in> set (hb_sources h) \<and> ms_id s = i"
proof (intro iffI, erule get_Some)
  assume d: "distinct (map ms_id (hb_sources h))" and s: "s \<in> set (hb_sources h) \<and> ms_id s = i"
  then obtain t where t: "hub_get h i = Some t" unfolding hub_get_def
    by (metis (mono_tags, lifting) find_None_iff not_Some_eq)
  with get_Some[OF t] d s show "hub_get h i = Some s" by (metis inj_on_eq_iff distinct_map)
qed

lemma find_map_keep:
  assumes "\<forall>s. ms_id (f s) = ms_id s"
  shows "find (\<lambda>s. ms_id s = i) (map (\<lambda>s. if ms_id s = j then f s else s) ss)
    = map_option (\<lambda>s. if i = j then f s else s) (find (\<lambda>s. ms_id s = i) ss)"
  using assms by (induction ss) auto

lemma get_upd: "\<forall>s. ms_id (f s) = ms_id s \<Longrightarrow>
    hub_get (hub_upd h j f) i = map_option (\<lambda>s. if i = j then f s else s) (hub_get h i)"
  by (simp add: hub_get_def find_map_keep)

lemma free_set: "set (source_node_free i ss) \<subseteq> set ss"
  by (induction ss) auto

lemma free_distinct: "distinct (map g ss) \<Longrightarrow> distinct (map g (source_node_free i ss))"
  using free_set by (induction ss) fastforce+

lemma free_get: "distinct (map ms_id ss) \<Longrightarrow> j \<noteq> i \<Longrightarrow>
    find (\<lambda>s. ms_id s = j) (source_node_free i ss) = find (\<lambda>s. ms_id s = j) ss"
  by (induction ss) auto

lemma free_gone: "distinct (map ms_id ss) \<Longrightarrow> s \<in> set (source_node_free i ss) \<Longrightarrow> ms_id s \<noteq> i"
  by (induction ss) (force split: if_splits)+

lemma free_inv: "hub_inv h \<Longrightarrow> hub_inv (h\<lparr>hb_sources := source_node_free i (hb_sources h)\<rparr>)"
  using free_set[of i "hb_sources h"] by (auto simp: hub_inv_def free_distinct)

section \<open>Every operation keeps the registry\<close>

lemmas hub_quiet = quiet_def hub_key_def source_wf_def

lemma clear_inv_hub: "hub_inv h \<Longrightarrow> hub_inv (zms_media_source_clear h i)"
  unfolding zms_media_source_clear_def
  by (intro upd_inv) (auto simp: hub_quiet split: option.splits)

lemma fini_inv: "hub_inv h \<Longrightarrow> hub_inv (fst (zms_media_event_publish_fini h i origin))"
  by (auto simp: zms_media_event_publish_fini_def hub_quiet split: option.splits intro!: upd_inv)

lemma take_off_inv: "quiet f \<Longrightarrow> hub_inv h \<Longrightarrow> hub_inv (fst (take_off f h i force))"
proof -
  assume q: "quiet f" and h: "hub_inv h"
  have "quiet (\<lambda>s. f (s\<lparr>ms_publishing := False, ms_publisher_ctx := None, ms_publisher_kick := None\<rparr>))"
    using q by (auto simp: hub_quiet)
  from upd_inv[OF this h] fini_inv h show ?thesis
    by (auto simp: take_off_def Let_def case_prod_beta intro!: clear_inv_hub split: option.splits)
qed

lemma unregister_inv: "hub_inv h \<Longrightarrow> hub_inv (fst (zms_media_source_unregister h i))"
  by (auto simp: zms_media_source_unregister_def free_inv split: option.splits)

lemma unregister_vod_inv: "hub_inv h \<Longrightarrow> hub_inv (zms_media_source_unregister_vod h i)"
  by (auto simp: zms_media_source_unregister_vod_def free_inv split: option.splits)

lemma vod_stop_inv: "hub_inv h \<Longrightarrow> hub_inv (fst (zms_vod_source_stop h i))"
proof -
  assume h: "hub_inv h"
  have "hub_inv (hub_upd (fst (zms_media_event_publish_fini h i n)) i (\<lambda>s. s\<lparr>ms_publisher_ctx := None\<rparr>))" for n
    using fini_inv[OF h] by (intro upd_inv) (auto simp: hub_quiet)
  with h show ?thesis
    by (auto simp: zms_vod_source_stop_def case_prod_beta intro!: unregister_vod_inv split: option.splits)
qed

lemma close_inv: "hub_inv h \<Longrightarrow> hub_inv (fst (snd (zms_media_source_close h i force)))"
  by (auto simp: zms_media_source_close_def vod_stop_inv take_off_inv hub_quiet split: option.splits)

text \<open>A new node: only it changes.\<close>

lemma upd_new:
  assumes "\<forall>s \<in> set ss. ms_id s < n"
  shows "map (\<lambda>s. if ms_id s = n then f s else s) ss = ss"
  using assms by (intro map_idI) auto

lemma find_key_None:
  assumes "hub_inv h" "find (\<lambda>s. key_match s schema app stream) (hb_sources h) = None"
  shows "(schema, app, stream) \<notin> hub_key ` set (hb_sources h)"
  using assms by (auto simp: find_None_iff key_match_def hub_inv_def source_wf_def source_active_def hub_key_def)

lemma new_node_inv:
  assumes "hub_inv h" "find (\<lambda>s. key_match s schema app stream) (hb_sources h) = None"
    and "ms_id s = hb_next h" "hub_key s = (schema, app, stream)" "source_wf s"
  shows "hub_inv (h\<lparr>hb_next := Suc (hb_next h), hb_sources := s # hb_sources h\<rparr>)"
  using assms find_key_None[OF assms(1,2)] by (auto simp: hub_inv_def less_Suc_eq)

lemma fits:
  "names_fit schema app stream \<Longrightarrow> fit ZMS_SCHEMA_MAX schema = schema"
  "names_fit schema app stream \<Longrightarrow> fit ZMS_APP_MAX app = app"
  "names_fit schema app stream \<Longrightarrow> fit ZMS_STREAM_MAX stream = stream"
  by (simp_all add: names_fit_def fit_def hub_sizes)

lemma fits_less: "names_fit schema app stream \<Longrightarrow> length app < ZMS_APP_MAX"
  "names_fit schema app stream \<Longrightarrow> length stream < ZMS_STREAM_MAX"
  by (simp_all add: names_fit_def)

lemma new_live_inv:
  assumes "hub_inv h" "names_fit schema app stream" "find (\<lambda>s. key_match s schema app stream) (hb_sources h) = None"
    and n: "new_live e h schema app stream requested = (r, h1)"
  shows "hub_inv h1"
proof -
  have ids: "\<forall>s \<in> set (hb_sources h). ms_id s < hb_next h" using assms(1) by (simp add: hub_inv_def)
  have grow: "hub_inv (h\<lparr>hb_next := Suc (hb_next h)\<rparr>)" using assms(1) by (auto simp: hub_inv_def)
  show ?thesis using n grow assms(1)
    by (auto simp: new_live_def source_node_alloc_def Let_def hub_upd_def upd_new[OF ids] fits[OF assms(2)] fits_less[OF assms(2)]
        hub_key_def source_wf_def split: if_splits option.splits intro!: new_node_inv[OF assms(1,3)])
qed

lemma register_publish_inv:
  assumes "hub_inv h" "names_fit schema app requested"
  shows "hub_inv (fst (snd (zms_media_source_register_publish e h schema app requested)))"
proof (cases "find (\<lambda>s. key_match s schema app requested) (hb_sources h)")
  case None
  obtain r h1 where n: "new_live e h schema app requested requested = (r, h1)" by fastforce
  with new_live_inv[OF assms None n] assms(1) None show ?thesis
    by (simp add: zms_media_source_register_publish_def)
next
  case (Some s)
  have "quiet (\<lambda>s. s\<lparr>ms_stream_requested := fit ZMS_STREAM_MAX requested\<rparr>)" by (auto simp: hub_quiet)
  from take_off_inv[OF this assms(1)] assms(1) Some show ?thesis
    by (simp add: zms_media_source_register_publish_def)
qed

lemma register_vod_inv:
  assumes "hub_inv h" "names_fit schema app stream"
  shows "hub_inv (snd (zms_media_source_register_vod e h schema app stream))"
proof -
  have ids: "\<forall>s \<in> set (hb_sources h). ms_id s < hb_next h" using assms(1) by (simp add: hub_inv_def)
  have grow: "hub_inv (h\<lparr>hb_next := Suc (hb_next h)\<rparr>)" using assms(1) by (auto simp: hub_inv_def)
  show ?thesis using grow assms(1)
    by (auto simp: zms_media_source_register_vod_def source_node_alloc_def Let_def hub_upd_def upd_new[OF ids] fits[OF assms(2)] fits_less[OF assms(2)]
        hub_key_def source_wf_def split: option.splits intro!: new_node_inv[OF assms(1)])
qed

text \<open>Registering returns: each call of itself follows the removal of a source.\<close>

lemma vod_stop_removes:
  assumes "hub_inv h" "s \<in> set (hb_sources h)" "ms_vod_buffer s \<noteq> None"
  shows "length (hb_sources (fst (zms_vod_source_stop h (ms_id s)))) < length (hb_sources h)"
proof -
  have len: "length (source_node_free i ss) < length ss" if "i \<in> ms_id ` set ss" for i and ss :: "'b zms_media_source list"
    using that by (induction ss) auto
  have g: "hub_get h (ms_id s) = Some s" using assms get_iff by (auto simp: hub_inv_def)
  have v: "zms_media_source_is_vod s" using assms by (auto simp: zms_media_source_is_vod_def hub_inv_def source_wf_def)
  have un: "length (hb_sources (zms_media_source_unregister_vod k (ms_id s))) < length (hb_sources k)"
    if "hub_get k (ms_id s) = Some t" "ms_vod_buffer t \<noteq> None" for k t
  proof -
    have "ms_id s \<in> ms_id ` set (hb_sources k)" using get_Some[OF that(1)] by force
    from len[OF this] that show ?thesis by (auto simp: zms_media_source_unregister_vod_def)
  qed
  show ?thesis
  proof (cases "ms_publisher_ctx s")
    case None
    then show ?thesis using un[OF g assms(3)] by (simp add: zms_vod_source_stop_def g v)
  next
    case (Some rd)
    let ?h1 = "fst (zms_media_event_publish_fini h (ms_id s) ZMS_ORIGIN_MP4_VOD)"
    let ?h2 = "hub_upd ?h1 (ms_id s) (\<lambda>s. s\<lparr>ms_publisher_ctx := None\<rparr>)"
    have "length (hb_sources ?h2) = length (hb_sources h)" by (simp add: zms_media_event_publish_fini_def g)
    moreover have "\<exists>t. hub_get ?h2 (ms_id s) = Some t \<and> ms_vod_buffer t \<noteq> None"
      using assms(3) by (auto simp: zms_media_event_publish_fini_def get_upd g)
    ultimately show ?thesis using un[of ?h2] by (auto simp: zms_vod_source_stop_def g v Some case_prod_beta)
  qed
qed

lemma find_eq_get:
  assumes "hub_inv h"
  shows "zms_media_source_find h schema app stream = Some i \<longleftrightarrow> (\<exists>s. hub_get h i = Some s \<and> hub_key s = (schema, app, stream))"
    (is "?L \<longleftrightarrow> ?R")
proof -
  have d: "distinct (map ms_id (hb_sources h))" "distinct (map hub_key (hb_sources h))"
    using assms by (auto simp: hub_inv_def)
  have act: "key_match s schema app stream \<longleftrightarrow> hub_key s = (schema, app, stream)" if "s \<in> set (hb_sources h)" for s
    using that assms by (auto simp: key_match_def hub_key_def hub_inv_def source_wf_def source_active_def)
  show ?thesis
  proof
    assume ?L
    then obtain s where "find (\<lambda>s. key_match s schema app stream) (hb_sources h) = Some s" "ms_id s = i"
      by (auto simp: zms_media_source_find_def)
    then have "s \<in> set (hb_sources h)" "key_match s schema app stream" by (auto simp: find_Some_iff)
    with act get_iff[OF d(1)] \<open>ms_id s = i\<close> show ?R by auto
  next
    assume ?R
    then obtain s where s: "s \<in> set (hb_sources h)" "ms_id s = i" "hub_key s = (schema, app, stream)"
      using get_iff[OF d(1)] by auto
    then obtain t where t: "find (\<lambda>s. key_match s schema app stream) (hb_sources h) = Some t"
      using act by (metis (mono_tags, lifting) find_None_iff not_Some_eq)
    then have "t \<in> set (hb_sources h)" "key_match t schema app stream" by (auto simp: find_Some_iff)
    with act s d(2) have "t = s" by (metis inj_on_eq_iff distinct_map)
    with t s show ?L by (simp add: zms_media_source_find_def)
  qed
qed

lemma inv_ids: "hub_inv h \<Longrightarrow> \<forall>s \<in> set (hb_sources h). ms_id s < hb_next h"
  by (simp add: hub_inv_def)

lemma new_live_ok:
  assumes ids: "\<forall>s \<in> set (hb_sources h). ms_id s < hb_next h" and "he_node_ok e" "zms_gop_queue_create (he_gop e) (he_buf_ok e) = Some q"
    and "new_live e h schema app stream requested = (r, h1)"
  shows "r = Some (hb_next h) \<and> hub_get h (hb_next h) = None \<and> hb_next h1 = Suc (hb_next h)
    \<and> (\<exists>s. hub_get h1 (hb_next h) = Some s \<and> ms_gop_queue s = Some q
         \<and> hub_key s = (fit ZMS_SCHEMA_MAX schema, fit ZMS_APP_MAX app, fit ZMS_STREAM_MAX stream)
         \<and> \<not> ms_publishing s \<and> ms_publisher_kick s = None \<and> ms_reader_count s = 0
         \<and> hb_sources h1 = s # hb_sources h)"
proof -
  from ids have "hub_get h (hb_next h) = None" by (auto simp: hub_get_def find_None_iff)
  with assms(2-) show ?thesis
    by (auto simp: new_live_def source_node_alloc_def Let_def hub_upd_def upd_new[OF ids] hub_get_def hub_key_def)
qed

lemma take_off_find:
  assumes "hub_inv h" "zms_media_source_find h schema app stream = Some i"
    and "hub_inv (fst (take_off (\<lambda>s. s) h i force))"
  shows "zms_media_source_find (fst (take_off (\<lambda>s. s) h i force)) schema app stream = Some i"
proof -
  obtain s where s: "hub_get h i = Some s" "hub_key s = (schema, app, stream)" using assms(2) find_eq_get[OF assms(1)] by blast
  then have "\<exists>t. hub_get (fst (take_off (\<lambda>s. s) h i force)) i = Some t \<and> hub_key t = hub_key s"
    by (auto simp: take_off_def zms_media_source_clear_def zms_media_event_publish_fini_def get_upd hub_key_def Let_def
        split: option.splits)
  with s find_eq_get[OF assms(3)] show ?thesis by auto
qed

lemma register_inv:
  assumes "hub_inv (h :: 'b stream_hub)" "names_fit schema app stream"
  shows "\<exists>r h1 cs. zms_media_source_register e h schema app stream = Some (r, h1, cs) \<and> hub_inv h1
    \<and> (\<forall>i. r = Some i \<longrightarrow> zms_media_source_find h1 schema app stream = Some i)"
  using assms
proof (induction "length (hb_sources h)" arbitrary: h rule: less_induct)
  case less
  show ?case
  proof (cases "find (\<lambda>s. key_match s schema app stream) (hb_sources h)")
    case None
    obtain r h1 where n: "new_live e h schema app stream [] = (r, h1)" by fastforce
    have "zms_media_source_find h1 schema app stream = Some i" if "r = Some i" for i
    proof -
      from n that obtain q :: "'b zms_gop_queue" where q: "he_node_ok e" "zms_gop_queue_create (he_gop e) (he_buf_ok e) = Some q"
        by (auto simp: new_live_def source_node_alloc_def Let_def split: if_splits option.splits)
      from new_live_ok[OF inv_ids[OF less.prems(1)] q n] that fits[OF less.prems(2)] show ?thesis
        using find_eq_get[OF new_live_inv[OF less.prems None n]] by auto
    qed
    with None n new_live_inv[OF less.prems None n] show ?thesis by (subst zms_media_source_register.simps) simp
  next
    case (Some s)
    then have s: "s \<in> set (hb_sources h)" by (auto simp: find_Some_iff)
    show ?thesis
    proof (cases "ms_vod_buffer s = None")
      case True
      have "hub_inv (fst (take_off (\<lambda>s. s) h (ms_id s) True))"
        using take_off_inv[of "\<lambda>s. s"] less.prems(1) by (simp add: quiet_def)
      from this take_off_find[OF less.prems(1) _ this] Some True show ?thesis
        by (subst zms_media_source_register.simps) (simp add: zms_media_source_find_def prod_eq_iff)
    next
      case False
      obtain h1 cs where st: "zms_vod_source_stop h (ms_id s) = (h1, cs)" by fastforce
      from less.hyps[OF vod_stop_removes[OF less.prems(1) s False] vod_stop_inv[OF less.prems(1)] less.prems(2)] st
      obtain r h2 cs2 where "zms_media_source_register e h1 schema app stream = Some (r, h2, cs2)" "hub_inv h2"
        "\<forall>i. r = Some i \<longrightarrow> zms_media_source_find h2 schema app stream = Some i" by auto
      then show ?thesis using Some False st by (subst zms_media_source_register.simps) simp
    qed
  qed
qed

section \<open>The registries the program reaches\<close>

text \<open>
  A step is one operation of the registry, or what a publisher, a player or a reader of a file
  does to the source it holds, which leaves the identity of the source alone. Names that do
  not fit are left out here; what they lead to is a theorem below.
\<close>

inductive hub_step :: "'b stream_hub \<Rightarrow> 'b stream_hub \<Rightarrow> bool" where
  step_register: "names_fit schema app stream \<Longrightarrow> zms_media_source_register e h schema app stream = Some (r, h1, cs)
    \<Longrightarrow> hub_step h h1"
| step_register_publish: "names_fit schema app stream
    \<Longrightarrow> zms_media_source_register_publish e h schema app stream = (r, h1, cs) \<Longrightarrow> hub_step h h1"
| step_register_vod: "names_fit schema app stream \<Longrightarrow> zms_media_source_register_vod e h schema app stream = (r, h1)
    \<Longrightarrow> hub_step h h1"
| step_publish: "(\<forall>s. hub_get h i = Some s \<longrightarrow> ms_vod_buffer s \<noteq> None \<longrightarrow> origin = ZMS_ORIGIN_MP4_VOD)
    \<Longrightarrow> hub_step h (fst (zms_media_event_publish h i origin))"
| step_publish_fini: "hub_step h (fst (zms_media_event_publish_fini h i origin))"
| step_reader_add: "hub_step h (fst (zms_media_source_reader_add h i))"
| step_reader_remove: "hub_step h (fst (zms_media_source_reader_remove h i))"
| step_set_publisher: "hub_step h (fst (zms_media_source_set_publisher h i ctx kick))"
| step_clear_publisher: "hub_step h (zms_media_source_clear_publisher h i ctx)"
| step_close: "hub_step h (fst (snd (zms_media_source_close h i force)))"
| step_clear: "hub_step h (zms_media_source_clear h i)"
| step_unregister: "hub_step h (fst (zms_media_source_unregister h i))"
| step_unregister_vod: "hub_step h (zms_media_source_unregister_vod h i)"
| step_vod_stop: "hub_step h (fst (zms_vod_source_stop h i))"
| step_detach: "hub_step h (fst (zms_media_subscriber_detach h sub))"
| step_subscribe: "hub_step h (fst (snd (zms_media_source_subscribe vp ap ok rid h i live sub)))"
| step_subscribe_gop: "hub_step h (fst (snd (zms_media_source_subscribe_gop E g vp ap ok rid h i sub)))"
| step_subscribe_vod: "hub_step h (fst (snd (zms_media_source_subscribe_vod E ok h i sub)))"
| step_source: "quiet f \<Longrightarrow> hub_step h (hub_upd h i f)"

inductive hub_reach :: "'b stream_hub \<Rightarrow> bool" where
  reach_init: "hub_reach stream_hub_init"
| reach_step: "hub_reach h \<Longrightarrow> hub_step h h1 \<Longrightarrow> hub_reach h1"

lemma upd_inv_at:
  assumes "hub_inv h" "\<And>s. ms_id (f s) = ms_id s \<and> hub_key (f s) = hub_key s"
    and "\<And>s. hub_get h i = Some s \<Longrightarrow> source_wf s \<Longrightarrow> source_wf (f s)"
  shows "hub_inv (hub_upd h i f)"
proof -
  have d: "distinct (map ms_id (hb_sources h))" using assms(1) by (simp add: hub_inv_def)
  have m: "map ms_id (hb_sources (hub_upd h i f)) = map ms_id (hb_sources h)"
    "map hub_key (hb_sources (hub_upd h i f)) = map hub_key (hb_sources h)"
    using assms(2) by auto
  have "\<forall>s \<in> set (hb_sources (hub_upd h i f)). ms_id s < hb_next h \<and> source_wf s"
    using assms get_iff[OF d] by (auto simp: hub_inv_def)
  with assms(1) show ?thesis unfolding hub_inv_def m by simp
qed

lemma set_queue_inv: "hub_inv h \<Longrightarrow> hub_get h i = Some s \<Longrightarrow> ms_gop_queue s \<noteq> None
    \<Longrightarrow> hub_inv (hub_upd h i (\<lambda>s. s\<lparr>ms_gop_queue := Some q\<rparr>))"
  by (rule upd_inv_at) (auto simp: hub_key_def source_wf_def)

lemma detach_inv: "hub_inv h \<Longrightarrow> hub_inv (fst (zms_media_subscriber_detach h sub))"
  by (auto simp: zms_media_subscriber_detach_def case_prod_beta bind_eq_Some_conv intro: set_queue_inv split: option.splits)

lemma subscribe_inv: "hub_inv h \<Longrightarrow> hub_inv (fst (snd (zms_media_source_subscribe vp ap ok rid h i live sub)))"
  using detach_inv[of h sub]
  by (auto simp: zms_media_source_subscribe_def case_prod_beta intro: set_queue_inv split: option.splits)

lemma subscribe_gop_inv: "hub_inv h \<Longrightarrow> hub_inv (fst (snd (zms_media_source_subscribe_gop E g vp ap ok rid h i sub)))"
  using detach_inv[of h sub]
  by (auto simp: zms_media_source_subscribe_gop_def case_prod_beta intro: set_queue_inv split: option.splits)

lemma subscribe_vod_inv: "hub_inv h \<Longrightarrow> hub_inv (fst (snd (zms_media_source_subscribe_vod E ok h i sub)))"
  using detach_inv[of h sub]
  by (auto simp: zms_media_source_subscribe_vod_def case_prod_beta split: option.splits)

lemma publish_inv:
  assumes "hub_inv h" "\<forall>s. hub_get h i = Some s \<longrightarrow> ms_vod_buffer s \<noteq> None \<longrightarrow> origin = ZMS_ORIGIN_MP4_VOD"
  shows "hub_inv (fst (zms_media_event_publish h i origin))"
  using assms by (auto simp: zms_media_event_publish_def hub_key_def source_wf_def intro!: upd_inv_at split: option.splits)

lemma small_ops_inv: "hub_inv h \<Longrightarrow> hub_inv (fst (zms_media_source_reader_add h i))"
  "hub_inv h \<Longrightarrow> hub_inv (fst (zms_media_source_reader_remove h i))"
  "hub_inv h \<Longrightarrow> hub_inv (fst (zms_media_source_set_publisher h i ctx kick))"
  "hub_inv h \<Longrightarrow> hub_inv (zms_media_source_clear_publisher h i ctx)"
  by (auto simp: zms_media_source_reader_add_def zms_media_source_reader_remove_def zms_media_source_set_publisher_def
      zms_media_source_clear_publisher_def hub_quiet intro!: upd_inv split: option.splits)

lemma hub_step_inv: "hub_step h h1 \<Longrightarrow> hub_inv h \<Longrightarrow> hub_inv h1"
proof (induction rule: hub_step.induct)
  case (step_register schema app stream e h r h1 cs)
  with register_inv[of h schema app stream e] show ?case by auto
next
  case (step_register_publish schema app stream e h r h1 cs)
  with register_publish_inv[of h schema app stream e] show ?case by simp
next
  case (step_register_vod schema app stream e h r h1)
  with register_vod_inv[of h schema app stream e] show ?case by simp
qed (simp_all add: publish_inv fini_inv small_ops_inv close_inv clear_inv_hub unregister_inv unregister_vod_inv vod_stop_inv
    detach_inv subscribe_inv subscribe_gop_inv subscribe_vod_inv upd_inv)

lemma hub_reach_inv: "hub_reach h \<Longrightarrow> hub_inv h"
proof (induction rule: hub_reach.induct)
  case reach_init
  show ?case by (simp add: stream_hub_init_def hub_inv_def)
qed (rule hub_step_inv)

text \<open>
  C9: Every source of a reachable registry is of one kind: a live source has a ring and no buffer, an
  on-demand source a buffer, no ring and the origin of files; and its names fit their arrays.\<close>

theorem hub_source_kind:
  assumes "hub_reach h" "s \<in> set (hb_sources h)"
  shows "(ms_gop_queue s = None) = (ms_vod_buffer s \<noteq> None)
    \<and> (ms_vod_buffer s \<noteq> None \<longrightarrow> ms_publish_origin s = ZMS_ORIGIN_MP4_VOD)
    \<and> length (ms_app s) < ZMS_APP_MAX \<and> length (ms_stream s) < ZMS_STREAM_MAX"
  using hub_reach_inv[OF assms(1)] assms(2) by (auto simp: hub_inv_def source_wf_def)

section \<open>Looking up and taking over\<close>

text \<open>What is left of a live source that has been taken off.\<close>

definition taken_off :: "'b zms_media_source \<Rightarrow> 'b zms_gop_queue \<Rightarrow> 'b zms_media_source" where
  "taken_off s q = s\<lparr>ms_gop_queue := Some (zms_gop_queue_clear q), ms_has_video := False, ms_has_audio := False,
     ms_video := zms_video_track_clear, ms_audio := zms_audio_track_clear, ms_publishing := False,
     ms_stats := zms_media_stats_reset, ms_publisher_ctx := None, ms_publisher_kick := None\<rparr>"

definition kick_calls :: "'b zms_media_source \<Rightarrow> bool \<Rightarrow> 'b hub_call list" where
  "kick_calls s force = (case ms_publisher_kick s of Some k \<Rightarrow> [Publisher_Kick k (ms_publisher_ctx s) force] | None \<Rightarrow> [])"

lemma take_off_result:
  assumes "hub_get h i = Some s" "ms_gop_queue s = Some q" "\<forall>s. f s = s\<lparr>ms_stream_requested := g s\<rparr>"
    and "\<forall>s. g (s\<lparr>ms_publishing := False, ms_publisher_ctx := None, ms_publisher_kick := None\<rparr>) = g s"
    and "take_off f h i force = (h1, cs)"
  shows "hub_get h1 i = Some (taken_off s q\<lparr>ms_stream_requested := g s\<rparr>) \<and> (\<forall>j. j \<noteq> i \<longrightarrow> hub_get h1 j = hub_get h j)
    \<and> cs = kick_calls s force @ (if ms_publishing s then [Mp4_Recorder_Stop i] else [])"
  using assms
  by (auto simp: take_off_def kick_calls_def taken_off_def zms_media_source_clear_def zms_media_event_publish_fini_def
      get_upd Let_def option.map_ident split: if_splits option.splits)

lemma taken_off_key: "hub_key (taken_off s q\<lparr>ms_stream_requested := r\<rparr>) = hub_key s"
  by (simp add: taken_off_def hub_key_def)

text \<open>
  C8: In every reachable registry a key names at most one source, and the lookup by schema, app and
  stream finds a source exactly when it is registered under that key.\<close>

theorem hub_lookup_exact:
  assumes "hub_reach h"
  shows "distinct (map ms_id (hb_sources h)) \<and> distinct (map hub_key (hb_sources h))
    \<and> (zms_media_source_find h schema app stream = Some i
        \<longleftrightarrow> (\<exists>s. hub_get h i = Some s \<and> hub_key s = (schema, app, stream)))"
  using hub_reach_inv[OF assms] find_eq_get[OF hub_reach_inv[OF assms]] by (simp add: hub_inv_def)

text \<open>
  C10: Publishing under a key: a live source that is there already is taken over (its publisher is
  kicked once, by force, its ring is emptied, nobody publishes to it, it keeps its number, its readers
  and its place under the key); an on-demand source refuses; otherwise a new source with the next number
  and an empty ring is found under the key. No other source changes.\<close>

theorem publish_takes_over:
  assumes "hub_reach (h :: 'b stream_hub)" "names_fit schema app name" "name \<noteq> []" "he_node_ok e" "he_buf_ok e"
    and "zms_media_source_register_publish e h schema app name = (r, h1, cs)"
  shows "(\<forall>j. Some j \<noteq> r \<longrightarrow> hub_get h1 j = hub_get h j)
    \<and> (case zms_media_source_find h schema app name of
        Some i \<Rightarrow> (\<exists>s. hub_get h i = Some s
          \<and> (case ms_gop_queue s of
               None \<Rightarrow> r = None \<and> h1 = h \<and> cs = []
             | Some q \<Rightarrow> r = Some i \<and> zms_media_source_find h1 schema app name = Some i
                 \<and> hub_get h1 i = Some (taken_off s q\<lparr>ms_stream_requested := name\<rparr>)
                 \<and> cs = kick_calls s True @ (if ms_publishing s then [Mp4_Recorder_Stop i] else [])))
      | None \<Rightarrow> r = Some (hb_next h) \<and> hub_get h (hb_next h) = None \<and> cs = []
          \<and> zms_media_source_find h1 schema app name = Some (hb_next h)
          \<and> (\<exists>s. hub_get h1 (hb_next h) = Some s \<and> ms_gop_queue s = zms_gop_queue_create (he_gop e) True
                \<and> \<not> ms_publishing s \<and> ms_publisher_kick s = None))"
proof -
  note inv = hub_reach_inv[OF assms(1)]
  have inv1: "hub_inv h1" using register_publish_inv[OF inv assms(2), of e] assms(6) by simp
  note look = find_eq_get[OF inv] find_eq_get[OF inv1]
  show ?thesis
  proof (cases "find (\<lambda>s. key_match s schema app name) (hb_sources h)")
    case None
    then have f: "zms_media_source_find h schema app name = None" by (simp add: zms_media_source_find_def)
    obtain q :: "'b zms_gop_queue" where q: "zms_gop_queue_create (he_gop e) (he_buf_ok e) = Some q" using assms(5) by (simp add: zms_gop_queue_create_def)
    have n: "new_live e h schema app name name = (r, h1)" "cs = []"
      using assms(3,6) None by (auto simp: zms_media_source_register_publish_def split: prod.splits)
    from new_live_ok[OF inv_ids[OF inv] assms(4) q n(1)] obtain s where s: "r = Some (hb_next h)" "hub_get h (hb_next h) = None"
      "hub_get h1 (hb_next h) = Some s" "ms_gop_queue s = Some q" "\<not> ms_publishing s" "ms_publisher_kick s = None"
      "hub_key s = (schema, app, name)" "hb_sources h1 = s # hb_sources h" by (auto simp: fits[OF assms(2)])
    have "hub_get h1 j = hub_get h j" if "j \<noteq> hb_next h" for j
      using s(3,8) that get_Some[OF s(3)] by (simp add: hub_get_def)
    then show ?thesis using s n(2) q assms(5) by (simp add: f look)
  next
    case (Some s)
    have sin: "s \<in> set (hb_sources h)" "hub_key s = (schema, app, name)"
      using Some by (auto simp: find_Some_iff key_match_def hub_key_def)
    then have g: "hub_get h (ms_id s) = Some s" using get_iff inv by (auto simp: hub_inv_def)
    have f: "zms_media_source_find h schema app name = Some (ms_id s)" using Some by (simp add: zms_media_source_find_def)
    have wf: "(ms_gop_queue s = None) = (ms_vod_buffer s \<noteq> None)" using inv sin by (auto simp: hub_inv_def source_wf_def)
    show ?thesis
    proof (cases "ms_gop_queue s")
      case None
      have "r = None" "h1 = h" "cs = []"
        using assms(3,6) Some wf None by (auto simp: zms_media_source_register_publish_def)
      then show ?thesis using None by (simp add: f g)
    next
      case (Some q)
      let ?f = "\<lambda>s. s\<lparr>ms_stream_requested := fit ZMS_STREAM_MAX name\<rparr>"
      have t: "take_off ?f h (ms_id s) True = (h1, cs)" "r = Some (ms_id s)"
        using assms(3,6) Some wf \<open>find _ _ = Some s\<close> by (auto simp: zms_media_source_register_publish_def)
      have fn: "\<forall>t. ?f t = t\<lparr>ms_stream_requested := (\<lambda>_. fit ZMS_STREAM_MAX name) t\<rparr>" by simp
      from take_off_result[OF g Some fn _ t(1)] fits[OF assms(2)] have
        "hub_get h1 (ms_id s) = Some (taken_off s q\<lparr>ms_stream_requested := name\<rparr>)"
        "\<forall>j. j \<noteq> ms_id s \<longrightarrow> hub_get h1 j = hub_get h j"
        "cs = kick_calls s True @ (if ms_publishing s then [Mp4_Recorder_Stop (ms_id s)] else [])" by simp_all
      then show ?thesis using t(2) Some by (simp add: f g look taken_off_key sin)
    qed
  qed
qed

text \<open>
  Registering a source returns, although it calls itself after it has stopped an on-demand
  source under the same key, and the source it gives, if any, is then the one found under the key.\<close>

theorem register_returns:
  assumes "hub_reach h" "names_fit schema app stream"
  shows "\<exists>r h1 cs. zms_media_source_register e h schema app stream = Some (r, h1, cs)
    \<and> hub_reach h1 \<and> (\<forall>i. r = Some i \<longrightarrow> zms_media_source_find h1 schema app stream = Some i)"
proof -
  from register_inv[OF hub_reach_inv[OF assms(1)] assms(2), of e] obtain r h1 cs where
    r: "zms_media_source_register e h schema app stream = Some (r, h1, cs)"
      "\<forall>i. r = Some i \<longrightarrow> zms_media_source_find h1 schema app stream = Some i" by blast
  with reach_step[OF assms(1) step_register[OF assms(2) r(1)]] show ?thesis by blast
qed

text \<open>
  C28: When a live source is closed while it is published, its publisher is kicked and its ring is
  emptied, but the end of the publishing is not reported: the flag that \<open>zms_media_event_publish_fini\<close> tests
  has been cleared before it is called. The source also stays in the registry, under its key.\<close>

theorem close_never_reports:
  assumes "hub_reach h" "hub_get h i = Some s" "ms_gop_queue s = Some q" "zms_media_source_close h i force = (b, h1, cs)"
  shows "b \<and> cs = kick_calls s force @ (if ms_publishing s then [Mp4_Recorder_Stop i] else [])
    \<and> hub_get h1 i = Some (taken_off s q)
    \<and> (\<forall>j origin. On_Media_Publish_Fini j origin \<notin> set cs)
    \<and> (case hub_key s of (schema, app, stream) \<Rightarrow> zms_media_source_find h1 schema app stream = Some i)"
proof -
  note inv = hub_reach_inv[OF assms(1)]
  have wf: "ms_vod_buffer s = None" using inv get_Some[OF assms(2)] assms(3) by (auto simp: hub_inv_def source_wf_def)
  have t: "take_off (\<lambda>s. s) h i force = (h1, cs)" "b"
    using assms(2-4) wf by (auto simp: zms_media_source_close_def zms_media_source_is_vod_def)
  have inv1: "hub_inv h1" using take_off_inv[of "\<lambda>s. s" h i force] inv t(1) by (simp add: quiet_def)
  have idf: "\<forall>s. (\<lambda>s. s) s = s\<lparr>ms_stream_requested := ms_stream_requested s\<rparr>" by simp
  have "taken_off s q\<lparr>ms_stream_requested := ms_stream_requested s\<rparr> = taken_off s q" by (simp add: taken_off_def)
  with take_off_result[OF assms(2,3) idf _ t(1)] have r: "hub_get h1 i = Some (taken_off s q)"
    "cs = kick_calls s force @ (if ms_publishing s then [Mp4_Recorder_Stop i] else [])" by simp_all
  have "\<forall>j origin. On_Media_Publish_Fini j origin \<notin> set cs" by (auto simp: r(2) kick_calls_def split: option.splits)
  moreover have "hub_key (taken_off s q) = hub_key s" by (simp add: taken_off_def hub_key_def)
  ultimately show ?thesis using r t(2) by (simp add: find_eq_get[OF inv1] split: prod.splits)
qed

lemma long_name_new:
  assumes "\<forall>s \<in> set (hb_sources (h :: 'b stream_hub)). ms_id s < hb_next h \<and> length (ms_stream s) < ZMS_STREAM_MAX"
    and "he_node_ok e" "he_buf_ok e" "ZMS_STREAM_MAX \<le> length name"
    and "zms_media_source_register_publish e h schema app name = (r, h1, cs)"
  shows "r = Some (hb_next h) \<and> hb_next h1 = Suc (hb_next h)
    \<and> (\<exists>s. hb_sources h1 = s # hb_sources h \<and> ms_id s = hb_next h \<and> length (ms_stream s) < ZMS_STREAM_MAX
         \<and> hub_key s = (fit ZMS_SCHEMA_MAX schema, fit ZMS_APP_MAX app, fit ZMS_STREAM_MAX name))"
proof -
  have "find (\<lambda>s. key_match s schema app name) (hb_sources h) = None"
    using assms(1,4) by (auto simp: find_None_iff key_match_def)
  moreover have "name \<noteq> []" using assms(4) by (auto simp: ZMS_STREAM_MAX_def)
  ultimately have n: "new_live e h schema app name name = (r, h1)"
    using assms(5) by (auto simp: zms_media_source_register_publish_def split: prod.splits)
  have ids: "\<forall>s \<in> set (hb_sources h). ms_id s < hb_next h" using assms(1) by simp
  obtain q :: "'b zms_gop_queue" where "zms_gop_queue_create (he_gop e) (he_buf_ok e) = Some q"
    using assms(3) by (simp add: zms_gop_queue_create_def)
  from new_live_ok[OF ids assms(2) this n] show ?thesis
    by (auto simp: hub_key_def fit_def ZMS_STREAM_MAX_def dest: get_Some)
qed

text \<open>
  A stream whose name does not fit its array is registered under the beginning of the name but looked
  up under the whole: publishing it again does not take the first source over but adds another one
  under the same cut name, and neither is found.\<close>

theorem long_name_registers_twice:
  assumes "hub_reach h" "he_node_ok e" "he_buf_ok e" "ZMS_STREAM_MAX \<le> length name"
    and "zms_media_source_register_publish e h schema app name = (r, h1, cs)"
    and "zms_media_source_register_publish e h1 schema app name = (r2, h2, cs2)"
  shows "r = Some (hb_next h) \<and> r2 = Some (hb_next h + 1) \<and> zms_media_source_find h2 schema app name = None
    \<and> (\<exists>s t. hb_sources h2 = t # s # hb_sources h \<and> hub_key t = hub_key s)"
proof -
  have w: "\<forall>s \<in> set (hb_sources h). ms_id s < hb_next h \<and> length (ms_stream s) < ZMS_STREAM_MAX"
    using hub_reach_inv[OF assms(1)] by (auto simp: hub_inv_def source_wf_def)
  from long_name_new[OF w assms(2-5)] obtain s where s: "r = Some (hb_next h)" "hb_next h1 = Suc (hb_next h)"
    "hb_sources h1 = s # hb_sources h" "ms_id s = hb_next h" "length (ms_stream s) < ZMS_STREAM_MAX"
    "hub_key s = (fit ZMS_SCHEMA_MAX schema, fit ZMS_APP_MAX app, fit ZMS_STREAM_MAX name)" by blast
  have w1: "\<forall>s \<in> set (hb_sources h1). ms_id s < hb_next h1 \<and> length (ms_stream s) < ZMS_STREAM_MAX"
    using w s by (auto simp: less_Suc_eq)
  from long_name_new[OF w1 assms(2-4,6)] obtain t where t: "r2 = Some (hb_next h1)" "hb_sources h2 = t # hb_sources h1"
    "length (ms_stream t) < ZMS_STREAM_MAX"
    "hub_key t = (fit ZMS_SCHEMA_MAX schema, fit ZMS_APP_MAX app, fit ZMS_STREAM_MAX name)" by blast
  have "zms_media_source_find h2 schema app name = None"
    using w1 t(2,3) assms(4) by (auto simp: zms_media_source_find_def find_None_iff key_match_def)
  then show ?thesis using s t by simp
qed

section \<open>Witnesses\<close>

definition ex_hub_env :: hub_env where
  "ex_hub_env = \<lparr>he_node_ok = True, he_buf_ok = True, he_now = 5, he_gop = \<lparr>g_default_target_gops = 2, g_default_cache_ms = 1000\<rparr>\<rparr>"

definition ex_hub1 :: "nat stream_hub" where
  "ex_hub1 = fst (snd (zms_media_source_register_publish ex_hub_env stream_hub_init [1] [2] [3]))"

definition ex_hub2 :: "nat stream_hub" where
  "ex_hub2 = fst (zms_media_event_publish (fst (zms_media_source_set_publisher ex_hub1 0 (Some 7) (Some 9))) 0 1)"

definition ex_source1 :: "nat zms_media_source" where
  "ex_source1 = \<lparr>ms_id = 0, ms_schema = [1], ms_app = [2], ms_stream = [3], ms_stream_requested = [3],
     ms_gop_queue = zms_gop_queue_create (he_gop ex_hub_env) True, ms_vod_buffer = None, ms_has_video = False,
     ms_has_audio = False, ms_video = zms_video_track_clear, ms_audio = zms_audio_track_clear, ms_reader_count = 0,
     ms_publishing = False, ms_publish_origin = 0, ms_create_stamp_ms = 5, ms_stats = zms_media_stats_reset,
     ms_publisher_ctx = None, ms_publisher_kick = None\<rparr>"

lemma ex_hub1_eq: "ex_hub1 = \<lparr>hb_sources = [ex_source1], hb_next = 1\<rparr>"
  by (simp add: ex_hub1_def ex_source1_def ex_hub_env_def stream_hub_init_def zms_media_source_register_publish_def
      new_live_def source_node_alloc_def hub_upd_def zms_gop_queue_create_def fit_def hub_sizes Let_def)

lemma ex_hub2_eq: "ex_hub2 = \<lparr>hb_sources = [ex_source1\<lparr>ms_publishing := True, ms_publish_origin := 1,
    ms_publisher_ctx := Some 7, ms_publisher_kick := Some 9\<rparr>], hb_next = 1\<rparr>"
  by (simp add: ex_hub2_def ex_hub1_eq ex_source1_def zms_media_event_publish_def zms_media_source_set_publisher_def
      hub_get_def hub_upd_def)

lemma ex_hub1_reach: "hub_reach ex_hub1"
  unfolding ex_hub1_def
  by (rule reach_step[OF reach_init step_register_publish[of "[1]" "[2]" "[3]" ex_hub_env]])
    (auto simp: names_fit_def hub_sizes prod_eq_iff)

lemma ex_hub2_reach: "hub_reach ex_hub2"
proof -
  have "hub_step (fst (zms_media_source_set_publisher ex_hub1 0 (Some 7) (Some 9))) ex_hub2"
    unfolding ex_hub2_def
    by (rule step_publish) (simp add: ex_hub1_eq ex_source1_def zms_media_source_set_publisher_def hub_get_def hub_upd_def)
  with ex_hub1_reach show ?thesis by (meson reach_step step_set_publisher)
qed

lemmas ex_hub_simps = ex_hub2_eq ex_source1_def hub_get_def hub_key_def

lemma hub_lookup_exact_witness: "zms_media_source_find ex_hub2 [1] [2] [3] = Some 0 \<and> zms_media_source_find ex_hub2 [1] [2] [4] \<noteq> Some 0"
  using hub_lookup_exact[OF ex_hub2_reach, of "[1]" "[2]" "[3]" 0] hub_lookup_exact[OF ex_hub2_reach, of "[1]" "[2]" "[4]" 0]
  by (simp add: ex_hub_simps)

lemma hub_source_kind_witness: "ms_gop_queue (hd (hb_sources ex_hub2)) \<noteq> None"
  using hub_source_kind[OF ex_hub2_reach, of "hd (hb_sources ex_hub2)"] by (simp add: ex_hub_simps)

lemma publish_takes_over_witness:
  "\<exists>h1. zms_media_source_register_publish ex_hub_env ex_hub2 [1] [2] [3] =
      (Some 0, h1, [Publisher_Kick 9 (Some 7) True, Mp4_Recorder_Stop 0])"
proof -
  obtain r h1 cs where r: "zms_media_source_register_publish ex_hub_env ex_hub2 [1] [2] [3] = (r, h1, cs)"
    by (metis prod_cases3)
  have n: "names_fit [1] [2] [3]" by (simp add: names_fit_def hub_sizes)
  have f: "zms_media_source_find ex_hub2 [1] [2] [3] = Some 0"
    by (simp add: ex_hub_simps zms_media_source_find_def key_match_def source_active_def zms_gop_queue_create_def ex_hub_env_def)
  from publish_takes_over[OF ex_hub2_reach n _ _ _ r] f r show ?thesis
    by (simp add: ex_hub_simps zms_gop_queue_create_def ex_hub_env_def kick_calls_def)
qed

lemma register_returns_witness: "zms_media_source_register ex_hub_env ex_hub2 [1] [2] [3] \<noteq> None"
  using register_returns[OF ex_hub2_reach, of "[1]" "[2]" "[3]" ex_hub_env] by (auto simp: names_fit_def hub_sizes)

lemma close_never_reports_witness:
  "ms_publishing (hd (hb_sources ex_hub2)) \<and> snd (snd (zms_media_source_close ex_hub2 0 True)) = [Publisher_Kick 9 (Some 7) True, Mp4_Recorder_Stop 0]"
proof -
  obtain b h1 cs where c: "zms_media_source_close ex_hub2 0 True = (b, h1, cs)" by (metis prod_cases3)
  have g: "hub_get ex_hub2 0 = Some (hd (hb_sources ex_hub2))" by (simp add: ex_hub_simps)
  obtain q where q: "ms_gop_queue (hd (hb_sources ex_hub2)) = Some q"
    by (simp add: ex_hub_simps zms_gop_queue_create_def)
  from close_never_reports[OF ex_hub2_reach g q c] c show ?thesis by (simp add: ex_hub_simps kick_calls_def)
qed

lemma long_name_registers_twice_witness:
  "zms_media_source_find (fst (snd (zms_media_source_register_publish ex_hub_env
     (fst (snd (zms_media_source_register_publish ex_hub_env ex_hub2 [1] [2] (replicate 128 3)))) [1] [2] (replicate 128 3))))
     [1] [2] (replicate 128 3) = None"
proof -
  let ?n = "replicate 128 3 :: bytes"
  have p: "zms_media_source_register_publish ex_hub_env h [1] [2] ?n = (fst (zms_media_source_register_publish ex_hub_env h [1] [2] ?n),
      fst (snd (zms_media_source_register_publish ex_hub_env h [1] [2] ?n)), snd (snd (zms_media_source_register_publish ex_hub_env h [1] [2] ?n)))"
    for h :: "nat stream_hub" by simp
  show ?thesis using long_name_registers_twice[OF ex_hub2_reach _ _ _ p p]
    by (simp add: ex_hub_env_def ZMS_STREAM_MAX_def)
qed

end
