(* ===== verification/Flv_Probe.thy ===== *)
theory Flv_Probe
  imports Stream_Track Rtp_Muxer
begin

text \<open>
  What can be told of an FLV tag body without demuxing it, \<open>media/container/flv/flv_tag_probe.c\<close>:
  its codec and whether it is a configuration; and the configurations in \<open>h264_over_rtmp.c\<close> and
  \<open>stream_track.c\<close> that are read from such tags. The header and record readers of libflv are
  parameters; its enumerations are the constructors this code names, and \<open>fourcc\<close> gives the codec of
  a four-byte name it knows.
\<close>

datatype flv_codecid = FLV_VIDEO_H264 | FLV_VIDEO_H265 | FLV_VIDEO_AV1 | FLV_VIDEO_H266
  | FLV_AUDIO_AAC | FLV_AUDIO_OPUS | FLV_AUDIO_G711A | FLV_AUDIO_G711U | FLV_AUDIO_FOURCC | FLV_CODEC_OTHER

datatype flv_avpacket = FLV_SEQUENCE_HEADER | FLV_AVPACKET | FLV_END_OF_SEQUENCE | FLV_AVPACKET_OTHER

record flv_tag_codec_header =
  fv_codecid :: flv_codecid
  fv_avpacket :: flv_avpacket

record mpeg4_avc =
  av_profile :: u8
  av_compatibility :: u8
  av_level :: u8
  av_sps :: "bytes list"
  av_pps :: "bytes list"

record flv_probe_lib =
  flv_video_tag_header_read :: "bytes \<Rightarrow> (flv_tag_codec_header \<times> nat) option"
  flv_audio_tag_header_read :: "bytes \<Rightarrow> (flv_tag_codec_header \<times> nat) option"
  flv_fourcc :: "bytes \<Rightarrow> zms_codec_id option"
  mpeg4_hevc_record_load :: "bytes \<Rightarrow> bool"
  mpeg4_avc_record_load :: "bytes \<Rightarrow> mpeg4_avc option"
  pl_fps :: "u32 \<Rightarrow> u32 \<Rightarrow> f32"

datatype zms_flv_tag_packet_kind =
    ZMS_FLV_TAG_PKT_INVALID | ZMS_FLV_TAG_PKT_RAW | ZMS_FLV_TAG_PKT_SEQ_HEADER
  | ZMS_FLV_TAG_PKT_END_OF_SEQ | ZMS_FLV_TAG_PKT_OTHER

section \<open>Codecs and kinds of tags\<close>

definition flv_video_fourcc_codec :: "flv_probe_lib \<Rightarrow> bytes \<Rightarrow> zms_codec_id" where
  "flv_video_fourcc_codec L cc =
     (if cc = asc ''avc1'' then ZMS_CODEC_H264
      else if cc = asc ''hvc1'' \<or> cc = asc ''hev1'' then ZMS_CODEC_H265
      else case flv_fourcc L cc of
        Some c \<Rightarrow> if c \<in> {ZMS_CODEC_H265, ZMS_CODEC_H264, ZMS_CODEC_VP8, ZMS_CODEC_VP9, ZMS_CODEC_AV1, ZMS_CODEC_H266}
                  then c else ZMS_CODEC_INVALID
      | None \<Rightarrow> ZMS_CODEC_INVALID)"

definition zms_flv_tag_video_codec :: "flv_probe_lib \<Rightarrow> bytes \<Rightarrow> zms_codec_id" where
  "zms_flv_tag_video_codec L tag =
     (if tag = [] then ZMS_CODEC_INVALID
      else if tag ! 0 AND 0x80 \<noteq> 0 then
        (if length tag \<ge> 5 then flv_video_fourcc_codec L (take 4 (drop 1 tag)) else ZMS_CODEC_INVALID)
      else case flv_video_tag_header_read L tag of
        None \<Rightarrow> ZMS_CODEC_INVALID
      | Some (v, _) \<Rightarrow>
          (case fv_codecid v of FLV_VIDEO_H264 \<Rightarrow> ZMS_CODEC_H264 | FLV_VIDEO_H265 \<Rightarrow> ZMS_CODEC_H265
             | FLV_VIDEO_AV1 \<Rightarrow> ZMS_CODEC_AV1 | FLV_VIDEO_H266 \<Rightarrow> ZMS_CODEC_H266 | _ \<Rightarrow> ZMS_CODEC_INVALID))"

definition zms_flv_video_config_codec :: "flv_probe_lib \<Rightarrow> bytes \<Rightarrow> zms_codec_id" where
  "zms_flv_video_config_codec L cfg =
     (let i = zms_flv_tag_video_codec L cfg in
      if i \<noteq> ZMS_CODEC_INVALID then i
      else if length cfg < 7 \<or> cfg ! 0 \<noteq> 1 then ZMS_CODEC_INVALID
      else if mpeg4_hevc_record_load L cfg then ZMS_CODEC_H265
      else if mpeg4_avc_record_load L cfg \<noteq> None then ZMS_CODEC_H264
      else ZMS_CODEC_INVALID)"

definition zms_flv_tag_audio_codec :: "flv_probe_lib \<Rightarrow> bytes \<Rightarrow> zms_codec_id" where
  "zms_flv_tag_audio_codec L tag =
     (if tag = [] then ZMS_CODEC_INVALID
      else case flv_audio_tag_header_read L tag of
        None \<Rightarrow> ZMS_CODEC_INVALID
      | Some (a, _) \<Rightarrow>
          (case fv_codecid a of FLV_AUDIO_AAC \<Rightarrow> ZMS_CODEC_AAC | FLV_AUDIO_OPUS \<Rightarrow> ZMS_CODEC_OPUS
             | FLV_AUDIO_G711A \<Rightarrow> ZMS_CODEC_G711A | FLV_AUDIO_G711U \<Rightarrow> ZMS_CODEC_G711U
             | FLV_AUDIO_FOURCC \<Rightarrow> (if length tag \<ge> 5 \<and> flv_fourcc L (take 4 (drop 1 tag)) = Some ZMS_CODEC_OPUS
                                    then ZMS_CODEC_OPUS else ZMS_CODEC_INVALID)
             | _ \<Rightarrow> ZMS_CODEC_INVALID))"

definition zms_flv_tag_video_packet_kind :: "flv_probe_lib \<Rightarrow> bytes \<Rightarrow> zms_flv_tag_packet_kind" where
  "zms_flv_tag_video_packet_kind L tag =
     (if tag = [] then ZMS_FLV_TAG_PKT_INVALID
      else case flv_video_tag_header_read L tag of
        None \<Rightarrow> ZMS_FLV_TAG_PKT_INVALID
      | Some (v, _) \<Rightarrow>
          (case fv_avpacket v of FLV_SEQUENCE_HEADER \<Rightarrow> ZMS_FLV_TAG_PKT_SEQ_HEADER | FLV_AVPACKET \<Rightarrow> ZMS_FLV_TAG_PKT_RAW
             | FLV_END_OF_SEQUENCE \<Rightarrow> ZMS_FLV_TAG_PKT_END_OF_SEQ | FLV_AVPACKET_OTHER \<Rightarrow> ZMS_FLV_TAG_PKT_OTHER))"

definition zms_flv_tag_audio_packet_kind :: "flv_probe_lib \<Rightarrow> bytes \<Rightarrow> zms_flv_tag_packet_kind" where
  "zms_flv_tag_audio_packet_kind L tag =
     (if tag = [] then ZMS_FLV_TAG_PKT_INVALID
      else case flv_audio_tag_header_read L tag of
        None \<Rightarrow> ZMS_FLV_TAG_PKT_INVALID
      | Some (a, _) \<Rightarrow>
          let ac = zms_flv_tag_audio_codec L tag in
          if ac \<noteq> ZMS_CODEC_AAC \<and> ac \<noteq> ZMS_CODEC_OPUS then ZMS_FLV_TAG_PKT_RAW
          else if fv_avpacket a = FLV_SEQUENCE_HEADER then ZMS_FLV_TAG_PKT_SEQ_HEADER
          else ZMS_FLV_TAG_PKT_RAW)"

definition zms_flv_tag_aac_seq_header_asc :: "flv_probe_lib \<Rightarrow> bytes \<Rightarrow> bytes option" where
  "zms_flv_tag_aac_seq_header_asc L tag =
     (if length tag < 2 then None
      else case flv_audio_tag_header_read L tag of
        None \<Rightarrow> None
      | Some (a, n) \<Rightarrow>
          if fv_codecid a \<noteq> FLV_AUDIO_AAC \<or> fv_avpacket a \<noteq> FLV_SEQUENCE_HEADER then None
          else if length tag < n + 1 then None
          else Some (drop n tag))"

definition zms_flv_tag_audio_to_es :: "flv_probe_lib \<Rightarrow> bytes \<Rightarrow> (zms_codec_id \<times> bytes) option" where
  "zms_flv_tag_audio_to_es L body =
     (if length body < 2 then None
      else let ac = zms_flv_tag_audio_codec L body in
        if ac = ZMS_CODEC_G711A \<or> ac = ZMS_CODEC_G711U then Some (ac, drop 1 body)
        else if ac \<noteq> ZMS_CODEC_AAC then None
        else if body ! 1 \<noteq> 1 then None
        else Some (ZMS_CODEC_AAC, drop 2 body))"

definition zms_rtmp_aac_extradata :: "flv_probe_lib \<Rightarrow> bytes \<Rightarrow> bytes option" where
  "zms_rtmp_aac_extradata L d =
     (if length d < 3 then None
      else if zms_flv_tag_audio_codec L d \<noteq> ZMS_CODEC_AAC then None
      else case flv_audio_tag_header_read L d of
        None \<Rightarrow> None
      | Some (a, n) \<Rightarrow> if fv_avpacket a \<noteq> FLV_SEQUENCE_HEADER then None
                     else if drop n d = [] then None else Some (drop n d))"

section \<open>Tracks from configurations\<close>

text \<open>Of several parameter sets the one with the largest picture; the area is an \<open>int\<close>.\<close>

fun pick_best_loop :: "flv_probe_lib \<Rightarrow> bytes option \<Rightarrow> int \<Rightarrow> bytes list \<Rightarrow> bytes option" where
  "pick_best_loop L best area [] = best"
| "pick_best_loop L best area (s # ss) =
     (if s = [] then pick_best_loop L best area ss
      else case zms_h264_sps_parse (pl_fps L) s of
        Some info \<Rightarrow>
          let a = i32 (sps_width info * sps_height info) in
          if a > area then pick_best_loop L (Some s) a ss else pick_best_loop L best area ss
      | None \<Rightarrow> if best = None then pick_best_loop L (Some s) area ss else pick_best_loop L best area ss)"

definition pick_best_sps :: "flv_probe_lib \<Rightarrow> mpeg4_avc \<Rightarrow> bytes option" where
  "pick_best_sps L a = pick_best_loop L None 0 (av_sps a)"

definition zms_rtmp_avc_extract_sps_pps :: "flv_probe_lib \<Rightarrow> bytes \<Rightarrow> (bytes \<times> bytes) option" where
  "zms_rtmp_avc_extract_sps_pps L d =
     (case locate_avcc d of
        None \<Rightarrow> None
      | Some avcc \<Rightarrow>
          if length avcc < 7 then None
          else case mpeg4_avc_record_load L avcc of
            None \<Rightarrow> None
          | Some a \<Rightarrow>
              (case pick_best_sps L a of
                 None \<Rightarrow> None
               | Some s \<Rightarrow> (case av_pps a of p # _ \<Rightarrow> if p = [] then None else Some (s, p) | [] \<Rightarrow> None)))"

definition zms_rtmp_avc_profile_level_id :: "flv_probe_lib \<Rightarrow> bytes \<Rightarrow> bytes option" where
  "zms_rtmp_avc_profile_level_id L d =
     (case locate_avcc d of
        None \<Rightarrow> None
      | Some avcc \<Rightarrow>
          if length avcc < 4 then None
          else map_option (\<lambda>a. hex2 (av_profile a) @ hex2 (av_compatibility a) @ hex2 (av_level a)) (mpeg4_avc_record_load L avcc))"

definition zms_video_track_from_avc :: "flv_probe_lib \<Rightarrow> zms_video_track \<Rightarrow> bytes \<Rightarrow> ztk_err \<times> zms_video_track" where
  "zms_video_track_from_avc L t d =
     (if length d < 5 then (ZTK_ERR_INVALID, t)
      else case zms_rtmp_avc_extract_sps_pps L d of
        None \<Rightarrow> (ZTK_ERR_INVALID, t)
      | Some (sps, _) \<Rightarrow>
          let t1 = zms_video_track_clear\<lparr>vt_codec := ZMS_CODEC_H264, vt_profile_level_id :=
                (case zms_rtmp_avc_profile_level_id L d of Some p \<Rightarrow> p | None \<Rightarrow> asc ''42001f'')\<rparr>;
              t2 = (case zms_h264_sps_parse (pl_fps L) sps of
                  Some i \<Rightarrow> t1\<lparr>vt_width := sps_width i, vt_height := sps_height i, vt_fps := sps_fps i\<rparr>
                | None \<Rightarrow> t1)
          in (ZTK_OK, t2\<lparr>vt_ready := True\<rparr>))"

definition zms_audio_track_from_rtmp :: "flv_probe_lib \<Rightarrow> zms_audio_track \<Rightarrow> bytes \<Rightarrow> ztk_err \<times> zms_audio_track" where
  "zms_audio_track_from_rtmp L t d =
     (if length d < 2 then (ZTK_ERR_INVALID, t)
      else let codec = zms_flv_tag_audio_codec L d in
        if codec = ZMS_CODEC_G711A \<or> codec = ZMS_CODEC_G711U then zms_audio_track_from_g711 t codec 8000 1
        else if codec \<noteq> ZMS_CODEC_AAC \<or> length d < 4 then (ZTK_ERR_INVALID, t)
        else zms_audio_track_from_asc t (drop 2 d))"

end
