(* ===== verification/Codec_Filter.thy ===== *)
theory Codec_Filter
  imports Flv_Probe Hub_Ops
begin

text \<open>
  Which codecs a protocol can carry, \<open>session/codec_filter.c\<close>: a set of video and audio codecs for
  every role, and the tests of a publisher's and a player's tracks against it.
\<close>

datatype zms_session_cap_role =
    ZMS_PROTO_CAP_RTSP_PLAY | ZMS_PROTO_CAP_RTSP_PUBLISH | ZMS_PROTO_CAP_RTMP_PLAY | ZMS_PROTO_CAP_RTMP_PUBLISH
  | ZMS_PROTO_CAP_HTTP_FLV_PLAY | ZMS_PROTO_CAP_HTTP_TS_PLAY | ZMS_PROTO_CAP_WEBRTC_PLAY
  | ZMS_PROTO_CAP_WEBRTC_PUBLISH | ZMS_PROTO_CAP_SRT_PLAY | ZMS_PROTO_CAP_SRT_PUBLISH
  | ZMS_PROTO_CAP_RTP_PS_PUBLISH | ZMS_PROTO_CAP_HLS_PLAY | ZMS_PROTO_CAP_DASH_PLAY

definition ZMS_ORIGIN_RTSP_PUSH :: nat where "ZMS_ORIGIN_RTSP_PUSH = 2"
definition ZMS_ORIGIN_SRT_PUSH :: nat where "ZMS_ORIGIN_SRT_PUSH = 4"
definition ZMS_ORIGIN_RTP_PS_PUSH :: nat where "ZMS_ORIGIN_RTP_PS_PUSH = 32"
definition ZMS_ORIGIN_WEBRTC_PUSH :: nat where "ZMS_ORIGIN_WEBRTC_PUSH = 64"

definition cap_video_codec :: "flv_probe_lib \<Rightarrow> 'b zms_media_source \<Rightarrow> zms_codec_id" where
  "cap_video_codec L s =
     (if vt_ready (ms_video s) \<and> vt_codec (ms_video s) \<noteq> ZMS_CODEC_INVALID then vt_codec (ms_video s)
      else case ms_gop_queue s of
        Some q \<Rightarrow> if q_video_config q \<noteq> [] then zms_flv_tag_video_codec L (q_video_config q) else ZMS_CODEC_INVALID
      | None \<Rightarrow> ZMS_CODEC_INVALID)"

definition cap_audio_codec :: "flv_probe_lib \<Rightarrow> 'b zms_media_source \<Rightarrow> zms_codec_id" where
  "cap_audio_codec L s =
     (if at_ready (ms_audio s) \<and> at_codec (ms_audio s) \<noteq> ZMS_CODEC_INVALID then at_codec (ms_audio s)
      else case ms_gop_queue s of
        Some q \<Rightarrow> if q_audio_config q \<noteq> [] then zms_flv_tag_audio_codec L (q_audio_config q) else ZMS_CODEC_INVALID
      | None \<Rightarrow> ZMS_CODEC_INVALID)"

definition k_cap_rtsp_video :: "zms_codec_id list" where
  "k_cap_rtsp_video = [ZMS_CODEC_H264, ZMS_CODEC_H265, ZMS_CODEC_H266, ZMS_CODEC_AV1, ZMS_CODEC_VP8, ZMS_CODEC_VP9]"
definition k_cap_rtsp_audio :: "zms_codec_id list" where
  "k_cap_rtsp_audio = [ZMS_CODEC_AAC, ZMS_CODEC_G711A, ZMS_CODEC_G711U, ZMS_CODEC_OPUS]"
definition k_cap_flv_video :: "zms_codec_id list" where
  "k_cap_flv_video = [ZMS_CODEC_H264, ZMS_CODEC_H265, ZMS_CODEC_AV1]"
definition k_cap_flv_audio :: "zms_codec_id list" where
  "k_cap_flv_audio = [ZMS_CODEC_AAC, ZMS_CODEC_G711A, ZMS_CODEC_G711U]"
definition k_cap_webrtc_video :: "zms_codec_id list" where
  "k_cap_webrtc_video = [ZMS_CODEC_H264, ZMS_CODEC_H265, ZMS_CODEC_AV1, ZMS_CODEC_VP8, ZMS_CODEC_VP9]"
definition k_cap_webrtc_audio :: "zms_codec_id list" where
  "k_cap_webrtc_audio = [ZMS_CODEC_OPUS]"
definition k_cap_ts_video :: "zms_codec_id list" where
  "k_cap_ts_video = [ZMS_CODEC_H264, ZMS_CODEC_H265]"
definition k_cap_ts_audio :: "zms_codec_id list" where
  "k_cap_ts_audio = [ZMS_CODEC_AAC, ZMS_CODEC_G711A, ZMS_CODEC_G711U]"
definition k_cap_hls_video :: "zms_codec_id list" where
  "k_cap_hls_video = [ZMS_CODEC_H264, ZMS_CODEC_H265, ZMS_CODEC_H266, ZMS_CODEC_AV1, ZMS_CODEC_VP8, ZMS_CODEC_VP9]"
definition k_cap_hls_audio :: "zms_codec_id list" where
  "k_cap_hls_audio = [ZMS_CODEC_AAC, ZMS_CODEC_OPUS]"

lemmas cap_lists = k_cap_rtsp_video_def k_cap_rtsp_audio_def k_cap_flv_video_def k_cap_flv_audio_def
  k_cap_webrtc_video_def k_cap_webrtc_audio_def k_cap_ts_video_def k_cap_ts_audio_def k_cap_hls_video_def k_cap_hls_audio_def

definition cap_codec_in_list :: "zms_codec_id \<Rightarrow> zms_codec_id list \<Rightarrow> bool" where
  "cap_codec_in_list codec cs \<longleftrightarrow> codec = ZMS_CODEC_INVALID \<or> codec \<in> set cs"

fun cap_sets_for_role :: "zms_session_cap_role \<Rightarrow> zms_codec_id list \<times> zms_codec_id list" where
  "cap_sets_for_role ZMS_PROTO_CAP_RTSP_PLAY = (k_cap_rtsp_video, k_cap_rtsp_audio)"
| "cap_sets_for_role ZMS_PROTO_CAP_RTSP_PUBLISH = (k_cap_rtsp_video, k_cap_rtsp_audio)"
| "cap_sets_for_role ZMS_PROTO_CAP_RTMP_PLAY = (k_cap_flv_video, k_cap_flv_audio)"
| "cap_sets_for_role ZMS_PROTO_CAP_RTMP_PUBLISH = (k_cap_flv_video, k_cap_flv_audio)"
| "cap_sets_for_role ZMS_PROTO_CAP_HTTP_FLV_PLAY = (k_cap_flv_video, k_cap_flv_audio)"
| "cap_sets_for_role ZMS_PROTO_CAP_WEBRTC_PLAY = (k_cap_webrtc_video, k_cap_webrtc_audio)"
| "cap_sets_for_role ZMS_PROTO_CAP_WEBRTC_PUBLISH = (k_cap_webrtc_video, k_cap_webrtc_audio)"
| "cap_sets_for_role ZMS_PROTO_CAP_HTTP_TS_PLAY = (k_cap_ts_video, k_cap_ts_audio)"
| "cap_sets_for_role ZMS_PROTO_CAP_SRT_PLAY = (k_cap_ts_video, k_cap_ts_audio)"
| "cap_sets_for_role ZMS_PROTO_CAP_SRT_PUBLISH = (k_cap_ts_video, k_cap_ts_audio)"
| "cap_sets_for_role ZMS_PROTO_CAP_RTP_PS_PUBLISH = (k_cap_ts_video, k_cap_ts_audio)"
| "cap_sets_for_role ZMS_PROTO_CAP_HLS_PLAY = (k_cap_hls_video, k_cap_hls_audio)"
| "cap_sets_for_role ZMS_PROTO_CAP_DASH_PLAY = (k_cap_hls_video, k_cap_hls_audio)"

definition cap_combo_ok :: "zms_session_cap_role \<Rightarrow> zms_codec_id \<Rightarrow> zms_codec_id \<Rightarrow> bool \<Rightarrow> bool \<Rightarrow> bool" where
  "cap_combo_ok role vc ac has_video has_audio =
     (case cap_sets_for_role role of (vs, as) \<Rightarrow>
        if has_video \<and> vc \<noteq> ZMS_CODEC_INVALID \<and> \<not> cap_codec_in_list vc vs then False
        else if has_audio \<and> ac \<noteq> ZMS_CODEC_INVALID \<and> \<not> cap_codec_in_list ac as then False
        else True)"

definition zms_session_capability_check :: "zms_session_cap_role \<Rightarrow> zms_codec_id \<Rightarrow> zms_codec_id \<Rightarrow> bool \<Rightarrow> bool \<Rightarrow> ztk_err" where
  "zms_session_capability_check role video audio has_video has_audio =
     (if \<not> has_video \<and> \<not> has_audio then ZTK_ERR_INVALID
      else if \<not> cap_combo_ok role video audio has_video has_audio then ZTK_ERR_NOT_IMPL
      else ZTK_OK)"

definition zms_session_capability_check_source :: "flv_probe_lib \<Rightarrow> zms_session_cap_role \<Rightarrow> 'b zms_media_source \<Rightarrow> ztk_err" where
  "zms_session_capability_check_source L role s =
     (let hv = ms_has_video s; ha = ms_has_audio s;
          vc = (if hv then cap_video_codec L s else ZMS_CODEC_INVALID);
          ac = (if ha then cap_audio_codec L s else ZMS_CODEC_INVALID)
      in if \<not> hv \<and> \<not> ha then
           (if ms_publishing s \<and> ms_gop_queue s \<noteq> None \<and> ms_publish_origin s = ZMS_ORIGIN_WEBRTC_PUSH then ZTK_OK
            else ZTK_ERR_STATE)
         else if role = ZMS_PROTO_CAP_WEBRTC_PLAY \<and> ha \<and> ac \<noteq> ZMS_CODEC_INVALID
                 \<and> \<not> cap_codec_in_list ac (snd (cap_sets_for_role role))
         then zms_session_capability_check role vc ZMS_CODEC_INVALID hv False
         else zms_session_capability_check role vc ac hv ha)"

definition zms_session_capability_play_role :: "bytes \<Rightarrow> zms_session_cap_role" where
  "zms_session_capability_play_role player =
     (if player = [] then ZMS_PROTO_CAP_RTMP_PLAY
      else if player = asc ''rtsp'' then ZMS_PROTO_CAP_RTSP_PLAY
      else if player = asc ''http-flv'' \<or> player = asc ''ws-flv'' then ZMS_PROTO_CAP_HTTP_FLV_PLAY
      else if player = asc ''http-ts'' then ZMS_PROTO_CAP_HTTP_TS_PLAY
      else if player = asc ''webrtc'' \<or> player = asc ''whep'' then ZMS_PROTO_CAP_WEBRTC_PLAY
      else if player = asc ''srt'' then ZMS_PROTO_CAP_SRT_PLAY
      else if player = asc ''hls'' then ZMS_PROTO_CAP_HLS_PLAY
      else if player = asc ''dash'' then ZMS_PROTO_CAP_DASH_PLAY
      else ZMS_PROTO_CAP_RTMP_PLAY)"

definition zms_session_capability_publish_role :: "'b zms_media_source \<Rightarrow> zms_session_cap_role" where
  "zms_session_capability_publish_role s =
     (if ms_publish_origin s = ZMS_ORIGIN_SRT_PUSH then ZMS_PROTO_CAP_SRT_PUBLISH
      else if ms_publish_origin s = ZMS_ORIGIN_RTP_PS_PUSH then ZMS_PROTO_CAP_RTP_PS_PUBLISH
      else if ms_publish_origin s = ZMS_ORIGIN_RTSP_PUSH then ZMS_PROTO_CAP_RTSP_PUBLISH
      else if ms_publish_origin s = ZMS_ORIGIN_WEBRTC_PUSH then ZMS_PROTO_CAP_WEBRTC_PUBLISH
      else if ms_schema s = ZMS_SCHEMA_SRT then ZMS_PROTO_CAP_SRT_PUBLISH
      else if ms_schema s = ZMS_SCHEMA_RTP_PS then ZMS_PROTO_CAP_RTP_PS_PUBLISH
      else if ms_schema s = ZMS_SCHEMA_RTSP then ZMS_PROTO_CAP_RTSP_PUBLISH
      else ZMS_PROTO_CAP_RTMP_PUBLISH)"

definition zms_session_capability_check_publish_source :: "flv_probe_lib \<Rightarrow> 'b zms_media_source \<Rightarrow> ztk_err" where
  "zms_session_capability_check_publish_source L s =
     zms_session_capability_check_source L (zms_session_capability_publish_role s) s"

end
