(* ===== verification/Av1_Rtmp.thy ===== *)
theory Av1_Rtmp
  imports Flv_Probe
begin

text \<open>
  AV1 in RTMP bodies, \<open>media/codec/av1/av1_over_rtmp.c\<close>: the configuration record in a sequence
  header and coded frames. The readers and writers of the record and the writer of the video tag
  header are libflv's; \<open>aom_av1\<close> stands for its structure, of which this code reads the picture
  size. The writers get the room they have and give the bytes they wrote.
\<close>

record aom_av1 =
  am_width :: nat
  am_height :: nat
  am_rest :: bytes

record av1_lib =
  aom_record_init :: "bytes \<Rightarrow> aom_av1 option"
  aom_record_load :: "bytes \<Rightarrow> aom_av1 option"
  aom_record_save :: "aom_av1 \<Rightarrow> nat \<Rightarrow> bytes option"
  av1_hdr_write :: "bool \<Rightarrow> bool \<Rightarrow> nat \<Rightarrow> bytes option"

definition av1_write_video_hdr :: "av1_lib \<Rightarrow> nat \<Rightarrow> bool \<Rightarrow> bool \<Rightarrow> bytes option" where
  "av1_write_video_hdr A cap key seq_hdr = av1_hdr_write A key seq_hdr cap"

definition locate_av1c :: "flv_probe_lib \<Rightarrow> bytes \<Rightarrow> bytes option" where
  "locate_av1c L d =
     (if length d < 2 then None
      else if zms_flv_tag_video_codec L d = ZMS_CODEC_AV1 then
        (case flv_video_tag_header_read L d of
           Some (vh, hdr) \<Rightarrow> if hdr > 0 \<and> fv_avpacket vh = FLV_SEQUENCE_HEADER \<and> hdr < length d
                             then Some (drop hdr d) else Some d
         | None \<Rightarrow> Some d)
      else Some d)"

definition zms_av1_over_rtmp_config_extradata :: "flv_probe_lib \<Rightarrow> bytes \<Rightarrow> bytes option" where
  "zms_av1_over_rtmp_config_extradata L d =
     (if length d < 2 then None
      else case locate_av1c L d of Some c \<Rightarrow> if c \<noteq> [] then Some c else None | None \<Rightarrow> None)"

definition zms_av1_flv_sequence_header :: "flv_probe_lib \<Rightarrow> av1_lib \<Rightarrow> bytes \<Rightarrow> nat \<Rightarrow> ztk_err \<times> bytes" where
  "zms_av1_flv_sequence_header L A cfg cap =
     (if length cfg < 2 then (ZTK_ERR_INVALID, [])
      else if zms_flv_tag_video_codec L cfg = ZMS_CODEC_AV1
        \<and> (case flv_video_tag_header_read L cfg of
             Some (vh, rh) \<Rightarrow> rh > 0 \<and> fv_avpacket vh = FLV_SEQUENCE_HEADER | None \<Rightarrow> False)
        \<and> length cfg \<le> cap then (ZTK_OK, cfg)
      else case zms_av1_over_rtmp_config_extradata L cfg of
        None \<Rightarrow> (ZTK_ERR_INVALID, [])
      | Some c \<Rightarrow>
          if length c < 4 then (ZTK_ERR_INVALID, [])
          else case aom_record_load A c of
            None \<Rightarrow> (ZTK_ERR_INVALID, [])
          | Some av1 \<Rightarrow>
              (case av1_write_video_hdr A cap True True of
                 None \<Rightarrow> (ZTK_ERR_BUFFER_TOO_SMALL, [])
               | Some hdr \<Rightarrow>
                   (case aom_record_save A av1 (cap - length hdr) of
                      None \<Rightarrow> (ZTK_ERR_INVALID, [])
                    | Some r \<Rightarrow> if r = [] then (ZTK_ERR_INVALID, []) else (ZTK_OK, hdr @ r))))"

definition zms_av1_over_rtmp_pack_es :: "av1_lib \<Rightarrow> bytes \<Rightarrow> bool \<Rightarrow> nat \<Rightarrow> ztk_err \<times> bytes" where
  "zms_av1_over_rtmp_pack_es A obu key cap =
     (if obu = [] then (ZTK_ERR_INVALID, [])
      else if cap < length obu + 8 then (ZTK_ERR_BUFFER_TOO_SMALL, [])
      else case av1_write_video_hdr A cap key False of
        None \<Rightarrow> (ZTK_ERR_BUFFER_TOO_SMALL, [])
      | Some hdr \<Rightarrow> (ZTK_OK, hdr @ obu))"

definition zms_av1_extradata_from_obu :: "av1_lib \<Rightarrow> bytes \<Rightarrow> nat \<Rightarrow> (bytes \<times> int \<times> int) option" where
  "zms_av1_extradata_from_obu A obu cap =
     (if length obu < 2 \<or> cap < 4 then None
      else case aom_record_init A obu of
        None \<Rightarrow> None
      | Some av1 \<Rightarrow>
          (case aom_record_save A av1 cap of
             None \<Rightarrow> None
           | Some r \<Rightarrow> if r = [] then None
               else Some (r, if am_width av1 > 0 then int (am_width av1) else 640,
                          if am_height av1 > 0 then int (am_height av1) else 480)))"

definition zms_av1_obu_is_sync_key :: "av1_lib \<Rightarrow> es_ext \<Rightarrow> bytes \<Rightarrow> bool" where
  "zms_av1_obu_is_sync_key A E obu =
     (if length obu < 2 then False
      else if \<not> zms_av1_obu_has_sequence_header E obu then False
      else case aom_record_init A obu of None \<Rightarrow> False | Some av1 \<Rightarrow> am_width av1 > 0 \<and> am_height av1 > 0)"

text \<open>
  The sequence header made from an access unit carries the record made from it: when the record
  loads as what it was saved from, the header is what stands before it, and it is found again.
\<close>

lemma av1_sequence_header_of_obu:
  assumes "zms_av1_extradata_from_obu A obu c1 = Some (r, w, h)" "length r \<ge> 4"
    and "zms_flv_tag_video_codec L r \<noteq> ZMS_CODEC_AV1"
    and save: "\<And>a n m s. aom_record_save A a n = Some s \<Longrightarrow> length s \<le> m \<Longrightarrow>
      aom_record_load A s = Some a \<and> aom_record_save A a m = Some s"
    and hdr: "av1_hdr_write A True True c2 = Some pre" "length pre + length r \<le> c2"
  shows "zms_av1_flv_sequence_header L A r c2 = (ZTK_OK, pre @ r)"
proof -
  from assms(1) obtain a where a: "aom_record_save A a c1 = Some r"
    by (auto simp: zms_av1_extradata_from_obu_def split: if_splits option.splits)
  have m: "length r \<le> c2 - length pre" using hdr(2) by simp
  have x: "zms_av1_over_rtmp_config_extradata L r = Some r"
    using assms(2,3) by (auto simp: zms_av1_over_rtmp_config_extradata_def locate_av1c_def)
  from save[OF a m] x show ?thesis
    using assms(2,3) hdr(1) by (auto simp: zms_av1_flv_sequence_header_def av1_write_video_hdr_def)
qed

end
