(* ===== verification/Live_Ingest.thy ===== *)
theory Live_Ingest
  imports Av1_Rtmp Codec_Filter Hub_Ops Buf_Pool Aac_ES Egress_Clock
begin

text \<open>
  The ingest of a live stream, \<open>live/ingest/\<close>: what a publisher's session calls with the frames it
  has read. It gives them time stamps, keeps the codec configuration and the track descriptions of
  the source up to date, and writes the frames into the ring of the source. The state is that of
  \<open>ingest_internal.h\<close>; \<open>li_source\<close> is the source the ingest points at, and what happens to it is put
  back into the registry by \<open>hub_upd\<close>. A call is \<open>None\<close> where a loop of the ring does not end.

  Parameters are what lies outside: the codec tables, the toolkit buffers, the pools, the record
  coders of libflv, the demuxer of FLV tags (whose callback fires once per frame), the wall clock
  and the one floating point division of this code.
\<close>

unbundle bit_operations_syntax

definition ZMS_LIVE_INGEST_WORK_BUF :: nat where "ZMS_LIVE_INGEST_WORK_BUF = 65536"

record zms_protocol_opts =
  po_enable_rtmp :: bool
  po_enable_rtsp :: bool
  po_enable_srt :: bool
  po_enable_hls :: bool
  po_enable_audio :: bool
  po_modify_stamp :: int

definition zms_protocol_opts_default :: zms_protocol_opts where
  "zms_protocol_opts_default = \<lparr>po_enable_rtmp = True, po_enable_rtsp = True, po_enable_srt = True,
     po_enable_hls = True, po_enable_audio = True, po_modify_stamp = 0\<rparr>"

record hevc_au =
  au_raw_tag_dts_ms :: u32
  au_dts_ms :: u32
  au_pts_ms :: u32
  au_active :: bool
  au_key :: bool
  au_buf :: "bytes option"
  au_len :: nat

record ('b, 'd) zms_live_ingest =
  li_source :: "'b zms_media_source"
  li_io_poller :: bool
  li_have_video_cfg :: bool
  li_have_audio_cfg :: bool
  li_tl :: zms_media_timeline
  li_opt :: zms_protocol_opts
  li_work_buf :: "bytes option"
  li_large_buf :: "bytes option"
  li_last_v_raw_ms :: u64
  li_last_a_raw_ms :: u64
  li_last_v_pts :: u32
  li_last_a_pts :: u32
  li_last_v_valid :: bool
  li_last_a_valid :: bool
  li_defer_gop_vcfg :: bool
  li_gop_vcfg_applied :: bool
  li_video_cfg_len :: nat
  li_av_origin_ms :: u32
  li_av_origin_set :: bool
  li_tl_last_v_gop_norm :: u32
  li_tl_last_v_gop_valid :: bool
  li_rtmp_demux :: "'d option"
  li_rtmp_active :: bool
  li_rtmp_raw_dts_ms :: u32
  li_rtmp_msg_type :: nat
  li_rtmp_frame_got :: bool
  li_hevc_au :: hevc_au

record ('b, 'd, 'l) ingest_env =
  ie_reg :: registry
  ie_es :: es_ext
  ie_nalu :: "bytes \<Rightarrow> (nat \<times> nat) list"
  ie_cap :: "'b \<Rightarrow> nat"
  ie_refcnt :: "'b zms_gop_queue \<Rightarrow> 'b \<Rightarrow> nat"
  ie_fresh :: "'b zms_gop_queue \<Rightarrow> nat \<Rightarrow> 'b option"
  ie_buf :: buf_env
  ie_mem :: bool
  ie_now :: nat
  ie_flv :: flv_probe_lib
  ie_rec :: "'l rtsp_lib"
  ie_step :: "f32 \<Rightarrow> u32"
  ie_av1 :: av1_lib
  ie_demux_new :: "'d option"
  ie_demux :: "'d \<Rightarrow> nat \<Rightarrow> bytes \<Rightarrow> u32 \<Rightarrow> ztk_err \<times> zms_frame list \<times> 'd"

definition on_source :: "('b zms_media_source \<Rightarrow> 'b zms_media_source) \<Rightarrow> ('b, 'd) zms_live_ingest
    \<Rightarrow> ('b, 'd) zms_live_ingest" where
  "on_source f ch = ch\<lparr>li_source := f (li_source ch)\<rparr>"

definition f32_le0 :: "f32 \<Rightarrow> bool" where "f32_le0 x \<longleftrightarrow> \<not> f32_nan x \<and> \<not> f32_pos x"

section \<open>Creating, binding, settings\<close>

definition ingest_new :: "'b zms_media_source \<Rightarrow> zms_protocol_opts \<Rightarrow> ('b, 'd) zms_live_ingest" where
  "ingest_new s opt =
     \<lparr>li_source = s, li_io_poller = False, li_have_video_cfg = False, li_have_audio_cfg = False,
      li_tl = zms_media_timeline_new, li_opt = opt, li_work_buf = None, li_large_buf = None,
      li_last_v_raw_ms = 0, li_last_a_raw_ms = 0, li_last_v_pts = 0, li_last_a_pts = 0,
      li_last_v_valid = False, li_last_a_valid = False, li_defer_gop_vcfg = False,
      li_gop_vcfg_applied = False, li_video_cfg_len = 0, li_av_origin_ms = 0, li_av_origin_set = False,
      li_tl_last_v_gop_norm = 0, li_tl_last_v_gop_valid = False, li_rtmp_demux = None,
      li_rtmp_active = False, li_rtmp_raw_dts_ms = 0, li_rtmp_msg_type = 0, li_rtmp_frame_got = False,
      li_hevc_au = \<lparr>au_raw_tag_dts_ms = 0, au_dts_ms = 0, au_pts_ms = 0, au_active = False,
        au_key = False, au_buf = None, au_len = 0\<rparr>\<rparr>"

text \<open>\<open>mem\<close>: the block for the ingest could be had.\<close>

definition zms_live_ingest_create :: "bool \<Rightarrow> hub_env \<Rightarrow> 'b stream_hub \<Rightarrow> bytes \<Rightarrow> bytes \<Rightarrow> zms_protocol_opts option
    \<Rightarrow> (('b, 'd) zms_live_ingest option \<times> 'b stream_hub \<times> 'b hub_call list) option" where
  "zms_live_ingest_create mem e h app stream opts =
     (if \<not> mem then Some (None, h, [])
      else (case zms_media_source_register e h ZMS_SCHEMA_RTMP app stream of
          None \<Rightarrow> None
        | Some (r, h1, cs) \<Rightarrow>
            Some (case r of None \<Rightarrow> None
                  | Some i \<Rightarrow> map_option (\<lambda>s. ingest_new s (case opts of Some opt \<Rightarrow> opt | None \<Rightarrow> zms_protocol_opts_default))
                                (hub_get h1 i), h1, cs)))"

definition zms_live_ingest_create_publish_schema :: "bool \<Rightarrow> hub_env \<Rightarrow> 'b stream_hub \<Rightarrow> bytes \<Rightarrow> bytes \<Rightarrow> bytes
    \<Rightarrow> zms_protocol_opts option \<Rightarrow> ('b, 'd) zms_live_ingest option \<times> 'b stream_hub \<times> 'b hub_call list" where
  "zms_live_ingest_create_publish_schema mem e h schema app requested opts =
     (if \<not> mem then (None, h, [])
      else (case zms_media_source_register_publish e h (if schema = [] then ZMS_SCHEMA_RTMP else schema) app requested of
          (r, h1, cs) \<Rightarrow>
            (case r of None \<Rightarrow> None
             | Some i \<Rightarrow> map_option (\<lambda>s. ingest_new s (case opts of Some opt \<Rightarrow> opt | None \<Rightarrow> zms_protocol_opts_default))
                           (hub_get h1 i), h1, cs)))"

definition zms_live_ingest_create_publish :: "bool \<Rightarrow> hub_env \<Rightarrow> 'b stream_hub \<Rightarrow> bytes \<Rightarrow> bytes
    \<Rightarrow> zms_protocol_opts option \<Rightarrow> ('b, 'd) zms_live_ingest option \<times> 'b stream_hub \<times> 'b hub_call list" where
  "zms_live_ingest_create_publish mem e h app requested opts =
     zms_live_ingest_create_publish_schema mem e h ZMS_SCHEMA_RTMP app requested opts"

definition zms_live_ingest_bind :: "bool \<Rightarrow> 'b zms_media_source \<Rightarrow> ('b, 'd) zms_live_ingest option" where
  "zms_live_ingest_bind mem s =
     (if ms_gop_queue s = None \<or> \<not> mem then None else Some (ingest_new s zms_protocol_opts_default))"

definition zms_live_ingest_set_poller :: "('b, 'd) zms_live_ingest \<Rightarrow> bool \<Rightarrow> ('b, 'd) zms_live_ingest" where
  "zms_live_ingest_set_poller ch poller = ch\<lparr>li_io_poller := poller\<rparr>"

definition zms_live_ingest_set_audio_codec :: "('b, 'd) zms_live_ingest \<Rightarrow> zms_codec_id \<Rightarrow> u32 \<Rightarrow> ('b, 'd) zms_live_ingest" where
  "zms_live_ingest_set_audio_codec ch codec rate = ch\<lparr>li_tl := zms_media_timeline_set_audio (li_tl ch) codec rate\<rparr>"

definition zms_live_ingest_set_rtp_clocks ::
  "('b, 'd) zms_live_ingest \<Rightarrow> u32 \<Rightarrow> zms_codec_id \<Rightarrow> u32 \<Rightarrow> ('b, 'd) zms_live_ingest" where
  "zms_live_ingest_set_rtp_clocks ch video_hz audio_codec audio_hz =
     (let t = zms_media_timeline_set_video (li_tl ch) ZMS_CODEC_H264 video_hz
      in ch\<lparr>li_tl := (if audio_codec \<noteq> ZMS_CODEC_INVALID then zms_media_timeline_set_audio t audio_codec audio_hz else t),
            li_last_v_valid := False, li_last_a_valid := False\<rparr>)"

definition zms_live_ingest_set_stamp_max_delta :: "('b, 'd) zms_live_ingest \<Rightarrow> u32 \<Rightarrow> ('b, 'd) zms_live_ingest" where
  "zms_live_ingest_set_stamp_max_delta ch d =
     (if d = 0 then ch
      else ch\<lparr>li_tl := (li_tl ch)\<lparr>tl_vst := (tl_vst (li_tl ch))\<lparr>t_max_delta_ms := unat d\<rparr>,
                tl_ast := (tl_ast (li_tl ch))\<lparr>t_max_delta_ms := unat d\<rparr>\<rparr>\<rparr>)"

definition zms_live_ingest_set_stamp_av_clamp :: "('b, 'd) zms_live_ingest \<Rightarrow> bool \<Rightarrow> ('b, 'd) zms_live_ingest" where
  "zms_live_ingest_set_stamp_av_clamp ch enabled =
     ch\<lparr>li_tl := zms_media_timeline_set_av_clamp (li_tl ch) enabled, li_last_v_valid := False, li_last_a_valid := False\<rparr>"

definition zms_live_ingest_set_timeline_linear_ms :: "('b, 'd) zms_live_ingest \<Rightarrow> bool \<Rightarrow> ('b, 'd) zms_live_ingest" where
  "zms_live_ingest_set_timeline_linear_ms ch on =
     ch\<lparr>li_tl := (li_tl ch)\<lparr>tl_linear_ms := on\<rparr>, li_last_v_valid := False, li_last_a_valid := False,
        li_av_origin_set := False, li_av_origin_ms := 0, li_tl_last_v_gop_norm := 0, li_tl_last_v_gop_valid := False\<rparr>"

definition zms_live_ingest_set_defer_gop_vcfg :: "('b, 'd) zms_live_ingest \<Rightarrow> bool \<Rightarrow> ('b, 'd) zms_live_ingest" where
  "zms_live_ingest_set_defer_gop_vcfg ch on =
     ch\<lparr>li_defer_gop_vcfg := on, li_gop_vcfg_applied := False, li_video_cfg_len := 0\<rparr>"

section \<open>Time stamps\<close>

text \<open>The stamp of the last raw value is kept, so that a value that comes twice is stamped once.\<close>

definition ingest_linear_ms_pts :: "('b, 'd) zms_live_ingest \<Rightarrow> u32 \<Rightarrow> u32" where
  "ingest_linear_ms_pts ch raw =
     (if li_av_origin_set ch \<and> raw \<ge> li_av_origin_ms ch then raw - li_av_origin_ms ch else raw)"

definition live_ingest_video_pts :: "('b, 'd) zms_live_ingest \<Rightarrow> u32 \<Rightarrow> u32 \<times> ('b, 'd) zms_live_ingest" where
  "live_ingest_video_pts ch raw =
     (if li_last_v_valid ch \<and> li_last_v_raw_ms ch = ucast raw then (li_last_v_pts ch, ch)
      else let (ts, t) = (if tl_linear_ms (li_tl ch) then (ingest_linear_ms_pts ch raw, li_tl ch)
                          else zms_media_timeline_video (li_tl ch) (ucast raw))
           in (ts, ch\<lparr>li_last_v_raw_ms := ucast raw, li_last_v_pts := ts, li_tl := t, li_last_v_valid := True\<rparr>))"

definition live_ingest_audio_pts :: "('b, 'd) zms_live_ingest \<Rightarrow> u32 \<Rightarrow> u32 \<times> ('b, 'd) zms_live_ingest" where
  "live_ingest_audio_pts ch raw =
     (if li_last_a_valid ch \<and> li_last_a_raw_ms ch = ucast raw then (li_last_a_pts ch, ch)
      else let (ts, t) = (if tl_linear_ms (li_tl ch) then (ingest_linear_ms_pts ch raw, li_tl ch)
                          else zms_media_timeline_audio (li_tl ch) (ucast raw))
           in (ts, ch\<lparr>li_last_a_raw_ms := ucast raw, li_last_a_pts := ts, li_tl := t, li_last_a_valid := True\<rparr>))"

section \<open>Work memory, configurations, frames\<close>

definition ingest_slot_resize :: "('b, 'd, 'l) ingest_env \<Rightarrow> ('b, 'd) zms_live_ingest \<Rightarrow> bytes option \<Rightarrow> nat \<Rightarrow> bool \<times> bytes option" where
  "ingest_slot_resize e ch slot len =
     (if len = 0 then (False, slot)
      else if li_io_poller ch then zms_buf_pool_slot_resize_poller (ie_buf e) slot len
      else zms_buf_pool_slot_resize (ie_buf e) slot len)"

definition live_ingest_work_buf :: "('b, 'd, 'l) ingest_env \<Rightarrow> ('b, 'd) zms_live_ingest \<Rightarrow> bool \<times> ('b, 'd) zms_live_ingest" where
  "live_ingest_work_buf e ch =
     (case ingest_slot_resize e ch (li_work_buf ch) ZMS_LIVE_INGEST_WORK_BUF of
        (ok, b) \<Rightarrow> (ok, ch\<lparr>li_work_buf := b\<rparr>))"

definition live_ingest_large_buf :: "('b, 'd, 'l) ingest_env \<Rightarrow> ('b, 'd) zms_live_ingest \<Rightarrow> nat \<Rightarrow> bool \<times> ('b, 'd) zms_live_ingest" where
  "live_ingest_large_buf e ch need =
     (if need = 0 then (False, ch)
      else case ingest_slot_resize e ch (li_large_buf ch) need of (ok, b) \<Rightarrow> (ok, ch\<lparr>li_large_buf := b\<rparr>))"

definition work_write :: "('b, 'd) zms_live_ingest \<Rightarrow> bytes \<Rightarrow> ('b, 'd) zms_live_ingest" where
  "work_write ch d = ch\<lparr>li_work_buf := slot_write (li_work_buf ch) 0 d\<rparr>"

definition live_ingest_set_video_config :: "('b, 'd, 'l) ingest_env \<Rightarrow> ('b, 'd) zms_live_ingest \<Rightarrow> bytes \<Rightarrow> ('b, 'd) zms_live_ingest" where
  "live_ingest_set_video_config e ch d =
     (case ms_gop_queue (li_source ch) of
        None \<Rightarrow> ch
      | Some q \<Rightarrow> if d = [] then ch
                  else on_source (\<lambda>s. s\<lparr>ms_gop_queue := Some (snd (zms_gop_queue_set_video_config (ie_mem e) q (Some d)))\<rparr>) ch)"

definition live_ingest_set_audio_config :: "('b, 'd, 'l) ingest_env \<Rightarrow> ('b, 'd) zms_live_ingest \<Rightarrow> bytes \<Rightarrow> ('b, 'd) zms_live_ingest" where
  "live_ingest_set_audio_config e ch d =
     (case ms_gop_queue (li_source ch) of
        None \<Rightarrow> ch
      | Some q \<Rightarrow> if d = [] then ch
                  else on_source (\<lambda>s. s\<lparr>ms_gop_queue := Some (snd (zms_gop_queue_set_audio_config (ie_mem e) q (Some d)))\<rparr>) ch)"

text \<open>What a written frame does to the source: the ring after the write, and the statistics.\<close>

definition source_written :: "nat \<Rightarrow> zms_frame \<Rightarrow> ztk_err \<Rightarrow> 'b zms_gop_queue \<Rightarrow> 'b zms_media_source \<Rightarrow> 'b zms_media_source" where
  "source_written now f err q s =
     s\<lparr>ms_gop_queue := Some q,
       ms_stats := (if err = ZTK_OK
         then zms_media_stats_on_frame (zms_media_stats_on_ingress (ms_stats s) (f_size f) now)
                (f_track f = ZMS_TRACK_VIDEO) now
         else zms_media_stats_on_drop (ms_stats s))\<rparr>"

definition live_ingest_write_frame :: "('b, 'd, 'l) ingest_env \<Rightarrow> ('b, 'd) zms_live_ingest \<Rightarrow> zms_frame \<Rightarrow> ('b, 'd) zms_live_ingest option" where
  "live_ingest_write_frame e ch f =
     (case ms_gop_queue (li_source ch) of
        None \<Rightarrow> Some ch
      | Some q \<Rightarrow>
          if f_data f = None \<or> f_size f = 0 then Some ch
          else (case zms_gop_queue_write (ie_reg e) (ie_cap e) (ie_refcnt e q) (ie_fresh e q (f_size f)) q (f\<lparr>f_owned := False\<rparr>) of
                  None \<Rightarrow> None
                | Some (err, q1) \<Rightarrow> Some (on_source (source_written (ie_now e) f err q1) ch)))"

text \<open>A refused buffer is given back to the toolkit.\<close>

definition live_ingest_write_frame_buf :: "('b, 'd, 'l) ingest_env \<Rightarrow> ('b, 'd) zms_live_ingest \<Rightarrow> 'b \<Rightarrow> bytes \<Rightarrow> zms_frame
    \<Rightarrow> (ztk_err \<times> ('b, 'd) zms_live_ingest) option" where
  "live_ingest_write_frame_buf e ch b d f =
     (case ms_gop_queue (li_source ch) of
        None \<Rightarrow> Some (ZTK_ERR_INVALID, ch)
      | Some q \<Rightarrow>
          (case zms_gop_queue_write_buf (ie_reg e) q b d f of
             None \<Rightarrow> None
           | Some (err, q1) \<Rightarrow>
               Some (err, on_source (source_written (ie_now e) f err
                            (if err = ZTK_OK then q1 else log_calls [BufUnref b] q1)) ch)))"

end
