(* ===== verification/Ingest_Codec.thy ===== *)
theory Ingest_Codec
  imports Live_Ingest
begin

text \<open>
  What the ingest does with the frames of each codec, \<open>live/ingest/codec/\<close> and
  \<open>live/ingest/common/codec_dispatch.c\<close>. H.264 units are judged by the NAL units they hold, H.265
  units are collected and written as one access unit, AAC is cut at its ADTS headers, the others
  are passed on.
\<close>

unbundle bit_operations_syntax

section \<open>H.264\<close>

text \<open>
  The next NAL unit: its type and the bytes from its first byte on. A start code at the very end
  ends the search.
\<close>

fun next_annexb_nal :: "bytes \<Rightarrow> (nat \<times> bytes) option" where
  "next_annexb_nal [] = None"
| "next_annexb_nal (x # xs) =
     (let p = x # xs in
      if length p \<le> 3 then None
      else if take 4 p = [0, 0, 0, 1] then
        (if drop 4 p = [] then None else Some (unat (p ! 4 AND 0x1f), drop 4 p))
      else if take 3 p = [0, 0, 1] then Some (unat (p ! 3 AND 0x1f), drop 3 p)
      else next_annexb_nal xs)"

lemma next_annexb_nal_shorter: "next_annexb_nal p = Some (t, n) \<Longrightarrow> length n < length p \<and> n \<noteq> []"
  by (induction p rule: next_annexb_nal.induct) (auto simp: Let_def split: if_splits)

function ingest_has_nal_from :: "nat \<Rightarrow> bytes \<Rightarrow> bool" where
  "ingest_has_nal_from want p =
     (case next_annexb_nal p of
        None \<Rightarrow> False
      | Some (t, nal) \<Rightarrow> if t = want then True else ingest_has_nal_from want (drop 1 nal))"
  by pat_completeness auto
termination
  by (relation "measure (length \<circ> snd)") (auto dest: next_annexb_nal_shorter)

declare ingest_has_nal_from.simps [simp del]

definition ingest_has_nal_type :: "bytes \<Rightarrow> nat \<Rightarrow> bool" where
  "ingest_has_nal_type annexb want = (if length annexb < 5 then False else ingest_has_nal_from want annexb)"

definition ingest_has_slice :: "bytes \<Rightarrow> bool" where
  "ingest_has_slice annexb \<longleftrightarrow> ingest_has_nal_type annexb 1 \<or> ingest_has_nal_type annexb 5"

text \<open>The flags \<open>config_frame\<close> and \<open>drop_able\<close>.\<close>

definition zms_live_ingest_h264_annexb_frame_flags :: "bytes \<Rightarrow> bool \<times> bool" where
  "zms_live_ingest_h264_annexb_frame_flags annexb =
     (if length annexb < 4 then (False, False)
      else let has_slice = ingest_has_slice annexb;
               has_cfg = ingest_has_nal_type annexb 7 \<or> ingest_has_nal_type annexb 8;
               has_sei_aud = ingest_has_nal_type annexb 6 \<or> ingest_has_nal_type annexb 9
           in (\<not> has_slice \<and> has_cfg, \<not> has_slice \<and> has_sei_aud \<and> \<not> has_cfg))"

text \<open>
  New parameter sets: whether their size or rate is better than the known ones, and what they
  change. A header that could not be finished has been written into the work buffer up to the
  record.
\<close>

definition sps_size_better :: "zms_video_track \<Rightarrow> zms_h264_sps_info option \<Rightarrow> bool" where
  "sps_size_better v info =
     (case info of None \<Rightarrow> False
      | Some i \<Rightarrow> zms_video_size_should_replace (word_of_int (vt_width v)) (word_of_int (vt_height v))
                    (word_of_int (sps_width i)) (word_of_int (sps_height i)))"

definition sps_fps_better :: "zms_video_track \<Rightarrow> zms_h264_sps_info option \<Rightarrow> bool" where
  "sps_fps_better v info =
     (case info of None \<Rightarrow> False
      | Some i \<Rightarrow> f32_pos (sps_fps i)
          \<and> (f32_le0 (vt_fps v) \<or> sps_size_better v info \<and> \<not> f32_eq (sps_fps i) (vt_fps v)))"

definition track_take_size :: "zms_h264_sps_info \<Rightarrow> zms_video_track \<Rightarrow> zms_video_track" where
  "track_take_size i v = v\<lparr>vt_width := sps_width i, vt_height := sps_height i,
     vt_fps := (if f32_pos (sps_fps i) then sps_fps i else vt_fps v)\<rparr>"

definition track_upgrade :: "flv_probe_lib \<Rightarrow> bytes \<Rightarrow> zms_h264_sps_info option \<Rightarrow> bool \<Rightarrow> bool \<Rightarrow> bool
    \<Rightarrow> zms_video_track \<Rightarrow> zms_video_track" where
  "track_upgrade L cfg info need size_better fps_better v =
     (if need \<or> size_better then
        (if need \<or> \<not> vt_ready v then snd (zms_video_track_from_avc L v cfg)
         else case info of
           Some i \<Rightarrow> if size_better then
               (track_take_size i v)\<lparr>vt_profile_level_id :=
                  (case zms_rtmp_avc_profile_level_id L cfg of Some p \<Rightarrow> p | None \<Rightarrow> vt_profile_level_id v)\<rparr>
             else v
         | None \<Rightarrow> v)
      else case info of
        Some i \<Rightarrow> if fps_better then v\<lparr>vt_fps := sps_fps i\<rparr> else v
      | None \<Rightarrow> v)"

definition track_second_look :: "zms_h264_sps_info option \<Rightarrow> zms_video_track \<Rightarrow> zms_video_track" where
  "track_second_look info v =
     (case info of Some i \<Rightarrow> if sps_size_better v info then track_take_size i v else v | None \<Rightarrow> v)"

definition zms_live_ingest_set_h264_sps_pps :: "('b, 'd, 'l) ingest_env \<Rightarrow> ('b, 'd) zms_live_ingest \<Rightarrow> bytes \<Rightarrow> bytes
    \<Rightarrow> ztk_err \<times> ('b, 'd) zms_live_ingest" where
  "zms_live_ingest_set_h264_sps_pps e ch sps pps =
     (if sps = [] \<or> pps = [] then (ZTK_ERR_INVALID, ch)
      else
        let info = zms_h264_sps_parse (pl_fps (ie_flv e)) sps;
            v = ms_video (li_source ch);
            size_better = sps_size_better v info;
            fps_better = sps_fps_better v info;
            need = (\<not> li_have_video_cfg ch)
        in if \<not> need \<and> \<not> size_better \<and> \<not> fps_better then (ZTK_OK, ch)
        else case live_ingest_work_buf e ch of
          (ok, ch1) \<Rightarrow>
            if \<not> ok then (ZTK_ERR_INVALID, ch1)
            else case zms_rtmp_avc_seq_header (ie_rec e) sps pps ZMS_LIVE_INGEST_WORK_BUF of
              (err, cfg) \<Rightarrow>
                if err \<noteq> ZTK_OK then
                  (err, case flv_seq_hdr_write (ie_rec e) ZMS_LIVE_INGEST_WORK_BUF of
                          Some hdr \<Rightarrow> work_write ch1 hdr | None \<Rightarrow> ch1)
                else
                  let ch2 = work_write ch1 cfg;
                      ch3 = (if need \<or> size_better then
                          on_source (\<lambda>s. s\<lparr>ms_has_video := True\<rparr>)
                            ((if li_defer_gop_vcfg ch \<and> need then ch2\<lparr>li_video_cfg_len := length cfg\<rparr>
                              else live_ingest_set_video_config e ch2 cfg)\<lparr>li_have_video_cfg := True\<rparr>)
                         else ch2)
                  in (ZTK_OK, on_source (\<lambda>s. s\<lparr>ms_video := track_second_look info
                        (track_upgrade (ie_flv e) cfg info need size_better fps_better (ms_video s))\<rparr>) ch3))"

text \<open>The presentation stamp of a frame of decode stamp \<open>d\<close>, and the stamp that fills a gap.\<close>

definition h264_norm_pts :: "('b, 'd) zms_live_ingest \<Rightarrow> u32 \<Rightarrow> u32 \<Rightarrow> u32 \<Rightarrow> u32" where
  "h264_norm_pts ch raw_dts raw_pts d =
     (let p = (if tl_linear_ms (li_tl ch) then ingest_linear_ms_pts ch raw_pts
               else if raw_pts > raw_dts then d + (raw_pts - raw_dts) else d)
      in if p < d then d else p)"

definition h264_fill_gap :: "('b, 'd, 'l) ingest_env \<Rightarrow> ('b, 'd) zms_live_ingest \<Rightarrow> u32 \<Rightarrow> u32 \<Rightarrow> u32 \<times> u32" where
  "h264_fill_gap e ch d p =
     (let fps = vt_fps (ms_video (li_source ch));
          step0 = (if f32_pos fps then ie_step e fps else 42);
          step = (if step0 < 1 then 1 else step0);
          last_d = li_tl_last_v_gop_norm ch;
          gap = (if d > last_d then d - last_d else 0)
      in if gap > step * 2 \<and> gap < 750 then
           (let cts = (if p > d then p - d else 0); d1 = last_d + step in (d1, d1 + cts))
         else (d, p))"

definition h264_frame :: "bytes \<Rightarrow> u32 \<Rightarrow> u32 \<Rightarrow> bool \<Rightarrow> zms_frame" where
  "h264_frame annexb d p key = zms_frame_init\<lparr>f_data := Some annexb, f_size := length annexb,
     f_dts_ms := ucast d, f_pts_ms := ucast p, f_codec := ZMS_CODEC_H264, f_track := ZMS_TRACK_VIDEO,
     f_keyframe := key\<rparr>"

definition h264_adopt_sps_pps :: "('b, 'd, 'l) ingest_env \<Rightarrow> ('b, 'd) zms_live_ingest \<Rightarrow> bytes \<Rightarrow> ('b, 'd) zms_live_ingest" where
  "h264_adopt_sps_pps e ch annexb =
     (case zms_h264_annexb_extract_sps_pps (annexb_split (ie_es e)) annexb of
        (found, c) \<Rightarrow> (case (p_sps c, p_pps c) of
            (Some sps, Some pps) \<Rightarrow> if found then snd (zms_live_ingest_set_h264_sps_pps e ch sps pps) else ch
          | _ \<Rightarrow> ch))"

definition h264_apply_vcfg :: "('b, 'd, 'l) ingest_env \<Rightarrow> ('b, 'd) zms_live_ingest \<Rightarrow> ('b, 'd) zms_live_ingest" where
  "h264_apply_vcfg e ch =
     (let ch1 = (if li_have_video_cfg ch \<and> li_video_cfg_len ch > 0 then
                   (case live_ingest_work_buf e ch of
                      (ok, c) \<Rightarrow> if ok then live_ingest_set_video_config e c (slot_bytes (li_work_buf c) (li_video_cfg_len c)) else c)
                 else ch)
      in ch1\<lparr>li_gop_vcfg_applied := True\<rparr>)"

definition h264_lock_origin :: "('b, 'd) zms_live_ingest \<Rightarrow> bool \<Rightarrow> u32 \<Rightarrow> ('b, 'd) zms_live_ingest" where
  "h264_lock_origin ch sync dts =
     (if sync \<and> tl_linear_ms (li_tl ch) \<and> \<not> li_av_origin_set ch
      then ch\<lparr>li_av_origin_ms := dts, li_av_origin_set := True\<rparr> else ch)"

text \<open>A frame with its stamp, written and noted.\<close>

definition h264_emit :: "('b, 'd, 'l) ingest_env \<Rightarrow> ('b, 'd) zms_live_ingest \<Rightarrow> bytes \<Rightarrow> u32 \<Rightarrow> u32 \<Rightarrow> bool
    \<Rightarrow> (ztk_err \<times> ('b, 'd) zms_live_ingest) option" where
  "h264_emit e ch annexb d0 p0 key =
     (let srt = (tl_linear_ms (li_tl ch) \<and> li_defer_gop_vcfg ch);
          (d, p) = (if srt \<and> \<not> key \<and> li_tl_last_v_gop_valid ch then h264_fill_gap e ch d0 p0 else (d0, p0));
          ch1 = (if srt then ch\<lparr>li_tl_last_v_gop_norm := d, li_tl_last_v_gop_valid := True\<rparr> else ch)
      in map_option (\<lambda>c. (ZTK_OK, on_source (\<lambda>s. s\<lparr>ms_has_video := True\<rparr>) c))
           (live_ingest_write_frame e ch1 (h264_frame annexb d p key)))"

text \<open>
  A unit passes four stations: its parameter sets are adopted; before the first IDR unit of a
  deferred stream it is dropped; the IDR unit stores the configuration and locks the origin; a
  unit of parameter sets or auxiliary units only is dropped, any other is stamped and written.
\<close>

definition h264_waits :: "('b, 'd) zms_live_ingest \<Rightarrow> bool" where
  "h264_waits ch \<longleftrightarrow> li_defer_gop_vcfg ch \<and> \<not> li_gop_vcfg_applied ch"

definition zms_live_ingest_input_h264_annexb :: "('b, 'd, 'l) ingest_env \<Rightarrow> ('b, 'd) zms_live_ingest \<Rightarrow> bytes \<Rightarrow> u32 \<Rightarrow> u32
    \<Rightarrow> (ztk_err \<times> ('b, 'd) zms_live_ingest) option" where
  "zms_live_ingest_input_h264_annexb e ch annexb dts pts =
     (if annexb = [] then Some (ZTK_ERR_INVALID, ch)
      else
        let ch1 = h264_adopt_sps_pps e ch annexb;
            idr = zms_h264_annexb_is_idr (annexb_split (ie_es e)) annexb
        in if h264_waits ch1 \<and> \<not> idr then Some (ZTK_OK, ch1)
        else
          let ch2 = (if h264_waits ch1 then h264_apply_vcfg e ch1 else ch1);
              ch3 = h264_lock_origin ch2 idr dts;
              raw_pts = (if pts = 0 \<and> dts \<noteq> 0 then dts else pts)
          in if ms_gop_queue (li_source ch3) = None then Some (ZTK_ERR_INVALID, ch3)
          else
            let (d, ch4) = live_ingest_video_pts ch3 dts;
                p = h264_norm_pts ch4 dts raw_pts d;
                (config_frame, drop_able) = zms_live_ingest_h264_annexb_frame_flags annexb
            in if drop_able \<or> config_frame then Some (ZTK_OK, ch4)
            else h264_emit e ch4 annexb d p idr)"

section \<open>H.265\<close>

definition annexb_find_at :: "(bytes \<Rightarrow> (nat \<times> nat) list) \<Rightarrow> bytes \<Rightarrow> (nat \<times> nat) option" where
  "annexb_find_at nalu p = (if p = [] then None else find (\<lambda>(off, n). n > 0) (nalu p))"

definition hevc_au_update :: "(hevc_au \<Rightarrow> hevc_au) \<Rightarrow> ('b, 'd) zms_live_ingest \<Rightarrow> ('b, 'd) zms_live_ingest" where
  "hevc_au_update f ch = ch\<lparr>li_hevc_au := f (li_hevc_au ch)\<rparr>"

definition hevc_au_frame :: "hevc_au \<Rightarrow> bytes \<Rightarrow> zms_frame" where
  "hevc_au_frame a d = zms_frame_init\<lparr>f_data := Some d, f_size := au_len a, f_dts_ms := ucast (au_dts_ms a),
     f_pts_ms := ucast (if au_pts_ms a \<noteq> 0 then au_pts_ms a else au_dts_ms a),
     f_codec := ZMS_CODEC_H265, f_track := ZMS_TRACK_VIDEO, f_keyframe := au_key a\<rparr>"

definition hevc_au_flush :: "('b, 'd, 'l) ingest_env \<Rightarrow> ('b, 'd) zms_live_ingest
    \<Rightarrow> (ztk_err \<times> ('b, 'd) zms_live_ingest) option" where
  "hevc_au_flush e ch =
     (let a = li_hevc_au ch in
      case ms_gop_queue (li_source ch) of
        None \<Rightarrow> Some (ZTK_OK, ch)
      | Some q \<Rightarrow>
          if \<not> au_active a \<or> au_len a = 0 then Some (ZTK_OK, ch)
          else case ie_fresh e q (au_len a) of
            None \<Rightarrow> Some (ZTK_ERR_NOMEM, ch)
          | Some b \<Rightarrow>
              let d = slot_bytes (au_buf a) (au_len a)
              in live_ingest_write_frame_buf e
                   (hevc_au_update (\<lambda>a. a\<lparr>au_active := False, au_len := 0, au_key := False\<rparr>) ch) b d (hevc_au_frame a d))"

definition hevc_au_begin :: "('b, 'd, 'l) ingest_env \<Rightarrow> ('b, 'd) zms_live_ingest \<Rightarrow> u32 \<Rightarrow> u32 \<Rightarrow> u32
    \<Rightarrow> (ztk_err \<times> ('b, 'd) zms_live_ingest) option" where
  "hevc_au_begin e ch raw dts pts =
     (case (if au_active (li_hevc_au ch) \<and> au_raw_tag_dts_ms (li_hevc_au ch) \<noteq> raw
            then hevc_au_flush e ch else Some (ZTK_OK, ch)) of
        None \<Rightarrow> None
      | Some (err, ch1) \<Rightarrow>
          if err \<noteq> ZTK_OK then Some (err, ch1)
          else Some (ZTK_OK, hevc_au_update (\<lambda>a.
             if \<not> au_active a then a\<lparr>au_raw_tag_dts_ms := raw, au_dts_ms := dts, au_pts_ms := pts,
                au_active := True, au_key := False, au_len := 0\<rparr>
             else if au_raw_tag_dts_ms a = raw then a\<lparr>au_dts_ms := dts, au_pts_ms := pts\<rparr>
             else a) ch1))"

definition hevc_au_append_nal :: "('b, 'd, 'l) ingest_env \<Rightarrow> ('b, 'd) zms_live_ingest \<Rightarrow> bytes \<Rightarrow> bool
    \<Rightarrow> ztk_err \<times> ('b, 'd) zms_live_ingest" where
  "hevc_au_append_nal e ch nal idr =
     (if nal = [] then (ZTK_ERR_INVALID, ch)
      else let a = li_hevc_au ch in
        case ingest_slot_resize e ch (au_buf a) (au_len a + 4 + length nal) of
          (ok, b) \<Rightarrow>
            if \<not> ok then (ZTK_ERR_NOMEM, hevc_au_update (\<lambda>a. a\<lparr>au_buf := b\<rparr>) ch)
            else (ZTK_OK, hevc_au_update (\<lambda>a. a\<lparr>au_buf := slot_write b (au_len a) ([0, 0, 0, 1] @ nal),
                    au_len := au_len a + 4 + length nal, au_key := (idr \<or> au_key a)\<rparr>) ch))"

definition zms_live_ingest_h265_hevc_au_flush :: "('b, 'd, 'l) ingest_env \<Rightarrow> ('b, 'd) zms_live_ingest
    \<Rightarrow> (ztk_err \<times> ('b, 'd) zms_live_ingest) option" where
  "zms_live_ingest_h265_hevc_au_flush e ch = hevc_au_flush e ch"

definition zms_live_ingest_h265_hevc_au_reset :: "('b, 'd, 'l) ingest_env \<Rightarrow> ('b, 'd) zms_live_ingest
    \<Rightarrow> ('b, 'd) zms_live_ingest option" where
  "zms_live_ingest_h265_hevc_au_reset e ch =
     map_option (\<lambda>(_, c). hevc_au_update (\<lambda>a. a\<lparr>au_buf := zms_buf_pool_slot_clear (au_buf a),
        au_len := 0, au_active := False, au_key := False\<rparr>) c) (hevc_au_flush e ch)"

definition h265_track_ready :: "('b, 'd, 'l) ingest_env \<Rightarrow> bytes \<Rightarrow> ('b, 'd) zms_live_ingest \<Rightarrow> ('b, 'd) zms_live_ingest" where
  "h265_track_ready e cfg ch =
     on_source (\<lambda>s. s\<lparr>ms_has_video := True, ms_video := (ms_video s)\<lparr>vt_codec := ZMS_CODEC_H265, vt_ready := True\<rparr>\<rparr>)
       ((live_ingest_set_video_config e (work_write ch cfg) cfg)\<lparr>li_have_video_cfg := True\<rparr>)"

definition zms_live_ingest_set_h265_vps_sps_pps :: "('b, 'd, 'l) ingest_env \<Rightarrow> ('b, 'd) zms_live_ingest \<Rightarrow> bytes option
    \<Rightarrow> bytes \<Rightarrow> bytes \<Rightarrow> ztk_err \<times> ('b, 'd) zms_live_ingest" where
  "zms_live_ingest_set_h265_vps_sps_pps e ch vps sps pps =
     (if sps = [] \<or> pps = [] then (ZTK_ERR_INVALID, ch)
      else case live_ingest_work_buf e ch of
        (ok, ch1) \<Rightarrow>
          (case zms_h265_hvcc_from_param_sets (ie_rec e) vps (Some sps) (Some pps) ZMS_LIVE_INGEST_WORK_BUF of
             (err, cfg) \<Rightarrow>
               if err \<noteq> ZTK_OK then (err, ch1)
               else if \<not> ok then (ZTK_ERR_INVALID, ch1)
               else (ZTK_OK, h265_track_ready e cfg ch1)))"

text \<open>The NAL units of a packet: parameter sets and the other units above 31 are left out.\<close>

function hevc_nal_loop :: "('b, 'd, 'l) ingest_env \<Rightarrow> bytes \<Rightarrow> nat \<Rightarrow> ('b, 'd) zms_live_ingest
    \<Rightarrow> ztk_err \<times> nat \<times> ('b, 'd) zms_live_ingest" where
  "hevc_nal_loop e cur n ch =
     (case annexb_find_at (ie_nalu e) cur of
        None \<Rightarrow> (ZTK_OK, n, ch)
      | Some (off, len) \<Rightarrow>
          let nal = take len (drop off cur) in
          if cur = [] \<or> len = 0 \<or> nal = [] then (ZTK_OK, n, ch)
          else let t = hevc_nal_type (nal ! 0) in
            if t \<ge> 32 then hevc_nal_loop e (drop (off + len) cur) n ch
            else case hevc_au_append_nal e ch nal (16 \<le> t \<and> t \<le> 21) of
              (err, ch1) \<Rightarrow>
                if err \<noteq> ZTK_OK then (ZTK_ERR_NOMEM, n, ch1)
                else hevc_nal_loop e (drop (off + len) cur) (Suc n) ch1)"
  by pat_completeness auto
termination
  by (relation "measure (\<lambda>(e, cur, n, ch). length cur)") auto

declare hevc_nal_loop.simps [simp del]

definition h265_find_config :: "('b, 'd, 'l) ingest_env \<Rightarrow> ('b, 'd) zms_live_ingest \<Rightarrow> bytes \<Rightarrow> ('b, 'd) zms_live_ingest" where
  "h265_find_config e ch annexb =
     (if li_have_video_cfg ch then ch
      else case live_ingest_work_buf e ch of
        (ok, ch1) \<Rightarrow>
          if \<not> ok then ch1
          else (case hvcc_of_annexb (ie_rec e) annexb ZMS_LIVE_INGEST_WORK_BUF of
                  None \<Rightarrow> ch1 | Some cfg \<Rightarrow> h265_track_ready e cfg ch1))"

definition h265_stamps :: "('b, 'd) zms_live_ingest \<Rightarrow> u32 \<Rightarrow> u32 \<Rightarrow> u32 \<times> u32 \<times> ('b, 'd) zms_live_ingest" where
  "h265_stamps ch dts pts =
     (case live_ingest_video_pts ch dts of
        (d, ch1) \<Rightarrow>
          if pts \<noteq> 0 \<and> pts \<noteq> dts then
            (if pts > dts then (d, d + (pts - dts), ch1)
             else case live_ingest_video_pts ch1 pts of (p, ch2) \<Rightarrow> (d, p, ch2))
          else (d, d, ch1))"

text \<open>What a packet does before its units are read: origin, deferred start, configuration.\<close>

definition h265_prepare :: "('b, 'd, 'l) ingest_env \<Rightarrow> ('b, 'd) zms_live_ingest \<Rightarrow> bytes \<Rightarrow> u32 \<Rightarrow> bool
    \<Rightarrow> ('b, 'd) zms_live_ingest" where
  "h265_prepare e ch annexb dts keyframe =
     (let sync = (keyframe \<or> zms_h265_annexb_is_sync_key (annexb_split (ie_es e)) annexb);
          ch1 = h264_lock_origin ch sync dts;
          ch2 = (if li_defer_gop_vcfg ch1 \<and> sync \<and> \<not> li_gop_vcfg_applied ch1
                 then ch1\<lparr>li_gop_vcfg_applied := True\<rparr> else ch1)
      in h265_find_config e ch2 annexb)"

definition zms_live_ingest_input_h265_annexb :: "('b, 'd, 'l) ingest_env \<Rightarrow> ('b, 'd) zms_live_ingest \<Rightarrow> bytes \<Rightarrow> u32 \<Rightarrow> u32
    \<Rightarrow> bool \<Rightarrow> (ztk_err \<times> ('b, 'd) zms_live_ingest) option" where
  "zms_live_ingest_input_h265_annexb e ch annexb dts pts keyframe =
     (if annexb = [] then Some (ZTK_ERR_INVALID, ch)
      else
        let ch3 = h265_prepare e ch annexb dts keyframe
        in if ms_gop_queue (li_source ch3) = None then Some (ZTK_ERR_INVALID, ch3)
        else case h265_stamps ch3 dts pts of
          (d, p, ch4) \<Rightarrow>
            (case hevc_au_begin e ch4 dts d p of
               None \<Rightarrow> None
             | Some (err, ch5) \<Rightarrow>
                 if err \<noteq> ZTK_OK then Some (ZTK_ERR_NOMEM, ch5)
                 else case hevc_nal_loop e annexb 0 ch5 of
                   (err2, n, ch6) \<Rightarrow>
                     if err2 \<noteq> ZTK_OK then Some (ZTK_ERR_NOMEM, ch6)
                     else if n = 0 then Some (ZTK_ERR_INVALID, ch6)
                     else hevc_au_flush e (on_source (\<lambda>s. s\<lparr>ms_has_video := True\<rparr>) ch6)))"

end
