(* ===== verification/Ingest_Input.thy ===== *)
theory Ingest_Input
  imports Ingest_Codec
begin

text \<open>
  The other codecs of the ingest (\<open>live/ingest/codec/aac_ingest.c\<close>, \<open>g711_ingest.c\<close>,
  \<open>codec_dispatch.c\<close>), the entry of RTMP messages and the resets (\<open>stream_ingest.c\<close>).
\<close>

unbundle bit_operations_syntax

section \<open>AAC\<close>

definition aac_frame :: "bytes \<Rightarrow> u32 \<Rightarrow> zms_frame" where
  "aac_frame au ts = zms_frame_init\<lparr>f_data := Some au, f_size := length au, f_dts_ms := ucast ts,
     f_pts_ms := ucast ts, f_codec := ZMS_CODEC_AAC, f_track := ZMS_TRACK_AUDIO\<rparr>"

definition aac_write_one_au :: "('b, 'd, 'l) ingest_env \<Rightarrow> ('b, 'd) zms_live_ingest \<Rightarrow> bytes \<Rightarrow> u32
    \<Rightarrow> (ztk_err \<times> ('b, 'd) zms_live_ingest) option" where
  "aac_write_one_au e ch au raw =
     (if au = [] \<or> ms_gop_queue (li_source ch) = None then Some (ZTK_ERR_INVALID, ch)
      else case live_ingest_audio_pts ch raw of
        (ts, ch1) \<Rightarrow>
          map_option (\<lambda>c. (ZTK_OK, on_source (\<lambda>s. s\<lparr>ms_has_audio := True\<rparr>) c))
            (live_ingest_write_frame e ch1 (aac_frame au ts)))"

record ('b, 'd) aac_split_ctx =
  sx_ch :: "('b, 'd) zms_live_ingest"
  sx_idx :: nat
  sx_err :: ztk_err

text \<open>The handler of the ADTS walk; \<open>None\<close> stands for a write that does not return.\<close>

definition aac_split_handler :: "('b, 'd, 'l) ingest_env \<Rightarrow> u32 \<Rightarrow> u32 \<Rightarrow> bytes \<Rightarrow> ('b, 'd) aac_split_ctx option
    \<Rightarrow> bool \<times> ('b, 'd) aac_split_ctx option" where
  "aac_split_handler e raw dur au u =
     (case u of
        None \<Rightarrow> (True, None)
      | Some c \<Rightarrow>
          if sx_err c \<noteq> ZTK_OK then (True, u)
          else (case aac_write_one_au e (sx_ch c) au (raw + of_nat (sx_idx c) * dur) of
              None \<Rightarrow> (True, None)
            | Some (err, ch1) \<Rightarrow>
                if err \<noteq> ZTK_OK then (True, Some (c\<lparr>sx_ch := ch1, sx_err := err\<rparr>))
                else (False, Some (c\<lparr>sx_ch := ch1, sx_idx := sx_idx c + 1\<rparr>))))"

definition zms_live_ingest_set_aac_config_hex :: "('b, 'd, 'l) ingest_env \<Rightarrow> ('b, 'd) zms_live_ingest \<Rightarrow> bytes
    \<Rightarrow> ztk_err \<times> ('b, 'd) zms_live_ingest" where
  "zms_live_ingest_set_aac_config_hex e ch hex =
     (case zms_hex_decode hex 16 of
        (err, cfg) \<Rightarrow>
          if err \<noteq> ZTK_OK \<or> cfg = [] then (ZTK_ERR_INVALID, ch)
          else case live_ingest_work_buf e ch of
            (ok, ch1) \<Rightarrow>
              if \<not> ok then (ZTK_ERR_INVALID, ch1)
              else case zms_rtmp_aac_seq_header cfg ZMS_LIVE_INGEST_WORK_BUF of
                (err, tag) \<Rightarrow>
                  if err \<noteq> ZTK_OK then (err, ch1)
                  else (err, on_source (\<lambda>s. s\<lparr>ms_has_audio := True,
                              ms_audio := snd (zms_audio_track_from_asc (ms_audio s) cfg)\<rparr>)
                         ((live_ingest_set_audio_config e (work_write ch1 tag) tag)\<lparr>li_have_audio_cfg := True\<rparr>)))"

definition zms_live_ingest_ensure_aac_config :: "('b, 'd, 'l) ingest_env \<Rightarrow> ('b, 'd) zms_live_ingest \<Rightarrow> int \<Rightarrow> int
    \<Rightarrow> ztk_err \<times> ('b, 'd) zms_live_ingest" where
  "zms_live_ingest_ensure_aac_config e ch sample_rate channels =
     (if li_have_audio_cfg ch then (ZTK_OK, ch)
      else case zms_aac_build_config_hex sample_rate channels 16 of
        None \<Rightarrow> (ZTK_ERR_INVALID, ch)
      | Some hex \<Rightarrow>
          zms_live_ingest_set_aac_config_hex e
            (if tl_audio_codec (li_tl ch) = ZMS_CODEC_INVALID
             then ch\<lparr>li_tl := zms_media_timeline_set_audio (li_tl ch) ZMS_CODEC_AAC (word_of_int sample_rate)\<rparr>
             else ch) hex)"

definition aac_is_adts :: "bytes \<Rightarrow> bool" where
  "aac_is_adts aac \<longleftrightarrow> length aac \<ge> 7 \<and> aac ! 0 = 0xff \<and> aac ! 1 AND 0xf0 = 0xf0"

text \<open>Before the first sync frame of a deferred stream audio is skipped.\<close>

definition aac_skipped :: "('b, 'd) zms_live_ingest \<Rightarrow> bool" where
  "aac_skipped ch \<longleftrightarrow> li_defer_gop_vcfg ch \<and>
     (if tl_linear_ms (li_tl ch) then \<not> li_av_origin_set ch else \<not> li_gop_vcfg_applied ch)"

definition aac_find_config :: "('b, 'd, 'l) ingest_env \<Rightarrow> ('b, 'd) zms_live_ingest \<Rightarrow> bytes \<Rightarrow> ('b, 'd) zms_live_ingest" where
  "aac_find_config e ch aac =
     (if li_have_audio_cfg ch then ch
      else case (if aac_is_adts aac then zms_aac_adts_parse aac else None) of
        Some (rate, chans) \<Rightarrow> snd (zms_live_ingest_ensure_aac_config e ch rate chans)
      | None \<Rightarrow> let a = ms_audio (li_source ch) in
          if at_ready a then snd (zms_live_ingest_ensure_aac_config e ch (at_sample_rate a) (at_channels a)) else ch)"

definition aac_frame_step :: "('b, 'd) zms_live_ingest \<Rightarrow> u32" where
  "aac_frame_step ch =
     (let a = ms_audio (li_source ch);
          d = zms_codec_frame_duration_ms ZMS_CODEC_AAC (word_of_int (if at_ready a then at_sample_rate a else 44100))
      in if d > 0 then d else 23)"

definition zms_live_ingest_input_aac_es :: "('b, 'd, 'l) ingest_env \<Rightarrow> ('b, 'd) zms_live_ingest \<Rightarrow> bytes \<Rightarrow> u32
    \<Rightarrow> (ztk_err \<times> ('b, 'd) zms_live_ingest) option" where
  "zms_live_ingest_input_aac_es e ch aac dts =
     (if aac = [] then Some (ZTK_ERR_INVALID, ch)
      else if aac_skipped ch then Some (ZTK_OK, ch)
      else
        let ch1 = aac_find_config e ch aac
        in if aac_is_adts aac then
          (case zms_aac_es_foreach_frame (aac_split_handler e dts (aac_frame_step ch1)) aac
                  (Some \<lparr>sx_ch = ch1, sx_idx = 0, sx_err = ZTK_OK\<rparr>) of
             (_, None) \<Rightarrow> None
           | (err, Some c) \<Rightarrow>
               Some (if err \<noteq> ZTK_OK \<and> sx_err c \<noteq> ZTK_OK then sx_err c
                     else if sx_idx c = 0 then ZTK_ERR_INVALID else ZTK_OK, sx_ch c))
        else (case aac_write_one_au e ch1 aac dts of
             None \<Rightarrow> None
           | Some (err, ch2) \<Rightarrow> Some (if err \<noteq> ZTK_OK then ZTK_ERR_INVALID else ZTK_OK, ch2)))"

section \<open>G.711\<close>

definition zms_live_ingest_g711_ensure :: "('b, 'd) zms_live_ingest \<Rightarrow> zms_codec_id \<Rightarrow> ('b, 'd) zms_live_ingest" where
  "zms_live_ingest_g711_ensure ch codec =
     (if li_have_audio_cfg ch then ch
      else on_source (\<lambda>s. s\<lparr>ms_has_audio := True,
             ms_audio := snd (zms_audio_track_from_g711 (ms_audio s) codec 8000 1)\<rparr>)
           (ch\<lparr>li_tl := zms_media_timeline_set_audio (li_tl ch) codec 8000, li_have_audio_cfg := True\<rparr>))"

definition zms_live_ingest_input_g711_es :: "('b, 'd, 'l) ingest_env \<Rightarrow> ('b, 'd) zms_live_ingest \<Rightarrow> zms_codec_id \<Rightarrow> bytes \<Rightarrow> u32
    \<Rightarrow> (ztk_err \<times> ('b, 'd) zms_live_ingest) option" where
  "zms_live_ingest_input_g711_es e ch codec g711 dts =
     (if g711 = [] \<or> codec \<noteq> ZMS_CODEC_G711A \<and> codec \<noteq> ZMS_CODEC_G711U then Some (ZTK_ERR_INVALID, ch)
      else case live_ingest_audio_pts (zms_live_ingest_g711_ensure ch codec) dts of
        (ts, ch1) \<Rightarrow>
          if ms_gop_queue (li_source ch1) = None then Some (ZTK_ERR_INVALID, ch1)
          else map_option (\<lambda>c. (ZTK_OK, on_source (\<lambda>s. s\<lparr>ms_has_audio := True\<rparr>) c))
            (live_ingest_write_frame e ch1 ((aac_frame g711 ts)\<lparr>f_codec := codec\<rparr>)))"

section \<open>The other codecs and the dispatch\<close>

definition ingest_publish_codec_ok :: "('b, 'd) zms_live_ingest \<Rightarrow> zms_codec_id \<Rightarrow> zms_codec_id \<Rightarrow> bool \<Rightarrow> bool \<Rightarrow> bool" where
  "ingest_publish_codec_ok ch video audio has_video has_audio \<longleftrightarrow>
     zms_session_capability_check (zms_session_capability_publish_role (li_source ch)) video audio has_video has_audio = ZTK_OK"

definition known_audio :: "'b zms_media_source \<Rightarrow> zms_codec_id" where
  "known_audio s = (if ms_has_audio s then at_codec (ms_audio s) else ZMS_CODEC_INVALID)"

definition known_video :: "'b zms_media_source \<Rightarrow> zms_codec_id" where
  "known_video s = (if ms_has_video s then vt_codec (ms_video s) else ZMS_CODEC_INVALID)"

definition ingest_es_ensure_video :: "('b, 'd) zms_live_ingest \<Rightarrow> zms_codec_id \<Rightarrow> ('b, 'd) zms_live_ingest" where
  "ingest_es_ensure_video ch codec =
     (let ac = known_audio (li_source ch) in
      if li_have_video_cfg ch \<or> \<not> ingest_publish_codec_ok ch codec ac True (ac \<noteq> ZMS_CODEC_INVALID) then ch
      else on_source (\<lambda>s. s\<lparr>ms_has_video := True, ms_video := (ms_video s)\<lparr>vt_codec := codec, vt_ready := True\<rparr>\<rparr>)
             (ch\<lparr>li_have_video_cfg := True\<rparr>))"

definition ingest_es_ensure_audio :: "('b, 'd) zms_live_ingest \<Rightarrow> zms_codec_id \<Rightarrow> u32 \<Rightarrow> ('b, 'd) zms_live_ingest" where
  "ingest_es_ensure_audio ch codec rate =
     (let vc = known_video (li_source ch) in
      if li_have_audio_cfg ch \<or> \<not> ingest_publish_codec_ok ch vc codec (vc \<noteq> ZMS_CODEC_INVALID) True then ch
      else on_source (\<lambda>s. s\<lparr>ms_has_audio := True, ms_audio := (ms_audio s)\<lparr>at_codec := codec, at_ready := True,
               at_sample_rate := (if rate > 0 then sint rate else 48000),
               at_channels := (if codec = ZMS_CODEC_OPUS then 2 else 1)\<rparr>\<rparr>)
             (ch\<lparr>li_have_audio_cfg := True,
                 li_tl := zms_media_timeline_set_audio (li_tl ch) codec (if rate > 0 then rate else 48000)\<rparr>))"

definition ingest_es_try_store_av1_config :: "('b, 'd, 'l) ingest_env \<Rightarrow> ('b, 'd) zms_live_ingest \<Rightarrow> zms_frame
    \<Rightarrow> ('b, 'd) zms_live_ingest" where
  "ingest_es_try_store_av1_config e ch f =
     (case ms_gop_queue (li_source ch) of
        None \<Rightarrow> ch
      | Some q \<Rightarrow>
          if f_track f \<noteq> ZMS_TRACK_VIDEO \<or> f_codec f \<noteq> ZMS_CODEC_AV1 \<or> f_bytes f = [] then ch
          else if q_video_config q \<noteq> [] then ch
          else if \<not> zms_av1_obu_has_sequence_header (ie_es e) (f_bytes f) then ch
          else case zms_av1_extradata_from_obu (ie_av1 e) (f_bytes f) 2048 of
            None \<Rightarrow> ch
          | Some (av1c, w, h) \<Rightarrow>
              (case zms_av1_flv_sequence_header (ie_flv e) (ie_av1 e) av1c 4096 of
                 (err, hdr) \<Rightarrow>
                   if err \<noteq> ZTK_OK \<or> hdr = [] then ch
                   else on_source (\<lambda>s. s\<lparr>ms_video := (ms_video s)\<lparr>
                            vt_width := (if w > 0 then w else vt_width (ms_video s)),
                            vt_height := (if h > 0 then h else vt_height (ms_video s))\<rparr>\<rparr>)
                        (live_ingest_set_video_config e ch hdr)))"

definition ingest_codec_input_es :: "('b, 'd, 'l) ingest_env \<Rightarrow> ('b, 'd) zms_live_ingest \<Rightarrow> zms_frame
    \<Rightarrow> (ztk_err \<times> ('b, 'd) zms_live_ingest) option" where
  "ingest_codec_input_es e ch f =
     (if f_data f = None \<or> f_size f = 0 then Some (ZTK_ERR_INVALID, ch)
      else
        let stamped = (if f_track f = ZMS_TRACK_VIDEO then
              Some (live_ingest_video_pts (ingest_es_ensure_video
                (if f_codec f = ZMS_CODEC_AV1 then ingest_es_try_store_av1_config e ch f else ch) (f_codec f)) (ucast (f_dts_ms f)))
            else if f_track f = ZMS_TRACK_AUDIO \<and> f_codec f = ZMS_CODEC_OPUS then
              Some (live_ingest_audio_pts (ingest_es_ensure_audio ch ZMS_CODEC_OPUS (tl_audio_clock_hz (li_tl ch))) (ucast (f_dts_ms f)))
            else None)
        in case stamped of
             None \<Rightarrow> Some (ZTK_ERR_INVALID, ch)
           | Some (ts, ch1) \<Rightarrow>
               map_option (Pair ZTK_OK) (live_ingest_write_frame e ch1
                 (f\<lparr>f_dts_ms := ucast ts, f_pts_ms := ucast ts, f_owned := False\<rparr>)))"

definition zms_live_ingest_codec_input_dispatch :: "('b, 'd, 'l) ingest_env \<Rightarrow> ('b, 'd) zms_live_ingest \<Rightarrow> zms_frame
    \<Rightarrow> (ztk_err \<times> ('b, 'd) zms_live_ingest) option" where
  "zms_live_ingest_codec_input_dispatch e ch f =
     (if f_data f = None \<or> f_size f = 0 then Some (ZTK_ERR_INVALID, ch)
      else case f_codec f of
        ZMS_CODEC_INVALID \<Rightarrow> Some (ZTK_ERR_NOT_IMPL, ch)
      | ZMS_CODEC_H264 \<Rightarrow> zms_live_ingest_input_h264_annexb e ch (f_bytes f) (ucast (f_dts_ms f)) (ucast (f_pts_ms f))
      | ZMS_CODEC_H265 \<Rightarrow> zms_live_ingest_input_h265_annexb e ch (f_bytes f) (ucast (f_dts_ms f)) (ucast (f_pts_ms f)) (f_keyframe f)
      | ZMS_CODEC_AAC \<Rightarrow> zms_live_ingest_input_aac_es e ch (f_bytes f) (ucast (f_dts_ms f))
      | ZMS_CODEC_G711A \<Rightarrow> zms_live_ingest_input_g711_es e ch (f_codec f) (f_bytes f) (ucast (f_dts_ms f))
      | ZMS_CODEC_G711U \<Rightarrow> zms_live_ingest_input_g711_es e ch (f_codec f) (f_bytes f) (ucast (f_dts_ms f))
      | _ \<Rightarrow> ingest_codec_input_es e ch f)"

definition zms_live_ingest_input_frame :: "('b, 'd, 'l) ingest_env \<Rightarrow> ('b, 'd) zms_live_ingest \<Rightarrow> zms_frame
    \<Rightarrow> (ztk_err \<times> ('b, 'd) zms_live_ingest) option" where
  "zms_live_ingest_input_frame e ch f = zms_live_ingest_codec_input_dispatch e ch f"

section \<open>RTMP messages\<close>

text \<open>
  One frame of the tag demuxer: copied into a ring buffer, stamped with the time of the message,
  its ADTS header removed, and written. A buffer of an unknown track is given back.
\<close>

definition rtmp_frame_out :: "('b, 'd, 'l) ingest_env \<Rightarrow> ('b, 'd) zms_live_ingest \<Rightarrow> zms_frame
    \<Rightarrow> (zms_frame \<times> ('b, 'd) zms_live_ingest) option" where
  "rtmp_frame_out e ch f =
     (let base = zms_frame_init\<lparr>f_codec := f_codec f, f_track := f_track f, f_keyframe := f_keyframe f\<rparr>;
          stamp = (\<lambda>ts d flags. base\<lparr>f_data := Some d, f_size := length d, f_dts_ms := ucast (ts :: u32), f_pts_ms := ucast ts,
                     f_config_frame := fst flags, f_drop_able := snd flags\<rparr>)
      in if f_track f = ZMS_TRACK_VIDEO then
           (case live_ingest_video_pts ch (li_rtmp_raw_dts_ms ch) of
              (ts, ch1) \<Rightarrow> Some (stamp ts (f_bytes f)
                 (if f_codec f = ZMS_CODEC_H264 then zms_live_ingest_h264_annexb_frame_flags (f_bytes f) else (False, False)),
                 on_source (\<lambda>s. s\<lparr>ms_has_video := True\<rparr>) ch1))
         else if f_track f = ZMS_TRACK_AUDIO then
           (case live_ingest_audio_pts ch (li_rtmp_raw_dts_ms ch) of
              (ts, ch1) \<Rightarrow> Some (stamp ts
                 (if f_codec f = ZMS_CODEC_AAC \<and> fst (zms_aac_es_to_raw (f_bytes f)) = ZTK_OK
                  then snd (zms_aac_es_to_raw (f_bytes f)) else f_bytes f) (False, False),
                 on_source (\<lambda>s. s\<lparr>ms_has_audio := True\<rparr>) ch1))
         else None)"

definition ingest_rtmp_demux_on_frame :: "('b, 'd, 'l) ingest_env \<Rightarrow> ('b, 'd) zms_live_ingest \<Rightarrow> zms_frame
    \<Rightarrow> ('b, 'd) zms_live_ingest option" where
  "ingest_rtmp_demux_on_frame e ch f =
     (case ms_gop_queue (li_source ch) of
        None \<Rightarrow> Some ch
      | Some q \<Rightarrow>
          if f_data f = None \<or> f_size f = 0 then Some ch
          else
            let ch1 = ch\<lparr>li_rtmp_frame_got := True\<rparr>
            in case zms_gop_queue_alloc_write (ie_cap e) (ie_refcnt e q) (ie_fresh e q (f_size f)) q (f_size f) of
                 None \<Rightarrow> Some ch1
               | Some b \<Rightarrow>
                   let ch2 = on_source (\<lambda>s. s\<lparr>ms_gop_queue := Some (fill_buf q b (f_bytes f))\<rparr>) ch1
                   in case rtmp_frame_out e ch2 f of
                        None \<Rightarrow> Some (on_source (\<lambda>s. s\<lparr>ms_gop_queue :=
                                   map_option (log_calls [BufUnref b]) (ms_gop_queue s)\<rparr>) ch2)
                      | Some (out, ch3) \<Rightarrow>
                          let n = f_size out;
                              ch4 = on_source (\<lambda>s. s\<lparr>ms_gop_queue := map_option (\<lambda>q. fill_buf q b
                                        (f_bytes out @ drop n (f_bytes f))) (ms_gop_queue s)\<rparr>) ch3
                          in map_option snd (live_ingest_write_frame_buf e ch4 b (f_bytes out) out))"

fun rtmp_demux_frames :: "('b, 'd, 'l) ingest_env \<Rightarrow> zms_frame list \<Rightarrow> ('b, 'd) zms_live_ingest
    \<Rightarrow> ('b, 'd) zms_live_ingest option" where
  "rtmp_demux_frames e [] ch = Some ch"
| "rtmp_demux_frames e (f # fs) ch =
     (case ingest_rtmp_demux_on_frame e ch f of None \<Rightarrow> None | Some ch1 \<Rightarrow> rtmp_demux_frames e fs ch1)"

definition ingest_ensure_rtmp_demux :: "('b, 'd, 'l) ingest_env \<Rightarrow> ('b, 'd) zms_live_ingest \<Rightarrow> ('b, 'd) zms_live_ingest" where
  "ingest_ensure_rtmp_demux e ch =
     (if li_rtmp_demux ch \<noteq> None then ch else ch\<lparr>li_rtmp_demux := ie_demux_new e\<rparr>)"

definition zms_live_ingest_rtmp_demux_create :: "('b, 'd, 'l) ingest_env \<Rightarrow> ('b, 'd) zms_live_ingest
    \<Rightarrow> 'd option \<times> ('b, 'd) zms_live_ingest" where
  "zms_live_ingest_rtmp_demux_create e ch =
     (let ch1 = ingest_ensure_rtmp_demux e ch in (li_rtmp_demux ch1, ch1))"

definition zms_live_ingest_rtmp_demux_release :: "('b, 'd) zms_live_ingest \<Rightarrow> ('b, 'd) zms_live_ingest" where
  "zms_live_ingest_rtmp_demux_release ch = ch\<lparr>li_rtmp_demux := None\<rparr>"

definition ingest_rtmp_feed_tag :: "('b, 'd, 'l) ingest_env \<Rightarrow> ('b, 'd) zms_live_ingest \<Rightarrow> nat \<Rightarrow> u32 \<Rightarrow> bytes \<Rightarrow> nat
    \<Rightarrow> (ztk_err \<times> ('b, 'd) zms_live_ingest) option" where
  "ingest_rtmp_feed_tag e ch type_id dts body msg_type =
     (if body = [] \<or> ms_gop_queue (li_source ch) = None then Some (ZTK_ERR_INVALID, ch)
      else
        let ch1 = ingest_ensure_rtmp_demux e ch
        in case li_rtmp_demux ch1 of
             None \<Rightarrow> Some (ZTK_ERR_NOMEM, ch1)
           | Some dm \<Rightarrow>
               (case ie_demux e dm type_id body dts of
                  (err, fs, dm1) \<Rightarrow>
                    map_option (\<lambda>c. (err, c\<lparr>li_rtmp_active := False\<rparr>))
                      (rtmp_demux_frames e fs (ch1\<lparr>li_rtmp_active := True, li_rtmp_raw_dts_ms := dts,
                         li_rtmp_msg_type := msg_type, li_rtmp_frame_got := False, li_rtmp_demux := Some dm1\<rparr>))))"

text \<open>A fed message is in order when a frame came of it, whatever the demuxer said.\<close>

definition rtmp_fed :: "(ztk_err \<times> ('b, 'd) zms_live_ingest) option \<Rightarrow> (ztk_err \<times> ('b, 'd) zms_live_ingest) option" where
  "rtmp_fed r = map_option (\<lambda>(err, c). (if li_rtmp_frame_got c then ZTK_OK else err, c)) r"

definition rtmp_video_codec :: "('b, 'd, 'l) ingest_env \<Rightarrow> ('b, 'd) zms_live_ingest \<Rightarrow> bytes \<Rightarrow> zms_codec_id option" where
  "rtmp_video_codec e ch body =
     (let vc = zms_flv_tag_video_codec (ie_flv e) body in
      if vc \<in> {ZMS_CODEC_H264, ZMS_CODEC_H265, ZMS_CODEC_H266, ZMS_CODEC_AV1, ZMS_CODEC_VP8, ZMS_CODEC_VP9} then Some vc
      else if li_have_video_cfg ch \<and> vt_codec (ms_video (li_source ch)) \<noteq> ZMS_CODEC_INVALID
      then Some (vt_codec (ms_video (li_source ch))) else None)"

definition zms_live_ingest_input_rtmp_video :: "('b, 'd, 'l) ingest_env \<Rightarrow> ('b, 'd) zms_live_ingest \<Rightarrow> u32 \<Rightarrow> bytes
    \<Rightarrow> (ztk_err \<times> ('b, 'd) zms_live_ingest) option" where
  "zms_live_ingest_input_rtmp_video e ch dts body =
     (if length body < 2 then Some (ZTK_ERR_INVALID, ch)
      else case rtmp_video_codec e ch body of
        None \<Rightarrow> Some (ZTK_ERR_NOT_IMPL, ch)
      | Some vc \<Rightarrow>
          (case zms_flv_tag_video_packet_kind (ie_flv e) body of
             ZMS_FLV_TAG_PKT_INVALID \<Rightarrow> Some (ZTK_ERR_INVALID, ch)
           | ZMS_FLV_TAG_PKT_SEQ_HEADER \<Rightarrow>
               let ac = known_audio (li_source ch) in
               if zms_session_capability_check ZMS_PROTO_CAP_RTMP_PUBLISH vc ac True (ac \<noteq> ZMS_CODEC_INVALID) \<noteq> ZTK_OK
               then Some (ZTK_ERR_NOT_IMPL, ch)
               else
                 let ch1 = live_ingest_set_video_config e (on_source (\<lambda>s. s\<lparr>ms_has_video := True,
                             ms_video := (ms_video s)\<lparr>vt_codec := vc\<rparr>\<rparr>) (ch\<lparr>li_have_video_cfg := True\<rparr>)) body;
                     ch2 = on_source (\<lambda>s. s\<lparr>ms_video := (if vc = ZMS_CODEC_H264
                             then snd (zms_video_track_from_avc (ie_flv e) (ms_video s) body)
                             else (ms_video s)\<lparr>vt_ready := True\<rparr>)\<rparr>) ch1
                 in map_option (\<lambda>(_, c). (ZTK_OK, c)) (ingest_rtmp_feed_tag e ch2 9 dts body 9)
           | ZMS_FLV_TAG_PKT_RAW \<Rightarrow> rtmp_fed (ingest_rtmp_feed_tag e ch 9 dts body 9)
           | _ \<Rightarrow> Some (ZTK_OK, ch)))"

definition ingest_aac_seq_header_valid :: "('b, 'd, 'l) ingest_env \<Rightarrow> bytes \<Rightarrow> bool" where
  "ingest_aac_seq_header_valid e body =
     (if length body < 4 then False
      else case zms_flv_tag_aac_seq_header_asc (ie_flv e) body of
        None \<Rightarrow> False
      | Some cfg \<Rightarrow> length cfg \<ge> 2 \<and> zms_aac_parse_asc cfg \<noteq> None)"

definition rtmp_adopt_aac :: "('b, 'd, 'l) ingest_env \<Rightarrow> ('b, 'd) zms_live_ingest \<Rightarrow> bytes
    \<Rightarrow> ztk_err \<times> ('b, 'd) zms_live_ingest" where
  "rtmp_adopt_aac e ch body =
     (let vc = known_video (li_source ch) in
      if li_have_audio_cfg ch then (ZTK_OK, ch)
      else if zms_session_capability_check ZMS_PROTO_CAP_RTMP_PUBLISH vc ZMS_CODEC_AAC (vc \<noteq> ZMS_CODEC_INVALID) True \<noteq> ZTK_OK
      then (ZTK_ERR_NOT_IMPL, ch)
      else
        let ch1 = on_source (\<lambda>s. s\<lparr>ms_has_audio := True,
                    ms_audio := snd (zms_audio_track_from_rtmp (ie_flv e) (ms_audio s) body)\<rparr>)
                    ((live_ingest_set_audio_config e ch body)\<lparr>li_have_audio_cfg := True\<rparr>);
            rate = at_sample_rate (ms_audio (li_source ch1))
        in (ZTK_OK, ch1\<lparr>li_tl := zms_media_timeline_set_audio (li_tl ch1) ZMS_CODEC_AAC
              (if rate > 0 then word_of_int rate else 44100)\<rparr>))"

definition zms_live_ingest_input_rtmp_audio :: "('b, 'd, 'l) ingest_env \<Rightarrow> ('b, 'd) zms_live_ingest \<Rightarrow> u32 \<Rightarrow> bytes
    \<Rightarrow> (ztk_err \<times> ('b, 'd) zms_live_ingest) option" where
  "zms_live_ingest_input_rtmp_audio e ch dts body =
     (if length body < 2 then Some (ZTK_ERR_INVALID, ch)
      else
        let codec = zms_flv_tag_audio_codec (ie_flv e) body in
        if codec = ZMS_CODEC_OPUS \<and> zms_flv_tag_audio_packet_kind (ie_flv e) body = ZMS_FLV_TAG_PKT_SEQ_HEADER
        then Some (ZTK_ERR_NOT_IMPL, ch)
        else if ingest_aac_seq_header_valid e body then Some (rtmp_adopt_aac e ch body)
        else if codec = ZMS_CODEC_G711A \<or> codec = ZMS_CODEC_G711U then Some (ZTK_ERR_NOT_IMPL, ch)
        else rtmp_fed (ingest_rtmp_feed_tag e ch 8 dts body 8))"

section \<open>Resetting\<close>

definition zms_live_ingest_reset_upstream :: "('b, 'd, 'l) ingest_env \<Rightarrow> ('b, 'd) zms_live_ingest
    \<Rightarrow> ('b, 'd) zms_live_ingest option" where
  "zms_live_ingest_reset_upstream e ch =
     map_option (\<lambda>c. c\<lparr>li_rtmp_demux := None, li_have_video_cfg := False, li_have_audio_cfg := False,
        li_gop_vcfg_applied := False, li_video_cfg_len := 0, li_av_origin_set := False, li_av_origin_ms := 0,
        li_last_v_valid := False, li_last_a_valid := False, li_rtmp_active := False, li_rtmp_frame_got := False,
        li_tl_last_v_gop_norm := 0, li_tl_last_v_gop_valid := False,
        li_tl := zms_media_timeline_reset (li_tl c)\<rparr>)
       (zms_live_ingest_h265_hevc_au_reset e ch)"

text \<open>\<open>source_clear\<close> is \<open>zms_media_source_clear\<close> seen from the source.\<close>

definition source_clear :: "'b zms_media_source \<Rightarrow> 'b zms_media_source" where
  "source_clear s = (case ms_gop_queue s of
        None \<Rightarrow> s
      | Some q \<Rightarrow> s\<lparr>ms_gop_queue := Some (zms_gop_queue_clear q), ms_has_video := False, ms_has_audio := False,
          ms_video := zms_video_track_clear, ms_audio := zms_audio_track_clear, ms_stats := zms_media_stats_reset\<rparr>)"

lemma source_clear_hub: "zms_media_source_clear h i = hub_upd h i source_clear"
  unfolding zms_media_source_clear_def by (rule arg_cong[where f = "hub_upd h i"]) (auto simp: source_clear_def)

definition zms_live_ingest_reset :: "('b, 'd, 'l) ingest_env \<Rightarrow> ('b, 'd) zms_live_ingest
    \<Rightarrow> ('b, 'd) zms_live_ingest option" where
  "zms_live_ingest_reset e ch = map_option (on_source source_clear) (zms_live_ingest_reset_upstream e ch)"

text \<open>Destroying the ingest writes the access unit it still holds; what remains is the source.\<close>

definition zms_live_ingest_destroy :: "('b, 'd, 'l) ingest_env \<Rightarrow> ('b, 'd) zms_live_ingest
    \<Rightarrow> 'b zms_media_source option" where
  "zms_live_ingest_destroy e ch = map_option li_source (zms_live_ingest_h265_hevc_au_reset e ch)"

end
