(* ===== verification/Ingest_Spec.thy ===== *)
theory Ingest_Spec
  imports Ingest_Input Hub_Spec
begin

text \<open>
  What the ingest guarantees: it returns, it keeps the ring well formed and the identity of the
  source, and which frames it hands to the ring.
\<close>

section \<open>Every input returns and keeps the source\<close>

definition source_ok_ring :: "'b zms_media_source \<Rightarrow> bool" where
  "source_ok_ring s \<longleftrightarrow> (\<forall>q. ms_gop_queue s = Some q \<longrightarrow> gop_inv q)"

definition same_source :: "'b zms_media_source \<Rightarrow> 'b zms_media_source \<Rightarrow> bool" where
  "same_source s s' \<longleftrightarrow> ms_id s' = ms_id s \<and> hub_key s' = hub_key s \<and> ms_vod_buffer s' = ms_vod_buffer s
     \<and> ms_publish_origin s' = ms_publish_origin s
     \<and> (ms_gop_queue s' = None \<longleftrightarrow> ms_gop_queue s = None) \<and> (source_ok_ring s \<longrightarrow> source_ok_ring s')"

abbreviation keeps :: "('b, 'd) zms_live_ingest \<Rightarrow> ('b, 'd) zms_live_ingest \<Rightarrow> bool" where
  "keeps ch ch' \<equiv> same_source (li_source ch) (li_source ch')"

lemma same_source_refl [simp, intro]: "same_source s s" by (simp add: same_source_def)

lemma same_source_trans [trans]: "same_source s t \<Longrightarrow> same_source t u \<Longrightarrow> same_source s u"
  by (simp add: same_source_def)

lemma on_source_source [simp]: "li_source (on_source f ch) = f (li_source ch)" by (simp add: on_source_def)

lemma set_config_keeps [simp]:
  "keeps ch (live_ingest_set_video_config e ch d)" "keeps ch (live_ingest_set_audio_config e ch d)"
  by (auto simp: live_ingest_set_video_config_def live_ingest_set_audio_config_def same_source_def
      source_ok_ring_def hub_key_def set_config_inv split: option.splits)

lemma work_source [simp]: "li_source (snd (live_ingest_work_buf e ch)) = li_source ch" "li_source (work_write ch d) = li_source ch"
  by (auto simp: live_ingest_work_buf_def work_write_def split: prod.splits)

lemma pts_source [simp]: "li_source (snd (live_ingest_video_pts ch raw)) = li_source ch"
  "li_source (snd (live_ingest_audio_pts ch raw)) = li_source ch"
  by (auto simp: live_ingest_video_pts_def live_ingest_audio_pts_def Let_def split: prod.splits)

lemma tracks_keep [simp]:
  "same_source t (s\<lparr>ms_has_video := x\<rparr>) = same_source t s" "same_source t (s\<lparr>ms_has_audio := x\<rparr>) = same_source t s"
  "same_source t (s\<lparr>ms_video := v\<rparr>) = same_source t s" "same_source t (s\<lparr>ms_audio := a\<rparr>) = same_source t s"
  by (simp_all add: same_source_def source_ok_ring_def hub_key_def)

lemma write_returns:
  assumes "source_ok_ring (li_source ch)"
  shows "\<exists>ch'. live_ingest_write_frame e ch f = Some ch' \<and> keeps ch ch'"
proof (cases "ms_gop_queue (li_source ch)")
  case (Some q)
  with assms have "gop_inv q" by (simp add: source_ok_ring_def)
  from write_inv[OF this, of "ie_reg e" "ie_cap e" "ie_refcnt e q" "ie_fresh e q (f_size f)" "f\<lparr>f_owned := False\<rparr>"] Some
  show ?thesis by (auto simp: live_ingest_write_frame_def same_source_def source_ok_ring_def source_written_def hub_key_def)
qed (simp add: live_ingest_write_frame_def)

lemma log_calls_inv: "gop_inv q \<Longrightarrow> gop_inv (log_calls cs q)"
  by (erule gop_inv_cong) (simp_all add: log_calls_def)

lemma write_buf_returns:
  assumes "source_ok_ring (li_source ch)"
  shows "\<exists>err ch'. live_ingest_write_frame_buf e ch b d f = Some (err, ch') \<and> keeps ch ch'"
proof (cases "ms_gop_queue (li_source ch)")
  case (Some q)
  with assms have "gop_inv q" by (simp add: source_ok_ring_def)
  from write_buf_inv[OF this, of "ie_reg e" b d f] Some show ?thesis
    by (auto simp: live_ingest_write_frame_buf_def same_source_def source_ok_ring_def source_written_def hub_key_def
        log_calls_inv)
qed (simp add: live_ingest_write_frame_buf_def)

lemma keeps_ok: "keeps ch ch' \<Longrightarrow> source_ok_ring (li_source ch) \<Longrightarrow> source_ok_ring (li_source ch')"
  by (simp add: same_source_def)

text \<open>A result of an input: it returns, and the source is kept.\<close>

definition good :: "('b, 'd) zms_live_ingest \<Rightarrow> (ztk_err \<times> ('b, 'd) zms_live_ingest) option \<Rightarrow> bool" where
  "good ch r \<longleftrightarrow> (\<exists>err ch'. r = Some (err, ch') \<and> keeps ch ch')"

lemma good_Some [simp]: "good ch (Some (err, ch')) = keeps ch ch'" by (simp add: good_def)

lemma good_from: "good ch1 r \<Longrightarrow> keeps ch ch1 \<Longrightarrow> good ch r"
  by (auto simp: good_def intro: same_source_trans)

lemma good_map:
  "good ch r \<Longrightarrow> (\<And>err c. keeps ch c \<Longrightarrow> keeps ch (snd (f (err, c)))) \<Longrightarrow> good ch (map_option f r)"
  by (auto simp: good_def) (metis prod.collapse snd_conv)

text \<open>The same without a status.\<close>

definition kept :: "('b, 'd) zms_live_ingest \<Rightarrow> ('b, 'd) zms_live_ingest option \<Rightarrow> bool" where
  "kept ch r \<longleftrightarrow> (\<exists>ch'. r = Some ch' \<and> keeps ch ch')"

lemma kept_Some [simp]: "kept ch (Some ch') = keeps ch ch'" by (simp add: kept_def)

lemma kept_map: "kept ch r \<Longrightarrow> (\<And>c. keeps ch c \<Longrightarrow> keeps ch (f c)) \<Longrightarrow> kept ch (map_option f r)"
  by (auto simp: kept_def)

lemma kept_good: "kept ch r \<Longrightarrow> (\<And>c. keeps ch c \<Longrightarrow> keeps ch (snd (f c))) \<Longrightarrow> good ch (map_option f r)"
  by (auto simp: kept_def good_def) (metis prod.collapse)

lemma good_kept: "good ch r \<Longrightarrow> (\<And>err c. keeps ch c \<Longrightarrow> keeps ch (f (err, c))) \<Longrightarrow> kept ch (map_option f r)"
  by (auto simp: kept_def good_def)

lemma kept_from: "kept ch1 r \<Longrightarrow> keeps ch ch1 \<Longrightarrow> kept ch r"
  by (auto simp: kept_def intro: same_source_trans)

lemma kept_write: "source_ok_ring (li_source ch) \<Longrightarrow> keeps ch ch1 \<Longrightarrow> kept ch (live_ingest_write_frame e ch1 fr)"
  using write_returns[OF keeps_ok, of ch ch1 e fr] by (auto simp: kept_def intro: same_source_trans)

lemma good_write:
  assumes "source_ok_ring (li_source ch)" "keeps ch ch1" "\<And>s. same_source s (f s)"
  shows "good ch (map_option (\<lambda>c. (err, on_source f c)) (live_ingest_write_frame e ch1 fr))"
proof -
  obtain c where "live_ingest_write_frame e ch1 fr = Some c" "keeps ch1 c"
    using write_returns[OF keeps_ok[OF assms(2,1)]] by blast
  with assms(2,3) show ?thesis by (auto intro: same_source_trans)
qed

lemma good_write_buf:
  "source_ok_ring (li_source ch) \<Longrightarrow> keeps ch ch1 \<Longrightarrow> good ch (live_ingest_write_frame_buf e ch1 b d f)"
  using write_buf_returns[OF keeps_ok, of ch ch1 e b d f] by (auto simp: good_def intro: same_source_trans)

section \<open>H.264\<close>

lemma sps_keeps: "keeps ch (snd (zms_live_ingest_set_h264_sps_pps e ch sps pps))"
proof -
  obtain ok ch1 where w: "live_ingest_work_buf e ch = (ok, ch1)" by fastforce
  then have s: "li_source ch1 = li_source ch" using work_source(1)[of e ch] by simp
  have v: "keeps ch (live_ingest_set_video_config e (work_write ch1 d) c)" for d c
    using set_config_keeps(1)[of "work_write ch1 d"] s by simp
  show ?thesis using s v
    by (auto simp: zms_live_ingest_set_h264_sps_pps_def w Let_def split: prod.splits option.splits if_splits)
qed

lemma adopt_keeps: "keeps ch (h264_adopt_sps_pps e ch annexb)"
  using sps_keeps by (auto simp: h264_adopt_sps_pps_def split: prod.splits option.splits)

lemma apply_vcfg_keeps: "keeps ch (h264_apply_vcfg e ch)"
proof -
  obtain ok ch1 where w: "live_ingest_work_buf e ch = (ok, ch1)" by fastforce
  then have "li_source ch1 = li_source ch" using work_source(1)[of e ch] by simp
  with set_config_keeps(1)[of ch1 e] show ?thesis by (auto simp: h264_apply_vcfg_def w Let_def)
qed

lemma lock_source [simp]: "li_source (h264_lock_origin ch sync dts) = li_source ch"
  by (simp add: h264_lock_origin_def)

lemma emit_good: "source_ok_ring (li_source ch) \<Longrightarrow> good ch (h264_emit e ch annexb d p key)"
  unfolding h264_emit_def Let_def by (auto intro!: good_write split: prod.splits)

lemma input_h264_good:
  assumes "source_ok_ring (li_source ch)"
  shows "good ch (zms_live_ingest_input_h264_annexb e ch annexb dts pts)"
proof -
  let ?c1 = "h264_adopt_sps_pps e ch annexb"
  have 1: "keeps ch ?c1" by (rule adopt_keeps)
  have 2: "keeps ch (h264_apply_vcfg e ?c1)" using 1 apply_vcfg_keeps by (rule same_source_trans)
  have emit: "good ch (h264_emit e (snd (live_ingest_video_pts (h264_lock_origin c k0 t) t)) annexb d p k)"
    if "keeps ch c" for c k0 t d p k
    by (rule good_from[OF emit_good]) (use keeps_ok[OF that assms] that in simp_all)
  show ?thesis using 1 2
    by (auto simp: zms_live_ingest_input_h264_annexb_def Let_def case_prod_beta intro!: emit)
qed

section \<open>H.265\<close>

lemma au_update_source [simp]: "li_source (hevc_au_update f ch) = li_source ch" by (simp add: hevc_au_update_def)

lemma flush_good: "source_ok_ring (li_source ch) \<Longrightarrow> good ch (hevc_au_flush e ch)"
  unfolding hevc_au_flush_def Let_def by (auto intro!: good_write_buf split: option.splits)

lemma begin_good:
  assumes "source_ok_ring (li_source ch)" shows "good ch (hevc_au_begin e ch raw d p)"
  using flush_good[OF assms, of e] by (auto simp: hevc_au_begin_def good_def)

lemma append_source [simp]: "li_source (snd (hevc_au_append_nal e ch nal idr)) = li_source ch"
  by (auto simp: hevc_au_append_nal_def Let_def split: prod.splits)

lemma nal_loop_source [simp]: "li_source (snd (snd (hevc_nal_loop e cur n ch))) = li_source ch"
proof (induction e cur n ch rule: hevc_nal_loop.induct)
  case (1 e cur n ch)
  show ?case
  proof (cases "annexb_find_at (ie_nalu e) cur")
    case (Some a)
    obtain off len where a: "a = (off, len)" by fastforce
    let ?nal = "take len (drop off cur)"
    let ?t = "hevc_nal_type (?nal ! 0)"
    obtain err ch1 where ap: "hevc_au_append_nal e ch ?nal (16 \<le> ?t \<and> ?t \<le> 21) = (err, ch1)" by fastforce
    then have s: "li_source ch1 = li_source ch" using append_source[of e ch ?nal] by (metis snd_conv)
    show ?thesis using Some a ap s 1 by (subst hevc_nal_loop.simps) (auto simp: Let_def)
  qed (simp add: hevc_nal_loop.simps)
qed

lemma track_ready_keeps: "keeps ch (h265_track_ready e cfg ch)"
  using set_config_keeps(1)[of "work_write ch cfg" e cfg] by (simp add: h265_track_ready_def)

lemma find_config_keeps: "keeps ch (h265_find_config e ch annexb)"
proof -
  obtain ok ch1 where w: "live_ingest_work_buf e ch = (ok, ch1)" by fastforce
  then have s: "li_source ch1 = li_source ch" using work_source(1)[of e ch] by simp
  have "keeps ch (h265_track_ready e cfg ch1)" for cfg using track_ready_keeps[of ch1] s by simp
  with s show ?thesis by (auto simp: h265_find_config_def w split: option.splits)
qed

lemma set_h265_keeps: "keeps ch (snd (zms_live_ingest_set_h265_vps_sps_pps e ch vps sps pps))"
proof -
  obtain ok ch1 where w: "live_ingest_work_buf e ch = (ok, ch1)" by fastforce
  then have s: "li_source ch1 = li_source ch" using work_source(1)[of e ch] by simp
  have "keeps ch (h265_track_ready e cfg ch1)" for cfg using track_ready_keeps[of ch1] s by simp
  with s show ?thesis by (auto simp: zms_live_ingest_set_h265_vps_sps_pps_def w split: prod.splits)
qed

lemma stamps_source [simp]: "li_source (snd (snd (h265_stamps ch dts pts))) = li_source ch"
  by (auto simp: h265_stamps_def case_prod_beta)

lemma prepare_keeps: "keeps ch (h265_prepare e ch annexb dts keyframe)"
proof -
  have "keeps ch (h265_find_config e c annexb)" if "li_source c = li_source ch" for c
    using find_config_keeps[of c] that by simp
  then show ?thesis by (simp add: h265_prepare_def Let_def)
qed

lemma input_h265_good:
  assumes "source_ok_ring (li_source ch)"
  shows "good ch (zms_live_ingest_input_h265_annexb e ch annexb dts pts keyframe)"
proof -
  have rest: "good ch (case hevc_au_begin e c4 dts d p of None \<Rightarrow> None
      | Some (err, ch5) \<Rightarrow> if err \<noteq> ZTK_OK then Some (ZTK_ERR_NOMEM, ch5)
          else case hevc_nal_loop e annexb 0 ch5 of (err2, n, ch6) \<Rightarrow>
            if err2 \<noteq> ZTK_OK then Some (ZTK_ERR_NOMEM, ch6)
            else if n = 0 then Some (ZTK_ERR_INVALID, ch6)
            else hevc_au_flush e (on_source (\<lambda>s. s\<lparr>ms_has_video := True\<rparr>) ch6))" if k: "keeps ch c4" for c4 d p
  proof -
    obtain err c5 where b: "hevc_au_begin e c4 dts d p = Some (err, c5)" "keeps c4 c5"
      using begin_good[OF keeps_ok[OF k assms]] unfolding good_def by blast
    obtain err2 n c6 where l: "hevc_nal_loop e annexb 0 c5 = (err2, n, c6)" by (metis prod_cases3)
    then have s6: "li_source c6 = li_source c5" using nal_loop_source[of e annexb 0 c5] by simp
    have k5: "keeps ch c5" using k b(2) by (rule same_source_trans)
    let ?c7 = "on_source (\<lambda>s. s\<lparr>ms_has_video := True\<rparr>) c6"
    have k7: "keeps ch ?c7" using k5 s6 by simp
    have "good ch (hevc_au_flush e ?c7)" using flush_good[OF keeps_ok[OF k7 assms]] k7 by (rule good_from)
    with b l k5 s6 show ?thesis by auto
  qed
  define c3 where "c3 = h265_prepare e ch annexb dts keyframe"
  obtain d p c4 where st: "h265_stamps c3 dts pts = (d, p, c4)" by (metis prod_cases3)
  have k3: "keeps ch c3" unfolding c3_def by (rule prepare_keeps)
  then have "keeps ch c4" using stamps_source[of c3 dts pts] st by simp
  from rest[OF this, of d p] k3 show ?thesis
    unfolding zms_live_ingest_input_h265_annexb_def Let_def c3_def[symmetric] st by auto
qed

section \<open>Audio\<close>

lemma aac_write_good: "source_ok_ring (li_source ch) \<Longrightarrow> good ch (aac_write_one_au e ch au raw)"
  by (auto simp: aac_write_one_au_def case_prod_beta intro!: good_write)

lemma adts_walk_inv:
  "(\<And>au u. P u \<Longrightarrow> P (snd (cb au u))) \<Longrightarrow> P u \<Longrightarrow> P (snd (adts_walk cb p u))"
proof (induction cb p u rule: adts_walk.induct)
  case (1 cb p u)
  show ?case
  proof (cases "length p < 7 \<or> adts_frame p = None")
    case False
    then obtain au r where f: "adts_frame p = Some (au, r)" by auto
    obtain stop u1 where c: "cb au u = (stop, u1)" by fastforce
    then have "P u1" using 1(2)[OF 1(3), of au] by simp
    with 1 f c False show ?thesis by (subst adts_walk.simps) (auto simp: case_prod_beta)
  qed (use 1(3) in \<open>auto simp: adts_walk.simps\<close>)
qed

lemma foreach_inv:
  assumes P: "\<And>au u. P u \<Longrightarrow> P (snd (cb au u))" and u: "P u"
  shows "P (snd (zms_aac_es_foreach_frame cb es u))"
proof -
  let ?r = "if adts_sync es then adts_walk cb es u else (0, u)"
  have r: "P (snd ?r)" using adts_walk_inv[of P cb, OF P u] u by simp
  from P[OF r, of es] r u show ?thesis
    by (auto simp: zms_aac_es_foreach_frame_def Let_def case_prod_beta)
qed

lemma split_good:
  assumes ok: "source_ok_ring (li_source ch)" and u: "\<exists>c. u = Some c \<and> keeps ch (sx_ch c)"
  shows "\<exists>c. snd (aac_split_handler e raw dur au u) = Some c \<and> keeps ch (sx_ch c)"
proof -
  obtain c where c: "u = Some c" "keeps ch (sx_ch c)" using u by blast
  have "good (sx_ch c) (aac_write_one_au e (sx_ch c) au (raw + of_nat (sx_idx c) * dur))"
    using keeps_ok[OF c(2) ok] by (rule aac_write_good)
  with c show ?thesis
    by (auto simp: aac_split_handler_def good_def intro: same_source_trans split: option.splits)
qed

lemma aac_hex_keeps: "keeps ch (snd (zms_live_ingest_set_aac_config_hex e ch hex))"
proof -
  obtain ok ch1 where w: "live_ingest_work_buf e ch = (ok, ch1)" by fastforce
  then have s: "li_source ch1 = li_source ch" using work_source(1)[of e ch] by simp
  have "keeps ch (live_ingest_set_audio_config e (work_write ch1 d) c)" for d c
    using set_config_keeps(2)[of "work_write ch1 d"] s by simp
  with s show ?thesis by (auto simp: zms_live_ingest_set_aac_config_hex_def w split: prod.splits)
qed

lemma ensure_aac_keeps: "keeps ch (snd (zms_live_ingest_ensure_aac_config e ch rate chans))"
  using aac_hex_keeps[of "ch\<lparr>li_tl := t\<rparr>" for t] aac_hex_keeps[of ch]
  by (auto simp: zms_live_ingest_ensure_aac_config_def split: option.splits)

lemma aac_config_keeps: "keeps ch (aac_find_config e ch aac)"
  using ensure_aac_keeps by (auto simp: aac_find_config_def Let_def split: option.splits)

lemma input_aac_good:
  assumes ok: "source_ok_ring (li_source ch)"
  shows "good ch (zms_live_ingest_input_aac_es e ch aac dts)"
proof -
  define c1 where "c1 = aac_find_config e ch aac"
  define r where "r = zms_aac_es_foreach_frame (aac_split_handler e dts (aac_frame_step c1)) aac
      (Some \<lparr>sx_ch = c1, sx_idx = 0, sx_err = ZTK_OK\<rparr>)"
  have k: "keeps ch c1" unfolding c1_def by (rule aac_config_keeps)
  have w: "good ch (aac_write_one_au e c1 aac dts)"
    using aac_write_good[OF keeps_ok[OF k ok]] k by (rule good_from)
  have "\<exists>c. snd r = Some c \<and> keeps ch (sx_ch c)"
    unfolding r_def
    by (rule foreach_inv[where P = "\<lambda>u. \<exists>c. u = Some c \<and> keeps ch (sx_ch c)"], rule split_good[OF ok], assumption)
      (use k in simp)
  then obtain err c where f: "r = (err, Some c)" "keeps ch (sx_ch c)" by (cases r) auto
  from w obtain err1 c2 where w: "aac_write_one_au e c1 aac dts = Some (err1, c2)" "keeps ch c2"
    unfolding good_def by blast
  show ?thesis
    unfolding zms_live_ingest_input_aac_es_def Let_def c1_def[symmetric] r_def[symmetric] using f w by simp
qed

lemma g711_keeps: "keeps ch (zms_live_ingest_g711_ensure ch codec)"
  by (simp add: zms_live_ingest_g711_ensure_def)

lemma input_g711_good:
  "source_ok_ring (li_source ch) \<Longrightarrow> good ch (zms_live_ingest_input_g711_es e ch codec d dts)"
  using g711_keeps[of ch codec]
  by (auto simp: zms_live_ingest_input_g711_es_def case_prod_beta intro!: good_write)

section \<open>The other codecs, the dispatch, RTMP\<close>

lemma ensure_es_keeps: "keeps ch (ingest_es_ensure_video ch codec)" "keeps ch (ingest_es_ensure_audio ch codec rate)"
  by (simp_all add: ingest_es_ensure_video_def ingest_es_ensure_audio_def Let_def)

lemma av1_config_keeps: "keeps ch (ingest_es_try_store_av1_config e ch f)"
  by (auto simp: ingest_es_try_store_av1_config_def split: option.splits prod.splits)

lemma input_es_good:
  assumes ok: "source_ok_ring (li_source ch)"
  shows "good ch (ingest_codec_input_es e ch f)"
proof -
  define stamped where "stamped = (if f_track f = ZMS_TRACK_VIDEO then
              Some (live_ingest_video_pts (ingest_es_ensure_video
                (if f_codec f = ZMS_CODEC_AV1 then ingest_es_try_store_av1_config e ch f else ch) (f_codec f)) (ucast (f_dts_ms f)))
            else if f_track f = ZMS_TRACK_AUDIO \<and> f_codec f = ZMS_CODEC_OPUS then
              Some (live_ingest_audio_pts (ingest_es_ensure_audio ch ZMS_CODEC_OPUS (tl_audio_clock_hz (li_tl ch))) (ucast (f_dts_ms f)))
            else None)"
  have v: "keeps ch (ingest_es_ensure_video (ingest_es_try_store_av1_config e ch f) c)" for c
    using av1_config_keeps ensure_es_keeps(1) by (rule same_source_trans)
  have "keeps ch (snd p)" if "stamped = Some p" for p
    using that v ensure_es_keeps by (auto simp: stamped_def split: if_splits)
  then have g: "good ch (map_option (Pair ZTK_OK) (live_ingest_write_frame e c1 fr))" if "stamped = Some (ts, c1)" for ts c1 fr
    using that by (auto intro!: kept_good kept_write ok)
  show ?thesis
    by (simp add: ingest_codec_input_es_def Let_def flip: stamped_def) (auto intro!: g split: option.splits)
qed

lemma dispatch_good:
  "source_ok_ring (li_source ch) \<Longrightarrow> good ch (zms_live_ingest_codec_input_dispatch e ch f)"
  using input_h264_good input_h265_good input_aac_good input_g711_good input_es_good
  by (auto simp: zms_live_ingest_codec_input_dispatch_def split: zms_codec_id.splits)

lemma fill_keeps [simp]:
  assumes "same_source s t"
  shows "same_source s (t\<lparr>ms_gop_queue := map_option (\<lambda>q. fill_buf q b d) (ms_gop_queue t)\<rparr>)"
    and "same_source s (t\<lparr>ms_gop_queue := map_option (log_calls cs) (ms_gop_queue t)\<rparr>)"
  using assms
  by (cases "ms_gop_queue t"; simp add: same_source_def source_ok_ring_def hub_key_def fill_buf_inv log_calls_inv)+

lemma frame_out_source:
  "rtmp_frame_out e ch f = Some (out, ch1) \<Longrightarrow> same_source s (li_source ch) \<Longrightarrow> same_source s (li_source ch1)"
  by (auto simp: rtmp_frame_out_def Let_def case_prod_beta split: if_splits)

lemma on_frame_returns:
  assumes ok: "source_ok_ring (li_source ch)"
  shows "\<exists>ch'. ingest_rtmp_demux_on_frame e ch f = Some ch' \<and> keeps ch ch'"
proof (cases "ms_gop_queue (li_source ch)")
  case (Some q)
  have k: "same_source (li_source ch) ((li_source ch)\<lparr>ms_gop_queue := Some (fill_buf q b d)\<rparr>)" for b d
    using fill_keeps(1)[of "li_source ch" "li_source ch" b d] Some by simp
  let ?c = "\<lambda>b. on_source (\<lambda>s. s\<lparr>ms_gop_queue := Some (fill_buf q b (f_bytes f))\<rparr>) (ch\<lparr>li_rtmp_frame_got := True\<rparr>)"
  have out: "\<exists>ch'. map_option snd (live_ingest_write_frame_buf e (on_source (\<lambda>s. s\<lparr>ms_gop_queue :=
        map_option (\<lambda>q. fill_buf q b d) (ms_gop_queue s)\<rparr>) c3) b (f_bytes o1) o1) = Some ch' \<and> keeps ch ch'"
    if "rtmp_frame_out e (?c b) f = Some (o1, c3)" for b d o1 c3
  proof -
    have "keeps ch c3" using frame_out_source[OF that] k by simp
    then have "keeps ch (on_source (\<lambda>s. s\<lparr>ms_gop_queue := map_option (\<lambda>q. fill_buf q b d) (ms_gop_queue s)\<rparr>) c3)" by simp
    from good_kept[OF good_write_buf[OF ok this, of e b "f_bytes o1" o1], where f = snd] show ?thesis by (simp add: kept_def)
  qed
  have un: "same_source (li_source ch) ((li_source ch)\<lparr>ms_gop_queue := Some (log_calls cs (fill_buf q b d))\<rparr>)" for b cs d
    using fill_keeps(2)[OF k[of b d], of cs] by simp
  show ?thesis using Some out un
    by (auto simp: ingest_rtmp_demux_on_frame_def Let_def split: option.splits)
qed (simp add: ingest_rtmp_demux_on_frame_def)

lemma demux_frames_returns:
  "source_ok_ring (li_source ch) \<Longrightarrow> \<exists>ch'. rtmp_demux_frames e fs ch = Some ch' \<and> keeps ch ch'"
proof (induction fs arbitrary: ch)
  case (Cons f fs)
  obtain c1 where c1: "ingest_rtmp_demux_on_frame e ch f = Some c1" "keeps ch c1"
    using on_frame_returns[OF Cons.prems] by blast
  with Cons.IH[OF keeps_ok[OF c1(2) Cons.prems]] show ?case by (auto intro: same_source_trans)
qed simp

lemma feed_tag_good:
  assumes ok: "source_ok_ring (li_source ch)"
  shows "good ch (ingest_rtmp_feed_tag e ch type_id dts body msg)"
proof -
  have s: "li_source (ingest_ensure_rtmp_demux e ch) = li_source ch" by (simp add: ingest_ensure_rtmp_demux_def)
  have "\<exists>ch'. rtmp_demux_frames e fs c = Some ch' \<and> keeps ch ch'" if "li_source c = li_source ch" for c fs
    using demux_frames_returns[of c e fs] ok that by simp
  then have k: "good ch (map_option (\<lambda>c. (err, c\<lparr>li_rtmp_active := False\<rparr>)) (rtmp_demux_frames e fs c))"
    if "li_source c = li_source ch" for c fs err
    using that by (intro kept_good) (auto simp: kept_def)
  show ?thesis using s
    by (auto simp: ingest_rtmp_feed_tag_def Let_def intro!: k split: option.splits prod.splits)
qed

lemma fed_good: "good ch r \<Longrightarrow> good ch (rtmp_fed r)" unfolding rtmp_fed_def by (rule good_map) auto

lemma rtmp_video_good:
  assumes ok: "source_ok_ring (li_source ch)"
  shows "good ch (zms_live_ingest_input_rtmp_video e ch dts body)"
proof -
  have k: "keeps ch (live_ingest_set_video_config e (on_source (\<lambda>s. s\<lparr>ms_has_video := True,
                ms_video := (ms_video s)\<lparr>vt_codec := vc\<rparr>\<rparr>) (ch\<lparr>li_have_video_cfg := True\<rparr>)) body)" for vc
    by (rule same_source_trans[OF _ set_config_keeps(1)]) simp
  have g: "good ch (map_option (\<lambda>(_, c). (ZTK_OK, c)) (ingest_rtmp_feed_tag e c 9 dts body 9))" if "keeps ch c" for c
    using good_from[OF feed_tag_good[OF keeps_ok[OF that ok]] that] by (rule good_map) simp
  show ?thesis using fed_good[OF feed_tag_good[OF ok]] k
    by (auto simp: zms_live_ingest_input_rtmp_video_def Let_def intro!: g split: option.splits zms_flv_tag_packet_kind.splits)
qed

lemma adopt_aac_keeps: "keeps ch (snd (rtmp_adopt_aac e ch body))"
  by (simp add: rtmp_adopt_aac_def Let_def)

lemma rtmp_audio_good:
  assumes ok: "source_ok_ring (li_source ch)"
  shows "good ch (zms_live_ingest_input_rtmp_audio e ch dts body)"
  using fed_good[OF feed_tag_good[OF ok]] adopt_aac_keeps[of ch e body]
  by (cases "rtmp_adopt_aac e ch body") (auto simp: zms_live_ingest_input_rtmp_audio_def Let_def)

section \<open>Resets\<close>

lemma au_reset_returns:
  "source_ok_ring (li_source ch) \<Longrightarrow> \<exists>ch'. zms_live_ingest_h265_hevc_au_reset e ch = Some ch' \<and> keeps ch ch'"
  using flush_good[of ch e] by (auto simp: zms_live_ingest_h265_hevc_au_reset_def good_def)

lemma reset_upstream_returns:
  "source_ok_ring (li_source ch) \<Longrightarrow> \<exists>ch'. zms_live_ingest_reset_upstream e ch = Some ch' \<and> keeps ch ch'"
  using au_reset_returns[of ch e] by (auto simp: zms_live_ingest_reset_upstream_def)

lemma source_clear_keeps: "same_source s t \<Longrightarrow> same_source s (source_clear t)"
  by (cases "ms_gop_queue t") (simp_all add: source_clear_def same_source_def source_ok_ring_def hub_key_def clear_inv)

lemma reset_returns:
  "source_ok_ring (li_source ch) \<Longrightarrow> \<exists>ch'. zms_live_ingest_reset e ch = Some ch' \<and> keeps ch ch'"
  using reset_upstream_returns[of ch e] by (auto simp: zms_live_ingest_reset_def source_clear_keeps)

section \<open>Steps\<close>

text \<open>Everything a session does with its ingest.\<close>

inductive ingest_step :: "('b, 'd, 'l) ingest_env \<Rightarrow> ('b, 'd) zms_live_ingest \<Rightarrow> ('b, 'd) zms_live_ingest \<Rightarrow> bool" for e where
  is_frame: "zms_live_ingest_input_frame e ch f = Some (err, ch') \<Longrightarrow> ingest_step e ch ch'"
| is_rtmp_video: "zms_live_ingest_input_rtmp_video e ch dts body = Some (err, ch') \<Longrightarrow> ingest_step e ch ch'"
| is_rtmp_audio: "zms_live_ingest_input_rtmp_audio e ch dts body = Some (err, ch') \<Longrightarrow> ingest_step e ch ch'"
| is_h264: "zms_live_ingest_set_h264_sps_pps e ch sps pps = (err, ch') \<Longrightarrow> ingest_step e ch ch'"
| is_h265: "zms_live_ingest_set_h265_vps_sps_pps e ch vps sps pps = (err, ch') \<Longrightarrow> ingest_step e ch ch'"
| is_aac: "zms_live_ingest_set_aac_config_hex e ch hex = (err, ch') \<Longrightarrow> ingest_step e ch ch'"
| is_aac_rate: "zms_live_ingest_ensure_aac_config e ch rate chans = (err, ch') \<Longrightarrow> ingest_step e ch ch'"
| is_flush: "zms_live_ingest_h265_hevc_au_flush e ch = Some (err, ch') \<Longrightarrow> ingest_step e ch ch'"
| is_reset: "zms_live_ingest_reset e ch = Some ch' \<Longrightarrow> ingest_step e ch ch'"
| is_reset_upstream: "zms_live_ingest_reset_upstream e ch = Some ch' \<Longrightarrow> ingest_step e ch ch'"
| is_poller: "ingest_step e ch (zms_live_ingest_set_poller ch p)"
| is_audio_codec: "ingest_step e ch (zms_live_ingest_set_audio_codec ch codec rate32)"
| is_clocks: "ingest_step e ch (zms_live_ingest_set_rtp_clocks ch vhz codec ahz)"
| is_max_delta: "ingest_step e ch (zms_live_ingest_set_stamp_max_delta ch d)"
| is_clamp: "ingest_step e ch (zms_live_ingest_set_stamp_av_clamp ch on)"
| is_linear: "ingest_step e ch (zms_live_ingest_set_timeline_linear_ms ch on)"
| is_defer: "ingest_step e ch (zms_live_ingest_set_defer_gop_vcfg ch on)"

lemma settings_source [simp]:
  "li_source (zms_live_ingest_set_poller ch p) = li_source ch"
  "li_source (zms_live_ingest_set_audio_codec ch codec rate32) = li_source ch"
  "li_source (zms_live_ingest_set_rtp_clocks ch vhz codec ahz) = li_source ch"
  "li_source (zms_live_ingest_set_stamp_max_delta ch d) = li_source ch"
  "li_source (zms_live_ingest_set_stamp_av_clamp ch on) = li_source ch"
  "li_source (zms_live_ingest_set_timeline_linear_ms ch on) = li_source ch"
  "li_source (zms_live_ingest_set_defer_gop_vcfg ch on) = li_source ch"
  by (simp_all add: zms_live_ingest_set_poller_def zms_live_ingest_set_audio_codec_def zms_live_ingest_set_rtp_clocks_def
      zms_live_ingest_set_stamp_max_delta_def zms_live_ingest_set_stamp_av_clamp_def
      zms_live_ingest_set_timeline_linear_ms_def zms_live_ingest_set_defer_gop_vcfg_def Let_def)

lemma goodD: "good ch r \<Longrightarrow> r = Some (err, ch') \<Longrightarrow> keeps ch ch'" by simp

lemma step_keeps:
  assumes "ingest_step e ch ch'" "source_ok_ring (li_source ch)" shows "keeps ch ch'"
  using assms
proof (cases rule: ingest_step.cases)
  case is_frame with goodD[OF dispatch_good[OF assms(2)]] show ?thesis
    unfolding zms_live_ingest_input_frame_def by blast
next
  case is_rtmp_video with goodD[OF rtmp_video_good[OF assms(2)]] show ?thesis by blast
next
  case is_rtmp_audio with goodD[OF rtmp_audio_good[OF assms(2)]] show ?thesis by blast
next
  case is_h264 with sps_keeps show ?thesis by (metis snd_conv)
next
  case is_h265 with set_h265_keeps show ?thesis by (metis snd_conv)
next
  case is_aac with aac_hex_keeps show ?thesis by (metis snd_conv)
next
  case is_aac_rate with ensure_aac_keeps show ?thesis by (metis snd_conv)
next
  case is_flush with goodD[OF flush_good[OF assms(2)]] show ?thesis
    unfolding zms_live_ingest_h265_hevc_au_flush_def by blast
next
  case is_reset with reset_returns[OF assms(2), of e] show ?thesis by auto
next
  case is_reset_upstream with reset_upstream_returns[OF assms(2), of e] show ?thesis by auto
qed simp_all

lemma steps_keep:
  assumes "(ingest_step e)\<^sup>*\<^sup>* ch ch'" "source_ok_ring (li_source ch)" shows "keeps ch ch'"
  using assms
proof (induction rule: rtranclp_induct)
  case (step c1 c2)
  then have k: "keeps ch c1" by simp
  from step_keeps[OF step.hyps(2) keeps_ok[OF k step.prems]] k show ?case by (rule same_source_trans[rotated])
qed simp

text \<open>A source that is put back with its identity kept leaves the registry as it was.\<close>

lemma put_back:
  assumes h: "hub_inv h" and g: "hub_get h i = Some s" and k: "same_source s s'"
  shows "hub_inv (hub_upd h i (\<lambda>_. s'))"
    and "zms_media_source_find (hub_upd h i (\<lambda>_. s')) schema app stream = zms_media_source_find h schema app stream"
proof -
  have d: "distinct (map ms_id (hb_sources h))" using h by (simp add: hub_inv_def)
  have s: "s \<in> set (hb_sources h)" "ms_id s = i" using get_Some[OF g] by auto
  have only: "t = s" if "t \<in> set (hb_sources h)" "ms_id t = i" for t
    using d s that by (metis distinct_map inj_on_eq_iff)
  have eq: "map m (hb_sources (hub_upd h i (\<lambda>_. s'))) = map m (hb_sources h)" if "m s' = m s" for m :: "'a zms_media_source \<Rightarrow> 'c"
    using only that by (auto simp: hub_upd_def)
  have wf: "source_wf s'" using h s k by (auto simp: hub_inv_def source_wf_def same_source_def hub_key_def)
  have i: "map ms_id (hb_sources (hub_upd h i (\<lambda>_. s'))) = map ms_id (hb_sources h)"
    and kk: "map hub_key (hb_sources (hub_upd h i (\<lambda>_. s'))) = map hub_key (hb_sources h)"
    by (rule eq, use k in \<open>simp add: same_source_def\<close>)+
  show "hub_inv (hub_upd h i (\<lambda>_. s'))"
    using h wf only k unfolding hub_inv_def i kk by (auto simp: hub_upd_def same_source_def)
  have m: "key_match s' schema app stream = key_match s schema app stream"
    using k by (auto simp: key_match_def source_active_def same_source_def hub_key_def)
  have id: "ms_id s' = i" using k s(2) by (simp add: same_source_def)
  have "map_option ms_id (find (\<lambda>t. key_match t schema app stream) (map (\<lambda>t. if ms_id t = i then s' else t) ts))
      = map_option ms_id (find (\<lambda>t. key_match t schema app stream) ts)"
    if "set ts \<subseteq> set (hb_sources h)" for ts
    using that m only id by (induction ts) auto
  from this[of "hb_sources h"]
  show "zms_media_source_find (hub_upd h i (\<lambda>_. s')) schema app stream = zms_media_source_find h schema app stream"
    by (simp add: zms_media_source_find_def hub_upd_def)
qed

text \<open>
  C33: Every input and every reset of an ingest returns, whatever the frame, the message and the
  environment: the loops over NAL units, ADTS frames and demuxed frames end and so does every write
  into a well-formed ring.\<close>

theorem ingest_inputs_return:
  assumes "source_ok_ring (li_source ch)"
  shows "zms_live_ingest_input_frame e ch f \<noteq> None
    \<and> zms_live_ingest_input_rtmp_video e ch dts body \<noteq> None
    \<and> zms_live_ingest_input_rtmp_audio e ch dts body \<noteq> None
    \<and> zms_live_ingest_reset e ch \<noteq> None \<and> zms_live_ingest_destroy e ch \<noteq> None"
  using dispatch_good[OF assms, of e f] rtmp_video_good[OF assms, of e dts body]
    rtmp_audio_good[OF assms, of e dts body] reset_returns[OF assms, of e] au_reset_returns[OF assms, of e]
  by (auto simp: good_def zms_live_ingest_input_frame_def zms_live_ingest_destroy_def)

text \<open>
  C32: Whatever a session feeds its ingest, in any order and number, the registry its source is put
  back into stays well formed, every lookup finds what it found, and the ring of the source stays
  well formed.\<close>

theorem ingest_keeps_registry:
  assumes "hub_inv h" "hub_get h i = Some (li_source ch)" "source_ok_ring (li_source ch)"
    and "(ingest_step e)\<^sup>*\<^sup>* ch ch'"
  shows "hub_inv (hub_upd h i (\<lambda>_. li_source ch')) \<and> source_ok_ring (li_source ch')
    \<and> zms_media_source_find (hub_upd h i (\<lambda>_. li_source ch')) schema app stream = zms_media_source_find h schema app stream"
  using steps_keep[OF assms(4,3)] assms put_back[OF assms(1,2)] keeps_ok by blast

end
