(* ===== verification/Ingest_Frames.thy ===== *)
theory Ingest_Frames
  imports Ingest_Spec
begin

text \<open>
  Which frames the ingest hands to the ring: the payload, the stamp and the key flag of what each
  input writes, against the units of the stream; and where the code departs from it.
\<close>

unbundle bit_operations_syntax

section \<open>H.264\<close>

text \<open>What of a source a player sees: the ring without its configuration.\<close>

definition ring_frames :: "'b zms_media_source \<Rightarrow> ('b zms_frame_slot list \<times> nat \<times> nat \<times> nat) option" where
  "ring_frames s = map_option (\<lambda>q. (q_slots q, q_write_idx q, q_count q, q_gop_count q)) (ms_gop_queue s)"

lemma ring_frames_track [simp]:
  "ring_frames (s\<lparr>ms_has_video := x\<rparr>) = ring_frames s" "ring_frames (s\<lparr>ms_has_audio := x\<rparr>) = ring_frames s"
  "ring_frames (s\<lparr>ms_video := v\<rparr>) = ring_frames s" "ring_frames (s\<lparr>ms_audio := a\<rparr>) = ring_frames s"
  by (simp_all add: ring_frames_def)

lemma set_config_frames [simp]:
  "ring_frames (li_source (live_ingest_set_video_config e ch d)) = ring_frames (li_source ch)"
  "ring_frames (li_source (live_ingest_set_audio_config e ch d)) = ring_frames (li_source ch)"
  by (auto simp: live_ingest_set_video_config_def live_ingest_set_audio_config_def ring_frames_def
      zms_gop_queue_set_video_config_def zms_gop_queue_set_audio_config_def Let_def split: option.splits prod.splits)

lemma sps_frames: "ring_frames (li_source (snd (zms_live_ingest_set_h264_sps_pps e ch sps pps))) = ring_frames (li_source ch)"
proof -
  obtain ok ch1 where w: "live_ingest_work_buf e ch = (ok, ch1)" by fastforce
  then have "li_source ch1 = li_source ch" using work_source(1)[of e ch] by simp
  then show ?thesis
    by (auto simp: zms_live_ingest_set_h264_sps_pps_def w Let_def split: prod.splits option.splits if_splits)
qed

lemma adopt_frames [simp]: "ring_frames (li_source (h264_adopt_sps_pps e ch annexb)) = ring_frames (li_source ch)"
  using sps_frames by (auto simp: h264_adopt_sps_pps_def split: prod.splits option.splits)

lemma apply_vcfg_frames [simp]: "ring_frames (li_source (h264_apply_vcfg e ch)) = ring_frames (li_source ch)"
proof -
  obtain ok ch1 where w: "live_ingest_work_buf e ch = (ok, ch1)" by fastforce
  then have "li_source ch1 = li_source ch" using work_source(1)[of e ch] by simp
  then show ?thesis by (simp add: h264_apply_vcfg_def w Let_def)
qed

text \<open>
  An H.264 unit that arrives before the first IDR unit of a deferred stream, and one that holds
  parameter sets or auxiliary units but no slice, is accepted and leaves every frame of the ring as
  it is.\<close>

theorem h264_unit_dropped:
  assumes "annexb \<noteq> []" "ms_gop_queue (li_source ch) \<noteq> None"
    and "h264_waits (h264_adopt_sps_pps e ch annexb) \<and> \<not> zms_h264_annexb_is_idr (annexb_split (ie_es e)) annexb
      \<or> zms_live_ingest_h264_annexb_frame_flags annexb \<noteq> (False, False)"
  shows "\<exists>ch'. zms_live_ingest_input_h264_annexb e ch annexb dts pts = Some (ZTK_OK, ch')
    \<and> ring_frames (li_source ch') = ring_frames (li_source ch)"
proof -
  let ?c1 = "h264_adopt_sps_pps e ch annexb"
  have q1: "ms_gop_queue (li_source ?c1) \<noteq> None"
    using adopt_keeps[of ch e annexb] assms(2) by (simp add: same_source_def)
  then have q2: "ms_gop_queue (li_source (h264_apply_vcfg e ?c1)) \<noteq> None"
    using apply_vcfg_keeps[of ?c1 e] by (simp add: same_source_def)
  show ?thesis using assms(1,3) q1 q2
    by (auto simp: zms_live_ingest_input_h264_annexb_def Let_def case_prod_beta prod_eq_iff)
qed

lemma timeline_video_linear [simp]: "tl_linear_ms (snd (zms_media_timeline_video ml raw)) = tl_linear_ms ml"
  by (simp add: zms_media_timeline_video_def stamp_clamp_av_def zms_media_timeline_link_stamps_def Let_def split: prod.splits)

lemma video_pts_modes: "tl_linear_ms (li_tl (snd (live_ingest_video_pts ch raw))) = tl_linear_ms (li_tl ch)"
  "li_defer_gop_vcfg (snd (live_ingest_video_pts ch raw)) = li_defer_gop_vcfg ch"
  by (simp_all add: live_ingest_video_pts_def case_prod_beta)

lemma h264_emit_frame:
  "\<exists>ch3 d' p'. h264_emit e ch annexb d p key
      = map_option (\<lambda>c. (ZTK_OK, on_source (\<lambda>s. s\<lparr>ms_has_video := True\<rparr>) c))
          (live_ingest_write_frame e ch3 (h264_frame annexb d' p' key))
    \<and> li_source ch3 = li_source ch \<and> (tl_linear_ms (li_tl ch) \<and> li_defer_gop_vcfg ch \<or> d' = d \<and> p' = p)"
  unfolding h264_emit_def Let_def case_prod_beta by (intro exI conjI, rule refl) auto


section \<open>H.265\<close>

text \<open>The slice units of a packet, in order: what the scan finds, without types above 31.\<close>

function hevc_slices :: "(bytes \<Rightarrow> (nat \<times> nat) list) \<Rightarrow> bytes \<Rightarrow> bytes list" where
  "hevc_slices nalu cur =
     (case annexb_find_at nalu cur of
        None \<Rightarrow> []
      | Some (off, len) \<Rightarrow>
          let nal = take len (drop off cur) in
          if cur = [] \<or> len = 0 \<or> nal = [] then []
          else (if hevc_nal_type (nal ! 0) \<ge> 32 then [] else [nal]) @ hevc_slices nalu (drop (off + len) cur))"
  by pat_completeness auto
termination
  by (relation "measure (\<lambda>(nalu, cur). length cur)") auto

declare hevc_slices.simps [simp del]

definition annexb_put :: "bytes list \<Rightarrow> bytes" where
  "annexb_put nals = concat (map (\<lambda>n. [0, 0, 0, 1] @ n) nals)"

lemma annexb_put_simps [simp]: "annexb_put [] = []" "annexb_put (n # ns) = [0, 0, 0, 1] @ n @ annexb_put ns"
  by (simp_all add: annexb_put_def)

definition hevc_any_key :: "bytes list \<Rightarrow> bool" where
  "hevc_any_key nals \<longleftrightarrow> (\<exists>n \<in> set nals. 16 \<le> hevc_nal_type (n ! 0) \<and> hevc_nal_type (n ! 0) \<le> 21)"

lemma slot_resize_big:
  "n \<noteq> 0 \<Longrightarrow> n \<le> slot_cap s \<Longrightarrow> ingest_slot_resize e ch s n = (True, s)"
  by (simp add: ingest_slot_resize_def slot_resize_keep)

text \<open>An access unit that has got some slices: they are appended behind each other.\<close>

definition au_gets :: "hevc_au \<Rightarrow> bytes list \<Rightarrow> hevc_au \<Rightarrow> bool" where
  "au_gets a ns a' \<longleftrightarrow> slot_bytes (au_buf a') (au_len a') = slot_bytes (au_buf a) (au_len a) @ annexb_put ns
     \<and> au_len a' = au_len a + length (annexb_put ns) \<and> slot_cap (au_buf a') = slot_cap (au_buf a)
     \<and> au_key a' = (hevc_any_key ns \<or> au_key a) \<and> au_active a' = au_active a \<and> au_dts_ms a' = au_dts_ms a
     \<and> au_pts_ms a' = au_pts_ms a \<and> au_raw_tag_dts_ms a' = au_raw_tag_dts_ms a"

lemma annexb_put_append [simp]: "annexb_put (xs @ ys) = annexb_put xs @ annexb_put ys"
  by (simp add: annexb_put_def)

lemma au_gets_Nil [simp]: "au_gets a [] a" by (simp add: au_gets_def hevc_any_key_def)

lemma au_gets_append: "au_gets a ns a1 \<Longrightarrow> au_gets a1 ms a2 \<Longrightarrow> au_gets a (ns @ ms) a2"
  by (auto simp: au_gets_def hevc_any_key_def)

lemma hevc_append_room:
  assumes "nal \<noteq> []" "au_len (li_hevc_au ch) + length (annexb_put [nal]) \<le> slot_cap (au_buf (li_hevc_au ch))"
    and t: "t = hevc_nal_type (nal ! 0)"
  shows "\<exists>a. hevc_au_append_nal e ch nal (16 \<le> t \<and> t \<le> 21) = (ZTK_OK, ch\<lparr>li_hevc_au := a\<rparr>)
    \<and> au_gets (li_hevc_au ch) [nal] a"
proof -
  let ?a = "li_hevc_au ch" and ?d = "[0, 0, 0, 1] @ nal"
  have n: "au_len ?a + 4 + length nal = au_len ?a + length ?d" by simp
  have r: "ingest_slot_resize e ch (au_buf ?a) (au_len ?a + 4 + length nal) = (True, au_buf ?a)"
    using assms by (intro slot_resize_big) auto
  have w: "slot_bytes (slot_write (au_buf ?a) (au_len ?a) ?d) (au_len ?a + length ?d) = slot_bytes (au_buf ?a) (au_len ?a) @ ?d"
    using assms(2) by (intro slot_bytes_write) simp
  have c: "slot_cap (slot_write (au_buf ?a) (au_len ?a) ?d) = slot_cap (au_buf ?a)"
    using assms(2) by (intro slot_cap_write) simp
  define a where "a = ?a\<lparr>au_buf := slot_write (au_buf ?a) (au_len ?a) ?d, au_len := au_len ?a + length ?d,
    au_key := ((16 \<le> t \<and> t \<le> 21) \<or> au_key ?a)\<rparr>"
  have "hevc_au_append_nal e ch nal (16 \<le> t \<and> t \<le> 21) = (ZTK_OK, ch\<lparr>li_hevc_au := a\<rparr>)"
    using assms(1) r unfolding hevc_au_append_nal_def hevc_au_update_def Let_def by (simp add: a_def n)
  moreover have "au_gets ?a [nal] a"
    unfolding au_gets_def a_def using w c t by (auto simp: hevc_any_key_def)
  ultimately show ?thesis by blast
qed

text \<open>The loop over the units of a packet appends its slices one by one.\<close>

fun hevc_appends :: "('b, 'd, 'l) ingest_env \<Rightarrow> bytes list \<Rightarrow> nat \<Rightarrow> ('b, 'd) zms_live_ingest
    \<Rightarrow> ztk_err \<times> nat \<times> ('b, 'd) zms_live_ingest" where
  "hevc_appends e [] n ch = (ZTK_OK, n, ch)"
| "hevc_appends e (nal # nals) n ch =
     (case hevc_au_append_nal e ch nal (16 \<le> hevc_nal_type (nal ! 0) \<and> hevc_nal_type (nal ! 0) \<le> 21) of
        (err, ch1) \<Rightarrow> if err \<noteq> ZTK_OK then (ZTK_ERR_NOMEM, n, ch1) else hevc_appends e nals (Suc n) ch1)"

lemma hevc_loop_appends: "hevc_nal_loop e cur n ch = hevc_appends e (hevc_slices (ie_nalu e) cur) n ch"
proof (induction "length cur" arbitrary: cur n ch rule: less_induct)
  case less
  show ?case
  proof (cases "annexb_find_at (ie_nalu e) cur")
    case None
    then show ?thesis by (simp add: hevc_nal_loop.simps[of e cur] hevc_slices.simps[of _ cur])
  next
    case (Some p)
    obtain off len where p: "p = (off, len)" by fastforce
    show ?thesis
    proof (cases "cur = [] \<or> len = 0 \<or> take len (drop off cur) = []")
      case True
      with Some p show ?thesis
        by (auto simp: hevc_nal_loop.simps[of e cur] hevc_slices.simps[of _ cur] Let_def)
    next
      case False
      then have "length (drop (off + len) cur) < length cur" by auto
      from less.hyps[OF this] Some p False show ?thesis
        unfolding hevc_nal_loop.simps[of e cur] hevc_slices.simps[of _ cur] Let_def by (auto split: prod.split)
    qed
  qed
qed

lemma hevc_slices_nonempty: "n \<in> set (hevc_slices nalu cur) \<Longrightarrow> n \<noteq> []"
proof (induction "length cur" arbitrary: cur rule: less_induct)
  case less
  show ?case
  proof (cases "annexb_find_at nalu cur")
    case None
    with less.prems show ?thesis by (simp add: hevc_slices.simps[of _ cur])
  next
    case (Some p)
    obtain off len where p: "p = (off, len)" by fastforce
    show ?thesis
    proof (cases "cur = [] \<or> len = 0 \<or> take len (drop off cur) = []")
      case True
      with Some p less.prems show ?thesis by (auto simp: hevc_slices.simps[of _ cur] Let_def)
    next
      case False
      then have "length (drop (off + len) cur) < length cur" by auto
      from less.hyps[OF this] less.prems Some p False show ?thesis
        unfolding hevc_slices.simps[of _ cur] Let_def by (auto split: if_splits)
    qed
  qed
qed

text \<open>With room for them, all are there.\<close>

lemma hevc_appends_room:
  "\<forall>n \<in> set ns. n \<noteq> [] \<Longrightarrow> au_len (li_hevc_au ch) + length (annexb_put ns) \<le> slot_cap (au_buf (li_hevc_au ch)) \<Longrightarrow>
   \<exists>a. hevc_appends e ns n ch = (ZTK_OK, n + length ns, ch\<lparr>li_hevc_au := a\<rparr>) \<and> au_gets (li_hevc_au ch) ns a"
proof (induction ns arbitrary: n ch)
  case Nil
  show ?case by (intro exI[of _ "li_hevc_au ch"]) simp
next
  case (Cons nal ns)
  let ?t = "hevc_nal_type (nal ! 0)"
  obtain a where a: "hevc_au_append_nal e ch nal (16 \<le> ?t \<and> ?t \<le> 21) = (ZTK_OK, ch\<lparr>li_hevc_au := a\<rparr>)"
    and g: "au_gets (li_hevc_au ch) [nal] a"
    using hevc_append_room[of nal ch ?t e] Cons.prems by auto
  from g Cons.prems have "au_len a + length (annexb_put ns) \<le> slot_cap (au_buf a)" by (simp add: au_gets_def)
  with Cons.IH[of "ch\<lparr>li_hevc_au := a\<rparr>" "Suc n"] Cons.prems obtain a2 where
    "hevc_appends e ns (Suc n) (ch\<lparr>li_hevc_au := a\<rparr>) = (ZTK_OK, Suc n + length ns, ch\<lparr>li_hevc_au := a2\<rparr>)" "au_gets a ns a2"
    by auto
  with a au_gets_append[OF g] show ?case by auto
qed

lemma hevc_loop_room:
  assumes "au_len (li_hevc_au ch) + length (annexb_put (hevc_slices (ie_nalu e) cur)) \<le> slot_cap (au_buf (li_hevc_au ch))"
  shows "\<exists>a. hevc_nal_loop e cur n ch = (ZTK_OK, n + length (hevc_slices (ie_nalu e) cur), ch\<lparr>li_hevc_au := a\<rparr>)
    \<and> au_gets (li_hevc_au ch) (hevc_slices (ie_nalu e) cur) a"
  using hevc_appends_room[OF _ assms] hevc_slices_nonempty by (auto simp: hevc_loop_appends)

text \<open>What comes before the units leaves the access unit alone.\<close>

lemma work_au [simp]: "li_hevc_au (snd (live_ingest_work_buf e ch)) = li_hevc_au ch" "li_hevc_au (work_write ch d) = li_hevc_au ch"
  by (auto simp: live_ingest_work_buf_def work_write_def split: prod.splits)

lemma on_source_au [simp]: "li_hevc_au (on_source f ch) = li_hevc_au ch" by (simp add: on_source_def)

lemma set_config_au [simp]: "li_hevc_au (live_ingest_set_video_config e ch d) = li_hevc_au ch"
  by (simp add: live_ingest_set_video_config_def split: option.splits)

lemma prepare_au [simp]: "li_hevc_au (h265_prepare e ch annexb dts k) = li_hevc_au ch"
  using work_au(1)[of e]
  by (auto simp: h265_prepare_def h265_find_config_def h265_track_ready_def h264_lock_origin_def Let_def case_prod_beta
      split: option.splits)

lemma video_pts_au [simp]: "li_hevc_au (snd (live_ingest_video_pts ch raw)) = li_hevc_au ch"
  by (simp add: live_ingest_video_pts_def case_prod_beta)

lemma stamps_au [simp]: "li_hevc_au (snd (snd (h265_stamps ch dts pts))) = li_hevc_au ch"
  by (auto simp: h265_stamps_def case_prod_beta)

text \<open>The stamps a packet ends up with: its own, or those of an access unit left open before it.\<close>

definition au_stamps :: "hevc_au \<Rightarrow> u32 \<Rightarrow> u32 \<Rightarrow> u32 \<Rightarrow> u32 \<times> u32" where
  "au_stamps a raw d p = (if au_active a \<and> au_raw_tag_dts_ms a \<noteq> raw then (au_dts_ms a, au_pts_ms a) else (d, p))"

definition au_empty :: "hevc_au \<Rightarrow> bool" where
  "au_empty a \<longleftrightarrow> (au_active a \<longrightarrow> au_len a = 0 \<and> \<not> au_key a)"

lemma begin_empty:
  assumes "au_empty (li_hevc_au ch)"
  shows "\<exists>a. hevc_au_begin e ch raw d p = Some (ZTK_OK, ch\<lparr>li_hevc_au := a\<rparr>)
    \<and> au_active a \<and> au_len a = 0 \<and> \<not> au_key a \<and> (au_dts_ms a, au_pts_ms a) = au_stamps (li_hevc_au ch) raw d p
    \<and> au_buf a = au_buf (li_hevc_au ch)
    \<and> (au_active (li_hevc_au ch) \<or> au_raw_tag_dts_ms a = raw)"
proof -
  have f: "au_active (li_hevc_au ch) \<Longrightarrow> hevc_au_flush e ch = Some (ZTK_OK, ch)"
    using assms by (simp add: hevc_au_flush_def au_empty_def Let_def split: option.split)
  define a where "a = (let a = li_hevc_au ch in
      if \<not> au_active a then a\<lparr>au_raw_tag_dts_ms := raw, au_dts_ms := d, au_pts_ms := p,
         au_active := True, au_key := False, au_len := 0\<rparr>
      else if au_raw_tag_dts_ms a = raw then a\<lparr>au_dts_ms := d, au_pts_ms := p\<rparr> else a)"
  have "hevc_au_begin e ch raw d p = Some (ZTK_OK, ch\<lparr>li_hevc_au := a\<rparr>)"
    using f by (cases "au_active (li_hevc_au ch)"; cases "au_raw_tag_dts_ms (li_hevc_au ch) = raw")
      (simp_all add: hevc_au_begin_def hevc_au_update_def a_def)
  moreover have "au_active a \<and> au_len a = 0 \<and> \<not> au_key a \<and> (au_dts_ms a, au_pts_ms a) = au_stamps (li_hevc_au ch) raw d p
    \<and> au_buf a = au_buf (li_hevc_au ch) \<and> (au_active (li_hevc_au ch) \<or> au_raw_tag_dts_ms a = raw)"
    using assms by (cases "au_active (li_hevc_au ch)"; cases "au_raw_tag_dts_ms (li_hevc_au ch) = raw")
      (simp_all add: a_def au_stamps_def au_empty_def)
  ultimately show ?thesis by blast
qed

lemma h265_packet:
  assumes "annexb \<noteq> []" and c3: "c3 = h265_prepare e ch annexb dts k" and q: "ms_gop_queue (li_source c3) = Some q"
    and st: "h265_stamps c3 dts pts = (d, p, c4)" and empty: "au_empty (li_hevc_au ch)"
    and ns: "ns = hevc_slices (ie_nalu e) annexb" and room: "length (annexb_put ns) \<le> slot_cap (au_buf (li_hevc_au ch))"
    and buf: "ns \<noteq> [] \<Longrightarrow> ie_fresh e q (length (annexb_put ns)) = Some b"
  shows "\<exists>a. au_active a \<and> au_len a = length (annexb_put ns) \<and> slot_bytes (au_buf a) (au_len a) = annexb_put ns
      \<and> au_key a = hevc_any_key ns \<and> (au_dts_ms a, au_pts_ms a) = au_stamps (li_hevc_au ch) dts d p
      \<and> (au_active (li_hevc_au ch) \<or> au_raw_tag_dts_ms a = dts) \<and> slot_cap (au_buf a) = slot_cap (au_buf (li_hevc_au ch))
      \<and> zms_live_ingest_input_h265_annexb e ch annexb dts pts k
        = (if ns = [] then Some (ZTK_ERR_INVALID, c4\<lparr>li_hevc_au := a\<rparr>)
           else live_ingest_write_frame_buf e ((on_source (\<lambda>s. s\<lparr>ms_has_video := True\<rparr>) c4)
                  \<lparr>li_hevc_au := a\<lparr>au_active := False, au_len := 0, au_key := False\<rparr>\<rparr>) b (annexb_put ns)
                  (hevc_au_frame a (annexb_put ns)))"
proof -
  have s4: "li_source c4 = li_source c3" using stamps_source[of c3 dts pts] st by simp
  have a4: "li_hevc_au c4 = li_hevc_au ch" using stamps_au[of c3 dts pts] unfolding st by (simp add: c3)
  obtain a1 where a1: "hevc_au_begin e c4 dts d p = Some (ZTK_OK, c4\<lparr>li_hevc_au := a1\<rparr>)"
    "au_active a1" "au_len a1 = 0" "\<not> au_key a1" "(au_dts_ms a1, au_pts_ms a1) = au_stamps (li_hevc_au ch) dts d p"
    "au_buf a1 = au_buf (li_hevc_au ch)" "au_active (li_hevc_au ch) \<or> au_raw_tag_dts_ms a1 = dts"
    using begin_empty[of c4 e dts d p] empty unfolding a4 by blast
  have "au_len a1 + length (annexb_put (hevc_slices (ie_nalu e) annexb)) \<le> slot_cap (au_buf a1)"
    using room a1(3,6) ns by simp
  with hevc_loop_room[of "c4\<lparr>li_hevc_au := a1\<rparr>" e annexb 0] ns obtain a where
    l: "hevc_nal_loop e annexb 0 (c4\<lparr>li_hevc_au := a1\<rparr>) = (ZTK_OK, length ns, c4\<lparr>li_hevc_au := a\<rparr>)" and g: "au_gets a1 ns a"
    by auto
  let ?c = "on_source (\<lambda>s. s\<lparr>ms_has_video := True\<rparr>) (c4\<lparr>li_hevc_au := a\<rparr>)"
  have len: "ns \<noteq> [] \<Longrightarrow> annexb_put ns \<noteq> []" by (cases ns) simp_all
  have sb: "slot_bytes (au_buf a) (length (annexb_put ns)) = annexb_put ns"
    using g a1(3) unfolding au_gets_def by (metis add_0 append_Nil slot_bytes_0)
  have fl: "ns \<noteq> [] \<Longrightarrow> hevc_au_flush e ?c = live_ingest_write_frame_buf e ((on_source (\<lambda>s. s\<lparr>ms_has_video := True\<rparr>) c4)
      \<lparr>li_hevc_au := a\<lparr>au_active := False, au_len := 0, au_key := False\<rparr>\<rparr>) b (annexb_put ns) (hevc_au_frame a (annexb_put ns))"
    using g a1(2-4) q s4 buf len sb
    by (simp add: hevc_au_flush_def Let_def au_gets_def hevc_au_update_def on_source_def)
  have "zms_live_ingest_input_h265_annexb e ch annexb dts pts k
      = (if ns = [] then Some (ZTK_ERR_INVALID, c4\<lparr>li_hevc_au := a\<rparr>) else hevc_au_flush e ?c)"
    using assms(1) q st a1(1) l unfolding zms_live_ingest_input_h265_annexb_def Let_def c3[symmetric] by simp
  with g a1 fl show ?thesis by (intro exI[of _ a]) (auto simp: au_gets_def)
qed


text \<open>
  A packet without slices (parameter sets sent on their own) is refused but leaves the access
  unit open: the next packet, of another time, is written with the stamps of the refused one.\<close>

theorem h265_params_stamp_next:
  assumes "\<not> au_active (li_hevc_au ch)"
    and one: "annexb1 \<noteq> []" "c1 = h265_prepare e ch annexb1 dts1 k1" "ms_gop_queue (li_source c1) = Some q1"
      "h265_stamps c1 dts1 pts1 = (d1, p1, c1')" "hevc_slices (ie_nalu e) annexb1 = []"
    and first: "zms_live_ingest_input_h265_annexb e ch annexb1 dts1 pts1 k1 = Some (err, ch1)"
    and two: "annexb2 \<noteq> []" "c2 = h265_prepare e ch1 annexb2 dts2 k2" "ms_gop_queue (li_source c2) = Some q2"
      "h265_stamps c2 dts2 pts2 = (d2, p2, c2')" "ns = hevc_slices (ie_nalu e) annexb2" "ns \<noteq> []"
      "length (annexb_put ns) \<le> slot_cap (au_buf (li_hevc_au ch))" "ie_fresh e q2 (length (annexb_put ns)) = Some b2"
    and "dts1 \<noteq> dts2"
  shows "err = ZTK_ERR_INVALID \<and> (\<exists>c5 f. li_source c5 = (li_source c2)\<lparr>ms_has_video := True\<rparr>
    \<and> zms_live_ingest_input_h265_annexb e ch1 annexb2 dts2 pts2 k2 = live_ingest_write_frame_buf e c5 b2 (annexb_put ns) f
    \<and> f_bytes f = annexb_put ns \<and> f_dts_ms f = ucast d1 \<and> f_pts_ms f = ucast (if p1 \<noteq> 0 then p1 else d1))"
proof -
  have em: "au_empty (li_hevc_au ch)" using assms(1) by (simp add: au_empty_def)
  obtain a where "au_len a = length (annexb_put [])" and "au_key a = hevc_any_key []"
    and "(au_dts_ms a, au_pts_ms a) = au_stamps (li_hevc_au ch) dts1 d1 p1"
    and "au_active (li_hevc_au ch) \<or> au_raw_tag_dts_ms a = dts1"
    and i: "zms_live_ingest_input_h265_annexb e ch annexb1 dts1 pts1 k1 = Some (ZTK_ERR_INVALID, c1'\<lparr>li_hevc_au := a\<rparr>)"
    and a0: "au_active a" "slot_cap (au_buf a) = slot_cap (au_buf (li_hevc_au ch))"
    using h265_packet[OF one(1-4) em one(5)[symmetric]] by auto
  then have a: "au_active a" "au_len a = 0" "\<not> au_key a" "(au_dts_ms a, au_pts_ms a) = (d1, p1)"
    "au_raw_tag_dts_ms a = dts1" "slot_cap (au_buf a) = slot_cap (au_buf (li_hevc_au ch))"
    using assms(1) by (simp_all add: au_stamps_def hevc_any_key_def)
  have e1: "err = ZTK_ERR_INVALID" "ch1 = c1'\<lparr>li_hevc_au := a\<rparr>" using i first by auto
  have em1: "au_empty (li_hevc_au ch1)" using a e1 by (simp add: au_empty_def)
  have room: "length (annexb_put ns) \<le> slot_cap (au_buf (li_hevc_au ch1))" using two(7) a(6) e1 by simp
  from h265_packet[OF two(1-4) em1 two(5) room two(8)] obtain a2 where
    a2: "au_len a2 = length (annexb_put ns)" "(au_dts_ms a2, au_pts_ms a2) = (d1, p1)"
    and r: "zms_live_ingest_input_h265_annexb e ch1 annexb2 dts2 pts2 k2
        = live_ingest_write_frame_buf e ((on_source (\<lambda>s. s\<lparr>ms_has_video := True\<rparr>) c2')
                  \<lparr>li_hevc_au := a2\<lparr>au_active := False, au_len := 0, au_key := False\<rparr>\<rparr>) b2 (annexb_put ns)
                  (hevc_au_frame a2 (annexb_put ns))"
    using two(6) a \<open>dts1 \<noteq> dts2\<close> e1 by (auto simp: au_stamps_def)
  have "li_source c2' = li_source c2" using stamps_source[of c2 dts2 pts2] two(4) by simp
  with a2 r e1 show ?thesis
    by (intro exI conjI) (auto simp: hevc_au_frame_def f_bytes_def zms_frame_init_def)
qed

lemma video_config_poller [simp]: "li_io_poller (live_ingest_set_video_config e ch d) = li_io_poller ch"
  by (auto simp: live_ingest_set_video_config_def on_source_def split: option.splits)

lemma prepare_poller [simp]: "li_io_poller (h265_prepare e ch annexb dts k) = li_io_poller ch"
proof -
  have w: "li_io_poller (snd (live_ingest_work_buf e c)) = li_io_poller c" for c
    by (auto simp: live_ingest_work_buf_def split: prod.splits)
  have "li_io_poller (h265_find_config e c annexb) = li_io_poller c" for c
  proof -
    obtain ok c1 where b: "live_ingest_work_buf e c = (ok, c1)" by fastforce
    with w[of c] have "li_io_poller c1 = li_io_poller c" by simp
    with b show ?thesis
      by (auto simp: h265_find_config_def h265_track_ready_def work_write_def on_source_def split: option.splits)
  qed
  then show ?thesis by (simp add: h265_prepare_def h264_lock_origin_def Let_def)
qed

lemma stamps_poller [simp]: "li_io_poller (snd (snd (h265_stamps ch dts pts))) = li_io_poller ch"
  by (auto simp: h265_stamps_def live_ingest_video_pts_def Let_def case_prod_beta)

lemma append_grows:
  assumes "nal \<noteq> []" "slot_cap (au_buf (li_hevc_au ch)) < au_len (li_hevc_au ch) + 4 + length nal"
    and m: "\<not> li_io_poller ch" "be_global (ie_buf e) = None"
      "be_malloc (ie_buf e) (au_len (li_hevc_au ch) + 4 + length nal) = Some blk"
  shows "hevc_au_append_nal e ch nal idr = (ZTK_OK, ch\<lparr>li_hevc_au := (li_hevc_au ch)\<lparr>
      au_buf := slot_write (Some blk) (au_len (li_hevc_au ch)) ([0, 0, 0, 1] @ nal),
      au_len := au_len (li_hevc_au ch) + 4 + length nal, au_key := (idr \<or> au_key (li_hevc_au ch))\<rparr>\<rparr>)"
proof -
  have "ingest_slot_resize e ch (au_buf (li_hevc_au ch)) (au_len (li_hevc_au ch) + 4 + length nal) = (True, Some blk)"
    using assms by (auto simp: ingest_slot_resize_def zms_buf_pool_slot_resize_def zms_buf_pool_acquire_def Let_def)
  with assms(1) show ?thesis unfolding hevc_au_append_nal_def hevc_au_update_def Let_def by simp
qed

text \<open>
  C38: The buffer of the access unit starts empty and is replaced, not extended, when a slice does
  not fit: of a packet with two slices the first is lost, and in its place stands what the
  allocator's block held.\<close>

theorem h265_second_slice_loses_first:
  assumes "annexb \<noteq> []" "c3 = h265_prepare e ch annexb dts k" "ms_gop_queue (li_source c3) = Some q"
    and "h265_stamps c3 dts pts = (d, p, c4)" "\<not> au_active (li_hevc_au ch)" "au_buf (li_hevc_au ch) = None"
    and "hevc_slices (ie_nalu e) annexb = [n1, n2]"
    and mem: "\<not> li_io_poller ch" "be_global (ie_buf e) = None"
      "\<And>m. \<exists>blk. be_malloc (ie_buf e) m = Some blk \<and> length blk = m"
    and junk: "be_malloc (ie_buf e) (length (annexb_put [n1, n2])) = Some blk"
    and "ie_fresh e q (length (annexb_put [n1, n2])) = Some b"
  shows "\<exists>c5 f. zms_live_ingest_input_h265_annexb e ch annexb dts pts k
      = live_ingest_write_frame_buf e c5 b (f_bytes f) f
    \<and> f_bytes f = take (4 + length n1) blk @ [0, 0, 0, 1] @ n2"
proof -
  have pl: "\<not> li_io_poller c4" using stamps_poller[of c3 dts pts] mem(1) unfolding assms(4) by (simp add: assms(2))
  have ne: "n1 \<noteq> []" "n2 \<noteq> []" using hevc_slices_nonempty[of _ "ie_nalu e" annexb] assms(7) by auto
  have s4: "li_source c4 = li_source c3" using stamps_source[of c3 dts pts] assms(4) by simp
  have a4: "li_hevc_au c4 = li_hevc_au ch" using stamps_au[of c3 dts pts] unfolding assms(4) by (simp add: assms(2))
  have em: "au_empty (li_hevc_au c4)" using assms(5) a4 by (simp add: au_empty_def)
  obtain a0 where a0: "hevc_au_begin e c4 dts d p = Some (ZTK_OK, c4\<lparr>li_hevc_au := a0\<rparr>)"
    "au_active a0" "au_len a0 = 0" "au_buf a0 = None"
    using begin_empty[OF em, of e dts d p] assms(6) a4 by auto
  obtain b1 where b1: "be_malloc (ie_buf e) (4 + length n1) = Some b1" "length b1 = 4 + length n1" using mem(3) by blast
  let ?t = "\<lambda>n :: bytes. 16 \<le> hevc_nal_type (n ! 0) \<and> hevc_nal_type (n ! 0) \<le> 21"
  define a1 where "a1 = a0\<lparr>au_buf := slot_write (Some b1) 0 ([0, 0, 0, 1] @ n1), au_len := 4 + length n1, au_key := (?t n1 \<or> au_key a0)\<rparr>"
  have 1: "hevc_au_append_nal e (c4\<lparr>li_hevc_au := a0\<rparr>) n1 (?t n1) = (ZTK_OK, c4\<lparr>li_hevc_au := a1\<rparr>)"
    using append_grows[of n1 "c4\<lparr>li_hevc_au := a0\<rparr>" e b1 "?t n1"] ne a0 mem pl b1 by (simp add: a1_def slot_cap_def)
  have cap: "slot_cap (au_buf a1) = 4 + length n1"
    using b1 by (simp add: a1_def slot_cap_def slot_write_def)
  have j: "be_malloc (ie_buf e) (au_len a1 + 4 + length n2) = Some blk"
  proof -
    have "au_len a1 + 4 + length n2 = length (annexb_put [n1, n2])" by (simp add: a1_def)
    then show ?thesis using junk by (simp only:)
  qed
  define a2 where "a2 = a1\<lparr>au_buf := slot_write (Some blk) (4 + length n1) ([0, 0, 0, 1] @ n2), au_len := 8 + length n1 + length n2,
    au_key := (?t n2 \<or> au_key a1)\<rparr>"
  have 2: "hevc_au_append_nal e (c4\<lparr>li_hevc_au := a1\<rparr>) n2 (?t n2) = (ZTK_OK, c4\<lparr>li_hevc_au := a2\<rparr>)"
    using append_grows[of n2 "c4\<lparr>li_hevc_au := a1\<rparr>" e blk "?t n2"] ne mem pl j cap by (simp add: a2_def a1_def)
  have lp: "hevc_nal_loop e annexb 0 (c4\<lparr>li_hevc_au := a0\<rparr>) = (ZTK_OK, 2, c4\<lparr>li_hevc_au := a2\<rparr>)"
    using 1 2 by (simp add: hevc_loop_appends assms(7))
  have lb: "length blk = 8 + length n1 + length n2" using mem(3)[of "length (annexb_put [n1, n2])"] junk by auto
  have bytes: "slot_bytes (au_buf a2) (au_len a2) = take (4 + length n1) blk @ [0, 0, 0, 1] @ n2"
    using lb by (simp add: a2_def slot_bytes_def slot_write_def)
  define f where "f = hevc_au_frame a2 (slot_bytes (au_buf a2) (au_len a2))"
  have fb: "f_bytes f = slot_bytes (au_buf a2) (au_len a2)"
    using bytes lb by (simp add: f_def hevc_au_frame_def f_bytes_def zms_frame_init_def a2_def)
  have act: "au_active a2" "au_len a2 \<noteq> 0" "au_len a2 = length (annexb_put [n1, n2])" using a0 by (simp_all add: a2_def a1_def)
  have i: "zms_live_ingest_input_h265_annexb e ch annexb dts pts k
      = hevc_au_flush e (on_source (\<lambda>s. s\<lparr>ms_has_video := True\<rparr>) (c4\<lparr>li_hevc_au := a2\<rparr>))"
    using assms(1,3,4) a0(1) lp unfolding zms_live_ingest_input_h265_annexb_def Let_def assms(2)[symmetric] by simp
  have "\<exists>c5. hevc_au_flush e (on_source (\<lambda>s. s\<lparr>ms_has_video := True\<rparr>) (c4\<lparr>li_hevc_au := a2\<rparr>))
      = live_ingest_write_frame_buf e c5 b (f_bytes f) f"
    using act assms(3,12) s4 fb unfolding hevc_au_flush_def Let_def f_def by auto
  with i fb bytes show ?thesis by metis
qed

section \<open>AAC\<close>

text \<open>What writing frames does to the source, one after the other.\<close>

definition source_write :: "('b, 'd, 'l) ingest_env \<Rightarrow> 'b zms_media_source \<Rightarrow> zms_frame \<Rightarrow> 'b zms_media_source option" where
  "source_write e s f =
     (case ms_gop_queue s of
        None \<Rightarrow> Some s
      | Some q \<Rightarrow>
          if f_data f = None \<or> f_size f = 0 then Some s
          else (case zms_gop_queue_write (ie_reg e) (ie_cap e) (ie_refcnt e q) (ie_fresh e q (f_size f)) q (f\<lparr>f_owned := False\<rparr>) of
                  None \<Rightarrow> None
                | Some (err, q1) \<Rightarrow> Some (source_written (ie_now e) f err q1 s)))"

fun source_writes :: "('b, 'd, 'l) ingest_env \<Rightarrow> 'b zms_media_source \<Rightarrow> zms_frame list \<Rightarrow> 'b zms_media_source option" where
  "source_writes e s [] = Some s"
| "source_writes e s (f # fs) = (case source_write e s f of None \<Rightarrow> None | Some s1 \<Rightarrow> source_writes e s1 fs)"

lemma write_frame_source: "live_ingest_write_frame e ch f = map_option (\<lambda>s. ch\<lparr>li_source := s\<rparr>) (source_write e (li_source ch) f)"
  by (auto simp: live_ingest_write_frame_def source_write_def on_source_def split: option.splits)

lemma source_write_audio:
  "source_write e (s\<lparr>ms_has_audio := x\<rparr>) f = map_option (\<lambda>s. s\<lparr>ms_has_audio := x\<rparr>) (source_write e s f)"
  by (auto simp: source_write_def source_written_def split: option.splits)

lemma source_writes_audio:
  "source_writes e (s\<lparr>ms_has_audio := x\<rparr>) fs = map_option (\<lambda>s. s\<lparr>ms_has_audio := x\<rparr>) (source_writes e s fs)"
  by (induction fs arbitrary: s) (auto simp: source_write_audio split: option.splits)

lemma source_write_returns:
  assumes "source_ok_ring s" shows "\<exists>s1. source_write e s f = Some s1 \<and> same_source s s1"
proof -
  let ?ch = "ingest_new s zms_protocol_opts_default :: ('a, 'b) zms_live_ingest"
  have "li_source ?ch = s" by (simp add: ingest_new_def)
  with write_returns[of ?ch e f] assms show ?thesis by (auto simp: write_frame_source)
qed

text \<open>The stamps of successive raw times.\<close>

fun audio_stamps :: "('b, 'd) zms_live_ingest \<Rightarrow> u32 list \<Rightarrow> u32 list" where
  "audio_stamps ch [] = []"
| "audio_stamps ch (r # rs) = fst (live_ingest_audio_pts ch r) # audio_stamps (snd (live_ingest_audio_pts ch r)) rs"

lemma audio_pts_other_source:
  "live_ingest_audio_pts (ch\<lparr>li_source := s\<rparr>) r = (fst (live_ingest_audio_pts ch r), (snd (live_ingest_audio_pts ch r))\<lparr>li_source := s\<rparr>)"
  by (auto simp: live_ingest_audio_pts_def ingest_linear_ms_pts_def case_prod_beta)

lemma audio_stamps_other_source [simp]: "audio_stamps (ch\<lparr>li_source := s\<rparr>) rs = audio_stamps ch rs"
  by (induction rs arbitrary: ch) (simp_all add: audio_pts_other_source)

lemma aac_write_au:
  assumes "au \<noteq> []" "ms_gop_queue (li_source ch) \<noteq> None" "source_write e (li_source ch) (aac_frame au (fst (live_ingest_audio_pts ch raw))) = Some s1"
  shows "aac_write_one_au e ch au raw = Some (ZTK_OK, (snd (live_ingest_audio_pts ch raw))\<lparr>li_source := s1\<lparr>ms_has_audio := True\<rparr>\<rparr>)"
proof -
  have "li_source (snd (live_ingest_audio_pts ch raw)) = li_source ch" by simp
  with assms show ?thesis
    by (auto simp: aac_write_one_au_def case_prod_beta write_frame_source on_source_def)
qed

text \<open>The walk over ADTS frames with a callback that goes on as long as a predicate holds.\<close>

lemma adts_walk_while:
  assumes step: "\<And>au u. au \<noteq> [] \<Longrightarrow> P u \<Longrightarrow> \<not> fst (cb au u) \<and> P (snd (cb au u))"
  shows "list_all adts_wf fs \<Longrightarrow> \<forall>(crc, au) \<in> set fs. au \<noteq> [] \<Longrightarrow> P u \<Longrightarrow>
    adts_walk cb (adts_stream fs) u = (length fs, foldl (\<lambda>u (crc, au). snd (cb au u)) u fs)"
proof (induction fs arbitrary: u)
  case Nil
  then show ?case by (simp add: adts_walk.simps)
next
  case (Cons f fs)
  obtain crc au where f: "f = (crc, au)" by (cases f)
  have s: "\<not> fst (cb au u) \<and> P (snd (cb au u))" using Cons.prems f by (intro step) auto
  then obtain u' where "cb au u = (False, u')" "P u'" by (cases "cb au u") auto
  then show ?case
    using Cons f by (simp add: adts_walk.simps[of _ "adts_put _ _ @ _"] adts_frame_put length_adts_put)
qed

definition aac_going :: "('b, 'd) aac_split_ctx option \<Rightarrow> bool" where
  "aac_going u \<longleftrightarrow> (\<exists>c. u = Some c \<and> sx_err c = ZTK_OK \<and> ms_gop_queue (li_source (sx_ch c)) \<noteq> None \<and> source_ok_ring (li_source (sx_ch c)))"

lemma aac_handler_step:
  assumes "au \<noteq> []" "ms_gop_queue (li_source ch) \<noteq> None" "source_ok_ring (li_source ch)"
  shows "\<exists>s1. source_write e (li_source ch) (aac_frame au (fst (live_ingest_audio_pts ch (raw + of_nat i * dur)))) = Some s1
    \<and> same_source (li_source ch) s1
    \<and> aac_split_handler e raw dur au (Some \<lparr>sx_ch = ch, sx_idx = i, sx_err = ZTK_OK\<rparr>)
      = (False, Some \<lparr>sx_ch = (snd (live_ingest_audio_pts ch (raw + of_nat i * dur)))\<lparr>li_source := s1\<lparr>ms_has_audio := True\<rparr>\<rparr>,
                      sx_idx = i + 1, sx_err = ZTK_OK\<rparr>)"
proof -
  obtain s1 where "source_write e (li_source ch) (aac_frame au (fst (live_ingest_audio_pts ch (raw + of_nat i * dur)))) = Some s1"
    "same_source (li_source ch) s1" using source_write_returns[OF assms(3)] by blast
  note s1 = this
  have "aac_write_one_au e ch au (raw + of_nat i * dur)
    = Some (ZTK_OK, (snd (live_ingest_audio_pts ch (raw + of_nat i * dur)))\<lparr>li_source := s1\<lparr>ms_has_audio := True\<rparr>\<rparr>)"
    by (rule aac_write_au[OF assms(1,2) s1(1)])
  then have "aac_split_handler e raw dur au (Some \<lparr>sx_ch = ch, sx_idx = i, sx_err = ZTK_OK\<rparr>)
      = (False, Some \<lparr>sx_ch = (snd (live_ingest_audio_pts ch (raw + of_nat i * dur)))\<lparr>li_source := s1\<lparr>ms_has_audio := True\<rparr>\<rparr>,
                      sx_idx = i + 1, sx_err = ZTK_OK\<rparr>)"
    by (simp add: aac_split_handler_def)
  with s1 show ?thesis by blast
qed

lemma aac_handler_going: "au \<noteq> [] \<Longrightarrow> aac_going u \<Longrightarrow>
    \<not> fst (aac_split_handler e raw dur au u) \<and> aac_going (snd (aac_split_handler e raw dur au u))"
proof -
  assume au: "au \<noteq> []" and "aac_going u"
  then obtain c where c: "u = Some c" "sx_err c = ZTK_OK" "ms_gop_queue (li_source (sx_ch c)) \<noteq> None" "source_ok_ring (li_source (sx_ch c))"
    by (auto simp: aac_going_def)
  have "c = \<lparr>sx_ch = sx_ch c, sx_idx = sx_idx c, sx_err = ZTK_OK\<rparr>" using c(2) by simp
  with aac_handler_step[OF au c(3,4), of e raw "sx_idx c" dur] c show ?thesis
    by (auto simp: aac_going_def same_source_def source_ok_ring_def)
qed

lemma aac_fold_writes:
  "\<forall>(crc, au) \<in> set fs. au \<noteq> [] \<Longrightarrow> ms_gop_queue (li_source ch) \<noteq> None \<Longrightarrow> source_ok_ring (li_source ch) \<Longrightarrow>
   \<exists>ch' s'. foldl (\<lambda>u (crc, au). snd (aac_split_handler e raw dur au u)) (Some \<lparr>sx_ch = ch, sx_idx = i, sx_err = ZTK_OK\<rparr>) fs
      = Some \<lparr>sx_ch = ch', sx_idx = i + length fs, sx_err = ZTK_OK\<rparr>
    \<and> source_writes e (li_source ch) (map2 aac_frame (map snd fs) (audio_stamps ch (map (\<lambda>k. raw + of_nat k * dur) [i..<i + length fs]))) = Some s'
    \<and> li_source ch' = (if fs = [] then s' else s'\<lparr>ms_has_audio := True\<rparr>)"
proof (induction fs arbitrary: ch i)
  case (Cons f fs)
  obtain crc au where f: "f = (crc, au)" by (cases f)
  let ?r = "raw + of_nat i * dur"
  obtain s1 where s1: "source_write e (li_source ch) (aac_frame au (fst (live_ingest_audio_pts ch ?r))) = Some s1"
    "same_source (li_source ch) s1"
    "aac_split_handler e raw dur au (Some \<lparr>sx_ch = ch, sx_idx = i, sx_err = ZTK_OK\<rparr>)
      = (False, Some \<lparr>sx_ch = (snd (live_ingest_audio_pts ch ?r))\<lparr>li_source := s1\<lparr>ms_has_audio := True\<rparr>\<rparr>, sx_idx = i + 1, sx_err = ZTK_OK\<rparr>)"
    using aac_handler_step[of au ch e raw i dur] Cons.prems f by auto
  let ?c = "(snd (live_ingest_audio_pts ch ?r))\<lparr>li_source := s1\<lparr>ms_has_audio := True\<rparr>\<rparr>"
  have q: "ms_gop_queue s1 \<noteq> None" "source_ok_ring s1"
    using s1(2) Cons.prems(2,3) by (auto simp: same_source_def)
  have pre: "ms_gop_queue (li_source ?c) \<noteq> None" "source_ok_ring (li_source ?c)"
    using q by (simp_all add: source_ok_ring_def)
  have fs: "\<forall>(crc, au) \<in> set fs. au \<noteq> []" using Cons.prems(1) by simp
  from Cons.IH[OF fs pre, of "i + 1"] obtain ch' s' where
    1: "foldl (\<lambda>u (crc, au). snd (aac_split_handler e raw dur au u)) (Some \<lparr>sx_ch = ?c, sx_idx = i + 1, sx_err = ZTK_OK\<rparr>) fs
      = Some \<lparr>sx_ch = ch', sx_idx = i + 1 + length fs, sx_err = ZTK_OK\<rparr>"
    and 2: "source_writes e (li_source ?c) (map2 aac_frame (map snd fs) (audio_stamps ?c (map (\<lambda>k. raw + of_nat k * dur) [i + 1..<i + 1 + length fs]))) = Some s'"
    and 3: "li_source ch' = (if fs = [] then s' else s'\<lparr>ms_has_audio := True\<rparr>)" by blast
  from 2 obtain s2 where 4: "source_writes e s1 (map2 aac_frame (map snd fs)
      (audio_stamps (snd (live_ingest_audio_pts ch ?r)) (map (\<lambda>k. raw + of_nat k * dur) [i + 1..<i + 1 + length fs]))) = Some s2"
    "s' = s2\<lparr>ms_has_audio := True\<rparr>"
    by (auto simp: source_writes_audio)
  have u: "[i..<i + length (f # fs)] = i # [i + 1..<i + 1 + length fs]" by (simp add: upt_conv_Cons del: upt_Suc)
  let ?rs = "map (\<lambda>k. raw + of_nat k * dur) [i + 1..<i + 1 + length fs]"
  have a: "foldl (\<lambda>u (crc, au). snd (aac_split_handler e raw dur au u)) (Some \<lparr>sx_ch = ch, sx_idx = i, sx_err = ZTK_OK\<rparr>) (f # fs)
      = Some \<lparr>sx_ch = ch', sx_idx = i + length (f # fs), sx_err = ZTK_OK\<rparr>"
    using 1 by (simp only: foldl_Cons f split_conv s1(3) snd_conv) simp
  have b: "source_writes e (li_source ch) (map2 aac_frame (map snd (f # fs)) (audio_stamps ch (?r # ?rs))) = Some s2"
    by (simp only: f list.map snd_conv audio_stamps.simps zip_Cons_Cons split_conv source_writes.simps s1(1) option.case 4(1))
  have c: "li_source ch' = s2\<lparr>ms_has_audio := True\<rparr>"
    using 3 4(2) by (cases "fs = []") simp_all
  show ?case unfolding u list.map(2)
    by (rule exI[of _ ch'], rule exI[of _ s2]) (use a b c in simp)
qed simp


section \<open>The theorems on a concrete ingest\<close>

text \<open>An environment that finds NAL units at start codes and has memory for every block.\<close>

definition ex_es :: es_ext where
  "ex_es = \<lparr>annexb_split = (\<lambda>d. [drop 4 d]), av1_obu_split = (\<lambda>_. None)\<rparr>"

definition ex_nalu :: "bytes \<Rightarrow> (nat \<times> nat) list" where
  "ex_nalu d = (if take 4 d = [0, 0, 0, 1] then [(4, length (takeWhile (\<lambda>x. x \<noteq> 0) (drop 4 d)))] else [])"

definition ex_buf :: buf_env where
  "ex_buf = \<lparr>be_enabled = False, be_global = None, be_local = None, be_malloc = (\<lambda>n. Some (replicate n 0))\<rparr>"

definition ex_flv :: flv_probe_lib where
  "ex_flv = \<lparr>flv_video_tag_header_read = (\<lambda>_. None), flv_audio_tag_header_read = (\<lambda>_. None), flv_fourcc = (\<lambda>_. None),
     mpeg4_hevc_record_load = (\<lambda>_. False), mpeg4_avc_record_load = (\<lambda>_. None), pl_fps = (\<lambda>_ _. 0)\<rparr>"

definition ex_av1 :: av1_lib where
  "ex_av1 = \<lparr>aom_record_init = (\<lambda>_. None), aom_record_load = (\<lambda>_. None), aom_record_save = (\<lambda>_ _. None),
     av1_hdr_write = (\<lambda>_ _ _. None)\<rparr>"

definition ex_rec :: "unit rtsp_lib" where
  "ex_rec = \<lparr>rtsp_muxer_create = None, rtsp_muxer_add_payload = (\<lambda>z _ _ _ _ _ _. (-1, z)),
     rtsp_muxer_add_media = (\<lambda>z _ _. (-1, z)), rtsp_muxer_sync_timeline = (\<lambda>z _ _ _. (False, z)),
     rtsp_muxer_input = (\<lambda>z _ _ _ _. (False, [], z)), rtsp_muxer_getinfo = (\<lambda>_ _. None),
     flv_seq_hdr_write = (\<lambda>_. Some [0x17, 0, 0, 0, 0]), avcc_record_save = (\<lambda>sps pps _. Some ([1] @ sps @ pps)),
     hvcc_of_annexb = (\<lambda>a _. Some a), av1c_of_obu = (\<lambda>a _. Some a)\<rparr>"

definition ex_ingest_env :: "(nat, unit, unit) ingest_env" where
  "ex_ingest_env = \<lparr>ie_reg = ex_reg, ie_es = ex_es, ie_nalu = ex_nalu, ie_cap = (\<lambda>_. 64), ie_refcnt = (\<lambda>_ _. 1),
     ie_fresh = (\<lambda>_ _. Some 3), ie_buf = ex_buf, ie_mem = True, ie_now = 5, ie_flv = ex_flv, ie_rec = ex_rec,
     ie_step = (\<lambda>_. 40), ie_av1 = ex_av1, ie_demux_new = None, ie_demux = (\<lambda>z _ _ _. (ZTK_OK, [], z))\<rparr>"

definition ex_ingest :: "(nat, unit) zms_live_ingest" where
  "ex_ingest = ingest_new (the (hub_get ex_hub2 0)) zms_protocol_opts_default"

lemma ex_hub_get: "hub_get ex_hub2 0 = Some (li_source ex_ingest)"
  by (simp add: ex_ingest_def ingest_new_def ex_hub_simps)

lemma ex_queue: "\<exists>q. ms_gop_queue (li_source ex_ingest) = Some q \<and> gop_inv q"
proof -
  have d: "defaults_ok (he_gop ex_hub_env)" by (simp add: ex_hub_env_def defaults_ok_def gop_limits)
  obtain q :: "nat zms_gop_queue" where q: "zms_gop_queue_create (he_gop ex_hub_env) True = Some q"
    by (auto simp: zms_gop_queue_create_def)
  with create_inv[OF d q] show ?thesis by (simp add: ex_ingest_def ingest_new_def ex_hub_simps)
qed

lemma ex_ring: "source_ok_ring (li_source ex_ingest)" "ms_gop_queue (li_source ex_ingest) \<noteq> None"
  using ex_queue by (auto simp: source_ok_ring_def)

lemma ingest_inputs_return_witness:
  "zms_live_ingest_input_rtmp_video ex_ingest_env ex_ingest 40 [0x17, 1] \<noteq> None"
  using ingest_inputs_return[OF ex_ring(1), of ex_ingest_env] by blast

lemma ingest_keeps_registry_witness:
  "hub_inv (hub_upd ex_hub2 0 (\<lambda>_. li_source (snd (zms_live_ingest_set_aac_config_hex ex_ingest_env ex_ingest [0x31, 0x32, 0x31, 0x30]))))"
  using ingest_keeps_registry[OF _ ex_hub_get ex_ring(1) r_into_rtranclp[of "ingest_step ex_ingest_env"], of _ "[1]" "[2]" "[3]"]
    is_aac[of ex_ingest_env ex_ingest "[0x31, 0x32, 0x31, 0x30]"] ex_hub2_reach hub_reach_inv
  by (metis prod.collapse)

lemma h264_unit_dropped_witness:
  "\<exists>ch'. zms_live_ingest_input_h264_annexb ex_ingest_env ex_ingest [0, 0, 0, 1, 0x67, 1] 40 40 = Some (ZTK_OK, ch')
    \<and> ring_frames (li_source ch') = ring_frames (li_source ex_ingest)"
proof (rule h264_unit_dropped[OF _ ex_ring(2)])
  have "zms_live_ingest_h264_annexb_frame_flags [0, 0, 0, 1, 0x67, 1] \<noteq> (False, False)" by code_simp
  then show "h264_waits (h264_adopt_sps_pps ex_ingest_env ex_ingest [0, 0, 0, 1, 0x67, 1])
      \<and> \<not> zms_h264_annexb_is_idr (annexb_split (ie_es ex_ingest_env)) [0, 0, 0, 1, 0x67, 1]
      \<or> zms_live_ingest_h264_annexb_frame_flags [0, 0, 0, 1, 0x67, 1] \<noteq> (False, False)" by blast
qed simp


definition ex_hevc :: bytes where "ex_hevc = [0, 0, 0, 1, 0x26, 1, 9]"

definition ex_ingest_au :: "(nat, unit) zms_live_ingest" where
  "ex_ingest_au = hevc_au_update (\<lambda>a. a\<lparr>au_buf := Some (replicate 64 0)\<rparr>) ex_ingest"

lemma ex_au: "\<not> au_active (li_hevc_au ex_ingest_au)" "slot_cap (au_buf (li_hevc_au ex_ingest_au)) = 64"
  "li_source ex_ingest_au = li_source ex_ingest"
  by (simp_all add: ex_ingest_au_def hevc_au_update_def ex_ingest_def ingest_new_def slot_cap_def)

lemma kept_queue: "keeps ex_ingest ch \<Longrightarrow> \<exists>q. ms_gop_queue (li_source ch) = Some q"
  using ex_ring(2) by (auto simp: same_source_def)

lemma ex_fresh: "ie_fresh ex_ingest_env q n = Some 3" by (simp add: ex_ingest_env_def)


text \<open>Parameter sets at 40 ms, a picture at 80 ms: the picture gets the stamps of the parameter sets.\<close>

definition ex_vps :: bytes where "ex_vps = [0, 0, 0, 1, 0x40, 1, 9]"

lemma h265_params_stamp_next_witness:
  "\<exists>ch1 c5 f d1 p1 c1'. h265_stamps (h265_prepare ex_ingest_env ex_ingest_au ex_vps 40 False) 40 40 = (d1, p1, c1')
    \<and> zms_live_ingest_input_h265_annexb ex_ingest_env ex_ingest_au ex_vps 40 40 False = Some (ZTK_ERR_INVALID, ch1)
    \<and> zms_live_ingest_input_h265_annexb ex_ingest_env ch1 ex_hevc 80 80 False
        = live_ingest_write_frame_buf ex_ingest_env c5 3 ex_hevc f
    \<and> f_bytes f = ex_hevc \<and> f_dts_ms f = ucast d1"
proof -
  let ?c1 = "h265_prepare ex_ingest_env ex_ingest_au ex_vps 40 False"
  obtain q1 where q1: "ms_gop_queue (li_source ?c1) = Some q1"
    using kept_queue[of ?c1] prepare_keeps[of ex_ingest_au ex_ingest_env ex_vps 40 False] ex_au(3) by auto
  obtain d1 p1 c1' where st1: "h265_stamps ?c1 40 40 = (d1, p1, c1')" by (metis prod_cases3)
  have n1: "hevc_slices (ie_nalu ex_ingest_env) ex_vps = []"
    by (simp add: hevc_slices.simps ex_ingest_env_def ex_nalu_def ex_vps_def annexb_find_at_def hevc_nal_type_def)
  have "source_ok_ring (li_source ex_ingest_au)" using ex_ring(1) ex_au(3) by simp
  from input_h265_good[OF this] obtain err ch1 where
    i: "zms_live_ingest_input_h265_annexb ex_ingest_env ex_ingest_au ex_vps 40 40 False = Some (err, ch1)"
      "keeps ex_ingest_au ch1" unfolding good_def by blast
  let ?c2 = "h265_prepare ex_ingest_env ch1 ex_hevc 80 False"
  have "keeps ex_ingest ?c2" using i(2) prepare_keeps[of ch1 ex_ingest_env ex_hevc 80 False] ex_au(3)
    by (auto intro: same_source_trans)
  then obtain q2 where q2: "ms_gop_queue (li_source ?c2) = Some q2" using kept_queue by blast
  obtain d2 p2 c2' where st2: "h265_stamps ?c2 80 80 = (d2, p2, c2')" by (metis prod_cases3)
  have n2: "hevc_slices (ie_nalu ex_ingest_env) ex_hevc = [[0x26, 1, 9]]"
    by (simp add: hevc_slices.simps ex_ingest_env_def ex_nalu_def ex_hevc_def annexb_find_at_def hevc_nal_type_def)
  have v: "ex_vps \<noteq> []" "ex_hevc \<noteq> []" "(40::u32) \<noteq> 80" by (simp_all add: ex_vps_def ex_hevc_def)
  have put: "annexb_put [[0x26, 1, 9]] = ex_hevc" by (simp add: ex_hevc_def)
  have len: "length (annexb_put [[0x26, 1, 9]]) \<le> slot_cap (au_buf (li_hevc_au ex_ingest_au))" by (simp add: ex_au(2))
  from h265_params_stamp_next[OF ex_au(1) v(1) refl q1 st1 n1 i(1) v(2) refl q2 st2 n2[symmetric] _ len ex_fresh v(3)]
  show ?thesis using i(1) st1 unfolding put by blast
qed

lemma h265_second_slice_loses_first_witness:
  "\<exists>c5 f. zms_live_ingest_input_h265_annexb ex_ingest_env ex_ingest (ex_hevc @ ex_hevc) 40 40 False
      = live_ingest_write_frame_buf ex_ingest_env c5 3 (f_bytes f) f
    \<and> f_bytes f = replicate 7 0 @ ex_hevc"
proof -
  let ?c3 = "h265_prepare ex_ingest_env ex_ingest (ex_hevc @ ex_hevc) 40 False"
  obtain q where q: "ms_gop_queue (li_source ?c3) = Some q"
    using kept_queue prepare_keeps by blast
  obtain d p c4 where st: "h265_stamps ?c3 40 40 = (d, p, c4)" by (metis prod_cases3)
  have ns: "hevc_slices (ie_nalu ex_ingest_env) (ex_hevc @ ex_hevc) = [[0x26, 1, 9], [0x26, 1, 9]]"
    by (simp add: Let_def hevc_slices.simps ex_ingest_env_def ex_nalu_def ex_hevc_def annexb_find_at_def hevc_nal_type_def)
  have a: "\<not> au_active (li_hevc_au ex_ingest)" "au_buf (li_hevc_au ex_ingest) = None"
    by (simp_all add: ex_ingest_def ingest_new_def)
  have m: "be_global (ie_buf ex_ingest_env) = None" "be_malloc (ie_buf ex_ingest_env) n = Some (replicate n 0)" for n
    by (simp_all add: ex_ingest_env_def ex_buf_def)
  have pl: "\<not> li_io_poller ex_ingest" by (simp add: ex_ingest_def ingest_new_def)
  have len: "length (annexb_put [[0x26, 1, 9], [0x26, 1, 9]]) = 14" by simp
  obtain c5 f where r: "zms_live_ingest_input_h265_annexb ex_ingest_env ex_ingest (ex_hevc @ ex_hevc) 40 40 False
      = live_ingest_write_frame_buf ex_ingest_env c5 3 (f_bytes f) f"
    "f_bytes f = take (4 + length [0x26 :: u8, 1, 9]) (replicate 14 0) @ [0, 0, 0, 1] @ [0x26, 1, 9]"
    using h265_second_slice_loses_first[OF _ refl q st a ns pl m(1) _ m(2) ex_fresh] m(2) unfolding len
    by (auto simp: ex_hevc_def)
  have "f_bytes f = replicate 7 0 @ ex_hevc"
    unfolding r(2) ex_hevc_def by (simp add: numeral_eq_Suc)
  with r(1) show ?thesis by blast
qed


end
