(* ===== verification/Block_Hash.thy ===== *)
theory Block_Hash
  imports Prelude
begin

text \<open>
  The buffering that \<open>util/crypto/md5.c\<close> and \<open>util/crypto/sha1.c\<close> share, word for word: a bit count
  in two words of 32 bits, a buffer of one block, and a transformation of the state per block. Both
  digests are instances of it. What a context stands for is the message absorbed so far; absorbing
  more appends to it, so the cuts of the message do not matter.
\<close>

unbundle bit_operations_syntax

record hash_ctx =
  h_state :: "u32 list"
  h_count0 :: u32
  h_count1 :: u32
  h_buffer :: bytes

type_synonym hash_step = "u32 list \<Rightarrow> bytes \<Rightarrow> u32 list"

definition rol32 :: "u32 \<Rightarrow> nat \<Rightarrow> u32" where
  "rol32 v n = push_bit n v OR drop_bit (32 - n) v"

definition buf_put :: "bytes \<Rightarrow> nat \<Rightarrow> bytes \<Rightarrow> bytes" where
  "buf_put b i d = take i b @ d @ drop (i + length d) b"

fun hash_blocks :: "hash_step \<Rightarrow> u32 list \<Rightarrow> bytes \<Rightarrow> u32 list \<times> bytes" where
  "hash_blocks tr st p = (if length p < 64 then (st, p) else hash_blocks tr (tr st (take 64 p)) (drop 64 p))"

declare hash_blocks.simps [simp del]

definition hash_idx :: "u32 \<Rightarrow> nat" where "hash_idx c = unat (drop_bit 3 c AND 63)"

definition hash_update :: "hash_step \<Rightarrow> hash_ctx \<Rightarrow> bytes \<Rightarrow> hash_ctx" where
  "hash_update tr c d =
     (let idx = hash_idx (h_count0 c); bits = of_nat (8 * length d) :: u32;
          c0 = h_count0 c + bits;
          c1 = (if c0 < bits then h_count1 c + 1 else h_count1 c) + of_nat (length d div 2 ^ 29);
          part = 64 - idx
      in if length d \<ge> part
         then let b = buf_put (h_buffer c) idx (take part d);
                  (st, r) = hash_blocks tr (tr (h_state c) b) (drop part d)
              in \<lparr>h_state = st, h_count0 = c0, h_count1 = c1, h_buffer = buf_put b 0 r\<rparr>
         else \<lparr>h_state = h_state c, h_count0 = c0, h_count1 = c1, h_buffer = buf_put (h_buffer c) idx d\<rparr>)"

section \<open>What a context stands for\<close>

definition hash_rep :: "hash_step \<Rightarrow> u32 list \<Rightarrow> hash_ctx \<Rightarrow> bytes \<Rightarrow> bool" where
  "hash_rep tr s0 c m \<longleftrightarrow> length (h_buffer c) = 64
     \<and> h_count0 c = of_nat (8 * length m) \<and> h_count1 c = of_nat (8 * length m div 2 ^ 32)
     \<and> (h_state c, take (length m mod 64) (h_buffer c)) = hash_blocks tr s0 m"

lemma blocks_rest: "length (snd (hash_blocks tr st p)) = length p mod 64"
proof (induction tr st p rule: hash_blocks.induct)
  case (1 tr st p)
  then show ?case by (subst hash_blocks.simps) (auto simp: mod_if)
qed

lemma blocks_append: "hash_blocks tr st (m @ d) = (case hash_blocks tr st m of (s, r) \<Rightarrow> hash_blocks tr s (r @ d))"
proof (induction tr st m rule: hash_blocks.induct)
  case (1 tr st m)
  show ?case
  proof (cases "length m < 64")
    case True
    then show ?thesis by (simp add: hash_blocks.simps[of tr st m])
  next
    case False
    then show ?thesis using 1[OF False]
      by (simp add: hash_blocks.simps[of tr st m] hash_blocks.simps[of tr st "m @ d"])
  qed
qed

lemma blocks_short: "length r < 64 \<Longrightarrow> hash_blocks tr st r = (st, r)"
  by (simp add: hash_blocks.simps)

lemma blocks_full: "length b = 64 \<Longrightarrow> hash_blocks tr st (b @ d) = hash_blocks tr (tr st b) d"
  by (simp add: hash_blocks.simps[of tr st "b @ d"])

lemma and_63: "w AND 63 = take_bit 6 (w :: u32)"
  by (simp add: take_bit_eq_mask mask_eq_exp_minus_1)

lemma hash_idx_unat: "hash_idx w = unat w div 8 mod 64"
  unfolding hash_idx_def and_63 unsigned_take_bit_eq unsigned_drop_bit_eq
  using unsigned_less[of w, where ?'a = nat] by (simp add: take_bit_eq_mod drop_bit_eq_div)

lemma wrap_idx: "(x mod 2 ^ 32) div 8 mod 64 = x div 8 mod (64 :: nat)"
proof -
  have m: "y div 8 mod 64 = y mod 512 div 8" for y :: nat
    using mod_mult2_eq[of y 8 64] by simp
  show ?thesis unfolding m by (simp add: mod_mod_cancel)
qed

lemma hash_idx_of_nat: "hash_idx (of_nat (8 * n)) = n mod 64"
proof -
  have "unat (of_nat (8 * n) :: u32) = 8 * n mod 2 ^ 32"
    unfolding unsigned_of_nat take_bit_eq_mod by simp
  then show ?thesis unfolding hash_idx_unat by (simp only: wrap_idx) simp
qed

lemma wrap_less:
  assumes "x < M" "y < (M :: nat)" shows "(x + y) mod M < y \<longleftrightarrow> M \<le> x + y"
proof (cases "M \<le> x + y")
  case True
  then have "(x + y) mod M = x + y - M" using assms by (simp add: mod_if)
  with True assms show ?thesis by linarith
qed simp

lemma count_add:
  fixes n k :: nat
  defines "c0 \<equiv> of_nat (8 * n) :: u32" and "b \<equiv> of_nat (8 * k) :: u32"
  shows "c0 + b = of_nat (8 * (n + k))"
    and "(if c0 + b < b then of_nat (8 * n div 2 ^ 32) + 1 else of_nat (8 * n div 2 ^ 32)) + of_nat (k div 2 ^ 29)
      = (of_nat (8 * (n + k) div 2 ^ 32) :: u32)"
proof -
  show s: "c0 + b = of_nat (8 * (n + k))" by (simp add: c0_def b_def)
  let ?M = "2 ^ 32 :: nat"
  define x where "x = 8 * n mod ?M"
  define y where "y = 8 * k mod ?M"
  have xy: "x < ?M" "y < ?M" by (simp_all add: x_def y_def)
  have "unat (c0 + b) = (x + y) mod ?M"
    unfolding s by (simp add: unsigned_of_nat take_bit_eq_mod x_def y_def mod_add_eq distrib_left del: of_nat_mult of_nat_add)
  moreover have "unat b = y" by (simp add: b_def unsigned_of_nat take_bit_eq_mod y_def del: of_nat_mult)
  ultimately have carry: "c0 + b < b \<longleftrightarrow> ?M \<le> x + y"
    using wrap_less[OF xy] by (simp add: word_less_nat_alt)
  have k: "k div 2 ^ 29 = 8 * k div ?M" using div_mult_mult1[of 8 k "2 ^ 29"] by simp
  have "8 * (n + k) div ?M = 8 * n div ?M + 8 * k div ?M + (x + y) div ?M"
    unfolding x_def y_def distrib_left by (rule div_add1_eq)
  moreover have "(x + y) div ?M = (if ?M \<le> x + y then 1 else 0)"
    using xy by (auto intro!: div_nat_eqI)
  ultimately show "(if c0 + b < b then of_nat (8 * n div ?M) + 1 else of_nat (8 * n div ?M)) + of_nat (k div 2 ^ 29)
      = (of_nat (8 * (n + k) div ?M) :: u32)"
    unfolding carry k by (simp add: algebra_simps)
qed

lemma length_buf_put: "i + length d \<le> length b \<Longrightarrow> length (buf_put b i d) = length b"
  by (simp add: buf_put_def)

lemma take_buf_put: "i + length d \<le> length b \<Longrightarrow> take (i + length d) (buf_put b i d) = take i b @ d"
  by (simp add: buf_put_def)

text \<open>Absorbing appends to the message.\<close>

lemma hash_update_rep:
  assumes "hash_rep tr s0 c m" shows "hash_rep tr s0 (hash_update tr c d) (m @ d)"
proof -
  define i where "i = length m mod 64"
  define r where "r = take i (h_buffer c)"
  have b: "length (h_buffer c) = 64" and c0: "h_count0 c = of_nat (8 * length m)"
    and c1: "h_count1 c = of_nat (8 * length m div 2 ^ 32)" and bl: "hash_blocks tr s0 m = (h_state c, r)"
    using assms by (simp_all add: hash_rep_def i_def r_def)
  have i: "i < 64" by (simp add: i_def)
  have lr: "length r = i" using b i by (simp add: r_def)
  have idx: "hash_idx (h_count0 c) = i" unfolding c0 hash_idx_of_nat i_def ..
  have m: "hash_blocks tr s0 (m @ d) = hash_blocks tr (h_state c) (r @ d)"
    by (simp only: blocks_append[of tr s0 m d] bl split_conv)
  show ?thesis
  proof (cases "64 - i \<le> length d")
    case True
    let ?b = "buf_put (h_buffer c) i (take (64 - i) d)"
    have eb: "?b = r @ take (64 - i) d" "length ?b = 64"
      using True b i by (simp_all add: buf_put_def r_def)
    obtain st r' where w: "hash_blocks tr (tr (h_state c) ?b) (drop (64 - i) d) = (st, r')" by fastforce
    have lr': "length r' = (length m + length d) mod 64"
    proof -
      have "length r' = (length d - (64 - i)) mod 64" using blocks_rest[of tr _ "drop (64 - i) d"] w by (metis length_drop snd_conv)
      also have "\<dots> = (64 + (length d - (64 - i))) mod 64" by simp
      also have "64 + (length d - (64 - i)) = i + length d" using True i by simp
      finally show ?thesis by (simp add: i_def mod_add_left_eq)
    qed
    have "r @ d = ?b @ drop (64 - i) d" unfolding eb by simp
    then have h: "hash_blocks tr s0 (m @ d) = (st, r')" using m w blocks_full[OF eb(2)] by metis
    have l: "length r' \<le> 64" using lr' by simp
    have u: "hash_update tr c d = \<lparr>h_state = st, h_count0 = h_count0 c + of_nat (8 * length d),
        h_count1 = (if h_count0 c + of_nat (8 * length d) < of_nat (8 * length d) then h_count1 c + 1 else h_count1 c)
          + of_nat (length d div 2 ^ 29), h_buffer = buf_put ?b 0 r'\<rparr>"
      using True w unfolding hash_update_def idx Let_def by simp
    show ?thesis unfolding hash_rep_def u h
      using lr' l eb(2) count_add[of "length m" "length d"] length_buf_put[of 0 r' ?b] take_buf_put[of 0 r' ?b]
      unfolding c0 c1 by simp
  next
    case False
    then have s: "i + length d < 64" by simp
    have h: "hash_blocks tr s0 (m @ d) = (h_state c, r @ d)"
      unfolding m by (rule blocks_short) (use s lr in simp)
    have l: "(length m + length d) mod 64 = i + length d"
      using s unfolding i_def by (metis mod_add_left_eq mod_less)
    have u: "hash_update tr c d = \<lparr>h_state = h_state c, h_count0 = h_count0 c + of_nat (8 * length d),
        h_count1 = (if h_count0 c + of_nat (8 * length d) < of_nat (8 * length d) then h_count1 c + 1 else h_count1 c)
          + of_nat (length d div 2 ^ 29), h_buffer = buf_put (h_buffer c) i d\<rparr>"
      using False unfolding hash_update_def idx Let_def by simp
    show ?thesis unfolding hash_rep_def u h
      using l s b count_add[of "length m" "length d"] length_buf_put[of i d "h_buffer c"] take_buf_put[of i d "h_buffer c"]
      unfolding c0 c1 by (simp add: r_def)
  qed
qed

lemma rep_blocks:
  assumes "hash_rep tr s0 c m" "64 dvd length m" shows "hash_blocks tr s0 m = (h_state c, [])"
  using assms by (auto simp: hash_rep_def)

lemma rep_idx: "hash_rep tr s0 c m \<Longrightarrow> hash_idx (h_count0 c) = length m mod 64"
  by (simp only: hash_rep_def hash_idx_of_nat)

end
