(* ===== verification/Sha1.thy ===== *)
theory Sha1
  imports Block_Hash C_String
begin

text \<open>
  \<open>util/crypto/sha1.c\<close>: the digest of the WebSocket handshake. The transformation and the
  buffering are those of the standard, the padding is not: the filler bytes are 0x80 instead of 0,
  and the two halves of the bit count are written in the wrong order. The buffer of a context is
  not initialised; \<open>junk\<close> is what it held.
\<close>

unbundle bit_operations_syntax

section \<open>The transformation\<close>

definition sha1_words :: "bytes \<Rightarrow> u32 list" where
  "sha1_words block = map (\<lambda>i. be32 block (4 * i)) [0..<16]"

definition sha1_expand :: "u32 list \<Rightarrow> u32 list" where
  "sha1_expand w0 = foldl (\<lambda>w i. w @ [rol32 (w ! (i - 3) XOR w ! (i - 8) XOR w ! (i - 14) XOR w ! (i - 16)) 1]) w0 [16..<80]"

definition sha1_f :: "nat \<Rightarrow> u32 \<Rightarrow> u32 \<Rightarrow> u32 \<Rightarrow> u32 \<times> u32" where
  "sha1_f i b c d =
     (if i < 20 then ((b AND c) OR (NOT b AND d), 0x5A827999)
      else if i < 40 then (b XOR c XOR d, 0x6ED9EBA1)
      else if i < 60 then ((b AND c) OR (b AND d) OR (c AND d), 0x8F1BBCDC)
      else (b XOR c XOR d, 0xCA62C1D6))"

definition sha1_round :: "u32 \<times> u32 \<times> u32 \<times> u32 \<times> u32 \<Rightarrow> nat \<times> u32 \<Rightarrow> u32 \<times> u32 \<times> u32 \<times> u32 \<times> u32" where
  "sha1_round = (\<lambda>(a, b, c, d, e) (i, w).
     case sha1_f i b c d of (f, k) \<Rightarrow> (rol32 a 5 + f + e + k + w, a, rol32 b 30, c, d))"

definition sha1_compress :: "u32 list \<Rightarrow> u32 list \<Rightarrow> u32 list" where
  "sha1_compress st w =
     (case foldl sha1_round (st ! 0, st ! 1, st ! 2, st ! 3, st ! 4) (zip [0..<80] (sha1_expand w)) of
        (a, b, c, d, e) \<Rightarrow> [st ! 0 + a, st ! 1 + b, st ! 2 + c, st ! 3 + d, st ! 4 + e])"

definition sha1_transform :: "u32 list \<Rightarrow> bytes \<Rightarrow> u32 list" where
  "sha1_transform st block = sha1_compress st (sha1_words block)"

section \<open>The context\<close>

definition sha1_h0 :: "u32 list" where
  "sha1_h0 = [0x67452301, 0xEFCDAB89, 0x98BADCFE, 0x10325476, 0xC3D2E1F0]"

definition zms_sha1_init :: "bytes \<Rightarrow> hash_ctx" where
  "zms_sha1_init junk = \<lparr>h_state = sha1_h0, h_count0 = 0, h_count1 = 0, h_buffer = junk\<rparr>"

definition zms_sha1_update :: "hash_ctx \<Rightarrow> bytes \<Rightarrow> hash_ctx" where
  "zms_sha1_update c d = (if d = [] then c else hash_update sha1_transform c d)"

text \<open>The loop that fills up to 56 bytes of a block.\<close>

lemma sha1_full: "c AND 504 = 448 \<longleftrightarrow> hash_idx c = 56"
proof -
  have "c AND 504 = 448 \<longleftrightarrow> drop_bit 3 c AND 63 = 56"
  proof
    assume "c AND 504 = 448"
    from arg_cong[OF this, of "drop_bit 3"] show "drop_bit 3 c AND 63 = 56" by (simp add: drop_bit_and)
  next
    assume "drop_bit 3 c AND 63 = 56"
    from arg_cong[OF this, of "push_bit 3"] have h: "push_bit 3 (drop_bit 3 c) AND 504 = (448 :: u32)"
      by (simp add: push_bit_and)
    have "push_bit 3 (drop_bit 3 c) AND push_bit 3 (mask 6) = c AND push_bit 3 (mask 6)"
      by (rule bit_word_eqI) (auto simp: bit_simps)
    with h show "c AND 504 = 448" by (simp add: mask_eq_exp_minus_1)
  qed
  then show ?thesis unfolding hash_idx_def by (simp add: word_unat_eq_iff)
qed

lemma hash_idx_step: "hash_idx (c + 8) = (hash_idx c + 1) mod 64"
proof -
  obtain n where n: "unat c = n" by blast
  have "hash_idx (c + 8) = (n + 8) mod 2 ^ 32 div 8 mod 64"
    by (simp add: hash_idx_unat unat_word_ariths n)
  also have "\<dots> = (n div 8 + 1) mod 64" unfolding wrap_idx by (simp add: div_add_self2)
  finally show ?thesis by (simp add: hash_idx_unat n mod_Suc_eq)
qed

lemma update_count: "h_count0 (hash_update tr c [x]) = h_count0 c + 8"
  by (simp add: hash_update_def Let_def split: prod.splits)

function sha1_fill :: "hash_ctx \<Rightarrow> hash_ctx" where
  "sha1_fill c = (if h_count0 c AND 504 \<noteq> 448 then sha1_fill (zms_sha1_update c [0x80]) else c)"
  by pat_completeness auto
termination
proof (relation "measure (\<lambda>c. (120 - hash_idx (h_count0 c)) mod 64)")
  fix c :: hash_ctx assume "h_count0 c AND 504 \<noteq> 448"
  then have i: "hash_idx (h_count0 c) \<noteq> 56" by (simp add: sha1_full)
  have l: "hash_idx (h_count0 c) < 64" by (simp add: hash_idx_unat)
  have u: "hash_idx (h_count0 (zms_sha1_update c [0x80])) = (hash_idx (h_count0 c) + 1) mod 64"
    by (simp add: zms_sha1_update_def update_count hash_idx_step)
  have "\<forall>k \<in> set [0..<64]. k \<noteq> 56 \<longrightarrow> (120 - (k + 1) mod 64) mod 64 < (120 - k) mod (64 :: nat)" by code_simp
  with i l show "(zms_sha1_update c [0x80], c) \<in> measure (\<lambda>c. (120 - hash_idx (h_count0 c)) mod 64)"
    unfolding in_measure u by simp
qed simp

declare sha1_fill.simps [simp del]

definition zms_sha1_final :: "hash_ctx \<Rightarrow> bytes" where
  "zms_sha1_final c =
     (let count = put_be32 (h_count0 c) @ put_be32 (h_count1 c);
          c1 = zms_sha1_update (sha1_fill (zms_sha1_update c [0x80])) count
      in concat (map put_be32 (h_state c1)))"

section \<open>What is computed\<close>

abbreviation sha1_rep :: "hash_ctx \<Rightarrow> bytes \<Rightarrow> bool" where "sha1_rep \<equiv> hash_rep sha1_transform sha1_h0"

lemma sha1_init_rep: "length junk = 64 \<Longrightarrow> sha1_rep (zms_sha1_init junk) []"
  by (simp add: hash_rep_def zms_sha1_init_def hash_blocks.simps)

lemma sha1_update_rep: "sha1_rep c m \<Longrightarrow> sha1_rep (zms_sha1_update c d) (m @ d)"
  by (simp add: zms_sha1_update_def hash_update_rep)

definition sha1_filler :: "nat \<Rightarrow> nat" where "sha1_filler n = (119 - n mod 64) mod 64"

lemma sha1_fill_rep:
  "sha1_rep c m \<Longrightarrow> sha1_rep (sha1_fill c) (m @ replicate ((120 - length m mod 64) mod 64) 0x80)"
proof (induction c arbitrary: m rule: sha1_fill.induct)
  case (1 c)
  have i: "hash_idx (h_count0 c) = length m mod 64" by (rule rep_idx[OF "1.prems"])
  show ?case
  proof (cases "length m mod 64 = 56")
    case True
    then show ?thesis using 1 i by (subst sha1_fill.simps) (simp add: sha1_full)
  next
    case False
    have "\<forall>k \<in> set [0..<64]. k \<noteq> 56 \<longrightarrow> (120 - k) mod 64 = Suc ((120 - (k + 1) mod 64) mod (64 :: nat))" by code_simp
    then have n: "(120 - length m mod 64) mod 64 = Suc ((120 - (length m mod 64 + 1) mod 64) mod 64)"
      using False by simp
    have f: "h_count0 c AND 504 \<noteq> 448" using False i by (simp add: sha1_full)
    from 1(1)[OF f sha1_update_rep[OF "1.prems"]] show ?thesis
      by (subst sha1_fill.simps) (simp add: f n mod_Suc_eq)
  qed
qed

text \<open>The digest of the standard: 0x80, zeros up to 56 bytes of a block, the bit count big-endian.\<close>

definition sha1_of_blocks :: "bytes \<Rightarrow> bytes" where
  "sha1_of_blocks m = concat (map put_be32 (fst (hash_blocks sha1_transform sha1_h0 m)))"

definition sha1_standard :: "bytes \<Rightarrow> bytes" where
  "sha1_standard m = sha1_of_blocks (m @ [0x80] @ replicate (sha1_filler (length m)) 0
     @ put_be32 (of_nat (8 * length m div 2 ^ 32)) @ put_be32 (of_nat (8 * length m)))"

lemma filler_len: "(120 - (n + 1) mod 64) mod 64 = sha1_filler n"
proof -
  have "\<forall>k \<in> set [0..<64]. (120 - (k + 1) mod 64) mod 64 = (119 - k) mod (64 :: nat)" by code_simp
  then have "(120 - (n mod 64 + 1) mod 64) mod 64 = (119 - n mod 64) mod 64" by simp
  then show ?thesis by (simp add: sha1_filler_def mod_Suc_eq)
qed

lemma padded_len: "(n + 1 + sha1_filler n + 8) mod 64 = 0"
proof -
  have "\<forall>k \<in> set [0..<64]. (k + 1 + (119 - k) mod 64 + 8) mod 64 = (0 :: nat)" by code_simp
  then have "(n mod 64 + 1 + (119 - n mod 64) mod 64 + 8) mod 64 = 0" by simp
  moreover have "(n + 1 + f + 8) mod 64 = (n mod 64 + 1 + f + 8) mod 64" for f
    by (simp only: add.assoc mod_add_left_eq)
  ultimately show ?thesis unfolding sha1_filler_def by simp
qed

text \<open>
  The digest of a message that is absorbed in any pieces is that of one whole: the blocks of the
  message, 0x80, filler bytes 0x80 where the standard has 0, and the bit count with its low half
  first where the standard has the high half.
\<close>

theorem sha1_digest:
  assumes "length junk = 64"
  shows "zms_sha1_final (foldl zms_sha1_update (zms_sha1_init junk) ds) =
    (let m = concat ds in sha1_of_blocks (m @ replicate (1 + sha1_filler (length m)) 0x80
      @ put_be32 (of_nat (8 * length m)) @ put_be32 (of_nat (8 * length m div 2 ^ 32))))"
proof -
  have r: "sha1_rep (foldl zms_sha1_update c ds) (m @ concat ds)" if "sha1_rep c m" for c m
    using that
  proof (induction ds arbitrary: c m)
    case (Cons d ds)
    from Cons.IH[OF sha1_update_rep[OF Cons.prems, of d]] show ?case by simp
  qed simp
  let ?m = "concat ds"
  define c where "c = foldl zms_sha1_update (zms_sha1_init junk) ds"
  have c: "sha1_rep c ?m" using r[OF sha1_init_rep[OF assms]] by (simp add: c_def)
  let ?n = "put_be32 (of_nat (8 * length ?m)) @ put_be32 (of_nat (8 * length ?m div 2 ^ 32))"
  have n: "put_be32 (h_count0 c) @ put_be32 (h_count1 c) = ?n" using c by (simp add: hash_rep_def)
  let ?p = "(?m @ [0x80]) @ replicate (sha1_filler (length ?m)) 0x80"
  have "sha1_rep (sha1_fill (zms_sha1_update c [0x80])) ?p"
    using sha1_fill_rep[OF sha1_update_rep[OF c, of "[0x80]"]] filler_len[of "length ?m"] by simp
  from sha1_update_rep[OF this, of ?n]
  have f: "sha1_rep (zms_sha1_update (sha1_fill (zms_sha1_update c [0x80])) ?n) (?p @ ?n)" .
  have "64 dvd length (?p @ ?n)" using padded_len[of "length ?m"] by (simp add: dvd_eq_mod_eq_0 ac_simps)
  from rep_blocks[OF f this] show ?thesis
    unfolding zms_sha1_final_def c_def[symmetric] Let_def n sha1_of_blocks_def by simp
qed

end
