(* ===== verification/Websocket.thy ===== *)
theory Websocket
  imports Sha1
begin

text \<open>
  WebSocket (\<open>session/http/websocket\<close>): the frame headers the server writes, the reader of client
  frames, and the handshake. The reader looks at the opcode and the length only. Frame lengths are
  kept at their 64 bits: their sum with the header length wraps. The base64 encoder is a parameter
  (it is no source of the repository).
\<close>

unbundle bit_operations_syntax

section \<open>Frames\<close>

definition zms_ws_framer_server_binary_hdr :: "nat \<Rightarrow> nat \<Rightarrow> bytes" where
  "zms_ws_framer_server_binary_hdr cap n =
     (if cap < 2 then []
      else if n < 126 then [0x82, of_nat n]
      else if n \<le> 0xFFFF then (if cap < 4 then [] else [0x82, 126] @ put_be16 (of_nat n))
      else if cap < 10 then []
      else [0x82, 127, 0, 0, 0, 0] @ put_be32 (of_nat n))"

definition ws_be64 :: "bytes \<Rightarrow> u64" where
  "ws_be64 d = foldl (\<lambda>v b. push_bit 8 v OR ucast b) 0 (take 8 (drop 2 d))"

definition ws_length :: "bytes \<Rightarrow> (nat \<times> u64) option" where
  "ws_length d =
     (let p = d ! 1 AND 0x7F
      in if p = 126 then (if length d < 4 then None else Some (4, push_bit 8 (ucast (d ! 2)) OR ucast (d ! 3)))
         else if p = 127 then (if length d < 10 then None else Some (10, ws_be64 d))
         else Some (2, ucast p))"

text \<open>The opcode, the payload length and the bytes of the frame; None where the code returns 0.\<close>

definition ws_skip_frame :: "bytes \<Rightarrow> (u8 \<times> u64 \<times> nat) option" where
  "ws_skip_frame d =
     (if length d < 2 then None
      else case ws_length d of
        None \<Rightarrow> None
      | Some (off, plen) \<Rightarrow>
          let hlen = of_nat (if d ! 1 AND 0x80 \<noteq> 0 then off + 4 else off) :: u64
          in if of_nat (length d) < hlen + plen then None
             else if hlen + plen = 0 then None
             else Some (d ! 0 AND 0x0F, plen, unat (hlen + plen)))"

datatype ws_call = Ws_On_Close | Ws_Send bytes

lemma skip_frame_progress:
  assumes "ws_skip_frame d = Some (op1, plen, n)" "length d < 2 ^ 64" shows "0 < n \<and> n \<le> length d"
proof -
  have "unat (of_nat (length d) :: u64) = length d"
    using assms(2) by (simp add: unsigned_of_nat take_bit_nat_eq_self)
  with assms(1) show ?thesis
    by (auto simp: ws_skip_frame_def Let_def word_less_nat_alt unat_gt_0 split: if_splits option.splits prod.splits)
qed

text \<open>\<open>send\<close>: the caller gave a function that sends. The bytes consumed, and the calls.\<close>

function zms_ws_framer_consume_client :: "bool \<Rightarrow> bool \<Rightarrow> bytes \<Rightarrow> nat \<times> ws_call list" where
  "zms_ws_framer_consume_client send on_close d =
     (if d = [] then (0, [])
      else case ws_skip_frame d of
        None \<Rightarrow> (0, [])
      | Some (opcode, plen, n) \<Rightarrow>
          if opcode = 0x8 then (n, if on_close then [Ws_On_Close] else [])
          else case zms_ws_framer_consume_client send on_close (drop n d) of
            (m, cs) \<Rightarrow> (n + m, (if opcode = 0x9 \<and> send then [Ws_Send [0x8A, 0x00]] else []) @ cs))"
  by pat_completeness auto
termination
proof (relation "measure (\<lambda>(send, on_close, d). length d)")
  fix send on_close d x opcode y plen n
  assume "d \<noteq> []" "ws_skip_frame d = Some x" "(opcode, y) = x" "(plen, n) = y" "opcode \<noteq> 8"
  then have "0 < n" by (auto simp: ws_skip_frame_def Let_def unat_gt_0 split: if_splits option.splits prod.splits)
  with \<open>d \<noteq> []\<close> show "((send, on_close, drop n d), send, on_close, d) \<in> measure (\<lambda>(send, on_close, d). length d)" by simp
qed simp

declare zms_ws_framer_consume_client.simps [simp del]

section \<open>Handshake\<close>

definition ZMS_WS_GUID :: bytes where "ZMS_WS_GUID = asc ''258EAFA5-E914-47DA-95CA-C5AB0DC85B11''"

text \<open>\<open>b64\<close> is the encoder; None where it fails.\<close>

definition zms_ws_handshake_accept :: "(bytes \<Rightarrow> bytes option) \<Rightarrow> bytes \<Rightarrow> bytes \<Rightarrow> nat \<Rightarrow> bytes option" where
  "zms_ws_handshake_accept b64 junk key accept_cap =
     (if key = [] \<or> accept_cap < 29 then None
      else let c = key @ ZMS_WS_GUID
           in if length c \<ge> 128 then None
              else b64 (zms_sha1_final (zms_sha1_update (zms_sha1_init junk) c)))"

definition ws_response_text :: "bytes \<Rightarrow> bytes" where
  "ws_response_text accept =
     asc ''HTTP/1.1 101 Switching Protocols'' @ [13, 10] @ asc ''Upgrade: websocket'' @ [13, 10]
       @ asc ''Connection: Upgrade'' @ [13, 10] @ asc ''Sec-WebSocket-Accept: '' @ accept @ [13, 10]
       @ asc ''Access-Control-Allow-Origin: *'' @ [13, 10, 13, 10]"

text \<open>What is written (without the final NUL) and what is returned.\<close>

definition zms_ws_handshake_response :: "nat \<Rightarrow> bytes \<Rightarrow> bytes \<times> nat" where
  "zms_ws_handshake_response cap accept =
     (if cap = 0 \<or> accept = [] then ([], 0)
      else (take (cap - 1) (ws_response_text accept), length (ws_response_text accept)))"

section \<open>Client frames\<close>

text \<open>A masked frame as RFC 6455 writes it, with the shortest length that fits.\<close>

definition ws_put :: "u8 \<times> bytes \<times> bytes \<Rightarrow> bytes" where
  "ws_put = (\<lambda>(opcode, key, body).
     [0x80 OR opcode]
     @ (let n = length body
        in if n < 126 then [0x80 OR of_nat n]
           else if n < 2 ^ 16 then [0xFE] @ put_be16 (of_nat n)
           else [0xFF, 0, 0, 0, 0] @ put_be32 (of_nat n))
     @ key @ map (\<lambda>i. body ! i XOR key ! (i mod 4)) [0..<length body])"

definition ws_wf :: "u8 \<times> bytes \<times> bytes \<Rightarrow> bool" where
  "ws_wf = (\<lambda>(opcode, key, body). opcode < 16 \<and> length key = 4 \<and> length body < 2 ^ 32)"

lemma bit_80: "bit (0x80 :: u8) n \<longleftrightarrow> n = 7"
proof (cases "n < 8")
  case True
  have "\<forall>k \<in> set [0..<8]. bit (0x80 :: u8) k \<longleftrightarrow> k = 7" by code_simp
  with True show ?thesis by simp
qed (auto dest: bit_imp_le_length)

lemma unat_size: "n < 2 ^ 64 \<Longrightarrow> unat (of_nat n :: u64) = n"
  by (simp only: unsigned_of_nat) (simp add: take_bit_nat_eq_self)

lemma and_low: "(w :: u8) AND 0x0F = take_bit 4 w" "w AND 0x7F = take_bit 7 w"
  by (simp_all add: take_bit_eq_mask mask_eq_exp_minus_1)

lemma op_nibble: "opcode < 16 \<Longrightarrow> (0x80 OR opcode) AND 0x0F = (opcode :: u8)"
proof -
  assume "opcode < 16"
  then have o: "take_bit 4 opcode = opcode"
    by (simp add: word_unat_eq_iff unsigned_take_bit_eq take_bit_nat_eq_self word_less_nat_alt)
  have "take_bit 4 (0x80 OR opcode) = take_bit 4 opcode"
    by (rule bit_word_eqI) (auto simp: bit_simps bit_80)
  with o show ?thesis by (simp add: and_low)
qed

lemma len7: "n < 128 \<Longrightarrow> (0x80 OR of_nat n) AND 0x7F = (of_nat n :: u8) \<and> (0x80 OR of_nat n) AND 0x80 \<noteq> (0 :: u8)"
proof -
  assume n: "n < 128"
  define w where "w = (of_nat n :: u8)"
  have w: "take_bit 7 w = w"
    using n by (simp add: w_def word_unat_eq_iff unsigned_take_bit_eq unsigned_of_nat take_bit_nat_eq_self)
  have "take_bit 7 (0x80 OR w) = take_bit 7 w"
    by (rule bit_word_eqI) (auto simp: bit_simps bit_80)
  moreover have "bit ((0x80 OR w) AND 0x80) 7" by (simp add: bit_simps bit_80)
  then have "(0x80 OR w) AND 0x80 \<noteq> 0" by auto
  ultimately show ?thesis using w by (simp add: and_low flip: w_def)
qed

lemma be16_64: "push_bit 8 (ucast a) OR ucast b = (ucast (push_bit 8 (ucast a) OR ucast b :: u16) :: u64)" for a b :: u8
  by (rule bit_word_eqI) (auto simp: bit_simps dest: bit_imp_le_length)

lemma be64_bytes:
  "push_bit 8 (push_bit 8 (push_bit 8 (ucast (ucast (drop_bit 24 v) :: u8)) OR ucast (ucast (drop_bit 16 v) :: u8))
      OR ucast (ucast (drop_bit 8 v) :: u8)) OR ucast (ucast v :: u8) = (ucast v :: u64)" (is "?l = _") for v :: u32
proof (rule bit_word_eqI)
  fix n assume n: "n < LENGTH(64)"
  consider "n < 8" | "8 \<le> n" "n < 16" | "16 \<le> n" "n < 24" | "24 \<le> n" by linarith
  then show "bit ?l n = bit (ucast v :: u64) n"
    using n by cases (auto simp: bit_simps dest: bit_imp_le_length)
qed

lemma be64_low: "take 8 (drop 2 d) = [0, 0, 0, 0] @ put_be32 v \<Longrightarrow> ws_be64 d = ucast v"
  using be64_bytes[of v] by (simp add: ws_be64_def put_be32_def)

text \<open>The frame a client writes is skipped as one, with its opcode.\<close>

lemma ws_put_head:
  assumes "ws_wf (opcode, key, body)" and d: "d = ws_put (opcode, key, body) @ r"
  shows "ws_length d = Some (if length body < 126 then 2 else if length body < 2 ^ 16 then 4 else 10, of_nat (length body))"
    and "d ! 1 AND 0x80 \<noteq> 0" and "d ! 0 = 0x80 OR opcode"
    and "length d = (if length body < 126 then 2 else if length body < 2 ^ 16 then 4 else 10) + 4 + length body + length r"
proof -
  let ?n = "length body"
  have wf: "length key = 4" "?n < 2 ^ 32" using assms by (simp_all add: ws_wf_def)
  show l: "length d = (if ?n < 126 then 2 else if ?n < 2 ^ 16 then 4 else 10) + 4 + ?n + length r"
    using wf by (simp add: d ws_put_def Let_def)
  show "d ! 0 = 0x80 OR opcode" by (simp add: d ws_put_def)
  consider (a) "?n < 126" | (b) "126 \<le> ?n" "?n < 2 ^ 16" | (c) "2 ^ 16 \<le> ?n" by linarith
  note cs = this
  from cs show "d ! 1 AND 0x80 \<noteq> 0"
    using len7[of ?n] by cases (auto simp: d ws_put_def Let_def)
  from cs show "ws_length d = Some (if ?n < 126 then 2 else if ?n < 2 ^ 16 then 4 else 10, of_nat ?n)"
  proof cases
    case a
    have u: "unat (of_nat ?n :: u8) = ?n" using a by (simp add: unsigned_of_nat take_bit_nat_eq_self)
    then have "of_nat ?n \<noteq> (126 :: u8)" "of_nat ?n \<noteq> (127 :: u8)" using a by (auto simp: word_unat_eq_iff)
    moreover have "ucast (of_nat ?n :: u8) = (of_nat ?n :: u64)"
      using a by (simp add: word_unat_eq_iff unsigned_ucast_eq unsigned_of_nat take_bit_nat_eq_self)
    ultimately show ?thesis using a len7[of ?n] by (simp add: d ws_put_def ws_length_def Let_def)
  next
    case b
    have v: "push_bit 8 (ucast (d ! 2)) OR ucast (d ! 3) = (ucast (be16 (drop 2 d) 0) :: u64)"
      unfolding be16_64 using l b by (simp add: be16_def)
    have "be16 (drop 2 d) 0 = of_nat ?n" using b by (simp add: d ws_put_def Let_def)
    moreover have "ucast (of_nat ?n :: u16) = (of_nat ?n :: u64)"
      using b by (simp add: word_unat_eq_iff unsigned_ucast_eq unsigned_of_nat take_bit_nat_eq_self)
    moreover have "d ! 1 = 0xFE" using b by (simp add: d ws_put_def Let_def)
    ultimately show ?thesis using b l v by (simp add: ws_length_def)
  next
    case c
    have z: "take 8 (drop 2 d) = [0, 0, 0, 0] @ put_be32 (of_nat ?n)" "d ! 1 = 0xFF"
      using c by (simp_all add: d ws_put_def Let_def)
    have "ws_be64 d = ucast (of_nat ?n :: u32)" by (rule be64_low[OF z(1)])
    also have "\<dots> = of_nat ?n"
      using wf(2) by (simp add: word_unat_eq_iff unsigned_ucast_eq unsigned_of_nat take_bit_nat_eq_self)
    finally show ?thesis using c l z(2) by (simp add: ws_length_def)
  qed
qed

lemma ws_skip_put:
  assumes wf: "ws_wf (opcode, key, body)" and "length r < 2 ^ 62"
  shows "ws_skip_frame (ws_put (opcode, key, body) @ r)
    = Some (opcode, of_nat (length body), length (ws_put (opcode, key, body)))"
proof -
  let ?d = "ws_put (opcode, key, body) @ r" and ?n = "length body"
  let ?o = "if ?n < 126 then 2 else if ?n < 2 ^ 16 then 4 else 10 :: nat"
  note h = ws_put_head[OF wf refl, of r]
  have n: "?n < 2 ^ 32" "opcode < 16" using wf by (simp_all add: ws_wf_def)
  have lp: "length (ws_put (opcode, key, body)) = ?o + 4 + ?n" using h(4) by simp
  have s: "of_nat (?o + 4) + of_nat ?n = (of_nat (length (ws_put (opcode, key, body))) :: u64)"
    unfolding lp by (simp only: of_nat_add)
  have lt: "length (ws_put (opcode, key, body)) < 2 ^ 33" unfolding lp using n(1) by simp
  have "length ?d < 2 ^ 64" using lt assms(2) by simp
  then have u: "unat (of_nat (length ?d) :: u64) = length ?d"
    "unat (of_nat (length (ws_put (opcode, key, body))) :: u64) = length (ws_put (opcode, key, body))"
    using lt by (auto intro!: unat_size simp del: length_append)
  have nz: "of_nat (length (ws_put (opcode, key, body))) \<noteq> (0 :: u64)" using u(2) lp by (auto simp: word_unat_eq_iff)
  have ok: "\<not> of_nat (length ?d) < (of_nat (length (ws_put (opcode, key, body))) :: u64)"
    by (simp only: word_less_nat_alt u) simp
  have "2 \<le> length ?d" unfolding h(4) by simp
  then have "\<not> length ?d < 2" by simp
  then show ?thesis
    by (simp only: ws_skip_frame_def if_False h(1) option.case split_conv Let_def h(2) if_True s ok nz u(2) h(3) op_nibble[OF n(2)]
        not_False_eq_True)
qed

lemma ws_length_take:
  assumes "ws_length d = Some (off, p)" "off \<le> length d" "2 \<le> k"
  shows "ws_length (take k d) = (if off \<le> k then Some (off, p) else None)"
proof -
  have o: "2 \<le> off" "d ! 1 AND 0x7F = 126 \<longrightarrow> off = 4" "d ! 1 AND 0x7F = 127 \<longrightarrow> off = 10"
    "d ! 1 AND 0x7F \<noteq> 126 \<longrightarrow> d ! 1 AND 0x7F \<noteq> 127 \<longrightarrow> off = 2"
    using assms(1) by (auto simp: ws_length_def Let_def split: if_splits)
  have n: "take k d ! i = d ! i" if "i < k" for i using that by simp
  have b: "off \<le> k \<Longrightarrow> off = 10 \<Longrightarrow> take 8 (drop 2 (take k d)) = take 8 (drop 2 d)"
    by (simp add: drop_take min_def)
  show ?thesis
    using assms o n[of 1] n[of 2] n[of 3] b
    by (auto simp: ws_length_def Let_def ws_be64_def min_def)
qed

lemma ws_skip_cut:
  assumes wf: "ws_wf f" and k: "k < length (ws_put f)" shows "ws_skip_frame (take k (ws_put f)) = None"
proof (cases "k < 2")
  case False
  obtain opcode key body where f: "f = (opcode, key, body)" by (cases f)
  let ?d = "ws_put f" and ?n = "length body"
  let ?o = "if ?n < 126 then 2 else if ?n < 2 ^ 16 then 4 else 10 :: nat"
  have wf': "ws_wf (opcode, key, body)" "ws_put f = ws_put (opcode, key, body) @ []" using wf by (simp_all add: f)
  note h = ws_put_head[OF wf']
  have lp: "length ?d = ?o + 4 + ?n" using h(4) by simp
  have n: "?n < 2 ^ 32" using wf by (simp add: f ws_wf_def)
  have o: "?o \<le> length ?d" unfolding lp by simp
  have l: "ws_length (take k ?d) = (if ?o \<le> k then Some (?o, of_nat ?n) else None)"
    using ws_length_take[OF h(1) o] False by simp
  have m: "take k ?d ! 1 AND 0x80 \<noteq> 0" using h(2) False by simp
  have lk: "length (take k ?d) = k" "length ?d < 2 ^ 33" using k lp n by simp_all
  have s: "of_nat (?o + 4) + of_nat ?n = (of_nat (length ?d) :: u64)" unfolding lp by (simp only: of_nat_add)
  have "k < 2 ^ 64" using k lk(2) by simp
  then have u: "unat (of_nat k :: u64) = k" "unat (of_nat (length ?d) :: u64) = length ?d"
    using lk(2) by (auto intro!: unat_size)
  have "(of_nat k :: u64) < of_nat (length ?d)" using k by (simp only: word_less_nat_alt u)
  then have lt: "of_nat k < of_nat (?o + 4) + (of_nat ?n :: u64)" unfolding s .
  show ?thesis
  proof (cases "?o \<le> k")
    case True
    have c: "\<not> length (take k ?d) < 2" using False lk(1) by simp
    have l1: "ws_length (take k ?d) = Some (?o, of_nat ?n)" using l by (simp only: True if_True)
    show ?thesis
      by (simp only: ws_skip_frame_def c if_False l1 option.case split_conv Let_def m not_False_eq_True if_True lk(1) lt if_cancel)
  next
    case o2: False
    have "ws_length (take k ?d) = None" using l by (simp only: o2 if_False)
    then show ?thesis by (simp only: ws_skip_frame_def option.case if_cancel)
  qed
qed (simp add: ws_skip_frame_def min_less_iff_disj)

lemma ws_put_bound: "ws_wf f \<Longrightarrow> length (ws_put f) < 2 ^ 33"
proof -
  assume w: "ws_wf f"
  obtain opcode key body where f: "f = (opcode, key, body)" by (cases f)
  have "length body < 2 ^ 32" "length key = 4" using w by (simp_all add: f ws_wf_def)
  then show ?thesis by (simp add: f ws_put_def Let_def)
qed

text \<open>The frames that are looked at: up to and with the first close.\<close>

definition ws_upto_close :: "(u8 \<times> bytes \<times> bytes) list \<Rightarrow> (u8 \<times> bytes \<times> bytes) list" where
  "ws_upto_close fs = takeWhile (\<lambda>(op1, _). op1 \<noteq> 8) fs @ take 1 (dropWhile (\<lambda>(op1, _). op1 \<noteq> 8) fs)"

definition ws_calls_of :: "bool \<Rightarrow> bool \<Rightarrow> u8 \<times> bytes \<times> bytes \<Rightarrow> ws_call list" where
  "ws_calls_of send on_close = (\<lambda>(op1, _). if op1 = 8 then (if on_close then [Ws_On_Close] else [])
     else if op1 = 9 \<and> send then [Ws_Send [0x8A, 0x00]] else [])"

lemma consume_put:
  assumes "ws_wf f" "length r < 2 ^ 62"
  shows "zms_ws_framer_consume_client send on_close (ws_put f @ r) =
    (if fst f = 8 then (length (ws_put f), ws_calls_of send on_close f)
     else case zms_ws_framer_consume_client send on_close r of
       (m, cs) \<Rightarrow> (length (ws_put f) + m, ws_calls_of send on_close f @ cs))"
proof -
  obtain opcode key body where f: "f = (opcode, key, body)" by (cases f)
  have ne: "ws_put f @ r \<noteq> []" by (simp add: f ws_put_def)
  from ws_skip_put[of opcode key body r] assms f
  have "ws_skip_frame (ws_put f @ r) = Some (opcode, of_nat (length body), length (ws_put f))" by simp
  with ne show ?thesis
    by (subst zms_ws_framer_consume_client.simps) (auto simp: ws_calls_of_def f split: prod.splits)
qed

text \<open>
  C21: Whole frames are consumed one by one up to and with the first close frame, each ping is answered
  with a pong, the close is reported once; of a frame that has not come whole nothing is consumed.\<close>

theorem ws_frames_consumed:
  assumes "list_all ws_wf fs" "ws_wf f" "k < length (ws_put f)" "length (concat (map ws_put fs)) < 2 ^ 61"
  shows "zms_ws_framer_consume_client send on_close (concat (map ws_put fs) @ take k (ws_put f))
    = (length (concat (map ws_put (ws_upto_close fs))), concat (map (ws_calls_of send on_close) (ws_upto_close fs)))"
  using assms(1,4)
proof (induction fs)
  case Nil
  show ?case
    using ws_skip_cut[OF assms(2,3)] by (simp add: ws_upto_close_def zms_ws_framer_consume_client.simps)
next
  case (Cons g fs)
  let ?r = "concat (map ws_put fs) @ take k (ws_put f)"
  have "length (ws_put f) < 2 ^ 33" using assms(2) by (rule ws_put_bound)
  then have r: "length ?r < 2 ^ 62" using Cons.prems(2) assms(3) by simp
  have g: "ws_wf g" using Cons.prems(1) by simp
  have i: "zms_ws_framer_consume_client send on_close ?r
    = (length (concat (map ws_put (ws_upto_close fs))), concat (map (ws_calls_of send on_close) (ws_upto_close fs)))"
    using Cons by simp
  have u: "ws_upto_close (g # fs) = (if fst g = 8 then [g] else g # ws_upto_close fs)"
    by (cases g) (simp add: ws_upto_close_def)
  show ?case using consume_put[OF g r, of send on_close] i u by simp
qed

lemma ws_frames_consumed_witness:
  "zms_ws_framer_consume_client True True (concat (map ws_put [(9, [1, 2, 3, 4], []), (2, [1, 2, 3, 4], [7])]) @ take 5 (ws_put (8, [0, 0, 0, 0], [])))
    = (13, [Ws_Send [0x8A, 0x00]])"
  using ws_frames_consumed[of "[(9, [1, 2, 3, 4], []), (2, [1, 2, 3, 4], [7])]" "(8, [0, 0, 0, 0], [])" 5 True True]
  by (simp add: ws_wf_def ws_put_def ws_upto_close_def ws_calls_of_def)

text \<open>
  The sum of header length and payload length wraps: a frame that names a payload of 2^64 - 8 bytes is
  consumed as 6 bytes, which end inside its own header; and when it names 2^64 - 14 bytes nothing is
  consumed, whatever follows.
\<close>

theorem ws_length_wraps:
  "ws_skip_frame [0x82, 0xFF, 0xFF, 0xFF, 0xFF, 0xFF, 0xFF, 0xFF, 0xFF, 0xF8] = Some (2, - 8, 6)"
  "ws_skip_frame [0x82, 0xFF, 0xFF, 0xFF, 0xFF, 0xFF, 0xFF, 0xFF, 0xFF, 0xF2] = None"
proof -
  have "ws_length [0x82, 0xFF, 0xFF, 0xFF, 0xFF, 0xFF, 0xFF, 0xFF, 0xFF, 0xF8] = Some (10, - 8)"
    "ws_length [0x82, 0xFF, 0xFF, 0xFF, 0xFF, 0xFF, 0xFF, 0xFF, 0xFF, 0xF2] = Some (10, - 14)"
    by (simp_all add: ws_length_def ws_be64_def)
  then show "ws_skip_frame [0x82, 0xFF, 0xFF, 0xFF, 0xFF, 0xFF, 0xFF, 0xFF, 0xFF, 0xF8] = Some (2, - 8, 6)"
    "ws_skip_frame [0x82, 0xFF, 0xFF, 0xFF, 0xFF, 0xFF, 0xFF, 0xFF, 0xFF, 0xF2] = None"
    unfolding ws_skip_frame_def by (simp_all add: Let_def)
qed

end
