(* ===== verification/Sha1_Example.thy ===== *)
theory Sha1_Example
  imports Sha1
begin

text \<open>
  The digest of \<open>sha1.c\<close> on the three bytes \<open>abc\<close>, next to the digest of the standard (FIPS 180-4
  gives it as its first example). The values of the expansion and of every twentieth round are
  written out, so that each lemma is a short computation.
\<close>

lemma sha1_upt:
  "[0..<20] = [0, 1, 2, 3, 4, 5, 6, 7, 8, 9, 10, 11, 12, 13, 14, 15, 16, 17, 18, 19]"
  "[0..<80] = [0, 1, 2, 3, 4, 5, 6, 7, 8, 9, 10, 11, 12, 13, 14, 15, 16, 17, 18, 19, 20, 21, 22, 23, 24, 25, 26,
    27, 28, 29, 30, 31, 32, 33, 34, 35, 36, 37, 38, 39, 40, 41, 42, 43, 44, 45, 46, 47, 48, 49, 50, 51,
    52, 53, 54, 55, 56, 57, 58, 59, 60, 61, 62, 63, 64, 65, 66, 67, 68, 69, 70, 71, 72, 73, 74, 75, 76,
    77, 78, 79]"
  "[16..<80] = [16, 17, 18, 19, 20, 21, 22, 23, 24, 25, 26, 27, 28, 29, 30, 31, 32, 33, 34, 35, 36, 37, 38, 39, 40,
    41, 42, 43, 44, 45, 46, 47, 48, 49, 50, 51, 52, 53, 54, 55, 56, 57, 58, 59, 60, 61, 62, 63, 64, 65,
    66, 67, 68, 69, 70, 71, 72, 73, 74, 75, 76, 77, 78, 79]"
  by (simp_all add: upt_rec)

definition abc_code0 :: "u32 list" where
  "abc_code0 = [0x61626380, 0x80808080, 0x80808080, 0x80808080, 0x80808080, 0x80808080, 0x80808080, 0x80808080,
    0x80808080, 0x80808080, 0x80808080, 0x80808080, 0x80808080, 0x80808080, 0x18, 0, 0xC3C5C601,
    0x1010131, 0x1010101, 0x868A8D02]"

definition abc_code1 :: "u32 list" where
  "abc_code1 = [0x3030363, 0x3030303, 0xD151A35, 0x60606C6, 0x818D8A05, 0x18283608, 0xE0E0F8E, 0xE0E0E0E,
    0x37576BE7, 0x1B1B181B, 0x81BDA445, 0x60A0D820, 0xB0A4AA3C, 0x3C3C3CFC, 0xD959AB98, 0x76465466,
    0xAFA9C9A, 0x8E8F6C8D, 0xF6C6C026, 0xE8E8E8E8]"

definition abc_code2 :: "u32 list" where
  "abc_code2 = [0x63508675, 0xB9B989B9, 0x11D04E32, 0x7880C, 0xB53B502, 0xC9C9C509, 0x8FB08CA7, 0x7E4F726D,
    0x86C885B1, 0xF8E6DB08, 0x787816BB, 0xFC0C6AAC, 0x1F12656C, 0xAFACAFAF, 0xCC5540B1, 0x6018ECA0,
    0xB7C9C4B2, 0x1A1B3419, 0x5C60256, 0x417C637]"

definition abc_code3 :: "u32 list" where
  "abc_code3 = [0x3D4D1A1, 0x3BD8353A, 0x82751F21, 0xCACB28C9, 0xE542C504, 0x39093539, 0x50CEB291, 0x65EB8C61,
    0xD335828B, 0x49458949, 0x38042E87, 0xC7FAE5F6, 0x3C111552, 0x3E03D320, 0x224D0921, 0xCC6AD47C,
    0xD92F3E56, 0x34373B37, 0x26B241BD, 0xDA2F8CA1]"

lemma abc_code_expand: "sha1_expand [0x61626380, 0x80808080, 0x80808080, 0x80808080, 0x80808080, 0x80808080, 0x80808080, 0x80808080,
    0x80808080, 0x80808080, 0x80808080, 0x80808080, 0x80808080, 0x80808080, 0x18, 0]
  = abc_code0 @ abc_code1 @ abc_code2 @ abc_code3"
  by (simp add: sha1_expand_def rol32_def sha1_upt abc_code0_def abc_code1_def abc_code2_def abc_code3_def)

lemma abc_code_rounds0: "foldl sha1_round (0x67452301, 0xEFCDAB89, 0x98BADCFE, 0x10325476, 0xC3D2E1F0) (zip [0..<20] abc_code0)
  = (0x763B1DE3, 0xE07CF52A, 0x947277B8, 0x3568FAC5, 0x3C046C0E)"
  by (simp add: sha1_round_def sha1_f_def rol32_def abc_code0_def sha1_upt)

lemma abc_code_rounds1: "foldl sha1_round (0x763B1DE3, 0xE07CF52A, 0x947277B8, 0x3568FAC5, 0x3C046C0E) (zip [20..<40] abc_code1)
  = (0x482E3CBD, 0xB4CEC4D, 0xE00B5DBC, 0xCD2B52AF, 0xF56402A9)"
  by (simp add: sha1_round_def sha1_f_def rol32_def abc_code1_def)

lemma abc_code_rounds2: "foldl sha1_round (0x482E3CBD, 0xB4CEC4D, 0xE00B5DBC, 0xCD2B52AF, 0xF56402A9) (zip [40..<60] abc_code2)
  = (0xC8496055, 0xAC272889, 0xA308D1CA, 0xD0F05339, 0x788B009A)"
  by (simp add: sha1_round_def sha1_f_def rol32_def abc_code2_def)

lemma abc_code_rounds3: "foldl sha1_round (0xC8496055, 0xAC272889, 0xA308D1CA, 0xD0F05339, 0x788B009A) (zip [60..<80] abc_code3)
  = (0xE1477D81, 0xF9DB77DE, 0xC70C5AB5, 0x9F4A4104, 0xDCE6412D)"
  by (simp add: sha1_round_def sha1_f_def rol32_def abc_code3_def)

lemma abc_code_block: "sha1_compress sha1_h0 [0x61626380, 0x80808080, 0x80808080, 0x80808080, 0x80808080, 0x80808080, 0x80808080, 0x80808080,
    0x80808080, 0x80808080, 0x80808080, 0x80808080, 0x80808080, 0x80808080, 0x18, 0]
  = [0x488CA082, 0xE9A92367, 0x5FC737B3, 0xAF7C957A, 0xA0B9231D]"
proof -
  have h: "(sha1_h0 ! 0, sha1_h0 ! 1, sha1_h0 ! 2, sha1_h0 ! 3, sha1_h0 ! 4) = (0x67452301, 0xEFCDAB89, 0x98BADCFE, 0x10325476, 0xC3D2E1F0)"
    by (simp add: sha1_h0_def)
  have z: "zip [0..<80] (abc_code0 @ abc_code1 @ abc_code2 @ abc_code3) = zip [0..<20] abc_code0 @ zip [20..<40] abc_code1 @ zip [40..<60] abc_code2 @ zip [60..<80] abc_code3"
    by (simp add: abc_code0_def abc_code1_def abc_code2_def abc_code3_def sha1_upt)
  show ?thesis
    unfolding sha1_compress_def abc_code_expand h z foldl_append abc_code_rounds0 abc_code_rounds1 abc_code_rounds2 abc_code_rounds3 split_conv by (simp add: sha1_h0_def)
qed

definition abc_standard0 :: "u32 list" where
  "abc_standard0 = [0x61626380, 0, 0, 0, 0, 0, 0, 0, 0, 0, 0, 0, 0, 0, 0, 0x18, 0xC2C4C700, 0, 0x30, 0x85898E01]"

definition abc_standard1 :: "u32 list" where
  "abc_standard1 = [0, 0x60, 0xB131C03, 0x30, 0x85898EC1, 0x16263806, 0, 0x180, 0x2C4C700C, 0xF0, 0x93AFB507,
    0x5898E048, 0x8E9A9202, 0x600, 0xB131C0F0, 0x16263BC6, 0x4EBED41E, 0x626380A1, 0x16263806, 0x18C0]"

definition abc_standard2 :: "u32 list" where
  "abc_standard2 = [0xD2E138C4, 0xF00, 0x3AFB5079, 0x898E04E5, 0xE2BA3C2B, 0x60C0, 0x53A37CD, 0x74458547, 0xDA9415ED,
    0x26380A16, 0x626383A1, 0x4EBF54DE, 0x3835B44B, 0xF600, 0x1E84C7A3, 0x98E04D98, 0x651D16A0,
    0x62658CA1, 0x458544D6, 0x44584CB7]"

definition abc_standard3 :: "u32 list" where
  "abc_standard3 = [0x7BA06619, 0x6380AEA2, 0xAE55269, 0x627B49A1, 0x7CD45C9D, 0xF0000, 0xFB50753A, 0xEC6765E8,
    0xBA3C2BE2, 0x60C000, 0x3A37CD05, 0x458546F4, 0xB8599DD6, 0x380A1A26, 0x1E02203, 0xE7CC3456,
    0xE6E60B69, 0xF60A00, 0x5795EF4F, 0x822E0879]"

lemma abc_standard_expand: "sha1_expand [0x61626380, 0, 0, 0, 0, 0, 0, 0, 0, 0, 0, 0, 0, 0, 0, 0x18]
  = abc_standard0 @ abc_standard1 @ abc_standard2 @ abc_standard3"
  by (simp add: sha1_expand_def rol32_def sha1_upt abc_standard0_def abc_standard1_def abc_standard2_def abc_standard3_def)

lemma abc_standard_rounds0: "foldl sha1_round (0x67452301, 0xEFCDAB89, 0x98BADCFE, 0x10325476, 0xC3D2E1F0) (zip [0..<20] abc_standard0)
  = (0xFD9E1D7D, 0xDC64901D, 0x20AA99CA, 0xD3A49608, 0xC82F758B)"
  by (simp add: sha1_round_def sha1_f_def rol32_def abc_standard0_def sha1_upt)

lemma abc_standard_rounds1: "foldl sha1_round (0xFD9E1D7D, 0xDC64901D, 0x20AA99CA, 0xD3A49608, 0xC82F758B) (zip [20..<40] abc_standard1)
  = (0x32DE1CBA, 0x4C986405, 0xF718E5CF, 0x3D447F6, 0xF72EEC32)"
  by (simp add: sha1_round_def sha1_f_def rol32_def abc_standard1_def)

lemma abc_standard_rounds2: "foldl sha1_round (0x32DE1CBA, 0x4C986405, 0xF718E5CF, 0x3D447F6, 0xF72EEC32) (zip [40..<60] abc_standard2)
  = (0x3F52DE5A, 0x9D785FD, 0x3498BFD4, 0xF211824F, 0xD79915AB)"
  by (simp add: sha1_round_def sha1_f_def rol32_def abc_standard2_def)

lemma abc_standard_rounds3: "foldl sha1_round (0x3F52DE5A, 0x9D785FD, 0x3498BFD4, 0xF211824F, 0xD79915AB) (zip [60..<80] abc_standard3)
  = (0x42541B35, 0x5738D5E1, 0x21834873, 0x681E6DF6, 0xD8FDF6AD)"
  by (simp add: sha1_round_def sha1_f_def rol32_def abc_standard3_def)

lemma abc_standard_block: "sha1_compress sha1_h0 [0x61626380, 0, 0, 0, 0, 0, 0, 0, 0, 0, 0, 0, 0, 0, 0, 0x18]
  = [0xA9993E36, 0x4706816A, 0xBA3E2571, 0x7850C26C, 0x9CD0D89D]"
proof -
  have h: "(sha1_h0 ! 0, sha1_h0 ! 1, sha1_h0 ! 2, sha1_h0 ! 3, sha1_h0 ! 4) = (0x67452301, 0xEFCDAB89, 0x98BADCFE, 0x10325476, 0xC3D2E1F0)"
    by (simp add: sha1_h0_def)
  have z: "zip [0..<80] (abc_standard0 @ abc_standard1 @ abc_standard2 @ abc_standard3) = zip [0..<20] abc_standard0 @ zip [20..<40] abc_standard1 @ zip [40..<60] abc_standard2 @ zip [60..<80] abc_standard3"
    by (simp add: abc_standard0_def abc_standard1_def abc_standard2_def abc_standard3_def sha1_upt)
  show ?thesis
    unfolding sha1_compress_def abc_standard_expand h z foldl_append abc_standard_rounds0 abc_standard_rounds1 abc_standard_rounds2 abc_standard_rounds3 split_conv by (simp add: sha1_h0_def)
qed

definition abc_block :: "u8 \<Rightarrow> bytes \<Rightarrow> bytes" where
  "abc_block filler n = [0x61, 0x62, 0x63, 0x80] @ replicate 52 filler @ n"

lemma abc_words:
  "sha1_words (abc_block 0x80 (put_be32 24 @ put_be32 0)) = [0x61626380, 0x80808080, 0x80808080, 0x80808080, 0x80808080,
     0x80808080, 0x80808080, 0x80808080, 0x80808080, 0x80808080, 0x80808080, 0x80808080, 0x80808080, 0x80808080, 24, 0]"
  "sha1_words (abc_block 0 (put_be32 0 @ put_be32 24)) = [0x61626380, 0, 0, 0, 0, 0, 0, 0, 0, 0, 0, 0, 0, 0, 0, 24]"
  by (simp_all add: sha1_words_def abc_block_def put_be32_def be32_def upt_conv_Cons nth_append)

lemma abc_hash: "length n = 8 \<Longrightarrow> sha1_of_blocks (abc_block x n)
    = concat (map put_be32 (sha1_compress sha1_h0 (sha1_words (abc_block x n))))"
proof -
  assume "length n = 8"
  then have "length (abc_block x n) = 64" by (simp add: abc_block_def)
  then have "hash_blocks sha1_transform sha1_h0 (abc_block x n @ []) = (sha1_transform sha1_h0 (abc_block x n), [])"
    by (subst blocks_full) (simp_all add: hash_blocks.simps)
  then show ?thesis by (simp add: sha1_of_blocks_def sha1_transform_def)
qed

lemma sha1_digest_witness:
  "zms_sha1_final (foldl zms_sha1_update (zms_sha1_init (replicate 64 0)) [[0x61], [0x62, 0x63]])
     = [0x48, 0x8C, 0xA0, 0x82, 0xE9, 0xA9, 0x23, 0x67, 0x5F, 0xC7, 0x37, 0xB3, 0xAF, 0x7C, 0x95, 0x7A, 0xA0, 0xB9, 0x23, 0x1D]
   \<and> sha1_standard [0x61, 0x62, 0x63]
     = [0xA9, 0x99, 0x3E, 0x36, 0x47, 0x06, 0x81, 0x6A, 0xBA, 0x3E, 0x25, 0x71, 0x78, 0x50, 0xC2, 0x6C, 0x9C, 0xD0, 0xD8, 0x9D]"
proof
  have l: "length (put_be32 a @ put_be32 b) = 8" for a b by simp
  have f: "sha1_filler 3 = 52" "sha1_filler (Suc (Suc (Suc 0))) = 52" by (simp_all add: sha1_filler_def)
  have "zms_sha1_final (foldl zms_sha1_update (zms_sha1_init (replicate 64 0)) [[0x61], [0x62, 0x63]])
      = sha1_of_blocks (abc_block 0x80 (put_be32 24 @ put_be32 0))"
    using sha1_digest[of "replicate 64 0" "[[0x61], [0x62, 0x63]]"] f by (simp add: Let_def abc_block_def)
  also have "\<dots> = concat (map put_be32 [0x488CA082, 0xE9A92367, 0x5FC737B3, 0xAF7C957A, 0xA0B9231D])"
    unfolding abc_hash[OF l] abc_words abc_code_block ..
  also have "\<dots> = [0x48, 0x8C, 0xA0, 0x82, 0xE9, 0xA9, 0x23, 0x67, 0x5F, 0xC7, 0x37, 0xB3, 0xAF, 0x7C, 0x95, 0x7A, 0xA0, 0xB9, 0x23, 0x1D]"
    by (simp add: put_be32_def)
  finally show "zms_sha1_final (foldl zms_sha1_update (zms_sha1_init (replicate 64 0)) [[0x61], [0x62, 0x63]])
     = [0x48, 0x8C, 0xA0, 0x82, 0xE9, 0xA9, 0x23, 0x67, 0x5F, 0xC7, 0x37, 0xB3, 0xAF, 0x7C, 0x95, 0x7A, 0xA0, 0xB9, 0x23, 0x1D]" .
  have "sha1_standard [0x61, 0x62, 0x63] = sha1_of_blocks (abc_block 0 (put_be32 0 @ put_be32 24))"
    using f by (simp add: sha1_standard_def abc_block_def)
  also have "\<dots> = concat (map put_be32 [0xA9993E36, 0x4706816A, 0xBA3E2571, 0x7850C26C, 0x9CD0D89D])"
    unfolding abc_hash[OF l] abc_words abc_standard_block ..
  also have "\<dots> = [0xA9, 0x99, 0x3E, 0x36, 0x47, 0x06, 0x81, 0x6A, 0xBA, 0x3E, 0x25, 0x71, 0x78, 0x50, 0xC2, 0x6C, 0x9C, 0xD0, 0xD8, 0x9D]"
    by (simp add: put_be32_def)
  finally show "sha1_standard [0x61, 0x62, 0x63]
     = [0xA9, 0x99, 0x3E, 0x36, 0x47, 0x06, 0x81, 0x6A, 0xBA, 0x3E, 0x25, 0x71, 0x78, 0x50, 0xC2, 0x6C, 0x9C, 0xD0, 0xD8, 0x9D]" .
qed

end
