(* ===== verification/Md5.thy ===== *)
theory Md5
  imports Block_Hash C_String
begin

text \<open>
  \<open>util/crypto/md5.c\<close>, the digest of RTSP authentication. The buffer of the local context is not
  initialised; \<open>junk\<close> is what it held. The steps of the transformation are a table: the code writes
  them out with the four variables in rotating roles.
\<close>

unbundle bit_operations_syntax

section \<open>The transformation\<close>

definition zms_md5_f :: "u32 \<Rightarrow> u32 \<Rightarrow> u32 \<Rightarrow> u32" where "zms_md5_f x y z = (x AND y) OR (NOT x AND z)"
definition zms_md5_g :: "u32 \<Rightarrow> u32 \<Rightarrow> u32 \<Rightarrow> u32" where "zms_md5_g x y z = (x AND z) OR (y AND NOT z)"
definition zms_md5_h :: "u32 \<Rightarrow> u32 \<Rightarrow> u32 \<Rightarrow> u32" where "zms_md5_h x y z = x XOR y XOR z"
definition zms_md5_i :: "u32 \<Rightarrow> u32 \<Rightarrow> u32 \<Rightarrow> u32" where "zms_md5_i x y z = y XOR (x OR NOT z)"

definition md5_decode :: "bytes \<Rightarrow> u32 list" where
  "md5_decode block = map (\<lambda>i. le32 block (4 * i)) [0..<16]"

definition md5_step :: "u32 \<Rightarrow> u32 \<Rightarrow> u32 \<Rightarrow> u32 \<Rightarrow> u32 \<Rightarrow> nat \<Rightarrow> u32 \<Rightarrow> (u32 \<Rightarrow> u32 \<Rightarrow> u32 \<Rightarrow> u32) \<Rightarrow> u32" where
  "md5_step a b c d k s t fn = rol32 (a + (fn b c d + k + t)) s + b"

definition md5_round1 :: "((u32 \<Rightarrow> u32 \<Rightarrow> u32 \<Rightarrow> u32) \<times> nat \<times> nat \<times> u32) list" where
  "md5_round1 =
    [(zms_md5_f, 0, 7, 0xd76aa478), (zms_md5_f, 1, 12, 0xe8c7b756), (zms_md5_f, 2, 17, 0x242070db), (zms_md5_f, 3, 22, 0xc1bdceee),
     (zms_md5_f, 4, 7, 0xf57c0faf), (zms_md5_f, 5, 12, 0x4787c62a), (zms_md5_f, 6, 17, 0xa8304613), (zms_md5_f, 7, 22, 0xfd469501),
     (zms_md5_f, 8, 7, 0x698098d8), (zms_md5_f, 9, 12, 0x8b44f7af), (zms_md5_f, 10, 17, 0xffff5bb1), (zms_md5_f, 11, 22, 0x895cd7be),
     (zms_md5_f, 12, 7, 0x6b901122), (zms_md5_f, 13, 12, 0xfd987193), (zms_md5_f, 14, 17, 0xa679438e), (zms_md5_f, 15, 22, 0x49b40821)]"

definition md5_round2 :: "((u32 \<Rightarrow> u32 \<Rightarrow> u32 \<Rightarrow> u32) \<times> nat \<times> nat \<times> u32) list" where
  "md5_round2 =
    [(zms_md5_g, 1, 5, 0xf61e2562), (zms_md5_g, 6, 9, 0xc040b340), (zms_md5_g, 11, 14, 0x265e5a51), (zms_md5_g, 0, 20, 0xe9b6c7aa),
     (zms_md5_g, 5, 5, 0xd62f105d), (zms_md5_g, 10, 9, 0x02441453), (zms_md5_g, 15, 14, 0xd8a1e681), (zms_md5_g, 4, 20, 0xe7d3fbc8),
     (zms_md5_g, 9, 5, 0x21e1cde6), (zms_md5_g, 14, 9, 0xc33707d6), (zms_md5_g, 3, 14, 0xf4d50d87), (zms_md5_g, 8, 20, 0x455a14ed),
     (zms_md5_g, 13, 5, 0xa9e3e905), (zms_md5_g, 2, 9, 0xfcefa3f8), (zms_md5_g, 7, 14, 0x676f02d9), (zms_md5_g, 12, 20, 0x8d2a4c8a)]"

definition md5_round3 :: "((u32 \<Rightarrow> u32 \<Rightarrow> u32 \<Rightarrow> u32) \<times> nat \<times> nat \<times> u32) list" where
  "md5_round3 =
    [(zms_md5_h, 5, 4, 0xfffa3942), (zms_md5_h, 8, 11, 0x8771f681), (zms_md5_h, 11, 16, 0x6d9d6122), (zms_md5_h, 14, 23, 0xfde5380c),
     (zms_md5_h, 1, 4, 0xa4beea44), (zms_md5_h, 4, 11, 0x4bdecfa9), (zms_md5_h, 7, 16, 0xf6bb4b60), (zms_md5_h, 10, 23, 0xbebfbc70),
     (zms_md5_h, 13, 4, 0x289b7ec6), (zms_md5_h, 0, 11, 0xeaa127fa), (zms_md5_h, 3, 16, 0xd4ef3085), (zms_md5_h, 6, 23, 0x04881d05),
     (zms_md5_h, 9, 4, 0xd9d4d039), (zms_md5_h, 12, 11, 0xe6db99e5), (zms_md5_h, 15, 16, 0x1fa27cf8), (zms_md5_h, 2, 23, 0xc4ac5665)]"

definition md5_round4 :: "((u32 \<Rightarrow> u32 \<Rightarrow> u32 \<Rightarrow> u32) \<times> nat \<times> nat \<times> u32) list" where
  "md5_round4 =
    [(zms_md5_i, 0, 6, 0xf4292244), (zms_md5_i, 7, 10, 0x432aff97), (zms_md5_i, 14, 15, 0xab9423a7), (zms_md5_i, 5, 21, 0xfc93a039),
     (zms_md5_i, 12, 6, 0x655b59c3), (zms_md5_i, 3, 10, 0x8f0ccc92), (zms_md5_i, 10, 15, 0xffeff47d), (zms_md5_i, 1, 21, 0x85845dd1),
     (zms_md5_i, 8, 6, 0x6fa87e4f), (zms_md5_i, 15, 10, 0xfe2ce6e0), (zms_md5_i, 6, 15, 0xa3014314), (zms_md5_i, 13, 21, 0x4e0811a1),
     (zms_md5_i, 4, 6, 0xf7537e82), (zms_md5_i, 11, 10, 0xbd3af235), (zms_md5_i, 2, 15, 0x2ad7d2bb), (zms_md5_i, 9, 21, 0xeb86d391)]"

definition md5_table :: "((u32 \<Rightarrow> u32 \<Rightarrow> u32 \<Rightarrow> u32) \<times> nat \<times> nat \<times> u32) list" where
  "md5_table = md5_round1 @ md5_round2 @ md5_round3 @ md5_round4"

text \<open>After a step the variables change roles: \<open>d\<close> is the next to be assigned.\<close>

definition md5_turn :: "u32 list \<Rightarrow> u32 \<times> u32 \<times> u32 \<times> u32 \<Rightarrow> (u32 \<Rightarrow> u32 \<Rightarrow> u32 \<Rightarrow> u32) \<times> nat \<times> nat \<times> u32
    \<Rightarrow> u32 \<times> u32 \<times> u32 \<times> u32" where
  "md5_turn blk = (\<lambda>(a, b, c, d) (fn, k, s, t). (d, md5_step a b c d (blk ! k) s t fn, b, c))"

definition md5_transform :: "u32 list \<Rightarrow> bytes \<Rightarrow> u32 list" where
  "md5_transform st block =
     (case foldl (md5_turn (md5_decode block)) (st ! 0, st ! 1, st ! 2, st ! 3) md5_table of
        (a, b, c, d) \<Rightarrow> [st ! 0 + a, st ! 1 + b, st ! 2 + c, st ! 3 + d])"

section \<open>The context\<close>

definition md5_h0 :: "u32 list" where "md5_h0 = [0x67452301, 0xefcdab89, 0x98badcfe, 0x10325476]"

definition md5_init :: "bytes \<Rightarrow> hash_ctx" where
  "md5_init junk = \<lparr>h_state = md5_h0, h_count0 = 0, h_count1 = 0, h_buffer = junk\<rparr>"

definition md5_update :: "hash_ctx \<Rightarrow> bytes \<Rightarrow> hash_ctx" where
  "md5_update = hash_update md5_transform"

definition put_le32 :: "u32 \<Rightarrow> bytes" where
  "put_le32 v = [ucast v, ucast (drop_bit 8 v), ucast (drop_bit 16 v), ucast (drop_bit 24 v)]"

definition md5_pad_len :: "nat \<Rightarrow> nat" where "md5_pad_len i = (if i < 56 then 56 - i else 120 - i)"

definition md5_final :: "hash_ctx \<Rightarrow> bytes" where
  "md5_final c =
     (let pad = take (md5_pad_len (hash_idx (h_count0 c))) (0x80 # replicate 63 0);
          bits = put_le32 (h_count0 c) @ put_le32 (h_count1 c);
          c1 = md5_update (md5_update c pad) bits
      in concat (map put_le32 (h_state c1)))"

definition zms_md5 :: "bytes \<Rightarrow> bytes \<Rightarrow> bytes" where
  "zms_md5 junk d = md5_final (if d \<noteq> [] then md5_update (md5_init junk) d else md5_init junk)"

definition md5_hex_digit :: "u8 \<Rightarrow> u8" where "md5_hex_digit x = (if x < 10 then 48 + x else 87 + x)"

definition zms_md5_hex :: "bytes \<Rightarrow> bytes \<Rightarrow> bytes" where
  "zms_md5_hex junk d = concat (map (\<lambda>x. [md5_hex_digit (drop_bit 4 x), md5_hex_digit (x AND 15)]) (zms_md5 junk d))"

definition zms_md5_hex_str :: "bytes \<Rightarrow> bytes \<Rightarrow> bytes" where
  "zms_md5_hex_str junk s = zms_md5_hex junk (cstr s)"

section \<open>The digest of the standard\<close>

definition md5_standard :: "bytes \<Rightarrow> bytes" where
  "md5_standard m = concat (map put_le32 (fst (hash_blocks md5_transform md5_h0
     (m @ [0x80] @ replicate (md5_pad_len (length m mod 64) - 1) 0
        @ put_le32 (of_nat (8 * length m)) @ put_le32 (of_nat (8 * length m div 2 ^ 32))))))"

lemma length_put_le32 [simp]: "length (put_le32 v) = 4" by (simp add: put_le32_def)

lemma md5_init_rep: "length junk = 64 \<Longrightarrow> hash_rep md5_transform md5_h0 (md5_init junk) []"
  by (simp add: hash_rep_def md5_init_def hash_blocks.simps)

lemma pad_bytes: "1 \<le> n \<Longrightarrow> n \<le> 64 \<Longrightarrow> take n (0x80 # replicate 63 0) = [0x80 :: u8] @ replicate (n - 1) 0"
  by (cases n) (auto simp: min_def)

lemma md5_pad_ok: "i < 64 \<Longrightarrow> 1 \<le> md5_pad_len i \<and> md5_pad_len i \<le> 64 \<and> (i + md5_pad_len i + 8) mod 64 = 0"
proof -
  have "\<forall>k \<in> set [0..<64]. 1 \<le> md5_pad_len k \<and> md5_pad_len k \<le> 64 \<and> (k + md5_pad_len k + 8) mod 64 = 0" by code_simp
  then show "i < 64 \<Longrightarrow> 1 \<le> md5_pad_len i \<and> md5_pad_len i \<le> 64 \<and> (i + md5_pad_len i + 8) mod 64 = 0" by simp
qed

text \<open>
  C7: The digest is that of the standard's padding: 0x80, zeros up to 56 bytes of a block, the bit
  count little-endian; what the context held before does not matter.
\<close>

theorem md5_padded:
  assumes "length junk = 64" shows "zms_md5 junk m = md5_standard m"
proof -
  let ?rep = "hash_rep md5_transform md5_h0"
  define c where "c = (if m \<noteq> [] then md5_update (md5_init junk) m else md5_init junk)"
  have c: "?rep c m"
    using hash_update_rep[OF md5_init_rep[OF assms], of m] md5_init_rep[OF assms] by (auto simp: c_def md5_update_def)
  let ?n = "put_le32 (of_nat (8 * length m)) @ put_le32 (of_nat (8 * length m div 2 ^ 32))"
  have n: "put_le32 (h_count0 c) @ put_le32 (h_count1 c) = ?n" using c by (simp add: hash_rep_def)
  have k: "1 \<le> md5_pad_len (length m mod 64)" "md5_pad_len (length m mod 64) \<le> 64"
    "(length m mod 64 + md5_pad_len (length m mod 64) + 8) mod 64 = 0"
    using md5_pad_ok[of "length m mod 64"] by simp_all
  let ?p = "[0x80] @ replicate (md5_pad_len (length m mod 64) - 1) 0"
  have f: "?rep (md5_update (md5_update c ?p) ?n) ((m @ ?p) @ ?n)"
    unfolding md5_update_def by (intro hash_update_rep c)
  have "length ((m @ ?p) @ ?n) = length m + md5_pad_len (length m mod 64) + 8" using k(1) by simp
  then have "64 dvd length ((m @ ?p) @ ?n)"
    using k(3) unfolding dvd_eq_mod_eq_0 by (simp only: add.assoc mod_add_left_eq)
  from rep_blocks[OF f this] show ?thesis
    unfolding zms_md5_def c_def[symmetric] md5_final_def Let_def rep_idx[OF c] pad_bytes[OF k(1,2)] n md5_standard_def
    by simp
qed

text \<open>The first 64 bytes of the padded message \<open>abc\<close>, round by round.\<close>

lemma abc_round1: "foldl (md5_turn [0x80636261, 0, 0, 0, 0, 0, 0, 0, 0, 0, 0, 0, 0, 0, 24, 0])
    (0x67452301, 0xEFCDAB89, 0x98BADCFE, 0x10325476) md5_round1
  = (0xDDA9B9A6, 0x72AFF2E0, 0xE396856B, 0xA1051895)"
  by (simp add: md5_round1_def md5_turn_def md5_step_def rol32_def zms_md5_f_def)

lemma abc_round2: "foldl (md5_turn [0x80636261, 0, 0, 0, 0, 0, 0, 0, 0, 0, 0, 0, 0, 0, 24, 0])
    (0xDDA9B9A6, 0x72AFF2E0, 0xE396856B, 0xA1051895) md5_round2
  = (0x790A77FB, 0x726342D3, 0xA62884AA, 0x9F47E4F8)"
  by (simp add: md5_round2_def md5_turn_def md5_step_def rol32_def zms_md5_g_def)

lemma abc_round3: "foldl (md5_turn [0x80636261, 0, 0, 0, 0, 0, 0, 0, 0, 0, 0, 0, 0, 0, 24, 0])
    (0x790A77FB, 0x726342D3, 0xA62884AA, 0x9F47E4F8) md5_round3
  = (0x7F2E507B, 0x7BEB9700, 0x8FAE6399, 0x99D9679D)"
  by (simp add: md5_round3_def md5_turn_def md5_step_def rol32_def zms_md5_h_def)

lemma abc_round4: "foldl (md5_turn [0x80636261, 0, 0, 0, 0, 0, 0, 0, 0, 0, 0, 0, 0, 0, 24, 0])
    (0x7F2E507B, 0x7BEB9700, 0x8FAE6399, 0x99D9679D) md5_round4
  = (0x310ADE8F, 0xC08226B3, 0xE484B9D8, 0x624D8CB2)"
  by (simp add: md5_round4_def md5_turn_def md5_step_def rol32_def zms_md5_i_def)

lemma md5_abc: "md5_standard [0x61, 0x62, 0x63]
  = [0x90, 0x01, 0x50, 0x98, 0x3c, 0xd2, 0x4f, 0xb0, 0xd6, 0x96, 0x3f, 0x7d, 0x28, 0xe1, 0x7f, 0x72]"
proof -
  let ?b = "[0x61, 0x62, 0x63, 0x80] @ replicate 52 0 @ [24, 0, 0, 0, 0, 0, 0, 0] :: bytes"
  have d: "md5_decode ?b = [0x80636261, 0, 0, 0, 0, 0, 0, 0, 0, 0, 0, 0, 0, 0, 24, 0]"
    by (simp add: md5_decode_def le32_def upt_conv_Cons nth_append)
  have h: "(md5_h0 ! 0, md5_h0 ! 1, md5_h0 ! 2, md5_h0 ! 3) = (0x67452301, 0xEFCDAB89, 0x98BADCFE, 0x10325476)"
    by (simp add: md5_h0_def)
  have t: "md5_transform md5_h0 ?b = [0x98500190, 0xb04fd23c, 0x7d3f96d6, 0x727fe128]"
    unfolding md5_transform_def d md5_table_def foldl_append h abc_round1 abc_round2 abc_round3 abc_round4 split_conv
    by (simp add: md5_h0_def)
  have "length ?b = 64" by simp
  then have "hash_blocks md5_transform md5_h0 (?b @ []) = (md5_transform md5_h0 ?b, [])"
    by (subst blocks_full) (simp_all add: hash_blocks.simps)
  then show ?thesis unfolding t by (simp add: md5_standard_def md5_pad_len_def put_le32_def)
qed

lemma md5_padded_witness: "zms_md5 (replicate 64 7) [0x61, 0x62, 0x63]
  = [0x90, 0x01, 0x50, 0x98, 0x3c, 0xd2, 0x4f, 0xb0, 0xd6, 0x96, 0x3f, 0x7d, 0x28, 0xe1, 0x7f, 0x72]"
  using md5_padded[of "replicate 64 7" "[0x61, 0x62, 0x63]"] md5_abc by simp

end
