(* ===== verification/Rtsp_Auth.thy ===== *)
theory Rtsp_Auth
  imports Md5 Rtsp_Parser
begin

text \<open>
  RTSP digest authentication: \<open>session/rtsp/rtsp_digest.c\<close> (both sides) and the check of
  \<open>session/rtsp/rtsp_session_auth.c\<close>. \<open>junk\<close> is what the stack held where the digest keeps its
  block; by \<open>md5_padded\<close> it does not matter. The nonce is made of two random numbers, which are
  parameters.
\<close>

datatype zms_rtsp_auth_scheme = ZMS_RTSP_AUTH_NONE | ZMS_RTSP_AUTH_DIGEST | ZMS_RTSP_AUTH_BASIC

section \<open>Header fields\<close>

definition skip_scheme :: "bytes \<Rightarrow> bytes" where
  "skip_scheme hdr =
     (if starts_case (asc ''Digest '') hdr then drop 7 hdr
      else if starts_case (asc ''Basic '') hdr then drop 6 hdr else hdr)"

definition extract_quoted :: "bytes \<Rightarrow> bytes \<Rightarrow> nat \<Rightarrow> bytes option" where
  "extract_quoted hdr key cap =
     (let pat = fit 32 (key @ [61, 34])
      in case strstr hdr pat of
           None \<Rightarrow> None
         | Some i \<Rightarrow>
             let p = drop (i + length pat) hdr
             in case find_char p 34 of None \<Rightarrow> None | Some n \<Rightarrow> Some (fit cap (take n p)))"

text \<open>The scheme, the realm and the nonce; what is not found stays empty.\<close>

definition or_empty :: "bytes option \<Rightarrow> bytes" where "or_empty x = (case x of None \<Rightarrow> [] | Some s \<Rightarrow> s)"

definition zms_rtsp_digest_parse_www_auth :: "bytes \<Rightarrow> nat \<Rightarrow> nat \<Rightarrow> zms_rtsp_auth_scheme \<times> bytes \<times> bytes" where
  "zms_rtsp_digest_parse_www_auth hdr realm_cap nonce_cap =
     (if hdr = [] then (ZMS_RTSP_AUTH_NONE, [], [])
      else if starts_case (asc ''Basic'') hdr
        then (ZMS_RTSP_AUTH_BASIC, or_empty (extract_quoted (skip_scheme hdr) (asc ''realm'') realm_cap), [])
      else let p = skip_scheme hdr
           in if strstr p (asc ''realm='') = None then (ZMS_RTSP_AUTH_NONE, [], [])
              else (ZMS_RTSP_AUTH_DIGEST, or_empty (extract_quoted p (asc ''realm'') realm_cap),
                    if nonce_cap > 0 then or_empty (extract_quoted p (asc ''nonce'') nonce_cap) else []))"

section \<open>The response\<close>

definition md5_join3_hex :: "bytes \<Rightarrow> bytes \<Rightarrow> bytes \<Rightarrow> bytes \<Rightarrow> bytes" where
  "md5_join3_hex junk a b c = zms_md5_hex_str junk (fit 1024 (a @ [58] @ b @ [58] @ c))"

definition md5_method_url_hex :: "bytes \<Rightarrow> bytes \<Rightarrow> bytes \<Rightarrow> bytes" where
  "md5_method_url_hex junk m url = zms_md5_hex_str junk (fit 1024 (m @ [58] @ url))"

definition digest_response :: "bytes \<Rightarrow> bytes \<Rightarrow> bytes \<Rightarrow> bytes \<Rightarrow> bytes \<Rightarrow> bytes \<Rightarrow> bytes \<Rightarrow> bytes" where
  "digest_response junk m url user pass realm nonce =
     md5_join3_hex junk (md5_join3_hex junk user realm pass) nonce (md5_method_url_hex junk m url)"

definition digest_fields :: "bytes \<Rightarrow> bytes \<Rightarrow> bytes \<Rightarrow> bytes \<Rightarrow> bytes \<Rightarrow> bytes" where
  "digest_fields user realm nonce url resp =
     asc ''username='' @ [34] @ user @ [34] @ asc '', realm='' @ [34] @ realm @ [34] @ asc '', nonce='' @ [34] @ nonce @ [34]
     @ asc '', uri='' @ [34] @ url @ [34] @ asc '', response='' @ [34] @ resp @ [34]"

definition zms_rtsp_digest_build_authorization ::
  "bytes \<Rightarrow> bytes \<Rightarrow> bytes \<Rightarrow> bytes \<Rightarrow> bytes \<Rightarrow> bytes \<Rightarrow> bytes \<Rightarrow> nat \<Rightarrow> bytes option" where
  "zms_rtsp_digest_build_authorization junk m url user pass realm nonce out_cap =
     (if out_cap < 64 then None
      else let t = asc ''Authorization: Digest '' @ digest_fields user realm nonce url
                     (digest_response junk m url user pass realm nonce) @ [13, 10]
           in if length t < out_cap then Some t else None)"

definition parse_digest_auth :: "bytes \<Rightarrow> nat \<Rightarrow> nat \<Rightarrow> (bytes \<times> bytes) option" where
  "parse_digest_auth auth user_cap resp_cap =
     (if \<not> starts_case (asc ''Digest '') auth then None
      else case extract_quoted (drop 7 auth) (asc ''username'') user_cap of
        None \<Rightarrow> None
      | Some u \<Rightarrow> map_option (Pair u) (extract_quoted (drop 7 auth) (asc ''response'') resp_cap))"

text \<open>Basic authentication is a stub that refuses everything.\<close>

definition parse_basic_auth :: "bytes \<Rightarrow> (bytes \<times> bytes) option" where
  "parse_basic_auth auth = None"

definition zms_rtsp_digest_verify :: "bytes \<Rightarrow> bytes \<Rightarrow> bytes \<Rightarrow> bytes \<Rightarrow> bytes \<Rightarrow> bytes \<Rightarrow> bytes \<Rightarrow> bytes \<Rightarrow> bool" where
  "zms_rtsp_digest_verify junk m url user pass realm nonce authorization =
     (if \<not> starts_case (asc ''Digest '') authorization then False
      else case parse_digest_auth authorization 128 33 of
        None \<Rightarrow> False
      | Some (u, got) \<Rightarrow> u = user \<and> got = digest_response junk m url user pass realm nonce)"

section \<open>The check of a session\<close>

record rtsp_auth_conf =
  g_auth_user :: bytes
  g_auth_pass :: bytes
  g_test_reject_tcp :: bool

definition zms_rtsp_auth_configure :: "rtsp_auth_conf \<Rightarrow> bytes \<Rightarrow> bytes \<Rightarrow> rtsp_auth_conf" where
  "zms_rtsp_auth_configure g user pass = g\<lparr>g_auth_user := fit 64 user, g_auth_pass := fit 128 pass\<rparr>"

definition zms_rtsp_set_test_reject_tcp_setup :: "rtsp_auth_conf \<Rightarrow> bool \<Rightarrow> rtsp_auth_conf" where
  "zms_rtsp_set_test_reject_tcp_setup g on = g\<lparr>g_test_reject_tcp := on\<rparr>"

definition zms_rtsp_auth_enabled :: "rtsp_auth_conf \<Rightarrow> bool" where
  "zms_rtsp_auth_enabled g \<longleftrightarrow> g_auth_user g \<noteq> [] \<and> g_auth_pass g \<noteq> []"

record rtsp_auth_session =
  ra_auth_ok :: bool
  ra_auth_nonce :: bytes

definition hex8 :: "u32 \<Rightarrow> bytes" where
  "hex8 v = map (\<lambda>i. md5_hex_digit (ucast (drop_bit (28 - 4 * i) v AND 15))) [0..<8]"

datatype rtsp_reply = Rtsp_Reply nat bytes bytes

definition method_name :: "zms_rtsp_method \<Rightarrow> bytes" where
  "method_name m = (case map_of method_names m of None \<Rightarrow> asc ''OPTIONS'' | Some n \<Rightarrow> n)"

definition zms_rtsp_auth_check :: "bytes \<Rightarrow> u32 \<times> u32 \<Rightarrow> rtsp_auth_conf \<Rightarrow> rtsp_auth_session \<Rightarrow> zms_rtsp_message
    \<Rightarrow> bool \<times> rtsp_auth_session \<times> rtsp_reply list" where
  "zms_rtsp_auth_check junk rnd g rs msg =
     (if \<not> zms_rtsp_auth_enabled g then (True, rs, [])
      else if ra_auth_ok rs then (True, rs, [])
      else case or_empty (zms_rtsp_message_get msg (asc ''Authorization'')) of
        [] \<Rightarrow> let n = hex8 (fst rnd) @ hex8 (snd rnd)
              in (False, rs\<lparr>ra_auth_nonce := n\<rparr>,
                  [Rtsp_Reply 401 (asc ''Unauthorized'')
                     (asc ''WWW-Authenticate: Digest realm='' @ [34] @ asc ''ZMS'' @ [34] @ asc '', nonce='' @ [34] @ n @ [34, 13, 10])])
      | auth \<Rightarrow>
          if zms_rtsp_digest_verify junk (method_name (rm_method msg)) (rm_url msg) (g_auth_user g) (g_auth_pass g)
               (asc ''ZMS'') (ra_auth_nonce rs) auth
          then (True, rs\<lparr>ra_auth_ok := True\<rparr>, [])
          else (False, rs, [Rtsp_Reply 401 (asc ''Unauthorized'') []]))"

section \<open>What is accepted\<close>

lemma strstr_skip: "\<not> starts_with p (c # s) \<Longrightarrow> strstr (c # s) p = map_option Suc (strstr s p)"
  by simp

text \<open>A pattern with its only quotation mark at the end is found behind text without any, unless it ends there.\<close>

lemma strstr_quote:
  assumes "34 \<notin> set a" "\<not> (\<exists>x. a = x @ key)" "34 \<notin> set key"
  shows "strstr (a @ 34 # r) (key @ [34]) = map_option (\<lambda>i. Suc (length a + i)) (strstr r (key @ [34]))"
  using assms
proof (induction a)
  case Nil
  then have k: "key \<noteq> []" by auto
  then obtain k0 ks where ks: "key = k0 # ks" by (cases key) auto
  have "\<not> starts_with (key @ [34]) (34 # r)" using Nil.prems ks by (auto simp: starts_with_def)
  then show ?case by (simp add: option.map_comp o_def)
next
  case (Cons c a)
  have n: "\<not> starts_with (key @ [34]) ((c # a) @ 34 # r)"
  proof
    assume s: "starts_with (key @ [34]) ((c # a) @ 34 # r)"
    then have t: "take (Suc (length key)) ((c # a) @ 34 # r) = key @ [34]" by (simp add: starts_with_def)
    show False
    proof (cases "length key < length (c # a)")
      case True
      then have "key @ [34] = take (Suc (length key)) (c # a)" using t by simp
      then have "34 \<in> set (take (Suc (length key)) (c # a))" by (metis in_set_conv_decomp)
      then show False using Cons.prems(1) by (meson in_set_takeD)
    next
      case False
      show False
      proof (cases "length key = length (c # a)")
        case True
        then have "key = c # a" using t by simp
        with Cons.prems(2) show False by (metis append_Nil)
      next
        case f2: False
        with False have l: "length (c # a) < length key" by simp
        have "(key @ [34]) ! length (c # a) = 34" using t by (metis nth_append_length nth_take less_SucI l)
        with l have "key ! length (c # a) = 34" by (simp add: nth_append)
        with l Cons.prems(3) show False by (metis nth_mem)
      qed
    qed
  qed
  have "strstr (a @ 34 # r) (key @ [34]) = map_option (\<lambda>i. Suc (length a + i)) (strstr r (key @ [34]))"
    using Cons.prems by (intro Cons.IH) auto
  with n show ?case by (simp add: option.map_comp o_def)
qed

lemma starts_quote:
  assumes "34 \<notin> set a" "34 \<notin> set key"
  shows "starts_with (key @ [34]) (a @ 34 # r) \<longleftrightarrow> a = key"
proof
  let ?h = "a @ 34 # r"
  assume "starts_with (key @ [34]) ?h"
  then have "take (Suc (length key)) ?h = key @ [34]" by (simp add: starts_with_def)
  then have h: "?h = key @ 34 # drop (Suc (length key)) ?h"
    using append_take_drop_id[of "Suc (length key)" ?h] by simp
  have "takeWhile (\<lambda>c. c \<noteq> 34) (t @ 34 # z) = t" if "34 \<notin> set t" for t z :: bytes
    using that by (simp add: takeWhile_tail takeWhile_append)
  from this[OF assms(1), of r] this[OF assms(2), of "drop (Suc (length key)) ?h"] h show "a = key" by metis
qed (simp add: starts_with_def)

lemma strstr_quote_hit:
  assumes "34 \<notin> set x" "34 \<notin> set key" shows "strstr (x @ key @ 34 # r) (key @ [34]) = Some (length x)"
  using assms(1)
proof (induction x)
  case Nil
  have "starts_with (key @ [34]) (key @ 34 # r)" using starts_quote[of key key r] assms(2) by simp
  then show ?case by (cases key) simp_all
next
  case (Cons c x)
  have "\<not> starts_with (key @ [34]) ((c # x @ key) @ 34 # r)"
    using starts_quote[of "c # x @ key" key r] assms(2) Cons.prems by (metis Un_iff append_Cons append_is_Nil_conv
      append_self_conv2 list.distinct(1) set_append)
  with Cons show ?case by simp
qed

text \<open>A text that may stand between quotation marks in front of the field \<open>response\<close>.\<close>

definition quotable :: "bytes \<Rightarrow> bool" where
  "quotable t \<longleftrightarrow> 34 \<notin> set t \<and> \<not> (\<exists>x. t = x @ asc ''response='')"

lemma extract_at:
  assumes "strstr hdr (key @ [61, 34]) = Some n" "length key \<le> 29" "drop (n + length key + 2) hdr = t @ 34 # r" "34 \<notin> set t"
  shows "extract_quoted hdr key cap = Some (fit cap t)"
proof -
  have "fit 32 (key @ [61, 34]) = key @ [61, 34]" using assms(2) by (simp add: fit_def)
  with assms find_char_append[OF assms(4), of r] show ?thesis by (simp add: extract_quoted_def Let_def add.assoc)
qed

lemma strstr_pass:
  "quotable a \<Longrightarrow> strstr (a @ 34 # r) (asc ''response='' @ [34]) = map_option (\<lambda>i. Suc (length a + i)) (strstr r (asc ''response='' @ [34]))"
  unfolding quotable_def by (rule strstr_quote) auto

lemma strstr_fields:
  assumes "quotable a1" "quotable u" "quotable a2" "quotable r" "quotable a3" "quotable n" "quotable a4" "quotable x" "34 \<notin> set b"
  shows "strstr (a1 @ 34 # u @ 34 # a2 @ 34 # r @ 34 # a3 @ 34 # n @ 34 # a4 @ 34 # x @ 34 # b @ asc ''response='' @ 34 # z)
      (asc ''response='' @ [34])
    = Some (length a1 + length u + length a2 + length r + length a3 + length n + length a4 + length x + length b + 8)"
proof -
  have "34 \<notin> set (asc ''response='')" by simp
  from strstr_quote_hit[OF assms(9) this, of z] show ?thesis
    by (simp add: strstr_pass assms(1-8) del: asc_simps)
qed

text \<open>
  What the server reads of an \<open>Authorization\<close> header: the user and the response. The header is
  accepted when they are the configured user and the response for the request and the nonce of the
  session; the realm, the nonce and the address that the header itself names are not looked at.
\<close>

theorem digest_verify_iff:
  assumes "quotable u" "quotable r" "quotable n" "quotable x" "34 \<notin> set d" "length u < 128" "length d < 33"
  shows "zms_rtsp_digest_verify junk m url user pass realm nonce (asc ''Digest '' @ digest_fields u r n x d)
    \<longleftrightarrow> u = user \<and> d = digest_response junk m url user pass realm nonce"
proof -
  let ?h = "digest_fields u r n x d"
  have u: "extract_quoted ?h (asc ''username'') 128 = Some u"
  proof -
    have "strstr ?h (asc ''username'' @ [61, 34]) = Some 0" by (simp add: digest_fields_def starts_with_def)
    from extract_at[OF this, of u "asc '', realm='' @ [34] @ r @ [34] @ asc '', nonce='' @ [34] @ n @ [34]
        @ asc '', uri='' @ [34] @ x @ [34] @ asc '', response='' @ [34] @ d @ [34]" 128] assms(1,6)
    show ?thesis by (simp add: digest_fields_def quotable_def fit_def)
  qed
  have q: "quotable (asc ''username='')" "quotable (asc '', realm='')" "quotable (asc '', nonce='')" "quotable (asc '', uri='')"
    unfolding quotable_def by (auto dest!: arg_cong[where f = "\<lambda>t. take 9 (rev t)"])
  define a where "a = length (asc ''username='') + length u + length (asc '', realm='') + length r
    + length (asc '', nonce='') + length n + length (asc '', uri='') + length x + 8 + 2"
  have "strstr ?h (asc ''response='' @ [34]) = Some a"
    using strstr_fields[OF q(1) assms(1) q(2) assms(2) q(3) assms(3) q(4) assms(4), of "asc '', ''" "d @ [34]"]
    by (simp add: digest_fields_def a_def)
  then have "strstr ?h (asc ''response'' @ [61, 34]) = Some a" by simp
  moreover define pre where "pre = asc ''username='' @ [34] @ u @ [34] @ asc '', realm='' @ [34] @ r @ [34]
    @ asc '', nonce='' @ [34] @ n @ [34] @ asc '', uri='' @ [34] @ x @ [34] @ asc '', response='' @ [34]"
  have "?h = pre @ d @ [34]" by (simp add: digest_fields_def pre_def)
  moreover have "length pre = a + 8 + 2" by (simp add: pre_def a_def)
  ultimately have d: "extract_quoted ?h (asc ''response'') 33 = Some d"
    using extract_at[of ?h "asc ''response''" a d "[]" 33] assms(5,7) by (simp add: fit_def)
  show ?thesis using u d by (simp add: zms_rtsp_digest_verify_def parse_digest_auth_def starts_case_def strcaseeq_def)
qed

lemma md5_blocks_length: "length st = 4 \<Longrightarrow> length (fst (hash_blocks md5_transform st p)) = 4"
proof (induction md5_transform st p rule: hash_blocks.induct)
  case (1 st p)
  have "length (md5_transform st b) = 4" for b by (simp add: md5_transform_def split: prod.splits)
  with 1 show ?case by (subst hash_blocks.simps) simp
qed

lemma hex_digit_no_quote: "unat x < 16 \<Longrightarrow> md5_hex_digit x \<noteq> 34 \<and> md5_hex_digit x \<noteq> 0"
proof (rule nibble_cases[where P = "\<lambda>x. md5_hex_digit x \<noteq> 34 \<and> md5_hex_digit x \<noteq> 0"])
  show "\<forall>n \<in> set [0..<16]. md5_hex_digit (of_nat n) \<noteq> 34 \<and> md5_hex_digit (of_nat n) \<noteq> 0" by code_simp
qed

lemma nibbles: "unat (drop_bit 4 x) < 16" "unat (x AND 15) < 16" for x :: u8
proof -
  have "unat x < 256" using unsigned_less[of x, where ?'a = nat] by simp
  then show "unat (drop_bit 4 x) < 16"
    unfolding unsigned_drop_bit_eq by (simp add: drop_bit_eq_div take_bit_eq_mod)
  have "x AND 15 = take_bit 4 x" by (simp add: take_bit_eq_mask mask_eq_exp_minus_1)
  then show "unat (x AND 15) < 16" by (simp only: unsigned_take_bit_eq) (simp add: take_bit_eq_mod)
qed

lemma digest_hex:
  assumes "length junk = 64" shows "length (zms_md5_hex_str junk t) = 32" "34 \<notin> set (zms_md5_hex_str junk t)"
proof -
  have c: "length (concat (map (\<lambda>x. [f x, g x]) xs)) = 2 * length xs" for f g and xs :: bytes by (induction xs) auto
  have p: "length (concat (map put_le32 ws)) = 4 * length ws" for ws by (induction ws) auto
  have "length (zms_md5 junk d) = 16" for d
    unfolding md5_padded[OF assms] md5_standard_def p by (simp add: md5_blocks_length md5_h0_def)
  then show "length (zms_md5_hex_str junk t) = 32" by (simp add: zms_md5_hex_str_def zms_md5_hex_def c)
  show "34 \<notin> set (zms_md5_hex_str junk t)"
    using hex_digit_no_quote[OF nibbles(1)] hex_digit_no_quote[OF nibbles(2)]
    by (force simp: zms_md5_hex_str_def zms_md5_hex_def)
qed

text \<open>
  C37: What a client builds for the user, the request and the nonce the server knows is accepted, unless
  the user name is longer than the server reads.\<close>

theorem digest_own_accepted:
  assumes "length junk = 64" "quotable user" "quotable realm" "quotable nonce" "quotable url" "length user < 128"
    and "zms_rtsp_digest_build_authorization junk m url user pass realm nonce cap = Some line"
  shows "\<exists>v. line = asc ''Authorization: '' @ v @ [13, 10] \<and> zms_rtsp_digest_verify junk m url user pass realm nonce v"
proof -
  let ?d = "digest_response junk m url user pass realm nonce"
  have d: "length ?d < 33" "34 \<notin> set ?d"
    using digest_hex[OF assms(1)] by (simp_all add: digest_response_def md5_join3_hex_def)
  have "line = asc ''Authorization: '' @ (asc ''Digest '' @ digest_fields user realm nonce url ?d) @ [13, 10]"
    using assms(7) by (simp add: zms_rtsp_digest_build_authorization_def Let_def split: if_splits)
  moreover have "zms_rtsp_digest_verify junk m url user pass realm nonce (asc ''Digest '' @ digest_fields user realm nonce url ?d)"
    using digest_verify_iff[OF assms(2-5) d(2) assms(6) d(1)] by blast
  ultimately show ?thesis by blast
qed

lemma digest_own_accepted_witness:
  "\<exists>line v. zms_rtsp_digest_build_authorization (replicate 64 0) (asc ''PLAY'') (asc ''rtsp://h/a/s'') (asc ''u'') (asc ''p'') (asc ''ZMS'') (asc ''0'') 512
      = Some line \<and> line = asc ''Authorization: '' @ v @ [13, 10]
    \<and> zms_rtsp_digest_verify (replicate 64 0) (asc ''PLAY'') (asc ''rtsp://h/a/s'') (asc ''u'') (asc ''p'') (asc ''ZMS'') (asc ''0'') v"
proof -
  let ?j = "replicate 64 0 :: bytes"
  have q: "quotable (asc ''u'')" "quotable (asc ''ZMS'')" "quotable (asc ''0'')" "quotable (asc ''rtsp://h/a/s'')"
    unfolding quotable_def by (auto dest!: arg_cong[where f = "\<lambda>t. take 9 (rev t)"])
  have l: "length (zms_md5_hex_str ?j t) = 32" for t by (rule digest_hex) simp
  obtain line where b: "zms_rtsp_digest_build_authorization ?j (asc ''PLAY'') (asc ''rtsp://h/a/s'') (asc ''u'') (asc ''p'') (asc ''ZMS'') (asc ''0'') 512
      = Some line"
    by (simp add: zms_rtsp_digest_build_authorization_def Let_def digest_fields_def digest_response_def md5_join3_hex_def l)
  from digest_own_accepted[OF _ q(1,2,3,4) _ b] b show ?thesis by auto
qed

text \<open>
  A header that comes with the first request is checked against the nonce of a session that has
  given none: the empty string. What was built once for the empty nonce is accepted on every new
  connection.\<close>

theorem auth_without_challenge:
  assumes "length junk = 64" "quotable (g_auth_user g)" "quotable (rm_url msg)" "length (g_auth_user g) < 128"
    and "zms_rtsp_auth_enabled g" "ra_auth_nonce rs = []"
    and "zms_rtsp_message_get msg (asc ''Authorization'') = Some (asc ''Digest '' @ digest_fields (g_auth_user g) (asc ''ZMS'') [] (rm_url msg)
      (digest_response junk (method_name (rm_method msg)) (rm_url msg) (g_auth_user g) (g_auth_pass g) (asc ''ZMS'') []))"
  shows "zms_rtsp_auth_check junk rnd g rs msg = (True, rs\<lparr>ra_auth_ok := True\<rparr>, [])"
proof -
  let ?d = "digest_response junk (method_name (rm_method msg)) (rm_url msg) (g_auth_user g) (g_auth_pass g) (asc ''ZMS'') []"
  let ?a = "asc ''Digest '' @ digest_fields (g_auth_user g) (asc ''ZMS'') [] (rm_url msg) ?d"
  have q: "quotable (asc ''ZMS'')" "quotable []"
    unfolding quotable_def by (auto dest!: arg_cong[where f = "\<lambda>t. take 9 (rev t)"])
  have d: "length ?d < 33" "34 \<notin> set ?d"
    using digest_hex[OF assms(1)] by (simp_all add: digest_response_def md5_join3_hex_def)
  have v: "zms_rtsp_digest_verify junk (method_name (rm_method msg)) (rm_url msg) (g_auth_user g) (g_auth_pass g) (asc ''ZMS'') [] ?a"
    using digest_verify_iff[OF assms(2) q(1,2) assms(3) d(2) assms(4) d(1)] by blast
  obtain c t where a: "?a = c # t" by (cases ?a) auto
  show ?thesis
  proof (cases "ra_auth_ok rs")
    case True
    then have "rs = rs\<lparr>ra_auth_ok := True\<rparr>" by simp
    with True assms(5) show ?thesis by (simp add: zms_rtsp_auth_check_def)
  next
    case False
    with assms(5-7) v a show ?thesis by (simp add: zms_rtsp_auth_check_def or_empty_def)
  qed
qed

end
