(* ===== verification/Rtsp_Transport.thy ===== *)
theory Rtsp_Transport
  imports C_String
begin

text \<open>
  The transport header of RTSP and the ports behind it (\<open>session/rtsp/rtsp_transport.c\<close>), and which
  UDP packets a session takes (\<open>session/rtsp/rtsp_session_udp.c\<close>). The port pool belongs to the
  toolkit and is not modelled; a callback with its user pointer is a value of type \<open>'c\<close>.
\<close>

unbundle bit_operations_syntax

section \<open>The header\<close>

datatype zms_rtsp_rtp_mode = ZMS_RTSP_RTP_TCP | ZMS_RTSP_RTP_UDP | ZMS_RTSP_RTP_AUTO

abbreviation has :: "bytes \<Rightarrow> bytes \<Rightarrow> bool" where "has s p \<equiv> strstr s p \<noteq> None"

definition zms_rtsp_transport_parse_mode :: "bytes \<Rightarrow> zms_rtsp_rtp_mode" where
  "zms_rtsp_transport_parse_mode t =
     (if t = [] then ZMS_RTSP_RTP_TCP
      else if has t (asc ''interleaved'') \<or> has t (asc ''TCP'') \<or> has t (asc ''tcp'') then ZMS_RTSP_RTP_TCP
      else if has t (asc ''client_port='') \<or> has t (asc ''server_port='') then ZMS_RTSP_RTP_UDP
      else ZMS_RTSP_RTP_TCP)"

definition zms_rtsp_transport_resolve_mode :: "zms_rtsp_rtp_mode \<Rightarrow> zms_rtsp_rtp_mode" where
  "zms_rtsp_transport_resolve_mode m = (if m = ZMS_RTSP_RTP_UDP then ZMS_RTSP_RTP_UDP else ZMS_RTSP_RTP_TCP)"

text \<open>
  The conversion \<open>%u\<close>: space, a sign, digits; the value is that of \<open>strtoul\<close>, cut to 32 bits. A
  value above 64 bits saturates there.
\<close>

definition scan_uint :: "bytes \<Rightarrow> (u32 \<times> bytes) option" where
  "scan_uint s =
     (let t = dropWhile isspace s;
          (neg, u) = (case t of c # r \<Rightarrow> if c = 45 then (True, r) else if c = 43 then (False, r) else (False, t)
                      | [] \<Rightarrow> (False, []));
          ds = takeWhile isdigit u; v = dec_val ds
      in if ds = [] then None
         else Some (if v \<ge> 2 ^ 64 then - 1 else if neg then - of_nat v else of_nat v, dropWhile isdigit u))"

text \<open>The two numbers of \<open>%u-%u\<close> behind a name.\<close>

definition scan_pair :: "bytes \<Rightarrow> (u32 \<times> u32) option" where
  "scan_pair s =
     (case scan_uint s of
        None \<Rightarrow> None
      | Some (a, r) \<Rightarrow>
          (case scan_lit [45] r of
             None \<Rightarrow> None
           | Some r1 \<Rightarrow> map_option (\<lambda>(b, _). (a, b)) (scan_uint r1)))"

definition pair_behind :: "bytes \<Rightarrow> bytes \<Rightarrow> (u32 \<times> u32) option" where
  "pair_behind t name =
     (case strstr t name of None \<Rightarrow> None | Some i \<Rightarrow> scan_pair (drop (i + length name) t))"

definition zms_rtsp_transport_parse_interleaved :: "bytes \<Rightarrow> (u8 \<times> u8) option" where
  "zms_rtsp_transport_parse_interleaved t =
     map_option (\<lambda>(a, b). (ucast a, ucast b)) (pair_behind t (asc ''interleaved=''))"

definition ports_of :: "(u32 \<times> u32) option \<Rightarrow> (u16 \<times> u16) option" where
  "ports_of p = (case p of None \<Rightarrow> None | Some (a, b) \<Rightarrow> if a = 0 \<or> b = 0 then None else Some (ucast a, ucast b))"

definition zms_rtsp_transport_parse_server_port :: "bytes \<Rightarrow> (u16 \<times> u16) option" where
  "zms_rtsp_transport_parse_server_port t = ports_of (pair_behind t (asc ''server_port=''))"

definition zms_rtsp_transport_parse_client_port :: "bytes \<Rightarrow> (u16 \<times> u16) option" where
  "zms_rtsp_transport_parse_client_port t = ports_of (pair_behind t (asc ''client_port=''))"

text \<open>The session has a copy of the client port reader of its own.\<close>

definition parse_client_port :: "bytes \<Rightarrow> (u16 \<times> u16) option" where
  "parse_client_port t =
     (case pair_behind t (asc ''client_port='') of
        None \<Rightarrow> None
      | Some (a, b) \<Rightarrow> if a = 0 \<or> b = 0 then None else Some (ucast a, ucast b))"

text \<open>The conversion \<open>%8x\<close>: at most eight characters after the space, a sign and \<open>0x\<close> among them.\<close>

definition scan_hex_val :: "u8 \<Rightarrow> u32" where
  "scan_hex_val c = (if isdigit c then ucast (c - 48) else ucast (tolower c - 87))"

definition scan_hex8 :: "bytes \<Rightarrow> u32 option" where
  "scan_hex8 s =
     (let t = take 8 (dropWhile isspace s);
          (neg, u) = (case t of c # r \<Rightarrow> if c = 45 then (True, r) else if c = 43 then (False, r) else (False, t)
                      | [] \<Rightarrow> (False, []));
          w = (case u of a # b # r \<Rightarrow> if a = 48 \<and> tolower b = 120 then r else u | _ \<Rightarrow> u);
          ds = takeWhile isxdigit w; v = foldl (\<lambda>a c. a * 16 + scan_hex_val c) 0 ds
      in if ds = [] then None else Some (if neg then - v else v))"

definition zms_rtsp_transport_parse_ssrc :: "bytes \<Rightarrow> u32 option" where
  "zms_rtsp_transport_parse_ssrc t =
     (case strstr t (asc ''ssrc='') of None \<Rightarrow> None | Some i \<Rightarrow> scan_hex8 (drop (i + 5) t))"

section \<open>The registry of UDP ports\<close>

definition ZMS_RTSP_UDP_SLOT_MAX :: nat where "ZMS_RTSP_UDP_SLOT_MAX = 512"

record 'c rtsp_udp_slot =
  us_port :: u16
  us_track_idx :: int
  us_is_rtcp :: bool
  us_cb :: "'c option"

definition udp_slot_zero :: "'c rtsp_udp_slot" where
  "udp_slot_zero = \<lparr>us_port = 0, us_track_idx = 0, us_is_rtcp = False, us_cb = None\<rparr>"

text \<open>The registry: the slots once there is a mutex, which \<open>mutex\<close> says can be had.\<close>

type_synonym 'c udp_registry = "'c rtsp_udp_slot list option"

definition zms_rtsp_udp_registry_init :: "bool \<Rightarrow> 'c udp_registry \<Rightarrow> 'c udp_registry" where
  "zms_rtsp_udp_registry_init mutex g =
     (case g of Some s \<Rightarrow> Some s
      | None \<Rightarrow> if mutex then Some (replicate ZMS_RTSP_UDP_SLOT_MAX udp_slot_zero) else None)"

definition zms_rtsp_udp_registry_fini :: "'c udp_registry \<Rightarrow> 'c udp_registry" where
  "zms_rtsp_udp_registry_fini g = None"

fun udp_slot_put :: "'c rtsp_udp_slot \<Rightarrow> 'c rtsp_udp_slot list \<Rightarrow> 'c rtsp_udp_slot list option" where
  "udp_slot_put s [] = None"
| "udp_slot_put s (t # ts) = (if us_port t = 0 then Some (s # ts) else map_option ((#) t) (udp_slot_put s ts))"

definition zms_rtsp_udp_registry_bind :: "bool \<Rightarrow> 'c udp_registry \<Rightarrow> u16 \<Rightarrow> int \<Rightarrow> bool \<Rightarrow> 'c option
    \<Rightarrow> bool \<times> 'c udp_registry" where
  "zms_rtsp_udp_registry_bind mutex g port track is_rtcp cb =
     (if port = 0 \<or> cb = None then (False, g)
      else case zms_rtsp_udp_registry_init mutex g of
        None \<Rightarrow> (False, None)
      | Some s \<Rightarrow>
          (case udp_slot_put \<lparr>us_port = port, us_track_idx = track, us_is_rtcp = is_rtcp, us_cb = cb\<rparr> s of
             None \<Rightarrow> (False, Some s)
           | Some s1 \<Rightarrow> (True, Some s1)))"

fun udp_slot_clear :: "u16 \<Rightarrow> 'c rtsp_udp_slot list \<Rightarrow> 'c rtsp_udp_slot list" where
  "udp_slot_clear port [] = []"
| "udp_slot_clear port (t # ts) = (if us_port t = port then udp_slot_zero # ts else t # udp_slot_clear port ts)"

definition zms_rtsp_udp_registry_unbind :: "'c udp_registry \<Rightarrow> u16 \<Rightarrow> 'c udp_registry" where
  "zms_rtsp_udp_registry_unbind g port = (if port = 0 then g else map_option (udp_slot_clear port) g)"

text \<open>The callback that is run, with the track and the kind of its port.\<close>

definition zms_rtsp_udp_registry_dispatch :: "'c udp_registry \<Rightarrow> u16 \<Rightarrow> bytes \<Rightarrow> ('c \<times> int \<times> bool \<times> bytes) option" where
  "zms_rtsp_udp_registry_dispatch g port d =
     (if port = 0 \<or> d = [] then None
      else case g of None \<Rightarrow> None
      | Some s \<Rightarrow>
          (case find (\<lambda>t. us_port t = port) s of
             None \<Rightarrow> None
           | Some t \<Rightarrow> map_option (\<lambda>cb. (cb, us_track_idx t, us_is_rtcp t, d)) (us_cb t)))"

section \<open>Which packets are taken\<close>

record udp_track =
  ut_rtp_socket :: bool
  ut_rtcp_socket :: bool
  ut_peer_rtp_port :: u16
  ut_peer_rtcp_port :: u16

text \<open>The calls of \<open>ztk_udp_client_set_peer\<close>: the track, whether its RTCP socket, the address.\<close>

type_synonym set_peer = "nat \<times> bool \<times> bytes \<times> u16"

record udp_session =
  up_peer_ip :: bytes
  up_tracks :: "udp_track list"

definition peer_ip_match :: "udp_session \<Rightarrow> bytes \<Rightarrow> bool" where
  "peer_ip_match rs from_ip \<longleftrightarrow> from_ip \<noteq> [] \<and> (up_peer_ip rs = [] \<or> up_peer_ip rs = from_ip)"

definition play_udp_packet_accept :: "udp_session \<Rightarrow> udp_track \<Rightarrow> bytes \<Rightarrow> u16 \<Rightarrow> bool \<Rightarrow> bool" where
  "play_udp_packet_accept rs ut from_ip from_port rtcp_sock \<longleftrightarrow>
     from_ip \<noteq> [] \<and> from_port \<noteq> 0
     \<and> (from_port = (if rtcp_sock then ut_peer_rtcp_port ut else ut_peer_rtp_port ut) \<or> peer_ip_match rs from_ip)"

definition record_udp_packet_accept :: "udp_session \<Rightarrow> udp_track \<Rightarrow> bytes \<Rightarrow> u16 \<Rightarrow> bool \<Rightarrow> bool" where
  "record_udp_packet_accept rs ut from_ip from_port rtcp_sock \<longleftrightarrow>
     from_ip \<noteq> [] \<and> from_port \<noteq> 0
     \<and> (from_port = (if rtcp_sock then ut_peer_rtcp_port ut else ut_peer_rtp_port ut) \<or> peer_ip_match rs from_ip)"

definition zms_rtsp_session_note_udp_peer :: "udp_session \<Rightarrow> bytes \<Rightarrow> udp_session" where
  "zms_rtsp_session_note_udp_peer rs from_ip =
     (if from_ip = [] \<or> up_peer_ip rs = from_ip then rs else rs\<lparr>up_peer_ip := fit 64 from_ip\<rparr>)"

definition udp_learn_rtp_peer :: "udp_session \<Rightarrow> nat \<Rightarrow> bytes \<Rightarrow> u16 \<Rightarrow> udp_session \<times> set_peer list" where
  "udp_learn_rtp_peer rs i from_ip from_port =
     (if \<not> ut_rtp_socket (up_tracks rs ! i) \<or> from_port = 0 then (rs, [])
      else (zms_rtsp_session_note_udp_peer
              (rs\<lparr>up_tracks := (up_tracks rs)[i := (up_tracks rs ! i)\<lparr>ut_peer_rtp_port := from_port\<rparr>]\<rparr>) from_ip,
            [(i, False, from_ip, from_port)]))"

definition udp_learn_rtcp_peer :: "udp_session \<Rightarrow> nat \<Rightarrow> bytes \<Rightarrow> u16 \<Rightarrow> udp_session \<times> set_peer list" where
  "udp_learn_rtcp_peer rs i from_ip from_port =
     (if \<not> ut_rtcp_socket (up_tracks rs ! i) \<or> from_port = 0 then (rs, [])
      else (zms_rtsp_session_note_udp_peer
              (rs\<lparr>up_tracks := (up_tracks rs)[i := (up_tracks rs ! i)\<lparr>ut_peer_rtcp_port := from_port\<rparr>]\<rparr>) from_ip,
            [(i, True, from_ip, from_port)]))"

definition play_udp_sync_rtp_peer :: "udp_session \<Rightarrow> nat \<Rightarrow> bytes \<Rightarrow> set_peer list" where
  "play_udp_sync_rtp_peer rs i from_ip =
     (let ut = up_tracks rs ! i
      in if \<not> ut_rtp_socket ut \<or> from_ip = [] \<or> ut_peer_rtp_port ut = 0 then []
         else [(i, False, from_ip, ut_peer_rtp_port ut)])"

definition play_udp_sync_all_tracks :: "udp_session \<Rightarrow> bytes \<Rightarrow> udp_session \<times> set_peer list" where
  "play_udp_sync_all_tracks rs from_ip =
     (if from_ip = [] then (rs, [])
      else let rs1 = zms_rtsp_session_note_udp_peer rs from_ip
           in (rs1, concat (map (\<lambda>i. let ut = up_tracks rs1 ! i in
                (if ut_rtp_socket ut \<and> ut_peer_rtp_port ut \<noteq> 0 then [(i, False, from_ip, ut_peer_rtp_port ut)] else [])
              @ (if ut_rtcp_socket ut \<and> ut_peer_rtcp_port ut \<noteq> 0 then [(i, True, from_ip, ut_peer_rtcp_port ut)] else []))
              [0..<length (up_tracks rs1)])))"

text \<open>An RTCP packet of a play session: the session, the peers set, and whether it goes on to the report reader.\<close>

definition play_udp_on_rtcp_packet :: "(bytes \<Rightarrow> bool) \<Rightarrow> udp_session \<Rightarrow> nat \<Rightarrow> bool \<Rightarrow> bytes \<Rightarrow> bytes \<Rightarrow> u16
    \<Rightarrow> udp_session \<times> set_peer list \<times> bool" where
  "play_udp_on_rtcp_packet is_rtcp rs i playing d from_ip from_port =
     (if length d < 8 \<or> \<not> play_udp_packet_accept rs (up_tracks rs ! i) from_ip from_port True then (rs, [], False)
      else case udp_learn_rtcp_peer rs i from_ip from_port of
        (rs1, c1) \<Rightarrow> (case play_udp_sync_all_tracks rs1 from_ip of
          (rs2, c2) \<Rightarrow> (rs2, c1 @ c2, playing \<and> is_rtcp d)))"

definition play_udp_on_rtp_packet :: "udp_session \<Rightarrow> nat \<Rightarrow> bytes \<Rightarrow> u16 \<Rightarrow> udp_session \<times> set_peer list" where
  "play_udp_on_rtp_packet rs i from_ip from_port =
     (if \<not> play_udp_packet_accept rs (up_tracks rs ! i) from_ip from_port False then (rs, [])
      else case udp_learn_rtp_peer rs i from_ip from_port of
        (rs1, c1) \<Rightarrow> (rs1, c1 @ play_udp_sync_rtp_peer rs1 i from_ip))"

text \<open>A packet of a publishing session: whether it goes on to the receiver.\<close>

definition record_udp_on_rtp_packet :: "(bytes \<Rightarrow> bool) \<Rightarrow> udp_session \<Rightarrow> nat \<Rightarrow> bool \<Rightarrow> bytes \<Rightarrow> bytes \<Rightarrow> u16
    \<Rightarrow> udp_session \<times> set_peer list \<times> bool" where
  "record_udp_on_rtp_packet is_rtcp rs i recording d from_ip from_port =
     (if \<not> recording \<or> length d < 12 \<or> \<not> record_udp_packet_accept rs (up_tracks rs ! i) from_ip from_port False
      then (rs, [], False)
      else case udp_learn_rtp_peer rs i from_ip from_port of
        (rs1, c1) \<Rightarrow> (zms_rtsp_session_note_udp_peer rs1 from_ip, c1, \<not> is_rtcp d))"

definition record_udp_on_rtcp_packet :: "udp_session \<Rightarrow> nat \<Rightarrow> bytes \<Rightarrow> bytes \<Rightarrow> u16 \<Rightarrow> udp_session \<times> set_peer list" where
  "record_udp_on_rtcp_packet rs i d from_ip from_port =
     (if length d < 8 \<or> \<not> record_udp_packet_accept rs (up_tracks rs ! i) from_ip from_port True then (rs, [])
      else udp_learn_rtcp_peer rs i from_ip from_port)"

section \<open>What the replies say\<close>

text \<open>The transport lines of the replies to SETUP, over UDP and interleaved.\<close>

definition hexu :: "u8 \<Rightarrow> u8" where "hexu x = (if x < 10 then 48 + x else 55 + x)"

definition hexu8 :: "u32 \<Rightarrow> bytes" where
  "hexu8 v = map (\<lambda>i. hexu (ucast (drop_bit (28 - 4 * i) v AND 15))) [0..<8]"

definition setup_udp_text :: "u16 \<Rightarrow> u16 \<Rightarrow> u16 \<Rightarrow> u16 \<Rightarrow> u32 \<Rightarrow> bytes \<Rightarrow> bytes" where
  "setup_udp_text client_rtp client_rtcp local_rtp local_rtcp ssrc session_id =
     asc ''Transport: RTP/AVP/UDP;unicast;client_port='' @ dec (unat client_rtp) @ [45] @ dec (unat client_rtcp)
     @ asc '';server_port='' @ dec (unat local_rtp) @ [45] @ dec (unat local_rtcp)
     @ asc '';ssrc='' @ hexu8 ssrc @ [13, 10]
     @ asc ''Session: '' @ session_id @ asc '';timeout=60'' @ [13, 10]"

definition setup_tcp_text :: "u8 \<Rightarrow> bytes \<Rightarrow> bytes" where
  "setup_tcp_text ich session_id =
     asc ''Transport: RTP/AVP/TCP;unicast;interleaved='' @ dec (unat ich) @ [45] @ dec (unat ich + 1) @ [13, 10]
     @ asc ''Session: '' @ session_id @ asc '';timeout=60'' @ [13, 10]"

lemma strstr_digits: "p \<noteq> [] \<Longrightarrow> \<not> isdigit (hd p) \<Longrightarrow> strstr (dec n @ s) p = map_option (\<lambda>i. length (dec n) + i) (strstr s p)"
proof -
  have "strstr (a @ s) p = map_option (\<lambda>i. length a + i) (strstr s p)" if "p \<noteq> []" "hd p \<notin> set a" for a
    using that
  proof (induction a)
    case Nil
    show ?case by (simp add: option.map_ident)
  next
    case (Cons c a)
    have "\<not> starts_with p ((c # a) @ s)" using Cons.prems by (cases p) (auto simp: starts_with_def)
    then show ?case using Cons by (simp add: option.map_comp o_def)
  qed
  then show "p \<noteq> [] \<Longrightarrow> \<not> isdigit (hd p) \<Longrightarrow> ?thesis" using dec_digits by blast
qed

lemma scan_uint_dec:
  assumes "n < 2 ^ 32" "r = [] \<or> \<not> isdigit (hd r)" shows "scan_uint (dec n @ r) = Some (of_nat n, r)"
proof -
  obtain c s where d: "dec n = c # s" by (cases "dec n") auto
  have c: "isdigit c" using dec_digits[of c n] d by simp
  have "takeWhile isdigit (dec n @ r) = dec n" "dropWhile isdigit (dec n @ r) = r"
    using assms(2) dec_digits by (cases r; auto simp: takeWhile_append dropWhile_append)+
  with d isdigit_not[OF c] assms(1) show ?thesis
    using dec_val_dec[of n] by (simp add: scan_uint_def Let_def)
qed

lemma scan_pair_dec:
  assumes "a < 2 ^ 32" "b < 2 ^ 32" "r = [] \<or> \<not> isdigit (hd r)"
  shows "scan_pair (dec a @ [45] @ dec b @ r) = Some (of_nat a, of_nat b)"
proof -
  have "\<not> isdigit 45" by (simp add: isdigit_def)
  then have "scan_uint (dec a @ 45 # dec b @ r) = Some (of_nat a, 45 # dec b @ r)"
    using scan_uint_dec[OF assms(1), of "45 # dec b @ r"] by simp
  then show ?thesis
    using scan_uint_dec[OF assms(2,3)] by (simp add: scan_pair_def scan_lit_def starts_with_def)
qed

lemma not_digit_lits: "\<not> isdigit 45" "\<not> isdigit 59" "\<not> isdigit 13" "\<not> isdigit 99" "\<not> isdigit 115" "\<not> isdigit 105"
  by (simp_all add: isdigit_def)

text \<open>Eight upper-case digits are read back.\<close>

lemma hexu_scan_val: "unat x < 16 \<Longrightarrow> scan_hex_val (hexu x) = ucast x \<and> isxdigit (hexu x)"
proof (rule nibble_cases[where P = "\<lambda>x. scan_hex_val (hexu x) = ucast x \<and> isxdigit (hexu x)"])
  show "\<forall>n \<in> set [0..<16]. scan_hex_val (hexu (of_nat n)) = ucast (of_nat n :: u8) \<and> isxdigit (hexu (of_nat n))" by code_simp
qed

lemma hex_fold:
  "foldl (\<lambda>a c. a * 16 + ucast (ucast (drop_bit (28 - 4 * c) v AND 15) :: u8)) 0 [0..<8] = (v :: u32)"
proof -
  have s: "a * 16 + ucast (ucast (x AND 15) :: u8) = push_bit 4 a OR (x AND 15)" for a x :: u32
  proof -
    have "ucast (ucast (x AND 15) :: u8) = (x AND 15 :: u32)"
    proof (rule bit_word_eqI)
      fix n assume "n < LENGTH(32)"
      have "x AND 15 = take_bit 4 x" by (simp add: take_bit_eq_mask mask_eq_exp_minus_1)
      then show "bit (ucast (ucast (x AND 15) :: u8) :: u32) n = bit (x AND 15) n" by (auto simp: bit_simps)
    qed
    moreover have "push_bit 4 a + (x AND 15) = push_bit 4 a OR (x AND 15)"
    proof (rule disjunctive_add)
      fix n
      have "x AND 15 = take_bit 4 x" by (simp add: take_bit_eq_mask mask_eq_exp_minus_1)
      then show "\<not> bit (push_bit 4 a) n \<or> \<not> bit (x AND 15) n" by (auto simp: bit_simps)
    qed
    ultimately show ?thesis by (simp add: push_bit_eq_mult)
  qed
  have u: "[0..<8] = [0, 1, 2, 3, 4, 5, 6, 7]" by (simp add: upt_rec)
  have m: "(15 :: u32) = mask 4" by (simp add: mask_eq_exp_minus_1)
  let ?d = "\<lambda>k. drop_bit k v AND mask 4"
  let ?l = "push_bit 4 (push_bit 4 (push_bit 4 (push_bit 4 (push_bit 4 (push_bit 4 (push_bit 4 (push_bit 4 0
    OR ?d 28) OR ?d 24) OR ?d 20) OR ?d 16) OR ?d 12) OR ?d 8) OR ?d 4) OR ?d 0"
  have "foldl (\<lambda>a c. push_bit 4 a OR (drop_bit (28 - 4 * c) v AND mask 4)) 0 [0..<8] = ?l"
    unfolding u by (simp del: push_bit_push_bit)
  moreover have "?l = v"
  proof (rule bit_word_eqI)
    fix n assume n: "n < LENGTH(32)"
    consider "n < 4" | "4 \<le> n" "n < 8" | "8 \<le> n" "n < 12" | "12 \<le> n" "n < 16" | "16 \<le> n" "n < 20" | "20 \<le> n" "n < 24"
      | "24 \<le> n" "n < 28" | "28 \<le> n" by linarith
    then show "bit ?l n = bit v n" using n by cases (auto simp: bit_simps)
  qed
  ultimately show ?thesis unfolding m s[unfolded m] by simp
qed

lemma scan_hex8_hexu8: "scan_hex8 (hexu8 v @ r) = Some v"
proof -
  let ?x = "\<lambda>i. ucast (drop_bit (28 - 4 * i) v AND 15) :: u8"
  have b: "unat (?x i) < 16" for i
  proof -
    have "drop_bit (28 - 4 * i) v AND 15 = take_bit 4 (drop_bit (28 - 4 * i) v)" by (simp add: take_bit_eq_mask mask_eq_exp_minus_1)
    then have "?x i = take_bit 4 (ucast (drop_bit (28 - 4 * i) v))"
      by (simp only:) (rule bit_word_eqI, auto simp: bit_simps)
    then show ?thesis by (simp only: unsigned_take_bit_eq) (simp add: take_bit_eq_mod)
  qed
  have x: "isxdigit (hexu (?x i))" "scan_hex_val (hexu (?x i)) = ucast (?x i)" for i using hexu_scan_val[OF b] by blast+
  have l: "length (hexu8 v) = 8" by (simp add: hexu8_def)
  obtain c d t where h: "hexu8 v = c # d # t" using l by (cases "hexu8 v"; cases "tl (hexu8 v)") auto
  have all: "\<forall>c \<in> set (hexu8 v). isxdigit c" using x(1) by (auto simp: hexu8_def)
  then have c: "isxdigit c" "isxdigit d" using h by simp_all
  have n: "\<not> isspace k \<and> k \<noteq> 45 \<and> k \<noteq> 43 \<and> tolower k \<noteq> 120" if "isxdigit k" for k
  proof -
    have "\<forall>j \<in> set [0..<256]. isxdigit (of_nat j) \<longrightarrow> \<not> isspace (of_nat j) \<and> (of_nat j :: u8) \<noteq> 45 \<and> (of_nat j :: u8) \<noteq> 43 \<and> tolower (of_nat j) \<noteq> 120"
      by code_simp
    moreover have "unat k \<in> set [0..<256]" using unsigned_less[of k, where ?'a = nat] by simp
    ultimately have "isxdigit (of_nat (unat k)) \<longrightarrow> \<not> isspace (of_nat (unat k)) \<and> (of_nat (unat k) :: u8) \<noteq> 45 \<and> (of_nat (unat k) :: u8) \<noteq> 43 \<and> tolower (of_nat (unat k)) \<noteq> 120"
      by blast
    moreover have "of_nat (unat k) = k" by simp
    ultimately show ?thesis using that by metis
  qed
  have t: "take 8 (dropWhile isspace (hexu8 v @ r)) = hexu8 v" using l h n[OF c(1)] by simp
  have "foldl (\<lambda>a c. a * 16 + scan_hex_val c) 0 (hexu8 v) = v"
    using hex_fold[of v] x(2) by (simp add: hexu8_def foldl_map)
  moreover have "takeWhile isxdigit (hexu8 v) = hexu8 v" using all by (simp add: takeWhile_eq_all_conv)
  ultimately show ?thesis
    using h n[OF c(1)] n[OF c(2)] unfolding scan_hex8_def t by (simp add: Let_def)
qed

text \<open>What stands behind a name, found along the text.\<close>

definition behind :: "bytes \<Rightarrow> bytes \<Rightarrow> bytes option" where
  "behind p s = map_option (\<lambda>i. drop (i + length p) s) (strstr s p)"

lemma behind_hit: "starts_with p s \<Longrightarrow> behind p s = Some (drop (length p) s)"
  by (cases s) (auto simp: behind_def starts_with_def)

lemma behind_cons: "\<not> starts_with p (c # s) \<Longrightarrow> behind p (c # s) = behind p s"
  by (simp add: behind_def option.map_comp o_def)

lemma behind_dec: "p \<noteq> [] \<Longrightarrow> \<not> isdigit (hd p) \<Longrightarrow> behind p (dec n @ s) = behind p s"
  by (simp add: behind_def strstr_digits option.map_comp o_def drop_append add.assoc)

lemma pair_behind_behind: "pair_behind t name = Option.bind (behind name t) scan_pair"
  by (simp add: pair_behind_def behind_def split: option.splits)

lemma ssrc_behind: "zms_rtsp_transport_parse_ssrc t = Option.bind (behind (asc ''ssrc='') t) scan_hex8"
  by (simp add: zms_rtsp_transport_parse_ssrc_def behind_def eval_nat_numeral split: option.splits)

lemmas behind_simps = behind_hit behind_cons behind_dec starts_with_def

text \<open>
  What the reply to SETUP says is what the readers of the transport header find: the mode, the
  ports of both sides and the synchronisation source.\<close>

theorem udp_reply_read:
  assumes "client_rtp \<noteq> 0" "client_rtcp \<noteq> 0" "local_rtp \<noteq> 0" "local_rtcp \<noteq> 0"
    and "t = setup_udp_text client_rtp client_rtcp local_rtp local_rtcp ssrc session_id"
  shows "zms_rtsp_transport_parse_client_port t = Some (client_rtp, client_rtcp) \<and> parse_client_port t = Some (client_rtp, client_rtcp)
    \<and> zms_rtsp_transport_parse_server_port t = Some (local_rtp, local_rtcp)
    \<and> zms_rtsp_transport_parse_ssrc t = Some ssrc"
proof -
  have u: "unat w < 2 ^ 32" for w :: u16 using unsigned_less[of w, where ?'a = nat] by simp
  have w: "(of_nat (unat w) :: u32) = ucast w" "(ucast (ucast w :: u32) :: u16) = w" "(ucast w :: u32) = 0 \<longleftrightarrow> w = 0" for w :: u16
  proof -
    show "(of_nat (unat w) :: u32) = ucast w"
      using u[of w] by (simp add: word_unat_eq_iff unsigned_of_nat unsigned_ucast_eq take_bit_nat_eq_self)
    show c: "(ucast (ucast w :: u32) :: u16) = w" by (rule bit_word_eqI) (auto simp: bit_simps)
    show "(ucast w :: u32) = 0 \<longleftrightarrow> w = 0" using c by force
  qed
  have c: "pair_behind t (asc ''client_port='') = Some (ucast client_rtp, ucast client_rtcp)"
    using scan_pair_dec[OF u[of client_rtp] u[of client_rtcp]] not_digit_lits
    by (simp add: assms(5) setup_udp_text_def pair_behind_behind behind_simps w)
  have d: "pair_behind t (asc ''server_port='') = Some (ucast local_rtp, ucast local_rtcp)"
    using scan_pair_dec[OF u[of local_rtp] u[of local_rtcp]] not_digit_lits
    by (simp add: assms(5) setup_udp_text_def pair_behind_behind behind_simps w)
  have e: "zms_rtsp_transport_parse_ssrc t = Some ssrc"
    using scan_hex8_hexu8[of ssrc] not_digit_lits
    by (simp add: assms(5) setup_udp_text_def ssrc_behind behind_simps)
  show ?thesis using assms(1-4) e w(2,3)
    by (simp add: zms_rtsp_transport_parse_client_port_def zms_rtsp_transport_parse_server_port_def parse_client_port_def
        ports_of_def c[simplified] d[simplified])
qed

lemma udp_reply_read_witness:
  "zms_rtsp_transport_parse_server_port (setup_udp_text 5000 5001 20000 20001 0x12345678 (asc ''7'')) = Some (20000, 20001)"
  using udp_reply_read[of 5000 5001 20000 20001 _ "0x12345678" "asc ''7''"] by simp

text \<open>Ports and channels are cut to their width after the test for zero: a port of 65536 passes it and is the port 0.\<close>

theorem transport_ports_cut:
  "zms_rtsp_transport_parse_client_port (asc ''client_port=65536-65537'') = Some (0, 1)
   \<and> zms_rtsp_transport_parse_interleaved (asc ''interleaved=256-257'') = Some (0, 1)"
proof -
  have "dec 65536 = asc ''65536''" "dec 65537 = asc ''65537''" "dec 256 = asc ''256''" "dec 257 = asc ''257''"
    by (simp_all add: dec.simps dec_digit_def)
  then have "scan_pair (asc ''65536-65537'') = Some (65536, 65537)" "scan_pair (asc ''256-257'') = Some (256, 257)"
    using scan_pair_dec[of 65536 65537 "[]"] scan_pair_dec[of 256 257 "[]"] by simp_all
  then show ?thesis
    by (simp add: zms_rtsp_transport_parse_client_port_def zms_rtsp_transport_parse_interleaved_def ports_of_def
        pair_behind_behind behind_simps)
qed

section \<open>The registry as a table\<close>

text \<open>The bound ports of a registry, and the invariant that none is bound twice.\<close>

definition udp_ports :: "'c rtsp_udp_slot list \<Rightarrow> u16 list" where
  "udp_ports s = filter (\<lambda>p. p \<noteq> 0) (map us_port s)"

definition udp_lookup :: "'c rtsp_udp_slot list \<Rightarrow> u16 \<Rightarrow> ('c \<times> int \<times> bool) option" where
  "udp_lookup s port = (case find (\<lambda>t. us_port t = port) s of
     None \<Rightarrow> None | Some t \<Rightarrow> map_option (\<lambda>cb. (cb, us_track_idx t, us_is_rtcp t)) (us_cb t))"

lemma slot_put_lookup:
  "udp_slot_put n s = Some s1 \<Longrightarrow> us_port n \<notin> set (map us_port s) \<Longrightarrow> us_port n \<noteq> 0 \<Longrightarrow> port \<noteq> 0 \<Longrightarrow>
   find (\<lambda>t. us_port t = port) s1 = (if port = us_port n then Some n else find (\<lambda>t. us_port t = port) s)
   \<and> (distinct (udp_ports s) \<longrightarrow> distinct (udp_ports s1)) \<and> set (map us_port s1) \<subseteq> insert (us_port n) (set (map us_port s))"
proof (induction s arbitrary: s1)
  case (Cons t s)
  show ?case
  proof (cases "us_port t = 0")
    case True
    with Cons.prems show ?thesis by (auto simp: udp_ports_def)
  next
    case False
    then obtain s2 where s2: "udp_slot_put n s = Some s2" "s1 = t # s2" using Cons.prems(1) by auto
    with Cons.IH[OF s2(1)] Cons.prems(2-4) False show ?thesis by (auto simp: udp_ports_def)
  qed
qed simp

lemma slot_clear_lookup:
  "distinct (udp_ports s) \<Longrightarrow> port \<noteq> 0 \<Longrightarrow> p \<noteq> 0 \<Longrightarrow>
   find (\<lambda>t. us_port t = p) (udp_slot_clear port s) = (if p = port then None else find (\<lambda>t. us_port t = p) s)
   \<and> distinct (udp_ports (udp_slot_clear port s)) \<and> set (udp_ports (udp_slot_clear port s)) \<subseteq> set (udp_ports s)"
proof (induction s)
  case (Cons t s)
  show ?case
  proof (cases "us_port t = port")
    case True
    then have "port \<notin> set (map us_port s)" using Cons.prems by (auto simp: udp_ports_def)
    then have "find (\<lambda>t. us_port t = port) s = None" by (auto simp: find_None_iff)
    with True Cons.prems show ?thesis by (auto simp: udp_ports_def udp_slot_zero_def)
  next
    case False
    with Cons show ?thesis by (auto simp: udp_ports_def split: if_splits)
  qed
qed (simp add: udp_ports_def)

lemma slot_put_free: "udp_slot_put n s = None \<longleftrightarrow> 0 \<notin> set (map us_port s)"
  by (induction s) auto

definition udp_table :: "'c rtsp_udp_slot list \<Rightarrow> u16 \<Rightarrow> ('c \<times> int \<times> bool) option" where
  "udp_table s p = (if p = 0 then None else udp_lookup s p)"

text \<open>
  C19: As long as a port is bound once at a time, the registry is a table from ports to callbacks: a
  bind succeeds when a slot is free, adds its entry and no other, and leaves the registry as it is
  when none is; an unbind takes its entry away and no other; a packet goes to the entry of its port.
\<close>

theorem udp_registry_table:
  assumes "distinct (udp_ports s)" "port \<noteq> 0" "port \<notin> set (map us_port s)"
  shows "(case zms_rtsp_udp_registry_bind mutex (Some s) port track is_rtcp (Some cb) of
       (True, g) \<Rightarrow> 0 \<in> set (map us_port s)
         \<and> (\<exists>s1. g = Some s1 \<and> distinct (udp_ports s1) \<and> udp_table s1 = (udp_table s)(port \<mapsto> (cb, track, is_rtcp))
              \<and> (\<exists>s2. zms_rtsp_udp_registry_unbind g port = Some s2 \<and> distinct (udp_ports s2) \<and> udp_table s2 = udp_table s)
              \<and> zms_rtsp_udp_registry_dispatch g port (b # d) = Some (cb, track, is_rtcp, b # d))
     | (False, g) \<Rightarrow> 0 \<notin> set (map us_port s) \<and> g = Some s)"
proof -
  let ?n = "\<lparr>us_port = port, us_track_idx = track, us_is_rtcp = is_rtcp, us_cb = Some cb\<rparr>"
  show ?thesis
  proof (cases "udp_slot_put ?n s")
    case None
    then show ?thesis using slot_put_free[of ?n s] assms(2)
      by (simp add: zms_rtsp_udp_registry_bind_def zms_rtsp_udp_registry_init_def)
  next
    case (Some s1)
    note p = slot_put_lookup[OF Some, simplified, OF assms(3)[simplified] assms(2)]
    have d1: "distinct (udp_ports s1)" using p[OF assms(2)] assms(1) by simp
    have t1: "udp_table s1 = (udp_table s)(port \<mapsto> (cb, track, is_rtcp))"
      using p assms(2) by (auto simp: udp_table_def udp_lookup_def)
    have no: "find (\<lambda>t. us_port t = port) s = None" using assms(3) by (force simp: find_None_iff)
    have t2: "udp_table (udp_slot_clear port s1) = udp_table s"
    proof
      fix q show "udp_table (udp_slot_clear port s1) q = udp_table s q"
        using slot_clear_lookup[OF d1 assms(2), of q] p[of q] no by (auto simp: udp_table_def udp_lookup_def)
    qed
    show ?thesis using Some slot_put_free[of ?n s] assms(2) d1 t1 t2 p[OF assms(2)] slot_clear_lookup[OF d1 assms(2) assms(2)]
      by (simp add: zms_rtsp_udp_registry_bind_def zms_rtsp_udp_registry_init_def zms_rtsp_udp_registry_unbind_def
          zms_rtsp_udp_registry_dispatch_def)
  qed
qed

lemma udp_registry_table_witness:
  "zms_rtsp_udp_registry_dispatch
     (snd (zms_rtsp_udp_registry_bind True (Some [udp_slot_zero, udp_slot_zero]) 20000 1 True (Some (7 :: nat)))) 20000 [0x80]
   = Some (7, 1, True, [0x80])"
  using udp_registry_table[where s = "[udp_slot_zero, udp_slot_zero]" and port = 20000 and mutex = True and track = 1
      and is_rtcp = True and cb = "7 :: nat" and b = "0x80" and d = "[]"]
  by (auto simp: udp_ports_def udp_slot_zero_def split: prod.splits bool.splits)

text \<open>
  A packet on the RTCP port of a play session that comes from the port the client named is taken
  from any address, and from then on every track is sent to that address.\<close>

theorem udp_address_taken_over:
  assumes "from_ip \<noteq> []" "length from_ip < 64" "8 \<le> length d" "i < length (up_tracks rs)"
    and "ut_rtcp_socket (up_tracks rs ! i)" "ut_peer_rtcp_port (up_tracks rs ! i) = port" "port \<noteq> 0"
    and "play_udp_on_rtcp_packet is_rtcp rs i playing d from_ip port = (rs1, calls, go)"
  shows "up_peer_ip rs1 = from_ip
    \<and> (\<forall>j < length (up_tracks rs). ut_rtp_socket (up_tracks rs ! j) \<and> ut_peer_rtp_port (up_tracks rs ! j) \<noteq> 0
        \<longrightarrow> (j, False, from_ip, ut_peer_rtp_port (up_tracks rs ! j)) \<in> set calls)"
proof -
  let ?rs0 = "rs\<lparr>up_tracks := (up_tracks rs)[i := (up_tracks rs ! i)\<lparr>ut_peer_rtcp_port := port\<rparr>]\<rparr>"
  have same: "(up_tracks rs)[i := (up_tracks rs ! i)\<lparr>ut_peer_rtcp_port := port\<rparr>] = up_tracks rs"
    using assms(6) by (metis list_update_id old.unit.exhaust udp_track.surjective udp_track.update_convs(4))
  have n: "up_peer_ip (zms_rtsp_session_note_udp_peer r from_ip) = from_ip" "up_tracks (zms_rtsp_session_note_udp_peer r from_ip) = up_tracks r" for r
    using assms(1,2) by (simp_all add: zms_rtsp_session_note_udp_peer_def fit_def)
  have r: "rs1 = zms_rtsp_session_note_udp_peer (zms_rtsp_session_note_udp_peer ?rs0 from_ip) from_ip"
    "calls = (i, True, from_ip, port) # snd (play_udp_sync_all_tracks (zms_rtsp_session_note_udp_peer ?rs0 from_ip) from_ip)"
    using assms by (auto simp: play_udp_on_rtcp_packet_def play_udp_packet_accept_def udp_learn_rtcp_peer_def
        play_udp_sync_all_tracks_def Let_def)
  show ?thesis unfolding r using assms(1) by (auto simp: n same play_udp_sync_all_tracks_def Let_def)
qed

end
