(* ===== verification/Vod_Format.thy ===== *)
theory Vod_Format
  imports C_String
begin

text \<open>
  The file formats of on-demand streams (\<open>vod/io/vod_format.c\<close>): the registry of formats and what
  the name of a stream says about its file. The routines that measure a file belong to the
  containers and are named by the constructors of \<open>vod_probe\<close>.
\<close>

datatype zms_container_id = ZMS_CONTAINER_INVALID | ZMS_CONTAINER_RTSP_INTERLEAVED | ZMS_CONTAINER_FLV_TAG
  | ZMS_CONTAINER_MPEGTS | ZMS_CONTAINER_MP4 | ZMS_CONTAINER_MKV | ZMS_CONTAINER_FLV_FILE

datatype vod_probe = Probe_Mov_Family | Probe_Flv

record zms_vod_format_desc =
  vf_name :: bytes
  vf_container :: zms_container_id
  vf_extensions :: "bytes list"
  vf_default :: "bytes option"
  vf_can_flv_wrap :: bool
  vf_native_file_send :: bool
  vf_probe :: "vod_probe option"

definition ZMS_VOD_FORMAT_MAX :: nat where "ZMS_VOD_FORMAT_MAX = 16"

text \<open>The formats known to the process, and whether the built-in ones have been added.\<close>

record vod_formats =
  fr_formats :: "zms_vod_format_desc list"
  fr_builtins :: bool

fun replace_named :: "zms_vod_format_desc \<Rightarrow> zms_vod_format_desc list \<Rightarrow> zms_vod_format_desc list option" where
  "replace_named f [] = None"
| "replace_named f (g # gs) = (if vf_name g = vf_name f then Some (f # gs) else map_option ((#) g) (replace_named f gs))"

definition zms_vod_format_register :: "vod_formats \<Rightarrow> zms_vod_format_desc \<Rightarrow> vod_formats" where
  "zms_vod_format_register r f =
     (case replace_named f (fr_formats r) of
        Some fs \<Rightarrow> r\<lparr>fr_formats := fs\<rparr>
      | None \<Rightarrow> if length (fr_formats r) < ZMS_VOD_FORMAT_MAX then r\<lparr>fr_formats := fr_formats r @ [f]\<rparr> else r)"

definition vod_mov :: zms_vod_format_desc where
  "vod_mov = \<lparr>vf_name = asc ''mov-family'', vf_container = ZMS_CONTAINER_MP4,
     vf_extensions = [asc ''.mp4'', asc ''.mov'', asc ''.m4v''], vf_default = Some (asc ''.mp4''),
     vf_can_flv_wrap = True, vf_native_file_send = False, vf_probe = Some Probe_Mov_Family\<rparr>"

definition vod_mkv :: zms_vod_format_desc where
  "vod_mkv = \<lparr>vf_name = asc ''mkv'', vf_container = ZMS_CONTAINER_MKV,
     vf_extensions = [asc ''.mkv'', asc ''.mka''], vf_default = None,
     vf_can_flv_wrap = True, vf_native_file_send = False, vf_probe = Some Probe_Mov_Family\<rparr>"

definition vod_flv :: zms_vod_format_desc where
  "vod_flv = \<lparr>vf_name = asc ''flv-file'', vf_container = ZMS_CONTAINER_FLV_FILE,
     vf_extensions = [asc ''.flv''], vf_default = None,
     vf_can_flv_wrap = False, vf_native_file_send = True, vf_probe = Some Probe_Flv\<rparr>"

definition zms_vod_format_register_all :: "vod_formats \<Rightarrow> vod_formats" where
  "zms_vod_format_register_all r =
     (if fr_builtins r then r
      else foldl zms_vod_format_register (r\<lparr>fr_builtins := True\<rparr>) [vod_mov, vod_mkv, vod_flv])"

definition ensure_builtins :: "vod_formats \<Rightarrow> vod_formats" where
  "ensure_builtins r = (if fr_builtins r then r else zms_vod_format_register_all r)"

text \<open>The registry of a process in which nothing has been added before the first use.\<close>

definition vod_formats_start :: vod_formats where
  "vod_formats_start = \<lparr>fr_formats = [], fr_builtins = False\<rparr>"

definition path_ext :: "bytes \<Rightarrow> bytes option" where
  "path_ext s =
     (case find_last_char s 46 of
        None \<Rightarrow> None
      | Some i \<Rightarrow>
          if Suc i = length s then None
          else if (case find_last_char s 47 of None \<Rightarrow> False | Some j \<Rightarrow> i < j)
               \<or> (case find_last_char s 92 of None \<Rightarrow> False | Some j \<Rightarrow> i < j) then None
          else Some (drop i s))"

definition zms_vod_format_find_by_extension :: "vod_formats \<Rightarrow> bytes option \<Rightarrow> zms_vod_format_desc option" where
  "zms_vod_format_find_by_extension r ext =
     (case ext of
        None \<Rightarrow> None
      | Some x \<Rightarrow> if x = [] then None
          else find (\<lambda>f. \<exists>e \<in> set (vf_extensions f). strcaseeq x e) (fr_formats (ensure_builtins r)))"

definition zms_vod_format_find_by_path :: "vod_formats \<Rightarrow> bytes \<Rightarrow> zms_vod_format_desc option" where
  "zms_vod_format_find_by_path r path = zms_vod_format_find_by_extension r (path_ext path)"

text \<open>
  The visit of all extensions in order, ended by the first call that asks for it; the callback
  passes a state on.\<close>

fun visit_extensions :: "('s \<Rightarrow> bytes \<Rightarrow> bool \<times> 's) \<Rightarrow> 's \<Rightarrow> bytes list \<Rightarrow> nat \<times> 's" where
  "visit_extensions cb s [] = (0, s)"
| "visit_extensions cb s (e # es) =
     (case cb s e of (stop, s1) \<Rightarrow> if stop then (1, s1) else (case visit_extensions cb s1 es of (n, s2) \<Rightarrow> (Suc n, s2)))"

definition zms_vod_format_foreach_extension :: "vod_formats \<Rightarrow> ('s \<Rightarrow> bytes \<Rightarrow> bool \<times> 's) \<Rightarrow> 's \<Rightarrow> nat \<times> 's" where
  "zms_vod_format_foreach_extension r cb s = visit_extensions cb s (concat (map vf_extensions (fr_formats (ensure_builtins r))))"

definition zms_vod_format_default_extension :: "vod_formats \<Rightarrow> bytes" where
  "zms_vod_format_default_extension r =
     (case find (\<lambda>f. vf_default f \<noteq> None) (fr_formats (ensure_builtins r)) of
        None \<Rightarrow> asc ''.mp4''
      | Some f \<Rightarrow> the (vf_default f))"

definition zms_vod_format_stream_has_supported_ext :: "vod_formats \<Rightarrow> bytes \<Rightarrow> bool" where
  "zms_vod_format_stream_has_supported_ext r s \<longleftrightarrow> zms_vod_format_find_by_path r s \<noteq> None"

definition zms_vod_format_stream_is_native_file :: "vod_formats \<Rightarrow> bytes \<Rightarrow> bool" where
  "zms_vod_format_stream_is_native_file r s \<longleftrightarrow>
     (case zms_vod_format_find_by_path r s of None \<Rightarrow> False | Some f \<Rightarrow> vf_native_file_send f)"

text \<open>The walk back from a place to the next separator or dot, or to the start.\<close>

fun back_to_dot :: "bytes \<Rightarrow> nat \<Rightarrow> nat" where
  "back_to_dot s 0 = 0"
| "back_to_dot s (Suc p) = (if s ! Suc p \<in> {47, 92, 46} then Suc p else back_to_dot s p)"

definition zms_vod_format_stream_is_flv_wrap_suffix :: "vod_formats \<Rightarrow> bytes \<Rightarrow> bool" where
  "zms_vod_format_stream_is_flv_wrap_suffix r s \<longleftrightarrow>
     (let n = length s
      in if n < 8 \<or> \<not> strcaseeq (drop (n - 4) s) (asc ''.flv'') then False
         else case find_last_char s 46 of
           None \<Rightarrow> False
         | Some dot \<Rightarrow>
             if dot = 0 then False
             else let prev = back_to_dot s (dot - 1)
                  in if s ! prev \<noteq> 46 \<or> dot - prev \<ge> 32 then False
                     else case zms_vod_format_find_by_extension r (Some (take (dot - prev) (drop prev s))) of
                            None \<Rightarrow> False
                          | Some f \<Rightarrow> vf_can_flv_wrap f)"

definition zms_vod_format_probe_duration_ms :: "(vod_probe \<Rightarrow> bytes \<Rightarrow> nat) \<Rightarrow> vod_formats \<Rightarrow> bytes \<Rightarrow> nat" where
  "zms_vod_format_probe_duration_ms dur r path =
     (case zms_vod_format_find_by_path r path of
        None \<Rightarrow> 0
      | Some f \<Rightarrow> (case vf_probe f of None \<Rightarrow> 0 | Some p \<Rightarrow> dur p path))"

section \<open>The built-in formats\<close>

lemma find_last_char_append: "c \<notin> set b \<Longrightarrow> find_last_char (a @ c # b) c = Some (length a)"
  using find_char_append[of c "rev b" "rev a"] by (simp add: find_last_char_def)

lemma find_last_char_None: "find_last_char s c = None \<longleftrightarrow> c \<notin> set s"
  by (simp add: find_last_char_def find_char_None)

lemma find_last_char_SomeE:
  assumes "find_last_char s c = Some i" obtains a b where "s = a @ c # b" "length a = i" "c \<notin> set b"
proof -
  have "c \<in> set s" using assms find_last_char_None[of s c] by fastforce
  then obtain a b where s: "s = a @ c # b" "c \<notin> set b" by (meson split_list_last)
  with find_last_char_append[OF s(2), of a] assms have "length a = i" by simp
  with s that show thesis by blast
qed

definition vod_builtin :: "vod_formats \<Rightarrow> bool" where
  "vod_builtin r \<longleftrightarrow> fr_formats (ensure_builtins r) = [vod_mov, vod_mkv, vod_flv]"

text \<open>
  In a process that adds no formats of its own the registry holds the three built-in formats from
  the first use on, however often they are asked for.\<close>

lemma builtin_start: "vod_builtin vod_formats_start" "vod_builtin r \<Longrightarrow> vod_builtin (ensure_builtins r)"
  by (simp_all add: vod_builtin_def vod_formats_start_def ensure_builtins_def zms_vod_format_register_all_def
      zms_vod_format_register_def vod_mov_def vod_mkv_def vod_flv_def ZMS_VOD_FORMAT_MAX_def)

lemma register_bounded:
  "length (fr_formats r) \<le> ZMS_VOD_FORMAT_MAX \<Longrightarrow> length (fr_formats (zms_vod_format_register r f)) \<le> ZMS_VOD_FORMAT_MAX"
proof -
  have "replace_named f gs = Some fs \<Longrightarrow> length fs = length gs" for gs fs by (induction gs arbitrary: fs) (auto split: if_splits)
  then show "length (fr_formats r) \<le> ZMS_VOD_FORMAT_MAX \<Longrightarrow> length (fr_formats (zms_vod_format_register r f)) \<le> ZMS_VOD_FORMAT_MAX"
    by (auto simp: zms_vod_format_register_def split: option.splits)
qed

definition wrap_exts :: "bytes list" where "wrap_exts = [asc ''.mp4'', asc ''.mov'', asc ''.m4v'', asc ''.mkv'', asc ''.mka'']"

lemma strcaseeq_lower: "map tolower e = e \<Longrightarrow> strcaseeq x e \<longleftrightarrow> map tolower x = e"
  by (simp add: strcaseeq_def)

lemma lower_exts: "map tolower (asc ''.flv'') = asc ''.flv''" "\<forall>e \<in> set wrap_exts. map tolower e = e \<and> length e = 4 \<and> 46 \<notin> set (tl e) \<and> 47 \<notin> set e \<and> 92 \<notin> set e"
  by (simp_all add: wrap_exts_def tolower_def)

lemma builtin_by_ext:
  assumes "vod_builtin r"
  shows "zms_vod_format_find_by_extension r (Some x) =
    (if map tolower x \<in> {asc ''.mp4'', asc ''.mov'', asc ''.m4v''} then Some vod_mov
     else if map tolower x \<in> {asc ''.mkv'', asc ''.mka''} then Some vod_mkv
     else if map tolower x = asc ''.flv'' then Some vod_flv else None)"
  using assms by (auto simp: vod_builtin_def zms_vod_format_find_by_extension_def vod_mov_def vod_mkv_def vod_flv_def
      strcaseeq_def tolower_def)

lemma tolower_dots: "tolower c = 46 \<longleftrightarrow> c = 46" "tolower c = 47 \<longleftrightarrow> c = 47" "tolower c = 92 \<longleftrightarrow> c = 92"
proof -
  have "\<forall>j \<in> set [0..<256]. (tolower (of_nat j) = 46 \<longleftrightarrow> (of_nat j :: u8) = 46) \<and> (tolower (of_nat j) = 47 \<longleftrightarrow> (of_nat j :: u8) = 47)
      \<and> (tolower (of_nat j) = 92 \<longleftrightarrow> (of_nat j :: u8) = 92)" by code_simp
  moreover have "unat c \<in> set [0..<256]" using unsigned_less[of c, where ?'a = nat] by simp
  ultimately have "(tolower (of_nat (unat c)) = 46 \<longleftrightarrow> (of_nat (unat c) :: u8) = 46) \<and> (tolower (of_nat (unat c)) = 47 \<longleftrightarrow> (of_nat (unat c) :: u8) = 47)
      \<and> (tolower (of_nat (unat c)) = 92 \<longleftrightarrow> (of_nat (unat c) :: u8) = 92)" by blast
  then show "tolower c = 46 \<longleftrightarrow> c = 46" "tolower c = 47 \<longleftrightarrow> c = 47" "tolower c = 92 \<longleftrightarrow> c = 92" by simp_all
qed

lemma lower_set: "c \<in> {46, 47, 92} \<Longrightarrow> c \<in> set (map tolower s) \<longleftrightarrow> c \<in> set s"
  by (force simp: tolower_dots)

lemma find_last_char_behind: "c \<notin> set y \<Longrightarrow> find_last_char (b @ y) c = find_last_char b c"
proof (cases "find_last_char b c")
  case None
  then have "c \<notin> set b" by (simp add: find_last_char_None)
  then show "c \<notin> set y \<Longrightarrow> find_last_char (b @ y) c = find_last_char b c"
    using None find_last_char_None[of "b @ y" c] by simp
next
  case (Some j)
  then obtain a d where "b = a @ c # d" "length a = j" "c \<notin> set d" by (blast elim: find_last_char_SomeE)
  then show "c \<notin> set y \<Longrightarrow> find_last_char (b @ y) c = find_last_char b c"
    using Some find_last_char_append[of c "d @ y" a] by simp
qed

lemma find_last_char_less: "find_last_char s c = Some j \<Longrightarrow> j < length s"
  by (elim find_last_char_SomeE) auto

lemma path_ext_dot:
  assumes "46 \<notin> set x" "47 \<notin> set x" "92 \<notin> set x" "x \<noteq> []" shows "path_ext (b @ 46 # x) = Some (46 # x)"
  using assms find_last_char_behind[of 47 "46 # x" b] find_last_char_behind[of 92 "46 # x" b]
  by (auto simp: path_ext_def find_last_char_append dest!: find_last_char_less split: option.splits)

lemma back_to_dot_le: "back_to_dot s k \<le> k"
  by (induction k) auto

lemma back_to_dot_run: "\<forall>i. k < i \<and> i \<le> k + m \<longrightarrow> s ! i \<notin> {47, 92, 46} \<Longrightarrow> s ! k = 46 \<Longrightarrow> back_to_dot s (k + m) = k"
proof (induction m)
  case 0
  then show ?case by (cases k) auto
next
  case (Suc m)
  then have "s ! Suc (k + m) \<notin> {47, 92, 46}" by auto
  with Suc show ?case by auto
qed

lemma take_mid: "p \<le> m \<Longrightarrow> s = take p s @ take (m - p) (drop p s) @ drop m s"
proof -
  assume "p \<le> m"
  then have "drop m s = drop (m - p) (drop p s)" by simp
  then show ?thesis by (simp only: append_take_drop_id)
qed

lemma lower_dot:
  assumes "map tolower x = 46 # y" "46 \<notin> set y" "47 \<notin> set y" "92 \<notin> set y"
  obtains x' where "x = 46 # x'" "map tolower x' = y" "46 \<notin> set x'" "47 \<notin> set x'" "92 \<notin> set x'"
proof -
  obtain x' where x: "x = 46 # x'" "map tolower x' = y" using assms(1) by (cases x) (auto simp: tolower_dots)
  with assms lower_set[of _ x'] that show thesis by auto
qed

text \<open>
  Which names stand for a file that is wrapped as FLV: those that end in the extension of a
  container followed by \<open>.flv\<close>, in any case of letters.\<close>

theorem flv_wrap_iff:
  assumes "vod_builtin r"
  shows "zms_vod_format_stream_is_flv_wrap_suffix r s \<longleftrightarrow>
    (\<exists>b e x. s = b @ e @ x \<and> map tolower x = asc ''.flv'' \<and> map tolower e \<in> set wrap_exts)" (is "?l = ?r")
proof
  assume ?r
  then obtain b e x where s: "s = b @ e @ x" "map tolower x = asc ''.flv''" "map tolower e \<in> set wrap_exts" by blast
  have lx: "length x = 4" using arg_cong[OF s(2), of length] by simp
  have le: "length e = 4" using arg_cong[OF refl, of length "map tolower e"] s(3) lower_exts(2) by (metis length_map)
  obtain x' where x: "x = 46 # x'" "46 \<notin> set x'" by (rule lower_dot[OF s(2)[simplified]]) auto
  obtain y where y: "map tolower e = 46 # y" "46 \<notin> set y" "47 \<notin> set y" "92 \<notin> set y"
    using s(3) by (auto simp: wrap_exts_def)
  obtain e' where e: "e = 46 # e'" and e': "46 \<notin> set e'" "47 \<notin> set e'" "92 \<notin> set e'"
    by (rule lower_dot[OF y])
  have dot: "find_last_char s 46 = Some (length b + 4)"
    using find_last_char_append[OF x(2), of "b @ e"] le by (simp add: s(1) x(1))
  have "\<forall>i. length b < i \<and> i \<le> length b + 3 \<longrightarrow> s ! i \<notin> {47, 92, 46}"
  proof (intro allI impI)
    fix i assume i: "length b < i \<and> i \<le> length b + 3"
    define j where "j = i - length b - 1"
    have j: "i = length b + Suc j" "j < length e'" using i le by (auto simp: j_def e)
    then have "s ! i \<in> set e'" by (simp add: s(1) e nth_append)
    with e' show "s ! i \<notin> {47, 92, 46}" by auto
  qed
  from back_to_dot_run[OF this] have backs: "back_to_dot s (length b + 3) = length b"
    by (simp add: s(1) e nth_append)
  have tk: "take 4 (drop (length b) s) = e" using le by (simp add: s(1))
  have "s ! length b = 46" by (simp add: s(1) e nth_append)
  moreover have "\<exists>f. zms_vod_format_find_by_extension r (Some e) = Some f \<and> vf_can_flv_wrap f"
    using s(3) by (auto simp: builtin_by_ext[OF assms] wrap_exts_def vod_mov_def vod_mkv_def)
  moreover have "length s = length b + 8" "drop (length s - 4) s = x" using lx le by (simp_all add: s(1))
  moreover have q: "back_to_dot s (3 + length b) = length b" using backs by (simp only: add.commute)
  ultimately show ?l
    using s(2) lower_exts(1) unfolding zms_vod_format_stream_is_flv_wrap_suffix_def Let_def dot
    by (elim exE conjE) (simp add: q tk strcaseeq_def)
next
  assume l: ?l
  let ?n = "length s" let ?x = "drop (?n - 4) s"
  from l have n: "8 \<le> ?n" and x: "map tolower ?x = asc ''.flv''"
    by (auto simp: zms_vod_format_stream_is_flv_wrap_suffix_def Let_def strcaseeq_def tolower_def split: if_splits)
  obtain x' where x': "?x = 46 # x'" "46 \<notin> set x'" by (rule lower_dot[OF x[simplified]]) auto
  have "s = take (?n - 4) s @ 46 # x'" using append_take_drop_id[of "?n - 4" s] x'(1) by simp
  moreover have "length (take (?n - 4) s) = ?n - 4" by simp
  ultimately have dot: "find_last_char s 46 = Some (?n - 4)"
    using find_last_char_append[OF x'(2), of "take (?n - 4) s"] by metis
  let ?p = "back_to_dot s (?n - 4 - 1)" let ?e = "take (?n - 4 - ?p) (drop ?p s)"
  have "?p \<le> ?n - 4" using back_to_dot_le[of s "?n - 4 - 1"] by simp
  then have "s = take ?p s @ ?e @ ?x"
    by (rule take_mid)
  moreover have "\<exists>f. zms_vod_format_find_by_extension r (Some ?e) = Some f \<and> vf_can_flv_wrap f"
    using l n by (auto simp: zms_vod_format_stream_is_flv_wrap_suffix_def Let_def dot split: if_splits option.splits)
  then have "map tolower ?e \<in> set wrap_exts"
    unfolding builtin_by_ext[OF assms] by (auto simp: wrap_exts_def vod_flv_def split: if_splits)
  ultimately show ?r using x by blast
qed

end
