(* ===== verification/Vod_Path.thy ===== *)
theory Vod_Path
  imports Vod_Format Hub_Ops
begin

text \<open>
  Names and files of on-demand streams (\<open>vod/io/vod_source.c\<close>): the configuration, the rules that
  turn the name of a stream into a path below the root of the recordings, and which file a play
  request opens. Strings have no byte 0. What the file system holds is a parameter: \<open>exists\<close> says
  whether there is a file, \<open>dir\<close> lists a directory. The configuration and the formats, globals of
  the process, are arguments.
\<close>

definition ZMS_CFG_PATH_MAX :: nat where "ZMS_CFG_PATH_MAX = 512"
definition ZMS_VOD_DIR_PATH_MAX :: nat where "ZMS_VOD_DIR_PATH_MAX = ZMS_CFG_PATH_MAX + ZMS_APP_MAX + ZMS_STREAM_MAX + 4"
definition ZMS_VOD_M3U8_REL_MAX :: nat where "ZMS_VOD_M3U8_REL_MAX = ZMS_STREAM_MAX * 2 + 4"

record zms_vod_config =
  vc_record_app :: bytes
  vc_record_root :: bytes
  vc_file_repeat :: int

definition zms_vod_config_default :: zms_vod_config where
  "zms_vod_config_default = \<lparr>vc_record_app = asc ''vod'', vc_record_root = asc ''./www'', vc_file_repeat = 0\<rparr>"

text \<open>The section \<open>[record]\<close> of the configuration file: application, root, repetition.\<close>

definition zms_vod_config_apply :: "bytes \<Rightarrow> bytes \<Rightarrow> int \<Rightarrow> zms_vod_config" where
  "zms_vod_config_apply app root repeat_file =
     (let d = zms_vod_config_default
      in \<lparr>vc_record_app = (if app = [] then vc_record_app d else fit ZMS_APP_MAX app),
          vc_record_root = (if root \<noteq> [] \<and> C_String.strstr root (asc ''/record'') = None \<and> C_String.strstr root (92 # asc ''record'') = None
            then fit ZMS_CFG_PATH_MAX root else vc_record_root d),
          vc_file_repeat = repeat_file\<rparr>)"

definition zms_vod_is_record_app :: "zms_vod_config \<Rightarrow> bytes \<Rightarrow> bool" where
  "zms_vod_is_record_app cfg app \<longleftrightarrow> vc_record_app cfg \<noteq> [] \<and> app = vc_record_app cfg"

section \<open>The name of a stream\<close>

definition zms_vod_stream_is_vod_flv_wrap_suffix :: "vod_formats \<Rightarrow> bytes \<Rightarrow> bool" where
  "zms_vod_stream_is_vod_flv_wrap_suffix F s \<longleftrightarrow> zms_vod_format_stream_is_flv_wrap_suffix F s"

definition zms_vod_stream_is_native_flv_file :: "vod_formats \<Rightarrow> bytes \<Rightarrow> bool" where
  "zms_vod_stream_is_native_flv_file F s \<longleftrightarrow>
     \<not> zms_vod_stream_is_vod_flv_wrap_suffix F s \<and> zms_vod_format_stream_is_native_file F s"

definition vod_has_media_ext :: "vod_formats \<Rightarrow> bytes \<Rightarrow> bool" where
  "vod_has_media_ext F s \<longleftrightarrow> zms_vod_format_stream_has_supported_ext F s"

definition zms_vod_stream_has_disk_container_ext :: "vod_formats \<Rightarrow> bytes \<Rightarrow> bool" where
  "zms_vod_stream_has_disk_container_ext F s \<longleftrightarrow> vod_has_media_ext F s \<and> \<not> zms_vod_format_stream_is_native_file F s"

definition vod_strip_media_suffix :: "vod_formats \<Rightarrow> bytes \<Rightarrow> bytes" where
  "vod_strip_media_suffix F s =
     (if \<not> zms_vod_format_stream_has_supported_ext F s then s
      else case find_last_char s 46 of None \<Rightarrow> s | Some i \<Rightarrow> if i = 0 then s else take i s)"

definition rtmp_types :: "bytes list" where
  "rtmp_types = [asc ''mp4'', asc ''flv'', asc ''mp3'', asc ''m4v'', asc ''m4a'']"

definition vod_strip_rtmp_type_prefix :: "bytes \<Rightarrow> bytes" where
  "vod_strip_rtmp_type_prefix s =
     (case find_char s 58 of
        None \<Rightarrow> s
      | Some i \<Rightarrow> if i \<noteq> 0 \<and> take i s \<in> set rtmp_types then drop (Suc i) s else s)"

definition vod_strip_vod_flv_wrap_suffix :: "vod_formats \<Rightarrow> bytes \<Rightarrow> bytes" where
  "vod_strip_vod_flv_wrap_suffix F s = (if zms_vod_stream_is_vod_flv_wrap_suffix F s then take (length s - 4) s else s)"

definition zms_vod_canonical_stream :: "vod_formats \<Rightarrow> bytes \<Rightarrow> nat \<Rightarrow> bytes" where
  "zms_vod_canonical_stream F s cap =
     (if s = [] then []
      else let t = vod_strip_rtmp_type_prefix (fit cap s)
           in if zms_vod_stream_is_vod_flv_wrap_suffix F t then vod_strip_vod_flv_wrap_suffix F t
              else if vod_has_media_ext F t then t
              else let e = zms_vod_format_default_extension F
                   in if length t + length e \<ge> cap then t else t @ e)"

definition zms_vod_stream_basename :: "vod_formats \<Rightarrow> bytes \<Rightarrow> nat \<Rightarrow> bytes" where
  "zms_vod_stream_basename F s cap = fit cap (vod_strip_media_suffix F (fit ZMS_STREAM_MAX s))"

section \<open>Paths\<close>

definition zms_vod_rel_path_safe :: "bytes \<Rightarrow> bool" where
  "zms_vod_rel_path_safe rel \<longleftrightarrow> (case rel of [] \<Rightarrow> False | c # _ \<Rightarrow> c \<noteq> 47 \<and> c \<noteq> 92 \<and> C_String.strstr rel [46, 46] = None)"

definition zms_vod_resolve_rel_path :: "zms_vod_config \<Rightarrow> bytes \<Rightarrow> bytes \<Rightarrow> nat \<Rightarrow> bytes option" where
  "zms_vod_resolve_rel_path cfg app rel cap =
     (if \<not> zms_vod_rel_path_safe rel then None
      else let p = vc_record_root cfg @ [47] @ app @ [47] @ rel in if length p < cap then Some p else None)"

definition ends_with :: "bytes \<Rightarrow> bytes \<Rightarrow> bool" where
  "ends_with s x \<longleftrightarrow> length x \<le> length s \<and> drop (length s - length x) s = x"

definition zms_vod_m3u8_rel_to_mp4_stream :: "bytes \<Rightarrow> nat \<Rightarrow> bytes option" where
  "zms_vod_m3u8_rel_to_mp4_stream rel cap =
     (let n = length rel
      in if \<not> zms_vod_rel_path_safe rel \<or> n < 6 \<or> \<not> ends_with rel (asc ''.m3u8'') \<or> n - 5 \<ge> cap then None
         else if n - 5 + 4 \<ge> cap then None else Some (take (n - 5) rel @ asc ''.mp4''))"

definition zms_vod_mp4_stream_to_m3u8_rel :: "bytes \<Rightarrow> nat \<Rightarrow> bytes option" where
  "zms_vod_mp4_stream_to_m3u8_rel s cap =
     (let n = length s
      in if n < 5 \<or> \<not> ends_with s (asc ''.mp4'') \<or> n - 4 + 5 \<ge> cap then None
         else Some (take (n - 4) s @ asc ''.m3u8''))"

text \<open>The only playlist of a directory: none when there are two.\<close>

fun the_m3u8 :: "bytes option \<Rightarrow> bytes list \<Rightarrow> bytes option" where
  "the_m3u8 found [] = found"
| "the_m3u8 found (e # es) =
     (if e = [] then the_m3u8 found es
      else if hd e = 46 \<or> length e < 6 \<or> \<not> ends_with e (asc ''.m3u8'') then the_m3u8 found es
      else if found \<noteq> None then None
      else the_m3u8 (Some (fit ZMS_STREAM_MAX e)) es)"

definition zms_vod_infer_stream_from_ts :: "(bytes \<Rightarrow> bytes list option) \<Rightarrow> zms_vod_config \<Rightarrow> bytes \<Rightarrow> bytes \<Rightarrow> nat \<Rightarrow> bytes option" where
  "zms_vod_infer_stream_from_ts dir cfg app ts_rel cap =
     (if \<not> zms_vod_rel_path_safe ts_rel then None
      else
        let d = fit ZMS_STREAM_MAX ts_rel;
            dir_rel = (case find_last_char d 47 of None \<Rightarrow> d | Some i \<Rightarrow> take i d);
            p = vc_record_root cfg @ [47] @ app @ (if dir_rel = [] then [] else 47 # dir_rel)
        in if length p \<ge> ZMS_VOD_DIR_PATH_MAX then None
           else case dir p of
             None \<Rightarrow> None
           | Some es \<Rightarrow>
               (case the_m3u8 None es of
                  None \<Rightarrow> None
                | Some m \<Rightarrow>
                    if m = [] then None
                    else let rel = (if dir_rel = [] then m else dir_rel @ [47] @ m)
                         in if length rel \<ge> ZMS_VOD_M3U8_REL_MAX then None else zms_vod_m3u8_rel_to_mp4_stream rel cap))"

section \<open>The file of a stream\<close>

definition vod_resolve_candidate :: "(bytes \<Rightarrow> bool) \<Rightarrow> zms_vod_config \<Rightarrow> bytes \<Rightarrow> bytes \<Rightarrow> nat \<Rightarrow> bytes option" where
  "vod_resolve_candidate exists cfg app rel cap =
     (if rel = [] then None
      else case zms_vod_resolve_rel_path cfg app rel ZMS_CFG_PATH_MAX of
        None \<Rightarrow> None
      | Some p \<Rightarrow> if exists p then Some (fit cap p) else None)"

definition vod_resolve_registered_ext_cb :: "(bytes \<Rightarrow> bool) \<Rightarrow> zms_vod_config \<Rightarrow> vod_formats \<Rightarrow> bytes \<Rightarrow> bytes \<Rightarrow> nat
    \<Rightarrow> bytes option \<Rightarrow> bytes \<Rightarrow> bool \<times> bytes option" where
  "vod_resolve_registered_ext_cb exists cfg F app canon cap found ext =
     (if ext = [] \<or> vod_has_media_ext F canon \<or> length (fit ZMS_STREAM_MAX canon) + length ext \<ge> ZMS_STREAM_MAX
      then (False, found)
      else case vod_resolve_candidate exists cfg app (fit ZMS_STREAM_MAX canon @ ext) cap of
        None \<Rightarrow> (False, found)
      | Some p \<Rightarrow> (True, Some p))"

definition zms_vod_resolve_file_path :: "(bytes \<Rightarrow> bool) \<Rightarrow> zms_vod_config \<Rightarrow> vod_formats \<Rightarrow> bytes \<Rightarrow> bytes \<Rightarrow> nat \<Rightarrow> bytes option" where
  "zms_vod_resolve_file_path exists cfg F app stream cap =
     (let canon = vod_strip_rtmp_type_prefix (fit ZMS_STREAM_MAX stream)
      in if zms_vod_stream_is_vod_flv_wrap_suffix F canon then
           vod_resolve_candidate exists cfg app (vod_strip_vod_flv_wrap_suffix F canon) cap
         else if zms_vod_stream_is_native_flv_file F canon then vod_resolve_candidate exists cfg app canon cap
         else case vod_resolve_candidate exists cfg app canon cap of
           Some p \<Rightarrow> Some p
         | None \<Rightarrow>
             (case snd (zms_vod_format_foreach_extension F (vod_resolve_registered_ext_cb exists cfg F app canon cap) None) of
                Some p \<Rightarrow> Some p
              | None \<Rightarrow> vod_resolve_candidate exists cfg app (zms_vod_canonical_stream F stream ZMS_STREAM_MAX) cap))"

definition zms_vod_probe_duration_ms :: "(vod_probe \<Rightarrow> bytes \<Rightarrow> nat) \<Rightarrow> (bytes \<Rightarrow> bool) \<Rightarrow> zms_vod_config \<Rightarrow> vod_formats
    \<Rightarrow> bytes \<Rightarrow> bytes \<Rightarrow> nat" where
  "zms_vod_probe_duration_ms dur exists cfg F app stream =
     (case zms_vod_resolve_file_path exists cfg F app stream ZMS_CFG_PATH_MAX of
        None \<Rightarrow> 0
      | Some p \<Rightarrow> zms_vod_format_probe_duration_ms dur F p)"

section \<open>Opening\<close>

text \<open>
  What opening a stream asks for: the file, the name under which the source is registered, and
  whether the file repeats. Registering it and running its reader follow in the hub.
\<close>

record vod_open_req =
  vo_file :: bytes
  vo_app :: bytes
  vo_stream :: bytes
  vo_loop :: int

definition zms_vod_source_open :: "(bytes \<Rightarrow> bool) \<Rightarrow> zms_vod_config \<Rightarrow> vod_formats \<Rightarrow> bytes \<Rightarrow> bytes \<Rightarrow> bytes \<Rightarrow> vod_open_req option" where
  "zms_vod_source_open exists cfg F app stream file_path =
     (let norm = zms_vod_canonical_stream F stream ZMS_STREAM_MAX
      in if norm = [] then None
         else case (if file_path = [] then zms_vod_resolve_file_path exists cfg F app norm ZMS_CFG_PATH_MAX else Some file_path) of
           None \<Rightarrow> None
         | Some path \<Rightarrow> Some \<lparr>vo_file = path, vo_app = app, vo_stream = norm, vo_loop = vc_file_repeat cfg\<rparr>)"

datatype 'a vod_found = Vod_Found 'a | Vod_Open vod_open_req | Vod_Missing

text \<open>
  \<open>find\<close> is \<open>zms_media_source_find_api\<close> of the schema; \<open>poller\<close> says whether there is one to run
  a reader on.\<close>

definition zms_vod_source_find_or_open :: "(bytes \<Rightarrow> bool) \<Rightarrow> zms_vod_config \<Rightarrow> vod_formats \<Rightarrow> (bytes \<Rightarrow> bytes \<Rightarrow> 'a option) \<Rightarrow> bool
    \<Rightarrow> bytes \<Rightarrow> bytes \<Rightarrow> 'a vod_found" where
  "zms_vod_source_find_or_open exists cfg F find_api poller app stream =
     (if stream = [] then Vod_Missing
      else case find_api app stream of
        Some s \<Rightarrow> Vod_Found s
      | None \<Rightarrow>
          let canon = zms_vod_canonical_stream F stream ZMS_STREAM_MAX
          in case (if canon \<noteq> [] \<and> canon \<noteq> stream then find_api app canon else None) of
               Some s \<Rightarrow> Vod_Found s
             | None \<Rightarrow>
                 if app \<noteq> vc_record_app cfg \<or> \<not> poller then Vod_Missing
                 else case zms_vod_source_open exists cfg F app (if canon \<noteq> [] then canon else stream) [] of
                        None \<Rightarrow> Vod_Missing | Some r \<Rightarrow> Vod_Open r)"

section \<open>What is opened stays below the root\<close>

lemma starts_with_append: "starts_with p (p @ r)"
  by (simp add: starts_with_def)

lemma strstr_infix: "C_String.strstr (a @ p @ b) p \<noteq> None"
proof (induction a)
  case Nil
  show ?case using starts_with_append[of p b] by (cases "p @ b") auto
qed simp

text \<open>The parts of a path between its separators, of either kind.\<close>

fun path_parts :: "bytes \<Rightarrow> bytes list" where
  "path_parts [] = [[]]"
| "path_parts (c # s) = (if c = 47 \<or> c = 92 then [] # path_parts s
     else case path_parts s of p # ps \<Rightarrow> (c # p) # ps | [] \<Rightarrow> [[c]])"

lemma path_parts_infix: "(\<exists>b. s = hd (path_parts s) @ b) \<and> (\<forall>p \<in> set (path_parts s). \<exists>a b. s = a @ p @ b)"
proof (induction s)
  case (Cons c s)
  then obtain b0 where b0: "s = hd (path_parts s) @ b0" by blast
  have tl: "\<exists>a b. c # s = a @ p @ b" if p: "p \<in> set (path_parts s)" for p
  proof -
    from p Cons.IH obtain a b where "s = a @ p @ b" by blast
    then have "c # s = (c # a) @ p @ b" by simp
    then show ?thesis by blast
  qed
  show ?case
  proof (cases "c = 47 \<or> c = 92")
    case True
    then have e: "path_parts (c # s) = [] # path_parts s" by auto
    have n: "\<exists>a b. c # s = a @ [] @ b" by (rule exI[of _ "[]"], rule exI[of _ "c # s"]) simp
    show ?thesis unfolding e
    proof (intro conjI ballI)
      show "\<exists>b. c # s = hd ([] # path_parts s) @ b" by simp
      show "\<exists>a b. c # s = a @ p @ b" if "p \<in> set ([] # path_parts s)" for p
        using that tl[of p] n by (cases "p = []") (blast, simp)
    qed
  next
    case False
    show ?thesis
    proof (cases "path_parts s")
      case Nil
      with False have e: "path_parts (c # s) = [[c]]" by auto
      have "c # s = [] @ [c] @ s" by simp
      then have "\<exists>a b. c # s = a @ [c] @ b" by blast
      then show ?thesis unfolding e by simp
    next
      case (Cons p ps)
      then have e0: "c # s = (c # p) @ b0" "c # s = [] @ (c # p) @ b0" using b0 by simp_all
      have h: "\<exists>b. c # s = (c # p) @ b" "\<exists>a b. c # s = a @ (c # p) @ b" using e0(1) e0(2) by blast+
      from Cons False have e: "path_parts (c # s) = (c # p) # ps" by auto
      show ?thesis unfolding e
      proof (intro conjI ballI)
        show "\<exists>b. c # s = hd ((c # p) # ps) @ b" using h(1) by simp
        show "\<exists>a b. c # s = a @ q @ b" if "q \<in> set ((c # p) # ps)" for q
          using that tl[of q] h(2) Cons by (cases "q = c # p") auto
      qed
    qed
  qed
qed simp

lemma safe_parts: "zms_vod_rel_path_safe rel \<Longrightarrow> p \<in> set (path_parts rel) \<Longrightarrow> p \<noteq> asc ''..''"
proof
  assume r: "zms_vod_rel_path_safe rel" and p: "p \<in> set (path_parts rel)" "p = asc ''..''"
  obtain a b where "rel = a @ asc ''..'' @ b" using path_parts_infix[of rel] p by blast
  then have "C_String.strstr rel [46, 46] \<noteq> None" using strstr_infix[of a "[46, 46]" b] by simp
  with r show False by (auto simp: zms_vod_rel_path_safe_def split: list.splits)
qed

text \<open>A file below the directory of an application: no part of the way there leads out of it.\<close>

definition vod_below :: "zms_vod_config \<Rightarrow> bytes \<Rightarrow> bytes \<Rightarrow> bool" where
  "vod_below cfg app path \<longleftrightarrow> (\<exists>rel. path = vc_record_root cfg @ asc ''/'' @ app @ asc ''/'' @ rel
     \<and> rel \<noteq> [] \<and> hd rel \<noteq> 47 \<and> hd rel \<noteq> 92 \<and> (\<forall>p \<in> set (path_parts rel). p \<noteq> asc ''..''))"

lemma candidate_below:
  assumes "vod_resolve_candidate exists cfg app rel ZMS_CFG_PATH_MAX = Some p"
  shows "vod_below cfg app p \<and> exists p"
proof -
  from assms obtain q where q: "zms_vod_resolve_rel_path cfg app rel ZMS_CFG_PATH_MAX = Some q" "exists q" "p = fit ZMS_CFG_PATH_MAX q"
    by (auto simp: vod_resolve_candidate_def split: if_splits option.splits)
  then have s: "zms_vod_rel_path_safe rel" "q = vc_record_root cfg @ [47] @ app @ [47] @ rel" "length q < ZMS_CFG_PATH_MAX"
    by (auto simp: zms_vod_resolve_rel_path_def Let_def split: if_splits)
  have "p = q" using q(3) s(3) by (simp add: fit_def)
  moreover have "rel \<noteq> [] \<and> hd rel \<noteq> 47 \<and> hd rel \<noteq> 92" using s(1) by (auto simp: zms_vod_rel_path_safe_def split: list.splits)
  ultimately show ?thesis using s(2) q(2) safe_parts[OF s(1)] by (auto simp: vod_below_def)
qed

lemma visit_keeps:
  assumes "\<And>s e. P s \<Longrightarrow> P (snd (cb s e))" "P s" shows "P (snd (visit_extensions cb s es))"
  using assms(2)
proof (induction es arbitrary: s)
  case (Cons e es)
  have "P (snd (cb s e))" using assms(1) Cons.prems by blast
  with Cons.IH show ?case by (auto split: prod.splits) (metis snd_conv)
qed simp

lemma resolve_below:
  assumes "zms_vod_resolve_file_path exists cfg F app stream ZMS_CFG_PATH_MAX = Some p"
  shows "vod_below cfg app p \<and> exists p"
proof -
  let ?cb = "vod_resolve_registered_ext_cb exists cfg F app (vod_strip_rtmp_type_prefix (fit ZMS_STREAM_MAX stream)) ZMS_CFG_PATH_MAX"
  let ?P = "\<lambda>x. \<forall>q. x = Some q \<longrightarrow> vod_below cfg app q \<and> exists q"
  have "?P (snd (zms_vod_format_foreach_extension F ?cb None))"
    unfolding zms_vod_format_foreach_extension_def
    by (rule visit_keeps) (auto simp: vod_resolve_registered_ext_cb_def split: option.splits dest: candidate_below)
  then show ?thesis
    using assms by (auto simp: zms_vod_resolve_file_path_def Let_def split: if_splits option.splits dest: candidate_below)
qed

text \<open>
  C23: Whatever a play request asks for, the file that is opened for it exists and lies below the
  directory of the configured application, and only that application opens files at all.\<close>

theorem vod_file_contained:
  assumes "zms_vod_source_find_or_open exists cfg F find_api poller app stream = Vod_Open r"
  shows "app = vc_record_app cfg \<and> vo_app r = app \<and> exists (vo_file r) \<and> vod_below cfg (vc_record_app cfg) (vo_file r)"
proof -
  let ?c = "zms_vod_canonical_stream F stream ZMS_STREAM_MAX"
  have app: "app = vc_record_app cfg" and "zms_vod_source_open exists cfg F app (if ?c \<noteq> [] then ?c else stream) [] = Some r"
    using assms by (auto simp: zms_vod_source_find_or_open_def Let_def split: if_splits option.splits)
  then obtain norm where r: "zms_vod_resolve_file_path exists cfg F app norm ZMS_CFG_PATH_MAX = Some (vo_file r)" "vo_app r = app"
    by (auto simp: zms_vod_source_open_def Let_def split: if_splits option.splits)
  with app resolve_below[OF r(1)] show ?thesis by simp
qed

lemma vod_file_contained_witness:
  "\<exists>r. zms_vod_source_find_or_open (\<lambda>p. p = asc ''./www/vod/a/b.mp4'') zms_vod_config_default vod_formats_start
      (\<lambda>_ _. None :: nat option) True (asc ''vod'') (asc ''mp4:a/b'') = Vod_Open r
    \<and> vo_file r = asc ''./www/vod/a/b.mp4'' \<and> vod_below zms_vod_config_default (asc ''vod'') (vo_file r)"
proof -
  let ?f = "zms_vod_source_find_or_open (\<lambda>p. p = asc ''./www/vod/a/b.mp4'') zms_vod_config_default vod_formats_start
      (\<lambda>_ _. None :: nat option) True (asc ''vod'') (asc ''mp4:a/b'')"
  obtain r where r: "?f = Vod_Open r" "vo_file r = asc ''./www/vod/a/b.mp4''"
  proof -
    have "?f = Vod_Open \<lparr>vo_file = asc ''./www/vod/a/b.mp4'', vo_app = asc ''vod'', vo_stream = asc ''a/b.mp4'', vo_loop = 0\<rparr>"
      by code_simp
    then show thesis using that by simp
  qed
  then show ?thesis using vod_file_contained[OF r(1)] by (auto simp: zms_vod_config_default_def)
qed

section \<open>Names\<close>

text \<open>A name keeps its form once it has it: without a colon, taking the canonical name twice is taking it once.\<close>

lemma strip_no_colon: "58 \<notin> set s \<Longrightarrow> vod_strip_rtmp_type_prefix s = s"
  by (simp add: vod_strip_rtmp_type_prefix_def find_char_None[THEN iffD2])

lemma ext_known:
  assumes "vod_builtin F" "map tolower e \<in> set wrap_exts"
  shows "vod_has_media_ext F (b @ e) \<and> \<not> zms_vod_stream_is_vod_flv_wrap_suffix F (b @ e)"
proof -
  obtain y where y: "map tolower e = 46 # y" "46 \<notin> set y" "47 \<notin> set y" "92 \<notin> set y" "y \<noteq> []" "y \<noteq> asc ''flv''"
    using assms(2) by (auto simp: wrap_exts_def)
  obtain e' where e: "e = 46 # e'" "map tolower e' = y" "46 \<notin> set e'" "47 \<notin> set e'" "92 \<notin> set e'"
    by (rule lower_dot[OF y(1-4)])
  have "path_ext (b @ e) = Some e" using path_ext_dot[of e' b] e y(5) by auto
  then have "vod_has_media_ext F (b @ e)"
    using assms(2) by (auto simp: vod_has_media_ext_def zms_vod_format_stream_has_supported_ext_def zms_vod_format_find_by_path_def
        builtin_by_ext[OF assms(1)] wrap_exts_def)
  moreover have "\<not> zms_vod_format_stream_is_flv_wrap_suffix F (b @ e)"
  proof
    assume "zms_vod_format_stream_is_flv_wrap_suffix F (b @ e)"
    then obtain c g x where s: "b @ e = c @ g @ x" "map tolower x = asc ''.flv''" using flv_wrap_iff[OF assms(1)] by blast
    have "length x = 4" "length e = 4"
      using arg_cong[OF s(2), of length] arg_cong[of "map tolower e" _ length, OF refl] assms(2) by (auto simp: wrap_exts_def map_eq_Cons_conv)
    then have "e = x" using s(1) by (metis append_assoc append_eq_append_conv)
    with s(2) y(1,6) show False by simp
  qed
  ultimately show ?thesis by (simp add: zms_vod_stream_is_vod_flv_wrap_suffix_def)
qed

lemma builtin_default: "vod_builtin F \<Longrightarrow> zms_vod_format_default_extension F = asc ''.mp4''"
  by (simp add: vod_builtin_def zms_vod_format_default_extension_def vod_mov_def)

theorem canonical_idempotent:
  assumes "vod_builtin F" "58 \<notin> set s"
  shows "zms_vod_canonical_stream F (zms_vod_canonical_stream F s cap) cap = zms_vod_canonical_stream F s cap"
proof -
  let ?t = "fit cap s"
  have c: "58 \<notin> set ?t" using assms(2) set_take_subset[of "cap - 1" s] by (auto simp: fit_def)
  have l: "length ?t \<le> cap - 1" by (simp add: fit_def)
  have known: "zms_vod_canonical_stream F (b @ e) cap = b @ e"
    if "map tolower e \<in> set wrap_exts" "58 \<notin> set (b @ e)" "length (b @ e) \<le> cap - 1" for b e
  proof -
    have "e \<noteq> []" using that(1) by (auto simp: wrap_exts_def)
    moreover have "fit cap (b @ e) = b @ e" using that(3) by (simp add: fit_def)
    ultimately show ?thesis using ext_known[OF assms(1) that(1), of b] strip_no_colon[OF that(2)]
      by (simp add: zms_vod_canonical_stream_def)
  qed
  show ?thesis
  proof (cases "s = [] \<or> ?t = []")
    case True
    have "\<not> zms_vod_stream_is_vod_flv_wrap_suffix F []"
      by (simp add: zms_vod_stream_is_vod_flv_wrap_suffix_def zms_vod_format_stream_is_flv_wrap_suffix_def)
    moreover have "\<not> vod_has_media_ext F []"
      by (simp add: vod_has_media_ext_def zms_vod_format_stream_has_supported_ext_def zms_vod_format_find_by_path_def path_ext_def
          find_last_char_None[THEN iffD2] zms_vod_format_find_by_extension_def)
    ultimately have "zms_vod_canonical_stream F s cap = []"
      using True builtin_default[OF assms(1)] strip_no_colon[of "[]"]
      by (cases "s = []") (simp_all add: zms_vod_canonical_stream_def fit_def)
    then show ?thesis by (simp add: zms_vod_canonical_stream_def)
  next
    case False
    have t: "fit cap ?t = ?t" by (simp add: fit_def)
    show ?thesis
    proof (cases "zms_vod_stream_is_vod_flv_wrap_suffix F ?t")
      case True
      then obtain b e x where s: "?t = b @ e @ x" "map tolower x = asc ''.flv''" "map tolower e \<in> set wrap_exts"
        using flv_wrap_iff[OF assms(1)] by (auto simp: zms_vod_stream_is_vod_flv_wrap_suffix_def)
      have "length x = 4" using arg_cong[OF s(2), of length] by simp
      then have "zms_vod_canonical_stream F s cap = b @ e"
        using False True strip_no_colon[OF c] by (simp add: zms_vod_canonical_stream_def vod_strip_vod_flv_wrap_suffix_def s(1))
      with known[OF s(3), of b] c l show ?thesis by (simp add: s(1))
    next
      case nowrap: False
      show ?thesis
      proof (cases "vod_has_media_ext F ?t \<or> length ?t + 4 \<ge> cap")
        case True
        then have "zms_vod_canonical_stream F s cap = ?t"
          using False nowrap strip_no_colon[OF c] builtin_default[OF assms(1)] by (auto simp: zms_vod_canonical_stream_def Let_def)
        moreover have "zms_vod_canonical_stream F ?t cap = ?t"
          using True False nowrap strip_no_colon[OF c] builtin_default[OF assms(1)] t
          by (auto simp: zms_vod_canonical_stream_def Let_def)
        ultimately show ?thesis by simp
      next
        case noext: False
        then have "zms_vod_canonical_stream F s cap = ?t @ asc ''.mp4''"
          using False nowrap strip_no_colon[OF c] builtin_default[OF assms(1)] by (simp add: zms_vod_canonical_stream_def)
        moreover have "Suc (Suc (Suc (Suc (length ?t)))) \<le> cap - Suc 0" using noext by linarith
        ultimately show ?thesis using known[of "asc ''.mp4''" ?t] c by (simp add: wrap_exts_def tolower_def)
      qed
    qed
  qed
qed

text \<open>Playlist and file name each other.\<close>

lemma ends_with_append: "ends_with (a @ x) x"
  by (simp add: ends_with_def)

theorem m3u8_names_roundtrip:
  assumes "zms_vod_rel_path_safe (b @ asc ''.m3u8'')" "b \<noteq> []" "length b + 5 < cap"
  shows "zms_vod_mp4_stream_to_m3u8_rel (b @ asc ''.mp4'') cap = Some (b @ asc ''.m3u8'')
    \<and> zms_vod_m3u8_rel_to_mp4_stream (b @ asc ''.m3u8'') cap = Some (b @ asc ''.mp4'')"
  using assms ends_with_append[of b "asc ''.mp4''"] ends_with_append[of b "asc ''.m3u8''"]
  by (auto simp: zms_vod_mp4_stream_to_m3u8_rel_def zms_vod_m3u8_rel_to_mp4_stream_def Let_def Suc_le_eq)

text \<open>
  A segment at the top of the application is not found its stream: the name of the segment itself
  is listed as a directory. Nothing that the directory of the application holds changes that.\<close>

theorem ts_at_top_not_inferred:
  assumes "47 \<notin> set ts" "length ts < ZMS_STREAM_MAX" "dir (vc_record_root cfg @ asc ''/'' @ app @ asc ''/'' @ ts) = None"
  shows "zms_vod_infer_stream_from_ts dir cfg app ts cap = None"
proof -
  have "fit ZMS_STREAM_MAX ts = ts" "find_last_char ts 47 = None" using assms(1,2) by (simp_all add: fit_def find_last_char_None)
  moreover have "ts \<noteq> []" if "zms_vod_rel_path_safe ts" using that by (auto simp: zms_vod_rel_path_safe_def)
  ultimately show ?thesis using assms(3) by (auto simp: zms_vod_infer_stream_from_ts_def Let_def)
qed

end
