(* ===== verification/Http_Route.thy ===== *)
theory Http_Route
  imports Vod_Path
begin

text \<open>
  What the path of a request asks for (\<open>session/http/http_route_path.c\<close>): the application, the
  stream and the file of live and on-demand HTTP-FLV, HTTP-TS, HLS, MP4 and DASH requests, and how
  the lines of a playlist are rewritten to paths. Strings have no byte 0. The routines return what
  they leave in the arrays of their caller: those start as empty strings, so a routine that gives
  up leaves a part of its answer there. A copy by \<open>strncpy\<close> that fills its array has no end: the
  string runs on into \<open>rest\<close>, what the array held behind it. \<open>dms\<close> is the conversion of a decimal
  number of seconds by \<open>strtod\<close> to milliseconds, half up.
\<close>

section \<open>The parts of a path\<close>

definition path_ends_with_ci :: "bytes \<Rightarrow> bytes \<Rightarrow> bool" where
  "path_ends_with_ci s x \<longleftrightarrow> length x \<le> length s \<and> C_String.strcaseeq (drop (length s - length x) s) x"

definition route_path :: "bytes \<Rightarrow> bytes" where
  "route_path path = take 511 (takeWhile (\<lambda>c. c \<noteq> 63) path)"

text \<open>Behind the leading slash: the application, cut to its array, and what follows the next slash.\<close>

definition route_split :: "bytes \<Rightarrow> (bytes \<times> bytes) option" where
  "route_split path =
     (let p = tl (route_path path)
      in case find_char p 47 of None \<Rightarrow> None | Some i \<Rightarrow> Some (take (ZMS_APP_MAX - 1) (take i p), drop (Suc i) p))"

definition copy_unterminated :: "nat \<Rightarrow> bytes \<Rightarrow> bytes \<Rightarrow> bytes" where
  "copy_unterminated cap rest s = take (cap - 1) s @ (if length s \<ge> cap - 1 then rest else [])"

definition is_rooted :: "bytes \<Rightarrow> bool" where
  "is_rooted path \<longleftrightarrow> (case path of [] \<Rightarrow> False | c # _ \<Rightarrow> c = 47)"

section \<open>The seek of an HTTP-FLV request\<close>

definition strtoull10 :: "bytes \<Rightarrow> u64" where
  "strtoull10 s =
     (let t = dropWhile isspace s;
          (neg, u) = (case t of c # r \<Rightarrow> if c = 45 then (True, r) else if c = 43 then (False, r) else (False, t)
                      | [] \<Rightarrow> (False, []));
          v = dec_val (takeWhile isdigit u)
      in if v \<ge> 2 ^ 64 then - 1 else if neg then - of_nat v else of_nat v)"

definition parse_query_uint64 :: "bytes \<Rightarrow> bytes \<Rightarrow> u64 option" where
  "parse_query_uint64 q key =
     (case C_String.strstr q (key @ [61]) of None \<Rightarrow> None | Some i \<Rightarrow> Some (strtoull10 (drop (i + length key + 1) q)))"

definition parse_query_double_ms :: "(bytes \<Rightarrow> u64) \<Rightarrow> bytes \<Rightarrow> bytes \<Rightarrow> u64 option" where
  "parse_query_double_ms dms q key =
     (case C_String.strstr q (key @ [61]) of None \<Rightarrow> None | Some i \<Rightarrow> Some (dms (drop (i + length key + 1) q)))"

text \<open>The keys in the order they are tried, and whether they count in seconds.\<close>

definition flv_seek_keys :: "(bool \<times> bytes) list" where
  "flv_seek_keys = [(False, asc ''start''), (True, asc ''seek''), (True, asc ''t''), (True, asc ''time''), (True, asc ''fs''),
     (True, asc ''ec_seek''), (False, asc ''offset''), (False, asc ''pos''), (True, asc ''pos'')]"

fun first_key :: "(bytes \<Rightarrow> u64) \<Rightarrow> bytes \<Rightarrow> (bool \<times> bytes) list \<Rightarrow> u64 option" where
  "first_key dms q [] = None"
| "first_key dms q ((secs, k) # ks) =
     (case (if secs then parse_query_double_ms dms q k else parse_query_uint64 q k) of
        Some v \<Rightarrow> Some v | None \<Rightarrow> first_key dms q ks)"

definition parse_flv_query :: "(bytes \<Rightarrow> u64) \<Rightarrow> bytes \<Rightarrow> u64 option" where
  "parse_flv_query dms query =
     first_key dms (case query of c # q \<Rightarrow> if c = 63 then q else query | [] \<Rightarrow> []) flv_seek_keys"

section \<open>HTTP-FLV\<close>

definition zms_http_route_parse_flv_path :: "zms_vod_config \<Rightarrow> vod_formats \<Rightarrow> (bytes \<Rightarrow> u64) \<Rightarrow> bytes \<Rightarrow> bytes
    \<Rightarrow> bytes \<times> bytes \<times> u64" where
  "zms_http_route_parse_flv_path cfg F dms rest path =
     (if \<not> is_rooted path then ([], [], 0)
      else
        let seek = (case find_char path 63 of None \<Rightarrow> 0
                    | Some i \<Rightarrow> (case parse_flv_query dms (drop i path) of None \<Rightarrow> 0 | Some v \<Rightarrow> v))
        in case route_split path of
             None \<Rightarrow> (copy_unterminated ZMS_APP_MAX rest (tl (route_path path)), [], seek)
           | Some (app, name) \<Rightarrow>
               (app,
                (if zms_vod_is_record_app cfg app \<and> zms_vod_stream_is_vod_flv_wrap_suffix F name
                 then fit ZMS_STREAM_MAX (take (length name - 4) name)
                 else if zms_vod_is_record_app cfg app \<and> zms_vod_stream_is_native_flv_file F name then fit ZMS_STREAM_MAX name
                 else if zms_vod_is_record_app cfg app then []
                 else if path_ends_with_ci name (asc ''.live.flv'') then fit ZMS_STREAM_MAX (take (length name - 9) name)
                 else if path_ends_with_ci name (asc ''.flv'') then fit ZMS_STREAM_MAX (take (length name - 4) name)
                 else []),
                seek))"

section \<open>Segments\<close>

text \<open>A name \<open>stream.N.ext\<close>: the stream and the file \<open>N.ext\<close>. The extension is taken in lower case only.\<close>

definition parse_numbered :: "bytes \<Rightarrow> bytes \<Rightarrow> nat \<Rightarrow> (bytes \<times> bytes) option" where
  "parse_numbered ext name cap =
     (let base = take (length name - length ext) name;
          p = length base - length (takeWhile isdigit (rev base))
      in if length name < length ext + 2 \<or> \<not> ends_with name ext \<or> p = length base \<or> p = 0 \<or> name ! (p - 1) \<noteq> 46
            \<or> p - 1 = 0 \<or> p - 1 \<ge> ZMS_STREAM_MAX then None
         else Some (take (p - 1) name, fit cap (drop p name)))"

definition parse_live_hls_ts_name :: "bytes \<Rightarrow> nat \<Rightarrow> (bytes \<times> bytes) option" where
  "parse_live_hls_ts_name = parse_numbered (asc ''.ts'')"

definition parse_live_hls_m4s_name :: "bytes \<Rightarrow> nat \<Rightarrow> (bytes \<times> bytes) option" where
  "parse_live_hls_m4s_name = parse_numbered (asc ''.m4s'')"

definition hls_seg_file_is_index_media :: "bytes \<Rightarrow> bytes \<Rightarrow> bool" where
  "hls_seg_file_is_index_media fname ext \<longleftrightarrow>
     path_ends_with_ci fname ext \<and> length ext + 1 \<le> length fname \<and> (\<forall>c \<in> set (take (length fname - length ext) fname). isdigit c)"

definition hls_seg_file_is_index_ts :: "bytes \<Rightarrow> bool" where
  "hls_seg_file_is_index_ts fname \<longleftrightarrow> hls_seg_file_is_index_media fname (asc ''.ts'')"

definition hls_seg_file_is_index_m4s :: "bytes \<Rightarrow> bool" where
  "hls_seg_file_is_index_m4s fname \<longleftrightarrow> hls_seg_file_is_index_media fname (asc ''.m4s'')"

definition parse_live_hls_ts_slash_name :: "bytes \<Rightarrow> nat \<Rightarrow> (bytes \<times> bytes) option" where
  "parse_live_hls_ts_slash_name name cap =
     (case find_last_char name 47 of
        None \<Rightarrow> None
      | Some i \<Rightarrow>
          if i = 0 \<or> \<not> hls_seg_file_is_index_ts (drop (Suc i) name) \<or> i \<ge> ZMS_STREAM_MAX then None
          else Some (take i name, fit cap (drop (Suc i) name)))"

definition parse_live_hls_init_name :: "bytes \<Rightarrow> nat \<Rightarrow> (bytes \<times> bytes) option" where
  "parse_live_hls_init_name name cap =
     (let n = length name - 9
      in if \<not> path_ends_with_ci name (asc ''.init.mp4'') \<or> n = 0 \<or> n \<ge> ZMS_STREAM_MAX then None
         else Some (take n name, fit cap (asc ''init.mp4'')))"

section \<open>HTTP-TS, HLS, MP4 and DASH\<close>

definition zms_http_route_parse_live_ts_path :: "zms_vod_config \<Rightarrow> bytes \<Rightarrow> bool \<times> bytes \<times> bytes" where
  "zms_http_route_parse_live_ts_path cfg path =
     (if \<not> is_rooted path then (False, [], [])
      else case route_split path of
        None \<Rightarrow> (False, [], [])
      | Some (app, name) \<Rightarrow>
          if zms_vod_is_record_app cfg app \<or> name = [] \<or> \<not> path_ends_with_ci name (asc ''.ts'')
             \<or> parse_live_hls_ts_name name 128 \<noteq> None \<or> parse_live_hls_ts_slash_name name 128 \<noteq> None
             \<or> length name - 3 = 0 \<or> length name - 3 \<ge> ZMS_STREAM_MAX
          then (False, app, []) else (True, app, take (length name - 3) name))"

text \<open>What a name that is refused leaves in the array of the stream: one that only lacks room for its ending stays without it.\<close>

definition m3u8_left :: "bytes \<Rightarrow> nat \<Rightarrow> bytes" where
  "m3u8_left rel cap =
     (if zms_vod_rel_path_safe rel \<and> 6 \<le> length rel \<and> ends_with rel (asc ''.m3u8'') \<and> length rel - 5 < cap
      then take (length rel - 5) rel else [])"

definition zms_http_route_parse_vod_hls_path :: "zms_vod_config \<Rightarrow> bytes \<Rightarrow> nat \<Rightarrow> bool \<times> bytes \<times> bytes \<times> bytes" where
  "zms_http_route_parse_vod_hls_path cfg path rel_cap =
     (if \<not> is_rooted path then (False, [], [], [])
      else case route_split path of
        None \<Rightarrow> (False, [], [], [])
      | Some (app, part) \<Rightarrow>
          if \<not> zms_vod_is_record_app cfg app \<or> part = [] \<or> \<not> zms_vod_rel_path_safe part then (False, app, [], [])
          else let rel = fit rel_cap part
               in if path_ends_with_ci rel (asc ''.m3u8'') then
                    (case zms_vod_m3u8_rel_to_mp4_stream rel ZMS_STREAM_MAX of
                       None \<Rightarrow> (False, app, m3u8_left rel ZMS_STREAM_MAX, rel) | Some s \<Rightarrow> (True, app, s, rel))
                  else (path_ends_with_ci rel (asc ''.ts''), app, [], rel))"

definition or_else :: "'a option \<Rightarrow> 'a option \<Rightarrow> 'a option" where
  "or_else x y = (case x of None \<Rightarrow> y | Some _ \<Rightarrow> x)"

definition zms_http_route_parse_hls_path :: "zms_vod_config \<Rightarrow> bytes \<Rightarrow> bytes \<Rightarrow> nat \<Rightarrow> bool \<times> bytes \<times> bytes \<times> bytes" where
  "zms_http_route_parse_hls_path cfg rest path cap =
     (if \<not> is_rooted path then (False, [], [], [])
      else case route_split path of
        None \<Rightarrow> (False, [], [], [])
      | Some (app, name) \<Rightarrow>
          if zms_vod_is_record_app cfg app \<and> (path_ends_with_ci name (asc ''.m3u8'') \<or> path_ends_with_ci name (asc ''.ts''))
          then (False, [], [], [])
          else if zms_vod_is_record_app cfg app \<or> name = [] then (False, app, [], [])
          else if path_ends_with_ci name (asc ''/hls.m3u8'') then
            (if length name - 9 = 0 \<or> length name - 9 \<ge> ZMS_STREAM_MAX then (False, app, [], [])
             else (True, app, take (length name - 9) name, copy_unterminated cap rest (asc ''hls.m3u8'')))
          else if path_ends_with_ci name (asc ''.m3u8'') then
            (if length name - 5 = 0 \<or> length name - 5 \<ge> ZMS_STREAM_MAX then (False, app, [], [])
             else (True, app, take (length name - 5) name, copy_unterminated cap rest name))
          else case or_else (parse_live_hls_ts_name name cap) (or_else (parse_live_hls_m4s_name name cap)
                 (or_else (parse_live_hls_init_name name cap) (parse_live_hls_ts_slash_name name cap))) of
                 None \<Rightarrow> (False, app, [], []) | Some (stream, file) \<Rightarrow> (True, app, stream, file))"

definition zms_http_route_parse_mp4_path :: "bytes \<Rightarrow> bool \<times> bytes \<times> bytes" where
  "zms_http_route_parse_mp4_path path =
     (if \<not> is_rooted path \<or> \<not> path_ends_with_ci (route_path path) (asc ''.mp4'') then (False, [], [])
      else case route_split path of
        None \<Rightarrow> (False, [], [])
      | Some (app, name) \<Rightarrow>
          if name = [] \<or> \<not> path_ends_with_ci name (asc ''.mp4'') then (False, app, [])
          else let stream = fit ZMS_STREAM_MAX name in (zms_vod_rel_path_safe stream, app, stream))"

text \<open>The stream of a DASH file: \<open>stream.mpd\<close>, \<open>stream-init.ext\<close>, \<open>stream-N.ext\<close>; a bare \<open>stream-.ext\<close> counts too.\<close>

definition dash_flat_stream_from_fname :: "bytes \<Rightarrow> nat \<Rightarrow> bytes option" where
  "dash_flat_stream_from_fname fname cap =
     (if fname = [] then None
      else if path_ends_with_ci fname (asc ''.mpd'') then
        (let n = length fname - 4 in if n = 0 \<or> n \<ge> cap then None else Some (take n fname))
      else case find_last_char fname 46 of
        None \<Rightarrow> None
      | Some dot \<Rightarrow>
          if dot = 0 then None
          else let base = take dot fname;
                   n = (if 5 \<le> dot \<and> ends_with base (asc ''-init'') then Some (dot - 5)
                        else let p = dot - 1 - length (takeWhile isdigit (rev (drop 1 base)))
                             in if p = 0 \<or> fname ! p \<noteq> 45 then None else Some p)
               in case n of None \<Rightarrow> None | Some n \<Rightarrow> if n = 0 \<or> n \<ge> cap then None else Some (take n fname))"

definition zms_http_route_parse_dash_path :: "zms_vod_config \<Rightarrow> bytes \<Rightarrow> bytes \<Rightarrow> nat \<Rightarrow> bool \<times> bytes \<times> bytes \<times> bytes" where
  "zms_http_route_parse_dash_path cfg rest path cap =
     (if \<not> is_rooted path then (False, [], [], [])
      else case route_split path of
        None \<Rightarrow> (False, [], [], [])
      | Some (app, name) \<Rightarrow>
          if zms_vod_is_record_app cfg app \<or> name = [] \<or> 47 \<in> set name
             \<or> \<not> (\<exists>x \<in> set [asc ''.mpd'', asc ''.m4s'', asc ''.m4v'', asc ''.m4a'']. path_ends_with_ci name x)
          then (False, app, [], [])
          else case dash_flat_stream_from_fname name ZMS_STREAM_MAX of
                 None \<Rightarrow> (False, app, [], [])
               | Some s \<Rightarrow> (True, app, s, copy_unterminated cap rest name))"

section \<open>What the routes promise\<close>

text \<open>A request for a file on disk names one below the directory of the recordings.\<close>

lemma strstr_iff: "C_String.strstr s p \<noteq> None \<longleftrightarrow> (\<exists>a b. s = a @ p @ b)"
proof
  show "C_String.strstr s p \<noteq> None \<Longrightarrow> \<exists>a b. s = a @ p @ b"
  proof (induction s)
    case (Cons c s)
    show ?case
    proof (cases "starts_with p (c # s)")
      case True
      then have "c # s = [] @ p @ drop (length p) (c # s)" by (metis append_Nil append_take_drop_id starts_with_def)
      then show ?thesis by blast
    next
      case False
      with Cons obtain a b where "s = a @ p @ b" by fastforce
      then have "c # s = (c # a) @ p @ b" by simp
      then show ?thesis by blast
    qed
  qed (auto split: if_splits)
qed (use strstr_infix in blast)

lemma safe_fit: "zms_vod_rel_path_safe s \<Longrightarrow> 1 < cap \<Longrightarrow> zms_vod_rel_path_safe (fit cap s)"
proof -
  assume s: "zms_vod_rel_path_safe s" and c: "1 < cap"
  obtain x t where x: "s = x # t" "x \<noteq> 47" "x \<noteq> 92" "C_String.strstr s [46, 46] = None"
    using s by (cases s) (auto simp: zms_vod_rel_path_safe_def)
  have "\<not> (\<exists>a b. fit cap s = a @ [46, 46] @ b)"
  proof
    assume "\<exists>a b. fit cap s = a @ [46, 46] @ b"
    then obtain a b where "s = a @ [46, 46] @ b @ drop (cap - 1) s" by (metis append.assoc append_take_drop_id fit_def)
    then have "C_String.strstr s [46, 46] \<noteq> None" using strstr_infix by metis
    with x(4) show False by simp
  qed
  then have "C_String.strstr (fit cap s) [46, 46] = None" using strstr_iff by blast
  moreover obtain t' where "fit cap s = x # t'" using x(1) c by (cases "cap - 1") (auto simp: fit_def)
  ultimately show ?thesis using x(2,3) by (simp add: zms_vod_rel_path_safe_def)
qed

theorem vod_route_safe:
  assumes "zms_http_route_parse_vod_hls_path cfg path cap = (True, app, stream, rel)" "1 < cap"
  shows "app = vc_record_app cfg \<and> rel \<noteq> [] \<and> hd rel \<noteq> 47 \<and> hd rel \<noteq> 92 \<and> (\<forall>p \<in> set (path_parts rel). p \<noteq> asc ''..'')
    \<and> (path_ends_with_ci rel (asc ''.m3u8'') \<or> path_ends_with_ci rel (asc ''.ts''))"
proof -
  from assms(1) obtain part where r: "rel = fit cap part" "zms_vod_rel_path_safe part" "zms_vod_is_record_app cfg app"
    "path_ends_with_ci rel (asc ''.m3u8'') \<or> path_ends_with_ci rel (asc ''.ts'')"
    by (auto simp: zms_http_route_parse_vod_hls_path_def Let_def split: if_splits option.splits)
  have "zms_vod_rel_path_safe rel" using safe_fit[OF r(2) assms(2)] r(1) by simp
  with r(3,4) safe_parts[of rel] show ?thesis
    by (auto simp: zms_vod_is_record_app_def zms_vod_rel_path_safe_def split: list.splits)
qed

text \<open>
  An offset in milliseconds is never read: its key ends in the one for seconds, which is tried
  first and found within it.\<close>

lemma strstr_suffix: "C_String.strstr q (a @ p) \<noteq> None \<Longrightarrow> C_String.strstr q p \<noteq> None"
proof -
  assume "C_String.strstr q (a @ p) \<noteq> None"
  then obtain u v where "q = (u @ a) @ p @ v" by (auto simp only: strstr_iff append.assoc)
  then show ?thesis using strstr_infix by metis
qed

theorem offset_read_as_seconds:
  assumes "C_String.strstr q (asc ''offset='') \<noteq> None" "C_String.strstr q (asc ''start='') = None" "C_String.strstr q (asc ''seek='') = None"
  shows "\<exists>i. C_String.strstr q (asc ''t='') = Some i \<and> parse_flv_query dms (63 # q) = Some (dms (drop (i + 2) q))"
proof -
  obtain i where i: "C_String.strstr q (asc ''t='') = Some i"
    using strstr_suffix[of q "asc ''offse''" "asc ''t=''"] assms(1) by auto
  then show ?thesis
    using assms(2,3) by (simp add: parse_flv_query_def flv_seek_keys_def parse_query_uint64_def parse_query_double_ms_def eval_nat_numeral)
qed

end
