(* ===== verification/Http_Playlist.thy ===== *)
theory Http_Playlist
  imports Http_Route
begin

text \<open>
  How the lines of a playlist become paths of the server (the rest of
  \<open>session/http/http_route_path.c\<close>), and that the router takes these paths back to the segment.\<close>

section \<open>The lines\<close>

definition strip_cr_end :: "bytes \<Rightarrow> bytes" where
  "strip_cr_end s = rev (dropWhile (\<lambda>c. c = 13) (rev s))"

definition hls_line_is_plain_seg :: "bytes \<Rightarrow> bool" where
  "hls_line_is_plain_seg line \<longleftrightarrow>
     (let b = strip_cr_end line
      in 4 \<le> length line \<and> length b < 64
         \<and> (C_String.strcaseeq b (asc ''init.mp4'') \<or> hls_seg_file_is_index_ts b \<or> hls_seg_file_is_index_m4s b))"

text \<open>The line that names the initial segment, written anew in an array of \<open>cap\<close> bytes.\<close>

definition hls_line_rewrite_map_uri :: "bytes \<Rightarrow> bytes \<Rightarrow> nat \<Rightarrow> bytes option" where
  "hls_line_rewrite_map_uri prefix line cap =
     (case C_String.strstr line (asc ''URI='' @ [34]) of
        None \<Rightarrow> None
      | Some i \<Rightarrow>
          if prefix = [] \<or> cap < 32 then None
          else let uri = drop (i + 5) line
               in case find_char uri 34 of
                    None \<Rightarrow> None
                  | Some n \<Rightarrow>
                      if n \<ge> (ZMS_APP_MAX + 1 + ZMS_STREAM_MAX + 32) - length prefix - 1 then None
                      else let t = asc ''#EXT-X-MAP:URI='' @ [34] @ prefix @ take n uri @ [34, 44, 13, 10]
                           in if length t < cap then Some t else None)"

text \<open>What a line of a live playlist, without its end, is replaced by.\<close>

definition live_piece :: "bytes \<Rightarrow> bytes \<Rightarrow> bytes" where
  "live_piece prefix line =
     (let seg = strip_cr_end line
      in if hls_line_is_plain_seg seg then prefix @ seg
         else if length seg > 12 \<and> starts_with (asc ''#EXT-X-MAP:'') seg then
           (case hls_line_rewrite_map_uri prefix (take 255 seg) 256 of None \<Rightarrow> line | Some m \<Rightarrow> m)
         else line)"

text \<open>The loop over the lines, which stops before the array of \<open>room\<close> bytes would be full.\<close>

function rewrite_lines :: "(bytes \<Rightarrow> bytes) \<Rightarrow> nat \<Rightarrow> bytes \<Rightarrow> bytes \<Rightarrow> bytes" where
  "rewrite_lines piece room todo out =
     (if todo = [] \<or> length out \<ge> room then out
      else case find_char todo 10 of
        None \<Rightarrow> (let x = piece todo in if length out + length x + 1 > room then out else out @ x)
      | Some i \<Rightarrow>
          (let x = piece (take i todo)
           in if length out + length x + 2 > room then out
              else rewrite_lines piece room (drop (Suc i) todo) (out @ x @ [10])))"
  by auto
termination by (relation "measure (\<lambda>(_, _, todo, _). length todo)") auto

declare rewrite_lines.simps [simp del]

definition rewritten :: "(bytes \<Rightarrow> bytes) \<Rightarrow> nat \<Rightarrow> bytes \<Rightarrow> nat \<Rightarrow> bytes" where
  "rewritten piece tmp buf cap =
     (let out = rewrite_lines piece (min cap tmp) buf [] in take (if length out \<ge> cap then cap - 1 else length out) out)"

definition zms_http_route_rewrite_live_hls_m3u8 :: "bytes \<Rightarrow> nat \<Rightarrow> bytes \<Rightarrow> bytes \<Rightarrow> bytes" where
  "zms_http_route_rewrite_live_hls_m3u8 buf cap app stream =
     (let prefix = [47] @ app @ [47] @ stream @ [46]
      in if cap = 0 \<or> app = [] \<or> stream = [] \<or> length prefix \<ge> ZMS_APP_MAX + 1 + ZMS_STREAM_MAX + 2 then buf
         else rewritten (live_piece prefix) 4096 buf cap)"

definition vod_hls_line_is_seg_uri :: "bytes \<Rightarrow> bool" where
  "vod_hls_line_is_seg_uri line \<longleftrightarrow>
     (let s = rev (dropWhile (\<lambda>c. c \<in> {13, 32, 9}) (rev line))
      in 4 \<le> length line \<and> 4 \<le> length s \<and> hd s \<noteq> 35 \<and> hd s \<noteq> 47
         \<and> (\<forall>c \<in> set s. c = 47 \<or> (97 \<le> c \<and> c \<le> 122) \<or> (65 \<le> c \<and> c \<le> 90) \<or> isdigit c \<or> c \<in> {46, 95, 45})
         \<and> path_ends_with_ci s (asc ''.ts''))"

definition vod_piece :: "bytes \<Rightarrow> bytes \<Rightarrow> bytes" where
  "vod_piece prefix line = (let seg = strip_cr_end line in if vod_hls_line_is_seg_uri seg then prefix @ seg else line)"

definition zms_http_route_rewrite_vod_hls_m3u8 :: "bytes \<Rightarrow> nat \<Rightarrow> bytes \<Rightarrow> bytes \<Rightarrow> bytes" where
  "zms_http_route_rewrite_vod_hls_m3u8 buf cap app rel =
     (let dir = (case find_last_char rel 47 of None \<Rightarrow> [] | Some i \<Rightarrow> if i = 0 then [] else fit ZMS_STREAM_MAX (take i rel));
          prefix = [47] @ app @ [47] @ (if dir = [] then [] else dir @ [47])
      in if cap = 0 \<or> app = [] \<or> length prefix \<ge> ZMS_CFG_PATH_MAX then buf
         else rewritten (vod_piece prefix) 8192 buf cap)"

section \<open>The array is never left\<close>

lemma rewrite_lines_room: "length out < room \<Longrightarrow> length (rewrite_lines piece room todo out) < room"
proof (induction piece room todo out rule: rewrite_lines.induct)
  case (1 piece room todo out)
  show ?case
    using 1 by (subst rewrite_lines.simps) (auto simp: Let_def split: option.splits)
qed

text \<open>A rewritten playlist is at most as long as its array, and it is cut between two lines.\<close>

definition unlines :: "bytes list \<Rightarrow> bytes" where "unlines ls = concat (map (\<lambda>l. l @ [10]) ls)"

lemma unlines_Cons: "unlines (l # ls) = l @ 10 # unlines ls" "unlines [] = []"
  by (simp_all add: unlines_def)

lemma rewrite_lines_lines:
  assumes "\<forall>l \<in> set ls. 10 \<notin> set l" "length out < room"
  shows "\<exists>k. rewrite_lines piece room (unlines ls) out = out @ unlines (map piece (take k ls))
    \<and> (length out + length (unlines (map piece ls)) < room \<longrightarrow> k = length ls)"
  using assms
proof (induction ls arbitrary: out)
  case Nil
  then show ?case by (subst rewrite_lines.simps) (simp add: unlines_Cons)
next
  case (Cons l ls)
  have f: "find_char (unlines (l # ls)) 10 = Some (length l)"
    using Cons.prems find_char_append[of 10 l "unlines ls"] by (simp add: unlines_Cons)
  have ne: "unlines (l # ls) \<noteq> []" "take (length l) (unlines (l # ls)) = l" "drop (Suc (length l)) (unlines (l # ls)) = unlines ls"
    by (simp_all add: unlines_Cons)
  show ?case
  proof (cases "length out + length (piece l) + 2 > room")
    case True
    then have "rewrite_lines piece room (unlines (l # ls)) out = out"
      by (subst rewrite_lines.simps) (simp add: f ne Let_def)
    with True show ?thesis by (intro exI[of _ 0]) (simp add: unlines_Cons)
  next
    case False
    then have r: "rewrite_lines piece room (unlines (l # ls)) out = rewrite_lines piece room (unlines ls) (out @ piece l @ [10])"
      using Cons.prems by (subst rewrite_lines.simps) (simp add: f ne Let_def)
    have "length (out @ piece l @ [10]) < room" using False by simp
    with Cons.IH[of "out @ piece l @ [10]"] Cons.prems(1) obtain k where
      "rewrite_lines piece room (unlines ls) (out @ piece l @ [10]) = (out @ piece l @ [10]) @ unlines (map piece (take k ls))
       \<and> (length (out @ piece l @ [10]) + length (unlines (map piece ls)) < room \<longrightarrow> k = length ls)" by auto
    then show ?thesis unfolding r by (intro exI[of _ "Suc k"]) (simp add: unlines_Cons)
  qed
qed

lemma rewritten_lines:
  assumes "\<forall>l \<in> set ls. 10 \<notin> set l" "0 < cap" "0 < tmp"
  shows "\<exists>k. rewritten piece tmp (unlines ls) cap = unlines (map piece (take k ls))
    \<and> (length (unlines (map piece ls)) < min cap tmp \<longrightarrow> k = length ls) \<and> length (rewritten piece tmp (unlines ls) cap) < min cap tmp"
proof -
  have m: "length ([] :: bytes) < min cap tmp" using assms by simp
  have l: "length (rewrite_lines piece (min cap tmp) (unlines ls) []) < min cap tmp" by (rule rewrite_lines_room[OF m])
  then have r: "rewritten piece tmp (unlines ls) cap = rewrite_lines piece (min cap tmp) (unlines ls) []"
    by (simp add: rewritten_def Let_def)
  show ?thesis unfolding r using rewrite_lines_lines[OF assms(1) m, of piece] l by simp
qed

section \<open>Paths are taken back\<close>

lemma ends_ci_last:
  assumes "path_ends_with_ci s x" "x \<noteq> []" shows "tolower (last s) = tolower (last x)"
proof -
  have m: "map tolower (drop (length s - length x) s) = map tolower x" and le: "length x \<le> length s"
    using assms(1) by (auto simp: path_ends_with_ci_def C_String.strcaseeq_def)
  have "0 < length x" using assms(2) by simp
  then have "length s - length x < length s" using le by linarith
  then have ne: "drop (length s - length x) s \<noteq> []" by simp
  have "last (map tolower (drop (length s - length x) s)) = last (map tolower x)" using m by simp
  then show ?thesis using ne assms(2) by (simp add: last_map last_drop)
qed

definition seg_file :: "bytes \<Rightarrow> bool" where
  "seg_file f \<longleftrightarrow> (\<exists>ds. ds \<noteq> [] \<and> (\<forall>c \<in> set ds. isdigit c) \<and> length ds < 60 \<and> (f = ds @ asc ''.ts'' \<or> f = ds @ asc ''.m4s'')) \<or> f = asc ''init.mp4''"

lemma numbered_read:
  assumes "ds \<noteq> []" "\<forall>c \<in> set ds. isdigit c" "stream \<noteq> []" "length stream < ZMS_STREAM_MAX" "length (ds @ ext) < cap" "1 \<le> length ext"
  shows "parse_numbered ext (stream @ 46 # ds @ ext) cap = Some (stream, ds @ ext)"
proof -
  let ?n = "stream @ 46 # ds @ ext"
  have base: "take (length ?n - length ext) ?n = stream @ 46 # ds" by simp
  have "\<not> isdigit 46" by (simp add: isdigit_def)
  then have "takeWhile isdigit (rev (stream @ 46 # ds)) = rev ds"
    using assms(2) by (simp add: takeWhile_append)
  then have p: "length (stream @ 46 # ds) - length (takeWhile isdigit (rev (stream @ 46 # ds))) = Suc (length stream)" by simp
  have e: "ends_with ?n ext" using ends_with_append[of "stream @ 46 # ds" ext] by simp
  have f: "fit cap (ds @ ext) = ds @ ext" using assms(5) by (simp add: fit_def)
  show ?thesis unfolding parse_numbered_def Let_def base p
    using assms(1,3,4,6) e f by (auto simp: Suc_le_eq neq_Nil_conv)
qed

lemma numbered_other:
  assumes "name \<noteq> []" "ext \<noteq> []" "last name \<noteq> last ext" shows "parse_numbered ext name cap = None"
proof -
  have "\<not> ends_with name ext"
  proof
    assume "ends_with name ext"
    then have "last (drop (length name - length ext) name) = last ext" "length ext \<le> length name" by (simp_all add: ends_with_def)
    moreover have "length name - length ext < length name" using assms(1,2) calculation(2) by (cases ext) auto
    ultimately show False using assms(3) by (simp add: last_drop)
  qed
  then show ?thesis by (simp add: parse_numbered_def)
qed

lemma hls_route_split:
  assumes "47 \<notin> set app" "63 \<notin> set app" "63 \<notin> set name" "length app < ZMS_APP_MAX" "length app + length name < 509"
  shows "is_rooted ([47] @ app @ [47] @ name) \<and> route_split ([47] @ app @ [47] @ name) = Some (app, name)"
proof -
  let ?q = "[47] @ app @ [47] @ name"
  have t: "takeWhile (\<lambda>c. c \<noteq> 63) ?q = ?q"
    using assms(2,3) by (intro takeWhile_eq_all_conv[THEN iffD2]) auto
  have "length ?q \<le> 511" using assms(5) by simp
  then have "route_path ?q = ?q" by (simp only: route_path_def t take_all)
  then show ?thesis using assms(4) find_char_append[OF assms(1), of name] by (simp add: route_split_def is_rooted_def Let_def)
qed

lemma init_read:
  assumes "stream \<noteq> []" "length stream < ZMS_STREAM_MAX" "9 < cap"
  shows "parse_live_hls_init_name (stream @ asc ''.init.mp4'') cap = Some (stream, asc ''init.mp4'')"
  using assms by (simp add: parse_live_hls_init_name_def path_ends_with_ci_def C_String.strcaseeq_def fit_def eval_nat_numeral Suc_le_eq)

text \<open>A segment's line is replaced by a path that the router takes back to the stream and to that segment.\<close>

lemma live_line_routed:
  assumes "seg_file f" "app \<noteq> []" "47 \<notin> set app" "63 \<notin> set app" "length app < ZMS_APP_MAX" "\<not> zms_vod_is_record_app cfg app"
    and "stream \<noteq> []" "63 \<notin> set stream" "length stream < ZMS_STREAM_MAX" "64 \<le> cap"
  shows "zms_http_route_parse_hls_path cfg rest (live_piece ([47] @ app @ [47] @ stream @ [46]) f) cap = (True, app, stream, f)"
proof -
  let ?name = "stream @ 46 # f"
  have digits: "\<not> isdigit 13" "\<not> isdigit 46" "\<not> isdigit 63" "\<not> isdigit 115" by (simp_all add: isdigit_def)
  have lf: "length f < 64" "4 \<le> length f" "63 \<notin> set f" "f \<noteq> []" "last f \<noteq> 13" "last f \<noteq> 56"
    using assms(1) digits by (auto simp: seg_file_def Suc_le_eq neq_Nil_conv)
  have strip: "strip_cr_end f = f"
  proof -
    obtain u v where "f = u @ [v]" using lf(4) by (metis append_butlast_last_id)
    with lf(5) show ?thesis by (simp add: strip_cr_end_def)
  qed
  have idx: "path_ends_with_ci (ds @ x) x \<and> hls_seg_file_is_index_media (ds @ x) x"
    if "ds \<noteq> []" "\<forall>c \<in> set ds. isdigit c" for ds x
    using that by (auto simp: hls_seg_file_is_index_media_def path_ends_with_ci_def C_String.strcaseeq_def Suc_le_eq)
  have plain: "hls_line_is_plain_seg f"
    using assms(1) lf(1,2) idx unfolding hls_line_is_plain_seg_def Let_def strip
    by (auto simp: seg_file_def hls_seg_file_is_index_ts_def hls_seg_file_is_index_m4s_def C_String.strcaseeq_def)
  have piece: "live_piece ([47] @ app @ [47] @ stream @ [46]) f = [47] @ app @ [47] @ ?name"
    by (simp add: live_piece_def Let_def strip plain)
  have split: "is_rooted ([47] @ app @ [47] @ ?name)" "route_split ([47] @ app @ [47] @ ?name) = Some (app, ?name)"
    using hls_route_split[of app ?name] assms lf(1,3) by (simp_all add: ZMS_APP_MAX_def ZMS_STREAM_MAX_def)
  have "tolower (last f) \<noteq> 56"
    using assms(1) by (auto simp: seg_file_def tolower_def)
  then have no: "\<not> path_ends_with_ci ?name (asc ''/hls.m3u8'')" "\<not> path_ends_with_ci ?name (asc ''.m3u8'')"
    using ends_ci_last[of ?name "asc ''/hls.m3u8''"] ends_ci_last[of ?name "asc ''.m3u8''"] lf(4) by (auto simp: tolower_def)
  have "or_else (parse_live_hls_ts_name ?name cap) (or_else (parse_live_hls_m4s_name ?name cap)
      (or_else (parse_live_hls_init_name ?name cap) (parse_live_hls_ts_slash_name ?name cap))) = Some (stream, f)"
  proof (cases "f = asc ''init.mp4''")
    case True
    have "parse_live_hls_ts_name ?name cap = None" "parse_live_hls_m4s_name ?name cap = None"
      unfolding parse_live_hls_ts_name_def parse_live_hls_m4s_name_def by (rule numbered_other; simp add: True)+
    with True init_read[of stream cap] assms(7,9,10) show ?thesis by (simp add: or_else_def)
  next
    case False
    then obtain ds x where f: "ds \<noteq> []" "\<forall>c \<in> set ds. isdigit c" "length ds < 60" "f = ds @ x" "x = asc ''.ts'' \<or> x = asc ''.m4s''"
      using assms(1) by (auto simp: seg_file_def)
    have r: "parse_numbered x ?name cap = Some (stream, f)"
      using numbered_read[OF f(1,2) assms(7,9), of x cap] f(4,5) lf(1) assms(10) by auto
    show ?thesis
    proof (cases "x = asc ''.ts''")
      case True
      then show ?thesis using r by (simp add: or_else_def parse_live_hls_ts_name_def)
    next
      case m4s: False
      then have x: "x = asc ''.m4s''" using f(5) by simp
      have "\<not> ends_with ?name (asc ''.ts'')"
        using f(4) x by (simp add: ends_with_def)
      then have "parse_live_hls_ts_name ?name cap = None" by (simp add: parse_live_hls_ts_name_def parse_numbered_def)
      then show ?thesis using r x by (simp add: or_else_def parse_live_hls_m4s_name_def)
    qed
  qed
  then show ?thesis
    unfolding piece zms_http_route_parse_hls_path_def split using split(1) assms(6) no by simp
qed



text \<open>
  A live stream whose name ends in a dot and a number cannot be asked for as a transport stream:
  the path is taken for a segment of the stream without the number.\<close>

theorem numbered_stream_taken_for_segment:
  assumes "ds \<noteq> []" "\<forall>c \<in> set ds. isdigit c" "length ds < 60" "app \<noteq> []" "47 \<notin> set app" "63 \<notin> set app"
    and "length app < ZMS_APP_MAX" "\<not> zms_vod_is_record_app cfg app" "stream \<noteq> []" "63 \<notin> set stream" "length stream < ZMS_STREAM_MAX"
  shows "zms_http_route_parse_live_ts_path cfg ([47] @ app @ [47] @ (stream @ [46] @ ds) @ asc ''.ts'') = (False, app, [])"
proof -
  let ?name = "stream @ 46 # ds @ asc ''.ts''"
  have "63 \<notin> set ?name" using assms(2,10) by (auto simp: isdigit_def)
  then have split: "is_rooted ([47] @ app @ [47] @ ?name)" "route_split ([47] @ app @ [47] @ ?name) = Some (app, ?name)"
    using hls_route_split[OF assms(5,6) _ assms(7), of ?name] assms(3,7,11) by (simp_all add: ZMS_APP_MAX_def ZMS_STREAM_MAX_def)
  have "parse_live_hls_ts_name ?name 128 = Some (stream, ds @ asc ''.ts'')"
    using numbered_read[OF assms(1,2,9,11), of "asc ''.ts''" 128] assms(3) by (simp add: parse_live_hls_ts_name_def)
  then have "zms_http_route_parse_live_ts_path cfg ([47] @ app @ [47] @ ?name) = (False, app, [])"
    unfolding zms_http_route_parse_live_ts_path_def split using split(1) by simp
  then show ?thesis by simp
qed

end
