(* ===== verification/Hls_Playlist.thy ===== *)
theory Hls_Playlist
  imports C_String
begin

text \<open>
  The segments of an HLS stream in memory (\<open>live/play/hls/http_hls_playlist.c\<close>): a ring of the last
  segments, their names and the playlist. The writer of playlists belongs to libhls, which
  \<open>media/container/hls/hls_playlist.c\<close> only passes on, and is a record of functions over a state \<open>'m\<close>. A buffer is its reference count's handle \<open>'b\<close>; \<open>data\<close> gives its
  bytes. The product of the duration of a segment in seconds and 1000, a conversion of floating
  point numbers, is the field \<open>hp_seg_ms\<close>. The number of slots is below \<open>2 ^ 31\<close>, where the casts of the
  code to \<open>int\<close> keep it. One call is one step; that the number of a segment is taken before the mutex
  is locked is not seen here.
\<close>

record 'm m3u8_lib =
  m3_create :: "nat \<Rightarrow> nat \<Rightarrow> 'm option"
  m3_x_map :: "'m \<Rightarrow> bytes \<Rightarrow> 'm"
  m3_add :: "'m \<Rightarrow> bytes \<Rightarrow> int \<Rightarrow> int \<Rightarrow> bool \<Rightarrow> 'm"
  m3_playlist :: "'m \<Rightarrow> nat \<Rightarrow> bytes option"

record 'b zms_http_hls_segment =
  sg_name :: bytes
  sg_dur_ms :: u32
  sg_buf :: "'b option"

record ('b, 'm) zms_http_hls_playlist =
  hp_m3u8 :: "'m option"
  hp_seg_ms :: u32
  hp_seg_number :: nat
  hp_file_index :: u64
  hp_segments :: "'b zms_http_hls_segment list"
  hp_seg_count :: nat
  hp_seg_head :: nat
  hp_use_fmp4 :: bool
  hp_init_seg :: "'b option"

definition seg_empty :: "'b zms_http_hls_segment" where
  "seg_empty = \<lparr>sg_name = [], sg_dur_ms = 0, sg_buf = None\<rparr>"

text \<open>Freeing a segment: what remains, and the buffers whose reference is given back.\<close>

definition hls_seg_free :: "'b zms_http_hls_segment \<Rightarrow> 'b zms_http_hls_segment \<times> 'b list" where
  "hls_seg_free s = (seg_empty, case sg_buf s of None \<Rightarrow> [] | Some b \<Rightarrow> [b])"

definition m3u8_start :: "'m m3u8_lib \<Rightarrow> nat \<Rightarrow> bool \<Rightarrow> 'm option" where
  "m3u8_start L n fmp4 =
     map_option (\<lambda>m. if fmp4 then m3_x_map L m (asc ''init.mp4'') else m) (m3_create L n (if fmp4 then 7 else 3))"

text \<open>\<open>seg_ms\<close> belongs to the duration that is chosen: the one asked for when it is positive, else two seconds.\<close>

definition zms_http_hls_playlist_create :: "'m m3u8_lib \<Rightarrow> bool \<Rightarrow> u32 \<Rightarrow> nat \<Rightarrow> bool \<Rightarrow> ('b, 'm) zms_http_hls_playlist option" where
  "zms_http_hls_playlist_create L mem_ok seg_ms segment_count fmp4 =
     (let n = (if segment_count = 0 then 3 else segment_count)
      in case m3u8_start L n fmp4 of
           None \<Rightarrow> None
         | Some m \<Rightarrow>
             if mem_ok then Some \<lparr>hp_m3u8 = Some m, hp_seg_ms = seg_ms, hp_seg_number = n, hp_file_index = 0,
               hp_segments = replicate n seg_empty, hp_seg_count = 0, hp_seg_head = 0, hp_use_fmp4 = fmp4, hp_init_seg = None\<rparr>
             else None)"

definition hls_held :: "('b, 'm) zms_http_hls_playlist \<Rightarrow> 'b list" where
  "hls_held p = concat (map (\<lambda>s. snd (hls_seg_free s)) (hp_segments p)) @ (case hp_init_seg p of None \<Rightarrow> [] | Some b \<Rightarrow> [b])"

definition zms_http_hls_playlist_destroy :: "('b, 'm) zms_http_hls_playlist \<Rightarrow> 'b list" where
  "zms_http_hls_playlist_destroy p = hls_held p"

definition zms_http_hls_playlist_reset :: "'m m3u8_lib \<Rightarrow> ('b, 'm) zms_http_hls_playlist \<Rightarrow> ('b, 'm) zms_http_hls_playlist \<times> 'b list" where
  "zms_http_hls_playlist_reset L p =
     (p\<lparr>hp_segments := replicate (hp_seg_number p) seg_empty, hp_seg_count := 0, hp_seg_head := 0, hp_file_index := 0,
        hp_init_seg := None,
        hp_m3u8 := (if hp_m3u8 p = None then None else m3u8_start L (hp_seg_number p) (hp_use_fmp4 p))\<rparr>,
      hls_held p)"

definition hls_dur :: "u32 \<Rightarrow> int \<Rightarrow> u32" where
  "hls_dur seg_ms duration_ms =
     (let dur0 = (if duration_ms > 0 then of_int duration_ms else seg_ms);
          dur1 = (if dur0 = 0 then seg_ms else dur0)
      in if dur1 = 0 then 2000 else dur1)"

definition store_segment_locked_buf :: "'m m3u8_lib \<Rightarrow> ('b \<Rightarrow> bytes) \<Rightarrow> ('b, 'm) zms_http_hls_playlist \<Rightarrow> bytes \<Rightarrow> 'b \<Rightarrow> int \<Rightarrow> int \<Rightarrow> bool
    \<Rightarrow> ('b, 'm) zms_http_hls_playlist \<times> 'b list" where
  "store_segment_locked_buf L data p name b pts_ms duration_ms disc =
     (if data b = [] then (p, [])
      else
        let dur = hls_dur (hp_seg_ms p) duration_ms;
            k = hp_seg_head p mod hp_seg_number p;
            freed = snd (hls_seg_free (hp_segments p ! k))
        in (p\<lparr>hp_segments := (hp_segments p)[k := \<lparr>sg_name = fit 64 name, sg_dur_ms = dur, sg_buf = Some b\<rparr>],
              hp_m3u8 := map_option (\<lambda>m. m3_add L m name pts_ms (uint dur) disc) (hp_m3u8 p),
              hp_seg_head := (hp_seg_head p + 1) mod hp_seg_number p,
              hp_seg_count := (if hp_seg_count p < hp_seg_number p then hp_seg_count p + 1 else hp_seg_count p)\<rparr>,
            freed))"

definition hls_name :: "bool \<Rightarrow> u64 \<Rightarrow> bytes" where
  "hls_name fmp4 i = dec (unat i) @ asc (if fmp4 then ''.m4s'' else ''.ts'')"

definition zms_http_hls_playlist_push_segment_buf :: "'m m3u8_lib \<Rightarrow> ('b \<Rightarrow> bytes) \<Rightarrow> ('b, 'm) zms_http_hls_playlist \<Rightarrow> 'b \<Rightarrow> int \<Rightarrow> u64 \<Rightarrow> bool
    \<Rightarrow> ztk_err \<times> ('b, 'm) zms_http_hls_playlist \<times> 'b list" where
  "zms_http_hls_playlist_push_segment_buf L data p b pts_ms duration_ms disc =
     (if data b = [] then (ZTK_ERR_INVALID, p, [])
      else
        let d0 = (if duration_ms = 0 then ucast (hp_seg_ms p) else duration_ms);
            d = (if d0 = 0 then 2000 else d0)
        in (ZTK_OK, store_segment_locked_buf L data (p\<lparr>hp_file_index := hp_file_index p + 1\<rparr>)
              (fit 64 (hls_name (hp_use_fmp4 p) (hp_file_index p))) b pts_ms (sint d) disc))"

text \<open>The variant that copies the bytes into a buffer of its own, when one can be had.\<close>

definition zms_http_hls_playlist_push_segment :: "'m m3u8_lib \<Rightarrow> ('b \<Rightarrow> bytes) \<Rightarrow> (bytes \<Rightarrow> 'b option) \<Rightarrow> ('b, 'm) zms_http_hls_playlist \<Rightarrow> bytes \<Rightarrow> int \<Rightarrow> u64
    \<Rightarrow> bool \<Rightarrow> ztk_err \<times> ('b, 'm) zms_http_hls_playlist \<times> 'b list" where
  "zms_http_hls_playlist_push_segment L data alloc p d pts_ms duration_ms disc =
     (if d = [] then (ZTK_ERR_INVALID, p, [])
      else case alloc d of
        None \<Rightarrow> (ZTK_ERR_NOMEM, p, [])
      | Some b \<Rightarrow>
          (case zms_http_hls_playlist_push_segment_buf L data p b pts_ms duration_ms disc of
             (e, p1, freed) \<Rightarrow> (e, p1, if e = ZTK_OK then freed else freed @ [b])))"

definition zms_http_hls_playlist_build_m3u8 :: "'m m3u8_lib \<Rightarrow> ('b, 'm) zms_http_hls_playlist \<Rightarrow> nat \<Rightarrow> ztk_err \<times> bytes option" where
  "zms_http_hls_playlist_build_m3u8 L p cap =
     (case hp_m3u8 p of
        None \<Rightarrow> (ZTK_ERR_INVALID, None)
      | Some m \<Rightarrow>
          if cap < 32 then (ZTK_ERR_INVALID, None)
          else (case m3_playlist L m cap of None \<Rightarrow> (ZTK_ERR_BUFFER_TOO_SMALL, None) | Some t \<Rightarrow> (ZTK_OK, Some t)))"

text \<open>The segments from the oldest to the newest.\<close>

definition hls_slot :: "('b, 'm) zms_http_hls_playlist \<Rightarrow> nat \<Rightarrow> 'b zms_http_hls_segment" where
  "hls_slot p i = hp_segments p ! ((hp_seg_head p + hp_seg_number p + i - hp_seg_count p) mod hp_seg_number p)"

definition seg_is :: "('b \<Rightarrow> bytes) \<Rightarrow> bytes \<Rightarrow> 'b zms_http_hls_segment \<Rightarrow> bool" where
  "seg_is data name s \<longleftrightarrow> sg_name s \<noteq> [] \<and> sg_name s = name \<and> (case sg_buf s of None \<Rightarrow> False | Some b \<Rightarrow> data b \<noteq> [])"

definition hls_find :: "('b \<Rightarrow> bytes) \<Rightarrow> ('b, 'm) zms_http_hls_playlist \<Rightarrow> bytes \<Rightarrow> 'b option" where
  "hls_find data p name = Option.bind (find (seg_is data name) (map (hls_slot p) [0..<hp_seg_count p])) sg_buf"

definition zms_http_hls_playlist_copy_segment :: "('b \<Rightarrow> bytes) \<Rightarrow> ('b, 'm) zms_http_hls_playlist \<Rightarrow> bytes \<Rightarrow> nat \<Rightarrow> ztk_err \<times> bytes option" where
  "zms_http_hls_playlist_copy_segment data p name cap =
     (case hls_find data p name of
        None \<Rightarrow> (ZTK_ERR_INVALID, None)
      | Some b \<Rightarrow> if length (data b) > cap then (ZTK_ERR_BUFFER_TOO_SMALL, None) else (ZTK_OK, Some (data b)))"

definition zms_http_hls_playlist_use_fmp4 :: "('b, 'm) zms_http_hls_playlist \<Rightarrow> bool" where
  "zms_http_hls_playlist_use_fmp4 p = hp_use_fmp4 p"

definition zms_http_hls_playlist_store_init_segment :: "('b \<Rightarrow> bytes) \<Rightarrow> ('b, 'm) zms_http_hls_playlist \<Rightarrow> 'b
    \<Rightarrow> ztk_err \<times> ('b, 'm) zms_http_hls_playlist \<times> 'b list" where
  "zms_http_hls_playlist_store_init_segment data p b =
     (if data b = [] then (ZTK_ERR_INVALID, p, [])
      else (ZTK_OK, p\<lparr>hp_init_seg := Some b\<rparr>, case hp_init_seg p of None \<Rightarrow> [] | Some b0 \<Rightarrow> [b0]))"

text \<open>The buffer that is handed out with a reference of its own.\<close>

definition zms_http_hls_playlist_ref_segment :: "('b \<Rightarrow> bytes) \<Rightarrow> ('b, 'm) zms_http_hls_playlist \<Rightarrow> bytes \<Rightarrow> ztk_err \<times> 'b option" where
  "zms_http_hls_playlist_ref_segment data p name =
     (case (if hp_use_fmp4 p \<and> name = asc ''init.mp4'' then Option.bind (hp_init_seg p) (\<lambda>b. if data b \<noteq> [] then Some b else None) else None) of
        Some b \<Rightarrow> (ZTK_OK, Some b)
      | None \<Rightarrow> (case hls_find data p name of None \<Rightarrow> (ZTK_ERR_INVALID, None) | Some b \<Rightarrow> (ZTK_OK, Some b)))"

definition zms_http_hls_playlist_segment_count :: "('b, 'm) zms_http_hls_playlist \<Rightarrow> nat" where
  "zms_http_hls_playlist_segment_count p = hp_seg_count p"

definition long_enough :: "('b \<Rightarrow> bytes) \<Rightarrow> ('b, 'm) zms_http_hls_playlist \<Rightarrow> 'b zms_http_hls_segment \<Rightarrow> bool" where
  "long_enough data p s \<longleftrightarrow> (case sg_buf s of None \<Rightarrow> False | Some b \<Rightarrow> data b \<noteq> [] \<and> (hp_use_fmp4 p \<or> 188 \<le> length (data b)))"

definition zms_http_hls_playlist_latest_segment :: "('b \<Rightarrow> bytes) \<Rightarrow> ('b, 'm) zms_http_hls_playlist \<Rightarrow> nat \<Rightarrow> (bytes \<times> nat) option" where
  "zms_http_hls_playlist_latest_segment data p name_cap =
     (if hp_seg_count p = 0 then None
      else let s = hp_segments p ! ((hp_seg_head p + hp_seg_number p - 1) mod hp_seg_number p)
           in if sg_name s \<noteq> [] \<and> long_enough data p s then
                Some (fit name_cap (sg_name s), case sg_buf s of None \<Rightarrow> 0 | Some b \<Rightarrow> length (data b))
              else None)"

definition zms_http_hls_playlist_has_segment :: "('b \<Rightarrow> bytes) \<Rightarrow> ('b, 'm) zms_http_hls_playlist \<Rightarrow> bytes \<Rightarrow> bool" where
  "zms_http_hls_playlist_has_segment data p name \<longleftrightarrow>
     name \<noteq> [] \<and> (\<exists>i \<in> set [0..<hp_seg_count p]. seg_is data name (hls_slot p i) \<and> long_enough data p (hls_slot p i))"

section \<open>The playlist of a file\<close>

text \<open>Milliseconds as seconds with three decimals.\<close>

definition sec3 :: "nat \<Rightarrow> bytes" where
  "sec3 ms = dec (ms div 1000) @ [46] @ [dec_digit (ms div 100), dec_digit (ms div 10), dec_digit ms]"

text \<open>The lengths of the segments: whole ones and a rest, in 64 bits.\<close>

definition vod_durations :: "u64 \<Rightarrow> u32 \<Rightarrow> nat list" where
  "vod_durations whole seg =
     (let n = (whole + ucast seg - 1) div ucast seg; n1 = (if n = 0 then 1 else n)
      in map (\<lambda>i. let at = of_nat i * ucast seg :: u64; remain = (if whole > at then whole - at else 0);
                      d = (if remain \<ge> ucast seg then seg else ucast remain)
                  in unat (if d = 0 then 1 else d)) [0..<unat n1])"

text \<open>Appending as long as the array has room for the text and its end.\<close>

fun append_all :: "nat \<Rightarrow> bytes list \<Rightarrow> bytes \<Rightarrow> bytes option" where
  "append_all cap [] out = Some out"
| "append_all cap (t # ts) out = (if length out + length t \<ge> cap then None else append_all cap ts (out @ t))"

definition zms_http_hls_playlist_build_vod_index_m3u8 :: "('b, 'm) zms_http_hls_playlist \<Rightarrow> nat \<Rightarrow> u64 \<Rightarrow> u32 \<Rightarrow> bool \<Rightarrow> ztk_err \<times> bytes option" where
  "zms_http_hls_playlist_build_vod_index_m3u8 p cap total_dur_ms seg_dur_ms endlist =
     (if cap < 64 then (ZTK_ERR_INVALID, None)
      else
        let s0 = (if seg_dur_ms = 0 then hp_seg_ms p else seg_dur_ms);
            seg = (if s0 = 0 then 8333 else s0);
            whole = (if total_dur_ms = 0 then ucast seg else total_dur_ms);
            head = asc ''#EXTM3U'' @ [13, 10] @ asc ''#EXT-X-VERSION:3'' @ [13, 10] @ asc ''#EXT-X-PLAYLIST-TYPE:VOD'' @ [13, 10]
              @ asc ''#EXT-X-TARGETDURATION:'' @ dec (unat ((seg + 999) div 1000)) @ [13, 10]
              @ asc ''#EXT-X-MEDIA-SEQUENCE:0'' @ [13, 10] @ asc ''#EXT-X-ALLOW-CACHE:YES'' @ [13, 10];
            ds = vod_durations whole seg;
            line = (\<lambda>(i, d). asc ''#EXTINF:'' @ sec3 d @ asc '','' @ [13, 10] @ dec i @ asc ''.ts'' @ [13, 10])
        in case append_all cap (head # map line (zip [0..<length ds] ds)) [] of
             None \<Rightarrow> (ZTK_ERR_BUFFER_TOO_SMALL, None)
           | Some out \<Rightarrow>
               if endlist \<and> cap > length out + 16 then
                 (ZTK_OK, Some (out @ asc ''#EXT-X-ENDLIST'' @ [13, 10]))
               else (ZTK_OK, Some out))"

section \<open>The ring is a window\<close>

definition hls_wf :: "('b, 'm) zms_http_hls_playlist \<Rightarrow> bool" where
  "hls_wf p \<longleftrightarrow> 0 < hp_seg_number p \<and> length (hp_segments p) = hp_seg_number p \<and> hp_seg_head p < hp_seg_number p
     \<and> hp_seg_count p \<le> hp_seg_number p
     \<and> (hp_seg_count p < hp_seg_number p \<longrightarrow> hp_seg_head p = hp_seg_count p
          \<and> (\<forall>j < hp_seg_number p. hp_seg_count p \<le> j \<longrightarrow> hp_segments p ! j = seg_empty))"

definition hls_window :: "('b, 'm) zms_http_hls_playlist \<Rightarrow> 'b zms_http_hls_segment list" where
  "hls_window p = map (hls_slot p) [0..<hp_seg_count p]"

lemma hls_window_nth: "i < hp_seg_count p \<Longrightarrow> hls_window p ! i = hls_slot p i"
  by (simp add: hls_window_def)

lemma hls_window_filling: "hls_wf p \<Longrightarrow> hp_seg_count p < hp_seg_number p \<Longrightarrow> hls_window p = take (hp_seg_count p) (hp_segments p)"
  by (rule nth_equalityI) (auto simp: hls_window_def hls_slot_def hls_wf_def)

lemma hls_window_full: "hls_wf p \<Longrightarrow> hp_seg_count p = hp_seg_number p \<Longrightarrow> i < hp_seg_number p \<Longrightarrow>
   hls_window p ! i = hp_segments p ! ((hp_seg_head p + i) mod hp_seg_number p)"
  by (simp add: hls_window_def hls_slot_def)

definition last_n :: "nat \<Rightarrow> 'a list \<Rightarrow> 'a list" where "last_n n xs = drop (length xs - n) xs"

lemma store_window:
  assumes wf: "hls_wf p" and d: "data b \<noteq> []"
    and st: "store_segment_locked_buf L data p name b pts dur disc = (p1, freed)"
  shows "hls_wf p1 \<and> hp_seg_number p1 = hp_seg_number p \<and> hp_file_index p1 = hp_file_index p \<and> hp_use_fmp4 p1 = hp_use_fmp4 p
    \<and> hp_init_seg p1 = hp_init_seg p
    \<and> (\<exists>s. sg_name s = fit 64 name \<and> sg_buf s = Some b \<and> hls_window p1 = last_n (hp_seg_number p) (hls_window p @ [s]))
    \<and> freed = (if hp_seg_count p < hp_seg_number p then [] else snd (hls_seg_free (hd (hls_window p))))"
proof -
  let ?n = "hp_seg_number p" let ?h = "hp_seg_head p" let ?c = "hp_seg_count p"
  have n: "0 < ?n" "length (hp_segments p) = ?n" "?h < ?n" "?c \<le> ?n" using wf by (auto simp: hls_wf_def)
  define s where "s = \<lparr>sg_name = fit 64 name, sg_dur_ms = hls_dur (hp_seg_ms p) dur, sg_buf = Some b\<rparr>"
  have s: "sg_name s = fit 64 name" "sg_buf s = Some b" by (simp_all add: s_def)
  have p1: "hp_segments p1 = (hp_segments p)[?h := s]"
    "hp_seg_head p1 = (?h + 1) mod ?n" "hp_seg_count p1 = (if ?c < ?n then ?c + 1 else ?c)" "hp_seg_number p1 = ?n"
    "hp_file_index p1 = hp_file_index p" "hp_use_fmp4 p1 = hp_use_fmp4 p" "hp_init_seg p1 = hp_init_seg p"
    and fr: "freed = snd (hls_seg_free (hp_segments p ! ?h))"
    using st d n(3) by (auto simp: store_segment_locked_buf_def Let_def s_def)
  show ?thesis
  proof (cases "?c < ?n")
    case True
    then have h: "?h = ?c" "hp_segments p ! ?h = seg_empty" using wf by (auto simp: hls_wf_def)
    have h1: "hp_seg_head p1 = (if ?c + 1 < ?n then ?c + 1 else 0)" using True h(1) p1(2) by (auto simp: mod_Suc)
    have wf1: "hls_wf p1" using wf True h(1) h1 p1 by (auto simp: hls_wf_def nth_list_update)
    have w: "hls_window p = take ?c (hp_segments p)" by (rule hls_window_filling[OF wf True])
    have w1: "hls_window p1 = take (?c + 1) (hp_segments p1)"
    proof (rule nth_equalityI)
      show "length (hls_window p1) = length (take (?c + 1) (hp_segments p1))" using True n(2) p1 by (simp add: hls_window_def)
      fix i assume "i < length (hls_window p1)"
      then have i: "i < ?c + 1" using True p1(3) by (simp add: hls_window_def)
      have "(hp_seg_head p1 + hp_seg_number p1 + i - hp_seg_count p1) mod hp_seg_number p1 = i"
        using True h1 i p1(3,4) by (cases "?c + 1 < ?n") auto
      then show "hls_window p1 ! i = take (?c + 1) (hp_segments p1) ! i"
        using i True p1(3) hls_window_nth[of i p1] by (simp add: hls_slot_def)
    qed
    have "hls_window p1 = hls_window p @ [s]"
      unfolding w w1 using True n(2) h(1) p1(1) by (simp add: take_Suc_conv_app_nth)
    moreover have "last_n ?n (hls_window p @ [s]) = hls_window p @ [s]" using True by (simp add: last_n_def hls_window_def)
    ultimately show ?thesis using wf1 p1 s fr h(2) True by (auto simp: hls_seg_free_def seg_empty_def)
  next
    case False
    then have c: "?c = ?n" using n(4) by simp
    have h1: "hp_seg_head p1 < ?n" using n(1) p1(2) by simp
    have wf1: "hls_wf p1" using n c False h1 p1 by (auto simp: hls_wf_def)
    have hd: "hd (hls_window p) = hp_segments p ! ?h"
      using hls_window_full[OF wf c, of 0] n(1,3) c by (metis add_0_right hd_conv_nth length_0_conv length_map length_upt diff_zero hls_window_def mod_less neq0_conv)
    have "hls_window p1 = tl (hls_window p) @ [s]"
    proof (rule nth_equalityI)
      show "length (hls_window p1) = length (tl (hls_window p) @ [s])" using False c n(1) p1(3) by (simp add: hls_window_def)
      fix i assume "i < length (hls_window p1)"
      then have i: "i < ?n" using False c p1(3) by (simp add: hls_window_def)
      have "hls_window p1 ! i = hp_segments p1 ! (((?h + 1) mod ?n + i) mod ?n)"
        using hls_window_full[OF wf1, of i] False c p1 i by simp
      also have "((?h + 1) mod ?n + i) mod ?n = (?h + (i + 1)) mod ?n" by (simp add: mod_add_left_eq)
      finally have e: "hls_window p1 ! i = hp_segments p1 ! ((?h + (i + 1)) mod ?n)" .
      show "hls_window p1 ! i = (tl (hls_window p) @ [s]) ! i"
      proof (cases "i + 1 < ?n")
        case True
        have "(?h + (i + 1)) mod ?n \<noteq> ?h"
        proof
          assume m: "(?h + (i + 1)) mod ?n = ?h"
          show False
          proof (cases "?h + (i + 1) < ?n")
            case True
            with m show False by simp
          next
            case False
            then have "(?h + (i + 1)) mod ?n = ?h + (i + 1) - ?n" using n(3) True by (simp add: le_mod_geq)
            with m True False show False by simp
          qed
        qed
        then have "hls_window p1 ! i = hls_window p ! (i + 1)"
          using e hls_window_full[OF wf c True] p1(1) by simp
        then show ?thesis using True c by (simp add: nth_append nth_tl hls_window_def)
      next
        case False
        then have "i + 1 = ?n" using i by simp
        then have "(?h + (i + 1)) mod ?n = ?h" using n(3) by simp
        then show ?thesis using e p1(1) n(2,3) False i c by (simp add: nth_append hls_window_def)
      qed
    qed
    moreover have "last_n ?n (hls_window p @ [s]) = tl (hls_window p) @ [s]"
    proof -
      have l: "length (hls_window p) = ?n" using c by (simp add: hls_window_def)
      then obtain y ys where y: "hls_window p = y # ys" using n(1) by (cases "hls_window p") auto
      then have "length (hls_window p @ [s]) - ?n = Suc 0" using l by simp
      then show ?thesis by (simp only: last_n_def) (simp add: y)
    qed
    ultimately show ?thesis using wf1 p1 s fr hd False by auto
  qed
qed

text \<open>A fresh playlist: created or reset.\<close>

definition hls_fresh :: "('b, 'm) zms_http_hls_playlist \<Rightarrow> bool" where
  "hls_fresh p \<longleftrightarrow> 0 < hp_seg_number p \<and> hp_segments p = replicate (hp_seg_number p) seg_empty \<and> hp_seg_count p = 0
     \<and> hp_seg_head p = 0 \<and> hp_file_index p = 0"

lemma fresh_start:
  "zms_http_hls_playlist_create L mem_ok seg_ms n fmp4 = Some p \<Longrightarrow> hls_fresh p"
  "hls_wf p \<Longrightarrow> hls_fresh (fst (zms_http_hls_playlist_reset L p))"
  by (auto simp: zms_http_hls_playlist_create_def Let_def hls_fresh_def zms_http_hls_playlist_reset_def hls_wf_def
      split: option.splits if_splits)

lemma fresh_wf: "hls_fresh p \<Longrightarrow> hls_wf p \<and> hls_window p = []"
  by (auto simp: hls_fresh_def hls_wf_def hls_window_def)

text \<open>A run of segments: buffer, stamp, duration and discontinuity of each.\<close>

fun hls_pushes :: "'m m3u8_lib \<Rightarrow> ('b \<Rightarrow> bytes) \<Rightarrow> ('b, 'm) zms_http_hls_playlist \<Rightarrow> ('b \<times> int \<times> u64 \<times> bool) list
    \<Rightarrow> ('b, 'm) zms_http_hls_playlist \<times> 'b list" where
  "hls_pushes L data p [] = (p, [])"
| "hls_pushes L data p ((b, pts, dur, disc) # xs) =
     (case zms_http_hls_playlist_push_segment_buf L data p b pts dur disc of
        (_, p1, freed) \<Rightarrow> (case hls_pushes L data p1 xs of (p2, freed2) \<Rightarrow> (p2, freed @ freed2)))"

lemma hls_pushes_append:
  "hls_pushes L data p (xs @ ys) =
     (case hls_pushes L data p xs of (p1, f1) \<Rightarrow> (case hls_pushes L data p1 ys of (p2, f2) \<Rightarrow> (p2, f1 @ f2)))"
  by (induction xs arbitrary: p) (auto split: prod.splits)

lemma dec_length: "n < 10 ^ k \<Longrightarrow> 0 < k \<Longrightarrow> length (dec n) \<le> k"
proof (induction n arbitrary: k rule: dec.induct)
  case (1 n)
  show ?case
  proof (cases "n < 10")
    case True
    then show ?thesis using "1.prems"(2) by (subst dec.simps) simp
  next
    case False
    then obtain m where k: "k = Suc m" "0 < m" using "1.prems" by (cases k; cases "k - 1") auto
    then have "n div 10 < 10 ^ m" using "1.prems"(1) by (simp add: less_mult_imp_div_less mult.commute)
    with "1.IH"[OF False, of m] k show ?thesis using False by (subst dec.simps) simp
  qed
qed

lemma hls_name_fit: "fit 64 (hls_name fmp4 i) = hls_name fmp4 i"
proof -
  have "unat i < 10 ^ 20" using unsigned_less[of i, where ?'a = nat] by simp
  then have "length (dec (unat i)) \<le> 20" by (rule dec_length) simp
  then have "length (hls_name fmp4 i) \<le> 24" by (simp add: hls_name_def)
  then show ?thesis by (simp add: fit_def)
qed

lemma last_n_snoc: "last_n n (last_n n xs @ [x]) = last_n n (xs @ [x])"
proof (cases "length xs < n")
  case False
  then show ?thesis by (cases n) (auto simp: last_n_def Suc_diff_Suc not_less Suc_le_eq)
qed (simp add: last_n_def)

lemma last_n_map: "last_n n (map f xs) = map f (last_n n xs)"
  by (simp add: last_n_def drop_map)

text \<open>
  The ring is a window: after any run of segments it holds the last ones in order, under the
  numbers at which they came, and every buffer that has left it has been given back once, in order.\<close>

definition numbered_segs :: "bool \<Rightarrow> 'b list \<Rightarrow> (bytes \<times> 'b option) list" where
  "numbered_segs fmp4 bs = map (\<lambda>i. (hls_name fmp4 (of_nat i), Some (bs ! i))) [0..<length bs]"

lemma numbered_snoc: "numbered_segs fmp4 (bs @ [b]) = numbered_segs fmp4 bs @ [(hls_name fmp4 (of_nat (length bs)), Some b)]"
  by (simp add: numbered_segs_def nth_append)

theorem hls_ring_is_window:
  assumes "hls_fresh p" "\<forall>x \<in> set xs. data (fst x) \<noteq> []"
  shows "case hls_pushes L data p xs of (q, freed) \<Rightarrow>
      map (\<lambda>s. (sg_name s, sg_buf s)) (hls_window q) = last_n (hp_seg_number p) (numbered_segs (hp_use_fmp4 p) (map fst xs))
      \<and> freed = take (length xs - hp_seg_number p) (map fst xs) \<and> hls_wf q \<and> hp_file_index q = of_nat (length xs)
      \<and> hp_seg_number q = hp_seg_number p \<and> hp_use_fmp4 q = hp_use_fmp4 p \<and> hp_init_seg q = hp_init_seg p"
  using assms(2)
proof (induction xs rule: rev_induct)
  case Nil
  then show ?case using fresh_wf[OF assms(1)] assms(1) by (simp add: numbered_segs_def last_n_def hls_fresh_def)
next
  case (snoc x xs)
  obtain b pts dur disc where x: "x = (b, pts, dur, disc)" by (cases x) auto
  obtain q freed where q: "hls_pushes L data p xs = (q, freed)" by fastforce
  let ?n = "hp_seg_number p"
  have IH: "map (\<lambda>s. (sg_name s, sg_buf s)) (hls_window q) = last_n ?n (numbered_segs (hp_use_fmp4 p) (map fst xs))"
    "freed = take (length xs - ?n) (map fst xs)" "hls_wf q" "hp_file_index q = of_nat (length xs)"
    "hp_seg_number q = ?n" "hp_use_fmp4 q = hp_use_fmp4 p" "hp_init_seg q = hp_init_seg p"
    using snoc by (simp_all add: q)
  let ?q = "q\<lparr>hp_file_index := hp_file_index q + 1\<rparr>" let ?name = "hls_name (hp_use_fmp4 q) (hp_file_index q)"
  have d: "data b \<noteq> []" using snoc.prems by (simp add: x)
  obtain r f2 where r: "zms_http_hls_playlist_push_segment_buf L data q b pts dur disc = (ZTK_OK, r, f2)"
    and st: "store_segment_locked_buf L data ?q ?name b pts
      (sint (if (if dur = 0 then ucast (hp_seg_ms q) else dur) = 0 then 2000 else if dur = 0 then ucast (hp_seg_ms q) else dur)) disc = (r, f2)"
    using d by (cases "store_segment_locked_buf L data ?q ?name b pts
      (sint (if (if dur = 0 then ucast (hp_seg_ms q) else dur) = 0 then 2000 else if dur = 0 then ucast (hp_seg_ms q) else dur)) disc")
      (simp add: zms_http_hls_playlist_push_segment_buf_def Let_def hls_name_fit)
  have wfq: "hls_wf ?q" "hls_window ?q = hls_window q" "hp_seg_count ?q = hp_seg_count q"
    using IH(3) by (auto simp: hls_wf_def hls_window_def hls_slot_def[abs_def])
  note w = store_window[OF wfq(1) d st]
  then obtain s where s: "sg_name s = ?name" "sg_buf s = Some b" "hls_window r = last_n ?n (hls_window q @ [s])"
    using IH(5) wfq(2) by (auto simp: hls_name_fit)
  have len: "hp_seg_count q = min ?n (length xs)"
    using arg_cong[OF IH(1), of length] by (simp add: hls_window_def last_n_def numbered_segs_def)
  have "map (\<lambda>s. (sg_name s, sg_buf s)) (hls_window r) = last_n ?n (numbered_segs (hp_use_fmp4 p) (map fst (xs @ [x])))"
    unfolding s(3) last_n_map[symmetric]
    using last_n_snoc[of ?n "numbered_segs (hp_use_fmp4 p) (map fst xs)"] IH(1,4,6) s(1,2) x
    by (simp add: numbered_snoc)
  moreover have "freed @ f2 = take (length (xs @ [x]) - ?n) (map fst (xs @ [x]))"
  proof (cases "length xs < ?n")
    case True
    then show ?thesis using w len IH(2,5) wfq(3) by simp
  next
    case False
    have n0: "0 < ?n" using IH(3,5) by (simp add: hls_wf_def)
    have ne: "hls_window q \<noteq> []" using len False n0 by (simp add: hls_window_def)
    have nn: "numbered_segs (hp_use_fmp4 p) (map fst xs) ! j = (hls_name (hp_use_fmp4 p) (of_nat j), Some (map fst xs ! j))"
      if "j < length xs" for j using that by (simp add: numbered_segs_def)
    have j: "length xs - ?n < length xs" using n0 False by simp
    have "(sg_name (hd (hls_window q)), sg_buf (hd (hls_window q))) = hd (map (\<lambda>s. (sg_name s, sg_buf s)) (hls_window q))"
      using ne by (simp add: hd_map)
    also have "\<dots> = numbered_segs (hp_use_fmp4 p) (map fst xs) ! (length xs - ?n)"
      unfolding IH(1) last_n_def using n0 False by (subst hd_drop_conv_nth) (auto simp: numbered_segs_def)
    finally have "sg_buf (hd (hls_window q)) = Some (map fst xs ! (length xs - ?n))" using nn[OF j] by simp
    then have "f2 = [map fst xs ! (length xs - ?n)]" using w len False IH(5) wfq(2,3) by (simp add: hls_seg_free_def)
    then show ?thesis using IH(2) False n0 by (simp add: Suc_diff_le take_Suc_conv_app_nth)
  qed
  ultimately show ?case using w IH r x by (simp add: hls_pushes_append q)
qed

lemma unat_of_nat_u64: "n < 2 ^ 64 \<Longrightarrow> unat (of_nat n :: u64) = n"
  by (simp add: unat_of_nat take_bit_nat_eq_self)

lemma hls_name_inj: "hls_name fmp4 (of_nat i) = hls_name fmp4 (of_nat j) \<Longrightarrow> i < 2 ^ 64 \<Longrightarrow> j < 2 ^ 64 \<Longrightarrow> i = j"
proof -
  assume e: "hls_name fmp4 (of_nat i) = hls_name fmp4 (of_nat j)" and b: "i < 2 ^ 64" "j < 2 ^ 64"
  from e have "dec (unat (of_nat i :: u64)) = dec (unat (of_nat j :: u64))" by (simp add: hls_name_def)
  then show "i = j" using b unat_of_nat_u64 by (metis dec_val_dec)
qed

lemma find_map_snd: "Option.bind (find P xs) g = Option.bind (find Q (map f xs)) h"
  if "\<And>x. x \<in> set xs \<Longrightarrow> P x = Q (f x)" "\<And>x. g x = h (f x)"
  using that by (induction xs) auto

lemma find_mid: "\<forall>j \<in> set us. \<not> P j \<Longrightarrow> P i \<Longrightarrow> find P (us @ i # vs) = Some i"
  by (induction us) auto

lemma upt_mid: "a \<le> i \<Longrightarrow> i < b \<Longrightarrow> [a..<b] = [a..<i] @ i # [Suc i..<b]"
proof -
  assume "a \<le> i" "i < b"
  then have "[a..<i + (b - i)] = [a..<i] @ [i..<i + (b - i)]" by (intro upt_add_eq_append) simp
  then show ?thesis using \<open>i < b\<close> upt_conv_Cons[of i b] by simp
qed

lemma find_upt: "find P [a..<b] = (if a \<le> i then Some i else None)" if "i < b" "P i" "\<And>j. j < b \<Longrightarrow> P j \<Longrightarrow> j = i"
proof (cases "a \<le> i")
  case True
  have "\<not> P j" if "j \<in> set [a..<i]" for j
  proof
    assume "P j"
    then have "j = i" using \<open>i < b\<close> that by (intro \<open>\<And>j. j < b \<Longrightarrow> P j \<Longrightarrow> j = i\<close>) auto
    then show False using that by simp
  qed
  then show ?thesis using True \<open>P i\<close> upt_mid[OF True \<open>i < b\<close>] by (simp only: if_True) (rule find_mid, blast+)
next
  case False
  have "\<not> P j" if "j \<in> set [a..<b]" for j
  proof
    assume "P j"
    then have "j = i" using that by (intro \<open>\<And>j. j < b \<Longrightarrow> P j \<Longrightarrow> j = i\<close>) auto
    then show False using that False by simp
  qed
  then show ?thesis using False by (simp add: find_None_iff)
qed

text \<open>
  C35: A segment is fetched by the number it got, whole, as long as it is among the last ones, and not
  any more afterwards.\<close>

theorem hls_fetch:
  assumes "hls_fresh p" "\<forall>x \<in> set xs. data (fst x) \<noteq> []" "length xs < 2 ^ 64" "i < length xs"
    and "hls_pushes L data p xs = (q, freed)"
  shows "zms_http_hls_playlist_copy_segment data q (hls_name (hp_use_fmp4 p) (of_nat i)) cap =
    (if i + hp_seg_number p < length xs then (ZTK_ERR_INVALID, None)
     else if length (data (fst (xs ! i))) > cap then (ZTK_ERR_BUFFER_TOO_SMALL, None)
     else (ZTK_OK, Some (data (fst (xs ! i)))))"
proof -
  let ?n = "hp_seg_number p" let ?f = "hp_use_fmp4 p" let ?name = "hls_name ?f (of_nat i)"
  let ?Q = "\<lambda>(m, o'). m \<noteq> [] \<and> m = ?name \<and> (case o' of None \<Rightarrow> False | Some b \<Rightarrow> data b \<noteq> [])"
  let ?g = "\<lambda>j. (hls_name ?f (of_nat j), Some (fst (xs ! j)))"
  have w: "map (\<lambda>s. (sg_name s, sg_buf s)) (hls_window q) = last_n ?n (numbered_segs ?f (map fst xs))"
    using hls_ring_is_window[OF assms(1,2), of L] assms(5) by simp
  have num: "last_n ?n (numbered_segs ?f (map fst xs)) = map ?g [length xs - ?n..<length xs]"
  proof -
    have "numbered_segs ?f (map fst xs) = map ?g [0..<length xs]" by (auto simp: numbered_segs_def)
    then show ?thesis by (simp add: last_n_def drop_map drop_upt)
  qed
  have "hls_find data q ?name = Option.bind (find ?Q (map (\<lambda>s. (sg_name s, sg_buf s)) (hls_window q))) snd"
    unfolding hls_find_def hls_window_def[symmetric] by (rule find_map_snd) (auto simp: seg_is_def)
  also have "\<dots> = Option.bind (find (\<lambda>j. ?Q (?g j)) [length xs - ?n..<length xs]) (\<lambda>j. snd (?g j))"
    unfolding w num by (rule find_map_snd[symmetric]) auto
  also have "find (\<lambda>j. ?Q (?g j)) [length xs - ?n..<length xs] = (if length xs - ?n \<le> i then Some i else None)"
  proof (rule find_upt[OF assms(4)])
    show "?Q (?g i)" using assms(2,4) by (simp add: hls_name_def)
    show "j = i" if "j < length xs" "?Q (?g j)" for j
      using hls_name_inj[of ?f j i] that assms(3,4) by auto
  qed
  finally show ?thesis by (auto simp: zms_http_hls_playlist_copy_segment_def)
qed

lemma hls_fetch_witness:
  "\<exists>p q f. zms_http_hls_playlist_create \<lparr>m3_create = \<lambda>n v. Some n, m3_x_map = \<lambda>m s. m, m3_add = \<lambda>m s a b c. Suc m,
        m3_playlist = \<lambda>m c. None\<rparr> True 2000 2 False = Some p
    \<and> hls_pushes \<lparr>m3_create = \<lambda>n v. Some n, m3_x_map = \<lambda>m s. m, m3_add = \<lambda>m s a b c. Suc m, m3_playlist = \<lambda>m c. None\<rparr> (\<lambda>b. b) p
        [([1], 0, 2000, False), ([2], 2000, 2000, False), ([3], 4000, 2000, False)] = (q, f)
    \<and> zms_http_hls_playlist_copy_segment (\<lambda>b. b) q (asc ''2.ts'') 64 = (ZTK_OK, Some [3])
    \<and> zms_http_hls_playlist_copy_segment (\<lambda>b. b) q (asc ''0.ts'') 64 = (ZTK_ERR_INVALID, None)"
proof -
  let ?L = "\<lparr>m3_create = \<lambda>n v. Some n, m3_x_map = \<lambda>m s. m, m3_add = \<lambda>m s a b c. Suc m, m3_playlist = \<lambda>m c. None\<rparr> :: nat m3u8_lib"
  let ?xs = "[([1], 0, 2000, False), ([2], 2000, 2000, False), ([3], 4000, 2000, False)] :: (bytes \<times> int \<times> u64 \<times> bool) list"
  obtain p :: "(bytes, nat) zms_http_hls_playlist" where p: "zms_http_hls_playlist_create ?L True 2000 2 False = Some p" "hp_seg_number p = 2" "\<not> hp_use_fmp4 p"
    by (simp add: zms_http_hls_playlist_create_def m3u8_start_def)
  obtain q f where q: "hls_pushes ?L (\<lambda>b. b) p ?xs = (q, f)" by fastforce
  have n: "hls_name False (of_nat 2) = asc ''2.ts''" "hls_name False (of_nat 0) = asc ''0.ts''"
    by (simp_all add: hls_name_def dec.simps dec_digit_def)
  have d: "\<forall>x \<in> set ?xs. fst x \<noteq> []" by simp
  have "zms_http_hls_playlist_copy_segment (\<lambda>b. b) q (hls_name False (of_nat 2)) 64 = (ZTK_OK, Some [3])"
    "zms_http_hls_playlist_copy_segment (\<lambda>b. b) q (hls_name False (of_nat 0)) 64 = (ZTK_ERR_INVALID, None)"
    using hls_fetch[OF fresh_start(1)[OF p(1)] d _ _ q, of 2 64] hls_fetch[OF fresh_start(1)[OF p(1)] d _ _ q, of 0 64] p(2,3)
    by simp_all
  then show ?thesis using p(1) q n by auto
qed

text \<open>The segments of a file cover it: their lengths add up to its length, and none is longer than asked for.\<close>

lemma sum_min: "sum_list (map (\<lambda>i. min S (T - i * S)) [0..<m]) = min T (m * S :: nat)"
  by (induction m) (auto simp: min_def algebra_simps)

theorem vod_durations_cover:
  assumes "0 < unat T" "0 < unat S" "unat T + unat S < 2 ^ 64"
  shows "sum_list (vod_durations T S) = unat T \<and> (\<forall>d \<in> set (vod_durations T S). 0 < d \<and> d \<le> unat S)
    \<and> length (vod_durations T S) = (unat T + unat S - 1) div unat S"
proof -
  let ?t = "unat T" let ?s = "unat S" let ?m = "(?t + ?s - 1) div ?s"
  have us: "unat (ucast S :: u64) = ?s" by (simp add: unsigned_ucast_eq take_bit_nat_eq_self order_less_trans[OF unsigned_less])
  have "unat (T + ucast S - 1) = ?t + ?s - 1"
  proof -
    have "unat (T + ucast S) = (?t + ?s) mod 2 ^ 64" by (simp only: unat_word_ariths us) simp
    then have a: "unat (T + ucast S) = ?t + ?s" using assms(3) by (simp only: mod_less)
    have "1 \<le> T + ucast S" using a assms(1) by (simp add: word_le_nat_alt)
    then show ?thesis using a by (simp add: unat_sub)
  qed
  then have n: "unat ((T + ucast S - 1) div ucast S) = ?m" using us by (simp add: unat_div_distrib)
  have m: "0 < ?m" using assms(1,2) by (simp add: div_greater_zero_iff)
  have cover: "?t \<le> ?m * ?s \<and> (?m - 1) * ?s < ?t"
  proof -
    have e: "?t + ?s - 1 = ?m * ?s + (?t + ?s - 1) mod ?s" by (rule div_mult_mod_eq[symmetric])
    have r: "(?t + ?s - 1) mod ?s < ?s" using assms(2) by simp
    obtain k where k: "?m = Suc k" using m by (cases ?m) auto
    obtain x y where x: "x = (?t + ?s - 1) mod ?s" and y: "y = k * ?s" by blast
    have "?t + ?s - 1 = y + ?s + x" using e unfolding k x[symmetric] by (simp add: y)
    then have "?t \<le> ?s + y \<and> y < ?t" using assms(1) r[folded x] by linarith
    then show ?thesis unfolding k by (simp add: y)
  qed
  have d: "vod_durations T S = map (\<lambda>i. min ?s (?t - i * ?s)) [0..<?m]"
  proof -
    have one: "(let at = of_nat i * ucast S :: u64; remain = (if T > at then T - at else 0); d = (if remain \<ge> ucast S then S else ucast remain)
       in unat (if d = 0 then 1 else d)) = min ?s (?t - i * ?s)" if i: "i < ?m" for i
    proof -
      have le: "i * ?s < ?t" using i cover by (metis Suc_pred' less_Suc_eq_le m mult_le_mono1 order_le_less_trans)
      then have b: "i * ?s < 2 ^ 64" using assms(3) by simp
      have "(of_nat ?s :: u64) = ucast S" by simp
      then have "of_nat i * ucast S = (of_nat (i * ?s) :: u64)" by (simp only: of_nat_mult)
      moreover have "unat (of_nat (i * ?s) :: u64) = i * ?s"
        by (rule unat_of_nat_u64[OF b])
      ultimately have at: "unat (of_nat i * ucast S :: u64) = i * ?s" by (simp only:)
      then have gt: "T > of_nat i * ucast S" using le by (simp add: word_less_nat_alt)
      have rem: "unat (T - of_nat i * ucast S) = ?t - i * ?s" using gt at by (simp add: unat_sub order_less_imp_le)
      show ?thesis
      proof (cases "?s \<le> ?t - i * ?s")
        case True
        then have "T - of_nat i * ucast S \<ge> (ucast S :: u64)" using rem us by (simp add: word_le_nat_alt)
        moreover have "S \<noteq> 0" using assms(2) by auto
        ultimately show ?thesis using gt True by (simp add: Let_def)
      next
        case False
        then have l: "\<not> (T - of_nat i * ucast S \<ge> (ucast S :: u64))" using rem us by (simp add: word_le_nat_alt)
        have "?s < 2 ^ 32" using unsigned_less[of S, where ?'a = nat] by simp
        then have "unat (ucast (T - of_nat i * ucast S) :: u32) = ?t - i * ?s"
          using False by (simp add: unsigned_ucast_eq rem take_bit_nat_eq_self)
        moreover from this have "(ucast (T - of_nat i * ucast S) :: u32) \<noteq> 0" using le by auto
        ultimately show ?thesis using gt l False by (simp add: Let_def)
      qed
    qed
    have nz: "(T + ucast S - 1) div ucast S \<noteq> 0" using n m by (metis less_numeral_extra(3) unsigned_0)
    show ?thesis unfolding vod_durations_def Let_def using nz n one by (auto simp: Let_def)
  qed
  have pos: "0 < min ?s (?t - i * ?s)" if "i < ?m" for i
  proof -
    have "i * ?s < ?t" using that cover by (metis Suc_pred' less_Suc_eq_le m mult_le_mono1 order_le_less_trans)
    then show ?thesis using assms(2) by simp
  qed
  show ?thesis unfolding d using sum_min[of ?s ?t ?m] cover pos by auto
qed

end
