(* ===== verification/Spec2Isabelle.thy ===== *)
theory Spec2Isabelle
  imports Gop_Seek H264_Spec Media_Clock Rtmp_Roundtrip Rtmp_Conn Rtp_Packet
    Http_Request Flv_Tag Rtp_Muxer_Inv Egress_Live Rtsp_Splitter
    Hub_Spec Codec_Filter Ingest_Frames Websocket Sha1_Example Rtsp_Auth Rtsp_Transport Http_Playlist Hls_Playlist
begin

text \<open>
  Verification library of zero-media-server, a live and on-demand streaming server in C.
  Paths below are relative to \<open>src/src/\<close> of the repository.

  \<^bold>\<open>The program.\<close> A publisher (RTMP, RTSP, SRT, WHIP, RTP/PS, a pulled stream) sends bytes that
  a session of its protocol frames and parses. The ingest turns them into frames
  (\<open>engine/frame.c\<close>) with revised time stamps (\<open>engine/media_clock.c\<close>) and commits them to the
  GOP ring of the stream (\<open>engine/gop/gop_queue.c\<close>). Every player owns a reader of that ring,
  positioned by \<open>engine/gop/gop_reader_seek.c\<close>; its egress decides what is due
  (\<open>egress/egress_clock.c\<close>, \<open>egress/egress_live_policy.c\<close>) and a muxer of its protocol
  (\<open>egress/rtp/rtp_muxer.c\<close>, FLV tags, RTMP chunks) writes bytes again.

  \<^bold>\<open>Conventions.\<close> A byte buffer is a list of 8-bit words and a pointer into it the list of the
  bytes behind it, so a read outside is a branch of the model. Integers of the C types are
  words of their width where the code can wrap and int or nat with the bound proved where it
  cannot. A status code is an int (\<open>Prelude\<close>), a call that fails with a value is an option or a
  sum. Callbacks become the list of their calls, in order. What the repository does not hold
  (the toolkit submodule, libflv, librtp, librtsp, the allocator, the wall clock, locks) is a
  parameter of the definitions, a record of functions where it has several.

  \<^bold>\<open>Interfaces\<close> (locales, all interpreted on the model of the code).
  \<^item> \<open>framing\<close> (\<open>Framing\<close>): a stream of length-delimited items is read back item by item.
    Instances: the NAL units of a sample for every length size, the interleaved RTP frames.
  \<^item> \<open>resumable\<close> (\<open>Resume\<close>): an incremental parser whose steps obey four laws gives the same
    events for every cut of its input. Instances: the RTMP chunk parser, the FLV tag framer,
    and every \<open>framing\<close> and \<open>framer_client\<close>, which give one by a sublocale.
  \<^item> \<open>framer_client\<close> (\<open>Http_Framer\<close>): the contract between the message framer and the
    callbacks of its client. Instance: the request reader of \<open>Http_Request\<close>.
  \<^item> \<open>gop_codec\<close> (\<open>Frame\<close>): what the ring expects of the operations of a codec. Instances: the
    operation tables of the codecs.
  \<^item> \<open>egress_clock\<close> (\<open>Media_Clock\<close>): a timeline that maps input stamps to output stamps in
    order. Instances: the mux timeline and the two-track timeline.

  \<^bold>\<open>Theories and code.\<close>
  \<^item> \<open>Media_Types\<close>: \<open>media/codec/codec_id.c\<close>, \<open>engine/frame.h\<close>. \<open>H264_ES\<close>, \<open>H264_AU\<close>, \<open>H265_ES\<close>,
    \<open>H264_Spec\<close>: \<open>media/codec/h264/h264_es.c\<close>, \<open>media/codec/h265/h265_es.c\<close> with the formats
    they are judged against. \<open>Aac_ES\<close>: the ADTS half of \<open>media/codec/aac/aac_over_rtp.c\<close>.
    \<open>Frame_Policy\<close>, \<open>Frame\<close>: \<open>media/codec/frame_policy/frame_codec_policy.c\<close>, \<open>engine/frame.c\<close>.
  \<^item> \<open>Gop_Queue\<close> (state and writer), \<open>Gop_Inv\<close> (invariant), \<open>Gop_Commit\<close> (one commit),
    \<open>Gop_Refine\<close> (the ring against an append-only log and the accounting of buffer references),
    \<open>Gop_Ops\<close> (all public writer operations as one step relation), \<open>Gop_Read\<close>, \<open>Gop_Reader\<close>
    (readers, interleaving buffer, wake-ups), \<open>Gop_Seek\<close>: \<open>engine/gop/gop_queue.c\<close>,
    \<open>engine/gop/gop_reader_seek.c\<close>.
  \<^item> \<open>Media_Clock\<close>: \<open>engine/media_clock.c\<close>. \<open>Egress_Clock\<close>: \<open>egress/egress_clock.c\<close>.
    \<open>Egress_Live\<close>: \<open>egress/egress_pacing.c\<close>, \<open>egress/egress_live_policy.c\<close>.
  \<^item> \<open>Rtp_Muxer\<close>, \<open>Rtp_Muxer_Inv\<close>: \<open>egress/rtp/rtp_muxer.c\<close>, \<open>egress/rtp/rtp_muxer_paramsets.c\<close>.
  \<^item> \<open>Rtmp_Amf\<close>, \<open>Buf_Pool\<close>, \<open>Rtmp_Chunk\<close>, \<open>Rtmp_Chunk_Spec\<close>, \<open>Rtmp_Roundtrip\<close>, \<open>Rtmp_Conn\<close>:
    \<open>session/rtmp/rtmp_amf.c\<close>, \<open>util/buf_pool.c\<close> and the files \<open>session/rtmp/rtmp_protocol*.c\<close>.
  \<^item> \<open>Rtp_Packet\<close>: \<open>media/wire/rtp_packet.c\<close>, \<open>session/rtp/rtcp.c\<close>. \<open>Flv_Tag\<close>:
    \<open>media/container/flv/flv_wire.c\<close>, \<open>media/container/flv/flv_tag_framer.c\<close>.
  \<^item> \<open>C_String\<close>, \<open>Http_Framer\<close>, \<open>Http_Request\<close>: the string routines of the C library,
    \<open>session/http/http_message_framer.c\<close>, \<open>http_parser.c\<close>, \<open>http_request_reader.c\<close>.

  \<^item> \<open>Rtsp_Parser\<close>, \<open>Rtsp_Roundtrip\<close>, \<open>Rtsp_Splitter\<close>, \<open>Rtsp_Auth\<close>, \<open>Rtsp_Transport\<close>:
    \<open>session/rtsp/rtsp_parser.c\<close>, \<open>rtsp_splitter.c\<close>, \<open>rtsp_digest.c\<close>, \<open>rtsp_session_auth.c\<close>,
    \<open>rtsp_transport.c\<close> and the packet side of \<open>rtsp_session_udp.c\<close>.
  \<^item> \<open>Stream_Hub\<close> (registry and its data), \<open>Hub_Ops\<close> (publishers, closing, subscribing), \<open>Hub_Spec\<close>
    (the registry as a step relation), \<open>Stream_Track\<close>, \<open>Stream_Stats\<close>: \<open>engine/stream/\<close>,
    \<open>engine/stream_track.c\<close>, the publish half of \<open>engine/media_event.c\<close>. \<open>Vod_Buffer\<close>:
    \<open>vod/io/vod_buffer.c\<close>. \<open>Vod_Format\<close>, \<open>Vod_Path\<close>: \<open>vod/io/vod_format.c\<close>, \<open>vod/io/vod_source.c\<close>.
  \<^item> \<open>H264_Sps\<close>, \<open>Aac_Config\<close>, \<open>Av1_Rtmp\<close>, \<open>Flv_Probe\<close>, \<open>Codec_Filter\<close>: \<open>h264_sps.c\<close>,
    \<open>aac_over_rtmp.c\<close>, \<open>av1_over_rtmp.c\<close>, \<open>flv_tag_probe.c\<close>, \<open>session/codec_filter.c\<close>.
  \<^item> \<open>Live_Ingest\<close> (state and writing), \<open>Ingest_Codec\<close> (H.264 and H.265 inputs), \<open>Ingest_Input\<close>
    (the other inputs, RTMP messages, reset), \<open>Ingest_Spec\<close> (what every input keeps),
    \<open>Ingest_Frames\<close> (which frames reach the ring): \<open>live/ingest/\<close>. The coders of libflv and the
    audio splitter, the wall clock and the ring's codec operations are the fields of an environment.
  \<^item> \<open>Block_Hash\<close>, \<open>Sha1\<close>, \<open>Sha1_Example\<close>, \<open>Md5\<close>, \<open>Websocket\<close>: \<open>util/crypto/\<close>,
    \<open>session/http/websocket/\<close>. \<open>Http_Route\<close>, \<open>Http_Playlist\<close>: \<open>session/http/http_route_path.c\<close>.
    \<open>Hls_Playlist\<close>: the ring of segments in \<open>live/play/hls/http_hls_playlist.c\<close>.

  \<^bold>\<open>Bounds and fuel.\<close> Loops over buffers recurse on the buffer, with the measure its length;
  those the code could spin in are \<open>partial_function (option)\<close>, and a theorem says when they
  return. The eviction loops of the ring recurse on the number of tracked GOPs. The nesting
  limit of AMF values is the one of the code. No definition stops early for lack of fuel.

  \<^bold>\<open>Not modelled.\<close> One call of an operation is one atomic step: the lock-free protocol between
  the writer of the ring and its readers, and the threads of the pollers, are not modelled, so
  nothing here excludes a data race. Sockets, files, timers, TLS, DTLS and SRTP are services of
  libraries. The command loops of the sessions, the readers of files, WebRTC, the segmenters, the
  recorders, the pull proxy and the HTTP API are not modelled: they drive those libraries under
  timers and sockets. The manifest lists them one by one.
\<close>

end
